(* ===== verification/Py_Prelude.thy ===== *)
theory Py_Prelude
  imports Complex_Main "HOL-Library.AList" "HOL-Library.Char_ord"
    "HOL-Library.List_Lexorder" "HOL-Library.Product_Lexorder"
begin

text \<open>
  Shared ground of the development: the Python values that reach the program's boundary
  checks, exceptions as values, state-passing operations whose state survives an exception,
  Python dictionaries as insertion-ordered association lists, and the interfaces (locales)
  that several components implement.

  Conventions.
  \<^item> \<open>pyval\<close> is an argument of declared type \<open>object\<close> before it is checked.  A member of a
    \<open>str\<close>-based \<open>Enum\<close> is a \<open>str\<close> and is represented by \<open>PStr\<close> of its value where the code
    uses it as a string.  \<open>PEnum c n\<close> is the member of name \<open>n\<close> of the enumeration \<open>c\<close>,
    \<open>PData c fs\<close> an instance of the dataclass \<open>c\<close> with its fields in the order of declaration;
    \<open>PStepRef\<close> and \<open>PTrustedRef\<close> are the two reference classes a planned step may carry as
    parameter values.  \<open>PObj\<close> is an object of some other class: neither a number, a string, a
    container, a member of an enumeration nor an instance of a dataclass.
  \<^item> An argument that the code first checks to be an object of one class of the program is given
    as the record of that class; the \<open>TypeError\<close> for anything else is then not representable.
  \<^item> Strings are lists of characters, one per code point (code points below 256).
  \<^item> A finite \<open>float\<close> is the rational it denotes; infinities and NaN are separate.  Conversion
    of an integer rounds to 53 bits, half to even, and overflows as Python does.  The few
    additions and subtractions of times are exact.
  \<^item> An operation returns the result and the state after it, also when it raises.
  \<^item> The reentrant locks of the source make each operation atomic, so a concurrent run is a
    sequence of operations.
\<close>

section \<open>Lemma collections\<close>

named_theorems py_def \<open>definitions of boundary checks\<close>
named_theorems py_inv \<open>invariant preservation rules\<close>
named_theorems enum_simps \<open>enumeration value tables\<close>

section \<open>Values and exceptions\<close>

datatype pyfloat = Fin rat | PosInf | NegInf | NaN

datatype pyval =
    PNone
  | PBool bool
  | PInt int
  | PFloat pyfloat
  | PStr string
  | PList "pyval list"
  | PTuple "pyval list"
  | PDict "(pyval \<times> pyval) list"
  | PStepRef string string
  | PTrustedRef string
  | PEnum string string
  | PData string "(string \<times> pyval) list"
  | PObj nat

datatype exn =
    TypeError string
  | ValueError string
  | KeyError string
  | RuntimeError string
  | OverflowError
  | AttributeError string
  | TimeoutError string
  | TargetClaimError string
  | ModelRequestBrokerError string
  | ModelRequestDispatcherError string
  | PlanningStateError string
  | PlanningRecoveryError string
  | MissionProgramError string
  | TaskPlanError string
  | RouteRegistryError string
  | RouteContractError string
  | SpatialContractError string
  | SpatialResolutionError string
  | MissingFramePoseError string
  | UnresolvedSpatialReferenceError string
  | RouteCollisionMonitorError string
  | AdapterRegistryError string
  | TargetStateError string
  | CandidateConfirmationError string

text \<open>\<open>bool(v)\<close>, as \<open>or\<close> and \<open>if\<close> use it.\<close>

fun py_truthy :: "pyval \<Rightarrow> bool" where
  "py_truthy PNone = False"
| "py_truthy (PBool b) = b"
| "py_truthy (PInt i) = (i \<noteq> 0)"
| "py_truthy (PFloat f) = (f \<noteq> Fin 0)"
| "py_truthy (PStr s) = (s \<noteq> [])"
| "py_truthy (PList xs) = (xs \<noteq> [])"
| "py_truthy (PTuple xs) = (xs \<noteq> [])"
| "py_truthy (PDict d) = (d \<noteq> [])"
| "py_truthy (PStepRef i f) = True"
| "py_truthy (PTrustedRef t) = True"
| "py_truthy (PEnum c n) = True"
| "py_truthy (PData c fs) = True"
| "py_truthy (PObj n) = True"

type_synonym 'a result = "exn + 'a"

text \<open>\<open>except (TypeError, ValueError)\<close>: which of the exceptions are of these classes.\<close>

fun is_type_or_value_error :: "exn \<Rightarrow> bool" where
  "is_type_or_value_error (TypeError m) = True"
| "is_type_or_value_error (ValueError m) = True"
| "is_type_or_value_error (TargetClaimError m) = True"
| "is_type_or_value_error (MissionProgramError m) = True"
| "is_type_or_value_error (TaskPlanError m) = True"
| "is_type_or_value_error (RouteContractError m) = True"
| "is_type_or_value_error (SpatialContractError m) = True"
| "is_type_or_value_error (SpatialResolutionError m) = True"
| "is_type_or_value_error (MissingFramePoseError m) = True"
| "is_type_or_value_error (UnresolvedSpatialReferenceError m) = True"
| "is_type_or_value_error (AdapterRegistryError m) = True"
| "is_type_or_value_error _ = False"

section \<open>Sequencing\<close>

text \<open>Checks that do not touch the state.\<close>

definition rbind :: "'a result \<Rightarrow> ('a \<Rightarrow> 'b result) \<Rightarrow> 'b result" where
  "rbind r k = (case r of Inl e \<Rightarrow> Inl e | Inr x \<Rightarrow> k x)"

lemma rbind_simps [simp]: "rbind (Inl e) k = Inl e" "rbind (Inr x) k = k x"
  by (simp_all add: rbind_def)

lemma rbind_eq_Inr: "rbind r k = Inr y \<longleftrightarrow> (\<exists>x. r = Inr x \<and> k x = Inr y)"
  by (cases r) simp_all

lemma rbind_eq_Inl: "rbind r k = Inl e \<longleftrightarrow> r = Inl e \<or> (\<exists>x. r = Inr x \<and> k x = Inl e)"
  by (cases r) simp_all

lemma rbind_split: "P (rbind r k) \<longleftrightarrow> (\<forall>e. r = Inl e \<longrightarrow> P (Inl e)) \<and> (\<forall>x. r = Inr x \<longrightarrow> P (k x))"
  by (cases r) simp_all

lemma rbind_split_asm:
  "P (rbind r k) \<longleftrightarrow> \<not> ((\<exists>e. r = Inl e \<and> \<not> P (Inl e)) \<or> (\<exists>x. r = Inr x \<and> \<not> P (k x)))"
  by (cases r) simp_all

lemmas rbind_splits = rbind_split rbind_split_asm

text \<open>Checks inside a stateful operation: the state is kept when the check raises.\<close>

definition checked :: "'s \<Rightarrow> 'a result \<Rightarrow> ('a \<Rightarrow> 'b result \<times> 's) \<Rightarrow> 'b result \<times> 's" where
  "checked s r k = (case r of Inl e \<Rightarrow> (Inl e, s) | Inr x \<Rightarrow> k x)"

lemma checked_simps [simp]: "checked s (Inl e) k = (Inl e, s)" "checked s (Inr x) k = k x"
  by (simp_all add: checked_def)

lemma checked_split:
  "P (checked s r k) \<longleftrightarrow> (\<forall>e. r = Inl e \<longrightarrow> P (Inl e, s)) \<and> (\<forall>x. r = Inr x \<longrightarrow> P (k x))"
  by (cases r) simp_all

lemma checked_split_asm:
  "P (checked s r k) \<longleftrightarrow>
     \<not> ((\<exists>e. r = Inl e \<and> \<not> P (Inl e, s)) \<or> (\<exists>x. r = Inr x \<and> \<not> P (k x)))"
  by (cases r) simp_all

lemmas checked_splits = checked_split checked_split_asm

lemma checked_eq_Inr: "checked s r k = (Inr y, t) \<longleftrightarrow> (\<exists>x. r = Inr x \<and> k x = (Inr y, t))"
  by (cases r) simp_all

lemma checked_eq_Inl:
  "checked s r k = (Inl e, t) \<longleftrightarrow> (r = Inl e \<and> s = t) \<or> (\<exists>x. r = Inr x \<and> k x = (Inl e, t))"
  by (cases r) auto

lemma checked_keeps [py_inv]:
  "P s \<Longrightarrow> (\<And>x. r = Inr x \<Longrightarrow> P (snd (k x))) \<Longrightarrow> P (snd (checked s r k))"
  by (cases r) simp_all

text \<open>One stateful operation after another: an exception of the first ends the whole.\<close>

definition andthen :: "'a result \<times> 's \<Rightarrow> ('a \<Rightarrow> 's \<Rightarrow> 'b result \<times> 's) \<Rightarrow> 'b result \<times> 's" where
  "andthen m k = (case m of (Inl e, s) \<Rightarrow> (Inl e, s) | (Inr x, s) \<Rightarrow> k x s)"

lemma andthen_simps [simp]:
  "andthen (Inl e, s) k = (Inl e, s)" "andthen (Inr x, s) k = k x s"
  by (simp_all add: andthen_def)

lemma andthen_split:
  "P (andthen m k) \<longleftrightarrow>
     (\<forall>e s. m = (Inl e, s) \<longrightarrow> P (Inl e, s)) \<and> (\<forall>x s. m = (Inr x, s) \<longrightarrow> P (k x s))"
  by (cases m; cases "fst m") auto

lemma andthen_eq_Inr:
  "andthen m k = (Inr y, t) \<longleftrightarrow> (\<exists>x s. m = (Inr x, s) \<and> k x s = (Inr y, t))"
  by (cases m; cases "fst m") auto

lemma andthen_eq_Inl:
  "andthen m k = (Inl e, t) \<longleftrightarrow> m = (Inl e, t) \<or> (\<exists>x s. m = (Inr x, s) \<and> k x s = (Inl e, t))"
  by (cases m; cases "fst m") auto

lemma andthen_keeps [py_inv]:
  "P (snd m) \<Longrightarrow> (\<And>x s. m = (Inr x, s) \<Longrightarrow> P s \<Longrightarrow> P (snd (k x s))) \<Longrightarrow> P (snd (andthen m k))"
  by (cases m; cases "fst m") auto

text \<open>A list of checks, stopped by the first that raises.\<close>

fun rmap :: "('a \<Rightarrow> 'b result) \<Rightarrow> 'a list \<Rightarrow> 'b list result" where
  "rmap f [] = Inr []"
| "rmap f (x # xs) = rbind (f x) (\<lambda>y. rbind (rmap f xs) (\<lambda>ys. Inr (y # ys)))"

lemma rmap_eq_Inr:
  "rmap f xs = Inr ys \<longleftrightarrow> list_all2 (\<lambda>x y. f x = Inr y) xs ys"
  by (induction xs arbitrary: ys) (auto simp: rbind_eq_Inr list_all2_Cons1)

lemma rmap_id:
  assumes "\<And>x y. f x = Inr y \<Longrightarrow> x = c y" and "rmap f xs = Inr ys"
  shows "xs = map c ys"
  using assms(2) unfolding rmap_eq_Inr by (induction rule: list_all2_induct) (auto simp: assms(1))

section \<open>Numbers\<close>

text \<open>
  \<open>float(i)\<close> of an integer: the nearest 53-bit value, ties to even, and
  \<open>OverflowError\<close> when that is not below \<open>2 ^ 1024\<close>.
\<close>

function bit_length :: "int \<Rightarrow> int" where
  "bit_length n = (if n \<le> 0 then 0 else 1 + bit_length (n div 2))"
  by pat_completeness auto
termination by (relation "measure nat") auto

declare bit_length.simps [simp del]

definition round_half_even :: "int \<Rightarrow> int \<Rightarrow> int" where
  "round_half_even n k =
     (if k \<le> 0 then n
      else let q = n div 2 ^ nat k; r = n mod 2 ^ nat k; h = 2 ^ nat (k - 1)
           in (if h < r \<or> (r = h \<and> odd q) then q + 1 else q) * 2 ^ nat k)"

definition float_of_int :: "int \<Rightarrow> pyfloat result" where
  "float_of_int i =
     (let m = round_half_even \<bar>i\<bar> (bit_length \<bar>i\<bar> - 53)
      in if 1024 < bit_length m then Inl OverflowError else Inr (Fin (of_int (sgn i * m))))"

text \<open>
  The shape of every number check of the program: booleans and non-numbers raise \<open>te\<close>;
  infinities, NaN and numbers outside \<open>ok\<close> raise \<open>ve\<close>.
\<close>

definition real_value :: "exn \<Rightarrow> exn \<Rightarrow> (rat \<Rightarrow> bool) \<Rightarrow> pyval \<Rightarrow> rat result" where
  "real_value te ve ok v =
     rbind (case v of PInt i \<Rightarrow> float_of_int i | PFloat f \<Rightarrow> Inr f | _ \<Rightarrow> Inl te)
       (\<lambda>f. case f of Fin x \<Rightarrow> if ok x then Inr x else Inl ve | _ \<Rightarrow> Inl ve)"

definition int_value :: "exn \<Rightarrow> exn \<Rightarrow> (int \<Rightarrow> bool) \<Rightarrow> pyval \<Rightarrow> int result" where
  "int_value te ve ok v =
     (case v of PInt i \<Rightarrow> if ok i then Inr i else Inl ve | _ \<Rightarrow> Inl te)"

definition bool_value :: "exn \<Rightarrow> pyval \<Rightarrow> bool result" where
  "bool_value te v = (case v of PBool b \<Rightarrow> Inr b | _ \<Rightarrow> Inl te)"

lemma real_value_Fin [simp]:
  "real_value te ve ok (PFloat (Fin x)) = (if ok x then Inr x else Inl ve)"
  by (simp add: real_value_def)

lemma real_value_Inr: "real_value te ve ok v = Inr x \<Longrightarrow> ok x"
  unfolding real_value_def rbind_eq_Inr
  by (elim exE conjE) (auto split: pyfloat.split_asm if_split_asm)

lemma real_value_rejects [simp]:
  "real_value te ve ok PNone = Inl te" "real_value te ve ok (PBool b) = Inl te"
  "real_value te ve ok (PStr s) = Inl te" "real_value te ve ok (PFloat NaN) = Inl ve"
  "real_value te ve ok (PFloat PosInf) = Inl ve" "real_value te ve ok (PFloat NegInf) = Inl ve"
  by (simp_all add: real_value_def)

lemma int_value_Inr: "int_value te ve ok v = Inr i \<longleftrightarrow> v = PInt i \<and> ok i"
  by (auto simp: int_value_def split: pyval.splits if_splits)

lemma int_value_PInt [simp]: "int_value te ve ok (PInt i) = (if ok i then Inr i else Inl ve)"
  by (simp add: int_value_def)

lemma bool_value_Inr [simp]: "bool_value te v = Inr b \<longleftrightarrow> v = PBool b"
  by (auto simp: bool_value_def split: pyval.splits)

lemma bool_value_PBool [simp]: "bool_value te (PBool b) = Inr b"
  by simp

text \<open>Integers below \<open>2 ^ 53\<close> convert exactly.\<close>

lemma bit_length_le: "n < 2 ^ k \<Longrightarrow> bit_length n \<le> int k"
proof (induction k arbitrary: n)
  case 0
  then show ?case by (simp add: bit_length.simps)
next
  case (Suc k)
  then have "bit_length (n div 2) \<le> int k" by (intro Suc.IH) auto
  then show ?case by (subst bit_length.simps) simp
qed

lemma float_of_int_exact:
  assumes "\<bar>i\<bar> < 2 ^ 53"
  shows "float_of_int i = Inr (Fin (of_int i))"
proof -
  have "bit_length \<bar>i\<bar> \<le> 53" using bit_length_le [of "\<bar>i\<bar>" 53] assms by simp
  then show ?thesis by (simp add: float_of_int_def round_half_even_def Let_def sgn_mult_abs)
qed

section \<open>Strings\<close>

text \<open>\<open>str.isspace\<close> on code points below 256, and \<open>str.strip\<close>.\<close>

definition py_space :: "char \<Rightarrow> bool" where
  "py_space c = (let n = of_char c :: int
     in (9 \<le> n \<and> n \<le> 13) \<or> (28 \<le> n \<and> n \<le> 32) \<or> n = 133 \<or> n = 160)"

definition py_strip :: "string \<Rightarrow> string" where
  "py_strip s = rev (dropWhile py_space (rev (dropWhile py_space s)))"

lemma py_strip_Nil_iff: "py_strip s = [] \<longleftrightarrow> (\<forall>c\<in>set s. py_space c)"
proof -
  have "(\<forall>c\<in>set (dropWhile py_space s). py_space c) \<longleftrightarrow> dropWhile py_space s = []"
    by (metis dropWhile_eq_Nil_conv dropWhile_eq_self_iff hd_in_set hd_dropWhile)
  then show ?thesis by (auto simp: py_strip_def dest: set_dropWhileD)
qed

lemma dropWhile_idem: "dropWhile P (dropWhile P xs) = dropWhile P xs"
  by (induction xs) simp_all

lemma dropWhile_rev_hd:
  "xs \<noteq> [] \<Longrightarrow> \<not> P (hd xs) \<Longrightarrow> dropWhile P (rev (dropWhile P (rev xs))) = rev (dropWhile P (rev xs))"
proof -
  assume "xs \<noteq> []" "\<not> P (hd xs)"
  then obtain y ys where xs: "xs = y # ys" "\<not> P y" by (cases xs) auto
  have "\<exists>zs. dropWhile P (rev ys @ [y]) = zs @ [y]"
    using xs(2) by (induction "rev ys" arbitrary: ys) (auto simp: dropWhile_append)
  then obtain zs where "dropWhile P (rev xs) = zs @ [y]" using xs(1) by auto
  then show ?thesis using xs(2) by simp
qed

lemma py_strip_idem [simp]: "py_strip (py_strip s) = py_strip s"
proof (cases "dropWhile py_space s = []")
  case True
  then have "py_strip s = []" unfolding py_strip_def by (simp only: dropWhile.simps rev.simps)
  moreover have "py_strip [] = []" by (simp add: py_strip_def)
  ultimately show ?thesis by (simp only:)
next
  case False
  have "\<not> py_space (hd (dropWhile py_space s))" using False by (rule hd_dropWhile)
  from dropWhile_rev_hd [of _ py_space, OF False this]
  show ?thesis unfolding py_strip_def by (simp only: dropWhile_idem rev_rev_ident)
qed

text \<open>A non-empty string after stripping, and the stripped string.\<close>

definition stripped_text :: "exn \<Rightarrow> pyval \<Rightarrow> string result" where
  "stripped_text ve v =
     (case v of PStr s \<Rightarrow> if py_strip s = [] then Inl ve else Inr (py_strip s) | _ \<Rightarrow> Inl ve)"

lemma stripped_text_Inr:
  "stripped_text ve v = Inr t \<longleftrightarrow> (\<exists>s. v = PStr s \<and> t = py_strip s \<and> t \<noteq> [])"
  by (auto simp: stripped_text_def split: pyval.splits)

section \<open>Enumerations\<close>

text \<open>
  \<open>Cls(v)\<close> of a \<open>str\<close>-based \<open>Enum\<close>: the member with that value, or \<open>ValueError\<close>.  \<open>val\<close> is the
  value of a member and \<open>members\<close> lists the members in the order of the class body.
\<close>

definition enum_of :: "string \<Rightarrow> ('e \<Rightarrow> string) \<Rightarrow> 'e list \<Rightarrow> pyval \<Rightarrow> 'e result" where
  "enum_of cls val members v =
     (case v of
        PStr s \<Rightarrow> (case List.find (\<lambda>e. val e = s) members of
                    None \<Rightarrow> Inl (ValueError (''not a valid '' @ cls)) | Some e \<Rightarrow> Inr e)
      | _ \<Rightarrow> Inl (ValueError (''not a valid '' @ cls)))"

lemma enum_of_Inr: "enum_of cls val members v = Inr e \<Longrightarrow> v = PStr (val e) \<and> e \<in> set members"
  by (auto simp: enum_of_def find_Some_iff split: pyval.splits option.splits)

lemma enum_of_val:
  assumes "inj_on val (set members)" and "e \<in> set members"
  shows "enum_of cls val members (PStr (val e)) = Inr e"
proof (cases "List.find (\<lambda>x. val x = val e) members")
  case None
  with assms(2) show ?thesis by (auto simp: find_None_iff)
next
  case (Some x)
  then have "x \<in> set members" "val x = val e" by (auto simp: find_Some_iff)
  with assms have "x = e" by (auto dest: inj_onD)
  with Some show ?thesis by (simp add: enum_of_def)
qed

section \<open>Optional arguments\<close>

text \<open>\<open>None if v is None else f(v)\<close>.\<close>

definition opt_check :: "(pyval \<Rightarrow> 'a result) \<Rightarrow> pyval \<Rightarrow> 'a option result" where
  "opt_check f v = (case v of PNone \<Rightarrow> Inr None | _ \<Rightarrow> rbind (f v) (\<lambda>x. Inr (Some x)))"

lemma opt_check_PNone [simp]: "opt_check f PNone = Inr None"
  by (simp add: opt_check_def)

lemma opt_check_Some: "opt_check f v = Inr (Some x) \<Longrightarrow> f v = Inr x"
  by (auto simp: opt_check_def rbind_eq_Inr split: pyval.splits)

lemma opt_check_None: "opt_check f v = Inr None \<longleftrightarrow> v = PNone"
  by (auto simp: opt_check_def rbind_eq_Inr split: pyval.splits)

abbreviation opt_pyval :: "('a \<Rightarrow> pyval) \<Rightarrow> 'a option \<Rightarrow> pyval" where
  "opt_pyval f x \<equiv> (case x of None \<Rightarrow> PNone | Some y \<Rightarrow> f y)"

section \<open>Iteration and shared field checks\<close>

text \<open>\<open>tuple(v)\<close>: the elements of an iterable, the keys of a mapping, the characters of a string.\<close>

definition py_iter :: "pyval \<Rightarrow> pyval list result" where
  "py_iter v =
     (case v of
        PList xs \<Rightarrow> Inr xs
      | PTuple xs \<Rightarrow> Inr xs
      | PStr s \<Rightarrow> Inr (map (\<lambda>c. PStr [c]) s)
      | PDict d \<Rightarrow> Inr (map fst d)
      | _ \<Rightarrow> Inl (TypeError ''object is not iterable''))"

lemma py_iter_simps [simp]: "py_iter (PList xs) = Inr xs" "py_iter (PTuple xs) = Inr xs"
  by (simp_all add: py_iter_def)

text \<open>\<open>v == i\<close> for an integer that no boolean equals.\<close>

definition equals_int :: "pyval \<Rightarrow> int \<Rightarrow> bool" where
  "equals_int v i = (case v of PInt j \<Rightarrow> j = i | PFloat (Fin x) \<Rightarrow> x = of_int i | _ \<Rightarrow> False)"

text \<open>\<open>schema_version != 1 or isinstance(schema_version, bool)\<close> raises.\<close>

definition schema_one :: "pyval \<Rightarrow> unit result" where
  "schema_one v = (if equals_int v 1 then Inr ()
     else Inl (ValueError ''schema_version must equal integer 1''))"

lemma schema_one_1 [simp]: "schema_one (PInt 1) = Inr ()"
  by (simp add: schema_one_def equals_int_def)

text \<open>A non-blank string of at most \<open>n\<close> characters, not stripped.\<close>

definition bounded_text :: "nat \<Rightarrow> exn \<Rightarrow> pyval \<Rightarrow> string result" where
  "bounded_text n ve v =
     (case v of PStr s \<Rightarrow> if py_strip s = [] \<or> n < length s then Inl ve else Inr s | _ \<Rightarrow> Inl ve)"

lemma bounded_text_Inr:
  "bounded_text n ve v = Inr s \<longleftrightarrow> v = PStr s \<and> py_strip s \<noteq> [] \<and> length s \<le> n"
  by (auto simp: bounded_text_def split: pyval.splits)

lemma bounded_text_PStr [simp]:
  "py_strip s \<noteq> [] \<Longrightarrow> length s \<le> n \<Longrightarrow> bounded_text n ve (PStr s) = Inr s"
  by (simp add: bounded_text_Inr)

lemma rmap_PStr:
  assumes "\<And>x. x \<in> set xs \<Longrightarrow> f (PStr x) = Inr x"
  shows "rmap f (map PStr xs) = Inr xs"
  using assms by (induction xs) simp_all

section \<open>Text formatting\<close>

definition digit_char :: "nat \<Rightarrow> char" where
  "digit_char d = char_of (48 + d)"

text \<open>Decimal digits of a natural number.\<close>

fun decimal :: "nat \<Rightarrow> string" where
  "decimal n = (if n < 10 then [digit_char n] else decimal (n div 10) @ [digit_char (n mod 10)])"

declare decimal.simps [simp del]

fun undecimal :: "string \<Rightarrow> nat \<Rightarrow> nat" where
  "undecimal [] acc = acc"
| "undecimal (c # cs) acc = undecimal cs (10 * acc + (of_char c - 48))"

lemma undecimal_append: "undecimal (xs @ ys) acc = undecimal ys (undecimal xs acc)"
  by (induction xs arbitrary: acc) simp_all

lemma digit_value: "d < 10 \<Longrightarrow> of_char (digit_char d) - 48 = d"
  by (simp add: digit_char_def)

lemma undecimal_decimal: "undecimal (decimal n) 0 = n"
proof (induction n rule: decimal.induct)
  case (1 n)
  show ?case
    by (subst decimal.simps) (use 1 in \<open>simp add: undecimal_append digit_value\<close>)
qed

lemma decimal_inj: "decimal m = decimal n \<longleftrightarrow> m = n"
  by (metis undecimal_decimal)

lemma decimal_nonempty: "decimal n \<noteq> []"
  by (subst decimal.simps) simp

text \<open>\<open>sep.join(xs)\<close>.\<close>

fun py_join :: "string \<Rightarrow> string list \<Rightarrow> string" where
  "py_join sep [] = []"
| "py_join sep [x] = x"
| "py_join sep (x # y # ys) = x @ sep @ py_join sep (y # ys)"

text \<open>\<open>str.upper\<close> and \<open>str.lower\<close> on the ASCII letters.\<close>

definition ascii_upper :: "char \<Rightarrow> char" where
  "ascii_upper c = (let n = of_char c :: int
     in if 97 \<le> n \<and> n \<le> 122 then char_of (n - 32) else c)"

definition ascii_lower :: "char \<Rightarrow> char" where
  "ascii_lower c = (let n = of_char c :: int
     in if 65 \<le> n \<and> n \<le> 90 then char_of (n + 32) else c)"

text \<open>The keys of a mapping when all of them are strings.\<close>

fun string_keys :: "(pyval \<times> pyval) list \<Rightarrow> (string \<times> pyval) list option" where
  "string_keys [] = Some []"
| "string_keys ((PStr k, v) # d) = map_option (\<lambda>e. (k, v) # e) (string_keys d)"
| "string_keys (_ # d) = None"

lemma string_keys_PStr [simp]: "string_keys (map (\<lambda>(k, v). (PStr k, v)) d) = Some d"
  by (induction d) auto

lemma PStr_keys_inj [simp]:
  "map (\<lambda>(k, v). (PStr k, v)) d = map (\<lambda>(k, v). (PStr k, v)) e \<longleftrightarrow> d = e"
  by (rule inj_map_eq_map) (auto simp: inj_def)

lemma string_keys_Some: "string_keys d = Some e \<longleftrightarrow> d = map (\<lambda>(k, v). (PStr k, v)) e"
proof
  show "string_keys d = Some e \<Longrightarrow> d = map (\<lambda>(k, v). (PStr k, v)) e"
    by (induction d arbitrary: e rule: string_keys.induct) auto
qed simp

end
