(* ===== verification/Py_Containers.thy ===== *)
theory Py_Containers
  imports Py_Prelude "HOL-Library.Multiset"
begin

text \<open>
  Python containers and the interfaces several components share.

  A \<open>dict\<close> is an association list in insertion order with distinct keys: storing at a present
  key replaces in place, storing a new key appends, as in Python.  A list that is searched,
  minimised or sorted by a key keeps Python's choice of the first of several equal elements.

  The interfaces are locales: a keyed store (what a dictionary promises), a bounded history
  (what every capped queue of the program promises) and a table of allowed state transitions.
\<close>

section \<open>Dictionaries\<close>

abbreviation dget :: "('k \<times> 'v) list \<Rightarrow> 'k \<Rightarrow> 'v option" where
  "dget d k \<equiv> map_of d k"

abbreviation dset :: "('k \<times> 'v) list \<Rightarrow> 'k \<Rightarrow> 'v \<Rightarrow> ('k \<times> 'v) list" where
  "dset d k v \<equiv> AList.update k v d"

abbreviation ddel :: "('k \<times> 'v) list \<Rightarrow> 'k \<Rightarrow> ('k \<times> 'v) list" where
  "ddel d k \<equiv> AList.delete k d"

abbreviation dkeys :: "('k \<times> 'v) list \<Rightarrow> 'k list" where
  "dkeys d \<equiv> map fst d"

abbreviation dvals :: "('k \<times> 'v) list \<Rightarrow> 'v list" where
  "dvals d \<equiv> map snd d"

abbreviation dict_ok :: "('k \<times> 'v) list \<Rightarrow> bool" where
  "dict_ok d \<equiv> distinct (map fst d)"

lemma dget_dset: "dget (dset d k v) k' = (if k' = k then Some v else dget d k')"
  by (simp add: update_conv')

lemma dget_ddel: "dget (ddel d k) k' = (if k' = k then None else dget d k')"
  by (simp add: delete_conv')

lemma dset_keys: "dkeys (dset d k v) = (if k \<in> set (dkeys d) then dkeys d else dkeys d @ [k])"
  by (rule update_keys)

lemma dict_ok_dset [simp]: "dict_ok d \<Longrightarrow> dict_ok (dset d k v)"
  by (rule distinct_update)

lemma ddel_filter: "ddel d k = filter (\<lambda>e. fst e \<noteq> k) d"
  by (induction d) auto

lemma dict_ok_ddel [simp]: "dict_ok d \<Longrightarrow> dict_ok (ddel d k)"
  by (simp add: ddel_filter distinct_map_filter)

lemma set_ddel: "set (ddel d k) = {e \<in> set d. fst e \<noteq> k}"
  by (simp add: ddel_filter)

lemma set_dset: "dict_ok d \<Longrightarrow> set (dset d k v) = insert (k, v) {e \<in> set d. fst e \<noteq> k}"
  by (induction d) (auto simp: image_iff)

lemma dget_mem: "dict_ok d \<Longrightarrow> dget d k = Some v \<longleftrightarrow> (k, v) \<in> set d"
  by (simp add: map_of_eq_Some_iff)

declare map_of_eq_Some_iff [simp del]

lemma dget_None: "dget d k = None \<longleftrightarrow> k \<notin> set (dkeys d)"
  by (simp add: map_of_eq_None_iff)

lemma length_ddel: "dict_ok d \<Longrightarrow> k \<in> set (dkeys d) \<Longrightarrow> length d = Suc (length (ddel d k))"
  by (induction d) auto

lemma length_dset: "length (dset d k v) = (if k \<in> set (dkeys d) then length d else Suc (length d))"
  by (induction d) auto

lemma dset_new: "k \<notin> set (dkeys d) \<Longrightarrow> dset d k v = d @ [(k, v)]"
  by (induction d) auto

lemma ddel_absent: "k \<notin> set (dkeys d) \<Longrightarrow> ddel d k = d"
  by (induction d) auto

lemma key_mem: "(k, v) \<in> set d \<Longrightarrow> k \<in> fst ` set d"
  by force

lemma dget_keys: "dkeys d = dkeys e \<Longrightarrow> dget d k = Some v \<Longrightarrow> \<exists>w. dget e k = Some w"
  by (metis dget_None not_None_eq)

lemma dget_key: "k \<in> set (dkeys d) \<Longrightarrow> \<exists>v. dget d k = Some v"
  by (metis dget_None not_None_eq)

lemma dget_in_keys: "dget d k = Some v \<Longrightarrow> k \<in> set (dkeys d)"
  by (metis dget_None option.distinct(1))

lemma keys_ddel: "fst ` set (ddel d k) = fst ` set d - {k}"
  by (auto simp: ddel_filter)

lemma length_filter_map_filter:
  "length (filter P (map f (filter Q xs))) \<le> length (filter P (map f xs))"
  by (induction xs) (auto intro: le_SucI)

section \<open>Search, minimum, maximum\<close>

fun min_by :: "('a \<Rightarrow> 'k::linorder) \<Rightarrow> 'a \<Rightarrow> 'a list \<Rightarrow> 'a" where
  "min_by f x [] = x"
| "min_by f x (y # ys) = (if f y < f x then min_by f y ys else min_by f x ys)"

fun max_by :: "('a \<Rightarrow> 'k::linorder) \<Rightarrow> 'a \<Rightarrow> 'a list \<Rightarrow> 'a" where
  "max_by f x [] = x"
| "max_by f x (y # ys) = (if f x < f y then max_by f y ys else max_by f x ys)"

lemma min_by_in: "min_by f x xs \<in> insert x (set xs)"
  by (induction f x xs rule: min_by.induct) auto

lemma min_by_le: "y \<in> insert x (set xs) \<Longrightarrow> f (min_by f x xs) \<le> f y"
proof (induction f x xs arbitrary: y rule: min_by.induct)
  case (2 f x z zs)
  show ?case
  proof (cases "f z < f x")
    case True
    then have "f (min_by f z zs) \<le> f z" by (intro 2) auto
    then show ?thesis using 2 True by (cases "y = x") (auto intro: order.trans less_imp_le)
  next
    case False
    then have "f (min_by f x zs) \<le> f x" by (intro 2) auto
    then show ?thesis using 2 False by (cases "y = z") (auto simp: not_less intro: order.trans)
  qed
qed simp

lemma max_by_in: "max_by f x xs \<in> insert x (set xs)"
  by (induction f x xs rule: max_by.induct) auto

lemma max_by_ge: "y \<in> insert x (set xs) \<Longrightarrow> f y \<le> f (max_by f x xs)"
proof (induction f x xs arbitrary: y rule: max_by.induct)
  case (2 f x z zs)
  show ?case
  proof (cases "f x < f z")
    case True
    then have "f z \<le> f (max_by f z zs)" by (intro 2) auto
    then show ?thesis using 2 True by (cases "y = x") (auto intro: order.trans less_imp_le)
  next
    case False
    then have "f x \<le> f (max_by f x zs)" by (intro 2) auto
    then show ?thesis using 2 False by (cases "y = z") (auto simp: not_less intro: order.trans)
  qed
qed simp

text \<open>\<open>tuple(dict.fromkeys(xs))\<close>: the first occurrences, in order.\<close>

fun first_occurrences :: "'a list \<Rightarrow> 'a list" where
  "first_occurrences [] = []"
| "first_occurrences (x # xs) = x # filter (\<lambda>y. y \<noteq> x) (first_occurrences xs)"

lemma set_first_occurrences [simp]: "set (first_occurrences xs) = set xs"
  by (induction xs) auto

lemma distinct_first_occurrences [simp]: "distinct (first_occurrences xs)"
  by (induction xs) auto

lemma first_occurrences_Nil [simp]: "first_occurrences xs = [] \<longleftrightarrow> xs = []"
  by (cases xs) auto

text \<open>A list in which no key occurs twice.\<close>

lemma distinct_key_eq:
  "distinct (map f xs) \<Longrightarrow> x \<in> set xs \<Longrightarrow> y \<in> set xs \<Longrightarrow> f x = f y \<Longrightarrow> x = y"
  by (metis distinct_map inj_on_def)

lemma find_in: "List.find P xs = Some x \<Longrightarrow> x \<in> set xs \<and> P x"
  by (auto simp: find_Some_iff)

lemma find_key_distinct:
  assumes "distinct (map f xs)" and "x \<in> set xs"
  shows "List.find (\<lambda>y. f y = f x) xs = Some x"
proof (cases "List.find (\<lambda>y. f y = f x) xs")
  case None
  with assms(2) show ?thesis by (auto simp: find_None_iff)
next
  case (Some y)
  then have "y \<in> set xs" "f y = f x" using find_in by fastforce+
  with assms have "y = x" by (metis distinct_key_eq)
  with Some show ?thesis by simp
qed

section \<open>Interfaces\<close>

text \<open>What a client relies on of a dictionary.\<close>

locale keyed_store =
  fixes lookup :: "'d \<Rightarrow> 'k \<Rightarrow> 'v option"
    and store :: "'d \<Rightarrow> 'k \<Rightarrow> 'v \<Rightarrow> 'd"
    and remove :: "'d \<Rightarrow> 'k \<Rightarrow> 'd"
  assumes lookup_store: "lookup (store d k v) k' = (if k' = k then Some v else lookup d k')"
    and lookup_remove: "lookup (remove d k) k' = (if k' = k then None else lookup d k')"
begin

lemma entries_store:
  assumes "\<And>k v. lookup d k = Some v \<Longrightarrow> P k v" and "P k0 v0"
  shows "lookup (store d k0 v0) k = Some v \<Longrightarrow> P k v"
  using assms by (auto simp: lookup_store split: if_splits)

lemma entries_remove:
  assumes "\<And>k v. lookup d k = Some v \<Longrightarrow> P k v"
  shows "lookup (remove d k0) k = Some v \<Longrightarrow> P k v"
  using assms by (auto simp: lookup_remove split: if_splits)

lemma store_other: "k' \<noteq> k \<Longrightarrow> lookup (store d k v) k' = lookup d k'"
  by (simp add: lookup_store)

lemma store_domain: "lookup d k' \<noteq> None \<Longrightarrow> lookup (store d k v) k' \<noteq> None"
  by (simp add: lookup_store)

end

interpretation dict: keyed_store dget dset ddel
  by unfold_locales (simp_all add: dget_dset dget_ddel)

text \<open>
  What a client relies on of a capped history: a push keeps the newest entries, at most \<open>cap\<close>
  of them, in order.
\<close>

locale bounded_log =
  fixes push :: "nat \<Rightarrow> 'a list \<Rightarrow> 'a \<Rightarrow> 'a list"
  assumes push_full: "0 < cap \<Longrightarrow> length xs \<le> cap \<Longrightarrow>
    push cap xs x = drop (Suc (length xs) - cap) (xs @ [x])"
begin

lemma push_length: "0 < cap \<Longrightarrow> length xs \<le> cap \<Longrightarrow> length (push cap xs x) \<le> cap"
  by (simp add: push_full)

lemma push_newest: "0 < cap \<Longrightarrow> length xs \<le> cap \<Longrightarrow> last (push cap xs x) = x \<and> push cap xs x \<noteq> []"
  by (simp add: push_full last_drop)

lemma push_set: "0 < cap \<Longrightarrow> length xs \<le> cap \<Longrightarrow> set (push cap xs x) \<subseteq> insert x (set xs)"
  by (auto simp: push_full dest: in_set_dropD)

lemma history_retained:
  "0 < cap \<Longrightarrow> foldl (push cap) [] xs = drop (length xs - cap) xs"
proof (induction xs rule: rev_induct)
  case (snoc x xs)
  then have "foldl (push cap) [] (xs @ [x]) = push cap (drop (length xs - cap) xs) x" by simp
  also have "\<dots> = drop (Suc (length xs - (length xs - cap)) - cap) (drop (length xs - cap) xs @ [x])"
    using snoc.prems by (subst push_full) auto
  also have "\<dots> = drop (length (xs @ [x]) - cap) (xs @ [x])"
    by (cases "cap \<le> length xs") (auto simp: Suc_diff_le drop_append)
  finally show ?case .
qed simp

lemma history_bounded: "0 < cap \<Longrightarrow> length (foldl (push cap) [] xs) \<le> cap"
  by (simp add: history_retained)

end

text \<open>A table of the transitions a state machine allows, with its final states.\<close>

locale transition_table =
  fixes allowed :: "'s \<Rightarrow> 's list" and final :: "'s \<Rightarrow> bool"
  assumes final_stuck: "final s \<Longrightarrow> allowed s = []"
begin

lemma final_forever:
  assumes "(\<lambda>a b. b \<in> set (allowed a))\<^sup>*\<^sup>* s t" and "final s"
  shows "t = s"
  using assms by (induction rule: converse_rtranclp_induct) (auto simp: final_stuck)

lemma allowed_not_final: "t \<in> set (allowed s) \<Longrightarrow> \<not> final s"
  by (auto simp: final_stuck)

end

text \<open>A table whose transitions only descend a rank: no state is ever left and entered again.\<close>

locale ranked_table = transition_table +
  fixes rank :: "'s \<Rightarrow> nat"
  assumes descends: "t \<in> set (allowed s) \<Longrightarrow> rank t < rank s"
begin

lemma rank_path: "(\<lambda>a b. b \<in> set (allowed a))\<^sup>*\<^sup>* s t \<Longrightarrow> rank t \<le> rank s"
  by (induction rule: rtranclp_induct) (auto dest: descends)

lemma no_return:
  assumes "t \<in> set (allowed s)" and "(\<lambda>a b. b \<in> set (allowed a))\<^sup>*\<^sup>* t u"
  shows "u \<noteq> s"
  using descends [OF assms(1)] rank_path [OF assms(2)] by auto

lemma path_bounded: "((\<lambda>a b. b \<in> set (allowed a)) ^^ n) s t \<Longrightarrow> n + rank t \<le> rank s"
proof (induction n arbitrary: t)
  case (Suc n)
  then obtain u where "((\<lambda>a b. b \<in> set (allowed a)) ^^ n) s u" "t \<in> set (allowed u)"
    by (auto elim: relcomppE)
  with Suc.IH [of u] descends [of t u] show ?case by simp
qed simp

end

section \<open>Runs with a log\<close>

text \<open>A run of steps, each of which leaves a note in the log of the run.\<close>

inductive logged_run :: "('s \<Rightarrow> 'n \<Rightarrow> 's \<Rightarrow> bool) \<Rightarrow> 's \<Rightarrow> 'n list \<Rightarrow> 's \<Rightarrow> bool" for step g0 where
  logged_start: "logged_run step g0 [] g0"
| logged_more: "logged_run step g0 h g \<Longrightarrow> step g n g' \<Longrightarrow> logged_run step g0 (h @ [n]) g'"

lemma logged_run_invariant:
  assumes "logged_run step g0 h g" and "I [] g0"
    and "\<And>h g n g'. I h g \<Longrightarrow> step g n g' \<Longrightarrow> I (h @ [n]) g'"
  shows "I h g"
  using assms(1)
proof (induction rule: logged_run.induct)
  case logged_start
  show ?case by (rule assms(2))
next
  case (logged_more h g n g')
  show ?case by (rule assms(3) [OF logged_more.IH logged_more.hyps(2)])
qed

lemma snoc_split:
  assumes "h @ [n] = older @ x # mid"
  obtains (last) "mid = []" "n = x" "older = h" | (inner) m where "mid = m @ [n]" "h = older @ x # m"
  using assms by (cases mid rule: rev_cases) auto

lemma logged_run_split:
  "logged_run step g0 (h @ n # k) g \<Longrightarrow> \<exists>g1 g2. logged_run step g0 h g1 \<and> step g1 n g2 \<and> logged_run step g2 k g"
proof (induction "h @ n # k" g arbitrary: k rule: logged_run.induct)
  case (logged_more h' g1 n' g2)
  from \<open>h' @ [n'] = h @ n # k\<close> show ?case
  proof (cases rule: snoc_split)
    case last
    then show ?thesis
      using logged_more.hyps(1,3) by (intro exI [of _ g1] exI [of _ g2]) (simp add: logged_start)
  next
    case (inner m)
    obtain a b where "logged_run step g0 h a" "step a n b" "logged_run step b m g1"
      using logged_more.hyps(2) [OF inner(2)] by blast
    moreover have "logged_run step b (m @ [n']) g2"
      by (rule logged_run.logged_more) (fact \<open>logged_run step b m g1\<close>, fact logged_more.hyps(3))
    ultimately show ?thesis using inner(1) by metis
  qed
qed simp

end
