(* ===== verification/Routing_Ids.thy ===== *)
theory Routing_Ids
  imports Py_Containers
begin

text \<open>
  \<open>common/ids.py\<close>: validation of the identifiers that route requests, plans and claims
  between components, and their generation from a prefix and a random suffix.

  \<open>routing_id_match\<close> is \<open>re.fullmatch\<close> of \<open>^[A-Za-z][A-Za-z0-9_.-]{0,63}$\<close> written out.
  \<open>uuid4().hex\<close> is an argument: what the code relies on is that it is 32 hexadecimal digits.
\<close>

section \<open>The pattern\<close>

definition id_alpha :: "char \<Rightarrow> bool" where
  "id_alpha c = (let n = of_char c :: int in (65 \<le> n \<and> n \<le> 90) \<or> (97 \<le> n \<and> n \<le> 122))"

definition id_digit :: "char \<Rightarrow> bool" where
  "id_digit c = (let n = of_char c :: int in 48 \<le> n \<and> n \<le> 57)"

definition id_char :: "char \<Rightarrow> bool" where
  "id_char c = (id_alpha c \<or> id_digit c \<or> c \<in> set ''_.-'')"

definition routing_id_match :: "string \<Rightarrow> bool" where
  "routing_id_match s =
     (case s of [] \<Rightarrow> False | c # cs \<Rightarrow> id_alpha c \<and> list_all id_char cs \<and> length cs \<le> 63)"

definition ROUTING_ID_PATTERN_TEXT :: string where
  "ROUTING_ID_PATTERN_TEXT = ''^[A-Za-z][A-Za-z0-9_.-]{0,63}$''"

section \<open>Validation\<close>

definition validate_routing_id :: "pyval \<Rightarrow> string \<Rightarrow> string result" where
  "validate_routing_id v field_name =
     (if field_name = [] then Inl (ValueError ''field_name must be a non-empty string'')
      else case v of
        PStr s \<Rightarrow>
          if \<not> routing_id_match s
          then Inl (ValueError (field_name @ '' must match '' @ ROUTING_ID_PATTERN_TEXT))
          else Inr s
      | _ \<Rightarrow> Inl (TypeError (field_name @ '' must be a string'')))"

definition validate_uav_id :: "pyval \<Rightarrow> string result" where
  "validate_uav_id v = validate_routing_id v ''uav_id''"

definition validate_mission_id :: "pyval \<Rightarrow> string result" where
  "validate_mission_id v = validate_routing_id v ''mission_id''"

definition validate_plan_id :: "pyval \<Rightarrow> string result" where
  "validate_plan_id v = validate_routing_id v ''plan_id''"

definition validate_review_id :: "pyval \<Rightarrow> string result" where
  "validate_review_id v = validate_routing_id v ''review_id''"

definition validate_request_id :: "pyval \<Rightarrow> string result" where
  "validate_request_id v = validate_routing_id v ''request_id''"

definition validate_invocation_id :: "pyval \<Rightarrow> string result" where
  "validate_invocation_id v = validate_routing_id v ''invocation_id''"

text \<open>\<open>hex\<close> is the value of \<open>uuid4().hex\<close>.\<close>

definition generate_routing_id :: "string \<Rightarrow> pyval \<Rightarrow> string result" where
  "generate_routing_id hex prefix =
     rbind (validate_routing_id prefix ''prefix'') (\<lambda>normalized_prefix.
       let max_prefix_length = 64 - 1 - 32 in
       if max_prefix_length < length normalized_prefix
       then Inl (ValueError ''prefix must contain at most 31 characters'')
       else validate_routing_id (PStr (normalized_prefix @ ''_'' @ hex)) ''routing_id'')"

definition uuid_hex :: "string \<Rightarrow> bool" where
  "uuid_hex s \<longleftrightarrow> length s = 32 \<and> list_all (\<lambda>c. c \<in> set ''0123456789abcdef'') s"

section \<open>Lemmas\<close>

lemma validate_routing_id_Inr:
  "validate_routing_id v f = Inr s \<longleftrightarrow> f \<noteq> [] \<and> v = PStr s \<and> routing_id_match s"
  by (auto simp: validate_routing_id_def split: pyval.splits if_splits)

lemmas validate_id_defs =
  validate_uav_id_def validate_mission_id_def validate_plan_id_def validate_review_id_def
  validate_request_id_def validate_invocation_id_def

lemma validate_id_Inr [simp]:
  "validate_uav_id v = Inr s \<longleftrightarrow> v = PStr s \<and> routing_id_match s"
  "validate_mission_id v = Inr s \<longleftrightarrow> v = PStr s \<and> routing_id_match s"
  "validate_plan_id v = Inr s \<longleftrightarrow> v = PStr s \<and> routing_id_match s"
  "validate_review_id v = Inr s \<longleftrightarrow> v = PStr s \<and> routing_id_match s"
  "validate_request_id v = Inr s \<longleftrightarrow> v = PStr s \<and> routing_id_match s"
  "validate_invocation_id v = Inr s \<longleftrightarrow> v = PStr s \<and> routing_id_match s"
  by (simp_all add: validate_id_defs validate_routing_id_Inr)

lemma validate_routing_id_Cons_Inr [simp]:
  "validate_routing_id v (c # f) = Inr s \<longleftrightarrow> v = PStr s \<and> routing_id_match s"
  by (simp add: validate_routing_id_Inr)

lemma validate_id_PStr [simp]:
  assumes "routing_id_match s"
  shows "validate_uav_id (PStr s) = Inr s" "validate_mission_id (PStr s) = Inr s"
    "validate_plan_id (PStr s) = Inr s" "validate_review_id (PStr s) = Inr s"
    "validate_request_id (PStr s) = Inr s" "validate_invocation_id (PStr s) = Inr s"
    "validate_routing_id (PStr s) (c # f) = Inr s"
  using assms by simp_all

lemma routing_id_match_nonempty: "routing_id_match s \<Longrightarrow> s \<noteq> []"
  by (auto simp: routing_id_match_def)

lemma routing_id_match_length: "routing_id_match s \<Longrightarrow> length s \<le> 64"
  by (auto simp: routing_id_match_def split: list.splits)

lemma routing_id_match_chars: "routing_id_match s \<Longrightarrow> c \<in> set s \<Longrightarrow> id_char c"
  by (auto simp: routing_id_match_def id_char_def list_all_iff split: list.splits)

lemma id_char_not_space: "id_char c \<Longrightarrow> \<not> py_space c"
  by (auto simp: id_char_def id_alpha_def id_digit_def py_space_def Let_def)

lemma dropWhile_not_hd: "(\<And>c. c \<in> set s \<Longrightarrow> \<not> P c) \<Longrightarrow> dropWhile P s = s"
  by (cases s) auto

lemma routing_id_strip: "routing_id_match s \<Longrightarrow> py_strip s = s"
proof -
  assume "routing_id_match s"
  then have "\<And>c. c \<in> set s \<Longrightarrow> \<not> py_space c"
    by (blast dest: routing_id_match_chars id_char_not_space)
  then have "dropWhile py_space s = s" "dropWhile py_space (rev s) = rev s"
    by (auto intro!: dropWhile_not_hd)
  then show ?thesis by (simp add: py_strip_def)
qed

lemma hex_id_char: "c \<in> set ''0123456789abcdef'' \<Longrightarrow> id_char c"
proof -
  have "list_all id_char ''0123456789abcdef''" by code_simp
  then show "c \<in> set ''0123456789abcdef'' \<Longrightarrow> id_char c" by (simp only: list_all_iff)
qed

lemma generate_routing_id_match:
  "generate_routing_id hex prefix = Inr s \<Longrightarrow> routing_id_match s"
  by (auto simp: generate_routing_id_def rbind_eq_Inr Let_def split: if_splits)

lemma opt_check_again:
  assumes "opt_check f v = Inr x" and "\<And>v s. f v = Inr s \<Longrightarrow> v = PStr s"
  shows "opt_check f (opt_pyval PStr x) = Inr x"
proof (cases x)
  case (Some s)
  have "f v = Inr s" using assms(1) unfolding Some by (rule opt_check_Some)
  moreover from this have "v = PStr s" by (rule assms(2))
  ultimately show ?thesis by (simp add: Some opt_check_def)
qed simp

section \<open>Properties\<close>

text \<open>
  Validation is exact and never rewrites: an identifier passes if and only if it is a string
  of 1 to 64 characters that starts with an ASCII letter and continues with letters, digits,
  underscores, dots and dashes, and what passes is returned unchanged (no stripping).
\<close>

theorem validate_routing_id_exact:
  "validate_uav_id v = Inr s \<longleftrightarrow>
     v = PStr s \<and> s \<noteq> [] \<and> length s \<le> 64 \<and> id_alpha (hd s) \<and> list_all id_char s"
proof -
  have "routing_id_match s \<longleftrightarrow>
      s \<noteq> [] \<and> length s \<le> 64 \<and> id_alpha (hd s) \<and> list_all id_char s"
    by (cases s) (auto simp: routing_id_match_def list_all_iff id_char_def)
  then show ?thesis by simp
qed

lemma hex_suffix_match:
  assumes "uuid_hex hex" "routing_id_match p" "length p \<le> 31"
  shows "routing_id_match (p @ ''_'' @ hex)"
proof -
  have "length hex = 32" "list_all id_char hex"
    using assms(1) hex_id_char by (auto simp: uuid_hex_def list_all_iff)
  then show ?thesis using assms(2,3) by (auto simp: routing_id_match_def id_char_def split: list.splits)
qed

lemma generate_routing_id_total:
  assumes "uuid_hex hex" "routing_id_match p" "length p \<le> 31"
  shows "generate_routing_id hex (PStr p) = Inr (p @ ''_'' @ hex)"
  using hex_suffix_match [OF assms] assms(2,3)
  by (simp add: generate_routing_id_def Let_def validate_routing_id_def)

text \<open>
  Generation of an identifier: with a 32-digit hexadecimal suffix it succeeds exactly for
  valid prefixes of at most 31 characters, and the result is the prefix, an underscore and the
  suffix, and is itself a valid identifier (so the prefix bound leaves exactly enough room).
\<close>

theorem generate_routing_id_correct:
  assumes "uuid_hex hex"
  shows "generate_routing_id hex v = Inr s \<longleftrightarrow>
    (\<exists>p. v = PStr p \<and> routing_id_match p \<and> length p \<le> 31 \<and> s = p @ ''_'' @ hex
       \<and> routing_id_match s)"
proof -
  have ok: "routing_id_match (p @ ''_'' @ hex)" if "routing_id_match p" "length p \<le> 31" for p
    using that assms by (intro hex_suffix_match)
  show ?thesis
    using ok by (auto simp: generate_routing_id_def rbind_eq_Inr Let_def not_less)
qed

theorem generate_routing_id_correct_witness:
  "generate_routing_id ''0123456789abcdef0123456789abcdef'' (PStr ''request'')
     = Inr ''request_0123456789abcdef0123456789abcdef''"
proof -
  have h: "uuid_hex ''0123456789abcdef0123456789abcdef''" by (simp add: uuid_hex_def)
  show ?thesis
    unfolding generate_routing_id_correct [OF h]
    by (simp add: routing_id_match_def id_alpha_def id_digit_def id_char_def)
qed

end
