(* ===== verification/Target_Registry.thy ===== *)
theory Target_Registry
  imports Routing_Ids
begin

text \<open>
  \<open>fleet/target_registry.py\<close>: the claims that assignments of a fleet hold on shared targets.

  The state of \<open>SharedTargetRegistry\<close> is the record \<open>target_registry\<close>; the frozen dataclasses
  \<open>TargetClaim\<close>, \<open>SharedTargetRecord\<close> and \<open>TargetClaimDecision\<close> are records with their
  constructor checks as functions.  Operations take the raw arguments, validate them in the
  source's order and return the result with the registry after it; a raise keeps the mutations
  made before it.  \<open>clone_for_staging\<close> and \<open>adopt_staged\<close> compare object identities, so they
  work on a heap of registries; \<open>registries_run\<close> is the runs of such a heap, \<open>live_run\<close> those of one registry
  with its staged transactions.
\<close>

section \<open>Data\<close>

datatype target_claim_state =
  TCS_UNCLAIMED | TCS_PROVISIONAL | TCS_EXCLUSIVE | TCS_SHARED | TCS_RELEASED | TCS_TERMINATED

fun claim_state_value :: "target_claim_state \<Rightarrow> string" where
  "claim_state_value TCS_UNCLAIMED = ''UNCLAIMED''"
| "claim_state_value TCS_PROVISIONAL = ''PROVISIONAL''"
| "claim_state_value TCS_EXCLUSIVE = ''EXCLUSIVE''"
| "claim_state_value TCS_SHARED = ''SHARED''"
| "claim_state_value TCS_RELEASED = ''RELEASED''"
| "claim_state_value TCS_TERMINATED = ''TERMINATED''"

definition TargetClaimState :: "pyval \<Rightarrow> target_claim_state result" where
  "TargetClaimState = enum_of ''TargetClaimState'' claim_state_value
     [TCS_UNCLAIMED, TCS_PROVISIONAL, TCS_EXCLUSIVE, TCS_SHARED, TCS_RELEASED, TCS_TERMINATED]"

datatype target_claim_policy = TCP_EXCLUSIVE | TCP_SHARED

fun claim_policy_value :: "target_claim_policy \<Rightarrow> string" where
  "claim_policy_value TCP_EXCLUSIVE = ''EXCLUSIVE''"
| "claim_policy_value TCP_SHARED = ''SHARED''"

definition TargetClaimPolicy :: "pyval \<Rightarrow> target_claim_policy result" where
  "TargetClaimPolicy = enum_of ''TargetClaimPolicy'' claim_policy_value [TCP_EXCLUSIVE, TCP_SHARED]"

definition target_id :: "pyval \<Rightarrow> string result" where
  "target_id v = validate_routing_id v ''target_runtime_id''"

definition claim_confidence :: "pyval \<Rightarrow> rat result" where
  "claim_confidence = real_value (TypeError ''confidence must be a finite number'')
     (ValueError ''confidence must be between zero and one'') (\<lambda>x. 0 \<le> x \<and> x \<le> 1)"

definition claim_timestamp :: "pyval \<Rightarrow> rat result" where
  "claim_timestamp = real_value (TypeError ''timestamp_s must be a finite non-negative number'')
     (ValueError ''timestamp_s must be a finite non-negative number'') (\<lambda>x. 0 \<le> x)"

definition claim_priority :: "pyval \<Rightarrow> int result" where
  "claim_priority = int_value (TypeError ''priority must be an integer'')
     (TypeError ''priority must be an integer'') (\<lambda>i. True)"

definition semantic_alias_text :: "pyval \<Rightarrow> string result" where
  "semantic_alias_text = stripped_text (ValueError ''semantic_alias must be a non-empty string'')"

record target_claim =
  tc_target :: string
  tc_alias :: string
  tc_assignment :: string
  tc_uav :: string
  tc_state :: target_claim_state
  tc_confidence :: rat
  tc_timestamp :: rat
  tc_priority :: int

definition TargetClaim ::
  "pyval \<Rightarrow> pyval \<Rightarrow> pyval \<Rightarrow> pyval \<Rightarrow> pyval \<Rightarrow> pyval \<Rightarrow> pyval \<Rightarrow> pyval \<Rightarrow> target_claim result" where
  "TargetClaim target alias assignment uav state confidence timestamp priority =
     rbind (target_id target) (\<lambda>target.
     rbind (semantic_alias_text alias) (\<lambda>alias.
     rbind (validate_routing_id assignment ''assignment_id'') (\<lambda>assignment.
     rbind (validate_uav_id uav) (\<lambda>uav.
     rbind (TargetClaimState state) (\<lambda>state.
     rbind (claim_confidence confidence) (\<lambda>confidence.
     rbind (claim_timestamp timestamp) (\<lambda>timestamp.
     rbind (claim_priority priority) (\<lambda>priority.
       Inr \<lparr>tc_target = target, tc_alias = alias, tc_assignment = assignment, tc_uav = uav,
            tc_state = state, tc_confidence = confidence, tc_timestamp = timestamp,
            tc_priority = priority\<rparr>))))))))"

definition claim_active :: "target_claim \<Rightarrow> bool" where
  "claim_active c = (tc_state c \<in> {TCS_PROVISIONAL, TCS_EXCLUSIVE, TCS_SHARED})"

definition claim_to_dict :: "target_claim \<Rightarrow> pyval" where
  "claim_to_dict c = PDict
     [(PStr ''target_runtime_id'', PStr (tc_target c)),
      (PStr ''semantic_alias'', PStr (tc_alias c)),
      (PStr ''assignment_id'', PStr (tc_assignment c)),
      (PStr ''uav_id'', PStr (tc_uav c)),
      (PStr ''state'', PStr (claim_state_value (tc_state c))),
      (PStr ''confidence'', PFloat (Fin (tc_confidence c))),
      (PStr ''timestamp_s'', PFloat (Fin (tc_timestamp c))),
      (PStr ''priority'', PInt (tc_priority c))]"

record shared_target_record =
  rec_target :: string
  rec_alias :: string
  rec_claims :: "target_claim list"

definition SharedTargetRecord ::
  "pyval \<Rightarrow> pyval \<Rightarrow> target_claim list \<Rightarrow> shared_target_record result" where
  "SharedTargetRecord target alias claims =
     rbind (target_id target) (\<lambda>target.
     rbind (semantic_alias_text alias) (\<lambda>alias.
       if list_ex (\<lambda>c. tc_target c \<noteq> target) claims
       then Inl (ValueError ''claim target_runtime_id does not match record'')
       else Inr \<lparr>rec_target = target, rec_alias = alias, rec_claims = claims\<rparr>))"

definition active_claims :: "shared_target_record \<Rightarrow> target_claim list" where
  "active_claims r = filter claim_active (rec_claims r)"

definition record_to_dict :: "shared_target_record \<Rightarrow> pyval" where
  "record_to_dict r = PDict
     [(PStr ''target_runtime_id'', PStr (rec_target r)),
      (PStr ''semantic_alias'', PStr (rec_alias r)),
      (PStr ''claims'', PList (map claim_to_dict (rec_claims r)))]"

text \<open>\<open>replace(record, claims=claims)\<close> runs the constructor checks again.\<close>

definition replace_claims :: "shared_target_record \<Rightarrow> target_claim list \<Rightarrow> shared_target_record result" where
  "replace_claims r claims = SharedTargetRecord (PStr (rec_target r)) (PStr (rec_alias r)) claims"

text \<open>\<open>replace(claim, state=..., timestamp_s=...)\<close> runs the constructor checks again.\<close>

definition replace_state :: "target_claim \<Rightarrow> target_claim_state \<Rightarrow> rat \<Rightarrow> target_claim result" where
  "replace_state c state timestamp = TargetClaim (PStr (tc_target c)) (PStr (tc_alias c))
     (PStr (tc_assignment c)) (PStr (tc_uav c)) (PStr (claim_state_value state))
     (PFloat (Fin (tc_confidence c))) (PFloat (Fin timestamp)) (PInt (tc_priority c))"

record target_claim_decision =
  td_accepted :: bool
  td_event_type :: string
  td_claim :: target_claim
  td_winner :: "target_claim option"
  td_loser_uav :: "string option"
  td_reason :: string

definition decision_conflict :: "target_claim_decision \<Rightarrow> bool" where
  "decision_conflict d = (td_event_type d = ''TARGET_CLAIM_CONFLICT'')"

definition hold_uav_id :: "target_claim_decision \<Rightarrow> string option" where
  "hold_uav_id d = (if decision_conflict d then td_loser_uav d else None)"

definition decision_to_dict :: "target_claim_decision \<Rightarrow> pyval" where
  "decision_to_dict d = PDict
     [(PStr ''accepted'', PBool (td_accepted d)),
      (PStr ''event_type'', PStr (td_event_type d)),
      (PStr ''claim'', claim_to_dict (td_claim d)),
      (PStr ''winner'', opt_pyval claim_to_dict (td_winner d)),
      (PStr ''loser_uav_id'', opt_pyval PStr (td_loser_uav d)),
      (PStr ''reason'', PStr (td_reason d))]"

type_synonym binding = "string \<times> string \<times> string \<times> int"

record target_registry =
  tr_policy :: target_claim_policy
  tr_records :: "(string \<times> shared_target_record) list"
  tr_assignments :: "(string \<times> binding) list"
  tr_events :: "target_claim_decision list"
  tr_event_count :: nat
  tr_staging_owner :: "nat option"
  tr_staging_consumed :: bool

section \<open>Operations\<close>

definition registry_init :: "pyval \<Rightarrow> target_registry result" where
  "registry_init policy = rbind (TargetClaimPolicy policy) (\<lambda>p.
     Inr \<lparr>tr_policy = p, tr_records = [], tr_assignments = [], tr_events = [],
          tr_event_count = 0, tr_staging_owner = None, tr_staging_consumed = False\<rparr>)"

definition MAX_RETAINED_EVENTS :: nat where
  "MAX_RETAINED_EVENTS = 256"

text \<open>The body of \<open>_record_event\<close> on the list of events: append, then drop the overflow.\<close>

definition retain_event :: "nat \<Rightarrow> 'a list \<Rightarrow> 'a \<Rightarrow> 'a list" where
  "retain_event cap events d =
     (let events = events @ [d]; overflow = int (length events) - int cap
      in if 0 < overflow then drop (nat overflow) events else events)"

definition record_event :: "target_registry \<Rightarrow> target_claim_decision \<Rightarrow> target_registry" where
  "record_event s d = s\<lparr>tr_event_count := Suc (tr_event_count s),
     tr_events := retain_event MAX_RETAINED_EVENTS (tr_events s) d\<rparr>"

definition upsert_claim :: "target_claim list \<Rightarrow> target_claim \<Rightarrow> target_claim list" where
  "upsert_claim claims replacement =
     sort_key tc_assignment
       (filter (\<lambda>c. tc_assignment c \<noteq> tc_assignment replacement) claims @ [replacement])"

definition register_target ::
  "pyval \<Rightarrow> pyval \<Rightarrow> target_registry \<Rightarrow> unit result \<times> target_registry" where
  "register_target target alias s =
     checked s (target_id target) (\<lambda>target.
     checked s (semantic_alias_text alias) (\<lambda>alias.
       case dget (tr_records s) target of
         Some existing \<Rightarrow>
           if rec_alias existing \<noteq> alias
           then (Inl (TargetClaimError ''target ID is already registered with another alias''), s)
           else (Inr (), s)
       | None \<Rightarrow>
           checked s (SharedTargetRecord (PStr target) (PStr alias) []) (\<lambda>record.
             (Inr (), s\<lparr>tr_records := dset (tr_records s) target record\<rparr>))))"

text \<open>The order in which an exclusive target is awarded: higher priority, then smaller ids.\<close>

definition winner_key :: "target_claim \<Rightarrow> int \<times> string \<times> string" where
  "winner_key c = (- tc_priority c, tc_uav c, tc_assignment c)"

definition loser_key :: "target_claim \<Rightarrow> int \<times> string \<times> string" where
  "loser_key c = (tc_priority c, tc_uav c, tc_assignment c)"

text \<open>The conflict branch of \<open>claim\<close>: an exclusive target with other active claimants.\<close>

definition claim_conflict ::
  "shared_target_record \<Rightarrow> target_claim list \<Rightarrow> target_claim \<Rightarrow> string \<Rightarrow> target_registry
     \<Rightarrow> target_claim_decision result \<times> target_registry" where
  "claim_conflict record others claim target s =
     (let contenders = others @ [claim];
          winner = min_by winner_key (hd contenders) (tl contenders);
          accepted = (tc_assignment winner = tc_assignment claim);
          loser = (if \<not> accepted then claim else min_by loser_key (hd others) (tl others));
          losing_assignment_ids = map tc_assignment others
      in checked s
           (if accepted
            then rbind (rmap (\<lambda>existing.
                     if tc_assignment existing \<in> set losing_assignment_ids
                     then replace_state existing TCS_RELEASED (tc_timestamp existing)
                     else Inr existing) (rec_claims record))
                   (\<lambda>claims. Inr (upsert_claim claims claim))
            else rbind (replace_state claim TCS_RELEASED (tc_timestamp claim))
                   (\<lambda>released. Inr (upsert_claim (rec_claims record) released)))
           (\<lambda>claims.
         checked s (replace_claims record claims) (\<lambda>record'.
           let decision = \<lparr>td_accepted = accepted, td_event_type = ''TARGET_CLAIM_CONFLICT'',
                 td_claim = claim, td_winner = Some winner, td_loser_uav = Some (tc_uav loser),
                 td_reason = ''exclusive target already has another active claimant''\<rparr>
           in (Inr decision,
               record_event (s\<lparr>tr_records := dset (tr_records s) target record'\<rparr>) decision))))"

definition claim_accept ::
  "shared_target_record \<Rightarrow> target_claim \<Rightarrow> string \<Rightarrow> target_registry
     \<Rightarrow> target_claim_decision result \<times> target_registry" where
  "claim_accept record claim target s =
     checked s (replace_claims record (upsert_claim (rec_claims record) claim)) (\<lambda>record'.
       let decision = \<lparr>td_accepted = True, td_event_type = ''TARGET_CLAIM_ACCEPTED'',
             td_claim = claim, td_winner = Some claim, td_loser_uav = None, td_reason = []\<rparr>
       in (Inr decision,
           record_event (s\<lparr>tr_records := dset (tr_records s) target record'\<rparr>) decision))"

definition desired_claim_state :: "target_claim_policy \<Rightarrow> pyval \<Rightarrow> target_claim_state result" where
  "desired_claim_state policy state =
     rbind (if state = PNone \<and> policy = TCP_EXCLUSIVE then Inr TCS_EXCLUSIVE
            else if state = PNone then Inr TCS_SHARED
            else TargetClaimState state) (\<lambda>desired.
       if desired \<notin> {TCS_PROVISIONAL, TCS_EXCLUSIVE, TCS_SHARED}
       then Inl (TargetClaimError ''claim state must be PROVISIONAL, EXCLUSIVE, or SHARED'')
       else Inr desired)"

definition claim_of_assignment :: "shared_target_record \<Rightarrow> string \<Rightarrow> target_claim option" where
  "claim_of_assignment record assignment =
     List.find (\<lambda>existing. tc_assignment existing = assignment) (rec_claims record)"

text \<open>The part of \<open>claim\<close> under the lock, on validated arguments.\<close>

definition claim_locked ::
  "string \<Rightarrow> string \<Rightarrow> string \<Rightarrow> rat \<Rightarrow> rat \<Rightarrow> target_claim_state \<Rightarrow> target_registry
     \<Rightarrow> target_claim_decision result \<times> target_registry" where
  "claim_locked assignment uav target confidence timestamp desired s =
     (case dget (tr_assignments s) assignment of
        None \<Rightarrow> (Inl (TargetClaimError ''assignment is not registered''), s)
      | Some (bound_uav, bound_target, alias, priority) \<Rightarrow>
          if bound_uav \<noteq> uav \<or> bound_target \<noteq> target
          then (Inl (TargetClaimError
                 ''claim does not match the trusted assignment UAV/target binding''), s)
          else (case dget (tr_records s) target of
            None \<Rightarrow> (Inl (KeyError target), s)
          | Some record \<Rightarrow>
              let previous = claim_of_assignment record assignment in
              if (case previous of None \<Rightarrow> False | Some p \<Rightarrow> tc_state p = TCS_TERMINATED)
              then (Inl (TargetClaimError ''terminated claim cannot be reactivated''), s)
              else if (case previous of None \<Rightarrow> False | Some p \<Rightarrow> timestamp < tc_timestamp p)
              then (Inl (TargetClaimError ''claim timestamp must not decrease''), s)
              else checked s (TargetClaim (PStr target) (PStr alias) (PStr assignment) (PStr uav)
                      (PStr (claim_state_value desired)) (PFloat (Fin confidence))
                      (PFloat (Fin timestamp)) (PInt priority)) (\<lambda>claim.
                let others = filter (\<lambda>e. tc_assignment e \<noteq> assignment) (active_claims record) in
                if tr_policy s = TCP_EXCLUSIVE \<and> desired \<noteq> TCS_PROVISIONAL \<and> others \<noteq> []
                then claim_conflict record others claim target s
                else claim_accept record claim target s)))"

definition claim ::
  "pyval \<Rightarrow> pyval \<Rightarrow> pyval \<Rightarrow> pyval \<Rightarrow> pyval \<Rightarrow> pyval \<Rightarrow> target_registry
     \<Rightarrow> target_claim_decision result \<times> target_registry" where
  "claim assignment uav target confidence timestamp state s =
     checked s (validate_routing_id assignment ''assignment_id'') (\<lambda>assignment.
     checked s (validate_uav_id uav) (\<lambda>uav.
     checked s (target_id target) (\<lambda>target.
     checked s (claim_confidence confidence) (\<lambda>confidence.
     checked s (claim_timestamp timestamp) (\<lambda>timestamp.
     checked s (desired_claim_state (tr_policy s) state) (\<lambda>desired.
       claim_locked assignment uav target confidence timestamp desired s))))))"

text \<open>\<open>bind_assignment\<close> first registers the target, then stores the binding, then claims.\<close>

definition store_binding ::
  "string \<Rightarrow> string \<Rightarrow> string \<Rightarrow> string \<Rightarrow> int \<Rightarrow> target_registry \<Rightarrow> unit result \<times> target_registry" where
  "store_binding assignment uav target alias priority s =
     (let previous = dget (tr_assignments s) assignment;
          binding = (uav, target, alias, priority)
      in if previous \<noteq> None \<and> previous \<noteq> Some binding
         then (Inl (TargetClaimError ''assignment_id is already bound differently''), s)
         else if list_ex (\<lambda>(other, bound_uav, _). bound_uav = uav \<and> other \<noteq> assignment)
                (tr_assignments s)
         then (Inl (TargetClaimError ''UAV already has another active assignment''), s)
         else (Inr (), s\<lparr>tr_assignments := dset (tr_assignments s) assignment binding\<rparr>))"

definition bind_assignment ::
  "pyval \<Rightarrow> pyval \<Rightarrow> pyval \<Rightarrow> pyval \<Rightarrow> pyval \<Rightarrow> pyval \<Rightarrow> bool \<Rightarrow> target_registry
     \<Rightarrow> target_claim result \<times> target_registry" where
  "bind_assignment assignment uav target alias priority timestamp provisional s =
     checked s (validate_routing_id assignment ''assignment_id'') (\<lambda>a.
     checked s (validate_uav_id uav) (\<lambda>u.
     checked s (target_id target) (\<lambda>t.
     checked s (claim_priority priority) (\<lambda>p.
       andthen (register_target (PStr t) alias s) (\<lambda>_ s.
       checked s (semantic_alias_text alias) (\<lambda>al.
       andthen (store_binding a u t al p s) (\<lambda>_ s.
       andthen (claim (PStr a) (PStr u) (PStr t) (PFloat (Fin 1)) timestamp
            (PStr (claim_state_value
               (if provisional then TCS_PROVISIONAL
                else if tr_policy s = TCP_EXCLUSIVE then TCS_EXCLUSIVE else TCS_SHARED))) s)
         (\<lambda>decision s. (Inr (td_claim decision), s)))))))))"

definition set_terminal_state ::
  "pyval \<Rightarrow> target_claim_state \<Rightarrow> pyval \<Rightarrow> target_registry \<Rightarrow> target_claim result \<times> target_registry" where
  "set_terminal_state assignment state timestamp s =
     checked s (validate_routing_id assignment ''assignment_id'') (\<lambda>assignment.
     checked s (claim_timestamp timestamp) (\<lambda>timestamp.
       case dget (tr_assignments s) assignment of
         None \<Rightarrow> (Inl (TargetClaimError ''assignment is not registered''), s)
       | Some (_, target, _, _) \<Rightarrow>
           (case dget (tr_records s) target of
             None \<Rightarrow> (Inl (KeyError target), s)
           | Some record \<Rightarrow>
               (case claim_of_assignment record assignment of
                 None \<Rightarrow> (Inl (TargetClaimError ''assignment has no claim''), s)
               | Some previous \<Rightarrow>
                   if tc_state previous = TCS_TERMINATED
                   then if state = TCS_TERMINATED then (Inr previous, s)
                        else (Inl (TargetClaimError ''terminated claim cannot change state''), s)
                   else checked s (replace_state previous state
                          (max (tc_timestamp previous) timestamp)) (\<lambda>updated.
                        checked s (replace_claims record
                          (upsert_claim (rec_claims record) updated)) (\<lambda>record'.
                        (Inr updated, s\<lparr>tr_records := dset (tr_records s) target record'\<rparr>)))))))"

definition release :: "pyval \<Rightarrow> pyval \<Rightarrow> target_registry \<Rightarrow> target_claim result \<times> target_registry" where
  "release assignment timestamp s = set_terminal_state assignment TCS_RELEASED timestamp s"

definition terminate :: "pyval \<Rightarrow> pyval \<Rightarrow> target_registry \<Rightarrow> target_claim result \<times> target_registry" where
  "terminate assignment timestamp s = set_terminal_state assignment TCS_TERMINATED timestamp s"

section \<open>Queries\<close>

definition assigned_target :: "pyval \<Rightarrow> pyval \<Rightarrow> target_registry \<Rightarrow> string result" where
  "assigned_target assignment uav s =
     rbind (validate_routing_id assignment ''assignment_id'') (\<lambda>assignment.
     rbind (validate_uav_id uav) (\<lambda>uav.
       case dget (tr_assignments s) assignment of
         None \<Rightarrow> Inl (TargetClaimError ''assignment is not bound to this UAV'')
       | Some binding \<Rightarrow>
           if fst binding \<noteq> uav
           then Inl (TargetClaimError ''assignment is not bound to this UAV'')
           else Inr (fst (snd binding))))"

definition validate_oracle_binding :: "pyval \<Rightarrow> pyval \<Rightarrow> pyval \<Rightarrow> target_registry \<Rightarrow> unit result" where
  "validate_oracle_binding assignment uav target s =
     rbind (assigned_target assignment uav s) (\<lambda>expected.
     rbind (validate_routing_id target ''assigned_target_id'') (\<lambda>target.
       if expected \<noteq> target
       then Inl (TargetClaimError ''Oracle backend target is outside its assignment'')
       else Inr ()))"

definition registry_record :: "pyval \<Rightarrow> target_registry \<Rightarrow> shared_target_record result" where
  "registry_record target s =
     rbind (target_id target) (\<lambda>target.
       case dget (tr_records s) target of
         None \<Rightarrow> Inl (TargetClaimError ''target is not registered'')
       | Some record \<Rightarrow> Inr record)"

definition registry_records :: "target_registry \<Rightarrow> shared_target_record list" where
  "registry_records s = map (\<lambda>key. the (dget (tr_records s) key)) (sort (dkeys (tr_records s)))"

definition targets_to_dict :: "target_registry \<Rightarrow> pyval" where
  "targets_to_dict s = PDict (map (\<lambda>(t, r). (PStr t, record_to_dict r)) (sort_key fst (tr_records s)))"

definition registry_snapshot :: "target_registry \<Rightarrow> pyval" where
  "registry_snapshot s = PDict
     [(PStr ''claim_policy'', PStr (claim_policy_value (tr_policy s))),
      (PStr ''targets'', targets_to_dict s),
      (PStr ''event_count'', PInt (int (tr_event_count s))),
      (PStr ''events'', PList (map decision_to_dict (tr_events s)))]"

definition registry_summary_snapshot :: "target_registry \<Rightarrow> pyval" where
  "registry_summary_snapshot s = PDict
     [(PStr ''claim_policy'', PStr (claim_policy_value (tr_policy s))),
      (PStr ''targets'', targets_to_dict s),
      (PStr ''event_count'', PInt (int (tr_event_count s)))]"

section \<open>Staging\<close>

text \<open>
  Registries are objects: a heap maps an object reference to its state.  \<open>PObj k\<close> is a
  \<open>SharedTargetRegistry\<close> exactly when the heap holds a registry at \<open>k\<close>.
\<close>

type_synonym registry_heap = "nat \<Rightarrow> target_registry option"

definition clone_for_staging :: "nat \<Rightarrow> nat \<Rightarrow> registry_heap \<Rightarrow> registry_heap" where
  "clone_for_staging self fresh h =
     (case h self of
        None \<Rightarrow> h
      | Some s \<Rightarrow> h(fresh \<mapsto> \<lparr>tr_policy = tr_policy s, tr_records = tr_records s,
          tr_assignments = tr_assignments s, tr_events = tr_events s,
          tr_event_count = tr_event_count s, tr_staging_owner = Some self,
          tr_staging_consumed = False\<rparr>))"

definition adopt_staged :: "nat \<Rightarrow> pyval \<Rightarrow> registry_heap \<Rightarrow> unit result \<times> registry_heap" where
  "adopt_staged self staged h =
     (case staged of
        PObj k \<Rightarrow>
          (case (h self, h k) of
             (Some s, Some c) \<Rightarrow>
               if k = self then (Inl (TargetClaimError ''cannot adopt the live registry itself''), h)
               else if tr_policy c \<noteq> tr_policy s
               then (Inl (TargetClaimError ''staged registry claim policy mismatch''), h)
               else if tr_staging_owner c \<noteq> Some self \<or> tr_staging_consumed c
               then (Inl (TargetClaimError
                      ''staged registry is not an unused candidate of this owner''), h)
               else (Inr (), h(
                 self \<mapsto> s\<lparr>tr_records := tr_records c, tr_assignments := tr_assignments c,
                           tr_events := tr_events c, tr_event_count := tr_event_count c\<rparr>,
                 k \<mapsto> c\<lparr>tr_records := tr_records s, tr_assignments := tr_assignments s,
                        tr_events := tr_events s, tr_event_count := tr_event_count s,
                        tr_staging_consumed := True, tr_staging_owner := None\<rparr>))
           | _ \<Rightarrow> (Inl (TypeError ''staged must be a SharedTargetRegistry''), h))
      | _ \<Rightarrow> (Inl (TypeError ''staged must be a SharedTargetRegistry''), h))"

section \<open>Constructor checks on checked values\<close>

definition claim_ok :: "target_claim \<Rightarrow> bool" where
  "claim_ok c \<longleftrightarrow> routing_id_match (tc_target c) \<and> routing_id_match (tc_assignment c)
     \<and> routing_id_match (tc_uav c) \<and> tc_alias c \<noteq> [] \<and> py_strip (tc_alias c) = tc_alias c
     \<and> 0 \<le> tc_confidence c \<and> tc_confidence c \<le> 1 \<and> 0 \<le> tc_timestamp c"

lemma TargetClaimState_value [simp]: "TargetClaimState (PStr (claim_state_value st)) = Inr st"
  unfolding TargetClaimState_def
  by (rule enum_of_val) (cases st; auto simp: inj_on_def)+

lemma target_id_Inr [simp]: "target_id v = Inr s \<longleftrightarrow> v = PStr s \<and> routing_id_match s"
  by (simp add: target_id_def)

lemma target_id_PStr [simp]: "routing_id_match s \<Longrightarrow> target_id (PStr s) = Inr s"
  by simp

lemma semantic_alias_text_PStr: "al \<noteq> [] \<Longrightarrow> py_strip al = al \<Longrightarrow> semantic_alias_text (PStr al) = Inr al"
  by (simp add: semantic_alias_text_def stripped_text_def)

lemma semantic_alias_text_Inr:
  "semantic_alias_text v = Inr t \<longleftrightarrow> (\<exists>s. v = PStr s \<and> t = py_strip s \<and> t \<noteq> [])"
  by (simp add: semantic_alias_text_def stripped_text_Inr)

lemma claim_numbers_Inr:
  "claim_confidence v = Inr x \<Longrightarrow> 0 \<le> x \<and> x \<le> 1" "claim_timestamp v = Inr x \<Longrightarrow> 0 \<le> x"
  unfolding claim_confidence_def claim_timestamp_def by (drule real_value_Inr; simp)+

lemma claim_numbers_Fin [simp]:
  "0 \<le> x \<Longrightarrow> x \<le> 1 \<Longrightarrow> claim_confidence (PFloat (Fin x)) = Inr x"
  "0 \<le> x \<Longrightarrow> claim_timestamp (PFloat (Fin x)) = Inr x"
  "claim_priority (PInt i) = Inr i"
  by (simp_all add: claim_confidence_def claim_timestamp_def claim_priority_def)

lemma TargetClaim_checked:
  assumes "routing_id_match t" and "routing_id_match a" and "routing_id_match u"
    and "al \<noteq> []" and "py_strip al = al" and "0 \<le> cf" and "cf \<le> 1" and "0 \<le> ts"
  shows "TargetClaim (PStr t) (PStr al) (PStr a) (PStr u) (PStr (claim_state_value st))
      (PFloat (Fin cf)) (PFloat (Fin ts)) (PInt p)
    = Inr \<lparr>tc_target = t, tc_alias = al, tc_assignment = a, tc_uav = u, tc_state = st,
           tc_confidence = cf, tc_timestamp = ts, tc_priority = p\<rparr>"
  using assms by (simp add: TargetClaim_def semantic_alias_text_PStr)

lemma replace_state_ok:
  assumes "claim_ok c" and "0 \<le> ts"
  shows "replace_state c st ts = Inr (c\<lparr>tc_state := st, tc_timestamp := ts\<rparr>)"
  using assms unfolding replace_state_def claim_ok_def by (subst TargetClaim_checked) auto

lemma SharedTargetRecord_checked:
  assumes "routing_id_match t" and "al \<noteq> []" and "py_strip al = al"
    and "\<forall>c\<in>set cs. tc_target c = t"
  shows "SharedTargetRecord (PStr t) (PStr al) cs
    = Inr \<lparr>rec_target = t, rec_alias = al, rec_claims = cs\<rparr>"
proof -
  have "\<not> list_ex (\<lambda>c. tc_target c \<noteq> t) cs" using assms(4) by (simp add: list_ex_iff)
  then show ?thesis using assms(1-3) by (simp add: SharedTargetRecord_def semantic_alias_text_PStr)
qed

section \<open>Well-formed registries\<close>

text \<open>A claim that owns its target, and a record with at most one owner.\<close>

definition owning :: "target_claim \<Rightarrow> bool" where
  "owning c \<longleftrightarrow> tc_state c = TCS_EXCLUSIVE \<or> tc_state c = TCS_SHARED"

definition single_owner :: "target_claim list \<Rightarrow> bool" where
  "single_owner cs \<longleftrightarrow> (\<forall>c\<in>set cs. \<forall>d\<in>set cs. owning c \<longrightarrow> owning d \<longrightarrow> c = d)"

definition claims_ok :: "string \<Rightarrow> target_claim list \<Rightarrow> bool" where
  "claims_ok t cs \<longleftrightarrow> sorted (map tc_assignment cs) \<and> distinct (map tc_assignment cs)
     \<and> (\<forall>c\<in>set cs. claim_ok c \<and> tc_target c = t)"

definition record_ok :: "string \<Rightarrow> shared_target_record \<Rightarrow> bool" where
  "record_ok t r \<longleftrightarrow> rec_target r = t \<and> routing_id_match t \<and> rec_alias r \<noteq> []
     \<and> py_strip (rec_alias r) = rec_alias r \<and> claims_ok t (rec_claims r)"

definition bound_claim :: "target_registry \<Rightarrow> string \<Rightarrow> target_claim \<Rightarrow> bool" where
  "bound_claim s t c \<longleftrightarrow>
     dget (tr_assignments s) (tc_assignment c) = Some (tc_uav c, t, tc_alias c, tc_priority c)"

definition records_inv :: "target_registry \<Rightarrow> bool" where
  "records_inv s \<longleftrightarrow> (\<forall>t r. dget (tr_records s) t = Some r \<longrightarrow>
     record_ok t r \<and> (\<forall>c\<in>set (rec_claims r). bound_claim s t c)
     \<and> (tr_policy s = TCP_EXCLUSIVE \<longrightarrow> single_owner (rec_claims r)))"

definition bindings_inv :: "target_registry \<Rightarrow> bool" where
  "bindings_inv s \<longleftrightarrow>
     (\<forall>a u t al p. dget (tr_assignments s) a = Some (u, t, al, p) \<longrightarrow>
        routing_id_match a \<and> routing_id_match u \<and>
        (\<exists>r. dget (tr_records s) t = Some r \<and> rec_alias r = al)) \<and>
     (\<forall>a b u x y. dget (tr_assignments s) a = Some (u, x) \<longrightarrow>
        dget (tr_assignments s) b = Some (u, y) \<longrightarrow> a = b)"

definition events_inv :: "target_registry \<Rightarrow> bool" where
  "events_inv s \<longleftrightarrow> length (tr_events s) = min MAX_RETAINED_EVENTS (tr_event_count s)"

definition registry_inv :: "target_registry \<Rightarrow> bool" where
  "registry_inv s \<longleftrightarrow> dict_ok (tr_records s) \<and> dict_ok (tr_assignments s)
     \<and> records_inv s \<and> bindings_inv s \<and> events_inv s"

lemma registry_inv_init: "registry_init p = Inr s \<Longrightarrow> registry_inv s"
  by (auto simp: registry_init_def rbind_eq_Inr registry_inv_def records_inv_def
      bindings_inv_def events_inv_def)

lemma registry_invD:
  assumes "registry_inv s" and "dget (tr_records s) t = Some r"
  shows "record_ok t r" and "\<And>c. c \<in> set (rec_claims r) \<Longrightarrow> bound_claim s t c"
    and "tr_policy s = TCP_EXCLUSIVE \<Longrightarrow> single_owner (rec_claims r)"
  using assms unfolding registry_inv_def records_inv_def by blast+

lemma registry_inv_binding:
  assumes "registry_inv s" and "dget (tr_assignments s) a = Some (u, t, al, p)"
  shows "routing_id_match a" and "routing_id_match u"
    and "\<exists>r. dget (tr_records s) t = Some r \<and> rec_alias r = al"
  using assms unfolding registry_inv_def bindings_inv_def by blast+

lemma registry_inv_uav:
  assumes "registry_inv s" and "dget (tr_assignments s) a = Some (u, x)"
    and "dget (tr_assignments s) b = Some (u, y)"
  shows "a = b"
  using assms unfolding registry_inv_def bindings_inv_def by metis

section \<open>The event history\<close>

lemma retain_event_drop: "retain_event cap xs d = drop (Suc (length xs) - cap) (xs @ [d])"
proof -
  have "nat (int (length (xs @ [d])) - int cap) = Suc (length xs) - cap" by simp
  moreover have "(0 < int (length (xs @ [d])) - int cap) = (0 < Suc (length xs) - cap)"
    by (simp only: length_append_singleton) linarith
  ultimately show ?thesis by (simp only: retain_event_def Let_def) auto
qed

interpretation registry_events: bounded_log "retain_event :: nat \<Rightarrow> 'e list \<Rightarrow> 'e \<Rightarrow> 'e list"
  by unfold_locales (rule retain_event_drop)

lemma length_retain_event:
  "length xs \<le> cap \<Longrightarrow> 0 < cap \<Longrightarrow> length (retain_event cap xs d) = min cap (Suc (length xs))"
  by (simp add: registry_events.push_full)

lemma record_event_inv: "registry_inv s \<Longrightarrow> registry_inv (record_event s d)"
proof -
  assume inv: "registry_inv s"
  have "length (tr_events s) \<le> MAX_RETAINED_EVENTS"
    using inv by (simp add: registry_inv_def events_inv_def)
  then have "events_inv (record_event s d)"
    using inv by (auto simp: registry_inv_def events_inv_def record_event_def MAX_RETAINED_EVENTS_def
        length_retain_event)
  moreover have "records_inv (record_event s d) = records_inv s"
    "bindings_inv (record_event s d) = bindings_inv s"
    by (simp_all add: records_inv_def bindings_inv_def bound_claim_def record_event_def)
  ultimately show ?thesis using inv by (simp add: registry_inv_def record_event_def)
qed

lemma record_event_fields [simp]:
  "tr_records (record_event s d) = tr_records s" "tr_policy (record_event s d) = tr_policy s"
  "tr_assignments (record_event s d) = tr_assignments s"
  "tr_event_count (record_event s d) = Suc (tr_event_count s)"
  by (simp_all add: record_event_def)

section \<open>Updating one record\<close>

lemma set_upsert:
  "set (upsert_claim cs c) = insert c {x \<in> set cs. tc_assignment x \<noteq> tc_assignment c}"
  by (auto simp: upsert_claim_def)

lemma claims_ok_upsert:
  assumes "claims_ok t cs" and "claim_ok c" and "tc_target c = t"
  shows "claims_ok t (upsert_claim cs c)"
proof -
  let ?xs = "filter (\<lambda>x. tc_assignment x \<noteq> tc_assignment c) cs @ [c]"
  have "distinct (map tc_assignment ?xs)"
    using assms(1) by (auto simp: claims_ok_def distinct_map_filter)
  moreover have "mset (map tc_assignment (sort_key tc_assignment ?xs)) = mset (map tc_assignment ?xs)"
    by (simp only: mset_map mset_sort)
  ultimately have "distinct (map tc_assignment (sort_key tc_assignment ?xs))"
    by (metis mset_eq_imp_distinct_iff)
  then show ?thesis using assms by (auto simp: claims_ok_def upsert_claim_def)
qed

lemma put_record_inv:
  assumes inv: "registry_inv s" and r: "dget (tr_records s) t = Some r"
    and cs: "claims_ok t cs" "\<And>c. c \<in> set cs \<Longrightarrow> bound_claim s t c"
    and own: "tr_policy s = TCP_EXCLUSIVE \<Longrightarrow> single_owner cs"
  shows "registry_inv (s\<lparr>tr_records := dset (tr_records s) t (r\<lparr>rec_claims := cs\<rparr>)\<rparr>)"
proof -
  have "record_ok t (r\<lparr>rec_claims := cs\<rparr>)"
    using registry_invD(1) [OF inv r] cs(1) by (simp add: record_ok_def)
  then have "records_inv (s\<lparr>tr_records := dset (tr_records s) t (r\<lparr>rec_claims := cs\<rparr>)\<rparr>)"
    using inv cs own by (auto simp: registry_inv_def records_inv_def dget_dset bound_claim_def)
  moreover have "bindings_inv (s\<lparr>tr_records := dset (tr_records s) t (r\<lparr>rec_claims := cs\<rparr>)\<rparr>)"
    unfolding bindings_inv_def
  proof (intro conjI allI impI)
    fix a u t' al p
    assume "dget (tr_assignments (s\<lparr>tr_records := dset (tr_records s) t (r\<lparr>rec_claims := cs\<rparr>)\<rparr>)) a
      = Some (u, t', al, p)"
    then have b: "dget (tr_assignments s) a = Some (u, t', al, p)" by simp
    show "routing_id_match a" "routing_id_match u" using registry_inv_binding [OF inv b] by simp_all
    show "\<exists>r'. dget (tr_records (s\<lparr>tr_records := dset (tr_records s) t (r\<lparr>rec_claims := cs\<rparr>)\<rparr>)) t'
        = Some r' \<and> rec_alias r' = al"
      using registry_inv_binding(3) [OF inv b] r by (auto simp: dget_dset)
  next
    fix a b u x y
    assume "dget (tr_assignments (s\<lparr>tr_records := dset (tr_records s) t (r\<lparr>rec_claims := cs\<rparr>)\<rparr>)) a
        = Some (u, x)"
      and "dget (tr_assignments (s\<lparr>tr_records := dset (tr_records s) t (r\<lparr>rec_claims := cs\<rparr>)\<rparr>)) b
        = Some (u, y)"
    then show "a = b" using registry_inv_uav [OF inv, of a u x b y] by simp
  qed
  ultimately show ?thesis using inv by (simp add: registry_inv_def events_inv_def)
qed

lemma replace_claims_ok:
  assumes "record_ok t r" and "claims_ok t cs"
  shows "replace_claims r cs = Inr (r\<lparr>rec_claims := cs\<rparr>)"
  using assms unfolding replace_claims_def record_ok_def claims_ok_def
  by (subst SharedTargetRecord_checked) auto

section \<open>What an operation does to the claims of a record\<close>

text \<open>
  No claim is ever lost: after any operation a claim is still there for the same assignment,
  UAV, target and priority, not older than before, and unchanged if it was terminated.
\<close>

definition evolves :: "target_claim list \<Rightarrow> target_claim list \<Rightarrow> bool" where
  "evolves cs cs' \<longleftrightarrow> (\<forall>c\<in>set cs. \<exists>c'\<in>set cs'.
     tc_assignment c' = tc_assignment c \<and> tc_uav c' = tc_uav c \<and> tc_target c' = tc_target c
     \<and> tc_priority c' = tc_priority c \<and> tc_timestamp c \<le> tc_timestamp c'
     \<and> (tc_state c = TCS_TERMINATED \<longrightarrow> c' = c))"

lemma evolves_refl [simp]: "evolves cs cs"
  by (auto simp: evolves_def)

lemma evolves_trans:
  assumes "evolves a b" and "evolves b c"
  shows "evolves a c"
  unfolding evolves_def
proof
  fix x assume "x \<in> set a"
  with assms(1) obtain y where "y \<in> set b" "tc_assignment y = tc_assignment x"
      "tc_uav y = tc_uav x" "tc_target y = tc_target x" "tc_priority y = tc_priority x"
      "tc_timestamp x \<le> tc_timestamp y" "tc_state x = TCS_TERMINATED \<longrightarrow> y = x"
    unfolding evolves_def by blast
  moreover obtain z where "z \<in> set c" "tc_assignment z = tc_assignment y"
      "tc_uav z = tc_uav y" "tc_target z = tc_target y" "tc_priority z = tc_priority y"
      "tc_timestamp y \<le> tc_timestamp z" "tc_state y = TCS_TERMINATED \<longrightarrow> z = y"
    using assms(2) \<open>y \<in> set b\<close> unfolding evolves_def by blast
  ultimately show "\<exists>z\<in>set c. tc_assignment z = tc_assignment x \<and> tc_uav z = tc_uav x
      \<and> tc_target z = tc_target x \<and> tc_priority z = tc_priority x
      \<and> tc_timestamp x \<le> tc_timestamp z \<and> (tc_state x = TCS_TERMINATED \<longrightarrow> z = x)"
    by (intro bexI [of _ z]) (auto intro: order.trans)
qed

lemma evolves_upsert:
  assumes "\<And>p. p \<in> set cs \<Longrightarrow> tc_assignment p = tc_assignment c \<Longrightarrow>
      tc_uav c = tc_uav p \<and> tc_target c = tc_target p \<and> tc_priority c = tc_priority p
      \<and> tc_timestamp p \<le> tc_timestamp c \<and> tc_state p \<noteq> TCS_TERMINATED"
  shows "evolves cs (upsert_claim cs c)"
  unfolding evolves_def
proof
  fix p assume p: "p \<in> set cs"
  show "\<exists>c'\<in>set (upsert_claim cs c). tc_assignment c' = tc_assignment p \<and> tc_uav c' = tc_uav p
      \<and> tc_target c' = tc_target p \<and> tc_priority c' = tc_priority p
      \<and> tc_timestamp p \<le> tc_timestamp c' \<and> (tc_state p = TCS_TERMINATED \<longrightarrow> c' = p)"
  proof (cases "tc_assignment p = tc_assignment c")
    case True
    with assms [OF p True] show ?thesis by (intro bexI [of _ c]) (auto simp: set_upsert)
  next
    case False
    with p show ?thesis by (intro bexI [of _ p]) (auto simp: set_upsert)
  qed
qed

text \<open>The release of the losers of a conflict.\<close>

definition release_losers :: "string list \<Rightarrow> target_claim list \<Rightarrow> target_claim list" where
  "release_losers ids cs =
     map (\<lambda>e. if tc_assignment e \<in> set ids then e\<lparr>tc_state := TCS_RELEASED\<rparr> else e) cs"

lemma rmap_release:
  assumes "\<forall>c\<in>set cs. claim_ok c"
  shows "rmap (\<lambda>e. if tc_assignment e \<in> set ids
                     then replace_state e TCS_RELEASED (tc_timestamp e) else Inr e) cs
    = Inr (release_losers ids cs)"
  using assms
proof (induction cs)
  case (Cons c cs)
  then have "replace_state c TCS_RELEASED (tc_timestamp c) = Inr (c\<lparr>tc_state := TCS_RELEASED\<rparr>)"
    by (subst replace_state_ok) (simp_all add: claim_ok_def)
  with Cons show ?case by (auto simp: release_losers_def)
qed (simp add: release_losers_def)

lemma release_losers_keys [simp]:
  "map tc_assignment (release_losers ids cs) = map tc_assignment cs"
  by (auto simp: release_losers_def)

lemma claims_ok_release: "claims_ok t cs \<Longrightarrow> claims_ok t (release_losers ids cs)"
  unfolding claims_ok_def by (simp only: release_losers_keys)
    (auto simp: release_losers_def claim_ok_def)

lemma release_losers_mem:
  "c \<in> set (release_losers ids cs) \<longleftrightarrow>
     (\<exists>e\<in>set cs. c = (if tc_assignment e \<in> set ids then e\<lparr>tc_state := TCS_RELEASED\<rparr> else e))"
  by (auto simp: release_losers_def)

lemma evolves_release:
  assumes "\<And>e. e \<in> set cs \<Longrightarrow> tc_assignment e \<in> set ids \<Longrightarrow> tc_state e \<noteq> TCS_TERMINATED"
  shows "evolves cs (release_losers ids cs)"
  unfolding evolves_def
proof
  fix e assume "e \<in> set cs"
  with assms show "\<exists>c'\<in>set (release_losers ids cs). tc_assignment c' = tc_assignment e
      \<and> tc_uav c' = tc_uav e \<and> tc_target c' = tc_target e \<and> tc_priority c' = tc_priority e
      \<and> tc_timestamp e \<le> tc_timestamp c' \<and> (tc_state e = TCS_TERMINATED \<longrightarrow> c' = e)"
    by (intro bexI [of _ "if tc_assignment e \<in> set ids then e\<lparr>tc_state := TCS_RELEASED\<rparr> else e"])
      (auto simp: release_losers_mem)
qed

section \<open>A new claim on a record\<close>

text \<open>
  The claim \<open>c\<close> that \<open>claim_locked\<close> constructs for the record \<open>r\<close> of target \<open>t\<close>, after its
  guards: it is checked and bound, and supersedes no terminated or newer claim.
\<close>

definition new_claim ::
  "target_registry \<Rightarrow> string \<Rightarrow> shared_target_record \<Rightarrow> target_claim \<Rightarrow> bool" where
  "new_claim s t r c \<longleftrightarrow> registry_inv s \<and> dget (tr_records s) t = Some r
     \<and> claim_ok c \<and> tc_target c = t \<and> bound_claim s t c
     \<and> (\<forall>p. claim_of_assignment r (tc_assignment c) = Some p \<longrightarrow>
           tc_state p \<noteq> TCS_TERMINATED \<and> tc_timestamp p \<le> tc_timestamp c)"

definition other_claims :: "shared_target_record \<Rightarrow> target_claim \<Rightarrow> target_claim list" where
  "other_claims r c = filter (\<lambda>e. tc_assignment e \<noteq> tc_assignment c) (active_claims r)"

lemma new_claim_facts:
  assumes nc: "new_claim s t r c"
  shows "claims_ok t (rec_claims r)" and "\<And>x. x \<in> set (rec_claims r) \<Longrightarrow> bound_claim s t x"
    and "tr_policy s = TCP_EXCLUSIVE \<Longrightarrow> single_owner (rec_claims r)"
    and "claim_ok c" and "tc_target c = t" and "bound_claim s t c"
  using nc registry_invD [of s t r] by (auto simp: record_ok_def new_claim_def)

lemma new_previous:
  assumes "new_claim s t r c" and "p \<in> set (rec_claims r)" and "tc_assignment p = tc_assignment c"
  shows "claim_of_assignment r (tc_assignment c) = Some p"
  using find_key_distinct [of tc_assignment "rec_claims r" p] new_claim_facts(1) [OF assms(1)] assms
  by (simp add: claim_of_assignment_def claims_ok_def)

lemma new_previous_facts:
  assumes nc: "new_claim s t r c" and p: "p \<in> set (rec_claims r)" "tc_assignment p = tc_assignment c"
  shows "tc_uav c = tc_uav p \<and> tc_target c = tc_target p \<and> tc_priority c = tc_priority p
    \<and> tc_timestamp p \<le> tc_timestamp c \<and> tc_state p \<noteq> TCS_TERMINATED"
proof -
  have "tc_state p \<noteq> TCS_TERMINATED \<and> tc_timestamp p \<le> tc_timestamp c"
    using nc new_previous [OF nc p] unfolding new_claim_def by blast
  then show ?thesis
    using new_claim_facts(1,5,6) [OF nc] new_claim_facts(2) [OF nc p(1)] p
    by (auto simp: bound_claim_def claims_ok_def)
qed

lemma other_claims_mem:
  "x \<in> set (other_claims r c) \<longleftrightarrow>
     x \<in> set (rec_claims r) \<and> claim_active x \<and> tc_assignment x \<noteq> tc_assignment c"
  by (auto simp: other_claims_def active_claims_def)

lemma losers_not_terminated:
  assumes "new_claim s t r c" and "e \<in> set (rec_claims r)"
    and "tc_assignment e \<in> set (map tc_assignment (other_claims r c))"
  shows "tc_state e \<noteq> TCS_TERMINATED"
proof -
  from assms(3) obtain x where x: "x \<in> set (other_claims r c)" "tc_assignment x = tc_assignment e"
    by auto
  then have "x = e"
    using distinct_key_eq [of tc_assignment "rec_claims r"] new_claim_facts(1) [OF assms(1)] assms(2)
    by (auto simp: claims_ok_def other_claims_mem)
  with x show ?thesis by (auto simp: other_claims_mem claim_active_def)
qed

text \<open>
  The three ways the new claim enters the record; \<open>entered\<close> collects what each of them keeps.
\<close>

definition entered :: "target_registry \<Rightarrow> string \<Rightarrow> shared_target_record \<Rightarrow> target_claim list \<Rightarrow> bool" where
  "entered s t r cs \<longleftrightarrow> claims_ok t cs \<and> (\<forall>x\<in>set cs. bound_claim s t x)
     \<and> evolves (rec_claims r) cs \<and> (tr_policy s = TCP_EXCLUSIVE \<longrightarrow> single_owner cs)"

lemma accept_entered:
  assumes nc: "new_claim s t r c"
    and free: "tr_policy s = TCP_EXCLUSIVE \<Longrightarrow> owning c \<Longrightarrow> other_claims r c = []"
  shows "entered s t r (upsert_claim (rec_claims r) c)"
  unfolding entered_def
proof (intro conjI ballI impI)
  show "claims_ok t (upsert_claim (rec_claims r) c)"
    using new_claim_facts(1,4,5) [OF nc] by (rule claims_ok_upsert)
  show "bound_claim s t x" if "x \<in> set (upsert_claim (rec_claims r) c)" for x
    using that new_claim_facts(2,6) [OF nc] by (auto simp: set_upsert)
  show "evolves (rec_claims r) (upsert_claim (rec_claims r) c)"
    by (rule evolves_upsert) (rule new_previous_facts [OF nc])
  assume excl: "tr_policy s = TCP_EXCLUSIVE"
  have "\<not> (owning c \<and> owning x)" if "x \<in> set (rec_claims r)" "tc_assignment x \<noteq> tc_assignment c" for x
    using other_claims_mem [of x r c] that free [OF excl] by (auto simp: owning_def claim_active_def)
  with new_claim_facts(3) [OF nc excl] show "single_owner (upsert_claim (rec_claims r) c)"
    unfolding single_owner_def set_upsert by blast
qed

abbreviation won_claims :: "shared_target_record \<Rightarrow> target_claim \<Rightarrow> target_claim list" where
  "won_claims r c \<equiv>
     upsert_claim (release_losers (map tc_assignment (other_claims r c)) (rec_claims r)) c"

lemma won_claims_active:
  assumes x: "x \<in> set (won_claims r c)" "claim_active x"
  shows "x = c"
proof (rule ccontr)
  assume "x \<noteq> c"
  with x obtain e where e: "e \<in> set (rec_claims r)" "tc_assignment x \<noteq> tc_assignment c"
    "x = (if tc_assignment e \<in> set (map tc_assignment (other_claims r c))
          then e\<lparr>tc_state := TCS_RELEASED\<rparr> else e)"
    by (auto simp: set_upsert release_losers_mem)
  show False
  proof (cases "tc_assignment e \<in> set (map tc_assignment (other_claims r c))")
    case True
    with e x show False by (simp add: claim_active_def)
  next
    case False
    with e have "x = e" by simp
    with e x(2) False show False by (auto simp: other_claims_mem)
  qed
qed

lemma won_entered:
  assumes nc: "new_claim s t r c"
  shows "entered s t r (won_claims r c)"
  unfolding entered_def
proof (intro conjI ballI impI)
  let ?rs = "release_losers (map tc_assignment (other_claims r c)) (rec_claims r)"
  show "claims_ok t (won_claims r c)"
    using claims_ok_release [OF new_claim_facts(1) [OF nc]] new_claim_facts(4,5) [OF nc]
    by (rule claims_ok_upsert)
  show "bound_claim s t x" if "x \<in> set (won_claims r c)" for x
    using that new_claim_facts(2,6) [OF nc]
    by (auto simp: set_upsert release_losers_mem bound_claim_def)
  have "evolves (rec_claims r) ?rs" by (rule evolves_release) (rule losers_not_terminated [OF nc])
  moreover have "evolves ?rs (won_claims r c)"
    by (rule evolves_upsert)
      (auto simp: release_losers_mem split: if_split_asm dest: new_previous_facts [OF nc])
  ultimately show "evolves (rec_claims r) (won_claims r c)" by (rule evolves_trans)
  have "claim_active x" if "owning x" for x using that by (auto simp: owning_def claim_active_def)
  then show "single_owner (won_claims r c)"
    unfolding single_owner_def using won_claims_active by blast
qed

lemma lost_entered:
  assumes nc: "new_claim s t r c"
  shows "entered s t r (upsert_claim (rec_claims r) (c\<lparr>tc_state := TCS_RELEASED\<rparr>))"
  unfolding entered_def
proof (intro conjI ballI impI)
  let ?c = "c\<lparr>tc_state := TCS_RELEASED\<rparr>"
  show "claims_ok t (upsert_claim (rec_claims r) ?c)"
    using new_claim_facts(1,4,5) [OF nc] by (intro claims_ok_upsert) (auto simp: claim_ok_def)
  show "bound_claim s t x" if "x \<in> set (upsert_claim (rec_claims r) ?c)" for x
    using that new_claim_facts(2,6) [OF nc] by (auto simp: set_upsert bound_claim_def)
  show "evolves (rec_claims r) (upsert_claim (rec_claims r) ?c)"
    by (rule evolves_upsert) (auto dest: new_previous_facts [OF nc])
  show "single_owner (upsert_claim (rec_claims r) ?c)" if "tr_policy s = TCP_EXCLUSIVE"
    using new_claim_facts(3) [OF nc that] unfolding single_owner_def set_upsert
    by (auto simp: owning_def)
qed

section \<open>Operations under the invariant\<close>

text \<open>What every atomic step keeps: the invariant, and the history of every record.\<close>

definition step_ok :: "target_registry \<Rightarrow> target_registry \<Rightarrow> bool" where
  "step_ok s s' \<longleftrightarrow> registry_inv s' \<and> tr_policy s' = tr_policy s
     \<and> (\<forall>t r. dget (tr_records s) t = Some r \<longrightarrow>
          (\<exists>r'. dget (tr_records s') t = Some r' \<and> rec_alias r' = rec_alias r
             \<and> evolves (rec_claims r) (rec_claims r')))
     \<and> (\<forall>a b. dget (tr_assignments s) a = Some b \<longrightarrow> dget (tr_assignments s') a = Some b)"

lemma step_ok_refl [simp]: "registry_inv s \<Longrightarrow> step_ok s s"
  by (auto simp: step_ok_def)

lemma step_ok_trans:
  assumes "step_ok a b" and "step_ok b c"
  shows "step_ok a c"
  unfolding step_ok_def
proof (intro conjI allI impI)
  fix t r assume "dget (tr_records a) t = Some r"
  then obtain r' where r': "dget (tr_records b) t = Some r'" "rec_alias r' = rec_alias r"
    "evolves (rec_claims r) (rec_claims r')"
    using assms(1) unfolding step_ok_def by blast
  then obtain r'' where "dget (tr_records c) t = Some r''" "rec_alias r'' = rec_alias r'"
    "evolves (rec_claims r') (rec_claims r'')"
    using assms(2) unfolding step_ok_def by blast
  with r' show "\<exists>r'. dget (tr_records c) t = Some r' \<and> rec_alias r' = rec_alias r
      \<and> evolves (rec_claims r) (rec_claims r')"
    by (auto intro: evolves_trans)
qed (use assms in \<open>auto simp: step_ok_def\<close>)

lemma put_record_step:
  assumes inv: "registry_inv s" and r: "dget (tr_records s) t = Some r" and cs: "entered s t r cs"
  shows "step_ok s (s\<lparr>tr_records := dset (tr_records s) t (r\<lparr>rec_claims := cs\<rparr>)\<rparr>)"
proof -
  have "registry_inv (s\<lparr>tr_records := dset (tr_records s) t (r\<lparr>rec_claims := cs\<rparr>)\<rparr>)"
    using cs by (intro put_record_inv [OF inv r]) (auto simp: entered_def)
  with r cs show ?thesis by (auto simp: step_ok_def entered_def dget_dset)
qed

lemma record_event_step: "step_ok s s' \<Longrightarrow> step_ok s (record_event s' d)"
  by (auto simp: step_ok_def record_event_inv)

lemma register_target_step:
  assumes inv: "registry_inv s"
  shows "step_ok s (snd (register_target tv al s))"
proof -
  have new: "step_ok s (s\<lparr>tr_records := dset (tr_records s) t
      \<lparr>rec_target = t, rec_alias = a, rec_claims = []\<rparr>\<rparr>)"
    if t: "routing_id_match t" "a \<noteq> []" "py_strip a = a" and none: "dget (tr_records s) t = None"
    for t a
  proof -
    let ?s = "s\<lparr>tr_records := dset (tr_records s) t \<lparr>rec_target = t, rec_alias = a, rec_claims = []\<rparr>\<rparr>"
    have "records_inv ?s"
      using inv t by (auto simp: registry_inv_def records_inv_def dget_dset record_ok_def claims_ok_def
          bound_claim_def single_owner_def)
    moreover have "bindings_inv ?s"
    proof -
      have "t' \<noteq> t" if "dget (tr_assignments s) b = Some (u, t', al, p)" for b u t' al p
        using registry_inv_binding(3) [OF inv that] none by auto
      then show ?thesis
        using inv unfolding registry_inv_def bindings_inv_def by (simp add: dget_dset)
    qed
    ultimately have "registry_inv ?s" using inv by (simp add: registry_inv_def events_inv_def)
    with none show ?thesis by (auto simp: step_ok_def dget_dset)
  qed
  show ?thesis
    unfolding register_target_def
    by (auto simp: inv semantic_alias_text_Inr SharedTargetRecord_checked new
        split: checked_split option.split)
qed

lemma store_binding_step:
  assumes inv: "registry_inv s" and ids: "routing_id_match a" "routing_id_match u"
    and r: "dget (tr_records s) t = Some r" "rec_alias r = al"
  shows "step_ok s (snd (store_binding a u t al p s))"
proof (cases "fst (store_binding a u t al p s)")
  case (Inl e)
  then have "snd (store_binding a u t al p s) = s"
    by (auto simp: store_binding_def Let_def split: if_splits)
  with inv show ?thesis by simp
next
  case (Inr x)
  let ?s = "s\<lparr>tr_assignments := dset (tr_assignments s) a (u, t, al, p)\<rparr>"
  have old: "\<And>b. dget (tr_assignments s) a = Some b \<Longrightarrow> b = (u, t, al, p)"
    and s': "snd (store_binding a u t al p s) = ?s"
    using Inr by (auto simp: store_binding_def Let_def split: if_splits)
  have "\<not> list_ex (\<lambda>(other, bound_uav, _). bound_uav = u \<and> other \<noteq> a) (tr_assignments s)"
    using Inr by (auto simp: store_binding_def Let_def split: if_splits)
  then have free: "\<And>o' x. dget (tr_assignments s) o' = Some (u, x) \<Longrightarrow> o' = a"
    by (force simp: list_ex_iff dest!: map_of_SomeD)
  have keep: "\<And>b x. dget (tr_assignments s) b = Some x \<Longrightarrow> dget (tr_assignments ?s) b = Some x"
    using old by (auto simp: dget_dset)
  have "records_inv ?s"
    using inv keep by (auto simp: registry_inv_def records_inv_def bound_claim_def)
  moreover have "bindings_inv ?s"
    unfolding bindings_inv_def
  proof (intro conjI allI impI)
    fix b u' t' al' p'
    assume "dget (tr_assignments ?s) b = Some (u', t', al', p')"
    then consider "b = a" "u' = u" "t' = t" "al' = al"
      | "dget (tr_assignments s) b = Some (u', t', al', p')"
      by (auto simp: dget_dset split: if_splits)
    then show "routing_id_match b" "routing_id_match u'"
      "\<exists>r. dget (tr_records ?s) t' = Some r \<and> rec_alias r = al'"
      using ids r registry_inv_binding [OF inv] by (cases; auto)+
  next
    fix b c u' x y
    assume "dget (tr_assignments ?s) b = Some (u', x)" "dget (tr_assignments ?s) c = Some (u', y)"
    then show "b = c"
      using free registry_inv_uav [OF inv] by (auto simp: dget_dset split: if_splits)
  qed
  ultimately have "registry_inv ?s" using inv by (simp add: registry_inv_def events_inv_def)
  with keep show ?thesis unfolding s' step_ok_def by auto
qed

text \<open>
  The result of a claim on validated arguments: an error that leaves the registry alone, or one
  of the three outcomes on the record of the target, with its event.
\<close>

definition fresh_claim ::
  "string \<Rightarrow> string \<Rightarrow> string \<Rightarrow> rat \<Rightarrow> rat \<Rightarrow> target_claim_state \<Rightarrow> string \<Rightarrow> int \<Rightarrow> target_claim" where
  "fresh_claim a u t cf ts st al p = \<lparr>tc_target = t, tc_alias = al, tc_assignment = a, tc_uav = u,
     tc_state = st, tc_confidence = cf, tc_timestamp = ts, tc_priority = p\<rparr>"

lemma hd_min_by: "xs \<noteq> [] \<Longrightarrow> min_by f (hd xs) (tl xs) \<in> set xs \<and>
    (\<forall>y\<in>set xs. f (min_by f (hd xs) (tl xs)) \<le> f y)"
proof (cases xs)
  case (Cons y ys)
  then show ?thesis
    using min_by_in [of f y ys] min_by_le [of _ y ys f] by auto
qed simp

lemma claim_locked_new:
  assumes inv: "registry_inv s" and ok: "0 \<le> cf" "cf \<le> 1" "0 \<le> ts"
    and b: "dget (tr_assignments s) a = Some (u, t, al, p)" and r: "dget (tr_records s) t = Some r"
    and prev: "\<And>q. claim_of_assignment r a = Some q \<Longrightarrow>
      tc_state q \<noteq> TCS_TERMINATED \<and> tc_timestamp q \<le> ts"
  shows "new_claim s t r (fresh_claim a u t cf ts st al p)"
    and "claim_locked a u t cf ts st s =
      (let c = fresh_claim a u t cf ts st al p; others = other_claims r c
       in if tr_policy s = TCP_EXCLUSIVE \<and> st \<noteq> TCS_PROVISIONAL \<and> others \<noteq> []
          then claim_conflict r others c t s else claim_accept r c t s)"
proof -
  from registry_inv_binding [OF inv b] r
  have ids: "routing_id_match a" "routing_id_match u" "rec_alias r = al" by auto
  from registry_invD(1) [OF inv r] ids(3)
  have rec: "routing_id_match t" "al \<noteq> []" "py_strip al = al" by (auto simp: record_ok_def)
  show "new_claim s t r (fresh_claim a u t cf ts st al p)"
    using inv ok b r prev ids rec by (simp add: new_claim_def fresh_claim_def claim_ok_def bound_claim_def)
  show "claim_locked a u t cf ts st s =
      (let c = fresh_claim a u t cf ts st al p; others = other_claims r c
       in if tr_policy s = TCP_EXCLUSIVE \<and> st \<noteq> TCS_PROVISIONAL \<and> others \<noteq> []
          then claim_conflict r others c t s else claim_accept r c t s)"
    using b r prev ids rec ok
    by (auto simp: claim_locked_def TargetClaim_checked fresh_claim_def other_claims_def Let_def
        not_le [symmetric] split: option.split)
qed

lemma claim_accept_eq:
  assumes nc: "new_claim s t r c"
    and free: "tr_policy s = TCP_EXCLUSIVE \<Longrightarrow> owning c \<Longrightarrow> other_claims r c = []"
  shows "\<exists>d. claim_accept r c t s = (Inr d, record_event
      (s\<lparr>tr_records := dset (tr_records s) t (r\<lparr>rec_claims := upsert_claim (rec_claims r) c\<rparr>)\<rparr>) d)
    \<and> td_accepted d \<and> td_claim d = c \<and> td_winner d = Some c \<and> td_loser_uav d = None
    \<and> \<not> decision_conflict d"
proof -
  have "record_ok t r" using nc registry_invD(1) by (auto simp: new_claim_def)
  from replace_claims_ok [OF this] accept_entered [OF nc free]
  have "replace_claims r (upsert_claim (rec_claims r) c)
      = Inr (r\<lparr>rec_claims := upsert_claim (rec_claims r) c\<rparr>)"
    by (auto simp: entered_def)
  then show ?thesis by (simp add: claim_accept_def Let_def decision_conflict_def)
qed

lemma claim_conflict_eq:
  assumes nc: "new_claim s t r c" and some: "other_claims r c \<noteq> []"
  shows "\<exists>d w cs. claim_conflict r (other_claims r c) c t s = (Inr d, record_event
      (s\<lparr>tr_records := dset (tr_records s) t (r\<lparr>rec_claims := cs\<rparr>)\<rparr>) d)
    \<and> w \<in> insert c (set (other_claims r c))
    \<and> (\<forall>x\<in>insert c (set (other_claims r c)). winner_key w \<le> winner_key x)
    \<and> td_accepted d = (tc_assignment w = tc_assignment c) \<and> td_claim d = c
    \<and> td_winner d = Some w \<and> decision_conflict d
    \<and> cs = (if td_accepted d then won_claims r c
            else upsert_claim (rec_claims r) (c\<lparr>tc_state := TCS_RELEASED\<rparr>))
    \<and> (if td_accepted d
       then \<exists>l\<in>set (other_claims r c). td_loser_uav d = Some (tc_uav l)
              \<and> (\<forall>x\<in>set (other_claims r c). loser_key l \<le> loser_key x)
       else td_loser_uav d = Some (tc_uav c))"
proof -
  let ?os = "other_claims r c" and ?xs = "other_claims r c @ [c]"
  let ?w = "min_by winner_key (hd ?xs) (tl ?xs)"
  let ?acc = "tc_assignment ?w = tc_assignment c"
  have rok: "record_ok t r" using nc registry_invD(1) by (auto simp: new_claim_def)
  have cok: "\<forall>x\<in>set (rec_claims r). claim_ok x"
    using new_claim_facts(1) [OF nc] by (auto simp: claims_ok_def)
  have w: "?w \<in> set ?xs" "\<forall>x\<in>set ?xs. winner_key ?w \<le> winner_key x"
    using hd_min_by [of ?xs winner_key] by auto
  have l: "min_by loser_key (hd ?os) (tl ?os) \<in> set ?os"
    "\<forall>x\<in>set ?os. loser_key (min_by loser_key (hd ?os) (tl ?os)) \<le> loser_key x"
    using hd_min_by [of ?os loser_key] some by auto
  have rel: "replace_state c TCS_RELEASED (tc_timestamp c) = Inr (c\<lparr>tc_state := TCS_RELEASED\<rparr>)"
    using new_claim_facts(4) [OF nc] by (subst replace_state_ok) (auto simp: claim_ok_def)
  have put: "replace_claims r (won_claims r c) = Inr (r\<lparr>rec_claims := won_claims r c\<rparr>)"
    "replace_claims r (upsert_claim (rec_claims r) (c\<lparr>tc_state := TCS_RELEASED\<rparr>))
      = Inr (r\<lparr>rec_claims := upsert_claim (rec_claims r) (c\<lparr>tc_state := TCS_RELEASED\<rparr>)\<rparr>)"
    using replace_claims_ok [OF rok] won_entered [OF nc] lost_entered [OF nc]
    by (auto simp: entered_def)
  show ?thesis
  proof (cases ?acc)
    case True
    then show ?thesis
      unfolding claim_conflict_def Let_def rmap_release [OF cok]
      using w l put by (intro exI [of _ ?w] exI) (auto simp: decision_conflict_def)
  next
    case False
    then show ?thesis
      unfolding claim_conflict_def Let_def rel
      using w put by (intro exI [of _ ?w] exI) (auto simp: decision_conflict_def)
  qed
qed

lemma claim_locked_step:
  assumes inv: "registry_inv s" and ok: "0 \<le> cf" "cf \<le> 1" "0 \<le> ts"
  shows "step_ok s (snd (claim_locked a u t cf ts st s))"
proof (cases "\<exists>al p r. dget (tr_assignments s) a = Some (u, t, al, p) \<and> dget (tr_records s) t = Some r
    \<and> (\<forall>q. claim_of_assignment r a = Some q \<longrightarrow> tc_state q \<noteq> TCS_TERMINATED \<and> tc_timestamp q \<le> ts)")
  case True
  then obtain al p r where b: "dget (tr_assignments s) a = Some (u, t, al, p)"
    and r: "dget (tr_records s) t = Some r"
    and prev: "\<And>q. claim_of_assignment r a = Some q \<Longrightarrow>
      tc_state q \<noteq> TCS_TERMINATED \<and> tc_timestamp q \<le> ts"
    by blast
  let ?c = "fresh_claim a u t cf ts st al p"
  note nc = claim_locked_new(1) [OF inv ok b r prev, of st]
  note eq = claim_locked_new(2) [OF inv ok b r prev, of st]
  show ?thesis
  proof (cases "tr_policy s = TCP_EXCLUSIVE \<and> st \<noteq> TCS_PROVISIONAL \<and> other_claims r ?c \<noteq> []")
    case True
    then have "snd (claim_locked a u t cf ts st s) = snd (claim_conflict r (other_claims r ?c) ?c t s)"
      by (simp add: eq Let_def)
    with claim_conflict_eq [OF nc] True show ?thesis
      using put_record_step [OF inv r won_entered [OF nc]] put_record_step [OF inv r lost_entered [OF nc]]
      by (auto intro: record_event_step)
  next
    case False
    then have "snd (claim_locked a u t cf ts st s) = snd (claim_accept r ?c t s)"
      by (auto simp: eq Let_def)
    moreover have free: "tr_policy s = TCP_EXCLUSIVE \<Longrightarrow> owning ?c \<Longrightarrow> other_claims r ?c = []"
      using False by (auto simp: owning_def fresh_claim_def)
    ultimately show ?thesis
      using claim_accept_eq [OF nc free] put_record_step [OF inv r accept_entered [OF nc free]]
      by (auto intro: record_event_step)
  qed
next
  case False
  then have "snd (claim_locked a u t cf ts st s) = s"
    unfolding claim_locked_def Let_def by (auto split: option.splits simp: not_less)
  with inv show ?thesis by simp
qed

lemma claim_step:
  assumes inv: "registry_inv s"
  shows "step_ok s (snd (claim av uv tv cv tsv stv s))"
  unfolding claim_def
  using inv claim_locked_step [OF inv] by (auto split: checked_split dest!: claim_numbers_Inr)

lemma set_terminal_state_step:
  assumes inv: "registry_inv s" and st: "st \<in> {TCS_RELEASED, TCS_TERMINATED}"
  shows "step_ok s (snd (set_terminal_state av st tsv s))"
proof -
  have put: "step_ok s (snd (checked s (replace_state q st (max (tc_timestamp q) ts)) (\<lambda>updated.
      checked s (replace_claims r (upsert_claim (rec_claims r) updated)) (\<lambda>r'.
        (Inr updated, s\<lparr>tr_records := dset (tr_records s) t r'\<rparr>)))))"
    if r: "dget (tr_records s) t = Some r" and q: "claim_of_assignment r a = Some q"
      "tc_state q \<noteq> TCS_TERMINATED" for t r a q ts
  proof -
    let ?c = "q\<lparr>tc_state := st, tc_timestamp := max (tc_timestamp q) ts\<rparr>"
    have rok: "record_ok t r" and mem: "q \<in> set (rec_claims r)" "tc_assignment q = a"
      using registry_invD(1) [OF inv r] q find_in by (fastforce simp: claim_of_assignment_def)+
    then have qok: "claim_ok q" "tc_target q = t" "bound_claim s t q"
      using registry_invD(2) [OF inv r] by (auto simp: record_ok_def claims_ok_def)
    have "new_claim s t r ?c"
      using inv r q qok mem(2) unfolding new_claim_def
      by (auto simp: claim_ok_def bound_claim_def)
    then have ent: "entered s t r (upsert_claim (rec_claims r) ?c)"
      using st by (intro accept_entered) (auto simp: owning_def)
    then have "replace_claims r (upsert_claim (rec_claims r) ?c)
        = Inr (r\<lparr>rec_claims := upsert_claim (rec_claims r) ?c\<rparr>)"
      by (intro replace_claims_ok [OF rok]) (simp add: entered_def)
    moreover have "replace_state q st (max (tc_timestamp q) ts) = Inr ?c"
      using qok(1) by (subst replace_state_ok) (auto simp: claim_ok_def)
    ultimately show ?thesis using put_record_step [OF inv r ent] by simp
  qed
  show ?thesis
    unfolding set_terminal_state_def using inv put
    by (auto split: checked_split option.split)
qed

section \<open>Runs\<close>

text \<open>
  The critical sections of the registry as steps.  \<open>bind_assignment\<close> is not one critical section:
  other threads may run between its registration, its binding and its claim.
\<close>

inductive registry_step :: "target_registry \<Rightarrow> target_registry \<Rightarrow> bool" where
  step_register: "registry_step s (snd (register_target tv al s))"
| step_store: "routing_id_match a \<Longrightarrow> routing_id_match u \<Longrightarrow> dget (tr_records s) t = Some r \<Longrightarrow>
    registry_step s (snd (store_binding a u t (rec_alias r) p s))"
| step_claim: "registry_step s (snd (claim av uv tv cv tsv stv s))"
| step_release: "registry_step s (snd (release av tsv s))"
| step_terminate: "registry_step s (snd (terminate av tsv s))"

inductive_cases registry_stepE: "registry_step s s'"

abbreviation registry_run :: "target_registry \<Rightarrow> target_registry \<Rightarrow> bool" where
  "registry_run \<equiv> registry_step\<^sup>*\<^sup>*"

lemma registry_step_ok: "registry_step s s' \<Longrightarrow> registry_inv s \<Longrightarrow> step_ok s s'"
  by (induction rule: registry_step.induct)
    (auto simp: register_target_step store_binding_step claim_step set_terminal_state_step
      release_def terminate_def)

lemma registry_run_ok: "registry_run s s' \<Longrightarrow> registry_inv s \<Longrightarrow> step_ok s s'"
proof (induction rule: rtranclp_induct)
  case (step t u)
  then have "step_ok s t" by blast
  moreover from this have "registry_inv t" by (simp add: step_ok_def)
  ultimately show ?case using registry_step_ok [OF step(2)] step_ok_trans by blast
qed simp

lemma registry_run_inv: "registry_init p = Inr s0 \<Longrightarrow> registry_run s0 s \<Longrightarrow> registry_inv s"
  using registry_run_ok registry_inv_init unfolding step_ok_def by blast

lemma register_target_Inr:
  "register_target tv al s = (Inr x, s') \<Longrightarrow>
     \<exists>t r a. tv = PStr t \<and> routing_id_match t \<and> semantic_alias_text al = Inr a
       \<and> dget (tr_records s') t = Some r \<and> rec_alias r = a"
  unfolding register_target_def
  by (auto split: checked_split_asm option.splits if_splits
      simp: SharedTargetRecord_def rbind_eq_Inr dget_dset semantic_alias_text_Inr)

lemma register_target_snd_step: "registry_run s (snd (register_target tv al s))"
  by (rule r_into_rtranclp) (rule step_register)

lemma bind_assignment_steps:
  "registry_run s (snd (bind_assignment av uv tv al pv tsv prov s))"
proof -
  have bound: "registry_run s (snd (andthen (store_binding a u t x p s1) (\<lambda>_ s.
      andthen (claim (PStr a) (PStr u) (PStr t) (PFloat (Fin 1)) tsv (st s) s)
        (\<lambda>decision s. (Inr (td_claim decision), s)))))"
    if ids: "routing_id_match a" "routing_id_match u"
      and reg: "register_target (PStr t) al s = (Inr (), s1)" and x: "semantic_alias_text al = Inr x"
    for a u t x p s1 st
  proof -
    from reg have s1: "registry_run s s1" using register_target_snd_step [of s "PStr t" al] by simp
    obtain r where r: "dget (tr_records s1) t = Some r" "rec_alias r = x"
      using register_target_Inr [OF reg] x by auto
    have s2: "registry_run s (snd (store_binding a u t x p s1))"
      using s1 step_store [OF ids r(1), of p] r(2) by (auto intro: rtranclp.rtrancl_into_rtrancl)
    have s3: "registry_run s (snd (claim (PStr a) (PStr u) (PStr t) (PFloat (Fin 1)) tsv (st s2) s2))"
      if "store_binding a u t x p s1 = (Inr y, s2)" for y s2
      using s2 step_claim that by (auto intro: rtranclp.rtrancl_into_rtrancl)
    show ?thesis
      using s2 s3 by (auto split: andthen_split)
  qed
  show ?thesis
    unfolding bind_assignment_def
  proof (intro checked_keeps [where P = "registry_run s"] rtranclp.rtrancl_refl)
    fix a u t p
    assume ids: "validate_routing_id av ''assignment_id'' = Inr a" "validate_uav_id uv = Inr u"
    show "registry_run s (snd (andthen (register_target (PStr t) al s) (\<lambda>_ s.
        checked s (semantic_alias_text al) (\<lambda>x. andthen (store_binding a u t x p s) (\<lambda>_ s.
        andthen (claim (PStr a) (PStr u) (PStr t) (PFloat (Fin 1)) tsv (PStr (claim_state_value
            (if prov then TCS_PROVISIONAL
             else if tr_policy s = TCP_EXCLUSIVE then TCS_EXCLUSIVE else TCS_SHARED))) s)
          (\<lambda>decision s. (Inr (td_claim decision), s)))))))"
    proof (rule andthen_keeps [where P = "registry_run s"], rule register_target_snd_step,
        rule checked_keeps [where P = "registry_run s"], assumption)
      fix z s1 x
      assume reg: "register_target (PStr t) al s = (Inr z, s1)" and x: "semantic_alias_text al = Inr x"
      show "registry_run s (snd (andthen (store_binding a u t x p s1) (\<lambda>_ s.
        andthen (claim (PStr a) (PStr u) (PStr t) (PFloat (Fin 1)) tsv (PStr (claim_state_value
            (if prov then TCS_PROVISIONAL
             else if tr_policy s = TCP_EXCLUSIVE then TCS_EXCLUSIVE else TCS_SHARED))) s)
          (\<lambda>decision s. (Inr (td_claim decision), s)))))"
        using ids reg x
        by (intro bound [where st = "\<lambda>s. PStr (claim_state_value (if prov then TCS_PROVISIONAL
             else if tr_policy s = TCP_EXCLUSIVE then TCS_EXCLUSIVE else TCS_SHARED))"]) simp_all
    qed
  qed
qed

text \<open>The fields only staging writes.\<close>

lemma registry_step_staging:
  "registry_step s s' \<Longrightarrow> tr_staging_owner s' = tr_staging_owner s
     \<and> tr_staging_consumed s' = tr_staging_consumed s"
proof (induction rule: registry_step.induct)
  case (step_register s tv al)
  then show ?case
    unfolding register_target_def by (auto split: checked_split option.split)
next
  case (step_store a u t s r p)
  then show ?case by (simp add: store_binding_def Let_def)
next
  case (step_claim s av uv tv cv tsv stv)
  then show ?case
    unfolding claim_def claim_locked_def claim_conflict_def claim_accept_def Let_def
    by (auto split: checked_split option.split prod.split if_split simp: record_event_def)
qed (auto simp: release_def terminate_def set_terminal_state_def split: checked_split option.split)

lemma registry_run_staging:
  "registry_run s s' \<Longrightarrow> tr_staging_owner s' = tr_staging_owner s
     \<and> tr_staging_consumed s' = tr_staging_consumed s"
  by (induction rule: rtranclp_induct) (auto dest: registry_step_staging)

section \<open>The heap of registries\<close>

text \<open>
  Registries are created, operated on, cloned and adopted in any order: no candidate has to be
  fresh when it is adopted, and a candidate may be cloned or adopted into itself.
\<close>

inductive registries_step :: "registry_heap \<Rightarrow> registry_heap \<Rightarrow> bool" where
  heap_create: "h k = None \<Longrightarrow> registry_init p = Inr s \<Longrightarrow> registries_step h (h(k \<mapsto> s))"
| heap_operate: "h k = Some s \<Longrightarrow> registry_step s s' \<Longrightarrow> registries_step h (h(k \<mapsto> s'))"
| heap_clone: "h k' = None \<Longrightarrow> registries_step h (clone_for_staging k k' h)"
| heap_adopt: "registries_step h (snd (adopt_staged k v h))"

abbreviation registries_run :: "registry_heap \<Rightarrow> registry_heap \<Rightarrow> bool" where
  "registries_run \<equiv> registries_step\<^sup>*\<^sup>*"

lemma registry_inv_contents:
  assumes "registry_inv c" and "tr_policy s = tr_policy c" and "tr_records s = tr_records c"
    and "tr_assignments s = tr_assignments c" and "tr_events s = tr_events c"
    and "tr_event_count s = tr_event_count c"
  shows "registry_inv s"
  using assms
  by (simp add: registry_inv_def records_inv_def bindings_inv_def events_inv_def bound_claim_def)

lemma registry_inv_adopted:
  assumes "registry_inv c" and "tr_policy s = tr_policy c"
  shows "registry_inv (s\<lparr>tr_records := tr_records c, tr_assignments := tr_assignments c,
    tr_events := tr_events c, tr_event_count := tr_event_count c\<rparr>)"
  by (rule registry_inv_contents [OF assms(1)]) (simp_all add: assms(2))

lemma registry_inv_staging:
  assumes "registry_inv c"
  shows "registry_inv (c\<lparr>tr_staging_consumed := b, tr_staging_owner := w\<rparr>)"
  by (rule registry_inv_contents [OF assms]) simp_all

lemma adopt_staged_cases:
  assumes "h' = snd (adopt_staged k v h)"
  obtains "h' = h" | j s c where "j \<noteq> k" and "h k = Some s" and "h j = Some c"
    and "tr_policy c = tr_policy s" and "tr_staging_owner c = Some k" and "\<not> tr_staging_consumed c"
    and "h' = h(k \<mapsto> s\<lparr>tr_records := tr_records c, tr_assignments := tr_assignments c,
                      tr_events := tr_events c, tr_event_count := tr_event_count c\<rparr>,
           j \<mapsto> c\<lparr>tr_records := tr_records s, tr_assignments := tr_assignments s,
                  tr_events := tr_events s, tr_event_count := tr_event_count s,
                  tr_staging_consumed := True, tr_staging_owner := None\<rparr>)"
proof (cases "h' = h")
  case False
  then obtain j where v: "v = PObj j" using assms by (cases v) (auto simp: adopt_staged_def)
  with assms False obtain s c where "h k = Some s" "h j = Some c"
    by (cases "h k"; cases "h j") (auto simp: adopt_staged_def)
  with assms False v that(2) show ?thesis by (simp add: adopt_staged_def split: if_splits)
qed (rule that(1))

lemma registries_step_inv:
  assumes "registries_step h h'" and "\<And>k s. h k = Some s \<Longrightarrow> registry_inv s" and "h' k = Some s"
  shows "registry_inv s"
  using assms
proof (cases rule: registries_step.cases)
  case (heap_create j p s0)
  with assms(2,3) registry_inv_init show ?thesis by (auto split: if_splits)
next
  case (heap_operate j s0 s1)
  then have "registry_inv s1" using assms(2) registry_step_ok unfolding step_ok_def by blast
  with heap_operate assms(2,3) show ?thesis by (auto split: if_splits)
next
  case (heap_clone j' j)
  with assms(2,3) show ?thesis
    by (cases "h j") (force simp: clone_for_staging_def split: if_splits intro: registry_inv_contents)+
next
  case (heap_adopt j v)
  from heap_adopt(1) show ?thesis
  proof (rule adopt_staged_cases)
    assume "h' = h"
    with assms(2,3) show ?thesis by simp
  next
    fix j' a c
    assume s: "h j = Some a" "h j' = Some c" "tr_policy c = tr_policy a"
      and h': "h' = h(j \<mapsto> a\<lparr>tr_records := tr_records c, tr_assignments := tr_assignments c,
                      tr_events := tr_events c, tr_event_count := tr_event_count c\<rparr>,
           j' \<mapsto> c\<lparr>tr_records := tr_records a, tr_assignments := tr_assignments a,
                  tr_events := tr_events a, tr_event_count := tr_event_count a,
                  tr_staging_consumed := True, tr_staging_owner := None\<rparr>)"
    from s assms(2) have "registry_inv a" "registry_inv c" by blast+
    with s(3) registry_inv_adopted [of c a] registry_inv_staging [OF registry_inv_adopted [of a c]]
    show ?thesis using assms(2,3) unfolding h' by (simp split: if_splits) blast+
  qed
qed

lemma registries_run_inv:
  "registries_run Map.empty h \<Longrightarrow> h k = Some s \<Longrightarrow> registry_inv s"
proof (induction arbitrary: k s rule: rtranclp_induct)
  case (step h h')
  then show ?case using registries_step_inv [OF step(2)] by blast
qed simp

lemma registry_run_on_heap:
  "registry_run s s' \<Longrightarrow> registries_run (h(k \<mapsto> s)) (h(k \<mapsto> s'))"
proof (induction rule: rtranclp_induct)
  case (step t u)
  have "registries_step (h(k \<mapsto> t)) ((h(k \<mapsto> t))(k \<mapsto> u))"
    using step(2) by (intro heap_operate [where s = t]) simp_all
  then have "registries_step (h(k \<mapsto> t)) (h(k \<mapsto> u))" by (simp only: fun_upd_upd)
  then show ?case by (rule rtranclp.rtrancl_into_rtrancl [OF step(3)])
qed simp

text \<open>
  What a registry goes through when every candidate it adopts was cloned from its present state: an
  operation of its own, or a whole staged transaction.
\<close>

inductive live_step :: "target_registry \<Rightarrow> target_registry \<Rightarrow> bool" where
  live_operate: "registry_step s s' \<Longrightarrow> live_step s s'"
| live_staged: "h self = Some s \<Longrightarrow> k \<noteq> self \<Longrightarrow> clone_for_staging self k h k = Some c0 \<Longrightarrow>
    registry_run c0 c \<Longrightarrow>
    adopt_staged self (PObj k) ((clone_for_staging self k h)(k \<mapsto> c)) = (Inr (), h') \<Longrightarrow>
    h' self = Some s' \<Longrightarrow> live_step s s'"

abbreviation live_run :: "target_registry \<Rightarrow> target_registry \<Rightarrow> bool" where
  "live_run \<equiv> live_step\<^sup>*\<^sup>*"

lemma step_ok_contents:
  assumes "step_ok a b" and "tr_policy a' = tr_policy a" and "tr_records a' = tr_records a"
    and "tr_assignments a' = tr_assignments a" and "registry_inv b'" and "tr_policy b' = tr_policy b"
    and "tr_records b' = tr_records b" and "tr_assignments b' = tr_assignments b"
  shows "step_ok a' b'"
  using assms by (simp add: step_ok_def)

lemma live_step_ok:
  assumes "live_step s s'" and inv: "registry_inv s"
  shows "step_ok s s'"
  using assms(1)
proof (cases rule: live_step.cases)
  case live_operate
  then show ?thesis using inv by (rule registry_step_ok)
next
  case (live_staged h self k c0 c h')
  then have c0: "c0 = s\<lparr>tr_staging_owner := Some self, tr_staging_consumed := False\<rparr>"
    by (auto simp: clone_for_staging_def)
  then have "registry_inv c0" using inv by (auto intro: registry_inv_contents)
  with live_staged(4) have ok: "step_ok c0 c" by (rule registry_run_ok)
  have s': "s' = s\<lparr>tr_records := tr_records c, tr_assignments := tr_assignments c,
      tr_events := tr_events c, tr_event_count := tr_event_count c\<rparr>"
    using live_staged(1,2,5,6)
    by (auto simp: adopt_staged_def clone_for_staging_def split: if_splits)
  then have "registry_inv s'"
    using ok c0 by (auto simp: step_ok_def intro: registry_inv_contents)
  show ?thesis
    by (rule step_ok_contents [OF ok]) (use \<open>registry_inv s'\<close> ok c0 s' in \<open>auto simp: step_ok_def\<close>)
qed

lemma live_run_ok: "live_run s s' \<Longrightarrow> registry_inv s \<Longrightarrow> step_ok s s'"
proof (induction rule: rtranclp_induct)
  case (step t u)
  then have "step_ok s t" by blast
  moreover from this have "registry_inv t" by (simp add: step_ok_def)
  ultimately show ?case using live_step_ok [OF step(2)] step_ok_trans by blast
qed simp

section \<open>An example registry\<close>

text \<open>Two UAVs bound to one target of an exclusive registry, and the claim of the first.\<close>

definition example_empty :: target_registry where
  "example_empty = \<lparr>tr_policy = TCP_EXCLUSIVE, tr_records = [], tr_assignments = [],
     tr_events = [], tr_event_count = 0, tr_staging_owner = None, tr_staging_consumed = False\<rparr>"

definition example_bound :: target_registry where
  "example_bound = snd (bind_assignment (PStr ''a2'') (PStr ''u2'') (PStr ''t1'') (PStr ''car'')
       (PInt 5) (PInt 0) True
     (snd (bind_assignment (PStr ''a1'') (PStr ''u1'') (PStr ''t1'') (PStr ''car'')
       (PInt 0) (PInt 0) True example_empty)))"

definition example_won :: target_registry where
  "example_won = snd (claim (PStr ''a2'') (PStr ''u2'') (PStr ''t1'') (PInt 1) (PInt 1) PNone
     example_bound)"

lemma example_init: "registry_init (PStr ''EXCLUSIVE'') = Inr example_empty"
  by (simp add: registry_init_def example_empty_def TargetClaimPolicy_def enum_of_def)

lemma example_bound_run: "registry_run example_empty example_bound"
  unfolding example_bound_def by (rule rtranclp_trans) (rule bind_assignment_steps)+

lemma example_won_run: "registry_run example_empty example_won"
  unfolding example_won_def
  using example_bound_run step_claim by (rule rtranclp.rtrancl_into_rtrancl)

lemma example_heap_run:
  "registries_run Map.empty [0 \<mapsto> example_bound]" "registries_run Map.empty [0 \<mapsto> example_won]"
proof -
  have "registries_step Map.empty [0 \<mapsto> example_empty]"
    using example_init by (intro heap_create) simp_all
  then have e: "registries_run Map.empty [0 \<mapsto> example_empty]"
    by (rule r_into_rtranclp [where r = registries_step])
  show b: "registries_run Map.empty [0 \<mapsto> example_bound]"
    by (rule rtranclp_trans [OF e registry_run_on_heap [OF example_bound_run]])
  show "registries_run Map.empty [0 \<mapsto> example_won]"
    by (rule rtranclp_trans [OF e registry_run_on_heap [OF example_won_run]])
qed

text \<open>The same claim made on a candidate, which the registry then adopts.\<close>

definition example_candidate :: target_registry where
  "example_candidate = snd (claim (PStr ''a2'') (PStr ''u2'') (PStr ''t1'') (PInt 1) (PInt 1) PNone
     (the (clone_for_staging 0 1 [0 \<mapsto> example_bound] 1)))"

definition example_adopted :: target_registry where
  "example_adopted = the (snd (adopt_staged 0 (PObj 1)
     ((clone_for_staging 0 1 [0 \<mapsto> example_bound])(1 \<mapsto> example_candidate))) 0)"

lemma example_adoption: "live_step example_bound example_adopted"
proof -
  let ?h = "[0 \<mapsto> example_bound] :: registry_heap"
  let ?c0 = "the (clone_for_staging 0 1 ?h 1)"
  have c0: "clone_for_staging 0 1 ?h 1 = Some ?c0" by (simp add: clone_for_staging_def)
  have run: "registry_run ?c0 example_candidate"
    unfolding example_candidate_def by (rule r_into_rtranclp) (rule step_claim)
  have p: "tr_policy example_candidate = tr_policy example_bound"
    "tr_staging_owner example_candidate = Some 0" "\<not> tr_staging_consumed example_candidate"
    by code_simp+
  obtain h' where h': "adopt_staged 0 (PObj 1) ((clone_for_staging 0 1 ?h)(1 \<mapsto> example_candidate))
      = (Inr (), h')" and s': "h' 0 = Some example_adopted"
    using p by (simp add: adopt_staged_def clone_for_staging_def example_adopted_def)
  show ?thesis by (rule live_staged [OF _ _ c0 run h' s']) simp_all
qed

text \<open>
  \<open>adopt_staged\<close> checks the owner and the use of a candidate, not its age: a candidate cloned
  before a binding of the live registry is adopted without an error and undoes the binding.
\<close>

lemma stale_adoption_loses_claims:
  "let h = clone_for_staging 0 1 [0 \<mapsto> example_empty];
       (r, h') = adopt_staged 0 (PObj 1) (h(0 \<mapsto> example_bound))
   in r = Inr () \<and> dkeys (tr_records (the (h' 0))) = []
      \<and> dkeys (tr_records example_bound) = [''t1'']"
proof -
  have "tr_policy example_bound = TCP_EXCLUSIVE" "dkeys (tr_records example_bound) = [''t1'']"
    by code_simp+
  then show ?thesis by (simp add: adopt_staged_def clone_for_staging_def example_empty_def)
qed

section \<open>Properties\<close>

text \<open>
  C1. Exclusive ownership is safe under every interleaving: in every registry with the EXCLUSIVE
  policy, after any sequence of creations, registrations, bindings, claims, releases and
  terminations (raising or not) on any registries, of clonings and of adoptions of any candidate,
  two claims on one target that are both in an owning state (EXCLUSIVE or SHARED) are the same
  claim, and the owner is the UAV the trusted binding of its assignment names.
\<close>

theorem exclusive_target_single_owner:
  assumes "registries_run Map.empty h" and "h k = Some s" and "tr_policy s = TCP_EXCLUSIVE"
    and "dget (tr_records s) t = Some r"
    and "c \<in> set (rec_claims r)" and "owning c" and "d \<in> set (rec_claims r)" and "owning d"
  shows "c = d \<and> dget (tr_assignments s) (tc_assignment c)
    = Some (tc_uav c, t, rec_alias r, tc_priority c)"
proof -
  have inv: "registry_inv s" using assms(1,2) by (rule registries_run_inv)
  have "c = d" using registry_invD(3) [OF inv assms(4,3)] assms(5-8) by (simp add: single_owner_def)
  moreover have b: "bound_claim s t c" using registry_invD(2) [OF inv assms(4,5)] .
  then have "\<exists>r. dget (tr_records s) t = Some r \<and> rec_alias r = tc_alias c"
    by (intro registry_inv_binding(3) [OF inv]) (simp add: bound_claim_def)
  then have "tc_alias c = rec_alias r" using assms(4) by auto
  ultimately show ?thesis using b by (simp add: bound_claim_def)
qed

theorem exclusive_target_single_owner_witness:
  "\<exists>r c. dget (tr_records example_won) ''t1'' = Some r \<and> c \<in> set (rec_claims r) \<and> owning c
     \<and> length (rec_claims r) = 2
     \<and> dget (tr_assignments example_won) (tc_assignment c)
         = Some (tc_uav c, ''t1'', rec_alias r, tc_priority c)"
proof -
  let ?r = "the (dget (tr_records example_won) ''t1'')" and ?c = "rec_claims (the (dget (tr_records example_won) ''t1'')) ! 1"
  have h: "[0 \<mapsto> example_won] 0 = Some example_won" by simp
  have p: "tr_policy example_won = TCP_EXCLUSIVE" by code_simp
  have r: "dget (tr_records example_won) ''t1'' = Some ?r" by code_simp
  have n: "length (rec_claims ?r) = 2" by code_simp
  then have c: "?c \<in> set (rec_claims ?r)" by (intro nth_mem) simp
  have "tc_state ?c = TCS_EXCLUSIVE" by code_simp
  then have o: "owning ?c" by (simp add: owning_def)
  show ?thesis
    using exclusive_target_single_owner [OF example_heap_run(2) h p r c o c o] r c o n by blast
qed

text \<open>
  C2. The history of claims is monotone: along any sequence of operations of a reachable registry
  and of staged transactions on it (a candidate is cloned from its present state, any operations
  run on the candidate, the registry adopts it) no claim is lost; the claim of an assignment keeps
  its UAV, target and priority, its timestamp never decreases, and a terminated claim is frozen for
  ever, field by field.  What is excluded is the adoption of a candidate that was cloned before a
  later operation of the registry itself: \<open>adopt_staged\<close> does not detect it, and it undoes that
  operation (lemma \<open>stale_adoption_loses_claims\<close>).
\<close>

theorem claim_history_monotone:
  assumes "registries_run Map.empty h" and "h k = Some s" and "live_run s s'"
    and "dget (tr_records s) t = Some r" and "c \<in> set (rec_claims r)"
  shows "\<exists>r' c'. dget (tr_records s') t = Some r' \<and> c' \<in> set (rec_claims r')
    \<and> tc_assignment c' = tc_assignment c \<and> tc_uav c' = tc_uav c \<and> tc_target c' = t
    \<and> tc_priority c' = tc_priority c \<and> tc_timestamp c \<le> tc_timestamp c'
    \<and> (tc_state c = TCS_TERMINATED \<longrightarrow> c' = c)"
proof -
  have inv: "registry_inv s" using assms(1,2) by (rule registries_run_inv)
  have t: "tc_target c = t"
    using registry_invD(1) [OF inv assms(4)] assms(5) by (simp add: record_ok_def claims_ok_def)
  obtain r' where "dget (tr_records s') t = Some r'" "evolves (rec_claims r) (rec_claims r')"
    using live_run_ok [OF assms(3) inv] assms(4) unfolding step_ok_def by blast
  with assms(5) t show ?thesis unfolding evolves_def by blast
qed

theorem claim_history_monotone_witness:
  "\<exists>r' c'. dget (tr_records example_adopted) ''t1'' = Some r' \<and> c' \<in> set (rec_claims r')
    \<and> tc_assignment c' = ''a1'' \<and> tc_uav c' = ''u1'' \<and> tc_state c' = TCS_RELEASED"
proof -
  let ?r = "the (dget (tr_records example_bound) ''t1'')" and ?c = "rec_claims (the (dget (tr_records example_bound) ''t1'')) ! 0"
  have h: "[0 \<mapsto> example_bound] 0 = Some example_bound" by simp
  have r: "dget (tr_records example_bound) ''t1'' = Some ?r" by code_simp
  have "length (rec_claims ?r) = 2" by code_simp
  then have c: "?c \<in> set (rec_claims ?r)" by (intro nth_mem) simp
  have run: "live_run example_bound example_adopted"
    by (rule r_into_rtranclp) (rule example_adoption)
  have a: "tc_assignment ?c = ''a1''" "tc_uav ?c = ''u1''" by code_simp+
  obtain r' c' where r': "dget (tr_records example_adopted) ''t1'' = Some r'" "c' \<in> set (rec_claims r')"
      "tc_assignment c' = ''a1''" "tc_uav c' = ''u1''"
    using claim_history_monotone [OF example_heap_run(1) h run r c] a by auto
  have "list_all (\<lambda>c. tc_assignment c = ''a1'' \<longrightarrow> tc_state c = TCS_RELEASED)
    (rec_claims (the (dget (tr_records example_adopted) ''t1'')))" by code_simp
  with r' have "tc_state c' = TCS_RELEASED" by (simp add: list_all_iff)
  with r' show ?thesis by blast
qed

text \<open>Facts about one claim.\<close>

lemma desired_claim_state_Inr:
  "desired_claim_state p v = Inr st \<Longrightarrow> st \<in> {TCS_PROVISIONAL, TCS_EXCLUSIVE, TCS_SHARED}"
  by (auto simp: desired_claim_state_def rbind_eq_Inr split: if_splits)

lemma claim_locked_error: "claim_locked a u t cf ts st s = (Inl e, s') \<Longrightarrow> s' = s"
  unfolding claim_locked_def claim_conflict_def claim_accept_def Let_def
  by (auto split: option.splits prod.splits if_splits checked_split_asm)

lemma claim_Inr:
  assumes inv: "registry_inv s" and ok: "claim av uv tv cv tsv stv s = (Inr d, s')"
  obtains a u t r c cs where "av = PStr a" "uv = PStr u" "tv = PStr t"
    and "new_claim s t r c" "tc_assignment c = a" "tc_uav c = u" "td_claim d = c"
    and "tc_state c \<in> {TCS_PROVISIONAL, TCS_EXCLUSIVE, TCS_SHARED}"
    and "s' = record_event (s\<lparr>tr_records := dset (tr_records s) t (r\<lparr>rec_claims := cs\<rparr>)\<rparr>) d"
    and "if tr_policy s = TCP_EXCLUSIVE \<and> tc_state c \<noteq> TCS_PROVISIONAL \<and> other_claims r c \<noteq> []
      then claim_conflict r (other_claims r c) c t s = (Inr d, s')
      else claim_accept r c t s = (Inr d, s')"
proof -
  from ok obtain a u t cf ts st where v: "av = PStr a" "uv = PStr u" "tv = PStr t"
    and n: "claim_confidence cv = Inr cf" "claim_timestamp tsv = Inr ts"
    and d: "desired_claim_state (tr_policy s) stv = Inr st"
    and l: "claim_locked a u t cf ts st s = (Inr d, s')"
    by (auto simp: claim_def checked_eq_Inr)
  note rng = claim_numbers_Inr(1) [OF n(1)] claim_numbers_Inr(2) [OF n(2)]
  from l obtain al p r where b: "dget (tr_assignments s) a = Some (u, t, al, p)"
    and r: "dget (tr_records s) t = Some r"
    and prev: "\<And>q. claim_of_assignment r a = Some q \<Longrightarrow>
      tc_state q \<noteq> TCS_TERMINATED \<and> tc_timestamp q \<le> ts"
    by (auto simp: claim_locked_def Let_def split: option.splits if_splits)
  let ?c = "fresh_claim a u t cf ts st al p"
  note new = claim_locked_new [OF inv _ _ _ b r prev, of cf st]
  have nc: "new_claim s t r ?c" using new(1) rng by blast
  have br: "if tr_policy s = TCP_EXCLUSIVE \<and> tc_state ?c \<noteq> TCS_PROVISIONAL \<and> other_claims r ?c \<noteq> []
      then claim_conflict r (other_claims r ?c) ?c t s = (Inr d, s')
      else claim_accept r ?c t s = (Inr d, s')"
    using new(2) rng l by (auto simp: Let_def fresh_claim_def split: if_splits)
  obtain cs where cs: "s' = record_event (s\<lparr>tr_records := dset (tr_records s) t (r\<lparr>rec_claims := cs\<rparr>)\<rparr>) d"
    and dc: "td_claim d = ?c"
  proof (cases "tr_policy s = TCP_EXCLUSIVE \<and> tc_state ?c \<noteq> TCS_PROVISIONAL \<and> other_claims r ?c \<noteq> []")
    case True
    with claim_conflict_eq [OF nc] br that show ?thesis by auto
  next
    case False
    then have "tr_policy s = TCP_EXCLUSIVE \<Longrightarrow> owning ?c \<Longrightarrow> other_claims r ?c = []"
      by (auto simp: owning_def)
    from claim_accept_eq [OF nc this] br that False show ?thesis by auto
  qed
  show ?thesis
    using that [OF v nc _ _ dc _ cs br] desired_claim_state_Inr [OF d] by (simp add: fresh_claim_def)
qed

lemma claim_Inr_event:
  assumes "registry_inv s" and "claim av uv tv cv tsv stv s = (Inr d, s')"
  shows "tr_events s' = retain_event MAX_RETAINED_EVENTS (tr_events s) d
    \<and> tr_event_count s' = Suc (tr_event_count s)"
proof -
  from claim_Inr [OF assms] obtain x where "s' = record_event (s\<lparr>tr_records := x\<rparr>) d" by metis
  then show ?thesis by (simp add: record_event_def)
qed

lemma retain_event_last: "0 < cap \<Longrightarrow> last (retain_event cap xs d) = d"
  by (simp add: retain_event_drop)

lemma won_claims_set:
  assumes "new_claim s t r c"
  shows "set (won_claims r c) = insert c
    ((\<lambda>x. if claim_active x then x\<lparr>tc_state := TCS_RELEASED\<rparr> else x) `
      {x \<in> set (rec_claims r). tc_assignment x \<noteq> tc_assignment c})"
proof -
  have ok: "claims_ok t (rec_claims r)" by (rule new_claim_facts(1) [OF assms])
  have other: "tc_assignment e \<in> set (map tc_assignment (other_claims r c)) \<longleftrightarrow> claim_active e"
    if e: "e \<in> set (rec_claims r)" "tc_assignment e \<noteq> tc_assignment c" for e
  proof
    assume "tc_assignment e \<in> set (map tc_assignment (other_claims r c))"
    then obtain x where x: "x \<in> set (other_claims r c)" "tc_assignment x = tc_assignment e" by auto
    then have "x = e"
      using distinct_key_eq [of tc_assignment "rec_claims r" x e] ok e(1)
      by (auto simp: claims_ok_def other_claims_mem)
    with x(1) show "claim_active e" by (simp add: other_claims_mem)
  next
    assume "claim_active e"
    with e show "tc_assignment e \<in> set (map tc_assignment (other_claims r c))"
      by (simp add: other_claims_mem)
  qed
  have "set (won_claims r c) = insert c
    {x \<in> (\<lambda>e. if tc_assignment e \<in> set (map tc_assignment (other_claims r c))
               then e\<lparr>tc_state := TCS_RELEASED\<rparr> else e) ` set (rec_claims r).
       tc_assignment x \<noteq> tc_assignment c}"
    by (simp add: set_upsert release_losers_def)
  also have "\<dots> = insert c ((\<lambda>e. if tc_assignment e \<in> set (map tc_assignment (other_claims r c))
               then e\<lparr>tc_state := TCS_RELEASED\<rparr> else e) `
      {x \<in> set (rec_claims r). tc_assignment x \<noteq> tc_assignment c})" by auto
  also have "\<dots> = insert c ((\<lambda>x. if claim_active x then x\<lparr>tc_state := TCS_RELEASED\<rparr> else x) `
      {x \<in> set (rec_claims r). tc_assignment x \<noteq> tc_assignment c})"
    using other by (intro arg_cong [where f = "insert c"] image_cong) auto
  finally show ?thesis .
qed

text \<open>
  C3. Arbitration, with the whole outcome of a successful call of \<open>claim\<close>: the target's record, the
  decision's claim (with the data of the call and of the trusted binding), its winner and loser,
  and every claim of the record afterwards, in terms of the other active claims of the target.  The
  call reports a conflict exactly when the policy is EXCLUSIVE, the claim is not provisional and
  another active claim exists.  Without a conflict the claim wins, nobody loses, and it replaces
  the claim of its assignment, every other claim as before.  In a conflict the winner is the
  least of the contenders by descending priority, then UAV id, then assignment id.  If the claim is
  the winner, the UAV told to hold is that of the least other active claim by priority and ids,
  and the record has the claim with every other active claim released.  If it is not, its own UAV
  is told to hold, it is stored RELEASED and every other claim is as before.  Other targets and the
  bindings are untouched, and the decision is the newest event.
\<close>

theorem claim_arbitration:
  assumes "registries_run Map.empty h" and "h k = Some s"
    and "claim av uv tv cv tsv stv s = (Inr d, s')" and "td_claim d = c"
  shows "\<exists>r r' w. av = PStr (tc_assignment c) \<and> uv = PStr (tc_uav c) \<and> tv = PStr (tc_target c)
    \<and> dget (tr_records s) (tc_target c) = Some r \<and> dget (tr_records s') (tc_target c) = Some r'
    \<and> dget (tr_assignments s) (tc_assignment c)
        = Some (tc_uav c, tc_target c, rec_alias r, tc_priority c)
    \<and> (\<forall>t'. t' \<noteq> tc_target c \<longrightarrow> dget (tr_records s') t' = dget (tr_records s) t')
    \<and> rec_alias r' = rec_alias r \<and> tr_assignments s' = tr_assignments s
    \<and> tr_event_count s' = Suc (tr_event_count s) \<and> last (tr_events s') = d
    \<and> td_winner d = Some w \<and> td_accepted d = (w = c)
    \<and> (let rest = {x \<in> set (rec_claims r). tc_assignment x \<noteq> tc_assignment c};
           others = {x \<in> rest. claim_active x}
       in (decision_conflict d \<longleftrightarrow>
             tr_policy s = TCP_EXCLUSIVE \<and> tc_state c \<noteq> TCS_PROVISIONAL \<and> others \<noteq> {})
        \<and> (if \<not> decision_conflict d
           then w = c \<and> td_loser_uav d = None \<and> set (rec_claims r') = insert c rest
           else w \<in> insert c others \<and> (\<forall>x\<in>insert c others. winner_key w \<le> winner_key x)
             \<and> (if w = c
                then (\<exists>l\<in>others. td_loser_uav d = Some (tc_uav l)
                        \<and> (\<forall>x\<in>others. loser_key l \<le> loser_key x))
                  \<and> set (rec_claims r') = insert c
                      ((\<lambda>x. if claim_active x then x\<lparr>tc_state := TCS_RELEASED\<rparr> else x) ` rest)
                else td_loser_uav d = Some (tc_uav c)
                  \<and> set (rec_claims r') = insert (c\<lparr>tc_state := TCS_RELEASED\<rparr>) rest)))"
proof -
  have inv: "registry_inv s" using assms(1,2) by (rule registries_run_inv)
  from claim_Inr [OF inv assms(3)] assms(4) obtain t r cs
    where v: "av = PStr (tc_assignment c)" "uv = PStr (tc_uav c)" "tv = PStr t" and nc: "new_claim s t r c"
      and s': "s' = record_event (s\<lparr>tr_records := dset (tr_records s) t (r\<lparr>rec_claims := cs\<rparr>)\<rparr>) d"
      and br: "if tr_policy s = TCP_EXCLUSIVE \<and> tc_state c \<noteq> TCS_PROVISIONAL \<and> other_claims r c \<noteq> []
        then claim_conflict r (other_claims r c) c t s = (Inr d, s')
        else claim_accept r c t s = (Inr d, s')"
    by metis
  have r: "dget (tr_records s) t = Some r" and t: "tc_target c = t"
    and b: "dget (tr_assignments s) (tc_assignment c) = Some (tc_uav c, t, tc_alias c, tc_priority c)"
    using nc by (simp_all add: new_claim_def bound_claim_def)
  have al: "tc_alias c = rec_alias r" using registry_inv_binding(3) [OF inv b] r by auto
  have ev: "tr_event_count s' = Suc (tr_event_count s)" "last (tr_events s') = d"
    using claim_Inr_event [OF inv assms(3)] by (simp_all add: retain_event_last MAX_RETAINED_EVENTS_def)
  have put: "dget (tr_records s') t = Some (r\<lparr>rec_claims := cs\<rparr>)" "tr_assignments s' = tr_assignments s"
    "\<forall>t'. t' \<noteq> t \<longrightarrow> dget (tr_records s') t' = dget (tr_records s) t'"
    by (simp_all add: s' dget_dset record_event_def)
  let ?rest = "{x \<in> set (rec_claims r). tc_assignment x \<noteq> tc_assignment c}"
  have others: "set (other_claims r c) = {x \<in> ?rest. claim_active x}" by (auto simp: other_claims_mem)
  have some: "other_claims r c \<noteq> [] \<longleftrightarrow> {x \<in> ?rest. claim_active x} \<noteq> {}"
    unfolding others [symmetric] by simp
  note known = v r t b [unfolded al] put ev
  show ?thesis
  proof (cases "tr_policy s = TCP_EXCLUSIVE \<and> tc_state c \<noteq> TCS_PROVISIONAL \<and> other_claims r c \<noteq> []")
    case True
    from claim_conflict_eq [OF nc] True br obtain w cs'
      where w: "w \<in> insert c {x \<in> ?rest. claim_active x}"
          "\<forall>x\<in>insert c {x \<in> ?rest. claim_active x}. winner_key w \<le> winner_key x"
        and d: "td_accepted d = (tc_assignment w = tc_assignment c)" "decision_conflict d"
          "td_winner d = Some w"
        and cs': "cs' = (if td_accepted d then won_claims r c
            else upsert_claim (rec_claims r) (c\<lparr>tc_state := TCS_RELEASED\<rparr>))"
        and l: "if td_accepted d then \<exists>l\<in>{x \<in> ?rest. claim_active x}. td_loser_uav d = Some (tc_uav l)
              \<and> (\<forall>x\<in>{x \<in> ?rest. claim_active x}. loser_key l \<le> loser_key x)
            else td_loser_uav d = Some (tc_uav c)"
        and s'': "s' = record_event (s\<lparr>tr_records := dset (tr_records s) t (r\<lparr>rec_claims := cs'\<rparr>)\<rparr>) d"
      unfolding others by (auto split: if_splits)
    have "rec_claims (r\<lparr>rec_claims := cs\<rparr>) = rec_claims (r\<lparr>rec_claims := cs'\<rparr>)"
      using put(1) by (simp add: s'' dget_dset)
    then have cs: "cs = cs'" by simp
    have acc: "td_accepted d = (w = c)" using d(1) w(1) by auto
    have won: "w = c \<Longrightarrow> set cs = insert c
        ((\<lambda>x. if claim_active x then x\<lparr>tc_state := TCS_RELEASED\<rparr> else x) ` ?rest)"
      using won_claims_set [OF nc] unfolding cs cs' acc by (simp only: if_True simp_thms)
    have lost: "w \<noteq> c \<Longrightarrow> set cs = insert (c\<lparr>tc_state := TCS_RELEASED\<rparr>) ?rest"
      unfolding cs cs' acc by (simp add: set_upsert)
    show ?thesis
      unfolding Let_def
      by (rule exI [of _ r], rule exI [of _ "r\<lparr>rec_claims := cs\<rparr>"], rule exI [of _ w], intro conjI)
        (use known True some d(2,3) acc w l won lost in \<open>simp_all split: if_split_asm\<close>)
  next
    case False
    then have "tr_policy s = TCP_EXCLUSIVE \<Longrightarrow> owning c \<Longrightarrow> other_claims r c = []"
      by (auto simp: owning_def)
    from claim_accept_eq [OF nc this] br False
    have d: "td_accepted d" "\<not> decision_conflict d" "td_winner d = Some c" "td_loser_uav d = None"
      and s'': "s' = record_event (s\<lparr>tr_records := dset (tr_records s) t
        (r\<lparr>rec_claims := upsert_claim (rec_claims r) c\<rparr>)\<rparr>) d"
      by auto
    have "rec_claims (r\<lparr>rec_claims := cs\<rparr>) = rec_claims (r\<lparr>rec_claims := upsert_claim (rec_claims r) c\<rparr>)"
      using put(1) by (simp add: s'' dget_dset)
    then have cs: "cs = upsert_claim (rec_claims r) c" by simp
    show ?thesis
      unfolding Let_def
      by (rule exI [of _ r], rule exI [of _ "r\<lparr>rec_claims := cs\<rparr>"], rule exI [of _ c], intro conjI)
        (use known False some d in \<open>simp_all add: cs set_upsert\<close>)
  qed
qed

theorem claim_arbitration_witness:
  "\<exists>d s' r'. claim (PStr ''a1'') (PStr ''u1'') (PStr ''t1'') (PInt 1) (PInt 1) PNone example_bound
      = (Inr d, s') \<and> decision_conflict d \<and> \<not> td_accepted d \<and> td_loser_uav d = Some ''u1''
    \<and> last (tr_events s') = d \<and> dget (tr_records s') ''t1'' = Some r'"
proof -
  let ?m = "claim (PStr ''a1'') (PStr ''u1'') (PStr ''t1'') (PInt 1) (PInt 1) PNone example_bound"
  have h: "[0 \<mapsto> example_bound] 0 = Some example_bound" by simp
  have "\<not> isl (fst ?m)" by code_simp
  then obtain d s' where m: "?m = (Inr d, s')" by (cases ?m; cases "fst ?m") auto
  have "case fst ?m of Inl e \<Rightarrow> False
      | Inr d \<Rightarrow> \<not> td_accepted d \<and> decision_conflict d \<and> tc_uav (td_claim d) = ''u1''
          \<and> tc_target (td_claim d) = ''t1''" by code_simp
  then have d: "\<not> td_accepted d" "decision_conflict d" "tc_uav (td_claim d) = ''u1''"
    "tc_target (td_claim d) = ''t1''"
    by (simp_all add: m)
  from claim_arbitration [OF example_heap_run(1) h m refl] d m show ?thesis by (auto simp: Let_def)
qed

section \<open>Failing operations, the event history, staging\<close>

lemma set_terminal_state_error:
  "set_terminal_state av st tsv s = (Inl e, s') \<Longrightarrow> s' = s"
  unfolding set_terminal_state_def
  by (auto split: checked_split_asm option.splits prod.splits if_splits)

lemma set_terminal_state_events:
  "tr_events (snd (set_terminal_state av st tsv s)) = tr_events s
   \<and> tr_event_count (snd (set_terminal_state av st tsv s)) = tr_event_count s"
  unfolding set_terminal_state_def
  by (auto split: checked_split option.split prod.split if_split)

lemma register_target_error: "register_target tv al s = (Inl e, s') \<Longrightarrow> s' = s"
  unfolding register_target_def by (auto split: checked_split_asm option.splits if_splits)

lemma claim_error: "claim av uv tv cv tsv stv s = (Inl e, s') \<Longrightarrow> s' = s"
  unfolding claim_def by (auto split: checked_split_asm dest: claim_locked_error)

text \<open>
  A critical section that raises changes nothing, and a successful claim enters exactly one
  decision in the history: the count grows by one, the decision is the newest entry, and the
  history is the old one with its oldest entry dropped when 256 decisions are retained.  Releasing
  and terminating never touch the history.
\<close>

theorem claim_failure_and_history:
  assumes "registry_init p = Inr s0" and "registry_run s0 s"
  shows "(isl (fst (claim av uv tv cv tsv stv s)) \<longrightarrow> snd (claim av uv tv cv tsv stv s) = s)
    \<and> (isl (fst (set_terminal_state av st tsv s)) \<longrightarrow> snd (set_terminal_state av st tsv s) = s)
    \<and> (isl (fst (register_target tv al s)) \<longrightarrow> snd (register_target tv al s) = s)
    \<and> (\<forall>d s'. claim av uv tv cv tsv stv s = (Inr d, s') \<longrightarrow>
        tr_event_count s' = Suc (tr_event_count s)
        \<and> tr_events s' = drop (Suc (length (tr_events s)) - 256) (tr_events s @ [d])
        \<and> length (tr_events s') = min 256 (tr_event_count s'))
    \<and> tr_events (snd (set_terminal_state av st tsv s)) = tr_events s"
proof -
  have inv: "registry_inv s" using assms by (rule registry_run_inv)
  have "tr_event_count s' = Suc (tr_event_count s)
      \<and> tr_events s' = drop (Suc (length (tr_events s)) - 256) (tr_events s @ [d])
      \<and> length (tr_events s') = min 256 (tr_event_count s')"
    if c: "claim av uv tv cv tsv stv s = (Inr d, s')" for d s'
  proof -
    have "registry_inv s'" using claim_step [OF inv, of av uv tv cv tsv stv] c by (simp add: step_ok_def)
    then have "length (tr_events s') = min 256 (tr_event_count s')"
      by (simp add: registry_inv_def events_inv_def MAX_RETAINED_EVENTS_def)
    with claim_Inr_event [OF inv c] show ?thesis
      by (simp add: retain_event_drop MAX_RETAINED_EVENTS_def)
  qed
  moreover have "isl (fst (claim av uv tv cv tsv stv s)) \<longrightarrow> snd (claim av uv tv cv tsv stv s) = s"
    by (metis claim_error isl_def prod.collapse)
  moreover have "isl (fst (set_terminal_state av st tsv s)) \<longrightarrow>
      snd (set_terminal_state av st tsv s) = s"
    by (metis set_terminal_state_error isl_def prod.collapse)
  moreover have "isl (fst (register_target tv al s)) \<longrightarrow> snd (register_target tv al s) = s"
    by (metis register_target_error isl_def prod.collapse)
  ultimately show ?thesis using set_terminal_state_events by blast
qed

theorem claim_failure_and_history_witness:
  "tr_event_count example_won = Suc (tr_event_count example_bound)
   \<and> length (tr_events example_won) = 3
   \<and> snd (claim (PStr ''a9'') (PStr ''u1'') (PStr ''t1'') (PInt 1) (PInt 1) PNone example_bound)
       = example_bound"
proof -
  let ?m = "claim (PStr ''a2'') (PStr ''u2'') (PStr ''t1'') (PInt 1) (PInt 1) PNone example_bound"
  let ?x = "claim (PStr ''a9'') (PStr ''u1'') (PStr ''t1'') (PInt 1) (PInt 1) PNone example_bound"
  have "\<not> isl (fst ?m)" by code_simp
  then obtain d where m: "?m = (Inr d, example_won)"
    unfolding example_won_def by (cases ?m; cases "fst ?m") auto
  have x: "isl (fst ?x)" by code_simp
  have "tr_event_count example_won = 3" by code_simp
  moreover have "tr_event_count example_won = Suc (tr_event_count example_bound)"
    and "length (tr_events example_won) = min 256 (tr_event_count example_won)"
    using claim_failure_and_history [OF example_init example_bound_run] m by blast+
  moreover have "snd ?x = example_bound"
    using claim_failure_and_history [OF example_init example_bound_run] x by blast
  ultimately show ?thesis by simp
qed

text \<open>
  Staging publishes exactly once.  Let any sequence of registry operations run on the candidate
  that \<open>clone_for_staging\<close> made of the live registry.  Then \<open>adopt_staged\<close> succeeds, the live
  registry has exactly the candidate's records, bindings and history and is still well formed,
  keeping its own identity, policy and staging fields; and adopting the same object a second time
  raises and changes nothing.
\<close>

theorem staged_adoption_once:
  assumes "registry_init p = Inr s0" and "registry_run s0 s"
    and "h self = Some s" and "k \<noteq> self"
    and "clone_for_staging self k h k = Some c0" and "registry_run c0 c"
    and "adopt_staged self (PObj k) ((clone_for_staging self k h)(k \<mapsto> c)) = (r, h')"
  shows "r = Inr () \<and> (\<exists>s'. h' self = Some s' \<and> registry_inv s'
      \<and> tr_records s' = tr_records c \<and> tr_assignments s' = tr_assignments c
      \<and> tr_events s' = tr_events c \<and> tr_event_count s' = tr_event_count c
      \<and> tr_policy s' = tr_policy s \<and> tr_staging_owner s' = tr_staging_owner s
      \<and> tr_staging_consumed s' = tr_staging_consumed s)
    \<and> (\<forall>j. j \<noteq> self \<and> j \<noteq> k \<longrightarrow> h' j = h j)
    \<and> isl (fst (adopt_staged self (PObj k) h')) \<and> snd (adopt_staged self (PObj k) h') = h'"
proof -
  have inv: "registry_inv s" using assms(1,2) by (rule registry_run_inv)
  have c0: "c0 = s\<lparr>tr_staging_owner := Some self, tr_staging_consumed := False\<rparr>"
    using assms(3,5) by (auto simp: clone_for_staging_def)
  then have "registry_inv c0"
    using inv by (simp add: registry_inv_def records_inv_def bindings_inv_def events_inv_def
        bound_claim_def)
  then have c: "registry_inv c" "tr_policy c = tr_policy s"
    using registry_run_ok [OF assms(6)] c0 by (simp_all add: step_ok_def)
  have st: "tr_staging_owner c = Some self" "\<not> tr_staging_consumed c"
    using registry_run_staging [OF assms(6)] c0 by simp_all
  let ?s' = "s\<lparr>tr_records := tr_records c, tr_assignments := tr_assignments c,
    tr_events := tr_events c, tr_event_count := tr_event_count c\<rparr>"
  have inv': "registry_inv ?s'"
    using c by (simp add: registry_inv_def records_inv_def bindings_inv_def events_inv_def
        bound_claim_def)
  have "r = Inr ()" and h': "h' self = Some ?s'"
    and hk: "h' k = Some (c\<lparr>tr_records := tr_records s, tr_assignments := tr_assignments s,
       tr_events := tr_events s, tr_event_count := tr_event_count s,
       tr_staging_consumed := True, tr_staging_owner := None\<rparr>)"
    and oth: "\<forall>j. j \<noteq> self \<and> j \<noteq> k \<longrightarrow> h' j = h j"
    using assms(3,4,7) st c(2) by (auto simp: adopt_staged_def clone_for_staging_def)
  moreover have "fst (adopt_staged self (PObj k) h')
      = Inl (TargetClaimError ''staged registry is not an unused candidate of this owner'')"
      "snd (adopt_staged self (PObj k) h') = h'"
    using h' hk assms(4) c(2) by (simp_all add: adopt_staged_def)
  ultimately show ?thesis using inv' by auto
qed

theorem staged_adoption_once_witness:
  "\<exists>h'. adopt_staged 0 (PObj 1) ((clone_for_staging 0 1 [0 \<mapsto> example_empty])(1 \<mapsto>
       snd (register_target (PStr ''t1'') (PStr ''car'')
         (the (clone_for_staging 0 1 [0 \<mapsto> example_empty] 1))))) = (Inr (), h')
     \<and> dkeys (tr_records (the (h' 0))) = [''t1'']
     \<and> isl (fst (adopt_staged 0 (PObj 1) h'))"
proof -
  let ?h = "[0 \<mapsto> example_empty] :: registry_heap"
  let ?fresh = "the (clone_for_staging 0 1 ?h 1)"
  let ?c = "snd (register_target (PStr ''t1'') (PStr ''car'') ?fresh)"
  have c0: "clone_for_staging 0 1 ?h 1 = Some ?fresh" by (simp add: clone_for_staging_def)
  have keys: "dkeys (tr_records ?c) = [''t1'']" by code_simp
  obtain r h' where a: "adopt_staged 0 (PObj 1) ((clone_for_staging 0 1 ?h)(1 \<mapsto> ?c)) = (r, h')"
    by (cases "adopt_staged 0 (PObj 1) ((clone_for_staging 0 1 ?h)(1 \<mapsto> ?c))")
  have h0: "?h 0 = Some example_empty" and k: "(1::nat) \<noteq> 0" by simp_all
  from staged_adoption_once [OF example_init rtranclp.rtrancl_refl h0 k c0 register_target_snd_step a]
  have r: "r = Inr ()" and "dkeys (tr_records (the (h' 0))) = dkeys (tr_records ?c)"
    and i: "isl (fst (adopt_staged 0 (PObj 1) h'))" by auto
  then have d: "dkeys (tr_records (the (h' 0))) = [''t1'']" using keys by (simp only:)
  show ?thesis using a [unfolded r] d i by (intro exI [of _ h'] conjI)
qed

text \<open>
  \<open>bind_assignment\<close> is not all-or-nothing: with an invalid timestamp the call raises after it
  has stored the binding, so no claim exists but the UAV is taken, and binding the same UAV
  properly afterwards under another assignment is refused.
\<close>

theorem bind_assignment_partial_failure:
  "let (r, s) = bind_assignment (PStr ''a1'') (PStr ''u1'') (PStr ''t1'') (PStr ''car'')
         (PInt 0) (PInt (-1)) True example_empty;
       (r', s') = bind_assignment (PStr ''a2'') (PStr ''u1'') (PStr ''t1'') (PStr ''car'')
         (PInt 0) (PInt 0) True s
   in isl r \<and> dkeys (tr_assignments s) = [''a1''] \<and> list_all (\<lambda>(t, r). rec_claims r = []) (tr_records s)
      \<and> r' = Inl (TargetClaimError ''UAV already has another active assignment'')"
  by code_simp

end
