(* ===== verification/Model_Broker.thy ===== *)
theory Model_Broker
  imports Routing_Ids
begin

text \<open>
  \<open>fleet/model_request_broker.py\<close>: the bounded priority broker every model call of the fleet
  passes through.  Requests wait in \<open>_pending\<close>, hold a slot in \<open>_inflight\<close> while the owner runs
  the call, and end in exactly one log record.  Work of priority P0 and P1 may revoke the result
  of a running replaceable call (\<open>_preempted_inflight\<close>) but its slot stays occupied until the
  owner completes it.

  The injected clock is the argument \<open>clk\<close> of an operation: the value its one call of
  \<open>self._clock()\<close> returns.  The random default of \<open>request_id\<close> and the clock default of
  \<open>submitted_at_s\<close> are explicit arguments of the constructor.
\<close>

section \<open>Priorities, states, requests\<close>

datatype model_priority =
    P0_IMMINENT_COLLISION | P1_FLEET_REPLAN | P2_AGENT_RUNTIME_REPLAN
  | P3_RUNTIME_VISUAL_REVIEW | P4_PERIODIC_REVIEW

fun priority_int :: "model_priority \<Rightarrow> int" where
  "priority_int P0_IMMINENT_COLLISION = 0"
| "priority_int P1_FLEET_REPLAN = 1"
| "priority_int P2_AGENT_RUNTIME_REPLAN = 2"
| "priority_int P3_RUNTIME_VISUAL_REVIEW = 3"
| "priority_int P4_PERIODIC_REVIEW = 4"

fun priority_name :: "model_priority \<Rightarrow> string" where
  "priority_name P0_IMMINENT_COLLISION = ''P0_IMMINENT_COLLISION''"
| "priority_name P1_FLEET_REPLAN = ''P1_FLEET_REPLAN''"
| "priority_name P2_AGENT_RUNTIME_REPLAN = ''P2_AGENT_RUNTIME_REPLAN''"
| "priority_name P3_RUNTIME_VISUAL_REVIEW = ''P3_RUNTIME_VISUAL_REVIEW''"
| "priority_name P4_PERIODIC_REVIEW = ''P4_PERIODIC_REVIEW''"

lemma priority_int_inj [simp]: "priority_int p = priority_int q \<longleftrightarrow> p = q"
  by (cases p; cases q) simp_all

text \<open>\<open>IntEnum\<close> members compare as their integers.\<close>

instantiation model_priority :: linorder
begin

definition less_eq_model_priority :: "model_priority \<Rightarrow> model_priority \<Rightarrow> bool" where
  "less_eq_model_priority p q \<longleftrightarrow> priority_int p \<le> priority_int q"

definition less_model_priority :: "model_priority \<Rightarrow> model_priority \<Rightarrow> bool" where
  "less_model_priority p q \<longleftrightarrow> priority_int p < priority_int q"

instance
  by standard (auto simp: less_eq_model_priority_def less_model_priority_def)

end

lemmas priority_order = less_eq_model_priority_def less_model_priority_def

text \<open>\<open>ModelRequestPriority(v)\<close>: lookup by value; a float equal to a member's integer is found.\<close>

definition ModelRequestPriority :: "pyval \<Rightarrow> model_priority result" where
  "ModelRequestPriority v =
     (let found = List.find (\<lambda>p. case v of
            PInt i \<Rightarrow> i = priority_int p
          | PFloat (Fin x) \<Rightarrow> x = of_int (priority_int p)
          | _ \<Rightarrow> False)
        [P0_IMMINENT_COLLISION, P1_FLEET_REPLAN, P2_AGENT_RUNTIME_REPLAN,
         P3_RUNTIME_VISUAL_REVIEW, P4_PERIODIC_REVIEW]
      in case found of None \<Rightarrow> Inl (ValueError ''not a valid ModelRequestPriority'') | Some p \<Rightarrow> Inr p)"

datatype broker_request_state = BRS_PENDING | BRS_INFLIGHT | BRS_COMPLETED | BRS_STALE | BRS_FAILED

fun broker_state_text :: "broker_request_state \<Rightarrow> string" where
  "broker_state_text BRS_PENDING = ''PENDING''"
| "broker_state_text BRS_INFLIGHT = ''INFLIGHT''"
| "broker_state_text BRS_COMPLETED = ''COMPLETED''"
| "broker_state_text BRS_STALE = ''STALE''"
| "broker_state_text BRS_FAILED = ''FAILED''"

text \<open>An \<open>Enum\<close> role is a \<open>str\<close>, so taking its value leaves the representation unchanged.\<close>

definition role_text :: "pyval \<Rightarrow> string result" where
  "role_text v = validate_routing_id v ''call_role''"

definition finite_nonnegative :: "pyval \<Rightarrow> string \<Rightarrow> rat result" where
  "finite_nonnegative v name =
     real_value (TypeError (name @ '' must be a finite non-negative number''))
       (ValueError (name @ '' must be a finite non-negative number'')) (\<lambda>x. 0 \<le> x) v"

definition nonnegative_int :: "pyval \<Rightarrow> string \<Rightarrow> int result" where
  "nonnegative_int v name =
     int_value (TypeError (name @ '' must be a non-negative integer''))
       (ValueError (name @ '' must be a non-negative integer'')) (\<lambda>i. 0 \<le> i) v"

record model_request =
  mr_role :: string
  mr_priority :: model_priority
  mr_uav :: "string option"
  mr_assignment :: "string option"
  mr_adapter :: "string option"
  mr_payload :: pyval
  mr_id :: string
  mr_submitted :: rat
  mr_control :: bool
  mr_replaceable :: bool

definition ModelBrokerRequest ::
  "pyval \<Rightarrow> pyval \<Rightarrow> pyval \<Rightarrow> pyval \<Rightarrow> pyval \<Rightarrow> pyval \<Rightarrow> pyval \<Rightarrow> pyval \<Rightarrow> pyval \<Rightarrow> pyval
     \<Rightarrow> model_request result" where
  "ModelBrokerRequest role priority uav assignment adapter payload rid submitted control replaceable =
     rbind (role_text role) (\<lambda>role.
     rbind (case priority of
              PBool b \<Rightarrow> Inl (TypeError ''priority must be a ModelRequestPriority or integer'')
            | _ \<Rightarrow> ModelRequestPriority priority) (\<lambda>priority.
     rbind (opt_check validate_uav_id uav) (\<lambda>uav.
     rbind (opt_check (\<lambda>v. validate_routing_id v ''assignment_id'') assignment) (\<lambda>assignment.
     rbind (opt_check (\<lambda>v. validate_routing_id v ''requested_adapter'') adapter) (\<lambda>adapter.
     rbind (case payload of PDict d \<Rightarrow> Inr payload
            | _ \<Rightarrow> Inl (TypeError ''payload must be a mapping'')) (\<lambda>payload.
     rbind (validate_request_id rid) (\<lambda>rid.
     rbind (finite_nonnegative submitted ''submitted_at_s'') (\<lambda>submitted.
     rbind (bool_value (TypeError ''control_related must be bool'') control) (\<lambda>control.
     rbind (bool_value (TypeError ''replaceable must be bool'') replaceable) (\<lambda>replaceable.
       Inr \<lparr>mr_role = role, mr_priority = priority, mr_uav = uav, mr_assignment = assignment,
            mr_adapter = adapter, mr_payload = payload, mr_id = rid, mr_submitted = submitted,
            mr_control = control, mr_replaceable = replaceable\<rparr>))))))))))"

definition request_to_dict :: "model_request \<Rightarrow> pyval" where
  "request_to_dict r = PDict
     [(PStr ''request_id'', PStr (mr_id r)),
      (PStr ''call_role'', PStr (mr_role r)),
      (PStr ''uav_id'', opt_pyval PStr (mr_uav r)),
      (PStr ''assignment_id'', opt_pyval PStr (mr_assignment r)),
      (PStr ''priority'', PStr (priority_name (mr_priority r))),
      (PStr ''requested_adapter'', opt_pyval PStr (mr_adapter r)),
      (PStr ''submitted_at_s'', PFloat (Fin (mr_submitted r))),
      (PStr ''control_related'', PBool (mr_control r)),
      (PStr ''replaceable'', PBool (mr_replaceable r))]"

section \<open>Log records\<close>

text \<open>The fields the constructor does not check keep the value they were given.\<close>

record model_call_log =
  cl_id :: string
  cl_role :: string
  cl_uav :: "string option"
  cl_assignment :: "string option"
  cl_priority :: string
  cl_requested_adapter :: pyval
  cl_adapter_status :: pyval
  cl_effective_model :: pyval
  cl_fallback :: bool
  cl_latency :: rat
  cl_state :: broker_request_state
  cl_stale_reason :: "string option"
  cl_prompt_tokens :: int
  cl_completion_tokens :: int
  cl_finish_reason :: pyval
  cl_error_code :: pyval

definition ModelCallLogRecord ::
  "model_request \<Rightarrow> pyval \<Rightarrow> pyval \<Rightarrow> pyval \<Rightarrow> pyval \<Rightarrow> pyval \<Rightarrow> broker_request_state
     \<Rightarrow> string option \<Rightarrow> pyval \<Rightarrow> pyval \<Rightarrow> pyval \<Rightarrow> pyval \<Rightarrow> model_call_log result" where
  "ModelCallLogRecord request adapter status model fallback latency state stale prompt completion
      finish error =
     rbind (validate_request_id (PStr (mr_id request))) (\<lambda>rid.
     rbind (role_text (PStr (mr_role request))) (\<lambda>role.
     rbind (opt_check validate_uav_id (opt_pyval PStr (mr_uav request))) (\<lambda>uav.
     rbind (opt_check (\<lambda>v. validate_routing_id v ''assignment_id'')
              (opt_pyval PStr (mr_assignment request))) (\<lambda>assignment.
     rbind (finite_nonnegative latency ''latency_s'') (\<lambda>latency.
     rbind (nonnegative_int prompt ''prompt_tokens'') (\<lambda>prompt.
     rbind (nonnegative_int completion ''completion_tokens'') (\<lambda>completion.
     rbind (bool_value (TypeError ''fallback_used must be bool'') fallback) (\<lambda>fallback.
       Inr \<lparr>cl_id = rid, cl_role = role, cl_uav = uav, cl_assignment = assignment,
            cl_priority = priority_name (mr_priority request), cl_requested_adapter = adapter,
            cl_adapter_status = status, cl_effective_model = model, cl_fallback = fallback,
            cl_latency = latency, cl_state = state, cl_stale_reason = stale,
            cl_prompt_tokens = prompt, cl_completion_tokens = completion,
            cl_finish_reason = finish, cl_error_code = error\<rparr>))))))))"

definition call_log_to_dict :: "model_call_log \<Rightarrow> pyval" where
  "call_log_to_dict c = PDict
     [(PStr ''call_id'', PStr (cl_id c)),
      (PStr ''call_role'', PStr (cl_role c)),
      (PStr ''assignment_id'', opt_pyval PStr (cl_assignment c)),
      (PStr ''uav_id'', opt_pyval PStr (cl_uav c)),
      (PStr ''priority'', PStr (cl_priority c)),
      (PStr ''requested_adapter'', cl_requested_adapter c),
      (PStr ''adapter_status'', cl_adapter_status c),
      (PStr ''effective_model'', cl_effective_model c),
      (PStr ''fallback_used'', PBool (cl_fallback c)),
      (PStr ''prompt_tokens'', PInt (cl_prompt_tokens c)),
      (PStr ''completion_tokens'', PInt (cl_completion_tokens c)),
      (PStr ''latency_s'', PFloat (Fin (cl_latency c))),
      (PStr ''finish_reason'', cl_finish_reason c),
      (PStr ''error_code'', cl_error_code c),
      (PStr ''state'', PStr (broker_state_text (cl_state c))),
      (PStr ''stale_reasons'', PList (case cl_stale_reason c of None \<Rightarrow> [] | Some r \<Rightarrow> [PStr r]))]"

section \<open>The broker\<close>

record model_broker =
  mb_max_inflight_global :: int
  mb_max_inflight_per_uav :: int
  mb_max_pending_per_uav :: int
  mb_starvation_timeout :: rat
  mb_pending :: "model_request list"
  mb_inflight :: "(string \<times> model_request \<times> rat) list"
  mb_preempted :: "(string \<times> model_call_log) list"
  mb_logs :: "model_call_log list"

definition broker_limit :: "string \<Rightarrow> pyval \<Rightarrow> int result" where
  "broker_limit name v =
     int_value (ValueError (name @ '' must be a positive integer''))
       (ValueError (name @ '' must be a positive integer'')) (\<lambda>i. 0 < i) v"

text \<open>\<open>clock_callable\<close> is \<open>callable(clock)\<close>.\<close>

definition broker_init ::
  "pyval \<Rightarrow> pyval \<Rightarrow> pyval \<Rightarrow> pyval \<Rightarrow> bool \<Rightarrow> model_broker result" where
  "broker_init max_global max_per_uav max_pending timeout clock_callable =
     rbind (broker_limit ''max_inflight_global'' max_global) (\<lambda>g.
     rbind (broker_limit ''max_inflight_per_uav'' max_per_uav) (\<lambda>u.
     rbind (broker_limit ''max_pending_per_uav'' max_pending) (\<lambda>p.
     if \<not> clock_callable then Inl (TypeError ''clock must be callable'')
     else rbind (finite_nonnegative timeout ''starvation_timeout_s'') (\<lambda>t.
       if t \<le> 0 then Inl (ValueError ''starvation_timeout_s must be greater than zero'')
       else Inr \<lparr>mb_max_inflight_global = g, mb_max_inflight_per_uav = u,
                 mb_max_pending_per_uav = p, mb_starvation_timeout = t, mb_pending = [],
                 mb_inflight = [], mb_preempted = [], mb_logs = []\<rparr>))))"

definition record_stale ::
  "model_request \<Rightarrow> string \<Rightarrow> rat \<Rightarrow> model_broker \<Rightarrow> model_call_log result \<times> model_broker" where
  "record_stale request reason latency b =
     checked b (ModelCallLogRecord request (opt_pyval PStr (mr_adapter request)) PNone PNone
         (PBool False) (PFloat (Fin latency)) BRS_STALE (Some reason) (PInt 0) (PInt 0) PNone PNone)
       (\<lambda>record. (Inr record, b\<lparr>mb_logs := mb_logs b @ [record]\<rparr>))"

definition same_uav_inflight :: "string option \<Rightarrow> model_broker \<Rightarrow> model_request list" where
  "same_uav_inflight uav b = filter (\<lambda>item. mr_uav item = uav) (map fst (dvals (mb_inflight b)))"

definition eligible :: "model_broker \<Rightarrow> model_request \<Rightarrow> bool" where
  "eligible b request =
     (if mr_uav request = None then True
      else let same_uav = same_uav_inflight (mr_uav request) b
           in if mb_max_inflight_per_uav b \<le> int (length same_uav) then False
              else if mr_control request \<and> list_ex mr_control same_uav then False
              else True)"

definition effective_priority :: "model_broker \<Rightarrow> rat \<Rightarrow> model_request \<Rightarrow> int" where
  "effective_priority b now request =
     (let base_priority = priority_int (mr_priority request)
      in if mr_priority request \<le> P2_AGENT_RUNTIME_REPLAN then base_priority
         else let waited = max 0 (now - mr_submitted request);
                  boost = \<lfloor>waited / mb_starvation_timeout b\<rfloor>
              in max (priority_int P3_RUNTIME_VISUAL_REVIEW) (base_priority - boost))"

text \<open>The loop of \<open>_preempt_replaceable_inflight_for_urgent\<close>.\<close>

definition live_same_uav ::
  "model_request \<Rightarrow> model_broker \<Rightarrow> (string \<times> model_request \<times> rat) list" where
  "live_same_uav request b =
     filter (\<lambda>(rid, item, _). mr_uav request \<noteq> None \<and> mr_uav item = mr_uav request
        \<and> rid \<notin> set (dkeys (mb_preempted b))) (mb_inflight b)"

definition preempt_key :: "string \<times> model_request \<times> rat \<Rightarrow> model_priority \<times> rat \<times> string" where
  "preempt_key e = (mr_priority (fst (snd e)), - snd (snd e), fst e)"

definition preempt_candidates ::
  "model_request \<Rightarrow> model_broker \<Rightarrow> (string \<times> model_request \<times> rat) list" where
  "preempt_candidates request b =
     (let same_uav = live_same_uav request b;
          per_uav_blocked = (mr_uav request \<noteq> None
            \<and> mb_max_inflight_per_uav b \<le> int (length same_uav));
          global_blocked = (mb_max_inflight_global b
            \<le> int (length (mb_inflight b)) - int (length (mb_preempted b)))
      in if \<not> per_uav_blocked \<and> \<not> global_blocked then []
         else filter (\<lambda>(rid, item, _). mr_replaceable item \<and> mr_priority request < mr_priority item
                \<and> rid \<notin> set (dkeys (mb_preempted b)))
              (if per_uav_blocked then same_uav else mb_inflight b))"

definition unpreempted :: "model_broker \<Rightarrow> string set" where
  "unpreempted b = set (dkeys (mb_inflight b)) - set (dkeys (mb_preempted b))"

lemma preempt_candidates_unpreempted:
  "e \<in> set (preempt_candidates request b) \<Longrightarrow> fst e \<in> unpreempted b"
  by (force simp: preempt_candidates_def live_same_uav_def unpreempted_def Let_def
      split: if_splits)

lemma record_stale_fields [simp]:
  assumes "record_stale r reason lat b = (x, b')"
  shows "mb_inflight b' = mb_inflight b" "mb_preempted b' = mb_preempted b"
    "mb_pending b' = mb_pending b"
  using assms by (auto simp: record_stale_def split: checked_split_asm)

function preempt_loop :: "model_request \<Rightarrow> rat \<Rightarrow> model_broker \<Rightarrow> unit result \<times> model_broker" where
  "preempt_loop request now b =
     (case preempt_candidates request b of
        [] \<Rightarrow> (Inr (), b)
      | c # cs \<Rightarrow>
          let victim = max_by preempt_key c cs
          in (case record_stale (fst (snd victim)) ''PREEMPTED_BY_HIGHER_PRIORITY''
                     (max 0 (now - snd (snd victim))) b of
                (Inl e, b) \<Rightarrow> (Inl e, b)
              | (Inr stale, b) \<Rightarrow>
                  preempt_loop request now
                    (b\<lparr>mb_preempted := dset (mb_preempted b) (fst victim) stale\<rparr>)))"
  by pat_completeness auto
termination
proof (relation "measure (\<lambda>(_, _, b). card (unpreempted b))", goal_cases)
  case (2 request now b c cs victim r b' stale)
  have "victim \<in> set (preempt_candidates request b)"
    using 2(1,2) max_by_in [of preempt_key c cs] by simp
  then have v: "fst victim \<in> unpreempted b" by (rule preempt_candidates_unpreempted)
  have "record_stale (fst (snd victim)) ''PREEMPTED_BY_HIGHER_PRIORITY''
      (max 0 (now - snd (snd victim))) b = (Inr stale, b')" using 2 by simp
  from record_stale_fields [OF this]
  have "unpreempted (b'\<lparr>mb_preempted := dset (mb_preempted b') (fst victim) stale\<rparr>)
      = unpreempted b - {fst victim}"
    by (auto simp: unpreempted_def dset_keys)
  moreover have "card (unpreempted b - {fst victim}) < card (unpreempted b)"
    using v by (intro psubset_card_mono) (auto simp: unpreempted_def)
  ultimately show ?case by simp
qed simp

declare preempt_loop.simps [simp del]

definition preempt_replaceable_inflight_for_urgent ::
  "pyval \<Rightarrow> model_request \<Rightarrow> model_broker \<Rightarrow> unit result \<times> model_broker" where
  "preempt_replaceable_inflight_for_urgent clk request b =
     (if P1_FLEET_REPLAN < mr_priority request then (Inr (), b)
      else checked b (finite_nonnegative clk ''clock result'') (\<lambda>now. preempt_loop request now b))"

text \<open>The three stages of \<open>submit\<close> before the request is queued.\<close>

definition supersedes :: "model_request \<Rightarrow> model_request \<Rightarrow> bool" where
  "supersedes request existing \<longleftrightarrow> mr_replaceable existing \<and> mr_uav existing = mr_uav request
     \<and> mr_role existing = mr_role request \<and> mr_assignment existing = mr_assignment request
     \<and> mr_priority request \<le> mr_priority existing"

definition submit_replace :: "model_request \<Rightarrow> model_broker \<Rightarrow> unit result \<times> model_broker" where
  "submit_replace request b =
     (if \<not> mr_replaceable request then (Inr (), b)
      else case List.find (supersedes request) (mb_pending b) of
        None \<Rightarrow> (Inr (), b)
      | Some stale \<Rightarrow>
          andthen (record_stale stale ''SUPERSEDED_BY_NEWER_FRAME'' 0
                    (b\<lparr>mb_pending := remove1 stale (mb_pending b)\<rparr>))
            (\<lambda>_ b. (Inr (), b)))"

definition eviction_key :: "model_request \<Rightarrow> model_priority \<times> rat" where
  "eviction_key item = (mr_priority item, - mr_submitted item)"

definition submit_evict :: "model_request \<Rightarrow> model_broker \<Rightarrow> unit result \<times> model_broker" where
  "submit_evict request b =
     (let scoped_pending = filter (\<lambda>item. mr_uav item = mr_uav request) (mb_pending b)
      in if int (length scoped_pending) < mb_max_pending_per_uav b then (Inr (), b)
         else case filter (\<lambda>item. mr_replaceable item \<and> mr_priority request < mr_priority item)
                scoped_pending of
           [] \<Rightarrow> (Inl (ModelRequestBrokerError ''per-UAV pending queue is full''), b)
         | c # cs \<Rightarrow>
             let evicted = max_by eviction_key c cs
             in andthen (record_stale evicted ''EVICTED_BY_HIGHER_PRIORITY'' 0
                       (b\<lparr>mb_pending := remove1 evicted (mb_pending b)\<rparr>))
                  (\<lambda>_ b. (Inr (), b)))"

definition id_in_use :: "string \<Rightarrow> model_broker \<Rightarrow> bool" where
  "id_in_use rid b \<longleftrightarrow> rid \<in> set (dkeys (mb_inflight b))
     \<or> list_ex (\<lambda>item. mr_id item = rid) (mb_pending b)
     \<or> list_ex (\<lambda>record. cl_id record = rid) (mb_logs b)"

definition broker_submit :: "pyval \<Rightarrow> model_request \<Rightarrow> model_broker \<Rightarrow> string result \<times> model_broker" where
  "broker_submit clk request b =
     (if id_in_use (mr_id request) b
      then (Inl (ModelRequestBrokerError ''request_id already exists''), b)
      else andthen (submit_replace request b) (\<lambda>_ b.
           andthen (submit_evict request b) (\<lambda>_ b.
           andthen (preempt_replaceable_inflight_for_urgent clk request b) (\<lambda>_ b.
             (Inr (mr_id request), b\<lparr>mb_pending := mb_pending b @ [request]\<rparr>)))))"

definition acquire_key :: "model_broker \<Rightarrow> rat \<Rightarrow> model_request \<Rightarrow> int \<times> rat \<times> string" where
  "acquire_key b now item = (effective_priority b now item, mr_submitted item, mr_id item)"

definition acquire_next ::
  "pyval \<Rightarrow> string list option \<Rightarrow> model_broker \<Rightarrow> model_request option result \<times> model_broker" where
  "acquire_next clk request_ids b =
     (if mb_max_inflight_global b \<le> int (length (mb_inflight b)) then (Inr None, b)
      else checked b (finite_nonnegative clk ''clock result'') (\<lambda>now.
        case filter (eligible b) (mb_pending b) of
          [] \<Rightarrow> (Inr None, b)
        | c # cs \<Rightarrow>
            let selected = min_by (acquire_key b now) c cs
            in if (case request_ids of None \<Rightarrow> False | Some ids \<Rightarrow> mr_id selected \<notin> set ids)
               then (Inr None, b)
               else (Inr (Some selected),
                     b\<lparr>mb_pending := remove1 selected (mb_pending b),
                       mb_inflight := dset (mb_inflight b) (mr_id selected) (selected, now)\<rparr>)))"

definition broker_complete ::
  "pyval \<Rightarrow> pyval \<Rightarrow> pyval \<Rightarrow> pyval \<Rightarrow> pyval \<Rightarrow> pyval \<Rightarrow> pyval \<Rightarrow> pyval \<Rightarrow> pyval \<Rightarrow> pyval
     \<Rightarrow> model_broker \<Rightarrow> model_call_log result \<times> model_broker" where
  "broker_complete clk rid adapter status model fallback prompt completion finish error b =
     checked b (validate_request_id rid) (\<lambda>rid.
       case dget (mb_inflight b) rid of
         None \<Rightarrow> (Inl (ModelRequestBrokerError ''request is not inflight''), b)
       | Some (request, started_at) \<Rightarrow>
           let b = b\<lparr>mb_inflight := ddel (mb_inflight b) rid\<rparr>
           in (case dget (mb_preempted b) rid of
                Some preempted \<Rightarrow>
                  (Inr preempted, b\<lparr>mb_preempted := ddel (mb_preempted b) rid\<rparr>)
              | None \<Rightarrow>
                  checked b (finite_nonnegative clk ''clock result'') (\<lambda>now.
                  checked b (ModelCallLogRecord request
                      (if py_truthy adapter then adapter else opt_pyval PStr (mr_adapter request))
                      status model fallback (PFloat (Fin (max 0 (now - started_at))))
                      (if py_truthy error then BRS_FAILED else BRS_COMPLETED) None
                      prompt completion finish error) (\<lambda>record.
                    (Inr record, b\<lparr>mb_logs := mb_logs b @ [record]\<rparr>)))))"

definition reason_text :: "pyval \<Rightarrow> string result" where
  "reason_text = stripped_text (ValueError ''reason must be a non-empty string'')"

definition cancel_inflight ::
  "pyval \<Rightarrow> pyval \<Rightarrow> pyval \<Rightarrow> model_broker \<Rightarrow> model_call_log result \<times> model_broker" where
  "cancel_inflight clk rid reason b =
     checked b (validate_request_id rid) (\<lambda>rid.
     checked b (reason_text reason) (\<lambda>reason.
       case dget (mb_inflight b) rid of
         None \<Rightarrow> (Inl (ModelRequestBrokerError ''request is not inflight''), b)
       | Some (request, started_at) \<Rightarrow>
           (case dget (mb_preempted b) rid of
              Some existing \<Rightarrow> (Inr existing, b)
            | None \<Rightarrow>
                checked b (finite_nonnegative clk ''clock result'') (\<lambda>now.
                andthen (record_stale request reason (max 0 (now - started_at)) b) (\<lambda>record b.
                  (Inr record,
                   b\<lparr>mb_preempted := dset (mb_preempted b) rid record\<rparr>))))))"

definition cancel_pending :: "pyval \<Rightarrow> pyval \<Rightarrow> model_broker \<Rightarrow> unit result \<times> model_broker" where
  "cancel_pending rid reason b =
     checked b (validate_request_id rid) (\<lambda>rid.
     checked b (reason_text reason) (\<lambda>reason.
       case List.find (\<lambda>item. mr_id item = rid) (mb_pending b) of
         None \<Rightarrow> (Inl (ModelRequestBrokerError ''request is not pending''), b)
       | Some request \<Rightarrow>
           andthen (record_stale request reason 0
                     (b\<lparr>mb_pending := remove1 request (mb_pending b)\<rparr>))
             (\<lambda>_ b. (Inr (), b))))"

definition pending_count :: "model_broker \<Rightarrow> nat" where
  "pending_count b = length (mb_pending b)"

definition inflight_count :: "model_broker \<Rightarrow> nat" where
  "inflight_count b = length (mb_inflight b)"

definition broker_limits_to_dict :: "model_broker \<Rightarrow> pyval" where
  "broker_limits_to_dict b = PDict
     [(PStr ''max_inflight_global'', PInt (mb_max_inflight_global b)),
      (PStr ''max_inflight_per_uav'', PInt (mb_max_inflight_per_uav b)),
      (PStr ''max_pending_per_uav'', PInt (mb_max_pending_per_uav b)),
      (PStr ''starvation_timeout_s'', PFloat (Fin (mb_starvation_timeout b)))]"

definition broker_queues :: "model_broker \<Rightarrow> (pyval \<times> pyval) list" where
  "broker_queues b =
     [(PStr ''pending'', PList (map request_to_dict (sort_key mr_id (mb_pending b)))),
      (PStr ''inflight'', PList (map request_to_dict (sort_key mr_id (map fst (dvals (mb_inflight b))))))]"

definition broker_snapshot :: "model_broker \<Rightarrow> pyval" where
  "broker_snapshot b = PDict (broker_queues b @
     [(PStr ''logs'', PList (map call_log_to_dict (mb_logs b))),
      (PStr ''limits'', broker_limits_to_dict b)])"

definition broker_summary_snapshot :: "model_broker \<Rightarrow> pyval" where
  "broker_summary_snapshot b = PDict (broker_queues b @
     [(PStr ''log_count'', PInt (int (length (mb_logs b)))),
      (PStr ''limits'', broker_limits_to_dict b)])"

section \<open>Checked requests\<close>

definition request_ok :: "model_request \<Rightarrow> bool" where
  "request_ok r \<longleftrightarrow> routing_id_match (mr_id r) \<and> routing_id_match (mr_role r)
     \<and> (\<forall>u. mr_uav r = Some u \<longrightarrow> routing_id_match u)
     \<and> (\<forall>a. mr_assignment r = Some a \<longrightarrow> routing_id_match a)
     \<and> (\<forall>a. mr_adapter r = Some a \<longrightarrow> routing_id_match a) \<and> 0 \<le> mr_submitted r"

lemma finite_nonnegative_Inr: "finite_nonnegative v n = Inr x \<Longrightarrow> 0 \<le> x"
  unfolding finite_nonnegative_def by (drule real_value_Inr)

lemma finite_nonnegative_Fin [simp]: "0 \<le> x \<Longrightarrow> finite_nonnegative (PFloat (Fin x)) n = Inr x"
  by (simp add: finite_nonnegative_def)

lemma nonnegative_int_PInt [simp]: "0 \<le> i \<Longrightarrow> nonnegative_int (PInt i) n = Inr i"
  by (simp add: nonnegative_int_def)

lemma role_text_Inr [simp]: "role_text v = Inr s \<longleftrightarrow> v = PStr s \<and> routing_id_match s"
  by (simp add: role_text_def)

lemma role_text_PStr [simp]: "routing_id_match s \<Longrightarrow> role_text (PStr s) = Inr s"
  by simp

lemma ModelBrokerRequest_ok:
  assumes "ModelBrokerRequest role p u a ad pl rid sub ctl rep = Inr r"
  shows "request_ok r"
  using assms unfolding ModelBrokerRequest_def rbind_eq_Inr request_ok_def
  by (auto dest!: opt_check_Some finite_nonnegative_Inr)

lemma opt_check_opt_pyval:
  assumes "\<And>x. v = Some x \<Longrightarrow> f (PStr x) = Inr x"
  shows "opt_check f (opt_pyval PStr v) = Inr v"
  using assms by (cases v) (auto simp: opt_check_def)

lemma ModelCallLogRecord_ok:
  assumes "request_ok r" and "0 \<le> lat" and "0 \<le> p" and "0 \<le> c"
  shows "ModelCallLogRecord r ad st md (PBool fb) (PFloat (Fin lat)) state stale (PInt p) (PInt c) fin err
    = Inr \<lparr>cl_id = mr_id r, cl_role = mr_role r, cl_uav = mr_uav r, cl_assignment = mr_assignment r,
        cl_priority = priority_name (mr_priority r), cl_requested_adapter = ad,
        cl_adapter_status = st, cl_effective_model = md, cl_fallback = fb, cl_latency = lat,
        cl_state = state, cl_stale_reason = stale, cl_prompt_tokens = p, cl_completion_tokens = c,
        cl_finish_reason = fin, cl_error_code = err\<rparr>"
proof -
  have u: "opt_check validate_uav_id (opt_pyval PStr (mr_uav r)) = Inr (mr_uav r)"
    and a: "opt_check (\<lambda>v. validate_routing_id v ''assignment_id'') (opt_pyval PStr (mr_assignment r))
      = Inr (mr_assignment r)"
    using assms(1) by (auto intro!: opt_check_opt_pyval simp: request_ok_def)
  show ?thesis
    using assms by (simp add: ModelCallLogRecord_def u a request_ok_def)
qed

lemma ModelCallLogRecord_Inr:
  "ModelCallLogRecord r ad st md fb lat state stale p c fin err = Inr x \<Longrightarrow>
     cl_id x = mr_id r \<and> cl_state x = state \<and> cl_priority x = priority_name (mr_priority r)
     \<and> cl_stale_reason x = stale"
  by (auto simp: ModelCallLogRecord_def rbind_eq_Inr)

definition stale_record :: "model_request \<Rightarrow> string \<Rightarrow> rat \<Rightarrow> model_call_log" where
  "stale_record r reason lat = \<lparr>cl_id = mr_id r, cl_role = mr_role r, cl_uav = mr_uav r,
     cl_assignment = mr_assignment r, cl_priority = priority_name (mr_priority r),
     cl_requested_adapter = opt_pyval PStr (mr_adapter r), cl_adapter_status = PNone,
     cl_effective_model = PNone, cl_fallback = False, cl_latency = lat, cl_state = BRS_STALE,
     cl_stale_reason = Some reason, cl_prompt_tokens = 0, cl_completion_tokens = 0,
     cl_finish_reason = PNone, cl_error_code = PNone\<rparr>"

lemma stale_record_simps [simp]:
  "cl_id (stale_record r reason lat) = mr_id r" "cl_state (stale_record r reason lat) = BRS_STALE"
  "cl_stale_reason (stale_record r reason lat) = Some reason"
  by (simp_all add: stale_record_def)

lemma record_stale_ok:
  assumes "request_ok r" and "0 \<le> lat"
  shows "record_stale r reason lat b
    = (Inr (stale_record r reason lat), b\<lparr>mb_logs := mb_logs b @ [stale_record r reason lat]\<rparr>)"
  using assms by (simp add: record_stale_def ModelCallLogRecord_ok stale_record_def)

section \<open>Well-formed brokers\<close>

definition of_uav :: "string option \<Rightarrow> model_request list \<Rightarrow> model_request list" where
  "of_uav u rs = filter (\<lambda>r. mr_uav r = u) rs"

definition inflight_requests :: "model_broker \<Rightarrow> model_request list" where
  "inflight_requests b = map fst (dvals (mb_inflight b))"

definition inflight_ids :: "model_broker \<Rightarrow> string set" where
  "inflight_ids b = set (dkeys (mb_inflight b))"

definition preempted_ids :: "model_broker \<Rightarrow> string set" where
  "preempted_ids b = set (dkeys (mb_preempted b))"

lemma inflight_ids_upd [simp]:
  "inflight_ids (b\<lparr>mb_pending := ps\<rparr>) = inflight_ids b"
  "inflight_ids (b\<lparr>mb_preempted := vs\<rparr>) = inflight_ids b"
  "inflight_ids (b\<lparr>mb_logs := ls\<rparr>) = inflight_ids b"
  "inflight_ids (b\<lparr>mb_inflight := dset (mb_inflight b) k x\<rparr>) = insert k (inflight_ids b)"
  "inflight_ids (b\<lparr>mb_inflight := ddel (mb_inflight b) k\<rparr>) = inflight_ids b - {k}"
  by (auto simp: inflight_ids_def dset_keys ddel_filter)

lemma preempted_ids_upd [simp]:
  "preempted_ids (b\<lparr>mb_pending := ps\<rparr>) = preempted_ids b"
  "preempted_ids (b\<lparr>mb_inflight := fs\<rparr>) = preempted_ids b"
  "preempted_ids (b\<lparr>mb_logs := ls\<rparr>) = preempted_ids b"
  "preempted_ids (b\<lparr>mb_preempted := dset (mb_preempted b) k c\<rparr>) = insert k (preempted_ids b)"
  "preempted_ids (b\<lparr>mb_preempted := ddel (mb_preempted b) k\<rparr>) = preempted_ids b - {k}"
  by (auto simp: preempted_ids_def dset_keys ddel_filter)

lemma unpreempted_eq: "unpreempted b = inflight_ids b - preempted_ids b"
  by (simp add: unpreempted_def inflight_ids_def preempted_ids_def)

definition log_ids :: "model_broker \<Rightarrow> string set" where
  "log_ids b = cl_id ` set (mb_logs b)"

lemma log_ids_upd [simp]:
  "log_ids (b\<lparr>mb_pending := ps\<rparr>) = log_ids b" "log_ids (b\<lparr>mb_inflight := fs\<rparr>) = log_ids b"
  "log_ids (b\<lparr>mb_preempted := vs\<rparr>) = log_ids b" "log_ids (b\<lparr>mb_logs := ls\<rparr>) = cl_id ` set ls"
  by (simp_all add: log_ids_def)

definition used_ids :: "model_broker \<Rightarrow> string set" where
  "used_ids b = mr_id ` set (mb_pending b) \<union> inflight_ids b \<union> log_ids b"

definition limits_positive :: "model_broker \<Rightarrow> bool" where
  "limits_positive b \<longleftrightarrow> 0 < mb_max_inflight_global b \<and> 0 < mb_max_inflight_per_uav b
     \<and> 0 < mb_max_pending_per_uav b \<and> 0 < mb_starvation_timeout b"

definition pending_inv :: "model_broker \<Rightarrow> bool" where
  "pending_inv b \<longleftrightarrow> distinct (map mr_id (mb_pending b))
     \<and> (\<forall>r\<in>set (mb_pending b). request_ok r \<and> mr_id r \<notin> inflight_ids b
          \<and> mr_id r \<notin> log_ids b)"

definition inflight_inv :: "model_broker \<Rightarrow> bool" where
  "inflight_inv b \<longleftrightarrow> dict_ok (mb_inflight b)
     \<and> (\<forall>(k, r, t)\<in>set (mb_inflight b). k = mr_id r \<and> request_ok r)
     \<and> (\<forall>k\<in>inflight_ids b. k \<in> log_ids b \<longleftrightarrow> k \<in> preempted_ids b)"

definition preempted_inv :: "model_broker \<Rightarrow> bool" where
  "preempted_inv b \<longleftrightarrow> dict_ok (mb_preempted b) \<and> distinct (map cl_id (mb_logs b))
     \<and> (\<forall>(k, c)\<in>set (mb_preempted b). k \<in> inflight_ids b \<and> cl_id c = k
          \<and> c \<in> set (mb_logs b) \<and> cl_state c = BRS_STALE)"

definition capacity_inv :: "model_broker \<Rightarrow> bool" where
  "capacity_inv b \<longleftrightarrow> int (length (mb_inflight b)) \<le> mb_max_inflight_global b
     \<and> (\<forall>u. int (length (of_uav (Some u) (inflight_requests b))) \<le> mb_max_inflight_per_uav b
          \<and> length (filter mr_control (of_uav (Some u) (inflight_requests b))) \<le> 1)
     \<and> (\<forall>u. int (length (of_uav u (mb_pending b))) \<le> mb_max_pending_per_uav b)"

definition broker_inv :: "model_broker \<Rightarrow> bool" where
  "broker_inv b \<longleftrightarrow> limits_positive b \<and> pending_inv b \<and> inflight_inv b \<and> preempted_inv b
     \<and> capacity_inv b"

lemmas broker_inv_defs = limits_positive_def pending_inv_def inflight_inv_def preempted_inv_def
  capacity_inv_def

lemma preempted_subset: "broker_inv b \<Longrightarrow> preempted_ids b \<subseteq> inflight_ids b"
  by (auto simp: broker_inv_def preempted_inv_def preempted_ids_def)

lemma broker_init_inv: "broker_init g u p t c = Inr b \<Longrightarrow> broker_inv b"
  by (auto simp: broker_init_def broker_limit_def rbind_eq_Inr broker_inv_def broker_inv_defs
      int_value_Inr of_uav_def inflight_requests_def inflight_ids_def split: if_splits)

lemma id_in_use_iff: "id_in_use rid b \<longleftrightarrow> rid \<in> used_ids b"
  by (auto simp: id_in_use_def used_ids_def log_ids_def list_ex_iff inflight_ids_def)

lemma same_uav_inflight_eq: "same_uav_inflight u b = of_uav u (inflight_requests b)"
  by (simp add: same_uav_inflight_def of_uav_def inflight_requests_def)

lemma of_uav_remove1: "length (of_uav u (remove1 r rs)) \<le> length (of_uav u rs)"
  by (induction rs) (auto simp: of_uav_def)

lemma distinct_remove1_ids:
  "distinct (map f rs) \<Longrightarrow> set (remove1 r rs) = set rs - {r} \<and> distinct (map f (remove1 r rs))"
  by (induction rs) auto

lemma capacity_mono:
  assumes "capacity_inv b"
    and "mb_max_inflight_global b' = mb_max_inflight_global b"
      "mb_max_inflight_per_uav b' = mb_max_inflight_per_uav b"
      "mb_max_pending_per_uav b' = mb_max_pending_per_uav b"
    and fl: "length (mb_inflight b') \<le> length (mb_inflight b)"
    and u: "\<And>u. length (of_uav u (inflight_requests b')) \<le> length (of_uav u (inflight_requests b))"
    and c: "\<And>u. length (filter mr_control (of_uav u (inflight_requests b')))
      \<le> length (filter mr_control (of_uav u (inflight_requests b)))"
    and p: "\<And>u. length (of_uav u (mb_pending b')) \<le> length (of_uav u (mb_pending b))"
  shows "capacity_inv b'"
proof -
  have le: "int m \<le> int n" if "m \<le> n" for m n using that by simp
  from assms(1) have a: "int (length (mb_inflight b)) \<le> mb_max_inflight_global b'"
    "\<And>u. int (length (of_uav (Some u) (inflight_requests b))) \<le> mb_max_inflight_per_uav b'"
    "\<And>u. length (filter mr_control (of_uav (Some u) (inflight_requests b))) \<le> 1"
    "\<And>u. int (length (of_uav u (mb_pending b))) \<le> mb_max_pending_per_uav b'"
    unfolding capacity_inv_def assms(2-4) by blast+
  show ?thesis
    unfolding capacity_inv_def
    using order.trans [OF le [OF fl] a(1)] order.trans [OF le [OF u] a(2)]
      order.trans [OF c a(3)] order.trans [OF le [OF p] a(4)] by blast
qed

section \<open>The five state changes\<close>

text \<open>A pending request is dropped, with a stale record.\<close>

definition retire :: "model_request \<Rightarrow> model_call_log \<Rightarrow> model_broker \<Rightarrow> model_broker" where
  "retire r c b = b\<lparr>mb_pending := remove1 r (mb_pending b), mb_logs := mb_logs b @ [c]\<rparr>"

lemma retire_inv:
  assumes inv: "broker_inv b" and r: "r \<in> set (mb_pending b)" and c: "cl_id c = mr_id r"
  shows "broker_inv (retire r c b)" and "used_ids (retire r c b) = used_ids b"
proof -
  have d: "distinct (map mr_id (mb_pending b))" using inv by (simp add: broker_inv_def pending_inv_def)
  note rem = distinct_remove1_ids [OF d, of r]
  have other: "mr_id x \<noteq> mr_id r" if "x \<in> set (mb_pending b)" "x \<noteq> r" for x
    using distinct_key_eq [OF d that(1) r] that(2) by blast
  have "pending_inv (retire r c b)"
    using inv rem other c
    by (auto simp: broker_inv_def pending_inv_def retire_def log_ids_def)
  moreover have "inflight_inv (retire r c b)"
    using inv r c by (auto simp: broker_inv_def pending_inv_def inflight_inv_def retire_def log_ids_def)
  moreover have "preempted_inv (retire r c b)"
    using inv r c by (auto simp: broker_inv_def pending_inv_def preempted_inv_def retire_def log_ids_def)
  moreover have "capacity_inv (retire r c b)"
    by (rule capacity_mono [of b])
      (use inv in \<open>simp_all add: broker_inv_def retire_def inflight_requests_def of_uav_remove1\<close>)
  ultimately show "broker_inv (retire r c b)"
    using inv by (simp add: broker_inv_def limits_positive_def retire_def)
  show "used_ids (retire r c b) = used_ids b"
    using r rem c by (auto simp: used_ids_def retire_def log_ids_def)
qed

text \<open>The result of a running request is revoked; the slot stays taken.\<close>

definition revoke :: "string \<Rightarrow> model_call_log \<Rightarrow> model_broker \<Rightarrow> model_broker" where
  "revoke k c b = b\<lparr>mb_preempted := dset (mb_preempted b) k c, mb_logs := mb_logs b @ [c]\<rparr>"

lemma revoke_inv:
  assumes inv: "broker_inv b" and k: "k \<in> unpreempted b" and c: "cl_id c = k" "cl_state c = BRS_STALE"
  shows "broker_inv (revoke k c b)" and "used_ids (revoke k c b) = used_ids b"
proof -
  have k': "k \<in> inflight_ids b" "k \<notin> preempted_ids b"
    using k by (auto simp: unpreempted_eq)
  then have fresh: "k \<notin> log_ids b" using inv unfolding broker_inv_def inflight_inv_def by blast
  have "\<forall>x\<in>set (mb_pending b). mr_id x \<noteq> k"
    using inv k'(1) by (auto simp: broker_inv_def pending_inv_def)
  then have "pending_inv (revoke k c b)"
    using inv c by (auto simp: broker_inv_def pending_inv_def revoke_def log_ids_def)
  moreover have "inflight_inv (revoke k c b)"
    using inv k' c by (auto simp: broker_inv_def inflight_inv_def revoke_def log_ids_def dset_keys)
  moreover have "preempted_inv (revoke k c b)"
    using inv k' c fresh
    by (auto simp: broker_inv_def preempted_inv_def revoke_def log_ids_def set_dset)
  moreover have "capacity_inv (revoke k c b)"
    using inv by (simp add: broker_inv_def capacity_inv_def revoke_def inflight_requests_def)
  ultimately show "broker_inv (revoke k c b)"
    using inv by (simp add: broker_inv_def limits_positive_def revoke_def)
  show "used_ids (revoke k c b) = used_ids b"
    using k' c by (auto simp: used_ids_def revoke_def log_ids_def)
qed

text \<open>A new request is queued.\<close>

lemma enqueue_inv:
  assumes inv: "broker_inv b" and r: "request_ok r" "mr_id r \<notin> used_ids b"
    and room: "int (length (of_uav (mr_uav r) (mb_pending b))) < mb_max_pending_per_uav b"
  shows "broker_inv (b\<lparr>mb_pending := mb_pending b @ [r]\<rparr>)"
proof -
  have "pending_inv (b\<lparr>mb_pending := mb_pending b @ [r]\<rparr>)"
    using inv r by (auto simp: broker_inv_def pending_inv_def used_ids_def log_ids_def)
  moreover have "capacity_inv (b\<lparr>mb_pending := mb_pending b @ [r]\<rparr>)"
    using inv room by (auto simp: broker_inv_def capacity_inv_def of_uav_def inflight_requests_def)
  ultimately show ?thesis
    using inv by (simp add: broker_inv_def limits_positive_def inflight_inv_def preempted_inv_def
        log_ids_def)
qed

text \<open>A pending request takes a slot.\<close>

definition start_call :: "model_request \<Rightarrow> rat \<Rightarrow> model_broker \<Rightarrow> model_broker" where
  "start_call r now b = b\<lparr>mb_pending := remove1 r (mb_pending b),
     mb_inflight := dset (mb_inflight b) (mr_id r) (r, now)\<rparr>"

lemma start_call_ids [simp]:
  "inflight_ids (start_call r now b) = insert (mr_id r) (inflight_ids b)"
  "preempted_ids (start_call r now b) = preempted_ids b" "log_ids (start_call r now b) = log_ids b"
  by (simp_all add: start_call_def inflight_ids_def preempted_ids_def log_ids_def dset_keys insert_absorb)

lemma start_call_inv:
  assumes inv: "broker_inv b" and r: "r \<in> set (mb_pending b)" "eligible b r"
    and room: "int (length (mb_inflight b)) < mb_max_inflight_global b"
  shows "broker_inv (start_call r now b)" and "used_ids (start_call r now b) = used_ids b"
    and "inflight_requests (start_call r now b) = inflight_requests b @ [r]"
proof -
  have d: "distinct (map mr_id (mb_pending b))" using inv by (simp add: broker_inv_def pending_inv_def)
  note rem = distinct_remove1_ids [OF d, of r]
  have other: "mr_id x \<noteq> mr_id r" if "x \<in> set (mb_pending b)" "x \<noteq> r" for x
    using distinct_key_eq [OF d that(1) r(1)] that(2) by blast
  have new: "mr_id r \<notin> inflight_ids b" "mr_id r \<notin> log_ids b" "request_ok r"
    using inv r by (simp_all add: broker_inv_def pending_inv_def)
  have app: "dset (mb_inflight b) (mr_id r) (r, now) = mb_inflight b @ [(mr_id r, r, now)]"
    using new(1) unfolding inflight_ids_def by (rule dset_new)
  show fl: "inflight_requests (start_call r now b) = inflight_requests b @ [r]"
    by (simp add: inflight_requests_def start_call_def app)
  have pi: "pending_inv (start_call r now b)"
    using inv rem other unfolding broker_inv_def pending_inv_def start_call_ids
    by (auto simp: start_call_def)
  have pk: "mr_id r \<notin> preempted_ids b"
    using preempted_subset [OF inv] new(1) by blast
  have "mb_inflight (start_call r now b) = mb_inflight b @ [(mr_id r, r, now)]"
    by (simp add: start_call_def app)
  moreover have "dict_ok (mb_inflight b @ [(mr_id r, r, now)])"
    using inv new(1) by (simp add: broker_inv_def inflight_inv_def inflight_ids_def)
  ultimately have "inflight_inv (start_call r now b)"
    using inv new pk unfolding broker_inv_def inflight_inv_def start_call_ids by auto
  moreover have "preempted_inv (start_call r now b)"
    using inv unfolding broker_inv_def preempted_inv_def start_call_ids
    by (auto simp: start_call_def)
  moreover have "capacity_inv (start_call r now b)"
    unfolding capacity_inv_def fl
  proof (intro conjI allI)
    show "int (length (mb_inflight (start_call r now b))) \<le> mb_max_inflight_global (start_call r now b)"
      using room by (simp add: start_call_def app)
  next
    fix u
    show "int (length (of_uav (Some u) (inflight_requests b @ [r])))
        \<le> mb_max_inflight_per_uav (start_call r now b)"
      and "length (filter mr_control (of_uav (Some u) (inflight_requests b @ [r]))) \<le> 1"
      using inv r(2) by (auto simp: broker_inv_def capacity_inv_def eligible_def Let_def
          same_uav_inflight_eq of_uav_def start_call_def list_ex_iff filter_empty_conv
          split: if_splits)
  next
    fix u
    have "int (length (of_uav u (mb_pending b))) \<le> mb_max_pending_per_uav b"
      using inv by (simp add: broker_inv_def capacity_inv_def)
    then show "int (length (of_uav u (mb_pending (start_call r now b))))
        \<le> mb_max_pending_per_uav (start_call r now b)"
      using of_uav_remove1 [of u r "mb_pending b"] by (simp add: start_call_def)
  qed
  ultimately show "broker_inv (start_call r now b)"
    using inv pi by (simp add: broker_inv_def limits_positive_def start_call_def)
  show "used_ids (start_call r now b) = used_ids b"
    using r(1) rem unfolding used_ids_def start_call_ids by (auto simp: start_call_def)
qed

text \<open>A slot is given back.\<close>

definition free_slot :: "string \<Rightarrow> model_broker \<Rightarrow> model_broker" where
  "free_slot k b = b\<lparr>mb_inflight := ddel (mb_inflight b) k, mb_preempted := ddel (mb_preempted b) k\<rparr>"

lemma free_slot_ids [simp]:
  "inflight_ids (free_slot k b) = inflight_ids b - {k}"
  "preempted_ids (free_slot k b) = preempted_ids b - {k}" "log_ids (free_slot k b) = log_ids b"
  by (auto simp: free_slot_def inflight_ids_def preempted_ids_def log_ids_def ddel_filter)

lemma free_slot_inv:
  assumes inv: "broker_inv b"
  shows "broker_inv (free_slot k b)"
proof -
  have le: "length (of_uav u (inflight_requests (free_slot k b))) \<le> length (of_uav u (inflight_requests b))"
    and le': "length (filter mr_control (of_uav u (inflight_requests (free_slot k b))))
      \<le> length (filter mr_control (of_uav u (inflight_requests b)))" for u
    using length_filter_map_filter [of "\<lambda>r. mr_uav r = u" "fst \<circ> snd" "\<lambda>e. fst e \<noteq> k" "mb_inflight b"]
      length_filter_map_filter [of "\<lambda>r. mr_uav r = u \<and> mr_control r" "fst \<circ> snd" "\<lambda>e. fst e \<noteq> k"
        "mb_inflight b"]
    by (simp_all add: inflight_requests_def free_slot_def of_uav_def ddel_filter conj_commute)
  have "pending_inv (free_slot k b)"
    using inv unfolding broker_inv_def pending_inv_def free_slot_ids by (auto simp: free_slot_def)
  moreover have "inflight_inv (free_slot k b)"
    using inv unfolding broker_inv_def inflight_inv_def free_slot_ids
    by (auto simp: free_slot_def set_ddel)
  moreover have "preempted_inv (free_slot k b)"
    using inv unfolding broker_inv_def preempted_inv_def free_slot_ids
    by (auto simp: free_slot_def set_ddel)
  moreover have "capacity_inv (free_slot k b)"
    by (rule capacity_mono [of b])
      (use inv le le' in \<open>simp_all add: broker_inv_def free_slot_def ddel_filter\<close>)
  ultimately show ?thesis
    using inv by (simp add: broker_inv_def limits_positive_def free_slot_def)
qed

text \<open>A finished call enters the log, after its slot was given back.\<close>

lemma finish_inv:
  assumes inv: "broker_inv b" and c: "cl_id c \<notin> used_ids b"
  shows "broker_inv (b\<lparr>mb_logs := mb_logs b @ [c]\<rparr>)"
proof -
  have c': "\<forall>r\<in>set (mb_pending b). mr_id r \<noteq> cl_id c" "cl_id c \<notin> inflight_ids b"
    "cl_id c \<notin> log_ids b"
    using c by (auto simp: used_ids_def rev_image_eqI)
  then have "pending_inv (b\<lparr>mb_logs := mb_logs b @ [c]\<rparr>)"
    using inv by (auto simp: broker_inv_def pending_inv_def log_ids_def)
  moreover have "inflight_inv (b\<lparr>mb_logs := mb_logs b @ [c]\<rparr>)"
    using inv c' by (auto simp: broker_inv_def inflight_inv_def log_ids_def)
  moreover have "preempted_inv (b\<lparr>mb_logs := mb_logs b @ [c]\<rparr>)"
    using inv c' by (auto simp: broker_inv_def preempted_inv_def log_ids_def)
  ultimately show ?thesis
    using inv by (simp add: broker_inv_def limits_positive_def capacity_inv_def inflight_requests_def)
qed

section \<open>What the operations do\<close>

text \<open>
  The effect of making room for a request: queued requests are dropped only if they are
  replaceable, of the same UAV and not more urgent, each with a stale record; results are revoked
  only of running, replaceable, strictly less urgent requests, each with a stale record; the slots
  stay as they are and no identifier becomes free.
\<close>

definition same_limits :: "model_broker \<Rightarrow> model_broker \<Rightarrow> bool" where
  "same_limits b b' \<longleftrightarrow> mb_max_inflight_global b' = mb_max_inflight_global b
     \<and> mb_max_inflight_per_uav b' = mb_max_inflight_per_uav b
     \<and> mb_max_pending_per_uav b' = mb_max_pending_per_uav b
     \<and> mb_starvation_timeout b' = mb_starvation_timeout b"

definition droppable :: "model_request \<Rightarrow> model_request \<Rightarrow> bool" where
  "droppable request x \<longleftrightarrow> mr_replaceable x \<and> mr_uav x = mr_uav request
     \<and> mr_priority request \<le> mr_priority x"

definition revocable :: "model_request \<Rightarrow> model_request \<Rightarrow> bool" where
  "revocable request x \<longleftrightarrow> mr_replaceable x \<and> mr_priority request < mr_priority x"

definition displaces :: "model_request \<Rightarrow> model_broker \<Rightarrow> model_broker \<Rightarrow> bool" where
  "displaces request b b' \<longleftrightarrow> same_limits b b' \<and> mb_inflight b' = mb_inflight b
     \<and> used_ids b' = used_ids b \<and> set (mb_pending b') \<subseteq> set (mb_pending b)
     \<and> (\<forall>x\<in>set (mb_pending b) - set (mb_pending b'). droppable request x
          \<and> (\<exists>c\<in>set (mb_logs b'). cl_id c = mr_id x \<and> cl_state c = BRS_STALE))
     \<and> preempted_ids b \<subseteq> preempted_ids b'
     \<and> (\<forall>k\<in>preempted_ids b' - preempted_ids b.
          \<exists>x t. (k, x, t) \<in> set (mb_inflight b) \<and> revocable request x)
     \<and> (\<exists>new. mb_logs b' = mb_logs b @ new \<and> (\<forall>c\<in>set new. cl_state c = BRS_STALE))"

lemma displaces_refl [simp]: "displaces request b b"
  by (auto simp: displaces_def same_limits_def)

lemma displaces_trans:
  assumes "displaces request a b" and "displaces request b c"
  shows "displaces request a c"
proof -
  obtain n1 where n1: "mb_logs b = mb_logs a @ n1" "\<forall>c\<in>set n1. cl_state c = BRS_STALE"
    using assms(1) unfolding displaces_def by blast
  obtain n2 where n2: "mb_logs c = mb_logs b @ n2" "\<forall>c\<in>set n2. cl_state c = BRS_STALE"
    using assms(2) unfolding displaces_def by blast
  have "\<exists>new. mb_logs c = mb_logs a @ new \<and> (\<forall>c\<in>set new. cl_state c = BRS_STALE)"
    using n1 n2 by (intro exI [of _ "n1 @ n2"]) auto
  moreover have "droppable request x \<and> (\<exists>l\<in>set (mb_logs c). cl_id l = mr_id x \<and> cl_state l = BRS_STALE)"
    if "x \<in> set (mb_pending a) - set (mb_pending c)" for x
    using that assms n2(1) unfolding displaces_def by (cases "x \<in> set (mb_pending b)") auto
  moreover have "\<exists>x t. (k, x, t) \<in> set (mb_inflight a) \<and> revocable request x"
    if "k \<in> preempted_ids c - preempted_ids a" for k
    using that assms unfolding displaces_def by (cases "k \<in> preempted_ids b") auto
  moreover have "same_limits a c" "mb_inflight c = mb_inflight a" "used_ids c = used_ids a"
    "set (mb_pending c) \<subseteq> set (mb_pending a)" "preempted_ids a \<subseteq> preempted_ids c"
    using assms by (auto simp: displaces_def same_limits_def)
  ultimately show ?thesis unfolding displaces_def by blast
qed

lemma retire_displaces:
  assumes inv: "broker_inv b" and r: "r \<in> set (mb_pending b)" "droppable request r"
  shows "displaces request b (retire r (stale_record r reason lat) b)"
proof -
  have d: "distinct (map mr_id (mb_pending b))" using inv by (simp add: broker_inv_def pending_inv_def)
  have "used_ids (retire r (stale_record r reason lat) b) = used_ids b"
    using retire_inv(2) [OF inv r(1)] by simp
  then show ?thesis
    using r distinct_remove1_ids [OF d, of r]
    by (auto simp: displaces_def same_limits_def retire_def)
qed

lemma preempt_candidate:
  assumes "(k, r, t) \<in> set (preempt_candidates request b)"
  shows "k \<in> unpreempted b" and "(k, r, t) \<in> set (mb_inflight b)"
    and "mr_replaceable r" and "mr_priority request < mr_priority r"
  using assms preempt_candidates_unpreempted [OF assms]
  by (auto simp: preempt_candidates_def live_same_uav_def Let_def split: if_splits)

lemma revoke_displaces:
  assumes inv: "broker_inv b" and c: "(k, r, t) \<in> set (preempt_candidates request b)"
  shows "displaces request b (revoke k (stale_record r reason lat) b)"
proof -
  note cand = preempt_candidate [OF c]
  have k: "k = mr_id r"
    using inv cand(2) by (auto simp: broker_inv_def inflight_inv_def)
  have "used_ids (revoke k (stale_record r reason lat) b) = used_ids b"
    using revoke_inv(2) [OF inv cand(1)] k by simp
  then show ?thesis
    using cand k by (auto simp: displaces_def same_limits_def revoke_def revocable_def)
qed

lemma preempt_loop_ok:
  "broker_inv b \<Longrightarrow> fst (preempt_loop request now b) = Inr ()
     \<and> broker_inv (snd (preempt_loop request now b))
     \<and> displaces request b (snd (preempt_loop request now b))
     \<and> preempt_candidates request (snd (preempt_loop request now b)) = []
     \<and> mb_pending (snd (preempt_loop request now b)) = mb_pending b"
proof (induction request now b rule: preempt_loop.induct)
  case (1 request now b)
  show ?case
  proof (cases "preempt_candidates request b")
    case Nil
    then show ?thesis using 1 by (simp add: preempt_loop.simps [of request now b])
  next
    case (Cons c cs)
    obtain k r t where v: "max_by preempt_key c cs = (k, r, t)" by (metis prod_cases3)
    then have mem: "(k, r, t) \<in> set (preempt_candidates request b)"
      using max_by_in [of preempt_key c cs] by (simp add: Cons)
    note cand = preempt_candidate [OF mem]
    have r: "k = mr_id r" "request_ok r"
      using 1(2) cand(2) by (auto simp: broker_inv_def inflight_inv_def)
    let ?c = "stale_record r ''PREEMPTED_BY_HIGHER_PRIORITY'' (max 0 (now - t))"
    have st: "record_stale r ''PREEMPTED_BY_HIGHER_PRIORITY'' (max 0 (now - t)) b
        = (Inr ?c, b\<lparr>mb_logs := mb_logs b @ [?c]\<rparr>)"
      using r(2) by (intro record_stale_ok) auto
    have rv: "b\<lparr>mb_logs := mb_logs b @ [?c], mb_preempted := dset (mb_preempted b) k ?c\<rparr>
        = revoke k ?c b"
      by (simp add: revoke_def)
    have eq: "preempt_loop request now b = preempt_loop request now (revoke k ?c b)"
      by (subst preempt_loop.simps) (simp add: Cons v st rv Let_def)
    have inv: "broker_inv (revoke k ?c b)"
      using revoke_inv(1) [OF 1(2) cand(1)] r by simp
    have "broker_inv (revoke k ?c b) \<Longrightarrow> fst (preempt_loop request now (revoke k ?c b)) = Inr ()
        \<and> broker_inv (snd (preempt_loop request now (revoke k ?c b)))
        \<and> displaces request (revoke k ?c b) (snd (preempt_loop request now (revoke k ?c b)))
        \<and> preempt_candidates request (snd (preempt_loop request now (revoke k ?c b))) = []
        \<and> mb_pending (snd (preempt_loop request now (revoke k ?c b))) = mb_pending (revoke k ?c b)"
      using 1(1) [OF Cons refl, of "Inr ?c" "b\<lparr>mb_logs := mb_logs b @ [?c]\<rparr>" ?c]
      by (simp add: v st rv)
    moreover have "mb_pending (revoke k ?c b) = mb_pending b" by (simp add: revoke_def)
    moreover have "displaces request b (revoke k ?c b)" by (rule revoke_displaces [OF 1(2) mem])
    ultimately show ?thesis
      unfolding eq using inv displaces_trans [of request b "revoke k ?c b"] by simp
  qed
qed

lemma preempt_urgent_ok:
  assumes inv: "broker_inv b"
    and p: "preempt_replaceable_inflight_for_urgent clk request b = (x, b')"
  shows "broker_inv b' \<and> displaces request b b' \<and> mb_pending b' = mb_pending b
    \<and> (\<forall>e. x = Inl e \<longrightarrow> finite_nonnegative clk ''clock result'' = Inl e \<and> b' = b)"
proof -
  show ?thesis
  proof (cases "P1_FLEET_REPLAN < mr_priority request")
    case True
    then show ?thesis using p inv by (auto simp: preempt_replaceable_inflight_for_urgent_def)
  next
    case False
    show ?thesis
    proof (cases "finite_nonnegative clk ''clock result''")
      case (Inl e)
      then show ?thesis using p inv False by (auto simp: preempt_replaceable_inflight_for_urgent_def)
    next
      case (Inr now)
      then have "preempt_loop request now b = (x, b')"
        using p False by (simp add: preempt_replaceable_inflight_for_urgent_def)
      then show ?thesis using preempt_loop_ok [OF inv, of request now] by simp
    qed
  qed
qed

lemma submit_replace_ok:
  assumes inv: "broker_inv b"
  shows "fst (submit_replace request b) = Inr () \<and> broker_inv (snd (submit_replace request b))
    \<and> displaces request b (snd (submit_replace request b))"
proof (cases "mr_replaceable request \<and> List.find (supersedes request) (mb_pending b) \<noteq> None")
  case True
  then obtain r where f: "List.find (supersedes request) (mb_pending b) = Some r" by blast
  then have r: "r \<in> set (mb_pending b)" "supersedes request r" using find_in by fastforce+
  then have "request_ok r" using inv by (simp add: broker_inv_def pending_inv_def)
  then have "submit_replace request b
      = (Inr (), retire r (stale_record r ''SUPERSEDED_BY_NEWER_FRAME'' 0) b)"
    using True f by (simp add: submit_replace_def record_stale_ok retire_def)
  with retire_inv(1) [OF inv r(1)] retire_displaces [OF inv r(1)] r(2) show ?thesis
    by (simp add: supersedes_def droppable_def)
qed (auto simp: submit_replace_def inv)

lemma length_of_uav_remove1:
  "r \<in> set rs \<Longrightarrow> mr_uav r = u \<Longrightarrow> Suc (length (of_uav u (remove1 r rs))) = length (of_uav u rs)"
  by (induction rs) (auto simp: of_uav_def)

lemma submit_evict_ok:
  assumes inv: "broker_inv b"
  shows "broker_inv (snd (submit_evict request b)) \<and> displaces request b (snd (submit_evict request b))
    \<and> (isl (fst (submit_evict request b)) \<longrightarrow> snd (submit_evict request b) = b)
    \<and> (\<not> isl (fst (submit_evict request b)) \<longrightarrow>
         int (length (of_uav (mr_uav request) (mb_pending (snd (submit_evict request b)))))
           < mb_max_pending_per_uav (snd (submit_evict request b)))"
proof -
  let ?s = "of_uav (mr_uav request) (mb_pending b)"
  let ?c = "filter (\<lambda>item. mr_replaceable item \<and> mr_priority request < mr_priority item) ?s"
  have eq: "submit_evict request b = (if int (length ?s) < mb_max_pending_per_uav b then (Inr (), b)
      else case ?c of
        [] \<Rightarrow> (Inl (ModelRequestBrokerError ''per-UAV pending queue is full''), b)
      | c # cs \<Rightarrow> andthen (record_stale (max_by eviction_key c cs) ''EVICTED_BY_HIGHER_PRIORITY'' 0
            (b\<lparr>mb_pending := remove1 (max_by eviction_key c cs) (mb_pending b)\<rparr>))
          (\<lambda>_ b. (Inr (), b)))"
    by (simp only: submit_evict_def of_uav_def Let_def)
  show ?thesis
  proof (cases "int (length ?s) < mb_max_pending_per_uav b \<or> ?c = []")
    case True
    then show ?thesis
      using inv unfolding eq by (cases "int (length ?s) < mb_max_pending_per_uav b") simp_all
  next
    case False
    then obtain c cs where cs: "?c = c # cs" by (cases ?c) auto
    let ?r = "max_by eviction_key c cs"
    have "?r \<in> set ?c" using max_by_in [of eviction_key c cs] by (simp add: cs)
    then have r: "?r \<in> set (mb_pending b)" "droppable request ?r" "mr_uav ?r = mr_uav request"
      by (auto simp: of_uav_def droppable_def)
    then have "request_ok ?r" using inv by (simp add: broker_inv_def pending_inv_def)
    then have ev: "submit_evict request b
        = (Inr (), retire ?r (stale_record ?r ''EVICTED_BY_HIGHER_PRIORITY'' 0) b)"
      using False unfolding eq cs by (simp add: record_stale_ok retire_def)
    have "int (length ?s) \<le> mb_max_pending_per_uav b"
      using inv by (simp add: broker_inv_def capacity_inv_def)
    then show ?thesis
      using ev retire_inv(1) [OF inv r(1)] retire_displaces [OF inv r(1,2)]
        length_of_uav_remove1 [OF r(1,3)] by (simp add: retire_def)
  qed
qed

lemma displaces_used: "displaces request b b' \<Longrightarrow> used_ids b' = used_ids b"
  by (simp add: displaces_def)

text \<open>\<open>submit\<close>: room is made, then the request is queued last, or it raises and is not queued.\<close>

lemma broker_submit_ok:
  assumes inv: "broker_inv b" and r: "request_ok request"
    and s: "broker_submit clk request b = (x, b')"
  shows "broker_inv b' \<and> (\<exists>b1. displaces request b b1 \<and>
    (case x of Inl e \<Rightarrow> b' = b1
     | Inr i \<Rightarrow> i = mr_id request \<and> mr_id request \<notin> used_ids b
         \<and> b' = b1\<lparr>mb_pending := mb_pending b1 @ [request]\<rparr>))"
proof (cases "mr_id request \<in> used_ids b")
  case True
  then show ?thesis using s inv by (auto simp: broker_submit_def id_in_use_iff)
next
  case False
  obtain b1 where b1: "submit_replace request b = (Inr (), b1)" "broker_inv b1" "displaces request b b1"
    using submit_replace_ok [OF inv, of request] by (metis prod.collapse)
  obtain y b2 where b2: "submit_evict request b1 = (y, b2)" by fastforce
  then have e: "broker_inv b2" "displaces request b b2"
    and room: "\<not> isl y \<Longrightarrow> int (length (of_uav (mr_uav request) (mb_pending b2))) < mb_max_pending_per_uav b2"
    using submit_evict_ok [OF b1(2), of request] displaces_trans [OF b1(3)] by auto
  obtain z b3 where b3: "preempt_replaceable_inflight_for_urgent clk request b2 = (z, b3)" by fastforce
  note p = preempt_urgent_ok [OF e(1) b3]
  then have d3: "displaces request b b3" using displaces_trans [OF e(2)] by blast
  then have "mr_id request \<notin> used_ids b3" using False by (simp add: displaces_used)
  moreover have "mb_max_pending_per_uav b3 = mb_max_pending_per_uav b2" "mb_pending b3 = mb_pending b2"
    using p by (simp_all add: displaces_def same_limits_def)
  ultimately have "broker_inv (b3\<lparr>mb_pending := mb_pending b3 @ [request]\<rparr>)" if "\<not> isl y"
    using p room [OF that] by (intro enqueue_inv r) simp_all
  then show ?thesis
    using s b1(1) b2 b3 e d3 p False
    by (cases y; cases z) (auto simp: broker_submit_def id_in_use_iff)
qed

text \<open>\<open>acquire_next\<close>: nothing, or the least eligible request takes a slot.\<close>

lemma acquire_next_cases:
  assumes "acquire_next clk ids b = (x, b')"
  shows "(\<exists>e. x = Inl e \<and> b' = b) \<or> (x = Inr None \<and> b' = b) \<or>
    (\<exists>r now. x = Inr (Some r) \<and> finite_nonnegative clk ''clock result'' = Inr now
       \<and> r \<in> set (mb_pending b) \<and> eligible b r
       \<and> (\<forall>y\<in>set (mb_pending b). eligible b y \<longrightarrow> acquire_key b now r \<le> acquire_key b now y)
       \<and> int (length (mb_inflight b)) < mb_max_inflight_global b
       \<and> (\<forall>l. ids = Some l \<longrightarrow> mr_id r \<in> set l) \<and> b' = start_call r now b)"
proof (cases "mb_max_inflight_global b \<le> int (length (mb_inflight b))
    \<or> isl (finite_nonnegative clk ''clock result'') \<or> filter (eligible b) (mb_pending b) = []")
  case True
  then show ?thesis
    using assms by (cases "finite_nonnegative clk ''clock result''")
      (auto simp: acquire_next_def split: if_splits)
next
  case False
  then obtain now where now: "finite_nonnegative clk ''clock result'' = Inr now"
    by (cases "finite_nonnegative clk ''clock result''") auto
  from False obtain c cs where cs: "filter (eligible b) (mb_pending b) = c # cs"
    by (cases "filter (eligible b) (mb_pending b)") auto
  let ?r = "min_by (acquire_key b now) c cs"
  have els: "insert c (set cs) = {x \<in> set (mb_pending b). eligible b x}"
    by (metis cs list.simps(15) set_filter)
  have mem: "?r \<in> set (mb_pending b)" "eligible b ?r"
    using min_by_in [of "acquire_key b now" c cs] unfolding els by auto
  have least: "\<forall>y\<in>set (mb_pending b). eligible b y \<longrightarrow> acquire_key b now ?r \<le> acquire_key b now y"
    using min_by_le [of _ c cs "acquire_key b now"] unfolding els by auto
  show ?thesis
    using assms False now cs mem least
    by (auto simp: acquire_next_def start_call_def Let_def split: if_splits option.splits)
qed

lemma acquire_next_inv: "broker_inv b \<Longrightarrow> broker_inv (snd (acquire_next clk ids b))
   \<and> used_ids (snd (acquire_next clk ids b)) = used_ids b"
  using acquire_next_cases [of clk ids b "fst (acquire_next clk ids b)" "snd (acquire_next clk ids b)"]
    start_call_inv(1,2) [of b] by auto

lemma inflight_entry:
  assumes "broker_inv b" and "dget (mb_inflight b) k = Some (r, t)"
  shows "k = mr_id r" and "request_ok r" and "k \<in> inflight_ids b"
proof -
  have "(k, r, t) \<in> set (mb_inflight b)" using assms(2) by (rule map_of_SomeD)
  with assms(1) show "k = mr_id r" "request_ok r" "k \<in> inflight_ids b"
    by (auto simp: broker_inv_def inflight_inv_def inflight_ids_def dest: key_mem)
qed

lemma preempted_None: "dget (mb_preempted b) k = None \<longleftrightarrow> k \<notin> preempted_ids b"
  unfolding preempted_ids_def by (rule dget_None)

lemma preempted_obtains: "k \<in> preempted_ids b \<Longrightarrow> \<exists>l. dget (mb_preempted b) k = Some l"
  using preempted_None [of b k] by (cases "dget (mb_preempted b) k") simp_all

lemma preempted_Some:
  assumes "broker_inv b" and "dget (mb_preempted b) k = Some c"
  shows "k \<in> preempted_ids b" and "cl_id c = k" and "c \<in> set (mb_logs b)" and "cl_state c = BRS_STALE"
proof -
  have "(k, c) \<in> set (mb_preempted b)" using assms(2) by (rule map_of_SomeD)
  with assms(1) show "k \<in> preempted_ids b" "cl_id c = k" "c \<in> set (mb_logs b)" "cl_state c = BRS_STALE"
    by (auto simp: broker_inv_def preempted_inv_def preempted_ids_def dest: key_mem)
qed

lemma broker_complete_live:
  assumes inv: "broker_inv b" and k: "dget (mb_inflight b) k = Some (r, t)" "k \<notin> preempted_ids b"
  shows "broker_complete clk (PStr k) ad st md fb pr co fi er b =
    checked (free_slot k b) (finite_nonnegative clk ''clock result'') (\<lambda>now.
    checked (free_slot k b) (ModelCallLogRecord r
        (if py_truthy ad then ad else opt_pyval PStr (mr_adapter r)) st md fb
        (PFloat (Fin (max 0 (now - t)))) (if py_truthy er then BRS_FAILED else BRS_COMPLETED) None
        pr co fi er) (\<lambda>record. (Inr record, (free_slot k b)\<lparr>mb_logs := mb_logs b @ [record]\<rparr>)))"
proof -
  have np: "dget (mb_preempted b) k = None" using k(2) by (simp add: preempted_None)
  have "ddel (mb_preempted b) k = mb_preempted b"
    using k(2) unfolding preempted_ids_def by (rule ddel_absent)
  then have fs: "b\<lparr>mb_inflight := ddel (mb_inflight b) k\<rparr> = free_slot k b"
    by (simp add: free_slot_def)
  have lg: "mb_logs (free_slot k b) = mb_logs b" "mb_preempted (free_slot k b) = mb_preempted b"
    using fs by (simp_all add: fs [symmetric])
  have "routing_id_match k" using inflight_entry [OF inv k(1)] by (simp add: request_ok_def)
  then show ?thesis by (simp add: broker_complete_def k np fs lg Let_def del: if_split)
qed

text \<open>\<open>complete\<close> of a request that holds a slot gives the slot back, whatever happens next.\<close>

lemma broker_complete_cases:
  assumes inv: "broker_inv b"
    and c: "broker_complete clk rv ad st md fb pr co fi er b = (x, b')"
  shows "(isl x \<and> b' = b) \<or> (\<exists>k r t. rv = PStr k \<and> dget (mb_inflight b) k = Some (r, t) \<and>
    ((\<exists>l. dget (mb_preempted b) k = Some l \<and> x = Inr l \<and> b' = free_slot k b)
     \<or> (k \<notin> preempted_ids b \<and> isl x \<and> b' = free_slot k b)
     \<or> (\<exists>l. k \<notin> preempted_ids b \<and> x = Inr l \<and> cl_id l = k
          \<and> cl_state l = (if py_truthy er then BRS_FAILED else BRS_COMPLETED)
          \<and> b' = (free_slot k b)\<lparr>mb_logs := mb_logs b @ [l]\<rparr>)))"
proof (cases "\<exists>k r t. rv = PStr k \<and> routing_id_match k \<and> dget (mb_inflight b) k = Some (r, t)")
  case False
  then show ?thesis
    using c by (auto simp: broker_complete_def split: checked_split_asm option.splits)
next
  case True
  then obtain k r t where k: "rv = PStr k" "routing_id_match k" "dget (mb_inflight b) k = Some (r, t)"
    by blast
  have kr: "k = mr_id r" by (rule inflight_entry(1) [OF inv k(3)])
  show ?thesis
  proof (cases "dget (mb_preempted b) k")
    case (Some l)
    then show ?thesis using c k by (auto simp: broker_complete_def free_slot_def)
  next
    case None
    then have np: "k \<notin> preempted_ids b" by (simp add: preempted_None)
    note eq = broker_complete_live [OF inv k(3) np]
    consider e where "x = Inl e" "b' = free_slot k b" | l where "x = Inr l" "cl_id l = k"
        "cl_state l = (if py_truthy er then BRS_FAILED else BRS_COMPLETED)"
        "b' = (free_slot k b)\<lparr>mb_logs := mb_logs b @ [l]\<rparr>"
    proof (cases x)
      case (Inl e)
      then show ?thesis using that(1) c unfolding k(1) eq checked_def by (auto split: sum.splits)
    next
      case (Inr l)
      then obtain now where "ModelCallLogRecord r (if py_truthy ad then ad else opt_pyval PStr (mr_adapter r))
            st md fb (PFloat (Fin (max 0 (now - t))))
            (if py_truthy er then BRS_FAILED else BRS_COMPLETED) None pr co fi er = Inr l"
          "b' = (free_slot k b)\<lparr>mb_logs := mb_logs b @ [l]\<rparr>"
        using c unfolding k(1) eq by (auto simp: checked_eq_Inr)
      then show ?thesis using that(2) [OF Inr] ModelCallLogRecord_Inr kr by metis
    qed
    then show ?thesis using k np by cases auto
  qed
qed

lemma free_slot_used:
  "broker_inv b \<Longrightarrow> k \<in> inflight_ids b \<Longrightarrow> k \<notin> preempted_ids b \<Longrightarrow>
     used_ids (free_slot k b) = used_ids b - {k}"
  by (auto simp: used_ids_def broker_inv_def pending_inv_def inflight_inv_def)
    (auto simp: free_slot_def)

lemma broker_complete_inv:
  assumes inv: "broker_inv b" and c: "broker_complete clk rv ad st md fb pr co fi er b = (x, b')"
  shows "broker_inv b'" and "\<not> isl x \<Longrightarrow> used_ids b' = used_ids b"
proof -
  have fin: "broker_inv ((free_slot k b)\<lparr>mb_logs := mb_logs b @ [l]\<rparr>)"
      "used_ids ((free_slot k b)\<lparr>mb_logs := mb_logs b @ [l]\<rparr>) = used_ids b"
    if "dget (mb_inflight b) k = Some (r, t)" "k \<notin> preempted_ids b" "cl_id l = k" for k r t l
  proof -
    have u: "used_ids (free_slot k b) = used_ids b - {k}" and k: "k \<in> inflight_ids b"
      using free_slot_used [OF inv] inflight_entry(3) [OF inv that(1)] that(2) by blast+
    have eq: "(free_slot k b)\<lparr>mb_logs := mb_logs b @ [l]\<rparr>
        = (free_slot k b)\<lparr>mb_logs := mb_logs (free_slot k b) @ [l]\<rparr>"
      by (simp add: free_slot_def)
    show "broker_inv ((free_slot k b)\<lparr>mb_logs := mb_logs b @ [l]\<rparr>)"
      unfolding eq using u that(3) by (intro finish_inv free_slot_inv [OF inv]) simp
    have "used_ids ((free_slot k b)\<lparr>mb_logs := mb_logs b @ [l]\<rparr>) = insert k (used_ids (free_slot k b))"
      unfolding eq using that(3) by (auto simp: used_ids_def log_ids_def)
    then show "used_ids ((free_slot k b)\<lparr>mb_logs := mb_logs b @ [l]\<rparr>) = used_ids b"
      using u k by (auto simp: used_ids_def)
  qed
  have pre: "used_ids (free_slot k b) = used_ids b"
    if "dget (mb_preempted b) k = Some l" for k l
    using preempted_Some [OF inv that] by (auto simp: used_ids_def log_ids_def free_slot_def inflight_ids_def ddel_filter)
  from broker_complete_cases [OF inv c] show "broker_inv b'" "\<not> isl x \<Longrightarrow> used_ids b' = used_ids b"
    using fin pre inv free_slot_inv [OF inv] by auto
qed

lemma broker_complete_raises:
  assumes inv: "broker_inv b" and c: "broker_complete clk rv ad st md fb pr co fi er b = (Inl e, b')"
  shows "used_ids b' = used_ids b - {k. rv = PStr k \<and> k \<in> inflight_ids b \<and> k \<notin> preempted_ids b}"
proof (cases "\<exists>k. rv = PStr k \<and> k \<in> inflight_ids b \<and> k \<notin> preempted_ids b")
  case True
  then obtain k where k': "rv = PStr k" "k \<in> inflight_ids b" "k \<notin> preempted_ids b" by blast
  then obtain v where "dget (mb_inflight b) k = Some v"
    using dget_key [of k "mb_inflight b"] by (auto simp: inflight_ids_def)
  with k' obtain r t where k: "rv = PStr k" "k \<in> inflight_ids b" "k \<notin> preempted_ids b"
    "dget (mb_inflight b) k = Some (r, t)"
    by (cases v) blast
  have "b' = free_slot k b"
    using c unfolding k(1) broker_complete_live [OF inv k(4,3)]
    by (auto split: checked_split_asm)
  moreover have "{k. rv = PStr k \<and> k \<in> inflight_ids b \<and> k \<notin> preempted_ids b} = {k}"
    using k by auto
  ultimately show ?thesis using free_slot_used [OF inv k(2,3)] by simp
next
  case False
  with broker_complete_cases [OF inv c] have "b' = b" by (auto dest: inflight_entry(3) [OF inv])
  with False show ?thesis by auto
qed

lemma cancel_inflight_cases:
  assumes inv: "broker_inv b" and c: "cancel_inflight clk rv reason b = (x, b')"
  shows "b' = b \<or> (\<exists>k r lat rs. k \<in> unpreempted b \<and> k = mr_id r
    \<and> x = Inr (stale_record r rs lat) \<and> b' = revoke k (stale_record r rs lat) b)"
proof -
  have "record_stale r rs (max 0 (now - t)) b
      = (Inr (stale_record r rs (max 0 (now - t))),
         b\<lparr>mb_logs := mb_logs b @ [stale_record r rs (max 0 (now - t))]\<rparr>)"
    if "dget (mb_inflight b) k = Some (r, t)" for k r t rs now
    using inflight_entry(2) [OF inv that] by (intro record_stale_ok) auto
  note st = this
  have rv: "b\<lparr>mb_logs := mb_logs b @ [l], mb_preempted := dset (mb_preempted b) k l\<rparr> = revoke k l b"
    for k l by (simp add: revoke_def)
  have "b' = b \<or> (\<exists>k r t lat rs. dget (mb_inflight b) k = Some (r, t) \<and> k \<notin> preempted_ids b
      \<and> x = Inr (stale_record r rs lat) \<and> b' = revoke k (stale_record r rs lat) b)"
    using c
    by (auto simp: cancel_inflight_def st rv preempted_None
        split: checked_split_asm option.splits prod.splits)
  then show ?thesis
    using inflight_entry [OF inv] unfolding unpreempted_eq by blast
qed

lemma cancel_pending_cases:
  assumes inv: "broker_inv b" and c: "cancel_pending rv reason b = (x, b')"
  shows "b' = b \<or> (\<exists>r rs. r \<in> set (mb_pending b) \<and> x = Inr ()
    \<and> b' = retire r (stale_record r rs 0) b)"
proof -
  have "record_stale r rs 0 (b\<lparr>mb_pending := remove1 r (mb_pending b)\<rparr>)
        = (Inr (stale_record r rs 0), retire r (stale_record r rs 0) b)" "r \<in> set (mb_pending b)"
    if "List.find (\<lambda>item. mr_id item = k) (mb_pending b) = Some r" for k r rs
  proof -
    show r: "r \<in> set (mb_pending b)" using find_in [OF that] by simp
    then show "record_stale r rs 0 (b\<lparr>mb_pending := remove1 r (mb_pending b)\<rparr>)
        = (Inr (stale_record r rs 0), retire r (stale_record r rs 0) b)"
      using inv by (subst record_stale_ok) (auto simp: broker_inv_def pending_inv_def retire_def)
  qed
  note st = this
  have "b' = b \<or> (\<exists>k r rs. List.find (\<lambda>item. mr_id item = k) (mb_pending b) = Some r \<and> x = Inr ()
      \<and> b' = retire r (stale_record r rs 0) b)"
    using c by (auto simp: cancel_pending_def st(1) split: checked_split_asm option.splits)
  then show ?thesis using st(2) by blast
qed

section \<open>Runs\<close>

inductive broker_step :: "model_broker \<Rightarrow> model_broker \<Rightarrow> bool" where
  step_submit: "ModelBrokerRequest role p u a ad pl rid sub ctl rep = Inr r \<Longrightarrow>
    broker_step b (snd (broker_submit clk r b))"
| step_acquire: "broker_step b (snd (acquire_next clk ids b))"
| step_complete: "broker_step b (snd (broker_complete clk rv ad st md fb pr co fi er b))"
| step_cancel_inflight: "broker_step b (snd (cancel_inflight clk rv reason b))"
| step_cancel_pending: "broker_step b (snd (cancel_pending rv reason b))"

abbreviation broker_run :: "model_broker \<Rightarrow> model_broker \<Rightarrow> bool" where
  "broker_run \<equiv> broker_step\<^sup>*\<^sup>*"

lemma broker_step_inv: "broker_step b b' \<Longrightarrow> broker_inv b \<Longrightarrow> broker_inv b'"
proof (induction rule: broker_step.induct)
  case (step_submit role p u a ad pl rid sub ctl rep r b clk)
  then show ?case
    using broker_submit_ok [OF _ ModelBrokerRequest_ok, of b _ _ _ _ _ _ _ _ _ _ r clk]
    by (metis prod.collapse)
next
  case (step_acquire b clk ids)
  then show ?case using acquire_next_inv by blast
next
  case (step_complete b clk rv ad st md fb pr co fi er)
  then show ?case using broker_complete_inv(1) by (metis prod.collapse)
next
  case (step_cancel_inflight b clk rv reason)
  then show ?case
    using cancel_inflight_cases [of b clk rv reason "fst (cancel_inflight clk rv reason b)"
        "snd (cancel_inflight clk rv reason b)"] revoke_inv(1) by fastforce
next
  case (step_cancel_pending b rv reason)
  then show ?case
    using cancel_pending_cases [of b rv reason "fst (cancel_pending rv reason b)"
        "snd (cancel_pending rv reason b)"] retire_inv(1) by fastforce
qed

lemma broker_run_inv: "broker_run b b' \<Longrightarrow> broker_inv b \<Longrightarrow> broker_inv b'"
  by (induction rule: rtranclp_induct) (auto intro: broker_step_inv)

section \<open>An example broker\<close>

text \<open>One slot: a periodic review holds it when an imminent collision is submitted.\<close>

definition example_review :: model_request where
  "example_review = \<lparr>mr_role = ''review'', mr_priority = P4_PERIODIC_REVIEW, mr_uav = Some ''u1'',
     mr_assignment = None, mr_adapter = None, mr_payload = PDict [], mr_id = ''q1'',
     mr_submitted = 0, mr_control = True, mr_replaceable = True\<rparr>"

definition example_collision :: model_request where
  "example_collision = \<lparr>mr_role = ''replan'', mr_priority = P0_IMMINENT_COLLISION,
     mr_uav = Some ''u1'', mr_assignment = None, mr_adapter = None, mr_payload = PDict [],
     mr_id = ''q2'', mr_submitted = 1, mr_control = True, mr_replaceable = False\<rparr>"

definition example_idle :: model_broker where
  "example_idle = \<lparr>mb_max_inflight_global = 1, mb_max_inflight_per_uav = 1,
     mb_max_pending_per_uav = 2, mb_starvation_timeout = 15, mb_pending = [], mb_inflight = [],
     mb_preempted = [], mb_logs = []\<rparr>"

definition example_queued :: model_broker where
  "example_queued = snd (broker_submit (PInt 0) example_review example_idle)"

definition example_running :: model_broker where
  "example_running = snd (acquire_next (PInt 1) None example_queued)"

definition example_preempted :: model_broker where
  "example_preempted = snd (broker_submit (PInt 2) example_collision example_running)"

lemma example_idle_init:
  "broker_init (PInt 1) (PInt 1) (PInt 2) (PInt 15) True = Inr example_idle"
  by (simp add: broker_init_def broker_limit_def finite_nonnegative_def real_value_def
      float_of_int_exact example_idle_def)

lemma example_requests:
  "ModelBrokerRequest (PStr ''review'') (PInt 4) (PStr ''u1'') PNone PNone (PDict []) (PStr ''q1'')
     (PFloat (Fin 0)) (PBool True) (PBool True) = Inr example_review"
  "ModelBrokerRequest (PStr ''replan'') (PInt 0) (PStr ''u1'') PNone PNone (PDict []) (PStr ''q2'')
     (PFloat (Fin 1)) (PBool True) (PBool False) = Inr example_collision"
proof -
  have m: "routing_id_match ''review''" "routing_id_match ''replan''" "routing_id_match ''u1''"
    "routing_id_match ''q1''" "routing_id_match ''q2''" by code_simp+
  show "ModelBrokerRequest (PStr ''review'') (PInt 4) (PStr ''u1'') PNone PNone (PDict []) (PStr ''q1'')
     (PFloat (Fin 0)) (PBool True) (PBool True) = Inr example_review"
    "ModelBrokerRequest (PStr ''replan'') (PInt 0) (PStr ''u1'') PNone PNone (PDict []) (PStr ''q2'')
     (PFloat (Fin 1)) (PBool True) (PBool False) = Inr example_collision"
    using m by (simp_all add: ModelBrokerRequest_def ModelRequestPriority_def opt_check_def
        example_review_def example_collision_def)
qed

lemma example_runs:
  "broker_run example_idle example_queued" "broker_run example_idle example_running"
  "broker_run example_idle example_preempted"
proof -
  have 1: "broker_step example_idle example_queued"
    unfolding example_queued_def by (rule step_submit [OF example_requests(1)])
  have 2: "broker_step example_queued example_running"
    unfolding example_running_def by (rule step_acquire)
  have 3: "broker_step example_running example_preempted"
    unfolding example_preempted_def by (rule step_submit [OF example_requests(2)])
  from 1 2 3 show "broker_run example_idle example_queued" "broker_run example_idle example_running"
    "broker_run example_idle example_preempted"
    by (auto intro: rtranclp.rtrancl_into_rtrancl)
qed

section \<open>Properties\<close>

text \<open>
  C4. The broker never exceeds its limits: in every state reached by submitting, acquiring,
  completing and cancelling in any order, with any clock, the number of calls holding a slot is
  within the global limit, no UAV holds more than its share, no UAV has two control-related calls
  running, and no UAV (nor the unscoped queue) has more than the allowed number waiting.
\<close>

theorem broker_capacity:
  assumes "broker_init g u p t c = Inr b0" and "broker_run b0 b"
  shows "int (inflight_count b) \<le> mb_max_inflight_global b
    \<and> int (length (of_uav (Some v) (inflight_requests b))) \<le> mb_max_inflight_per_uav b
    \<and> length (filter mr_control (of_uav (Some v) (inflight_requests b))) \<le> 1
    \<and> int (length (of_uav w (mb_pending b))) \<le> mb_max_pending_per_uav b"
  using broker_run_inv [OF assms(2) broker_init_inv [OF assms(1)]]
  by (simp add: broker_inv_def capacity_inv_def inflight_count_def)

theorem broker_capacity_witness:
  "int (inflight_count example_preempted) \<le> mb_max_inflight_global example_preempted
   \<and> inflight_count example_preempted = 1 \<and> pending_count example_preempted = 1"
proof -
  have "inflight_count example_preempted = 1" "pending_count example_preempted = 1" by code_simp+
  with broker_capacity [OF example_idle_init example_runs(3)] show ?thesis by blast
qed

text \<open>
  C5. Every request has one fate: in every reachable state identifiers are unique in the queue and
  in the log, a waiting request neither runs nor is logged, and a running request is logged exactly
  when its result was revoked.  No submission, acquisition, cancellation or successful completion
  makes an identifier disappear, whether it raises or not; a \<open>complete\<close> that raises makes exactly
  the request it was called for disappear when that was running and not revoked, and nothing
  otherwise (the known way to lose a request, \<open>complete_raising_loses_request\<close>).
\<close>

theorem broker_one_fate:
  assumes "broker_init g u p t c = Inr b0" and "broker_run b0 b" and "request_ok r"
  shows "distinct (map mr_id (mb_pending b)) \<and> distinct (map cl_id (mb_logs b))
    \<and> (\<forall>x\<in>set (mb_pending b). mr_id x \<notin> inflight_ids b \<and> mr_id x \<notin> log_ids b)
    \<and> (\<forall>k\<in>inflight_ids b. k \<in> log_ids b \<longleftrightarrow> k \<in> preempted_ids b)
    \<and> used_ids b \<subseteq> used_ids (snd (broker_submit clk r b))
    \<and> used_ids (snd (acquire_next clk ids b)) = used_ids b
    \<and> used_ids (snd (cancel_inflight clk rv reason b)) = used_ids b
    \<and> used_ids (snd (cancel_pending rv reason b)) = used_ids b
    \<and> (\<not> isl (fst (broker_complete clk rv ad st md fb pr co fi er b)) \<longrightarrow>
         used_ids (snd (broker_complete clk rv ad st md fb pr co fi er b)) = used_ids b)
    \<and> (isl (fst (broker_complete clk rv ad st md fb pr co fi er b)) \<longrightarrow>
         used_ids (snd (broker_complete clk rv ad st md fb pr co fi er b)) = used_ids b
           - {k. rv = PStr k \<and> k \<in> inflight_ids b \<and> k \<notin> preempted_ids b})"
proof -
  have inv: "broker_inv b" using broker_run_inv [OF assms(2) broker_init_inv [OF assms(1)]] .
  have "used_ids b \<subseteq> used_ids (snd (broker_submit clk r b))"
  proof -
    obtain x b' where s: "broker_submit clk r b = (x, b')" by fastforce
    from broker_submit_ok [OF inv assms(3) s] obtain b1 where b1: "displaces r b b1"
      "b' = b1 \<or> b' = b1\<lparr>mb_pending := mb_pending b1 @ [r]\<rparr>" by (cases x) auto
    have "used_ids b1 \<subseteq> used_ids b'" using b1(2) by (auto simp: used_ids_def)
    then show ?thesis using s displaces_used [OF b1(1)] by simp
  qed
  moreover have "used_ids (snd (cancel_inflight clk rv reason b)) = used_ids b"
    using cancel_inflight_cases [OF inv, of clk rv reason "fst (cancel_inflight clk rv reason b)"
        "snd (cancel_inflight clk rv reason b)"] revoke_inv(2) [OF inv] by fastforce
  moreover have "used_ids (snd (cancel_pending rv reason b)) = used_ids b"
    using cancel_pending_cases [OF inv, of rv reason "fst (cancel_pending rv reason b)"
        "snd (cancel_pending rv reason b)"] retire_inv(2) [OF inv] by fastforce
  moreover have "\<not> isl (fst (broker_complete clk rv ad st md fb pr co fi er b)) \<longrightarrow>
         used_ids (snd (broker_complete clk rv ad st md fb pr co fi er b)) = used_ids b"
    using broker_complete_inv(2) [OF inv] by (metis prod.collapse)
  moreover have "isl (fst (broker_complete clk rv ad st md fb pr co fi er b)) \<longrightarrow>
         used_ids (snd (broker_complete clk rv ad st md fb pr co fi er b)) = used_ids b
           - {k. rv = PStr k \<and> k \<in> inflight_ids b \<and> k \<notin> preempted_ids b}"
    using broker_complete_raises [OF inv, of clk rv ad st md fb pr co fi er
        "projl (fst (broker_complete clk rv ad st md fb pr co fi er b))"
        "snd (broker_complete clk rv ad st md fb pr co fi er b)"]
    by (simp add: prod_eq_iff)
  ultimately show ?thesis
    using inv acquire_next_inv [OF inv, of clk ids]
    unfolding broker_inv_def pending_inv_def inflight_inv_def preempted_inv_def by blast
qed

theorem broker_one_fate_witness:
  "distinct (map cl_id (mb_logs example_preempted)) \<and> length (mb_logs example_preempted) = 1
   \<and> inflight_ids example_preempted = {''q1''} \<and> ''q1'' \<in> log_ids example_preempted"
proof -
  have r: "request_ok example_review" by (rule ModelBrokerRequest_ok [OF example_requests(1)])
  have "dkeys (mb_inflight example_preempted) = [''q1'']"
    "dkeys (mb_preempted example_preempted) = [''q1'']" "length (mb_logs example_preempted) = 1"
    by code_simp+
  then show ?thesis
    using broker_one_fate [OF example_idle_init example_runs(3) r]
    by (auto simp: inflight_ids_def preempted_ids_def)
qed

text \<open>
  C6. Priority is never inverted: when \<open>acquire_next\<close> hands out a request, it is waiting and
  eligible, no eligible waiting request has a smaller (effective priority, submission time,
  identifier), and therefore visual work (P3, P4) is never handed out while eligible safety or
  replanning work (P0 to P2) waits, however long the visual request has aged; it then holds a slot.
\<close>

theorem acquire_next_priority:
  assumes "broker_init g u p t c = Inr b0" and "broker_run b0 b"
    and "acquire_next clk ids b = (Inr (Some r), b')"
  shows "r \<in> set (mb_pending b) \<and> eligible b r
    \<and> (\<exists>now. \<forall>x\<in>set (mb_pending b). eligible b x \<longrightarrow>
         (effective_priority b now r, mr_submitted r, mr_id r)
           \<le> (effective_priority b now x, mr_submitted x, mr_id x))
    \<and> (P2_AGENT_RUNTIME_REPLAN < mr_priority r \<longrightarrow>
         (\<forall>x\<in>set (mb_pending b). eligible b x \<longrightarrow> P2_AGENT_RUNTIME_REPLAN < mr_priority x))
    \<and> (mr_priority r \<le> P2_AGENT_RUNTIME_REPLAN \<longrightarrow>
         (\<forall>x\<in>set (mb_pending b). eligible b x \<longrightarrow> mr_priority r \<le> mr_priority x))
    \<and> mr_id r \<in> inflight_ids b' \<and> mr_id r \<notin> mr_id ` set (mb_pending b')"
proof -
  have inv: "broker_inv b" using broker_run_inv [OF assms(2) broker_init_inv [OF assms(1)]] .
  from acquire_next_cases [OF assms(3)] obtain now
    where r: "r \<in> set (mb_pending b)" "eligible b r"
      and least: "\<forall>x\<in>set (mb_pending b). eligible b x \<longrightarrow> acquire_key b now r \<le> acquire_key b now x"
      and room: "int (length (mb_inflight b)) < mb_max_inflight_global b"
      and b': "b' = start_call r now b" by auto
  have le: "effective_priority b now r \<le> effective_priority b now x"
    if "x \<in> set (mb_pending b)" "eligible b x" for x
    using least that by (auto simp: acquire_key_def less_eq_prod_def)
  have urgent: "effective_priority b now x = priority_int (mr_priority x)" "priority_int (mr_priority x) \<le> 2"
    if "mr_priority x \<le> P2_AGENT_RUNTIME_REPLAN" for x
    using that by (simp_all add: effective_priority_def priority_order)
  have visual: "3 \<le> effective_priority b now x" "3 \<le> priority_int (mr_priority x)"
    if "P2_AGENT_RUNTIME_REPLAN < mr_priority x" for x
    using that by (cases "mr_priority x"; simp add: effective_priority_def priority_order Let_def)+
  have "P2_AGENT_RUNTIME_REPLAN < mr_priority x"
    if "P2_AGENT_RUNTIME_REPLAN < mr_priority r" "x \<in> set (mb_pending b)" "eligible b x" for x
    using le [OF that(2,3)] visual(1) [OF that(1)] urgent [of x] by force
  moreover have "mr_priority r \<le> mr_priority x"
    if "mr_priority r \<le> P2_AGENT_RUNTIME_REPLAN" "x \<in> set (mb_pending b)" "eligible b x" for x
    using le [OF that(2,3)] urgent [OF that(1)] urgent(1) [of x] visual(2) [of x]
    by (cases "mr_priority x \<le> P2_AGENT_RUNTIME_REPLAN") (auto simp: priority_order)
  moreover have "pending_inv b'" "mr_id r \<in> inflight_ids b'"
    using start_call_inv(1) [OF inv r room] by (simp_all add: b' broker_inv_def)
  moreover from this have "mr_id r \<notin> mr_id ` set (mb_pending b')"
    by (auto simp: pending_inv_def)
  ultimately show ?thesis using r least unfolding acquire_key_def by blast
qed

theorem acquire_next_priority_witness:
  "\<exists>b'. acquire_next (PInt 1) None example_queued = (Inr (Some example_review), b')
     \<and> eligible example_queued example_review \<and> mr_id example_review \<in> inflight_ids b'"
proof -
  have "fst (acquire_next (PInt 1) None example_queued) = Inr (Some example_review)"
    by code_simp
  then have a: "acquire_next (PInt 1) None example_queued
      = (Inr (Some example_review), snd (acquire_next (PInt 1) None example_queued))"
    by (metis prod.collapse)
  from acquire_next_priority [OF example_idle_init example_runs(1) a] a show ?thesis by blast
qed

text \<open>
  What a submission may displace: a successful \<open>submit\<close> queues the request last under a fresh
  identifier, takes no slot away, drops from the queue only replaceable requests of the same UAV
  that are not more urgent, and revokes only running results of replaceable, strictly less urgent
  requests; whatever it displaces has a STALE record in the log.  A submission that raises queues
  nothing.
\<close>

theorem submit_displacement:
  assumes "broker_init g u p t c = Inr b0" and "broker_run b0 b" and "request_ok r"
    and "broker_submit clk r b = (x, b')"
  shows "mb_inflight b' = mb_inflight b
    \<and> (case x of Inl e \<Rightarrow> set (mb_pending b') \<subseteq> set (mb_pending b)
       | Inr i \<Rightarrow> i = mr_id r \<and> i \<notin> used_ids b \<and> last (mb_pending b') = r \<and> r \<in> set (mb_pending b'))
    \<and> (\<forall>y\<in>set (mb_pending b) - set (mb_pending b'). mr_replaceable y \<and> mr_uav y = mr_uav r
         \<and> mr_priority r \<le> mr_priority y
         \<and> (\<exists>l\<in>set (mb_logs b'). cl_id l = mr_id y \<and> cl_state l = BRS_STALE))
    \<and> (\<forall>k\<in>preempted_ids b' - preempted_ids b. \<exists>y s. (k, y, s) \<in> set (mb_inflight b)
         \<and> mr_replaceable y \<and> mr_priority r < mr_priority y
         \<and> (\<exists>l\<in>set (mb_logs b'). cl_id l = k \<and> cl_state l = BRS_STALE))"
proof -
  have inv: "broker_inv b" using broker_run_inv [OF assms(2) broker_init_inv [OF assms(1)]] .
  from broker_submit_ok [OF inv assms(3,4)] obtain b1
    where inv': "broker_inv b'" and d: "displaces r b b1"
      and x: "case x of Inl e \<Rightarrow> b' = b1 | Inr i \<Rightarrow> i = mr_id r \<and> mr_id r \<notin> used_ids b
         \<and> b' = b1\<lparr>mb_pending := mb_pending b1 @ [r]\<rparr>" by blast
  have f: "mb_inflight b' = mb_inflight b1" "mb_logs b' = mb_logs b1"
    "preempted_ids b' = preempted_ids b1" "set (mb_pending b1) \<subseteq> set (mb_pending b')"
    using x by (auto split: sum.splits)
  have stale: "\<exists>l\<in>set (mb_logs b'). cl_id l = k \<and> cl_state l = BRS_STALE" if k: "k \<in> preempted_ids b'" for k
  proof -
    obtain l where "dget (mb_preempted b') k = Some l"
      using preempted_obtains [OF k] by blast
    then show ?thesis using preempted_Some [OF inv'] by blast
  qed
  have "\<exists>y s. (k, y, s) \<in> set (mb_inflight b) \<and> mr_replaceable y \<and> mr_priority r < mr_priority y
         \<and> (\<exists>l\<in>set (mb_logs b'). cl_id l = k \<and> cl_state l = BRS_STALE)"
    if "k \<in> preempted_ids b' - preempted_ids b" for k
    using that d stale [of k] f(3) unfolding displaces_def revocable_def by (metis Diff_iff)
  moreover have "mr_replaceable y \<and> mr_uav y = mr_uav r \<and> mr_priority r \<le> mr_priority y
         \<and> (\<exists>l\<in>set (mb_logs b'). cl_id l = mr_id y \<and> cl_state l = BRS_STALE)"
    if "y \<in> set (mb_pending b) - set (mb_pending b')" for y
    using that d f unfolding displaces_def droppable_def by auto
  moreover have "mb_inflight b' = mb_inflight b" using f d by (simp add: displaces_def)
  moreover have "case x of Inl e \<Rightarrow> set (mb_pending b') \<subseteq> set (mb_pending b)
       | Inr i \<Rightarrow> i = mr_id r \<and> i \<notin> used_ids b \<and> last (mb_pending b') = r \<and> r \<in> set (mb_pending b')"
    using x d by (auto simp: displaces_def split: sum.splits)
  ultimately show ?thesis by blast
qed

theorem submit_displacement_witness:
  "mb_inflight example_preempted = mb_inflight example_running
   \<and> preempted_ids example_preempted = {''q1''}
   \<and> (\<exists>l\<in>set (mb_logs example_preempted). cl_id l = ''q1'' \<and> cl_state l = BRS_STALE)"
proof -
  have r: "request_ok example_collision" by (rule ModelBrokerRequest_ok [OF example_requests(2)])
  have "dkeys (mb_preempted example_preempted) = [''q1'']" "dkeys (mb_preempted example_running) = []"
    by code_simp+
  then have k: "preempted_ids example_preempted = {''q1''}" "preempted_ids example_running = {}"
    by (simp_all add: preempted_ids_def)
  have s: "broker_submit (PInt 2) example_collision example_running
      = (fst (broker_submit (PInt 2) example_collision example_running), example_preempted)"
    by (simp add: example_preempted_def)
  from submit_displacement [OF example_idle_init example_runs(2) r s] k show ?thesis by blast
qed

text \<open>
  A revoked result is never delivered: completing a request whose result was revoked, with
  whatever result fields, returns the STALE record logged at revocation, adds nothing to the log
  and gives the slot back.
\<close>

theorem revoked_result_stays_stale:
  assumes "broker_init g u p t c = Inr b0" and "broker_run b0 b" and "k \<in> preempted_ids b"
  shows "\<exists>l b'. broker_complete clk (PStr k) ad st md fb pr co fi er b = (Inr l, b')
    \<and> cl_id l = k \<and> cl_state l = BRS_STALE \<and> l \<in> set (mb_logs b) \<and> mb_logs b' = mb_logs b
    \<and> k \<notin> inflight_ids b' \<and> inflight_count b = Suc (inflight_count b')"
proof -
  have inv: "broker_inv b" using broker_run_inv [OF assms(2) broker_init_inv [OF assms(1)]] .
  obtain l where l: "dget (mb_preempted b) k = Some l"
    using preempted_obtains [OF assms(3)] by blast
  have k: "k \<in> inflight_ids b" using preempted_subset [OF inv] assms(3) by blast
  then obtain r s where r: "dget (mb_inflight b) k = Some (r, s)"
    unfolding inflight_ids_def by (metis dget_None not_None_eq surj_pair)
  have "routing_id_match k" using inflight_entry [OF inv r] by (simp add: request_ok_def)
  then have "broker_complete clk (PStr k) ad st md fb pr co fi er b = (Inr l, free_slot k b)"
    using r l by (simp add: broker_complete_def free_slot_def)
  moreover have "inflight_count b = Suc (inflight_count (free_slot k b))"
    using inv k by (simp add: inflight_count_def free_slot_def length_ddel broker_inv_def
        inflight_inv_def inflight_ids_def)
  moreover have "k \<notin> inflight_ids (free_slot k b)" "mb_logs (free_slot k b) = mb_logs b"
    by (simp_all) (simp add: free_slot_def)
  ultimately show ?thesis using preempted_Some [OF inv l] by blast
qed

theorem revoked_result_stays_stale_witness:
  "\<exists>l b'. broker_complete (PInt 3) (PStr ''q1'') PNone PNone (PStr ''model'') (PBool False) (PInt 7)
      (PInt 9) PNone PNone example_preempted = (Inr l, b')
    \<and> cl_state l = BRS_STALE \<and> mb_logs b' = mb_logs example_preempted \<and> ''q1'' \<notin> inflight_ids b'"
proof -
  have "dkeys (mb_preempted example_preempted) = [''q1'']" by code_simp
  then have k: "''q1'' \<in> preempted_ids example_preempted" by (simp add: preempted_ids_def)
  from revoked_result_stays_stale [OF example_idle_init example_runs(3) k] show ?thesis by blast
qed

text \<open>
  \<open>complete\<close> is not all-or-nothing: when the token counts reported with a result are invalid
  the call raises after the request has left its slot, so the request is neither waiting, running
  nor logged any more and its identifier can be used again.
\<close>

theorem complete_raising_loses_request:
  assumes "broker_init g u p t c = Inr b0" and "broker_run b0 b"
    and "dget (mb_inflight b) k = Some (r, s)" and "k \<notin> preempted_ids b"
    and "finite_nonnegative clk ''clock result'' = Inr now"
    and "isl (nonnegative_int pr ''prompt_tokens'')"
  shows "\<exists>e b'. broker_complete clk (PStr k) ad st md fb pr co fi er b = (Inl e, b')
    \<and> k \<in> used_ids b \<and> k \<notin> used_ids b' \<and> mb_logs b' = mb_logs b"
proof -
  have inv: "broker_inv b" using broker_run_inv [OF assms(2) broker_init_inv [OF assms(1)]] .
  obtain x b' where c: "broker_complete clk (PStr k) ad st md fb pr co fi er b = (x, b')" by fastforce
  obtain e where "nonnegative_int pr ''prompt_tokens'' = Inl e"
    using assms(6) by (auto simp: isl_def)
  then have "ModelCallLogRecord r a st md fb l t w pr co fi er \<noteq> Inr y" for a l t w y
    by (auto simp: ModelCallLogRecord_def rbind_eq_Inr)
  then obtain d where d: "ModelCallLogRecord r (if py_truthy ad then ad else opt_pyval PStr (mr_adapter r))
        st md fb (PFloat (Fin (max 0 (now - s))))
        (if py_truthy er then BRS_FAILED else BRS_COMPLETED) None pr co fi er = Inl d"
    by (metis sum.exhaust)
  have x: "x = Inl d" and b': "b' = free_slot k b"
    using c unfolding broker_complete_live [OF inv assms(3,4)] assms(5) by (simp_all add: d)
  have k: "k \<in> inflight_ids b" using inflight_entry(3) [OF inv assms(3)] .
  then have "k \<in> used_ids b" "k \<notin> used_ids b'" "mb_logs b' = mb_logs b"
    using free_slot_used [OF inv k assms(4)] by (simp_all add: b') (simp_all add: used_ids_def free_slot_def)
  then show ?thesis using c x by blast
qed

theorem complete_raising_loses_request_witness:
  "\<exists>e b'. broker_complete (PInt 2) (PStr ''q1'') PNone PNone PNone (PBool False) (PInt (-1)) (PInt 0)
      PNone PNone example_running = (Inl e, b') \<and> ''q1'' \<notin> used_ids b' \<and> mb_logs b' = []"
proof -
  have "\<exists>r s. dget (mb_inflight example_running) ''q1'' = Some (r, s)"
  proof -
    have "dget (mb_inflight example_running) ''q1'' \<noteq> None" by code_simp
    then show ?thesis by auto
  qed
  then obtain r s where r: "dget (mb_inflight example_running) ''q1'' = Some (r, s)" by blast
  have "dkeys (mb_preempted example_running) = []" by code_simp
  then have np: "''q1'' \<notin> preempted_ids example_running" by (simp add: preempted_ids_def)
  have clk: "finite_nonnegative (PInt 2) ''clock result'' = Inr 2"
    by (simp add: finite_nonnegative_def real_value_def float_of_int_exact)
  have pr: "isl (nonnegative_int (PInt (-1)) ''prompt_tokens'')" by (simp add: nonnegative_int_def)
  have "mb_logs example_running = []" by code_simp
  with complete_raising_loses_request [OF example_idle_init example_runs(2) r np clk pr]
  show ?thesis by metis
qed

end
