(* ===== verification/Planning_State.thy ===== *)
theory Planning_State
  imports Routing_Ids
begin

text \<open>
  \<open>fleet/planning_state.py\<close>: the planning lifecycle of an assignment, its table of allowed
  transitions, the repair budget and the audit list of planning attempts.
\<close>

section \<open>Enumerations\<close>

datatype planning_state =
    APS_PENDING | APS_INTERPRETING | APS_PLANNING | APS_VALIDATING | APS_READY | APS_REPAIRING
  | APS_DEGRADED_EXECUTABLE | APS_RUNNING | APS_HOLDING | APS_WAITING_REASSIGNMENT
  | APS_SUCCEEDED | APS_FAILED | APS_CANCELED

fun planning_state_value :: "planning_state \<Rightarrow> string" where
  "planning_state_value APS_PENDING = ''PENDING''"
| "planning_state_value APS_INTERPRETING = ''INTERPRETING''"
| "planning_state_value APS_PLANNING = ''PLANNING''"
| "planning_state_value APS_VALIDATING = ''VALIDATING''"
| "planning_state_value APS_READY = ''READY''"
| "planning_state_value APS_REPAIRING = ''REPAIRING''"
| "planning_state_value APS_DEGRADED_EXECUTABLE = ''DEGRADED_EXECUTABLE''"
| "planning_state_value APS_RUNNING = ''RUNNING''"
| "planning_state_value APS_HOLDING = ''HOLDING''"
| "planning_state_value APS_WAITING_REASSIGNMENT = ''WAITING_REASSIGNMENT''"
| "planning_state_value APS_SUCCEEDED = ''SUCCEEDED''"
| "planning_state_value APS_FAILED = ''FAILED''"
| "planning_state_value APS_CANCELED = ''CANCELED''"

definition AssignmentPlanningState :: "pyval \<Rightarrow> planning_state result" where
  "AssignmentPlanningState = enum_of ''AssignmentPlanningState'' planning_state_value
     [APS_PENDING, APS_INTERPRETING, APS_PLANNING, APS_VALIDATING, APS_READY, APS_REPAIRING,
      APS_DEGRADED_EXECUTABLE, APS_RUNNING, APS_HOLDING, APS_WAITING_REASSIGNMENT,
      APS_SUCCEEDED, APS_FAILED, APS_CANCELED]"

datatype planning_stage = PS_MISSION_INTERPRETATION | PS_FLEET_PLANNING | PS_LOCAL_PLANNING

fun planning_stage_value :: "planning_stage \<Rightarrow> string" where
  "planning_stage_value PS_MISSION_INTERPRETATION = ''MISSION_INTERPRETATION''"
| "planning_stage_value PS_FLEET_PLANNING = ''FLEET_PLANNING''"
| "planning_stage_value PS_LOCAL_PLANNING = ''LOCAL_PLANNING''"

definition PlanningStage :: "pyval \<Rightarrow> planning_stage result" where
  "PlanningStage = enum_of ''PlanningStage'' planning_stage_value
     [PS_MISSION_INTERPRETATION, PS_FLEET_PLANNING, PS_LOCAL_PLANNING]"

datatype attempt_outcome = PAO_IN_FLIGHT | PAO_ACCEPTED | PAO_REJECTED | PAO_DEGRADED_ACCEPTED

fun attempt_outcome_value :: "attempt_outcome \<Rightarrow> string" where
  "attempt_outcome_value PAO_IN_FLIGHT = ''IN_FLIGHT''"
| "attempt_outcome_value PAO_ACCEPTED = ''ACCEPTED''"
| "attempt_outcome_value PAO_REJECTED = ''REJECTED''"
| "attempt_outcome_value PAO_DEGRADED_ACCEPTED = ''DEGRADED_ACCEPTED''"

definition PlanningAttemptOutcome :: "pyval \<Rightarrow> attempt_outcome result" where
  "PlanningAttemptOutcome = enum_of ''PlanningAttemptOutcome'' attempt_outcome_value
     [PAO_IN_FLIGHT, PAO_ACCEPTED, PAO_REJECTED, PAO_DEGRADED_ACCEPTED]"

lemma PlanningStage_value [simp]: "PlanningStage (PStr (planning_stage_value st)) = Inr st"
  unfolding PlanningStage_def by (rule enum_of_val) (cases st; auto simp: inj_on_def)+

lemma AssignmentPlanningState_value [simp]:
  "AssignmentPlanningState (PStr (planning_state_value st)) = Inr st"
  by (cases st) (simp_all add: AssignmentPlanningState_def enum_of_def)

section \<open>Repair budget\<close>

record repair_budget =
  rb_interpreter :: int
  rb_fleet_plan :: int
  rb_local_plan :: int

definition budget_field :: "string \<Rightarrow> pyval \<Rightarrow> int result" where
  "budget_field name v =
     int_value (ValueError (name @ '' repair budget must be a non-negative integer''))
       (ValueError (name @ '' repair budget must be a non-negative integer'')) (\<lambda>i. 0 \<le> i) v"

definition PlanningRepairBudget :: "pyval \<Rightarrow> pyval \<Rightarrow> pyval \<Rightarrow> repair_budget result" where
  "PlanningRepairBudget interpreter fleet_plan local_plan =
     rbind (budget_field ''interpreter'' interpreter) (\<lambda>i.
     rbind (budget_field ''fleet_plan'' fleet_plan) (\<lambda>f.
     rbind (budget_field ''local_plan'' local_plan) (\<lambda>l.
       Inr \<lparr>rb_interpreter = i, rb_fleet_plan = f, rb_local_plan = l\<rparr>)))"

fun budget_for :: "repair_budget \<Rightarrow> planning_stage \<Rightarrow> int" where
  "budget_for b PS_MISSION_INTERPRETATION = rb_interpreter b"
| "budget_for b PS_FLEET_PLANNING = rb_fleet_plan b"
| "budget_for b PS_LOCAL_PLANNING = rb_local_plan b"

definition for_stage :: "repair_budget \<Rightarrow> pyval \<Rightarrow> int result" where
  "for_stage b stage = rbind (PlanningStage stage) (\<lambda>s. Inr (budget_for b s))"

section \<open>Attempts\<close>

definition plan_version_number :: "pyval \<Rightarrow> int result" where
  "plan_version_number = int_value (TypeError ''plan_version must be an integer'')
     (ValueError ''plan_version must be positive'') (\<lambda>i. 0 < i)"

definition finding_code_list :: "pyval \<Rightarrow> string list result" where
  "finding_code_list v =
     rbind (py_iter v) (\<lambda>codes.
       if 64 < length codes
       then Inl (ValueError ''finding_codes must contain at most 64 bounded strings'')
       else rmap (bounded_text 128
              (ValueError ''finding_codes must contain at most 64 bounded strings'')) codes)"

record planning_attempt =
  pa_attempt :: string
  pa_proposal :: string
  pa_stage :: planning_stage
  pa_version :: int
  pa_timestamp :: rat
  pa_outcome :: attempt_outcome
  pa_assignment :: "string option"
  pa_uav :: "string option"
  pa_repair_of :: "string option"
  pa_codes :: "string list"

definition PlanningAttempt ::
  "pyval \<Rightarrow> pyval \<Rightarrow> pyval \<Rightarrow> pyval \<Rightarrow> pyval \<Rightarrow> pyval \<Rightarrow> pyval \<Rightarrow> pyval \<Rightarrow> pyval \<Rightarrow> pyval \<Rightarrow> pyval
     \<Rightarrow> planning_attempt result" where
  "PlanningAttempt attempt proposal stage version timestamp outcome assignment uav repair_of codes
      schema =
     rbind (schema_one schema) (\<lambda>_.
     rbind (validate_routing_id attempt ''attempt_id'') (\<lambda>attempt.
     rbind (validate_routing_id proposal ''proposal_id'') (\<lambda>proposal.
     rbind (PlanningStage stage) (\<lambda>stage.
     rbind (PlanningAttemptOutcome outcome) (\<lambda>outcome.
     rbind (plan_version_number version) (\<lambda>version.
     rbind (real_value (ValueError ''timestamp_s must be finite and non-negative'')
              (ValueError ''timestamp_s must be finite and non-negative'') (\<lambda>x. 0 \<le> x) timestamp)
       (\<lambda>timestamp.
     rbind (opt_check (\<lambda>v. validate_routing_id v ''assignment_id'') assignment) (\<lambda>assignment.
     rbind (opt_check validate_uav_id uav) (\<lambda>uav.
     rbind (opt_check (\<lambda>v. validate_routing_id v ''repair_of_proposal_id'') repair_of) (\<lambda>repair_of.
     rbind (finding_code_list codes) (\<lambda>codes.
       Inr \<lparr>pa_attempt = attempt, pa_proposal = proposal, pa_stage = stage, pa_version = version,
            pa_timestamp = timestamp, pa_outcome = outcome, pa_assignment = assignment,
            pa_uav = uav, pa_repair_of = repair_of, pa_codes = codes\<rparr>)))))))))))"

definition attempt_to_dict :: "planning_attempt \<Rightarrow> pyval" where
  "attempt_to_dict a = PDict
     [(PStr ''schema_version'', PInt 1),
      (PStr ''attempt_id'', PStr (pa_attempt a)),
      (PStr ''proposal_id'', PStr (pa_proposal a)),
      (PStr ''stage'', PStr (planning_stage_value (pa_stage a))),
      (PStr ''plan_version'', PInt (pa_version a)),
      (PStr ''timestamp_s'', PFloat (Fin (pa_timestamp a))),
      (PStr ''outcome'', PStr (attempt_outcome_value (pa_outcome a))),
      (PStr ''assignment_id'', opt_pyval PStr (pa_assignment a)),
      (PStr ''uav_id'', opt_pyval PStr (pa_uav a)),
      (PStr ''repair_of_proposal_id'', opt_pyval PStr (pa_repair_of a)),
      (PStr ''finding_codes'', PList (map PStr (pa_codes a)))]"

section \<open>Planning records\<close>

record planning_record =
  pr_assignment :: string
  pr_uav :: string
  pr_state :: planning_state
  pr_version :: int
  pr_attempts :: "(planning_stage \<times> int) list"
  pr_goals :: "string list"
  pr_error :: "string option"

fun attempt_counts :: "(pyval \<times> pyval) list \<Rightarrow> (planning_stage \<times> int) list
    \<Rightarrow> (planning_stage \<times> int) list result" where
  "attempt_counts [] counts = Inr counts"
| "attempt_counts ((raw_stage, v) # rest) counts =
     rbind (PlanningStage raw_stage) (\<lambda>stage.
     rbind (int_value (ValueError ''repair attempt counts must be non-negative integers'')
              (ValueError ''repair attempt counts must be non-negative integers'') (\<lambda>i. 0 \<le> i) v)
       (\<lambda>n. attempt_counts rest (dset counts stage n)))"

text \<open>Shared by the records and decisions that carry uncovered goals.\<close>

definition uncovered_goals :: "pyval \<Rightarrow> string list result" where
  "uncovered_goals v =
     rbind (py_iter v) (\<lambda>xs.
     rbind (rmap (\<lambda>x. validate_routing_id x ''uncovered_goal_id'') xs) (\<lambda>goals.
       if \<not> distinct goals \<or> 64 < length goals
       then Inl (ValueError ''uncovered_goal_ids must be unique and bounded'')
       else Inr goals))"

definition AssignmentPlanningRecord ::
  "pyval \<Rightarrow> pyval \<Rightarrow> pyval \<Rightarrow> pyval \<Rightarrow> (pyval \<times> pyval) list \<Rightarrow> pyval \<Rightarrow> pyval \<Rightarrow> planning_record result"
  where
  "AssignmentPlanningRecord assignment uav state version attempts goals error =
     rbind (validate_routing_id assignment ''assignment_id'') (\<lambda>assignment.
     rbind (validate_uav_id uav) (\<lambda>uav.
     rbind (AssignmentPlanningState state) (\<lambda>state.
     rbind (plan_version_number version) (\<lambda>version.
     rbind (attempt_counts attempts []) (\<lambda>attempts.
     rbind (uncovered_goals goals) (\<lambda>goals.
     rbind (opt_check (bounded_text 128
              (ValueError ''last_error_code must be a bounded string or None'')) error) (\<lambda>error.
       Inr \<lparr>pr_assignment = assignment, pr_uav = uav, pr_state = state, pr_version = version,
            pr_attempts = attempts, pr_goals = goals, pr_error = error\<rparr>)))))))"

definition planning_record_to_dict :: "planning_record \<Rightarrow> pyval" where
  "planning_record_to_dict r = PDict
     [(PStr ''assignment_id'', PStr (pr_assignment r)),
      (PStr ''uav_id'', PStr (pr_uav r)),
      (PStr ''state'', PStr (planning_state_value (pr_state r))),
      (PStr ''plan_version'', PInt (pr_version r)),
      (PStr ''repair_attempts'',
        PDict (map (\<lambda>(s, n). (PStr (planning_stage_value s), PInt n)) (pr_attempts r))),
      (PStr ''uncovered_goal_ids'', PList (map PStr (pr_goals r))),
      (PStr ''last_error_code'', opt_pyval PStr (pr_error r))]"

section \<open>The transition table\<close>

fun planning_allowed :: "planning_state \<Rightarrow> planning_state list" where
  "planning_allowed APS_PENDING = [APS_INTERPRETING, APS_PLANNING, APS_CANCELED]"
| "planning_allowed APS_INTERPRETING = [APS_PLANNING, APS_REPAIRING, APS_FAILED]"
| "planning_allowed APS_PLANNING =
     [APS_VALIDATING, APS_REPAIRING, APS_WAITING_REASSIGNMENT, APS_FAILED]"
| "planning_allowed APS_VALIDATING =
     [APS_READY, APS_DEGRADED_EXECUTABLE, APS_REPAIRING, APS_WAITING_REASSIGNMENT, APS_FAILED]"
| "planning_allowed APS_REPAIRING =
     [APS_VALIDATING, APS_REPAIRING, APS_DEGRADED_EXECUTABLE, APS_WAITING_REASSIGNMENT, APS_FAILED]"
| "planning_allowed APS_READY = [APS_RUNNING, APS_CANCELED]"
| "planning_allowed APS_DEGRADED_EXECUTABLE = [APS_RUNNING, APS_CANCELED]"
| "planning_allowed APS_RUNNING =
     [APS_HOLDING, APS_WAITING_REASSIGNMENT, APS_SUCCEEDED, APS_FAILED, APS_CANCELED]"
| "planning_allowed APS_HOLDING =
     [APS_RUNNING, APS_WAITING_REASSIGNMENT, APS_FAILED, APS_CANCELED]"
| "planning_allowed APS_WAITING_REASSIGNMENT = [APS_PLANNING, APS_CANCELED, APS_FAILED]"
| "planning_allowed APS_SUCCEEDED = []"
| "planning_allowed APS_FAILED = []"
| "planning_allowed APS_CANCELED = []"

definition planning_terminal :: "planning_state \<Rightarrow> bool" where
  "planning_terminal st \<longleftrightarrow> st = APS_SUCCEEDED \<or> st = APS_FAILED \<or> st = APS_CANCELED"

interpretation planning: transition_table planning_allowed planning_terminal
  by unfold_locales (auto simp: planning_terminal_def)

section \<open>The tracker\<close>

record planning_tracker =
  pt_records :: "(string \<times> planning_record) list"
  pt_attempts :: "planning_attempt list"

definition tracker_init :: planning_tracker where
  "tracker_init = \<lparr>pt_records = [], pt_attempts = []\<rparr>"

definition tracker_register ::
  "pyval \<Rightarrow> pyval \<Rightarrow> planning_tracker \<Rightarrow> planning_record result \<times> planning_tracker" where
  "tracker_register assignment uav s =
     checked s (AssignmentPlanningRecord assignment uav (PStr ''PENDING'') (PInt 1) [] (PTuple []) PNone)
       (\<lambda>record.
         if pr_assignment record \<in> set (dkeys (pt_records s))
         then (Inl (PlanningStateError (''duplicate assignment_id: '' @ pr_assignment record)), s)
         else (Inr record, s\<lparr>pt_records := dset (pt_records s) (pr_assignment record) record\<rparr>))"

definition tracker_record :: "pyval \<Rightarrow> planning_tracker \<Rightarrow> planning_record result" where
  "tracker_record assignment s =
     rbind (validate_routing_id assignment ''assignment_id'') (\<lambda>normalized.
       case dget (pt_records s) normalized of
         None \<Rightarrow> Inl (PlanningStateError (''unknown assignment_id: '' @ normalized))
       | Some r \<Rightarrow> Inr r)"

text \<open>\<open>dataclasses.replace\<close> runs the constructor checks again on the unchanged fields.\<close>

definition replace_record ::
  "planning_record \<Rightarrow> planning_state \<Rightarrow> int \<Rightarrow> (planning_stage \<times> int) list \<Rightarrow> pyval \<Rightarrow> pyval
     \<Rightarrow> planning_record result" where
  "replace_record r state version attempts goals error =
     AssignmentPlanningRecord (PStr (pr_assignment r)) (PStr (pr_uav r))
       (PStr (planning_state_value state)) (PInt version)
       (map (\<lambda>(s, n). (PStr (planning_stage_value s), PInt n)) attempts) goals error"

definition tracker_transition ::
  "pyval \<Rightarrow> pyval \<Rightarrow> pyval \<Rightarrow> pyval \<Rightarrow> planning_tracker \<Rightarrow> planning_record result \<times> planning_tracker"
  where
  "tracker_transition assignment state error_code goals s =
     checked s (tracker_record assignment s) (\<lambda>current.
     checked s (AssignmentPlanningState state) (\<lambda>target.
       if target \<noteq> pr_state current \<and> target \<notin> set (planning_allowed (pr_state current))
       then (Inl (PlanningStateError (''invalid planning state transition ''
               @ planning_state_value (pr_state current) @ '' -> '' @ planning_state_value target)), s)
       else checked s (replace_record current target (pr_version current) (pr_attempts current)
              (case goals of PNone \<Rightarrow> PTuple (map PStr (pr_goals current)) | _ \<Rightarrow> goals) error_code)
            (\<lambda>updated. (Inr updated,
               s\<lparr>pt_records := dset (pt_records s) (pr_assignment current) updated\<rparr>))))"

definition attempts_used :: "planning_record \<Rightarrow> planning_stage \<Rightarrow> int" where
  "attempts_used r stage = (case dget (pr_attempts r) stage of None \<Rightarrow> 0 | Some n \<Rightarrow> n)"

definition begin_repair ::
  "pyval \<Rightarrow> pyval \<Rightarrow> repair_budget \<Rightarrow> pyval \<Rightarrow> planning_tracker
     \<Rightarrow> planning_record result \<times> planning_tracker" where
  "begin_repair assignment stage budget error_code s =
     checked s (tracker_record assignment s) (\<lambda>current.
     checked s (PlanningStage stage) (\<lambda>normalized_stage.
       let used = attempts_used current normalized_stage in
       if budget_for budget normalized_stage \<le> used
       then (Inl (PlanningStateError
              (''repair budget exhausted for '' @ planning_stage_value normalized_stage)), s)
       else checked s (replace_record current APS_REPAIRING (pr_version current + 1)
              (dset (pr_attempts current) normalized_stage (used + 1))
              (PTuple (map PStr (pr_goals current))) error_code)
            (\<lambda>updated. (Inr updated,
               s\<lparr>pt_records := dset (pt_records s) (pr_assignment current) updated\<rparr>))))"

definition add_attempt :: "planning_attempt \<Rightarrow> planning_tracker \<Rightarrow> unit result \<times> planning_tracker" where
  "add_attempt attempt s =
     (if list_ex (\<lambda>item. pa_attempt item = pa_attempt attempt) (pt_attempts s)
      then (Inl (PlanningStateError (''duplicate attempt_id: '' @ pa_attempt attempt)), s)
      else (Inr (), s\<lparr>pt_attempts := pt_attempts s @ [attempt]\<rparr>))"

definition tracker_snapshot :: "planning_tracker \<Rightarrow> pyval" where
  "tracker_snapshot s =
     PDict (map (\<lambda>(k, r). (PStr k, planning_record_to_dict r)) (sort_key fst (pt_records s)))"

section \<open>Well-formed trackers\<close>

definition counts_ok :: "(planning_stage \<times> int) list \<Rightarrow> bool" where
  "counts_ok ats \<longleftrightarrow> dict_ok ats \<and> (\<forall>(st, n)\<in>set ats. 0 \<le> n)"

definition planning_record_inv :: "string \<Rightarrow> planning_record \<Rightarrow> bool" where
  "planning_record_inv a r \<longleftrightarrow> pr_assignment r = a \<and> counts_ok (pr_attempts r)
     \<and> pr_version r = 1 + sum_list (map snd (pr_attempts r))"

definition tracker_inv :: "planning_tracker \<Rightarrow> bool" where
  "tracker_inv s \<longleftrightarrow> dict_ok (pt_records s) \<and> distinct (map pa_attempt (pt_attempts s))
     \<and> (\<forall>a r. dget (pt_records s) a = Some r \<longrightarrow> planning_record_inv a r)"

lemma attempt_counts_own:
  "counts_ok ats \<Longrightarrow> set (dkeys cs) \<inter> set (dkeys ats) = {} \<Longrightarrow>
     attempt_counts (map (\<lambda>(s, n). (PStr (planning_stage_value s), PInt n)) ats) cs = Inr (cs @ ats)"
proof (induction ats arbitrary: cs)
  case (Cons e ats)
  obtain s n where e: "e = (s, n)" by (cases e)
  have "s \<notin> set (dkeys cs)" using Cons.prems(2) e by auto
  then have "dset cs s n = cs @ [(s, n)]" by (rule dset_new)
  then show ?case using Cons e by (auto simp: counts_ok_def)
qed simp

lemma plan_version_number_Inr: "plan_version_number v = Inr n \<longleftrightarrow> v = PInt n \<and> 0 < n"
  unfolding plan_version_number_def by (rule int_value_Inr)

lemma replace_record_Inr:
  assumes "replace_record r st v ats goals err = Inr r'" and "counts_ok ats"
  shows "pr_assignment r' = pr_assignment r \<and> pr_uav r' = pr_uav r \<and> pr_state r' = st
    \<and> pr_version r' = v \<and> pr_attempts r' = ats"
  using assms attempt_counts_own [of ats "[]"]
  by (auto simp: replace_record_def AssignmentPlanningRecord_def rbind_eq_Inr
      plan_version_number_Inr)

lemma attempts_used_nonneg: "counts_ok (pr_attempts r) \<Longrightarrow> 0 \<le> attempts_used r st"
  by (auto simp: attempts_used_def counts_ok_def dget_mem split: option.splits)

lemma sum_dset:
  "sum_list (map snd (dset d k v))
     = sum_list (map snd d) - (case dget d k of None \<Rightarrow> 0 | Some n \<Rightarrow> n) + (v :: int)"
  by (induction d) (auto split: option.splits)

lemma counts_ok_dset: "counts_ok ats \<Longrightarrow> 0 \<le> n \<Longrightarrow> counts_ok (dset ats st n)"
  by (auto simp: counts_ok_def set_dset)

lemma tracker_record_Inr:
  "tracker_record av s = Inr r \<longleftrightarrow>
     (\<exists>a. av = PStr a \<and> routing_id_match a \<and> dget (pt_records s) a = Some r)"
  by (auto simp: tracker_record_def rbind_eq_Inr split: option.splits)

lemma tracker_inv_init: "tracker_inv tracker_init"
  by (simp add: tracker_inv_def tracker_init_def)

lemma tracker_inv_put:
  assumes "tracker_inv s" and "planning_record_inv a r"
  shows "tracker_inv (s\<lparr>pt_records := dset (pt_records s) a r\<rparr>)"
  using assms by (auto simp: tracker_inv_def dget_dset)

lemma tracker_inv_record: "tracker_inv s \<Longrightarrow> dget (pt_records s) a = Some r \<Longrightarrow> planning_record_inv a r"
  by (simp add: tracker_inv_def)

section \<open>What the operations do\<close>

lemma transition_cases:
  assumes inv: "tracker_inv s" and t: "tracker_transition av sv ev gv s = (x, s')"
  shows "(isl x \<and> s' = s) \<or> (\<exists>a r r' st. av = PStr a \<and> sv = PStr (planning_state_value st)
    \<and> dget (pt_records s) a = Some r \<and> x = Inr r'
    \<and> s' = s\<lparr>pt_records := dset (pt_records s) a r'\<rparr> \<and> pr_assignment r' = a \<and> pr_uav r' = pr_uav r
    \<and> pr_state r' = st \<and> (st = pr_state r \<or> st \<in> set (planning_allowed (pr_state r)))
    \<and> pr_version r' = pr_version r \<and> pr_attempts r' = pr_attempts r)"
proof (cases x)
  case (Inl e)
  then show ?thesis
    using t by (auto simp: tracker_transition_def checked_eq_Inl split: if_splits)
next
  case (Inr r')
  with t obtain r st where r: "tracker_record av s = Inr r"
    and st: "AssignmentPlanningState sv = Inr st" "st = pr_state r \<or> st \<in> set (planning_allowed (pr_state r))"
    and re: "replace_record r st (pr_version r) (pr_attempts r)
        (case gv of PNone \<Rightarrow> PTuple (map PStr (pr_goals r)) | _ \<Rightarrow> gv) ev = Inr r'"
    and s': "s' = s\<lparr>pt_records := dset (pt_records s) (pr_assignment r) r'\<rparr>"
    by (auto simp: tracker_transition_def checked_eq_Inr split: if_splits)
  from r obtain a where a: "av = PStr a" "dget (pt_records s) a = Some r"
    by (auto simp: tracker_record_Inr)
  then have ri: "planning_record_inv a r" using tracker_inv_record [OF inv] by blast
  have "sv = PStr (planning_state_value st)"
    using enum_of_Inr st(1) unfolding AssignmentPlanningState_def by fastforce
  then show ?thesis
    using a replace_record_Inr [OF re] ri s' st(2) Inr by (auto simp: planning_record_inv_def)
qed

lemma begin_repair_cases:
  assumes inv: "tracker_inv s" and t: "begin_repair av sv b ev s = (x, s')"
  shows "(isl x \<and> s' = s) \<or> (\<exists>a r r' st. av = PStr a \<and> sv = PStr (planning_stage_value st)
    \<and> dget (pt_records s) a = Some r \<and> x = Inr r'
    \<and> s' = s\<lparr>pt_records := dset (pt_records s) a r'\<rparr> \<and> pr_assignment r' = a \<and> pr_uav r' = pr_uav r
    \<and> pr_state r' = APS_REPAIRING \<and> pr_version r' = pr_version r + 1
    \<and> attempts_used r st < budget_for b st
    \<and> pr_attempts r' = dset (pr_attempts r) st (attempts_used r st + 1))"
proof (cases x)
  case (Inl e)
  then show ?thesis
    using t by (auto simp: begin_repair_def Let_def checked_eq_Inl split: if_splits)
next
  case (Inr r')
  with t obtain r st where r: "tracker_record av s = Inr r" and st: "PlanningStage sv = Inr st"
    and lim: "attempts_used r st < budget_for b st"
    and re: "replace_record r APS_REPAIRING (pr_version r + 1)
        (dset (pr_attempts r) st (attempts_used r st + 1)) (PTuple (map PStr (pr_goals r))) ev = Inr r'"
    and s': "s' = s\<lparr>pt_records := dset (pt_records s) (pr_assignment r) r'\<rparr>"
    by (auto simp: begin_repair_def checked_eq_Inr Let_def split: if_splits)
  from r obtain a where a: "av = PStr a" "dget (pt_records s) a = Some r"
    by (auto simp: tracker_record_Inr)
  then have ri: "planning_record_inv a r" using tracker_inv_record [OF inv] by blast
  then have "counts_ok (dset (pr_attempts r) st (attempts_used r st + 1))"
    using attempts_used_nonneg [of r st] by (intro counts_ok_dset) (auto simp: planning_record_inv_def)
  note f = replace_record_Inr [OF re this]
  have "sv = PStr (planning_stage_value st)"
    using enum_of_Inr st unfolding PlanningStage_def by fastforce
  then show ?thesis using a f ri s' lim Inr by (auto simp: planning_record_inv_def)
qed

lemma begin_repair_record_inv:
  assumes "planning_record_inv a r" and "pr_assignment r' = a" and "pr_version r' = pr_version r + 1"
    and "pr_attempts r' = dset (pr_attempts r) st (attempts_used r st + 1)"
  shows "planning_record_inv a r'"
  using assms counts_ok_dset [of "pr_attempts r" "attempts_used r st + 1" st]
    attempts_used_nonneg [of r st]
  by (auto simp: planning_record_inv_def sum_dset attempts_used_def split: option.splits)

lemma register_cases:
  assumes "tracker_register av uv s = (x, s')"
  shows "(isl x \<and> s' = s) \<or> (\<exists>a u r. x = Inr r \<and> dget (pt_records s) a = None
    \<and> s' = s\<lparr>pt_records := dset (pt_records s) a r\<rparr> \<and> pr_assignment r = a
    \<and> pr_state r = APS_PENDING \<and> pr_version r = 1 \<and> pr_attempts r = [])"
proof (cases x)
  case (Inl e)
  then show ?thesis using assms by (auto simp: tracker_register_def checked_eq_Inl split: if_splits)
next
  case (Inr r)
  with assms have r: "AssignmentPlanningRecord av uv (PStr ''PENDING'') (PInt 1) [] (PTuple []) PNone
      = Inr r" "pr_assignment r \<notin> set (dkeys (pt_records s))"
    "s' = s\<lparr>pt_records := dset (pt_records s) (pr_assignment r) r\<rparr>"
    by (auto simp: tracker_register_def checked_eq_Inr split: if_splits)
  from r(1) have "pr_state r = APS_PENDING" "pr_version r = 1" "pr_attempts r = []"
    by (auto simp: AssignmentPlanningRecord_def rbind_eq_Inr plan_version_number_Inr
        AssignmentPlanningState_def enum_of_def)
  then show ?thesis using r(2,3) Inr by (auto simp: dget_None)
qed

section \<open>Runs\<close>

text \<open>The flag of a step tells whether it was a call of \<open>begin_repair\<close>.\<close>

inductive tracker_step :: "bool \<Rightarrow> planning_tracker \<Rightarrow> planning_tracker \<Rightarrow> bool" where
  step_register: "tracker_step False s (snd (tracker_register av uv s))"
| step_transition: "tracker_step False s (snd (tracker_transition av sv ev gv s))"
| step_attempt: "tracker_step False s (snd (add_attempt x s))"
| step_repair: "tracker_step True s (snd (begin_repair av sv b ev s))"

inductive_cases quiet_stepE: "tracker_step False s s'"

abbreviation tracker_run :: "planning_tracker \<Rightarrow> planning_tracker \<Rightarrow> bool" where
  "tracker_run \<equiv> (\<lambda>s s'. \<exists>f. tracker_step f s s')\<^sup>*\<^sup>*"

abbreviation quiet_run :: "planning_tracker \<Rightarrow> planning_tracker \<Rightarrow> bool" where
  "quiet_run \<equiv> (tracker_step False)\<^sup>*\<^sup>*"

abbreviation planning_path :: "planning_state \<Rightarrow> planning_state \<Rightarrow> bool" where
  "planning_path \<equiv> (\<lambda>a b. b \<in> set (planning_allowed a))\<^sup>*\<^sup>*"

text \<open>
  What any step does to a record that exists: as long as the plan version stays the same the state
  follows the table; a repair raises the version and sets the state from which it goes on.
\<close>

definition record_moves :: "bool \<Rightarrow> planning_record \<Rightarrow> planning_record \<Rightarrow> bool" where
  "record_moves repair r r' \<longleftrightarrow> pr_uav r' = pr_uav r \<and> pr_version r \<le> pr_version r'
     \<and> (\<not> repair \<longrightarrow> pr_version r' = pr_version r)
     \<and> (pr_version r' = pr_version r \<longrightarrow>
          planning_path (pr_state r) (pr_state r') \<and> pr_attempts r' = pr_attempts r)
     \<and> (pr_version r < pr_version r' \<longrightarrow> planning_path APS_REPAIRING (pr_state r'))"

lemma record_moves_refl [simp]: "record_moves f r r"
  by (simp add: record_moves_def)

lemma record_moves_trans:
  "record_moves f p q \<Longrightarrow> record_moves g q r \<Longrightarrow> record_moves (f \<or> g) p r"
  unfolding record_moves_def by (cases "pr_version q = pr_version r") (auto intro: rtranclp_trans)

lemma tracker_step_ok:
  assumes "tracker_step f s s'" and inv: "tracker_inv s"
  shows "tracker_inv s' \<and> (\<forall>a r. dget (pt_records s) a = Some r \<longrightarrow>
    (\<exists>r'. dget (pt_records s') a = Some r' \<and> record_moves f r r'))"
  using assms(1)
proof cases
  case (step_register av uv)
  from register_cases [OF prod.collapse [symmetric], of av uv s] step_register(2) inv
  show ?thesis
    by (auto simp: record_moves_def planning_record_inv_def counts_ok_def dget_dset
        intro!: tracker_inv_put)
next
  case (step_transition av sv ev gv)
  from transition_cases [OF inv prod.collapse [symmetric], of av sv ev gv]
  consider "snd (tracker_transition av sv ev gv s) = s" | a r r' st where "dget (pt_records s) a = Some r" "pr_assignment r' = a" "pr_uav r' = pr_uav r"
      "pr_state r' = st" "st = pr_state r \<or> st \<in> set (planning_allowed (pr_state r))"
      "pr_version r' = pr_version r" "pr_attempts r' = pr_attempts r"
      "snd (tracker_transition av sv ev gv s) = s\<lparr>pt_records := dset (pt_records s) a r'\<rparr>"
    by blast
  then show ?thesis
  proof cases
    case (2 a r r' st)
    note * = 2
    have "planning_record_inv a r'"
      using tracker_inv_record [OF inv *(1)] * by (simp add: planning_record_inv_def)
    then have "tracker_inv s'" using tracker_inv_put [OF inv] *(8) step_transition(2) by simp
    moreover have "record_moves f r r'" using * by (auto simp: record_moves_def)
    ultimately show ?thesis
      using *(1,8) step_transition(2) by (auto simp: dget_dset record_moves_def)
  qed (auto simp: step_transition(2) inv record_moves_def)
next
  case (step_attempt x)
  then show ?thesis using inv by (auto simp: add_attempt_def tracker_inv_def list_ex_iff record_moves_def)
next
  case (step_repair av sv b ev)
  from begin_repair_cases [OF inv prod.collapse [symmetric], of av sv b ev]
  consider "snd (begin_repair av sv b ev s) = s" | a r r' st where "dget (pt_records s) a = Some r" "pr_assignment r' = a" "pr_uav r' = pr_uav r"
      "pr_version r' = pr_version r + 1" "pr_state r' = APS_REPAIRING"
      "pr_attempts r' = dset (pr_attempts r) st (attempts_used r st + 1)"
      "snd (begin_repair av sv b ev s) = s\<lparr>pt_records := dset (pt_records s) a r'\<rparr>"
    by blast
  then show ?thesis
  proof cases
    case (2 a r r' st)
    note * = 2
    have "planning_record_inv a r'"
      using begin_repair_record_inv [OF tracker_inv_record [OF inv *(1)]] * by blast
    then have "tracker_inv s'" using tracker_inv_put [OF inv] *(7) step_repair(2) by simp
    then show ?thesis
      using * step_repair by (auto simp: dget_dset record_moves_def)
  qed (auto simp: step_repair inv record_moves_def)
qed

lemma tracker_run_inv: "tracker_run tracker_init s \<Longrightarrow> tracker_inv s"
  by (induction rule: rtranclp_induct) (auto simp: tracker_inv_init dest: tracker_step_ok)

lemma step_run_record:
  assumes "step\<^sup>*\<^sup>* s s'" and "\<And>x y. step x y \<Longrightarrow> \<exists>f. tracker_step f x y \<and> (f \<longrightarrow> repair)"
    and "tracker_inv s" and "dget (pt_records s) a = Some r"
  shows "tracker_inv s' \<and> (\<exists>r'. dget (pt_records s') a = Some r' \<and> record_moves repair r r')"
  using assms(1)
proof (induction rule: rtranclp_induct)
  case base
  then show ?case using assms(3,4) by simp
next
  case (step t u)
  then obtain q f where q: "tracker_inv t" "dget (pt_records t) a = Some q" "record_moves repair r q"
    and f: "tracker_step f t u" "f \<longrightarrow> repair"
    using assms(2) by blast
  then obtain r' where r': "tracker_inv u" "dget (pt_records u) a = Some r'" "record_moves f q r'"
    using tracker_step_ok [OF f(1) q(1)] by blast
  have "record_moves repair r r'"
    using record_moves_trans [OF q(3) r'(3)] f(2) by (cases f) simp_all
  with r' show ?case by blast
qed

lemma quiet_run_record:
  "quiet_run s s' \<Longrightarrow> tracker_inv s \<Longrightarrow> dget (pt_records s) a = Some r \<Longrightarrow>
     \<exists>r'. dget (pt_records s') a = Some r' \<and> record_moves False r r'"
  by (drule step_run_record [where repair = False]) blast+

lemma tracker_run_record:
  "tracker_run s s' \<Longrightarrow> tracker_inv s \<Longrightarrow> dget (pt_records s) a = Some r \<Longrightarrow>
     \<exists>r'. dget (pt_records s') a = Some r' \<and> record_moves True r r'"
  by (drule step_run_record [where repair = True]) blast+

lemma tracker_run_step: "tracker_run s t \<Longrightarrow> tracker_step f t u \<Longrightarrow> tracker_run s u"
  by (rule rtranclp.rtrancl_into_rtrancl) blast+

section \<open>An example tracker\<close>

definition example_failed :: planning_tracker where
  "example_failed = snd (tracker_transition (PStr ''a1'') (PStr ''FAILED'') PNone PNone
     (snd (tracker_transition (PStr ''a1'') (PStr ''PLANNING'') PNone PNone
       (snd (tracker_register (PStr ''a1'') (PStr ''u1'') tracker_init)))))"

definition example_budget :: repair_budget where
  "example_budget = \<lparr>rb_interpreter = 1, rb_fleet_plan = 2, rb_local_plan = 2\<rparr>"

lemma example_failed_run: "tracker_run tracker_init example_failed"
  unfolding example_failed_def
  by (rule tracker_run_step [OF tracker_run_step [OF tracker_run_step [OF rtranclp.rtrancl_refl
        step_register] step_transition] step_transition])

definition example_failed_record :: planning_record where
  "example_failed_record = \<lparr>pr_assignment = ''a1'', pr_uav = ''u1'', pr_state = APS_FAILED,
     pr_version = 1, pr_attempts = [], pr_goals = [], pr_error = None\<rparr>"

lemma example_failed_value: "dget (pt_records example_failed) ''a1'' = Some example_failed_record"
  by code_simp

section \<open>Properties\<close>

text \<open>
  C7. The lifecycle of an assignment: from any reachable tracker, any sequence of registrations,
  transitions, audit entries and repairs keeps every record and its UAV, and its plan version never
  falls.  While the plan version stays the same, the state moves only along allowed transitions,
  the repair counts stay, and SUCCEEDED, FAILED and CANCELED are never left.  Terminal states are
  left by repairs alone (\<open>begin_repair\<close> does not consult the table): then the plan version has
  risen, and the state has come from REPAIRING along allowed transitions.  A sequence without
  \<open>begin_repair\<close> leaves the plan version alone.
\<close>

theorem planning_lifecycle:
  assumes "tracker_run tracker_init s" and "tracker_run s s'" and "dget (pt_records s) a = Some r"
  shows "\<exists>r'. dget (pt_records s') a = Some r' \<and> pr_uav r' = pr_uav r
    \<and> pr_version r \<le> pr_version r'
    \<and> (pr_version r' = pr_version r \<longrightarrow> planning_path (pr_state r) (pr_state r')
         \<and> pr_attempts r' = pr_attempts r
         \<and> (planning_terminal (pr_state r) \<longrightarrow> pr_state r' = pr_state r))
    \<and> (pr_version r < pr_version r' \<longrightarrow> planning_path APS_REPAIRING (pr_state r'))
    \<and> (quiet_run s s' \<longrightarrow> pr_version r' = pr_version r)"
proof -
  note inv = tracker_run_inv [OF assms(1)]
  obtain r' where r': "dget (pt_records s') a = Some r'" "record_moves True r r'"
    using tracker_run_record [OF assms(2) inv assms(3)] by blast
  moreover have "pr_state r' = pr_state r"
    if "pr_version r' = pr_version r" "planning_terminal (pr_state r)"
    using that r'(2) planning.final_forever by (simp add: record_moves_def)
  moreover have "pr_version r' = pr_version r" if "quiet_run s s'"
    using quiet_run_record [OF that inv assms(3)] r'(1) by (simp add: record_moves_def)
  ultimately show ?thesis by (simp add: record_moves_def)
qed

theorem planning_lifecycle_witness:
  "(\<exists>r'. dget (pt_records (snd (tracker_transition (PStr ''a1'') (PStr ''PLANNING'') PNone PNone
      example_failed))) ''a1'' = Some r' \<and> pr_state r' = APS_FAILED)
   \<and> (\<exists>r'. dget (pt_records (snd (begin_repair (PStr ''a1'') (PStr ''FLEET_PLANNING'') example_budget
      PNone example_failed))) ''a1'' = Some r' \<and> pr_version r' = 2
      \<and> planning_path APS_REPAIRING (pr_state r'))"
proof -
  let ?q = "snd (tracker_transition (PStr ''a1'') (PStr ''PLANNING'') PNone PNone example_failed)"
    and ?p = "snd (begin_repair (PStr ''a1'') (PStr ''FLEET_PLANNING'') example_budget PNone
      example_failed)"
  have q: "quiet_run example_failed ?q" by (rule r_into_rtranclp) (rule step_transition)
  have "tracker_run example_failed ?q" "tracker_run example_failed ?p"
    by (rule tracker_run_step [OF rtranclp.rtrancl_refl step_transition],
        rule tracker_run_step [OF rtranclp.rtrancl_refl step_repair])
  note run = this
  have v: "case dget (pt_records ?p) ''a1'' of None \<Rightarrow> False | Some r \<Rightarrow> pr_version r = 2"
    by code_simp
  show ?thesis
  proof
    show "\<exists>r'. dget (pt_records ?q) ''a1'' = Some r' \<and> pr_state r' = APS_FAILED"
      using planning_lifecycle [OF example_failed_run run(1) example_failed_value] q
      by (auto simp: example_failed_record_def planning_terminal_def)
    show "\<exists>r'. dget (pt_records ?p) ''a1'' = Some r' \<and> pr_version r' = 2
      \<and> planning_path APS_REPAIRING (pr_state r')"
      using planning_lifecycle [OF example_failed_run run(2) example_failed_value] v
      by (auto simp: example_failed_record_def)
  qed
qed

text \<open>
  Plan versions count repairs: in every reachable tracker the plan version of an assignment is
  one more than the total of its repair attempts, which are never negative; a repair that succeeds
  was within the budget of its stage, adds one attempt of that stage and one version, and one that
  raises changes nothing.
\<close>

theorem planning_repair_accounting:
  assumes "tracker_run tracker_init s" and "begin_repair av sv b ev s = (x, s')"
  shows "(\<forall>a r. dget (pt_records s) a = Some r \<longrightarrow>
      pr_version r = 1 + sum_list (map snd (pr_attempts r)) \<and> 0 \<le> attempts_used r stage)
    \<and> (case x of Inl e \<Rightarrow> s' = s
       | Inr r' \<Rightarrow> \<exists>a r st. av = PStr a \<and> sv = PStr (planning_stage_value st)
           \<and> dget (pt_records s) a = Some r \<and> dget (pt_records s') a = Some r'
           \<and> (\<forall>a'. a' \<noteq> a \<longrightarrow> dget (pt_records s') a' = dget (pt_records s) a')
           \<and> attempts_used r st < budget_for b st \<and> pr_version r' = pr_version r + 1
           \<and> pr_state r' = APS_REPAIRING
           \<and> (\<forall>st'. attempts_used r' st' = (if st' = st then attempts_used r st + 1
                                           else attempts_used r st')))"
proof -
  have inv: "tracker_inv s" using assms(1) by (rule tracker_run_inv)
  have "\<forall>a r. dget (pt_records s) a = Some r \<longrightarrow>
      pr_version r = 1 + sum_list (map snd (pr_attempts r)) \<and> 0 \<le> attempts_used r stage"
    using tracker_inv_record [OF inv] attempts_used_nonneg by (auto simp: planning_record_inv_def)
  moreover have "case x of Inl e \<Rightarrow> s' = s
       | Inr r' \<Rightarrow> \<exists>a r st. av = PStr a \<and> sv = PStr (planning_stage_value st)
           \<and> dget (pt_records s) a = Some r \<and> dget (pt_records s') a = Some r'
           \<and> (\<forall>a'. a' \<noteq> a \<longrightarrow> dget (pt_records s') a' = dget (pt_records s) a')
           \<and> attempts_used r st < budget_for b st \<and> pr_version r' = pr_version r + 1
           \<and> pr_state r' = APS_REPAIRING
           \<and> (\<forall>st'. attempts_used r' st' = (if st' = st then attempts_used r st + 1
                                           else attempts_used r st'))"
  proof (cases x)
    case (Inl e)
    then show ?thesis using begin_repair_cases [OF inv assms(2)] by auto
  next
    case (Inr r')
    then obtain a r st where *: "av = PStr a" "sv = PStr (planning_stage_value st)"
        "dget (pt_records s) a = Some r" "s' = s\<lparr>pt_records := dset (pt_records s) a r'\<rparr>"
        "attempts_used r st < budget_for b st" "pr_version r' = pr_version r + 1"
        "pr_state r' = APS_REPAIRING"
        "pr_attempts r' = dset (pr_attempts r) st (attempts_used r st + 1)"
      using begin_repair_cases [OF inv assms(2)] by auto
    then have "\<forall>st'. attempts_used r' st' = (if st' = st then attempts_used r st + 1
        else attempts_used r st')"
      by (auto simp: attempts_used_def dget_dset)
    moreover have "dget (pt_records s') a = Some r'"
      "\<forall>a'. a' \<noteq> a \<longrightarrow> dget (pt_records s') a' = dget (pt_records s) a'"
      using *(4) by (simp_all add: dget_dset)
    ultimately show ?thesis using * Inr by (simp only: sum.case) blast
  qed
  ultimately show ?thesis by blast
qed

theorem planning_repair_accounting_witness:
  "\<exists>r'. dget (pt_records (snd (begin_repair (PStr ''a1'') (PStr ''LOCAL_PLANNING'') example_budget
      (PStr ''bad'') example_failed))) ''a1'' = Some r' \<and> pr_version r' = 2"
proof -
  let ?m = "begin_repair (PStr ''a1'') (PStr ''LOCAL_PLANNING'') example_budget (PStr ''bad'')
    example_failed"
  have "\<not> isl (fst ?m)" by code_simp
  then obtain r' where m: "?m = (Inr r', snd ?m)" by (metis isl_def prod.collapse sum.exhaust)
  from planning_repair_accounting [OF example_failed_run m] example_failed_value
  show ?thesis by (auto simp: example_failed_record_def)
qed

text \<open>
  \<open>begin_repair\<close> does not consult the transition table: with budget left for a stage it moves
  an assignment to REPAIRING from any state, so it revives one that has SUCCEEDED, FAILED or been
  CANCELED, which \<open>transition\<close> refuses.
\<close>

theorem begin_repair_revives:
  assumes "tracker_run tracker_init s" and "dget (pt_records s) a = Some r" and "routing_id_match a"
    and "routing_id_match (pr_uav r)" and "planning_terminal (pr_state r)"
    and "attempts_used r st < budget_for b st" and "uncovered_goals (PTuple (map PStr (pr_goals r))) = Inr gs"
  shows "\<exists>r' s'. begin_repair (PStr a) (PStr (planning_stage_value st)) b PNone s = (Inr r', s')
    \<and> dget (pt_records s') a = Some r' \<and> pr_state r' = APS_REPAIRING
    \<and> isl (fst (tracker_transition (PStr a) (PStr ''REPAIRING'') PNone PNone s))"
proof -
  have ri: "planning_record_inv a r" using tracker_inv_record [OF tracker_run_inv [OF assms(1)] assms(2)] .
  let ?ats = "dset (pr_attempts r) st (attempts_used r st + 1)"
  have ok: "counts_ok ?ats"
    using ri attempts_used_nonneg [of r st] by (intro counts_ok_dset) (auto simp: planning_record_inv_def)
  have "0 \<le> sum_list (map snd (pr_attempts r))"
    using ri by (intro sum_list_nonneg) (auto simp: planning_record_inv_def counts_ok_def)
  then have v: "0 < pr_version r + 1" using ri by (simp add: planning_record_inv_def)
  have rec: "tracker_record (PStr a) s = Inr r" using assms(2,3) by (simp add: tracker_record_def)
  obtain r' where "replace_record r APS_REPAIRING (pr_version r + 1) ?ats
      (PTuple (map PStr (pr_goals r))) PNone = Inr r'"
    using assms(3,4,7) ri v attempt_counts_own [OF ok, of "[]"] AssignmentPlanningState_value [of APS_REPAIRING]
    by (auto simp: replace_record_def AssignmentPlanningRecord_def plan_version_number_def
        planning_record_inv_def)
  then have "begin_repair (PStr a) (PStr (planning_stage_value st)) b PNone s
      = (Inr r', s\<lparr>pt_records := dset (pt_records s) a r'\<rparr>)" "pr_state r' = APS_REPAIRING"
    using rec assms(6) ri replace_record_Inr [OF _ ok]
    by (auto simp: begin_repair_def planning_record_inv_def)
  moreover have "isl (fst (tracker_transition (PStr a) (PStr ''REPAIRING'') PNone PNone s))"
    using rec assms(5) AssignmentPlanningState_value [of APS_REPAIRING]
    by (auto simp: tracker_transition_def planning_terminal_def)
  ultimately show ?thesis by (simp add: dget_dset)
qed

theorem begin_repair_revives_witness:
  "\<exists>r' s'. begin_repair (PStr ''a1'') (PStr ''FLEET_PLANNING'') example_budget PNone example_failed
      = (Inr r', s') \<and> pr_state r' = APS_REPAIRING"
proof -
  have f: "routing_id_match ''a1''" "routing_id_match (pr_uav example_failed_record)"
    "planning_terminal (pr_state example_failed_record)"
    "attempts_used example_failed_record PS_FLEET_PLANNING < budget_for example_budget PS_FLEET_PLANNING"
    "uncovered_goals (PTuple (map PStr (pr_goals example_failed_record))) = Inr []"
    by code_simp+
  from begin_repair_revives [OF example_failed_run example_failed_value f] show ?thesis by auto
qed

end
