(* ===== verification/Planning_Recovery.thy ===== *)
theory Planning_Recovery
  imports Planning_State
begin

text \<open>
  \<open>fleet/planning_recovery.py\<close>: the choice between repair, degraded execution, reassignment and
  a safe action when planning output is rejected, under independent repair budgets; and
  \<open>execute_fleet_replan\<close>, which runs an injected planner and compiles each assignment on its own.

  A finding's \<open>severity\<close> and \<open>code\<close> are strings (or members of a \<open>str\<close> enumeration) or absent.  The
  planner and the compiler are arguments: functions that return a value or raise.  Fields of the
  proposal are read with \<open>attr\<close>, which is \<open>getattr\<close> on objects that are not mappings.
\<close>

section \<open>Decisions\<close>

datatype recovery_disposition =
    RD_REPAIR | RD_DEGRADED_EXECUTABLE | RD_WAITING_REASSIGNMENT | RD_KEEP_GROUNDED
  | RD_HOVER_AND_REPLAN | RD_SAFE_LAND | RD_FAILED

fun disposition_value :: "recovery_disposition \<Rightarrow> string" where
  "disposition_value RD_REPAIR = ''REPAIR''"
| "disposition_value RD_DEGRADED_EXECUTABLE = ''DEGRADED_EXECUTABLE''"
| "disposition_value RD_WAITING_REASSIGNMENT = ''WAITING_REASSIGNMENT''"
| "disposition_value RD_KEEP_GROUNDED = ''KEEP_GROUNDED''"
| "disposition_value RD_HOVER_AND_REPLAN = ''HOVER_AND_REPLAN''"
| "disposition_value RD_SAFE_LAND = ''SAFE_LAND''"
| "disposition_value RD_FAILED = ''FAILED''"

definition RecoveryDisposition :: "pyval \<Rightarrow> recovery_disposition result" where
  "RecoveryDisposition = enum_of ''RecoveryDisposition'' disposition_value
     [RD_REPAIR, RD_DEGRADED_EXECUTABLE, RD_WAITING_REASSIGNMENT, RD_KEEP_GROUNDED,
      RD_HOVER_AND_REPLAN, RD_SAFE_LAND, RD_FAILED]"

lemma RecoveryDisposition_value [simp]: "RecoveryDisposition (PStr (disposition_value d)) = Inr d"
  by (cases d) (simp_all add: RecoveryDisposition_def enum_of_def)

record recovery_decision =
  rd_disposition :: recovery_disposition
  rd_stage :: planning_stage
  rd_assignment :: "string option"
  rd_attempt :: int
  rd_next_version :: int
  rd_reasons :: "string list"
  rd_goals :: "string list"

definition ranged_int :: "string \<Rightarrow> int \<Rightarrow> pyval \<Rightarrow> int result" where
  "ranged_int name low =
     int_value (TypeError (name @ '' must be an integer''))
       (ValueError (name @ '' is outside its valid range'')) (\<lambda>i. low \<le> i)"

definition reason_code_list :: "pyval \<Rightarrow> string list result" where
  "reason_code_list v =
     rbind (py_iter v) (\<lambda>reasons.
       if reasons = [] \<or> 64 < length reasons
       then Inl (ValueError ''reason_codes must contain 1..64 bounded strings'')
       else rmap (bounded_text 128
              (ValueError ''reason_codes must contain 1..64 bounded strings'')) reasons)"

definition PlanningRecoveryDecision ::
  "pyval \<Rightarrow> pyval \<Rightarrow> pyval \<Rightarrow> pyval \<Rightarrow> pyval \<Rightarrow> pyval \<Rightarrow> pyval \<Rightarrow> pyval \<Rightarrow> recovery_decision result" where
  "PlanningRecoveryDecision disposition stage assignment attempt next_version reasons goals schema =
     rbind (schema_one schema) (\<lambda>_.
     rbind (RecoveryDisposition disposition) (\<lambda>disposition.
     rbind (PlanningStage stage) (\<lambda>stage.
     rbind (opt_check (\<lambda>v. validate_routing_id v ''assignment_id'') assignment) (\<lambda>assignment.
     rbind (ranged_int ''repair_attempt'' 0 attempt) (\<lambda>attempt.
     rbind (ranged_int ''next_plan_version'' 1 next_version) (\<lambda>next_version.
     rbind (reason_code_list reasons) (\<lambda>reasons.
     rbind (uncovered_goals goals) (\<lambda>goals.
       Inr \<lparr>rd_disposition = disposition, rd_stage = stage, rd_assignment = assignment,
            rd_attempt = attempt, rd_next_version = next_version, rd_reasons = reasons,
            rd_goals = goals\<rparr>))))))))"

definition decision_dict :: "recovery_decision \<Rightarrow> pyval" where
  "decision_dict d = PDict
     [(PStr ''schema_version'', PInt 1),
      (PStr ''disposition'', PStr (disposition_value (rd_disposition d))),
      (PStr ''stage'', PStr (planning_stage_value (rd_stage d))),
      (PStr ''assignment_id'', opt_pyval PStr (rd_assignment d)),
      (PStr ''repair_attempt'', PInt (rd_attempt d)),
      (PStr ''next_plan_version'', PInt (rd_next_version d)),
      (PStr ''reason_codes'', PList (map PStr (rd_reasons d))),
      (PStr ''uncovered_goal_ids'', PList (map PStr (rd_goals d)))]"

section \<open>Findings\<close>

record planning_finding =
  pf_severity :: "string option"
  pf_code :: "string option"

text \<open>Only ASCII letters can be raised to the two severities.\<close>

definition finding_severity :: "planning_finding \<Rightarrow> string" where
  "finding_severity f = map ascii_upper
     (case pf_severity f of None \<Rightarrow> ''RECOVERABLE_SEMANTIC_ERROR'' | Some s \<Rightarrow> s)"

definition finding_code :: "planning_finding \<Rightarrow> string" where
  "finding_code f =
     (let text = py_strip (case pf_code f of None \<Rightarrow> ''UNKNOWN_VALIDATION_ERROR'' | Some c \<Rightarrow> c)
      in if take 128 text = [] then ''UNKNOWN_VALIDATION_ERROR'' else take 128 text)"

section \<open>The coordinator\<close>

record recovery_coordinator =
  rc_budget :: repair_budget
  rc_attempts :: "((string option \<times> planning_stage) \<times> int) list"

definition default_budget :: repair_budget where
  "default_budget = \<lparr>rb_interpreter = 1, rb_fleet_plan = 2, rb_local_plan = 2\<rparr>"

definition coordinator_init :: "repair_budget option \<Rightarrow> recovery_coordinator" where
  "coordinator_init budget =
     \<lparr>rc_budget = (case budget of None \<Rightarrow> default_budget | Some b \<Rightarrow> b), rc_attempts = []\<rparr>"

definition attempts_of :: "recovery_coordinator \<Rightarrow> string option \<times> planning_stage \<Rightarrow> int" where
  "attempts_of c key = (case dget (rc_attempts c) key of None \<Rightarrow> 0 | Some n \<Rightarrow> n)"

definition finding_codes :: "planning_finding list \<Rightarrow> string list" where
  "finding_codes findings =
     (let codes = first_occurrences (map finding_code findings)
      in if codes = [] then [''PLANNING_OUTPUT_REJECTED''] else codes)"

definition is_hard :: "planning_finding list \<Rightarrow> bool" where
  "is_hard findings = list_ex (\<lambda>f. finding_severity f = ''HARD_ACTION_BLOCK''
     \<or> finding_severity f = ''FATAL_SAFETY'') findings"

text \<open>The disposition, and whether the decision uses up an attempt.\<close>

definition choose_disposition ::
  "planning_finding list \<Rightarrow> bool \<Rightarrow> bool \<Rightarrow> int \<Rightarrow> int \<Rightarrow> recovery_disposition" where
  "choose_disposition findings airborne safe_partial used limit =
     (if is_hard findings
      then if airborne \<and> list_ex (\<lambda>f. finding_severity f = ''FATAL_SAFETY'') findings
           then RD_SAFE_LAND
           else if airborne then RD_HOVER_AND_REPLAN else RD_KEEP_GROUNDED
      else if used < limit then RD_REPAIR
      else if safe_partial then RD_DEGRADED_EXECUTABLE
      else RD_WAITING_REASSIGNMENT)"

definition recovery_decide ::
  "pyval \<Rightarrow> pyval \<Rightarrow> planning_finding list \<Rightarrow> pyval \<Rightarrow> pyval \<Rightarrow> pyval \<Rightarrow> pyval \<Rightarrow> recovery_coordinator
     \<Rightarrow> recovery_decision result \<times> recovery_coordinator" where
  "recovery_decide stage version findings assignment airborne safe_partial goals c =
     checked c (PlanningStage stage) (\<lambda>stage.
     checked c (int_value (ValueError ''plan_version must be a positive integer'')
         (ValueError ''plan_version must be a positive integer'') (\<lambda>i. 0 < i) version) (\<lambda>version.
     checked c (opt_check (\<lambda>v. validate_routing_id v ''assignment_id'') assignment) (\<lambda>assignment.
     checked c (bool_value (TypeError ''airborne and safe_partial_available must be bool'') airborne)
       (\<lambda>airborne.
     checked c (bool_value (TypeError ''airborne and safe_partial_available must be bool'')
         safe_partial) (\<lambda>safe_partial.
       let codes = finding_codes findings;
           key = (assignment, stage);
           used = attempts_of c key;
           disposition = choose_disposition findings airborne safe_partial used
             (budget_for (rc_budget c) stage);
           repair = (disposition = RD_REPAIR);
           used' = (if repair then used + 1 else used);
           c' = (if repair then c\<lparr>rc_attempts := dset (rc_attempts c) key used'\<rparr> else c)
       in checked c' (rbind (py_iter goals) (\<lambda>goals.
            PlanningRecoveryDecision (PStr (disposition_value disposition))
              (PStr (planning_stage_value stage)) (opt_pyval PStr assignment) (PInt used')
              (PInt (if repair then version + 1 else version)) (PTuple (map PStr codes))
              (PTuple goals) (PInt 1)))
            (\<lambda>d. (Inr d, c')))))))"

definition attempts_for :: "pyval \<Rightarrow> pyval \<Rightarrow> recovery_coordinator \<Rightarrow> int result" where
  "attempts_for assignment stage c =
     rbind (opt_check (\<lambda>v. validate_routing_id v ''assignment_id'') assignment) (\<lambda>assignment.
     rbind (PlanningStage stage) (\<lambda>stage. Inr (attempts_of c (assignment, stage))))"

section \<open>Fleet replanning\<close>

record replan_request =
  rq_mission :: string
  rq_base_version :: int
  rq_goals :: "string list"
  rq_uavs :: "string list"
  rq_state :: "(pyval \<times> pyval) list"
  rq_reasons :: "string list"

definition unique_ids :: "(pyval \<Rightarrow> string result) \<Rightarrow> pyval \<Rightarrow> string list result" where
  "unique_ids f v = rbind (py_iter v) (rmap f)"

definition FleetReplanRequest ::
  "pyval \<Rightarrow> pyval \<Rightarrow> pyval \<Rightarrow> pyval \<Rightarrow> pyval \<Rightarrow> pyval \<Rightarrow> pyval \<Rightarrow> replan_request result" where
  "FleetReplanRequest mission base_version goals uavs state reasons schema =
     rbind (schema_one schema) (\<lambda>_.
     rbind (validate_mission_id mission) (\<lambda>mission.
     rbind (int_value (ValueError ''base_fleet_plan_version must be positive'')
         (ValueError ''base_fleet_plan_version must be positive'') (\<lambda>i. 0 < i) base_version)
       (\<lambda>base_version.
     rbind (unique_ids (\<lambda>v. validate_routing_id v ''incomplete_goal_id'') goals) (\<lambda>goals.
     rbind (unique_ids validate_uav_id uavs) (\<lambda>uavs.
     if goals = [] \<or> \<not> distinct goals
     then Inl (ValueError ''incomplete_goal_ids must be non-empty and unique'')
     else if uavs = [] \<or> \<not> distinct uavs
     then Inl (ValueError ''available_uav_ids must be non-empty and unique'')
     else rbind (py_iter reasons) (\<lambda>reasons.
          rbind (if reasons = [] then Inl (ValueError ''reason_codes must contain bounded strings'')
                 else rmap (bounded_text 128 (ValueError ''reason_codes must contain bounded strings''))
                   reasons) (\<lambda>reasons.
          case state of
            PDict d \<Rightarrow> Inr \<lparr>rq_mission = mission, rq_base_version = base_version, rq_goals = goals,
                            rq_uavs = uavs, rq_state = d, rq_reasons = reasons\<rparr>
          | _ \<Rightarrow> Inl (TypeError ''trusted_fleet_state must be a mapping''))))))))"

definition replan_request_to_dict :: "replan_request \<Rightarrow> pyval" where
  "replan_request_to_dict r = PDict
     [(PStr ''schema_version'', PInt 1),
      (PStr ''fleet_mission_id'', PStr (rq_mission r)),
      (PStr ''base_fleet_plan_version'', PInt (rq_base_version r)),
      (PStr ''incomplete_goal_ids'', PList (map PStr (rq_goals r))),
      (PStr ''available_uav_ids'', PList (map PStr (rq_uavs r))),
      (PStr ''trusted_fleet_state'', PDict (rq_state r)),
      (PStr ''reason_codes'', PList (map PStr (rq_reasons r)))]"

text \<open>A compilation is the value the compiler returned or the exception it raised.\<close>

record replan_outcome =
  ro_proposal :: pyval
  ro_compilations :: "(string \<times> pyval result) list"
  ro_version :: int

fun normalized_compilations ::
  "(pyval \<times> pyval result) list \<Rightarrow> (string \<times> pyval result) list \<Rightarrow> (string \<times> pyval result) list result"
  where
  "normalized_compilations [] acc = Inr acc"
| "normalized_compilations ((raw, compilation) # rest) acc =
     rbind (validate_routing_id raw ''compilation_assignment_id'') (\<lambda>a.
       normalized_compilations rest (dset acc a compilation))"

definition FleetReplanOutcome ::
  "pyval \<Rightarrow> (pyval \<times> pyval result) list \<Rightarrow> pyval \<Rightarrow> pyval \<Rightarrow> replan_outcome result" where
  "FleetReplanOutcome proposal compilations version schema =
     rbind (schema_one schema) (\<lambda>_.
     rbind (int_value (ValueError ''new_fleet_plan_version must be greater than one'')
         (ValueError ''new_fleet_plan_version must be greater than one'') (\<lambda>i. 1 < i) version)
       (\<lambda>version.
     if 64 < length compilations
     then Inl (ValueError ''compilations must contain at most 64 entries'')
     else rbind (normalized_compilations compilations []) (\<lambda>normalized.
       Inr \<lparr>ro_proposal = proposal, ro_compilations = normalized, ro_version = version\<rparr>)))"

definition py_field :: "(pyval \<Rightarrow> string \<Rightarrow> pyval option) \<Rightarrow> pyval \<Rightarrow> string \<Rightarrow> pyval \<Rightarrow> pyval" where
  "py_field attr v name dflt =
     (case (case v of PDict d \<Rightarrow> dget d (PStr name) | _ \<Rightarrow> attr v name) of
        None \<Rightarrow> dflt | Some x \<Rightarrow> x)"

fun compile_each ::
  "(pyval \<Rightarrow> string \<Rightarrow> pyval option) \<Rightarrow> (pyval \<Rightarrow> pyval result) \<Rightarrow> pyval list
     \<Rightarrow> (string \<times> pyval result) list \<Rightarrow> (string \<times> pyval result) list result" where
  "compile_each attr compile [] results = Inr results"
| "compile_each attr compile (assignment # rest) results =
     (case py_field attr assignment ''assignment_id'' PNone of
        PStr raw \<Rightarrow>
          rbind (validate_routing_id (PStr raw) ''assignment_id'') (\<lambda>a.
            if a \<in> set (dkeys results)
            then Inl (PlanningRecoveryError
                   ''Fleet replan proposal contains duplicate assignment_id'')
            else compile_each attr compile rest (dset results a (compile assignment)))
      | _ \<Rightarrow> Inl (PlanningRecoveryError ''replacement assignment lacks assignment_id''))"

text \<open>
  \<open>plan_method\<close> is \<open>planner.replan\<close> or else \<open>planner.plan\<close>, \<open>compile_method\<close> is
  \<open>compiler.compile_reassignment\<close> or else \<open>compiler.compile_assignment\<close>; \<open>None\<close> when neither is
  callable.
\<close>

definition execute_fleet_replan ::
  "(pyval \<Rightarrow> string \<Rightarrow> pyval option) \<Rightarrow> (replan_request \<Rightarrow> pyval result) option
     \<Rightarrow> (replan_request \<Rightarrow> pyval \<Rightarrow> pyval \<Rightarrow> pyval result) option \<Rightarrow> replan_request
     \<Rightarrow> replan_outcome result" where
  "execute_fleet_replan attr plan_method compile_method request =
     (case plan_method of
        None \<Rightarrow> Inl (TypeError ''planner must provide replan() or plan()'')
      | Some plan \<Rightarrow>
          rbind (plan request) (\<lambda>proposal.
            let raw_version = py_field attr proposal ''new_fleet_plan_version''
                  (py_field attr proposal ''fleet_plan_version'' PNone);
                expected_version = rq_base_version request + 1
            in if \<not> equals_int raw_version expected_version
               then Inl (PlanningRecoveryError
                 ''Fleet replan proposal must increment fleet_plan_version by exactly one'')
               else rbind (case py_field attr proposal ''replacement_assignments''
                        (py_field attr proposal ''assignments'' (PTuple [])) of
                    PList xs \<Rightarrow> Inr xs
                  | PTuple xs \<Rightarrow> Inr xs
                  | _ \<Rightarrow> Inl (PlanningRecoveryError
                      ''Fleet replan proposal assignments must be an array'')) (\<lambda>assignments.
                 if assignments = [] \<or> 64 < length assignments
                 then Inl (PlanningRecoveryError
                   ''Fleet replan proposal must contain 1..64 assignments'')
                 else (case compile_method of
                   None \<Rightarrow> Inl (TypeError
                     ''compiler must provide compile_reassignment() or compile_assignment()'')
                 | Some compile \<Rightarrow>
                     rbind (compile_each attr (compile request proposal) assignments []) (\<lambda>results.
                       FleetReplanOutcome proposal (map (\<lambda>(a, r). (PStr a, r)) results)
                         (PInt expected_version) (PInt 1))))))"

section \<open>What a decision does\<close>

lemma recovery_decide_cases:
  assumes "recovery_decide sv vv fs av bv pv gv c = (x, c')"
  obtains (rejected) e where "x = Inl e" "c' = c"
  | (decided) st v a air safe where "PlanningStage sv = Inr st" "vv = PInt v" "0 < v"
      "opt_check (\<lambda>v. validate_routing_id v ''assignment_id'') av = Inr a" "bv = PBool air" "pv = PBool safe"
      "c' = (if choose_disposition fs air safe (attempts_of c (a, st)) (budget_for (rc_budget c) st) = RD_REPAIR
        then c\<lparr>rc_attempts := dset (rc_attempts c) (a, st) (attempts_of c (a, st) + 1)\<rparr> else c)"
      "\<And>d. x = Inr d \<Longrightarrow>
        rd_disposition d = choose_disposition fs air safe (attempts_of c (a, st)) (budget_for (rc_budget c) st)
        \<and> rd_stage d = st \<and> rd_assignment d = a \<and> rd_attempt d = attempts_of c' (a, st)
        \<and> rd_next_version d = (if rd_disposition d = RD_REPAIR then v + 1 else v)
        \<and> rd_reasons d = finding_codes fs"
proof -
  consider e where "x = Inl e" "c' = c" | st v a air safe where "PlanningStage sv = Inr st" "vv = PInt v"
      "0 < v" "opt_check (\<lambda>v. validate_routing_id v ''assignment_id'') av = Inr a" "bv = PBool air"
      "pv = PBool safe"
    using assms unfolding recovery_decide_def
    by (cases x) (auto simp: checked_eq_Inl checked_eq_Inr Let_def int_value_Inr)
  then show ?thesis
  proof cases
    case 1
    then show ?thesis by (rule rejected)
  next
    case (2 st v a air safe)
    let ?d = "choose_disposition fs air safe (attempts_of c (a, st)) (budget_for (rc_budget c) st)"
    let ?c = "if ?d = RD_REPAIR
      then c\<lparr>rc_attempts := dset (rc_attempts c) (a, st) (attempts_of c (a, st) + 1)\<rparr> else c"
    let ?n = "if ?d = RD_REPAIR then attempts_of c (a, st) + 1 else attempts_of c (a, st)"
    have n: "attempts_of ?c (a, st) = ?n" by (simp add: attempts_of_def dget_dset)
    have eq: "checked ?c (rbind (py_iter gv) (\<lambda>goals.
        PlanningRecoveryDecision (PStr (disposition_value ?d)) (PStr (planning_stage_value st))
          (opt_pyval PStr a) (PInt ?n) (PInt (if ?d = RD_REPAIR then v + 1 else v))
          (PTuple (map PStr (finding_codes fs))) (PTuple goals) (PInt 1)))
        (\<lambda>d. (Inr d, ?c)) = (x, c')"
      using assms 2 by (simp add: recovery_decide_def Let_def cong: if_cong)
    have c': "c' = ?c" using eq by (cases x) (auto simp: checked_eq_Inl checked_eq_Inr)
    have a: "opt_check (\<lambda>v. validate_routing_id v ''assignment_id'') (opt_pyval PStr a) = Inr a"
      by (rule opt_check_again [OF 2(4)]) simp
    have codes: "rs = xs" if "reason_code_list (PTuple (map PStr xs)) = Inr rs" for rs xs
    proof -
      from that have "rmap (bounded_text 128
          (ValueError ''reason_codes must contain 1..64 bounded strings'')) (map PStr xs) = Inr rs"
        by (auto simp: reason_code_list_def split: if_splits)
      then have "map PStr xs = map PStr rs" by (rule rmap_id [rotated]) (simp add: bounded_text_Inr)
      then show ?thesis by (simp add: inj_map_eq_map inj_def)
    qed
    have "rd_disposition d = ?d \<and> rd_stage d = st \<and> rd_assignment d = a \<and> rd_attempt d = ?n
        \<and> rd_next_version d = (if ?d = RD_REPAIR then v + 1 else v) \<and> rd_reasons d = finding_codes fs"
      if d: "x = Inr d" for d
    proof -
      from eq obtain gs where "PlanningRecoveryDecision (PStr (disposition_value ?d))
          (PStr (planning_stage_value st)) (opt_pyval PStr a) (PInt ?n)
          (PInt (if ?d = RD_REPAIR then v + 1 else v)) (PTuple (map PStr (finding_codes fs)))
          (PTuple gs) (PInt 1) = Inr d"
        unfolding d checked_eq_Inr rbind_eq_Inr by blast
      then show ?thesis
        using codes unfolding PlanningRecoveryDecision_def rbind_eq_Inr ranged_int_def int_value_Inr a
        by auto
    qed
    then show ?thesis using decided [OF 2 c'] n c' by simp
  qed
qed

section \<open>Runs\<close>

inductive recovery_step :: "recovery_coordinator \<Rightarrow> recovery_coordinator \<Rightarrow> bool" where
  step_decide: "recovery_step c (snd (recovery_decide sv vv fs av bv pv gv c))"

abbreviation recovery_run :: "recovery_coordinator \<Rightarrow> recovery_coordinator \<Rightarrow> bool" where
  "recovery_run \<equiv> recovery_step\<^sup>*\<^sup>*"

lemma choose_repair:
  "choose_disposition fs air safe n l = RD_REPAIR \<longleftrightarrow> \<not> is_hard fs \<and> n < l"
  by (simp add: choose_disposition_def)

lemma recovery_step_attempts:
  assumes "recovery_step c c'"
  shows "rc_budget c' = rc_budget c \<and> attempts_of c key \<le> attempts_of c' key
    \<and> attempts_of c' key \<le> max (attempts_of c key) (budget_for (rc_budget c) (snd key))"
  using assms
proof cases
  case (step_decide sv vv fs av bv pv gv)
  show ?thesis
    unfolding step_decide
    by (rule recovery_decide_cases [OF prod.collapse [symmetric], of sv vv fs av bv pv gv c])
      (auto simp: attempts_of_def dget_dset choose_repair split: option.splits if_splits)
qed

lemma recovery_run_attempts:
  "recovery_run c c' \<Longrightarrow> rc_budget c' = rc_budget c \<and> attempts_of c key \<le> attempts_of c' key
    \<and> attempts_of c' key \<le> max (attempts_of c key) (budget_for (rc_budget c) (snd key))"
proof (induction rule: rtranclp_induct)
  case (step d e)
  then show ?case using recovery_step_attempts [OF step(2), of key] by auto
qed simp

section \<open>Properties\<close>

text \<open>
  C8. Repair is bounded and never overrides safety: whatever findings arrive in whatever order, the
  repairs granted to one assignment in one stage never decrease and never exceed the budget of that
  stage; a decision is REPAIR exactly when no finding is a hard action block or fatal and budget is
  left, only then is the plan version raised (by one), and a fatal finding while airborne always
  lands the UAV.
\<close>

theorem recovery_budget_respected:
  assumes "PlanningRepairBudget bi bf bl = Inr b" and "recovery_run (coordinator_init (Some b)) c"
    and "recovery_decide sv vv fs av bv pv gv c = (Inr d, c')"
  shows "attempts_of c (rd_assignment d, rd_stage d) \<le> attempts_of c' (rd_assignment d, rd_stage d)
    \<and> attempts_of c' (a, st) \<le> budget_for b st
    \<and> (rd_disposition d = RD_REPAIR \<longleftrightarrow>
         \<not> is_hard fs \<and> attempts_of c (rd_assignment d, rd_stage d) < budget_for b (rd_stage d))
    \<and> (rd_disposition d = RD_REPAIR \<longleftrightarrow> PInt (rd_next_version d) \<noteq> vv)
    \<and> (rd_disposition d = RD_SAFE_LAND \<longleftrightarrow>
         bv = PBool True \<and> list_ex (\<lambda>f. finding_severity f = ''FATAL_SAFETY'') fs)"
proof -
  have b: "0 \<le> budget_for b s" for s
    using assms(1) by (cases s) (auto simp: PlanningRepairBudget_def rbind_eq_Inr budget_field_def
        int_value_Inr)
  have step: "recovery_step c c'" using step_decide [of c sv vv fs av bv pv gv] assms(3) by simp
  have run: "recovery_run (coordinator_init (Some b)) c'" using assms(2) step by simp
  have bud: "rc_budget c = b" "attempts_of c' (a, st) \<le> budget_for b st"
    using recovery_run_attempts [OF assms(2)] recovery_run_attempts [OF run, of "(a, st)"] b
    by (simp_all add: coordinator_init_def attempts_of_def)
  from assms(3) show ?thesis
  proof (cases rule: recovery_decide_cases)
    case (decided st' v a' air safe)
    note d = decided(8) [OF refl]
    have "rd_disposition d = RD_SAFE_LAND \<longleftrightarrow>
         air \<and> list_ex (\<lambda>f. finding_severity f = ''FATAL_SAFETY'') fs"
      using d by (auto simp: choose_disposition_def is_hard_def list_ex_iff)
    then show ?thesis
      using d bud recovery_step_attempts [OF step, of "(a', st')"] choose_repair
      by (simp add: decided(2,5))
  qed simp
qed

definition example_coordinator :: recovery_coordinator where
  "example_coordinator = snd (recovery_decide (PStr ''LOCAL_PLANNING'') (PInt 1) [] (PStr ''a1'')
     (PBool False) (PBool False) (PTuple []) (coordinator_init (Some example_budget)))"

lemma example_coordinator_run: "recovery_run (coordinator_init (Some example_budget)) example_coordinator"
  unfolding example_coordinator_def by (rule r_into_rtranclp) (rule step_decide)

lemma example_budget_init: "PlanningRepairBudget (PInt 1) (PInt 2) (PInt 2) = Inr example_budget"
  by (simp add: PlanningRepairBudget_def budget_field_def example_budget_def)

theorem recovery_budget_respected_witness:
  "\<exists>d c'. recovery_decide (PStr ''LOCAL_PLANNING'') (PInt 2) [] (PStr ''a1'') (PBool False) (PBool False)
      (PTuple []) example_coordinator = (Inr d, c') \<and> rd_disposition d = RD_REPAIR
    \<and> rd_next_version d = 3 \<and> attempts_of c' (Some ''a1'', PS_LOCAL_PLANNING) \<le> 2"
proof -
  let ?m = "recovery_decide (PStr ''LOCAL_PLANNING'') (PInt 2) [] (PStr ''a1'') (PBool False) (PBool False)
      (PTuple []) example_coordinator"
  have "\<not> isl (fst ?m)" by code_simp
  then obtain d where m: "?m = (Inr d, snd ?m)" by (metis isl_def prod.collapse sum.exhaust)
  have "case fst ?m of Inl e \<Rightarrow> False | Inr d \<Rightarrow> rd_next_version d = 3 \<and> rd_disposition d = RD_REPAIR"
    by code_simp
  then have "rd_next_version d = 3" "rd_disposition d = RD_REPAIR"
    by (simp_all add: arg_cong [OF m, of fst])
  with recovery_budget_respected [OF example_budget_init example_coordinator_run m,
      of "Some ''a1''" PS_LOCAL_PLANNING] m
  show ?thesis by (auto simp: example_budget_def)
qed

text \<open>
  A repair attempt is used up even when the decision is not made: if the uncovered goals passed
  in are invalid, \<open>decide\<close> raises, but the attempt it would have granted is already counted.
\<close>

theorem recovery_attempt_lost:
  assumes "PlanningStage sv = Inr st" and "0 < v" and "routing_id_match a"
    and "\<not> is_hard fs" and "attempts_of c (Some a, st) < budget_for (rc_budget c) st"
    and "isl (rbind (py_iter gv) (\<lambda>xs. uncovered_goals (PTuple xs)))"
  shows "\<exists>e c'. recovery_decide sv (PInt v) fs (PStr a) (PBool air) (PBool safe) gv c = (Inl e, c')
    \<and> attempts_of c' (Some a, st) = attempts_of c (Some a, st) + 1"
proof -
  obtain x c' where r: "recovery_decide sv (PInt v) fs (PStr a) (PBool air) (PBool safe) gv c = (x, c')"
    by fastforce
  have oc: "opt_check (\<lambda>v. validate_routing_id v ''assignment_id'') (PStr a) = Inr (Some a)"
    using assms(3) by (simp add: opt_check_def)
  have rep: "choose_disposition fs air safe (attempts_of c (Some a, st)) (budget_for (rc_budget c) st)
      = RD_REPAIR" using assms(4,5) by (simp add: choose_repair)
  let ?c = "c\<lparr>rc_attempts := dset (rc_attempts c) (Some a, st) (attempts_of c (Some a, st) + 1)\<rparr>"
  have eq: "checked ?c (rbind (py_iter gv) (\<lambda>goals.
        PlanningRecoveryDecision (PStr (disposition_value RD_REPAIR)) (PStr (planning_stage_value st))
          (PStr a) (PInt (attempts_of c (Some a, st) + 1)) (PInt (v + 1))
          (PTuple (map PStr (finding_codes fs))) (PTuple goals) (PInt 1)))
        (\<lambda>d. (Inr d, ?c)) = (x, c')"
    using r assms(1,2) oc rep by (simp add: recovery_decide_def Let_def int_value_def)
  have "x \<noteq> Inr d" for d
  proof
    assume x: "x = Inr d"
    from eq obtain xs gs where "py_iter gv = Inr xs" "uncovered_goals (PTuple xs) = Inr gs"
      unfolding x checked_eq_Inr rbind_eq_Inr PlanningRecoveryDecision_def by blast
    then show False using assms(6) by simp
  qed
  then obtain e where x: "x = Inl e" by (cases x) auto
  then have "c' = ?c" using eq by (auto simp: checked_eq_Inl)
  then have "attempts_of c' (Some a, st) = attempts_of c (Some a, st) + 1"
    by (simp add: attempts_of_def dget_dset)
  then show ?thesis using r x by blast
qed

theorem recovery_attempt_lost_witness:
  "\<exists>e c'. recovery_decide (PStr ''LOCAL_PLANNING'') (PInt 1) [] (PStr ''a1'') (PBool False) (PBool False)
      (PTuple [PStr ''g1'', PStr ''g1'']) (coordinator_init (Some example_budget)) = (Inl e, c')
    \<and> attempts_of c' (Some ''a1'', PS_LOCAL_PLANNING) = 1"
proof -
  let ?c = "coordinator_init (Some example_budget)"
  have p: "PlanningStage (PStr ''LOCAL_PLANNING'') = Inr PS_LOCAL_PLANNING"
    using PlanningStage_value [of PS_LOCAL_PLANNING] by simp
  have f: "routing_id_match ''a1''" "\<not> is_hard []"
    "attempts_of ?c (Some ''a1'', PS_LOCAL_PLANNING) < budget_for (rc_budget ?c) PS_LOCAL_PLANNING"
    "isl (rbind (py_iter (PTuple [PStr ''g1'', PStr ''g1''])) (\<lambda>xs. uncovered_goals (PTuple xs)))"
    by code_simp+
  have one: "(0::int) < 1" by simp
  have z: "attempts_of ?c (Some ''a1'', PS_LOCAL_PLANNING) = 0" by code_simp
  from recovery_attempt_lost [OF p one f] z show ?thesis by simp
qed

text \<open>Compiling the assignments of a proposal one by one.\<close>

lemma compile_each_Inr:
  assumes "compile_each attr cmp xs acc = Inr res" and "dict_ok acc"
  shows "\<exists>ids. map (\<lambda>x. py_field attr x ''assignment_id'' PNone) xs = map PStr ids
    \<and> res = acc @ zip ids (map cmp xs) \<and> length ids = length xs \<and> dict_ok res
    \<and> list_all routing_id_match ids"
  using assms
proof (induction xs arbitrary: acc)
  case Nil
  then show ?case by auto
next
  case (Cons x rest)
  then obtain raw where raw: "py_field attr x ''assignment_id'' PNone = PStr raw" "routing_id_match raw"
    "raw \<notin> set (dkeys acc)" "compile_each attr cmp rest (dset acc raw (cmp x)) = Inr res"
    by (auto simp: rbind_eq_Inr split: pyval.splits if_splits)
  have app: "dset acc raw (cmp x) = acc @ [(raw, cmp x)]" by (rule dset_new [OF raw(3)])
  from Cons.IH [OF raw(4)] Cons.prems(2) raw(3) obtain ids
    where "map (\<lambda>x. py_field attr x ''assignment_id'' PNone) rest = map PStr ids"
      "res = (acc @ [(raw, cmp x)]) @ zip ids (map cmp rest)" "length ids = length rest" "dict_ok res"
      "list_all routing_id_match ids"
    unfolding app by (metis app dict_ok_dset)
  then show ?case by (intro exI [of _ "raw # ids"]) (auto simp: raw(1,2))
qed

lemma normalized_own:
  "dict_ok (acc @ rs) \<Longrightarrow> \<forall>a\<in>set (dkeys rs). routing_id_match a \<Longrightarrow>
    normalized_compilations (map (\<lambda>(a, r). (PStr a, r)) rs) acc = Inr (acc @ rs)"
proof (induction rs arbitrary: acc)
  case (Cons e rs)
  obtain a r where e: "e = (a, r)" by (cases e)
  then have "dset acc a r = acc @ [(a, r)]" using Cons.prems(1) by (intro dset_new) auto
  then show ?case using Cons e by auto
qed simp

text \<open>
  A fleet replan succeeds with the next version and nothing silently dropped: the proposal's
  version is the base version plus one, its assignments have distinct valid identifiers, and the
  outcome holds exactly one entry for each of them in order, the compiler's value or the exception
  it raised for that assignment, so one failing compilation never hides another.
\<close>

theorem fleet_replan_outcome:
  assumes "execute_fleet_replan attr (Some plan) (Some cmp) request = Inr out"
  shows "\<exists>proposal xs ids. plan request = Inr proposal \<and> ro_proposal out = proposal
    \<and> ro_version out = rq_base_version request + 1
    \<and> equals_int (py_field attr proposal ''new_fleet_plan_version''
         (py_field attr proposal ''fleet_plan_version'' PNone)) (rq_base_version request + 1)
    \<and> py_field attr proposal ''replacement_assignments''
         (py_field attr proposal ''assignments'' (PTuple [])) \<in> {PList xs, PTuple xs}
    \<and> 1 \<le> length xs \<and> length xs \<le> 64
    \<and> map (\<lambda>x. py_field attr x ''assignment_id'' PNone) xs = map PStr ids \<and> distinct ids
    \<and> ro_compilations out = zip ids (map (cmp request proposal) xs)"
proof -
  from assms obtain proposal xs res where p: "plan request = Inr proposal"
      "equals_int (py_field attr proposal ''new_fleet_plan_version''
         (py_field attr proposal ''fleet_plan_version'' PNone)) (rq_base_version request + 1)"
    and xs: "py_field attr proposal ''replacement_assignments''
         (py_field attr proposal ''assignments'' (PTuple [])) \<in> {PList xs, PTuple xs}"
      "xs \<noteq> []" "length xs \<le> 64"
    and res: "compile_each attr (cmp request proposal) xs [] = Inr res"
    and out: "FleetReplanOutcome proposal (map (\<lambda>(a, r). (PStr a, r)) res)
        (PInt (rq_base_version request + 1)) (PInt 1) = Inr out"
    by (auto simp: execute_fleet_replan_def rbind_eq_Inr Let_def not_less split: if_splits pyval.splits)
  from compile_each_Inr [OF res] obtain ids
    where ids: "map (\<lambda>x. py_field attr x ''assignment_id'' PNone) xs = map PStr ids"
      "res = zip ids (map (cmp request proposal) xs)" "length ids = length xs" "dict_ok res"
      "list_all routing_id_match ids" by auto
  have keys: "dkeys res = ids" using ids(2,3) by simp
  have "ro_proposal out = proposal" "ro_version out = rq_base_version request + 1"
    "ro_compilations out = res"
    using out normalized_own [of "[]" res] ids(4,5) keys
    by (auto simp: FleetReplanOutcome_def rbind_eq_Inr int_value_Inr list_all_iff split: if_splits)
  moreover have "distinct ids" using ids(4) keys by simp
  moreover have "1 \<le> length xs" using xs(2) by (cases xs) auto
  ultimately show ?thesis using p xs(1,3) ids(1,2) by blast
qed

definition example_proposal :: pyval where
  "example_proposal = PDict [(PStr ''fleet_plan_version'', PInt 2), (PStr ''assignments'',
     PList [PDict [(PStr ''assignment_id'', PStr ''a1'')], PDict [(PStr ''assignment_id'', PStr ''a2'')]])]"

definition example_request :: replan_request where
  "example_request = \<lparr>rq_mission = ''m1'', rq_base_version = 1, rq_goals = [''g1''], rq_uavs = [''u1''],
     rq_state = [], rq_reasons = [''lost'']\<rparr>"

theorem fleet_replan_outcome_witness:
  "\<exists>out. execute_fleet_replan (\<lambda>_ _. None) (Some (\<lambda>_. Inr example_proposal))
      (Some (\<lambda>_ _ x. if py_field (\<lambda>_ _. None) x ''assignment_id'' PNone = PStr ''a1''
         then Inl (RuntimeError ''no route'') else Inr x)) example_request = Inr out
    \<and> ro_version out = 2 \<and> length (ro_compilations out) = 2"
proof -
  let ?cmp = "\<lambda>_ _ x. if py_field (\<lambda>_ _. None) x ''assignment_id'' PNone = PStr ''a1''
         then Inl (RuntimeError ''no route'') else Inr x"
  let ?r = "execute_fleet_replan (\<lambda>_ _. None) (Some (\<lambda>_. Inr example_proposal)) (Some ?cmp) example_request"
  have "\<not> isl ?r" by code_simp
  then obtain out where out: "?r = Inr out" by (cases ?r) auto
  have "case ?r of Inl e \<Rightarrow> False | Inr ot \<Rightarrow> length (ro_compilations ot) = 2" by code_simp
  then have "length (ro_compilations out) = 2" by (simp only: out sum.case)
  with fleet_replan_outcome [OF out] out show ?thesis by (auto simp: example_request_def)
qed

end
