(* ===== verification/Task_Plan.thy ===== *)
theory Task_Plan
  imports Routing_Ids
begin

text \<open>
  \<open>skills/plan.py\<close>: the linear plan the runtime executes.  A step has an identifier, a skill, a
  mapping of parameters and, for TRACK only, a bounded recovery policy; a plan is a non-empty
  sequence of steps with distinct identifiers.

  Parameters are \<open>pyval\<close>s; a \<open>StepOutputRef\<close> is \<open>PStepRef\<close> of its two fields and a
  \<open>TrustedTargetRef\<close> is \<open>PTrustedRef\<close>; an enumeration member is \<open>PEnum\<close> of its class and name, another
  dataclass object \<open>PData\<close> of its class and fields.  \<open>deepcopy\<close> of a value is the value.  \<open>str_of\<close> is \<open>str()\<close> of
  a mapping key that is not a string.
\<close>

section \<open>Skills and identifiers\<close>

datatype skill_name =
    SK_TAKEOFF | SK_GOTO | SK_FOLLOW_ROUTE | SK_HOVER | SK_SEARCH | SK_INSPECT | SK_TRACK
  | SK_REACQUIRE | SK_LAND

fun skill_value :: "skill_name \<Rightarrow> string" where
  "skill_value SK_TAKEOFF = ''TAKEOFF''"
| "skill_value SK_GOTO = ''GOTO''"
| "skill_value SK_FOLLOW_ROUTE = ''FOLLOW_ROUTE''"
| "skill_value SK_HOVER = ''HOVER''"
| "skill_value SK_SEARCH = ''SEARCH''"
| "skill_value SK_INSPECT = ''INSPECT''"
| "skill_value SK_TRACK = ''TRACK''"
| "skill_value SK_REACQUIRE = ''REACQUIRE''"
| "skill_value SK_LAND = ''LAND''"

definition SkillName :: "pyval \<Rightarrow> skill_name result" where
  "SkillName = enum_of ''SkillName'' skill_value
     [SK_TAKEOFF, SK_GOTO, SK_FOLLOW_ROUTE, SK_HOVER, SK_SEARCH, SK_INSPECT, SK_TRACK,
      SK_REACQUIRE, SK_LAND]"

definition parse_skill :: "string \<Rightarrow> pyval \<Rightarrow> skill_name result" where
  "parse_skill field_name v =
     (case v of
        PStr s \<Rightarrow>
          (case SkillName (PStr (map ascii_upper s)) of
             Inl e \<Rightarrow> Inl (TaskPlanError (''unknown '' @ field_name @ '': '' @ s))
           | Inr k \<Rightarrow> Inr k)
      | _ \<Rightarrow> Inl (TaskPlanError (field_name @ '' must be a SkillName or string'')))"

definition lower_alpha :: "char \<Rightarrow> bool" where
  "lower_alpha c = (let n = of_char c :: int in 97 \<le> n \<and> n \<le> 122)"

definition step_char :: "char \<Rightarrow> bool" where
  "step_char c = (lower_alpha c \<or> id_digit c \<or> c = CHR ''_'')"

definition step_id_match :: "string \<Rightarrow> bool" where
  "step_id_match s =
     (case s of [] \<Rightarrow> False | c # cs \<Rightarrow> lower_alpha c \<and> list_all step_char cs \<and> length cs \<le> 31)"

definition field_match :: "string \<Rightarrow> bool" where
  "field_match s = (case s of [] \<Rightarrow> False | c # cs \<Rightarrow> lower_alpha c \<and> list_all step_char cs)"

definition parse_step_id :: "pyval \<Rightarrow> string result" where
  "parse_step_id v =
     (case v of
        PStr s \<Rightarrow> if step_id_match s then Inr s
                 else Inl (TaskPlanError ''step_id must match ^[a-z][a-z0-9_]{0,31}$'')
      | _ \<Rightarrow> Inl (TaskPlanError ''step_id must match ^[a-z][a-z0-9_]{0,31}$''))"

definition plan_number :: "string \<Rightarrow> pyval \<Rightarrow> rat result" where
  "plan_number name =
     real_value (TaskPlanError (name @ '' must be a finite number''))
       (TaskPlanError (name @ '' must be a finite number'')) (\<lambda>x. True)"

section \<open>References\<close>

definition StepOutputRef :: "pyval \<Rightarrow> pyval \<Rightarrow> pyval result" where
  "StepOutputRef step_id field =
     rbind (parse_step_id step_id) (\<lambda>s.
       if field \<noteq> PStr ''target_id''
       then Inl (TaskPlanError
              (''StepOutputRef.field must be '' @ [CHR 0x27] @ ''target_id'' @ [CHR 0x27]))
       else Inr (PStepRef s ''target_id''))"

text \<open>The pattern of a step output: a dollar sign, a step identifier, a dot, a field name.\<close>

definition output_match :: "string \<Rightarrow> (string \<times> string) option" where
  "output_match s =
     (case s of
        [] \<Rightarrow> None
      | c # rest \<Rightarrow>
          let step = takeWhile (\<lambda>c. c \<noteq> CHR ''.'') rest; tail = dropWhile (\<lambda>c. c \<noteq> CHR ''.'') rest
          in if c = CHR ''$'' \<and> step_id_match step \<and> tail \<noteq> [] \<and> field_match (tl tail)
             then Some (step, tl tail) else None)"

definition ref_from_string :: "pyval \<Rightarrow> pyval result" where
  "ref_from_string v =
     (case v of
        PStr s \<Rightarrow>
          (case output_match s of
             None \<Rightarrow> Inl (TaskPlanError ''step output reference must use $<step_id>.target_id'')
           | Some (i, f) \<Rightarrow> StepOutputRef (PStr i) (PStr f))
      | _ \<Rightarrow> Inl (TaskPlanError ''step output reference must be a string''))"

definition ref_to_string :: "string \<Rightarrow> string \<Rightarrow> string" where
  "ref_to_string step_id field = ''$'' @ step_id @ ''.'' @ field"

definition TrustedTargetRef :: "pyval \<Rightarrow> pyval result" where
  "TrustedTargetRef v =
     rbind (validate_routing_id v ''TrustedTargetRef.target_id'') (\<lambda>t. Inr (PTrustedRef t))"

section \<open>Recovery policies\<close>

record recovery_policy =
  rp_max_attempts :: int
  rp_radius :: rat
  rp_timeout :: rat

definition RecoveryPolicy :: "pyval \<Rightarrow> pyval \<Rightarrow> pyval \<Rightarrow> pyval \<Rightarrow> recovery_policy result" where
  "RecoveryPolicy skill max_attempts radius timeout =
     rbind (parse_skill ''recovery skill'' skill) (\<lambda>skill.
     if skill \<noteq> SK_REACQUIRE
     then Inl (TaskPlanError ''RecoveryPolicy.skill must be REACQUIRE'')
     else rbind (int_value (TaskPlanError ''RecoveryPolicy.max_attempts must be an integer'')
              (TaskPlanError ''RecoveryPolicy.max_attempts must be between 0 and 2'')
              (\<lambda>i. 0 \<le> i \<and> i \<le> 2) max_attempts) (\<lambda>max_attempts.
          rbind (plan_number ''RecoveryPolicy.search_radius_m'' radius) (\<lambda>radius.
          rbind (plan_number ''RecoveryPolicy.timeout_s'' timeout) (\<lambda>timeout.
          if \<not> (3 \<le> radius \<and> radius \<le> 20)
          then Inl (TaskPlanError ''RecoveryPolicy.search_radius_m must be between 3 and 20'')
          else if \<not> (5 \<le> timeout \<and> timeout \<le> 60)
          then Inl (TaskPlanError ''RecoveryPolicy.timeout_s must be between 5 and 60'')
          else Inr \<lparr>rp_max_attempts = max_attempts, rp_radius = radius, rp_timeout = timeout\<rparr>))))"

definition recovery_fields :: "string list" where
  "recovery_fields = [''max_attempts'', ''search_radius_m'', ''skill'', ''timeout_s'']"

definition recovery_from_dict :: "pyval \<Rightarrow> recovery_policy result" where
  "recovery_from_dict v =
     (case v of
        PDict d \<Rightarrow>
          (case string_keys d of
             None \<Rightarrow> Inl (TypeError ''recovery keys cannot be sorted and joined'')
           | Some e \<Rightarrow>
               let unknown = sort (filter (\<lambda>k. k \<notin> set recovery_fields) (first_occurrences (dkeys e)));
                   missing = filter (\<lambda>k. k \<notin> set (dkeys e)) recovery_fields
               in if unknown \<noteq> []
                  then Inl (TaskPlanError (''unknown recovery field(s): '' @ py_join '', '' unknown))
                  else if missing \<noteq> []
                  then Inl (TaskPlanError (''missing recovery field(s): '' @ py_join '', '' missing))
                  else RecoveryPolicy (the (dget e ''skill'')) (the (dget e ''max_attempts''))
                         (the (dget e ''search_radius_m'')) (the (dget e ''timeout_s'')))
      | _ \<Rightarrow> Inl (TaskPlanError ''recovery must be a mapping''))"

definition recovery_to_dict :: "recovery_policy \<Rightarrow> pyval" where
  "recovery_to_dict r = PDict
     [(PStr ''skill'', PStr ''REACQUIRE''),
      (PStr ''max_attempts'', PInt (rp_max_attempts r)),
      (PStr ''search_radius_m'', PFloat (Fin (rp_radius r))),
      (PStr ''timeout_s'', PFloat (Fin (rp_timeout r)))]"

section \<open>Steps\<close>

record task_step =
  ts_id :: string
  ts_skill :: skill_name
  ts_params :: "(string \<times> pyval) list"
  ts_recovery :: "recovery_policy option"

datatype recovery_arg = RecPolicy recovery_policy | RecValue pyval

definition parse_recovery :: "recovery_arg \<Rightarrow> recovery_policy option result" where
  "parse_recovery r =
     (case r of
        RecPolicy p \<Rightarrow> Inr (Some p)
      | RecValue PNone \<Rightarrow> Inr None
      | RecValue (PDict d) \<Rightarrow> rbind (recovery_from_dict (PDict d)) (\<lambda>p. Inr (Some p))
      | RecValue _ \<Rightarrow> Inl (TaskPlanError ''TaskStep.recovery must be a RecoveryPolicy or mapping''))"

definition LEGACY_SEARCH_TARGET_REF :: string where
  "LEGACY_SEARCH_TARGET_REF = ''$SEARCH.result.target_id''"

text \<open>The TRACK target: a \<open>$\<close> string other than the legacy one becomes a reference.\<close>

definition bind_track_target ::
  "skill_name \<Rightarrow> (string \<times> pyval) list \<Rightarrow> (string \<times> pyval) list result" where
  "bind_track_target skill params =
     (if skill \<noteq> SK_TRACK then Inr params
      else case dget params ''target_id'' of
        Some (PStr t) \<Rightarrow>
          if t \<noteq> LEGACY_SEARCH_TARGET_REF \<and> take 1 t = ''$''
          then rbind (ref_from_string (PStr t)) (\<lambda>r. Inr (dset params ''target_id'' r))
          else Inr params
      | _ \<Rightarrow> Inr params)"

definition reserved_fields :: "string list" where
  "reserved_fields = [''id'', ''recovery'', ''skill'']"

definition check_params :: "pyval \<Rightarrow> (string \<times> pyval) list result" where
  "check_params params =
     (case params of
        PDict d \<Rightarrow>
          (case string_keys d of
             None \<Rightarrow> Inl (TaskPlanError ''TaskStep.params keys must be strings'')
           | Some e \<Rightarrow>
               let reserved = filter (\<lambda>k. k \<in> set (dkeys e)) reserved_fields
               in if reserved \<noteq> []
                  then Inl (TaskPlanError
                    (''TaskStep.params contains reserved field(s): '' @ py_join '', '' reserved))
                  else Inr e)
      | _ \<Rightarrow> Inl (TaskPlanError ''TaskStep.params must be a mapping''))"

definition legacy_step_id :: "skill_name \<Rightarrow> string" where
  "legacy_step_id k = ''legacy_'' @ map ascii_lower (skill_value k)"

definition TaskStep :: "pyval \<Rightarrow> pyval \<Rightarrow> pyval \<Rightarrow> recovery_arg \<Rightarrow> task_step result" where
  "TaskStep step_id skill params recovery =
     rbind (case (skill, params) of
              (PDict d, PNone) \<Rightarrow>
                rbind (parse_skill ''Skill name'' step_id) (\<lambda>k.
                  Inr (legacy_step_id k, k, skill))
            | _ \<Rightarrow>
                rbind (parse_step_id step_id) (\<lambda>i.
                rbind (parse_skill ''Skill name'' skill) (\<lambda>k. Inr (i, k, params))))
       (\<lambda>(i, k, params).
     if k = SK_REACQUIRE
     then Inl (TaskPlanError ''REACQUIRE cannot be a top-level TaskStep'')
     else rbind (check_params params) (\<lambda>params.
          rbind (bind_track_target k params) (\<lambda>params.
          rbind (parse_recovery recovery) (\<lambda>recovery.
          if recovery \<noteq> None \<and> k \<noteq> SK_TRACK
          then Inl (TaskPlanError ''recovery is only allowed on TRACK TaskStep values'')
          else Inr \<lparr>ts_id = i, ts_skill = k, ts_params = params, ts_recovery = recovery\<rparr>))))"

text \<open>
  \<open>_to_json_compatible\<close>: equal keys after \<open>str()\<close> collapse, as in the source's comprehension; an
  enumeration member becomes its name and a dataclass instance the mapping of its fields.
\<close>

fun json_compatible :: "(pyval \<Rightarrow> string) \<Rightarrow> pyval \<Rightarrow> pyval" where
  "json_compatible str_of (PStepRef i f) = PStr (ref_to_string i f)"
| "json_compatible str_of (PTrustedRef t) =
     PDict [(PStr ''kind'', PStr ''TRUSTED_TARGET''), (PStr ''target_id'', PStr t)]"
| "json_compatible str_of (PDict d) =
     PDict (foldl (\<lambda>acc (k, v). dset acc k v) []
       (map (\<lambda>e. (case fst e of PStr s \<Rightarrow> PStr s | k \<Rightarrow> PStr (str_of k), json_compatible str_of (snd e))) d))"
| "json_compatible str_of (PEnum c n) = PStr n"
| "json_compatible str_of (PTuple xs) = PList (map (json_compatible str_of) xs)"
| "json_compatible str_of (PList xs) = PList (map (json_compatible str_of) xs)"
| "json_compatible str_of (PData c fs) =
     PDict (map (\<lambda>e. (PStr (fst e), json_compatible str_of (snd e))) fs)"
| "json_compatible str_of v = v"

definition step_to_dict :: "(pyval \<Rightarrow> string) \<Rightarrow> task_step \<Rightarrow> (pyval \<times> pyval) list" where
  "step_to_dict str_of s =
     [(PStr ''id'', PStr (ts_id s)), (PStr ''skill'', PStr (skill_value (ts_skill s)))]
     @ map (\<lambda>(k, v). (PStr k, json_compatible str_of v)) (ts_params s)
     @ (case ts_recovery s of None \<Rightarrow> [] | Some r \<Rightarrow> [(PStr ''recovery'', recovery_to_dict r)])"

section \<open>Plans\<close>

record task_plan =
  tp_steps :: "task_step list"
  tp_mission :: string
  tp_uav :: string
  tp_version :: int

text \<open>\<open>str(exc)\<close> of the two exceptions the identifier checks raise.\<close>

fun exn_text :: "exn \<Rightarrow> string" where
  "exn_text (TypeError m) = m"
| "exn_text (ValueError m) = m"
| "exn_text _ = []"

definition as_plan_error :: "'a result \<Rightarrow> 'a result" where
  "as_plan_error r = (case r of Inl e \<Rightarrow> Inl (TaskPlanError (exn_text e)) | Inr x \<Rightarrow> Inr x)"

definition TaskPlan :: "task_step list \<Rightarrow> pyval \<Rightarrow> pyval \<Rightarrow> pyval \<Rightarrow> task_plan result" where
  "TaskPlan steps mission uav version =
     (if steps = [] then Inl (TaskPlanError ''TaskPlan.steps must be a non-empty tuple'')
      else if \<not> distinct (map ts_id steps)
      then Inl (TaskPlanError ''TaskPlan step ids must be unique'')
      else if list_ex (\<lambda>s. ts_skill s = SK_REACQUIRE) steps
      then Inl (TaskPlanError ''TaskPlan must not contain top-level REACQUIRE'')
      else rbind (as_plan_error (validate_mission_id mission)) (\<lambda>mission.
           rbind (as_plan_error (validate_uav_id uav)) (\<lambda>uav.
           rbind (int_value (TaskPlanError ''TaskPlan.plan_version must be a positive integer'')
               (TaskPlanError ''TaskPlan.plan_version must be a positive integer'') (\<lambda>i. 0 < i) version)
             (\<lambda>version.
           Inr \<lparr>tp_steps = steps, tp_mission = mission, tp_uav = uav, tp_version = version\<rparr>))))"

text \<open>\<open>f"step_{n:02d}"\<close>, and the search for the first free name from a number on.\<close>

definition step_name :: "nat \<Rightarrow> string" where
  "step_name n = ''step_'' @ (if n < 10 then ''0'' else []) @ decimal n"

lemma step_name_inj: "step_name m = step_name n \<longleftrightarrow> m = n"
proof -
  have "undecimal (drop 5 (step_name n)) 0 = n" for n
    using undecimal_decimal [of n] by (simp add: step_name_def)
  then show ?thesis by metis
qed

function free_step_number :: "string list \<Rightarrow> nat \<Rightarrow> nat" where
  "free_step_number used n =
     (if step_name n \<in> set used then free_step_number used (Suc n) else n)"
  by pat_completeness auto
termination
proof (relation "measure (\<lambda>(used, n). card {m. n \<le> m \<and> step_name m \<in> set used})", goal_cases)
  case (2 used n)
  have "finite (step_name -` set used)"
    by (rule finite_vimageI) (auto simp: inj_def step_name_inj)
  then have "finite {m. n \<le> m \<and> step_name m \<in> set used}"
    by (rule finite_subset [rotated]) auto
  moreover have "{m. Suc n \<le> m \<and> step_name m \<in> set used} \<subset> {m. n \<le> m \<and> step_name m \<in> set used}"
  proof (rule psubsetI)
    have "n \<in> {m. n \<le> m \<and> step_name m \<in> set used}" using 2 by simp
    moreover have "n \<notin> {m. Suc n \<le> m \<and> step_name m \<in> set used}" by simp
    ultimately show "{m. Suc n \<le> m \<and> step_name m \<in> set used} \<noteq> {m. n \<le> m \<and> step_name m \<in> set used}"
      by metis
  qed auto
  ultimately show ?case by (simp add: psubset_card_mono)
qed simp

declare free_step_number.simps [simp del]

definition explicit_ids :: "pyval list \<Rightarrow> string list" where
  "explicit_ids entries = concat (map (\<lambda>e. case e of
     PDict d \<Rightarrow> (case dget d (PStr ''id'') of Some (PStr s) \<Rightarrow> [s] | _ \<Rightarrow> [])
   | _ \<Rightarrow> []) entries)"

text \<open>One entry: its identifier (given or generated), skill, recovery and the other parameters.\<close>

definition parse_entry ::
  "string list \<Rightarrow> string list \<Rightarrow> nat \<Rightarrow> pyval \<Rightarrow> (task_step \<times> string list) result" where
  "parse_entry explicit generated index entry =
     (case entry of
        PDict d \<Rightarrow>
          (case string_keys d of
             None \<Rightarrow> Inl (TaskPlanError (''task plan entry '' @ decimal index @ '' keys must be strings''))
           | Some e \<Rightarrow>
               if ''skill'' \<notin> set (dkeys e)
               then Inl (TaskPlanError (''task plan entry '' @ decimal index @ '' is missing skill''))
               else
                 let fresh = step_name (free_step_number (explicit @ generated) (index + 1));
                     (step_id, generated) = (case dget e ''id'' of
                         Some v \<Rightarrow> (v, generated)
                       | None \<Rightarrow> (PStr fresh, generated @ [fresh]));
                     params = ddel (ddel (ddel e ''id'') ''skill'') ''recovery''
                 in rbind (TaskStep step_id (the (dget e ''skill''))
                        (PDict (map (\<lambda>(k, v). (PStr k, v)) params))
                        (RecValue (case dget e ''recovery'' of None \<Rightarrow> PNone | Some v \<Rightarrow> v)))
                      (\<lambda>step. Inr (step, generated)))
      | _ \<Rightarrow> Inl (TaskPlanError (''task plan entry '' @ decimal index @ '' must be a mapping'')))"

fun parse_entries ::
  "string list \<Rightarrow> string list \<Rightarrow> nat \<Rightarrow> pyval list \<Rightarrow> task_step list result" where
  "parse_entries explicit generated index [] = Inr []"
| "parse_entries explicit generated index (entry # rest) =
     rbind (parse_entry explicit generated index entry) (\<lambda>(step, generated).
     rbind (parse_entries explicit generated (Suc index) rest) (\<lambda>steps. Inr (step # steps)))"

definition plan_from_dicts :: "pyval \<Rightarrow> pyval \<Rightarrow> pyval \<Rightarrow> pyval \<Rightarrow> task_plan result" where
  "plan_from_dicts entries mission uav version =
     rbind (case entries of PList xs \<Rightarrow> Inr xs | PTuple xs \<Rightarrow> Inr xs
            | _ \<Rightarrow> Inl (TaskPlanError ''task plan must be a sequence of mappings'')) (\<lambda>xs.
     rbind (parse_entries (explicit_ids xs) [] 0 xs) (\<lambda>steps.
       TaskPlan steps mission uav version))"

definition plan_to_dicts :: "(pyval \<Rightarrow> string) \<Rightarrow> task_plan \<Rightarrow> pyval" where
  "plan_to_dicts str_of p = PList (map (\<lambda>s. PDict (step_to_dict str_of s)) (tp_steps p))"

definition plan_to_dict :: "(pyval \<Rightarrow> string) \<Rightarrow> task_plan \<Rightarrow> pyval" where
  "plan_to_dict str_of p = PDict
     [(PStr ''mission_id'', PStr (tp_mission p)),
      (PStr ''uav_id'', PStr (tp_uav p)),
      (PStr ''plan_version'', PInt (tp_version p)),
      (PStr ''steps'', plan_to_dicts str_of p)]"

section \<open>Parsing facts\<close>

lemma SkillName_value [simp]: "SkillName (PStr (skill_value k)) = Inr k"
  by (cases k) (simp_all add: SkillName_def enum_of_def)

lemma skill_value_upper [simp]: "map ascii_upper (skill_value k) = skill_value k"
  by (cases k) (simp_all add: ascii_upper_def)

lemma parse_skill_value [simp]: "parse_skill f (PStr (skill_value k)) = Inr k"
  by (simp add: parse_skill_def)

lemma parse_step_id_Inr [simp]: "parse_step_id v = Inr s \<longleftrightarrow> v = PStr s \<and> step_id_match s"
  by (auto simp: parse_step_id_def split: pyval.splits)

lemma parse_step_id_PStr [simp]: "step_id_match s \<Longrightarrow> parse_step_id (PStr s) = Inr s"
  by simp

lemma step_id_match_no_dot: "step_id_match s \<Longrightarrow> c \<in> set s \<Longrightarrow> c \<noteq> CHR ''.''"
proof -
  have "\<not> step_char CHR ''.''" by code_simp
  then show "step_id_match s \<Longrightarrow> c \<in> set s \<Longrightarrow> c \<noteq> CHR ''.''"
    by (auto simp: step_id_match_def step_char_def list_all_iff split: list.splits)
qed

lemma output_match_to_string:
  assumes "step_id_match s" and "field_match f"
  shows "output_match (ref_to_string s f) = Some (s, f)"
proof -
  have nd: "\<And>c. c \<in> set s \<Longrightarrow> c \<noteq> CHR ''.''" using step_id_match_no_dot [OF assms(1)] by blast
  then have "takeWhile (\<lambda>c. c \<noteq> CHR ''.'') (s @ ''.'' @ f) = s"
    "dropWhile (\<lambda>c. c \<noteq> CHR ''.'') (s @ ''.'' @ f) = ''.'' @ f"
    by (simp_all add: takeWhile_append2 dropWhile_append2)
  then show ?thesis using assms by (simp add: output_match_def ref_to_string_def)
qed

lemma output_match_Some: "output_match s = Some (i, f) \<Longrightarrow> s = ref_to_string i f \<and> step_id_match i"
proof -
  assume m: "output_match s = Some (i, f)"
  then obtain rest where s: "s = CHR ''$'' # rest" and i: "i = takeWhile (\<lambda>c. c \<noteq> CHR ''.'') rest"
    and t: "dropWhile (\<lambda>c. c \<noteq> CHR ''.'') rest \<noteq> []" "f = tl (dropWhile (\<lambda>c. c \<noteq> CHR ''.'') rest)"
    and ok: "step_id_match i"
    by (auto simp: output_match_def Let_def split: list.splits if_splits)
  from t(1) have "hd (dropWhile (\<lambda>c. c \<noteq> CHR ''.'') rest) = CHR ''.''"
    using hd_dropWhile by blast
  with t have "dropWhile (\<lambda>c. c \<noteq> CHR ''.'') rest = CHR ''.'' # f" by (metis list.collapse)
  then have "rest = i @ CHR ''.'' # f" using i by (metis takeWhile_dropWhile_id)
  with s ok show ?thesis by (simp add: ref_to_string_def)
qed

lemma ref_from_string_Inr:
  "ref_from_string (PStr s) = Inr r \<longleftrightarrow>
     (\<exists>i. step_id_match i \<and> s = ref_to_string i ''target_id'' \<and> r = PStepRef i ''target_id'')"
proof
  assume "ref_from_string (PStr s) = Inr r"
  then show "\<exists>i. step_id_match i \<and> s = ref_to_string i ''target_id'' \<and> r = PStepRef i ''target_id''"
    by (auto simp: ref_from_string_def StepOutputRef_def rbind_eq_Inr dest!: output_match_Some
        split: option.splits if_splits)
next
  have "field_match ''target_id''" by code_simp
  then show "\<exists>i. step_id_match i \<and> s = ref_to_string i ''target_id'' \<and> r = PStepRef i ''target_id'' \<Longrightarrow>
      ref_from_string (PStr s) = Inr r"
    by (auto simp: ref_from_string_def StepOutputRef_def output_match_to_string)
qed

definition policy_ok :: "recovery_policy \<Rightarrow> bool" where
  "policy_ok r \<longleftrightarrow> 0 \<le> rp_max_attempts r \<and> rp_max_attempts r \<le> 2 \<and> 3 \<le> rp_radius r
     \<and> rp_radius r \<le> 20 \<and> 5 \<le> rp_timeout r \<and> rp_timeout r \<le> 60"

lemma RecoveryPolicy_ok: "RecoveryPolicy sk m r t = Inr p \<Longrightarrow> policy_ok p"
  by (auto simp: RecoveryPolicy_def rbind_eq_Inr int_value_Inr policy_ok_def split: if_splits)

lemma recovery_round_trip:
  assumes "policy_ok p"
  shows "recovery_from_dict (recovery_to_dict p) = Inr p"
proof -
  have "string_keys [(PStr ''skill'', PStr ''REACQUIRE''), (PStr ''max_attempts'', PInt (rp_max_attempts p)),
      (PStr ''search_radius_m'', PFloat (Fin (rp_radius p))), (PStr ''timeout_s'', PFloat (Fin (rp_timeout p)))]
    = Some [(''skill'', PStr ''REACQUIRE''), (''max_attempts'', PInt (rp_max_attempts p)),
      (''search_radius_m'', PFloat (Fin (rp_radius p))), (''timeout_s'', PFloat (Fin (rp_timeout p)))]"
    by simp
  moreover have "parse_skill ''recovery skill'' (PStr ''REACQUIRE'') = Inr SK_REACQUIRE"
    using parse_skill_value [of _ SK_REACQUIRE] by simp
  ultimately show ?thesis
    using assms by (simp add: recovery_from_dict_def recovery_to_dict_def recovery_fields_def
        RecoveryPolicy_def plan_number_def policy_ok_def)
qed

section \<open>Well-formed steps\<close>

text \<open>The TRACK target is a reference, a plain value or the legacy reference, never another \<open>$\<close> string.\<close>

definition target_resolved :: "task_step \<Rightarrow> bool" where
  "target_resolved s \<longleftrightarrow> (\<forall>t. ts_skill s = SK_TRACK \<longrightarrow> dget (ts_params s) ''target_id'' = Some (PStr t) \<longrightarrow>
     t = LEGACY_SEARCH_TARGET_REF \<or> take 1 t \<noteq> ''$'')"

lemma target_resolved_code [code]:
  "target_resolved s \<longleftrightarrow> ts_skill s \<noteq> SK_TRACK \<or>
     (case dget (ts_params s) ''target_id'' of
        Some (PStr t) \<Rightarrow> t = LEGACY_SEARCH_TARGET_REF \<or> take 1 t \<noteq> ''$'' | _ \<Rightarrow> True)"
  by (auto simp: target_resolved_def split: option.splits pyval.splits)

definition step_ok :: "task_step \<Rightarrow> bool" where
  "step_ok s \<longleftrightarrow> step_id_match (ts_id s) \<and> ts_skill s \<noteq> SK_REACQUIRE
     \<and> list_all (\<lambda>k. k \<notin> set (dkeys (ts_params s))) reserved_fields \<and> target_resolved s
     \<and> (case ts_recovery s of None \<Rightarrow> True | Some r \<Rightarrow> ts_skill s = SK_TRACK \<and> policy_ok r)"

lemma check_params_Inr:
  "check_params v = Inr e \<longleftrightarrow> v = PDict (map (\<lambda>(k, x). (PStr k, x)) e)
     \<and> list_all (\<lambda>k. k \<notin> set (dkeys e)) reserved_fields"
  by (auto simp: check_params_def string_keys_Some Let_def filter_empty_conv list_all_iff
      split: pyval.splits option.splits if_splits)

lemma bind_track_target_Inr:
  assumes "bind_track_target k ps = Inr qs"
  shows "set (dkeys qs) = set (dkeys ps) \<and> (\<forall>t. k = SK_TRACK \<longrightarrow>
    dget qs ''target_id'' = Some (PStr t) \<longrightarrow> t = LEGACY_SEARCH_TARGET_REF \<or> take 1 t \<noteq> ''$'')"
proof (cases "k = SK_TRACK \<and> (\<exists>t. dget ps ''target_id'' = Some (PStr t) \<and> t \<noteq> LEGACY_SEARCH_TARGET_REF
    \<and> take 1 t = ''$'')")
  case True
  then obtain t where t: "dget ps ''target_id'' = Some (PStr t)" by blast
  then have "''target_id'' \<in> set (dkeys ps)" by (metis dget_None option.distinct(1))
  moreover obtain i where "qs = dset ps ''target_id'' (PStepRef i ''target_id'')"
    using assms True t by (auto simp: bind_track_target_def rbind_eq_Inr ref_from_string_Inr)
  ultimately show ?thesis by (auto simp: dset_keys dget_dset)
next
  case False
  then have "qs = ps" using assms
    by (auto simp: bind_track_target_def split: option.splits pyval.splits if_splits)
  then show ?thesis using False by blast
qed

lemma parse_recovery_ok:
  "parse_recovery r = Inr (Some p) \<Longrightarrow> (\<forall>q. r = RecPolicy q \<longrightarrow> policy_ok q) \<Longrightarrow> policy_ok p"
  by (auto simp: parse_recovery_def rbind_eq_Inr recovery_from_dict_def Let_def
      split: recovery_arg.splits pyval.splits option.splits if_splits dest: RecoveryPolicy_ok)

lemma TaskStep_ok:
  assumes "TaskStep iv sv pv rv = Inr s" and "\<forall>q. rv = RecPolicy q \<longrightarrow> policy_ok q"
  shows "step_ok s"
proof -
  have leg: "step_id_match (legacy_step_id k)" for k
    by (cases k) (simp_all add: legacy_step_id_def step_id_match_def step_char_def lower_alpha_def ascii_lower_def)
  from assms(1) obtain i k pd where h: "(case (sv, pv) of
              (PDict d, PNone) \<Rightarrow>
                rbind (parse_skill ''Skill name'' iv) (\<lambda>k. Inr (legacy_step_id k, k, sv))
            | _ \<Rightarrow>
                rbind (parse_step_id iv) (\<lambda>i.
                rbind (parse_skill ''Skill name'' sv) (\<lambda>k. Inr (i, k, pv)))) = Inr (i, k, pd)"
    and k: "k \<noteq> SK_REACQUIRE"
    and t: "rbind (check_params pd) (\<lambda>params. rbind (bind_track_target k params) (\<lambda>params.
        rbind (parse_recovery rv) (\<lambda>recovery. if recovery \<noteq> None \<and> k \<noteq> SK_TRACK
          then Inl (TaskPlanError ''recovery is only allowed on TRACK TaskStep values'')
          else Inr \<lparr>ts_id = i, ts_skill = k, ts_params = params, ts_recovery = recovery\<rparr>))) = Inr s"
    unfolding TaskStep_def rbind_eq_Inr by (auto simp: rbind_eq_Inr split: if_splits)
  have i: "step_id_match i"
    using h leg by (auto simp: rbind_eq_Inr split: pyval.splits)
  from t obtain ps qs r where ps: "list_all (\<lambda>k. k \<notin> set (dkeys ps)) reserved_fields"
      "bind_track_target k ps = Inr qs"
    and r: "parse_recovery rv = Inr r" "r = None \<or> k = SK_TRACK"
    and s: "s = \<lparr>ts_id = i, ts_skill = k, ts_params = qs, ts_recovery = r\<rparr>"
    unfolding rbind_eq_Inr check_params_Inr by (auto split: if_splits)
  show ?thesis
    using i k ps(1) bind_track_target_Inr [OF ps(2)] r parse_recovery_ok assms(2)
    by (auto simp: step_ok_def target_resolved_def s list_all_iff split: option.splits)
qed

lemma free_step_number_spec:
  "n \<le> free_step_number used n \<and> step_name (free_step_number used n) \<notin> set used
     \<and> (\<forall>m. n \<le> m \<and> m < free_step_number used n \<longrightarrow> step_name m \<in> set used)"
proof (induction used n rule: free_step_number.induct)
  case (1 used n)
  show ?case
  proof (cases "step_name n \<in> set used")
    case True
    then have "free_step_number used n = free_step_number used (Suc n)"
      by (simp add: free_step_number.simps [of used n])
    with 1 [OF True] True show ?thesis by (metis Suc_leD Suc_leI le_neq_implies_less)
  next
    case False
    then show ?thesis by (auto simp: free_step_number.simps [of used n])
  qed
qed

text \<open>What an entry contributes: its own identifier, or a fresh one.\<close>

definition own_id :: "pyval \<Rightarrow> string list" where
  "own_id e = (case e of
     PDict d \<Rightarrow> (case dget d (PStr ''id'') of Some (PStr s) \<Rightarrow> [s] | _ \<Rightarrow> []) | _ \<Rightarrow> [])"

lemma explicit_ids_Cons [simp]: "explicit_ids (e # es) = own_id e @ explicit_ids es"
  by (simp add: explicit_ids_def own_id_def)

lemma dget_PStr: "dget (map (\<lambda>(k, v). (PStr k, v)) e) (PStr k) = dget e k"
  by (induction e) auto

lemma TaskStep_id: "TaskStep iv sv (PDict ps) rv = Inr s \<Longrightarrow> iv = PStr (ts_id s)"
  by (auto simp: TaskStep_def rbind_eq_Inr split: if_splits pyval.splits)

lemma parse_entry_Inr:
  assumes "parse_entry ex gen n e = Inr (s, gen')"
  shows "step_ok s \<and> ((own_id e = [ts_id s] \<and> gen' = gen)
    \<or> (own_id e = [] \<and> gen' = gen @ [ts_id s] \<and> ts_id s \<notin> set ex \<and> ts_id s \<notin> set gen))"
proof -
  from assms obtain d where e: "e = PDict (map (\<lambda>(k, v). (PStr k, v)) d)"
    and sk: "''skill'' \<in> set (dkeys d)"
    by (auto simp: parse_entry_def string_keys_Some split: pyval.splits option.splits if_splits)
  let ?f = "step_name (free_step_number (ex @ gen) (n + 1))"
  have f: "?f \<notin> set ex" "?f \<notin> set gen" using free_step_number_spec [of "n + 1" "ex @ gen"] by auto
  have o: "own_id e = (case dget d ''id'' of Some (PStr s) \<Rightarrow> [s] | _ \<Rightarrow> [])"
    by (simp add: own_id_def e dget_PStr)
  show ?thesis
  proof (cases "dget d ''id''")
    case None
    then have "TaskStep (PStr ?f) (the (dget d ''skill''))
        (PDict (map (\<lambda>(k, v). (PStr k, v)) (ddel (ddel (ddel d ''id'') ''skill'') ''recovery'')))
        (RecValue (case dget d ''recovery'' of None \<Rightarrow> PNone | Some v \<Rightarrow> v)) = Inr s"
      "gen' = gen @ [?f]"
      using assms sk by (auto simp: parse_entry_def e Let_def rbind_eq_Inr)
    with TaskStep_id TaskStep_ok f o None show ?thesis by fastforce
  next
    case (Some v)
    then have t: "TaskStep v (the (dget d ''skill''))
        (PDict (map (\<lambda>(k, v). (PStr k, v)) (ddel (ddel (ddel d ''id'') ''skill'') ''recovery'')))
        (RecValue (case dget d ''recovery'' of None \<Rightarrow> PNone | Some v \<Rightarrow> v)) = Inr s"
      "gen' = gen"
      using assms sk by (auto simp: parse_entry_def e Let_def rbind_eq_Inr)
    then have "v = PStr (ts_id s)" using TaskStep_id by blast
    then have "own_id e = [ts_id s]" using o Some by simp
    moreover have "step_ok s" using t(1) by (rule TaskStep_ok) simp
    ultimately show ?thesis using t(2) by blast
  qed
qed

lemma parse_entries_Inr:
  assumes "parse_entries ex gen n es = Inr steps" and "set (explicit_ids es) \<subseteq> set ex"
    and "set gen \<inter> set ex = {}"
  shows "length steps = length es \<and> list_all step_ok steps
    \<and> set (map ts_id steps) \<subseteq> set (explicit_ids es) \<union> (- (set ex \<union> set gen))
    \<and> (distinct (explicit_ids es) \<longrightarrow> distinct (map ts_id steps))"
  using assms
proof (induction es arbitrary: gen n steps)
  case (Cons e es)
  then obtain s gen' rest where s: "parse_entry ex gen n e = Inr (s, gen')"
    and rest: "parse_entries ex gen' (Suc n) es = Inr rest" and st: "steps = s # rest"
    by (auto simp: rbind_eq_Inr)
  note ps = parse_entry_Inr [OF s]
  have gen': "set gen' \<inter> set ex = {}" "set gen \<subseteq> set gen'" using ps Cons.prems(3) by auto
  note IH = Cons.IH [OF rest _ gen'(1)]
  have sub: "set (explicit_ids es) \<subseteq> set ex" "set (own_id e) \<subseteq> set ex" using Cons.prems(2) by auto
  note IH = IH [OF sub(1)]
  have out: "ts_id s \<notin> set (map ts_id rest)" if "distinct (explicit_ids (e # es))"
    using ps IH that sub gen'(1) by auto
  have "set (map ts_id rest) \<subseteq> set (explicit_ids es) \<union> (- (set ex \<union> set gen))"
    using IH gen'(2) by blast
  moreover have "ts_id s \<in> set (own_id e) \<union> (- (set ex \<union> set gen))" using ps by auto
  ultimately have "set (map ts_id steps) \<subseteq> set (explicit_ids (e # es)) \<union> (- (set ex \<union> set gen))"
    unfolding st by auto
  then show ?case using ps IH out unfolding st by simp
qed simp

section \<open>Round trip\<close>

text \<open>Values that serialization leaves alone: JSON values, with lists, no tuples, and string keys.\<close>

fun json_plain :: "pyval \<Rightarrow> bool" where
  "json_plain (PStepRef i f) = False"
| "json_plain (PTrustedRef t) = False"
| "json_plain (PTuple xs) = False"
| "json_plain (PEnum c n) = False"
| "json_plain (PData c fs) = False"
| "json_plain (PObj n) = False"
| "json_plain (PList xs) = list_all json_plain xs"
| "json_plain (PDict d) = (dict_ok d \<and>
     list_all (\<lambda>e. (case fst e of PStr s \<Rightarrow> True | _ \<Rightarrow> False) \<and> json_plain (snd e)) d)"
| "json_plain v = True"

definition is_target_ref :: "skill_name \<Rightarrow> string \<Rightarrow> pyval \<Rightarrow> bool" where
  "is_target_ref k key v = (k = SK_TRACK \<and> key = ''target_id'' \<and>
     (case v of PStepRef i f \<Rightarrow> step_id_match i \<and> f = ''target_id'' | _ \<Rightarrow> False))"

lemma is_target_ref_iff:
  "is_target_ref k key v \<longleftrightarrow>
     k = SK_TRACK \<and> key = ''target_id'' \<and> (\<exists>i. v = PStepRef i ''target_id'' \<and> step_id_match i)"
  by (cases v) (auto simp: is_target_ref_def)

definition step_plain :: "task_step \<Rightarrow> bool" where
  "step_plain s \<longleftrightarrow> dict_ok (ts_params s)
     \<and> list_all (\<lambda>(k, v). json_plain v \<or> is_target_ref (ts_skill s) k v) (ts_params s)"

lemma foldl_dset:
  "dict_ok (acc @ d) \<Longrightarrow> foldl (\<lambda>acc (k, v). dset acc k v) acc d = acc @ d"
proof (induction d arbitrary: acc)
  case (Cons e d)
  obtain k v where e: "e = (k, v)" by (cases e)
  then have "dset acc k v = acc @ [(k, v)]" using Cons.prems by (intro dset_new) auto
  with Cons e show ?case by simp
qed simp

lemma json_compatible_plain: "json_plain v \<Longrightarrow> json_compatible str_of v = v"
proof (induction v rule: json_plain.induct)
  case (7 xs)
  then show ?case by (simp add: list_all_iff map_idI)
next
  case (8 d)
  have "map (\<lambda>e. (case fst e of PStr s \<Rightarrow> PStr s | k \<Rightarrow> PStr (str_of k), json_compatible str_of (snd e))) d = d"
    using 8 by (intro map_idI) (auto simp: list_all_iff split: pyval.splits)
  moreover have "foldl (\<lambda>acc (k, v). dset acc k v) [] d = d"
    using foldl_dset [of "[]" d] 8(2) by simp
  ultimately show ?case by simp
qed auto

text \<open>The parameters as serialized.\<close>

definition shown_params :: "(pyval \<Rightarrow> string) \<Rightarrow> task_step \<Rightarrow> (string \<times> pyval) list" where
  "shown_params str_of s = map (\<lambda>(k, v). (k, json_compatible str_of v)) (ts_params s)"

lemma shown_params_keys [simp]: "dkeys (shown_params str_of s) = dkeys (ts_params s)"
  by (auto simp: shown_params_def)

lemma shown_params_get:
  "dget (shown_params str_of s) k = map_option (json_compatible str_of) (dget (ts_params s) k)"
  by (simp add: shown_params_def map_of_map)

lemma dset_restores:
  assumes "dict_ok ps" and "dget ps k = Some r" and "\<And>j v. (j, v) \<in> set ps \<Longrightarrow> j \<noteq> k \<Longrightarrow> f v = v"
  shows "dset (map (\<lambda>(j, v). (j, f v)) ps) k r = ps"
  using assms
proof (induction ps)
  case (Cons e ps)
  obtain j v where e: "e = (j, v)" by (cases e)
  show ?case
  proof (cases "j = k")
    case True
    then have "\<And>j' v'. (j', v') \<in> set ps \<Longrightarrow> f v' = v'"
      using Cons.prems e by (metis key_mem list.set_intros(2) distinct.simps(2) list.simps(9) fst_conv list.set_map)
    then have "map (\<lambda>(j, v). (j, f v)) ps = ps" by (auto intro!: map_idI)
    then show ?thesis using True Cons.prems(2) e by simp
  next
    case False
    then have "dset (map (\<lambda>(j, v). (j, f v)) ps) k r = ps"
      using Cons e by (intro Cons.IH) auto
    then show ?thesis using False Cons.prems(3) [of j v] e by simp
  qed
qed simp

lemma bind_shown_params:
  assumes "step_ok s" and "step_plain s"
  shows "bind_track_target (ts_skill s) (shown_params str_of s) = Inr (ts_params s)"
proof -
  let ?f = "json_compatible str_of"
  have plain: "?f v = v" if "(k, v) \<in> set (ts_params s)" "\<not> is_target_ref (ts_skill s) k v" for k v
    using assms(2) that json_compatible_plain by (auto simp: step_plain_def list_all_iff)
  have d: "dict_ok (ts_params s)" using assms(2) by (simp add: step_plain_def)
  show ?thesis
  proof (cases "\<exists>v. dget (ts_params s) ''target_id'' = Some v \<and> is_target_ref (ts_skill s) ''target_id'' v")
    case True
    then obtain i where i: "dget (ts_params s) ''target_id'' = Some (PStepRef i ''target_id'')"
      "step_id_match i" "ts_skill s = SK_TRACK"
      by (auto simp: is_target_ref_iff)
    have "ref_to_string i ''target_id'' \<noteq> LEGACY_SEARCH_TARGET_REF"
    proof
      assume eq: "ref_to_string i ''target_id'' = LEGACY_SEARCH_TARGET_REF"
      obtain c cs where "i = c # cs" "lower_alpha c"
        using i(2) by (auto simp: step_id_match_def split: list.splits)
      moreover have "\<not> lower_alpha CHR ''S''" by code_simp
      ultimately show False using eq by (auto simp: ref_to_string_def LEGACY_SEARCH_TARGET_REF_def)
    qed
    moreover have "dset (shown_params str_of s) ''target_id'' (PStepRef i ''target_id'') = ts_params s"
      unfolding shown_params_def using d i(1) plain
      by (intro dset_restores) (auto simp: is_target_ref_iff)
    ultimately show ?thesis
      using i ref_from_string_Inr [of "ref_to_string i ''target_id''" "PStepRef i ''target_id''"]
      by (simp add: bind_track_target_def shown_params_get ref_to_string_def)
  next
    case False
    then have nt: "\<not> is_target_ref (ts_skill s) k v" if "(k, v) \<in> set (ts_params s)" for k v
      using that d dget_mem [OF d] by (auto simp: is_target_ref_iff)
    then have "shown_params str_of s = ts_params s"
      unfolding shown_params_def using plain by (intro map_idI) auto
    then show ?thesis
      using assms(1) by (auto simp: bind_track_target_def step_ok_def target_resolved_def
          split: option.splits pyval.splits)
  qed
qed

text \<open>The serialized step as a string-keyed mapping.\<close>

definition shown_step :: "(pyval \<Rightarrow> string) \<Rightarrow> task_step \<Rightarrow> (string \<times> pyval) list" where
  "shown_step str_of s = [(''id'', PStr (ts_id s)), (''skill'', PStr (skill_value (ts_skill s)))]
     @ shown_params str_of s
     @ (case ts_recovery s of None \<Rightarrow> [] | Some r \<Rightarrow> [(''recovery'', recovery_to_dict r)])"

lemma step_to_dict_shown: "step_to_dict str_of s = map (\<lambda>(k, v). (PStr k, v)) (shown_step str_of s)"
  by (auto simp: step_to_dict_def shown_step_def shown_params_def split: option.splits)

lemma shown_step_get:
  assumes "step_ok s"
  shows "dget (shown_step str_of s) ''id'' = Some (PStr (ts_id s))"
    and "dget (shown_step str_of s) ''skill'' = Some (PStr (skill_value (ts_skill s)))"
    and "dget (shown_step str_of s) ''recovery'' = map_option recovery_to_dict (ts_recovery s)"
    and "ddel (ddel (ddel (shown_step str_of s) ''id'') ''skill'') ''recovery'' = shown_params str_of s"
proof -
  have r: "''id'' \<notin> set (dkeys (shown_params str_of s))" "''skill'' \<notin> set (dkeys (shown_params str_of s))"
    "''recovery'' \<notin> set (dkeys (shown_params str_of s))"
    using assms by (auto simp: step_ok_def reserved_fields_def)
  then have n: "dget (shown_params str_of s) ''recovery'' = None"
    by (simp only: dget_None not_False_eq_True)
  show "dget (shown_step str_of s) ''id'' = Some (PStr (ts_id s))"
    "dget (shown_step str_of s) ''skill'' = Some (PStr (skill_value (ts_skill s)))"
    by (simp_all add: shown_step_def)
  show "dget (shown_step str_of s) ''recovery'' = map_option recovery_to_dict (ts_recovery s)"
    using n by (simp add: shown_step_def map_add_def split: option.split)
  have f: "filter (\<lambda>e. fst e \<noteq> k) (shown_params str_of s) = shown_params str_of s"
    if "k \<notin> set (dkeys (shown_params str_of s))" for k
    using that ddel_absent [of k "shown_params str_of s"] by (simp add: ddel_filter)
  show "ddel (ddel (ddel (shown_step str_of s) ''id'') ''skill'') ''recovery'' = shown_params str_of s"
    using f [OF r(1)] f [OF r(2)] f [OF r(3)]
    by (simp add: shown_step_def ddel_filter split: option.split del: filter_filter)
qed

lemma TaskStep_shown:
  assumes ok: "step_ok s" and pl: "step_plain s"
  shows "TaskStep (PStr (ts_id s)) (PStr (skill_value (ts_skill s)))
      (PDict (map (\<lambda>(k, v). (PStr k, v)) (shown_params str_of s)))
      (RecValue (case map_option recovery_to_dict (ts_recovery s) of None \<Rightarrow> PNone | Some v \<Rightarrow> v)) = Inr s"
proof -
  have cp: "check_params (PDict (map (\<lambda>(k, v). (PStr k, v)) (shown_params str_of s)))
      = Inr (shown_params str_of s)"
    using ok by (simp add: check_params_Inr step_ok_def)
  define rv where "rv = RecValue (case map_option recovery_to_dict (ts_recovery s) of
      None \<Rightarrow> PNone | Some v \<Rightarrow> v)"
  have pr: "parse_recovery rv = Inr (ts_recovery s)"
    using ok recovery_round_trip
    by (auto simp: rv_def parse_recovery_def step_ok_def recovery_to_dict_def split: option.splits)
  show ?thesis
    using ok unfolding rv_def [symmetric]
    by (auto simp: TaskStep_def cp pr bind_shown_params [OF ok pl] step_ok_def split: option.splits)
qed

lemma parse_shown_step:
  assumes ok: "step_ok s" and pl: "step_plain s"
  shows "parse_entry ex gen n (PDict (step_to_dict str_of s)) = Inr (s, gen)"
proof -
  note g = shown_step_get [OF ok, of str_of]
  have "''skill'' \<in> set (dkeys (shown_step str_of s))"
    using g(2) by (metis dget_None option.distinct(1))
  then show ?thesis
    using TaskStep_shown [OF ok pl, of str_of] by (simp add: parse_entry_def step_to_dict_shown g Let_def)
qed

lemma parse_shown_steps:
  "list_all (\<lambda>s. step_ok s \<and> step_plain s) steps \<Longrightarrow>
     parse_entries ex gen n (map (\<lambda>s. PDict (step_to_dict str_of s)) steps) = Inr steps"
  by (induction steps arbitrary: n) (simp_all add: parse_shown_step)

section \<open>Properties\<close>

definition example_entries :: "pyval list" where
  "example_entries =
     [PDict [(PStr ''skill'', PStr ''search''), (PStr ''radius_m'', PInt 8)],
      PDict [(PStr ''id'', PStr ''step_03''), (PStr ''skill'', PStr ''TRACK''),
        (PStr ''target_id'', PStr ''$step_01.target_id''),
        (PStr ''recovery'', PDict [(PStr ''skill'', PStr ''REACQUIRE''), (PStr ''max_attempts'', PInt 1),
           (PStr ''search_radius_m'', PInt 5), (PStr ''timeout_s'', PInt 20)])],
      PDict [(PStr ''skill'', PStr ''LAND'')]]"

definition example_plan :: task_plan where
  "example_plan = (case plan_from_dicts (PList example_entries) (PStr ''m1'') (PStr ''u1'') (PInt 1) of
     Inl e \<Rightarrow> \<lparr>tp_steps = [], tp_mission = [], tp_uav = [], tp_version = 0\<rparr> | Inr p \<Rightarrow> p)"

lemma example_plan_parsed:
  "plan_from_dicts (PList example_entries) (PStr ''m1'') (PStr ''u1'') (PInt 1) = Inr example_plan"
proof -
  have "\<not> isl (plan_from_dicts (PList example_entries) (PStr ''m1'') (PStr ''u1'') (PInt 1))" by code_simp
  then show ?thesis by (auto simp: example_plan_def isl_def split: sum.splits)
qed

lemma TaskPlan_Inr:
  assumes "TaskPlan steps mv uv vv = Inr p"
  shows "tp_steps p = steps \<and> steps \<noteq> [] \<and> distinct (map ts_id steps) \<and> mv = PStr (tp_mission p)
    \<and> uv = PStr (tp_uav p) \<and> vv = PInt (tp_version p) \<and> 0 < tp_version p"
proof -
  have "as_plan_error r = Inr x \<longleftrightarrow> r = Inr x" for r :: "string result" and x
    by (auto simp: as_plan_error_def split: sum.splits)
  then show ?thesis
    using assms by (auto simp: TaskPlan_def rbind_eq_Inr int_value_Inr split: if_splits)
qed

lemma example_plan_steps:
  "parse_entries (explicit_ids example_entries) [] 0 example_entries = Inr (tp_steps example_plan)"
proof -
  obtain steps where st: "parse_entries (explicit_ids example_entries) [] 0 example_entries = Inr steps"
    and "TaskPlan steps (PStr ''m1'') (PStr ''u1'') (PInt 1) = Inr example_plan"
    using example_plan_parsed by (auto simp: plan_from_dicts_def rbind_eq_Inr)
  from this(2) have "tp_steps example_plan = steps"
    using TaskPlan_Inr by blast
  with st show ?thesis by simp
qed

text \<open>
  C9. A parsed plan is well formed: every entry yields one step; identifiers match the step pattern
  and are distinct; a generated identifier never collides with a given one, wherever that occurs, so
  parsing fails for duplicates only if two given identifiers are equal; no step is a top-level
  REACQUIRE, none has a reserved parameter, recovery policies sit on TRACK steps within their
  bounds, and no TRACK target is left as an unresolved \<open>$\<close> string.
\<close>

theorem plan_from_dicts_well_formed:
  assumes "parse_entries (explicit_ids xs) [] 0 xs = Inr steps"
  shows "length steps = length xs \<and> list_all step_ok steps
    \<and> (distinct (explicit_ids xs) \<longrightarrow> distinct (map ts_id steps))
    \<and> (\<forall>mv uv vv p. plan_from_dicts (PList xs) mv uv vv = Inr p \<longrightarrow>
        tp_steps p = steps \<and> distinct (map ts_id steps) \<and> mv = PStr (tp_mission p)
        \<and> uv = PStr (tp_uav p) \<and> vv = PInt (tp_version p) \<and> 0 < tp_version p)"
proof -
  have "TaskPlan steps mv uv vv = Inr p" if "plan_from_dicts (PList xs) mv uv vv = Inr p" for mv uv vv p
    using that assms by (auto simp: plan_from_dicts_def rbind_eq_Inr)
  then have "tp_steps p = steps \<and> distinct (map ts_id steps) \<and> mv = PStr (tp_mission p)
      \<and> uv = PStr (tp_uav p) \<and> vv = PInt (tp_version p) \<and> 0 < tp_version p"
    if "plan_from_dicts (PList xs) mv uv vv = Inr p" for mv uv vv p
    using TaskPlan_Inr [of steps mv uv vv p] that by blast
  then show ?thesis using parse_entries_Inr [OF assms] by simp
qed

theorem plan_from_dicts_well_formed_witness:
  "distinct (map ts_id (tp_steps example_plan)) \<and> list_all step_ok (tp_steps example_plan)
     \<and> length (tp_steps example_plan) = 3"
proof -
  have "length example_entries = 3" by (simp add: example_entries_def)
  then show ?thesis
    using plan_from_dicts_well_formed [OF example_plan_steps] example_plan_parsed by metis
qed

text \<open>
  C10. Serialization of a plan with JSON parameters loses nothing: parsing the serialized form gives
  back exactly that plan, recovery policies included, when its steps are well formed, have distinct
  identifiers, and each parameter is a JSON value (nested lists and dictionaries with string keys over
  text, numbers, booleans and null) or a TRACK target that refers to an earlier output.  Tuples,
  trusted target references, enumeration members, dataclass instances and other objects are outside:
  they come back as lists, dictionaries and names.
\<close>

theorem plan_round_trip:
  assumes "list_all (\<lambda>s. step_ok s \<and> step_plain s) (tp_steps p)" and "tp_steps p \<noteq> []"
    and "distinct (map ts_id (tp_steps p))" and "routing_id_match (tp_mission p)"
    and "routing_id_match (tp_uav p)" and "0 < tp_version p"
  shows "plan_from_dicts (plan_to_dicts str_of p) (PStr (tp_mission p)) (PStr (tp_uav p))
    (PInt (tp_version p)) = Inr p"
proof -
  have "\<not> list_ex (\<lambda>s. ts_skill s = SK_REACQUIRE) (tp_steps p)"
    using assms(1) by (auto simp: list_ex_iff list_all_iff step_ok_def)
  then show ?thesis
    using assms by (simp add: plan_from_dicts_def plan_to_dicts_def parse_shown_steps TaskPlan_def
        as_plan_error_def)
qed

theorem plan_round_trip_witness:
  "plan_from_dicts (plan_to_dicts (\<lambda>_. []) example_plan) (PStr ''m1'') (PStr ''u1'') (PInt 1)
     = Inr example_plan"
proof -
  have "tp_mission example_plan = ''m1''" "tp_uav example_plan = ''u1''" "tp_version example_plan = 1"
    "tp_steps example_plan \<noteq> []" "distinct (map ts_id (tp_steps example_plan))"
    "routing_id_match ''m1''" "routing_id_match ''u1''" by code_simp+
  moreover have "list_all step_plain (tp_steps example_plan)" by code_simp
  moreover have "list_all step_ok (tp_steps example_plan)"
    using parse_entries_Inr [OF example_plan_steps] by simp
  ultimately show ?thesis
    using plan_round_trip [of example_plan "\<lambda>_. []"] by (simp add: list_all_iff)
qed

end
