(* ===== verification/Mission_Program.thy ===== *)
theory Mission_Program
  imports Task_Plan
begin

text \<open>
  \<open>planner/mission_program.py\<close>: mission programs, graphs whose nodes are planned steps and whose
  edges react to a closed vocabulary of events.  The constructors take the unchecked arguments and
  either raise or return the normalized record; a sequence argument whose elements the source
  checks by class is a list of the records of that class.

  A mapping is a \<open>PDict\<close>; normalized JSON turns sequences into tuples.
\<close>

section \<open>Vocabulary\<close>

datatype program_event =
    EV_SUCCESS | EV_FAILURE | EV_TARGET_CONFIRMED | EV_TARGET_LOST | EV_PATH_BLOCKED | EV_TIMEOUT

fun event_value :: "program_event \<Rightarrow> string" where
  "event_value EV_SUCCESS = ''SUCCESS''"
| "event_value EV_FAILURE = ''FAILURE''"
| "event_value EV_TARGET_CONFIRMED = ''TARGET_CONFIRMED''"
| "event_value EV_TARGET_LOST = ''TARGET_LOST''"
| "event_value EV_PATH_BLOCKED = ''PATH_BLOCKED''"
| "event_value EV_TIMEOUT = ''TIMEOUT''"

definition program_events :: "program_event list" where
  "program_events =
     [EV_SUCCESS, EV_FAILURE, EV_TARGET_CONFIRMED, EV_TARGET_LOST, EV_PATH_BLOCKED, EV_TIMEOUT]"

definition ProgramEvent :: "pyval \<Rightarrow> program_event result" where
  "ProgramEvent = enum_of ''ProgramEvent'' event_value program_events"

datatype action_op = OP_HOLD | OP_RESUME | OP_REPLAN_CURRENT_ROUTE | OP_CANCEL_AND_LAND

fun op_value :: "action_op \<Rightarrow> string" where
  "op_value OP_HOLD = ''HOLD''"
| "op_value OP_RESUME = ''RESUME''"
| "op_value OP_REPLAN_CURRENT_ROUTE = ''REPLAN_CURRENT_ROUTE''"
| "op_value OP_CANCEL_AND_LAND = ''CANCEL_AND_LAND''"

definition ProgramActionOp :: "pyval \<Rightarrow> action_op result" where
  "ProgramActionOp = enum_of ''ProgramActionOp'' op_value
     [OP_HOLD, OP_RESUME, OP_REPLAN_CURRENT_ROUTE, OP_CANCEL_AND_LAND]"

lemma ProgramEvent_value [simp]: "ProgramEvent (PStr (event_value e)) = Inr e"
  by (cases e) (simp_all add: ProgramEvent_def enum_of_def program_events_def)

lemma ProgramActionOp_value [simp]: "ProgramActionOp (PStr (op_value e)) = Inr e"
  by (cases e) (simp_all add: ProgramActionOp_def enum_of_def)

text \<open>\<open>except (TypeError, ValueError): raise MissionProgramError(msg) from None\<close>.\<close>

definition or_program_error :: "string \<Rightarrow> 'a result \<Rightarrow> 'a result" where
  "or_program_error msg r = (case r of
     Inl e \<Rightarrow> Inl (if is_type_or_value_error e then MissionProgramError msg else e) | Inr x \<Rightarrow> Inr x)"

lemma or_program_error_Inr [simp]: "or_program_error msg r = Inr x \<longleftrightarrow> r = Inr x"
  by (auto simp: or_program_error_def split: sum.splits)

lemma or_program_error_ok [simp]: "or_program_error msg (Inr x) = Inr x"
  by simp

definition event_arg :: "pyval \<Rightarrow> program_event result" where
  "event_arg v = or_program_error ''on must be a supported ProgramEvent'' (ProgramEvent v)"

lemma event_arg_value [simp]: "event_arg (PStr (event_value e)) = Inr e"
  by (simp add: event_arg_def)

lemma event_arg_Inr: "event_arg v = Inr e \<longleftrightarrow> v = PStr (event_value e)"
  unfolding event_arg_def or_program_error_Inr using ProgramEvent_value
  by (auto simp: ProgramEvent_def dest: enum_of_Inr)

section \<open>Field checks\<close>

definition positive_version :: "string \<Rightarrow> pyval \<Rightarrow> int result" where
  "positive_version name =
     int_value (MissionProgramError (name @ '' must be a positive integer''))
       (MissionProgramError (name @ '' must be a positive integer'')) (\<lambda>i. 0 < i)"

definition program_text :: "string \<Rightarrow> nat \<Rightarrow> pyval \<Rightarrow> string result" where
  "program_text name maximum v =
     rbind (stripped_text (MissionProgramError (name @ '' must be a non-empty string'')) v) (\<lambda>s.
       if maximum < length s
       then Inl (MissionProgramError
              (name @ '' must contain at most '' @ decimal maximum @ '' characters''))
       else Inr s)"

lemma program_text_Inr:
  "program_text name n v = Inr t \<longleftrightarrow> (\<exists>s. v = PStr s \<and> t = py_strip s \<and> t \<noteq> [] \<and> length t \<le> n)"
  by (auto simp: program_text_def rbind_eq_Inr stripped_text_Inr split: if_splits)
     (metis not_less)

text \<open>\<open>_json_value\<close>: bounded nesting (16), bounded containers (64), finite numbers, tuples for sequences.\<close>

lemma rmap_cong [fundef_cong]:
  "xs = ys \<Longrightarrow> (\<And>x. x \<in> set ys \<Longrightarrow> f x = g x) \<Longrightarrow> rmap f xs = rmap g ys"
proof -
  assume eq: "xs = ys" and fg: "\<And>x. x \<in> set ys \<Longrightarrow> f x = g x"
  have "rmap f zs = rmap g zs" if "set zs \<subseteq> set ys" for zs
    using that by (induction zs) (simp_all add: fg)
  then show ?thesis using eq by simp
qed

lemma enumerate_size: "(i, v) \<in> set (enumerate n xs) \<Longrightarrow> size v < Suc (size_list size xs)"
  by (auto dest!: in_set_enumerate_eq [THEN iffD1] simp: less_Suc_eq_le
      intro!: size_list_estimation' [of "xs ! (i - n)"])

lemma entry_size: "(k, v) \<in> set d \<Longrightarrow> size v \<le> size_list (size_prod size size) d"
  for d :: "(pyval \<times> pyval) list"
  using size_list_estimation' [of "(k, v)" d "size v" "size_prod size size"] by simp

function (sequential) json_value :: "nat \<Rightarrow> string \<Rightarrow> pyval \<Rightarrow> pyval result"
  and json_items :: "nat \<Rightarrow> string \<Rightarrow> pyval list \<Rightarrow> pyval result" where
  "json_value depth name v =
     (if 16 < depth
      then Inl (MissionProgramError (name @ '' exceeds the maximum nesting depth''))
      else case v of
        PNone \<Rightarrow> Inr PNone
      | PStr s \<Rightarrow> Inr (PStr s)
      | PBool b \<Rightarrow> Inr (PBool b)
      | PInt i \<Rightarrow> Inr (PInt i)
      | PFloat (Fin x) \<Rightarrow> Inr (PFloat (Fin x))
      | PFloat _ \<Rightarrow> Inl (MissionProgramError (name @ '' contains a non-finite number''))
      | PDict d \<Rightarrow>
          if 64 < length d \<or> string_keys d = None
          then Inl (MissionProgramError (name @ '' must be a bounded string-key mapping''))
          else rbind (rmap (\<lambda>(k, item).
                 rbind (json_value (Suc depth)
                         (name @ ''.'' @ (case k of PStr s \<Rightarrow> s | _ \<Rightarrow> [])) item) (\<lambda>item.
                   Inr (k, item))) d) (\<lambda>d. Inr (PDict d))
      | PList xs \<Rightarrow> json_items depth name xs
      | PTuple xs \<Rightarrow> json_items depth name xs
      | _ \<Rightarrow> Inl (MissionProgramError (name @ '' contains unsupported data'')))"
| "json_items depth name xs =
     (if 64 < length xs
      then Inl (MissionProgramError (name @ '' exceeds the maximum item count''))
      else rbind (rmap (\<lambda>(i, item).
             json_value (Suc depth) (name @ ''['' @ decimal i @ '']'') item) (enumerate 0 xs))
             (\<lambda>ys. Inr (PTuple ys)))"
  by pat_completeness auto
termination
proof (relation "measure (case_sum (\<lambda>(d, n, v). 2 * size v) (\<lambda>(d, n, xs). 2 * size_list size xs + 1))",
    goal_cases)
  case 5
  then show ?case using enumerate_size by fastforce
qed (auto dest: entry_size)

declare json_value.simps [simp del] json_items.simps [simp del]

section \<open>Entities, nodes, edges and handlers\<close>

record spatial_entity =
  se_id :: string
  se_kind :: string
  se_value :: "(pyval \<times> pyval) list"

definition SpatialEntity :: "pyval \<Rightarrow> pyval \<Rightarrow> pyval \<Rightarrow> spatial_entity result" where
  "SpatialEntity entity_id kind v =
     rbind (validate_routing_id entity_id ''entity_id'') (\<lambda>entity_id.
     rbind (program_text ''kind'' 64 kind) (\<lambda>kind.
     rbind (json_value 0 ''value'' v) (\<lambda>v.
       case v of
         PDict d \<Rightarrow> Inr \<lparr>se_id = entity_id, se_kind = kind, se_value = d\<rparr>
       | _ \<Rightarrow> Inl (MissionProgramError ''value must be a mapping''))))"

definition entity_to_dict :: "spatial_entity \<Rightarrow> pyval" where
  "entity_to_dict e = PDict
     [(PStr ''entity_id'', PStr (se_id e)), (PStr ''kind'', PStr (se_kind e)),
      (PStr ''value'', PDict (se_value e))]"

record mission_node =
  mn_id :: string
  mn_step :: task_step

definition MissionNode :: "pyval \<Rightarrow> task_step \<Rightarrow> mission_node result" where
  "MissionNode node_id step =
     rbind (validate_routing_id node_id ''node_id'') (\<lambda>node_id.
       if ts_id step \<noteq> node_id
       then Inl (MissionProgramError ''node_id must equal TaskStep.step_id'')
       else Inr \<lparr>mn_id = node_id, mn_step = step\<rparr>)"

definition node_to_dict :: "(pyval \<Rightarrow> string) \<Rightarrow> mission_node \<Rightarrow> pyval" where
  "node_to_dict str_of n = PDict
     [(PStr ''node_id'', PStr (mn_id n)), (PStr ''step'', PDict (step_to_dict str_of (mn_step n)))]"

record mission_edge =
  me_source :: string
  me_target :: string
  me_on :: program_event

definition MissionEdge :: "pyval \<Rightarrow> pyval \<Rightarrow> pyval \<Rightarrow> mission_edge result" where
  "MissionEdge source target on =
     rbind (validate_routing_id source ''source_node_id'') (\<lambda>source.
     rbind (validate_routing_id target ''target_node_id'') (\<lambda>target.
     rbind (event_arg on) (\<lambda>on.
       Inr \<lparr>me_source = source, me_target = target, me_on = on\<rparr>)))"

definition edge_to_dict :: "mission_edge \<Rightarrow> pyval" where
  "edge_to_dict e = PDict
     [(PStr ''source_node_id'', PStr (me_source e)), (PStr ''target_node_id'', PStr (me_target e)),
      (PStr ''on'', PStr (event_value (me_on e)))]"

record program_action =
  pa_op :: action_op
  pa_planner :: "string option"
  pa_allow :: "bool option"

definition ProgramAction :: "pyval \<Rightarrow> pyval \<Rightarrow> pyval \<Rightarrow> program_action result" where
  "ProgramAction op planner allow =
     rbind (or_program_error ''op must be a supported ProgramActionOp'' (ProgramActionOp op)) (\<lambda>op.
     rbind (opt_check (program_text ''planner'' 64) planner) (\<lambda>planner.
     rbind (opt_check (bool_value (TypeError ''allow_model_waypoints must be bool or None'')) allow)
       (\<lambda>allow.
     if op \<noteq> OP_REPLAN_CURRENT_ROUTE \<and> (planner \<noteq> None \<or> allow \<noteq> None)
     then Inl (MissionProgramError ''planner fields are only valid for REPLAN_CURRENT_ROUTE'')
     else Inr \<lparr>pa_op = op, pa_planner = planner, pa_allow = allow\<rparr>)))"

definition action_to_dict :: "program_action \<Rightarrow> pyval" where
  "action_to_dict a = PDict
     ([(PStr ''op'', PStr (op_value (pa_op a)))]
      @ (case pa_planner a of None \<Rightarrow> [] | Some p \<Rightarrow> [(PStr ''planner'', PStr p)])
      @ (case pa_allow a of None \<Rightarrow> [] | Some b \<Rightarrow> [(PStr ''allow_model_waypoints'', PBool b)]))"

record event_handler =
  eh_on :: program_event
  eh_actions :: "program_action list"

definition ProgramEventHandler :: "pyval \<Rightarrow> program_action list \<Rightarrow> event_handler result" where
  "ProgramEventHandler on actions =
     rbind (event_arg on) (\<lambda>on.
       if actions = [] \<or> 8 < length actions
       then Inl (MissionProgramError ''actions must contain between 1 and 8 ProgramAction values'')
       else Inr \<lparr>eh_on = on, eh_actions = actions\<rparr>)"

definition handler_to_dict :: "event_handler \<Rightarrow> pyval" where
  "handler_to_dict h = PDict
     [(PStr ''on'', PStr (event_value (eh_on h))),
      (PStr ''actions'', PList (map action_to_dict (eh_actions h)))]"

section \<open>Programs\<close>

record mission_program =
  mp_mission :: string
  mp_uav :: string
  mp_version :: int
  mp_entry :: string
  mp_entities :: "spatial_entity list"
  mp_nodes :: "mission_node list"
  mp_edges :: "mission_edge list"
  mp_handlers :: "event_handler list"
  mp_schema :: pyval

text \<open>The loop over the edges: both ends known, at most one edge for a node and an event.\<close>

fun check_edges ::
  "string list \<Rightarrow> (string \<times> program_event) list \<Rightarrow> mission_edge list \<Rightarrow> unit result" where
  "check_edges known keys [] = Inr ()"
| "check_edges known keys (e # es) =
     (if me_source e \<notin> set known \<or> me_target e \<notin> set known
      then Inl (MissionProgramError ''every edge endpoint must reference a node'')
      else if (me_source e, me_on e) \<in> set keys
      then Inl (MissionProgramError ''a node may have at most one edge per event'')
      else check_edges known ((me_source e, me_on e) # keys) es)"

definition MissionProgram ::
  "pyval \<Rightarrow> pyval \<Rightarrow> pyval \<Rightarrow> pyval \<Rightarrow> pyval \<Rightarrow> spatial_entity list \<Rightarrow> mission_node list
     \<Rightarrow> mission_edge list \<Rightarrow> event_handler list \<Rightarrow> mission_program result" where
  "MissionProgram schema mission uav version entry entities nodes edges handlers =
     (if \<not> equals_int schema 1
      then Inl (MissionProgramError ''MissionProgram.schema_version must equal 1'')
      else rbind (validate_mission_id mission) (\<lambda>mission.
           rbind (validate_uav_id uav) (\<lambda>uav.
           rbind (positive_version ''plan_version'' version) (\<lambda>version.
           rbind (validate_routing_id entry ''entry_node_id'') (\<lambda>entry.
      if 128 < length entities
      then Inl (MissionProgramError ''spatial_entities must be bounded SpatialEntity values'')
      else if nodes = [] \<or> 100 < length nodes
      then Inl (MissionProgramError ''nodes must contain between 1 and 100 MissionNode values'')
      else if 256 < length edges
      then Inl (MissionProgramError ''edges must be bounded MissionEdge values'')
      else if length program_events < length handlers
      then Inl (MissionProgramError ''event_handlers contains invalid values'')
      else if \<not> distinct (map se_id entities)
      then Inl (MissionProgramError ''spatial entity IDs must be unique'')
      else if \<not> distinct (map mn_id nodes)
      then Inl (MissionProgramError ''node IDs must be unique'')
      else if entry \<notin> set (map mn_id nodes)
      then Inl (MissionProgramError ''entry_node_id must reference a node'')
      else rbind (check_edges (map mn_id nodes) [] edges) (\<lambda>_.
      if \<not> distinct (map eh_on handlers)
      then Inl (MissionProgramError ''event handler events must be unique'')
      else Inr \<lparr>mp_mission = mission, mp_uav = uav, mp_version = version, mp_entry = entry,
        mp_entities = entities, mp_nodes = nodes, mp_edges = edges, mp_handlers = handlers,
        mp_schema = schema\<rparr>))))))"

definition program_node :: "mission_program \<Rightarrow> pyval \<Rightarrow> mission_node result" where
  "program_node p node_id =
     rbind (validate_routing_id node_id ''node_id'') (\<lambda>i.
       case List.find (\<lambda>n. mn_id n = i) (mp_nodes p) of
         Some n \<Rightarrow> Inr n | None \<Rightarrow> Inl (MissionProgramError (''unknown node_id: '' @ i)))"

definition program_to_dict :: "(pyval \<Rightarrow> string) \<Rightarrow> mission_program \<Rightarrow> pyval" where
  "program_to_dict str_of p = PDict
     [(PStr ''schema_version'', mp_schema p),
      (PStr ''mission_id'', PStr (mp_mission p)),
      (PStr ''uav_id'', PStr (mp_uav p)),
      (PStr ''plan_version'', PInt (mp_version p)),
      (PStr ''entry_node_id'', PStr (mp_entry p)),
      (PStr ''spatial_entities'', PList (map entity_to_dict (mp_entities p))),
      (PStr ''nodes'', PList (map (node_to_dict str_of) (mp_nodes p))),
      (PStr ''edges'', PList (map edge_to_dict (mp_edges p))),
      (PStr ''event_handlers'', PList (map handler_to_dict (mp_handlers p)))]"

text \<open>\<open>linear_plan_to_mission_program\<close>: the edges between neighbours, then the program.\<close>

fun linear_edges :: "mission_node list \<Rightarrow> mission_edge list result" where
  "linear_edges (l # r # ns) =
     rbind (MissionEdge (PStr (mn_id l)) (PStr (mn_id r)) (PStr (event_value EV_SUCCESS))) (\<lambda>e.
     rbind (if ts_skill (mn_step l) = SK_SEARCH \<and> ts_skill (mn_step r) = SK_SEARCH
            then rbind (MissionEdge (PStr (mn_id l)) (PStr (mn_id r)) (PStr (event_value EV_TIMEOUT)))
                   (\<lambda>e. Inr [e])
            else Inr []) (\<lambda>t.
     rbind (linear_edges (r # ns)) (\<lambda>es. Inr (e # t @ es))))"
| "linear_edges ns = Inr []"

definition linear_plan_to_mission_program ::
  "task_plan \<Rightarrow> event_handler list \<Rightarrow> mission_program result" where
  "linear_plan_to_mission_program plan handlers =
     rbind (rmap (\<lambda>s. MissionNode (PStr (ts_id s)) s) (tp_steps plan)) (\<lambda>nodes.
     rbind (linear_edges nodes) (\<lambda>edges.
       MissionProgram (PInt 1) (PStr (tp_mission plan)) (PStr (tp_uav plan)) (PInt (tp_version plan))
         (PStr (mn_id (hd nodes))) [] nodes edges handlers))"

section \<open>Facts\<close>

abbreviation edge_key :: "mission_edge \<Rightarrow> string \<times> program_event" where
  "edge_key e \<equiv> (me_source e, me_on e)"

definition node_ids :: "mission_program \<Rightarrow> string list" where
  "node_ids p = map mn_id (mp_nodes p)"

text \<open>What the constructor guarantees of a program.\<close>

definition program_ok :: "mission_program \<Rightarrow> bool" where
  "program_ok p \<longleftrightarrow>
     equals_int (mp_schema p) 1 \<and> routing_id_match (mp_mission p) \<and> routing_id_match (mp_uav p)
     \<and> 0 < mp_version p \<and> routing_id_match (mp_entry p) \<and> mp_entry p \<in> set (node_ids p)
     \<and> length (mp_entities p) \<le> 128 \<and> length (mp_nodes p) \<le> 100 \<and> length (mp_edges p) \<le> 256
     \<and> distinct (map se_id (mp_entities p)) \<and> distinct (node_ids p)
     \<and> list_all (\<lambda>e. me_source e \<in> set (node_ids p) \<and> me_target e \<in> set (node_ids p)) (mp_edges p)
     \<and> distinct (map edge_key (mp_edges p))
     \<and> length (mp_handlers p) \<le> 6 \<and> distinct (map eh_on (mp_handlers p))"

definition node_ok :: "mission_node \<Rightarrow> bool" where
  "node_ok n \<longleftrightarrow> routing_id_match (mn_id n) \<and> ts_id (mn_step n) = mn_id n"

lemma check_edges_Inr:
  "check_edges known keys es = Inr u \<longleftrightarrow>
     list_all (\<lambda>e. me_source e \<in> set known \<and> me_target e \<in> set known) es
     \<and> distinct (map edge_key es) \<and> edge_key ` set es \<inter> set keys = {}"
  by (induction es arbitrary: keys) auto

lemma event_value_inj [simp]: "event_value a = event_value b \<longleftrightarrow> a = b"
  using ProgramEvent_value by (metis sum.inject(2))

lemma MissionNode_Inr:
  "MissionNode v s = Inr n \<longleftrightarrow> v = PStr (mn_id n) \<and> mn_step n = s \<and> node_ok n"
  by (auto simp: MissionNode_def rbind_eq_Inr node_ok_def split: if_splits)

lemma MissionEdge_Inr:
  "MissionEdge a b c = Inr e \<longleftrightarrow>
     a = PStr (me_source e) \<and> b = PStr (me_target e) \<and> c = PStr (event_value (me_on e))
     \<and> routing_id_match (me_source e) \<and> routing_id_match (me_target e)"
  using event_value_inj by (cases e) (auto simp: MissionEdge_def rbind_eq_Inr event_arg_Inr)

lemma positive_version_Inr [simp]: "positive_version f v = Inr i \<longleftrightarrow> v = PInt i \<and> 0 < i"
  by (auto simp: positive_version_def int_value_Inr)

lemma positive_version_PInt [simp]: "0 < i \<Longrightarrow> positive_version f (PInt i) = Inr i"
  by simp

lemma MissionProgram_Inr:
  "MissionProgram schema mission uav version entry entities nodes edges handlers = Inr p \<longleftrightarrow>
     program_ok p \<and> schema = mp_schema p \<and> mission = PStr (mp_mission p) \<and> uav = PStr (mp_uav p)
     \<and> version = PInt (mp_version p) \<and> entry = PStr (mp_entry p) \<and> entities = mp_entities p
     \<and> nodes = mp_nodes p \<and> edges = mp_edges p \<and> handlers = mp_handlers p" (is "?l \<longleftrightarrow> ?r")
proof
  assume ?l
  then obtain m u v e where "equals_int schema 1" "mission = PStr m" "uav = PStr u" "version = PInt v"
    "entry = PStr e" "routing_id_match m" "routing_id_match u" "0 < v" "routing_id_match e"
    "length entities \<le> 128" "length nodes \<le> 100" "length edges \<le> 256" "length handlers \<le> 6"
    "distinct (map se_id entities)" "distinct (map mn_id nodes)" "e \<in> set (map mn_id nodes)"
    "check_edges (map mn_id nodes) [] edges = Inr ()" "distinct (map eh_on handlers)"
    "p = \<lparr>mp_mission = m, mp_uav = u, mp_version = v, mp_entry = e, mp_entities = entities,
       mp_nodes = nodes, mp_edges = edges, mp_handlers = handlers, mp_schema = schema\<rparr>"
    unfolding MissionProgram_def rbind_eq_Inr by (auto simp: program_events_def rbind_eq_Inr split: if_splits)
  then show ?r by (simp add: program_ok_def node_ids_def check_edges_Inr)
next
  assume r: ?r
  then have "mp_nodes p \<noteq> []" "check_edges (map mn_id (mp_nodes p)) [] (mp_edges p) = Inr ()"
    by (auto simp: program_ok_def node_ids_def check_edges_Inr)
  with r show ?l
    by (simp add: MissionProgram_def program_ok_def node_ids_def program_events_def)
qed

lemma program_node_found:
  assumes "i \<in> set (node_ids p)" and "list_all node_ok (mp_nodes p)"
  obtains n where "program_node p (PStr i) = Inr n" "n \<in> set (mp_nodes p)" "mn_id n = i"
proof (cases "List.find (\<lambda>n. mn_id n = i) (mp_nodes p)")
  case None
  then show ?thesis using assms(1) by (auto simp: find_None_iff node_ids_def)
next
  case (Some n)
  then have n: "n \<in> set (mp_nodes p)" "mn_id n = i" by (auto dest: find_in)
  moreover have "routing_id_match i" using n assms(2) by (auto simp: list_all_iff node_ok_def)
  ultimately show ?thesis using Some that by (simp add: program_node_def)
qed

lemma program_node_id:
  "program_node p (PStr i) = Inr n \<Longrightarrow> mn_id n = i \<and> n \<in> set (mp_nodes p)"
  by (auto simp: program_node_def rbind_eq_Inr split: option.splits dest: find_in)

subsection \<open>Normal form of JSON values\<close>

fun json_normal :: "nat \<Rightarrow> pyval \<Rightarrow> bool" where
  "json_normal k (PDict d) = (k \<le> 16 \<and> length d \<le> 64 \<and> string_keys d \<noteq> None
     \<and> list_all (\<lambda>e. json_normal (Suc k) (snd e)) d)"
| "json_normal k (PTuple xs) = (k \<le> 16 \<and> length xs \<le> 64 \<and> list_all (json_normal (Suc k)) xs)"
| "json_normal k (PFloat f) = (k \<le> 16 \<and> (\<exists>x. f = Fin x))"
| "json_normal k (PList xs) = False"
| "json_normal k (PStepRef i f) = False"
| "json_normal k (PTrustedRef t) = False"
| "json_normal k (PEnum c n) = False"
| "json_normal k (PData c fs) = False"
| "json_normal k (PObj n) = False"
| "json_normal k v = (k \<le> 16)"

lemma string_keys_None: "string_keys d = None \<longleftrightarrow> \<not> list_all (\<lambda>e. \<exists>s. fst e = PStr s) d"
  by (induction d rule: string_keys.induct) auto

lemma rmap_Inr_set: "rmap f xs = Inr ys \<Longrightarrow> y \<in> set ys \<Longrightarrow> \<exists>x\<in>set xs. f x = Inr y"
  unfolding rmap_eq_Inr by (induction rule: list_all2_induct) auto

lemma rmap_length: "rmap f xs = Inr ys \<Longrightarrow> length ys = length xs"
  by (auto simp: rmap_eq_Inr dest: list_all2_lengthD)

lemma json_value_normal:
  "json_value k name v = Inr w \<Longrightarrow> json_normal k w"
  "json_items k name xs = Inr w \<Longrightarrow> k \<le> 16 \<Longrightarrow> json_normal k w"
proof (induction k name v and k name xs arbitrary: w and w rule: json_value_json_items.induct)
  case (1 k name v)
  have k: "k \<le> 16" using 1(4) by (simp add: json_value.simps split: if_splits)
  show ?case
  proof (cases v)
    case (PDict d)
    then obtain d' where len: "length d \<le> 64" and sk: "string_keys d \<noteq> None"
      and m: "rmap (\<lambda>(k', item). rbind (json_value (Suc k)
           (name @ ''.'' @ (case k' of PStr s \<Rightarrow> s | _ \<Rightarrow> [])) item) (\<lambda>item. Inr (k', item))) d = Inr d'"
      and w: "w = PDict d'"
      using 1(4) k by (auto simp: json_value.simps [of k] rbind_eq_Inr split: if_splits)
    have "(\<exists>s. fst e = PStr s) \<and> json_normal (Suc k) (snd e)" if e: "e \<in> set d'" for e
    proof -
      obtain k' item where i: "(k', item) \<in> set d" "fst e = k'"
        "json_value (Suc k) (name @ ''.'' @ (case k' of PStr s \<Rightarrow> s | _ \<Rightarrow> [])) item = Inr (snd e)"
        using rmap_Inr_set [OF m e] by (auto simp: rbind_eq_Inr)
      then show ?thesis
        using 1(3) [OF _ PDict _ i(1)] k len sk by (auto simp: string_keys_None list_all_iff)
    qed
    then show ?thesis using k len w rmap_length [OF m] by (auto simp: string_keys_None list_all_iff)
  next
    case (PFloat f)
    then show ?thesis using 1(4) k by (cases f) (auto simp: json_value.simps)
  qed (use 1 k in \<open>auto simp: json_value.simps [of k]\<close>)
next
  case (2 k name xs)
  then obtain ys where len: "length xs \<le> 64" and w: "w = PTuple ys"
    and m: "rmap (\<lambda>(i, item). json_value (Suc k) (name @ ''['' @ decimal i @ '']'') item)
          (enumerate 0 xs) = Inr ys"
    by (auto simp: json_items.simps [of k] rbind_eq_Inr split: if_splits)
  have "json_normal (Suc k) y" if "y \<in> set ys" for y
    using rmap_Inr_set [OF m that] 2(1) len by fastforce
  then show ?case using w len 2(3) rmap_length [OF m] by (simp add: list_all_iff)
qed

lemma rmap_same: "(\<And>x. x \<in> set xs \<Longrightarrow> f x = Inr (g x)) \<Longrightarrow> map g xs = ys \<Longrightarrow> rmap f xs = Inr ys"
  by (induction xs arbitrary: ys) auto

lemma json_value_fixed: "json_normal k w \<Longrightarrow> json_value k name w = Inr w"
proof (induction k w arbitrary: name rule: json_normal.induct)
  case (1 k d)
  then have "rmap (\<lambda>(k', item). rbind (json_value (Suc k)
      (name @ ''.'' @ (case k' of PStr s \<Rightarrow> s | _ \<Rightarrow> [])) item) (\<lambda>item. Inr (k', item))) d = Inr d"
    by (intro rmap_same [where g = id]) (auto simp: list_all_iff)
  with 1(2) show ?case by (simp add: json_value.simps [of k])
next
  case (2 k xs)
  then have "rmap (\<lambda>(i, item). json_value (Suc k) (name @ ''['' @ decimal i @ '']'') item)
      (enumerate 0 xs) = Inr xs"
    by (intro rmap_same [where g = snd])
      (auto simp: list_all_iff dest!: in_set_enumerate_eq [THEN iffD1])
  with 2(2) show ?case by (simp add: json_value.simps [of k] json_items.simps)
qed (auto simp: json_value.simps)

subsection \<open>Linear programs\<close>

fun linear_edge_list :: "mission_node list \<Rightarrow> mission_edge list" where
  "linear_edge_list (l # r # ns) =
     \<lparr>me_source = mn_id l, me_target = mn_id r, me_on = EV_SUCCESS\<rparr>
     # (if ts_skill (mn_step l) = SK_SEARCH \<and> ts_skill (mn_step r) = SK_SEARCH
        then [\<lparr>me_source = mn_id l, me_target = mn_id r, me_on = EV_TIMEOUT\<rparr>] else [])
     @ linear_edge_list (r # ns)"
| "linear_edge_list ns = []"

lemma linear_edges_eq: "list_all node_ok ns \<Longrightarrow> linear_edges ns = Inr (linear_edge_list ns)"
proof (induction ns rule: linear_edge_list.induct)
  case (1 l r ns)
  then have "MissionEdge (PStr (mn_id l)) (PStr (mn_id r)) (PStr (event_value e))
      = Inr \<lparr>me_source = mn_id l, me_target = mn_id r, me_on = e\<rparr>" for e
    by (simp add: MissionEdge_Inr node_ok_def)
  with 1 show ?case by (auto simp del: event_value.simps)
qed simp_all

lemma linear_edge_ends:
  "e \<in> set (linear_edge_list ns) \<Longrightarrow> me_source e \<in> mn_id ` set ns \<and> me_target e \<in> mn_id ` set ns"
  by (induction ns rule: linear_edge_list.induct) (auto split: if_splits)

lemma linear_edge_keys:
  "distinct (map mn_id ns) \<Longrightarrow> distinct (map edge_key (linear_edge_list ns))"
proof (induction ns rule: linear_edge_list.induct)
  case (1 l r ns)
  have "mn_id l \<notin> me_source ` set (linear_edge_list (r # ns))"
    using 1(2) linear_edge_ends [of _ "r # ns"] by fastforce
  then show ?case using 1 by auto
qed simp_all

lemma linear_edge_count: "length (linear_edge_list ns) \<le> 2 * (length ns - 1)"
  by (induction ns rule: linear_edge_list.induct) auto

text \<open>From a node of a linear program, SUCCESS leads to the next node and to nothing else.\<close>

lemma linear_success:
  assumes "distinct (map mn_id ns)" and "i < length ns"
  shows "filter (\<lambda>e. me_source e = mn_id (ns ! i) \<and> me_on e = EV_SUCCESS) (linear_edge_list ns)
    = (if Suc i < length ns
       then [\<lparr>me_source = mn_id (ns ! i), me_target = mn_id (ns ! Suc i), me_on = EV_SUCCESS\<rparr>] else [])"
  using assms
proof (induction ns arbitrary: i rule: linear_edge_list.induct)
  case (1 l r ns)
  let ?f = "\<lambda>i. filter (\<lambda>e. me_source e = i \<and> me_on e = EV_SUCCESS) (linear_edge_list (r # ns))"
  show ?case
  proof (cases i)
    case 0
    have "mn_id l \<notin> me_source ` set (linear_edge_list (r # ns))"
      using 1(2) linear_edge_ends [of _ "r # ns"] by fastforce
    then have "?f (mn_id l) = []" unfolding filter_empty_conv by (metis image_eqI)
    with 0 show ?thesis by simp
  next
    case (Suc j)
    have "(r # ns) ! j \<in> set (r # ns)" using 1(3) Suc by (intro nth_mem) simp
    moreover have "mn_id l \<notin> mn_id ` set (r # ns)" using 1(2) by auto
    ultimately have "mn_id l \<noteq> mn_id ((r # ns) ! j)" by (metis image_eqI)
    then show ?thesis using 1(1) [of j] 1(2,3) Suc by auto
  qed
qed simp_all

text \<open>Every edge of a linear program leads to the next node.\<close>

lemma linear_edge_next:
  assumes "distinct (map mn_id ns)" and "i < length ns"
    and "e \<in> set (linear_edge_list ns)" and "me_source e = mn_id (ns ! i)"
  shows "Suc i < length ns \<and> me_target e = mn_id (ns ! Suc i)"
  using assms
proof (induction ns arbitrary: i rule: linear_edge_list.induct)
  case (1 l r ns)
  have out: "mn_id l \<notin> mn_id ` set (r # ns)" using 1(2) by auto
  show ?case
  proof (cases i)
    case 0
    then have "e \<notin> set (linear_edge_list (r # ns))"
      using out linear_edge_ends [of e "r # ns"] 1(5) by auto
    with 0 1(4) show ?thesis by (auto split: if_splits)
  next
    case (Suc j)
    have "(r # ns) ! j \<in> set (r # ns)" using 1(3) Suc by (intro nth_mem) simp
    then have "mn_id l \<noteq> me_source e" using out 1(5) Suc by (metis image_eqI nth_Cons_Suc)
    then have "e \<in> set (linear_edge_list (r # ns))" using 1(4) by (auto split: if_splits)
    then show ?thesis using 1(1) [of j] 1(2,3,5) Suc by auto
  qed
qed simp_all

lemma step_id_routing: "step_id_match s \<Longrightarrow> routing_id_match s"
proof -
  have "lower_alpha c \<Longrightarrow> id_alpha c" "step_char c \<Longrightarrow> id_char c" for c
    by (auto simp: lower_alpha_def id_alpha_def step_char_def id_char_def Let_def)
  then show "step_id_match s \<Longrightarrow> routing_id_match s"
    by (auto simp: step_id_match_def routing_id_match_def list_all_iff split: list.splits)
qed

definition linear_nodes :: "task_plan \<Rightarrow> mission_node list" where
  "linear_nodes plan = map (\<lambda>s. \<lparr>mn_id = ts_id s, mn_step = s\<rparr>) (tp_steps plan)"

text \<open>The plans the constructors accept, and the plans short enough for a program.\<close>

definition plan_ok :: "task_plan \<Rightarrow> bool" where
  "plan_ok plan \<longleftrightarrow> tp_steps plan \<noteq> [] \<and> list_all step_ok (tp_steps plan)
     \<and> distinct (map ts_id (tp_steps plan)) \<and> routing_id_match (tp_mission plan)
     \<and> routing_id_match (tp_uav plan) \<and> 0 < tp_version plan"

lemma linear_program:
  assumes "plan_ok plan" and "length (tp_steps plan) \<le> 100"
    and "length handlers \<le> 6" and "distinct (map eh_on handlers)"
  obtains p where "linear_plan_to_mission_program plan handlers = Inr p" "program_ok p"
    "mp_nodes p = linear_nodes plan" "mp_edges p = linear_edge_list (linear_nodes plan)"
    "mp_entry p = ts_id (hd (tp_steps plan))" "mp_version p = tp_version plan" "mp_handlers p = handlers"
    "mp_mission p = tp_mission plan" "mp_uav p = tp_uav plan" "list_all node_ok (mp_nodes p)"
proof -
  let ?ns = "linear_nodes plan"
  let ?p = "\<lparr>mp_mission = tp_mission plan, mp_uav = tp_uav plan, mp_version = tp_version plan,
    mp_entry = ts_id (hd (tp_steps plan)), mp_entities = [], mp_nodes = ?ns,
    mp_edges = linear_edge_list ?ns, mp_handlers = handlers, mp_schema = PInt 1\<rparr>"
  have ok: "list_all node_ok ?ns"
    using assms(1) step_id_routing
    by (auto simp: linear_nodes_def plan_ok_def list_all_iff node_ok_def step_ok_def)
  have ids: "map mn_id ?ns = map ts_id (tp_steps plan)" by (simp add: linear_nodes_def)
  have ne: "?ns \<noteq> []" "hd ?ns \<in> set ?ns" "mn_id (hd ?ns) = ts_id (hd (tp_steps plan))"
    using assms(1) by (auto simp: linear_nodes_def plan_ok_def hd_map)
  have en: "ts_id (hd (tp_steps plan)) \<in> mn_id ` set ?ns" using ne by (metis image_eqI)
  then have rt: "routing_id_match (ts_id (hd (tp_steps plan)))" using ok by (auto simp: list_all_iff node_ok_def)
  have d: "distinct (map mn_id ?ns)" using assms(1) by (simp add: ids plan_ok_def)
  have "length (linear_edge_list ?ns) \<le> 256" "length ?ns \<le> 100"
    using linear_edge_count [of ?ns] assms(2) by (auto simp: linear_nodes_def)
  then have pok: "program_ok ?p"
    using assms ok ne d en rt linear_edge_ends linear_edge_keys [OF d]
    by (auto simp: program_ok_def plan_ok_def node_ids_def list_all_iff node_ok_def equals_int_def)
  have "rmap (\<lambda>s. MissionNode (PStr (ts_id s)) s) (tp_steps plan) = Inr ?ns"
    using ok by (intro rmap_same [where g = "\<lambda>s. \<lparr>mn_id = ts_id s, mn_step = s\<rparr>"])
      (auto simp: MissionNode_Inr linear_nodes_def list_all_iff)
  then have "linear_plan_to_mission_program plan handlers = Inr ?p"
    using pok linear_edges_eq [OF ok] ne(3)
    by (simp add: linear_plan_to_mission_program_def MissionProgram_Inr)
  from that [OF this pok] ok show ?thesis by simp
qed

section \<open>Properties\<close>

text \<open>
  C11. The constructor of a mission program accepts exactly the well-formed graphs, without changing
  them: 1 to 100 nodes with distinct identifiers, at most 128 entities and 256 edges, the entry and
  both ends of every edge among the nodes, at most one edge for a node and an event, at most one
  handler for an event.  In particular rebuilding a program from its own fields succeeds.
\<close>

theorem mission_program_exact:
  "MissionProgram schema mission uav version entry entities nodes edges handlers = Inr p \<longleftrightarrow>
     program_ok p \<and> schema = mp_schema p \<and> mission = PStr (mp_mission p) \<and> uav = PStr (mp_uav p)
     \<and> version = PInt (mp_version p) \<and> entry = PStr (mp_entry p) \<and> entities = mp_entities p
     \<and> nodes = mp_nodes p \<and> edges = mp_edges p \<and> handlers = mp_handlers p"
  by (rule MissionProgram_Inr)

text \<open>
  Normalization of model-supplied JSON: whatever is accepted comes back nested at most 16 deep
  and with containers of at most 64 items, finite numbers, string keys and tuples for sequences, and
  normalizing it again changes nothing.
\<close>

theorem json_value_canonical:
  assumes "json_value 0 name v = Inr w"
  shows "json_normal 0 w \<and> json_value 0 name' w = Inr w"
  using json_value_normal(1) [OF assms] json_value_fixed by blast

definition example_json :: pyval where
  "example_json = PDict [(PStr ''corners'', PList [PInt 1, PFloat (Fin (1 / 2))]), (PStr ''tag'', PNone)]"

theorem json_value_canonical_witness:
  "json_value 0 ''v'' (PDict [(PStr ''corners'', PTuple [PInt 1, PFloat (Fin (1 / 2))]), (PStr ''tag'', PNone)])
     = Inr (PDict [(PStr ''corners'', PTuple [PInt 1, PFloat (Fin (1 / 2))]), (PStr ''tag'', PNone)])"
proof -
  have "json_value 0 ''v'' example_json
     = Inr (PDict [(PStr ''corners'', PTuple [PInt 1, PFloat (Fin (1 / 2))]), (PStr ''tag'', PNone)])"
    by (simp add: example_json_def json_value.simps json_items.simps)
  from json_value_canonical [OF this] show ?thesis by blast
qed

end
