(* ===== verification/Program_Patch.thy ===== *)
theory Program_Patch
  imports Mission_Program
begin

text \<open>
  \<open>planner/program_patch.py\<close>: versioned patches that replace the suffix of a mission program, their
  strict transport format, and their application, which validates everything and returns a new
  program.

  The constructor takes the lists of node and edge records; the reason codes are unchecked values.
  \<open>completed_node_ids\<close> is the list of the elements of the frozen set.
\<close>

section \<open>Patches\<close>

record program_patch =
  pp_mission :: string
  pp_uav :: string
  pp_base :: int
  pp_new :: int
  pp_from :: string
  pp_nodes :: "mission_node list"
  pp_edges :: "mission_edge list"
  pp_reasons :: "string list"

text \<open>One reason code: a non-empty string of at most 64 characters, kept as it is.\<close>

definition reason_code :: "pyval \<Rightarrow> string result" where
  "reason_code v =
     (case v of
        PStr s \<Rightarrow> if s = [] \<or> 64 < length s
                 then Inl (MissionProgramError ''reason_codes must be bounded non-empty strings'')
                 else Inr s
      | _ \<Rightarrow> Inl (MissionProgramError ''reason_codes must be bounded non-empty strings''))"

definition ProgramPatch ::
  "pyval \<Rightarrow> pyval \<Rightarrow> pyval \<Rightarrow> pyval \<Rightarrow> pyval \<Rightarrow> mission_node list \<Rightarrow> mission_edge list \<Rightarrow> pyval
     \<Rightarrow> program_patch result" where
  "ProgramPatch mission uav base new from nodes edges reasons =
     rbind (validate_mission_id mission) (\<lambda>mission.
     rbind (validate_uav_id uav) (\<lambda>uav.
     rbind (positive_version ''base_plan_version'' base) (\<lambda>base.
     rbind (positive_version ''new_plan_version'' new) (\<lambda>new.
     if new \<noteq> base + 1
     then Inl (MissionProgramError ''new_plan_version must equal base_plan_version + 1'')
     else rbind (validate_routing_id from ''replace_from_node_id'') (\<lambda>from.
          rbind (py_iter reasons) (\<lambda>reasons.
       if nodes = [] \<or> 32 < length nodes
       then Inl (MissionProgramError ''replacement_nodes must contain 1..32 MissionNode values'')
       else if mn_id (hd nodes) \<noteq> from
       then Inl (MissionProgramError ''the first replacement node must match replace_from_node_id'')
       else if 64 < length edges
       then Inl (MissionProgramError ''replacement_edges contains invalid values'')
       else if reasons = [] \<or> 16 < length reasons
       then Inl (MissionProgramError ''reason_codes must contain 1..16 values'')
       else rbind (rmap reason_code reasons) (\<lambda>reasons.
         if \<not> distinct reasons
         then Inl (MissionProgramError ''reason_codes must be unique'')
         else Inr \<lparr>pp_mission = mission, pp_uav = uav, pp_base = base, pp_new = new,
           pp_from = from, pp_nodes = nodes, pp_edges = edges, pp_reasons = reasons\<rparr>)))))))"

section \<open>Transport format\<close>

text \<open>\<open>node.step.to_dict()\<close> with its own fields separated from the arguments.\<close>

definition transport_step :: "(pyval \<Rightarrow> string) \<Rightarrow> task_step \<Rightarrow> pyval" where
  "transport_step str_of s =
     (let d = step_to_dict str_of s;
          recovery = dget d (PStr ''recovery'');
          d = ddel d (PStr ''recovery'');
          step_id = the (dget d (PStr ''id''));
          d = ddel d (PStr ''id'');
          skill = the (dget d (PStr ''skill''));
          args = ddel d (PStr ''skill'')
      in PDict ([(PStr ''id'', step_id), (PStr ''skill'', skill), (PStr ''args'', PDict args)]
           @ (case recovery of None \<Rightarrow> [] | Some PNone \<Rightarrow> [] | Some r \<Rightarrow> [(PStr ''recovery'', r)])))"

definition patch_to_dict :: "(pyval \<Rightarrow> string) \<Rightarrow> program_patch \<Rightarrow> pyval" where
  "patch_to_dict str_of p = PDict
     [(PStr ''schema_version'', PInt 1),
      (PStr ''mission_id'', PStr (pp_mission p)),
      (PStr ''uav_id'', PStr (pp_uav p)),
      (PStr ''base_plan_version'', PInt (pp_base p)),
      (PStr ''new_plan_version'', PInt (pp_new p)),
      (PStr ''replace_from_node_id'', PStr (pp_from p)),
      (PStr ''replacement_nodes'', PList (map (\<lambda>n. PDict
         [(PStr ''node_id'', PStr (mn_id n)), (PStr ''step'', transport_step str_of (mn_step n))])
         (pp_nodes p))),
      (PStr ''replacement_edges'', PList (map edge_to_dict (pp_edges p))),
      (PStr ''reason_codes'', PList (map PStr (pp_reasons p)))]"

text \<open>A mapping with string keys, all of the required and at most the optional ones besides.\<close>

definition strict_mapping ::
  "pyval \<Rightarrow> string list \<Rightarrow> string list \<Rightarrow> string \<Rightarrow> (string \<times> pyval) list result" where
  "strict_mapping v required opt name =
     (case v of
        PDict d \<Rightarrow>
          (case string_keys d of
             None \<Rightarrow> Inl (MissionProgramError (name @ '' must be an object''))
           | Some e \<Rightarrow>
               let missing = sort (filter (\<lambda>k. k \<notin> set (dkeys e)) required);
                   unknown = sort (filter (\<lambda>k. k \<notin> set required \<and> k \<notin> set opt) (dkeys e))
               in if missing \<noteq> []
                  then Inl (MissionProgramError (name @ '' is missing fields: '' @ py_join '', '' missing))
                  else if unknown \<noteq> []
                  then Inl (MissionProgramError (name @ '' has unknown fields: '' @ py_join '', '' unknown))
                  else Inr e)
      | _ \<Rightarrow> Inl (MissionProgramError (name @ '' must be an object'')))"

definition array_value :: "pyval \<Rightarrow> string \<Rightarrow> pyval list result" where
  "array_value v name =
     (case v of PList xs \<Rightarrow> Inr xs | PTuple xs \<Rightarrow> Inr xs
      | _ \<Rightarrow> Inl (MissionProgramError (name @ '' must be an array'')))"

definition indexed_name :: "string \<Rightarrow> nat \<Rightarrow> string" where
  "indexed_name name i = name @ ''['' @ decimal i @ '']''"

definition parse_node :: "nat \<times> pyval \<Rightarrow> mission_node result" where
  "parse_node = (\<lambda>(index, raw).
     let name = indexed_name ''replacement_nodes'' index in
     rbind (strict_mapping raw [''node_id'', ''step''] [] name) (\<lambda>node_data.
     rbind (strict_mapping (the (dget node_data ''step'')) [''args'', ''id'', ''skill''] [''recovery'']
              (name @ ''.step'')) (\<lambda>step_data.
     rbind (case the (dget step_data ''args'') of
              PDict d \<Rightarrow> if string_keys d = None
                then Inl (MissionProgramError (name @ ''.step.args must be an object'')) else Inr (PDict d)
            | _ \<Rightarrow> Inl (MissionProgramError (name @ ''.step.args must be an object''))) (\<lambda>args.
     rbind (TaskStep (the (dget step_data ''id'')) (the (dget step_data ''skill'')) args
              (RecValue (case dget step_data ''recovery'' of None \<Rightarrow> PNone | Some r \<Rightarrow> r))) (\<lambda>step.
       MissionNode (the (dget node_data ''node_id'')) step)))))"

definition parse_edge :: "nat \<times> pyval \<Rightarrow> mission_edge result" where
  "parse_edge = (\<lambda>(index, raw).
     rbind (strict_mapping raw [''on'', ''source_node_id'', ''target_node_id''] []
              (indexed_name ''replacement_edges'' index)) (\<lambda>edge_data.
       MissionEdge (the (dget edge_data ''source_node_id'')) (the (dget edge_data ''target_node_id''))
         (the (dget edge_data ''on''))))"

definition patch_fields :: "string list" where
  "patch_fields = [''schema_version'', ''mission_id'', ''uav_id'', ''base_plan_version'',
     ''new_plan_version'', ''replace_from_node_id'', ''replacement_nodes'', ''replacement_edges'',
     ''reason_codes'']"

definition patch_from_dict :: "pyval \<Rightarrow> program_patch result" where
  "patch_from_dict v =
     rbind (strict_mapping v patch_fields [] ''ProgramPatch'') (\<lambda>data.
     if \<not> equals_int (the (dget data ''schema_version'')) 1
     then Inl (MissionProgramError ''ProgramPatch.schema_version must equal 1'')
     else rbind (array_value (the (dget data ''replacement_nodes'')) ''replacement_nodes'') (\<lambda>raw_nodes.
          rbind (rmap parse_node (enumerate 0 raw_nodes)) (\<lambda>nodes.
          rbind (array_value (the (dget data ''replacement_edges'')) ''replacement_edges'') (\<lambda>raw_edges.
          rbind (rmap parse_edge (enumerate 0 raw_edges)) (\<lambda>edges.
          rbind (array_value (the (dget data ''reason_codes'')) ''reason_codes'') (\<lambda>reasons.
            ProgramPatch (the (dget data ''mission_id'')) (the (dget data ''uav_id''))
              (the (dget data ''base_plan_version'')) (the (dget data ''new_plan_version''))
              (the (dget data ''replace_from_node_id'')) nodes edges (PTuple reasons)))))))"

section \<open>Application\<close>

definition apply_program_patch ::
  "mission_program \<Rightarrow> program_patch \<Rightarrow> string list \<Rightarrow> mission_program result" where
  "apply_program_patch p patch completed =
     (if pp_mission patch \<noteq> mp_mission p \<or> pp_uav patch \<noteq> mp_uav p
      then Inl (MissionProgramError ''ProgramPatch routing does not match MissionProgram'')
      else if pp_base patch \<noteq> mp_version p
      then Inl (MissionProgramError ''ProgramPatch base_plan_version is stale'')
      else rbind (rmap (\<lambda>i. validate_routing_id (PStr i) ''completed_node_id'') completed) (\<lambda>completed.
      if \<not> set completed \<subseteq> set (node_ids p)
      then Inl (MissionProgramError ''completed_node_ids contains an unknown node'')
      else if pp_from patch \<in> set completed
      then Inl (MissionProgramError ''completed nodes cannot be replaced'')
      else if pp_from patch \<notin> set (node_ids p)
      then Inl (MissionProgramError ''replace_from_node_id does not exist'')
      else
        let prefix = takeWhile (\<lambda>n. mn_id n \<noteq> pp_from patch) (mp_nodes p);
            kept_ids = map mn_id prefix;
            replacement_ids = map mn_id (pp_nodes patch)
        in if list_ex (\<lambda>n. mn_id n \<in> set completed \<and> mn_id n \<notin> set kept_ids) (mp_nodes p)
           then Inl (MissionProgramError ''patch would modify a completed node'')
           else if list_ex (\<lambda>e. me_source e \<notin> set replacement_ids) (pp_edges patch)
           then Inl (MissionProgramError (''replacement_edges may originate only from replacement ''
             @ ''nodes; completed/prefix control flow is immutable''))
           else
             let kept_edges = filter (\<lambda>e. me_source e \<in> set kept_ids
                   \<and> (me_target e \<in> set kept_ids \<or> me_target e = pp_from patch)) (mp_edges p)
             in MissionProgram (mp_schema p) (PStr (mp_mission p)) (PStr (mp_uav p)) (PInt (pp_new patch))
                  (PStr (mp_entry p)) (mp_entities p) (prefix @ pp_nodes patch)
                  (kept_edges @ pp_edges patch) (mp_handlers p)))"

section \<open>Facts\<close>

definition patch_ok :: "program_patch \<Rightarrow> bool" where
  "patch_ok p \<longleftrightarrow> routing_id_match (pp_mission p) \<and> routing_id_match (pp_uav p) \<and> 0 < pp_base p
     \<and> pp_new p = pp_base p + 1 \<and> routing_id_match (pp_from p)
     \<and> pp_nodes p \<noteq> [] \<and> length (pp_nodes p) \<le> 32 \<and> mn_id (hd (pp_nodes p)) = pp_from p
     \<and> length (pp_edges p) \<le> 64
     \<and> pp_reasons p \<noteq> [] \<and> length (pp_reasons p) \<le> 16 \<and> distinct (pp_reasons p)
     \<and> list_all (\<lambda>r. r \<noteq> [] \<and> length r \<le> 64) (pp_reasons p)"

lemma reason_code_Inr: "reason_code v = Inr s \<longleftrightarrow> v = PStr s \<and> s \<noteq> [] \<and> length s \<le> 64"
  by (auto simp: reason_code_def split: pyval.splits if_splits)

lemma rmap_reason_code:
  "rmap reason_code vs = Inr rs \<longleftrightarrow> vs = map PStr rs \<and> list_all (\<lambda>r. r \<noteq> [] \<and> length r \<le> 64) rs"
proof
  assume "rmap reason_code vs = Inr rs"
  then show "vs = map PStr rs \<and> list_all (\<lambda>r. r \<noteq> [] \<and> length r \<le> 64) rs"
    unfolding rmap_eq_Inr by (induction rule: list_all2_induct) (auto simp: reason_code_Inr)
next
  assume "vs = map PStr rs \<and> list_all (\<lambda>r. r \<noteq> [] \<and> length r \<le> 64) rs"
  then show "rmap reason_code vs = Inr rs"
    by (auto simp: list_all_iff reason_code_Inr intro!: rmap_PStr)
qed

lemma ProgramPatch_ok:
  "ProgramPatch mv uv bv nv fv nodes edges rv = Inr p \<Longrightarrow> patch_ok p"
  unfolding ProgramPatch_def rbind_eq_Inr
  by (auto simp: patch_ok_def rbind_eq_Inr rmap_reason_code split: if_splits)

lemma ProgramPatch_rebuild:
  "patch_ok p \<Longrightarrow> ProgramPatch (PStr (pp_mission p)) (PStr (pp_uav p)) (PInt (pp_base p))
     (PInt (pp_new p)) (PStr (pp_from p)) (pp_nodes p) (pp_edges p) (PTuple (map PStr (pp_reasons p)))
   = Inr p"
  by (cases p) (auto simp: ProgramPatch_def patch_ok_def rbind_eq_Inr rmap_reason_code)

subsection \<open>Transport\<close>

lemma strict_mapping_exact:
  assumes "set (dkeys e) = set required"
  shows "strict_mapping (PDict (map (\<lambda>(k, v). (PStr k, v)) e)) required opt name = Inr e"
proof -
  have "filter (\<lambda>k. k \<notin> set (dkeys e)) required = []"
    "filter (\<lambda>k. k \<notin> set required \<and> k \<notin> set opt) (dkeys e) = []"
    using assms by (auto simp: filter_empty_conv)
  then show ?thesis by (simp only: strict_mapping_def pyval.case string_keys_PStr option.case Let_def
        sort_key_simps(1) if_False simp_thms)
qed

lemma strict_mapping_with_optional:
  assumes "set required \<subseteq> set (dkeys e)" and "set (dkeys e) \<subseteq> set required \<union> set opt"
  shows "strict_mapping (PDict (map (\<lambda>(k, v). (PStr k, v)) e)) required opt name = Inr e"
proof -
  have "filter (\<lambda>k. k \<notin> set (dkeys e)) required = []"
    "filter (\<lambda>k. k \<notin> set required \<and> k \<notin> set opt) (dkeys e) = []"
    using assms by (auto simp: filter_empty_conv)
  then show ?thesis by (simp only: strict_mapping_def pyval.case string_keys_PStr option.case Let_def
        sort_key_simps(1) if_False simp_thms)
qed

lemma ddel_PStr: "ddel (map (\<lambda>(k, v). (PStr k, v)) e) (PStr k) = map (\<lambda>(k, v). (PStr k, v)) (ddel e k)"
  by (induction e) auto

lemma ddel_commute: "ddel (ddel d a) b = ddel (ddel d b) a"
  by (simp add: ddel_filter conj_commute)

lemma dget_ddel_other: "k \<noteq> j \<Longrightarrow> dget (ddel d j) k = dget d k"
  by (simp add: dget_ddel)

lemma transport_step_shown:
  assumes "step_ok s"
  shows "transport_step str_of s = PDict (map (\<lambda>(k, v). (PStr k, v))
    ([(''id'', PStr (ts_id s)), (''skill'', PStr (skill_value (ts_skill s))),
      (''args'', PDict (map (\<lambda>(k, v). (PStr k, v)) (shown_params str_of s)))]
     @ (case ts_recovery s of None \<Rightarrow> [] | Some r \<Rightarrow> [(''recovery'', recovery_to_dict r)])))"
proof -
  note g = shown_step_get [OF assms, of str_of]
  have "ddel (ddel (ddel (shown_step str_of s) ''recovery'') ''id'') ''skill'' = shown_params str_of s"
    using g(4) by (metis ddel_commute)
  then show ?thesis
    by (simp add: transport_step_def step_to_dict_shown dget_PStr ddel_PStr Let_def g dget_ddel
        recovery_to_dict_def split: option.split)
qed

lemma parse_node_transported:
  assumes "node_ok n" and ok: "step_ok (mn_step n)" and pl: "step_plain (mn_step n)"
  shows "parse_node (i, PDict [(PStr ''node_id'', PStr (mn_id n)),
    (PStr ''step'', transport_step str_of (mn_step n))]) = Inr n"
proof -
  let ?s = "mn_step n"
  let ?e = "[(''id'', PStr (ts_id ?s)), (''skill'', PStr (skill_value (ts_skill ?s))),
      (''args'', PDict (map (\<lambda>(k, v). (PStr k, v)) (shown_params str_of ?s)))]
     @ (case ts_recovery ?s of None \<Rightarrow> [] | Some r \<Rightarrow> [(''recovery'', recovery_to_dict r)])"
  have 1: "strict_mapping (PDict [(PStr ''node_id'', PStr (mn_id n)),
      (PStr ''step'', transport_step str_of ?s)]) [''node_id'', ''step''] [] name
    = Inr [(''node_id'', PStr (mn_id n)), (''step'', transport_step str_of ?s)]" for name
    using strict_mapping_exact [of "[(''node_id'', PStr (mn_id n)), (''step'', transport_step str_of ?s)]"
        "[''node_id'', ''step'']" "[]" name] by simp
  have 2: "strict_mapping (transport_step str_of ?s) [''args'', ''id'', ''skill''] [''recovery''] name
    = Inr ?e" for name
    unfolding transport_step_shown [OF ok]
    by (rule strict_mapping_with_optional) (auto split: option.splits)
  have "MissionNode (PStr (mn_id n)) ?s = Inr n" using assms(1) by (simp add: MissionNode_Inr)
  then show ?thesis
    using TaskStep_shown [OF ok pl, of str_of]
    by (cases "ts_recovery ?s") (simp_all add: parse_node_def Let_def 1 2 del: map_map)
qed

lemma parse_edge_transported:
  "routing_id_match (me_source e) \<Longrightarrow> routing_id_match (me_target e) \<Longrightarrow>
     parse_edge (i, edge_to_dict e) = Inr e"
  using strict_mapping_exact [of "[(''source_node_id'', PStr (me_source e)),
     (''target_node_id'', PStr (me_target e)), (''on'', PStr (event_value (me_on e)))]"
     "[''on'', ''source_node_id'', ''target_node_id'']" "[]" "indexed_name ''replacement_edges'' i"]
  by (auto simp: parse_edge_def edge_to_dict_def MissionEdge_Inr insert_commute)

lemma rmap_enumerate:
  "(\<And>i x. x \<in> set xs \<Longrightarrow> f (i, g x) = Inr x) \<Longrightarrow> rmap f (enumerate n (map g xs)) = Inr xs"
  by (induction xs arbitrary: n) simp_all

subsection \<open>Application\<close>

definition patch_prefix :: "mission_program \<Rightarrow> string \<Rightarrow> mission_node list" where
  "patch_prefix p i = takeWhile (\<lambda>n. mn_id n \<noteq> i) (mp_nodes p)"

definition kept_edges :: "mission_program \<Rightarrow> string \<Rightarrow> mission_edge list" where
  "kept_edges p i = filter (\<lambda>e. me_source e \<in> mn_id ` set (patch_prefix p i)
     \<and> (me_target e \<in> mn_id ` set (patch_prefix p i) \<or> me_target e = i)) (mp_edges p)"

definition patched :: "mission_program \<Rightarrow> program_patch \<Rightarrow> mission_program" where
  "patched p patch = p\<lparr>mp_version := pp_new patch, mp_nodes := patch_prefix p (pp_from patch) @ pp_nodes patch,
     mp_edges := kept_edges p (pp_from patch) @ pp_edges patch\<rparr>"

lemma prefix_before: "i \<notin> mn_id ` set (patch_prefix p i)"
  by (auto simp: patch_prefix_def dest: set_takeWhileD)

lemma prefix_subset: "set (patch_prefix p i) \<subseteq> set (mp_nodes p)"
  by (auto simp: patch_prefix_def dest: set_takeWhileD)

lemma rmap_routing:
  "f \<noteq> [] \<Longrightarrow> rmap (\<lambda>i. validate_routing_id (PStr i) f) xs = Inr ys \<longleftrightarrow> xs = ys \<and> list_all routing_id_match xs"
proof -
  assume f: "f \<noteq> []"
  have "xs = ys \<and> list_all routing_id_match xs"
    if "rmap (\<lambda>i. validate_routing_id (PStr i) f) xs = Inr ys"
    using that f unfolding rmap_eq_Inr
    by (induction rule: list_all2_induct) (auto simp: validate_routing_id_Inr)
  moreover have "rmap (\<lambda>i. validate_routing_id (PStr i) f) xs = Inr ys"
    if "xs = ys \<and> list_all routing_id_match xs"
    using that f by (intro rmap_same [where g = id]) (auto simp: list_all_iff validate_routing_id_Inr)
  ultimately show ?thesis by blast
qed

text \<open>When a patch applies.\<close>

definition patch_applies :: "mission_program \<Rightarrow> program_patch \<Rightarrow> string list \<Rightarrow> bool" where
  "patch_applies p patch completed \<longleftrightarrow>
     pp_mission patch = mp_mission p \<and> pp_uav patch = mp_uav p \<and> pp_base patch = mp_version p
     \<and> list_all routing_id_match completed \<and> pp_from patch \<in> set (node_ids p)
     \<and> set completed \<subseteq> mn_id ` set (patch_prefix p (pp_from patch))
     \<and> list_all (\<lambda>e. me_source e \<in> mn_id ` set (pp_nodes patch)) (pp_edges patch)
     \<and> program_ok (patched p patch)"

lemma MissionProgram_patched:
  "MissionProgram (mp_schema p) (PStr (mp_mission p)) (PStr (mp_uav p)) (PInt (pp_new patch))
     (PStr (mp_entry p)) (mp_entities p) (patch_prefix p (pp_from patch) @ pp_nodes patch)
     (kept_edges p (pp_from patch) @ pp_edges patch) (mp_handlers p) = Inr q
   \<longleftrightarrow> program_ok (patched p patch) \<and> q = patched p patch"
  unfolding MissionProgram_Inr by (cases p; cases q) (auto simp: patched_def)

lemma completed_in_prefix:
  assumes "set completed \<subseteq> set (node_ids p)"
  shows "list_ex (\<lambda>n. mn_id n \<in> set completed \<and> mn_id n \<notin> mn_id ` set (patch_prefix p i)) (mp_nodes p)
    \<longleftrightarrow> \<not> set completed \<subseteq> mn_id ` set (patch_prefix p i)"
  using assms by (fastforce simp: list_ex_iff node_ids_def)

lemma apply_program_patch_Inr:
  "apply_program_patch p patch completed = Inr q \<longleftrightarrow>
     patch_applies p patch completed \<and> q = patched p patch"
proof -
  let ?pre = "mn_id ` set (patch_prefix p (pp_from patch))"
  have pre: "?pre \<subseteq> set (node_ids p)" using prefix_subset by (auto simp: node_ids_def)
  have cut: "takeWhile (\<lambda>n. mn_id n \<noteq> pp_from patch) (mp_nodes p) = patch_prefix p (pp_from patch)"
    by (simp add: patch_prefix_def)
  have kept: "filter (\<lambda>e. me_source e \<in> ?pre \<and> (me_target e \<in> ?pre \<or> me_target e = pp_from patch))
      (mp_edges p) = kept_edges p (pp_from patch)" by (simp add: kept_edges_def)
  have edges: "list_ex (\<lambda>e. me_source e \<notin> mn_id ` set (pp_nodes patch)) (pp_edges patch)
      \<longleftrightarrow> \<not> list_all (\<lambda>e. me_source e \<in> mn_id ` set (pp_nodes patch)) (pp_edges patch)"
    by (auto simp: list_ex_iff list_all_iff)
  show ?thesis
  proof (cases "set completed \<subseteq> set (node_ids p)")
    case True
    show ?thesis
      unfolding apply_program_patch_def patch_applies_def Let_def cut set_map kept
        completed_in_prefix [OF True] edges rbind_eq_Inr rmap_routing
      using True prefix_before [of "pp_from patch" p]
      by (auto simp: MissionProgram_patched rbind_eq_Inr rmap_routing completed_in_prefix)
  next
    case False
    then have "\<not> set completed \<subseteq> ?pre" using pre by blast
    with False show ?thesis
      by (auto simp: apply_program_patch_def patch_applies_def rbind_eq_Inr rmap_routing)
  qed
qed

section \<open>Properties\<close>

text \<open>
  The transport format loses nothing: parsing the serialized form of a valid patch gives back the
  patch, when its steps are well formed with JSON parameters (references to earlier outputs as TRACK
  targets) and its edges have valid ends.
\<close>

theorem patch_round_trip:
  assumes "patch_ok p"
    and "list_all (\<lambda>n. node_ok n \<and> step_ok (mn_step n) \<and> step_plain (mn_step n)) (pp_nodes p)"
    and "list_all (\<lambda>e. routing_id_match (me_source e) \<and> routing_id_match (me_target e)) (pp_edges p)"
  shows "patch_from_dict (patch_to_dict str_of p) = Inr p"
proof -
  let ?nodes = "map (\<lambda>n. PDict [(PStr ''node_id'', PStr (mn_id n)),
      (PStr ''step'', transport_step str_of (mn_step n))]) (pp_nodes p)"
  let ?edges = "map edge_to_dict (pp_edges p)"
  let ?e = "[(''schema_version'', PInt 1), (''mission_id'', PStr (pp_mission p)),
      (''uav_id'', PStr (pp_uav p)), (''base_plan_version'', PInt (pp_base p)),
      (''new_plan_version'', PInt (pp_new p)), (''replace_from_node_id'', PStr (pp_from p)),
      (''replacement_nodes'', PList ?nodes), (''replacement_edges'', PList ?edges),
      (''reason_codes'', PList (map PStr (pp_reasons p)))]"
  have "rmap parse_node (enumerate 0 ?nodes) = Inr (pp_nodes p)"
    using assms(2) by (intro rmap_enumerate parse_node_transported) (auto simp: list_all_iff)
  moreover have "rmap parse_edge (enumerate 0 ?edges) = Inr (pp_edges p)"
    using assms(3) by (intro rmap_enumerate parse_edge_transported) (auto simp: list_all_iff)
  moreover have "strict_mapping (patch_to_dict str_of p) patch_fields [] ''ProgramPatch'' = Inr ?e"
    using strict_mapping_exact [of ?e patch_fields "[]" "''ProgramPatch''"]
    by (simp add: patch_to_dict_def patch_fields_def)
  ultimately show ?thesis
    using ProgramPatch_rebuild [OF assms(1)]
    by (simp add: patch_from_dict_def array_value_def equals_int_def)
qed

definition example_patch :: program_patch where
  "example_patch =
     (let s1 = \<lparr>ts_id = ''follow'', ts_skill = SK_TRACK,
            ts_params = [(''target_id'', PStepRef ''find'' ''target_id''), (''height_m'', PInt 6)],
            ts_recovery = Some \<lparr>rp_max_attempts = 1, rp_radius = 5, rp_timeout = 20\<rparr>\<rparr>;
          s2 = \<lparr>ts_id = ''land'', ts_skill = SK_LAND, ts_params = [], ts_recovery = None\<rparr>
      in \<lparr>pp_mission = ''m1'', pp_uav = ''u1'', pp_base = 1, pp_new = 2, pp_from = ''follow'',
          pp_nodes = [\<lparr>mn_id = ''follow'', mn_step = s1\<rparr>, \<lparr>mn_id = ''land'', mn_step = s2\<rparr>],
          pp_edges = [\<lparr>me_source = ''follow'', me_target = ''land'', me_on = EV_TARGET_LOST\<rparr>],
          pp_reasons = [''target lost'']\<rparr>)"

theorem patch_round_trip_witness:
  "patch_from_dict (patch_to_dict (\<lambda>_. []) example_patch) = Inr example_patch"
proof (rule patch_round_trip)
  show "patch_ok example_patch" by code_simp
  show "list_all (\<lambda>n. node_ok n \<and> step_ok (mn_step n) \<and> step_plain (mn_step n)) (pp_nodes example_patch)"
    by code_simp
  show "list_all (\<lambda>e. routing_id_match (me_source e) \<and> routing_id_match (me_target e)) (pp_edges example_patch)"
    by code_simp
qed

text \<open>The transitions of a program, as a relation between node identifiers.\<close>

definition program_moves :: "mission_program \<Rightarrow> string \<Rightarrow> program_event \<Rightarrow> string \<Rightarrow> bool" where
  "program_moves p i ev j \<longleftrightarrow> (\<exists>e\<in>set (mp_edges p). me_source e = i \<and> me_on e = ev \<and> me_target e = j)"

lemma patch_prefix_split:
  assumes "distinct (node_ids p)" and "mp_nodes p = before @ seam # after"
  shows "patch_prefix p (mn_id seam) = before"
proof -
  have "mn_id x \<noteq> mn_id seam" if "x \<in> set before" for x
    using assms that by (auto simp: node_ids_def image_iff)
  then show ?thesis by (simp add: patch_prefix_def assms(2) takeWhile_tail)
qed

lemma kept_edges_split:
  assumes "program_ok p" and n: "mp_nodes p = before @ seam # after"
  shows "kept_edges p (mn_id seam) = filter (\<lambda>e. me_source e \<in> mn_id ` set before
    \<and> me_target e \<notin> mn_id ` set after) (mp_edges p)"
proof -
  have d: "distinct (node_ids p)" and t: "\<And>e. e \<in> set (mp_edges p) \<Longrightarrow> me_target e \<in> set (node_ids p)"
    using assms(1) by (auto simp: program_ok_def list_all_iff)
  have tgt: "me_target e \<in> mn_id ` set before \<or> me_target e = mn_id seam
      \<longleftrightarrow> me_target e \<notin> mn_id ` set after" if "e \<in> set (mp_edges p)" for e
  proof -
    have "mn_id seam \<notin> mn_id ` set after" "mn_id ` set before \<inter> mn_id ` set after = {}"
      using d by (auto simp: n node_ids_def)
    moreover have "me_target e \<in> mn_id ` set before \<union> {mn_id seam} \<union> mn_id ` set after"
      using t [OF that] by (simp add: n node_ids_def)
    ultimately show ?thesis by (metis IntI UnE empty_iff singletonD)
  qed
  show ?thesis
    unfolding kept_edges_def patch_prefix_split [OF d n]
    by (rule filter_cong [OF refl]) (rule conj_cong [OF refl], rule tgt)
qed

text \<open>The graph conditions of the result, in terms of the two parts it is made of.\<close>

lemma patched_ok:
  assumes p: "program_ok p" and "patch_ok patch"
    and n: "mp_nodes p = before @ seam # after" and seam: "mn_id seam = pp_from patch"
    and src: "\<forall>e\<in>set (pp_edges patch). me_source e \<in> mn_id ` set (pp_nodes patch)"
  shows "program_ok (patched p patch) \<longleftrightarrow>
    distinct (map mn_id (pp_nodes patch)) \<and> mn_id ` set before \<inter> mn_id ` set (pp_nodes patch) = {}
    \<and> mp_entry p \<in> mn_id ` set before \<union> mn_id ` set (pp_nodes patch)
    \<and> (\<forall>e\<in>set (pp_edges patch). me_target e \<in> mn_id ` set before \<union> mn_id ` set (pp_nodes patch))
    \<and> distinct (map edge_key (pp_edges patch))
    \<and> length before + length (pp_nodes patch) \<le> 100
    \<and> length (filter (\<lambda>e. me_source e \<in> mn_id ` set before \<and> me_target e \<notin> mn_id ` set after)
        (mp_edges p)) + length (pp_edges patch) \<le> 256"
proof -
  let ?old = "mn_id ` set before" and ?new = "mn_id ` set (pp_nodes patch)"
  have d: "distinct (node_ids p)" and keys: "distinct (map edge_key (mp_edges p))"
    and t: "\<And>e. e \<in> set (mp_edges p) \<Longrightarrow> me_target e \<in> set (node_ids p)"
    using p by (auto simp: program_ok_def list_all_iff)
  have from_new: "pp_from patch \<in> ?new"
    using assms(2) by (auto simp: patch_ok_def intro!: image_eqI [of _ _ "hd (pp_nodes patch)"])
  let ?kept = "filter (\<lambda>e. me_source e \<in> ?old \<and> me_target e \<notin> mn_id ` set after) (mp_edges p)"
  have q: "patched p patch = p\<lparr>mp_version := pp_new patch, mp_nodes := before @ pp_nodes patch,
      mp_edges := ?kept @ pp_edges patch\<rparr>"
    using patch_prefix_split [OF d n] kept_edges_split [OF p n] by (simp add: patched_def seam)
  have kept: "me_source e \<in> ?old" "me_target e \<in> ?old \<union> ?new" if "e \<in> set ?kept" for e
    using that t [of e] from_new by (auto simp: n node_ids_def seam)
  have disj: "?old \<inter> ?new = {} \<Longrightarrow> edge_key ` set ?kept \<inter> edge_key ` set (pp_edges patch) = {}"
    using src by fastforce
  have ids: "distinct (node_ids (patched p patch)) \<longleftrightarrow>
      distinct (map mn_id (pp_nodes patch)) \<and> ?old \<inter> ?new = {}"
    using d by (auto simp: q node_ids_def n)
  have ends: "list_all (\<lambda>e. me_source e \<in> set (node_ids (patched p patch))
        \<and> me_target e \<in> set (node_ids (patched p patch))) (mp_edges (patched p patch))
      \<longleftrightarrow> (\<forall>e\<in>set (pp_edges patch). me_target e \<in> ?old \<union> ?new)"
    using kept src by (auto simp: q node_ids_def list_all_iff)
  have uniq: "distinct (map edge_key (mp_edges (patched p patch))) \<longleftrightarrow> distinct (map edge_key (pp_edges patch))"
    if "?old \<inter> ?new = {}"
    using disj [OF that] distinct_map_filter [OF keys] by (simp add: q)
  have v: "0 < pp_new patch" using assms(2) by (simp add: patch_ok_def)
  have entry: "mp_entry p \<in> set (node_ids (patched p patch)) \<longleftrightarrow> mp_entry p \<in> ?old \<union> ?new"
    by (auto simp: q node_ids_def)
  have "program_ok (patched p patch) \<longleftrightarrow> mp_entry p \<in> set (node_ids (patched p patch))
      \<and> length before + length (pp_nodes patch) \<le> 100 \<and> length ?kept + length (pp_edges patch) \<le> 256
      \<and> distinct (node_ids (patched p patch))
      \<and> list_all (\<lambda>e. me_source e \<in> set (node_ids (patched p patch))
          \<and> me_target e \<in> set (node_ids (patched p patch))) (mp_edges (patched p patch))
      \<and> distinct (map edge_key (mp_edges (patched p patch)))"
    using p v unfolding program_ok_def by (auto simp: q)
  then show ?thesis unfolding ids ends entry using uniq by blast
qed

lemma patch_accepted:
  assumes "program_ok p" and "patch_ok patch" and n: "mp_nodes p = before @ seam # after"
    and seam: "mn_id seam = pp_from patch"
  shows "(\<exists>q. apply_program_patch p patch completed = Inr q) \<longleftrightarrow>
    pp_mission patch = mp_mission p \<and> pp_uav patch = mp_uav p \<and> pp_base patch = mp_version p
    \<and> list_all routing_id_match completed \<and> set completed \<subseteq> mn_id ` set before
    \<and> (\<forall>e\<in>set (pp_edges patch). me_source e \<in> mn_id ` set (pp_nodes patch)
         \<and> me_target e \<in> mn_id ` set before \<union> mn_id ` set (pp_nodes patch))
    \<and> distinct (map edge_key (pp_edges patch)) \<and> distinct (map mn_id (pp_nodes patch))
    \<and> mn_id ` set before \<inter> mn_id ` set (pp_nodes patch) = {}
    \<and> mp_entry p \<in> mn_id ` set before \<union> mn_id ` set (pp_nodes patch)
    \<and> length before + length (pp_nodes patch) \<le> 100
    \<and> length (filter (\<lambda>e. me_source e \<in> mn_id ` set before \<and> me_target e \<notin> mn_id ` set after)
        (mp_edges p)) + length (pp_edges patch) \<le> 256"
proof -
  have d: "distinct (node_ids p)" using assms(1) by (simp add: program_ok_def)
  have known: "pp_from patch \<in> set (node_ids p)" by (simp add: node_ids_def n seam [symmetric])
  have ok: "program_ok (patched p patch) \<longleftrightarrow>
      distinct (map mn_id (pp_nodes patch)) \<and> mn_id ` set before \<inter> mn_id ` set (pp_nodes patch) = {}
      \<and> mp_entry p \<in> mn_id ` set before \<union> mn_id ` set (pp_nodes patch)
      \<and> (\<forall>e\<in>set (pp_edges patch). me_target e \<in> mn_id ` set before \<union> mn_id ` set (pp_nodes patch))
      \<and> distinct (map edge_key (pp_edges patch)) \<and> length before + length (pp_nodes patch) \<le> 100
      \<and> length (filter (\<lambda>e. me_source e \<in> mn_id ` set before \<and> me_target e \<notin> mn_id ` set after)
          (mp_edges p)) + length (pp_edges patch) \<le> 256"
    if "\<forall>e\<in>set (pp_edges patch). me_source e \<in> mn_id ` set (pp_nodes patch)"
    by (rule patched_ok [OF assms(1,2) n seam that])
  have ap: "(\<exists>q. apply_program_patch p patch completed = Inr q) \<longleftrightarrow> patch_applies p patch completed"
    by (simp add: apply_program_patch_Inr)
  show ?thesis
    unfolding ap patch_applies_def patch_prefix_split [OF d n, unfolded seam]
      list_all_iff [of _ "pp_edges patch"] ball_conj_distrib
    by (rule iffI; elim conjE; intro conjI; (assumption | (drule (1) ok [THEN iffD1], blast)
      | (rule ok [THEN iffD2]; (intro conjI)?; assumption) | rule known)?)
qed

lemma patch_result:
  assumes "program_ok p" and "patch_ok patch" and n: "mp_nodes p = before @ seam # after"
    and seam: "mn_id seam = pp_from patch" and ok: "apply_program_patch p patch completed = Inr q"
  shows "program_ok q" and "mp_version q = mp_version p + 1" and "mp_mission q = mp_mission p"
    and "mp_uav q = mp_uav p" and "mp_entry q = mp_entry p" and "mp_entities q = mp_entities p"
    and "mp_handlers q = mp_handlers p" and "mp_nodes q = before @ pp_nodes patch"
    and "\<forall>i\<in>mn_id ` set before. program_node q (PStr i) = program_node p (PStr i)"
    and "program_moves q i ev j \<longleftrightarrow>
      i \<in> mn_id ` set before \<and> program_moves p i ev j \<and> j \<notin> mn_id ` set after
      \<or> (\<exists>e\<in>set (pp_edges patch). me_source e = i \<and> me_on e = ev \<and> me_target e = j)"
proof -
  have d: "distinct (node_ids p)" using assms(1) by (simp add: program_ok_def)
  have new: "pp_new patch = pp_base patch + 1" using assms(2) by (simp add: patch_ok_def)
  from ok have ap: "patch_applies p patch completed" and q: "q = patched p patch"
    by (simp_all add: apply_program_patch_Inr)
  then show "program_ok q" by (simp add: patch_applies_def)
  have nodes: "mp_nodes q = before @ pp_nodes patch"
    using patch_prefix_split [OF d n] by (simp add: q patched_def seam)
  have edges: "mp_edges q = filter (\<lambda>e. me_source e \<in> mn_id ` set before
      \<and> me_target e \<notin> mn_id ` set after) (mp_edges p) @ pp_edges patch"
    using kept_edges_split [OF assms(1) n] by (simp add: q patched_def seam)
  show "mp_nodes q = before @ pp_nodes patch" by (rule nodes)
  show "mp_version q = mp_version p + 1" "mp_mission q = mp_mission p" "mp_uav q = mp_uav p"
    "mp_entry q = mp_entry p" "mp_entities q = mp_entities p" "mp_handlers q = mp_handlers p"
    using ap new by (simp_all add: patch_applies_def q patched_def)
  show "\<forall>i\<in>mn_id ` set before. program_node q (PStr i) = program_node p (PStr i)"
  proof
    fix i assume "i \<in> mn_id ` set before"
    then have "List.find (\<lambda>n. mn_id n = i) (before @ ns) = List.find (\<lambda>n. mn_id n = i) before" for ns
      by (induction before) auto
    then show "program_node q (PStr i) = program_node p (PStr i)"
      by (cases "validate_routing_id (PStr i) ''node_id''")
        (simp_all add: program_node_def nodes n validate_routing_id_Inr)
  qed
  show "program_moves q i ev j \<longleftrightarrow>
      i \<in> mn_id ` set before \<and> program_moves p i ev j \<and> j \<notin> mn_id ` set after
      \<or> (\<exists>e\<in>set (pp_edges patch). me_source e = i \<and> me_on e = ev \<and> me_target e = j)"
    unfolding program_moves_def edges by auto
qed

lemma patch_unknown:
  assumes "pp_from patch \<notin> set (node_ids p)"
  shows "isl (apply_program_patch p patch completed)"
  using assms apply_program_patch_Inr [of p patch completed]
  by (cases "apply_program_patch p patch completed") (auto simp: patch_applies_def)

text \<open>
  C12. Application of a valid patch to a well-formed program, with no reference to how it is computed.
  If the node it starts from does not exist it is refused.  Otherwise that node, the cut, splits the
  nodes, and the patch is accepted exactly when it is addressed to this mission, UAV and version,
  every completed node lies before the cut, its edges lead from replacement nodes to nodes before
  the cut or replacement nodes and have distinct sources and events, its nodes are distinct and new
  before the cut, the entry node survives and the sizes are within 100 nodes and 256 edges.  The
  result is then well formed with the next version; every node before the cut, the completed ones
  among them, is found unchanged; from such a node the transitions are the old ones, except those
  that led behind the cut, which are gone; from a replacement node they are the patch's; and there are no
  others.
\<close>

theorem program_patch_semantics:
  assumes "program_ok p" and "patch_ok patch"
  shows "(pp_from patch \<notin> set (node_ids p) \<longrightarrow> isl (apply_program_patch p patch completed))
    \<and> (\<forall>before seam after. mp_nodes p = before @ seam # after \<longrightarrow> mn_id seam = pp_from patch \<longrightarrow>
        (let old = mn_id ` set before; new = mn_id ` set (pp_nodes patch) in
          ((\<exists>q. apply_program_patch p patch completed = Inr q) \<longleftrightarrow>
             pp_mission patch = mp_mission p \<and> pp_uav patch = mp_uav p \<and> pp_base patch = mp_version p
             \<and> list_all routing_id_match completed \<and> set completed \<subseteq> old
             \<and> (\<forall>e\<in>set (pp_edges patch). me_source e \<in> new \<and> me_target e \<in> old \<union> new)
             \<and> distinct (map edge_key (pp_edges patch))
             \<and> distinct (map mn_id (pp_nodes patch)) \<and> old \<inter> new = {} \<and> mp_entry p \<in> old \<union> new
             \<and> length before + length (pp_nodes patch) \<le> 100
             \<and> length (filter (\<lambda>e. me_source e \<in> old \<and> me_target e \<notin> mn_id ` set after) (mp_edges p))
                 + length (pp_edges patch) \<le> 256)
          \<and> (\<forall>q. apply_program_patch p patch completed = Inr q \<longrightarrow>
             program_ok q \<and> mp_version q = mp_version p + 1 \<and> mp_mission q = mp_mission p
             \<and> mp_uav q = mp_uav p \<and> mp_entry q = mp_entry p \<and> mp_entities q = mp_entities p
             \<and> mp_handlers q = mp_handlers p \<and> mp_nodes q = before @ pp_nodes patch
             \<and> (\<forall>i\<in>old. program_node q (PStr i) = program_node p (PStr i))
             \<and> (\<forall>i ev j. program_moves q i ev j \<longleftrightarrow>
                 i \<in> old \<and> program_moves p i ev j \<and> j \<notin> mn_id ` set after
                 \<or> (\<exists>e\<in>set (pp_edges patch). me_source e = i \<and> me_on e = ev \<and> me_target e = j)))))"
  unfolding Let_def
  by (intro conjI impI allI;
      (rule patch_unknown patch_accepted [OF assms] patch_result [OF assms]; assumption))

text \<open>A program that searches, follows and lands; the example patch replaces it from the second node.\<close>

definition example_patchable :: mission_program where
  "example_patchable =
     (let s = (\<lambda>i k. \<lparr>mn_id = i, mn_step = \<lparr>ts_id = i, ts_skill = k, ts_params = [], ts_recovery = None\<rparr>\<rparr>)
      in \<lparr>mp_mission = ''m1'', mp_uav = ''u1'', mp_version = 1, mp_entry = ''find'',
          mp_entities = [], mp_nodes = [s ''find'' SK_SEARCH, s ''follow'' SK_TRACK, s ''home'' SK_LAND],
          mp_edges = [\<lparr>me_source = ''find'', me_target = ''follow'', me_on = EV_SUCCESS\<rparr>,
            \<lparr>me_source = ''find'', me_target = ''home'', me_on = EV_FAILURE\<rparr>,
            \<lparr>me_source = ''follow'', me_target = ''home'', me_on = EV_TARGET_LOST\<rparr>],
          mp_handlers = [], mp_schema = PInt 1\<rparr>)"

theorem program_patch_semantics_witness:
  "(\<exists>q. apply_program_patch example_patchable example_patch [''find''] = Inr q \<and> program_ok q
     \<and> program_moves q ''find'' EV_SUCCESS ''follow'' \<and> \<not> program_moves q ''find'' EV_FAILURE ''home''
     \<and> program_moves q ''follow'' EV_TARGET_LOST ''land'')
   \<and> isl (apply_program_patch example_patchable example_patch [''follow''])"
proof -
  have ok: "program_ok example_patchable" "patch_ok example_patch" by code_simp+
  have n: "mp_nodes example_patchable = take 1 (mp_nodes example_patchable)
      @ (mp_nodes example_patchable ! 1) # drop 2 (mp_nodes example_patchable)"
    by (simp add: example_patchable_def)
  have seam: "mn_id (mp_nodes example_patchable ! 1) = pp_from example_patch" by code_simp
  note sem = program_patch_semantics [OF ok, THEN conjunct2, rule_format, OF n seam, unfolded Let_def]
  have m: "program_moves example_patchable ''find'' EV_SUCCESS ''follow''"
    by (simp add: program_moves_def example_patchable_def)
  have e: "pp_edges example_patch = [\<lparr>me_source = ''follow'', me_target = ''land'', me_on = EV_TARGET_LOST\<rparr>]"
    by code_simp
  have "\<exists>q. apply_program_patch example_patchable example_patch [''find''] = Inr q"
    unfolding sem [of "[''find'']", THEN conjunct1] by (intro conjI) code_simp+
  then obtain q where q: "apply_program_patch example_patchable example_patch [''find''] = Inr q" by blast
  note beh = sem [of "[''find'']", THEN conjunct2, rule_format, OF q]
  have ids: "mn_id ` set (take 1 (mp_nodes example_patchable)) = {''find''}"
    "mn_id ` set (drop 2 (mp_nodes example_patchable)) = {''home''}"
    by (simp_all add: example_patchable_def)
  have "\<not> set [''follow''] \<subseteq> mn_id ` set (take 1 (mp_nodes example_patchable))" unfolding ids by simp
  then have "\<nexists>q. apply_program_patch example_patchable example_patch [''follow''] = Inr q"
    using sem [of "[''follow'']", THEN conjunct1] by blast
  then have "isl (apply_program_patch example_patchable example_patch [''follow''])"
    by (cases "apply_program_patch example_patchable example_patch [''follow'']") auto
  with q m show ?thesis using beh unfolding ids e by simp
qed

end
