(* ===== verification/Program_Executor.thy ===== *)
theory Program_Executor
  imports Program_Patch "HOL-Library.Sublist"
begin

text \<open>
  \<open>runtime/program_executor.py\<close>: the executor that advances a mission program.  Its state is the
  program, the current node (none when terminal) and the nodes completed so far.  Dispatch tokens pin
  the version and the node they were prepared for.
\<close>

section \<open>State and operations\<close>

record executor =
  ex_program :: mission_program
  ex_current :: "string option"
  ex_completed :: "string list"

record executor_snapshot =
  sn_mission :: string
  sn_uav :: string
  sn_version :: int
  sn_current :: "string option"
  sn_completed :: "string list"
  sn_terminal :: bool

record event_dispatch =
  dp_mission :: string
  dp_uav :: string
  dp_version :: int
  dp_current :: string
  dp_event :: program_event
  dp_actions :: "program_action list"
  dp_target :: "string option"

definition executor_init :: "mission_program \<Rightarrow> executor" where
  "executor_init p = \<lparr>ex_program = p, ex_current = Some (mp_entry p), ex_completed = []\<rparr>"

definition current_step :: "executor \<Rightarrow> task_step option result" where
  "current_step x =
     (case ex_current x of
        None \<Rightarrow> Inr None
      | Some i \<Rightarrow> rbind (program_node (ex_program x) (PStr i)) (\<lambda>n. Inr (Some (mn_step n))))"

definition normalized_event :: "pyval \<Rightarrow> program_event result" where
  "normalized_event v = or_program_error ''unsupported MissionProgram event'' (ProgramEvent v)"

text \<open>The edges of the current program that leave a node on an event.\<close>

definition matching_edges :: "executor \<Rightarrow> string \<Rightarrow> program_event \<Rightarrow> mission_edge list" where
  "matching_edges x i e =
     filter (\<lambda>d. me_source d = i \<and> me_on d = e) (mp_edges (ex_program x))"

definition has_transition :: "executor \<Rightarrow> pyval \<Rightarrow> bool result" where
  "has_transition x v =
     (case ex_current x of
        None \<Rightarrow> Inr False
      | Some i \<Rightarrow> rbind (normalized_event v) (\<lambda>e.
          Inr (list_ex (\<lambda>d. me_source d = i \<and> me_on d = e) (mp_edges (ex_program x)))))"

definition prepare_dispatch :: "executor \<Rightarrow> pyval \<Rightarrow> pyval \<Rightarrow> event_dispatch result" where
  "prepare_dispatch x v expected =
     (case ex_current x of
        None \<Rightarrow> Inl (MissionProgramError ''the MissionProgram is already terminal'')
      | Some i \<Rightarrow>
          rbind (positive_version ''expected_plan_version'' expected) (\<lambda>expected.
          if expected \<noteq> mp_version (ex_program x)
          then Inl (MissionProgramError ''external MissionProgram event is stale'')
          else rbind (normalized_event v) (\<lambda>e.
            let handler = List.find (\<lambda>h. eh_on h = e) (mp_handlers (ex_program x));
                matches = matching_edges x i e
            in if handler \<noteq> None \<and> matches \<noteq> []
               then Inl (MissionProgramError
                 ''MissionProgram event is ambiguous between handler and edge'')
               else if handler = None \<and> matches = []
               then Inl (MissionProgramError
                 ''MissionProgram event has no handler or current-node edge'')
               else Inr \<lparr>dp_mission = mp_mission (ex_program x), dp_uav = mp_uav (ex_program x),
                 dp_version = mp_version (ex_program x), dp_current = i, dp_event = e,
                 dp_actions = (case handler of None \<Rightarrow> [] | Some h \<Rightarrow> eh_actions h),
                 dp_target = (case matches of [] \<Rightarrow> None | m # _ \<Rightarrow> Some (me_target m))\<rparr>)))"

definition executor_snapshot :: "executor \<Rightarrow> executor_snapshot" where
  "executor_snapshot x =
     \<lparr>sn_mission = mp_mission (ex_program x), sn_uav = mp_uav (ex_program x),
      sn_version = mp_version (ex_program x), sn_current = ex_current x,
      sn_completed = ex_completed x, sn_terminal = (ex_current x = None)\<rparr>"

definition handle_event :: "pyval \<Rightarrow> executor \<Rightarrow> task_step option result \<times> executor" where
  "handle_event v x =
     (case ex_current x of
        None \<Rightarrow> (Inl (MissionProgramError ''the MissionProgram is already terminal''), x)
      | Some i \<Rightarrow> checked x (normalized_event v) (\<lambda>e.
          let x = x\<lparr>ex_completed := (if i \<in> set (ex_completed x) then ex_completed x
                                     else ex_completed x @ [i])\<rparr>
          in case matching_edges x i e of
               [] \<Rightarrow> (Inr None, x\<lparr>ex_current := None\<rparr>)
             | m # _ \<Rightarrow>
                 let x = x\<lparr>ex_current := Some (me_target m)\<rparr>
                 in (current_step x, x)))"

definition commit_dispatch :: "event_dispatch \<Rightarrow> executor \<Rightarrow> task_step option result \<times> executor" where
  "commit_dispatch d x =
     (let s = executor_snapshot x in
      if dp_mission d \<noteq> sn_mission s \<or> dp_uav d \<noteq> sn_uav s \<or> dp_version d \<noteq> sn_version s
         \<or> Some (dp_current d) \<noteq> sn_current s
      then (Inl (MissionProgramError ''MissionProgram dispatch token is stale''), x)
      else if dp_actions d \<noteq> [] \<or> dp_target d = None
      then (Inl (MissionProgramError
             ''only a static edge dispatch can be committed by the executor''), x)
      else andthen (handle_event (PStr (event_value (dp_event d))) x) (\<lambda>step x.
             if map_option ts_id step \<noteq> dp_target d
             then (Inl (MissionProgramError ''MissionProgram dispatch target changed''), x)
             else (Inr step, x)))"

definition executor_apply_patch :: "program_patch \<Rightarrow> executor \<Rightarrow> unit result \<times> executor" where
  "executor_apply_patch patch x =
     (case ex_current x of
        None \<Rightarrow> (Inl (MissionProgramError ''cannot patch a terminal MissionProgram''), x)
      | Some i \<Rightarrow>
          checked x (apply_program_patch (ex_program x) patch (ex_completed x)) (\<lambda>candidate.
            if pp_from patch \<noteq> i
            then (Inl (MissionProgramError ''runtime patches must begin at the current node''), x)
            else (Inr (), x\<lparr>ex_program := candidate\<rparr>)))"

section \<open>Invariant\<close>

definition executor_ok :: "executor \<Rightarrow> bool" where
  "executor_ok x \<longleftrightarrow> program_ok (ex_program x) \<and> list_all node_ok (mp_nodes (ex_program x))
     \<and> set_option (ex_current x) \<subseteq> set (node_ids (ex_program x))
     \<and> distinct (ex_completed x) \<and> set (ex_completed x) \<subseteq> set (node_ids (ex_program x))"

text \<open>What a consumed event does to the bookkeeping.\<close>

definition complete_node :: "string \<Rightarrow> executor \<Rightarrow> executor" where
  "complete_node i x = x\<lparr>ex_completed := (if i \<in> set (ex_completed x) then ex_completed x
     else ex_completed x @ [i])\<rparr>"

definition move_to :: "string option \<Rightarrow> executor \<Rightarrow> executor" where
  "move_to t x = x\<lparr>ex_current := t\<rparr>"

lemma complete_node_simps [simp]:
  "ex_program (complete_node i x) = ex_program x" "ex_current (complete_node i x) = ex_current x"
  "matching_edges (complete_node i x) = matching_edges x"
  by (auto simp: complete_node_def matching_edges_def fun_eq_iff)

lemma move_to_simps [simp]:
  "ex_program (move_to t x) = ex_program x" "ex_current (move_to t x) = t"
  "ex_completed (move_to t x) = ex_completed x"
  by (simp_all add: move_to_def)

lemma current_step_exists:
  assumes "executor_ok x" and "ex_current x = Some i"
  obtains n where "current_step x = Inr (Some (mn_step n))" "n \<in> set (mp_nodes (ex_program x))"
    "mn_id n = i" "ts_id (mn_step n) = i"
proof -
  have i: "i \<in> set (node_ids (ex_program x))" and ok: "list_all node_ok (mp_nodes (ex_program x))"
    using assms by (auto simp: executor_ok_def)
  obtain n where "program_node (ex_program x) (PStr i) = Inr n" "n \<in> set (mp_nodes (ex_program x))"
    "mn_id n = i"
    by (rule program_node_found [OF i ok])
  with that ok assms(2) show ?thesis by (auto simp: current_step_def list_all_iff node_ok_def)
qed

lemma edge_target_known:
  "executor_ok x \<Longrightarrow> matching_edges x i e = m # ms \<Longrightarrow> me_target m \<in> set (node_ids (ex_program x))"
proof -
  assume "executor_ok x" and "matching_edges x i e = m # ms"
  then have "m \<in> set (matching_edges x i e)" by simp
  with \<open>executor_ok x\<close> show ?thesis
    by (auto simp: executor_ok_def program_ok_def list_all_iff matching_edges_def)
qed

lemma executor_ok_complete:
  "executor_ok x \<Longrightarrow> ex_current x = Some i \<Longrightarrow> executor_ok (complete_node i x)"
  by (auto simp: executor_ok_def complete_node_def)

lemma executor_ok_move:
  "executor_ok x \<Longrightarrow> set_option t \<subseteq> set (node_ids (ex_program x)) \<Longrightarrow> executor_ok (move_to t x)"
  by (auto simp: executor_ok_def)

lemma normalized_event_value [simp]: "normalized_event (PStr (event_value e)) = Inr e"
  by (simp add: normalized_event_def)

lemma handle_event_value:
  assumes "ex_current x = Some i"
  shows "handle_event (PStr (event_value e)) x =
    (case matching_edges x i e of
       [] \<Rightarrow> (Inr None, move_to None (complete_node i x))
     | m # _ \<Rightarrow> (current_step (move_to (Some (me_target m)) (complete_node i x)),
                move_to (Some (me_target m)) (complete_node i x)))"
  using assms
  by (simp add: handle_event_def complete_node_def [symmetric] Let_def del: event_value.simps)
     (simp add: move_to_def Let_def split: list.split)

text \<open>The outcome of \<open>handle_event\<close>, in terms of the two changes.\<close>

lemma handle_event_cases:
  assumes "executor_ok x"
  shows "(\<exists>e. handle_event v x = (Inl e, x))
    \<or> (\<exists>i ev. ex_current x = Some i \<and> v = PStr (event_value ev) \<and> matching_edges x i ev = []
         \<and> handle_event v x = (Inr None, move_to None (complete_node i x)))
    \<or> (\<exists>i ev m ms n. ex_current x = Some i \<and> v = PStr (event_value ev)
         \<and> matching_edges x i ev = m # ms \<and> n \<in> set (mp_nodes (ex_program x))
         \<and> mn_id n = me_target m \<and> ts_id (mn_step n) = me_target m
         \<and> handle_event v x =
             (Inr (Some (mn_step n)), move_to (Some (me_target m)) (complete_node i x)))"
proof (cases "ex_current x")
  case None
  then show ?thesis by (simp add: handle_event_def)
next
  case (Some i)
  show ?thesis
  proof (cases "normalized_event v")
    case (Inl e)
    with Some show ?thesis by (simp add: handle_event_def)
  next
    case (Inr ev)
    then have v: "v = PStr (event_value ev)"
      unfolding normalized_event_def by (auto simp: ProgramEvent_def dest: enum_of_Inr)
    show ?thesis
    proof (cases "matching_edges x i ev")
      case Nil
      then have "handle_event v x = (Inr None, move_to None (complete_node i x))"
        using Some Inr by (simp add: handle_event_def complete_node_def [symmetric] move_to_def)
      with Nil Some v show ?thesis by blast
    next
      case (Cons m ms)
      let ?x = "move_to (Some (me_target m)) (complete_node i x)"
      have "executor_ok ?x"
        using executor_ok_complete [OF assms Some] edge_target_known [OF assms Cons]
        by (intro executor_ok_move) auto
      then obtain n where n: "current_step ?x = Inr (Some (mn_step n))"
        "n \<in> set (mp_nodes (ex_program x))" "mn_id n = me_target m" "ts_id (mn_step n) = me_target m"
        by (rule current_step_exists [of _ "me_target m"]) auto
      have "handle_event v x = (current_step ?x, ?x)"
        using Some Inr Cons
        by (simp add: handle_event_def complete_node_def [symmetric] Let_def)
           (simp add: move_to_def)
      then have "handle_event v x = (Inr (Some (mn_step n)), ?x)" using n(1) by simp
      with n(2-4) Cons Some v show ?thesis by blast
    qed
  qed
qed

section \<open>Runs\<close>

text \<open>Any sequence of operations, successful or not; patches come from their constructors.\<close>

inductive executor_step :: "executor \<Rightarrow> executor \<Rightarrow> bool" where
  event: "handle_event v x = (r, x') \<Longrightarrow> executor_step x x'"
| commit: "commit_dispatch d x = (r, x') \<Longrightarrow> executor_step x x'"
| patch: "patch_ok p \<Longrightarrow> list_all node_ok (pp_nodes p) \<Longrightarrow> executor_apply_patch p x = (u, x')
    \<Longrightarrow> executor_step x x'"

inductive_cases executor_stepE: "executor_step x x'"

text \<open>
  The past is kept: completed nodes stay completed, in order, with their steps and with exactly the
  edges among them; versions do not decrease; the routing does not change.
\<close>

definition history_kept :: "executor \<Rightarrow> executor \<Rightarrow> bool" where
  "history_kept x y \<longleftrightarrow>
     prefix (ex_completed x) (ex_completed y)
     \<and> mp_version (ex_program x) \<le> mp_version (ex_program y)
     \<and> mp_mission (ex_program y) = mp_mission (ex_program x)
     \<and> mp_uav (ex_program y) = mp_uav (ex_program x)
     \<and> {n \<in> set (mp_nodes (ex_program x)). mn_id n \<in> set (ex_completed x)}
         = {n \<in> set (mp_nodes (ex_program y)). mn_id n \<in> set (ex_completed x)}
     \<and> {e \<in> set (mp_edges (ex_program x)). {me_source e, me_target e} \<subseteq> set (ex_completed x)}
         = {e \<in> set (mp_edges (ex_program y)). {me_source e, me_target e} \<subseteq> set (ex_completed x)}"

lemma history_kept_refl: "history_kept x x"
  by (simp add: history_kept_def)

lemma history_completed: "history_kept x y \<Longrightarrow> set (ex_completed x) \<subseteq> set (ex_completed y)"
  by (simp add: history_kept_def set_mono_prefix)

lemma history_node:
  assumes "history_kept x y" and "mn_id n \<in> set (ex_completed x)"
  shows "n \<in> set (mp_nodes (ex_program x)) \<longleftrightarrow> n \<in> set (mp_nodes (ex_program y))"
proof -
  have "{n \<in> set (mp_nodes (ex_program x)). mn_id n \<in> set (ex_completed x)}
      = {n \<in> set (mp_nodes (ex_program y)). mn_id n \<in> set (ex_completed x)}"
    using assms(1) by (simp only: history_kept_def)
  then show ?thesis using assms(2) by blast
qed

lemma history_edge:
  assumes "history_kept x y" and "{me_source e, me_target e} \<subseteq> set (ex_completed x)"
  shows "e \<in> set (mp_edges (ex_program x)) \<longleftrightarrow> e \<in> set (mp_edges (ex_program y))"
proof -
  have "{e \<in> set (mp_edges (ex_program x)). {me_source e, me_target e} \<subseteq> set (ex_completed x)}
      = {e \<in> set (mp_edges (ex_program y)). {me_source e, me_target e} \<subseteq> set (ex_completed x)}"
    using assms(1) by (simp only: history_kept_def)
  then show ?thesis using assms(2) by blast
qed

lemma history_kept_trans:
  assumes xy: "history_kept x y" and yz: "history_kept y z"
  shows "history_kept x z"
proof -
  note sub = history_completed [OF xy]
  have 1: "prefix (ex_completed x) (ex_completed z)"
    by (rule prefix_order.order_trans [of _ "ex_completed y"]) (use xy yz in \<open>simp_all add: history_kept_def\<close>)
  have nodes: "n \<in> set (mp_nodes (ex_program x)) \<longleftrightarrow> n \<in> set (mp_nodes (ex_program z))"
    if "mn_id n \<in> set (ex_completed x)" for n
    using history_node [OF xy that] history_node [OF yz] sub that by blast
  have edges: "e \<in> set (mp_edges (ex_program x)) \<longleftrightarrow> e \<in> set (mp_edges (ex_program z))"
    if "{me_source e, me_target e} \<subseteq> set (ex_completed x)" for e
    using history_edge [OF xy that] history_edge [OF yz] sub that by blast
  show ?thesis
    unfolding history_kept_def
    using 1 nodes edges xy yz by (auto simp: history_kept_def)
qed

lemma history_complete_move: "history_kept x (move_to t (complete_node i x))"
  by (simp add: history_kept_def) (simp add: complete_node_def)

lemma handle_event_keeps:
  assumes "executor_ok x" and "handle_event v x = (r, x')"
  shows "executor_ok x' \<and> history_kept x x'"
proof -
  consider "x' = x"
    | i where "ex_current x = Some i" "x' = move_to None (complete_node i x)"
    | i ev m ms where "ex_current x = Some i" "matching_edges x i ev = m # ms"
        "x' = move_to (Some (me_target m)) (complete_node i x)"
    using handle_event_cases [OF assms(1), of v] assms(2) by auto
  then show ?thesis
  proof cases
    case 1
    then show ?thesis using assms(1) history_kept_refl by simp
  next
    case 2
    then show ?thesis
      using executor_ok_complete [OF assms(1)] history_complete_move by (auto intro!: executor_ok_move)
  next
    case 3
    then show ?thesis
      using executor_ok_complete [OF assms(1)] edge_target_known [OF assms(1)] history_complete_move
      by (auto intro!: executor_ok_move)
  qed
qed

lemma commit_dispatch_state: "snd (commit_dispatch d x) \<in> {x, snd (handle_event (PStr (event_value (dp_event d))) x)}"
  by (cases "handle_event (PStr (event_value (dp_event d))) x"; cases "fst (handle_event (PStr (event_value (dp_event d))) x)")
    (auto simp: commit_dispatch_def Let_def)

lemma executor_apply_patch_cases:
  "executor_apply_patch p x = (u, x') \<Longrightarrow>
     x' = x \<or> (u = Inr () \<and> ex_current x = Some (pp_from p)
       \<and> patch_applies (ex_program x) p (ex_completed x)
       \<and> x' = x\<lparr>ex_program := patched (ex_program x) p\<rparr>)"
  by (auto simp: executor_apply_patch_def checked_def apply_program_patch_Inr
      split: option.splits sum.splits if_splits)

lemma executor_patch_keeps:
  assumes ok: "executor_ok x" and p: "patch_ok p" "list_all node_ok (pp_nodes p)"
    and cur: "ex_current x = Some (pp_from p)" and ap: "patch_applies (ex_program x) p (ex_completed x)"
  shows "executor_ok (x\<lparr>ex_program := patched (ex_program x) p\<rparr>)
    \<and> history_kept x (x\<lparr>ex_program := patched (ex_program x) p\<rparr>)"
proof -
  let ?g = "ex_program x" and ?q = "patched (ex_program x) p" and ?c = "set (ex_completed x)"
  let ?pre = "patch_prefix ?g (pp_from p)"
  have q: "program_ok ?q" and c: "?c \<subseteq> mn_id ` set ?pre"
    and src: "\<forall>e\<in>set (pp_edges p). me_source e \<in> mn_id ` set (pp_nodes p)"
    using ap by (auto simp: patch_applies_def list_all_iff)
  have nodes: "mp_nodes ?q = ?pre @ pp_nodes p" by (simp add: patched_def)
  have "distinct (map mn_id (?pre @ pp_nodes p))" using q nodes by (simp add: program_ok_def node_ids_def)
  then have dis: "mn_id ` set ?pre \<inter> mn_id ` set (pp_nodes p) = {}" by auto
  have "pp_from p \<in> mn_id ` set (pp_nodes p)"
    using p(1) by (metis patch_ok_def hd_in_set image_eqI)
  then have ok': "executor_ok (x\<lparr>ex_program := ?q\<rparr>)"
    using ok p(2) cur q c prefix_subset [of ?g "pp_from p"]
    by (auto simp: executor_ok_def nodes node_ids_def list_all_iff)
  have 1: "{n \<in> set (mp_nodes ?g). mn_id n \<in> ?c} = {n \<in> set (mp_nodes ?q). mn_id n \<in> ?c}"
  proof (intro set_eqI iffI; clarsimp)
    fix n assume n: "n \<in> set (mp_nodes ?g)" "mn_id n \<in> ?c"
    then obtain m where m: "m \<in> set ?pre" "mn_id m = mn_id n" using c by force
    have "distinct (map mn_id (mp_nodes ?g))" using ok by (simp add: executor_ok_def program_ok_def node_ids_def)
    then have "m = n" using m n prefix_subset by (metis distinct_key_eq subsetD)
    then show "n \<in> set (mp_nodes ?q)" using m nodes by simp
  next
    fix n assume "n \<in> set (mp_nodes ?q)" "mn_id n \<in> ?c"
    then show "n \<in> set (mp_nodes ?g)" using c dis nodes prefix_subset by fastforce
  qed
  have 2: "{e \<in> set (mp_edges ?g). {me_source e, me_target e} \<subseteq> ?c}
      = {e \<in> set (mp_edges ?q). {me_source e, me_target e} \<subseteq> ?c}"
  proof -
    have "me_source e \<notin> ?c" if "e \<in> set (pp_edges p)" for e using src c dis that by blast
    moreover have "e \<in> set (kept_edges ?g (pp_from p)) \<longleftrightarrow> e \<in> set (mp_edges ?g)"
      if "{me_source e, me_target e} \<subseteq> ?c" for e
      using that c by (auto simp: kept_edges_def)
    ultimately show ?thesis by (auto simp: patched_def)
  qed
  have v: "mp_version ?q = mp_version ?g + 1" "mp_mission ?q = mp_mission ?g" "mp_uav ?q = mp_uav ?g"
    using p(1) ap by (auto simp: patched_def patch_applies_def patch_ok_def)
  have "history_kept x (x\<lparr>ex_program := ?q\<rparr>)" using 1 2 v by (simp add: history_kept_def)
  with ok' show ?thesis by blast
qed

lemma executor_step_keeps:
  assumes "executor_step x x'" and "executor_ok x"
  shows "executor_ok x' \<and> history_kept x x'"
  using assms(1)
proof (cases rule: executor_step.cases)
  case (event v r)
  then show ?thesis using handle_event_keeps assms(2) by blast
next
  case (commit d r)
  then have "x' = x \<or> x' = snd (handle_event (PStr (event_value (dp_event d))) x)"
    using commit_dispatch_state [of d x] by auto
  then show ?thesis using handle_event_keeps assms(2) history_kept_refl by (metis prod.collapse)
next
  case (patch p u)
  then show ?thesis
    using executor_apply_patch_cases [OF patch(3)] executor_patch_keeps assms(2) history_kept_refl by blast
qed

subsection \<open>Dispatch tokens\<close>

lemma prepare_dispatch_Inr:
  assumes "prepare_dispatch x v w = Inr d"
  shows "ex_current x = Some (dp_current d) \<and> dp_mission d = mp_mission (ex_program x)
    \<and> dp_uav d = mp_uav (ex_program x) \<and> dp_version d = mp_version (ex_program x)
    \<and> w = PInt (dp_version d) \<and> v = PStr (event_value (dp_event d))
    \<and> (case matching_edges x (dp_current d) (dp_event d) of
          [] \<Rightarrow> dp_target d = None | m # _ \<Rightarrow> dp_target d = Some (me_target m) \<and> dp_actions d = [])"
proof -
  obtain i where i: "ex_current x = Some i"
    using assms by (auto simp: prepare_dispatch_def split: option.splits)
  have ne: "normalized_event v = Inr e \<Longrightarrow> v = PStr (event_value e)" for e
    unfolding normalized_event_def by (auto simp: ProgramEvent_def dest: enum_of_Inr)
  show ?thesis
    using assms ne
    by (auto simp: prepare_dispatch_def i rbind_eq_Inr Let_def split: if_splits list.splits option.splits)
qed

lemma commit_stale:
  assumes "dp_version d \<noteq> mp_version (ex_program x) \<or> Some (dp_current d) \<noteq> ex_current x"
  shows "commit_dispatch d x = (Inl (MissionProgramError ''MissionProgram dispatch token is stale''), x)"
  using assms by (auto simp: commit_dispatch_def executor_snapshot_def Let_def)

lemma commit_prepared:
  assumes ok: "executor_ok x" and p: "prepare_dispatch x v w = Inr d" and t: "dp_target d = Some j"
  obtains n where "n \<in> set (mp_nodes (ex_program x))" "mn_id n = j" "ts_id (mn_step n) = j"
    "commit_dispatch d x = (Inr (Some (mn_step n)), move_to (Some j) (complete_node (dp_current d) x))"
proof -
  note d = prepare_dispatch_Inr [OF p]
  obtain m ms where m: "matching_edges x (dp_current d) (dp_event d) = m # ms"
    and mt: "me_target m = j" "dp_actions d = []"
    using d t by (auto split: list.splits)
  obtain n where n: "n \<in> set (mp_nodes (ex_program x))" "mn_id n = j" "ts_id (mn_step n) = j"
    "current_step (move_to (Some j) (complete_node (dp_current d) x)) = Inr (Some (mn_step n))"
    using current_step_exists [of "move_to (Some j) (complete_node (dp_current d) x)" j]
      executor_ok_move [OF executor_ok_complete [OF ok], of "dp_current d" "Some j"]
      edge_target_known [OF ok m] d mt by auto
  have "handle_event (PStr (event_value (dp_event d))) x =
      (Inr (Some (mn_step n)), move_to (Some j) (complete_node (dp_current d) x))"
    using d m mt n(4)
    by (simp add: handle_event_value)
  then have "commit_dispatch d x =
      (Inr (Some (mn_step n)), move_to (Some j) (complete_node (dp_current d) x))"
    using d t mt n(3) by (simp add: commit_dispatch_def executor_snapshot_def)
  with n(1-3) show ?thesis by (rule that)
qed

subsection \<open>Linear programs\<close>

abbreviation consume :: "program_event \<Rightarrow> executor \<Rightarrow> executor" where
  "consume e x \<equiv> snd (handle_event (PStr (event_value e)) x)"

lemma consume_current:
  assumes "ex_current x = Some i"
  shows "ex_program (consume e x) = ex_program x"
    and "ex_completed (consume e x) = ex_completed (complete_node i x)"
    and "ex_current (consume e x) = (case matching_edges x i e of [] \<Rightarrow> None | m # _ \<Rightarrow> Some (me_target m))"
  using assms
  by (auto simp: handle_event_value split: list.split)

lemma consume_terminal: "ex_current x = None \<Longrightarrow> consume e x = x"
  by (simp add: handle_event_def)

text \<open>The executor of a linear program before its \<open>i\<close>-th step.\<close>

definition at_step :: "task_plan \<Rightarrow> mission_program \<Rightarrow> nat \<Rightarrow> executor \<Rightarrow> bool" where
  "at_step plan p i x \<longleftrightarrow> ex_program x = p
     \<and> ex_current x = (if i < length (tp_steps plan) then Some (ts_id (tp_steps plan ! i)) else None)"

lemma linear_nodes_nth:
  "length (linear_nodes plan) = length (tp_steps plan)"
  "i < length (tp_steps plan) \<Longrightarrow> mn_id (linear_nodes plan ! i) = ts_id (tp_steps plan ! i)"
  by (simp_all add: linear_nodes_def)

lemma linear_distinct: "plan_ok plan \<Longrightarrow> distinct (map mn_id (linear_nodes plan))"
  by (simp add: linear_nodes_def plan_ok_def o_def)

lemma linear_consume_success:
  assumes plan: "plan_ok plan" and edges: "mp_edges p = linear_edge_list (linear_nodes plan)"
    and x: "at_step plan p i x" and i: "i < length (tp_steps plan)"
  shows "at_step plan p (Suc i) (consume EV_SUCCESS x)"
  using assms linear_success [OF linear_distinct [OF plan], of i]
  by (auto simp: at_step_def consume_current matching_edges_def linear_nodes_nth
      simp del: event_value.simps split: if_splits)

lemma linear_consume_any:
  assumes plan: "plan_ok plan" and edges: "mp_edges p = linear_edge_list (linear_nodes plan)"
    and x: "at_step plan p i x"
  shows "\<exists>j>i. at_step plan p j (consume e x)"
proof (cases "i < length (tp_steps plan)")
  case False
  with x show ?thesis by (intro exI [of _ "Suc i"]) (simp add: at_step_def consume_terminal)
next
  case True
  let ?i = "ts_id (tp_steps plan ! i)"
  have c: "ex_current x = Some ?i" using x True by (simp add: at_step_def)
  show ?thesis
  proof (cases "matching_edges x ?i e")
    case Nil
    then have "at_step plan p (length (tp_steps plan)) (consume e x)"
      using x by (simp add: at_step_def consume_current [OF c])
    with True show ?thesis by blast
  next
    case (Cons m ms)
    then have "m \<in> set (matching_edges x ?i e)" by simp
    then have "Suc i < length (tp_steps plan) \<and> me_target m = ts_id (tp_steps plan ! Suc i)"
      using linear_edge_next [OF linear_distinct [OF plan], of i m] True x edges
      by (auto simp: matching_edges_def at_step_def linear_nodes_nth)
    then have "at_step plan p (Suc i) (consume e x)"
      using x Cons by (simp add: at_step_def consume_current [OF c])
    then show ?thesis by blast
  qed
qed

section \<open>Properties\<close>

definition example_program :: mission_program where
  "example_program = (case linear_plan_to_mission_program example_plan [] of
     Inr p \<Rightarrow> p | Inl e \<Rightarrow> \<lparr>mp_mission = [], mp_uav = [], mp_version = 0, mp_entry = [],
       mp_entities = [], mp_nodes = [], mp_edges = [], mp_handlers = [], mp_schema = PNone\<rparr>)"

lemma example_plan_ok: "plan_ok example_plan"
proof -
  have "TaskPlan (tp_steps example_plan) (PStr ''m1'') (PStr ''u1'') (PInt 1) = Inr example_plan"
    using example_plan_parsed example_plan_steps by (simp add: plan_from_dicts_def)
  from TaskPlan_Inr [OF this] have "tp_mission example_plan = ''m1''" "tp_uav example_plan = ''u1''"
    "tp_steps example_plan \<noteq> []" "distinct (map ts_id (tp_steps example_plan))"
    "0 < tp_version example_plan" by auto
  moreover have "routing_id_match ''m1''" "routing_id_match ''u1''" by code_simp+
  moreover have "list_all step_ok (tp_steps example_plan)"
    using parse_entries_Inr [OF example_plan_steps] by simp
  ultimately show ?thesis by (simp add: plan_ok_def)
qed

lemma example_plan_length: "length (tp_steps example_plan) = 3"
  using parse_entries_Inr [OF example_plan_steps] by (simp add: example_entries_def)

lemma example_program_ok:
  "linear_plan_to_mission_program example_plan [] = Inr example_program"
  "program_ok example_program" "list_all node_ok (mp_nodes example_program)"
  "mp_edges example_program = linear_edge_list (linear_nodes example_plan)"
proof -
  obtain p where p: "linear_plan_to_mission_program example_plan [] = Inr p" "program_ok p"
    "list_all node_ok (mp_nodes p)" "mp_edges p = linear_edge_list (linear_nodes example_plan)"
    by (rule linear_program [of example_plan "[]"]) (simp_all add: example_plan_ok example_plan_length)
  then have "example_program = p" by (simp add: example_program_def)
  with p show "linear_plan_to_mission_program example_plan [] = Inr example_program"
    "program_ok example_program" "list_all node_ok (mp_nodes example_program)"
    "mp_edges example_program = linear_edge_list (linear_nodes example_plan)" by simp_all
qed

lemma executor_init_ok: "program_ok p \<Longrightarrow> list_all node_ok (mp_nodes p) \<Longrightarrow> executor_ok (executor_init p)"
  by (auto simp: executor_ok_def executor_init_def program_ok_def)

text \<open>
  C13. Whatever sequence of events, committed dispatches and patches an executor sees, failed ones
  included, it stays well formed (the current node and the completed nodes exist, no node is completed
  twice), and its past is immutable: completed nodes stay completed in order, keep their steps and the
  edges among them, versions never decrease and the routing never changes.
\<close>

theorem executor_history:
  assumes "executor_step\<^sup>*\<^sup>* x y" and "executor_ok x"
  shows "executor_ok y \<and> history_kept x y"
  using assms
proof (induction rule: rtranclp_induct)
  case base
  then show ?case using history_kept_refl by simp
next
  case (step y z)
  then show ?case using executor_step_keeps history_kept_trans by blast
qed

theorem executor_history_witness:
  "executor_ok (consume EV_SUCCESS (executor_init example_program))
     \<and> history_kept (executor_init example_program) (consume EV_SUCCESS (executor_init example_program))"
proof -
  have "executor_step (executor_init example_program) (consume EV_SUCCESS (executor_init example_program))"
    by (rule executor_step.event) (rule surjective_pairing)
  then have "executor_step\<^sup>*\<^sup>* (executor_init example_program)
      (consume EV_SUCCESS (executor_init example_program))" by simp
  from executor_history [OF this executor_init_ok [OF example_program_ok(2,3)]] show ?thesis .
qed

text \<open>
  C14. A linear plan of at most 100 steps becomes a program that executes it: before the \<open>i\<close>-th
  success the current step is the plan's \<open>i\<close>-th, exactly the earlier steps are completed, and
  the last success makes the program terminal.
\<close>

theorem linear_plan_executes:
  assumes "plan_ok plan" and "length (tp_steps plan) \<le> 100" and "i \<le> length (tp_steps plan)"
  shows "\<exists>p. linear_plan_to_mission_program plan [] = Inr p
    \<and> current_step ((consume EV_SUCCESS ^^ i) (executor_init p))
        = Inr (if i < length (tp_steps plan) then Some (tp_steps plan ! i) else None)
    \<and> ex_completed ((consume EV_SUCCESS ^^ i) (executor_init p))
        = map ts_id (take i (tp_steps plan))"
proof -
  obtain p where lin: "linear_plan_to_mission_program plan [] = Inr p" and ok: "program_ok p"
    and nodes: "mp_nodes p = linear_nodes plan" and edges: "mp_edges p = linear_edge_list (linear_nodes plan)"
    and entry: "mp_entry p = ts_id (hd (tp_steps plan))" and nok: "list_all node_ok (mp_nodes p)"
    by (rule linear_program [OF assms(1,2), of "[]"]) simp_all
  let ?run = "\<lambda>i. (consume EV_SUCCESS ^^ i) (executor_init p)"
  have ne: "tp_steps plan \<noteq> []" and dis: "distinct (map ts_id (tp_steps plan))"
    using assms(1) by (auto simp: plan_ok_def)
  have inv: "at_step plan p k (?run k) \<and> ex_completed (?run k) = map ts_id (take k (tp_steps plan))"
    if "k \<le> length (tp_steps plan)" for k
    using that
  proof (induction k)
    case 0
    then show ?case using ne entry by (simp add: at_step_def executor_init_def hd_conv_nth)
  next
    case (Suc k)
    then have at: "at_step plan p k (?run k)" and comp: "ex_completed (?run k) = map ts_id (take k (tp_steps plan))"
      and k: "k < length (tp_steps plan)" by auto
    have "ts_id (tp_steps plan ! k) \<notin> set (map ts_id (take k (tp_steps plan)))"
      using dis k by (fastforce simp: in_set_conv_nth distinct_conv_nth)
    moreover have "ex_current (?run k) = Some (ts_id (tp_steps plan ! k))" using at k by (simp add: at_step_def)
    ultimately have "ex_completed (consume EV_SUCCESS (?run k)) = map ts_id (take (Suc k) (tp_steps plan))"
      using comp k by (simp only: consume_current(2)) (simp add: complete_node_def take_Suc_conv_app_nth)
    then show ?case using linear_consume_success [OF assms(1) edges at k] by simp
  qed
  note at = inv [OF assms(3)]
  have "current_step (?run i) = Inr (if i < length (tp_steps plan) then Some (tp_steps plan ! i) else None)"
  proof (cases "i < length (tp_steps plan)")
    case False
    then show ?thesis using at by (simp add: at_step_def current_step_def)
  next
    case True
    let ?n = "linear_nodes plan ! i"
    have "?n \<in> set (linear_nodes plan)" using True by (simp add: linear_nodes_nth)
    then have "List.find (\<lambda>n. mn_id n = mn_id ?n) (linear_nodes plan) = Some ?n"
      and "routing_id_match (mn_id ?n)"
      using find_key_distinct [OF linear_distinct [OF assms(1)]] nok nodes
      by (auto simp: list_all_iff node_ok_def)
    moreover have "mn_step ?n = tp_steps plan ! i" using True by (simp add: linear_nodes_def)
    ultimately show ?thesis
      using at True by (simp add: at_step_def current_step_def program_node_def linear_nodes_nth nodes)
  qed
  with lin at show ?thesis by blast
qed

theorem linear_plan_executes_witness:
  "ex_completed ((consume EV_SUCCESS ^^ 3) (executor_init example_program))
     = map ts_id (tp_steps example_plan)"
  using linear_plan_executes [OF example_plan_ok, of 3] example_program_ok(1)
  by (simp add: example_plan_length)

text \<open>
  C15. A linear program always ends: whatever events the steps report, as many events as there are
  steps bring it to the terminal state.
\<close>

theorem linear_program_ends:
  assumes "plan_ok plan" and "length (tp_steps plan) \<le> 100"
    and "linear_plan_to_mission_program plan [] = Inr p" and "length (tp_steps plan) \<le> length events"
  shows "ex_current (fold consume events (executor_init p)) = None"
proof -
  obtain q where "linear_plan_to_mission_program plan [] = Inr q"
    and "mp_edges q = linear_edge_list (linear_nodes plan)"
    and "mp_entry q = ts_id (hd (tp_steps plan))"
    by (rule linear_program [OF assms(1,2), of "[]"]) simp_all
  then have edges: "mp_edges p = linear_edge_list (linear_nodes plan)"
    and entry: "mp_entry p = ts_id (hd (tp_steps plan))" using assms(3) by simp_all
  have "\<exists>j\<ge>length es + i. at_step plan p j (fold consume es x)" if "at_step plan p i x" for es i x
    using that
  proof (induction es arbitrary: i x)
    case Nil
    then show ?case by auto
  next
    case (Cons e es)
    obtain k where "i < k" "at_step plan p k (consume e x)"
      using linear_consume_any [OF assms(1) edges Cons.prems] by blast
    moreover obtain j where "length es + k \<le> j" "at_step plan p j (fold consume es (consume e x))"
      using Cons.IH [OF \<open>at_step plan p k (consume e x)\<close>] by blast
    ultimately show ?case by (intro exI [of _ j]) simp
  qed
  moreover have "at_step plan p 0 (executor_init p)"
    using assms(1) entry by (simp add: at_step_def executor_init_def hd_conv_nth plan_ok_def)
  ultimately obtain j where "length events \<le> j" "at_step plan p j (fold consume events (executor_init p))"
    by fastforce
  then show ?thesis using assms(4) by (simp add: at_step_def)
qed

theorem linear_program_ends_witness:
  "ex_current (fold consume [EV_TIMEOUT, EV_SUCCESS, EV_TARGET_LOST] (executor_init example_program)) = None"
  by (rule linear_program_ends [OF example_plan_ok _ example_program_ok(1)])
    (simp_all add: example_plan_length)

text \<open>
  C16. A dispatch token prepared for an edge and committed in the same state completes the current node
  and moves to the edge's target, whose step it returns; in any state of another version or at another
  node (so after a patch, or after an event that left the node) the token is refused and nothing changes.
\<close>

theorem dispatch_pinned:
  assumes "executor_ok x" and "prepare_dispatch x v w = Inr d" and "dp_target d = Some j"
  shows "(\<exists>s y. commit_dispatch d x = (Inr (Some s), y) \<and> ts_id s = j \<and> current_step y = Inr (Some s)
      \<and> ex_current y = Some j \<and> dp_current d \<in> set (ex_completed y))
    \<and> (\<forall>z. mp_version (ex_program z) \<noteq> dp_version d \<or> ex_current z \<noteq> Some (dp_current d) \<longrightarrow>
         commit_dispatch d z = (Inl (MissionProgramError ''MissionProgram dispatch token is stale''), z))"
proof -
  obtain n where n: "n \<in> set (mp_nodes (ex_program x))" "mn_id n = j" "ts_id (mn_step n) = j"
    "commit_dispatch d x = (Inr (Some (mn_step n)), move_to (Some j) (complete_node (dp_current d) x))"
    by (rule commit_prepared [OF assms])
  let ?y = "move_to (Some j) (complete_node (dp_current d) x)"
  have d: "ex_current x = Some (dp_current d)" using prepare_dispatch_Inr [OF assms(2)] by simp
  have j: "j \<in> set (node_ids (ex_program x))" using n(1,2) by (auto simp: node_ids_def)
  then have "executor_ok ?y"
    using executor_ok_complete [OF assms(1) d] by (intro executor_ok_move) auto
  then obtain m where m: "current_step ?y = Inr (Some (mn_step m))" "m \<in> set (mp_nodes (ex_program ?y))"
    "mn_id m = j"
    by (rule current_step_exists [of _ j]) auto
  have "distinct (map mn_id (mp_nodes (ex_program x)))"
    using assms(1) by (simp add: executor_ok_def program_ok_def node_ids_def)
  then have "m = n" using m n distinct_key_eq [of mn_id "mp_nodes (ex_program x)" m n] by simp
  with m have "current_step ?y = Inr (Some (mn_step n))" by simp
  moreover have "dp_current d \<in> set (ex_completed ?y)" by (simp add: complete_node_def)
  ultimately show ?thesis using n(3,4) commit_stale [of d] by fastforce
qed

text \<open>A program of one node that waits while its path is blocked: an edge from the node to itself.\<close>

definition hover_step :: task_step where
  "hover_step = \<lparr>ts_id = ''wait'', ts_skill = SK_HOVER, ts_params = [], ts_recovery = None\<rparr>"

definition loop_program :: mission_program where
  "loop_program = \<lparr>mp_mission = ''m1'', mp_uav = ''u1'', mp_version = 1, mp_entry = ''wait'',
     mp_entities = [], mp_nodes = [\<lparr>mn_id = ''wait'', mn_step = hover_step\<rparr>],
     mp_edges = [\<lparr>me_source = ''wait'', me_target = ''wait'', me_on = EV_PATH_BLOCKED\<rparr>],
     mp_handlers = [], mp_schema = PInt 1\<rparr>"

definition loop_dispatch :: event_dispatch where
  "loop_dispatch = \<lparr>dp_mission = ''m1'', dp_uav = ''u1'', dp_version = 1, dp_current = ''wait'',
     dp_event = EV_PATH_BLOCKED, dp_actions = [], dp_target = Some ''wait''\<rparr>"

lemma loop_program_ok: "program_ok loop_program" "list_all node_ok (mp_nodes loop_program)"
proof -
  have "routing_id_match ''m1''" "routing_id_match ''u1''" "routing_id_match ''wait''" by code_simp+
  then show "program_ok loop_program" "list_all node_ok (mp_nodes loop_program)"
    by (simp_all add: loop_program_def program_ok_def node_ids_def node_ok_def hover_step_def equals_int_def)
qed

lemma loop_prepared:
  "prepare_dispatch (executor_init loop_program) (PStr ''PATH_BLOCKED'') (PInt 1) = Inr loop_dispatch"
  by code_simp

theorem dispatch_pinned_witness:
  "fst (commit_dispatch loop_dispatch (executor_init loop_program)) = Inr (Some hover_step)"
proof -
  obtain s y where s: "commit_dispatch loop_dispatch (executor_init loop_program) = (Inr (Some s), y)"
    "current_step y = Inr (Some s)" "ex_current y = Some ''wait''"
    using dispatch_pinned [OF executor_init_ok [OF loop_program_ok] loop_prepared, of "''wait''"]
    by (auto simp: loop_dispatch_def)
  have "commit_dispatch loop_dispatch (executor_init loop_program)
      = (Inr (Some hover_step), snd (commit_dispatch loop_dispatch (executor_init loop_program)))"
    by code_simp
  with s show ?thesis by simp
qed

text \<open>
  A token is not good for one use only: on an edge from a node to itself it commits a second time,
  since neither the version nor the node has changed.
\<close>

theorem dispatch_not_once:
  "executor_ok (executor_init loop_program)
    \<and> prepare_dispatch (executor_init loop_program) (PStr ''PATH_BLOCKED'') (PInt 1) = Inr loop_dispatch
    \<and> fst (commit_dispatch loop_dispatch (executor_init loop_program)) = Inr (Some hover_step)
    \<and> fst (commit_dispatch loop_dispatch (snd (commit_dispatch loop_dispatch (executor_init loop_program))))
        = Inr (Some hover_step)"
proof (intro conjI)
  show "executor_ok (executor_init loop_program)" by (rule executor_init_ok [OF loop_program_ok])
  show "prepare_dispatch (executor_init loop_program) (PStr ''PATH_BLOCKED'') (PInt 1) = Inr loop_dispatch"
    by (rule loop_prepared)
  show "fst (commit_dispatch loop_dispatch (executor_init loop_program)) = Inr (Some hover_step)"
    by code_simp
  show "fst (commit_dispatch loop_dispatch (snd (commit_dispatch loop_dispatch (executor_init loop_program))))
      = Inr (Some hover_step)" by code_simp
qed

text \<open>
  A node that has been completed can never be patched again: on a loop the executor comes back to
  a completed node, and every patch is refused there, leaving the executor as it was.
\<close>

theorem revisited_node_unpatchable:
  assumes "executor_ok x" and "ex_current x = Some i" and "i \<in> set (ex_completed x)"
  shows "\<exists>e. executor_apply_patch p x = (Inl e, x)"
proof -
  have "\<not> patch_applies (ex_program x) p (ex_completed x)" if "pp_from p = i"
    using that assms(3) prefix_before [of i "ex_program x"] by (auto simp: patch_applies_def)
  then have "pp_from p \<noteq> i" if "apply_program_patch (ex_program x) p (ex_completed x) = Inr c" for c
    using apply_program_patch_Inr that by blast
  then show ?thesis
    using assms(2) by (cases "apply_program_patch (ex_program x) p (ex_completed x)")
      (auto simp: executor_apply_patch_def)
qed

theorem revisited_node_unpatchable_witness:
  "\<forall>p. \<exists>e. executor_apply_patch p (consume EV_PATH_BLOCKED (executor_init loop_program))
     = (Inl e, consume EV_PATH_BLOCKED (executor_init loop_program))"
proof (intro allI, rule revisited_node_unpatchable)
  have "handle_event (PStr (event_value EV_PATH_BLOCKED)) (executor_init loop_program)
      = (fst (handle_event (PStr (event_value EV_PATH_BLOCKED)) (executor_init loop_program)),
         consume EV_PATH_BLOCKED (executor_init loop_program))" by simp
  from handle_event_keeps [OF executor_init_ok [OF loop_program_ok] this]
  show "executor_ok (consume EV_PATH_BLOCKED (executor_init loop_program))" by simp
  show "ex_current (consume EV_PATH_BLOCKED (executor_init loop_program)) = Some ''wait''" by code_simp
  show "''wait'' \<in> set (ex_completed (consume EV_PATH_BLOCKED (executor_init loop_program)))" by code_simp
qed

end
