(* ===== verification/Mission_Events.thy ===== *)
theory Mission_Events
  imports Routing_Ids Py_Containers
begin

text \<open>
  \<open>runtime/events.py\<close>: JSON payloads that are copied, bounded and frozen before they enter an event,
  mission events, and the bounded event bus.

  A frozen mapping is a \<open>PDict\<close>, a frozen sequence a \<open>PTuple\<close>.  Values are finite trees, so the check
  for circular references has nothing to find.  \<open>float_repr\<close> is \<open>float.__repr__\<close>, which
  \<open>json.dumps\<close> uses for floats; its integers are at most 4300 digits long, the interpreter's limit.
\<close>

section \<open>Vocabulary\<close>

datatype mission_event_type =
    ET_PERIODIC_REVIEW_DUE | ET_CANDIDATE_PERSISTENT | ET_MULTIPLE_CANDIDATES
  | ET_TARGET_CONFIRMATION_REQUIRED | ET_TARGET_IDENTITY_UNCERTAIN | ET_TRACK_CONFIDENCE_DROP
  | ET_TRACK_LOST | ET_OBSTACLE_VISIBLE | ET_PATH_BLOCKED | ET_IMMINENT_COLLISION
  | ET_HOLD_REQUESTED | ET_HOLD_ESTABLISHED | ET_ROUTE_PROPOSED | ET_ROUTE_REJECTED
  | ET_ROUTE_ACCEPTED | ET_ROUTE_COLLISION | ET_SKILL_PROGRESS_STALLED | ET_LOW_VISIBILITY
  | ET_TASK_COMPLETION_UNCERTAIN | ET_MODEL_REVIEW_STARTED | ET_MODEL_REVIEW_COMPLETED
  | ET_MODEL_REVIEW_TIMEOUT | ET_MODEL_RESPONSE_STALE | ET_PLAN_REVISION_REQUESTED
  | ET_PLAN_REVISION_ACCEPTED | ET_PLAN_REVISION_REJECTED

fun event_type_value :: "mission_event_type \<Rightarrow> string" where
  "event_type_value ET_PERIODIC_REVIEW_DUE = ''PERIODIC_REVIEW_DUE''"
| "event_type_value ET_CANDIDATE_PERSISTENT = ''CANDIDATE_PERSISTENT''"
| "event_type_value ET_MULTIPLE_CANDIDATES = ''MULTIPLE_CANDIDATES''"
| "event_type_value ET_TARGET_CONFIRMATION_REQUIRED = ''TARGET_CONFIRMATION_REQUIRED''"
| "event_type_value ET_TARGET_IDENTITY_UNCERTAIN = ''TARGET_IDENTITY_UNCERTAIN''"
| "event_type_value ET_TRACK_CONFIDENCE_DROP = ''TRACK_CONFIDENCE_DROP''"
| "event_type_value ET_TRACK_LOST = ''TRACK_LOST''"
| "event_type_value ET_OBSTACLE_VISIBLE = ''OBSTACLE_VISIBLE''"
| "event_type_value ET_PATH_BLOCKED = ''PATH_BLOCKED''"
| "event_type_value ET_IMMINENT_COLLISION = ''IMMINENT_COLLISION''"
| "event_type_value ET_HOLD_REQUESTED = ''HOLD_REQUESTED''"
| "event_type_value ET_HOLD_ESTABLISHED = ''HOLD_ESTABLISHED''"
| "event_type_value ET_ROUTE_PROPOSED = ''ROUTE_PROPOSED''"
| "event_type_value ET_ROUTE_REJECTED = ''ROUTE_REJECTED''"
| "event_type_value ET_ROUTE_ACCEPTED = ''ROUTE_ACCEPTED''"
| "event_type_value ET_ROUTE_COLLISION = ''ROUTE_COLLISION''"
| "event_type_value ET_SKILL_PROGRESS_STALLED = ''SKILL_PROGRESS_STALLED''"
| "event_type_value ET_LOW_VISIBILITY = ''LOW_VISIBILITY''"
| "event_type_value ET_TASK_COMPLETION_UNCERTAIN = ''TASK_COMPLETION_UNCERTAIN''"
| "event_type_value ET_MODEL_REVIEW_STARTED = ''MODEL_REVIEW_STARTED''"
| "event_type_value ET_MODEL_REVIEW_COMPLETED = ''MODEL_REVIEW_COMPLETED''"
| "event_type_value ET_MODEL_REVIEW_TIMEOUT = ''MODEL_REVIEW_TIMEOUT''"
| "event_type_value ET_MODEL_RESPONSE_STALE = ''MODEL_RESPONSE_STALE''"
| "event_type_value ET_PLAN_REVISION_REQUESTED = ''PLAN_REVISION_REQUESTED''"
| "event_type_value ET_PLAN_REVISION_ACCEPTED = ''PLAN_REVISION_ACCEPTED''"
| "event_type_value ET_PLAN_REVISION_REJECTED = ''PLAN_REVISION_REJECTED''"

definition event_types :: "mission_event_type list" where
  "event_types =
     [ET_PERIODIC_REVIEW_DUE, ET_CANDIDATE_PERSISTENT, ET_MULTIPLE_CANDIDATES,
      ET_TARGET_CONFIRMATION_REQUIRED, ET_TARGET_IDENTITY_UNCERTAIN, ET_TRACK_CONFIDENCE_DROP,
      ET_TRACK_LOST, ET_OBSTACLE_VISIBLE, ET_PATH_BLOCKED, ET_IMMINENT_COLLISION,
      ET_HOLD_REQUESTED, ET_HOLD_ESTABLISHED, ET_ROUTE_PROPOSED, ET_ROUTE_REJECTED,
      ET_ROUTE_ACCEPTED, ET_ROUTE_COLLISION, ET_SKILL_PROGRESS_STALLED, ET_LOW_VISIBILITY,
      ET_TASK_COMPLETION_UNCERTAIN, ET_MODEL_REVIEW_STARTED, ET_MODEL_REVIEW_COMPLETED,
      ET_MODEL_REVIEW_TIMEOUT, ET_MODEL_RESPONSE_STALE, ET_PLAN_REVISION_REQUESTED,
      ET_PLAN_REVISION_ACCEPTED, ET_PLAN_REVISION_REJECTED]"

definition MissionEventType :: "pyval \<Rightarrow> mission_event_type result" where
  "MissionEventType = enum_of ''MissionEventType'' event_type_value event_types"

datatype event_severity = SEV_INFO | SEV_WARNING | SEV_ERROR | SEV_CRITICAL

fun severity_value :: "event_severity \<Rightarrow> string" where
  "severity_value SEV_INFO = ''INFO''"
| "severity_value SEV_WARNING = ''WARNING''"
| "severity_value SEV_ERROR = ''ERROR''"
| "severity_value SEV_CRITICAL = ''CRITICAL''"

definition EventSeverity :: "pyval \<Rightarrow> event_severity result" where
  "EventSeverity = enum_of ''EventSeverity'' severity_value [SEV_INFO, SEV_WARNING, SEV_ERROR, SEV_CRITICAL]"

section \<open>Frozen JSON\<close>

definition MAX_JSON_DEPTH :: nat where "MAX_JSON_DEPTH = 8"
definition MAX_JSON_ITEMS :: nat where "MAX_JSON_ITEMS = 256"
definition MAX_JSON_STRING_CHARS :: nat where "MAX_JSON_STRING_CHARS = 4096"
definition MAX_JSON_ENCODED_BYTES :: nat where "MAX_JSON_ENCODED_BYTES = 65536"

lemma value_size: "(k, v) \<in> set d \<Longrightarrow> size v \<le> size_list (size_prod size size) d"
  for d :: "(pyval \<times> pyval) list"
  using size_list_estimation' [of "(k, v)" d "size v" "size_prod size size"] by simp

text \<open>
  \<open>_freeze_json\<close>: \<open>n\<close> is the item budget used so far, which the source keeps in a one-element list;
  the result carries the budget used afterwards.
\<close>

function (sequential) freeze_json :: "string \<Rightarrow> nat \<Rightarrow> nat \<Rightarrow> pyval \<Rightarrow> (pyval \<times> nat) result"
  and freeze_entries :: "string \<Rightarrow> nat \<Rightarrow> nat \<Rightarrow> (pyval \<times> pyval) list \<Rightarrow> ((pyval \<times> pyval) list \<times> nat) result"
  and freeze_items :: "string \<Rightarrow> nat \<Rightarrow> nat \<Rightarrow> nat \<Rightarrow> pyval list \<Rightarrow> (pyval list \<times> nat) result" where
  "freeze_json name depth n v =
     (if MAX_JSON_DEPTH < depth
      then Inl (ValueError (name @ '' exceeds the maximum JSON depth''))
      else case v of
        PDict d \<Rightarrow> rbind (freeze_entries name depth n d) (\<lambda>(d, n). Inr (PDict d, n))
      | PList xs \<Rightarrow> rbind (freeze_items name depth n 0 xs) (\<lambda>(xs, n). Inr (PTuple xs, n))
      | PTuple xs \<Rightarrow> rbind (freeze_items name depth n 0 xs) (\<lambda>(xs, n). Inr (PTuple xs, n))
      | PNone \<Rightarrow> Inr (v, n)
      | PBool b \<Rightarrow> Inr (v, n)
      | PInt i \<Rightarrow> Inr (v, n)
      | PFloat (Fin x) \<Rightarrow> Inr (v, n)
      | PFloat _ \<Rightarrow> Inl (ValueError (name @ '' must not contain NaN or Infinity''))
      | PStr s \<Rightarrow> if MAX_JSON_STRING_CHARS < length s
                 then Inl (ValueError (name @ '' contains an oversized string'')) else Inr (v, n)
      | _ \<Rightarrow> Inl (TypeError (name @ '' contains a non-JSON value'')))"
| "freeze_entries name depth n [] = Inr ([], n)"
| "freeze_entries name depth n ((k, item) # d) =
     (if MAX_JSON_ITEMS < Suc n
      then Inl (ValueError (name @ '' contains too many JSON items''))
      else case k of
        PStr s \<Rightarrow>
          if MAX_JSON_STRING_CHARS < length s
          then Inl (ValueError (name @ '' contains an oversized key''))
          else rbind (freeze_json (name @ ''.'' @ s) (Suc depth) (Suc n) item) (\<lambda>(item, n).
               rbind (freeze_entries name depth n d) (\<lambda>(d, n). Inr ((k, item) # d, n)))
      | _ \<Rightarrow> Inl (TypeError (name @ '' keys must be strings'')))"
| "freeze_items name depth n index [] = Inr ([], n)"
| "freeze_items name depth n index (item # xs) =
     (if MAX_JSON_ITEMS < Suc n
      then Inl (ValueError (name @ '' contains too many JSON items''))
      else rbind (freeze_json (name @ ''['' @ decimal index @ '']'') (Suc depth) (Suc n) item)
             (\<lambda>(item, n).
           rbind (freeze_items name depth n (Suc index) xs) (\<lambda>(xs, n). Inr (item # xs, n))))"
  by pat_completeness auto
termination
  by (relation "measure (case_sum (\<lambda>(f, d, n, v). size v)
        (case_sum (\<lambda>(f, d, n, es). size_list (size_prod size size) es)
                  (\<lambda>(f, d, n, i, xs). size_list size xs)))") auto

declare freeze_json.simps [simp del] freeze_entries.simps [simp del] freeze_items.simps [simp del]

fun thaw_json :: "pyval \<Rightarrow> pyval" where
  "thaw_json (PDict d) = PDict (map (\<lambda>e. (fst e, thaw_json (snd e))) d)"
| "thaw_json (PTuple xs) = PList (map thaw_json xs)"
| "thaw_json v = v"

text \<open>\<open>json.dumps(frozen, ensure_ascii=True, allow_nan=False)\<close> with its default separators.\<close>

definition hex_digit :: "nat \<Rightarrow> char" where
  "hex_digit n = (if n < 10 then char_of (48 + n) else char_of (87 + n))"

definition json_char :: "char \<Rightarrow> string" where
  "json_char c = (let n = of_char c :: nat in
     if n = 34 \<or> n = 92 then [char_of (92::nat), c]
     else if n = 10 then [char_of (92::nat), CHR ''n'']
     else if n = 13 then [char_of (92::nat), CHR ''r'']
     else if n = 9 then [char_of (92::nat), CHR ''t'']
     else if n = 12 then [char_of (92::nat), CHR ''f'']
     else if n = 8 then [char_of (92::nat), CHR ''b'']
     else if 32 \<le> n \<and> n \<le> 126 then [c]
     else [char_of (92::nat), CHR ''u'', CHR ''0'', CHR ''0'', hex_digit (n div 16), hex_digit (n mod 16)])"

definition json_string :: "string \<Rightarrow> string" where
  "json_string s = [CHR 0x22] @ concat (map json_char s) @ [CHR 0x22]"

definition int_repr :: "int \<Rightarrow> string" where
  "int_repr i = (if i < 0 then ''-'' else []) @ decimal (nat \<bar>i\<bar>)"

fun json_text :: "(rat \<Rightarrow> string) \<Rightarrow> pyval \<Rightarrow> string" where
  "json_text float_repr PNone = ''null''"
| "json_text float_repr (PBool b) = (if b then ''true'' else ''false'')"
| "json_text float_repr (PInt i) = int_repr i"
| "json_text float_repr (PFloat (Fin x)) = float_repr x"
| "json_text float_repr (PStr s) = json_string s"
| "json_text float_repr (PTuple xs) = ''['' @ py_join '', '' (map (json_text float_repr) xs) @ '']''"
| "json_text float_repr (PDict d) = [CHR 0x7B]
     @ py_join '', '' (map (\<lambda>e. (case fst e of PStr s \<Rightarrow> json_string s | _ \<Rightarrow> []) @ '': ''
         @ json_text float_repr (snd e)) d) @ [CHR 0x7D]"
| "json_text float_repr v = []"

fun json_ints_ok :: "pyval \<Rightarrow> bool" where
  "json_ints_ok (PInt i) = (length (decimal (nat \<bar>i\<bar>)) \<le> 4300)"
| "json_ints_ok (PTuple xs) = list_all json_ints_ok xs"
| "json_ints_ok (PDict d) = list_all (\<lambda>e. json_ints_ok (snd e)) d"
| "json_ints_ok v = True"

definition validated_json_payload :: "(rat \<Rightarrow> string) \<Rightarrow> pyval \<Rightarrow> string \<Rightarrow> (pyval \<times> pyval) list result" where
  "validated_json_payload float_repr v name =
     (case v of
        PDict d \<Rightarrow> rbind (freeze_json name 0 0 v) (\<lambda>(frozen, n).
          if \<not> json_ints_ok frozen
          then Inl (ValueError ''Exceeds the limit (4300 digits) for integer string conversion'')
          else if MAX_JSON_ENCODED_BYTES < length (json_text float_repr frozen)
          then Inl (ValueError (name @ '' exceeds the encoded byte limit''))
          else case frozen of PDict d \<Rightarrow> Inr d | _ \<Rightarrow> Inr [])
      | _ \<Rightarrow> Inl (TypeError (name @ '' must be a JSON object'')))"

definition json_payload_to_dict :: "(pyval \<times> pyval) list \<Rightarrow> pyval" where
  "json_payload_to_dict d = thaw_json (PDict d)"

section \<open>Events\<close>

record mission_event =
  ev_id :: string
  ev_mission :: string
  ev_uav :: string
  ev_version :: int
  ev_time :: rat
  ev_type :: mission_event_type
  ev_severity :: event_severity
  ev_payload :: "(pyval \<times> pyval) list"

definition finite_timestamp :: "pyval \<Rightarrow> rat result" where
  "finite_timestamp =
     real_value (TypeError ''timestamp_s must be a finite non-negative number'')
       (ValueError ''timestamp_s must be a finite non-negative number'') (\<lambda>x. 0 \<le> x)"

definition positive_plan_version :: "pyval \<Rightarrow> int result" where
  "positive_plan_version =
     int_value (TypeError ''plan_version must be an integer'')
       (ValueError ''plan_version must be greater than zero'') (\<lambda>i. 0 < i)"

text \<open>\<open>except (TypeError, ValueError): raise ValueError(msg) from None\<close>.\<close>

definition or_value_error :: "string \<Rightarrow> 'a result \<Rightarrow> 'a result" where
  "or_value_error msg r = (case r of
     Inl e \<Rightarrow> Inl (if is_type_or_value_error e then ValueError msg else e) | Inr x \<Rightarrow> Inr x)"

definition MissionEvent ::
  "(rat \<Rightarrow> string) \<Rightarrow> pyval \<Rightarrow> pyval \<Rightarrow> pyval \<Rightarrow> pyval \<Rightarrow> pyval \<Rightarrow> pyval \<Rightarrow> pyval \<Rightarrow> pyval
     \<Rightarrow> mission_event result" where
  "MissionEvent float_repr event_id mission uav version timestamp event_type severity payload =
     rbind (validate_routing_id event_id ''event_id'') (\<lambda>event_id.
     rbind (validate_mission_id mission) (\<lambda>mission.
     rbind (validate_uav_id uav) (\<lambda>uav.
     rbind (positive_plan_version version) (\<lambda>version.
     rbind (finite_timestamp timestamp) (\<lambda>timestamp.
     rbind (or_value_error ''event_type must be a supported MissionEventType''
              (MissionEventType event_type)) (\<lambda>event_type.
     rbind (or_value_error ''severity must be a supported EventSeverity''
              (EventSeverity severity)) (\<lambda>severity.
     rbind (validated_json_payload float_repr payload ''payload'') (\<lambda>payload.
       Inr \<lparr>ev_id = event_id, ev_mission = mission, ev_uav = uav, ev_version = version,
         ev_time = timestamp, ev_type = event_type, ev_severity = severity, ev_payload = payload\<rparr>))))))))"

definition event_to_dict :: "mission_event \<Rightarrow> (string \<times> pyval) list" where
  "event_to_dict e =
     [(''event_id'', PStr (ev_id e)), (''mission_id'', PStr (ev_mission e)), (''uav_id'', PStr (ev_uav e)),
      (''plan_version'', PInt (ev_version e)), (''timestamp_s'', PFloat (Fin (ev_time e))),
      (''event_type'', PStr (event_type_value (ev_type e))),
      (''severity'', PStr (severity_value (ev_severity e))),
      (''payload'', json_payload_to_dict (ev_payload e))]"

section \<open>The event bus\<close>

record event_bus =
  eb_max :: nat
  eb_events :: "mission_event list"
  eb_ids :: "string set"

definition bus_init :: "pyval \<Rightarrow> event_bus result" where
  "bus_init max_events =
     rbind (int_value (TypeError ''max_events must be an integer'')
              (ValueError ''max_events must be greater than zero'') (\<lambda>i. 0 < i) max_events) (\<lambda>m.
       Inr \<lparr>eb_max = nat m, eb_events = [], eb_ids = {}\<rparr>)"

text \<open>\<open>deque(maxlen=n).append\<close>: a full deque first drops its leftmost element.\<close>

definition deque_append :: "nat \<Rightarrow> 'a list \<Rightarrow> 'a \<Rightarrow> 'a list" where
  "deque_append n xs x =
     (if n = 0 then [] else if length xs = n then tl xs @ [x] else xs @ [x])"

definition publish :: "mission_event \<Rightarrow> event_bus \<Rightarrow> unit result \<times> event_bus" where
  "publish e b =
     (if ev_id e \<in> eb_ids b then (Inl (ValueError ''event_id has already been published''), b)
      else
        checked b
          (if length (eb_events b) = eb_max b
           then (case eb_events b of
                   [] \<Rightarrow> Inl (RuntimeError ''deque index out of range'')
                 | old # _ \<Rightarrow> if ev_id old \<in> eb_ids b then Inr (eb_ids b - {ev_id old})
                            else Inl (KeyError (ev_id old)))
           else Inr (eb_ids b)) (\<lambda>ids.
          (Inr (), b\<lparr>eb_events := deque_append (eb_max b) (eb_events b) e,
                     eb_ids := insert (ev_id e) ids\<rparr>)))"

definition bus_length :: "event_bus \<Rightarrow> nat" where
  "bus_length b = length (eb_events b)"

definition recent :: "event_bus \<Rightarrow> pyval \<Rightarrow> pyval \<Rightarrow> pyval \<Rightarrow> mission_event list result" where
  "recent b uav mission limit =
     rbind (opt_check validate_uav_id uav) (\<lambda>uav.
     rbind (opt_check validate_mission_id mission) (\<lambda>mission.
     rbind (opt_check (int_value (TypeError ''limit must be an integer or None'')
              (ValueError ''limit must be greater than zero'') (\<lambda>i. 0 < i)) limit) (\<lambda>limit.
       let selected = filter (\<lambda>e. (uav = None \<or> Some (ev_uav e) = uav)
             \<and> (mission = None \<or> Some (ev_mission e) = mission)) (eb_events b)
       in Inr (case limit of None \<Rightarrow> selected
               | Some n \<Rightarrow> drop (length selected - nat n) selected))))"

section \<open>Facts about frozen JSON\<close>

text \<open>What freezing guarantees, and the number of items it counts.\<close>

fun frozen_ok :: "nat \<Rightarrow> pyval \<Rightarrow> bool" where
  "frozen_ok k (PDict d) = (k \<le> MAX_JSON_DEPTH
     \<and> list_all (\<lambda>e. (case fst e of PStr s \<Rightarrow> length s \<le> MAX_JSON_STRING_CHARS | _ \<Rightarrow> False)
         \<and> frozen_ok (Suc k) (snd e)) d)"
| "frozen_ok k (PTuple xs) = (k \<le> MAX_JSON_DEPTH \<and> list_all (frozen_ok (Suc k)) xs)"
| "frozen_ok k (PFloat (Fin x)) = (k \<le> MAX_JSON_DEPTH)"
| "frozen_ok k (PStr s) = (k \<le> MAX_JSON_DEPTH \<and> length s \<le> MAX_JSON_STRING_CHARS)"
| "frozen_ok k PNone = (k \<le> MAX_JSON_DEPTH)"
| "frozen_ok k (PBool b) = (k \<le> MAX_JSON_DEPTH)"
| "frozen_ok k (PInt i) = (k \<le> MAX_JSON_DEPTH)"
| "frozen_ok k _ = False"

fun frozen_items :: "pyval \<Rightarrow> nat" where
  "frozen_items (PDict d) = (\<Sum>e\<leftarrow>d. Suc (frozen_items (snd e)))"
| "frozen_items (PTuple xs) = (\<Sum>x\<leftarrow>xs. Suc (frozen_items x))"
| "frozen_items v = 0"

lemma freeze_json_ok:
  "freeze_json name k n v = Inr (w, m) \<Longrightarrow>
     frozen_ok k w \<and> m = n + frozen_items w \<and> (n \<le> MAX_JSON_ITEMS \<longrightarrow> m \<le> MAX_JSON_ITEMS)
     \<and> (case v of PDict d \<Rightarrow> \<exists>e. w = PDict e | _ \<Rightarrow> True)"
  "freeze_entries name k n d = Inr (e, m) \<Longrightarrow> k \<le> MAX_JSON_DEPTH \<Longrightarrow>
     frozen_ok k (PDict e) \<and> m = n + frozen_items (PDict e) \<and> (n \<le> MAX_JSON_ITEMS \<longrightarrow> m \<le> MAX_JSON_ITEMS)"
  "freeze_items name k n i xs = Inr (ys, m) \<Longrightarrow> k \<le> MAX_JSON_DEPTH \<Longrightarrow>
     frozen_ok k (PTuple ys) \<and> m = n + frozen_items (PTuple ys) \<and> (n \<le> MAX_JSON_ITEMS \<longrightarrow> m \<le> MAX_JSON_ITEMS)"
proof (induction name k n v and name k n d and name k n i xs arbitrary: w m and e m and ys m
    rule: freeze_json_freeze_entries_freeze_items.induct)
  case (1 name k n v)
  then have k: "k \<le> MAX_JSON_DEPTH" by (simp add: freeze_json.simps split: if_splits)
  show ?case
  proof (cases v)
    case (PFloat f)
    then show ?thesis using 1(4) k by (cases f) (auto simp: freeze_json.simps)
  qed (use 1 k in \<open>auto simp: freeze_json.simps [of name] rbind_eq_Inr split: if_splits\<close>)
next
  case (2 name k n)
  then show ?case by (simp add: freeze_entries.simps)
next
  case (3 name k n key item d)
  then obtain s where key: "key = PStr s" "Suc n \<le> MAX_JSON_ITEMS" "length s \<le> MAX_JSON_STRING_CHARS"
    by (auto simp: freeze_entries.simps split: if_splits pyval.splits)
  with 3(3) obtain item' n' e' where item: "freeze_json (name @ ''.'' @ s) (Suc k) (Suc n) item = Inr (item', n')"
    and rest: "freeze_entries name k n' d = Inr (e', m)" and e: "e = (key, item') # e'"
    by (auto simp: freeze_entries.simps rbind_eq_Inr)
  have "frozen_ok (Suc k) item' \<and> n' = Suc n + frozen_items item' \<and> n' \<le> MAX_JSON_ITEMS"
    using 3(1) [OF _ _ _ item] key by simp
  moreover from this have "frozen_ok k (PDict e') \<and> m = n' + frozen_items (PDict e') \<and> m \<le> MAX_JSON_ITEMS"
    using 3(2) [OF _ _ _ rest 3(4)] key by simp
  ultimately show ?case using key e 3(4) by simp
next
  case (4 name k n i)
  then show ?case by (simp add: freeze_items.simps)
next
  case (5 name k n i item xs)
  then have n: "Suc n \<le> MAX_JSON_ITEMS" by (simp add: freeze_items.simps split: if_splits)
  with 5(3) obtain item' n' ys' where item: "freeze_json (name @ ''['' @ decimal i @ '']'') (Suc k) (Suc n) item
      = Inr (item', n')"
    and rest: "freeze_items name k n' (Suc i) xs = Inr (ys', m)" and ys: "ys = item' # ys'"
    by (auto simp: freeze_items.simps rbind_eq_Inr)
  have "frozen_ok (Suc k) item' \<and> n' = Suc n + frozen_items item' \<and> n' \<le> MAX_JSON_ITEMS"
    using 5(1) [OF _ item] n by simp
  moreover from this have "frozen_ok k (PTuple ys') \<and> m = n' + frozen_items (PTuple ys') \<and> m \<le> MAX_JSON_ITEMS"
    using 5(2) [OF _ rest 5(4)] n by simp
  ultimately show ?case using ys 5(4) by simp
qed

text \<open>Freezing what is already frozen, or its thawed copy, gives the frozen value.\<close>

lemma freeze_entries_refreeze:
  assumes "k \<le> MAX_JSON_DEPTH"
    and "\<And>e. e \<in> set d \<Longrightarrow> (case fst e of PStr s \<Rightarrow> length s \<le> MAX_JSON_STRING_CHARS | _ \<Rightarrow> False)"
    and "\<And>e name n. e \<in> set d \<Longrightarrow> n + frozen_items (snd e) \<le> MAX_JSON_ITEMS \<Longrightarrow>
       freeze_json name (Suc k) n (f (snd e)) = Inr (snd e, n + frozen_items (snd e))"
    and "n + frozen_items (PDict d) \<le> MAX_JSON_ITEMS"
  shows "freeze_entries name k n (map (\<lambda>e. (fst e, f (snd e))) d) = Inr (d, n + frozen_items (PDict d))"
  using assms(2-4)
proof (induction d arbitrary: n)
  case Nil
  then show ?case by (simp add: freeze_entries.simps)
next
  case (Cons e d)
  obtain key v where e: "e = (key, v)" by (cases e)
  obtain s where s: "key = PStr s" "length s \<le> MAX_JSON_STRING_CHARS"
    using Cons.prems(1) [of e] e by (auto split: pyval.splits)
  have v: "freeze_json name' (Suc k) (Suc n) (f v) = Inr (v, Suc n + frozen_items v)" for name'
    using Cons.prems(2) [of e "Suc n"] Cons.prems(3) e by simp
  have "freeze_entries name k (Suc n + frozen_items v) (map (\<lambda>e. (fst e, f (snd e))) d)
      = Inr (d, Suc n + frozen_items v + frozen_items (PDict d))"
    using Cons.prems e by (intro Cons.IH) auto
  then show ?case using s v e Cons.prems(3) by (simp add: freeze_entries.simps)
qed

lemma freeze_items_refreeze:
  assumes "k \<le> MAX_JSON_DEPTH"
    and "\<And>x name n. x \<in> set xs \<Longrightarrow> n + frozen_items x \<le> MAX_JSON_ITEMS \<Longrightarrow>
       freeze_json name (Suc k) n (f x) = Inr (x, n + frozen_items x)"
    and "n + frozen_items (PTuple xs) \<le> MAX_JSON_ITEMS"
  shows "freeze_items name k n i (map f xs) = Inr (xs, n + frozen_items (PTuple xs))"
  using assms(2-3)
proof (induction xs arbitrary: n i)
  case Nil
  then show ?case by (simp add: freeze_items.simps)
next
  case (Cons x xs)
  have x: "freeze_json name' (Suc k) (Suc n) (f x) = Inr (x, Suc n + frozen_items x)" for name'
    using Cons.prems(1) [of x "Suc n"] Cons.prems(2) by simp
  have "freeze_items name k (Suc n + frozen_items x) (Suc i) (map f xs)
      = Inr (xs, Suc n + frozen_items x + frozen_items (PTuple xs))"
    using Cons.prems by (intro Cons.IH) auto
  then show ?case using x Cons.prems(2) by (simp add: freeze_items.simps)
qed

lemma freeze_thawed:
  "frozen_ok k w \<Longrightarrow> n + frozen_items w \<le> MAX_JSON_ITEMS \<Longrightarrow>
     freeze_json name k n (thaw_json w) = Inr (w, n + frozen_items w)"
proof (induction k w arbitrary: n name rule: frozen_ok.induct)
  case (1 k d)
  have "freeze_entries name k n (map (\<lambda>e. (fst e, thaw_json (snd e))) d)
      = Inr (d, n + frozen_items (PDict d))"
    using 1 by (intro freeze_entries_refreeze) (auto simp: list_all_iff)
  then show ?case using 1 by (simp add: freeze_json.simps)
next
  case (2 k xs)
  have "freeze_items name k n 0 (map thaw_json xs) = Inr (xs, n + frozen_items (PTuple xs))"
    using 2 by (intro freeze_items_refreeze) (auto simp: list_all_iff)
  then show ?case using 2 by (simp add: freeze_json.simps)
qed (auto simp: freeze_json.simps)

lemma freeze_frozen:
  "frozen_ok k w \<Longrightarrow> n + frozen_items w \<le> MAX_JSON_ITEMS \<Longrightarrow>
     freeze_json name k n w = Inr (w, n + frozen_items w)"
proof (induction k w arbitrary: n name rule: frozen_ok.induct)
  case (1 k d)
  have "freeze_entries name k n (map (\<lambda>e. (fst e, id (snd e))) d) = Inr (d, n + frozen_items (PDict d))"
    using 1 by (intro freeze_entries_refreeze) (auto simp: list_all_iff)
  then show ?case using 1 by (simp add: freeze_json.simps)
next
  case (2 k xs)
  have "freeze_items name k n 0 (map id xs) = Inr (xs, n + frozen_items (PTuple xs))"
    using 2 by (intro freeze_items_refreeze) (auto simp: list_all_iff)
  then show ?case using 2 by (simp add: freeze_json.simps)
qed (auto simp: freeze_json.simps)

text \<open>What an accepted payload is.\<close>

definition payload_ok :: "(rat \<Rightarrow> string) \<Rightarrow> (pyval \<times> pyval) list \<Rightarrow> bool" where
  "payload_ok float_repr d \<longleftrightarrow> frozen_ok 0 (PDict d) \<and> frozen_items (PDict d) \<le> MAX_JSON_ITEMS
     \<and> json_ints_ok (PDict d) \<and> length (json_text float_repr (PDict d)) \<le> MAX_JSON_ENCODED_BYTES"

lemma validated_payload_ok:
  assumes "validated_json_payload float_repr v name = Inr d"
  shows "payload_ok float_repr d"
proof -
  obtain d0 where v: "v = PDict d0"
    using assms by (auto simp: validated_json_payload_def split: pyval.splits)
  from assms obtain w n where w: "freeze_json name 0 0 (PDict d0) = Inr (w, n)"
    and rest: "json_ints_ok w" "length (json_text float_repr w) \<le> MAX_JSON_ENCODED_BYTES"
      "(case w of PDict d \<Rightarrow> Inr d | _ \<Rightarrow> Inr []) = (Inr d :: exn + (pyval \<times> pyval) list)"
    unfolding validated_json_payload_def v pyval.case rbind_eq_Inr by (auto split: if_splits)
  from freeze_json_ok(1) [OF w] obtain e where e: "w = PDict e" "frozen_ok 0 w" "frozen_items w \<le> MAX_JSON_ITEMS"
    by auto
  with rest have "w = PDict d" by simp
  with e rest show ?thesis unfolding payload_ok_def by blast
qed

lemma validated_payload_again:
  assumes "payload_ok float_repr d"
  shows "validated_json_payload float_repr (PDict d) name = Inr d"
    and "validated_json_payload float_repr (json_payload_to_dict d) name = Inr d"
proof -
  have "freeze_json name 0 0 (PDict d) = Inr (PDict d, frozen_items (PDict d))"
    using assms freeze_frozen [of 0 "PDict d" 0 name] unfolding payload_ok_def by (simp del: frozen_ok.simps frozen_items.simps)
  then show "validated_json_payload float_repr (PDict d) name = Inr d"
    using assms unfolding payload_ok_def validated_json_payload_def
    by (simp del: frozen_ok.simps frozen_items.simps json_ints_ok.simps json_text.simps)
  have "freeze_json name 0 0 (thaw_json (PDict d)) = Inr (PDict d, frozen_items (PDict d))"
    using assms freeze_thawed [of 0 "PDict d" 0 name] unfolding payload_ok_def
    by (simp del: frozen_ok.simps frozen_items.simps thaw_json.simps)
  then have "freeze_json name 0 0 (PDict (map (\<lambda>e. (fst e, thaw_json (snd e))) d))
      = Inr (PDict d, frozen_items (PDict d))" by simp
  then show "validated_json_payload float_repr (json_payload_to_dict d) name = Inr d"
    using assms unfolding payload_ok_def validated_json_payload_def json_payload_to_dict_def thaw_json.simps
    by (simp del: frozen_ok.simps frozen_items.simps json_ints_ok.simps json_text.simps)
qed

section \<open>Facts about the bus\<close>

interpretation event_deque: bounded_log deque_append
  by unfold_locales (auto simp: deque_append_def Suc_diff_le drop_Suc_Cons neq_Nil_conv)

text \<open>
  The specification: an unbounded log, of which the bus shows the last events.  An event is refused
  exactly when its identifier is among those shown.
\<close>

definition last_n :: "nat \<Rightarrow> 'a list \<Rightarrow> 'a list" where
  "last_n n xs = drop (length xs - n) xs"

definition log_publish :: "nat \<Rightarrow> mission_event list \<Rightarrow> mission_event \<Rightarrow> mission_event list" where
  "log_publish cap hist e = (if ev_id e \<in> ev_id ` set (last_n cap hist) then hist else hist @ [e])"

definition shows_log :: "event_bus \<Rightarrow> mission_event list \<Rightarrow> bool" where
  "shows_log b hist \<longleftrightarrow> 0 < eb_max b \<and> eb_events b = last_n (eb_max b) hist
     \<and> eb_ids b = ev_id ` set (eb_events b) \<and> distinct (map ev_id (eb_events b))"

lemma last_n_snoc: "0 < n \<Longrightarrow> deque_append n (last_n n xs) x = last_n n (xs @ [x])"
  using event_deque.push_full [of n "last_n n xs" x]
  by (cases "n \<le> length xs") (auto simp: last_n_def Suc_diff_le drop_append)

lemma publish_cases:
  assumes "shows_log b hist"
  shows "publish e b =
    (if ev_id e \<in> ev_id ` set (eb_events b)
     then (Inl (ValueError ''event_id has already been published''), b)
     else (Inr (), b\<lparr>eb_events := last_n (eb_max b) (hist @ [e]),
                    eb_ids := ev_id ` set (last_n (eb_max b) (hist @ [e]))\<rparr>))
    \<and> (ev_id e \<notin> ev_id ` set (eb_events b) \<longrightarrow> distinct (map ev_id (last_n (eb_max b) (hist @ [e]))))"
proof (cases "length (eb_events b) = eb_max b")
  case True
  with assms obtain old rest where ev: "eb_events b = old # rest"
    by (cases "eb_events b") (auto simp: shows_log_def)
  have new: "last_n (eb_max b) (hist @ [e]) = rest @ [e]"
  proof -
    have "last_n (eb_max b) hist = old # rest" "0 < eb_max b" using assms ev by (simp_all add: shows_log_def)
    moreover have "length (old # rest) = eb_max b" using True ev by simp
    ultimately show ?thesis using last_n_snoc [of "eb_max b" hist e] by (simp add: deque_append_def)
  qed
  have "deque_append (eb_max b) (eb_events b) e = rest @ [e]"
    using True ev by (auto simp: deque_append_def)
  moreover have "eb_ids b = ev_id ` set (eb_events b)" "distinct (map ev_id (eb_events b))"
    using assms unfolding shows_log_def by blast+
  ultimately show ?thesis using True ev new by (auto simp: publish_def)
next
  case False
  then have new: "last_n (eb_max b) (hist @ [e]) = eb_events b @ [e]"
    using assms last_n_snoc [of "eb_max b" hist e] by (auto simp: shows_log_def deque_append_def)
  have "deque_append (eb_max b) (eb_events b) e = eb_events b @ [e]"
    using assms False by (auto simp: deque_append_def shows_log_def)
  then show ?thesis using assms False new by (auto simp: publish_def shows_log_def)
qed

lemma publish_shows:
  assumes "shows_log b hist"
  shows "shows_log (snd (publish e b)) (log_publish (eb_max b) hist e)
    \<and> eb_max (snd (publish e b)) = eb_max b"
  using assms publish_cases [OF assms, of e]
  by (auto simp: log_publish_def shows_log_def)

section \<open>Properties\<close>

text \<open>
  C17. The event bus refines an unbounded log: after any sequence of publications it shows exactly the
  last \<open>max_events\<close> accepted events in order, an event being refused, without any change, exactly
  when its identifier is among those shown; and \<open>recent\<close> without a limit returns the shown
  events of the given vehicle and mission.
\<close>

theorem event_bus_refines_log:
  assumes "bus_init (PInt m) = Inr b0"
    and "b = fold (\<lambda>e b. snd (publish e b)) es b0" and "hist = foldl (log_publish (nat m)) [] es"
  shows "eb_events b = last_n (nat m) hist \<and> length (eb_events b) \<le> nat m
    \<and> (fst (publish e b) = Inr () \<longleftrightarrow> ev_id e \<notin> ev_id ` set (last_n (nat m) hist))
    \<and> (ev_id e \<in> ev_id ` set (last_n (nat m) hist) \<longrightarrow> snd (publish e b) = b)
    \<and> (routing_id_match u \<longrightarrow>
         recent b (PStr u) PNone PNone = Inr (filter (\<lambda>e. ev_uav e = u) (last_n (nat m) hist)))"
proof -
  have b0: "0 < m" "b0 = \<lparr>eb_max = nat m, eb_events = [], eb_ids = {}\<rparr>"
    using assms(1) by (auto simp: bus_init_def rbind_eq_Inr split: if_splits)
  have "shows_log (fold (\<lambda>e b. snd (publish e b)) es b0) (foldl (log_publish (nat m)) [] es)
      \<and> eb_max (fold (\<lambda>e b. snd (publish e b)) es b0) = nat m"
  proof (induction es rule: rev_induct)
    case Nil
    then show ?case using b0 by (simp add: shows_log_def last_n_def)
  next
    case (snoc x xs)
    then show ?case using publish_shows by force
  qed
  then have s: "shows_log b hist" "eb_max b = nat m" using assms(2,3) by simp_all
  then have ev: "eb_events b = last_n (nat m) hist" by (simp add: shows_log_def)
  have "recent b (PStr u) PNone PNone = Inr (filter (\<lambda>e. ev_uav e = u) (last_n (nat m) hist))"
    if "routing_id_match u"
    using that by (simp add: recent_def opt_check_def Let_def ev)
  then show ?thesis
    using publish_cases [OF s(1), of e] ev by (auto simp: last_n_def)
qed

definition example_event :: "string \<Rightarrow> mission_event" where
  "example_event i = \<lparr>ev_id = i, ev_mission = ''m1'', ev_uav = ''u1'', ev_version = 1, ev_time = 2,
     ev_type = ET_TRACK_LOST, ev_severity = SEV_WARNING, ev_payload = []\<rparr>"

theorem event_bus_refines_log_witness:
  "map ev_id (eb_events (fold (\<lambda>e b. snd (publish e b)) (map example_event [''e1'', ''e2'', ''e3''])
     \<lparr>eb_max = 2, eb_events = [], eb_ids = {}\<rparr>)) = [''e2'', ''e3'']"
proof -
  have "bus_init (PInt 2) = Inr \<lparr>eb_max = 2, eb_events = [], eb_ids = {}\<rparr>" by (simp add: bus_init_def)
  from event_bus_refines_log [OF this refl refl, of "map example_event [''e1'', ''e2'', ''e3'']"]
  show ?thesis by (simp add: log_publish_def last_n_def example_event_def)
qed

text \<open>
  C22. An event survives its dictionary form: building an event from the fields of \<open>to_dict\<close>
  (the thawed payload included) gives the event back, for every event the constructor ever returns.
\<close>

theorem event_round_trip:
  assumes "MissionEvent float_repr iv mv uv vv tv yv sv pv = Inr e"
    and "field = (\<lambda>k. the (dget (event_to_dict e) k))"
  shows "MissionEvent float_repr (field ''event_id'') (field ''mission_id'') (field ''uav_id'')
    (field ''plan_version'') (field ''timestamp_s'') (field ''event_type'') (field ''severity'')
    (field ''payload'') = Inr e"
proof -
  have t: "MissionEventType (PStr (event_type_value y)) = Inr y" for y
    by (cases y) (simp_all add: MissionEventType_def enum_of_def event_types_def)
  have s: "EventSeverity (PStr (severity_value y)) = Inr y" for y
    by (cases y) (simp_all add: EventSeverity_def enum_of_def)
  obtain i m u v x y z d where e: "e = \<lparr>ev_id = i, ev_mission = m, ev_uav = u, ev_version = v,
      ev_time = x, ev_type = y, ev_severity = z, ev_payload = d\<rparr>"
    and ok: "routing_id_match i" "routing_id_match m" "routing_id_match u" "0 < v"
      "finite_timestamp tv = Inr x" "validated_json_payload float_repr pv ''payload'' = Inr d"
    using assms(1) unfolding MissionEvent_def rbind_eq_Inr
    by (auto simp: positive_plan_version_def int_value_Inr)
  have "0 \<le> x" using ok(5) by (auto simp: finite_timestamp_def dest: real_value_Inr)
  moreover have "validated_json_payload float_repr (json_payload_to_dict d) ''payload'' = Inr d"
    using validated_payload_again(2) validated_payload_ok [OF ok(6)] by blast
  ultimately show ?thesis
    using ok by (simp add: assms(2) e event_to_dict_def MissionEvent_def or_value_error_def t s
        positive_plan_version_def finite_timestamp_def)
qed

theorem event_round_trip_witness:
  "MissionEvent (\<lambda>_. ''0.0'') (PStr ''e1'') (PStr ''m1'') (PStr ''u1'') (PInt 1) (PFloat (Fin 2))
     (PStr ''TRACK_LOST'') (PStr ''WARNING'') (PDict [(PStr ''ids'', PList [PInt 4])])
   = Inr ((example_event ''e1'')\<lparr>ev_payload := [(PStr ''ids'', PTuple [PInt 4])]\<rparr>)"
proof -
  have "MissionEvent (\<lambda>_. ''0.0'') (PStr ''e1'') (PStr ''m1'') (PStr ''u1'') (PInt 1) (PInt 2)
     (PStr ''TRACK_LOST'') (PStr ''WARNING'') (PDict [(PStr ''ids'', PTuple [PInt 4])])
   = Inr ((example_event ''e1'')\<lparr>ev_payload := [(PStr ''ids'', PTuple [PInt 4])]\<rparr>)"
  proof -
    have "validated_json_payload (\<lambda>_. ''0.0'') (PDict [(PStr ''ids'', PTuple [PInt 4])]) ''payload''
        = Inr [(PStr ''ids'', PTuple [PInt 4])]"
      by (rule validated_payload_again) (simp add: payload_ok_def MAX_JSON_DEPTH_def MAX_JSON_ITEMS_def
          MAX_JSON_STRING_CHARS_def MAX_JSON_ENCODED_BYTES_def decimal.simps int_repr_def json_string_def
          json_char_def Let_def)
    moreover have "routing_id_match ''e1''" "routing_id_match ''m1''" "routing_id_match ''u1''" by code_simp+
    moreover have "finite_timestamp (PInt 2) = Inr 2"
      by (simp add: finite_timestamp_def real_value_def float_of_int_exact)
    moreover have "MissionEventType (PStr ''TRACK_LOST'') = Inr ET_TRACK_LOST"
      "EventSeverity (PStr ''WARNING'') = Inr SEV_WARNING"
      by (simp_all add: MissionEventType_def event_types_def EventSeverity_def enum_of_def)
    ultimately show ?thesis
      by (simp add: MissionEvent_def positive_plan_version_def or_value_error_def example_event_def)
  qed
  from event_round_trip [OF this refl] show ?thesis
    by (simp add: event_to_dict_def example_event_def json_payload_to_dict_def)
qed

end
