(* ===== verification/Spatial_Contract.thy ===== *)
theory Spatial_Contract
  imports Routing_Ids Py_Containers
begin

text \<open>
  \<open>planner/spatial.py\<close>: the value types of the spatial contract, targets and regions with explicit
  coordinate frames, and their exact parsers.  A tuple of floats is a list of rationals; the sum of
  products of the polygon check is exact.
\<close>

section \<open>Vocabulary\<close>

datatype coordinate_frame =
    CF_WORLD_ENU | CF_HOME_ENU | CF_UAV_START_FLU | CF_UAV_HOLD_FLU | CF_CAMERA_FLU

fun frame_value :: "coordinate_frame \<Rightarrow> string" where
  "frame_value CF_WORLD_ENU = ''WORLD_ENU''"
| "frame_value CF_HOME_ENU = ''HOME_ENU''"
| "frame_value CF_UAV_START_FLU = ''UAV_START_FLU''"
| "frame_value CF_UAV_HOLD_FLU = ''UAV_HOLD_FLU''"
| "frame_value CF_CAMERA_FLU = ''CAMERA_FLU''"

definition frames :: "coordinate_frame list" where
  "frames = [CF_WORLD_ENU, CF_HOME_ENU, CF_UAV_START_FLU, CF_UAV_HOLD_FLU, CF_CAMERA_FLU]"

datatype spatial_relation =
    SR_LEFT_OF | SR_RIGHT_OF | SR_IN_FRONT_OF | SR_BEHIND | SR_NORTH_OF | SR_SOUTH_OF | SR_EAST_OF
  | SR_WEST_OF | SR_ABOVE | SR_BELOW

fun relation_value :: "spatial_relation \<Rightarrow> string" where
  "relation_value SR_LEFT_OF = ''LEFT_OF''"
| "relation_value SR_RIGHT_OF = ''RIGHT_OF''"
| "relation_value SR_IN_FRONT_OF = ''IN_FRONT_OF''"
| "relation_value SR_BEHIND = ''BEHIND''"
| "relation_value SR_NORTH_OF = ''NORTH_OF''"
| "relation_value SR_SOUTH_OF = ''SOUTH_OF''"
| "relation_value SR_EAST_OF = ''EAST_OF''"
| "relation_value SR_WEST_OF = ''WEST_OF''"
| "relation_value SR_ABOVE = ''ABOVE''"
| "relation_value SR_BELOW = ''BELOW''"

definition relations :: "spatial_relation list" where
  "relations = [SR_LEFT_OF, SR_RIGHT_OF, SR_IN_FRONT_OF, SR_BEHIND, SR_NORTH_OF, SR_SOUTH_OF,
     SR_EAST_OF, SR_WEST_OF, SR_ABOVE, SR_BELOW]"

section \<open>Field checks\<close>

definition spatial_enum :: "('e \<Rightarrow> string) \<Rightarrow> 'e list \<Rightarrow> string \<Rightarrow> pyval \<Rightarrow> 'e result" where
  "spatial_enum val members name v =
     (case v of
        PStr s \<Rightarrow> (case List.find (\<lambda>e. val e = s) members of
            Some e \<Rightarrow> Inr e
          | None \<Rightarrow> Inl (SpatialContractError
              (name @ '' must be one of: '' @ py_join '', '' (map val members))))
      | _ \<Rightarrow> Inl (SpatialContractError
          (name @ '' must be one of: '' @ py_join '', '' (map val members))))"

definition frame_arg :: "pyval \<Rightarrow> coordinate_frame result" where
  "frame_arg = spatial_enum frame_value frames ''frame''"

definition relation_arg :: "pyval \<Rightarrow> spatial_relation result" where
  "relation_arg = spatial_enum relation_value relations ''relation''"

definition spatial_text :: "string \<Rightarrow> nat \<Rightarrow> pyval \<Rightarrow> string result" where
  "spatial_text name maximum v =
     (case v of
        PStr s \<Rightarrow>
          let r = py_strip s in
          if r = [] then Inl (SpatialContractError (name @ '' must be non-empty''))
          else if maximum < length r
          then Inl (SpatialContractError
            (name @ '' must contain at most '' @ decimal maximum @ '' characters''))
          else Inr r
      | _ \<Rightarrow> Inl (TypeError (name @ '' must be a string'')))"

definition spatial_finite :: "string \<Rightarrow> pyval \<Rightarrow> rat result" where
  "spatial_finite name =
     real_value (TypeError (name @ '' must be a finite number''))
       (SpatialContractError (name @ '' must be a finite number'')) (\<lambda>x. True)"

definition spatial_positive :: "string \<Rightarrow> pyval \<Rightarrow> rat result" where
  "spatial_positive name v =
     rbind (spatial_finite name v) (\<lambda>x.
       if x \<le> 0 then Inl (SpatialContractError (name @ '' must be greater than zero'')) else Inr x)"

definition item_name :: "string \<Rightarrow> nat \<Rightarrow> string" where
  "item_name name i = name @ ''['' @ decimal i @ '']''"

definition spatial_vector :: "nat \<Rightarrow> string \<Rightarrow> pyval \<Rightarrow> rat list result" where
  "spatial_vector n name v =
     rbind (case v of PList xs \<Rightarrow> Inr xs | PTuple xs \<Rightarrow> Inr xs
            | _ \<Rightarrow> Inl (SpatialContractError
                (name @ '' must contain exactly '' @ decimal n @ '' numbers''))) (\<lambda>xs.
     if length xs \<noteq> n
     then Inl (SpatialContractError (name @ '' must contain exactly '' @ decimal n @ '' numbers''))
     else rmap (\<lambda>(i, x). spatial_finite (item_name name i) x) (enumerate 0 xs))"

definition spatial_vectors :: "nat \<Rightarrow> nat \<Rightarrow> string \<Rightarrow> pyval \<Rightarrow> rat list list result" where
  "spatial_vectors minimum maximum name v =
     rbind (case v of PList xs \<Rightarrow> Inr xs | PTuple xs \<Rightarrow> Inr xs
            | _ \<Rightarrow> Inl (TypeError (name @ '' must be an array''))) (\<lambda>xs.
     if \<not> (minimum \<le> length xs \<and> length xs \<le> maximum)
     then Inl (SpatialContractError (name @ '' must contain between '' @ decimal minimum @ '' and ''
       @ decimal maximum @ '' points''))
     else rmap (\<lambda>(i, x). spatial_vector 3 (item_name name i) x) (enumerate 0 xs))"

definition exact_mapping ::
  "pyval \<Rightarrow> string \<Rightarrow> string list \<Rightarrow> string list \<Rightarrow> (string \<times> pyval) list result" where
  "exact_mapping v name required opt =
     (case v of
        PDict d \<Rightarrow>
          (case string_keys d of
             None \<Rightarrow> Inl (TypeError (name @ '' field names must be strings''))
           | Some e \<Rightarrow>
               let unknown = filter (\<lambda>k. k \<notin> set required \<and> k \<notin> set opt) (dkeys e);
                   missing = filter (\<lambda>k. k \<notin> set (dkeys e)) required
               in if unknown \<noteq> []
                  then Inl (SpatialContractError
                    (name @ '' contains unknown fields: '' @ py_join '', '' (sort unknown)))
                  else if missing \<noteq> []
                  then Inl (SpatialContractError
                    (name @ '' is missing fields: '' @ py_join '', '' (sort missing)))
                  else Inr e)
      | _ \<Rightarrow> Inl (TypeError (name @ '' must be an object'')))"

section \<open>Targets\<close>

datatype spatial_target =
    T_NAMED_LOCATION string
  | T_POINT coordinate_frame "rat list"
  | T_RELATIONAL_POINT spatial_relation string rat "coordinate_frame option"
  | T_ROUTE coordinate_frame "rat list list"

definition NamedLocationTarget :: "pyval \<Rightarrow> spatial_target result" where
  "NamedLocationTarget name =
     rbind (spatial_text ''name'' 128 name) (\<lambda>name. Inr (T_NAMED_LOCATION name))"

definition PointTarget :: "pyval \<Rightarrow> pyval \<Rightarrow> spatial_target result" where
  "PointTarget frame xyz =
     rbind (frame_arg frame) (\<lambda>frame.
     rbind (spatial_vector 3 ''xyz_m'' xyz) (\<lambda>xyz. Inr (T_POINT frame xyz)))"

definition RelationalPointTarget :: "pyval \<Rightarrow> pyval \<Rightarrow> pyval \<Rightarrow> pyval \<Rightarrow> spatial_target result" where
  "RelationalPointTarget relation reference distance frame =
     rbind (relation_arg relation) (\<lambda>relation.
     rbind (spatial_text ''reference_id'' 128 reference) (\<lambda>reference.
     rbind (spatial_positive ''distance_m'' distance) (\<lambda>distance.
     rbind (opt_check frame_arg frame) (\<lambda>frame.
       Inr (T_RELATIONAL_POINT relation reference distance frame)))))"

definition RouteTarget :: "pyval \<Rightarrow> pyval \<Rightarrow> spatial_target result" where
  "RouteTarget frame waypoints =
     rbind (frame_arg frame) (\<lambda>frame.
     rbind (spatial_vectors 2 64 ''waypoints_xyz_m'' waypoints) (\<lambda>waypoints.
       Inr (T_ROUTE frame waypoints)))"

abbreviation pfloat :: "rat \<Rightarrow> pyval" where "pfloat x \<equiv> PFloat (Fin x)"

definition point_list :: "rat list \<Rightarrow> pyval" where
  "point_list p = PList (map pfloat p)"

fun target_to_dict :: "spatial_target \<Rightarrow> (string \<times> pyval) list" where
  "target_to_dict (T_NAMED_LOCATION name) = [(''kind'', PStr ''NAMED_LOCATION''), (''name'', PStr name)]"
| "target_to_dict (T_POINT frame xyz) =
     [(''kind'', PStr ''POINT''), (''frame'', PStr (frame_value frame)), (''xyz_m'', point_list xyz)]"
| "target_to_dict (T_RELATIONAL_POINT relation reference distance frame) =
     [(''kind'', PStr ''RELATIONAL_POINT''), (''relation'', PStr (relation_value relation)),
      (''reference_id'', PStr reference), (''distance_m'', pfloat distance)]
     @ (case frame of None \<Rightarrow> [] | Some f \<Rightarrow> [(''frame'', PStr (frame_value f))])"
| "target_to_dict (T_ROUTE frame waypoints) =
     [(''kind'', PStr ''ROUTE''), (''frame'', PStr (frame_value frame)),
      (''waypoints_xyz_m'', PList (map point_list waypoints))]"

definition kind_of :: "string \<Rightarrow> (pyval \<times> pyval) list \<Rightarrow> pyval" where
  "kind_of field d = (case dget d (PStr field) of None \<Rightarrow> PNone | Some v \<Rightarrow> v)"

definition opt_field :: "(string \<times> pyval) list \<Rightarrow> string \<Rightarrow> pyval \<Rightarrow> pyval" where
  "opt_field e k dflt = (case dget e k of None \<Rightarrow> dflt | Some v \<Rightarrow> v)"

abbreviation field :: "(string \<times> pyval) list \<Rightarrow> string \<Rightarrow> pyval" where
  "field e k \<equiv> the (dget e k)"

definition spatial_target_from_dict :: "pyval \<Rightarrow> spatial_target result" where
  "spatial_target_from_dict v =
     (case v of
        PDict d \<Rightarrow>
          let kind = kind_of ''kind'' d in
          if kind = PStr ''NAMED_LOCATION''
          then rbind (exact_mapping v ''NamedLocationTarget'' [''kind'', ''name''] []) (\<lambda>e.
                 NamedLocationTarget (field e ''name''))
          else if kind = PStr ''POINT''
          then rbind (exact_mapping v ''PointTarget'' [''kind'', ''frame'', ''xyz_m''] []) (\<lambda>e.
                 PointTarget (field e ''frame'') (field e ''xyz_m''))
          else if kind = PStr ''RELATIONAL_POINT''
          then rbind (exact_mapping v ''RelationalPointTarget''
                   [''kind'', ''relation'', ''reference_id'', ''distance_m''] [''frame'']) (\<lambda>e.
                 RelationalPointTarget (field e ''relation'') (field e ''reference_id'')
                   (field e ''distance_m'') (opt_field e ''frame'' PNone))
          else if kind = PStr ''ROUTE''
          then rbind (exact_mapping v ''RouteTarget'' [''kind'', ''frame'', ''waypoints_xyz_m''] []) (\<lambda>e.
                 RouteTarget (field e ''frame'') (field e ''waypoints_xyz_m''))
          else Inl (SpatialContractError ''SpatialTarget.kind is unsupported'')
      | _ \<Rightarrow> Inl (TypeError ''SpatialTarget must be an object''))"

section \<open>Regions\<close>

datatype region_spec =
    R_CIRCLE coordinate_frame "rat list" rat
  | R_RECTANGLE coordinate_frame "rat list" rat rat rat "rat list option"
  | R_SECTOR coordinate_frame "rat list" rat rat "rat list"
  | R_POLYGON coordinate_frame "rat list list"
  | R_CORRIDOR coordinate_frame "rat list list" rat
  | R_RELATIONAL spatial_relation string rat "rat list" "coordinate_frame option"

definition CircleRegion :: "pyval \<Rightarrow> pyval \<Rightarrow> pyval \<Rightarrow> region_spec result" where
  "CircleRegion frame center radius =
     rbind (frame_arg frame) (\<lambda>frame.
     rbind (spatial_vector 3 ''center_xyz_m'' center) (\<lambda>center.
     rbind (spatial_positive ''radius_m'' radius) (\<lambda>radius. Inr (R_CIRCLE frame center radius))))"

definition RectangleRegion ::
  "pyval \<Rightarrow> pyval \<Rightarrow> pyval \<Rightarrow> pyval \<Rightarrow> pyval \<Rightarrow> pyval \<Rightarrow> region_spec result" where
  "RectangleRegion frame center width height yaw entry =
     rbind (frame_arg frame) (\<lambda>frame.
     rbind (spatial_vector 3 ''center_xyz_m'' center) (\<lambda>center.
     rbind (spatial_positive ''width_m'' width) (\<lambda>width.
     rbind (spatial_positive ''height_m'' height) (\<lambda>height.
     rbind (spatial_finite ''yaw_deg'' yaw) (\<lambda>yaw.
     rbind (opt_check (spatial_vector 3 ''entry_point_xyz_m'') entry) (\<lambda>entry.
       Inr (R_RECTANGLE frame center width height yaw entry)))))))"

definition SectorRegion :: "pyval \<Rightarrow> pyval \<Rightarrow> pyval \<Rightarrow> pyval \<Rightarrow> pyval \<Rightarrow> region_spec result" where
  "SectorRegion frame origin center spn ranges =
     rbind (frame_arg frame) (\<lambda>frame.
     rbind (spatial_vector 3 ''origin_xyz_m'' origin) (\<lambda>origin.
     rbind (spatial_finite ''azimuth_center_deg'' center) (\<lambda>center.
     rbind (spatial_positive ''azimuth_span_deg'' spn) (\<lambda>spn.
     if 360 < spn
     then Inl (SpatialContractError ''azimuth_span_deg must be at most 360'')
     else rbind (spatial_vector 2 ''distance_range_m'' ranges) (\<lambda>ranges.
       if ranges ! 0 < 0 \<or> ranges ! 0 \<ge> ranges ! 1
       then Inl (SpatialContractError ''distance_range_m must satisfy 0 <= near < far'')
       else Inr (R_SECTOR frame origin center spn ranges))))))"

text \<open>Twice the signed area of the polygon in the plane.\<close>

definition area_twice :: "rat list list \<Rightarrow> rat" where
  "area_twice points = (\<Sum>i\<leftarrow>[0..<length points].
     let p = points ! i; q = points ! (Suc i mod length points)
     in p ! 0 * q ! 1 - q ! 0 * p ! 1)"

definition PolygonRegion :: "pyval \<Rightarrow> pyval \<Rightarrow> region_spec result" where
  "PolygonRegion frame vertices =
     rbind (frame_arg frame) (\<lambda>frame.
     rbind (spatial_vectors 3 64 ''vertices_xyz_m'' vertices) (\<lambda>points.
       if \<bar>area_twice points\<bar> \<le> 1 / 1000000000
       then Inl (SpatialContractError ''vertices_xyz_m must form a non-degenerate XY polygon'')
       else Inr (R_POLYGON frame points)))"

definition CorridorRegion :: "pyval \<Rightarrow> pyval \<Rightarrow> pyval \<Rightarrow> region_spec result" where
  "CorridorRegion frame centerline half_width =
     rbind (frame_arg frame) (\<lambda>frame.
     rbind (spatial_vectors 2 64 ''centerline_xyz_m'' centerline) (\<lambda>points.
       if list_all (\<lambda>(p, q). p = q) (zip points (tl points))
       then Inl (SpatialContractError ''centerline_xyz_m must contain a non-zero segment'')
       else rbind (spatial_positive ''half_width_m'' half_width) (\<lambda>half_width.
         Inr (R_CORRIDOR frame points half_width))))"

definition RelationalRegion :: "pyval \<Rightarrow> pyval \<Rightarrow> pyval \<Rightarrow> pyval \<Rightarrow> pyval \<Rightarrow> region_spec result" where
  "RelationalRegion relation reference distance extents frame =
     rbind (relation_arg relation) (\<lambda>relation.
     rbind (spatial_text ''reference_id'' 128 reference) (\<lambda>reference.
     rbind (spatial_positive ''distance_m'' distance) (\<lambda>distance.
     rbind (spatial_vector 2 ''extent_m'' extents) (\<lambda>extents.
     if extents ! 0 \<le> 0 \<or> extents ! 1 \<le> 0
     then Inl (SpatialContractError ''extent_m values must be greater than zero'')
     else rbind (opt_check frame_arg frame) (\<lambda>frame.
       Inr (R_RELATIONAL relation reference distance extents frame))))))"

fun region_to_dict :: "region_spec \<Rightarrow> (string \<times> pyval) list" where
  "region_to_dict (R_CIRCLE frame center radius) =
     [(''shape'', PStr ''CIRCLE''), (''frame'', PStr (frame_value frame)),
      (''center_xyz_m'', point_list center), (''radius_m'', pfloat radius)]"
| "region_to_dict (R_RECTANGLE frame center width height yaw entry) =
     [(''shape'', PStr ''RECTANGLE''), (''frame'', PStr (frame_value frame)),
      (''center_xyz_m'', point_list center), (''width_m'', pfloat width), (''height_m'', pfloat height),
      (''yaw_deg'', pfloat yaw)]
     @ (case entry of None \<Rightarrow> [] | Some p \<Rightarrow> [(''entry_point_xyz_m'', point_list p)])"
| "region_to_dict (R_SECTOR frame origin center spn ranges) =
     [(''shape'', PStr ''SECTOR''), (''frame'', PStr (frame_value frame)),
      (''origin_xyz_m'', point_list origin), (''azimuth_center_deg'', pfloat center),
      (''azimuth_span_deg'', pfloat spn), (''distance_range_m'', point_list ranges)]"
| "region_to_dict (R_POLYGON frame points) =
     [(''shape'', PStr ''POLYGON''), (''frame'', PStr (frame_value frame)),
      (''vertices_xyz_m'', PList (map point_list points))]"
| "region_to_dict (R_CORRIDOR frame points half_width) =
     [(''shape'', PStr ''CORRIDOR''), (''frame'', PStr (frame_value frame)),
      (''centerline_xyz_m'', PList (map point_list points)), (''half_width_m'', pfloat half_width)]"
| "region_to_dict (R_RELATIONAL relation reference distance extents frame) =
     [(''shape'', PStr ''RELATIONAL''), (''relation'', PStr (relation_value relation)),
      (''reference_id'', PStr reference), (''distance_m'', pfloat distance),
      (''extent_m'', point_list extents)]
     @ (case frame of None \<Rightarrow> [] | Some f \<Rightarrow> [(''frame'', PStr (frame_value f))])"

definition region_spec_from_dict :: "pyval \<Rightarrow> region_spec result" where
  "region_spec_from_dict v =
     (case v of
        PDict d \<Rightarrow>
          let shape = kind_of ''shape'' d in
          if shape = PStr ''CIRCLE''
          then rbind (exact_mapping v ''CircleRegion''
                   [''shape'', ''frame'', ''center_xyz_m'', ''radius_m''] []) (\<lambda>e.
                 CircleRegion (field e ''frame'') (field e ''center_xyz_m'') (field e ''radius_m''))
          else if shape = PStr ''RECTANGLE''
          then rbind (exact_mapping v ''RectangleRegion''
                   [''shape'', ''frame'', ''center_xyz_m'', ''width_m'', ''height_m'']
                   [''yaw_deg'', ''entry_point_xyz_m'']) (\<lambda>e.
                 RectangleRegion (field e ''frame'') (field e ''center_xyz_m'') (field e ''width_m'')
                   (field e ''height_m'') (opt_field e ''yaw_deg'' (pfloat 0))
                   (opt_field e ''entry_point_xyz_m'' PNone))
          else if shape = PStr ''SECTOR''
          then rbind (exact_mapping v ''SectorRegion''
                   [''shape'', ''frame'', ''origin_xyz_m'', ''azimuth_center_deg'', ''azimuth_span_deg'',
                    ''distance_range_m''] []) (\<lambda>e.
                 SectorRegion (field e ''frame'') (field e ''origin_xyz_m'') (field e ''azimuth_center_deg'')
                   (field e ''azimuth_span_deg'') (field e ''distance_range_m''))
          else if shape = PStr ''POLYGON''
          then rbind (exact_mapping v ''PolygonRegion'' [''shape'', ''frame'', ''vertices_xyz_m''] []) (\<lambda>e.
                 PolygonRegion (field e ''frame'') (field e ''vertices_xyz_m''))
          else if shape = PStr ''CORRIDOR''
          then rbind (exact_mapping v ''CorridorRegion''
                   [''shape'', ''frame'', ''centerline_xyz_m'', ''half_width_m''] []) (\<lambda>e.
                 CorridorRegion (field e ''frame'') (field e ''centerline_xyz_m'') (field e ''half_width_m''))
          else if shape = PStr ''RELATIONAL''
          then rbind (exact_mapping v ''RelationalRegion''
                   [''shape'', ''relation'', ''reference_id'', ''distance_m'', ''extent_m'']
                   [''frame'']) (\<lambda>e.
                 RelationalRegion (field e ''relation'') (field e ''reference_id'') (field e ''distance_m'')
                   (field e ''extent_m'') (opt_field e ''frame'' PNone))
          else Inl (SpatialContractError ''RegionSpec.shape is unsupported'')
      | _ \<Rightarrow> Inl (TypeError ''RegionSpec must be an object''))"

section \<open>Assumptions\<close>

record spatial_assumption =
  sa_source :: string
  sa_interpretation :: string
  sa_confidence :: rat

definition SpatialAssumption :: "pyval \<Rightarrow> pyval \<Rightarrow> pyval \<Rightarrow> spatial_assumption result" where
  "SpatialAssumption source interpretation confidence =
     rbind (spatial_text ''source_text'' 256 source) (\<lambda>source.
     rbind (spatial_text ''interpretation'' 512 interpretation) (\<lambda>interp.
     rbind (spatial_finite ''confidence'' confidence) (\<lambda>confidence.
       if \<not> (0 \<le> confidence \<and> confidence \<le> 1)
       then Inl (SpatialContractError ''confidence must be between 0 and 1'')
       else Inr \<lparr>sa_source = source, sa_interpretation = interp, sa_confidence = confidence\<rparr>)))"

definition assumption_from_dict :: "pyval \<Rightarrow> spatial_assumption result" where
  "assumption_from_dict v =
     rbind (exact_mapping v ''SpatialAssumption'' [''source_text'', ''interpretation'', ''confidence''] [])
       (\<lambda>e. SpatialAssumption (field e ''source_text'') (field e ''interpretation'') (field e ''confidence''))"

definition assumption_to_dict :: "spatial_assumption \<Rightarrow> (string \<times> pyval) list" where
  "assumption_to_dict a = [(''source_text'', PStr (sa_source a)),
     (''interpretation'', PStr (sa_interpretation a)), (''confidence'', pfloat (sa_confidence a))]"

section \<open>Facts\<close>

text \<open>A mapping with string keys as a value.\<close>

abbreviation pdict :: "(string \<times> pyval) list \<Rightarrow> pyval" where
  "pdict e \<equiv> PDict (map (\<lambda>(k, v). (PStr k, v)) e)"

lemma frame_arg_value [simp]: "frame_arg (PStr (frame_value f)) = Inr f"
  by (cases f) (simp_all add: frame_arg_def spatial_enum_def frames_def)

lemma relation_arg_value [simp]: "relation_arg (PStr (relation_value r)) = Inr r"
  by (cases r) (simp_all add: relation_arg_def spatial_enum_def relations_def)

lemma spatial_text_again: "spatial_text name n v = Inr s \<Longrightarrow> spatial_text name n (PStr s) = Inr s"
  by (auto simp: spatial_text_def Let_def split: pyval.splits if_splits)

lemma spatial_finite_pfloat [simp]: "spatial_finite name (pfloat x) = Inr x"
  by (simp add: spatial_finite_def)

lemma spatial_positive_again:
  "spatial_positive name v = Inr x \<Longrightarrow> spatial_positive name (pfloat x) = Inr x"
  by (auto simp: spatial_positive_def rbind_eq_Inr split: if_splits)

lemma rmap_enumerate_map:
  "(\<And>i x. x \<in> set xs \<Longrightarrow> f (i, g x) = Inr x) \<Longrightarrow> rmap f (enumerate n (map g xs)) = Inr xs"
  by (induction xs arbitrary: n) simp_all

lemma rmap_Inr_length: "rmap f xs = Inr ys \<Longrightarrow> length ys = length xs"
  by (auto simp: rmap_eq_Inr dest: list_all2_lengthD)

lemma spatial_vector_length: "spatial_vector n name v = Inr p \<Longrightarrow> length p = n"
  by (auto simp: spatial_vector_def rbind_eq_Inr split: if_splits pyval.splits dest: rmap_Inr_length)

lemma spatial_vector_list: "length p = n \<Longrightarrow> spatial_vector n name (point_list p) = Inr p"
  by (auto simp: spatial_vector_def point_list_def intro: rmap_enumerate_map)

lemma spatial_vectors_again:
  assumes "spatial_vectors m n name v = Inr ps"
  shows "spatial_vectors m n name (PList (map point_list ps)) = Inr ps"
proof -
  obtain xs where xs: "m \<le> length xs" "length xs \<le> n"
    and r: "rmap (\<lambda>(i, x). spatial_vector 3 (item_name name i) x) (enumerate 0 xs) = Inr ps"
    using assms by (auto simp: spatial_vectors_def rbind_eq_Inr split: if_splits)
  have "length p = 3" if "p \<in> set ps" for p
    using r that unfolding rmap_eq_Inr list_all2_conv_all_nth
    by (auto simp: in_set_conv_nth nth_enumerate_eq dest: spatial_vector_length)
  then have "rmap (\<lambda>(i, x). spatial_vector 3 (item_name name i) x) (enumerate 0 (map point_list ps)) = Inr ps"
    by (intro rmap_enumerate_map) (simp add: spatial_vector_list)
  then show ?thesis using xs rmap_Inr_length [OF r] by (simp add: spatial_vectors_def)
qed

lemma exact_mapping_string:
  assumes "set (dkeys e) \<subseteq> set required \<union> set opt" and "set required \<subseteq> set (dkeys e)"
  shows "exact_mapping (pdict e) name required opt = Inr e"
proof -
  have "filter (\<lambda>k. k \<notin> set required \<and> k \<notin> set opt) (dkeys e) = []"
    "filter (\<lambda>k. k \<notin> set (dkeys e)) required = []"
    using assms by (auto simp: filter_empty_conv)
  then show ?thesis
    by (simp only: exact_mapping_def pyval.case string_keys_PStr option.case Let_def if_False simp_thms)
qed

lemma kind_of_string: "kind_of k (map (\<lambda>(k, v). (PStr k, v)) ((k, v) # e)) = v"
  by (simp add: kind_of_def)

text \<open>Each constructor accepts the serialized form of what it has built.\<close>

lemma opt_frame_again: "opt_check frame_arg v = Inr f \<Longrightarrow> opt_check frame_arg (opt_pyval (\<lambda>f. PStr (frame_value f)) f) = Inr f"
  by (cases f) (simp_all add: opt_check_def)

lemma opt_check_point: "opt_check f (point_list z) = rbind (f (point_list z)) (\<lambda>x. Inr (Some x))"
  by (simp add: opt_check_def point_list_def)

lemma named_again:
  assumes "NamedLocationTarget v = Inr t"
  shows "spatial_target_from_dict (pdict (target_to_dict t)) = Inr t"
proof -
  obtain n where t: "t = T_NAMED_LOCATION n" and n: "spatial_text ''name'' 128 v = Inr n"
    using assms by (auto simp: NamedLocationTarget_def rbind_eq_Inr)
  have "exact_mapping (pdict (target_to_dict t)) ''NamedLocationTarget'' [''kind'', ''name''] []
      = Inr (target_to_dict t)" by (rule exact_mapping_string) (simp_all add: t)
  then show ?thesis
    using spatial_text_again [OF n]
    by (simp add: t spatial_target_from_dict_def kind_of_def NamedLocationTarget_def)
qed

lemma point_again:
  assumes "PointTarget a b = Inr t"
  shows "spatial_target_from_dict (pdict (target_to_dict t)) = Inr t"
proof -
  obtain f p where t: "t = T_POINT f p" and p: "length p = 3"
    using assms by (auto simp: PointTarget_def rbind_eq_Inr dest: spatial_vector_length)
  have "exact_mapping (pdict (target_to_dict t)) ''PointTarget'' [''kind'', ''frame'', ''xyz_m''] []
      = Inr (target_to_dict t)" by (rule exact_mapping_string) (auto simp: t)
  then show ?thesis
    using p by (simp add: t spatial_target_from_dict_def kind_of_def PointTarget_def spatial_vector_list)
qed

lemma relational_point_again:
  assumes "RelationalPointTarget a b c d = Inr t"
  shows "spatial_target_from_dict (pdict (target_to_dict t)) = Inr t"
proof -
  obtain r s x f where t: "t = T_RELATIONAL_POINT r s x f"
    and s: "spatial_text ''reference_id'' 128 b = Inr s" and x: "spatial_positive ''distance_m'' c = Inr x"
    and f: "opt_check frame_arg d = Inr f"
    using assms by (auto simp: RelationalPointTarget_def rbind_eq_Inr)
  have "exact_mapping (pdict (target_to_dict t)) ''RelationalPointTarget''
      [''kind'', ''relation'', ''reference_id'', ''distance_m''] [''frame''] = Inr (target_to_dict t)"
    by (rule exact_mapping_string) (auto simp: t split: option.split)
  then show ?thesis
    using spatial_text_again [OF s] spatial_positive_again [OF x] opt_frame_again [OF f]
    by (cases f) (simp_all add: t spatial_target_from_dict_def kind_of_def RelationalPointTarget_def opt_field_def)
qed

lemma route_again:
  assumes "RouteTarget a b = Inr t"
  shows "spatial_target_from_dict (pdict (target_to_dict t)) = Inr t"
proof -
  obtain f ps where t: "t = T_ROUTE f ps" and ps: "spatial_vectors 2 64 ''waypoints_xyz_m'' b = Inr ps"
    using assms by (auto simp: RouteTarget_def rbind_eq_Inr)
  have "exact_mapping (pdict (target_to_dict t)) ''RouteTarget'' [''kind'', ''frame'', ''waypoints_xyz_m''] []
      = Inr (target_to_dict t)" by (rule exact_mapping_string) (auto simp: t)
  then show ?thesis
    using spatial_vectors_again [OF ps]
    by (simp add: t spatial_target_from_dict_def kind_of_def RouteTarget_def)
qed

lemma target_again:
  assumes "spatial_target_from_dict v = Inr t"
  shows "spatial_target_from_dict (pdict (target_to_dict t)) = Inr t"
proof -
  have "(\<exists>a. NamedLocationTarget a = Inr t) \<or> (\<exists>a b. PointTarget a b = Inr t)
      \<or> (\<exists>a b c d. RelationalPointTarget a b c d = Inr t) \<or> (\<exists>a b. RouteTarget a b = Inr t)"
    using assms unfolding spatial_target_from_dict_def Let_def
    by (auto simp: rbind_eq_Inr split: pyval.splits if_splits)
  then show ?thesis
    using named_again point_again relational_point_again route_again by blast
qed

lemma circle_again:
  assumes "CircleRegion a b c = Inr r"
  shows "region_spec_from_dict (pdict (region_to_dict r)) = Inr r"
proof -
  obtain f p x where r: "r = R_CIRCLE f p x" and p: "length p = 3"
    and x: "spatial_positive ''radius_m'' c = Inr x"
    using assms by (auto simp: CircleRegion_def rbind_eq_Inr dest: spatial_vector_length)
  have "exact_mapping (pdict (region_to_dict r)) ''CircleRegion''
      [''shape'', ''frame'', ''center_xyz_m'', ''radius_m''] [] = Inr (region_to_dict r)"
    by (rule exact_mapping_string) (auto simp: r)
  then show ?thesis
    using p spatial_positive_again [OF x]
    by (simp add: r region_spec_from_dict_def kind_of_def CircleRegion_def spatial_vector_list)
qed

lemma rectangle_again:
  assumes "RectangleRegion a b c d e g = Inr r"
  shows "region_spec_from_dict (pdict (region_to_dict r)) = Inr r"
proof -
  obtain f p w h y q where r: "r = R_RECTANGLE f p w h y q" and p: "length p = 3"
    and w: "spatial_positive ''width_m'' c = Inr w" and h: "spatial_positive ''height_m'' d = Inr h"
    and q: "opt_check (spatial_vector 3 ''entry_point_xyz_m'') g = Inr q"
    using assms by (auto simp: RectangleRegion_def rbind_eq_Inr dest: spatial_vector_length)
  have "exact_mapping (pdict (region_to_dict r)) ''RectangleRegion''
      [''shape'', ''frame'', ''center_xyz_m'', ''width_m'', ''height_m'']
      [''yaw_deg'', ''entry_point_xyz_m''] = Inr (region_to_dict r)"
    by (rule exact_mapping_string) (auto simp: r split: option.split)
  moreover have "spatial_vector 3 ''entry_point_xyz_m'' (point_list z) = Inr z" if "q = Some z" for z
    using spatial_vector_list [of z 3] spatial_vector_length opt_check_Some [of _ g z] q that by blast
  ultimately show ?thesis
    using p spatial_positive_again [OF w] spatial_positive_again [OF h]
    by (cases q) (simp_all add: r region_spec_from_dict_def kind_of_def RectangleRegion_def
        spatial_vector_list opt_field_def opt_check_point)
qed

lemma sector_again:
  assumes "SectorRegion a b c d e = Inr r"
  shows "region_spec_from_dict (pdict (region_to_dict r)) = Inr r"
proof -
  obtain f p x y q where r: "r = R_SECTOR f p x y q"
    and v: "spatial_vector 3 ''origin_xyz_m'' b = Inr p" "spatial_vector 2 ''distance_range_m'' e = Inr q"
    and y: "spatial_positive ''azimuth_span_deg'' d = Inr y" "y \<le> 360" "0 \<le> q ! 0" "q ! 0 < q ! 1"
    using assms
    by (auto simp: SectorRegion_def rbind_eq_Inr not_less not_le split: if_splits)
  note p = spatial_vector_length [OF v(1)] spatial_vector_length [OF v(2)]
  have "exact_mapping (pdict (region_to_dict r)) ''SectorRegion''
      [''shape'', ''frame'', ''origin_xyz_m'', ''azimuth_center_deg'', ''azimuth_span_deg'',
       ''distance_range_m''] [] = Inr (region_to_dict r)"
    by (rule exact_mapping_string) (auto simp: r)
  then show ?thesis
    using p y spatial_positive_again [OF y(1)]
    by (simp add: r region_spec_from_dict_def kind_of_def SectorRegion_def spatial_vector_list)
qed

lemma polygon_again:
  assumes "PolygonRegion a b = Inr r"
  shows "region_spec_from_dict (pdict (region_to_dict r)) = Inr r"
proof -
  obtain f ps where r: "r = R_POLYGON f ps" and ps: "spatial_vectors 3 64 ''vertices_xyz_m'' b = Inr ps"
    and area: "\<not> \<bar>area_twice ps\<bar> \<le> 1 / 1000000000"
    using assms by (auto simp: PolygonRegion_def rbind_eq_Inr split: if_splits)
  have "exact_mapping (pdict (region_to_dict r)) ''PolygonRegion'' [''shape'', ''frame'', ''vertices_xyz_m''] []
      = Inr (region_to_dict r)" by (rule exact_mapping_string) (auto simp: r)
  then show ?thesis
    using spatial_vectors_again [OF ps] area
    by (simp add: r region_spec_from_dict_def kind_of_def PolygonRegion_def)
qed

lemma corridor_again:
  assumes "CorridorRegion a b c = Inr r"
  shows "region_spec_from_dict (pdict (region_to_dict r)) = Inr r"
proof -
  obtain f ps x where r: "r = R_CORRIDOR f ps x" and ps: "spatial_vectors 2 64 ''centerline_xyz_m'' b = Inr ps"
    and seg: "\<not> list_all (\<lambda>(p, q). p = q) (zip ps (tl ps))"
    and x: "spatial_positive ''half_width_m'' c = Inr x"
    using assms by (auto simp: CorridorRegion_def rbind_eq_Inr split: if_splits)
  have "exact_mapping (pdict (region_to_dict r)) ''CorridorRegion''
      [''shape'', ''frame'', ''centerline_xyz_m'', ''half_width_m''] [] = Inr (region_to_dict r)"
    by (rule exact_mapping_string) (auto simp: r)
  then show ?thesis
    using spatial_vectors_again [OF ps] seg spatial_positive_again [OF x]
    by (simp add: r region_spec_from_dict_def kind_of_def CorridorRegion_def)
qed

lemma relational_region_again:
  assumes "RelationalRegion a b c d e = Inr r"
  shows "region_spec_from_dict (pdict (region_to_dict r)) = Inr r"
proof -
  obtain l s x p f where r: "r = R_RELATIONAL l s x p f"
    and s: "spatial_text ''reference_id'' 128 b = Inr s" and x: "spatial_positive ''distance_m'' c = Inr x"
    and p: "length p = 2" "0 < p ! 0" "0 < p ! 1" and f: "opt_check frame_arg e = Inr f"
    using assms by (auto simp: RelationalRegion_def rbind_eq_Inr not_le dest: spatial_vector_length split: if_splits)
  have "exact_mapping (pdict (region_to_dict r)) ''RelationalRegion''
      [''shape'', ''relation'', ''reference_id'', ''distance_m'', ''extent_m''] [''frame'']
      = Inr (region_to_dict r)"
    by (rule exact_mapping_string) (auto simp: r split: option.split)
  then show ?thesis
    using p spatial_text_again [OF s] spatial_positive_again [OF x] opt_frame_again [OF f]
    by (cases f) (simp_all add: r region_spec_from_dict_def kind_of_def RelationalRegion_def
        spatial_vector_list opt_field_def)
qed

lemma region_again:
  assumes "region_spec_from_dict v = Inr r"
  shows "region_spec_from_dict (pdict (region_to_dict r)) = Inr r"
proof -
  have "(\<exists>a b c. CircleRegion a b c = Inr r) \<or> (\<exists>a b c d e f. RectangleRegion a b c d e f = Inr r)
      \<or> (\<exists>a b c d e. SectorRegion a b c d e = Inr r) \<or> (\<exists>a b. PolygonRegion a b = Inr r)
      \<or> (\<exists>a b c. CorridorRegion a b c = Inr r) \<or> (\<exists>a b c d e. RelationalRegion a b c d e = Inr r)"
    using assms unfolding region_spec_from_dict_def Let_def
    by (auto simp: rbind_eq_Inr split: pyval.splits if_splits)
  then show ?thesis
    by (elim disjE exE) (erule circle_again rectangle_again sector_again polygon_again corridor_again
        relational_region_again)+
qed

section \<open>Properties\<close>

text \<open>
  The spatial parsers are canonical: serializing a parsed target or region and parsing it again
  gives the same value, with every default filled in and every number and text normalized once.
\<close>

theorem spatial_round_trip:
  assumes "spatial_target_from_dict v = Inr t" and "region_spec_from_dict w = Inr r"
  shows "spatial_target_from_dict (pdict (target_to_dict t)) = Inr t
    \<and> region_spec_from_dict (pdict (region_to_dict r)) = Inr r"
  using target_again [OF assms(1)] region_again [OF assms(2)] by blast

theorem spatial_round_trip_witness:
  "spatial_target_from_dict (pdict (target_to_dict (T_NAMED_LOCATION ''gate''))) = Inr (T_NAMED_LOCATION ''gate'')
   \<and> region_spec_from_dict (pdict (region_to_dict (R_RECTANGLE CF_HOME_ENU [0, 1, 2] 4 3 0 None)))
       = Inr (R_RECTANGLE CF_HOME_ENU [0, 1, 2] 4 3 0 None)"
proof (rule spatial_round_trip)
  show "spatial_target_from_dict (PDict [(PStr ''kind'', PStr ''NAMED_LOCATION''), (PStr ''name'', PStr '' gate'')])
      = Inr (T_NAMED_LOCATION ''gate'')" by code_simp
  show "region_spec_from_dict (PDict [(PStr ''shape'', PStr ''RECTANGLE''), (PStr ''frame'', PStr ''HOME_ENU''),
      (PStr ''center_xyz_m'', PTuple [pfloat 0, pfloat 1, pfloat 2]), (PStr ''width_m'', pfloat 4),
      (PStr ''height_m'', pfloat 3)]) = Inr (R_RECTANGLE CF_HOME_ENU [0, 1, 2] 4 3 0 None)" by code_simp
qed

end
