(* ===== verification/Route_Registry.thy ===== *)
theory Route_Registry
  imports Mission_Events Spatial_Contract
begin

text \<open>
  \<open>planner/route_types.py\<close>, the value types of \<open>planner/route_critic.py\<close> and
  \<open>runtime/route_registry.py\<close>: route drafts, critiques, and the registry that keeps every proposal.

  \<open>math.dist\<close> compared with a bound is the squared distance compared with its square, exactly.  The
  owner thread and the thread that calls an operation are numbers.  \<open>FramePose\<close> and \<open>RouteCritique\<close>
  arguments, which the source takes as objects of those classes, are the records.
\<close>

section \<open>Routes\<close>

datatype route_state =
    RS_PROPOSED | RS_REJECTED | RS_ACCEPTED | RS_EXECUTING | RS_COMPLETED | RS_COLLIDED

fun route_state_value :: "route_state \<Rightarrow> string" where
  "route_state_value RS_PROPOSED = ''PROPOSED''"
| "route_state_value RS_REJECTED = ''REJECTED''"
| "route_state_value RS_ACCEPTED = ''ACCEPTED''"
| "route_state_value RS_EXECUTING = ''EXECUTING''"
| "route_state_value RS_COMPLETED = ''COMPLETED''"
| "route_state_value RS_COLLIDED = ''COLLIDED''"

definition RouteState :: "pyval \<Rightarrow> route_state result" where
  "RouteState = enum_of ''RouteState'' route_state_value
     [RS_PROPOSED, RS_REJECTED, RS_ACCEPTED, RS_EXECUTING, RS_COMPLETED, RS_COLLIDED]"

definition route_finite :: "string \<Rightarrow> pyval \<Rightarrow> rat result" where
  "route_finite name =
     real_value (TypeError (name @ '' must be a finite number''))
       (RouteContractError (name @ '' must be finite'')) (\<lambda>x. True)"

definition route_positive :: "string \<Rightarrow> pyval \<Rightarrow> rat result" where
  "route_positive name v =
     rbind (route_finite name v) (\<lambda>x.
       if x \<le> 0 then Inl (RouteContractError (name @ '' must be greater than zero'')) else Inr x)"

definition vector3 :: "string \<Rightarrow> pyval \<Rightarrow> rat list result" where
  "vector3 name v =
     rbind (case v of PList xs \<Rightarrow> Inr xs | PTuple xs \<Rightarrow> Inr xs
            | _ \<Rightarrow> Inl (RouteContractError (name @ '' must contain exactly three numbers''))) (\<lambda>xs.
     if length xs \<noteq> 3
     then Inl (RouteContractError (name @ '' must contain exactly three numbers''))
     else rmap (\<lambda>(i, x). route_finite (item_name name i) x) (enumerate 0 xs))"

text \<open>\<open>_strict\<close>: string keys are assumed by the sorting of the reported names only.\<close>

definition route_strict :: "pyval \<Rightarrow> string list \<Rightarrow> string \<Rightarrow> (string \<times> pyval) list result" where
  "route_strict v required name =
     (case v of
        PDict d \<Rightarrow>
          let missing = filter (\<lambda>k. PStr k \<notin> set (dkeys d)) required in
          if missing \<noteq> []
          then Inl (RouteContractError (name @ '' is missing fields: '' @ py_join '', '' (sort missing)))
          else (case string_keys d of
            None \<Rightarrow> Inl (TypeError ''field names cannot be sorted and joined'')
          | Some e \<Rightarrow>
              let unknown = filter (\<lambda>k. k \<notin> set required) (dkeys e)
              in if unknown \<noteq> []
                 then Inl (RouteContractError
                   (name @ '' has unknown fields: '' @ py_join '', '' (sort unknown)))
                 else Inr e)
      | _ \<Rightarrow> Inl (TypeError (name @ '' must be an object'')))"

record route_waypoint =
  wp_id :: string
  wp_xyz :: "rat list"

definition RouteWaypoint :: "pyval \<Rightarrow> pyval \<Rightarrow> route_waypoint result" where
  "RouteWaypoint waypoint_id xyz =
     rbind (validate_routing_id waypoint_id ''waypoint_id'') (\<lambda>waypoint_id.
     rbind (vector3 ''xyz_m'' xyz) (\<lambda>xyz. Inr \<lparr>wp_id = waypoint_id, wp_xyz = xyz\<rparr>))"

definition waypoint_from_dict :: "pyval \<Rightarrow> route_waypoint result" where
  "waypoint_from_dict v =
     rbind (route_strict v [''waypoint_id'', ''xyz_m''] ''RouteWaypoint'') (\<lambda>e.
       RouteWaypoint (field e ''waypoint_id'') (field e ''xyz_m''))"

definition waypoint_to_dict :: "route_waypoint \<Rightarrow> (string \<times> pyval) list" where
  "waypoint_to_dict w = [(''waypoint_id'', PStr (wp_id w)), (''xyz_m'', point_list (wp_xyz w))]"

record route_draft =
  rd_id :: string
  rd_frame :: coordinate_frame
  rd_waypoints :: "route_waypoint list"

definition dist_squared :: "rat list \<Rightarrow> rat list \<Rightarrow> rat" where
  "dist_squared p q = (\<Sum>(x, y)\<leftarrow>zip p q. (x - y) * (x - y))"

definition CoordinateFrame :: "pyval \<Rightarrow> coordinate_frame result" where
  "CoordinateFrame = enum_of ''CoordinateFrame'' frame_value frames"

definition RouteDraft :: "pyval \<Rightarrow> pyval \<Rightarrow> route_waypoint list \<Rightarrow> route_draft result" where
  "RouteDraft route_id frame waypoints =
     rbind (validate_routing_id route_id ''route_id'') (\<lambda>route_id.
     rbind (case CoordinateFrame frame of
              Inr f \<Rightarrow> Inr f
            | Inl e \<Rightarrow> Inl (RouteContractError ''frame must be a supported CoordinateFrame'')) (\<lambda>frame.
     if \<not> (2 \<le> length waypoints \<and> length waypoints \<le> 16)
     then Inl (RouteContractError ''waypoints must contain 2..16 RouteWaypoint values'')
     else if \<not> distinct (map wp_id waypoints)
     then Inl (RouteContractError ''waypoint IDs must be unique'')
     else if list_ex (\<lambda>(l, r). dist_squared (wp_xyz l) (wp_xyz r) \<le> (1 / 1000000000) ^ 2)
            (zip waypoints (tl waypoints))
     then Inl (RouteContractError ''adjacent route waypoints must be distinct'')
     else Inr \<lparr>rd_id = route_id, rd_frame = frame, rd_waypoints = waypoints\<rparr>))"

definition route_from_dict :: "pyval \<Rightarrow> route_draft result" where
  "route_from_dict v =
     rbind (route_strict v [''route_id'', ''frame'', ''waypoints''] ''RouteDraft'') (\<lambda>e.
     rbind (case field e ''waypoints'' of PList xs \<Rightarrow> Inr xs | PTuple xs \<Rightarrow> Inr xs
            | _ \<Rightarrow> Inl (TypeError ''RouteDraft.waypoints must be an array'')) (\<lambda>raw.
     rbind (rmap waypoint_from_dict raw) (\<lambda>waypoints.
       RouteDraft (field e ''route_id'') (field e ''frame'') waypoints)))"

definition route_to_dict :: "route_draft \<Rightarrow> (string \<times> pyval) list" where
  "route_to_dict r = [(''route_id'', PStr (rd_id r)), (''frame'', PStr (frame_value (rd_frame r))),
     (''waypoints'', PList (map (\<lambda>w. pdict (waypoint_to_dict w)) (rd_waypoints r)))]"

record route_constraints =
  rc_max_waypoints :: int
  rc_max_detour :: rat
  rc_min_clearance :: rat
  rc_max_segment :: rat
  rc_rejoin_tolerance :: rat
  rc_must_rejoin :: bool

definition RouteConstraints ::
  "pyval \<Rightarrow> pyval \<Rightarrow> pyval \<Rightarrow> pyval \<Rightarrow> pyval \<Rightarrow> pyval \<Rightarrow> route_constraints result" where
  "RouteConstraints max_waypoints detour clearance segment tolerance rejoin =
     rbind (int_value (RouteContractError ''max_waypoints must be an integer within [2, 16]'')
              (RouteContractError ''max_waypoints must be an integer within [2, 16]'')
              (\<lambda>i. 2 \<le> i \<and> i \<le> 16) max_waypoints) (\<lambda>max_waypoints.
     rbind (route_positive ''max_detour_distance_m'' detour) (\<lambda>detour.
     rbind (route_positive ''minimum_clearance_m'' clearance) (\<lambda>clearance.
     rbind (route_positive ''max_segment_length_m'' segment) (\<lambda>segment.
     rbind (route_positive ''rejoin_tolerance_m'' tolerance) (\<lambda>tolerance.
     rbind (bool_value (TypeError ''must_rejoin_original_goal must be bool'') rejoin) (\<lambda>rejoin.
       Inr \<lparr>rc_max_waypoints = max_waypoints, rc_max_detour = detour, rc_min_clearance = clearance,
         rc_max_segment = segment, rc_rejoin_tolerance = tolerance, rc_must_rejoin = rejoin\<rparr>))))))"

datatype avoidance_type =
    AV_BYPASS_LEFT | AV_BYPASS_RIGHT | AV_BYPASS_ABOVE | AV_BACKTRACK | AV_HOLD_POSITION

fun avoidance_value :: "avoidance_type \<Rightarrow> string" where
  "avoidance_value AV_BYPASS_LEFT = ''BYPASS_LEFT''"
| "avoidance_value AV_BYPASS_RIGHT = ''BYPASS_RIGHT''"
| "avoidance_value AV_BYPASS_ABOVE = ''BYPASS_ABOVE''"
| "avoidance_value AV_BACKTRACK = ''BACKTRACK''"
| "avoidance_value AV_HOLD_POSITION = ''HOLD_POSITION''"

record avoidance_strategy =
  av_strategy :: avoidance_type
  av_target :: string
  av_reasons :: "string list"

definition avoidance_reason :: "pyval \<Rightarrow> string result" where
  "avoidance_reason v = (case v of
     PStr s \<Rightarrow> if s = [] \<or> 64 < length s
              then Inl (RouteContractError ''reason_codes must be bounded non-empty strings'') else Inr s
   | _ \<Rightarrow> Inl (RouteContractError ''reason_codes must be bounded non-empty strings''))"

definition AvoidanceStrategy :: "pyval \<Rightarrow> pyval \<Rightarrow> pyval \<Rightarrow> avoidance_strategy result" where
  "AvoidanceStrategy strategy target reasons =
     rbind (case enum_of ''AvoidanceStrategyType'' avoidance_value
                [AV_BYPASS_LEFT, AV_BYPASS_RIGHT, AV_BYPASS_ABOVE, AV_BACKTRACK, AV_HOLD_POSITION] strategy of
              Inr s \<Rightarrow> Inr s | Inl e \<Rightarrow> Inl (RouteContractError ''strategy is not supported'')) (\<lambda>strategy.
     rbind (validate_routing_id target ''rejoin_target'') (\<lambda>target.
     rbind (py_iter reasons) (\<lambda>reasons.
     if reasons = [] \<or> 16 < length reasons
     then Inl (RouteContractError ''reason_codes must contain 1..16 values'')
     else rbind (rmap avoidance_reason reasons) (\<lambda>reasons.
       if \<not> distinct reasons then Inl (RouteContractError ''reason_codes must be unique'')
       else Inr \<lparr>av_strategy = strategy, av_target = target, av_reasons = reasons\<rparr>))))"

section \<open>Critiques\<close>

datatype critic_status = CS_ACCEPT | CS_REVISE

fun critic_status_value :: "critic_status \<Rightarrow> string" where
  "critic_status_value CS_ACCEPT = ''ACCEPT''"
| "critic_status_value CS_REVISE = ''REVISE''"

datatype violation_type =
    VT_PATH_INTERSECTS_OBSTACLE | VT_INSUFFICIENT_CLEARANCE | VT_OUTSIDE_SCENE
  | VT_ALTITUDE_OUT_OF_BOUNDS | VT_SEGMENT_TOO_LONG | VT_ROUTE_TOO_LONG | VT_DOES_NOT_REJOIN_GOAL
  | VT_UNRESOLVED_FRAME | VT_TOO_MANY_WAYPOINTS

fun violation_value :: "violation_type \<Rightarrow> string" where
  "violation_value VT_PATH_INTERSECTS_OBSTACLE = ''PATH_INTERSECTS_OBSTACLE''"
| "violation_value VT_INSUFFICIENT_CLEARANCE = ''INSUFFICIENT_CLEARANCE''"
| "violation_value VT_OUTSIDE_SCENE = ''OUTSIDE_SCENE''"
| "violation_value VT_ALTITUDE_OUT_OF_BOUNDS = ''ALTITUDE_OUT_OF_BOUNDS''"
| "violation_value VT_SEGMENT_TOO_LONG = ''SEGMENT_TOO_LONG''"
| "violation_value VT_ROUTE_TOO_LONG = ''ROUTE_TOO_LONG''"
| "violation_value VT_DOES_NOT_REJOIN_GOAL = ''DOES_NOT_REJOIN_GOAL''"
| "violation_value VT_UNRESOLVED_FRAME = ''UNRESOLVED_FRAME''"
| "violation_value VT_TOO_MANY_WAYPOINTS = ''TOO_MANY_WAYPOINTS''"

record route_violation =
  rv_type :: violation_type
  rv_segment :: "int option"
  rv_obstacle :: "string option"
  rv_required :: "rat option"
  rv_actual :: "rat option"
  rv_waypoint :: "string option"

definition opt_entry :: "string \<Rightarrow> ('a \<Rightarrow> pyval) \<Rightarrow> 'a option \<Rightarrow> (string \<times> pyval) list" where
  "opt_entry k f x = (case x of None \<Rightarrow> [] | Some y \<Rightarrow> [(k, f y)])"

definition violation_to_dict :: "route_violation \<Rightarrow> (string \<times> pyval) list" where
  "violation_to_dict v =
     [(''type'', PStr (violation_value (rv_type v)))]
     @ opt_entry ''segment_index'' PInt (rv_segment v)
     @ opt_entry ''obstacle_id'' PStr (rv_obstacle v)
     @ opt_entry ''required_m'' pfloat (rv_required v)
     @ opt_entry ''actual_m'' pfloat (rv_actual v)
     @ opt_entry ''waypoint_id'' PStr (rv_waypoint v)"

record route_critique =
  cr_status :: critic_status
  cr_route :: string
  cr_violations :: "route_violation list"
  cr_clearance :: "rat option"
  cr_length :: "rat option"

definition critique_to_dict :: "route_critique \<Rightarrow> pyval" where
  "critique_to_dict c = pdict
     [(''status'', PStr (critic_status_value (cr_status c))), (''route_id'', PStr (cr_route c)),
      (''violations'', PList (map (\<lambda>v. pdict (violation_to_dict v)) (cr_violations c))),
      (''minimum_clearance_m'', opt_pyval pfloat (cr_clearance c)),
      (''route_length_m'', opt_pyval pfloat (cr_length c))]"

section \<open>Records\<close>

record frame_pose =
  fp_xyz :: "rat list"
  fp_yaw :: rat

record route_record =
  rr_id :: string
  rr_frame :: frame_pose
  rr_raw :: "(pyval \<times> pyval) list"
  rr_route :: route_draft
  rr_version :: int
  rr_time :: rat
  rr_critique :: "route_critique option"
  rr_state :: route_state

definition RouteRecord ::
  "(rat \<Rightarrow> string) \<Rightarrow> pyval \<Rightarrow> frame_pose \<Rightarrow> pyval \<Rightarrow> route_draft \<Rightarrow> pyval \<Rightarrow> pyval
     \<Rightarrow> route_critique option \<Rightarrow> pyval \<Rightarrow> route_record result" where
  "RouteRecord float_repr route_id frame raw route version timestamp critique state =
     rbind (validate_routing_id route_id ''route_id'') (\<lambda>route_id.
     if rd_id route \<noteq> route_id
     then Inl (RouteRegistryError ''route must match route_id'')
     else rbind (int_value (RouteRegistryError ''plan_version must be a positive integer'')
              (RouteRegistryError ''plan_version must be a positive integer'') (\<lambda>i. 0 < i) version)
            (\<lambda>version.
          rbind (real_value (RouteRegistryError ''proposal_timestamp_s must be finite and non-negative'')
              (RouteRegistryError ''proposal_timestamp_s must be finite and non-negative'')
              (\<lambda>x. 0 \<le> x) timestamp) (\<lambda>timestamp.
          rbind (validated_json_payload float_repr raw ''raw_proposal'') (\<lambda>raw.
          rbind (case RouteState state of
                   Inr s \<Rightarrow> Inr s | Inl e \<Rightarrow> Inl (RouteRegistryError ''state is not supported'')) (\<lambda>state.
            Inr \<lparr>rr_id = route_id, rr_frame = frame, rr_raw = raw, rr_route = route,
              rr_version = version, rr_time = timestamp, rr_critique = critique, rr_state = state\<rparr>)))))"

text \<open>
  \<open>to_dict\<close> deep-copies the raw proposal.  Its nested mappings are frozen dictionaries, whose copy
  is rebuilt item by item and raises at the first item; empty ones and tuples are copied.
\<close>

fun holds_mapping :: "pyval \<Rightarrow> bool" where
  "holds_mapping (PDict d) = (d \<noteq> [])"
| "holds_mapping (PTuple xs) = list_ex holds_mapping xs"
| "holds_mapping v = False"

definition route_record_to_dict :: "route_record \<Rightarrow> pyval result" where
  "route_record_to_dict r =
     (if list_ex (\<lambda>e. holds_mapping (snd e)) (rr_raw r)
      then Inl (TypeError ''event JSON payloads are immutable'')
      else Inr (pdict
        [(''route_id'', PStr (rr_id r)),
         (''frame_snapshot'', pdict [(''xyz_m'', point_list (fp_xyz (rr_frame r))),
                                     (''yaw_rad'', pfloat (fp_yaw (rr_frame r)))]),
         (''raw_proposal'', PDict (rr_raw r)),
         (''route'', pdict (route_to_dict (rr_route r))),
         (''plan_version'', PInt (rr_version r)),
         (''proposal_timestamp_s'', pfloat (rr_time r)),
         (''critique'', opt_pyval critique_to_dict (rr_critique r)),
         (''state'', PStr (route_state_value (rr_state r)))]))"

section \<open>The registry\<close>

fun route_allowed :: "route_state \<Rightarrow> route_state list" where
  "route_allowed RS_PROPOSED = [RS_REJECTED, RS_ACCEPTED]"
| "route_allowed RS_ACCEPTED = [RS_EXECUTING, RS_REJECTED]"
| "route_allowed RS_EXECUTING = [RS_COMPLETED, RS_COLLIDED]"
| "route_allowed RS_REJECTED = []"
| "route_allowed RS_COMPLETED = []"
| "route_allowed RS_COLLIDED = []"

record route_registry =
  rg_max :: nat
  rg_owner :: nat
  rg_records :: "(string \<times> route_record) list"
  rg_order :: "string list"

definition route_registry_init :: "nat \<Rightarrow> pyval \<Rightarrow> route_registry result" where
  "route_registry_init thread max_records =
     rbind (int_value (ValueError ''max_records must be an integer within [1, 1024]'')
              (ValueError ''max_records must be an integer within [1, 1024]'')
              (\<lambda>i. 1 \<le> i \<and> i \<le> 1024) max_records) (\<lambda>m.
       Inr \<lparr>rg_max = nat m, rg_owner = thread, rg_records = [], rg_order = []\<rparr>)"

definition require_owner :: "nat \<Rightarrow> route_registry \<Rightarrow> unit result" where
  "require_owner thread g =
     (if thread \<noteq> rg_owner g
      then Inl (RouteRegistryError ''RouteRegistry may only be mutated by its owner thread'')
      else Inr ())"

definition registry_get :: "route_registry \<Rightarrow> pyval \<Rightarrow> route_record result" where
  "registry_get g route_id =
     rbind (validate_routing_id route_id ''route_id'') (\<lambda>i.
       case dget (rg_records g) i of
         Some r \<Rightarrow> Inr r | None \<Rightarrow> Inl (KeyError (''unknown route_id: '' @ i)))"

definition store_record :: "route_record \<Rightarrow> route_registry \<Rightarrow> route_registry" where
  "store_record r g = g\<lparr>rg_records := dset (rg_records g) (rr_id r) r\<rparr>"

definition register_route ::
  "(rat \<Rightarrow> string) \<Rightarrow> nat \<Rightarrow> route_draft \<Rightarrow> frame_pose \<Rightarrow> pyval \<Rightarrow> pyval \<Rightarrow> pyval
     \<Rightarrow> route_registry \<Rightarrow> route_record result \<times> route_registry" where
  "register_route float_repr thread route frame raw version timestamp g =
     checked g (require_owner thread g) (\<lambda>_.
     if rd_id route \<in> set (dkeys (rg_records g))
     then (Inl (RouteRegistryError ''route_id is already registered''), g)
     else if rg_max g \<le> length (rg_records g)
     then (Inl (RouteRegistryError ''RouteRegistry record budget is exhausted''), g)
     else checked g (RouteRecord float_repr (PStr (rd_id route)) frame raw route version timestamp None
              (PStr (route_state_value RS_PROPOSED))) (\<lambda>r.
       (Inr r, store_record r (g\<lparr>rg_order := rg_order g @ [rr_id r]\<rparr>))))"

text \<open>\<open>dataclasses.replace\<close>: the constructor runs again on the record's fields and the new ones.\<close>

definition replace_route ::
  "(rat \<Rightarrow> string) \<Rightarrow> route_record \<Rightarrow> route_critique option \<Rightarrow> route_state \<Rightarrow> route_record result" where
  "replace_route float_repr r critique state =
     RouteRecord float_repr (PStr (rr_id r)) (rr_frame r) (PDict (rr_raw r)) (rr_route r)
       (PInt (rr_version r)) (pfloat (rr_time r)) critique (PStr (route_state_value state))"

definition record_critique ::
  "(rat \<Rightarrow> string) \<Rightarrow> nat \<Rightarrow> pyval \<Rightarrow> route_critique \<Rightarrow> route_registry
     \<Rightarrow> route_record result \<times> route_registry" where
  "record_critique float_repr thread route_id critique g =
     checked g (require_owner thread g) (\<lambda>_.
     checked g (registry_get g route_id) (\<lambda>r.
     if rr_state r \<noteq> RS_PROPOSED \<or> rr_critique r \<noteq> None
     then (Inl (RouteRegistryError ''critique can only be attached once to a proposed route''), g)
     else if cr_route critique \<noteq> rr_id r
     then (Inl (RouteRegistryError ''critique route_id does not match''), g)
     else checked g (replace_route float_repr r (Some critique)
              (if cr_status critique = CS_ACCEPT then RS_ACCEPTED else RS_REJECTED)) (\<lambda>u.
       (Inr u, g\<lparr>rg_records := dset (rg_records g) (rr_id r) u\<rparr>))))"

definition transition_route ::
  "(rat \<Rightarrow> string) \<Rightarrow> nat \<Rightarrow> pyval \<Rightarrow> pyval \<Rightarrow> route_registry \<Rightarrow> route_record result \<times> route_registry" where
  "transition_route float_repr thread route_id state g =
     checked g (require_owner thread g) (\<lambda>_.
     checked g (registry_get g route_id) (\<lambda>r.
     checked g (case RouteState state of
                  Inr s \<Rightarrow> Inr s | Inl e \<Rightarrow> Inl (RouteRegistryError ''route state is not supported'')) (\<lambda>s.
     if s \<notin> set (route_allowed (rr_state r))
     then (Inl (RouteRegistryError (''illegal route transition '' @ route_state_value (rr_state r)
             @ '' -> '' @ route_state_value s)), g)
     else checked g (replace_route float_repr r (rr_critique r) s) (\<lambda>u.
       (Inr u, g\<lparr>rg_records := dset (rg_records g) (rr_id r) u\<rparr>)))))"

definition route_registry_records :: "route_registry \<Rightarrow> route_record list" where
  "route_registry_records g = map (\<lambda>i. the (dget (rg_records g) i)) (rg_order g)"

section \<open>Facts\<close>

fun route_rank :: "route_state \<Rightarrow> nat" where
  "route_rank RS_PROPOSED = 3"
| "route_rank RS_ACCEPTED = 2"
| "route_rank RS_EXECUTING = 1"
| "route_rank _ = 0"

interpretation routes: ranked_table route_allowed "\<lambda>s. route_allowed s = []" route_rank
proof
  fix s t
  show "t \<in> set (route_allowed s) \<Longrightarrow> route_rank t < route_rank s" by (cases s) auto
qed

abbreviation route_path :: "route_state \<Rightarrow> route_state \<Rightarrow> bool" where
  "route_path \<equiv> (\<lambda>a b. b \<in> set (route_allowed a))\<^sup>*\<^sup>*"

lemma RouteState_value [simp]: "RouteState (PStr (route_state_value s)) = Inr s"
  by (cases s) (simp_all add: RouteState_def enum_of_def)

text \<open>What the constructor and the critic guarantee of a record.\<close>

definition route_record_ok :: "(rat \<Rightarrow> string) \<Rightarrow> route_record \<Rightarrow> bool" where
  "route_record_ok fr r \<longleftrightarrow> routing_id_match (rr_id r) \<and> rd_id (rr_route r) = rr_id r \<and> 0 < rr_version r
     \<and> 0 \<le> rr_time r \<and> payload_ok fr (rr_raw r)"

definition verdict_ok :: "route_record \<Rightarrow> bool" where
  "verdict_ok r \<longleftrightarrow> (case rr_critique r of
     None \<Rightarrow> True
   | Some c \<Rightarrow> cr_route c = rr_id r
       \<and> (if cr_status c = CS_ACCEPT then rr_state r \<noteq> RS_PROPOSED else rr_state r = RS_REJECTED))"

lemma RouteRecord_ok:
  assumes "RouteRecord fr iv f raw route vv tv c sv = Inr r"
  shows "route_record_ok fr r \<and> iv = PStr (rr_id r) \<and> rr_critique r = c \<and> sv = PStr (route_state_value (rr_state r))
    \<and> rr_route r = route"
proof -
  have sv: "RouteState v = Inr s \<Longrightarrow> v = PStr (route_state_value s)" for v s
    by (auto simp: RouteState_def dest: enum_of_Inr)
  obtain x where "real_value (RouteRegistryError ''proposal_timestamp_s must be finite and non-negative'')
      (RouteRegistryError ''proposal_timestamp_s must be finite and non-negative'') (\<lambda>x. 0 \<le> x) tv = Inr x"
    "x = rr_time r"
    using assms unfolding RouteRecord_def rbind_eq_Inr by (auto simp: rbind_eq_Inr split: if_splits sum.splits)
  then have "0 \<le> rr_time r" using real_value_Inr by fast
  then show ?thesis
    using assms unfolding RouteRecord_def rbind_eq_Inr
    by (auto simp: rbind_eq_Inr route_record_ok_def int_value_Inr split: if_splits sum.splits
        dest: validated_payload_ok sv)
qed

lemma replace_route_eq:
  assumes "route_record_ok fr r"
  shows "replace_route fr r c s = Inr (r\<lparr>rr_critique := c, rr_state := s\<rparr>)"
  using assms validated_payload_again(1) [of fr "rr_raw r" "''raw_proposal''"]
  by (cases r) (simp add: replace_route_def RouteRecord_def route_record_ok_def)

definition registry_ok :: "(rat \<Rightarrow> string) \<Rightarrow> route_registry \<Rightarrow> bool" where
  "registry_ok fr g \<longleftrightarrow> dict_ok (rg_records g) \<and> rg_order g = dkeys (rg_records g)
     \<and> length (rg_records g) \<le> rg_max g
     \<and> (\<forall>i r. dget (rg_records g) i = Some r \<longrightarrow> rr_id r = i \<and> route_record_ok fr r \<and> verdict_ok r)"

text \<open>One record after another state of the same route.\<close>

definition route_advanced :: "route_record \<Rightarrow> route_record \<Rightarrow> bool" where
  "route_advanced r u \<longleftrightarrow> rr_id u = rr_id r \<and> rr_frame u = rr_frame r \<and> rr_raw u = rr_raw r
     \<and> rr_route u = rr_route r \<and> rr_version u = rr_version r \<and> rr_time u = rr_time r
     \<and> route_path (rr_state r) (rr_state u)
     \<and> (rr_critique r \<noteq> None \<longrightarrow> rr_critique u = rr_critique r)"

definition registry_advanced :: "route_registry \<Rightarrow> route_registry \<Rightarrow> bool" where
  "registry_advanced g h \<longleftrightarrow> rg_max h = rg_max g \<and> rg_owner h = rg_owner g
     \<and> (\<exists>more. rg_order h = rg_order g @ more)
     \<and> (\<forall>i r. dget (rg_records g) i = Some r \<longrightarrow>
          (\<exists>u. dget (rg_records h) i = Some u \<and> route_advanced r u))"

lemma route_advanced_refl: "route_advanced r r"
  by (simp add: route_advanced_def)

lemma route_advanced_trans: "route_advanced r u \<Longrightarrow> route_advanced u w \<Longrightarrow> route_advanced r w"
  by (auto simp: route_advanced_def intro: rtranclp_trans)

lemma registry_advanced_refl: "registry_advanced g g"
  by (simp add: registry_advanced_def route_advanced_refl)

lemma registry_advanced_trans:
  assumes "registry_advanced g h" and "registry_advanced h k"
  shows "registry_advanced g k"
  unfolding registry_advanced_def
proof (intro conjI allI impI)
  show "rg_max k = rg_max g" "rg_owner k = rg_owner g" "\<exists>more. rg_order k = rg_order g @ more"
    using assms by (auto simp: registry_advanced_def)
  fix i r assume "dget (rg_records g) i = Some r"
  then obtain u where "dget (rg_records h) i = Some u" "route_advanced r u"
    using assms(1) by (auto simp: registry_advanced_def)
  moreover from this obtain w where "dget (rg_records k) i = Some w" "route_advanced u w"
    using assms(2) by (auto simp: registry_advanced_def)
  ultimately show "\<exists>u. dget (rg_records k) i = Some u \<and> route_advanced r u"
    using route_advanced_trans by blast
qed

lemma registry_get_Inr:
  "registry_get g v = Inr r \<Longrightarrow> \<exists>i. v = PStr i \<and> dget (rg_records g) i = Some r"
  by (auto simp: registry_get_def rbind_eq_Inr split: option.splits)

text \<open>An update of one record that advances it.\<close>

lemma registry_update:
  assumes ok: "registry_ok fr g" and r: "dget (rg_records g) i = Some r"
    and u: "u = r\<lparr>rr_critique := c, rr_state := s\<rparr>" "verdict_ok u" "route_advanced r u"
  shows "registry_ok fr (g\<lparr>rg_records := dset (rg_records g) (rr_id r) u\<rparr>)
    \<and> registry_advanced g (g\<lparr>rg_records := dset (rg_records g) (rr_id r) u\<rparr>)"
proof -
  have i: "rr_id r = i" "route_record_ok fr r" using ok r by (auto simp: registry_ok_def)
  have key: "i \<in> set (dkeys (rg_records g))" using r dget_None by (metis option.distinct(1))
  have "route_record_ok fr u" "rr_id u = i" using i u by (simp_all add: route_record_ok_def)
  then have "registry_ok fr (g\<lparr>rg_records := dset (rg_records g) i u\<rparr>)"
    using ok key u(2) by (auto simp: registry_ok_def dset_keys length_dset dget_dset)
  moreover have "registry_advanced g (g\<lparr>rg_records := dset (rg_records g) i u\<rparr>)"
    using r u(3) route_advanced_refl by (auto simp: registry_advanced_def dget_dset)
  ultimately show ?thesis using i by simp
qed

lemma register_route_advances:
  assumes ok: "registry_ok fr g" and run: "register_route fr t route f raw v ts g = (o', g')"
  shows "registry_ok fr g' \<and> registry_advanced g g'"
proof (cases o')
  case (Inl e)
  then have "g' = g"
    using run by (auto simp: register_route_def checked_eq_Inl split: if_splits)
  then show ?thesis using ok registry_advanced_refl by simp
next
  case (Inr r)
  then have new: "rd_id route \<notin> set (dkeys (rg_records g))" "length (rg_records g) < rg_max g"
    and rec: "RouteRecord fr (PStr (rd_id route)) f raw route v ts None
        (PStr (route_state_value RS_PROPOSED)) = Inr r"
    and g': "g' = store_record r (g\<lparr>rg_order := rg_order g @ [rr_id r]\<rparr>)"
    using run unfolding register_route_def by (auto simp: checked_eq_Inr split: if_splits)
  note r = RouteRecord_ok [OF rec]
  then have id: "rr_id r = rd_id route" by simp
  then have nk: "rr_id r \<notin> set (dkeys (rg_records g))" using new(1) by simp
  have "route_record_ok fr r" "verdict_ok r" using r by (simp_all add: verdict_ok_def)
  then have "registry_ok fr g'"
    using ok new nk by (auto simp: registry_ok_def g' store_record_def dset_new dget_dset
        split: if_splits)
  moreover have "dget (rg_records g) (rr_id r) = None" using nk dget_None by metis
  then have "registry_advanced g g'"
    using route_advanced_refl by (auto simp: registry_advanced_def g' store_record_def dget_dset)
  ultimately show ?thesis by blast
qed

lemma record_critique_advances:
  assumes ok: "registry_ok fr g" and run: "record_critique fr t i c g = (o', g')"
  shows "registry_ok fr g' \<and> registry_advanced g g'"
proof (cases o')
  case (Inl e)
  then have "g' = g"
    using run by (auto simp: record_critique_def checked_eq_Inl split: if_splits)
  then show ?thesis using ok registry_advanced_refl by simp
next
  case (Inr u)
  let ?s = "if cr_status c = CS_ACCEPT then RS_ACCEPTED else RS_REJECTED"
  from Inr obtain r where get: "registry_get g i = Inr r"
    and r: "rr_state r = RS_PROPOSED" "rr_critique r = None" "cr_route c = rr_id r"
    and rep: "replace_route fr r (Some c) ?s = Inr u"
    and g': "g' = g\<lparr>rg_records := dset (rg_records g) (rr_id r) u\<rparr>"
    using run unfolding record_critique_def by (auto simp: checked_eq_Inr split: if_splits)
  obtain k where k: "dget (rg_records g) k = Some r" using registry_get_Inr [OF get] by blast
  then have "route_record_ok fr r" using ok by (auto simp: registry_ok_def)
  then have u: "u = r\<lparr>rr_critique := Some c, rr_state := ?s\<rparr>" using rep replace_route_eq by simp
  have "verdict_ok u" using r by (simp add: verdict_ok_def u)
  moreover have "route_advanced r u" using r by (auto simp: route_advanced_def u)
  ultimately show ?thesis using registry_update [OF ok k u] g' by simp
qed

lemma transition_route_advances:
  assumes ok: "registry_ok fr g" and run: "transition_route fr t i v g = (o', g')"
  shows "registry_ok fr g' \<and> registry_advanced g g'"
proof (cases o')
  case (Inl e)
  then have "g' = g"
    using run by (auto simp: transition_route_def checked_eq_Inl split: if_splits)
  then show ?thesis using ok registry_advanced_refl by simp
next
  case (Inr u)
  then obtain r s where get: "registry_get g i = Inr r" and s: "s \<in> set (route_allowed (rr_state r))"
    and rep: "replace_route fr r (rr_critique r) s = Inr u"
    and g': "g' = g\<lparr>rg_records := dset (rg_records g) (rr_id r) u\<rparr>"
    using run unfolding transition_route_def by (auto simp: checked_eq_Inr split: if_splits)
  obtain k where k: "dget (rg_records g) k = Some r" using registry_get_Inr [OF get] by blast
  then have rok: "route_record_ok fr r" "verdict_ok r" using ok by (auto simp: registry_ok_def)
  then have u: "u = r\<lparr>rr_critique := rr_critique r, rr_state := s\<rparr>" using rep replace_route_eq by simp
  have "s \<noteq> RS_PROPOSED" "rr_state r \<noteq> RS_REJECTED" using s by (cases "rr_state r"; auto)+
  then have "verdict_ok u" using rok(2) by (auto simp: verdict_ok_def u split: option.splits if_splits)
  moreover have "route_advanced r u" using s by (auto simp: route_advanced_def u)
  ultimately show ?thesis using registry_update [OF ok k u] g' by simp
qed

section \<open>Runs of the registry\<close>

inductive route_step :: "(rat \<Rightarrow> string) \<Rightarrow> route_registry \<Rightarrow> route_registry \<Rightarrow> bool" for fr where
  route_registered: "register_route fr t route f raw v ts g = (o', g') \<Longrightarrow> route_step fr g g'"
| route_critiqued: "record_critique fr t i c g = (o', g') \<Longrightarrow> route_step fr g g'"
| route_transitioned: "transition_route fr t i v g = (o', g') \<Longrightarrow> route_step fr g g'"

lemma route_steps_advance:
  assumes "(route_step fr)\<^sup>*\<^sup>* g h" and "registry_ok fr g"
  shows "registry_ok fr h \<and> registry_advanced g h"
  using assms
proof (induction rule: rtranclp_induct)
  case base
  then show ?case using registry_advanced_refl by blast
next
  case (step h k)
  have "registry_ok fr h" using step by blast
  with step.hyps(2) have "registry_ok fr k \<and> registry_advanced h k"
    by (cases rule: route_step.cases)
      (blast dest: register_route_advances record_critique_advances transition_route_advances)+
  then show ?case using step registry_advanced_trans by blast
qed

lemma route_registry_init_ok: "route_registry_init t v = Inr g \<Longrightarrow> registry_ok fr g"
  by (auto simp: route_registry_init_def rbind_eq_Inr int_value_Inr registry_ok_def)

text \<open>
  C18. Whatever sequence of operations any threads call after construction, a registered route keeps
  its identifier, frame, raw proposal, draft, plan version and proposal time, and a critique once
  given; its state only moves along the transition table, and a rejected, completed or collided
  route stays as it is.  The registry keeps the order of registration and its record budget.
\<close>

theorem route_history:
  assumes "route_registry_init t v = Inr g0" and "(route_step fr)\<^sup>*\<^sup>* g0 g" and "(route_step fr)\<^sup>*\<^sup>* g h"
    and "dget (rg_records g) i = Some r"
  shows "\<exists>u. dget (rg_records h) i = Some u \<and> rr_id u = i
      \<and> rr_frame u = rr_frame r \<and> rr_raw u = rr_raw r \<and> rr_route u = rr_route r
      \<and> rr_version u = rr_version r \<and> rr_time u = rr_time r
      \<and> (rr_critique r \<noteq> None \<longrightarrow> rr_critique u = rr_critique r)
      \<and> route_path (rr_state r) (rr_state u)
      \<and> (route_allowed (rr_state r) = [] \<longrightarrow> rr_state u = rr_state r)
      \<and> (map_option cr_status (rr_critique u) = Some CS_REVISE \<longrightarrow> rr_state u = RS_REJECTED)
      \<and> (\<exists>more. rg_order h = rg_order g @ more) \<and> length (rg_order h) \<le> rg_max g0"
proof -
  have ok: "registry_ok fr g" "registry_ok fr h" and adv: "registry_advanced g0 g" "registry_advanced g h"
    using route_registry_init_ok [OF assms(1)] route_steps_advance assms(2,3) by blast+
  obtain u where u: "dget (rg_records h) i = Some u" "route_advanced r u"
    using adv(2) assms(4) by (auto simp: registry_advanced_def)
  have i: "rr_id u = i" "verdict_ok u" using ok(2) u(1) by (auto simp: registry_ok_def)
  have final: "route_allowed (rr_state r) = [] \<Longrightarrow> rr_state u = rr_state r"
    using u(2) routes.final_forever by (simp add: route_advanced_def)
  have "length (rg_order h) \<le> rg_max g0"
    using ok(2) adv by (simp add: registry_ok_def registry_advanced_def)
  then show ?thesis
    using u i final adv(2)
    by (auto simp: route_advanced_def registry_advanced_def verdict_ok_def split: option.splits if_splits)
qed

text \<open>A route proposed, accepted and executed, after a first registration with an empty proposal.\<close>

definition example_route :: route_draft where
  "example_route = \<lparr>rd_id = ''r1'', rd_frame = hd frames, rd_waypoints =
     [\<lparr>wp_id = ''w1'', wp_xyz = [0, 0, 1]\<rparr>, \<lparr>wp_id = ''w2'', wp_xyz = [3, 0, 1]\<rparr>]\<rparr>"

definition example_record :: route_record where
  "example_record = \<lparr>rr_id = ''r1'', rr_frame = \<lparr>fp_xyz = [0, 0, 1], fp_yaw = 0\<rparr>, rr_raw = [],
     rr_route = example_route, rr_version = 1, rr_time = 2, rr_critique = None, rr_state = RS_PROPOSED\<rparr>"

definition example_verdict :: route_critique where
  "example_verdict = \<lparr>cr_status = CS_ACCEPT, cr_route = ''r1'', cr_violations = [],
     cr_clearance = None, cr_length = None\<rparr>"

definition example_registry :: "route_record list \<Rightarrow> route_registry" where
  "example_registry rs = \<lparr>rg_max = 1, rg_owner = 7, rg_records = map (\<lambda>r. (rr_id r, r)) rs,
     rg_order = map rr_id rs\<rparr>"

lemma example_payload: "payload_ok (\<lambda>_. ''0.0'') []"
  by (simp add: payload_ok_def MAX_JSON_DEPTH_def MAX_JSON_ITEMS_def MAX_JSON_ENCODED_BYTES_def)

lemma example_register:
  "register_route (\<lambda>_. ''0.0'') 7 example_route \<lparr>fp_xyz = [0, 0, 1], fp_yaw = 0\<rparr> (PDict []) (PInt 1)
     (PInt 2) (example_registry []) = (Inr example_record, example_registry [example_record])"
proof -
  have "routing_id_match ''r1''" by code_simp
  then show ?thesis
    using validated_payload_again(1) [OF example_payload]
    by (simp add: register_route_def example_registry_def require_owner_def RouteRecord_def store_record_def
        example_route_def example_record_def real_value_def float_of_int_exact
        del: route_state_value.simps)
qed

lemma example_critique:
  "record_critique (\<lambda>_. ''0.0'') 7 (PStr ''r1'') example_verdict (example_registry [example_record])
   = (Inr (example_record\<lparr>rr_critique := Some example_verdict, rr_state := RS_ACCEPTED\<rparr>),
      example_registry [example_record\<lparr>rr_critique := Some example_verdict, rr_state := RS_ACCEPTED\<rparr>])"
proof -
  have id: "routing_id_match ''r1''" by code_simp
  then have "route_record_ok (\<lambda>_. ''0.0'') example_record"
    using example_payload by (simp add: route_record_ok_def example_record_def example_route_def)
  from replace_route_eq [OF this] id show ?thesis
    by (simp add: record_critique_def example_registry_def require_owner_def registry_get_def
        example_verdict_def example_record_def)
qed

theorem route_history_witness:
  "dget (rg_records (example_registry [example_record])) ''r1'' = Some example_record
   \<and> (\<exists>u. dget (rg_records (snd (record_critique (\<lambda>_. ''0.0'') 7 (PStr ''r1'') example_verdict
          (example_registry [example_record])))) ''r1'' = Some u \<and> rr_raw u = [])"
proof -
  have init: "route_registry_init 7 (PInt 1) = Inr (example_registry [])"
    by (simp add: route_registry_init_def example_registry_def int_value_def)
  have one: "(route_step (\<lambda>_. ''0.0''))\<^sup>*\<^sup>* (example_registry []) (example_registry [example_record])"
    by (rule r_into_rtranclp, rule route_registered [OF example_register])
  have two: "(route_step (\<lambda>_. ''0.0''))\<^sup>*\<^sup>* (example_registry [example_record])
      (snd (record_critique (\<lambda>_. ''0.0'') 7 (PStr ''r1'') example_verdict (example_registry [example_record])))"
    by (rule r_into_rtranclp, rule route_critiqued, rule prod.collapse [symmetric])
  have "dget (rg_records (example_registry [example_record])) ''r1'' = Some example_record"
    by (simp add: example_registry_def example_record_def)
  from route_history [OF init one two this] this
  show ?thesis by (auto simp: example_record_def)
qed

section \<open>Proposals that cannot be serialized\<close>

lemma freeze_entries_mapping:
  assumes "freeze_entries name k n d = Inr (d', m)" and "(i, PDict e) \<in> set d" and "e \<noteq> []"
  shows "\<exists>x \<in> set d'. holds_mapping (snd x)"
  using assms(1,2)
proof (induction d arbitrary: n d')
  case (Cons x d)
  obtain s where x: "fst x = PStr s"
    using Cons.prems(1) by (cases x; cases "fst x") (auto simp: freeze_entries.simps split: if_splits)
  from Cons.prems(1) x obtain w p q where w: "freeze_json (name @ ''.'' @ s) (Suc k) (Suc n) (snd x) = Inr (w, p)"
    and q: "freeze_entries name k p d = Inr (q, m)" and d': "d' = (PStr s, w) # q"
    by (cases x) (auto simp: freeze_entries.simps rbind_eq_Inr split: if_splits)
  show ?case
  proof (cases "x = (i, PDict e)")
    case True
    obtain y ys where "e = y # ys" using assms(3) by (cases e) auto
    then have "holds_mapping w"
      using w True by (cases y) (auto simp: freeze_json.simps freeze_entries.simps rbind_eq_Inr
          split: if_splits pyval.splits)
    then show ?thesis using d' by simp
  next
    case False
    then show ?thesis using Cons.IH [OF q] Cons.prems(2) d' by auto
  qed
qed simp

text \<open>
  A proposal with a non-empty nested object is registered, but the record it is kept in can never
  be serialized: \<open>to_dict\<close> raises a type error whatever the state of the route.
\<close>

theorem nested_proposal_unserializable:
  assumes "register_route fr t route f (PDict d) v ts g = (Inr r, g')"
    and "(i, PDict e) \<in> set d" and "e \<noteq> []"
  shows "route_record_to_dict (r\<lparr>rr_critique := c, rr_state := s\<rparr>)
    = Inl (TypeError ''event JSON payloads are immutable'')"
proof -
  have "validated_json_payload fr (PDict d) ''raw_proposal'' = Inr (rr_raw r)"
    using assms(1) by (auto simp: register_route_def RouteRecord_def rbind_eq_Inr checked_eq_Inr split: if_splits)
  then obtain m where "freeze_entries ''raw_proposal'' 0 0 d = Inr (rr_raw r, m)"
    by (auto simp: validated_json_payload_def rbind_eq_Inr freeze_json.simps split: if_splits)
  from freeze_entries_mapping [OF this assms(2,3)] show ?thesis
    by (auto simp: route_record_to_dict_def list_ex_iff)
qed

theorem nested_proposal_unserializable_witness:
  "route_record_to_dict (example_record\<lparr>rr_raw := [(PStr ''a'', PDict [(PStr ''b'', PInt 1)])]\<rparr>)
   = Inl (TypeError ''event JSON payloads are immutable'')"
proof -
  let ?raw = "[(PStr ''a'', PDict [(PStr ''b'', PInt 1)])]"
  have "payload_ok (\<lambda>_. ''0.0'') ?raw"
    by (simp add: payload_ok_def MAX_JSON_DEPTH_def MAX_JSON_ITEMS_def MAX_JSON_STRING_CHARS_def
        MAX_JSON_ENCODED_BYTES_def decimal.simps int_repr_def json_string_def json_char_def Let_def)
  moreover have "routing_id_match ''r1''" by code_simp
  ultimately have run: "register_route (\<lambda>_. ''0.0'') 7 example_route \<lparr>fp_xyz = [0, 0, 1], fp_yaw = 0\<rparr>
      (PDict ?raw) (PInt 1) (PInt 2) (example_registry [])
    = (Inr (example_record\<lparr>rr_raw := ?raw\<rparr>), example_registry [example_record\<lparr>rr_raw := ?raw\<rparr>])"
    using validated_payload_again(1)
    by (simp add: register_route_def example_registry_def require_owner_def RouteRecord_def store_record_def
        example_route_def example_record_def real_value_def float_of_int_exact
        del: route_state_value.simps)
  have "(PStr ''a'', PDict [(PStr ''b'', PInt 1)]) \<in> set ?raw" by simp
  from nested_proposal_unserializable [OF run this, of RS_PROPOSED None] show ?thesis
    by (simp add: example_record_def)
qed

end
