(* ===== verification/Review_Scheduler.thy ===== *)
theory Review_Scheduler
  imports Mission_Events
begin

text \<open>
  \<open>runtime/review_scheduler.py\<close>: when a visual review is due, and the reservation of one review per
  UAV.  A method runs under the lock of the scheduler and is one step.  Timestamps are exact
  rationals; the values of \<open>uuid4().hex\<close> are arguments; sets of event types, which the source takes as
  collections of the enumeration, are lists of it.
\<close>

section \<open>Vocabulary and checks\<close>

definition DEFAULT_REVIEW_INTERVALS_S :: "(string \<times> rat) list" where
  "DEFAULT_REVIEW_INTERVALS_S = [(''GOTO'', 5), (''SEARCH'', 2), (''INSPECT'', 1), (''TRACK'', 5)]"

definition DEFAULT_EVENT_TRIGGERS :: "mission_event_type list" where
  "DEFAULT_EVENT_TRIGGERS = [ET_PERIODIC_REVIEW_DUE, ET_CANDIDATE_PERSISTENT, ET_MULTIPLE_CANDIDATES,
     ET_TARGET_CONFIRMATION_REQUIRED, ET_TARGET_IDENTITY_UNCERTAIN, ET_TRACK_CONFIDENCE_DROP,
     ET_TRACK_LOST, ET_PATH_BLOCKED, ET_SKILL_PROGRESS_STALLED, ET_LOW_VISIBILITY,
     ET_TASK_COMPLETION_UNCERTAIN]"

definition DEFAULT_BLOCKING_EVENT_TYPES :: "mission_event_type list" where
  "DEFAULT_BLOCKING_EVENT_TYPES = [ET_CANDIDATE_PERSISTENT, ET_MULTIPLE_CANDIDATES,
     ET_TARGET_CONFIRMATION_REQUIRED, ET_TARGET_IDENTITY_UNCERTAIN, ET_PATH_BLOCKED,
     ET_TASK_COMPLETION_UNCERTAIN]"

definition review_timestamp :: "string \<Rightarrow> pyval \<Rightarrow> rat result" where
  "review_timestamp name =
     real_value (TypeError (name @ '' must be a finite non-negative number''))
       (ValueError (name @ '' must be a finite non-negative number'')) (\<lambda>x. 0 \<le> x)"

text \<open>\<open>str.upper\<close> changes exactly these code points below 256.\<close>

definition upper_changes :: "char \<Rightarrow> bool" where
  "upper_changes c = (let n = of_char c :: int
     in (97 \<le> n \<and> n \<le> 122) \<or> n = 181 \<or> (223 \<le> n \<and> n \<le> 255 \<and> n \<noteq> 247))"

definition review_skill :: "pyval \<Rightarrow> string result" where
  "review_skill v = (case v of
     PStr s \<Rightarrow> if s = [] then Inl (ValueError ''skill_name must be a non-empty string'')
              else if list_ex upper_changes s
              then Inl (ValueError ''skill_name must use its canonical uppercase name'')
              else Inr s
   | _ \<Rightarrow> Inl (ValueError ''skill_name must be a non-empty string''))"

datatype review_trigger = RT_PERIODIC | RT_EVENT

fun review_trigger_value :: "review_trigger \<Rightarrow> string" where
  "review_trigger_value RT_PERIODIC = ''PERIODIC''"
| "review_trigger_value RT_EVENT = ''EVENT''"

datatype schedule_reason = SR_SCHEDULED | SR_NOT_DUE | SR_COOLDOWN | SR_IN_FLIGHT

section \<open>Tickets and decisions\<close>

record review_ticket =
  rt_request :: string
  rt_review :: string
  rt_mission :: string
  rt_uav :: string
  rt_version :: int
  rt_skill :: string
  rt_time :: rat
  rt_trigger :: review_trigger
  rt_blocking :: bool
  rt_event :: "string option"

definition ReviewTicket ::
  "pyval \<Rightarrow> pyval \<Rightarrow> pyval \<Rightarrow> pyval \<Rightarrow> pyval \<Rightarrow> pyval \<Rightarrow> pyval \<Rightarrow> review_trigger \<Rightarrow> bool \<Rightarrow> pyval
     \<Rightarrow> review_ticket result" where
  "ReviewTicket request review mission uav version skill timestamp trigger blocking event =
     rbind (validate_request_id request) (\<lambda>request.
     rbind (validate_review_id review) (\<lambda>review.
     rbind (validate_mission_id mission) (\<lambda>mission.
     rbind (validate_uav_id uav) (\<lambda>uav.
     rbind (positive_plan_version version) (\<lambda>version.
     rbind (review_skill skill) (\<lambda>skill.
     rbind (review_timestamp ''submitted_timestamp_s'' timestamp) (\<lambda>timestamp.
     rbind (opt_check (\<lambda>v. validate_routing_id v ''event_id'') event) (\<lambda>event.
       Inr \<lparr>rt_request = request, rt_review = review, rt_mission = mission, rt_uav = uav,
         rt_version = version, rt_skill = skill, rt_time = timestamp, rt_trigger = trigger,
         rt_blocking = blocking, rt_event = event\<rparr>))))))))"

definition ticket_hover_required :: "review_ticket \<Rightarrow> bool" where
  "ticket_hover_required t = rt_blocking t"

definition ticket_to_dict :: "review_ticket \<Rightarrow> (string \<times> pyval) list" where
  "ticket_to_dict t =
     [(''request_id'', PStr (rt_request t)), (''review_id'', PStr (rt_review t)),
      (''mission_id'', PStr (rt_mission t)), (''uav_id'', PStr (rt_uav t)),
      (''plan_version'', PInt (rt_version t)), (''skill_name'', PStr (rt_skill t)),
      (''submitted_timestamp_s'', PFloat (Fin (rt_time t))),
      (''trigger'', PStr (review_trigger_value (rt_trigger t))), (''blocking'', PBool (rt_blocking t)),
      (''hover_required'', PBool (ticket_hover_required t)), (''event_id'', opt_pyval PStr (rt_event t))]"

record schedule_decision =
  sd_reason :: schedule_reason
  sd_ticket :: "review_ticket option"

definition ScheduleDecision :: "schedule_reason \<Rightarrow> review_ticket option \<Rightarrow> schedule_decision result" where
  "ScheduleDecision reason ticket =
     (if reason = SR_SCHEDULED
      then (if ticket = None then Inl (ValueError ''a scheduled decision requires a ReviewTicket'')
            else Inr \<lparr>sd_reason = reason, sd_ticket = ticket\<rparr>)
      else if ticket \<noteq> None
      then Inl (ValueError ''an unscheduled decision cannot contain a ticket'')
      else Inr \<lparr>sd_reason = reason, sd_ticket = ticket\<rparr>)"

definition decision_blocking :: "schedule_decision \<Rightarrow> bool" where
  "decision_blocking d = (case sd_ticket d of None \<Rightarrow> False | Some t \<Rightarrow> rt_blocking t)"

section \<open>The scheduler\<close>

record review_scheduler =
  rs_intervals :: "(string \<times> rat) list"
  rs_cooldown :: rat
  rs_triggers :: "mission_event_type list"
  rs_blocking :: "mission_event_type list"
  rs_active :: "(string \<times> string) list"
  rs_due :: "(string \<times> rat option) list"
  rs_until :: "(string \<times> rat) list"
  rs_last :: "(string \<times> rat) list"
  rs_inflight :: "(string \<times> review_ticket) list"

fun review_intervals :: "(pyval \<times> pyval) list \<Rightarrow> (string \<times> rat) list \<Rightarrow> (string \<times> rat) list result" where
  "review_intervals [] acc = Inr acc"
| "review_intervals ((k, v) # d) acc =
     rbind (review_skill k) (\<lambda>skill.
     rbind (review_timestamp (skill @ '' interval'') v) (\<lambda>interval.
     if interval = 0 then Inl (ValueError ''review intervals must be greater than zero'')
     else review_intervals d (dset acc skill interval)))"

definition scheduler_init ::
  "pyval \<Rightarrow> pyval \<Rightarrow> mission_event_type list \<Rightarrow> mission_event_type list \<Rightarrow> review_scheduler result" where
  "scheduler_init intervals cooldown triggers blocking =
     rbind (case intervals of
              PNone \<Rightarrow> review_intervals
                (map (\<lambda>(k, x). (PStr k, PFloat (Fin x))) DEFAULT_REVIEW_INTERVALS_S) []
            | PDict d \<Rightarrow> review_intervals d []
            | _ \<Rightarrow> Inl (TypeError ''intervals_s must be a mapping'')) (\<lambda>intervals.
     rbind (review_timestamp ''cooldown_s'' cooldown) (\<lambda>cooldown.
     if \<not> list_all (\<lambda>e. e \<in> set triggers) blocking
     then Inl (ValueError ''blocking event types must also be event triggers'')
     else Inr \<lparr>rs_intervals = intervals, rs_cooldown = cooldown, rs_triggers = triggers,
       rs_blocking = blocking, rs_active = [], rs_due = [], rs_until = [], rs_last = [],
       rs_inflight = []\<rparr>))"

definition require_monotonic :: "string \<Rightarrow> rat \<Rightarrow> review_scheduler \<Rightarrow> unit result \<times> review_scheduler" where
  "require_monotonic uav now g =
     (case dget (rs_last g) uav of
        Some previous \<Rightarrow>
          if now < previous then (Inl (ValueError ''review scheduler timestamp moved backwards''), g)
          else (Inr (), g\<lparr>rs_last := dset (rs_last g) uav now\<rparr>)
      | None \<Rightarrow> (Inr (), g\<lparr>rs_last := dset (rs_last g) uav now\<rparr>))"

definition next_due :: "review_scheduler \<Rightarrow> string \<Rightarrow> rat \<Rightarrow> rat option" where
  "next_due g skill now = map_option (\<lambda>interval. now + interval) (dget (rs_intervals g) skill)"

text \<open>The first block under the lock: another skill restarts the period.\<close>

definition enter_skill :: "string \<Rightarrow> string \<Rightarrow> rat \<Rightarrow> review_scheduler \<Rightarrow> review_scheduler" where
  "enter_skill uav skill now g =
     (if dget (rs_active g) uav \<noteq> Some skill
      then g\<lparr>rs_active := dset (rs_active g) uav skill,
             rs_due := dset (rs_due g) uav (next_due g skill now)\<rparr>
      else g)"

text \<open>The second: what triggers a review, whether it blocks, and for which event.\<close>

definition review_due ::
  "review_scheduler \<Rightarrow> string \<Rightarrow> rat \<Rightarrow> mission_event option
     \<Rightarrow> (review_trigger \<times> bool \<times> string option) option" where
  "review_due g uav now event =
     (case event of
        Some e \<Rightarrow>
          if ev_type e \<in> set (rs_triggers g)
          then Some (if ev_type e = ET_PERIODIC_REVIEW_DUE then RT_PERIODIC else RT_EVENT,
                     ev_type e \<noteq> ET_PERIODIC_REVIEW_DUE \<and> ev_type e \<in> set (rs_blocking g),
                     Some (ev_id e))
          else (case dget (rs_due g) uav of
                  Some (Some due) \<Rightarrow> if due \<le> now then Some (RT_PERIODIC, False, None) else None
                | _ \<Rightarrow> None)
      | None \<Rightarrow> (case dget (rs_due g) uav of
                  Some (Some due) \<Rightarrow> if due \<le> now then Some (RT_PERIODIC, False, None) else None
                | _ \<Rightarrow> None))"

definition cooldown_until :: "review_scheduler \<Rightarrow> string \<Rightarrow> rat" where
  "cooldown_until g uav = (case dget (rs_until g) uav of Some x \<Rightarrow> x | None \<Rightarrow> 0)"

text \<open>
  What \<open>schedule\<close> does under the lock after the monotonic check; \<open>hex1\<close> and \<open>hex2\<close> are the values of
  \<open>uuid4().hex\<close>.
\<close>

definition reserve_review ::
  "string \<Rightarrow> string \<Rightarrow> string \<Rightarrow> string \<Rightarrow> int \<Rightarrow> string \<Rightarrow> rat \<Rightarrow> mission_event option \<Rightarrow> string option
     \<Rightarrow> string option \<Rightarrow> review_scheduler \<Rightarrow> schedule_decision result \<times> review_scheduler" where
  "reserve_review hex1 hex2 mission uav version skill now event request review g =
     (if dget (rs_inflight g) uav \<noteq> None
      then checked g (ScheduleDecision SR_IN_FLIGHT None) (\<lambda>d. (Inr d, g))
      else case review_due g uav now event of
         None \<Rightarrow> checked g (ScheduleDecision SR_NOT_DUE None) (\<lambda>d. (Inr d, g))
       | Some (trigger, blocking, event_id) \<Rightarrow>
           if now < cooldown_until g uav
           then checked g (ScheduleDecision SR_COOLDOWN None) (\<lambda>d. (Inr d, g))
           else
             checked g (case request of None \<Rightarrow> generate_routing_id hex1 (PStr ''request'')
                        | Some r \<Rightarrow> Inr r) (\<lambda>request.
             checked g (case review of None \<Rightarrow> generate_routing_id hex2 (PStr ''review'')
                        | Some r \<Rightarrow> Inr r) (\<lambda>review.
             checked g (ReviewTicket (PStr request) (PStr review) (PStr mission) (PStr uav)
                 (PInt version) (PStr skill) (PFloat (Fin now)) trigger blocking
                 (opt_pyval PStr event_id)) (\<lambda>ticket.
             let g = g\<lparr>rs_inflight := dset (rs_inflight g) uav ticket,
                       rs_until := dset (rs_until g) uav (now + rs_cooldown g),
                       rs_due := dset (rs_due g) uav (next_due g skill now)\<rparr>
             in checked g (ScheduleDecision SR_SCHEDULED (Some ticket)) (\<lambda>d. (Inr d, g))))))"

definition event_matches :: "mission_event option \<Rightarrow> string \<Rightarrow> string \<Rightarrow> int \<Rightarrow> rat \<Rightarrow> unit result" where
  "event_matches event mission uav version now =
     (case event of
        None \<Rightarrow> Inr ()
      | Some e \<Rightarrow>
          if ev_mission e \<noteq> mission \<or> ev_uav e \<noteq> uav
          then Inl (ValueError ''event routing IDs do not match review request'')
          else if ev_version e \<noteq> version
          then Inl (ValueError ''event plan_version does not match review request'')
          else if now < ev_time e
          then Inl (ValueError ''event timestamp cannot be in the future'')
          else Inr ())"

definition schedule ::
  "string \<Rightarrow> string \<Rightarrow> pyval \<Rightarrow> pyval \<Rightarrow> pyval \<Rightarrow> pyval \<Rightarrow> pyval \<Rightarrow> mission_event option \<Rightarrow> pyval \<Rightarrow> pyval
     \<Rightarrow> review_scheduler \<Rightarrow> schedule_decision result \<times> review_scheduler" where
  "schedule hex1 hex2 mission uav version skill timestamp event request review g =
     checked g (validate_mission_id mission) (\<lambda>mission.
     checked g (validate_uav_id uav) (\<lambda>uav.
     checked g (positive_plan_version version) (\<lambda>version.
     checked g (review_skill skill) (\<lambda>skill.
     checked g (review_timestamp ''timestamp_s'' timestamp) (\<lambda>now.
     checked g (event_matches event mission uav version now) (\<lambda>_.
     checked g (opt_check validate_request_id request) (\<lambda>request.
     checked g (opt_check validate_review_id review) (\<lambda>review.
     andthen (require_monotonic uav now g) (\<lambda>_ g.
       reserve_review hex1 hex2 mission uav version skill now event request review
         (enter_skill uav skill now g))))))))))"

definition finish_review ::
  "pyval \<Rightarrow> pyval \<Rightarrow> pyval \<Rightarrow> pyval \<Rightarrow> review_scheduler \<Rightarrow> review_ticket result \<times> review_scheduler" where
  "finish_review uav request review timestamp g =
     checked g (validate_uav_id uav) (\<lambda>uav.
     checked g (validate_request_id request) (\<lambda>request.
     checked g (validate_review_id review) (\<lambda>review.
     checked g (review_timestamp ''timestamp_s'' timestamp) (\<lambda>now.
     case dget (rs_inflight g) uav of
       None \<Rightarrow> (Inl (ValueError ''no review is in flight for this uav_id''), g)
     | Some ticket \<Rightarrow>
         if rt_request ticket \<noteq> request \<or> rt_review ticket \<noteq> review
         then (Inl (ValueError ''review completion IDs do not match in-flight request''), g)
         else if now < rt_time ticket
         then (Inl (ValueError ''review completion timestamp precedes submission''), g)
         else andthen (require_monotonic uav now g) (\<lambda>_ g.
           (Inr ticket,
            g\<lparr>rs_inflight := ddel (rs_inflight g) uav,
              rs_until := dset (rs_until g) uav (max (cooldown_until g uav) (now + rs_cooldown g))\<rparr>))))))"

definition mark_completed ::
  "pyval \<Rightarrow> pyval \<Rightarrow> pyval \<Rightarrow> pyval \<Rightarrow> review_scheduler \<Rightarrow> review_ticket result \<times> review_scheduler" where
  "mark_completed uav request review timestamp g = finish_review uav request review timestamp g"

definition mark_timed_out ::
  "pyval \<Rightarrow> pyval \<Rightarrow> pyval \<Rightarrow> pyval \<Rightarrow> review_scheduler \<Rightarrow> review_ticket result \<times> review_scheduler" where
  "mark_timed_out uav request review timestamp g = finish_review uav request review timestamp g"

definition inflight :: "review_scheduler \<Rightarrow> pyval \<Rightarrow> review_ticket option result" where
  "inflight g uav = rbind (validate_uav_id uav) (\<lambda>uav. Inr (dget (rs_inflight g) uav))"

definition reset_uav :: "pyval \<Rightarrow> review_scheduler \<Rightarrow> unit result \<times> review_scheduler" where
  "reset_uav uav g =
     checked g (validate_uav_id uav) (\<lambda>uav.
     if dget (rs_inflight g) uav \<noteq> None
     then (Inl (RuntimeError ''cannot reset a UAV with an in-flight review''), g)
     else (Inr (), g\<lparr>rs_active := ddel (rs_active g) uav, rs_due := ddel (rs_due g) uav,
                     rs_until := ddel (rs_until g) uav, rs_last := ddel (rs_last g) uav\<rparr>))"

section \<open>Effects of the operations\<close>

text \<open>The part of the state that reservations and cooldowns are kept in.\<close>

definition same_reservations :: "review_scheduler \<Rightarrow> review_scheduler \<Rightarrow> bool" where
  "same_reservations g h \<longleftrightarrow> rs_inflight h = rs_inflight g \<and> rs_until h = rs_until g
     \<and> rs_cooldown h = rs_cooldown g"

lemma same_reservations_simps [simp]:
  "same_reservations g g" "same_reservations g (g\<lparr>rs_last := l\<rparr>)"
  "same_reservations g (enter_skill uav skill now (g\<lparr>rs_last := l\<rparr>))"
  by (simp_all add: same_reservations_def enter_skill_def)

lemma require_monotonic_Inr:
  "require_monotonic uav now g = (Inr u, h) \<Longrightarrow> h = g\<lparr>rs_last := dset (rs_last g) uav now\<rparr>"
  by (auto simp: require_monotonic_def split: option.splits if_splits)

lemma require_monotonic_Inl: "require_monotonic uav now g = (Inl e, h) \<Longrightarrow> h = g"
  by (auto simp: require_monotonic_def split: option.splits if_splits)

lemma ScheduleDecision_simps [simp]:
  "ScheduleDecision SR_IN_FLIGHT None = Inr \<lparr>sd_reason = SR_IN_FLIGHT, sd_ticket = None\<rparr>"
  "ScheduleDecision SR_NOT_DUE None = Inr \<lparr>sd_reason = SR_NOT_DUE, sd_ticket = None\<rparr>"
  "ScheduleDecision SR_COOLDOWN None = Inr \<lparr>sd_reason = SR_COOLDOWN, sd_ticket = None\<rparr>"
  "ScheduleDecision SR_SCHEDULED (Some t) = Inr \<lparr>sd_reason = SR_SCHEDULED, sd_ticket = Some t\<rparr>"
  by (simp_all add: ScheduleDecision_def)

text \<open>What a call to \<open>schedule\<close> decides, and for which UAV.\<close>

definition decided ::
  "review_scheduler \<Rightarrow> string \<Rightarrow> schedule_decision result \<Rightarrow> review_scheduler \<Rightarrow> bool" where
  "decided g uav r g' \<longleftrightarrow> (case r of
      Inl x \<Rightarrow> same_reservations g g'
    | Inr d \<Rightarrow> (case sd_ticket d of
        None \<Rightarrow> same_reservations g g'
      | Some t \<Rightarrow> uav = rt_uav t \<and> dget (rs_inflight g) uav = None
          \<and> cooldown_until g uav \<le> rt_time t
          \<and> rs_inflight g' = dset (rs_inflight g) uav t
          \<and> rs_until g' = dset (rs_until g) uav (rt_time t + rs_cooldown g)
          \<and> rs_cooldown g' = rs_cooldown g))"

lemma reserve_decided:
  assumes "reserve_review h1 h2 m u v s now e rq rv g = (r, g')"
  shows "decided g u r g'"
  using assms unfolding reserve_review_def
  by (auto simp: Let_def ReviewTicket_def rbind_eq_Inr decided_def review_timestamp_def
      split: checked_splits if_splits option.splits sum.splits)

lemma schedule_decided:
  assumes "schedule h1 h2 m u v s ts e rq rv g = (r, g')"
  shows "(\<exists>x. r = Inl x \<and> g' = g) \<or> (\<exists>uav. u = PStr uav \<and> decided g uav r g')"
proof (cases "\<exists>x. r = Inl x \<and> g' = g")
  case False
  with assms obtain mission uav version skill now request review w h
    where u: "u = PStr uav" and mono: "require_monotonic uav now g = (Inr w, h)"
      and res: "reserve_review h1 h2 mission uav version skill now e request review (enter_skill uav skill now h)
        = (r, g')"
    unfolding schedule_def
    by (cases r) (auto simp: checked_eq_Inr checked_eq_Inl andthen_eq_Inr andthen_eq_Inl dest: require_monotonic_Inl)
  have "decided (enter_skill uav skill now h) uav r g'" using res by (rule reserve_decided)
  moreover have "same_reservations g (enter_skill uav skill now h)"
    using require_monotonic_Inr [OF mono] by simp
  ultimately have "decided g uav r g'"
    by (auto simp: decided_def same_reservations_def cooldown_until_def split: sum.splits option.splits)
  then show ?thesis using u by blast
qed blast

lemma finish_effect:
  assumes "finish_review u rq rv ts g = (Inr t, g')"
  shows "\<exists>uav now. u = PStr uav \<and> review_timestamp ''timestamp_s'' ts = Inr now \<and> dget (rs_inflight g) uav = Some t
    \<and> rt_time t \<le> now \<and> rs_inflight g' = ddel (rs_inflight g) uav
    \<and> rs_until g' = dset (rs_until g) uav (max (cooldown_until g uav) (now + rs_cooldown g))
    \<and> rs_cooldown g' = rs_cooldown g"
proof -
  have cool: "cooldown_until (g\<lparr>rs_last := l\<rparr>) v = cooldown_until g v" for l v
    by (simp add: cooldown_until_def)
  show ?thesis
    using assms unfolding finish_review_def
    by (auto simp: checked_eq_Inr andthen_eq_Inr cool dest!: require_monotonic_Inr
        split: option.split_asm if_split_asm)
qed

lemma finish_refused: "finish_review u rq rv ts g = (Inl e, g') \<Longrightarrow> g' = g"
  unfolding finish_review_def
  by (auto simp: checked_eq_Inl andthen_eq_Inl dest!: require_monotonic_Inl split: option.splits if_splits)

lemma reset_effect:
  assumes "reset_uav u g = (Inr w, g')"
  shows "\<exists>uav. u = PStr uav \<and> dget (rs_inflight g) uav = None \<and> rs_inflight g' = rs_inflight g
    \<and> rs_until g' = ddel (rs_until g) uav \<and> rs_cooldown g' = rs_cooldown g"
  using assms unfolding reset_uav_def by (auto simp: checked_eq_Inr split: if_splits)

lemma reset_refused: "reset_uav u g = (Inl e, g') \<Longrightarrow> g' = g"
  unfolding reset_uav_def by (auto simp: checked_eq_Inl split: if_splits)

section \<open>Runs of the scheduler\<close>

text \<open>
  What an operation leaves in the log of a run: a reservation, the release of one at a time, a
  reset of a UAV, or nothing.
\<close>

datatype review_note =
    Submitted review_ticket | Released review_ticket rat | Cleared string | Unchanged

inductive review_step :: "review_scheduler \<Rightarrow> review_note \<Rightarrow> review_scheduler \<Rightarrow> bool" where
  review_submitted: "schedule h1 h2 m u v s ts e rq rv g = (Inr d, g') \<Longrightarrow> sd_ticket d = Some t \<Longrightarrow>
    review_step g (Submitted t) g'"
| review_declined: "schedule h1 h2 m u v s ts e rq rv g = (Inr d, g') \<Longrightarrow> sd_ticket d = None \<Longrightarrow>
    review_step g Unchanged g'"
| review_refused: "schedule h1 h2 m u v s ts e rq rv g = (Inl x, g') \<Longrightarrow> review_step g Unchanged g'"
| review_released: "finish_review u rq rv ts g = (Inr t, g') \<Longrightarrow>
    review_timestamp ''timestamp_s'' ts = Inr now \<Longrightarrow> review_step g (Released t now) g'"
| review_unreleased: "finish_review u rq rv ts g = (Inl x, g') \<Longrightarrow> review_step g Unchanged g'"
| review_cleared: "reset_uav (PStr uav) g = (Inr w, g') \<Longrightarrow> review_step g (Cleared uav) g'"
| review_uncleared: "reset_uav u g = (Inl x, g') \<Longrightarrow> review_step g Unchanged g'"

text \<open>
  The invariant: a submitted review, when its UAV was not reset since, is in flight or was released,
  and the cooldown of the UAV extends past both times.
\<close>

definition covered :: "rat \<Rightarrow> review_scheduler \<Rightarrow> review_ticket \<Rightarrow> review_note list \<Rightarrow> bool" where
  "covered cd g a mid \<longleftrightarrow> (\<exists>c. dget (rs_until g) (rt_uav a) = Some c \<and> rt_time a + cd \<le> c
     \<and> (dget (rs_inflight g) (rt_uav a) = Some a
        \<or> (\<exists>t. Released a t \<in> set mid \<and> rt_time a \<le> t \<and> t + cd \<le> c)))"

definition reviews_ok :: "rat \<Rightarrow> review_note list \<Rightarrow> review_scheduler \<Rightarrow> bool" where
  "reviews_ok cd h g \<longleftrightarrow> rs_cooldown g = cd \<and> 0 \<le> cd
     \<and> (\<forall>u t. dget (rs_inflight g) u = Some t \<longrightarrow> rt_uav t = u)
     \<and> (\<forall>older a mid. h = older @ Submitted a # mid \<longrightarrow> Cleared (rt_uav a) \<notin> set mid \<longrightarrow> covered cd g a mid)"

lemma reviews_ok_quiet:
  assumes "reviews_ok cd h g" and "same_reservations g g'"
  shows "reviews_ok cd (h @ [Unchanged]) g'"
  using assms unfolding reviews_ok_def same_reservations_def covered_def
  by (auto elim!: snoc_split)

lemma covered_later:
  assumes "covered cd g a m"
    and "\<And>c. dget (rs_until g) (rt_uav a) = Some c \<Longrightarrow> \<exists>c'. dget (rs_until g') (rt_uav a) = Some c' \<and> c \<le> c'"
    and "dget (rs_inflight g) (rt_uav a) = Some a \<Longrightarrow>
      dget (rs_inflight g') (rt_uav a) = Some a
      \<or> (\<exists>t c'. n = Released a t \<and> rt_time a \<le> t \<and> dget (rs_until g') (rt_uav a) = Some c' \<and> t + cd \<le> c')"
  shows "covered cd g' a (m @ [n])"
proof -
  obtain c where c: "dget (rs_until g) (rt_uav a) = Some c" "rt_time a + cd \<le> c"
    and r: "dget (rs_inflight g) (rt_uav a) = Some a
        \<or> (\<exists>t. Released a t \<in> set m \<and> rt_time a \<le> t \<and> t + cd \<le> c)"
    using assms(1) by (auto simp: covered_def)
  obtain c' where c': "dget (rs_until g') (rt_uav a) = Some c'" "c \<le> c'" using assms(2) [OF c(1)] by blast
  show ?thesis
    using r
  proof
    assume "dget (rs_inflight g) (rt_uav a) = Some a"
    then show ?thesis using assms(3) c c' unfolding covered_def by fastforce
  next
    assume "\<exists>t. Released a t \<in> set m \<and> rt_time a \<le> t \<and> t + cd \<le> c"
    then show ?thesis using c c' unfolding covered_def by fastforce
  qed
qed

lemma covered_rest:
  "reviews_ok cd h g \<Longrightarrow> h = older @ Submitted a # m \<Longrightarrow> Cleared (rt_uav a) \<notin> set (m @ [n]) \<Longrightarrow> covered cd g a m"
  by (simp add: reviews_ok_def)

lemma reviews_ok_step:
  assumes ok: "reviews_ok cd h g" and step: "review_step g n g'"
  shows "reviews_ok cd (h @ [n]) g'"
  using step
proof (cases rule: review_step.cases)
  case (review_submitted h1 h2 m u v s ts e rq rv d t)
  let ?u = "rt_uav t"
  from schedule_decided [OF review_submitted(2)] review_submitted(3)
  have d: "dget (rs_inflight g) ?u = None" "cooldown_until g ?u \<le> rt_time t"
      "rs_inflight g' = dset (rs_inflight g) ?u t" "rs_cooldown g' = rs_cooldown g"
      "rs_until g' = dset (rs_until g) ?u (rt_time t + rs_cooldown g)"
    by (auto simp: decided_def)
  have "covered cd g' a mid"
    if split: "h @ [Submitted t] = older @ Submitted a # mid" "Cleared (rt_uav a) \<notin> set mid" for older a mid
    using split(1)
  proof (cases rule: snoc_split)
    case last
    then show ?thesis using d ok by (simp add: covered_def reviews_ok_def dget_dset)
  next
    case (inner m)
    have "rs_cooldown g = cd" "0 \<le> cd" using ok by (simp_all add: reviews_ok_def)
    show ?thesis
      unfolding inner(1)
      by (rule covered_later [OF covered_rest [OF ok inner(2) split(2) [unfolded inner(1)]]])
        (use d \<open>rs_cooldown g = cd\<close> \<open>0 \<le> cd\<close> in \<open>auto simp: dget_dset cooldown_until_def\<close>)
  qed
  then show ?thesis using ok d review_submitted(1) by (auto simp: reviews_ok_def dget_dset)
next
  case (review_released u rq rv ts t now)
  from finish_effect [OF review_released(2)] review_released(3) obtain uav where
    u: "dget (rs_inflight g) uav = Some t" "rt_time t \<le> now" "rs_inflight g' = ddel (rs_inflight g) uav"
      "rs_until g' = dset (rs_until g) uav (max (cooldown_until g uav) (now + rs_cooldown g))"
      "rs_cooldown g' = rs_cooldown g" by auto
  have "rt_uav t = uav" using ok u(1) by (auto simp: reviews_ok_def)
  have "covered cd g' a mid"
    if split: "h @ [Released t now] = older @ Submitted a # mid" "Cleared (rt_uav a) \<notin> set mid" for older a mid
    using split(1)
  proof (cases rule: snoc_split)
    case (inner m)
    have cd: "rs_cooldown g = cd" using ok by (simp add: reviews_ok_def)
    show ?thesis
      unfolding inner(1)
    proof (rule covered_later [OF covered_rest [OF ok inner(2) split(2) [unfolded inner(1)]]])
      fix c assume "dget (rs_until g) (rt_uav a) = Some c"
      then show "\<exists>c'. dget (rs_until g') (rt_uav a) = Some c' \<and> c \<le> c'"
        by (cases "rt_uav a = uav") (simp_all add: u(4) dget_dset cooldown_until_def)
    next
      assume a: "dget (rs_inflight g) (rt_uav a) = Some a"
      show "dget (rs_inflight g') (rt_uav a) = Some a \<or> (\<exists>t' c'. Released t now = Released a t'
          \<and> rt_time a \<le> t' \<and> dget (rs_until g') (rt_uav a) = Some c' \<and> t' + cd \<le> c')"
      proof (cases "rt_uav a = uav")
        case True
        then have "a = t" using a u(1) by simp
        then show ?thesis using True u(2) by (simp add: u(4) dget_dset cd)
      qed (simp add: u(3) dget_ddel a)
    qed
  qed simp
  then show ?thesis using ok u review_released(1) by (auto simp: reviews_ok_def dget_ddel)
next
  case (review_cleared uav w)
  from reset_effect [OF review_cleared(2)]
  have u: "dget (rs_inflight g) uav = None" "rs_inflight g' = rs_inflight g"
    "rs_until g' = ddel (rs_until g) uav" "rs_cooldown g' = rs_cooldown g" by auto
  have "covered cd g' a mid"
    if split: "h @ [Cleared uav] = older @ Submitted a # mid" "Cleared (rt_uav a) \<notin> set mid" for older a mid
    using split(1)
  proof (cases rule: snoc_split)
    case (inner m)
    then have "rt_uav a \<noteq> uav" using split by auto
    show ?thesis
      unfolding inner(1)
      by (rule covered_later [OF covered_rest [OF ok inner(2) split(2) [unfolded inner(1)]]])
        (use u \<open>rt_uav a \<noteq> uav\<close> in \<open>auto simp: dget_ddel\<close>)
  qed simp
  then show ?thesis using ok u review_cleared(1) by (auto simp: reviews_ok_def)
next
  case (review_declined h1 h2 m u v s ts e rq rv d)
  have "same_reservations g g'"
    using schedule_decided [OF review_declined(2)] review_declined(3) by (auto simp: decided_def)
  then show ?thesis using reviews_ok_quiet [OF ok] review_declined(1) by simp
next
  case (review_refused h1 h2 m u v s ts e rq rv x)
  have "same_reservations g g'"
    using schedule_decided [OF review_refused(2)] by (auto simp: decided_def)
  then show ?thesis using reviews_ok_quiet [OF ok] review_refused(1) by simp
next
  case (review_unreleased u rq rv ts x)
  then show ?thesis using reviews_ok_quiet [OF ok] finish_refused [OF review_unreleased(2)] by simp
next
  case (review_uncleared u x)
  then show ?thesis using reviews_ok_quiet [OF ok] reset_refused [OF review_uncleared(2)] by simp
qed

lemma reviews_ok_run: "logged_run review_step g0 h g \<Longrightarrow> reviews_ok cd [] g0 \<Longrightarrow> reviews_ok cd h g"
  by (erule logged_run_invariant [where I = "reviews_ok cd"]) (auto intro: reviews_ok_step)

lemma scheduler_init_ok:
  "scheduler_init iv c tr bl = Inr g \<Longrightarrow> reviews_ok (rs_cooldown g) [] g"
  by (auto simp: scheduler_init_def reviews_ok_def rbind_eq_Inr review_timestamp_def
      dest!: real_value_Inr split: if_splits)

text \<open>
  C19. In any run of the scheduler, two reviews submitted for a UAV are separated by the release of the
  first, and the second comes at least the cooldown after both the submission and that release,
  unless the UAV is reset in between (\<open>reset_uav\<close> drops the review in flight and the cooldown of the
  UAV): without a reset, a UAV never has two reviews in flight.
\<close>

theorem review_spacing:
  assumes "scheduler_init iv c tr bl = Inr g0"
    and "logged_run review_step g0 (older @ Submitted a # mid @ Submitted b # newer) g"
    and "rt_uav b = rt_uav a" and "Cleared (rt_uav a) \<notin> set mid"
  shows "\<exists>t. Released a t \<in> set mid \<and> rt_time a \<le> t
    \<and> t + rs_cooldown g0 \<le> rt_time b \<and> rt_time a + rs_cooldown g0 \<le> rt_time b"
proof -
  have "logged_run review_step g0 ((older @ Submitted a # mid) @ Submitted b # newer) g" using assms(2) by simp
  then obtain g1 g2 where run: "logged_run review_step g0 (older @ Submitted a # mid) g1"
    and step: "review_step g1 (Submitted b) g2" by (blast dest: logged_run_split)
  have "covered (rs_cooldown g0) g1 a mid"
    using reviews_ok_run [OF run scheduler_init_ok [OF assms(1)]] assms(4) by (auto simp: reviews_ok_def)
  moreover from step have "dget (rs_inflight g1) (rt_uav a) = None \<and> cooldown_until g1 (rt_uav a) \<le> rt_time b"
    by (cases rule: review_step.cases) (use assms(3) in \<open>auto dest!: schedule_decided simp: decided_def\<close>)
  ultimately show ?thesis by (auto simp: covered_def cooldown_until_def)
qed

text \<open>Two reviews of one UAV, one after the other.\<close>

definition example_scheduler :: review_scheduler where
  "example_scheduler = \<lparr>rs_intervals = [(''GOTO'', 5)], rs_cooldown = 1,
     rs_triggers = DEFAULT_EVENT_TRIGGERS, rs_blocking = DEFAULT_BLOCKING_EVENT_TYPES, rs_active = [],
     rs_due = [], rs_until = [], rs_last = [], rs_inflight = []\<rparr>"

definition example_schedule ::
  "string \<Rightarrow> rat \<Rightarrow> mission_event option \<Rightarrow> review_scheduler
     \<Rightarrow> schedule_decision result \<times> review_scheduler" where
  "example_schedule i now = (\<lambda>event. schedule [] [] (PStr ''m1'') (PStr ''u1'') (PInt 1) (PStr ''GOTO'')
     (PFloat (Fin now)) event (PStr i) (PStr i))"

definition example_ticket :: "string \<Rightarrow> rat \<Rightarrow> review_ticket" where
  "example_ticket i now = \<lparr>rt_request = i, rt_review = i, rt_mission = ''m1'', rt_uav = ''u1'',
     rt_version = 1, rt_skill = ''GOTO'', rt_time = now, rt_trigger = RT_EVENT, rt_blocking = True,
     rt_event = Some ''e1''\<rparr>"

definition example_trigger :: mission_event where
  "example_trigger = \<lparr>ev_id = ''e1'', ev_mission = ''m1'', ev_uav = ''u1'', ev_version = 1, ev_time = 2,
     ev_type = ET_PATH_BLOCKED, ev_severity = SEV_ERROR, ev_payload = []\<rparr>"

definition example_first :: "schedule_decision result \<times> review_scheduler" where
  "example_first = example_schedule ''a'' 2 (Some example_trigger) example_scheduler"

definition example_finish :: "review_ticket result \<times> review_scheduler" where
  "example_finish = finish_review (PStr ''u1'') (PStr ''a'') (PStr ''a'') (PFloat (Fin 3)) (snd example_first)"

definition example_second :: "schedule_decision result \<times> review_scheduler" where
  "example_second = example_schedule ''b'' 4 (Some example_trigger) (snd example_finish)"

theorem review_spacing_witness:
  "fst example_second = Inr \<lparr>sd_reason = SR_SCHEDULED, sd_ticket = Some (example_ticket ''b'' 4)\<rparr>
   \<and> (\<exists>t. Released (example_ticket ''a'' 2) t \<in> set [Released (example_ticket ''a'' 2) 3] \<and> 2 \<le> t
        \<and> t + 1 \<le> 4 \<and> 2 + 1 \<le> (4::rat))"
proof -
  have init: "scheduler_init (PDict [(PStr ''GOTO'', PInt 5)]) (PFloat (Fin 1)) DEFAULT_EVENT_TRIGGERS
      DEFAULT_BLOCKING_EVENT_TYPES = Inr example_scheduler" by code_simp
  have r: "fst example_first = Inr \<lparr>sd_reason = SR_SCHEDULED, sd_ticket = Some (example_ticket ''a'' 2)\<rparr>"
      "fst example_finish = Inr (example_ticket ''a'' 2)"
      "fst example_second = Inr \<lparr>sd_reason = SR_SCHEDULED, sd_ticket = Some (example_ticket ''b'' 4)\<rparr>"
      "review_timestamp ''timestamp_s'' (PFloat (Fin 3)) = Inr 3"
    by code_simp+
  have "review_step example_scheduler (Submitted (example_ticket ''a'' 2)) (snd example_first)"
    by (rule review_submitted [where d = "\<lparr>sd_reason = SR_SCHEDULED, sd_ticket = Some (example_ticket ''a'' 2)\<rparr>", OF prod_eqI]) (use r(1) in \<open>simp_all add: example_first_def example_schedule_def\<close>)
  moreover have "review_step (snd example_first) (Released (example_ticket ''a'' 2) 3) (snd example_finish)"
    by (rule review_released [OF _ r(4)], rule prod_eqI) (use r(2) in \<open>simp_all add: example_finish_def\<close>)
  moreover have "review_step (snd example_finish) (Submitted (example_ticket ''b'' 4)) (snd example_second)"
    by (rule review_submitted [where d = "\<lparr>sd_reason = SR_SCHEDULED, sd_ticket = Some (example_ticket ''b'' 4)\<rparr>", OF prod_eqI]) (use r(3) in \<open>simp_all add: example_second_def example_schedule_def\<close>)
  ultimately have "logged_run review_step example_scheduler ([] @ Submitted (example_ticket ''a'' 2) #
      [Released (example_ticket ''a'' 2) 3] @ Submitted (example_ticket ''b'' 4) # []) (snd example_second)"
    using logged_more [OF logged_more [OF logged_more [OF logged_start]]] by simp
  from review_spacing [OF init this] r(3) show ?thesis
    by (simp add: example_ticket_def example_scheduler_def)
qed

section \<open>What is decided\<close>

definition event_triggers :: "review_scheduler \<Rightarrow> mission_event option \<Rightarrow> bool" where
  "event_triggers g event = (case event of None \<Rightarrow> False | Some e \<Rightarrow> ev_type e \<in> set (rs_triggers g))"

definition period_over :: "review_scheduler \<Rightarrow> string \<Rightarrow> string \<Rightarrow> rat \<Rightarrow> bool" where
  "period_over g uav skill now = (dget (rs_active g) uav = Some skill
     \<and> (case dget (rs_due g) uav of Some (Some due) \<Rightarrow> due \<le> now | _ \<Rightarrow> False))"

lemma review_due_entered:
  assumes "list_all (\<lambda>e. 0 < snd e) (rs_intervals g)"
  shows "review_due (enter_skill u s now (g\<lparr>rs_last := l\<rparr>)) u now e = None
      \<longleftrightarrow> \<not> event_triggers g e \<and> \<not> period_over g u s now"
    and "review_due (enter_skill u s now (g\<lparr>rs_last := l\<rparr>)) u now e = Some (tr, bl, i) \<Longrightarrow>
      (bl \<longleftrightarrow> (\<exists>x. e = Some x \<and> ev_type x \<in> set (rs_triggers g) \<and> ev_type x \<in> set (rs_blocking g)
          \<and> ev_type x \<noteq> ET_PERIODIC_REVIEW_DUE))
      \<and> (tr = RT_EVENT \<longleftrightarrow> (\<exists>x. e = Some x \<and> ev_type x \<in> set (rs_triggers g) \<and> ev_type x \<noteq> ET_PERIODIC_REVIEW_DUE))
      \<and> (i \<noteq> None \<longrightarrow> i = map_option ev_id e)"
proof -
  have pos: "0 < y" if "dget (rs_intervals g) s = Some y" for y
    using assms map_of_SomeD [OF that] by (auto simp: list_all_iff)
  show "review_due (enter_skill u s now (g\<lparr>rs_last := l\<rparr>)) u now e = None
      \<longleftrightarrow> \<not> event_triggers g e \<and> \<not> period_over g u s now"
    by (auto simp: review_due_def enter_skill_def event_triggers_def period_over_def dget_dset
        next_due_def not_le dest: pos split: option.splits)
  show "review_due (enter_skill u s now (g\<lparr>rs_last := l\<rparr>)) u now e = Some (tr, bl, i) \<Longrightarrow>
      (bl \<longleftrightarrow> (\<exists>x. e = Some x \<and> ev_type x \<in> set (rs_triggers g) \<and> ev_type x \<in> set (rs_blocking g)
          \<and> ev_type x \<noteq> ET_PERIODIC_REVIEW_DUE))
      \<and> (tr = RT_EVENT \<longleftrightarrow> (\<exists>x. e = Some x \<and> ev_type x \<in> set (rs_triggers g) \<and> ev_type x \<noteq> ET_PERIODIC_REVIEW_DUE))
      \<and> (i \<noteq> None \<longrightarrow> i = map_option ev_id e)"
    by (auto simp: review_due_def enter_skill_def split: option.split_asm if_split_asm)
qed

text \<open>
  On valid arguments, at a time that is not before the last one, \<open>schedule\<close> never raises: a UAV
  with a review in flight gets none; without a triggering event or an elapsed period of the skill
  already active, none is due; a due review waits for the cooldown; otherwise it is submitted, and it
  asks for a hover exactly when its event is of a blocking type that is not the periodic one.
\<close>

theorem schedule_decides:
  assumes "routing_id_match m" "routing_id_match u" "0 < v" "s \<noteq> []" "\<not> list_ex upper_changes s" "0 \<le> now"
    and "event_matches e m u v now = Inr ()" "list_all (\<lambda>x. routing_id_match (ev_id x)) (case e of Some x \<Rightarrow> [x] | None \<Rightarrow> [])"
    and "routing_id_match rq" "routing_id_match rv"
    and "case dget (rs_last g) u of Some t \<Rightarrow> t \<le> now | None \<Rightarrow> True"
    and "list_all (\<lambda>x. 0 < snd x) (rs_intervals g)"
  shows "\<exists>d g'. schedule hx hy (PStr m) (PStr u) (PInt v) (PStr s) (PFloat (Fin now)) e (PStr rq) (PStr rv) g = (Inr d, g')
    \<and> sd_reason d = (if dget (rs_inflight g) u \<noteq> None then SR_IN_FLIGHT
        else if \<not> event_triggers g e \<and> \<not> period_over g u s now then SR_NOT_DUE
        else if now < cooldown_until g u then SR_COOLDOWN else SR_SCHEDULED)
    \<and> decision_blocking d = (sd_reason d = SR_SCHEDULED
        \<and> (\<exists>x. e = Some x \<and> ev_type x \<in> set (rs_triggers g) \<and> ev_type x \<in> set (rs_blocking g)
             \<and> ev_type x \<noteq> ET_PERIODIC_REVIEW_DUE))
    \<and> (sd_ticket d \<noteq> None \<longleftrightarrow> sd_reason d = SR_SCHEDULED)"
proof -
  let ?g = "enter_skill u s now (g\<lparr>rs_last := dset (rs_last g) u now\<rparr>)"
  have arg: "review_skill (PStr s) = Inr s" "review_timestamp f (PFloat (Fin now)) = Inr now"
    "positive_plan_version (PInt v) = Inr v" for f
    using assms by (simp_all add: review_skill_def review_timestamp_def positive_plan_version_def)
  have mono: "require_monotonic u now g = (Inr (), g\<lparr>rs_last := dset (rs_last g) u now\<rparr>)"
    using assms(11) by (auto simp: require_monotonic_def split: option.splits)
  have same: "cooldown_until ?g u = cooldown_until g u" "rs_inflight ?g = rs_inflight g"
    by (simp_all add: cooldown_until_def enter_skill_def)
  have run: "schedule hx hy (PStr m) (PStr u) (PInt v) (PStr s) (PFloat (Fin now)) e (PStr rq) (PStr rv) g
      = reserve_review hx hy m u v s now e (Some rq) (Some rv) ?g"
    using assms arg mono by (simp add: schedule_def opt_check_def)
  note due = review_due_entered [OF assms(12), of u s now "dset (rs_last g) u now" e]
  show ?thesis
  proof (cases "review_due ?g u now e")
    case None
    then have "\<not> event_triggers g e" "\<not> period_over g u s now" using due(1) by simp_all
    then show ?thesis by (simp add: run reserve_review_def None same decision_blocking_def)
  next
    case (Some z)
    obtain tr bl i where z: "z = (tr, bl, i)" by (cases z)
    have trig: "event_triggers g e \<or> period_over g u s now" using due(1) Some by auto
    have "opt_check (\<lambda>v. validate_routing_id v ''event_id'') (opt_pyval PStr i) = Inr i"
    proof (cases i)
      case (Some k)
      then obtain x where "e = Some x" "k = ev_id x" using due(2) [OF \<open>_ = Some z\<close> [unfolded z]] by (cases e) auto
      then show ?thesis using assms(8) Some by (simp add: opt_check_def)
    qed simp
    then have "ReviewTicket (PStr rq) (PStr rv) (PStr m) (PStr u) (PInt v) (PStr s) (PFloat (Fin now)) tr bl
        (opt_pyval PStr i) = Inr \<lparr>rt_request = rq, rt_review = rv, rt_mission = m, rt_uav = u, rt_version = v,
          rt_skill = s, rt_time = now, rt_trigger = tr, rt_blocking = bl, rt_event = i\<rparr>"
      using assms arg by (simp add: ReviewTicket_def)
    then show ?thesis
      using trig due(2) [OF Some [unfolded z]]
      by (auto simp: run reserve_review_def Some z same decision_blocking_def Let_def)
  qed
qed

theorem schedule_decides_witness:
  "fst example_first = Inr \<lparr>sd_reason = SR_SCHEDULED, sd_ticket = Some (example_ticket ''a'' 2)\<rparr>
   \<and> (\<exists>d g'. schedule [] [] (PStr ''m1'') (PStr ''u1'') (PInt 1) (PStr ''GOTO'') (PFloat (Fin 2))
        (Some example_trigger) (PStr ''a'') (PStr ''a'') example_scheduler = (Inr d, g')
        \<and> sd_reason d = SR_SCHEDULED \<and> decision_blocking d)"
proof -
  have "routing_id_match ''m1''" "routing_id_match ''u1''" "routing_id_match ''a''" "routing_id_match ''e1''"
    "\<not> list_ex upper_changes ''GOTO''" "event_matches (Some example_trigger) ''m1'' ''u1'' 1 2 = Inr ()"
    "fst example_first = Inr \<lparr>sd_reason = SR_SCHEDULED, sd_ticket = Some (example_ticket ''a'' 2)\<rparr>"
    "event_triggers example_scheduler (Some example_trigger)"
    "ev_type example_trigger \<in> set (rs_blocking example_scheduler)"
    "ev_type example_trigger \<in> set (rs_triggers example_scheduler)"
    by code_simp+
  note facts = this
  from schedule_decides [where hx = "[]" and hy = "[]", OF facts(1,2) _ _ facts(5) _ facts(6) _ facts(3,3),
      where g = example_scheduler]
  show ?thesis
    using facts by (auto simp: example_trigger_def example_scheduler_def cooldown_until_def)
qed

end
