(* ===== verification/Obstacle_Geometry.thy ===== *)
theory Obstacle_Geometry
  imports Spatial_Contract
begin

text \<open>
  \<open>common/obstacle_types.py\<close>: axis-aligned boxes, the slab test of a segment against a box, flight
  corridors, and the values an obstacle observation is made of.  Coordinates are exact rationals, and
  the literal \<open>1e-15\<close> is the decimal it is written as.  The camera pose, whose quaternion is
  normalized with a square root, is not modelled.
\<close>

section \<open>Field checks\<close>

datatype motion_state = MS_STATIC | MS_DYNAMIC | MS_UNKNOWN

fun motion_value :: "motion_state \<Rightarrow> string" where
  "motion_value MS_STATIC = ''STATIC''"
| "motion_value MS_DYNAMIC = ''DYNAMIC''"
| "motion_value MS_UNKNOWN = ''UNKNOWN''"

definition motion_arg :: "pyval \<Rightarrow> motion_state result" where
  "motion_arg v = (case enum_of ''ObstacleMotionState'' motion_value [MS_STATIC, MS_DYNAMIC, MS_UNKNOWN] v of
     Inr m \<Rightarrow> Inr m | Inl e \<Rightarrow> Inl (ValueError ''motion_state must be STATIC, DYNAMIC, or UNKNOWN''))"

definition geo_finite :: "string \<Rightarrow> pyval \<Rightarrow> rat result" where
  "geo_finite name = real_value (TypeError (name @ '' must be a finite number''))
     (ValueError (name @ '' must be finite'')) (\<lambda>x. True)"

definition geo_vector :: "string \<Rightarrow> nat \<Rightarrow> pyval \<Rightarrow> rat list result" where
  "geo_vector name n v =
     rbind (case v of
              PStr s \<Rightarrow> Inl (TypeError (name @ '' must contain exactly '' @ decimal n @ '' numbers''))
            | _ \<Rightarrow> (case py_iter v of
                Inr xs \<Rightarrow> Inr xs
              | Inl e \<Rightarrow> Inl (TypeError (name @ '' must contain exactly '' @ decimal n @ '' numbers'')))) (\<lambda>xs.
     if length xs \<noteq> n
     then Inl (ValueError (name @ '' must contain exactly '' @ decimal n @ '' numbers''))
     else rmap (\<lambda>(i, x). geo_finite (item_name name i) x) (enumerate 0 xs))"

definition positive_vector3 :: "string \<Rightarrow> pyval \<Rightarrow> rat list result" where
  "positive_vector3 name v =
     rbind (geo_vector name 3 v) (\<lambda>p.
       if list_ex (\<lambda>x. x \<le> 0) p then Inl (ValueError (name @ '' values must be greater than zero''))
       else Inr p)"

section \<open>Boxes\<close>

record aabb =
  bb_min :: "rat list"
  bb_max :: "rat list"

definition ObstacleAABB :: "pyval \<Rightarrow> pyval \<Rightarrow> aabb result" where
  "ObstacleAABB min_xyz max_xyz =
     rbind (geo_vector ''min_xyz_m'' 3 min_xyz) (\<lambda>low.
     rbind (geo_vector ''max_xyz_m'' 3 max_xyz) (\<lambda>high.
       if list_ex (\<lambda>(l, h). l \<ge> h) (zip low high)
       then Inl (ValueError ''min_xyz_m must be strictly less than max_xyz_m'')
       else Inr \<lparr>bb_min = low, bb_max = high\<rparr>))"

definition from_center_size :: "pyval \<Rightarrow> pyval \<Rightarrow> aabb result" where
  "from_center_size center size_xyz =
     rbind (geo_vector ''center_xyz_m'' 3 center) (\<lambda>center.
     rbind (positive_vector3 ''size_xyz_m'' size_xyz) (\<lambda>size_xyz.
       let half = map (\<lambda>x. x / 2) size_xyz
       in ObstacleAABB (PTuple (map2 (\<lambda>c e. pfloat (c - e)) center half))
            (PTuple (map2 (\<lambda>c e. pfloat (c + e)) center half))))"

definition box_center :: "aabb \<Rightarrow> rat list" where
  "box_center b = map2 (\<lambda>l h. (l + h) / 2) (bb_min b) (bb_max b)"

definition box_size :: "aabb \<Rightarrow> rat list" where
  "box_size b = map2 (\<lambda>l h. h - l) (bb_min b) (bb_max b)"

definition box_expanded :: "aabb \<Rightarrow> pyval \<Rightarrow> aabb result" where
  "box_expanded b half_extent =
     rbind (geo_vector ''half_extent_xyz_m'' 3 half_extent) (\<lambda>e.
       if list_ex (\<lambda>x. x < 0) e
       then Inl (ValueError ''half_extent_xyz_m values must be non-negative'')
       else ObstacleAABB (PTuple (map2 (\<lambda>l x. pfloat (l - x)) (bb_min b) e))
              (PTuple (map2 (\<lambda>h x. pfloat (h + x)) (bb_max b) e)))"

definition point_in :: "aabb \<Rightarrow> bool \<Rightarrow> rat list \<Rightarrow> bool" where
  "point_in b strict p =
     (if strict then list_all (\<lambda>(l, x, h). l < x \<and> x < h) (zip (bb_min b) (zip p (bb_max b)))
      else list_all (\<lambda>(l, x, h). l \<le> x \<and> x \<le> h) (zip (bb_min b) (zip p (bb_max b))))"

definition box_contains :: "aabb \<Rightarrow> bool \<Rightarrow> pyval \<Rightarrow> bool result" where
  "box_contains b strict p = rbind (geo_vector ''point_xyz_m'' 3 p) (\<lambda>p. Inr (point_in b strict p))"

definition box_intersects :: "aabb \<Rightarrow> aabb \<Rightarrow> bool" where
  "box_intersects a b =
     list_all (\<lambda>(al, ah, bl, bh). al \<le> bh \<and> bl \<le> ah)
       (zip (bb_min a) (zip (bb_max a) (zip (bb_min b) (bb_max b))))"

text \<open>
  The loop of \<open>segment_intersection_fraction\<close> over the axes, with the entry and exit fractions it
  narrows; \<open>None\<close> is its early return.
\<close>

fun slab_loop :: "aabb \<Rightarrow> rat list \<Rightarrow> rat list \<Rightarrow> nat list \<Rightarrow> rat \<Rightarrow> rat \<Rightarrow> (rat \<times> rat) option" where
  "slab_loop b start stop [] entry leave = Some (entry, leave)"
| "slab_loop b start stop (axis # axes) entry leave =
     (let delta = stop ! axis - start ! axis;
          low = bb_min b ! axis;
          high = bb_max b ! axis
      in if \<bar>delta\<bar> \<le> 1 / 10 ^ 15
         then (if start ! axis < low \<or> start ! axis > high then None
               else slab_loop b start stop axes entry leave)
         else
           let first = (low - start ! axis) / delta;
               second = (high - start ! axis) / delta;
               entry = max entry (min first second);
               leave = min leave (max first second)
           in if entry > leave then None else slab_loop b start stop axes entry leave)"

definition segment_fraction :: "aabb \<Rightarrow> rat list \<Rightarrow> rat list \<Rightarrow> rat option" where
  "segment_fraction b start stop =
     (case slab_loop b start stop [0, 1, 2] 0 1 of
        None \<Rightarrow> None
      | Some (entry, leave) \<Rightarrow> if leave < 0 \<or> entry > 1 then None else Some (max 0 entry))"

definition segment_intersection_fraction :: "aabb \<Rightarrow> pyval \<Rightarrow> pyval \<Rightarrow> rat option result" where
  "segment_intersection_fraction b start stop =
     rbind (geo_vector ''start_xyz_m'' 3 start) (\<lambda>start.
     rbind (geo_vector ''end_xyz_m'' 3 stop) (\<lambda>stop. Inr (segment_fraction b start stop)))"

definition box_corners :: "aabb \<Rightarrow> rat list list" where
  "box_corners b =
     concat (map (\<lambda>x. concat (map (\<lambda>y. map (\<lambda>z. [x, y, z]) [bb_min b ! 2, bb_max b ! 2])
       [bb_min b ! 1, bb_max b ! 1])) [bb_min b ! 0, bb_max b ! 0])"

section \<open>Obstacles and observations\<close>

record obstacle_spec =
  os_id :: string
  os_center :: "rat list"
  os_size :: "rat list"
  os_color :: "rat list"
  os_collidable :: bool
  os_motion :: motion_state

definition ObstacleSpec ::
  "pyval \<Rightarrow> pyval \<Rightarrow> pyval \<Rightarrow> pyval \<Rightarrow> pyval \<Rightarrow> pyval \<Rightarrow> obstacle_spec result" where
  "ObstacleSpec obstacle center size_xyz color collidable motion =
     rbind (validate_routing_id obstacle ''obstacle_id'') (\<lambda>obstacle.
     rbind (geo_vector ''center_xyz_m'' 3 center) (\<lambda>center.
     rbind (positive_vector3 ''size_xyz_m'' size_xyz) (\<lambda>size_xyz.
     rbind (geo_vector ''color_rgb'' 3 color) (\<lambda>color.
     if list_ex (\<lambda>x. x < 0 \<or> x > 1) color
     then Inl (ValueError ''color_rgb values must be between zero and one'')
     else rbind (bool_value (TypeError ''collidable must be a bool'') collidable) (\<lambda>collidable.
          rbind (motion_arg motion) (\<lambda>motion.
            Inr \<lparr>os_id = obstacle, os_center = center, os_size = size_xyz, os_color = color,
              os_collidable = collidable, os_motion = motion\<rparr>))))))"

definition spec_aabb :: "obstacle_spec \<Rightarrow> aabb result" where
  "spec_aabb s = from_center_size (PTuple (map pfloat (os_center s))) (PTuple (map pfloat (os_size s)))"

record flight_corridor =
  fc_start :: "rat list"
  fc_end :: "rat list"
  fc_radius :: rat

definition FlightCorridor :: "pyval \<Rightarrow> pyval \<Rightarrow> pyval \<Rightarrow> flight_corridor result" where
  "FlightCorridor start stop radius =
     rbind (geo_vector ''start_world_m'' 3 start) (\<lambda>start.
     rbind (geo_vector ''end_world_m'' 3 stop) (\<lambda>stop.
     rbind (geo_finite ''radius_m'' radius) (\<lambda>radius.
       if radius < 0 then Inl (ValueError ''radius_m must be non-negative'')
       else Inr \<lparr>fc_start = start, fc_end = stop, fc_radius = radius\<rparr>)))"

definition corridor_intersects :: "flight_corridor \<Rightarrow> aabb \<Rightarrow> bool result" where
  "corridor_intersects c obstacle =
     rbind (box_expanded obstacle (PTuple (replicate 3 (pfloat (fc_radius c))))) (\<lambda>expanded.
     rbind (segment_intersection_fraction expanded (PTuple (map pfloat (fc_start c)))
              (PTuple (map pfloat (fc_end c)))) (\<lambda>fraction. Inr (fraction \<noteq> None)))"

record visible_obstacle =
  vo_id :: string
  vo_bbox :: "rat list"
  vo_center :: "rat list"
  vo_size :: "rat list"
  vo_depth :: rat
  vo_occlusion :: rat
  vo_motion :: motion_state
  vo_corridor :: bool
  vo_ttc :: "rat option"

definition VisibleObstacle ::
  "pyval \<Rightarrow> pyval \<Rightarrow> pyval \<Rightarrow> pyval \<Rightarrow> pyval \<Rightarrow> pyval \<Rightarrow> pyval \<Rightarrow> pyval \<Rightarrow> pyval \<Rightarrow> visible_obstacle result" where
  "VisibleObstacle obstacle bbox center size_xyz depth occlusion motion corridor ttc =
     rbind (validate_routing_id obstacle ''obstacle_id'') (\<lambda>obstacle.
     rbind (geo_vector ''bbox_xyxy_normalized'' 4 bbox) (\<lambda>bbox.
     if list_ex (\<lambda>x. x < 0 \<or> x > 1) bbox
     then Inl (ValueError ''bbox_xyxy_normalized values must be between zero and one'')
     else if bbox ! 0 \<ge> bbox ! 2 \<or> bbox ! 1 \<ge> bbox ! 3
     then Inl (ValueError ''bbox_xyxy_normalized must have positive area'')
     else
       rbind (geo_vector ''relative_center_m'' 3 center) (\<lambda>center.
       rbind (positive_vector3 ''relative_size_m'' size_xyz) (\<lambda>size_xyz.
       rbind (geo_finite ''depth_m'' depth) (\<lambda>depth.
       if depth \<le> 0 then Inl (ValueError ''depth_m must be greater than zero'')
       else
         rbind (geo_finite ''occlusion_ratio'' occlusion) (\<lambda>occlusion.
         if \<not> (0 \<le> occlusion \<and> occlusion \<le> 1)
         then Inl (ValueError ''occlusion_ratio must be between zero and one'')
         else
           rbind (motion_arg motion) (\<lambda>motion.
           rbind (bool_value (TypeError ''active_corridor_intersection must be a bool'') corridor) (\<lambda>corridor.
           rbind (opt_check (\<lambda>v. rbind (geo_finite ''time_to_collision_s'' v) (\<lambda>x.
                    if x < 0 then Inl (ValueError ''time_to_collision_s must be non-negative or None'')
                    else Inr x)) ttc) (\<lambda>ttc.
             Inr \<lparr>vo_id = obstacle, vo_bbox = bbox, vo_center = center, vo_size = size_xyz, vo_depth = depth,
               vo_occlusion = occlusion, vo_motion = motion, vo_corridor = corridor, vo_ttc = ttc\<rparr>)))))))))"

definition visible_to_dict :: "visible_obstacle \<Rightarrow> (string \<times> pyval) list" where
  "visible_to_dict v =
     [(''obstacle_id'', PStr (vo_id v)), (''bbox_xyxy_normalized'', point_list (vo_bbox v)),
      (''relative_center_m'', point_list (vo_center v)), (''relative_size_m'', point_list (vo_size v)),
      (''depth_m'', pfloat (vo_depth v)), (''occlusion_ratio'', pfloat (vo_occlusion v)),
      (''motion_state'', PStr (motion_value (vo_motion v))),
      (''active_corridor_intersection'', PBool (vo_corridor v)),
      (''time_to_collision_s'', opt_pyval pfloat (vo_ttc v))]"

definition IDEAL_CAMERA_OBSTACLE_SOURCE :: string where
  "IDEAL_CAMERA_OBSTACLE_SOURCE = ''ideal_camera_obstacle_perception''"

definition CAMERA_COORDINATE_FRAME :: string where
  "CAMERA_COORDINATE_FRAME = ''CAMERA_FLU''"

text \<open>The source, the mark and the frame of an observation can only have one value each.\<close>

record obstacle_observation =
  oo_id :: string
  oo_frame :: string
  oo_uav :: string
  oo_time :: rat
  oo_visible :: "visible_obstacle list"
  oo_source :: string
  oo_privileged :: bool
  oo_coordinates :: string

definition ObstacleObservation ::
  "pyval \<Rightarrow> pyval \<Rightarrow> pyval \<Rightarrow> pyval \<Rightarrow> visible_obstacle list \<Rightarrow> pyval \<Rightarrow> pyval \<Rightarrow> pyval
     \<Rightarrow> obstacle_observation result" where
  "ObstacleObservation observation frame uav timestamp visible source privileged coordinates =
     rbind (validate_routing_id observation ''observation_id'') (\<lambda>observation.
     rbind (validate_routing_id frame ''frame_id'') (\<lambda>frame.
     rbind (validate_uav_id uav) (\<lambda>uav.
     rbind (geo_finite ''timestamp_s'' timestamp) (\<lambda>timestamp.
     if timestamp < 0 then Inl (ValueError ''timestamp_s must be non-negative'')
     else if \<not> distinct (map vo_id visible)
     then Inl (ValueError ''visible_obstacles must not contain duplicate obstacle_id values'')
     else if source \<noteq> PStr IDEAL_CAMERA_OBSTACLE_SOURCE
     then Inl (ValueError (''source must be '' @ [CHR 0x27] @ IDEAL_CAMERA_OBSTACLE_SOURCE @ [CHR 0x27]
            @ '' for ideal observations''))
     else if privileged \<noteq> PBool True
     then Inl (ValueError ''ideal camera obstacle observations must be marked privileged'')
     else if coordinates \<noteq> PStr CAMERA_COORDINATE_FRAME
     then Inl (ValueError (''coordinate_frame must be '' @ CAMERA_COORDINATE_FRAME))
     else Inr \<lparr>oo_id = observation, oo_frame = frame, oo_uav = uav, oo_time = timestamp,
       oo_visible = visible, oo_source = IDEAL_CAMERA_OBSTACLE_SOURCE, oo_privileged = True,
       oo_coordinates = CAMERA_COORDINATE_FRAME\<rparr>))))"

definition observation_to_dict :: "obstacle_observation \<Rightarrow> (string \<times> pyval) list" where
  "observation_to_dict x =
     [(''observation_id'', PStr (oo_id x)), (''frame_id'', PStr (oo_frame x)), (''uav_id'', PStr (oo_uav x)),
      (''timestamp_s'', pfloat (oo_time x)), (''source'', PStr (oo_source x)),
      (''privileged'', PBool (oo_privileged x)), (''coordinate_frame'', PStr (oo_coordinates x)),
      (''visible_obstacles'', PList (map (\<lambda>v. pdict (visible_to_dict v)) (oo_visible x)))]"

definition manifest_fields :: "obstacle_observation \<Rightarrow> (string \<times> pyval) list" where
  "manifest_fields x =
     [(''obstacle_perception_source'', PStr (oo_source x)),
      (''obstacle_perception_privileged'', PBool (oo_privileged x)),
      (''obstacle_coordinate_frame'', PStr (oo_coordinates x))]"

section \<open>The slab test\<close>

definition box_ok :: "aabb \<Rightarrow> bool" where
  "box_ok b \<longleftrightarrow> length (bb_min b) = 3 \<and> length (bb_max b) = 3 \<and> (\<forall>i<3. bb_min b ! i < bb_max b ! i)"

definition segment_point :: "rat list \<Rightarrow> rat list \<Rightarrow> rat \<Rightarrow> rat list" where
  "segment_point start stop t = map2 (\<lambda>s e. s + t * (e - s)) start stop"

definition in_slab :: "aabb \<Rightarrow> rat list \<Rightarrow> rat list \<Rightarrow> rat \<Rightarrow> nat \<Rightarrow> bool" where
  "in_slab b start stop t i \<longleftrightarrow> bb_min b ! i \<le> start ! i + t * (stop ! i - start ! i)
     \<and> start ! i + t * (stop ! i - start ! i) \<le> bb_max b ! i"

text \<open>
  The test ignores a motion of at most \<open>1e-15\<close> along an axis: it sees the segment to the end that
  has the start's coordinate there.  On a clear axis, one that is fixed or moves by more, that is the
  end itself.
\<close>

definition snapped :: "rat list \<Rightarrow> rat list \<Rightarrow> rat list" where
  "snapped start stop = map2 (\<lambda>a b. if \<bar>b - a\<bar> \<le> 1 / 10 ^ 15 then a else b) start stop"

definition axis_clear :: "rat list \<Rightarrow> rat list \<Rightarrow> nat \<Rightarrow> bool" where
  "axis_clear start stop i \<longleftrightarrow> stop ! i = start ! i \<or> 1 / 10 ^ 15 < \<bar>stop ! i - start ! i\<bar>"

lemma all_axes: "(\<forall>i<3. P i) \<longleftrightarrow> P 0 \<and> P (1::nat) \<and> P 2"
proof -
  have "i < 3 \<longleftrightarrow> i = 0 \<or> i = 1 \<or> i = 2" for i :: nat by auto
  then show ?thesis by auto
qed

lemma length_3:
  assumes "length p = 3"
  shows "\<exists>x y z. p = [x, y, z]"
  using assms by (auto simp: numeral_3_eq_3 length_Suc_conv)

lemma point_in_axes:
  assumes "length (bb_min b) = 3" "length (bb_max b) = 3" "length p = 3"
  shows "point_in b False p \<longleftrightarrow> (\<forall>i<3. bb_min b ! i \<le> p ! i \<and> p ! i \<le> bb_max b ! i)"
proof -
  obtain a1 a2 a3 c1 c2 c3 x y z where "bb_min b = [a1, a2, a3]" "bb_max b = [c1, c2, c3]" "p = [x, y, z]"
    using assms [THEN length_3] by blast
  then show ?thesis unfolding all_axes by (auto simp: point_in_def)
qed

lemma segment_point_axes:
  assumes "length start = 3" "length stop = 3"
  shows "length (segment_point start stop t) = 3"
    "i < 3 \<Longrightarrow> segment_point start stop t ! i = start ! i + t * (stop ! i - start ! i)"
  using assms by (simp_all add: segment_point_def)

lemma point_in_slabs:
  assumes "box_ok b" "length start = 3" "length stop = 3"
  shows "point_in b False (segment_point start stop t) \<longleftrightarrow> (\<forall>i\<in>set [0, 1, 2]. in_slab b start stop t i)"
proof -
  have "point_in b False (segment_point start stop t)
      \<longleftrightarrow> (\<forall>i<3. bb_min b ! i \<le> segment_point start stop t ! i \<and> segment_point start stop t ! i \<le> bb_max b ! i)"
    using assms segment_point_axes(1) by (intro point_in_axes) (simp_all add: box_ok_def)
  then show ?thesis
    unfolding all_axes using assms(2,3) by (simp add: segment_point_axes(2) in_slab_def)
qed

lemma axis_interval:
  fixes s d l h t :: rat
  assumes "d \<noteq> 0" and "l \<le> h"
  shows "(l \<le> s + t * d \<and> s + t * d \<le> h)
    \<longleftrightarrow> min ((l - s) / d) ((h - s) / d) \<le> t \<and> t \<le> max ((l - s) / d) ((h - s) / d)"
proof (cases "0 < d")
  case True
  then have "(l - s) / d \<le> (h - s) / d" using assms(2) by (simp add: divide_right_mono)
  then show ?thesis using True by (auto simp: min_def max_def pos_divide_le_eq pos_le_divide_eq)
next
  case False
  then have d: "d < 0" using assms(1) by simp
  then have "(h - s) / d \<le> (l - s) / d" using assms(2) by (simp add: divide_right_mono_neg)
  then show ?thesis using d by (auto simp: min_def max_def neg_divide_le_eq neg_le_divide_eq)
qed

text \<open>The fractions at which a condition holds: none, or a closed interval.\<close>

definition holds_between :: "(rat \<times> rat) option \<Rightarrow> (rat \<Rightarrow> bool) \<Rightarrow> bool" where
  "holds_between r P \<longleftrightarrow> (case r of
     None \<Rightarrow> \<forall>t. \<not> P t
   | Some (e, l) \<Rightarrow> e \<le> l \<and> (\<forall>t. P t \<longleftrightarrow> e \<le> t \<and> t \<le> l))"

lemma slab_loop_exact:
  assumes "box_ok b" and "\<forall>i\<in>set axes. i < 3 \<and> axis_clear start stop i" and "entry \<le> leave"
  shows "holds_between (slab_loop b start stop axes entry leave)
    (\<lambda>t. entry \<le> t \<and> t \<le> leave \<and> (\<forall>i\<in>set axes. in_slab b start stop t i))"
  using assms(2,3)
proof (induction axes arbitrary: entry leave)
  case (Cons i axes)
  let ?d = "stop ! i - start ! i" and ?l = "bb_min b ! i" and ?h = "bb_max b ! i"
  let ?P = "\<lambda>t. entry \<le> t \<and> t \<le> leave \<and> (\<forall>i\<in>set (i # axes). in_slab b start stop t i)"
  have lh: "?l \<le> ?h" using assms(1) Cons.prems(1) by (auto simp: box_ok_def intro: less_imp_le)
  have rest: "\<forall>i\<in>set axes. i < 3 \<and> axis_clear start stop i" using Cons.prems(1) by simp
  show ?case
  proof (cases "\<bar>?d\<bar> \<le> 1 / 10 ^ 15")
    case True
    then have d: "?d = 0" using Cons.prems(1) by (auto simp: axis_clear_def)
    then have slab: "in_slab b start stop t i \<longleftrightarrow> \<not> (start ! i < ?l \<or> start ! i > ?h)" for t
      by (auto simp: in_slab_def)
    show ?thesis
    proof (cases "start ! i < ?l \<or> start ! i > ?h")
      case out: True
      then show ?thesis using True slab by (simp add: Let_def holds_between_def)
    next
      case False
      then have "?P = (\<lambda>t. entry \<le> t \<and> t \<le> leave \<and> (\<forall>i\<in>set axes. in_slab b start stop t i))"
        using slab by auto
      moreover have "slab_loop b start stop (i # axes) entry leave = slab_loop b start stop axes entry leave"
        using True False by (simp add: Let_def)
      ultimately show ?thesis using Cons.IH [OF rest Cons.prems(2)] by (simp only:)
    qed
  next
    case False
    then have d: "?d \<noteq> 0" by auto
    let ?a = "min ((?l - start ! i) / ?d) ((?h - start ! i) / ?d)"
      and ?b = "max ((?l - start ! i) / ?d) ((?h - start ! i) / ?d)"
    have slab: "in_slab b start stop t i \<longleftrightarrow> ?a \<le> t \<and> t \<le> ?b" for t
      unfolding in_slab_def by (rule axis_interval [OF d lh])
    have run: "slab_loop b start stop (i # axes) entry leave = (if max entry ?a > min leave ?b then None
        else slab_loop b start stop axes (max entry ?a) (min leave ?b))"
      using False by (simp add: Let_def)
    have P: "?P = (\<lambda>t. max entry ?a \<le> t \<and> t \<le> min leave ?b \<and> (\<forall>i\<in>set axes. in_slab b start stop t i))"
      unfolding list.set ball_simps slab max.bounded_iff min.bounded_iff by blast
    show ?thesis
    proof (cases "max entry ?a > min leave ?b")
      case True
      then have "\<not> (max entry ?a \<le> t \<and> t \<le> min leave ?b)" for t by (meson leD order_trans)
      then show ?thesis
        unfolding run P using True by (simp only: if_True holds_between_def option.case) blast
    next
      case inner: False
      then have "max entry ?a \<le> min leave ?b" by linarith
      from Cons.IH [OF rest this] show ?thesis unfolding run P using inner by (simp only: if_False)
    qed
  qed
qed (simp add: holds_between_def)

lemma geo_vector_floats [simp]: "length p = n \<Longrightarrow> geo_vector name n (PTuple (map pfloat p)) = Inr p"
  by (auto simp: geo_vector_def geo_finite_def intro: rmap_enumerate_map)

lemma geo_vector_length: "geo_vector name n v = Inr p \<Longrightarrow> length p = n"
  by (auto simp: geo_vector_def rbind_eq_Inr dest: rmap_Inr_length split: if_splits)

lemma map2_pfloat: "map2 (\<lambda>x y. pfloat (f x y)) xs ys = map pfloat (map2 f xs ys)"
  by (simp add: split_def)

lemma box_rows:
  assumes "length low = 3" "length high = 3"
  shows "\<not> list_ex (\<lambda>(l, h). l \<ge> h) (zip low high) \<longleftrightarrow> (\<forall>i<3. low ! i < (high ! i :: rat))"
proof -
  obtain a1 a2 a3 c1 c2 c3 where "low = [a1, a2, a3]" "high = [c1, c2, c3]"
    using assms [THEN length_3] by blast
  then show ?thesis unfolding all_axes by (auto simp: not_le)
qed

lemma ObstacleAABB_floats:
  assumes "length low = 3" "length high = 3" "\<forall>i<3. low ! i < high ! i"
  shows "ObstacleAABB (PTuple (map pfloat low)) (PTuple (map pfloat high)) = Inr \<lparr>bb_min = low, bb_max = high\<rparr>"
  using assms box_rows [of low high] by (simp add: ObstacleAABB_def)

lemma ObstacleAABB_ok:
  assumes "ObstacleAABB u v = Inr b"
  shows "box_ok b"
proof -
  obtain low high where "length low = 3" "length high = 3" "\<not> list_ex (\<lambda>(l, h). l \<ge> h) (zip low high)"
    "b = \<lparr>bb_min = low, bb_max = high\<rparr>"
    using assms by (auto simp: ObstacleAABB_def rbind_eq_Inr dest: geo_vector_length split: if_splits)
  then show ?thesis using box_rows [of low high] by (simp add: box_ok_def)
qed

lemma segment_fraction_exact:
  assumes "box_ok b" "length start = 3" "length stop = 3" "\<forall>i<3. axis_clear start stop i"
  shows "case segment_fraction b start stop of
      None \<Rightarrow> \<forall>t. 0 \<le> t \<and> t \<le> 1 \<longrightarrow> \<not> point_in b False (segment_point start stop t)
    | Some t \<Rightarrow> 0 \<le> t \<and> t \<le> 1 \<and> point_in b False (segment_point start stop t)
        \<and> (\<forall>u. 0 \<le> u \<and> u < t \<longrightarrow> \<not> point_in b False (segment_point start stop u))"
proof -
  have "\<forall>i\<in>set [0, 1, 2]. i < 3 \<and> axis_clear start stop i" using assms(4) by simp
  from slab_loop_exact [OF assms(1) this, of 0 1]
  have "holds_between (slab_loop b start stop [0, 1, 2] 0 1)
      (\<lambda>t. 0 \<le> t \<and> t \<le> 1 \<and> point_in b False (segment_point start stop t))"
    unfolding point_in_slabs [OF assms(1-3)] by simp
  then have h: "case slab_loop b start stop [0, 1, 2] 0 1 of
      None \<Rightarrow> \<forall>t. \<not> (0 \<le> t \<and> t \<le> 1 \<and> point_in b False (segment_point start stop t))
    | Some (e, l) \<Rightarrow> e \<le> l \<and> (\<forall>t. (0 \<le> t \<and> t \<le> 1 \<and> point_in b False (segment_point start stop t))
        \<longleftrightarrow> e \<le> t \<and> t \<le> l)" by (simp only: holds_between_def)
  show ?thesis
  proof (cases "slab_loop b start stop [0, 1, 2] 0 1")
    case None
    then show ?thesis using h by (simp add: segment_fraction_def del: slab_loop.simps)
  next
    case (Some z)
    obtain e l where z: "z = (e, l)" by (cases z)
    from h have el: "e \<le> l" and P: "\<And>t. (0 \<le> t \<and> t \<le> 1 \<and> point_in b False (segment_point start stop t))
        \<longleftrightarrow> e \<le> t \<and> t \<le> l" unfolding Some z by simp_all
    have e: "0 \<le> e" "e \<le> 1" "point_in b False (segment_point start stop e)" using P [of e] el by simp_all
    then have "segment_fraction b start stop = Some e"
      unfolding segment_fraction_def Some z using el by (simp add: max_def)
    moreover have "\<not> point_in b False (segment_point start stop u)" if "0 \<le> u" "u < e" for u
      using P [of u] that e by auto
    ultimately show ?thesis using e by simp
  qed
qed

lemma snapped_axes:
  assumes "length start = 3" "length stop = 3"
  shows "length (snapped start stop) = 3"
    and "i < 3 \<Longrightarrow> snapped start stop ! i
      = (if \<bar>stop ! i - start ! i\<bar> \<le> 1 / 10 ^ 15 then start ! i else stop ! i)"
  using assms by (simp_all add: snapped_def)

lemma snapped_clear:
  assumes "length start = 3" "length stop = 3" "i < 3"
  shows "axis_clear start (snapped start stop) i"
  using snapped_axes(2) [OF assms] by (auto simp: axis_clear_def)

lemma snapped_near:
  assumes "length start = 3" "length stop = 3" "i < 3"
  shows "\<bar>snapped start stop ! i - stop ! i\<bar> \<le> 1 / 10 ^ 15"
  using snapped_axes(2) [OF assms] by (simp add: abs_minus_commute)

lemma snapped_same:
  assumes "length start = 3" "length stop = 3" "\<forall>i<3. axis_clear start stop i"
  shows "snapped start stop = stop"
proof (rule nth_equalityI)
  fix i assume "i < length (snapped start stop)"
  then have i: "i < 3" using snapped_axes(1) [OF assms(1,2)] by simp
  with assms(3) show "snapped start stop ! i = stop ! i"
    unfolding snapped_axes(2) [OF assms(1,2) i] axis_clear_def by auto
qed (use assms(2) snapped_axes(1) [OF assms(1,2)] in simp)

lemma slab_loop_snapped:
  assumes "length start = 3" "length stop = 3" "\<forall>i\<in>set axes. i < 3"
  shows "slab_loop b start (snapped start stop) axes entry leave = slab_loop b start stop axes entry leave"
  using assms(3)
proof (induction axes arbitrary: entry leave)
  case (Cons i axes)
  then have i: "i < 3" by simp
  show ?case
  proof (cases "\<bar>stop ! i - start ! i\<bar> \<le> 1 / 10 ^ 15")
    case True
    then show ?thesis
      unfolding slab_loop.simps Let_def snapped_axes(2) [OF assms(1,2) i] using Cons by simp
  next
    case False
    then show ?thesis
      unfolding slab_loop.simps Let_def snapped_axes(2) [OF assms(1,2) i] using Cons by simp
  qed
qed simp

lemma segment_fraction_first:
  assumes "box_ok b" and len: "length start = 3" "length stop = 3"
  shows "case segment_fraction b start stop of
      None \<Rightarrow> \<forall>t. 0 \<le> t \<and> t \<le> 1 \<longrightarrow> \<not> point_in b False (segment_point start (snapped start stop) t)
    | Some t \<Rightarrow> 0 \<le> t \<and> t \<le> 1 \<and> point_in b False (segment_point start (snapped start stop) t)
        \<and> (\<forall>u. 0 \<le> u \<and> u < t \<longrightarrow> \<not> point_in b False (segment_point start (snapped start stop) u))"
proof -
  have "segment_fraction b start (snapped start stop) = segment_fraction b start stop"
    unfolding segment_fraction_def by (subst slab_loop_snapped [OF len]) simp_all
  with segment_fraction_exact [OF assms(1) len(1) snapped_axes(1) [OF len]] snapped_clear [OF len]
  show ?thesis by simp
qed

text \<open>
  C20. The slab test against its reference, for every segment, in exact rational arithmetic: it
  returns the first fraction at which the segment is in the closed box, and nothing exactly when no
  point of the segment is.  The segment is the one from the start to \<open>snapped start stop\<close>: a
  motion of at most \<open>1e-15\<close> along an axis counts as none.  That end is within \<open>1e-15\<close> of the
  given one on each axis, and equal to it when every axis is fixed or moves by more.
\<close>

theorem segment_first_hit:
  assumes "ObstacleAABB u v = Inr b" and "length start = 3" and "length stop = 3"
  shows "segment_intersection_fraction b (PTuple (map pfloat start)) (PTuple (map pfloat stop))
      = Inr (segment_fraction b start stop)
    \<and> (let path = segment_point start (snapped start stop) in
       case segment_fraction b start stop of
         None \<Rightarrow> \<forall>t. 0 \<le> t \<and> t \<le> 1 \<longrightarrow> \<not> point_in b False (path t)
       | Some t \<Rightarrow> 0 \<le> t \<and> t \<le> 1 \<and> point_in b False (path t)
           \<and> (\<forall>u. 0 \<le> u \<and> u < t \<longrightarrow> \<not> point_in b False (path u)))
    \<and> (\<forall>i<3. \<bar>snapped start stop ! i - stop ! i\<bar> \<le> 1 / 10 ^ 15)
    \<and> ((\<forall>i<3. stop ! i = start ! i \<or> 1 / 10 ^ 15 < \<bar>stop ! i - start ! i\<bar>)
        \<longrightarrow> snapped start stop = stop)"
  using segment_fraction_first [OF ObstacleAABB_ok [OF assms(1)] assms(2,3)] assms(2,3)
    snapped_near [OF assms(2,3)] snapped_same [OF assms(2,3)]
  by (simp add: segment_intersection_fraction_def axis_clear_def Let_def)

theorem segment_first_hit_witness:
  "segment_fraction \<lparr>bb_min = [1, -1, 0], bb_max = [2, 1, 3]\<rparr> [0, 0, 1] [4, 1 / 10 ^ 16, 1] = Some (1 / 4)
   \<and> segment_intersection_fraction \<lparr>bb_min = [1, -1, 0], bb_max = [2, 1, 3]\<rparr>
       (PTuple (map pfloat [0, 0, 1])) (PTuple (map pfloat [4, 1 / 10 ^ 16, 1])) = Inr (Some (1 / 4))"
proof -
  have box: "ObstacleAABB (PList [PInt 1, PInt (-1), PInt 0]) (PTuple [PInt 2, PInt 1, PInt 3])
      = Inr \<lparr>bb_min = [1, -1, 0], bb_max = [2, 1, 3]\<rparr>" by code_simp
  from segment_first_hit [OF box, of "[0, 0, 1]" "[4, 1 / 10 ^ 16, 1]"]
  show ?thesis by (simp add: segment_fraction_def)
qed

section \<open>Flight corridors\<close>

definition near_axes :: "rat \<Rightarrow> rat list \<Rightarrow> rat list \<Rightarrow> bool" where
  "near_axes r p q \<longleftrightarrow> (\<forall>i<3. \<bar>q ! i - p ! i\<bar> \<le> r)"

definition grown :: "aabb \<Rightarrow> rat \<Rightarrow> aabb" where
  "grown b r = \<lparr>bb_min = map2 (\<lambda>l x. l - x) (bb_min b) (replicate 3 r),
     bb_max = map2 (\<lambda>h x. h + x) (bb_max b) (replicate 3 r)\<rparr>"

lemma grown_axes:
  assumes "box_ok b" "0 \<le> r"
  shows "box_ok (grown b r)" "i < 3 \<Longrightarrow> bb_min (grown b r) ! i = bb_min b ! i - r"
    "i < 3 \<Longrightarrow> bb_max (grown b r) ! i = bb_max b ! i + r"
proof -
  show "i < 3 \<Longrightarrow> bb_min (grown b r) ! i = bb_min b ! i - r" for i
    using assms(1) by (simp add: grown_def box_ok_def)
  moreover show "i < 3 \<Longrightarrow> bb_max (grown b r) ! i = bb_max b ! i + r" for i
    using assms(1) by (simp add: grown_def box_ok_def)
  moreover have "bb_min b ! i - r < bb_max b ! i + r" if "i < 3" for i
  proof -
    have "bb_min b ! i < bb_max b ! i" using assms(1) that by (simp add: box_ok_def)
    then show ?thesis using assms(2) by linarith
  qed
  moreover have "length (bb_min (grown b r)) = 3" "length (bb_max (grown b r)) = 3"
    using assms(1) by (simp_all add: grown_def box_ok_def)
  ultimately show "box_ok (grown b r)" unfolding box_ok_def by simp
qed

lemma box_expanded_grown:
  assumes "box_ok b" "0 \<le> r"
  shows "box_expanded b (PTuple (replicate 3 (pfloat r))) = Inr (grown b r)"
proof -
  have "geo_vector name 3 (PTuple (replicate 3 (pfloat r))) = Inr (replicate 3 r)" for name
    using geo_vector_floats [of "replicate 3 r" 3 name] by (simp add: map_replicate)
  moreover have "\<not> list_ex (\<lambda>x. x < 0) (replicate 3 r)" using assms(2) by (simp add: list_ex_iff)
  moreover have "ObstacleAABB (PTuple (map pfloat (bb_min (grown b r)))) (PTuple (map pfloat (bb_max (grown b r))))
      = Inr (grown b r)"
    using grown_axes(1) [OF assms] by (subst ObstacleAABB_floats) (simp_all add: box_ok_def)
  ultimately show ?thesis
    unfolding box_expanded_def map2_pfloat by (simp add: grown_def)
qed

lemma axis_reach:
  assumes "(l::rat) \<le> h" "0 \<le> r"
  shows "l - r \<le> x \<and> x \<le> h + r \<longleftrightarrow> (\<exists>y. l \<le> y \<and> y \<le> h \<and> \<bar>y - x\<bar> \<le> r)"
proof
  assume "l - r \<le> x \<and> x \<le> h + r"
  then have "l \<le> max l (min h x) \<and> max l (min h x) \<le> h \<and> \<bar>max l (min h x) - x\<bar> \<le> r"
    using assms by (auto simp: max_def min_def)
  then show "\<exists>y. l \<le> y \<and> y \<le> h \<and> \<bar>y - x\<bar> \<le> r" by blast
qed auto

lemma three_choices: "(\<forall>i<3. \<exists>y. P i y) \<longleftrightarrow> (\<exists>q. length q = 3 \<and> (\<forall>i<3. P i (q ! i)))"
proof
  assume "\<forall>i<3. \<exists>y. P i y"
  then obtain x y z where "P 0 x" "P 1 y" "P 2 z" unfolding all_axes by blast
  then have "length [x, y, z] = 3 \<and> (\<forall>i<3. P i ([x, y, z] ! i))" unfolding all_axes by simp
  then show "\<exists>q. length q = 3 \<and> (\<forall>i<3. P i (q ! i))" by blast
qed blast

lemma point_in_grown:
  assumes "box_ok b" "0 \<le> r" "length p = 3"
  shows "point_in (grown b r) False p \<longleftrightarrow> (\<exists>q. length q = 3 \<and> point_in b False q \<and> near_axes r p q)"
proof -
  note g = grown_axes [OF assms(1,2)]
  have lh: "i < 3 \<Longrightarrow> bb_min b ! i \<le> bb_max b ! i" for i
    using assms(1) by (auto simp: box_ok_def intro: less_imp_le)
  have "point_in (grown b r) False p
      \<longleftrightarrow> (\<forall>i<3. \<exists>y. bb_min b ! i \<le> y \<and> y \<le> bb_max b ! i \<and> \<bar>y - p ! i\<bar> \<le> r)"
    using g(1) assms(3) by (subst point_in_axes) (auto simp: box_ok_def g(2,3) axis_reach [OF lh assms(2)])
  also have "\<dots> \<longleftrightarrow> (\<exists>q. length q = 3 \<and> point_in b False q \<and> near_axes r p q)"
    unfolding three_choices using assms(1) point_in_axes [of b] by (auto simp: box_ok_def near_axes_def)
  finally show ?thesis .
qed

lemma dist_squared_axis:
  assumes "length p = 3" "length q = 3" "i < 3"
  shows "(q ! i - p ! i) * (q ! i - p ! i) \<le> (\<Sum>j<3. (q ! j - p ! j) * (q ! j - (p ! j :: rat)))"
  using assms(3) by (intro member_le_sum) auto

lemma segment_point_snapped:
  assumes len: "length start = 3" "length stop = 3" and t: "0 \<le> t" "t \<le> 1" and i: "i < 3"
  shows "\<bar>segment_point start (snapped start stop) t ! i - segment_point start stop t ! i\<bar>
    \<le> (if \<forall>i<3. axis_clear start stop i then 0 else 1 / 10 ^ 15)"
proof (cases "\<forall>i<3. axis_clear start stop i")
  case True
  then show ?thesis by (simp add: snapped_same [OF len])
next
  case False
  have "segment_point start (snapped start stop) t ! i - segment_point start stop t ! i
      = t * (snapped start stop ! i - stop ! i)"
    using segment_point_axes(2) [OF len i, of t]
      segment_point_axes(2) [OF len(1) snapped_axes(1) [OF len] i, of t]
    by (simp add: algebra_simps)
  moreover have "t * \<bar>snapped start stop ! i - stop ! i\<bar> \<le> 1 * (1 / 10 ^ 15)"
    using t snapped_near [OF len i] by (intro mult_mono) simp_all
  ultimately show ?thesis unfolding if_not_P [OF False] using t by (simp add: abs_mult)
qed

text \<open>
  C21. A corridor test returns, for every corridor and box, and in exact rational arithmetic it is
  true exactly when some point of the segment (with motions of at most \<open>1e-15\<close> along an axis
  counted as none) is within the radius of a point of the box along every axis.  So an obstacle that
  the corridor's sphere touches, in the Euclidean distance, is never missed when every axis is fixed or
  moves by more than \<open>1e-15\<close>, and otherwise none that a sphere of a radius smaller by \<open>1e-15\<close>
  touches.
\<close>

theorem corridor_never_misses:
  assumes "ObstacleAABB u v = Inr b" and "FlightCorridor s e w = Inr c"
  shows "\<exists>hit. corridor_intersects c b = Inr hit
    \<and> (hit \<longleftrightarrow> (\<exists>t q. 0 \<le> t \<and> t \<le> 1 \<and> length q = 3 \<and> point_in b False q
          \<and> near_axes (fc_radius c)
              (segment_point (fc_start c) (snapped (fc_start c) (fc_end c)) t) q))
    \<and> (let slack = (if \<forall>i<3. axis_clear (fc_start c) (fc_end c) i then 0 else 1 / 10 ^ 15) in
       \<forall>t q. 0 \<le> t \<and> t \<le> 1 \<and> length q = 3 \<and> point_in b False q \<and> slack \<le> fc_radius c
          \<and> (\<Sum>j<3. (q ! j - segment_point (fc_start c) (fc_end c) t ! j) ^ 2)
              \<le> (fc_radius c - slack) ^ 2 \<longrightarrow> hit)"
proof -
  have b: "box_ok b" by (rule ObstacleAABB_ok [OF assms(1)])
  have c: "length (fc_start c) = 3" "length (fc_end c) = 3" "0 \<le> fc_radius c"
    using assms(2) by (auto simp: FlightCorridor_def rbind_eq_Inr dest: geo_vector_length split: if_splits)
  let ?q = "segment_point (fc_start c) (fc_end c)" and ?r = "fc_radius c"
  let ?p = "segment_point (fc_start c) (snapped (fc_start c) (fc_end c))"
  let ?f = "segment_fraction (grown b ?r) (fc_start c) (fc_end c)"
  define slack :: rat where
    "slack = (if \<forall>i<3. axis_clear (fc_start c) (fc_end c) i then 0 else 1 / 10 ^ 15)"
  have run: "corridor_intersects c b = Inr (?f \<noteq> None)"
    using c by (simp add: corridor_intersects_def box_expanded_grown [OF b c(3)] segment_intersection_fraction_def)
  have "?f \<noteq> None \<longleftrightarrow> (\<exists>t. 0 \<le> t \<and> t \<le> 1 \<and> point_in (grown b ?r) False (?p t))"
    using segment_fraction_first [OF grown_axes(1) [OF b c(3)] c(1,2)] by (cases ?f) auto
  then have hit: "?f \<noteq> None \<longleftrightarrow> (\<exists>t q. 0 \<le> t \<and> t \<le> 1 \<and> length q = 3 \<and> point_in b False q \<and> near_axes ?r (?p t) q)"
    using point_in_grown [OF b c(3)] segment_point_axes(1) [OF c(1) snapped_axes(1) [OF c(1,2)]] by blast
  have near: "near_axes ?r (?p t) q"
    if q: "0 \<le> t" "t \<le> 1" "length q = 3" "slack \<le> ?r"
      "(\<Sum>j<3. (q ! j - ?q t ! j) ^ 2) \<le> (?r - slack) ^ 2" for t q
    unfolding near_axes_def
  proof (intro allI impI)
    fix i :: nat assume i: "i < 3"
    then have "(q ! i - ?q t ! i) ^ 2 \<le> (?r - slack) ^ 2"
      using dist_squared_axis [of "?q t" q i] q(3,5) segment_point_axes(1) [OF c(1,2)]
      by (simp add: power2_eq_square)
    then have "\<bar>q ! i - ?q t ! i\<bar> \<le> ?r - slack"
      using abs_le_square_iff [of "q ! i - ?q t ! i" "?r - slack"] q(4) by simp
    with segment_point_snapped [OF c(1,2) q(1,2) i] show "\<bar>q ! i - ?p t ! i\<bar> \<le> ?r"
      unfolding slack_def [symmetric] by linarith
  qed
  show ?thesis
    unfolding Let_def slack_def [symmetric]
    using run hit near by (intro exI [of _ "?f \<noteq> None"] conjI) blast+
qed

theorem corridor_never_misses_witness:
  "corridor_intersects \<lparr>fc_start = [0, 0, 1], fc_end = [4, 0, 1], fc_radius = 1\<rparr>
     \<lparr>bb_min = [1, 1, 0], bb_max = [2, 2, 3]\<rparr> = Inr True"
proof -
  have box: "ObstacleAABB (PList [PInt 1, PInt 1, PInt 0]) (PTuple [PInt 2, PInt 2, PInt 3])
      = Inr \<lparr>bb_min = [1, 1, 0], bb_max = [2, 2, 3]\<rparr>" by code_simp
  have corridor: "FlightCorridor (PList [PInt 0, PInt 0, PInt 1]) (PTuple [PInt 4, PInt 0, PInt 1]) (PInt 1)
      = Inr \<lparr>fc_start = [0, 0, 1], fc_end = [4, 0, 1], fc_radius = 1\<rparr>" by code_simp
  have "\<forall>i<3. axis_clear [0, 0, 1] [4, 0, 1] i"
    unfolding all_axes by (simp add: axis_clear_def)
  note clear = this
  obtain hit where hit: "corridor_intersects \<lparr>fc_start = [0, 0, 1], fc_end = [4, 0, 1], fc_radius = 1\<rparr>
       \<lparr>bb_min = [1, 1, 0], bb_max = [2, 2, 3]\<rparr> = Inr hit"
    and all: "\<forall>t q. 0 \<le> t \<and> t \<le> 1 \<and> length q = 3 \<and> point_in \<lparr>bb_min = [1, 1, 0], bb_max = [2, 2, 3]\<rparr> False q
      \<and> (0::rat) \<le> 1 \<and> (\<Sum>j<3. (q ! j - segment_point [0, 0, 1] [4, 0, 1] t ! j) ^ 2) \<le> (1 - 0) ^ 2 \<longrightarrow> hit"
    using corridor_never_misses [OF box corridor] unfolding Let_def flight_corridor.simps if_P [OF clear]
    by blast
  have "hit"
    by (rule all [rule_format, of "1 / 4" "[1, 1, 1]"])
      (simp add: point_in_def segment_point_def numeral_3_eq_3)
  with hit show ?thesis by simp
qed

end
