(* ===== verification/Hazard_Fusion.thy ===== *)
theory Hazard_Fusion
  imports Obstacle_Geometry Mission_Events
begin

text \<open>
  \<open>runtime/hazard_fusion.py\<close>: the bounded reports of independent hazard sources and their fusion.
  Distances, times and the braking distance are exact rationals; \<open>HazardReport\<close> and
  \<open>ObstacleObservation\<close> arguments are the records.
\<close>

section \<open>Field checks\<close>

datatype hazard_source = HS_IDEAL_CAMERA | HS_FUTURE_LOW_LEVEL_DETECTOR | HS_QWEN_VISUAL_REVIEW

fun source_value :: "hazard_source \<Rightarrow> string" where
  "source_value HS_IDEAL_CAMERA = IDEAL_CAMERA_OBSTACLE_SOURCE"
| "source_value HS_FUTURE_LOW_LEVEL_DETECTOR = ''future_low_level_detector''"
| "source_value HS_QWEN_VISUAL_REVIEW = ''qwen_visual_review''"

definition HazardSource :: "pyval \<Rightarrow> hazard_source result" where
  "HazardSource = enum_of ''HazardSource'' source_value
     [HS_IDEAL_CAMERA, HS_FUTURE_LOW_LEVEL_DETECTOR, HS_QWEN_VISUAL_REVIEW]"

definition ordered_unique :: "string list \<Rightarrow> string list" where
  "ordered_unique xs = first_occurrences xs"

definition obstacle_ids :: "string \<Rightarrow> pyval \<Rightarrow> string list result" where
  "obstacle_ids name v =
     rbind (py_iter v) (\<lambda>xs.
     rbind (rmap (\<lambda>(i, x). validate_routing_id x (item_name name i)) (enumerate 0 xs)) (\<lambda>ids.
       if \<not> distinct ids then Inl (ValueError (name @ '' must not contain duplicates''))
       else Inr ids))"

definition hazard_nonnegative :: "string \<Rightarrow> pyval \<Rightarrow> rat result" where
  "hazard_nonnegative name =
     real_value (TypeError (name @ '' must be a finite non-negative number''))
       (ValueError (name @ '' must be a finite non-negative number'')) (\<lambda>x. 0 \<le> x)"

definition hazard_positive :: "string \<Rightarrow> pyval \<Rightarrow> rat result" where
  "hazard_positive name v =
     rbind (hazard_nonnegative name v) (\<lambda>x.
       if x \<le> 0 then Inl (ValueError (name @ '' must be greater than zero'')) else Inr x)"

definition optional_nonnegative :: "string \<Rightarrow> pyval \<Rightarrow> rat option result" where
  "optional_nonnegative name = opt_check (hazard_nonnegative name)"

section \<open>Reports\<close>

record hazard_report =
  hr_source :: hazard_source
  hr_detected :: bool
  hr_grounded :: bool
  hr_obstacles :: "string list"
  hr_visible :: "string list"
  hr_corridor :: bool
  hr_ttc :: "rat option"
  hr_distance :: "rat option"
  hr_imminent :: bool
  hr_privileged :: bool

definition HazardReport ::
  "pyval \<Rightarrow> pyval \<Rightarrow> pyval \<Rightarrow> pyval \<Rightarrow> pyval \<Rightarrow> pyval \<Rightarrow> pyval \<Rightarrow> pyval \<Rightarrow> pyval \<Rightarrow> pyval
     \<Rightarrow> hazard_report result" where
  "HazardReport source detected grounded obstacles visible corridor ttc distance imminent privileged =
     rbind (or_value_error ''source must be a supported HazardSource'' (HazardSource source)) (\<lambda>source.
     rbind (bool_value (TypeError ''hazard_detected must be a bool'') detected) (\<lambda>detected.
     rbind (bool_value (TypeError ''geometry_grounded must be a bool'') grounded) (\<lambda>grounded.
     rbind (bool_value (TypeError ''active_corridor_intersection must be a bool'') corridor) (\<lambda>corridor.
     rbind (bool_value (TypeError ''imminent_collision must be a bool'') imminent) (\<lambda>imminent.
     rbind (bool_value (TypeError ''privileged must be a bool'') privileged) (\<lambda>privileged.
     rbind (obstacle_ids ''obstacle_ids'' obstacles) (\<lambda>obstacles.
     rbind (obstacle_ids ''visible_obstacle_ids'' visible) (\<lambda>visible.
     rbind (optional_nonnegative ''minimum_ttc_s'' ttc) (\<lambda>ttc.
     rbind (optional_nonnegative ''minimum_distance_m'' distance) (\<lambda>distance.
     if grounded \<and> obstacles = []
     then Inl (ValueError ''geometry_grounded reports must identify an obstacle'')
     else if grounded \<and> \<not> detected
     then Inl (ValueError ''geometry_grounded requires hazard_detected'')
     else if imminent \<and> \<not> detected
     then Inl (ValueError ''imminent_collision requires hazard_detected'')
     else Inr \<lparr>hr_source = source, hr_detected = detected, hr_grounded = grounded,
       hr_obstacles = obstacles, hr_visible = visible, hr_corridor = corridor, hr_ttc = ttc,
       hr_distance = distance, hr_imminent = imminent, hr_privileged = privileged\<rparr>))))))))))"

definition string_list :: "string list \<Rightarrow> pyval" where
  "string_list xs = PList (map PStr xs)"

definition report_to_dict :: "hazard_report \<Rightarrow> (string \<times> pyval) list" where
  "report_to_dict r =
     [(''source'', PStr (source_value (hr_source r))), (''privileged'', PBool (hr_privileged r)),
      (''hazard_detected'', PBool (hr_detected r)), (''geometry_grounded'', PBool (hr_grounded r)),
      (''obstacle_ids'', string_list (hr_obstacles r)), (''visible_obstacle_ids'', string_list (hr_visible r)),
      (''active_corridor_intersection'', PBool (hr_corridor r)),
      (''minimum_ttc_s'', opt_pyval pfloat (hr_ttc r)),
      (''minimum_distance_m'', opt_pyval pfloat (hr_distance r)),
      (''imminent_collision'', PBool (hr_imminent r))]"

section \<open>The fused result\<close>

record hazard_result =
  fu_mission :: string
  fu_uav :: string
  fu_version :: int
  fu_time :: rat
  fu_reports :: "hazard_report list"
  fu_low_level :: bool
  fu_qwen :: bool
  fu_hold :: bool
  fu_grounded :: bool
  fu_imminent :: bool
  fu_obstacles :: "string list"
  fu_visible :: "string list"
  fu_ttc :: "rat option"
  fu_braking :: rat

definition hazard_version :: "pyval \<Rightarrow> int result" where
  "hazard_version = int_value (ValueError ''plan_version must be a positive integer'')
     (ValueError ''plan_version must be a positive integer'') (\<lambda>i. 0 < i)"

definition HazardFusionResult ::
  "pyval \<Rightarrow> pyval \<Rightarrow> pyval \<Rightarrow> pyval \<Rightarrow> hazard_report list \<Rightarrow> bool \<Rightarrow> bool \<Rightarrow> bool \<Rightarrow> bool \<Rightarrow> bool
     \<Rightarrow> pyval \<Rightarrow> pyval \<Rightarrow> pyval \<Rightarrow> pyval \<Rightarrow> hazard_result result" where
  "HazardFusionResult mission uav version timestamp reports low qwen hold grounded imminent
       obstacles visible ttc braking =
     rbind (validate_mission_id mission) (\<lambda>mission.
     rbind (validate_uav_id uav) (\<lambda>uav.
     rbind (hazard_version version) (\<lambda>version.
     rbind (hazard_nonnegative ''timestamp_s'' timestamp) (\<lambda>timestamp.
     if hold \<noteq> (low \<or> qwen)
     then Inl (ValueError ''should_hold must equal low_level OR qwen hazard'')
     else if grounded \<and> \<not> hold
     then Inl (ValueError ''geometry_grounded must describe an active hazard'')
     else
       rbind (obstacle_ids ''obstacle_ids'' obstacles) (\<lambda>obstacles.
       rbind (obstacle_ids ''visible_obstacle_ids'' visible) (\<lambda>visible.
       rbind (optional_nonnegative ''minimum_ttc_s'' ttc) (\<lambda>ttc.
       rbind (hazard_nonnegative ''braking_distance_m'' braking) (\<lambda>braking.
         Inr \<lparr>fu_mission = mission, fu_uav = uav, fu_version = version, fu_time = timestamp,
           fu_reports = reports, fu_low_level = low, fu_qwen = qwen, fu_hold = hold,
           fu_grounded = grounded, fu_imminent = imminent, fu_obstacles = obstacles,
           fu_visible = visible, fu_ttc = ttc, fu_braking = braking\<rparr>))))))))"

definition can_generate_route :: "hazard_result \<Rightarrow> bool" where
  "can_generate_route f = (fu_hold f \<and> fu_grounded f)"

definition result_to_dict :: "hazard_result \<Rightarrow> (string \<times> pyval) list" where
  "result_to_dict f =
     [(''mission_id'', PStr (fu_mission f)), (''uav_id'', PStr (fu_uav f)),
      (''plan_version'', PInt (fu_version f)), (''timestamp_s'', pfloat (fu_time f)),
      (''sources'', string_list (map (\<lambda>r. source_value (hr_source r)) (fu_reports f))),
      (''source_reports'', PList (map (\<lambda>r. pdict (report_to_dict r)) (fu_reports f))),
      (''low_level_hazard_detected'', PBool (fu_low_level f)),
      (''qwen_hazard_detected'', PBool (fu_qwen f)), (''should_hold'', PBool (fu_hold f)),
      (''geometry_grounded'', PBool (fu_grounded f)),
      (''can_generate_route'', PBool (can_generate_route f)),
      (''imminent_collision'', PBool (fu_imminent f)),
      (''obstacle_ids'', string_list (fu_obstacles f)),
      (''visible_obstacle_ids'', string_list (fu_visible f)),
      (''minimum_ttc_s'', opt_pyval pfloat (fu_ttc f)), (''braking_distance_m'', pfloat (fu_braking f))]"

section \<open>Fusion\<close>

record hazard_fusion =
  hf_blocked_ttc :: rat
  hf_imminent_ttc :: rat
  hf_deceleration :: rat
  hf_margin :: rat

definition HazardFusion :: "pyval \<Rightarrow> pyval \<Rightarrow> pyval \<Rightarrow> pyval \<Rightarrow> hazard_fusion result" where
  "HazardFusion blocked imminent deceleration margin =
     rbind (hazard_positive ''path_blocked_ttc_s'' blocked) (\<lambda>blocked.
     rbind (hazard_positive ''imminent_collision_ttc_s'' imminent) (\<lambda>imminent.
     if imminent > blocked
     then Inl (ValueError ''imminent_collision_ttc_s must not exceed path_blocked_ttc_s'')
     else
       rbind (hazard_positive ''maximum_deceleration_mps2'' deceleration) (\<lambda>deceleration.
       rbind (hazard_nonnegative ''braking_margin_m'' margin) (\<lambda>margin.
         Inr \<lparr>hf_blocked_ttc = blocked, hf_imminent_ttc = imminent,
           hf_deceleration = deceleration, hf_margin = margin\<rparr>))))"

definition braking_distance :: "hazard_fusion \<Rightarrow> rat \<Rightarrow> rat" where
  "braking_distance h speed = speed * speed / (2 * hf_deceleration h) + hf_margin h"

definition ttc_at_most :: "rat option \<Rightarrow> rat \<Rightarrow> bool" where
  "ttc_at_most t x = (case t of None \<Rightarrow> False | Some y \<Rightarrow> y \<le> x)"

definition is_hazard :: "hazard_fusion \<Rightarrow> rat \<Rightarrow> visible_obstacle \<Rightarrow> bool" where
  "is_hazard h braking v = (vo_corridor v
     \<and> (ttc_at_most (vo_ttc v) (hf_blocked_ttc h) \<or> vo_depth v \<le> braking))"

definition is_imminent :: "hazard_fusion \<Rightarrow> rat \<Rightarrow> visible_obstacle \<Rightarrow> bool" where
  "is_imminent h braking v = (ttc_at_most (vo_ttc v) (hf_imminent_ttc h) \<or> vo_depth v \<le> braking)"

definition minimum :: "rat list \<Rightarrow> rat option" where
  "minimum xs = (if xs = [] then None else Some (min_list xs))"

definition some_values :: "'a option list \<Rightarrow> 'a list" where
  "some_values xs = map the (filter (\<lambda>x. x \<noteq> None) xs)"

definition report_from_observation ::
  "hazard_fusion \<Rightarrow> obstacle_observation \<Rightarrow> pyval \<Rightarrow> hazard_report result" where
  "report_from_observation h observation speed =
     rbind (hazard_nonnegative ''uav_speed_mps'' speed) (\<lambda>speed.
       let braking = braking_distance h speed;
           visible = map vo_id (oo_visible observation);
           hazards = filter (is_hazard h braking) (oo_visible observation);
           min_ttc = minimum (some_values (map vo_ttc hazards));
           distance = minimum (map vo_depth hazards);
           imminent = list_ex (is_imminent h braking) hazards
       in HazardReport (PStr (source_value HS_IDEAL_CAMERA)) (PBool (hazards \<noteq> [])) (PBool (hazards \<noteq> []))
            (PTuple (map (\<lambda>v. PStr (vo_id v)) hazards)) (PTuple (map PStr visible))
            (PBool (list_ex vo_corridor (oo_visible observation)))
            (opt_pyval pfloat min_ttc) (opt_pyval pfloat distance) (PBool imminent)
            (PBool (oo_privileged observation)))"

definition qwen_report :: "pyval \<Rightarrow> pyval \<Rightarrow> pyval \<Rightarrow> pyval \<Rightarrow> hazard_report result" where
  "qwen_report detected grounded obstacles imminent =
     rbind (py_iter obstacles) (\<lambda>ids.
       HazardReport (PStr (source_value HS_QWEN_VISUAL_REVIEW)) detected grounded (PTuple ids) (PTuple ids)
         detected PNone PNone imminent (PBool False))"

definition low_level_report ::
  "pyval \<Rightarrow> pyval \<Rightarrow> pyval \<Rightarrow> pyval \<Rightarrow> pyval \<Rightarrow> pyval \<Rightarrow> hazard_report result" where
  "low_level_report detected grounded obstacles visible ttc imminent =
     rbind (py_iter obstacles) (\<lambda>ids.
     rbind (py_iter visible) (\<lambda>seen.
       HazardReport (PStr (source_value HS_FUTURE_LOW_LEVEL_DETECTOR)) detected grounded (PTuple ids)
         (PTuple seen) detected ttc PNone imminent (PBool False)))"

definition fuse ::
  "hazard_fusion \<Rightarrow> hazard_report list \<Rightarrow> pyval \<Rightarrow> pyval \<Rightarrow> pyval \<Rightarrow> pyval \<Rightarrow> pyval \<Rightarrow> hazard_result result" where
  "fuse h reports mission uav version timestamp speed =
     rbind (validate_mission_id mission) (\<lambda>mission.
     rbind (validate_uav_id uav) (\<lambda>uav.
     rbind (hazard_version version) (\<lambda>version.
     rbind (hazard_nonnegative ''timestamp_s'' timestamp) (\<lambda>timestamp.
     rbind (hazard_nonnegative ''uav_speed_mps'' speed) (\<lambda>speed.
       let low = list_ex (\<lambda>r. hr_detected r
             \<and> hr_source r \<in> {HS_IDEAL_CAMERA, HS_FUTURE_LOW_LEVEL_DETECTOR}) reports;
           qwen = list_ex (\<lambda>r. hr_detected r \<and> hr_source r = HS_QWEN_VISUAL_REVIEW) reports;
           hold = (low \<or> qwen);
           grounded = list_ex (\<lambda>r. hr_detected r \<and> hr_grounded r) reports;
           hazards = filter hr_detected reports
       in HazardFusionResult (PStr mission) (PStr uav) (PInt version) (pfloat timestamp) reports
            low qwen hold grounded (list_ex hr_imminent hazards)
            (PTuple (map PStr (ordered_unique (concat (map hr_obstacles hazards)))))
            (PTuple (map PStr (ordered_unique (concat (map hr_visible reports)))))
            (opt_pyval pfloat (minimum (some_values (map hr_ttc hazards))))
            (pfloat (braking_distance h speed)))))))"

section \<open>Facts\<close>

lemma obstacle_ids_strings:
  assumes "distinct ids" "\<forall>i\<in>set ids. routing_id_match i"
  shows "obstacle_ids name (PTuple (map PStr ids)) = Inr ids"
proof -
  have "validate_routing_id (PStr x) (item_name name i) = Inr x" if "x \<in> set ids" for i x
    using assms(2) that by (simp add: validate_routing_id_Inr item_name_def)
  then have "rmap (\<lambda>(i, x). validate_routing_id x (item_name name i)) (enumerate 0 (map PStr ids)) = Inr ids"
    by (intro rmap_enumerate_map) simp
  then show ?thesis using assms(1) by (simp add: obstacle_ids_def)
qed

definition report_ok :: "hazard_report \<Rightarrow> bool" where
  "report_ok r \<longleftrightarrow> distinct (hr_obstacles r) \<and> distinct (hr_visible r)
     \<and> list_all routing_id_match (hr_obstacles r) \<and> list_all routing_id_match (hr_visible r)
     \<and> (hr_grounded r \<longrightarrow> hr_obstacles r \<noteq> [] \<and> hr_detected r) \<and> (hr_imminent r \<longrightarrow> hr_detected r)
     \<and> (case hr_ttc r of Some x \<Rightarrow> 0 \<le> x | None \<Rightarrow> True)"

lemma obstacle_ids_Inr:
  assumes "obstacle_ids name v = Inr ids"
  shows "distinct ids \<and> list_all routing_id_match ids"
proof -
  obtain xs where "rmap (\<lambda>(i, x). validate_routing_id x (item_name name i)) (enumerate 0 xs) = Inr ids"
    and d: "distinct ids" using assms by (auto simp: obstacle_ids_def rbind_eq_Inr split: if_splits)
  then have "list_all2 (\<lambda>p s. validate_routing_id (snd p) (item_name name (fst p)) = Inr s) (enumerate 0 xs) ids"
    by (simp add: rmap_eq_Inr split_def)
  then have "list_all routing_id_match ids"
    by (auto simp: list_all_length list_all2_conv_all_nth validate_routing_id_Inr)
  then show ?thesis using d by simp
qed

lemma hazard_nonnegative_Inr: "hazard_nonnegative name v = Inr x \<Longrightarrow> 0 \<le> x"
  unfolding hazard_nonnegative_def by (rule real_value_Inr)

lemma hazard_nonnegative_float [simp]: "0 \<le> x \<Longrightarrow> hazard_nonnegative name (pfloat x) = Inr x"
  by (simp add: hazard_nonnegative_def)

lemma optional_nonnegative_float [simp]:
  "(case x of Some y \<Rightarrow> 0 \<le> y | None \<Rightarrow> True) \<Longrightarrow> optional_nonnegative name (opt_pyval pfloat x) = Inr x"
  by (cases x) (simp_all add: optional_nonnegative_def opt_check_def)

lemma HazardReport_ok:
  assumes "HazardReport a b c d e f g i j k = Inr r"
  shows "report_ok r"
proof -
  have "\<exists>os vs ti. obstacle_ids ''obstacle_ids'' d = Inr os \<and> obstacle_ids ''visible_obstacle_ids'' e = Inr vs
    \<and> optional_nonnegative ''minimum_ttc_s'' g = Inr ti \<and> hr_obstacles r = os \<and> hr_visible r = vs \<and> hr_ttc r = ti
    \<and> (hr_grounded r \<longrightarrow> os \<noteq> [] \<and> hr_detected r) \<and> (hr_imminent r \<longrightarrow> hr_detected r)"
    using assms unfolding HazardReport_def rbind_eq_Inr
    apply (elim exE conjE)
    apply (simp only: bool_value_Inr)
    apply (simp only: sum.distinct sum.inject if_True if_False split: if_split_asm)
    apply (erule_tac t = r in subst)
    apply simp
    done
  then obtain os vs ti where
    os: "obstacle_ids ''obstacle_ids'' d = Inr os" and vs: "obstacle_ids ''visible_obstacle_ids'' e = Inr vs"
    and ti: "optional_nonnegative ''minimum_ttc_s'' g = Inr ti"
    and r: "hr_obstacles r = os" "hr_visible r = vs" "hr_ttc r = ti"
      "hr_grounded r \<longrightarrow> os \<noteq> [] \<and> hr_detected r" "hr_imminent r \<longrightarrow> hr_detected r"
    by blast
  have "case ti of Some x \<Rightarrow> 0 \<le> x | None \<Rightarrow> True"
  proof (cases ti)
    case (Some x)
    from ti have "opt_check (hazard_nonnegative ''minimum_ttc_s'') g = Inr (Some x)"
      by (simp only: optional_nonnegative_def Some)
    then have "hazard_nonnegative ''minimum_ttc_s'' g = Inr x" by (rule opt_check_Some)
    then show ?thesis using Some hazard_nonnegative_Inr by simp
  qed simp
  then show ?thesis using r obstacle_ids_Inr [OF os] obstacle_ids_Inr [OF vs] by (simp add: report_ok_def)
qed

lemma HazardReport_values:
  assumes "report_ok r" and "case hr_distance r of Some x \<Rightarrow> 0 \<le> x | None \<Rightarrow> True"
  shows "HazardReport (PStr (source_value (hr_source r))) (PBool (hr_detected r)) (PBool (hr_grounded r))
    (PTuple (map PStr (hr_obstacles r))) (PTuple (map PStr (hr_visible r))) (PBool (hr_corridor r))
    (opt_pyval pfloat (hr_ttc r)) (opt_pyval pfloat (hr_distance r)) (PBool (hr_imminent r))
    (PBool (hr_privileged r)) = Inr r"
proof -
  have "HazardSource (PStr (source_value (hr_source r))) = Inr (hr_source r)"
    unfolding HazardSource_def IDEAL_CAMERA_OBSTACLE_SOURCE_def
    by (cases "hr_source r") (simp_all add: enum_of_def IDEAL_CAMERA_OBSTACLE_SOURCE_def)
  then show ?thesis
    using assms by (auto simp: HazardReport_def or_value_error_def obstacle_ids_strings report_ok_def list_all_iff)
qed

lemma some_values_set: "x \<in> set (some_values ts) \<longleftrightarrow> Some x \<in> set ts"
  by (force simp: some_values_def)

lemma minimum_exact:
  "(minimum xs = None \<longleftrightarrow> xs = []) \<and> (x \<in> set xs \<longrightarrow> (\<exists>m. minimum xs = Some m \<and> m \<in> set xs \<and> m \<le> x))"
  by (auto simp: minimum_def min_list_Min)

lemma minimum_in: "minimum xs = Some m \<Longrightarrow> m \<in> set xs"
  by (auto simp: minimum_def min_list_Min split: if_splits)

lemma HazardFusion_ok:
  "HazardFusion a b c d = Inr h \<Longrightarrow> 0 < hf_deceleration h \<and> 0 \<le> hf_margin h \<and> hf_imminent_ttc h \<le> hf_blocked_ttc h"
  unfolding HazardFusion_def
  by (auto simp: rbind_eq_Inr hazard_positive_def not_le split: if_splits dest: hazard_nonnegative_Inr)

lemma braking_distance_nonneg:
  "0 < hf_deceleration h \<Longrightarrow> 0 \<le> hf_margin h \<Longrightarrow> 0 \<le> braking_distance h s"
  by (simp add: braking_distance_def)

text \<open>What a fusion of constructed reports is, written out.\<close>

lemma fuse_value:
  assumes "HazardFusion a b c d = Inr h" and "list_all report_ok reports"
    and "routing_id_match m" "routing_id_match u" "0 < v" "0 \<le> t" "0 \<le> speed"
  shows "fuse h reports (PStr m) (PStr u) (PInt v) (pfloat t) (pfloat speed) = Inr
    \<lparr>fu_mission = m, fu_uav = u, fu_version = v, fu_time = t, fu_reports = reports,
     fu_low_level = list_ex (\<lambda>r. hr_detected r \<and> hr_source r \<in> {HS_IDEAL_CAMERA, HS_FUTURE_LOW_LEVEL_DETECTOR}) reports,
     fu_qwen = list_ex (\<lambda>r. hr_detected r \<and> hr_source r = HS_QWEN_VISUAL_REVIEW) reports,
     fu_hold = list_ex hr_detected reports, fu_grounded = list_ex hr_grounded reports,
     fu_imminent = list_ex hr_imminent reports,
     fu_obstacles = first_occurrences (concat (map hr_obstacles (filter hr_detected reports))),
     fu_visible = first_occurrences (concat (map hr_visible reports)),
     fu_ttc = minimum (some_values (map hr_ttc (filter hr_detected reports))),
     fu_braking = braking_distance h speed\<rparr>"
proof -
  let ?low = "list_ex (\<lambda>r. hr_detected r \<and> hr_source r \<in> {HS_IDEAL_CAMERA, HS_FUTURE_LOW_LEVEL_DETECTOR}) reports"
    and ?qwen = "list_ex (\<lambda>r. hr_detected r \<and> hr_source r = HS_QWEN_VISUAL_REVIEW) reports"
  let ?ttc = "minimum (some_values (map hr_ttc (filter hr_detected reports)))"
  have ok: "report_ok r" if "r \<in> set reports" for r using assms(2) that by (simp add: list_all_iff)
  have hold: "(?low \<or> ?qwen) = list_ex hr_detected reports"
  proof -
    have "hr_source r \<in> {HS_IDEAL_CAMERA, HS_FUTURE_LOW_LEVEL_DETECTOR} \<or> hr_source r = HS_QWEN_VISUAL_REVIEW" for r
      by (cases "hr_source r") simp_all
    then show ?thesis by (auto simp: list_ex_iff)
  qed
  have flags: "list_ex (\<lambda>r. hr_detected r \<and> hr_grounded r) reports = list_ex hr_grounded reports"
    "list_ex hr_imminent (filter hr_detected reports) = list_ex hr_imminent reports"
    using ok by (auto simp: list_ex_iff report_ok_def)
  have "case ?ttc of Some x \<Rightarrow> 0 \<le> x | None \<Rightarrow> True"
  proof (cases ?ttc)
    case (Some x)
    then obtain r where "r \<in> set reports" "hr_ttc r = Some x"
      using minimum_in [OF Some] by (auto simp: some_values_set)
    then show ?thesis using ok [of r] Some by (simp add: report_ok_def)
  qed simp
  moreover have "list_ex hr_grounded reports \<longrightarrow> list_ex hr_detected reports"
    using ok by (auto simp: list_ex_iff report_ok_def)
  moreover have "obstacle_ids n (PTuple (map PStr (first_occurrences (concat (map hr_obstacles (filter hr_detected reports))))))
      = Inr (first_occurrences (concat (map hr_obstacles (filter hr_detected reports))))"
    "obstacle_ids n (PTuple (map PStr (first_occurrences (concat (map hr_visible reports)))))
      = Inr (first_occurrences (concat (map hr_visible reports)))" for n
    using ok by (auto intro!: obstacle_ids_strings simp: report_ok_def list_all_iff)
  moreover have "hazard_version (PInt v) = Inr v" using assms(5) by (simp add: hazard_version_def)
  moreover have "0 \<le> braking_distance h speed" using HazardFusion_ok [OF assms(1)] braking_distance_nonneg by blast
  ultimately show ?thesis
    using assms(3-7) unfolding fuse_def HazardFusionResult_def Let_def hold flags ordered_unique_def by simp
qed

section \<open>Properties\<close>

text \<open>
  Fusing constructed reports never fails.  The fused result asks to hold exactly when a report
  detects a hazard, whatever its source; a route may be generated exactly when some report grounds
  its hazard in geometry, and then obstacles are named; its obstacles are those of the reports that
  detect a hazard, each once; and its time to collision is the least of theirs.
\<close>

theorem fuse_exact:
  assumes "HazardFusion a b c d = Inr h" and "list_all report_ok reports"
    and "routing_id_match m" "routing_id_match u" "0 < v" "0 \<le> t" "0 \<le> speed"
  shows "\<exists>f. fuse h reports (PStr m) (PStr u) (PInt v) (pfloat t) (pfloat speed) = Inr f
    \<and> (fu_hold f \<longleftrightarrow> list_ex hr_detected reports)
    \<and> (can_generate_route f \<longleftrightarrow> list_ex hr_grounded reports)
    \<and> (can_generate_route f \<longrightarrow> fu_obstacles f \<noteq> [])
    \<and> distinct (fu_obstacles f)
    \<and> set (fu_obstacles f) = {i. \<exists>r\<in>set reports. hr_detected r \<and> i \<in> set (hr_obstacles r)}
    \<and> (fu_imminent f \<longleftrightarrow> list_ex hr_imminent reports)
    \<and> (\<forall>r\<in>set reports. \<forall>x. hr_detected r \<and> hr_ttc r = Some x \<longrightarrow> (\<exists>y. fu_ttc f = Some y \<and> y \<le> x))
    \<and> (\<forall>y. fu_ttc f = Some y \<longrightarrow> (\<exists>r\<in>set reports. hr_detected r \<and> hr_ttc r = Some y))"
proof -
  let ?ttcs = "some_values (map hr_ttc (filter hr_detected reports))"
  have ok: "hr_grounded r \<longrightarrow> hr_detected r \<and> hr_obstacles r \<noteq> []" if "r \<in> set reports" for r
    using assms(2) that by (simp add: list_all_iff report_ok_def)
  have "\<exists>y. minimum ?ttcs = Some y \<and> y \<le> x" if "r \<in> set reports" "hr_detected r" "hr_ttc r = Some x" for r x
  proof -
    have "x \<in> set ?ttcs" unfolding some_values_set using that by force
    then show ?thesis using minimum_exact [of ?ttcs x] by blast
  qed
  moreover have "\<exists>r\<in>set reports. hr_detected r \<and> hr_ttc r = Some y" if "minimum ?ttcs = Some y" for y
    using minimum_in [OF that] unfolding some_values_set by force
  moreover have "\<exists>r\<in>set reports. hr_detected r \<and> hr_obstacles r \<noteq> []" if "list_ex hr_grounded reports"
    using that ok by (auto simp: list_ex_iff)
  moreover have "list_ex hr_grounded reports \<longrightarrow> list_ex hr_detected reports"
    using ok by (auto simp: list_ex_iff)
  ultimately show ?thesis
    unfolding fuse_value [OF assms] by (auto simp: can_generate_route_def)
qed

text \<open>A classical report without a hazard and a model report of one.\<close>

definition example_fusion :: hazard_fusion where
  "example_fusion = \<lparr>hf_blocked_ttc = 5, hf_imminent_ttc = 3 / 2, hf_deceleration = 3, hf_margin = 1 / 2\<rparr>"

definition example_hazard :: hazard_report where
  "example_hazard = \<lparr>hr_source = HS_QWEN_VISUAL_REVIEW, hr_detected = True, hr_grounded = True,
     hr_obstacles = [''wall''], hr_visible = [''wall''], hr_corridor = True, hr_ttc = Some 2,
     hr_distance = None, hr_imminent = False, hr_privileged = False\<rparr>"

definition example_quiet :: hazard_report where
  "example_quiet = \<lparr>hr_source = HS_IDEAL_CAMERA, hr_detected = False, hr_grounded = False,
     hr_obstacles = [], hr_visible = [''wall'', ''tree''], hr_corridor = False, hr_ttc = None,
     hr_distance = None, hr_imminent = False, hr_privileged = True\<rparr>"

lemma example_fusion_built:
  "HazardFusion (PInt 5) (PFloat (Fin (3 / 2))) (PInt 3) (PFloat (Fin (1 / 2))) = Inr example_fusion"
  by code_simp

theorem fuse_exact_witness:
  "\<exists>f. fuse example_fusion [example_quiet, example_hazard] (PStr ''m1'') (PStr ''u1'') (PInt 1) (pfloat 1)
       (pfloat 3) = Inr f \<and> can_generate_route f \<and> set (fu_obstacles f) = {''wall''}"
proof -
  have "list_all report_ok [example_quiet, example_hazard]" "routing_id_match ''m1''" "routing_id_match ''u1''"
    by code_simp+
  from fuse_exact [OF example_fusion_built this, of 1 1 3] show ?thesis
    by (auto simp: example_hazard_def example_quiet_def)
qed

text \<open>
  From the camera to the hold: a constructed observation is always reported and its report is
  always fused; the fused result holds exactly when a visible obstacle on the flight corridor is
  within the blocking time or the braking distance, it is then grounded, and its obstacles are
  exactly those hazards.
\<close>

theorem observed_hazard_holds:
  assumes "ObstacleObservation ov fr uv ts visible src pr co = Inr x" and "HazardFusion a b c d = Inr h"
    and "list_all (\<lambda>v. routing_id_match (vo_id v) \<and> 0 < vo_depth v
      \<and> (case vo_ttc v of Some y \<Rightarrow> 0 \<le> y | None \<Rightarrow> True)) visible"
    and "routing_id_match m" "routing_id_match u" "0 < v" "0 \<le> t" "0 \<le> speed"
  shows "\<exists>r f. report_from_observation h x (pfloat speed) = Inr r
    \<and> fuse h [r] (PStr m) (PStr u) (PInt v) (pfloat t) (pfloat speed) = Inr f
    \<and> (fu_hold f \<longleftrightarrow> list_ex (is_hazard h (fu_braking f)) visible)
    \<and> fu_braking f = speed ^ 2 / (2 * hf_deceleration h) + hf_margin h
    \<and> (can_generate_route f \<longleftrightarrow> fu_hold f)
    \<and> fu_obstacles f = map vo_id (filter (is_hazard h (fu_braking f)) visible)
    \<and> fu_visible f = map vo_id visible
    \<and> (fu_imminent f \<longleftrightarrow> list_ex (\<lambda>v. is_hazard h (fu_braking f) v \<and> is_imminent h (fu_braking f) v) visible)"
proof -
  have vis: "oo_visible x = visible" "distinct (map vo_id visible)"
    using assms(1) by (auto simp: ObstacleObservation_def rbind_eq_Inr split: if_splits)
  let ?bd = "braking_distance h speed"
  let ?hz = "filter (is_hazard h ?bd) visible"
  let ?r = "\<lparr>hr_source = HS_IDEAL_CAMERA, hr_detected = (?hz \<noteq> []), hr_grounded = (?hz \<noteq> []),
    hr_obstacles = map vo_id ?hz, hr_visible = map vo_id visible, hr_corridor = list_ex vo_corridor visible,
    hr_ttc = minimum (some_values (map vo_ttc ?hz)), hr_distance = minimum (map vo_depth ?hz),
    hr_imminent = list_ex (is_imminent h ?bd) ?hz, hr_privileged = oo_privileged x\<rparr>"
  have ok: "routing_id_match (vo_id w) \<and> 0 < vo_depth w \<and> (\<forall>y. vo_ttc w = Some y \<longrightarrow> 0 \<le> y)"
    if "w \<in> set visible" for w using assms(3) that by (auto simp: list_all_iff)
  have ttc: "case minimum (some_values (map vo_ttc ?hz)) of Some y \<Rightarrow> 0 \<le> y | None \<Rightarrow> True"
    using ok by (auto split: option.split dest!: minimum_in simp: some_values_set image_iff)
  have depth: "case minimum (map vo_depth ?hz) of Some y \<Rightarrow> 0 \<le> y | None \<Rightarrow> True"
    using ok by (force split: option.split dest!: minimum_in intro: less_imp_le)
  have "distinct (map vo_id ?hz)" using vis(2) by (simp add: distinct_map_filter)
  moreover have "list_ex (is_imminent h ?bd) ?hz \<longrightarrow> ?hz \<noteq> []" by (cases ?hz) auto
  ultimately have r: "report_ok ?r" using ok vis(2) ttc by (auto simp: report_ok_def list_all_iff)
  have made: "report_from_observation h x (pfloat speed) = Inr ?r"
    using HazardReport_values [OF r] depth assms(8) by (simp add: report_from_observation_def vis(1) Let_def comp_def)
  have unique: "first_occurrences xs = xs" if "distinct xs" for xs :: "string list"
    using that by (induction xs) (auto simp: filter_id_conv)
  have hz: "list_ex (is_hazard h ?bd) visible \<longleftrightarrow> ?hz \<noteq> []" by (induction visible) auto
  have im: "list_ex (is_imminent h ?bd) ?hz
      \<longleftrightarrow> list_ex (\<lambda>v. is_hazard h ?bd v \<and> is_imminent h ?bd v) visible" by (induction visible) auto
  have "list_all report_ok [?r]" using r by simp
  note f = fuse_value [OF assms(2) this assms(4-8)]
  from f obtain g where g: "fuse h [?r] (PStr m) (PStr u) (PInt v) (pfloat t) (pfloat speed) = Inr g"
    and "fu_hold g = (?hz \<noteq> [])" "fu_grounded g = (?hz \<noteq> [])" "fu_braking g = ?bd"
      "fu_obstacles g = map vo_id ?hz" "fu_visible g = map vo_id visible"
      "fu_imminent g = list_ex (is_imminent h ?bd) ?hz"
    using vis(2) \<open>distinct (map vo_id ?hz)\<close> by (cases "?hz = []") (simp_all add: unique)
  then show ?thesis
    using made hz im
    by (intro exI [of _ ?r] exI [of _ g]) (simp add: can_generate_route_def braking_distance_def power2_eq_square)
qed

definition example_obstacle :: visible_obstacle where
  "example_obstacle = \<lparr>vo_id = ''wall'', vo_bbox = [0, 0, 1, 1], vo_center = [4, 0, 0], vo_size = [1, 2, 3],
     vo_depth = 4, vo_occlusion = 0, vo_motion = MS_STATIC, vo_corridor = True, vo_ttc = Some 2\<rparr>"

definition example_observation :: obstacle_observation where
  "example_observation = \<lparr>oo_id = ''o1'', oo_frame = ''f1'', oo_uav = ''u1'', oo_time = 1,
     oo_visible = [example_obstacle], oo_source = IDEAL_CAMERA_OBSTACLE_SOURCE, oo_privileged = True,
     oo_coordinates = CAMERA_COORDINATE_FRAME\<rparr>"

theorem observed_hazard_holds_witness:
  "\<exists>r f. report_from_observation example_fusion example_observation (pfloat 2) = Inr r
     \<and> fuse example_fusion [r] (PStr ''m1'') (PStr ''u1'') (PInt 1) (pfloat 1) (pfloat 2) = Inr f
     \<and> fu_hold f \<and> can_generate_route f"
proof -
  have x: "ObstacleObservation (PStr ''o1'') (PStr ''f1'') (PStr ''u1'') (PInt 1) [example_obstacle]
      (PStr IDEAL_CAMERA_OBSTACLE_SOURCE) (PBool True) (PStr CAMERA_COORDINATE_FRAME) = Inr example_observation"
    and ids: "list_all (\<lambda>v. routing_id_match (vo_id v) \<and> 0 < vo_depth v
        \<and> (case vo_ttc v of Some y \<Rightarrow> 0 \<le> y | None \<Rightarrow> True)) [example_obstacle]"
      "routing_id_match ''m1''" "routing_id_match ''u1''" by code_simp+
  from observed_hazard_holds [OF x example_fusion_built ids, of 1 1 2] show ?thesis
    by (force simp: is_hazard_def ttc_at_most_def example_obstacle_def example_fusion_def)
qed

end
