(* ===== verification/Collision_Supervisor.thy ===== *)
theory Collision_Supervisor
  imports Hazard_Fusion
begin

text \<open>
  \<open>runtime/collision_supervisor.py\<close>: the state machine that holds a flight on a hazard and lets it
  resume.  \<open>uuid4().hex\<close> is an argument of every operation that makes an event.
\<close>

section \<open>States, actions and decisions\<close>

datatype supervisor_state =
    CS_CLEAR | CS_HAZARD_SUSPECTED | CS_BRAKING | CS_HOLDING | CS_GEOMETRY_GROUNDED | CS_REPLANNING
  | CS_READY_TO_RESUME

fun supervisor_state_value :: "supervisor_state \<Rightarrow> string" where
  "supervisor_state_value CS_CLEAR = ''CLEAR''"
| "supervisor_state_value CS_HAZARD_SUSPECTED = ''HAZARD_SUSPECTED''"
| "supervisor_state_value CS_BRAKING = ''BRAKING''"
| "supervisor_state_value CS_HOLDING = ''HOLDING''"
| "supervisor_state_value CS_GEOMETRY_GROUNDED = ''GEOMETRY_GROUNDED''"
| "supervisor_state_value CS_REPLANNING = ''REPLANNING''"
| "supervisor_state_value CS_READY_TO_RESUME = ''READY_TO_RESUME''"

datatype supervisor_action =
    SA_NONE | SA_REQUEST_HOLD | SA_KEEP_HOLDING | SA_START_REPLANNING | SA_RESUME

record supervisor_decision =
  cd_state :: supervisor_state
  cd_action :: supervisor_action
  cd_hold :: bool
  cd_generate :: bool
  cd_resume :: bool
  cd_events :: "mission_event list"
  cd_transitions :: "supervisor_state list"

record supervisor =
  cs_state :: supervisor_state
  cs_fusion :: "hazard_result option"
  cs_route :: "string option"
  cs_signature :: "(string list \<times> string list) option"

definition sup_init :: supervisor where
  "sup_init = \<lparr>cs_state = CS_CLEAR, cs_fusion = None, cs_route = None, cs_signature = None\<rparr>"

definition sup_should_hold :: "supervisor \<Rightarrow> bool" where
  "sup_should_hold s = (cs_state s \<noteq> CS_CLEAR)"

definition decision :: "supervisor \<Rightarrow> supervisor_action \<Rightarrow> mission_event list \<Rightarrow> supervisor_state list
    \<Rightarrow> supervisor_decision" where
  "decision s action events transitions =
     \<lparr>cd_state = cs_state s, cd_action = action, cd_hold = (cs_state s \<noteq> CS_CLEAR),
      cd_generate = (cs_state s \<in> {CS_GEOMETRY_GROUNDED, CS_REPLANNING}),
      cd_resume = (cs_state s = CS_READY_TO_RESUME), cd_events = events, cd_transitions = transitions\<rparr>"

definition require_fusion :: "supervisor \<Rightarrow> hazard_result result" where
  "require_fusion s = (case cs_fusion s of
     None \<Rightarrow> Inl (RuntimeError ''a fused hazard report is required'') | Some f \<Rightarrow> Inr f)"

definition require_state :: "supervisor_state \<Rightarrow> supervisor \<Rightarrow> unit result" where
  "require_state expected s =
     (if cs_state s \<noteq> expected
      then Inl (RuntimeError (''collision supervisor state must be '' @ supervisor_state_value expected
        @ '', got '' @ supervisor_state_value (cs_state s)))
      else Inr ())"

definition require_route_id :: "supervisor \<Rightarrow> string result" where
  "require_route_id s = (case cs_route s of
     None \<Rightarrow> Inl (RuntimeError ''a proposed route_id is required'') | Some r \<Rightarrow> Inr r)"

text \<open>\<open>_event\<close>; \<open>fr\<close> is \<open>float.__repr__\<close> and \<open>hex\<close> the value of \<open>uuid4().hex\<close>.\<close>

definition sup_event ::
  "(rat \<Rightarrow> string) \<Rightarrow> string \<Rightarrow> supervisor \<Rightarrow> mission_event_type \<Rightarrow> event_severity \<Rightarrow> pyval \<Rightarrow> pyval
     \<Rightarrow> mission_event result" where
  "sup_event fr hex s event_type severity payload timestamp =
     rbind (require_fusion s) (\<lambda>f.
     rbind (generate_routing_id hex (PStr ''event'')) (\<lambda>i.
       MissionEvent fr (PStr i) (PStr (fu_mission f)) (PStr (fu_uav f)) (PInt (fu_version f)) timestamp
         (PStr (event_type_value event_type)) (PStr (severity_value severity)) payload))"

definition hazard_sources :: "hazard_report list \<Rightarrow> string list" where
  "hazard_sources reports = map (\<lambda>r. source_value (hr_source r)) reports"

definition hazard_payload :: "hazard_result \<Rightarrow> pyval" where
  "hazard_payload f = pdict
     [(''obstacle_ids'', string_list (fu_obstacles f)),
      (''sources'', string_list (hazard_sources (filter hr_detected (fu_reports f)))),
      (''source_provenance'', PList (map (\<lambda>r. pdict [(''source'', PStr (source_value (hr_source r))),
         (''privileged'', PBool (hr_privileged r))]) (filter hr_detected (fu_reports f)))),
      (''geometry_grounded'', PBool (fu_grounded f)),
      (''minimum_ttc_s'', opt_pyval pfloat (fu_ttc f)),
      (''braking_distance_m'', pfloat (fu_braking f))]"

definition visible_payload :: "hazard_result \<Rightarrow> pyval" where
  "visible_payload f = pdict
     [(''obstacle_ids'', string_list (fu_visible f)),
      (''sources'', string_list (hazard_sources (fu_reports f)))]"

section \<open>Operations\<close>

definition visible_signature :: "hazard_result \<Rightarrow> string list \<times> string list" where
  "visible_signature f = (fu_visible f, first_occurrences (hazard_sources (fu_reports f)))"

text \<open>The visibility event of \<open>evaluate\<close>, and the signature it leaves.\<close>

definition report_visible ::
  "(rat \<Rightarrow> string) \<Rightarrow> string \<Rightarrow> hazard_result \<Rightarrow> supervisor \<Rightarrow> mission_event list result \<times> supervisor" where
  "report_visible fr hex f s =
     (if fu_visible f \<noteq> [] \<and> Some (visible_signature f) \<noteq> cs_signature s
      then checked s (sup_event fr hex s ET_OBSTACLE_VISIBLE SEV_INFO (visible_payload f)
             (pfloat (fu_time f))) (\<lambda>e.
        (Inr [e], s\<lparr>cs_signature := Some (visible_signature f)\<rparr>))
      else if fu_visible f = [] then (Inr [], s\<lparr>cs_signature := None\<rparr>)
      else (Inr [], s))"

text \<open>The rest of \<open>evaluate\<close> once a hazard is met in the clear state.\<close>

definition request_hold ::
  "(rat \<Rightarrow> string) \<Rightarrow> string \<Rightarrow> string \<Rightarrow> hazard_result \<Rightarrow> mission_event list \<Rightarrow> supervisor
     \<Rightarrow> supervisor_decision result \<times> supervisor" where
  "request_hold fr hex1 hex2 f events s =
     (let s = s\<lparr>cs_state := CS_HAZARD_SUSPECTED\<rparr>
      in checked s (sup_event fr hex1 s (if fu_imminent f then ET_IMMINENT_COLLISION else ET_PATH_BLOCKED)
             (if fu_imminent f then SEV_CRITICAL else SEV_ERROR) (hazard_payload f) (pfloat (fu_time f)))
           (\<lambda>risk.
         let s = s\<lparr>cs_state := CS_BRAKING\<rparr>
         in checked s (sup_event fr hex2 s ET_HOLD_REQUESTED SEV_ERROR (hazard_payload f)
                (pfloat (fu_time f))) (\<lambda>hold.
              (Inr (decision s SA_REQUEST_HOLD (events @ [risk, hold]) [CS_HAZARD_SUSPECTED, CS_BRAKING]),
               s))))"

definition sup_evaluate ::
  "(rat \<Rightarrow> string) \<Rightarrow> string \<Rightarrow> string \<Rightarrow> string \<Rightarrow> hazard_result \<Rightarrow> supervisor
     \<Rightarrow> supervisor_decision result \<times> supervisor" where
  "sup_evaluate fr hex1 hex2 hex3 f s =
     checked s
       (case cs_fusion s of
          Some g \<Rightarrow>
            if cs_state s \<noteq> CS_CLEAR \<and> (fu_mission f \<noteq> fu_mission g \<or> fu_uav f \<noteq> fu_uav g
                 \<or> fu_version f \<noteq> fu_version g)
            then Inl (ValueError ''active collision supervision cannot change routing'')
            else Inr ()
        | None \<Rightarrow> Inr ()) (\<lambda>_.
     let s = (if cs_state s = CS_CLEAR \<or> fu_hold f then s\<lparr>cs_fusion := Some f\<rparr> else s)
     in andthen (report_visible fr hex1 f s) (\<lambda>events s.
          if \<not> fu_hold f
          then (Inr (decision s (if cs_state s = CS_CLEAR then SA_NONE else SA_KEEP_HOLDING) events []), s)
          else if cs_state s \<noteq> CS_CLEAR
          then (Inr (decision s SA_KEEP_HOLDING events []), s)
          else request_hold fr hex2 hex3 f events s))"

definition mark_hold_established ::
  "(rat \<Rightarrow> string) \<Rightarrow> string \<Rightarrow> pyval \<Rightarrow> supervisor \<Rightarrow> supervisor_decision result \<times> supervisor" where
  "mark_hold_established fr hex timestamp s =
     checked s (require_state CS_BRAKING s) (\<lambda>_.
     let s = s\<lparr>cs_state := CS_HOLDING\<rparr>
     in checked s (rbind (require_fusion s) (\<lambda>f.
            sup_event fr hex s ET_HOLD_ESTABLISHED SEV_WARNING (hazard_payload f) timestamp)) (\<lambda>e.
          (Inr (decision s SA_KEEP_HOLDING [e] [cs_state s]), s)))"

definition mark_geometry_grounded :: "supervisor \<Rightarrow> supervisor_decision result \<times> supervisor" where
  "mark_geometry_grounded s =
     checked s (require_state CS_HOLDING s) (\<lambda>_.
     checked s (require_fusion s) (\<lambda>f.
     if \<not> can_generate_route f
     then (Inl (RuntimeError ''route generation requires a geometry-grounded active hazard''), s)
     else let s = s\<lparr>cs_state := CS_GEOMETRY_GROUNDED\<rparr>
          in (Inr (decision s SA_KEEP_HOLDING [] [cs_state s]), s)))"

definition begin_replanning :: "supervisor \<Rightarrow> supervisor_decision result \<times> supervisor" where
  "begin_replanning s =
     checked s (require_state CS_GEOMETRY_GROUNDED s) (\<lambda>_.
     let s = s\<lparr>cs_state := CS_REPLANNING\<rparr>
     in (Inr (decision s SA_START_REPLANNING [] [cs_state s]), s))"

definition route_proposed ::
  "(rat \<Rightarrow> string) \<Rightarrow> string \<Rightarrow> pyval \<Rightarrow> pyval \<Rightarrow> supervisor \<Rightarrow> supervisor_decision result \<times> supervisor" where
  "route_proposed fr hex route timestamp s =
     checked s (require_state CS_REPLANNING s) (\<lambda>_.
     checked s (validate_routing_id route ''route_id'') (\<lambda>r.
     let s = s\<lparr>cs_route := Some r\<rparr>
     in checked s (sup_event fr hex s ET_ROUTE_PROPOSED SEV_INFO (pdict [(''route_id'', PStr r)]) timestamp)
          (\<lambda>e. (Inr (decision s SA_KEEP_HOLDING [e] []), s))))"

definition route_rejected ::
  "(rat \<Rightarrow> string) \<Rightarrow> string \<Rightarrow> pyval \<Rightarrow> pyval \<Rightarrow> supervisor \<Rightarrow> supervisor_decision result \<times> supervisor" where
  "route_rejected fr hex reasons timestamp s =
     checked s (require_state CS_REPLANNING s) (\<lambda>_.
     checked s (require_route_id s) (\<lambda>r.
     checked s (rbind (py_iter reasons) (\<lambda>xs.
         rmap (\<lambda>(i, x). validate_routing_id x (item_name ''reason_codes'' i)) (enumerate 0 xs))) (\<lambda>reasons.
     if reasons = [] then (Inl (ValueError ''reason_codes must not be empty''), s)
     else
       let s = s\<lparr>cs_route := None\<rparr>
       in checked s (sup_event fr hex s ET_ROUTE_REJECTED SEV_WARNING
              (pdict [(''route_id'', PStr r), (''reason_codes'', string_list reasons)]) timestamp)
            (\<lambda>e. (Inr (decision s SA_KEEP_HOLDING [e] []), s)))))"

text \<open>Membership in a set of strings: a list or dict, or a tuple that holds one, cannot be hashed.\<close>

fun hashable :: "pyval \<Rightarrow> bool" where
  "hashable (PList xs) = False"
| "hashable (PDict d) = False"
| "hashable (PTuple xs) = list_all hashable xs"
| "hashable v = True"

definition validation_mode :: "pyval \<Rightarrow> pyval result" where
  "validation_mode v =
     (if \<not> hashable v then Inl (TypeError ''unhashable type'')
      else if v \<notin> {PStr ''open_sim'', PStr ''critic_sim'', PStr ''strict''}
      then Inl (ValueError ''validation_mode must be open_sim, critic_sim, or strict'')
      else Inr v)"

definition route_accepted ::
  "(rat \<Rightarrow> string) \<Rightarrow> string \<Rightarrow> pyval \<Rightarrow> pyval \<Rightarrow> pyval \<Rightarrow> supervisor \<Rightarrow> supervisor_decision result \<times> supervisor" where
  "route_accepted fr hex mode passed timestamp s =
     checked s (require_state CS_REPLANNING s) (\<lambda>_.
     checked s (require_route_id s) (\<lambda>r.
     checked s (validation_mode mode) (\<lambda>mode.
     checked s (bool_value (TypeError ''required_checks_passed must be a bool'') passed) (\<lambda>passed.
     if \<not> passed
     then (Inl (RuntimeError ''route cannot be accepted until required checks have passed''), s)
     else
       let s = s\<lparr>cs_state := CS_READY_TO_RESUME\<rparr>
       in checked s (sup_event fr hex s ET_ROUTE_ACCEPTED SEV_INFO
              (pdict [(''route_id'', PStr r), (''validation_mode'', mode)]) timestamp)
            (\<lambda>e. (Inr (decision s SA_KEEP_HOLDING [e] [cs_state s]), s))))))"

definition sup_resume :: "pyval \<Rightarrow> supervisor \<Rightarrow> supervisor_decision result \<times> supervisor" where
  "sup_resume passed s =
     checked s (require_state CS_READY_TO_RESUME s) (\<lambda>_.
     if passed \<noteq> PBool True
     then (Inl (RuntimeError ''flight resume requires the accepted route checks''), s)
     else let s = s\<lparr>cs_state := CS_CLEAR, cs_fusion := None, cs_route := None\<rparr>
          in (Inr (decision s SA_RESUME [] [cs_state s]), s))"

definition sup_reset :: "supervisor \<Rightarrow> supervisor" where
  "sup_reset s = s\<lparr>cs_state := CS_CLEAR, cs_fusion := None, cs_route := None, cs_signature := None\<rparr>"

section \<open>Runs\<close>

text \<open>
  The operations of a flight, without the reset between episodes.  A run applies them in order,
  also after one raised; its moves are the operations that changed the state, with the supervisor
  before and after.
\<close>

datatype sup_op =
    Evaluate string string string hazard_result
  | HoldEstablished string pyval
  | GeometryGrounded
  | BeginReplanning
  | RouteProposed string pyval pyval
  | RouteRejected string pyval pyval
  | RouteAccepted string pyval pyval pyval
  | Resume pyval

fun sup_do :: "(rat \<Rightarrow> string) \<Rightarrow> sup_op \<Rightarrow> supervisor \<Rightarrow> supervisor_decision result \<times> supervisor" where
  "sup_do fr (Evaluate x y z f) s = sup_evaluate fr x y z f s"
| "sup_do fr (HoldEstablished x t) s = mark_hold_established fr x t s"
| "sup_do fr GeometryGrounded s = mark_geometry_grounded s"
| "sup_do fr BeginReplanning s = begin_replanning s"
| "sup_do fr (RouteProposed x r t) s = route_proposed fr x r t s"
| "sup_do fr (RouteRejected x r t) s = route_rejected fr x r t s"
| "sup_do fr (RouteAccepted x m p t) s = route_accepted fr x m p t s"
| "sup_do fr (Resume p) s = sup_resume p s"

fun sup_run :: "(rat \<Rightarrow> string) \<Rightarrow> sup_op list \<Rightarrow> supervisor \<Rightarrow> supervisor" where
  "sup_run fr [] s = s"
| "sup_run fr (op # ops) s = sup_run fr ops (snd (sup_do fr op s))"

fun sup_moves :: "(rat \<Rightarrow> string) \<Rightarrow> sup_op list \<Rightarrow> supervisor \<Rightarrow> (supervisor \<times> sup_op \<times> supervisor) list" where
  "sup_moves fr [] s = []"
| "sup_moves fr (op # ops) s =
     (let s' = snd (sup_do fr op s)
      in (if cs_state s' = cs_state s then [] else [(s, op, s')]) @ sup_moves fr ops s')"

text \<open>What moves the state, and what the supervisor then held.\<close>

fun milestone :: "supervisor \<times> sup_op \<times> supervisor \<Rightarrow> bool" where
  "milestone (s, Evaluate x y z f, s') =
     (fu_hold f \<and> cs_state s = CS_CLEAR \<and> cs_state s' \<in> {CS_BRAKING, CS_HAZARD_SUSPECTED} \<and> cs_fusion s' = Some f)"
| "milestone (s, HoldEstablished x t, s') = (cs_state s = CS_BRAKING \<and> cs_state s' = CS_HOLDING)"
| "milestone (s, GeometryGrounded, s') =
     (cs_state s = CS_HOLDING \<and> cs_state s' = CS_GEOMETRY_GROUNDED
      \<and> (case cs_fusion s of Some f \<Rightarrow> fu_hold f \<and> fu_grounded f | None \<Rightarrow> False))"
| "milestone (s, BeginReplanning, s') = (cs_state s = CS_GEOMETRY_GROUNDED \<and> cs_state s' = CS_REPLANNING)"
| "milestone (s, RouteAccepted x m p t, s') =
     (cs_state s = CS_REPLANNING \<and> cs_state s' = CS_READY_TO_RESUME \<and> p = PBool True \<and> cs_route s \<noteq> None)"
| "milestone (s, Resume p, s') =
     (cs_state s = CS_READY_TO_RESUME \<and> cs_state s' = CS_CLEAR \<and> p = PBool True)"
| "milestone _ = False"

lemma checked_snd: "snd (checked s r k) = (case r of Inl e \<Rightarrow> s | Inr x \<Rightarrow> snd (k x))"
  by (cases r) simp_all

lemma report_visible_keeps:
  "report_visible fr x f s = (r, s') \<Longrightarrow> cs_state s' = cs_state s \<and> cs_fusion s' = cs_fusion s"
  by (auto simp: report_visible_def checked_def split: if_splits sum.splits)

lemma request_hold_moves:
  "cs_state (snd (request_hold fr x y f ev s)) \<in> {CS_BRAKING, CS_HAZARD_SUSPECTED}
   \<and> cs_fusion (snd (request_hold fr x y f ev s)) = cs_fusion s"
  by (simp add: request_hold_def Let_def checked_snd split: sum.split)

lemma sup_evaluate_moves:
  "cs_state (snd (sup_evaluate fr x y z f s)) = cs_state s
   \<or> milestone (s, Evaluate x y z f, snd (sup_evaluate fr x y z f s))"
proof -
  let ?s = "if cs_state s = CS_CLEAR \<or> fu_hold f then s\<lparr>cs_fusion := Some f\<rparr> else s"
  obtain r s' where v: "report_visible fr x f ?s = (r, s')" by (cases "report_visible fr x f ?s")
  note keeps = report_visible_keeps [OF v] and moves = request_hold_moves [of fr y z f _ s']
  show ?thesis
    by (cases r) (use v keeps moves in \<open>auto simp: sup_evaluate_def checked_snd Let_def split: sum.splits option.splits\<close>)
qed

lemma sup_do_moves: "cs_state (snd (sup_do fr op s)) = cs_state s \<or> milestone (s, op, snd (sup_do fr op s))"
proof (cases op)
  case (Evaluate x y z f)
  then show ?thesis using sup_evaluate_moves by simp
qed (simp_all add: mark_hold_established_def mark_geometry_grounded_def begin_replanning_def route_proposed_def
    route_rejected_def route_accepted_def sup_resume_def checked_snd Let_def require_state_def require_fusion_def
    require_route_id_def can_generate_route_def bool_value_def split: sum.split option.split pyval.split)

lemma sup_run_snoc: "sup_run fr (ops @ [op]) s = snd (sup_do fr op (sup_run fr ops s))"
  by (induction ops arbitrary: s) simp_all

lemma sup_moves_snoc:
  "sup_moves fr (ops @ [op]) s = sup_moves fr ops s
     @ (if cs_state (snd (sup_do fr op (sup_run fr ops s))) = cs_state (sup_run fr ops s) then []
        else [(sup_run fr ops s, op, snd (sup_do fr op (sup_run fr ops s)))])"
  by (induction ops arbitrary: s) (simp_all add: Let_def)

lemma moves_milestones: "list_all milestone (sup_moves fr ops s)"
  by (induction ops arbitrary: s) (use sup_do_moves in \<open>auto simp: Let_def\<close>)

fun sup_allowed :: "supervisor_state \<Rightarrow> supervisor_state list" where
  "sup_allowed CS_CLEAR = [CS_HAZARD_SUSPECTED, CS_BRAKING]"
| "sup_allowed CS_HAZARD_SUSPECTED = []"
| "sup_allowed CS_BRAKING = [CS_HOLDING]"
| "sup_allowed CS_HOLDING = [CS_GEOMETRY_GROUNDED]"
| "sup_allowed CS_GEOMETRY_GROUNDED = [CS_REPLANNING]"
| "sup_allowed CS_REPLANNING = [CS_READY_TO_RESUME]"
| "sup_allowed CS_READY_TO_RESUME = [CS_CLEAR]"

interpretation supervision: transition_table sup_allowed "\<lambda>s. s = CS_HAZARD_SUSPECTED"
  by unfold_locales simp

lemma milestone_allowed: "milestone (s, op, s') \<Longrightarrow> cs_state s' \<in> set (sup_allowed (cs_state s))"
  by (cases op) auto


text \<open>The states visited since the supervisor was last clear.\<close>

fun trail :: "supervisor_state \<Rightarrow> supervisor_state list" where
  "trail CS_CLEAR = []"
| "trail CS_HAZARD_SUSPECTED = [CS_HAZARD_SUSPECTED]"
| "trail CS_BRAKING = [CS_BRAKING]"
| "trail CS_HOLDING = [CS_BRAKING, CS_HOLDING]"
| "trail CS_GEOMETRY_GROUNDED = [CS_BRAKING, CS_HOLDING, CS_GEOMETRY_GROUNDED]"
| "trail CS_REPLANNING = [CS_BRAKING, CS_HOLDING, CS_GEOMETRY_GROUNDED, CS_REPLANNING]"
| "trail CS_READY_TO_RESUME =
     [CS_BRAKING, CS_HOLDING, CS_GEOMETRY_GROUNDED, CS_REPLANNING, CS_READY_TO_RESUME]"

lemma trail_step:
  assumes "t \<in> set (sup_allowed s)"
  shows "(t = CS_CLEAR \<and> trail t = []) \<or> trail t = trail s @ [t]"
  using assms by (cases s) auto

lemma moves_trail:
  "\<exists>pre. map (\<lambda>(s, op, s'). cs_state s') (sup_moves fr ops sup_init)
     = pre @ trail (cs_state (sup_run fr ops sup_init))"
proof (induction ops rule: rev_induct)
  case Nil
  then show ?case by (simp add: sup_init_def)
next
  case (snoc op ops)
  let ?s = "sup_run fr ops sup_init"
  let ?t = "snd (sup_do fr op ?s)"
  obtain pre where pre: "map (\<lambda>(s, op, s'). cs_state s') (sup_moves fr ops sup_init) = pre @ trail (cs_state ?s)"
    using snoc by blast
  show ?case
  proof (cases "cs_state ?t = cs_state ?s")
    case True
    then show ?thesis using pre by (simp add: sup_run_snoc sup_moves_snoc)
  next
    case False
    then have "cs_state ?t \<in> set (sup_allowed (cs_state ?s))"
      using sup_do_moves [of fr op ?s] milestone_allowed by blast
    from trail_step [OF this] show ?thesis
      using pre False by (auto simp: sup_run_snoc sup_moves_snoc)
  qed
qed

lemma resume_decision:
  assumes "sup_do fr op s = (Inr d, s')" and "cd_action d = SA_RESUME"
  shows "op = Resume (PBool True) \<and> cs_state s = CS_READY_TO_RESUME \<and> cs_state s' = CS_CLEAR"
proof (cases op)
  case (Evaluate x y z f)
  then show ?thesis
    using assms by (auto simp: sup_evaluate_def request_hold_def decision_def Let_def checked_eq_Inr andthen_eq_Inr
        split: if_splits)
qed (use assms in \<open>auto simp: mark_hold_established_def mark_geometry_grounded_def begin_replanning_def
    route_proposed_def route_rejected_def route_accepted_def sup_resume_def decision_def Let_def checked_eq_Inr
    require_state_def split: if_splits\<close>)

text \<open>The shape of each milestone, by the state it leads to.\<close>

lemma milestone_cases:
  assumes "milestone e" and "(\<lambda>(s, op, s'). cs_state s') e = t"
  shows "t = CS_BRAKING \<Longrightarrow> \<exists>s x y z f s'. e = (s, Evaluate x y z f, s') \<and> fu_hold f"
    and "t = CS_HOLDING \<Longrightarrow> \<exists>s x u s'. e = (s, HoldEstablished x u, s')"
    and "t = CS_GEOMETRY_GROUNDED \<Longrightarrow> \<exists>s s' g. e = (s, GeometryGrounded, s') \<and> cs_fusion s = Some g
      \<and> fu_hold g \<and> fu_grounded g"
    and "t = CS_REPLANNING \<Longrightarrow> \<exists>s s'. e = (s, BeginReplanning, s')"
    and "t = CS_READY_TO_RESUME \<Longrightarrow> \<exists>s x m u s' i. e = (s, RouteAccepted x m (PBool True) u, s') \<and> cs_route s = Some i"
  using assms by (cases e rule: milestone.cases; auto split: option.splits)+

text \<open>
  C22. The supervisor decides to resume only on a resume call whose checks passed, and only after, since
  it was last clear: a hazard was evaluated that asks to hold, the hold was established, the
  geometry was grounded by a fused hazard that asked to hold, replanning began, and a proposed route
  was accepted with its required checks passed.  No other order of calls, and no call that raised,
  gets there.
\<close>

theorem flight_resumes:
  assumes "sup_do fr op (sup_run fr ops sup_init) = (Inr d, s')" and "cd_action d = SA_RESUME"
  shows "op = Resume (PBool True) \<and> (\<exists>pre s1 x y z f t1 s2 h u t2 s3 g t3 s4 t4 s5 i m w k t5.
    sup_moves fr ops sup_init = pre @
      [(s1, Evaluate x y z f, t1), (s2, HoldEstablished h u, t2), (s3, GeometryGrounded, t3),
       (s4, BeginReplanning, t4), (s5, RouteAccepted k m (PBool True) w, t5)]
    \<and> fu_hold f \<and> cs_fusion s3 = Some g \<and> fu_hold g \<and> fu_grounded g \<and> cs_route s5 = Some i)"
proof -
  note resume = resume_decision [OF assms]
  obtain pre where "map (\<lambda>(s, op, s'). cs_state s') (sup_moves fr ops sup_init)
      = pre @ [CS_BRAKING, CS_HOLDING, CS_GEOMETRY_GROUNDED, CS_REPLANNING, CS_READY_TO_RESUME]"
    using moves_trail [of fr ops] resume by auto
  then obtain es e1 e2 e3 e4 e5 where es: "sup_moves fr ops sup_init = es @ [e1, e2, e3, e4, e5]"
    and st: "(\<lambda>(s, op, s'). cs_state s') e1 = CS_BRAKING" "(\<lambda>(s, op, s'). cs_state s') e2 = CS_HOLDING"
      "(\<lambda>(s, op, s'). cs_state s') e3 = CS_GEOMETRY_GROUNDED" "(\<lambda>(s, op, s'). cs_state s') e4 = CS_REPLANNING"
      "(\<lambda>(s, op, s'). cs_state s') e5 = CS_READY_TO_RESUME"
    by (auto simp: map_eq_append_conv map_eq_Cons_conv)
  have ms: "milestone e1" "milestone e2" "milestone e3" "milestone e4" "milestone e5"
    using moves_milestones [of fr ops sup_init] es by auto
  obtain s1 x y z f t1 where e1: "e1 = (s1, Evaluate x y z f, t1)" "fu_hold f"
    using milestone_cases(1) [OF ms(1) st(1) refl] by blast
  obtain s2 h u t2 where e2: "e2 = (s2, HoldEstablished h u, t2)"
    using milestone_cases(2) [OF ms(2) st(2) refl] by blast
  obtain s3 t3 g where e3: "e3 = (s3, GeometryGrounded, t3)" "cs_fusion s3 = Some g" "fu_hold g" "fu_grounded g"
    using milestone_cases(3) [OF ms(3) st(3) refl] by blast
  obtain s4 t4 where e4: "e4 = (s4, BeginReplanning, t4)"
    using milestone_cases(4) [OF ms(4) st(4) refl] by blast
  obtain s5 k m w t5 i where e5: "e5 = (s5, RouteAccepted k m (PBool True) w, t5)" "cs_route s5 = Some i"
    using milestone_cases(5) [OF ms(5) st(5) refl] by blast
  have "sup_moves fr ops sup_init = es @
      [(s1, Evaluate x y z f, t1), (s2, HoldEstablished h u, t2), (s3, GeometryGrounded, t3),
       (s4, BeginReplanning, t4), (s5, RouteAccepted k m (PBool True) w, t5)]
    \<and> fu_hold f \<and> cs_fusion s3 = Some g \<and> fu_hold g \<and> fu_grounded g \<and> cs_route s5 = Some i"
    using es e1 e2 e3 e4 e5 by simp
  then show ?thesis using resume by (intro conjI [OF conjunct1 [OF resume]] exI)
qed

section \<open>Crowded scenes\<close>













text \<open>A flight that holds, replans and resumes.\<close>

definition example_danger :: hazard_result where
  "example_danger = \<lparr>fu_mission = ''m1'', fu_uav = ''u1'', fu_version = 1, fu_time = 1, fu_reports = [example_hazard],
     fu_low_level = False, fu_qwen = True, fu_hold = True, fu_grounded = True, fu_imminent = False,
     fu_obstacles = [''wall''], fu_visible = [], fu_ttc = Some 2, fu_braking = 1\<rparr>"

lemma example_danger_payload:
  "\<exists>p. validated_json_payload (\<lambda>_. ''1.0'') (hazard_payload example_danger) ''payload'' = Inr p"
  by (simp add: validated_json_payload_def hazard_payload_def example_danger_def example_hazard_def hazard_sources_def
    string_list_def freeze_json.simps freeze_entries.simps freeze_items.simps
      MAX_JSON_DEPTH_def MAX_JSON_ITEMS_def MAX_JSON_STRING_CHARS_def MAX_JSON_ENCODED_BYTES_def
      json_string_def json_char_def Let_def)

definition example_hex :: string where
  "example_hex = ''0123456789abcdef0123456789abcdef''"

definition example_flight :: "sup_op list" where
  "example_flight = [Evaluate example_hex example_hex example_hex example_danger, HoldEstablished example_hex (pfloat 2),
     GeometryGrounded, BeginReplanning, RouteProposed example_hex (PStr ''r1'') (pfloat 3),
     RouteAccepted example_hex (PStr ''strict'') (PBool True) (pfloat 3)]"

lemma example_event_made:
  assumes "cs_fusion s = Some example_danger" and "validated_json_payload (\<lambda>_. ''1.0'') v ''payload'' = Inr p" and "0 \<le> t"
  shows "\<exists>e. sup_event (\<lambda>_. ''1.0'') example_hex s ty sev v (pfloat t) = Inr e"
proof -
  have "generate_routing_id example_hex (PStr ''event'') = Inr (''event_'' @ example_hex)"
    "routing_id_match (''event_'' @ example_hex)" "routing_id_match ''m1''" "routing_id_match ''u1''" by code_simp+
  moreover have "MissionEventType (PStr (event_type_value ty)) = Inr ty" "EventSeverity (PStr (severity_value sev)) = Inr sev"
    unfolding MissionEventType_def EventSeverity_def
    by (cases ty; simp add: enum_of_def event_types_def) (cases sev; simp add: enum_of_def)
  ultimately show ?thesis
    using assms by (simp add: sup_event_def require_fusion_def MissionEvent_def example_danger_def
        positive_plan_version_def finite_timestamp_def or_value_error_def)
qed

lemma example_route_payloads:
  "\<exists>p. validated_json_payload (\<lambda>_. ''1.0'') (pdict [(''route_id'', PStr ''r1'')]) ''payload'' = Inr p"
  "\<exists>p. validated_json_payload (\<lambda>_. ''1.0'') (pdict [(''route_id'', PStr ''r1''),
     (''validation_mode'', PStr ''strict'')]) ''payload'' = Inr p"
  by (simp_all add: validated_json_payload_def freeze_json.simps freeze_entries.simps
      MAX_JSON_DEPTH_def MAX_JSON_ITEMS_def MAX_JSON_STRING_CHARS_def MAX_JSON_ENCODED_BYTES_def
      json_string_def json_char_def Let_def)

lemma example_flight_ready:
  "sup_run (\<lambda>_. ''1.0'') example_flight sup_init = \<lparr>cs_state = CS_READY_TO_RESUME,
     cs_fusion = Some example_danger, cs_route = Some ''r1'', cs_signature = None\<rparr>"
proof -
  let ?fr = "\<lambda>_::rat. ''1.0''"
  let ?s = "\<lambda>st r. \<lparr>cs_state = st, cs_fusion = Some example_danger, cs_route = r, cs_signature = None\<rparr>"
  have made: "\<exists>e. sup_event ?fr example_hex s ty sev (hazard_payload example_danger) (pfloat t) = Inr e"
    if "cs_fusion s = Some example_danger" "0 \<le> t" for s ty sev t
    using example_danger_payload example_event_made [OF that(1) _ that(2)] by blast
  have danger: "fu_hold example_danger" "fu_grounded example_danger" "fu_visible example_danger = []"
    "\<not> fu_imminent example_danger" "fu_time example_danger = 1" by (simp_all add: example_danger_def)
  have 1: "snd (sup_do ?fr (Evaluate example_hex example_hex example_hex example_danger) sup_init) = ?s CS_BRAKING None"
  proof -
    obtain e where "sup_event ?fr example_hex (?s CS_HAZARD_SUSPECTED None) ET_PATH_BLOCKED SEV_ERROR
        (hazard_payload example_danger) (pfloat 1) = Inr e" using made by fastforce
    moreover obtain e' where "sup_event ?fr example_hex (?s CS_BRAKING None) ET_HOLD_REQUESTED SEV_ERROR
        (hazard_payload example_danger) (pfloat 1) = Inr e'" using made by fastforce
    ultimately show ?thesis
      using danger by (simp add: sup_evaluate_def sup_init_def report_visible_def request_hold_def Let_def)
  qed
  have 2: "snd (sup_do ?fr (HoldEstablished example_hex (pfloat 2)) (?s CS_BRAKING None)) = ?s CS_HOLDING None"
    by (simp add: mark_hold_established_def require_state_def require_fusion_def checked_snd Let_def split: sum.split)
  have 3: "snd (sup_do ?fr GeometryGrounded (?s CS_HOLDING None)) = ?s CS_GEOMETRY_GROUNDED None"
    using danger by (simp add: mark_geometry_grounded_def require_state_def require_fusion_def can_generate_route_def Let_def)
  have 4: "snd (sup_do ?fr BeginReplanning (?s CS_GEOMETRY_GROUNDED None)) = ?s CS_REPLANNING None"
    by (simp add: begin_replanning_def require_state_def Let_def)
  have "routing_id_match ''r1''" by code_simp
  then have 5: "snd (sup_do ?fr (RouteProposed example_hex (PStr ''r1'') (pfloat 3)) (?s CS_REPLANNING None))
      = ?s CS_REPLANNING (Some ''r1'')"
    by (simp add: route_proposed_def require_state_def checked_snd Let_def split: sum.split)
  have 6: "snd (sup_do ?fr (RouteAccepted example_hex (PStr ''strict'') (PBool True) (pfloat 3))
      (?s CS_REPLANNING (Some ''r1''))) = ?s CS_READY_TO_RESUME (Some ''r1'')"
    by (simp add: route_accepted_def require_state_def require_route_id_def validation_mode_def checked_snd Let_def
        split: sum.split)
  show ?thesis
    unfolding example_flight_def sup_run.simps 1 2 3 4 5 6 by (rule refl)
qed

theorem flight_resumes_witness:
  "\<exists>d. sup_do (\<lambda>_. ''1.0'') (Resume (PBool True)) (sup_run (\<lambda>_. ''1.0'') example_flight sup_init)
      = (Inr d, \<lparr>cs_state = CS_CLEAR, cs_fusion = None, cs_route = None, cs_signature = None\<rparr>)
    \<and> cd_action d = SA_RESUME \<and> 5 \<le> length (sup_moves (\<lambda>_. ''1.0'') example_flight sup_init)"
proof -
  obtain d where d: "sup_do (\<lambda>_. ''1.0'') (Resume (PBool True)) (sup_run (\<lambda>_. ''1.0'') example_flight sup_init)
      = (Inr d, \<lparr>cs_state = CS_CLEAR, cs_fusion = None, cs_route = None, cs_signature = None\<rparr>)"
    "cd_action d = SA_RESUME"
    unfolding example_flight_ready by (simp add: sup_resume_def require_state_def decision_def Let_def)
  have "5 \<le> length (sup_moves (\<lambda>_. ''1.0'') example_flight sup_init)"
    using flight_resumes [OF d] by (elim conjE exE) simp
  then show ?thesis using d by blast
qed

end
