(* ===== verification/Async_Worker.thy ===== *)
theory Async_Worker
  imports Routing_Ids Py_Containers "HOL-Library.Multiset"
begin

text \<open>
  \<open>models/async_worker.py\<close>: the background worker of one UAV, with at most one pending request, one
  request at the model and a bounded queue of results.

  The methods and the two critical sections of the worker thread each run under the condition's
  lock and are one step.  Messages, options and the model's response are opaque (type variables); the
  outcome of \<open>client.chat\<close>, which runs between the two sections of the thread, is an argument of the
  second.  A representation of the request that is at the model is kept in the state, where the thread
  has it in a local variable.
\<close>

section \<open>Requests and results\<close>

definition worker_plan_version :: "pyval \<Rightarrow> int result" where
  "worker_plan_version =
     int_value (TypeError ''plan_version must be an integer'')
       (ValueError ''plan_version must be greater than zero'') (\<lambda>i. 0 < i)"

definition worker_timestamp :: "pyval \<Rightarrow> rat result" where
  "worker_timestamp =
     real_value (TypeError ''observation_timestamp_s must be a finite number'')
       (ValueError ''observation_timestamp_s must be finite and non-negative'') (\<lambda>x. 0 \<le> x)"

record ('m, 'o) async_request =
  aq_request :: string
  aq_review :: string
  aq_mission :: string
  aq_uav :: string
  aq_version :: int
  aq_time :: rat
  aq_frame :: string
  aq_messages :: "'m list"
  aq_options :: "'o option"
  aq_priority :: int
  aq_replaceable :: bool

definition AsyncModelRequest ::
  "pyval \<Rightarrow> pyval \<Rightarrow> pyval \<Rightarrow> pyval \<Rightarrow> pyval \<Rightarrow> pyval \<Rightarrow> pyval \<Rightarrow> 'm list \<Rightarrow> 'o option \<Rightarrow> pyval \<Rightarrow> pyval
     \<Rightarrow> ('m, 'o) async_request result" where
  "AsyncModelRequest request review mission uav version timestamp frame messages options priority replaceable =
     rbind (validate_request_id request) (\<lambda>request.
     rbind (validate_review_id review) (\<lambda>review.
     rbind (validate_mission_id mission) (\<lambda>mission.
     rbind (validate_uav_id uav) (\<lambda>uav.
     rbind (worker_plan_version version) (\<lambda>version.
     rbind (worker_timestamp timestamp) (\<lambda>timestamp.
     rbind (validate_routing_id frame ''frame_id'') (\<lambda>frame.
     if messages = [] then Inl (ValueError ''messages must not be empty'')
     else
       rbind (int_value (ValueError ''broker_priority must be visual-review priority 3 or 4'')
                (ValueError ''broker_priority must be visual-review priority 3 or 4'')
                (\<lambda>i. i \<in> {3, 4}) priority) (\<lambda>priority.
       rbind (bool_value (TypeError ''broker_replaceable must be bool'') replaceable) (\<lambda>replaceable.
         Inr \<lparr>aq_request = request, aq_review = review, aq_mission = mission, aq_uav = uav,
           aq_version = version, aq_time = timestamp, aq_frame = frame, aq_messages = messages,
           aq_options = options, aq_priority = priority, aq_replaceable = replaceable\<rparr>)))))))))"

record 'r async_result =
  ar_request :: string
  ar_review :: string
  ar_mission :: string
  ar_uav :: string
  ar_version :: int
  ar_time :: rat
  ar_frame :: string
  ar_response :: "'r option"
  ar_error :: "string option"
  ar_message :: "string option"
  ar_stale :: bool

definition AsyncModelResult ::
  "pyval \<Rightarrow> pyval \<Rightarrow> pyval \<Rightarrow> pyval \<Rightarrow> pyval \<Rightarrow> pyval \<Rightarrow> pyval \<Rightarrow> 'r option \<Rightarrow> string option \<Rightarrow> string option
     \<Rightarrow> bool \<Rightarrow> 'r async_result result" where
  "AsyncModelResult request review mission uav version timestamp frame response error_code message stale =
     rbind (validate_request_id request) (\<lambda>request.
     rbind (validate_review_id review) (\<lambda>review.
     rbind (validate_mission_id mission) (\<lambda>mission.
     rbind (validate_uav_id uav) (\<lambda>uav.
     rbind (worker_plan_version version) (\<lambda>version.
     rbind (worker_timestamp timestamp) (\<lambda>timestamp.
     rbind (validate_routing_id frame ''frame_id'') (\<lambda>frame.
     if error_code = Some [] then Inl (TypeError ''error_code must be a non-empty string or None'')
     else if (response = None) = (error_code = None)
     then Inl (ValueError ''result must contain exactly one of response or error_code'')
     else if error_code = None \<and> message \<noteq> None
     then Inl (ValueError ''successful result must not contain error_message'')
     else Inr \<lparr>ar_request = request, ar_review = review, ar_mission = mission, ar_uav = uav,
       ar_version = version, ar_time = timestamp, ar_frame = frame, ar_response = response,
       ar_error = error_code, ar_message = message, ar_stale = stale\<rparr>)))))))"

definition result_succeeded :: "'r async_result \<Rightarrow> bool" where
  "result_succeeded x = (ar_response x \<noteq> None \<and> ar_error x = None)"

text \<open>\<open>dataclasses.replace(result, stale=stale)\<close> runs the constructor again.\<close>

definition replace_stale :: "'r async_result \<Rightarrow> bool \<Rightarrow> 'r async_result result" where
  "replace_stale x stale = AsyncModelResult (PStr (ar_request x)) (PStr (ar_review x)) (PStr (ar_mission x))
     (PStr (ar_uav x)) (PInt (ar_version x)) (PFloat (Fin (ar_time x))) (PStr (ar_frame x))
     (ar_response x) (ar_error x) (ar_message x) stale"

section \<open>The worker\<close>

record ('m, 'o, 'r) async_worker =
  aw_uav :: string
  aw_max :: nat
  aw_pending :: "('m, 'o) async_request option"
  aw_active :: "('m, 'o) async_request option"
  aw_stale :: "string set"
  aw_completed :: "'r async_result list"
  aw_discarded :: nat
  aw_closed :: bool
  aw_alive :: bool

definition worker_init :: "pyval \<Rightarrow> pyval \<Rightarrow> ('m, 'o, 'r) async_worker result" where
  "worker_init uav max_completed =
     rbind (int_value (TypeError ''max_completed_results must be an integer'')
              (ValueError ''max_completed_results must be greater than zero'') (\<lambda>i. 0 < i) max_completed) (\<lambda>m.
     rbind (validate_uav_id uav) (\<lambda>uav.
       Inr \<lparr>aw_uav = uav, aw_max = nat m, aw_pending = None, aw_active = None, aw_stale = {},
         aw_completed = [], aw_discarded = 0, aw_closed = False, aw_alive = True\<rparr>))"

definition worker_busy :: "('m, 'o, 'r) async_worker \<Rightarrow> bool" where
  "worker_busy w = (aw_active w \<noteq> None \<or> aw_pending w \<noteq> None)"

definition worker_submit ::
  "('m, 'o) async_request \<Rightarrow> ('m, 'o, 'r) async_worker \<Rightarrow> unit result \<times> ('m, 'o, 'r) async_worker" where
  "worker_submit request w =
     (if aq_uav request \<noteq> aw_uav w
      then (Inl (ValueError (''request uav_id '' @ [CHR 0x27] @ aq_uav request @ [CHR 0x27]
              @ '' does not match worker uav_id '' @ [CHR 0x27] @ aw_uav w @ [CHR 0x27])), w)
      else if aw_closed w then (Inl (RuntimeError ''model worker is closed''), w)
      else (Inr (), w\<lparr>aw_stale := (case aw_active w of
               Some r \<Rightarrow> insert (aq_request r) (aw_stale w) | None \<Rightarrow> aw_stale w),
             aw_pending := Some request\<rparr>))"

definition result_matches :: "string option \<Rightarrow> string option \<Rightarrow> 'r async_result \<Rightarrow> bool" where
  "result_matches request review x =
     ((request = None \<or> Some (ar_request x) = request) \<and> (review = None \<or> Some (ar_review x) = review))"

definition result_stale :: "rat option \<Rightarrow> 'r async_result \<Rightarrow> bool" where
  "result_stale minimum x = (ar_stale x \<or> (case minimum of Some t \<Rightarrow> ar_time x < t | None \<Rightarrow> False))"

text \<open>
  The loop of \<open>poll\<close>: at most as many turns as there were results; one that does not match goes to
  the back of the queue.
\<close>

fun poll_loop ::
  "string option \<Rightarrow> string option \<Rightarrow> rat option \<Rightarrow> bool \<Rightarrow> nat \<Rightarrow> 'r async_result list \<Rightarrow> nat
     \<Rightarrow> ('r async_result \<times> bool) option \<times> 'r async_result list \<times> nat" where
  "poll_loop request review minimum include_stale 0 q discarded = (None, q, discarded)"
| "poll_loop request review minimum include_stale (Suc n) [] discarded = (None, [], discarded)"
| "poll_loop request review minimum include_stale (Suc n) (x # q) discarded =
     (if \<not> result_matches request review x
      then poll_loop request review minimum include_stale n (q @ [x]) discarded
      else if result_stale minimum x \<and> \<not> include_stale
      then poll_loop request review minimum include_stale n q (Suc discarded)
      else (Some (x, result_stale minimum x), q, discarded))"

definition worker_poll ::
  "pyval \<Rightarrow> pyval \<Rightarrow> pyval \<Rightarrow> bool \<Rightarrow> ('m, 'o, 'r) async_worker
     \<Rightarrow> 'r async_result option result \<times> ('m, 'o, 'r) async_worker" where
  "worker_poll request review minimum include_stale w =
     checked w (opt_check validate_request_id request) (\<lambda>request.
     checked w (opt_check validate_review_id review) (\<lambda>review.
     checked w (opt_check worker_timestamp minimum) (\<lambda>minimum.
     let (found, q, discarded) = poll_loop request review minimum include_stale
           (length (aw_completed w)) (aw_completed w) (aw_discarded w);
         w = w\<lparr>aw_completed := q, aw_discarded := discarded\<rparr>
     in case found of
          None \<Rightarrow> (Inr None, w)
        | Some (x, stale) \<Rightarrow> checked w (replace_stale x stale) (\<lambda>x. (Inr (Some x), w)))))"

definition result_unwanted :: "string option \<Rightarrow> string option \<Rightarrow> rat option \<Rightarrow> 'r async_result \<Rightarrow> bool" where
  "result_unwanted request review minimum x =
     (ar_stale x \<or> (request \<noteq> None \<and> Some (ar_request x) \<noteq> request)
      \<or> (review \<noteq> None \<and> Some (ar_review x) \<noteq> review)
      \<or> (case minimum of Some t \<Rightarrow> ar_time x < t | None \<Rightarrow> False))"

definition discard_stale_results ::
  "pyval \<Rightarrow> pyval \<Rightarrow> pyval \<Rightarrow> ('m, 'o, 'r) async_worker \<Rightarrow> nat result \<times> ('m, 'o, 'r) async_worker" where
  "discard_stale_results request review minimum w =
     checked w (opt_check validate_request_id request) (\<lambda>request.
     checked w (opt_check validate_review_id review) (\<lambda>review.
     checked w (opt_check worker_timestamp minimum) (\<lambda>minimum.
     let retained = filter (\<lambda>x. \<not> result_unwanted request review minimum x) (aw_completed w);
         discarded = length (filter (result_unwanted request review minimum) (aw_completed w))
     in (Inr discarded, w\<lparr>aw_completed := retained, aw_discarded := aw_discarded w + discarded\<rparr>))))"

text \<open>
  \<open>close\<close>: \<open>on_worker\<close> tells whether the caller is the worker thread; the join that follows waits
  without the lock, and \<open>close_join\<close> is what it then answers.
\<close>

definition close_worker ::
  "pyval \<Rightarrow> bool \<Rightarrow> ('m, 'o, 'r) async_worker \<Rightarrow> unit result \<times> ('m, 'o, 'r) async_worker" where
  "close_worker timeout on_worker w =
     checked w (case timeout of
                  PNone \<Rightarrow> Inr ()
                | _ \<Rightarrow> rbind (real_value (TypeError ''timeout_s must be a finite number or None'')
                    (ValueError ''timeout_s must be finite and non-negative'') (\<lambda>x. 0 \<le> x) timeout)
                    (\<lambda>_. Inr ())) (\<lambda>_.
     if on_worker then (Inl (RuntimeError ''model worker cannot close itself''), w)
     else (Inr (), if aw_closed w then w else w\<lparr>aw_closed := True, aw_pending := None\<rparr>))"

definition close_join :: "('m, 'o, 'r) async_worker \<Rightarrow> unit result" where
  "close_join w = (if aw_alive w then Inl (TimeoutError ''model worker did not close before the deadline'')
     else Inr ())"

section \<open>The worker thread\<close>

text \<open>
  The first critical section: it waits while there is nothing to do, ends the thread of a closed
  worker, and otherwise takes the pending request.
\<close>

definition worker_take :: "('m, 'o, 'r) async_worker \<Rightarrow> ('m, 'o, 'r) async_worker option" where
  "worker_take w =
     (if \<not> aw_alive w \<or> aw_active w \<noteq> None then None
      else case aw_pending w of
        None \<Rightarrow> if aw_closed w then Some (w\<lparr>aw_alive := False\<rparr>) else None
      | Some r \<Rightarrow> Some (w\<lparr>aw_pending := None, aw_active := Some r\<rparr>))"

text \<open>What the call of the model ends with; a client error is known by the name of its class.\<close>

datatype 'r chat_outcome = Chat_response 'r | Chat_invalid | Chat_client_error string | Chat_other_error

fun outcome_fields :: "'r chat_outcome \<Rightarrow> 'r option \<times> string option \<times> string option" where
  "outcome_fields (Chat_response r) = (Some r, None, None)"
| "outcome_fields Chat_invalid = (None, Some ''MODEL_REQUEST_FAILED'', Some ''ModelProtocolError'')"
| "outcome_fields (Chat_client_error name) = (None, Some ''MODEL_REQUEST_FAILED'', Some name)"
| "outcome_fields Chat_other_error =
     (None, Some ''MODEL_REQUEST_FAILED'', Some ''unexpected model worker failure'')"

text \<open>The queue of results: a full one loses its oldest.\<close>

definition push_result :: "nat \<Rightarrow> 'a list \<Rightarrow> 'a \<Rightarrow> 'a list" where
  "push_result n q x = (if n \<le> length q then tl q else q) @ [x]"

text \<open>The second critical section.\<close>

definition worker_finish ::
  "'r chat_outcome \<Rightarrow> ('m, 'o, 'r) async_worker \<Rightarrow> ('r async_result result \<times> ('m, 'o, 'r) async_worker) option" where
  "worker_finish outcome w =
     (case aw_active w of
        None \<Rightarrow> None
      | Some r \<Rightarrow>
          let stale = (aq_request r \<in> aw_stale w);
              w = w\<lparr>aw_stale := aw_stale w - {aq_request r}, aw_active := None\<rparr>;
              (response, error_code, message) = outcome_fields outcome
          in Some (checked w (AsyncModelResult (PStr (aq_request r)) (PStr (aq_review r)) (PStr (aq_mission r))
                 (PStr (aq_uav r)) (PInt (aq_version r)) (PFloat (Fin (aq_time r))) (PStr (aq_frame r))
                 response error_code message stale) (\<lambda>x.
               (Inr x, w\<lparr>aw_completed := push_result (aw_max w) (aw_completed w) x,
                  aw_discarded := aw_discarded w
                    + (if aw_max w \<le> length (aw_completed w) then 1 else 0)\<rparr>))))"

section \<open>Facts\<close>

interpretation results: bounded_log push_result
  by unfold_locales (auto simp: push_result_def Suc_diff_le drop_Suc tl_append split: list.splits)

definition async_request_ok :: "('m, 'o) async_request \<Rightarrow> bool" where
  "async_request_ok r \<longleftrightarrow> list_all routing_id_match [aq_request r, aq_review r, aq_mission r, aq_uav r, aq_frame r]
     \<and> 0 < aq_version r \<and> 0 \<le> aq_time r"

definition async_result_ok :: "'r async_result \<Rightarrow> bool" where
  "async_result_ok x \<longleftrightarrow> list_all routing_id_match [ar_request x, ar_review x, ar_mission x, ar_uav x, ar_frame x]
     \<and> 0 < ar_version x \<and> 0 \<le> ar_time x \<and> ar_error x \<noteq> Some []
     \<and> (ar_response x = None) \<noteq> (ar_error x = None) \<and> (ar_error x = None \<longrightarrow> ar_message x = None)"

lemma worker_fields [simp]:
  "0 < i \<Longrightarrow> worker_plan_version (PInt i) = Inr i" "0 \<le> t \<Longrightarrow> worker_timestamp (PFloat (Fin t)) = Inr t"
  by (simp_all add: worker_plan_version_def worker_timestamp_def)

lemma AsyncModelRequest_ok:
  assumes "AsyncModelRequest a b c d e f g m p i j = Inr r"
  shows "async_request_ok r"
proof -
  obtain t where "worker_timestamp f = Inr t" "aq_time r = t"
    using assms unfolding AsyncModelRequest_def by (auto simp: rbind_eq_Inr split: if_splits)
  then have "0 \<le> aq_time r" by (auto simp: worker_timestamp_def dest: real_value_Inr)
  then show ?thesis
    using assms unfolding AsyncModelRequest_def
    by (auto simp: rbind_eq_Inr async_request_ok_def worker_plan_version_def int_value_Inr split: if_splits)
qed

lemma replace_stale_ok: "async_result_ok x \<Longrightarrow> replace_stale x s = Inr (x\<lparr>ar_stale := s\<rparr>)"
  by (cases x) (auto simp: replace_stale_def AsyncModelResult_def async_result_ok_def)

definition result_of :: "('m, 'o) async_request \<Rightarrow> 'r chat_outcome \<Rightarrow> bool \<Rightarrow> 'r async_result" where
  "result_of r outcome stale = (let (response, error_code, message) = outcome_fields outcome
     in \<lparr>ar_request = aq_request r, ar_review = aq_review r, ar_mission = aq_mission r, ar_uav = aq_uav r,
         ar_version = aq_version r, ar_time = aq_time r, ar_frame = aq_frame r, ar_response = response,
         ar_error = error_code, ar_message = message, ar_stale = stale\<rparr>)"

lemma worker_finish_value:
  assumes "aw_active w = Some r" and "async_request_ok r"
  shows "worker_finish outcome w = Some (Inr (result_of r outcome (aq_request r \<in> aw_stale w)),
      w\<lparr>aw_stale := aw_stale w - {aq_request r}, aw_active := None,
        aw_completed := push_result (aw_max w) (aw_completed w) (result_of r outcome (aq_request r \<in> aw_stale w)),
        aw_discarded := aw_discarded w + (if aw_max w \<le> length (aw_completed w) then 1 else 0)\<rparr>)"
    and "async_result_ok (result_of r outcome s)"
  using assms by (cases outcome; simp add: worker_finish_def AsyncModelResult_def result_of_def async_request_ok_def
      async_result_ok_def Let_def)+

text \<open>What \<open>poll\<close> finds: the first result it does not pass over.\<close>

definition passed_over :: "string option \<Rightarrow> string option \<Rightarrow> rat option \<Rightarrow> bool \<Rightarrow> 'r async_result \<Rightarrow> bool" where
  "passed_over request review minimum include_stale x \<longleftrightarrow>
     \<not> result_matches request review x \<or> result_stale minimum x \<and> \<not> include_stale"

lemma poll_loop_exact:
  "poll_loop a b c i (length q) (q @ turned) d =
     (let before = takeWhile (passed_over a b c i) q;
          kept = filter (\<lambda>x. \<not> result_matches a b x) before;
          lost = length (filter (result_matches a b) before)
      in case dropWhile (passed_over a b c i) q of
           [] \<Rightarrow> (None, turned @ kept, d + lost)
         | x # after \<Rightarrow> (Some (x, result_stale c x), after @ turned @ kept, d + lost))"
proof (induction q arbitrary: turned d)
  case (Cons x q)
  consider "\<not> result_matches a b x" | "result_matches a b x" "result_stale c x" "\<not> i"
    | "result_matches a b x" "\<not> result_stale c x \<or> i" by blast
  then show ?case
  proof cases
    case 1
    then have "passed_over a b c i x" by (simp add: passed_over_def)
    then show ?thesis
      using 1 Cons.IH [of "turned @ [x]" d] by (cases "dropWhile (passed_over a b c i) q") (simp_all add: Let_def del: dropWhile_eq_Nil_conv)
  next
    case 2
    then have "passed_over a b c i x" by (simp add: passed_over_def)
    then show ?thesis
      using 2 Cons.IH [of turned "Suc d"] by (cases "dropWhile (passed_over a b c i) q") (simp_all add: Let_def del: dropWhile_eq_Nil_conv)
  next
    case 3
    then show ?thesis by (auto simp: passed_over_def)
  qed
qed simp

section \<open>Runs of the worker\<close>

datatype ('m, 'o, 'r) worker_note =
    WSubmit "('m, 'o) async_request"
  | WTake "('m, 'o) async_request"
  | WFinish "'r async_result"
  | WPoll "'r async_result"
  | WQuiet

text \<open>One step of any thread, with the note it leaves.\<close>

inductive worker_step ::
  "('m, 'o, 'r) async_worker \<Rightarrow> ('m, 'o, 'r) worker_note \<Rightarrow> ('m, 'o, 'r) async_worker \<Rightarrow> bool" where
  worker_submitted: "worker_submit r w = (Inr u, w') \<Longrightarrow> async_request_ok r \<Longrightarrow> worker_step w (WSubmit r) w'"
| worker_refused: "worker_submit r w = (Inl e, w') \<Longrightarrow> worker_step w WQuiet w'"
| worker_took: "worker_take w = Some w' \<Longrightarrow> aw_active w' = Some r \<Longrightarrow> worker_step w (WTake r) w'"
| worker_ended: "worker_take w = Some w' \<Longrightarrow> aw_active w' = None \<Longrightarrow> worker_step w WQuiet w'"
| worker_finished: "worker_finish o' w = Some (Inr x, w') \<Longrightarrow> worker_step w (WFinish x) w'"
| worker_failed: "worker_finish o' w = Some (Inl e, w') \<Longrightarrow> worker_step w WQuiet w'"
| worker_polled: "worker_poll a b c i w = (Inr (Some x), w') \<Longrightarrow> worker_step w (WPoll x) w'"
| worker_nothing: "worker_poll a b c i w = (Inr None, w') \<Longrightarrow> worker_step w WQuiet w'"
| worker_unpolled: "worker_poll a b c i w = (Inl e, w') \<Longrightarrow> worker_step w WQuiet w'"
| worker_discarded: "discard_stale_results a b c w = (n, w') \<Longrightarrow> worker_step w WQuiet w'"
| worker_closed: "close_worker t on_worker w = (u, w') \<Longrightarrow> worker_step w WQuiet w'"

abbreviation unmarked :: "'r async_result \<Rightarrow> 'r async_result" where
  "unmarked x \<equiv> x\<lparr>ar_stale := False\<rparr>"

fun results_finished :: "('m, 'o, 'r) worker_note list \<Rightarrow> 'r async_result list" where
  "results_finished [] = []"
| "results_finished (WFinish x # h) = unmarked x # results_finished h"
| "results_finished (n # h) = results_finished h"

fun results_polled :: "('m, 'o, 'r) worker_note list \<Rightarrow> 'r async_result list" where
  "results_polled [] = []"
| "results_polled (WPoll x # h) = unmarked x # results_polled h"
| "results_polled (n # h) = results_polled h"

lemma results_append [simp]:
  "results_finished (h @ k) = results_finished h @ results_finished k"
  "results_polled (h @ k) = results_polled h @ results_polled k"
  by (induction h rule: results_finished.induct) simp_all

text \<open>The results of a run: returned, still queued, or lost, each once; the queue is bounded.\<close>

definition accounted :: "('m, 'o, 'r) worker_note list \<Rightarrow> ('m, 'o, 'r) async_worker \<Rightarrow> bool" where
  "accounted h w \<longleftrightarrow> 0 < aw_max w \<and> length (aw_completed w) \<le> aw_max w \<and> list_all async_result_ok (aw_completed w)
     \<and> (\<exists>lost. mset (results_finished h) = mset (results_polled h) + mset (map unmarked (aw_completed w)) + lost
          \<and> size lost = aw_discarded w)"

text \<open>What the worker is doing, according to the log.\<close>

definition pending_tracked :: "('m, 'o, 'r) worker_note list \<Rightarrow> ('m, 'o, 'r) async_worker \<Rightarrow> bool" where
  "pending_tracked h w \<longleftrightarrow> (\<forall>r. aw_pending w = Some r \<longrightarrow> async_request_ok r
     \<and> (\<exists>older mid. h = older @ WSubmit r # mid \<and> (\<forall>q. WSubmit q \<notin> set mid \<and> WTake q \<notin> set mid)))"

definition active_tracked :: "('m, 'o, 'r) worker_note list \<Rightarrow> ('m, 'o, 'r) async_worker \<Rightarrow> bool" where
  "active_tracked h w \<longleftrightarrow>
     (case aw_active w of
        None \<Rightarrow> aw_stale w = {} | Some r \<Rightarrow> async_request_ok r \<and> aw_stale w \<subseteq> {aq_request r})
   \<and> (\<forall>older q mid. h = older @ WTake q # mid \<longrightarrow> (\<forall>x. WFinish x \<notin> set mid) \<longrightarrow>
        aw_active w = Some q \<and> (aw_stale w \<noteq> {} \<longleftrightarrow> (\<exists>p. WSubmit p \<in> set mid)))"

lemma poll_loop_conserves:
  assumes "poll_loop a b c i (length q) q d = (found, q', d')"
  shows "\<exists>lost. mset q = (case found of None \<Rightarrow> {#} | Some (x, s) \<Rightarrow> {#x#}) + mset q' + lost \<and> d' = d + size lost"
proof -
  let ?before = "takeWhile (passed_over a b c i) q" and ?rest = "dropWhile (passed_over a b c i) q"
  have split: "mset q = mset ?before + mset ?rest" by (metis mset_append takeWhile_dropWhile_id)
  have before: "mset ?before = mset (filter (\<lambda>x. \<not> result_matches a b x) ?before)
      + mset (filter (result_matches a b) ?before)"
    by (metis mset_filter multiset_partition add.commute)
  note run = poll_loop_exact [of a b c i q "[]" d]
  show ?thesis
  proof (cases ?rest)
    case Nil
    then show ?thesis
      using run assms split before
      by (intro exI [of _ "mset (filter (result_matches a b) ?before)"])
        (simp add: Let_def del: dropWhile_eq_Nil_conv mset_filter)
  next
    case (Cons x after)
    then show ?thesis
      using run assms split before
      by (intro exI [of _ "mset (filter (result_matches a b) ?before)"])
        (auto simp: Let_def simp del: mset_filter)
  qed
qed

lemma poll_effect:
  assumes "worker_poll a b c i w = (r, w')" and "list_all async_result_ok (aw_completed w)"
  shows "(\<exists>e. r = Inl e \<and> w' = w) \<or> (\<exists>found q lost. r = Inr found
    \<and> w' = w\<lparr>aw_completed := q, aw_discarded := aw_discarded w + size lost\<rparr>
    \<and> mset (map unmarked (aw_completed w))
        = (case found of None \<Rightarrow> {#} | Some x \<Rightarrow> {#unmarked x#}) + mset (map unmarked q) + lost
    \<and> length q \<le> length (aw_completed w) \<and> list_all async_result_ok q)"
proof (cases "\<exists>e. r = Inl e \<and> w' = w")
  case False
  let ?q = "aw_completed w"
  obtain rq rv mn found q d where loop: "poll_loop rq rv mn i (length ?q) ?q (aw_discarded w) = (found, q, d)"
    and after: "(r, w') = (case found of None \<Rightarrow> (Inr None, w\<lparr>aw_completed := q, aw_discarded := d\<rparr>)
        | Some (x, stale) \<Rightarrow> checked (w\<lparr>aw_completed := q, aw_discarded := d\<rparr>) (replace_stale x stale)
            (\<lambda>x. (Inr (Some x), w\<lparr>aw_completed := q, aw_discarded := d\<rparr>)))"
    using assms(1) False unfolding worker_poll_def
    by (cases "opt_check validate_request_id a"; cases "opt_check validate_review_id b";
        cases "opt_check worker_timestamp c") (auto simp: Let_def split: prod.splits)
  obtain lost where lost: "mset ?q = (case found of None \<Rightarrow> {#} | Some (x, s) \<Rightarrow> {#x#}) + mset q + lost"
      "d = aw_discarded w + size lost" using poll_loop_conserves [OF loop] by blast
  have sub: "set q \<subseteq> set ?q" and len: "length q \<le> length ?q"
    and x: "found = Some (x, s) \<Longrightarrow> x \<in> set ?q" for x s
  proof -
    have "set_mset (mset q) \<subseteq> set_mset (mset ?q)" unfolding lost(1) by auto
    then show "set q \<subseteq> set ?q" by simp
    have "size (mset q) \<le> size (mset ?q)" unfolding lost(1) by simp
    then show "length q \<le> length ?q" by simp
    assume "found = Some (x, s)"
    then have "x \<in># mset ?q" unfolding lost(1) by simp
    then show "x \<in> set ?q" by simp
  qed
  have ok: "list_all async_result_ok q" using sub assms(2) by (auto simp: list_all_iff)
  have image: "mset (map unmarked ?q)
      = image_mset unmarked (case found of None \<Rightarrow> {#} | Some (x, s) \<Rightarrow> {#x#}) + mset (map unmarked q)
        + image_mset unmarked lost"
    unfolding mset_map lost(1) by simp
  show ?thesis
  proof (cases found)
    case None
    then show ?thesis
      using after lost(2) image len ok by (intro disjI2 exI [of _ None] exI [of _ q] exI [of _ "image_mset unmarked lost"]) simp
  next
    case (Some y)
    obtain z s where y: "y = (z, s)" by (cases y)
    have "async_result_ok z" using x Some y assms(2) by (auto simp: list_all_iff)
    then have "(r, w') = (Inr (Some (z\<lparr>ar_stale := s\<rparr>)), w\<lparr>aw_completed := q, aw_discarded := d\<rparr>)"
      using after Some y by (simp add: replace_stale_ok)
    then show ?thesis
      using Some y lost(2) image len ok
      by (intro disjI2 exI [of _ "Some (z\<lparr>ar_stale := s\<rparr>)"] exI [of _ q] exI [of _ "image_mset unmarked lost"]) simp
  qed
qed blast

lemma discard_effect:
  assumes "discard_stale_results a b c w = (r, w')"
  shows "w' = w \<or> (\<exists>q lost. w' = w\<lparr>aw_completed := q, aw_discarded := aw_discarded w + size lost\<rparr>
    \<and> mset (map unmarked (aw_completed w)) = mset (map unmarked q) + lost
    \<and> length q \<le> length (aw_completed w) \<and> (list_all async_result_ok (aw_completed w) \<longrightarrow> list_all async_result_ok q))"
proof (cases "w' = w")
  case False
  let ?q = "aw_completed w"
  obtain P where w': "w' = w\<lparr>aw_completed := filter (\<lambda>x. \<not> P x) ?q,
      aw_discarded := aw_discarded w + length (filter P ?q)\<rparr>"
    using assms False unfolding discard_stale_results_def
    by (cases "opt_check validate_request_id a"; cases "opt_check validate_review_id b";
        cases "opt_check worker_timestamp c") (auto simp: Let_def)
  have "mset ?q = mset (filter (\<lambda>x. \<not> P x) ?q) + mset (filter P ?q)"
    by (metis mset_filter multiset_partition add.commute)
  then have "mset (map unmarked ?q)
      = mset (map unmarked (filter (\<lambda>x. \<not> P x) ?q)) + mset (map unmarked (filter P ?q))"
    unfolding mset_map by (metis image_mset_union)
  then show ?thesis
    using w' by (intro disjI2 exI [of _ "filter (\<lambda>x. \<not> P x) ?q"] exI [of _ "mset (map unmarked (filter P ?q))"])
      (auto simp: list_all_iff simp del: mset_filter)
qed blast

text \<open>The parts of the state that only the thread and the submitting caller change.\<close>

definition same_work :: "('m, 'o, 'r) async_worker \<Rightarrow> ('m, 'o, 'r) async_worker \<Rightarrow> bool" where
  "same_work w w' \<longleftrightarrow> aw_active w' = aw_active w \<and> aw_stale w' = aw_stale w
     \<and> (aw_pending w' = aw_pending w \<or> aw_pending w' = None) \<and> aw_max w' = aw_max w"

lemma close_effect:
  assumes "close_worker t on_worker w = (u, w')"
  shows "same_work w w' \<and> aw_completed w' = aw_completed w \<and> aw_discarded w' = aw_discarded w"
  using assms by (auto simp: close_worker_def checked_def same_work_def split: sum.splits if_splits)

lemma submit_refused: "worker_submit r w = (Inl e, w') \<Longrightarrow> w' = w"
  by (auto simp: worker_submit_def split: if_splits)

lemma submit_effect:
  "worker_submit r w = (Inr u, w') \<Longrightarrow>
     w' = w\<lparr>aw_stale := (case aw_active w of Some r \<Rightarrow> insert (aq_request r) (aw_stale w) | None \<Rightarrow> aw_stale w),
            aw_pending := Some r\<rparr>"
  by (auto simp: worker_submit_def split: if_splits)

lemma take_effect:
  assumes "worker_take w = Some w'"
  shows "aw_active w = None \<and> (w' = w\<lparr>aw_alive := False\<rparr>
    \<or> (\<exists>r. aw_pending w = Some r \<and> w' = w\<lparr>aw_pending := None, aw_active := Some r\<rparr>))"
  using assms by (auto simp: worker_take_def split: if_splits option.splits)

lemma accounted_quiet:
  assumes "accounted h w" and "aw_max w' = aw_max w" "aw_completed w' = aw_completed w" "aw_discarded w' = aw_discarded w"
    and "results_finished [n] = []" "results_polled [n] = []"
  shows "accounted (h @ [n]) w'"
  using assms by (simp add: accounted_def)

lemma accounted_finish:
  assumes ok: "accounted h w" and x: "async_result_ok x"
    and w': "aw_max w' = aw_max w" "aw_completed w' = push_result (aw_max w) (aw_completed w) x"
      "aw_discarded w' = aw_discarded w + (if aw_max w \<le> length (aw_completed w) then 1 else 0)"
  shows "accounted (h @ [WFinish x]) w'"
proof -
  let ?q = "aw_completed w"
  have q: "0 < aw_max w" "length ?q \<le> aw_max w" "list_all async_result_ok ?q" using ok by (simp_all add: accounted_def)
  obtain lost where lost: "mset (results_finished h) = mset (results_polled h) + mset (map unmarked ?q) + lost"
    "size lost = aw_discarded w" using ok by (auto simp: accounted_def)
  have "length (aw_completed w') \<le> aw_max w'" using results.push_length [OF q(1,2), of x] w'(1,2) by simp
  moreover have "list_all async_result_ok (aw_completed w')"
    using results.push_set [OF q(1,2), of x] q(3) x w'(2) by (auto simp: list_all_iff)
  moreover have "\<exists>lost. mset (results_finished (h @ [WFinish x]))
      = mset (results_polled (h @ [WFinish x])) + mset (map unmarked (aw_completed w')) + lost
      \<and> size lost = aw_discarded w'"
  proof (cases "aw_max w \<le> length ?q")
    case True
    then obtain y ys where "?q = y # ys" using q(1) by (cases ?q) auto
    then show ?thesis
      using lost w'(2,3) True by (intro exI [of _ "add_mset (unmarked y) lost"]) (simp add: push_result_def)
  next
    case False
    then show ?thesis using lost w'(2,3) by (intro exI [of _ lost]) (simp add: push_result_def)
  qed
  ultimately show ?thesis using q(1) w'(1) by (simp add: accounted_def)
qed

lemma accounted_drop:
  assumes ok: "accounted h w" and w': "w' = w\<lparr>aw_completed := q, aw_discarded := aw_discarded w + size dropped\<rparr>"
    and q: "mset (map unmarked (aw_completed w)) = mset (results_polled [n]) + mset (map unmarked q) + dropped"
      "length q \<le> length (aw_completed w)" "list_all async_result_ok q" "results_finished [n] = []"
  shows "accounted (h @ [n]) w'"
proof -
  obtain lost where lost: "mset (results_finished h)
      = mset (results_polled h) + mset (map unmarked (aw_completed w)) + lost" "size lost = aw_discarded w"
    using ok by (auto simp: accounted_def)
  have "mset (results_finished (h @ [n])) = mset (results_polled (h @ [n])) + mset (map unmarked q) + (lost + dropped)"
    unfolding results_append mset_append q(4) lost(1) q(1) by (simp add: ac_simps)
  moreover have "size (lost + dropped) = aw_discarded w'" using lost(2) w' by simp
  ultimately have "\<exists>lost. mset (results_finished (h @ [n]))
      = mset (results_polled (h @ [n])) + mset (map unmarked (aw_completed w')) + lost \<and> size lost = aw_discarded w'"
    using w' by auto
  then show ?thesis using ok q(2,3) w' by (simp add: accounted_def)
qed

lemma pending_later:
  assumes "pending_tracked h w" and "aw_pending w' = aw_pending w \<or> aw_pending w' = None"
    and "\<forall>q. n \<noteq> WSubmit q \<and> n \<noteq> WTake q"
  shows "pending_tracked (h @ [n]) w'"
  unfolding pending_tracked_def
proof (intro allI impI)
  fix r assume "aw_pending w' = Some r"
  then have "aw_pending w = Some r" using assms(2) by auto
  then obtain older mid where "async_request_ok r" "h = older @ WSubmit r # mid"
    "\<forall>q. WSubmit q \<notin> set mid \<and> WTake q \<notin> set mid"
    using assms(1) unfolding pending_tracked_def by blast
  then show "async_request_ok r \<and> (\<exists>older mid. h @ [n] = older @ WSubmit r # mid
      \<and> (\<forall>q. WSubmit q \<notin> set mid \<and> WTake q \<notin> set mid))"
    using assms(3) by (intro conjI exI [of _ older] exI [of _ "mid @ [n]"]) auto
qed

lemma active_step:
  assumes "active_tracked h w"
    and "case aw_active w' of None \<Rightarrow> aw_stale w' = {} | Some r \<Rightarrow> async_request_ok r \<and> aw_stale w' \<subseteq> {aq_request r}"
    and "\<And>q. n = WTake q \<Longrightarrow> aw_active w' = Some q \<and> aw_stale w' = {}"
    and "\<And>q. aw_active w = Some q \<Longrightarrow> \<forall>x. n \<noteq> WFinish x \<Longrightarrow>
      aw_active w' = Some q \<and> (aw_stale w' \<noteq> {} \<longleftrightarrow> aw_stale w \<noteq> {} \<or> (\<exists>p. n = WSubmit p))"
  shows "active_tracked (h @ [n]) w'"
  unfolding active_tracked_def
proof (intro conjI allI impI)
  show "case aw_active w' of None \<Rightarrow> aw_stale w' = {} | Some r \<Rightarrow> async_request_ok r \<and> aw_stale w' \<subseteq> {aq_request r}"
    by (rule assms(2))
  fix older q mid
  assume split: "h @ [n] = older @ WTake q # mid" and mid: "\<forall>x. WFinish x \<notin> set mid"
  have both: "aw_active w' = Some q \<and> (aw_stale w' \<noteq> {} \<longleftrightarrow> (\<exists>p. WSubmit p \<in> set mid))"
    using split
  proof (cases rule: snoc_split)
    case last
    then show ?thesis using assms(3) by simp
  next
    case (inner m)
    have "\<forall>x. WFinish x \<notin> set m" "\<forall>x. n \<noteq> WFinish x" using mid inner(1) by auto
    then have "aw_active w = Some q \<and> (aw_stale w \<noteq> {} \<longleftrightarrow> (\<exists>p. WSubmit p \<in> set m))"
      using assms(1) inner(2) unfolding active_tracked_def by blast
    then show ?thesis using assms(4) [of q] \<open>\<forall>x. n \<noteq> WFinish x\<close> inner(1) by auto
  qed
  then show "aw_active w' = Some q" "aw_stale w' \<noteq> {} \<longleftrightarrow> (\<exists>p. WSubmit p \<in> set mid)" by simp_all
qed

lemma active_state:
  "active_tracked h w \<Longrightarrow> case aw_active w of None \<Rightarrow> aw_stale w = {}
     | Some r \<Rightarrow> async_request_ok r \<and> aw_stale w \<subseteq> {aq_request r}"
  by (simp add: active_tracked_def)

lemma active_later:
  assumes "active_tracked h w" and "aw_active w' = aw_active w" "aw_stale w' = aw_stale w"
    and "\<forall>q. n \<noteq> WSubmit q \<and> n \<noteq> WTake q"
  shows "active_tracked (h @ [n]) w'"
  using active_state [OF assms(1)] assms(2-4)
  by (intro active_step [OF assms(1)]) (auto split: option.splits)

lemma active_submitted:
  assumes "active_tracked h w" and "aw_active w' = aw_active w"
    and "aw_stale w' = (case aw_active w of Some r \<Rightarrow> insert (aq_request r) (aw_stale w) | None \<Rightarrow> aw_stale w)"
  shows "active_tracked (h @ [WSubmit r]) w'"
  using active_state [OF assms(1)] assms(2,3)
  by (intro active_step [OF assms(1)]) (auto split: option.splits)

lemma active_taken:
  assumes "active_tracked h w" and "aw_active w = None" "async_request_ok r"
    and "aw_active w' = Some r" "aw_stale w' = aw_stale w"
  shows "active_tracked (h @ [WTake r]) w'"
  using active_state [OF assms(1)] assms(2-5) by (intro active_step [OF assms(1)]) simp_all

lemma active_finished:
  assumes "active_tracked h w" and "aw_active w = Some r"
    and "aw_active w' = None" "aw_stale w' = aw_stale w - {aq_request r}"
  shows "active_tracked (h @ [WFinish x]) w'"
  using active_state [OF assms(1)] assms(2-4) by (intro active_step [OF assms(1)]) auto

definition worker_ok :: "('m, 'o, 'r) worker_note list \<Rightarrow> ('m, 'o, 'r) async_worker \<Rightarrow> bool" where
  "worker_ok h w \<longleftrightarrow> accounted h w \<and> pending_tracked h w \<and> active_tracked h w"

lemma worker_ok_quiet:
  assumes "worker_ok h w" and "same_work w w'" "aw_completed w' = aw_completed w" "aw_discarded w' = aw_discarded w"
  shows "worker_ok (h @ [WQuiet]) w'"
  using assms unfolding worker_ok_def same_work_def
  by (auto intro: accounted_quiet pending_later active_later)

lemma worker_ok_drop:
  assumes "worker_ok h w" and w': "w' = w\<lparr>aw_completed := q, aw_discarded := aw_discarded w + size dropped\<rparr>"
    and "mset (map unmarked (aw_completed w)) = mset (results_polled [n]) + mset (map unmarked q) + dropped"
      "length q \<le> length (aw_completed w)" "list_all async_result_ok q"
    and n: "n = WQuiet \<or> (\<exists>x. n = WPoll x)"
  shows "worker_ok (h @ [n]) w'"
proof -
  have "accounted (h @ [n]) w'"
    using accounted_drop [OF _ w' assms(3-5)] assms(1) n by (auto simp: worker_ok_def)
  moreover have "pending_tracked (h @ [n]) w'" "active_tracked (h @ [n]) w'"
    using assms(1) n w' by (auto simp: worker_ok_def intro!: pending_later active_later)
  ultimately show ?thesis by (simp add: worker_ok_def)
qed

lemma worker_ok_results: "worker_ok h w \<Longrightarrow> list_all async_result_ok (aw_completed w)"
  by (simp add: worker_ok_def accounted_def)

lemma worker_ok_step:
  assumes ok: "worker_ok h w" and step: "worker_step w n w'"
  shows "worker_ok (h @ [n]) w'"
  using step
proof (cases rule: worker_step.cases)
  case (worker_submitted r u)
  note w' = submit_effect [OF worker_submitted(2)]
  have "accounted (h @ [n]) w'"
    using ok worker_submitted(1) by (auto simp: worker_ok_def w' intro: accounted_quiet)
  moreover have "pending_tracked (h @ [n]) w'"
  proof -
    have "h @ [n] = h @ WSubmit r # []" using worker_submitted(1) by simp
    then have "\<exists>older mid. h @ [n] = older @ WSubmit r # mid \<and> (\<forall>q. WSubmit q \<notin> set mid \<and> WTake q \<notin> set mid)"
      by (metis empty_iff empty_set)
    then show ?thesis using worker_submitted(3) by (simp add: pending_tracked_def w')
  qed
  moreover have "active_tracked (h @ [n]) w'"
    using ok worker_submitted(1) by (auto simp: worker_ok_def w' intro: active_submitted)
  ultimately show ?thesis by (simp add: worker_ok_def)
next
  case (worker_took r)
  from take_effect [OF worker_took(2)] worker_took(3) have t: "aw_active w = None" "aw_pending w = Some r"
    "w' = w\<lparr>aw_pending := None, aw_active := Some r\<rparr>" by auto
  have "async_request_ok r" using ok t(2) by (simp add: worker_ok_def pending_tracked_def)
  then show ?thesis
    using ok t worker_took(1)
    by (auto simp: worker_ok_def pending_tracked_def intro: accounted_quiet active_taken)
next
  case (worker_finished outcome x)
  then obtain r where r: "aw_active w = Some r" by (auto simp: worker_finish_def split: option.splits)
  then have "async_request_ok r" using ok active_state by (fastforce simp: worker_ok_def)
  note v = worker_finish_value [OF r this, of outcome]
  have x: "x = result_of r outcome (aq_request r \<in> aw_stale w)" and w': "w' = w\<lparr>aw_stale := aw_stale w - {aq_request r},
      aw_active := None, aw_completed := push_result (aw_max w) (aw_completed w) x,
      aw_discarded := aw_discarded w + (if aw_max w \<le> length (aw_completed w) then 1 else 0)\<rparr>"
    using v(1) worker_finished(2) by simp_all
  have "accounted (h @ [WFinish x]) w'"
    using ok v(2) x by (intro accounted_finish [of h w]) (simp_all add: worker_ok_def w')
  moreover have "pending_tracked (h @ [WFinish x]) w'" "active_tracked (h @ [WFinish x]) w'"
    using ok r by (auto simp: worker_ok_def w' intro!: pending_later active_finished)
  ultimately show ?thesis using worker_finished(1) by (simp add: worker_ok_def)
next
  case (worker_failed outcome e)
  then obtain r where r: "aw_active w = Some r" by (auto simp: worker_finish_def split: option.splits)
  then have "async_request_ok r" using ok active_state by (fastforce simp: worker_ok_def)
  then show ?thesis using worker_finish_value(1) [OF r] worker_failed(2) by simp
next
  case (worker_polled a b c i x)
  from poll_effect [OF worker_polled(2) worker_ok_results [OF ok]] show ?thesis
    using worker_polled(1) by (auto intro!: worker_ok_drop [OF ok])
next
  case (worker_nothing a b c i)
  from poll_effect [OF worker_nothing(2) worker_ok_results [OF ok]] show ?thesis
    using worker_nothing(1) by (auto intro!: worker_ok_drop [OF ok])
next
  case (worker_unpolled a b c i e)
  from poll_effect [OF worker_unpolled(2) worker_ok_results [OF ok]] show ?thesis
    using worker_unpolled(1) worker_ok_quiet [OF ok, of w] by (simp add: same_work_def)
next
  case (worker_discarded a b c k)
  from discard_effect [OF worker_discarded(2)] show ?thesis
  proof
    assume "w' = w"
    then show ?thesis using worker_discarded(1) worker_ok_quiet [OF ok, of w] by (simp add: same_work_def)
  next
    assume "\<exists>q lost. w' = w\<lparr>aw_completed := q, aw_discarded := aw_discarded w + size lost\<rparr>
      \<and> mset (map unmarked (aw_completed w)) = mset (map unmarked q) + lost
      \<and> length q \<le> length (aw_completed w) \<and> (list_all async_result_ok (aw_completed w) \<longrightarrow> list_all async_result_ok q)"
    then show ?thesis
      using worker_discarded(1) worker_ok_results [OF ok] by (auto intro!: worker_ok_drop [OF ok])
  qed
next
  case (worker_refused r e)
  then show ?thesis using submit_refused [OF worker_refused(2)] worker_ok_quiet [OF ok, of w] by (simp add: same_work_def)
next
  case worker_ended
  from take_effect [OF worker_ended(2)] worker_ended(3) have "w' = w\<lparr>aw_alive := False\<rparr>" by auto
  then show ?thesis using worker_ended(1) worker_ok_quiet [OF ok, of w'] by (simp add: same_work_def)
next
  case (worker_closed t on_worker u)
  then show ?thesis using close_effect [OF worker_closed(2)] worker_ok_quiet [OF ok, of w'] by simp
qed

section \<open>Properties\<close>

lemma worker_init_ok: "worker_init u m = Inr w \<Longrightarrow> worker_ok [] w"
  by (auto simp: worker_init_def rbind_eq_Inr int_value_Inr worker_ok_def accounted_def pending_tracked_def
      active_tracked_def)

lemma worker_ok_run:
  "logged_run worker_step w0 h w \<Longrightarrow> worker_init u m = Inr w0 \<Longrightarrow> worker_ok h w"
  by (erule logged_run_invariant [where I = worker_ok]) (auto intro: worker_ok_step worker_init_ok)

text \<open>
  In any interleaving of callers and the worker thread, every result the thread produced is
  returned by a poll, still queued or counted as discarded, each exactly once (up to the mark of
  staleness that a poll may add), and the queue never exceeds its bound.
\<close>

theorem worker_accounts:
  assumes "worker_init u m = Inr w0" and "logged_run worker_step w0 h w"
  shows "length (aw_completed w) \<le> aw_max w
    \<and> (\<exists>lost. mset (results_finished h) = mset (results_polled h) + mset (map unmarked (aw_completed w)) + lost
         \<and> size lost = aw_discarded w)"
  using worker_ok_run [OF assms(2,1)] by (simp add: worker_ok_def accounted_def)

text \<open>
  C24. The thread takes the newest submitted request.  Its result carries that request's routing, version,
  observation time and frame, and it is marked stale exactly when another request was submitted while
  it was at the model.
\<close>

theorem worker_staleness:
  assumes "worker_init u m = Inr w0"
    and "logged_run worker_step w0 (older @ WTake r # mid @ WFinish x # newer) w"
    and "\<forall>y. WFinish y \<notin> set mid"
  shows "ar_request x = aq_request r \<and> ar_review x = aq_review r \<and> ar_mission x = aq_mission r
    \<and> ar_uav x = aq_uav r \<and> ar_version x = aq_version r \<and> ar_time x = aq_time r \<and> ar_frame x = aq_frame r
    \<and> (ar_stale x \<longleftrightarrow> (\<exists>q. WSubmit q \<in> set mid))
    \<and> (\<exists>before between. older = before @ WSubmit r # between \<and> (\<forall>q. WSubmit q \<notin> set between))"
proof -
  have "logged_run worker_step w0 ((older @ WTake r # mid) @ WFinish x # newer) w" using assms(2) by simp
  then obtain w1 w2 where run: "logged_run worker_step w0 (older @ WTake r # mid) w1"
    and fin: "worker_step w1 (WFinish x) w2" by (blast dest: logged_run_split)
  have t: "active_tracked (older @ WTake r # mid) w1"
    using worker_ok_run [OF run assms(1)] by (simp add: worker_ok_def)
  then have a: "aw_active w1 = Some r" "aw_stale w1 \<noteq> {} \<longleftrightarrow> (\<exists>p. WSubmit p \<in> set mid)"
    using assms(3) unfolding active_tracked_def by blast+
  have s: "async_request_ok r" "aw_stale w1 \<subseteq> {aq_request r}" using active_state [OF t] a(1) by simp_all
  from fin obtain outcome where "worker_finish outcome w1 = Some (Inr x, w2)" by (cases rule: worker_step.cases) simp
  then have x: "x = result_of r outcome (aq_request r \<in> aw_stale w1)"
    using worker_finish_value(1) [OF a(1) s(1), of outcome] by simp
  have "aq_request r \<in> aw_stale w1 \<longleftrightarrow> (\<exists>p. WSubmit p \<in> set mid)" using a(2) s(2) by auto
  moreover obtain w3 w4 where run': "logged_run worker_step w0 older w3" and take: "worker_step w3 (WTake r) w4"
    using logged_run_split [OF assms(2)] by blast
  have "aw_pending w3 = Some r"
    using take by (cases rule: worker_step.cases) (auto dest: take_effect)
  then have "\<exists>before between. older = before @ WSubmit r # between \<and> (\<forall>q. WSubmit q \<notin> set between)"
    using worker_ok_run [OF run' assms(1)] unfolding worker_ok_def pending_tracked_def by blast
  ultimately show ?thesis by (cases outcome) (simp_all add: x result_of_def)
qed

text \<open>A request that is superseded while it is at the model.\<close>

definition example_request :: "string \<Rightarrow> (nat, nat) async_request" where
  "example_request i = \<lparr>aq_request = i, aq_review = ''v1'', aq_mission = ''m1'', aq_uav = ''u1'', aq_version = 1,
     aq_time = 2, aq_frame = ''f1'', aq_messages = [0], aq_options = None, aq_priority = 3, aq_replaceable = True\<rparr>"

definition example_worker :: "(nat, nat) async_request option \<Rightarrow> (nat, nat) async_request option \<Rightarrow> string set
    \<Rightarrow> (nat, nat, nat) async_worker" where
  "example_worker pending active stale = \<lparr>aw_uav = ''u1'', aw_max = 2, aw_pending = pending, aw_active = active,
     aw_stale = stale, aw_completed = [], aw_discarded = 0, aw_closed = False, aw_alive = True\<rparr>"

lemma example_worker_init: "worker_init (PStr ''u1'') (PInt 2) = Inr (example_worker None None {})"
proof -
  have "routing_id_match ''u1''" by code_simp
  then show ?thesis by (simp add: worker_init_def example_worker_def)
qed

lemma example_worker_run:
  "\<exists>w. logged_run worker_step (example_worker None None {})
     ([WSubmit (example_request ''a'')] @ WTake (example_request ''a'') # [WSubmit (example_request ''b'')]
       @ WFinish (result_of (example_request ''a'') (Chat_response 7) True) # []) w"
proof -
  let ?a = "example_request ''a''" and ?b = "example_request ''b''"
  have ok: "async_request_ok ?a" "async_request_ok ?b" by (code_simp, code_simp)
  have 1: "worker_step (example_worker None None {}) (WSubmit ?a) (example_worker (Some ?a) None {})"
    by (rule worker_submitted [OF _ ok(1)]) (simp add: worker_submit_def example_worker_def example_request_def)
  have 2: "worker_step (example_worker (Some ?a) None {}) (WTake ?a) (example_worker None (Some ?a) {})"
    by (rule worker_took) (simp_all add: worker_take_def example_worker_def)
  have 3: "worker_step (example_worker None (Some ?a) {}) (WSubmit ?b) (example_worker (Some ?b) (Some ?a) {''a''})"
    by (rule worker_submitted [OF _ ok(2)]) (simp add: worker_submit_def example_worker_def example_request_def)
  have "aw_active (example_worker (Some ?b) (Some ?a) {''a''}) = Some ?a"
    "aq_request ?a \<in> aw_stale (example_worker (Some ?b) (Some ?a) {''a''})"
    by (simp_all add: example_worker_def example_request_def)
  with worker_finish_value(1) [OF this(1) ok(1), of "Chat_response 7"]
  obtain w where 4: "worker_step (example_worker (Some ?b) (Some ?a) {''a''})
      (WFinish (result_of ?a (Chat_response 7) True)) w"
    using that [OF worker_finished] by simp
  have "logged_run worker_step (example_worker None None {}) ([] @ [WSubmit ?a]) (example_worker (Some ?a) None {})"
    by (rule logged_more, rule logged_start, rule 1)
  then have "logged_run worker_step (example_worker None None {})
      (((([] @ [WSubmit ?a]) @ [WTake ?a]) @ [WSubmit ?b]) @ [WFinish (result_of ?a (Chat_response 7) True)]) w"
    by - (rule logged_more, rule logged_more, rule logged_more, assumption, rule 2, rule 3, rule 4)
  then show ?thesis by auto
qed

theorem worker_staleness_witness:
  "ar_stale (result_of (example_request ''a'') (Chat_response (7::nat)) True)
   \<longleftrightarrow> (\<exists>q. WSubmit q \<in> set [WSubmit (example_request ''b'') :: (nat, nat, nat) worker_note])"
proof -
  obtain w where run: "logged_run worker_step (example_worker None None {})
     ([WSubmit (example_request ''a'')] @ WTake (example_request ''a'') # [WSubmit (example_request ''b'')]
       @ WFinish (result_of (example_request ''a'') (Chat_response 7) True) # []) w"
    using example_worker_run by blast
  from worker_staleness [OF example_worker_init run] show ?thesis by simp
qed

theorem worker_accounts_witness:
  "\<exists>w :: (nat, nat, nat) async_worker. length (aw_completed w) \<le> aw_max w
     \<and> (\<exists>lost. {#unmarked (result_of (example_request ''a'') (Chat_response 7) True)#}
          = mset (map unmarked (aw_completed w)) + lost \<and> size lost = aw_discarded w)"
proof -
  obtain w where run: "logged_run worker_step (example_worker None None {})
     ([WSubmit (example_request ''a'')] @ WTake (example_request ''a'') # [WSubmit (example_request ''b'')]
       @ WFinish (result_of (example_request ''a'') (Chat_response 7) True) # []) w"
    using example_worker_run by blast
  show ?thesis
    by (rule exI [of _ w]) (use worker_accounts [OF example_worker_init run] in simp)
qed

end
