(* ===== verification/Request_Dispatcher.thy ===== *)
theory Request_Dispatcher
  imports Model_Broker Async_Worker
begin

text \<open>
  \<open>fleet/model_request_dispatcher.py\<close>: the bridge from the global broker to the workers of the
  vehicles.  A request is admitted by the broker, handed to the worker of its vehicle when the broker
  gives it a slot, and its result is queued for the vehicle when the worker is polled.

  A method runs under the dispatcher's lock, but the threads of the workers run on: before each call
  of a worker its thread may have made some steps, and the two clocks are read several times in one
  operation.  Both come from a \<open>schedule\<close>: the reading of the clock and the steps of the thread for the
  n-th such call, counted by \<open>ds_tick\<close>.  A record logger is the list of what it was given.
\<close>

section \<open>Adapters, responses and schedules\<close>

datatype model_call_role = MISSION_INTERPRETATION | FLEET_PLAN | FLEET_REPLAN | AGENT_SPATIAL_PLAN
  | RUNTIME_VISUAL_REVIEW | RUNTIME_REPLAN

fun call_role_text :: "model_call_role \<Rightarrow> string" where
  "call_role_text MISSION_INTERPRETATION = ''MISSION_INTERPRETATION''"
| "call_role_text FLEET_PLAN = ''FLEET_PLAN''"
| "call_role_text FLEET_REPLAN = ''FLEET_REPLAN''"
| "call_role_text AGENT_SPATIAL_PLAN = ''AGENT_SPATIAL_PLAN''"
| "call_role_text RUNTIME_VISUAL_REVIEW = ''RUNTIME_VISUAL_REVIEW''"
| "call_role_text RUNTIME_REPLAN = ''RUNTIME_REPLAN''"

datatype adapter_status = ADAPTER_DISABLED | ADAPTER_PLACEHOLDER | ADAPTER_ACTIVE

fun adapter_status_text :: "adapter_status \<Rightarrow> string" where
  "adapter_status_text ADAPTER_DISABLED = ''disabled''"
| "adapter_status_text ADAPTER_PLACEHOLDER = ''placeholder''"
| "adapter_status_text ADAPTER_ACTIVE = ''active''"

record adapter_selection =
  as_role :: model_call_role
  as_adapter :: string
  as_status :: adapter_status
  as_model :: string
  as_fallback :: bool

text \<open>A response holds the checked token counts of its constructor.\<close>

record model_response =
  rs_content :: string
  rs_model :: "string option"
  rs_finish :: "string option"
  rs_usage :: "(string \<times> int) list"

definition ModelResponse :: "pyval \<Rightarrow> pyval \<Rightarrow> pyval \<Rightarrow> pyval \<Rightarrow> model_response result" where
  "ModelResponse content model finish usage =
     rbind (case content of PStr s \<Rightarrow> Inr s | _ \<Rightarrow> Inl (TypeError ''content must be a string'')) (\<lambda>content.
     rbind (opt_check (\<lambda>v. case v of PStr s \<Rightarrow> Inr s
               | _ \<Rightarrow> Inl (TypeError ''model must be a string or None'')) model) (\<lambda>model.
     rbind (opt_check (\<lambda>v. case v of PStr s \<Rightarrow> Inr s
               | _ \<Rightarrow> Inl (TypeError ''finish_reason must be a string or None'')) finish) (\<lambda>finish.
     rbind (case usage of
              PDict d \<Rightarrow> rmap (\<lambda>(k, v). case k of
                  PStr k \<Rightarrow> rbind (int_value (TypeError ''usage values must be integers'')
                      (ValueError ''usage values must be non-negative'') (\<lambda>i. 0 \<le> i) v) (\<lambda>v. Inr (k, v))
                | _ \<Rightarrow> Inl (TypeError ''usage keys must be strings'')) d
            | _ \<Rightarrow> Inl (TypeError ''usage must be a mapping of string keys to integers'')) (\<lambda>usage.
       Inr \<lparr>rs_content = content, rs_model = model, rs_finish = finish, rs_usage = usage\<rparr>))))"

definition usage_count :: "model_response option \<Rightarrow> string \<Rightarrow> int" where
  "usage_count response key = (case response of
     None \<Rightarrow> 0 | Some r \<Rightarrow> (case dget (rs_usage r) key of None \<Rightarrow> 0 | Some n \<Rightarrow> n))"

datatype thread_act = Act_take | Act_finish "model_response chat_outcome"

type_synonym ('m, 'o) worker = "('m, 'o, model_response) async_worker"

type_synonym visual_result = "model_response async_result"

fun thread_apply :: "thread_act \<Rightarrow> ('m, 'o) worker \<Rightarrow> ('m, 'o) worker" where
  "thread_apply Act_take w = (case worker_take w of Some w' \<Rightarrow> w' | None \<Rightarrow> w)"
| "thread_apply (Act_finish outcome) w = (case worker_finish outcome w of Some (_, w') \<Rightarrow> w' | None \<Rightarrow> w)"

definition thread_run :: "thread_act list \<Rightarrow> ('m, 'o) worker \<Rightarrow> ('m, 'o) worker" where
  "thread_run acts w = fold thread_apply acts w"

record schedule =
  sc_clock :: "nat \<Rightarrow> pyval"
  sc_acts :: "nat \<Rightarrow> thread_act list"
  sc_monotonic :: "nat \<Rightarrow> rat"

section \<open>The dispatcher\<close>

definition dispatcher_timestamp :: "pyval \<Rightarrow> string \<Rightarrow> rat result" where
  "dispatcher_timestamp v name =
     real_value (TypeError (name @ '' must be a finite non-negative number''))
       (ValueError (name @ '' must be a finite non-negative number'')) (\<lambda>x. 0 \<le> x) v"

definition quoted :: "string \<Rightarrow> string" where
  "quoted s = [CHR 0x27] @ s @ [CHR 0x27]"

text \<open>
  A facade holds the vehicle and the trusted assignment.  \<open>_facades\<close> and \<open>_assignment_ids\<close> are always
  written together and are one field here.
\<close>

record worker_facade =
  wf_uav :: string
  wf_assignment :: "string option"

record ('m, 'o) dispatcher =
  ds_broker :: model_broker
  ds_adapter :: adapter_selection
  ds_workers :: "(string \<times> ('m, 'o) worker) list"
  ds_max :: nat
  ds_has_logger :: bool
  ds_requests :: "(string \<times> ('m, 'o) async_request) list"
  ds_dispatched :: "string set"
  ds_results :: "(string \<times> visual_result list) list"
  ds_discarded :: "(string \<times> nat) list"
  ds_facades :: "(string \<times> string option) list"
  ds_emitted :: "string set"
  ds_closed :: bool
  ds_logged :: "pyval list"
  ds_tick :: nat

definition dispatcher_worker :: "pyval \<times> ('m, 'o) worker \<Rightarrow> (string \<times> ('m, 'o) worker) result" where
  "dispatcher_worker e =
     rbind (validate_uav_id (fst e)) (\<lambda>uav.
       if aw_uav (snd e) \<noteq> uav
       then Inl (ValueError (''workers['' @ quoted uav @ ''] has mismatched uav_id''))
       else Inr (uav, snd e))"

definition dispatcher_init ::
  "model_broker \<Rightarrow> (pyval \<times> ('m, 'o) worker) list \<Rightarrow> adapter_selection \<Rightarrow> bool \<Rightarrow> bool \<Rightarrow> pyval
     \<Rightarrow> ('m, 'o) dispatcher result" where
  "dispatcher_init broker workers selection clock_callable has_logger max_completed =
     (if workers = [] then Inl (TypeError ''workers must be a non-empty mapping'')
      else if as_role selection \<noteq> RUNTIME_VISUAL_REVIEW
      then Inl (ValueError ''adapter_selection must route RUNTIME_VISUAL_REVIEW'')
      else if \<not> clock_callable then Inl (TypeError ''clock must be callable'')
      else
        rbind (int_value (ValueError ''max_completed_results_per_uav must be a positive integer'')
                 (ValueError ''max_completed_results_per_uav must be a positive integer'') (\<lambda>i. 0 < i)
                 max_completed) (\<lambda>m.
        rbind (rmap dispatcher_worker workers) (\<lambda>ws.
        let ws = foldl (\<lambda>d e. dset d (fst e) (snd e)) [] ws
        in Inr \<lparr>ds_broker = broker, ds_adapter = selection, ds_workers = ws, ds_max = nat m,
             ds_has_logger = has_logger, ds_requests = [], ds_dispatched = {},
             ds_results = map (\<lambda>(u, _). (u, [])) ws, ds_discarded = map (\<lambda>(u, _). (u, 0)) ws,
             ds_facades = [], ds_emitted = {}, ds_closed = False, ds_logged = [], ds_tick = 0\<rparr>)))"

definition worker_facade_check ::
  "string \<Rightarrow> string \<Rightarrow> string option \<Rightarrow> exn \<Rightarrow> ('m, 'o) dispatcher \<Rightarrow> unit result" where
  "worker_facade_check missing uav assignment conflict d =
     (if ds_closed d then Inl (RuntimeError ''model request dispatcher is closed'')
      else if uav \<notin> set (dkeys (ds_workers d)) then Inl (KeyError missing)
      else case dget (ds_facades d) uav of
        Some existing \<Rightarrow> if existing \<noteq> assignment then Inl conflict else Inr ()
      | None \<Rightarrow> Inr ())"

definition worker_for ::
  "pyval \<Rightarrow> pyval \<Rightarrow> ('m, 'o) dispatcher \<Rightarrow> worker_facade result \<times> ('m, 'o) dispatcher" where
  "worker_for uav assignment d =
     checked d (validate_uav_id uav) (\<lambda>uav.
     checked d (opt_check (\<lambda>v. validate_routing_id v ''assignment_id'') assignment) (\<lambda>assignment.
     checked d (worker_facade_check (''no model worker is registered for '' @ quoted uav) uav assignment
         (ValueError (''UAV '' @ quoted uav @ '' facade is already bound to assignment ''
            @ (case dget (ds_facades d) uav of Some (Some a) \<Rightarrow> quoted a | _ \<Rightarrow> ''None''))) d) (\<lambda>_.
       (Inr \<lparr>wf_uav = uav, wf_assignment = assignment\<rparr>,
        case dget (ds_facades d) uav of
          Some _ \<Rightarrow> d | None \<Rightarrow> d\<lparr>ds_facades := dset (ds_facades d) uav assignment\<rparr>))))"

definition prepare_worker_for :: "pyval \<Rightarrow> pyval \<Rightarrow> ('m, 'o) dispatcher \<Rightarrow> worker_facade result" where
  "prepare_worker_for uav assignment d =
     rbind (validate_uav_id uav) (\<lambda>uav.
     rbind (validate_routing_id assignment ''assignment_id'') (\<lambda>assignment.
     rbind (worker_facade_check (''no model worker is registered for '' @ uav) uav (Some assignment)
         (ValueError ''candidate UAV already has another visual assignment'') d) (\<lambda>_.
       Inr \<lparr>wf_uav = uav, wf_assignment = Some assignment\<rparr>)))"

section \<open>Results and records\<close>

definition enqueue_result ::
  "visual_result \<Rightarrow> ('m, 'o) dispatcher \<Rightarrow> unit result \<times> ('m, 'o) dispatcher" where
  "enqueue_result x d =
     (case dget (ds_results d) (ar_uav x) of
        None \<Rightarrow> (Inl (KeyError (ar_uav x)), d)
      | Some q \<Rightarrow>
          (Inr (), d\<lparr>ds_results := dset (ds_results d) (ar_uav x) (push_result (ds_max d) q x),
             ds_discarded := (if ds_max d \<le> length q
               then dset (ds_discarded d) (ar_uav x)
                      (Suc (case dget (ds_discarded d) (ar_uav x) of Some n \<Rightarrow> n | None \<Rightarrow> 0))
               else ds_discarded d)\<rparr>))"

definition emit_record :: "model_call_log \<Rightarrow> ('m, 'o) dispatcher \<Rightarrow> ('m, 'o) dispatcher" where
  "emit_record record d =
     (if cl_id record \<in> ds_emitted d then d
      else d\<lparr>ds_emitted := insert (cl_id record) (ds_emitted d),
             ds_logged := (if ds_has_logger d then ds_logged d @ [call_log_to_dict record] else ds_logged d)\<rparr>)"

text \<open>A result the dispatcher makes itself for a request it owns.\<close>

definition synthetic_result ::
  "('m, 'o) async_request \<Rightarrow> string \<Rightarrow> string \<Rightarrow> bool \<Rightarrow> visual_result result" where
  "synthetic_result r error_code message stale =
     AsyncModelResult (PStr (aq_request r)) (PStr (aq_review r)) (PStr (aq_mission r)) (PStr (aq_uav r))
       (PInt (aq_version r)) (PFloat (Fin (aq_time r))) (PStr (aq_frame r)) None (Some error_code)
       (Some message) stale"

fun exn_class :: "exn \<Rightarrow> string" where
  "exn_class (TypeError m) = ''TypeError''"
| "exn_class (ValueError m) = ''ValueError''"
| "exn_class (KeyError m) = ''KeyError''"
| "exn_class (RuntimeError m) = ''RuntimeError''"
| "exn_class OverflowError = ''OverflowError''"
| "exn_class (AttributeError m) = ''AttributeError''"
| "exn_class (TimeoutError m) = ''TimeoutError''"
| "exn_class (TargetClaimError m) = ''TargetClaimError''"
| "exn_class (ModelRequestBrokerError m) = ''ModelRequestBrokerError''"
| "exn_class (ModelRequestDispatcherError m) = ''ModelRequestDispatcherError''"
| "exn_class (PlanningStateError m) = ''PlanningStateError''"
| "exn_class (PlanningRecoveryError m) = ''PlanningRecoveryError''"
| "exn_class (MissionProgramError m) = ''MissionProgramError''"
| "exn_class (TaskPlanError m) = ''TaskPlanError''"
| "exn_class (RouteRegistryError m) = ''RouteRegistryError''"
| "exn_class (RouteContractError m) = ''RouteContractError''"
| "exn_class (SpatialContractError m) = ''SpatialContractError''"
| "exn_class (SpatialResolutionError m) = ''SpatialResolutionError''"
| "exn_class (MissingFramePoseError m) = ''MissingFramePoseError''"
| "exn_class (UnresolvedSpatialReferenceError m) = ''UnresolvedSpatialReferenceError''"
| "exn_class (RouteCollisionMonitorError m) = ''RouteCollisionMonitorError''"
| "exn_class (AdapterRegistryError m) = ''AdapterRegistryError''"
| "exn_class (TargetStateError m) = ''TargetStateError''"
| "exn_class (CandidateConfirmationError m) = ''CandidateConfirmationError''"

definition dispatcher_complete ::
  "schedule \<Rightarrow> string \<Rightarrow> pyval \<Rightarrow> pyval \<Rightarrow> pyval \<Rightarrow> pyval \<Rightarrow> ('m, 'o) dispatcher
     \<Rightarrow> model_call_log result \<times> ('m, 'o) dispatcher" where
  "dispatcher_complete sc rid prompt completion finish error d =
     (let (r, b) = broker_complete (sc_clock sc (ds_tick d)) (PStr rid) (PStr (as_adapter (ds_adapter d)))
            (PStr (adapter_status_text (as_status (ds_adapter d)))) (PStr (as_model (ds_adapter d)))
            (PBool (as_fallback (ds_adapter d))) prompt completion finish error (ds_broker d)
      in (r, d\<lparr>ds_broker := b, ds_tick := Suc (ds_tick d)\<rparr>))"

section \<open>Handing requests to the workers\<close>

text \<open>A worker refused the request: the broker's slot is given back and a failure is queued.\<close>

definition submit_failed ::
  "schedule \<Rightarrow> ('m, 'o) async_request \<Rightarrow> exn \<Rightarrow> ('m, 'o) dispatcher \<Rightarrow> unit result \<times> ('m, 'o) dispatcher" where
  "submit_failed sc request e d =
     (let d = d\<lparr>ds_dispatched := ds_dispatched d - {aq_request request},
                ds_requests := ddel (ds_requests d) (aq_request request)\<rparr>
      in andthen (dispatcher_complete sc (aq_request request) (PInt 0) (PInt 0) PNone
             (PStr ''WORKER_SUBMIT_FAILED'') d) (\<lambda>record d.
         checked d (synthetic_result request ''MODEL_REQUEST_FAILED'' (exn_class e) False) (\<lambda>x.
         andthen (enqueue_result x d) (\<lambda>_ d. (Inr (), emit_record record d)))))"

text \<open>One turn of \<open>_pump\<close>; the answer tells whether the loop goes on.\<close>

definition pump_one :: "schedule \<Rightarrow> ('m, 'o) dispatcher \<Rightarrow> bool result \<times> ('m, 'o) dispatcher" where
  "pump_one sc d =
     (let (r, b) = acquire_next (sc_clock sc (ds_tick d)) (Some (dkeys (ds_requests d))) (ds_broker d);
          d = d\<lparr>ds_broker := b, ds_tick := Suc (ds_tick d)\<rparr>
      in checked d r (\<lambda>acquired. case acquired of
           None \<Rightarrow> (Inr False, d)
         | Some br \<Rightarrow>
             (case dget (ds_requests d) (mr_id br) of
                None \<Rightarrow> (Inl (ModelRequestDispatcherError
                    (''Broker acquired a request not owned by this dispatcher: '' @ mr_id br)), d)
              | Some request \<Rightarrow>
                  (case dget (ds_workers d) (aq_uav request) of
                     None \<Rightarrow> (Inl (KeyError (aq_uav request)), d)
                   | Some w \<Rightarrow>
                       (let d = d\<lparr>ds_dispatched := insert (aq_request request) (ds_dispatched d)\<rparr>;
                            (s, w) = worker_submit request (thread_run (sc_acts sc (ds_tick d)) w);
                            d = d\<lparr>ds_workers := dset (ds_workers d) (aq_uav request) w,
                                  ds_tick := Suc (ds_tick d)\<rparr>
                        in case s of
                             Inr _ \<Rightarrow> (Inr True, d)
                           | Inl e \<Rightarrow> andthen (submit_failed sc request e d) (\<lambda>_ d. (Inr True, d)))))))"

lemma acquire_next_shrinks:
  assumes "acquire_next clk ids b = (Inr (Some br), b')"
  shows "length (mb_pending b') < length (mb_pending b)"
proof -
  have "br \<in> set (mb_pending b) \<and> mb_pending b' = remove1 br (mb_pending b)"
  proof (cases "filter (eligible b) (mb_pending b)")
    case (Cons c cs)
    obtain now where "finite_nonnegative clk ''clock result'' = Inr now"
      using assms by (cases "finite_nonnegative clk ''clock result''") (auto simp: acquire_next_def split: if_splits)
    moreover have "min_by (acquire_key b now) c cs \<in> insert c (set cs)" by (rule min_by_in)
    moreover have "insert c (set cs) = {x \<in> set (mb_pending b). eligible b x}"
      by (metis Cons list.simps(15) set_filter)
    ultimately show ?thesis using assms Cons by (auto simp: acquire_next_def Let_def split: if_splits)
  qed (use assms in \<open>auto simp: acquire_next_def split: if_splits checked_split_asm\<close>)
  then show ?thesis using length_pos_if_in_set by (fastforce simp: length_remove1)
qed

lemma broker_complete_pending [simp]:
  "broker_complete clk rid ad st md fb p c f e b = (r, b') \<Longrightarrow> mb_pending b' = mb_pending b"
  by (auto simp: broker_complete_def Let_def split: checked_split_asm option.splits prod.splits)

lemma dispatcher_complete_pending [simp]:
  "mb_pending (ds_broker (snd (dispatcher_complete sc rid p c f e d))) = mb_pending (ds_broker d)"
  by (auto simp: dispatcher_complete_def split: prod.splits)

lemma enqueue_result_broker [simp]: "ds_broker (snd (enqueue_result x d)) = ds_broker d"
  by (auto simp: enqueue_result_def split: option.splits)

lemma emit_record_broker [simp]: "ds_broker (emit_record c d) = ds_broker d"
  by (simp add: emit_record_def)

lemma submit_failed_pending:
  "mb_pending (ds_broker (snd (submit_failed sc r e d))) = mb_pending (ds_broker d)"
proof -
  let ?P = "\<lambda>s. mb_pending (ds_broker s) = mb_pending (ds_broker d)"
  show ?thesis
    unfolding submit_failed_def Let_def
    by (rule andthen_keeps [where P = ?P], simp,
        rule checked_keeps [where P = ?P], assumption, rule andthen_keeps [where P = ?P]) simp_all
qed

lemma pump_one_shrinks:
  assumes "pump_one sc d = (Inr True, d')"
  shows "length (mb_pending (ds_broker d')) < length (mb_pending (ds_broker d))"
proof -
  obtain br b where a: "acquire_next (sc_clock sc (ds_tick d)) (Some (dkeys (ds_requests d))) (ds_broker d)
      = (Inr (Some br), b)"
    using assms unfolding pump_one_def
    by (auto simp: Let_def split: prod.splits checked_split_asm option.splits)
  let ?P = "\<lambda>s. mb_pending (ds_broker s) = mb_pending b"
  have "?P (snd (pump_one sc d))"
    unfolding pump_one_def a Let_def prod.case checked_simps option.case
    by (auto simp: submit_failed_pending intro!: andthen_keeps [where P = ?P] split: option.splits prod.splits sum.splits)
  then have "?P d'" by (simp add: assms)
  then show ?thesis using acquire_next_shrinks [OF a] by simp
qed

function dispatcher_pump :: "schedule \<Rightarrow> ('m, 'o) dispatcher \<Rightarrow> unit result \<times> ('m, 'o) dispatcher" where
  "dispatcher_pump sc d =
     (case pump_one sc d of
        (Inl e, d) \<Rightarrow> (Inl e, d)
      | (Inr again, d) \<Rightarrow> if again then dispatcher_pump sc d else (Inr (), d))"
  by pat_completeness auto
termination
  by (relation "measure (\<lambda>(_, d). length (mb_pending (ds_broker d)))") (auto simp: pump_one_shrinks [OF sym])

declare dispatcher_pump.simps [simp del]

section \<open>Collecting results\<close>

text \<open>One turn of the inner loop of \<open>_collect_worker_results\<close>.\<close>

definition collect_one ::
  "schedule \<Rightarrow> string \<Rightarrow> ('m, 'o) dispatcher \<Rightarrow> bool result \<times> ('m, 'o) dispatcher" where
  "collect_one sc uav d =
     (case dget (ds_workers d) uav of
        None \<Rightarrow> (Inl (KeyError uav), d)
      | Some w \<Rightarrow>
          (let (p, w) = worker_poll PNone PNone PNone True (thread_run (sc_acts sc (ds_tick d)) w);
               d = d\<lparr>ds_workers := dset (ds_workers d) uav w, ds_tick := Suc (ds_tick d)\<rparr>
           in checked d p (\<lambda>polled. case polled of
                None \<Rightarrow> (Inr False, d)
              | Some x \<Rightarrow>
                  if ar_request x \<notin> set (dkeys (ds_requests d)) \<or> ar_request x \<notin> ds_dispatched d
                  then (Inl (ModelRequestDispatcherError
                      (''worker returned a result without Dispatcher ownership: '' @ ar_request x)), d)
                  else
                    andthen (dispatcher_complete sc (ar_request x)
                        (PInt (usage_count (ar_response x) ''prompt_tokens''))
                        (PInt (usage_count (ar_response x) ''completion_tokens''))
                        (case ar_response x of None \<Rightarrow> PNone | Some r \<Rightarrow> opt_pyval PStr (rs_finish r))
                        (opt_pyval PStr (ar_error x)) d) (\<lambda>record d.
                    let d = d\<lparr>ds_dispatched := ds_dispatched d - {ar_request x},
                              ds_requests := ddel (ds_requests d) (ar_request x)\<rparr>
                    in checked d (replace_stale x (ar_stale x \<or> cl_state record = BRS_STALE)) (\<lambda>x.
                       andthen (enqueue_result x d) (\<lambda>_ d. (Inr True, emit_record record d)))))))"

text \<open>What a worker still has to do or to hand over; the steps of its thread do not add to it.\<close>

definition worker_load :: "('m, 'o, 'r) async_worker \<Rightarrow> nat" where
  "worker_load w = length (aw_completed w) + (if aw_active w = None then 0 else 1)
     + (if aw_pending w = None then 0 else 1)"

definition uav_load :: "string \<Rightarrow> ('m, 'o) dispatcher \<Rightarrow> nat" where
  "uav_load uav d = (case dget (ds_workers d) uav of None \<Rightarrow> 0 | Some w \<Rightarrow> worker_load w)"

lemma thread_apply_load: "worker_load (thread_apply a w) \<le> worker_load w"
proof (cases a)
  case Act_take
  then show ?thesis by (auto simp: worker_load_def worker_take_def split: option.splits)
next
  case (Act_finish outcome)
  then show ?thesis
    by (auto simp: worker_load_def worker_finish_def push_result_def Let_def
        split: option.splits prod.splits checked_split_asm)
qed

lemma thread_run_load: "worker_load (thread_run acts w) \<le> worker_load w"
  unfolding thread_run_def
proof (induction acts arbitrary: w)
  case (Cons a acts)
  show ?case using Cons.IH [of "thread_apply a w"] thread_apply_load [of a w] by simp
qed simp

lemma poll_all_shrinks:
  assumes "worker_poll PNone PNone PNone True w = (Inr (Some x), w')"
  shows "\<exists>q. aw_completed w = q # aw_completed w'" and "worker_load w' < worker_load w"
proof -
  obtain y ys where y: "aw_completed w = y # ys" using assms by (cases "aw_completed w") (auto simp: worker_poll_def)
  then have "aw_completed w' = ys \<and> aw_active w' = aw_active w \<and> aw_pending w' = aw_pending w"
    using assms by (auto simp: worker_poll_def result_matches_def Let_def split: checked_split_asm)
  with y show "\<exists>q. aw_completed w = q # aw_completed w'" "worker_load w' < worker_load w"
    by (simp_all add: worker_load_def)
qed

lemma dispatcher_complete_workers [simp]:
  "ds_workers (snd (dispatcher_complete sc rid p c f e d)) = ds_workers d"
  by (auto simp: dispatcher_complete_def split: prod.splits)

lemma enqueue_result_workers [simp]: "ds_workers (snd (enqueue_result x d)) = ds_workers d"
  by (auto simp: enqueue_result_def split: option.splits)

lemma emit_record_workers [simp]: "ds_workers (emit_record c d) = ds_workers d"
  by (simp add: emit_record_def)

lemma collect_one_workers:
  "ds_workers (snd (collect_one sc uav d)) = (case dget (ds_workers d) uav of None \<Rightarrow> ds_workers d
     | Some w \<Rightarrow> dset (ds_workers d) uav
         (snd (worker_poll PNone PNone PNone True (thread_run (sc_acts sc (ds_tick d)) w))))"
proof (cases "dget (ds_workers d) uav")
  case None
  then show ?thesis by (simp add: collect_one_def)
next
  case (Some w)
  obtain p w' where poll: "worker_poll PNone PNone PNone True (thread_run (sc_acts sc (ds_tick d)) w) = (p, w')"
    by fastforce
  let ?P = "\<lambda>d'. ds_workers d' = dset (ds_workers d) uav w'"
  have "?P (snd (collect_one sc uav d))"
    unfolding collect_one_def Some poll option.case Let_def prod.case
    by (rule checked_keeps [where P = ?P])
      (auto intro!: andthen_keeps [where P = ?P] checked_keeps [where P = ?P] split: option.splits)
  then show ?thesis by (simp add: Some poll)
qed

lemma collect_one_shrinks:
  assumes "collect_one sc uav d = (Inr True, d')"
  shows "uav_load uav d' < uav_load uav d"
proof -
  obtain w where w: "dget (ds_workers d) uav = Some w"
    using assms by (cases "dget (ds_workers d) uav") (auto simp: collect_one_def)
  obtain p w' where poll: "worker_poll PNone PNone PNone True (thread_run (sc_acts sc (ds_tick d)) w) = (p, w')"
    by fastforce
  have "\<exists>x. p = Inr (Some x)"
    using assms by (auto simp: collect_one_def w poll Let_def checked_def split: sum.splits option.splits)
  then obtain x where "p = Inr (Some x)" by blast
  then have "worker_load w' < worker_load w"
    using poll_all_shrinks(2) poll thread_run_load le_less_trans by (metis less_le_trans)
  moreover have "ds_workers d' = dset (ds_workers d) uav w'"
    using collect_one_workers [of sc uav d] assms by (simp add: w poll)
  ultimately show ?thesis by (simp add: uav_load_def w dget_dset)
qed

function collect_worker ::
  "schedule \<Rightarrow> string \<Rightarrow> ('m, 'o) dispatcher \<Rightarrow> unit result \<times> ('m, 'o) dispatcher" where
  "collect_worker sc uav d =
     (case collect_one sc uav d of
        (Inl e, d) \<Rightarrow> (Inl e, d)
      | (Inr again, d) \<Rightarrow> if again then collect_worker sc uav d else (Inr (), d))"
  by pat_completeness auto
termination
  by (relation "measure (\<lambda>(_, u, d). uav_load u d)") (auto simp: collect_one_shrinks [OF sym])

declare collect_worker.simps [simp del]

fun collect_workers ::
  "schedule \<Rightarrow> string list \<Rightarrow> ('m, 'o) dispatcher \<Rightarrow> unit result \<times> ('m, 'o) dispatcher" where
  "collect_workers sc [] d = (Inr (), d)"
| "collect_workers sc (u # us) d = andthen (collect_worker sc u d) (\<lambda>_ d. collect_workers sc us d)"

definition collect_worker_results ::
  "schedule \<Rightarrow> ('m, 'o) dispatcher \<Rightarrow> unit result \<times> ('m, 'o) dispatcher" where
  "collect_worker_results sc d = collect_workers sc (sort (dkeys (ds_workers d))) d"

text \<open>\<open>_reconcile_pending_stale\<close>: the last stale record of an identifier counts.\<close>

definition stale_by_id :: "model_call_log list \<Rightarrow> string \<Rightarrow> model_call_log option" where
  "stale_by_id logs = map_of (rev (map (\<lambda>c. (cl_id c, c)) (filter (\<lambda>c. cl_state c = BRS_STALE) logs)))"

fun reconcile_loop ::
  "(string \<Rightarrow> model_call_log option) \<Rightarrow> (string \<times> ('m, 'o) async_request) list \<Rightarrow> ('m, 'o) dispatcher
     \<Rightarrow> unit result \<times> ('m, 'o) dispatcher" where
  "reconcile_loop stale [] d = (Inr (), d)"
| "reconcile_loop stale ((rid, r) # items) d =
     (if rid \<in> ds_dispatched d then reconcile_loop stale items d
      else case stale rid of
        None \<Rightarrow> reconcile_loop stale items d
      | Some record \<Rightarrow>
          let d = d\<lparr>ds_requests := ddel (ds_requests d) rid\<rparr>
          in checked d (synthetic_result r ''BROKER_STALE''
               (case cl_stale_reason record of Some m \<Rightarrow> if m = [] then ''STALE'' else m | None \<Rightarrow> ''STALE'') True) (\<lambda>x.
             andthen (enqueue_result x d) (\<lambda>_ d. reconcile_loop stale items (emit_record record d))))"

definition reconcile_pending_stale :: "('m, 'o) dispatcher \<Rightarrow> unit result \<times> ('m, 'o) dispatcher" where
  "reconcile_pending_stale d = reconcile_loop (stale_by_id (mb_logs (ds_broker d))) (ds_requests d) d"

definition dispatcher_service :: "schedule \<Rightarrow> ('m, 'o) dispatcher \<Rightarrow> unit result \<times> ('m, 'o) dispatcher" where
  "dispatcher_service sc d =
     andthen (collect_worker_results sc d) (\<lambda>_ d.
     andthen (reconcile_pending_stale d) (\<lambda>_ d.
       if ds_closed d then (Inr (), d) else dispatcher_pump sc d))"

section \<open>The operations of the facades\<close>

definition review_payload :: "('m, 'o) async_request \<Rightarrow> pyval" where
  "review_payload r = PDict
     [(PStr ''review_id'', PStr (aq_review r)), (PStr ''mission_id'', PStr (aq_mission r)),
      (PStr ''plan_version'', PInt (aq_version r)),
      (PStr ''observation_timestamp_s'', PFloat (Fin (aq_time r))), (PStr ''frame_id'', PStr (aq_frame r))]"

text \<open>The first half of \<open>_submit\<close>: the broker admits the request and the dispatcher owns it.\<close>

definition dispatcher_admit ::
  "schedule \<Rightarrow> worker_facade \<Rightarrow> ('m, 'o) async_request \<Rightarrow> ('m, 'o) dispatcher
     \<Rightarrow> unit result \<times> ('m, 'o) dispatcher" where
  "dispatcher_admit sc facade r d =
     (if aq_uav r \<noteq> wf_uav facade
      then (Inl (ValueError (''request uav_id '' @ quoted (aq_uav r) @ '' does not match facade uav_id ''
                @ quoted (wf_uav facade))), d)
      else if ds_closed d then (Inl (RuntimeError ''model request dispatcher is closed''), d)
      else
        checked d (dispatcher_timestamp (sc_clock sc (ds_tick d)) ''clock result'') (\<lambda>submitted.
        checked d (rbind (ModelRequestPriority (PInt (aq_priority r))) (\<lambda>_.
            ModelBrokerRequest (PStr (call_role_text RUNTIME_VISUAL_REVIEW)) (PInt (aq_priority r))
              (PStr (aq_uav r)) (opt_pyval PStr (wf_assignment facade)) (PStr (as_adapter (ds_adapter d)))
              (review_payload r) (PStr (aq_request r)) (PFloat (Fin submitted)) (PBool False)
              (PBool (aq_replaceable r)))) (\<lambda>br.
        let (s, b) = broker_submit (sc_clock sc (Suc (ds_tick d))) br (ds_broker d);
            d = d\<lparr>ds_broker := b, ds_tick := Suc (Suc (ds_tick d))\<rparr>
        in checked d s (\<lambda>_. (Inr (), d\<lparr>ds_requests := dset (ds_requests d) (aq_request r) r\<rparr>)))))"

definition dispatcher_submit ::
  "schedule \<Rightarrow> worker_facade \<Rightarrow> ('m, 'o) async_request \<Rightarrow> ('m, 'o) dispatcher
     \<Rightarrow> unit result \<times> ('m, 'o) dispatcher" where
  "dispatcher_submit sc facade r d =
     andthen (dispatcher_admit sc facade r d) (\<lambda>_ d.
     andthen (reconcile_pending_stale d) (\<lambda>_ d. dispatcher_pump sc d))"

text \<open>The second half of \<open>_poll\<close>: a turn of the queue of the vehicle, as in \<open>AsyncModelWorker.poll\<close>.\<close>

definition poll_queue ::
  "string \<Rightarrow> string option \<Rightarrow> string option \<Rightarrow> rat option \<Rightarrow> bool \<Rightarrow> ('m, 'o) dispatcher
     \<Rightarrow> visual_result option result \<times> ('m, 'o) dispatcher" where
  "poll_queue uav request review minimum include_stale d =
     (case dget (ds_results d) uav of
        None \<Rightarrow> (Inl (KeyError uav), d)
      | Some q \<Rightarrow>
          let (found, q, lost) = poll_loop request review minimum include_stale (length q) q 0;
              d = d\<lparr>ds_results := dset (ds_results d) uav q,
                    ds_discarded := (if lost = 0 then ds_discarded d
                      else dset (ds_discarded d) uav
                             ((case dget (ds_discarded d) uav of Some n \<Rightarrow> n | None \<Rightarrow> 0) + lost))\<rparr>
          in (case found of
               None \<Rightarrow> (Inr None, d)
             | Some (x, stale) \<Rightarrow> checked d (replace_stale x stale) (\<lambda>x. (Inr (Some x), d))))"

definition dispatcher_poll ::
  "schedule \<Rightarrow> worker_facade \<Rightarrow> pyval \<Rightarrow> pyval \<Rightarrow> pyval \<Rightarrow> pyval \<Rightarrow> ('m, 'o) dispatcher
     \<Rightarrow> visual_result option result \<times> ('m, 'o) dispatcher" where
  "dispatcher_poll sc facade request review minimum include_stale d =
     checked d (opt_check validate_request_id request) (\<lambda>request.
     checked d (opt_check validate_review_id review) (\<lambda>review.
     checked d (opt_check (\<lambda>v. dispatcher_timestamp v ''minimum_observation_timestamp_s'') minimum) (\<lambda>minimum.
     checked d (bool_value (TypeError ''include_stale must be bool'') include_stale) (\<lambda>include_stale.
     andthen (dispatcher_service sc d) (\<lambda>_ d.
       poll_queue (wf_uav facade) request review minimum include_stale d)))))"

definition is_uav_busy :: "string \<Rightarrow> ('m, 'o) dispatcher \<Rightarrow> bool" where
  "is_uav_busy uav d = list_ex (\<lambda>r. aq_uav r = uav) (dvals (ds_requests d))"

definition discarded_for :: "string \<Rightarrow> ('m, 'o) dispatcher \<Rightarrow> nat result" where
  "discarded_for uav d = (case dget (ds_discarded d) uav of None \<Rightarrow> Inl (KeyError uav) | Some n \<Rightarrow> Inr n)"

section \<open>Closing\<close>

text \<open>Queued requests are canceled at the broker, which may have dropped them already.\<close>

fun cancel_waiting :: "string list \<Rightarrow> ('m, 'o) dispatcher \<Rightarrow> unit result \<times> ('m, 'o) dispatcher" where
  "cancel_waiting [] d = (Inr (), d)"
| "cancel_waiting (rid # rids) d =
     (if rid \<in> ds_dispatched d then cancel_waiting rids d
      else (let (r, b) = cancel_pending (PStr rid) (PStr ''DISPATCHER_CLOSED'') (ds_broker d);
                d = d\<lparr>ds_broker := b\<rparr>
            in case r of
                 Inl (ModelRequestBrokerError m) \<Rightarrow> cancel_waiting rids d
               | Inl e \<Rightarrow> (Inl e, d)
               | Inr _ \<Rightarrow> cancel_waiting rids d))"

text \<open>
  \<open>worker.close\<close> marks the worker closed and joins its thread, which may make some steps until the
  deadline; the first error is kept.
\<close>

definition close_one ::
  "schedule \<Rightarrow> rat \<Rightarrow> string \<Rightarrow> ('m, 'o) dispatcher \<Rightarrow> unit result \<times> ('m, 'o) dispatcher" where
  "close_one sc deadline uav d =
     (case dget (ds_workers d) uav of
        None \<Rightarrow> (Inl (KeyError uav), d)
      | Some w \<Rightarrow>
          (let (r, w1) = close_worker (PFloat (Fin (max 0 (deadline - sc_monotonic sc (ds_tick d))))) False
                 (thread_run (sc_acts sc (ds_tick d)) w);
               w2 = (case r of Inl _ \<Rightarrow> w1 | Inr _ \<Rightarrow> thread_run (sc_acts sc (Suc (ds_tick d))) w1)
           in (rbind r (\<lambda>_. close_join w2),
               d\<lparr>ds_workers := dset (ds_workers d) uav w2, ds_tick := Suc (Suc (ds_tick d))\<rparr>)))"

fun close_workers ::
  "schedule \<Rightarrow> rat \<Rightarrow> string list \<Rightarrow> ('m, 'o) dispatcher \<Rightarrow> exn option \<times> ('m, 'o) dispatcher" where
  "close_workers sc deadline [] d = (None, d)"
| "close_workers sc deadline (u # us) d =
     (let (r, d) = close_one sc deadline u d; (e, d) = close_workers sc deadline us d
      in (case r of Inl x \<Rightarrow> Some x | Inr _ \<Rightarrow> e, d))"

text \<open>What \<open>close\<close> does once the dispatcher is marked closed.\<close>

definition shut_down :: "schedule \<Rightarrow> rat \<Rightarrow> ('m, 'o) dispatcher \<Rightarrow> unit result \<times> ('m, 'o) dispatcher" where
  "shut_down sc deadline d =
     andthen (cancel_waiting (dkeys (ds_requests d)) d) (\<lambda>_ d.
     andthen (reconcile_pending_stale d) (\<lambda>_ d.
     let (first_error, d) = close_workers sc deadline (sort (dkeys (ds_workers d))) d
     in andthen (collect_worker_results sc d) (\<lambda>_ d.
        andthen (reconcile_pending_stale d) (\<lambda>_ d.
          (case first_error of
             Some e \<Rightarrow> Inl e
           | None \<Rightarrow>
               if ds_dispatched d = {} then Inr ()
               else Inl (ModelRequestDispatcherError
                 (''worker close returned without a result for acquired request(s): ''
                    @ py_join '', '' (sorted_list_of_set (ds_dispatched d)))), d)))))"

definition close_dispatcher ::
  "schedule \<Rightarrow> pyval \<Rightarrow> ('m, 'o) dispatcher \<Rightarrow> unit result \<times> ('m, 'o) dispatcher" where
  "close_dispatcher sc timeout d =
     checked d (case timeout of PNone \<Rightarrow> Inr (1 / 10)
                | _ \<Rightarrow> dispatcher_timestamp timeout ''timeout_s'') (\<lambda>timeout.
     if ds_closed d then (Inr (), d)
     else shut_down sc (sc_monotonic sc (ds_tick d) + timeout)
            (d\<lparr>ds_closed := True, ds_tick := Suc (ds_tick d)\<rparr>))"

definition dispatcher_snapshot :: "('m, 'o) dispatcher \<Rightarrow> pyval" where
  "dispatcher_snapshot d = PDict
     [(PStr ''closed'', PBool (ds_closed d)),
      (PStr ''owned_request_ids'', PList (map PStr (sort (dkeys (ds_requests d))))),
      (PStr ''dispatched_request_ids'', PList (map PStr (sorted_list_of_set (ds_dispatched d)))),
      (PStr ''queued_result_counts'',
         PDict (map (\<lambda>(u, q). (PStr u, PInt (int (length q)))) (ds_results d))),
      (PStr ''discarded_result_counts'',
         PDict (map (\<lambda>(u, n). (PStr u, PInt (int n))) (ds_discarded d))),
      (PStr ''emitted_record_ids'', PList (map PStr (sorted_list_of_set (ds_emitted d))))]"

end
