(* ===== verification/Broker_View.thy ===== *)
theory Broker_View
  imports Model_Broker
begin

text \<open>
  The broker of \<open>fleet/model_request_broker.py\<close> seen by an owner of requests: where a request of his is
  (in a slot, in the queue, or dropped from it), which steps of others leave it there, and what his own
  calls return.  \<open>ModelRequestDispatcher\<close> and \<open>BrokeredTextTaskRunner\<close> both rest on it.
\<close>

section \<open>Where a request is\<close>

definition slot_of :: "model_broker \<Rightarrow> string \<Rightarrow> string \<Rightarrow> bool" where
  "slot_of b k u \<longleftrightarrow> (\<exists>br t. dget (mb_inflight b) k = Some (br, t) \<and> mr_uav br = Some u)"

definition waiting_at :: "model_broker \<Rightarrow> string \<Rightarrow> string \<Rightarrow> bool" where
  "waiting_at b k u \<longleftrightarrow> (\<exists>br\<in>set (mb_pending b). mr_id br = k \<and> mr_uav br = Some u)"

definition dropped_by :: "model_broker \<Rightarrow> string \<Rightarrow> bool" where
  "dropped_by b k \<longleftrightarrow> k \<notin> inflight_ids b \<and> (\<exists>c\<in>set (mb_logs b). cl_id c = k \<and> cl_state c = BRS_STALE)"

definition placed :: "model_broker \<Rightarrow> bool \<Rightarrow> string \<Rightarrow> string \<Rightarrow> bool" where
  "placed b dispatched k u \<longleftrightarrow>
     (if dispatched then slot_of b k u else waiting_at b k u \<or> dropped_by b k)"

definition keeps_place :: "model_broker \<Rightarrow> model_broker \<Rightarrow> string \<Rightarrow> bool" where
  "keeps_place b b' k \<longleftrightarrow> dget (mb_inflight b') k = dget (mb_inflight b) k
     \<and> (\<forall>br\<in>set (mb_pending b). mr_id br = k \<longrightarrow> br \<in> set (mb_pending b') \<or> dropped_by b' k)
     \<and> (dropped_by b k \<longrightarrow> dropped_by b' k)"

lemma same_slot_ids: "dget (mb_inflight b') k = dget (mb_inflight b) k \<Longrightarrow> k \<in> inflight_ids b' \<longleftrightarrow> k \<in> inflight_ids b"
  unfolding inflight_ids_def by (metis dget_None)

lemma keeps_placeI:
  assumes "dget (mb_inflight b') k = dget (mb_inflight b) k"
    and "\<And>br. br \<in> set (mb_pending b) \<Longrightarrow> mr_id br = k \<Longrightarrow> br \<in> set (mb_pending b') \<or> dropped_by b' k"
    and "\<And>c. c \<in> set (mb_logs b) \<Longrightarrow> c \<in> set (mb_logs b')"
  shows "keeps_place b b' k"
  using assms same_slot_ids [OF assms(1)] by (auto simp: keeps_place_def dropped_by_def)

lemma keeps_placed: "keeps_place b b' k \<Longrightarrow> \<forall>s u. placed b s k u \<longrightarrow> placed b' s k u"
  by (auto simp: keeps_place_def placed_def slot_of_def waiting_at_def)

lemma keeps_place_refl [simp]: "keeps_place b b k"
  by (simp add: keeps_place_def)

text \<open>A call that ends: its slot is given back and its record is in the log.\<close>

definition finished :: "model_broker \<Rightarrow> string \<Rightarrow> model_broker \<Rightarrow> bool" where
  "finished b k b' \<longleftrightarrow> broker_inv b' \<and> same_limits b b' \<and> mb_inflight b' = ddel (mb_inflight b) k
     \<and> mb_pending b' = mb_pending b \<and> set (mb_logs b) \<subseteq> set (mb_logs b') \<and> k \<in> log_ids b'"

lemma broker_complete_finished:
  assumes inv: "broker_inv b" and k: "dget (mb_inflight b) k = Some (br, t)"
    and clk: "clk = PFloat (Fin now)" "0 \<le> now" and n: "0 \<le> p" "0 \<le> c"
  shows "\<exists>l b'. broker_complete clk (PStr k) a s m (PBool f) (PInt p) (PInt c) fi er b
      = (Inr l, b') \<and> finished b k b' \<and> cl_id l = k"
proof (cases "dget (mb_preempted b) k")
  case (Some l)
  note l = preempted_Some [OF inv Some]
  have id: "routing_id_match k" using inflight_entry [OF inv k] by (simp add: Model_Broker.request_ok_def)
  have "broker_complete clk (PStr k) a s m (PBool f) (PInt p) (PInt c) fi er b
      = (Inr l, free_slot k b)"
    using id by (simp add: broker_complete_def k Some free_slot_def)
  moreover have "finished b k (free_slot k b)"
    using free_slot_inv [OF inv, of k] l(2,3)
    by (auto simp: finished_def same_limits_def free_slot_def log_ids_def)
  ultimately show ?thesis using l(2) by blast
next
  case None
  then have np: "k \<notin> preempted_ids b" by (simp add: preempted_None)
  note r = inflight_entry [OF inv k]
  have "\<exists>l. ModelCallLogRecord br (if py_truthy a then a else opt_pyval PStr (mr_adapter br)) s
      m (PBool f) (PFloat (Fin (max 0 (now - t)))) (if py_truthy er then BRS_FAILED else BRS_COMPLETED)
      None (PInt p) (PInt c) fi er = Inr l"
    using ModelCallLogRecord_ok [OF r(2) _ n] by simp
  then obtain l where l: "broker_complete clk (PStr k) a s m (PBool f) (PInt p) (PInt c) fi er b
      = (Inr l, (free_slot k b)\<lparr>mb_logs := mb_logs b @ [l]\<rparr>)"
    unfolding broker_complete_live [OF inv k np] clk(1) using clk(2) by auto
  from broker_complete_cases [OF inv l] k np have "cl_id l = k"
    by (auto simp: preempted_None [symmetric])
  moreover have "broker_inv ((free_slot k b)\<lparr>mb_logs := mb_logs b @ [l]\<rparr>)"
    using broker_complete_inv(1) [OF inv l] .
  ultimately have "finished b k ((free_slot k b)\<lparr>mb_logs := mb_logs b @ [l]\<rparr>)"
    by (auto simp: finished_def same_limits_def free_slot_def log_ids_def)
  then show ?thesis using l \<open>cl_id l = k\<close> by blast
qed

lemma finished_keeps: "finished b k b' \<Longrightarrow> k' \<noteq> k \<Longrightarrow> keeps_place b b' k'"
  by (rule keeps_placeI) (auto simp: finished_def dget_ddel)

section \<open>Taking from the queue\<close>

text \<open>The request that is next at the time \<open>now\<close>: the least of the eligible ones that wait.\<close>

definition next_request :: "model_broker \<Rightarrow> rat \<Rightarrow> model_request \<Rightarrow> bool" where
  "next_request b now y \<longleftrightarrow> y \<in> set (mb_pending b) \<and> eligible b y
     \<and> (\<forall>x\<in>set (mb_pending b). eligible b x \<longrightarrow> acquire_key b now y \<le> acquire_key b now x)"

lemma acquire_next_value:
  assumes "clk = PFloat (Fin now)" "0 \<le> now"
  shows "(acquire_next clk (Some ids) b = (Inr None, b)
      \<and> (mb_max_inflight_global b \<le> int (length (mb_inflight b))
         \<or> (\<forall>x\<in>set (mb_pending b). \<not> eligible b x) \<or> (\<exists>y. next_request b now y \<and> mr_id y \<notin> set ids)))
    \<or> (\<exists>r t. acquire_next clk (Some ids) b = (Inr (Some r), start_call r t b) \<and> r \<in> set (mb_pending b)
        \<and> eligible b r \<and> mr_id r \<in> set ids \<and> int (length (mb_inflight b)) < mb_max_inflight_global b)"
proof (cases "filter (eligible b) (mb_pending b)")
  case Nil
  then show ?thesis using assms by (auto simp: acquire_next_def filter_empty_conv)
next
  case (Cons c cs)
  let ?r = "min_by (acquire_key b now) c cs"
  have els: "insert c (set cs) = {x \<in> set (mb_pending b). eligible b x}"
    by (metis Cons list.simps(15) set_filter)
  then have r: "?r \<in> set (mb_pending b)" "eligible b ?r"
    using min_by_in [of "acquire_key b now" c cs] by auto
  have "next_request b now ?r"
    using r min_by_le [of _ c cs "acquire_key b now"] unfolding els next_request_def by auto
  then show ?thesis
    using assms Cons r by (auto simp: acquire_next_def start_call_def Let_def)
qed

lemma eligible_free:
  assumes "eligible b r" and "mr_uav r = Some u" and "mb_max_inflight_per_uav b = 1" and "broker_inv b"
  shows "\<not> slot_of b k u"
proof
  assume "slot_of b k u"
  then obtain br t where br: "dget (mb_inflight b) k = Some (br, t)" "mr_uav br = Some u"
    by (auto simp: slot_of_def)
  have "br \<in> set (map fst (dvals (mb_inflight b)))"
    using map_of_SomeD [OF br(1)] by force
  then have "br \<in> set (same_uav_inflight (Some u) b)" using br(2) by (simp add: same_uav_inflight_def)
  then have "1 \<le> length (same_uav_inflight (Some u) b)" by (cases "same_uav_inflight (Some u) b") auto
  then show False using assms by (auto simp: eligible_def Let_def split: if_splits)
qed

lemma start_call_keeps:
  assumes "broker_inv b" and "br \<in> set (mb_pending b)" and "k \<noteq> mr_id br"
  shows "keeps_place b (start_call br t b) k"
proof (rule keeps_placeI)
  show "dget (mb_inflight (start_call br t b)) k = dget (mb_inflight b) k"
    using assms(3) by (simp add: start_call_def dget_dset)
  fix x assume x: "x \<in> set (mb_pending b)" "mr_id x = k"
  then have "x \<noteq> br" using assms(3) by blast
  then show "x \<in> set (mb_pending (start_call br t b)) \<or> dropped_by (start_call br t b) k"
    using x(1) by (simp add: start_call_def)
qed (simp add: start_call_def)

section \<open>Submissions, cancellations and the steps of other owners\<close>

lemma displaces_keeps:
  assumes "broker_inv b" and "displaces br b b'"
  shows "keeps_place b b' k"
proof (rule keeps_placeI)
  show "dget (mb_inflight b') k = dget (mb_inflight b) k" using assms(2) by (simp add: displaces_def)
  fix x assume x: "x \<in> set (mb_pending b)" "mr_id x = k"
  have "k \<notin> inflight_ids b'"
    using assms x by (auto simp: displaces_def broker_inv_def pending_inv_def inflight_ids_def)
  then show "x \<in> set (mb_pending b') \<or> dropped_by b' k"
    using assms(2) x unfolding displaces_def dropped_by_def by blast
next
  fix c assume "c \<in> set (mb_logs b)"
  then show "c \<in> set (mb_logs b')" using assms(2) by (auto simp: displaces_def)
qed

lemma displaces_logs: "displaces br b b' \<Longrightarrow> log_ids b \<subseteq> log_ids b'"
  by (auto simp: displaces_def log_ids_def)

lemma keeps_place_trans: "keeps_place a b k \<Longrightarrow> keeps_place b c k \<Longrightarrow> keeps_place a c k"
  unfolding keeps_place_def by metis

lemma enqueue_keeps: "keeps_place b (b\<lparr>mb_pending := mb_pending b @ [br]\<rparr>) k"
  by (rule keeps_placeI) auto

lemma retire_keeps:
  assumes "broker_inv b" and "br \<in> set (mb_pending b)" and "cl_id c = mr_id br" "cl_state c = BRS_STALE"
  shows "keeps_place b (retire br c b) k"
proof (rule keeps_placeI)
  fix x assume x: "x \<in> set (mb_pending b)" "mr_id x = k"
  show "x \<in> set (mb_pending (retire br c b)) \<or> dropped_by (retire br c b) k"
  proof (cases "x = br")
    case True
    have "mr_id br \<notin> inflight_ids b" using assms(1,2) by (simp add: broker_inv_def pending_inv_def)
    then show ?thesis using True x(2) assms(3,4) by (auto simp: dropped_by_def retire_def)
  qed (use x in \<open>simp add: retire_def\<close>)
qed (simp_all add: retire_def)

lemma cancel_pending_keeps:
  assumes inv: "broker_inv b" and c: "cancel_pending rv reason b = (x, b')"
  shows "keeps_place b b' k" and "log_ids b \<subseteq> log_ids b'" and "broker_inv b'"
    and "mb_max_inflight_per_uav b' = mb_max_inflight_per_uav b" and "mb_inflight b' = mb_inflight b"
    and "set (mb_pending b') \<subseteq> set (mb_pending b)"
  using cancel_pending_cases [OF inv c] retire_keeps [OF inv] retire_inv(1) [OF inv] inv
  by (auto simp: retire_def log_ids_def dest: set_remove1_subset [THEN subsetD])

lemma cancel_pending_error:
  assumes inv: "broker_inv b" and k: "routing_id_match k"
  shows "(\<exists>m. fst (cancel_pending (PStr k) (PStr ''DISPATCHER_CLOSED'') b) = Inl (ModelRequestBrokerError m))
    \<or> fst (cancel_pending (PStr k) (PStr ''DISPATCHER_CLOSED'') b) = Inr ()"
proof -
  have reason: "reason_text (PStr ''DISPATCHER_CLOSED'') = Inr ''DISPATCHER_CLOSED''" by code_simp
  show ?thesis
  proof (cases "List.find (\<lambda>item. mr_id item = k) (mb_pending b)")
    case (Some br)
    then have "Model_Broker.request_ok br"
      using find_in [OF Some] inv by (simp add: broker_inv_def pending_inv_def)
    then show ?thesis using Some k reason by (simp add: cancel_pending_def record_stale_ok)
  qed (use k reason in \<open>simp add: cancel_pending_def\<close>)
qed

text \<open>
  What another owner of requests does with the same broker: it submits its own requests, takes only
  its own out of the queue, and completes or cancels only its own.  (\<open>mine\<close> are the identifiers the
  owner has.)
\<close>

inductive foreign_step :: "string set \<Rightarrow> model_broker \<Rightarrow> model_broker \<Rightarrow> bool" for mine where
  foreign_submit: "ModelBrokerRequest role p u a ad pl rid sub ctl rep = Inr r \<Longrightarrow>
    foreign_step mine b (snd (broker_submit clk r b))"
| foreign_acquire: "set ids \<inter> mine = {} \<Longrightarrow> foreign_step mine b (snd (acquire_next clk (Some ids) b))"
| foreign_complete: "k \<notin> mine \<Longrightarrow>
    foreign_step mine b (snd (broker_complete clk (PStr k) ad st md fb pr co fi er b))"
| foreign_cancel_inflight: "k \<notin> mine \<Longrightarrow> foreign_step mine b (snd (cancel_inflight clk (PStr k) reason b))"
| foreign_cancel_pending: "k \<notin> mine \<Longrightarrow> foreign_step mine b (snd (cancel_pending (PStr k) reason b))"

lemma foreign_broker_step: "foreign_step mine b b' \<Longrightarrow> broker_step b b'"
  by (cases rule: foreign_step.cases) (auto intro: broker_step.intros)

lemma foreign_effect:
  assumes inv: "broker_inv b" and f: "foreign_step mine b b'"
  shows "(k \<in> mine \<longrightarrow> keeps_place b b' k) \<and> log_ids b \<subseteq> log_ids b'
    \<and> mb_max_inflight_per_uav b' = mb_max_inflight_per_uav b"
  using f
proof cases
  case (foreign_submit role p u a ad pl rid sub ctl rep r clk)
  obtain x b2 where x: "broker_submit clk r b = (x, b2)" by fastforce
  obtain b1 where b1: "displaces r b b1"
    "case x of Inl e \<Rightarrow> b2 = b1 | Inr i \<Rightarrow> b2 = b1\<lparr>mb_pending := mb_pending b1 @ [r]\<rparr>"
    using broker_submit_ok [OF inv ModelBrokerRequest_ok [OF foreign_submit(2)] x] by (cases x) auto
  have "keeps_place b b2 k"
    using b1(2) keeps_place_trans [OF displaces_keeps [OF inv b1(1)] enqueue_keeps] displaces_keeps [OF inv b1(1)]
    by (cases x) auto
  then show ?thesis
    using foreign_submit(1) x b1 displaces_logs [OF b1(1)]
    by (auto simp: displaces_def same_limits_def split: sum.splits)
next
  case (foreign_acquire ids clk)
  from acquire_next_cases [of clk "Some ids" b "fst (acquire_next clk (Some ids) b)" b']
  consider "b' = b" | r t where "r \<in> set (mb_pending b)" "mr_id r \<in> set ids" "b' = start_call r t b"
    using foreign_acquire(1) by auto
  then show ?thesis
  proof cases
    case (2 r t)
    then have "k \<in> mine \<longrightarrow> k \<noteq> mr_id r" using foreign_acquire(2) by auto
    then show ?thesis using start_call_keeps [OF inv 2(1)] 2(3) by (auto simp: start_call_def log_ids_def)
  qed simp
next
  case (foreign_complete k' clk ad st md fb pr co fi er)
  then have ne: "k \<in> mine \<longrightarrow> k \<noteq> k'" by blast
  from broker_complete_cases [OF inv, of clk "PStr k'" ad st md fb pr co fi er
      "fst (broker_complete clk (PStr k') ad st md fb pr co fi er b)" b'] foreign_complete(1)
  consider "b' = b" | "b' = free_slot k' b" | l where "b' = (free_slot k' b)\<lparr>mb_logs := mb_logs b @ [l]\<rparr>" by auto
  then show ?thesis
    by cases (use ne in \<open>auto intro!: keeps_placeI simp: free_slot_def dget_ddel log_ids_def\<close>)
next
  case (foreign_cancel_inflight k' clk reason)
  from cancel_inflight_cases [OF inv, of clk "PStr k'" reason
      "fst (cancel_inflight clk (PStr k') reason b)" b'] foreign_cancel_inflight(1)
  consider "b' = b" | j l where "b' = revoke j l b" by auto
  then show ?thesis by cases (auto intro!: keeps_placeI simp: revoke_def log_ids_def)
next
  case (foreign_cancel_pending k' reason)
  then have "cancel_pending (PStr k') reason b = (fst (cancel_pending (PStr k') reason b), b')" by simp
  from cancel_pending_keeps [OF inv this] show ?thesis by blast
qed

section \<open>The owner's own cancellations\<close>

lemma cancel_inflight_value:
  assumes inv: "broker_inv b" and k: "dget (mb_inflight b) k = Some (r, t)" and reason: "py_strip reason \<noteq> []"
    and clk: "clk = PFloat (Fin now)" "0 \<le> now"
  shows "\<exists>l b'. cancel_inflight clk (PStr k) (PStr reason) b = (Inr l, b') \<and> broker_inv b' \<and> same_limits b b'
    \<and> mb_inflight b' = mb_inflight b \<and> mb_pending b' = mb_pending b \<and> set (mb_logs b) \<subseteq> set (mb_logs b')
    \<and> l \<in> set (mb_logs b') \<and> cl_id l = k \<and> cl_state l = BRS_STALE"
proof -
  note e = inflight_entry [OF inv k]
  have id: "routing_id_match k" using e by (simp add: Model_Broker.request_ok_def)
  have rt: "reason_text (PStr reason) = Inr (py_strip reason)" using reason by (simp add: reason_text_def stripped_text_def)
  show ?thesis
  proof (cases "dget (mb_preempted b) k")
    case (Some l)
    then have "cancel_inflight clk (PStr k) (PStr reason) b = (Inr l, b)"
      using id rt k by (simp add: cancel_inflight_def)
    then show ?thesis using preempted_Some [OF inv Some] inv by (simp add: same_limits_def)
  next
    case None
    let ?l = "stale_record r (py_strip reason) (max 0 (now - t))"
    have "record_stale r (py_strip reason) (max 0 (now - t)) b = (Inr ?l, b\<lparr>mb_logs := mb_logs b @ [?l]\<rparr>)"
      using e(2) by (intro record_stale_ok) auto
    then have c: "cancel_inflight clk (PStr k) (PStr reason) b = (Inr ?l, revoke k ?l b)"
      using id rt k None clk by (simp add: cancel_inflight_def revoke_def)
    have "k \<in> unpreempted b" using k None unfolding unpreempted_eq by (auto simp: preempted_None inflight_ids_def
      dest: map_of_SomeD intro: key_mem)
    then have "broker_inv (revoke k ?l b)" using revoke_inv(1) [OF inv] e(1) by simp
    then show ?thesis using c e(1) by (auto simp: same_limits_def revoke_def)
  qed
qed

lemma cancel_pending_value:
  assumes inv: "broker_inv b" and k: "routing_id_match k" and reason: "py_strip reason \<noteq> []"
  shows "(\<exists>m. k \<notin> mr_id ` set (mb_pending b) \<and> cancel_pending (PStr k) (PStr reason) b = (Inl (ModelRequestBrokerError m), b))
    \<or> (\<exists>r l. r \<in> set (mb_pending b) \<and> mr_id r = k \<and> cl_id l = k \<and> cl_state l = BRS_STALE
        \<and> cancel_pending (PStr k) (PStr reason) b = (Inr (), retire r l b))"
proof -
  have rt: "reason_text (PStr reason) = Inr (py_strip reason)" using reason by (simp add: reason_text_def stripped_text_def)
  show ?thesis
  proof (cases "List.find (\<lambda>item. mr_id item = k) (mb_pending b)")
    case None
    then have "cancel_pending (PStr k) (PStr reason) b = (Inl (ModelRequestBrokerError ''request is not pending''), b)"
      using k rt by (simp add: cancel_pending_def)
    then show ?thesis using None by (auto simp: find_None_iff)
  next
    case (Some r)
    let ?l = "stale_record r (py_strip reason) 0"
    have r: "r \<in> set (mb_pending b)" "mr_id r = k" using find_in [OF Some] by simp_all
    then have "record_stale r (py_strip reason) 0 (b\<lparr>mb_pending := remove1 r (mb_pending b)\<rparr>) = (Inr ?l, retire r ?l b)"
      using inv by (subst record_stale_ok) (auto simp: broker_inv_def pending_inv_def retire_def)
    then have "cancel_pending (PStr k) (PStr reason) b = (Inr (), retire r ?l b)"
      using Some k rt by (simp add: cancel_pending_def)
    then show ?thesis using r by (intro disjI2 exI [of _ r] exI [of _ ?l]) simp
  qed
qed

section \<open>The reasons in the log\<close>

definition reasons_ok :: "model_broker \<Rightarrow> bool" where
  "reasons_ok b \<longleftrightarrow> (\<forall>c\<in>set (mb_logs b). \<forall>s. cl_stale_reason c = Some s \<longrightarrow> py_strip s \<noteq> [])"

lemma reasons_ok_fields [simp]:
  "reasons_ok (b\<lparr>mb_pending := p\<rparr>) = reasons_ok b" "reasons_ok (b\<lparr>mb_inflight := i\<rparr>) = reasons_ok b"
  "reasons_ok (b\<lparr>mb_preempted := q\<rparr>) = reasons_ok b"
  by (simp_all add: reasons_ok_def)

lemma record_stale_reasons:
  "py_strip s \<noteq> [] \<Longrightarrow> reasons_ok b \<Longrightarrow> reasons_ok (snd (record_stale r s l b))"
  unfolding record_stale_def
  by (rule checked_keeps [where P = reasons_ok]) (auto simp: reasons_ok_def ModelCallLogRecord_def rbind_eq_Inr)

lemma unstale_record_reasons:
  "reasons_ok b \<Longrightarrow> ModelCallLogRecord r a s m f l st None p c fi e = Inr x \<Longrightarrow> mb_logs b' = mb_logs b @ [x]
    \<Longrightarrow> reasons_ok b'"
  by (auto simp: reasons_ok_def ModelCallLogRecord_def rbind_eq_Inr)

lemma broker_reasons:
  "py_strip ''PREEMPTED_BY_HIGHER_PRIORITY'' \<noteq> []" "py_strip ''SUPERSEDED_BY_NEWER_FRAME'' \<noteq> []"
  "py_strip ''EVICTED_BY_HIGHER_PRIORITY'' \<noteq> []"
  by code_simp+

lemma preempt_loop_reasons: "reasons_ok b \<Longrightarrow> reasons_ok (snd (preempt_loop request now b))"
proof (induction request now b rule: preempt_loop.induct)
  case (1 request now b)
  show ?case
  proof (cases "preempt_candidates request b")
    case (Cons c cs)
    let ?v = "max_by preempt_key c cs"
    obtain x b' where st: "record_stale (fst (snd ?v)) ''PREEMPTED_BY_HIGHER_PRIORITY'' (max 0 (now - snd (snd ?v))) b = (x, b')"
      by fastforce
    have ok: "reasons_ok b'" using record_stale_reasons [OF broker_reasons(1) "1.prems"] st by (metis snd_conv)
    show ?thesis
    proof (cases x)
      case (Inr l)
      then show ?thesis
        using "1.IH" [OF Cons refl st [unfolded Inr, symmetric] refl] ok st Cons by (subst preempt_loop.simps) simp
    qed (use Cons st ok in \<open>subst preempt_loop.simps; simp\<close>)
  qed (use "1.prems" in \<open>subst preempt_loop.simps; simp\<close>)
qed

lemma submit_reasons:
  assumes "reasons_ok b"
  shows "reasons_ok (snd (broker_submit clk r b))"
proof -
  have 1: "reasons_ok (snd (submit_replace r b))" if "reasons_ok b" for b
    unfolding submit_replace_def using that
    by (auto intro!: andthen_keeps [where P = reasons_ok] record_stale_reasons broker_reasons split: option.splits)
  have 2: "reasons_ok (snd (submit_evict r b))" if "reasons_ok b" for b
    unfolding submit_evict_def Let_def using that
    by (auto intro!: andthen_keeps [where P = reasons_ok] record_stale_reasons broker_reasons split: list.splits)
  have 3: "reasons_ok (snd (preempt_replaceable_inflight_for_urgent clk r b))" if "reasons_ok b" for b
    unfolding preempt_replaceable_inflight_for_urgent_def using that preempt_loop_reasons
    by (auto intro!: checked_keeps [where P = reasons_ok])
  show ?thesis
  proof (cases "id_in_use (mr_id r) b")
    case False
    show ?thesis
      unfolding broker_submit_def if_not_P [OF False]
      by (rule andthen_keeps [where P = reasons_ok], rule 1 [OF assms], rule andthen_keeps [where P = reasons_ok],
          erule 2, rule andthen_keeps [where P = reasons_ok], erule 3) (simp add: reasons_ok_def)
  qed (simp add: broker_submit_def assms)
qed

lemma complete_reasons:
  assumes ok: "reasons_ok b"
  shows "reasons_ok (snd (broker_complete clk rv ad st md fb pr co fi er b))"
  unfolding broker_complete_def
proof (rule checked_keeps [where P = reasons_ok], rule ok)
  fix k
  obtain p q where pq: "dget (mb_inflight b) k = p" "dget (mb_preempted b) k = q" by blast
  show "reasons_ok (snd (case dget (mb_inflight b) k of
        None \<Rightarrow> (Inl (ModelRequestBrokerError ''request is not inflight''), b)
      | Some (request, started_at) \<Rightarrow>
          let b = b\<lparr>mb_inflight := ddel (mb_inflight b) k\<rparr>
          in (case dget (mb_preempted b) k of
               Some preempted \<Rightarrow> (Inr preempted, b\<lparr>mb_preempted := ddel (mb_preempted b) k\<rparr>)
             | None \<Rightarrow>
                 checked b (finite_nonnegative clk ''clock result'') (\<lambda>now.
                 checked b (ModelCallLogRecord request
                     (if py_truthy ad then ad else opt_pyval PStr (mr_adapter request))
                     st md fb (PFloat (Fin (max 0 (now - started_at))))
                     (if py_truthy er then BRS_FAILED else BRS_COMPLETED) None pr co fi er) (\<lambda>record.
                   (Inr record, b\<lparr>mb_logs := mb_logs b @ [record]\<rparr>))))))"
  proof (cases p)
    case (Some e)
    obtain r t where e: "e = (r, t)" by fastforce
    show ?thesis
    proof (cases q)
      case None
      have pre: "mb_preempted (b\<lparr>mb_inflight := i\<rparr>) = mb_preempted b" for i by simp
      show ?thesis
        unfolding pq Some e option.case prod.case Let_def pre None
        by (rule checked_keeps [where P = reasons_ok], simp add: ok, rule checked_keeps [where P = reasons_ok],
            simp add: ok, erule unstale_record_reasons [OF ok]) simp
    qed (simp add: pq Some e ok)
  qed (simp add: pq ok)
qed

lemma stripped_again: "reason_text v = Inr s \<Longrightarrow> py_strip s \<noteq> []"
  by (auto simp: reason_text_def stripped_text_Inr)

lemma broker_step_reasons: "broker_step b b' \<Longrightarrow> reasons_ok b \<Longrightarrow> reasons_ok b'"
proof (induction rule: broker_step.induct)
  case (step_submit role p u a ad pl rid sub ctl rep r b clk)
  then show ?case by (simp add: submit_reasons)
next
  case (step_acquire b clk ids)
  then show ?case
    using acquire_next_cases [of clk ids b "fst (acquire_next clk ids b)" "snd (acquire_next clk ids b)"]
    by (auto simp: start_call_def)
next
  case (step_complete b clk rv ad st md fb pr co fi er)
  then show ?case by (rule complete_reasons)
next
  case (step_cancel_inflight b clk rv reason)
  then show ?case
    unfolding cancel_inflight_def
    by (auto intro!: checked_keeps [where P = reasons_ok] andthen_keeps [where P = reasons_ok] record_stale_reasons
        split: option.splits dest: stripped_again)
next
  case (step_cancel_pending b rv reason)
  then show ?case
    unfolding cancel_pending_def
    by (auto intro!: checked_keeps [where P = reasons_ok] andthen_keeps [where P = reasons_ok] record_stale_reasons
        split: option.splits dest: stripped_again)
qed

end
