(* ===== verification/Py_Ledger.thy ===== *)
theory Py_Ledger
  imports Py_Containers "HOL-Library.Multiset"
begin

text \<open>
  Accounting: what enters a component leaves it, stays in it or is counted as lost.  The locale
  \<open>ledger\<close> is the contract of one step and its lemma the balance of a run; the rest are sums over
  the values of a dictionary.
\<close>

section \<open>Sums over a dictionary\<close>

definition dsum :: "('v \<Rightarrow> 'a::comm_monoid_add) \<Rightarrow> ('k \<times> 'v) list \<Rightarrow> 'a" where
  "dsum f d = sum_list (map (\<lambda>e. f (snd e)) d)"

lemma dsum_dset: "dget d k = Some v \<Longrightarrow> dsum f (dset d k v') + f v = dsum f d + f v'"
  by (induction d) (auto simp: dsum_def ac_simps split: if_splits)

lemma dsum_const: "(\<And>e. e \<in> set d \<Longrightarrow> f (snd e) = 0) \<Longrightarrow> dsum f d = 0"
  by (induction d) (auto simp: dsum_def)

lemma dkeys_dset_mem: "k \<in> set (dkeys d) \<Longrightarrow> dkeys (dset d k v) = dkeys d"
  by (simp add: dset_keys)

lemma mset_dkeys_ddel:
  "dict_ok d \<Longrightarrow> k \<in> set (dkeys d) \<Longrightarrow> mset (dkeys d) = add_mset k (mset (dkeys (ddel d k)))"
proof (induction d)
  case (Cons e d)
  then show ?case by (cases e; cases "fst e = k") (auto simp: ddel_absent image_iff)
qed simp

section \<open>Balances\<close>

locale ledger =
  fixes step :: "'s \<Rightarrow> 'n \<Rightarrow> 's \<Rightarrow> bool"
    and sound :: "'s \<Rightarrow> bool"
    and content :: "'s \<Rightarrow> 'a multiset"
    and lost :: "'s \<Rightarrow> nat"
    and came went :: "'n \<Rightarrow> 'a multiset"
  assumes step_sound: "sound s \<Longrightarrow> step s n t \<Longrightarrow> sound t"
    and step_balance: "sound s \<Longrightarrow> step s n t \<Longrightarrow>
      \<exists>l. content s + came n = content t + went n + l \<and> lost t = lost s + size l"
begin

definition all_came :: "'n list \<Rightarrow> 'a multiset" where
  "all_came h = sum_list (map came h)"

definition all_went :: "'n list \<Rightarrow> 'a multiset" where
  "all_went h = sum_list (map went h)"

lemma run_sound: "logged_run step s0 h s \<Longrightarrow> sound s0 \<Longrightarrow> sound s"
  by (erule logged_run_invariant [where I = "\<lambda>_ s. sound s"]) (auto intro: step_sound)

theorem run_balance:
  assumes "logged_run step s0 h s" and "sound s0"
  shows "\<exists>l. content s0 + all_came h = content s + all_went h + l \<and> lost s = lost s0 + size l"
  using assms(1)
proof (induction rule: logged_run.induct)
  case logged_start
  show ?case by (rule exI [of _ "{#}"]) (simp add: all_came_def all_went_def)
next
  case (logged_more h s n t)
  obtain l where l: "content s0 + all_came h = content s + all_went h + l" "lost s = lost s0 + size l"
    using logged_more.IH by blast
  obtain m where m: "content s + came n = content t + went n + m" "lost t = lost s + size m"
    using step_balance [OF run_sound [OF logged_more.hyps(1) assms(2)] logged_more.hyps(2)] by blast
  have "content s0 + all_came (h @ [n]) = content s + came n + all_went h + l"
    using l(1) by (simp add: all_came_def ac_simps)
  also have "\<dots> = content t + all_went (h @ [n]) + (l + m)"
    unfolding m(1) by (simp add: all_went_def ac_simps)
  finally show ?case using l(2) m(2) by (intro exI [of _ "l + m"]) simp
qed

end

end
