(* ===== verification/Dispatcher_Delivery.thy ===== *)
theory Dispatcher_Delivery
  imports Request_Dispatcher Broker_View Py_Ledger
begin

text \<open>
  Delivery by the dispatcher of \<open>fleet/model_request_dispatcher.py\<close>, over the models of the broker and
  of the workers: where an owned request is at any time, that every admitted request leaves with one
  result, that servicing never raises, and what goes wrong when the broker grants a vehicle two slots.
\<close>

section \<open>Workers\<close>

text \<open>The identifiers a worker holds: results not yet polled, the call that runs, the next call.\<close>

definition held :: "('m, 'o) worker \<Rightarrow> string list" where
  "held w = map ar_request (aw_completed w)
     @ (case aw_active w of None \<Rightarrow> [] | Some r \<Rightarrow> [aq_request r])
     @ (case aw_pending w of None \<Rightarrow> [] | Some r \<Rightarrow> [aq_request r])"

definition response_ok :: "model_response \<Rightarrow> bool" where
  "response_ok r \<longleftrightarrow> (\<forall>(k, n)\<in>set (rs_usage r). 0 \<le> n)"

fun act_ok :: "thread_act \<Rightarrow> bool" where
  "act_ok (Act_finish (Chat_response r)) = response_ok r"
| "act_ok _ = True"

definition visual_ok :: "string \<Rightarrow> visual_result \<Rightarrow> bool" where
  "visual_ok u x \<longleftrightarrow> async_result_ok x \<and> ar_uav x = u \<and> (\<forall>r. ar_response x = Some r \<longrightarrow> response_ok r)"

definition worker_sound :: "string \<Rightarrow> ('m, 'o) worker \<Rightarrow> bool" where
  "worker_sound u w \<longleftrightarrow> aw_uav w = u \<and> 0 < aw_max w \<and> aw_stale w = {} \<and> length (held w) \<le> 1
     \<and> (\<not> aw_alive w \<longrightarrow> aw_closed w \<and> aw_pending w = None)
     \<and> (\<forall>r. aw_pending w = Some r \<or> aw_active w = Some r \<longrightarrow> async_request_ok r \<and> aq_uav r = u)
     \<and> (\<forall>x\<in>set (aw_completed w). visual_ok u x)"

lemma rmap_range: "rmap f xs = Inr ys \<Longrightarrow> y \<in> set ys \<Longrightarrow> \<exists>x\<in>set xs. f x = Inr y"
  by (induction xs arbitrary: ys) (auto simp: rbind_eq_Inr)

lemma ModelResponse_ok: "ModelResponse c m f u = Inr r \<Longrightarrow> response_ok r"
  by (fastforce simp: ModelResponse_def rbind_eq_Inr response_ok_def int_value_Inr dest: rmap_range
      split: pyval.splits)

lemma usage_count_nonneg: "(\<And>r. response = Some r \<Longrightarrow> response_ok r) \<Longrightarrow> 0 \<le> usage_count response key"
  by (fastforce simp: usage_count_def response_ok_def split: option.splits dest: map_of_SomeD)

lemma thread_apply_sound:
  assumes "worker_sound u w" and "act_ok a"
  shows "worker_sound u (thread_apply a w) \<and> held (thread_apply a w) = held w
    \<and> aw_closed (thread_apply a w) = aw_closed w"
proof (cases a)
  case Act_take
  then show ?thesis
    using assms(1) by (auto simp: worker_sound_def held_def worker_take_def split: option.splits)
next
  case (Act_finish outcome)
  show ?thesis
  proof (cases "aw_active w")
    case None
    then show ?thesis using assms(1) Act_finish by (simp add: worker_finish_def)
  next
    case (Some r)
    then have r: "async_request_ok r" "aq_uav r = u" "aw_stale w = {}" "aw_completed w = []" "aw_pending w = None"
      using assms(1) by (auto simp: worker_sound_def held_def split: option.splits)
    have ids: "ar_request (result_of r outcome s) = aq_request r" "ar_uav (result_of r outcome s) = aq_uav r" for s
      by (simp_all add: result_of_def split: prod.splits)
    have "\<forall>y. ar_response (result_of r outcome s) = Some y \<longrightarrow> response_ok y" for s
      using assms(2) Act_finish by (cases outcome) (auto simp: result_of_def)
    then have "visual_ok u (result_of r outcome s)" for s
      using worker_finish_value(2) [OF Some r(1)] ids r(2) by (simp add: visual_ok_def)
    moreover have "0 < aw_max w" "aw_uav w = u" "\<not> aw_alive w \<longrightarrow> aw_closed w"
      using assms(1) by (simp_all add: worker_sound_def)
    ultimately show ?thesis
      using r Act_finish worker_finish_value(1) [OF Some r(1), of outcome] ids(1)
      by (simp add: worker_sound_def held_def Some push_result_def)
  qed
qed

lemma thread_run_sound:
  assumes "worker_sound u w" and "list_all act_ok acts"
  shows "worker_sound u (thread_run acts w) \<and> held (thread_run acts w) = held w
    \<and> aw_closed (thread_run acts w) = aw_closed w"
  using assms unfolding thread_run_def
proof (induction acts arbitrary: w)
  case (Cons a acts)
  then show ?case using thread_apply_sound [OF Cons.prems(1), of a] by simp
qed simp

text \<open>Polling a worker with one result at most takes the result.\<close>

lemma poll_sound:
  assumes "worker_sound u w"
  obtains (none) "aw_completed w = []" "worker_poll PNone PNone PNone True w = (Inr None, w)"
  | (one) x where "visual_ok u x" "held w = [ar_request x]"
      "worker_poll PNone PNone PNone True w = (Inr (Some x), w\<lparr>aw_completed := []\<rparr>)"
proof (cases "aw_completed w")
  case Nil
  have "w\<lparr>aw_completed := [], aw_discarded := aw_discarded w\<rparr> = w" using Nil by (cases w) simp
  then show ?thesis using none Nil by (simp add: worker_poll_def)
next
  case (Cons x xs)
  then have x: "xs = []" "visual_ok u x" "held w = [ar_request x]"
    using assms by (auto simp: worker_sound_def held_def split: option.splits)
  have "replace_stale x (ar_stale x) = Inr x"
    using x(2) replace_stale_ok [of x "ar_stale x"] by (simp add: visual_ok_def)
  then have "worker_poll PNone PNone PNone True w = (Inr (Some x), w\<lparr>aw_completed := []\<rparr>)"
    using Cons x(1) by (cases w) (simp add: worker_poll_def result_matches_def result_stale_def)
  then show ?thesis using one x by blast
qed

section \<open>The state of the dispatcher\<close>

abbreviation owned :: "('m, 'o) dispatcher \<Rightarrow> string set" where
  "owned d \<equiv> set (dkeys (ds_requests d))"

definition results_sound :: "('m, 'o) dispatcher \<Rightarrow> bool" where
  "results_sound d \<longleftrightarrow> 0 < ds_max d
     \<and> dkeys (ds_results d) = dkeys (ds_workers d) \<and> dkeys (ds_discarded d) = dkeys (ds_workers d)
     \<and> (\<forall>u q. dget (ds_results d) u = Some q \<longrightarrow> length q \<le> ds_max d \<and> (\<forall>x\<in>set q. visual_ok u x))"

definition requests_sound :: "('m, 'o) dispatcher \<Rightarrow> bool" where
  "requests_sound d \<longleftrightarrow> dict_ok (ds_requests d) \<and> ds_dispatched d \<subseteq> owned d
     \<and> (\<forall>k r. dget (ds_requests d) k = Some r \<longrightarrow> k = aq_request r \<and> async_request_ok r
          \<and> aq_uav r \<in> set (dkeys (ds_workers d))
          \<and> placed (ds_broker d) (k \<in> ds_dispatched d) k (aq_uav r))"

text \<open>Every worker holds only dispatched requests of its vehicle; an open dispatcher's workers hold all.\<close>

definition workers_sound :: "('m, 'o) dispatcher \<Rightarrow> bool" where
  "workers_sound d \<longleftrightarrow> dict_ok (ds_workers d)
     \<and> (\<forall>u w. dget (ds_workers d) u = Some w \<longrightarrow> worker_sound u w
          \<and> (\<forall>k\<in>set (held w). k \<in> ds_dispatched d \<and> (\<exists>r. dget (ds_requests d) k = Some r \<and> aq_uav r = u)))
     \<and> (\<not> ds_closed d \<longrightarrow> (\<forall>k\<in>ds_dispatched d. \<forall>r. dget (ds_requests d) k = Some r \<longrightarrow>
          (\<exists>w. dget (ds_workers d) (aq_uav r) = Some w \<and> k \<in> set (held w))))"

definition dispatcher_sound :: "('m, 'o) dispatcher \<Rightarrow> bool" where
  "dispatcher_sound d \<longleftrightarrow> broker_inv (ds_broker d) \<and> mb_max_inflight_per_uav (ds_broker d) = 1
     \<and> results_sound d \<and> requests_sound d \<and> workers_sound d"

lemma owned_request:
  assumes "dispatcher_sound d" and "dget (ds_requests d) k = Some r"
  shows "k = aq_request r" and "async_request_ok r" and "aq_uav r \<in> set (dkeys (ds_workers d))"
    and "placed (ds_broker d) (k \<in> ds_dispatched d) k (aq_uav r)"
  using assms by (simp_all add: dispatcher_sound_def requests_sound_def)

definition schedule_ok :: "schedule \<Rightarrow> bool" where
  "schedule_ok sc \<longleftrightarrow> (\<forall>n. (\<exists>t\<ge>0. sc_clock sc n = PFloat (Fin t)) \<and> list_all act_ok (sc_acts sc n))"

section \<open>Accounting\<close>

definition content_of :: "('m, 'o) dispatcher \<Rightarrow> string multiset" where
  "content_of d = mset (dkeys (ds_requests d)) + dsum (\<lambda>q. mset (map ar_request q)) (ds_results d)"

definition lost_of :: "('m, 'o) dispatcher \<Rightarrow> nat" where
  "lost_of d = dsum id (ds_discarded d)"

definition conserves :: "('m, 'o) dispatcher \<Rightarrow> ('m, 'o) dispatcher \<Rightarrow> bool" where
  "conserves d d' \<longleftrightarrow> (\<exists>l. content_of d = content_of d' + l \<and> lost_of d' = lost_of d + size l)"

lemma conserves_refl [simp]: "conserves d d"
  unfolding conserves_def by (rule exI [of _ "{#}"]) simp

lemma conserves_trans: "conserves a b \<Longrightarrow> conserves b c \<Longrightarrow> conserves a c"
  unfolding conserves_def by (elim exE, rename_tac l m, rule_tac x = "l + m" in exI) (simp add: ac_simps)

section \<open>Delivering one result\<close>

lemma dispatcher_complete_finished:
  assumes "broker_inv (ds_broker d)" and "dget (mb_inflight (ds_broker d)) k = Some (br, t)"
    and "schedule_ok sc" and "0 \<le> p" "0 \<le> c"
  shows "\<exists>l b'. dispatcher_complete sc k (PInt p) (PInt c) fi er d
      = (Inr l, d\<lparr>ds_broker := b', ds_tick := Suc (ds_tick d)\<rparr>) \<and> finished (ds_broker d) k b' \<and> cl_id l = k"
proof -
  obtain now where "sc_clock sc (ds_tick d) = PFloat (Fin now)" "0 \<le> now"
    using assms(3) unfolding schedule_ok_def by blast
  from broker_complete_finished [OF assms(1,2) this assms(4,5), where a = "PStr (as_adapter (ds_adapter d))"
      and s = "PStr (adapter_status_text (as_status (ds_adapter d)))" and m = "PStr (as_model (ds_adapter d))"
      and f = "as_fallback (ds_adapter d)" and fi = fi and er = er]
  show ?thesis by (auto simp: dispatcher_complete_def)
qed

lemma balance_swap:
  fixes q :: "'a multiset"
  assumes "add_mset a q = p + l" and "new + q = old + p"
  shows "add_mset a old = new + l"
proof -
  have "add_mset a old + q = old + p + l" using assms(1) by (simp add: ac_simps)
  also have "\<dots> = new + l + q" using assms(2) by (simp add: ac_simps)
  finally show ?thesis by simp
qed

lemma enqueue_result_sound:
  assumes s: "results_sound d" and u: "ar_uav x \<in> set (dkeys (ds_workers d))" and x: "visual_ok (ar_uav x) x"
  obtains rs ls l where "enqueue_result x d = (Inr (), d\<lparr>ds_results := rs, ds_discarded := ls\<rparr>)"
    and "results_sound (d\<lparr>ds_results := rs, ds_discarded := ls\<rparr>)"
    and "add_mset (ar_request x) (dsum (\<lambda>q. mset (map ar_request q)) (ds_results d))
        = dsum (\<lambda>q. mset (map ar_request q)) rs + l"
    and "dsum id ls = lost_of d + size l"
proof -
  let ?f = "\<lambda>q :: visual_result list. mset (map ar_request q)"
  have keys: "dkeys (ds_results d) = dkeys (ds_workers d)" "dkeys (ds_discarded d) = dkeys (ds_workers d)"
    using s by (simp_all add: results_sound_def)
  obtain q where q: "dget (ds_results d) (ar_uav x) = Some q" using u keys dget_key by metis
  obtain n where n: "dget (ds_discarded d) (ar_uav x) = Some n" using u keys dget_key by metis
  have len: "length q \<le> ds_max d" "0 < ds_max d" "\<forall>y\<in>set q. visual_ok (ar_uav x) y"
    using s q by (auto simp: results_sound_def)
  let ?rs = "dset (ds_results d) (ar_uav x) (push_result (ds_max d) q x)"
  let ?ls = "if ds_max d \<le> length q then dset (ds_discarded d) (ar_uav x) (Suc n) else ds_discarded d"
  let ?l = "if ds_max d \<le> length q then {#ar_request (hd q)#} else {#}"
  have e: "enqueue_result x d = (Inr (), d\<lparr>ds_results := ?rs, ds_discarded := ?ls\<rparr>)"
    by (simp add: enqueue_result_def q n)
  have pushed: "set (push_result (ds_max d) q x) \<subseteq> insert x (set q)" "length (push_result (ds_max d) q x) \<le> ds_max d"
    using results.push_set [OF len(2,1)] results.push_length [OF len(2,1)] by auto
  have "results_sound (d\<lparr>ds_results := ?rs, ds_discarded := ?ls\<rparr>)"
    using s u keys pushed x len(3) unfolding results_sound_def
    by (auto simp: dkeys_dset_mem dget_dset split: if_splits)
  moreover have "add_mset (ar_request x) (?f q) = ?f (push_result (ds_max d) q x) + ?l"
    using len(2) by (cases q) (auto simp: push_result_def)
  then have "add_mset (ar_request x) (dsum ?f (ds_results d)) = dsum ?f ?rs + ?l"
    using dsum_dset [OF q, of ?f "push_result (ds_max d) q x"] by (rule balance_swap)
  moreover have "dsum id ?ls = lost_of d + size ?l"
    using dsum_dset [OF n, of id "Suc n"] by (simp add: lost_of_def)
  ultimately show thesis using that e by blast
qed

text \<open>A request that is not owned any more takes nothing from the others.\<close>

lemma requests_sound_drop:
  assumes "requests_sound d"
    and "ds_requests d' = ddel (ds_requests d) k" "ds_dispatched d' = ds_dispatched d - {k}"
    and "set (dkeys (ds_workers d')) = set (dkeys (ds_workers d))"
    and "\<And>k' r. k' \<noteq> k \<Longrightarrow> dget (ds_requests d) k' = Some r \<Longrightarrow> keeps_place (ds_broker d) (ds_broker d') k'"
  shows "requests_sound d'"
proof -
  have "placed (ds_broker d) b k' u \<Longrightarrow> placed (ds_broker d') b k' u" if "k' \<noteq> k" "dget (ds_requests d) k' = Some r" for k' r b u
    using keeps_placed [OF assms(5) [OF that]] by blast
  then show ?thesis
    using assms(1-4) unfolding requests_sound_def by (auto simp: dget_ddel keys_ddel split: if_splits)
qed

lemma requests_sound_keep:
  assumes "requests_sound d"
    and "ds_requests d' = ds_requests d" "ds_dispatched d' = ds_dispatched d"
    and "set (dkeys (ds_workers d')) = set (dkeys (ds_workers d))"
    and "\<And>k r. dget (ds_requests d) k = Some r \<Longrightarrow> keeps_place (ds_broker d) (ds_broker d') k"
  shows "requests_sound d'"
proof -
  have "placed (ds_broker d) b k u \<Longrightarrow> placed (ds_broker d') b k u" if "dget (ds_requests d) k = Some r" for k r b u
    using keeps_placed [OF assms(5) [OF that]] by blast
  then show ?thesis using assms(1-4) unfolding requests_sound_def by auto
qed

lemma workers_sound_drop:
  assumes "workers_sound d" and "ds_workers d' = ds_workers d" "ds_closed d' = ds_closed d"
    and "ds_requests d' = ddel (ds_requests d) k" "ds_dispatched d' = ds_dispatched d - {k}"
    and "\<And>u w. dget (ds_workers d) u = Some w \<Longrightarrow> k \<notin> set (held w)"
  shows "workers_sound d'"
  using assms unfolding workers_sound_def by (fastforce simp: dget_ddel)

lemma dropped_balance:
  assumes "dict_ok (ds_requests d)" and "dget (ds_requests d) k = Some r"
    and "ds_requests d' = ddel (ds_requests d) k"
    and "add_mset k (dsum (\<lambda>q. mset (map ar_request q)) (ds_results d))
        = dsum (\<lambda>q. mset (map ar_request q)) (ds_results d') + l"
    and "lost_of d' = lost_of d + size l"
  shows "conserves d d'"
proof -
  have "k \<in> owned d" using assms(2) by (rule dget_in_keys)
  then have "content_of d = mset (dkeys (ds_requests d'))
      + add_mset k (dsum (\<lambda>q. mset (map ar_request q)) (ds_results d))"
    unfolding content_of_def using mset_dkeys_ddel [OF assms(1), of k] assms(3) by simp
  also have "\<dots> = content_of d' + l" unfolding assms(4) content_of_def by (simp add: ac_simps)
  finally show ?thesis using assms(5) unfolding conserves_def by blast
qed

text \<open>The soundness of a state does not depend on the records and the counter of readings.\<close>

lemma emit_record_fields [simp]:
  "ds_requests (emit_record c d) = ds_requests d" "ds_dispatched (emit_record c d) = ds_dispatched d"
  "ds_results (emit_record c d) = ds_results d" "ds_discarded (emit_record c d) = ds_discarded d"
  "ds_closed (emit_record c d) = ds_closed d" "ds_max (emit_record c d) = ds_max d"
  "ds_adapter (emit_record c d) = ds_adapter d" "ds_tick (emit_record c d) = ds_tick d"
  by (simp_all add: emit_record_def)

definition same_view :: "('m, 'o) dispatcher \<Rightarrow> ('m, 'o) dispatcher \<Rightarrow> bool" where
  "same_view d d' \<longleftrightarrow> ds_broker d' = ds_broker d \<and> ds_requests d' = ds_requests d
     \<and> ds_dispatched d' = ds_dispatched d \<and> ds_results d' = ds_results d \<and> ds_discarded d' = ds_discarded d
     \<and> ds_workers d' = ds_workers d \<and> ds_max d' = ds_max d \<and> ds_closed d' = ds_closed d"

lemma same_view_emit [simp]: "same_view d (emit_record c d)"
  by (simp add: same_view_def)

lemma same_view_tick [simp]: "same_view d (d\<lparr>ds_tick := n\<rparr>)"
  by (simp add: same_view_def)

lemma same_view_sound:
  assumes "same_view d d'"
  shows "results_sound d' = results_sound d" "requests_sound d' = requests_sound d"
    "workers_sound d' = workers_sound d" "dispatcher_sound d' = dispatcher_sound d"
    "content_of d' = content_of d" "lost_of d' = lost_of d"
  using assms
  by (simp_all add: same_view_def results_sound_def requests_sound_def workers_sound_def dispatcher_sound_def
      content_of_def lost_of_def)

section \<open>The pump\<close>

text \<open>
  Why a pump stops: the slots are taken, no waiting request is eligible, or the request that is next,
  at a reading of the clock, belongs to another owner.
\<close>

definition stalled :: "schedule \<Rightarrow> ('m, 'o) dispatcher \<Rightarrow> bool" where
  "stalled sc d \<longleftrightarrow> mb_max_inflight_global (ds_broker d) \<le> int (length (mb_inflight (ds_broker d)))
     \<or> (\<forall>x\<in>set (mb_pending (ds_broker d)). \<not> eligible (ds_broker d) x)
     \<or> (\<exists>n now y. sc_clock sc n = PFloat (Fin now) \<and> next_request (ds_broker d) now y
          \<and> mr_id y \<notin> owned d)"

lemma deliver_sound:
  assumes r: "results_sound d" "requests_sound d" and k: "dget (ds_requests d) k = Some q"
    and x: "visual_ok (aq_uav q) x" "ar_request x = k"
    and b: "broker_inv (ds_broker d1)" "mb_max_inflight_per_uav (ds_broker d1) = 1"
    and d1: "ds_requests d1 = ddel (ds_requests d) k" "ds_dispatched d1 = ds_dispatched d - {k}"
      "dkeys (ds_workers d1) = dkeys (ds_workers d)" "ds_results d1 = ds_results d"
      "ds_discarded d1 = ds_discarded d" "ds_max d1 = ds_max d"
    and keep: "\<And>k' r. k' \<noteq> k \<Longrightarrow> dget (ds_requests d) k' = Some r \<Longrightarrow> keeps_place (ds_broker d) (ds_broker d1) k'"
    and w: "workers_sound d1"
  shows "\<exists>d'. enqueue_result x d1 = (Inr (), d') \<and> dispatcher_sound d' \<and> conserves d d'
    \<and> ds_closed d' = ds_closed d1 \<and> ds_requests d' = ds_requests d1 \<and> ds_dispatched d' = ds_dispatched d1
    \<and> ds_broker d' = ds_broker d1 \<and> ds_workers d' = ds_workers d1"
proof -
  have "aq_uav q \<in> set (dkeys (ds_workers d))" using r(2) k by (simp add: requests_sound_def)
  then have u: "ar_uav x \<in> set (dkeys (ds_workers d1))" using x d1(3) by (simp add: visual_ok_def)
  have x': "visual_ok (ar_uav x) x" using x by (simp add: visual_ok_def)
  have "results_sound d1" using r(1) d1 by (simp add: results_sound_def)
  from enqueue_result_sound [OF this u x'] obtain rs ls l
    where e: "enqueue_result x d1 = (Inr (), d1\<lparr>ds_results := rs, ds_discarded := ls\<rparr>)"
      and rs: "results_sound (d1\<lparr>ds_results := rs, ds_discarded := ls\<rparr>)"
      and sum: "add_mset (ar_request x) (dsum (\<lambda>q. mset (map ar_request q)) (ds_results d1))
        = dsum (\<lambda>q. mset (map ar_request q)) rs + l" and lost: "dsum id ls = lost_of d1 + size l" .
  let ?d = "d1\<lparr>ds_results := rs, ds_discarded := ls\<rparr>"
  have "requests_sound ?d"
    by (rule requests_sound_drop [OF r(2), where k = k]) (use d1 keep in simp_all)
  moreover have "workers_sound ?d" using w by (simp add: workers_sound_def)
  ultimately have "dispatcher_sound ?d" using b rs by (simp add: dispatcher_sound_def)
  moreover have "conserves d ?d"
    by (rule dropped_balance [OF _ k, where l = l])
      (use r(2) d1 sum lost x in \<open>simp_all add: requests_sound_def lost_of_def\<close>)
  ultimately show ?thesis using e by auto
qed

lemma synthetic_ok:
  assumes "async_request_ok r" and "code \<noteq> []"
  shows "\<exists>x. synthetic_result r code message stale = Inr x \<and> visual_ok (aq_uav r) x \<and> ar_request x = aq_request r"
  using assms by (simp add: synthetic_result_def AsyncModelResult_def async_request_ok_def visual_ok_def
      async_result_ok_def)

text \<open>What one step of the service does to a sound state.\<close>

definition undispatched :: "('m, 'o) dispatcher \<Rightarrow> string set" where
  "undispatched d = owned d - ds_dispatched d"

text \<open>No one else uses the broker.\<close>

definition alone :: "('m, 'o) dispatcher \<Rightarrow> bool" where
  "alone d \<longleftrightarrow> mr_id ` set (mb_pending (ds_broker d)) \<subseteq> owned d \<and> inflight_ids (ds_broker d) \<subseteq> ds_dispatched d"

definition served :: "('m, 'o) dispatcher \<Rightarrow> ('m, 'o) dispatcher \<Rightarrow> bool" where
  "served d d' \<longleftrightarrow> dispatcher_sound d' \<and> conserves d d' \<and> ds_closed d' = ds_closed d
     \<and> dkeys (ds_workers d') = dkeys (ds_workers d) \<and> owned d' \<subseteq> owned d
     \<and> owned d - owned d' \<subseteq> log_ids (ds_broker d') \<and> log_ids (ds_broker d) \<subseteq> log_ids (ds_broker d')
     \<and> undispatched d' \<subseteq> undispatched d \<and> (alone d \<longrightarrow> alone d')"

lemma served_refl: "dispatcher_sound d \<Longrightarrow> served d d"
  by (simp add: served_def)

lemma served_trans: "served a b \<Longrightarrow> served b c \<Longrightarrow> served a c"
  unfolding served_def by (elim conjE, intro conjI) (blast intro: conserves_trans | simp)+

lemma served_view: "same_view d d' \<Longrightarrow> served a d \<Longrightarrow> served a d'"
  by (simp add: served_def same_view_sound conserves_def) (simp add: same_view_def alone_def undispatched_def)

lemma submit_failed_served:
  assumes s: "dispatcher_sound d" and k: "dget (ds_requests d) k = Some r" "k \<notin> ds_dispatched d"
    and b: "broker_inv b" "mb_max_inflight_per_uav b = 1" "dget (mb_inflight b) k = Some (br, t)"
    and keep: "\<And>k' r. k' \<noteq> k \<Longrightarrow> dget (ds_requests d) k' = Some r \<Longrightarrow> keeps_place (ds_broker d) b k'"
    and log: "log_ids (ds_broker d) \<subseteq> log_ids b"
    and alone: "alone d \<Longrightarrow> mr_id ` set (mb_pending b) \<subseteq> owned d - {k} \<and> inflight_ids b \<subseteq> insert k (ds_dispatched d)"
    and w: "workers_sound (d\<lparr>ds_workers := ws\<rparr>)" "dkeys ws = dkeys (ds_workers d)"
      "\<And>u w. dget ws u = Some w \<Longrightarrow> k \<notin> set (held w)"
    and sc: "schedule_ok sc"
  shows "\<exists>d'. submit_failed sc r e (d\<lparr>ds_broker := b, ds_dispatched := insert k (ds_dispatched d),
      ds_workers := ws, ds_tick := n\<rparr>) = (Inr (), d') \<and> served d d' \<and> k \<notin> owned d'"
proof -
  have r: "k = aq_request r" "async_request_ok r" using s k(1) by (auto simp: dispatcher_sound_def requests_sound_def)
  let ?d = "d\<lparr>ds_broker := b, ds_workers := ws, ds_tick := n,
     ds_requests := ddel (ds_requests d) k\<rparr>"
  have start: "(d\<lparr>ds_broker := b, ds_dispatched := insert k (ds_dispatched d), ds_workers := ws, ds_tick := n\<rparr>)
      \<lparr>ds_dispatched := ds_dispatched (d\<lparr>ds_broker := b, ds_dispatched := insert k (ds_dispatched d),
          ds_workers := ws, ds_tick := n\<rparr>) - {k},
        ds_requests := ddel (ds_requests (d\<lparr>ds_broker := b, ds_dispatched := insert k (ds_dispatched d),
          ds_workers := ws, ds_tick := n\<rparr>)) k\<rparr> = ?d"
    using k(2) by simp
  obtain l b' where c: "dispatcher_complete sc k (PInt 0) (PInt 0) PNone (PStr ''WORKER_SUBMIT_FAILED'') ?d
      = (Inr l, ?d\<lparr>ds_broker := b', ds_tick := Suc n\<rparr>)" and fin: "finished b k b'" and l: "cl_id l = k"
    using dispatcher_complete_finished [of ?d k br t sc 0 0 PNone "PStr ''WORKER_SUBMIT_FAILED''"] b sc by auto
  let ?d1 = "?d\<lparr>ds_broker := b', ds_tick := Suc n\<rparr>"
  obtain x where x: "synthetic_result r ''MODEL_REQUEST_FAILED'' (exn_class e) False = Inr x"
      "visual_ok (aq_uav r) x" "ar_request x = k"
    using synthetic_ok [OF r(2), of "''MODEL_REQUEST_FAILED''"] r(1) by auto
  have "workers_sound ?d1"
    by (rule workers_sound_drop [OF w(1), where k = k]) (use k(2) w(3) in auto)
  moreover have "keeps_place (ds_broker d) (ds_broker ?d1) k'" if "k' \<noteq> k" "dget (ds_requests d) k' = Some r'" for k' r'
    using keeps_place_trans [OF keep [OF that] finished_keeps [OF fin that(1)]] by simp
  ultimately obtain d' where e: "enqueue_result x ?d1 = (Inr (), d')" and d': "dispatcher_sound d'" "conserves d d'"
      "ds_closed d' = ds_closed d" "ds_requests d' = ddel (ds_requests d) k" "ds_broker d' = b'" "ds_workers d' = ws"
      "ds_dispatched d' = ds_dispatched d"
    using deliver_sound [of d k r x ?d1] s k x(2,3) b(2) w(2) fin
    by (auto simp: dispatcher_sound_def finished_def same_limits_def)
  have "log_ids b \<subseteq> log_ids b'" "k \<in> log_ids b'" using fin by (auto simp: finished_def log_ids_def)
  moreover have "alone d \<longrightarrow> alone d'"
  proof
    assume "alone d"
    with alone fin show "alone d'"
      by (auto simp: alone_def d' finished_def keys_ddel inflight_ids_def ddel_filter)
  qed
  ultimately have "served d d'" using d' w(2) log by (auto simp: served_def keys_ddel undispatched_def)
  then have "served d (emit_record l d')" by (rule served_view [OF same_view_emit])
  moreover have "k \<notin> owned (emit_record l d')" using d'(4) by (simp add: keys_ddel)
  ultimately show ?thesis
    unfolding submit_failed_def Let_def r(1) [symmetric] start using c x(1) e by simp
qed

text \<open>A request that gets a slot: the others keep their place, and its vehicle's worker is idle.\<close>

lemma idle_worker:
  assumes s: "dispatcher_sound d" and w: "dget (ds_workers d) u = Some w"
    and br: "eligible (ds_broker d) br" "mr_uav br = Some u"
  shows "held w = []"
proof (rule ccontr)
  assume "held w \<noteq> []"
  then obtain k where "k \<in> set (held w)" by (cases "held w") auto
  then obtain r where k: "k \<in> ds_dispatched d" "dget (ds_requests d) k = Some r" "aq_uav r = u"
    using s w unfolding dispatcher_sound_def workers_sound_def by blast
  then have "slot_of (ds_broker d) k u"
    using s unfolding dispatcher_sound_def requests_sound_def placed_def by metis
  then show False using eligible_free [OF br] s by (auto simp: dispatcher_sound_def)
qed

lemma pending_owned:
  assumes s: "dispatcher_sound d" and br: "br \<in> set (mb_pending (ds_broker d))"
    and k: "dget (ds_requests d) (mr_id br) = Some r"
  shows "mr_id br \<notin> ds_dispatched d" and "mr_uav br = Some (aq_uav r)"
proof -
  have inv: "pending_inv (ds_broker d)" using s by (simp add: dispatcher_sound_def broker_inv_def)
  then have no: "mr_id br \<notin> inflight_ids (ds_broker d)" "mr_id br \<notin> log_ids (ds_broker d)"
    using br by (auto simp: pending_inv_def)
  have p: "placed (ds_broker d) (mr_id br \<in> ds_dispatched d) (mr_id br) (aq_uav r)"
    using s k by (auto simp: dispatcher_sound_def requests_sound_def)
  have "\<not> slot_of (ds_broker d) (mr_id br) (aq_uav r)"
    using no(1) by (auto simp: slot_of_def inflight_ids_def dest: map_of_SomeD intro: key_mem)
  then show u: "mr_id br \<notin> ds_dispatched d" using p by (auto simp: placed_def)
  have "\<not> dropped_by (ds_broker d) (mr_id br)" using no(2) by (force simp: dropped_by_def log_ids_def)
  then obtain y where y: "y \<in> set (mb_pending (ds_broker d))" "mr_id y = mr_id br" "mr_uav y = Some (aq_uav r)"
    using p u by (auto simp: placed_def waiting_at_def)
  have "y = br" using distinct_key_eq [OF _ y(1) br y(2)] inv by (simp add: pending_inv_def)
  then show "mr_uav br = Some (aq_uav r)" using y(3) by simp
qed

lemma workers_soundI:
  assumes "dict_ok (ds_workers d)"
    and "\<And>u w. dget (ds_workers d) u = Some w \<Longrightarrow> worker_sound u w \<and> (\<forall>k\<in>set (held w). k \<in> ds_dispatched d
      \<and> (\<exists>r. dget (ds_requests d) k = Some r \<and> aq_uav r = u))"
    and "\<And>k r. \<not> ds_closed d \<Longrightarrow> k \<in> ds_dispatched d \<Longrightarrow> dget (ds_requests d) k = Some r \<Longrightarrow>
      \<exists>w. dget (ds_workers d) (aq_uav r) = Some w \<and> k \<in> set (held w)"
  shows "workers_sound d"
  using assms unfolding workers_sound_def by blast

lemma workers_sound_set:
  assumes "workers_sound d" and "worker_sound u w" "held w = []" and "u \<in> set (dkeys (ds_workers d))"
    and "\<And>v. dget (ds_workers d) u = Some v \<Longrightarrow> held v = []"
  shows "workers_sound (d\<lparr>ds_workers := dset (ds_workers d) u w\<rparr>)"
proof -
  have "worker_sound v w' \<and> (\<forall>k\<in>set (held w'). k \<in> ds_dispatched d
      \<and> (\<exists>r. dget (ds_requests d) k = Some r \<and> aq_uav r = v))"
    if "dget (dset (ds_workers d) u w) v = Some w'" for v w'
    using that assms(1-3) unfolding workers_sound_def by (cases "v = u") (auto simp: dget_dset)
  moreover have "\<exists>w'. dget (dset (ds_workers d) u w) (aq_uav r) = Some w' \<and> k \<in> set (held w')"
    if k: "\<not> ds_closed d" "k \<in> ds_dispatched d" "dget (ds_requests d) k = Some r" for k r
  proof -
    obtain v where v: "dget (ds_workers d) (aq_uav r) = Some v" "k \<in> set (held v)"
      using assms(1) k unfolding workers_sound_def by blast
    then have "aq_uav r \<noteq> u" using assms(5) by force
    then show ?thesis using v by (auto simp: dget_dset)
  qed
  ultimately show ?thesis using assms(1) unfolding workers_sound_def by simp
qed

lemma workers_sound_add:
  assumes s: "workers_sound d" and k: "k \<notin> ds_dispatched d"
    and d': "ds_workers d' = ds_workers d" "ds_dispatched d' = ds_dispatched d" "ds_closed d' = ds_closed d"
      "ds_requests d' = dset (ds_requests d) k r"
  shows "workers_sound d'"
proof (rule workers_soundI)
  have same: "dget (ds_requests d') k' = dget (ds_requests d) k'" if "k' \<in> ds_dispatched d" for k'
    using that k by (auto simp: d' dget_dset)
  fix u w assume "dget (ds_workers d') u = Some w"
  then have "worker_sound u w" "\<forall>k'\<in>set (held w). k' \<in> ds_dispatched d
      \<and> (\<exists>r. dget (ds_requests d) k' = Some r \<and> aq_uav r = u)"
    using s unfolding d' workers_sound_def by blast+
  then show "worker_sound u w \<and> (\<forall>k'\<in>set (held w). k' \<in> ds_dispatched d'
      \<and> (\<exists>r. dget (ds_requests d') k' = Some r \<and> aq_uav r = u))"
    using same d'(2) by metis
next
  fix k' q assume "\<not> ds_closed d'" "k' \<in> ds_dispatched d'" "dget (ds_requests d') k' = Some q"
  moreover from this have "dget (ds_requests d) k' = Some q" using k by (auto simp: d' dget_dset split: if_splits)
  ultimately show "\<exists>w. dget (ds_workers d') (aq_uav q) = Some w \<and> k' \<in> set (held w)"
    using s unfolding d' workers_sound_def by blast
qed (use s in \<open>simp add: d' workers_sound_def\<close>)

lemma dispatched_sound:
  assumes s: "dispatcher_sound d" and k: "dget (ds_requests d) k = Some r" "k \<notin> ds_dispatched d"
    and b: "broker_inv b" "mb_max_inflight_per_uav b = 1" "slot_of b k (aq_uav r)"
    and keep: "\<And>k' r. k' \<noteq> k \<Longrightarrow> dget (ds_requests d) k' = Some r \<Longrightarrow> keeps_place (ds_broker d) b k'"
    and w: "worker_sound (aq_uav r) w" "held w = [k]"
      "\<And>v. dget (ds_workers d) (aq_uav r) = Some v \<Longrightarrow> held v = []"
  shows "dispatcher_sound (d\<lparr>ds_broker := b, ds_dispatched := insert k (ds_dispatched d),
      ds_workers := dset (ds_workers d) (aq_uav r) w, ds_tick := n\<rparr>)" (is "dispatcher_sound ?d")
proof -
  have r: "results_sound d" "requests_sound d" "workers_sound d" using s by (simp_all add: dispatcher_sound_def)
  have u: "aq_uav r \<in> set (dkeys (ds_workers d))" using r(2) k(1) by (simp add: requests_sound_def)
  have rs: "results_sound ?d" using r(1) u by (simp add: results_sound_def dkeys_dset_mem)
  have "k \<in> owned d" using k(1) by (rule dget_in_keys)
  moreover have "placed b (k' \<in> insert k (ds_dispatched d)) k' (aq_uav r')"
    if "dget (ds_requests d) k' = Some r'" for k' r'
  proof (cases "k' = k")
    case False
    then show ?thesis
      using that r(2) keeps_placed [OF keep [OF False that]] by (auto simp: requests_sound_def)
  qed (use that k b(3) in \<open>simp add: placed_def\<close>)
  ultimately have rq: "requests_sound ?d"
    using r(2) u unfolding requests_sound_def by (simp add: dkeys_dset_mem)
  have "dict_ok (ds_workers ?d)" using r(3) by (simp add: workers_sound_def)
  moreover have "worker_sound v w' \<and> (\<forall>k'\<in>set (held w'). k' \<in> insert k (ds_dispatched d)
      \<and> (\<exists>r. dget (ds_requests d) k' = Some r \<and> aq_uav r = v))"
    if "dget (dset (ds_workers d) (aq_uav r) w) v = Some w'" for v w'
    using that r(3) w(1,2) k(1) unfolding workers_sound_def by (cases "v = aq_uav r") (auto simp: dget_dset)
  moreover have "\<exists>w'. dget (dset (ds_workers d) (aq_uav r) w) (aq_uav r') = Some w' \<and> k' \<in> set (held w')"
    if op: "\<not> ds_closed d" and k': "k' \<in> insert k (ds_dispatched d)" "dget (ds_requests d) k' = Some r'" for k' r'
  proof (cases "k' = k")
    case False
    then obtain v where v: "dget (ds_workers d) (aq_uav r') = Some v" "k' \<in> set (held v)"
      using r(3) op k' unfolding workers_sound_def by blast
    then have "aq_uav r' \<noteq> aq_uav r" using w(3) by force
    then show ?thesis using v by (auto simp: dget_dset)
  qed (use k' k(1) w(2) in \<open>auto simp: dget_dset\<close>)
  ultimately have "workers_sound ?d" unfolding workers_sound_def by simp
  then show ?thesis using b rs rq by (simp add: dispatcher_sound_def)
qed

lemma pump_one_served:
  assumes s: "dispatcher_sound d" and sc: "schedule_ok sc"
  shows "\<exists>again d'. pump_one sc d = (Inr again, d') \<and> served d d' \<and> (\<not> again \<longrightarrow> stalled sc d \<and> stalled sc d')
    \<and> (again \<longrightarrow> undispatched d' \<subset> undispatched d)"
proof -
  let ?b = "ds_broker d" and ?ids = "dkeys (ds_requests d)"
  have inv: "broker_inv ?b" "mb_max_inflight_per_uav ?b = 1" and ws: "workers_sound d"
    using s by (simp_all add: dispatcher_sound_def)
  obtain now where clk: "sc_clock sc (ds_tick d) = PFloat (Fin now)" "0 \<le> now"
    using sc unfolding schedule_ok_def by blast
  consider (none) "acquire_next (sc_clock sc (ds_tick d)) (Some ?ids) ?b = (Inr None, ?b)" "stalled sc d"
    | (got) br t where "acquire_next (sc_clock sc (ds_tick d)) (Some ?ids) ?b = (Inr (Some br), start_call br t ?b)"
        "br \<in> set (mb_pending ?b)" "eligible ?b br" "mr_id br \<in> owned d"
        "int (length (mb_inflight ?b)) < mb_max_inflight_global ?b"
    using acquire_next_value [OF clk, of ?ids ?b] clk(1) unfolding stalled_def by blast
  then show ?thesis
  proof cases
    case none
    then show ?thesis
      using served_view [OF same_view_tick served_refl [OF s], of "Suc (ds_tick d)"]
      by (intro exI [of _ False]) (simp add: pump_one_def stalled_def)
  next
    case got
    let ?k = "mr_id br" and ?b' = "start_call br t ?b"
    obtain r where r: "dget (ds_requests d) ?k = Some r" using dget_key [OF got(4)] by blast
    note own = pending_owned [OF s got(2) r]
    have rk: "?k = aq_request r" "async_request_ok r" "aq_uav r \<in> set (dkeys (ds_workers d))"
      using s r by (auto simp: dispatcher_sound_def requests_sound_def)
    obtain w where w: "dget (ds_workers d) (aq_uav r) = Some w" using dget_key [OF rk(3)] by blast
    have idle: "held w = []" using idle_worker [OF s w got(3) own(2)] .
    let ?w = "thread_run (sc_acts sc (Suc (ds_tick d))) w"
    have w': "worker_sound (aq_uav r) ?w" "held ?w = []"
      using thread_run_sound [of "aq_uav r" w] ws w sc idle by (auto simp: workers_sound_def schedule_ok_def)
    have keep: "keeps_place ?b ?b' k'" if "k' \<noteq> ?k" for k'
      by (rule start_call_keeps [OF inv(1) got(2) that])
    have b': "broker_inv ?b'" "mb_max_inflight_per_uav ?b' = 1" "log_ids ?b' = log_ids ?b"
        "dget (mb_inflight ?b') ?k = Some (br, t)"
      using start_call_inv(1) [OF inv(1) got(2,3,5)] inv(2) by (simp_all add: start_call_def log_ids_def dget_dset)
    then have slot: "slot_of ?b' ?k (aq_uav r)" using own(2) by (auto simp: slot_of_def)
    have al: "mr_id ` set (mb_pending ?b') \<subseteq> owned d - {?k} \<and> inflight_ids ?b' \<subseteq> insert ?k (ds_dispatched d)"
      if "alone d"
    proof -
      have "distinct (map mr_id (mb_pending ?b))" using inv(1) by (simp add: broker_inv_def pending_inv_def)
      from distinct_remove1_ids [OF this, of br] that show ?thesis
        using distinct_key_eq [OF \<open>distinct _\<close> _ got(2)] by (auto simp: alone_def start_call_def inflight_ids_def dset_keys)
    qed
    have und: "?k \<in> undispatched d" using got(4) own(1) by (simp add: undispatched_def)
    have uav: "aq_uav r = aw_uav ?w" using w'(1) by (simp add: worker_sound_def)
    let ?w1 = "snd (worker_submit r ?w)"
    let ?d1 = "d\<lparr>ds_broker := ?b', ds_dispatched := insert ?k (ds_dispatched d),
        ds_workers := dset (ds_workers d) (aq_uav r) ?w1, ds_tick := Suc (Suc (ds_tick d))\<rparr>"
    show ?thesis
    proof (cases "aw_closed ?w")
      case False
      then have sub: "worker_submit r ?w = (Inr (), ?w1)" "?w1 = ?w\<lparr>aw_pending := Some r\<rparr>"
        using uav w'(2) by (auto simp: worker_submit_def held_def split: option.splits)
      then have "worker_sound (aq_uav r) ?w1" "held ?w1 = [?k]"
        using w' rk False by (auto simp: worker_sound_def held_def split: option.splits)
      then have "dispatcher_sound ?d1"
        using dispatched_sound [OF s r own(1) b'(1,2) slot] keep w idle by simp
      moreover have "conserves d ?d1"
        unfolding conserves_def by (rule exI [of _ "{#}"]) (simp add: content_of_def lost_of_def)
      moreover have "alone d \<longrightarrow> alone ?d1" using al by (auto simp: alone_def)
      moreover have less: "undispatched ?d1 \<subset> undispatched d" using und by (auto simp: undispatched_def)
      ultimately have "served d ?d1" using b'(3) rk(3) by (simp add: served_def dkeys_dset_mem psubset_imp_subset)
      moreover have "pump_one sc d = (Inr True, ?d1)"
        using r w sub rk(1) got(1) by (simp add: pump_one_def Let_def)
      ultimately show ?thesis using less by auto
    next
      case True
      then obtain e where sub: "worker_submit r ?w = (Inl e, ?w)"
        using uav by (simp add: worker_submit_def)
      let ?ws = "dset (ds_workers d) (aq_uav r) ?w"
      have "workers_sound (d\<lparr>ds_workers := ?ws\<rparr>)"
        by (rule workers_sound_set [OF ws w' rk(3)]) (use w idle in simp)
      moreover have "?k \<notin> set (held v)" if "dget ?ws u = Some v" for u v
        using that w'(2) ws own(1) unfolding workers_sound_def by (auto simp: dget_dset split: if_splits)
      ultimately obtain d' where "submit_failed sc r e (d\<lparr>ds_broker := ?b', ds_dispatched := insert ?k (ds_dispatched d),
          ds_workers := ?ws, ds_tick := Suc (Suc (ds_tick d))\<rparr>) = (Inr (), d')" "served d d'" "?k \<notin> owned d'"
        using submit_failed_served [OF s r own(1) b'(1,2,4), of ?ws sc e "Suc (Suc (ds_tick d))"] keep b'(3) sc rk(3) al
        by (auto simp: dkeys_dset_mem)
      moreover have "pump_one sc d = andthen (submit_failed sc r e (d\<lparr>ds_broker := ?b',
          ds_dispatched := insert ?k (ds_dispatched d), ds_workers := ?ws, ds_tick := Suc (Suc (ds_tick d))\<rparr>))
          (\<lambda>_ d. (Inr True, d))"
        using r w sub rk(1) got(1) by (simp add: pump_one_def Let_def)
      moreover have "undispatched d' \<subset> undispatched d"
        using und \<open>?k \<notin> owned d'\<close> \<open>served d d'\<close> unfolding served_def undispatched_def by blast
      ultimately show ?thesis by auto
    qed
  qed
qed

lemma dispatcher_pump_served:
  assumes "dispatcher_sound d" and "schedule_ok sc"
  shows "\<exists>d'. dispatcher_pump sc d = (Inr (), d') \<and> served d d' \<and> stalled sc d'"
  using assms
proof (induction sc d rule: dispatcher_pump.induct)
  case (1 sc d)
  obtain again d1 where one: "pump_one sc d = (Inr again, d1)" "served d d1" "\<not> again \<longrightarrow> stalled sc d1"
    using pump_one_served [OF "1.prems"] by blast
  show ?case
  proof (cases again)
    case True
    have "dispatcher_sound d1" using one(2) by (simp add: served_def)
    with True obtain d2 where "dispatcher_pump sc d1 = (Inr (), d2)" "served d1 d2" "stalled sc d2"
      using "1.IH" [OF one(1) [symmetric] refl] "1.prems"(2) by blast
    then show ?thesis
      using one True served_trans [OF one(2)] by (subst dispatcher_pump.simps) simp
  qed (use one in \<open>subst dispatcher_pump.simps; simp\<close>)
qed

section \<open>Collecting\<close>

lemma held_placed:
  assumes s: "dispatcher_sound d" and w: "dget (ds_workers d) u = Some w" and k: "k \<in> set (held w)"
  obtains r br t where "k \<in> ds_dispatched d" "dget (ds_requests d) k = Some r" "aq_uav r = u"
    "dget (mb_inflight (ds_broker d)) k = Some (br, t)"
proof -
  obtain r where r: "k \<in> ds_dispatched d" "dget (ds_requests d) k = Some r" "aq_uav r = u"
    using s w k unfolding dispatcher_sound_def workers_sound_def by blast
  then have "slot_of (ds_broker d) k u"
    using s unfolding dispatcher_sound_def requests_sound_def placed_def by metis
  then show thesis using that r by (auto simp: slot_of_def)
qed

lemma workers_sound_collect:
  assumes s: "workers_sound d" and w: "dget (ds_workers d) u = Some w" "held w = [k]"
    and w': "worker_sound u w'" "held w' = []"
    and d': "ds_workers d' = dset (ds_workers d) u w'" "ds_dispatched d' = ds_dispatched d - {k}"
      "ds_requests d' = ddel (ds_requests d) k" "ds_closed d' = ds_closed d"
  shows "workers_sound d'"
proof -
  have other: "k \<notin> set (held v)" if "dget (ds_workers d) u' = Some v" "u' \<noteq> u" for u' v
    using s w that unfolding workers_sound_def by (metis list.set_intros(1) option.inject)
  have "worker_sound v x \<and> (\<forall>k'\<in>set (held x). k' \<in> ds_dispatched d - {k}
      \<and> (\<exists>r. dget (ddel (ds_requests d) k) k' = Some r \<and> aq_uav r = v))"
    if "dget (dset (ds_workers d) u w') v = Some x" for v x
    using that s w' other unfolding workers_sound_def by (cases "v = u") (auto simp: dget_dset dget_ddel)
  moreover have "\<exists>x. dget (dset (ds_workers d) u w') (aq_uav r) = Some x \<and> k' \<in> set (held x)"
    if k': "\<not> ds_closed d" "k' \<in> ds_dispatched d - {k}" "dget (ddel (ds_requests d) k) k' = Some r" for k' r
  proof -
    have "k' \<noteq> k" "dget (ds_requests d) k' = Some r" using k' by (auto simp: dget_ddel)
    moreover from this obtain v where v: "dget (ds_workers d) (aq_uav r) = Some v" "k' \<in> set (held v)"
      using s k' unfolding workers_sound_def by blast
    ultimately have "aq_uav r \<noteq> u" using w by auto
    then show ?thesis using v by (auto simp: dget_dset)
  qed
  moreover have "dict_ok (ds_workers d)" using s by (simp add: workers_sound_def)
  ultimately show ?thesis by (intro workers_soundI; unfold d'; blast intro: dict_ok_dset)
qed

lemma collect_one_served:
  assumes s: "dispatcher_sound d" and sc: "schedule_ok sc" and u: "u \<in> set (dkeys (ds_workers d))"
  shows "\<exists>again d'. collect_one sc u d = (Inr again, d') \<and> served d d'"
proof -
  have ws: "workers_sound d" using s by (simp add: dispatcher_sound_def)
  obtain w where w: "dget (ds_workers d) u = Some w" using dget_key [OF u] by blast
  let ?w = "thread_run (sc_acts sc (ds_tick d)) w"
  have w': "worker_sound u ?w" "held ?w = held w"
    using thread_run_sound [of u w] ws w sc by (auto simp: workers_sound_def schedule_ok_def)
  from w'(1) show ?thesis
  proof (cases rule: poll_sound)
    case none
    have "workers_sound (d\<lparr>ds_workers := dset (ds_workers d) u ?w\<rparr>)"
      using ws w w' unfolding workers_sound_def by (auto simp: dget_dset split: if_splits)
    then have "dispatcher_sound (d\<lparr>ds_workers := dset (ds_workers d) u ?w\<rparr>)"
      using s u by (simp add: dispatcher_sound_def results_sound_def requests_sound_def dkeys_dset_mem)
    then have "served d (d\<lparr>ds_workers := dset (ds_workers d) u ?w\<rparr>)"
      using u by (simp add: served_def conserves_def content_of_def lost_of_def dkeys_dset_mem alone_def undispatched_def)
    from served_view [OF same_view_tick this] show ?thesis
      using none w by (auto simp: collect_one_def)
  next
    case (one x)
    let ?k = "ar_request x" and ?w1 = "?w\<lparr>aw_completed := []\<rparr>"
    have hw: "held w = [?k]" using one(2) w'(2) by simp
    obtain r br t where r: "?k \<in> ds_dispatched d" "dget (ds_requests d) ?k = Some r" "aq_uav r = u"
        "dget (mb_inflight (ds_broker d)) ?k = Some (br, t)"
      using held_placed [OF s w, of ?k] hw by auto
    then have own: "?k \<in> owned d" using dget_in_keys by metis
    have "length (held ?w) = 1" using one(2) by simp
    have empty: "worker_sound u ?w1" "held ?w1 = []"
      using w'(1) one(2,3) unfolding worker_sound_def
      by (auto simp: held_def worker_poll_def Let_def split: option.splits list.splits)
    let ?d0 = "d\<lparr>ds_workers := dset (ds_workers d) u ?w1, ds_tick := Suc (ds_tick d)\<rparr>"
    have inv: "broker_inv (ds_broker d)" "mb_max_inflight_per_uav (ds_broker d) = 1"
      using s by (simp_all add: dispatcher_sound_def)
    have n: "0 \<le> usage_count (ar_response x) key" for key
      using one(1) by (intro usage_count_nonneg) (simp add: visual_ok_def)
    obtain l b' where c: "dispatcher_complete sc ?k
          (PInt (usage_count (ar_response x) ''prompt_tokens'')) (PInt (usage_count (ar_response x) ''completion_tokens''))
          (case ar_response x of None \<Rightarrow> PNone | Some r \<Rightarrow> opt_pyval PStr (rs_finish r))
          (opt_pyval PStr (ar_error x)) ?d0
        = (Inr l, ?d0\<lparr>ds_broker := b', ds_tick := Suc (Suc (ds_tick d))\<rparr>)"
      and fin: "finished (ds_broker d) ?k b'" and l: "cl_id l = ?k"
      using dispatcher_complete_finished [of ?d0 ?k br t sc, OF _ _ sc n n,
          where fi = "case ar_response x of None \<Rightarrow> PNone | Some r \<Rightarrow> opt_pyval PStr (rs_finish r)"
            and er = "opt_pyval PStr (ar_error x)" and key1 = "''completion_tokens''" and key2 = "''prompt_tokens''"]
        inv(1) r(4) by auto
    let ?d1 = "?d0\<lparr>ds_broker := b', ds_tick := Suc (Suc (ds_tick d)), ds_dispatched := ds_dispatched d - {?k},
        ds_requests := ddel (ds_requests d) ?k\<rparr>"
    let ?x = "x\<lparr>ar_stale := ar_stale x \<or> cl_state l = BRS_STALE\<rparr>"
    have x: "replace_stale x (ar_stale x \<or> cl_state l = BRS_STALE) = Inr ?x"
      by (rule replace_stale_ok) (use one(1) in \<open>simp add: visual_ok_def\<close>)
    have x': "visual_ok (aq_uav r) ?x" "ar_request ?x = ?k"
      using one(1) r(3) by (auto simp: visual_ok_def async_result_ok_def)
    have "workers_sound ?d1" by (rule workers_sound_collect [OF ws w hw empty]) simp_all
    then obtain d' where e: "enqueue_result ?x ?d1 = (Inr (), d')" and d': "dispatcher_sound d'" "conserves d d'"
        "ds_closed d' = ds_closed d" "ds_requests d' = ddel (ds_requests d) ?k" "ds_broker d' = b'"
        "ds_workers d' = dset (ds_workers d) u ?w1" "ds_dispatched d' = ds_dispatched d - {?k}"
      using deliver_sound [of d ?k r ?x ?d1] s r(2) x' fin inv(2) u finished_keeps [OF fin]
      by (auto simp: dispatcher_sound_def finished_def same_limits_def dkeys_dset_mem)
    have "log_ids (ds_broker d) \<subseteq> log_ids b'" "?k \<in> log_ids b'" using fin by (auto simp: finished_def log_ids_def)
    moreover have "alone d \<longrightarrow> alone d'"
    proof
      assume al: "alone d"
      have "?k \<notin> mr_id ` set (mb_pending (ds_broker d))"
        using inv(1) r(4) by (auto simp: broker_inv_def pending_inv_def inflight_ids_def dest: dget_in_keys)
      moreover have "owned d' = owned d - {?k}" "inflight_ids (ds_broker d') = inflight_ids (ds_broker d) - {?k}"
        "mb_pending (ds_broker d') = mb_pending (ds_broker d)"
        using fin by (simp_all add: d' finished_def inflight_ids_def keys_ddel)
      ultimately show "alone d'" using al unfolding alone_def d'(7)
        by (simp add: subset_Diff_insert) blast
    qed
    ultimately have "served d d'" using d' u r(1) by (auto simp: served_def keys_ddel dkeys_dset_mem undispatched_def)
    then have "served d (emit_record l d')" by (rule served_view [OF same_view_emit])
    moreover have "collect_one sc u d = (Inr True, emit_record l d')"
      using w one(3) own r(1) c x e by (simp add: collect_one_def Let_def)
    ultimately show ?thesis by blast
  qed
qed

lemma collect_worker_served:
  assumes "dispatcher_sound d" and "schedule_ok sc" and "u \<in> set (dkeys (ds_workers d))"
  shows "\<exists>d'. collect_worker sc u d = (Inr (), d') \<and> served d d'"
  using assms
proof (induction sc u d rule: collect_worker.induct)
  case (1 sc u d)
  obtain again d1 where one: "collect_one sc u d = (Inr again, d1)" "served d d1"
    using collect_one_served [OF "1.prems"] by blast
  show ?case
  proof (cases again)
    case True
    have "dispatcher_sound d1" "u \<in> set (dkeys (ds_workers d1))"
      using one(2) "1.prems"(3) by (simp_all add: served_def)
    with True obtain d2 where "collect_worker sc u d1 = (Inr (), d2)" "served d1 d2"
      using "1.IH" [OF one(1) [symmetric] refl] "1.prems"(2) by blast
    then show ?thesis
      using one True served_trans [OF one(2)] by (subst collect_worker.simps) simp
  qed (use one in \<open>subst collect_worker.simps; simp\<close>)
qed

lemma collect_workers_served:
  assumes "dispatcher_sound d" and "schedule_ok sc" and "set us \<subseteq> set (dkeys (ds_workers d))"
  shows "\<exists>d'. collect_workers sc us d = (Inr (), d') \<and> served d d'"
  using assms(1,3)
proof (induction us arbitrary: d)
  case (Cons u us)
  obtain d1 where one: "collect_worker sc u d = (Inr (), d1)" "served d d1"
    using collect_worker_served [OF Cons.prems(1) assms(2), of u] Cons.prems(2) by auto
  have "dispatcher_sound d1" "set us \<subseteq> set (dkeys (ds_workers d1))"
    using one(2) Cons.prems(2) by (auto simp: served_def)
  then obtain d2 where "collect_workers sc us d1 = (Inr (), d2)" "served d1 d2" using Cons.IH by blast
  then show ?case using one served_trans by fastforce
qed (simp add: served_refl)

lemma collect_results_served:
  "dispatcher_sound d \<Longrightarrow> schedule_ok sc \<Longrightarrow> \<exists>d'. collect_worker_results sc d = (Inr (), d') \<and> served d d'"
  unfolding collect_worker_results_def by (rule collect_workers_served) simp_all

section \<open>Reconciling\<close>

lemma stale_by_id_Some:
  assumes "stale_by_id logs k = Some c"
  shows "c \<in> set logs \<and> cl_id c = k \<and> cl_state c = BRS_STALE"
  using assms unfolding stale_by_id_def by (auto dest!: map_of_SomeD)

lemma stale_by_id_None: "stale_by_id logs k = None \<longleftrightarrow> (\<forall>c\<in>set logs. cl_id c = k \<longrightarrow> cl_state c \<noteq> BRS_STALE)"
  by (auto simp: stale_by_id_def map_of_eq_None_iff rev_map [symmetric] image_iff)

lemma reconcile_loop_served:
  assumes "dispatcher_sound d" and "distinct (map fst items)" and "set items \<subseteq> set (ds_requests d)"
    and "\<And>k c. stale k = Some c \<Longrightarrow> cl_id c = k \<and> k \<in> log_ids (ds_broker d)"
  shows "\<exists>d'. reconcile_loop stale items d = (Inr (), d') \<and> served d d' \<and> ds_broker d' = ds_broker d
    \<and> ds_dispatched d' = ds_dispatched d \<and> set (ds_requests d') \<subseteq> set (ds_requests d)
    \<and> (\<forall>(k, r)\<in>set items. k \<notin> ds_dispatched d \<longrightarrow> stale k \<noteq> None \<longrightarrow> k \<notin> owned d')"
  using assms
proof (induction items arbitrary: d)
  case Nil
  then show ?case by (simp add: served_refl)
next
  case (Cons e items)
  obtain k r where e: "e = (k, r)" by fastforce
  show ?case
  proof (cases "k \<in> ds_dispatched d \<or> stale k = None")
    case True
    have "\<exists>d'. reconcile_loop stale items d = (Inr (), d') \<and> served d d' \<and> ds_broker d' = ds_broker d
      \<and> ds_dispatched d' = ds_dispatched d \<and> set (ds_requests d') \<subseteq> set (ds_requests d)
      \<and> (\<forall>(k, r)\<in>set items. k \<notin> ds_dispatched d \<longrightarrow> stale k \<noteq> None \<longrightarrow> k \<notin> owned d')"
      by (rule Cons.IH) (use Cons.prems in auto)
    then show ?thesis using True e by auto
  next
    case False
    then obtain c where c: "stale k = Some c" "cl_id c = k" "k \<in> log_ids (ds_broker d)" and nd: "k \<notin> ds_dispatched d"
      using Cons.prems(4) by blast
    have dict: "dict_ok (ds_requests d)" using Cons.prems(1) by (simp add: dispatcher_sound_def requests_sound_def)
    have r: "dget (ds_requests d) k = Some r" using Cons.prems(3) e dget_mem [OF dict] by auto
    then have rk: "k = aq_request r" "async_request_ok r"
      using Cons.prems(1) by (auto simp: dispatcher_sound_def requests_sound_def)
    let ?m = "case cl_stale_reason c of Some m \<Rightarrow> if m = [] then ''STALE'' else m | None \<Rightarrow> ''STALE''"
    obtain x where x: "synthetic_result r ''BROKER_STALE'' ?m True = Inr x" "visual_ok (aq_uav r) x" "ar_request x = k"
      using synthetic_ok [OF rk(2), of "''BROKER_STALE''" ?m True] rk(1) by auto
    let ?d1 = "d\<lparr>ds_requests := ddel (ds_requests d) k\<rparr>"
    have "workers_sound ?d1"
      by (rule workers_sound_drop [where d = d and k = k])
        (use Cons.prems(1) nd in \<open>auto simp: dispatcher_sound_def workers_sound_def\<close>)
    then obtain d2 where d2: "enqueue_result x ?d1 = (Inr (), d2)" "dispatcher_sound d2" "conserves d d2"
        "ds_closed d2 = ds_closed d" "ds_requests d2 = ddel (ds_requests d) k" "ds_dispatched d2 = ds_dispatched d"
        "ds_broker d2 = ds_broker d" "ds_workers d2 = ds_workers d"
      using deliver_sound [of d k r x ?d1] Cons.prems(1) r x nd by (auto simp: dispatcher_sound_def)
    let ?d3 = "emit_record c d2"
    have "k \<notin> mr_id ` set (mb_pending (ds_broker d))"
      using c(3) Cons.prems(1) by (auto simp: dispatcher_sound_def broker_inv_def pending_inv_def)
    then have "alone d \<longrightarrow> alone d2" by (auto simp: alone_def d2 keys_ddel)
    then have "served d d2" using d2 c(3) by (auto simp: served_def keys_ddel undispatched_def)
    then have s3: "served d ?d3" by (rule served_view [OF same_view_emit])
    have "\<exists>d'. reconcile_loop stale items ?d3 = (Inr (), d') \<and> served ?d3 d' \<and> ds_broker d' = ds_broker ?d3
      \<and> ds_dispatched d' = ds_dispatched ?d3 \<and> set (ds_requests d') \<subseteq> set (ds_requests ?d3)
      \<and> (\<forall>(k, r)\<in>set items. k \<notin> ds_dispatched ?d3 \<longrightarrow> stale k \<noteq> None \<longrightarrow> k \<notin> owned d')"
    proof (rule Cons.IH)
      show "dispatcher_sound ?d3" using s3 by (simp add: served_def)
      show "distinct (map fst items)" using Cons.prems(2) by simp
      show "set items \<subseteq> set (ds_requests ?d3)"
        using Cons.prems(2,3) e d2(5) by (force simp: set_ddel)
      show "cl_id c' = k' \<and> k' \<in> log_ids (ds_broker ?d3)" if "stale k' = Some c'" for k' c'
        using Cons.prems(4) [OF that] d2(7) by simp
    qed
    then obtain d4 where d4: "reconcile_loop stale items ?d3 = (Inr (), d4)" "served ?d3 d4" "ds_broker d4 = ds_broker d2"
      "ds_dispatched d4 = ds_dispatched d2" "set (ds_requests d4) \<subseteq> set (ds_requests d2)"
      "\<forall>(k, r)\<in>set items. k \<notin> ds_dispatched d2 \<longrightarrow> stale k \<noteq> None \<longrightarrow> k \<notin> owned d4" by auto
    have "k \<notin> owned d4" using d4(5) d2(5) by (auto simp: set_ddel)
    moreover have "set (ds_requests d4) \<subseteq> set (ds_requests d)" using d4(5) d2(5) by (auto simp: set_ddel)
    moreover have "reconcile_loop stale (e # items) d = (Inr (), d4)"
      using e nd c(1) x(1) d2(1) d4(1) by (simp add: Let_def)
    ultimately show ?thesis using d4 d2(6,7) served_trans [OF s3 d4(2)] e by auto
  qed
qed

lemma reconcile_served:
  assumes s: "dispatcher_sound d"
  shows "\<exists>d'. reconcile_pending_stale d = (Inr (), d') \<and> served d d' \<and> ds_broker d' = ds_broker d
    \<and> ds_dispatched d' = ds_dispatched d
    \<and> (\<forall>k r. dget (ds_requests d') k = Some r \<longrightarrow> k \<notin> ds_dispatched d' \<longrightarrow> waiting_at (ds_broker d') k (aq_uav r))"
proof -
  let ?stale = "stale_by_id (mb_logs (ds_broker d))"
  have dict: "dict_ok (ds_requests d)" using s by (simp add: dispatcher_sound_def requests_sound_def)
  have "\<exists>d'. reconcile_loop ?stale (ds_requests d) d = (Inr (), d') \<and> served d d' \<and> ds_broker d' = ds_broker d
    \<and> ds_dispatched d' = ds_dispatched d \<and> set (ds_requests d') \<subseteq> set (ds_requests d)
    \<and> (\<forall>(k, r)\<in>set (ds_requests d). k \<notin> ds_dispatched d \<longrightarrow> ?stale k \<noteq> None \<longrightarrow> k \<notin> owned d')"
    by (rule reconcile_loop_served [OF s dict]) (auto simp: log_ids_def dest!: stale_by_id_Some)
  then obtain d' where d': "reconcile_pending_stale d = (Inr (), d')" "served d d'" "ds_broker d' = ds_broker d"
    "ds_dispatched d' = ds_dispatched d" "set (ds_requests d') \<subseteq> set (ds_requests d)"
    "\<forall>(k, r)\<in>set (ds_requests d). k \<notin> ds_dispatched d \<longrightarrow> ?stale k \<noteq> None \<longrightarrow> k \<notin> owned d'"
    unfolding reconcile_pending_stale_def by blast
  have "waiting_at (ds_broker d') k (aq_uav r)"
    if k: "dget (ds_requests d') k = Some r" "k \<notin> ds_dispatched d'" for k r
  proof -
    have mem: "(k, r) \<in> set (ds_requests d')" using k(1) by (rule map_of_SomeD)
    then have "(k, r) \<in> set (ds_requests d)" "k \<in> owned d'" using d'(5) key_mem [OF mem] by auto
    then have "?stale k = None" using bspec [OF d'(6), of "(k, r)"] d'(4) k(2) by auto
    then have "\<not> dropped_by (ds_broker d') k" unfolding stale_by_id_None by (auto simp: dropped_by_def d'(3))
    moreover have "placed (ds_broker d') False k (aq_uav r)"
      using owned_request(4) [of d' k r] d'(2) k by (simp add: served_def)
    ultimately show ?thesis by (simp add: placed_def)
  qed
  then show ?thesis using d' by blast
qed

section \<open>The operations\<close>

lemma dispatcher_service_served:
  assumes "dispatcher_sound d" and "schedule_ok sc"
  shows "\<exists>d'. dispatcher_service sc d = (Inr (), d') \<and> served d d' \<and> (\<not> ds_closed d \<longrightarrow> stalled sc d')"
proof -
  obtain d1 where d1: "collect_worker_results sc d = (Inr (), d1)" "served d d1"
    using collect_results_served [OF assms] by blast
  then have "dispatcher_sound d1" by (simp add: served_def)
  then obtain d2 where d2: "reconcile_pending_stale d1 = (Inr (), d2)" "served d1 d2"
    using reconcile_served by blast
  have s2: "served d d2" using served_trans [OF d1(2) d2(2)] .
  then have "dispatcher_sound d2" by (simp add: served_def)
  then obtain d3 where d3: "dispatcher_pump sc d2 = (Inr (), d3)" "served d2 d3" "stalled sc d3"
    using dispatcher_pump_served assms(2) by blast
  have "ds_closed d2 = ds_closed d" using s2 by (simp add: served_def)
  then show ?thesis
    using d1(1) d2(1) d3 s2 served_trans [OF s2 d3(2)] by (simp add: dispatcher_service_def)
qed

text \<open>The broker changed, and the owned requests kept their place.\<close>

lemma broker_change_served:
  assumes s: "dispatcher_sound d" and b: "broker_inv b" "mb_max_inflight_per_uav b = 1"
    and keep: "\<And>k. k \<in> owned d \<Longrightarrow> keeps_place (ds_broker d) b k"
    and log: "log_ids (ds_broker d) \<subseteq> log_ids b"
    and less: "set (mb_pending b) \<subseteq> set (mb_pending (ds_broker d))" "inflight_ids b \<subseteq> inflight_ids (ds_broker d)"
  shows "served d (d\<lparr>ds_broker := b, ds_tick := n\<rparr>)"
proof -
  have "requests_sound (d\<lparr>ds_broker := b, ds_tick := n\<rparr>)"
  proof (rule requests_sound_keep [where d = d])
    fix k r assume "dget (ds_requests d) k = Some r"
    then have "keeps_place (ds_broker d) b k" by (intro keep) (rule dget_in_keys)
    then show "keeps_place (ds_broker d) (ds_broker (d\<lparr>ds_broker := b, ds_tick := n\<rparr>)) k" by simp
  qed (use s in \<open>simp_all add: dispatcher_sound_def\<close>)
  then have "dispatcher_sound (d\<lparr>ds_broker := b, ds_tick := n\<rparr>)"
    using s b by (simp add: dispatcher_sound_def results_sound_def workers_sound_def)
  moreover have "conserves d (d\<lparr>ds_broker := b, ds_tick := n\<rparr>)"
    unfolding conserves_def by (rule exI [of _ "{#}"]) (simp add: content_of_def lost_of_def)
  moreover have "alone d \<longrightarrow> alone (d\<lparr>ds_broker := b, ds_tick := n\<rparr>)" using less
    by (simp add: alone_def) (meson image_mono subset_trans)
  ultimately show ?thesis using log by (simp add: served_def undispatched_def)
qed

definition admits :: "('m, 'o) dispatcher \<Rightarrow> string \<Rightarrow> ('m, 'o) dispatcher \<Rightarrow> bool" where
  "admits d k d' \<longleftrightarrow> dispatcher_sound d' \<and> content_of d' = add_mset k (content_of d) \<and> lost_of d' = lost_of d
     \<and> ds_closed d' = ds_closed d \<and> dkeys (ds_workers d') = dkeys (ds_workers d)
     \<and> owned d' = insert k (owned d) \<and> k \<notin> used_ids (ds_broker d)
     \<and> log_ids (ds_broker d) \<subseteq> log_ids (ds_broker d')"

lemma owned_used:
  assumes "dispatcher_sound d"
  shows "owned d \<subseteq> used_ids (ds_broker d)"
proof
  fix k assume "k \<in> owned d"
  then obtain r where "dget (ds_requests d) k = Some r" using dget_key by metis
  from owned_request(4) [OF assms this] show "k \<in> used_ids (ds_broker d)"
    by (auto simp: placed_def slot_of_def waiting_at_def dropped_by_def used_ids_def inflight_ids_def log_ids_def
        split: if_splits dest: map_of_SomeD intro: key_mem)
qed

lemma review_request_fields:
  assumes "ModelBrokerRequest role p (PStr u) a ad pl (PStr k) sub c rep = Inr br"
  shows "mr_id br = k" and "mr_uav br = Some u"
  using assms by (auto simp: ModelBrokerRequest_def rbind_eq_Inr opt_check_def split: if_splits)

lemma admit_served:
  assumes s: "dispatcher_sound d" and r: "async_request_ok r" "wf_uav f \<in> set (dkeys (ds_workers d))"
    and a: "dispatcher_admit sc f r d = (x, d')"
  shows "(isl x \<and> served d d') \<or> (x = Inr () \<and> \<not> ds_closed d \<and> admits d (aq_request r) d')"
proof -
  let ?b = "ds_broker d" and ?clk = "sc_clock sc (Suc (ds_tick d))"
  consider e where "x = Inl e" "d' = d"
    | br y b' where "\<not> ds_closed d" "aq_uav r = wf_uav f" "Model_Broker.request_ok br" "mr_id br = aq_request r"
        "mr_uav br = Some (aq_uav r)" "broker_submit ?clk br ?b = (y, b')"
        "(x, d') = checked (d\<lparr>ds_broker := b', ds_tick := Suc (Suc (ds_tick d))\<rparr>) y (\<lambda>_. (Inr (),
           d\<lparr>ds_broker := b', ds_tick := Suc (Suc (ds_tick d)), ds_requests := dset (ds_requests d) (aq_request r) r\<rparr>))"
  proof -
    let ?mk = "\<lambda>t. rbind (ModelRequestPriority (PInt (aq_priority r))) (\<lambda>_.
        ModelBrokerRequest (PStr (call_role_text RUNTIME_VISUAL_REVIEW)) (PInt (aq_priority r))
          (PStr (aq_uav r)) (opt_pyval PStr (wf_assignment f)) (PStr (as_adapter (ds_adapter d)))
          (review_payload r) (PStr (aq_request r)) (PFloat (Fin t)) (PBool False) (PBool (aq_replaceable r)))"
    let ?ts = "dispatcher_timestamp (sc_clock sc (ds_tick d)) ''clock result''"
    show thesis
    proof (cases "aq_uav r \<noteq> wf_uav f \<or> ds_closed d \<or> isl ?ts \<or> isl (?mk (projr ?ts))")
      case True
      then show thesis
        using a that(1) by (cases ?ts; cases "?mk (projr ?ts)") (auto simp: dispatcher_admit_def split: if_splits)
    next
      case False
      then obtain t br where t: "aq_uav r = wf_uav f" "\<not> ds_closed d" "?ts = Inr t" "?mk t = Inr br"
        by (cases ?ts; cases "?mk (projr ?ts)") auto
      obtain y b' where sub: "broker_submit ?clk br ?b = (y, b')" by fastforce
      from t(4) have br: "Model_Broker.request_ok br" "mr_id br = aq_request r" "mr_uav br = Some (aq_uav r)"
        by (auto simp only: rbind_eq_Inr dest: ModelBrokerRequest_ok review_request_fields)
      show thesis
        by (rule that(2) [OF t(2,1) br sub])
          (use a in \<open>simp add: dispatcher_admit_def t(1-3) t(4) [unfolded t(1), simplified] sub Let_def\<close>)
    qed
  qed
  then show ?thesis
  proof cases
    case 1
    then show ?thesis using served_refl [OF s] by simp
  next
    case (2 br y b')
    let ?n = "Suc (Suc (ds_tick d))"
    have inv: "broker_inv ?b" "mb_max_inflight_per_uav ?b = 1" using s by (simp_all add: dispatcher_sound_def)
    obtain b1 where b: "broker_inv b'" "displaces br ?b b1"
      "case y of Inl e \<Rightarrow> b' = b1 | Inr i \<Rightarrow> i = mr_id br \<and> mr_id br \<notin> used_ids ?b
         \<and> b' = b1\<lparr>mb_pending := mb_pending b1 @ [br]\<rparr>"
      using broker_submit_ok [OF inv(1) 2(3,6)] by blast
    have k1: "keeps_place ?b b1 k" for k by (rule displaces_keeps [OF inv(1) b(2)])
    then have keep: "keeps_place ?b b' k" for k
      using b(3) keeps_place_trans [OF k1 enqueue_keeps] by (cases y) auto
    have log: "log_ids ?b \<subseteq> log_ids b'" and lim: "mb_max_inflight_per_uav b' = 1"
      using displaces_logs [OF b(2)] b(2,3) inv(2) by (auto simp: displaces_def same_limits_def split: sum.splits)
    have served: "served d (d\<lparr>ds_broker := b', ds_tick := ?n\<rparr>)" if "isl y"
      by (rule broker_change_served [OF s b(1) lim keep log])
        (use b(2,3) that in \<open>auto simp: displaces_def inflight_ids_def split: sum.splits\<close>)
    show ?thesis
    proof (cases y)
      case (Inl e)
      then show ?thesis using 2(7) served by simp
    next
      case (Inr i)
      let ?k = "aq_request r"
      let ?d = "d\<lparr>ds_broker := b', ds_tick := ?n, ds_requests := dset (ds_requests d) ?k r\<rparr>"
      have fresh: "?k \<notin> used_ids ?b" and app: "b' = b1\<lparr>mb_pending := mb_pending b1 @ [br]\<rparr>"
        using b(3) Inr 2(4) by auto
      have "ds_dispatched d \<subseteq> owned d" using s by (simp add: dispatcher_sound_def requests_sound_def)
      then have new: "?k \<notin> owned d" "?k \<notin> ds_dispatched d" using fresh owned_used [OF s] by blast+
      have "waiting_at b' ?k (aq_uav r)" using app 2(4,5) by (auto simp: waiting_at_def)
      then have "placed b' (k' \<in> ds_dispatched d) k' (aq_uav q)"
        if "dget (dset (ds_requests d) ?k r) k' = Some q" for k' q
        using that owned_request(4) [OF s, of k' q] keeps_placed [OF keep [of k']] new(2)
        by (cases "k' = ?k") (auto simp: dget_dset placed_def [of b' False])
      then have "requests_sound ?d"
        using s new r(1) 2(2) assms(3) unfolding dispatcher_sound_def requests_sound_def
        by (auto simp: dget_dset dset_keys split: if_splits)
      moreover have "workers_sound ?d"
        by (rule workers_sound_add [where d = d and k = ?k and r = r]) (use s new in \<open>simp_all add: dispatcher_sound_def\<close>)
      moreover have "results_sound ?d" using s by (simp add: dispatcher_sound_def results_sound_def)
      ultimately have "admits d ?k ?d"
        using b(1) lim new fresh log
        by (auto simp: admits_def dispatcher_sound_def content_of_def lost_of_def dset_new dset_keys)
      then show ?thesis using 2(1,7) Inr by simp
    qed
  qed
qed

text \<open>The queue of a facade after a poll.\<close>

lemma results_sound_poll:
  assumes s: "results_sound d" and q: "dget (ds_results d) u = Some q"
    and loop: "poll_loop a b c i (length q) q 0 = (found, q', n)"
  defines "d' \<equiv> d\<lparr>ds_results := dset (ds_results d) u q', ds_discarded := (if n = 0 then ds_discarded d
      else dset (ds_discarded d) u ((case dget (ds_discarded d) u of Some n \<Rightarrow> n | None \<Rightarrow> 0) + n))\<rparr>"
  shows "results_sound d'" and "found = Some (x, stale) \<Longrightarrow> visual_ok u x"
    and "\<exists>l. content_of d = content_of d' + (case found of None \<Rightarrow> {#} | Some (x, s) \<Rightarrow> {#ar_request x#}) + l
      \<and> lost_of d' = lost_of d + size l"
proof -
  let ?f = "\<lambda>q :: visual_result list. mset (map ar_request q)"
  have keys: "dkeys (ds_results d) = dkeys (ds_workers d)" "dkeys (ds_discarded d) = dkeys (ds_workers d)"
    using s by (simp_all add: results_sound_def)
  have u: "u \<in> set (dkeys (ds_workers d))" using dget_in_keys [OF q] keys by simp
  obtain m where m: "dget (ds_discarded d) u = Some m" using u keys dget_key by metis
  obtain l where l: "mset q = (case found of None \<Rightarrow> {#} | Some (x, s) \<Rightarrow> {#x#}) + mset q' + l" "n = size l"
    using poll_loop_conserves [OF loop] by auto
  have sub: "set q' \<subseteq> set q" "length q' \<le> length q"
  proof -
    have "set_mset (mset q') \<subseteq> set_mset (mset q)" unfolding l(1) by auto
    then show "set q' \<subseteq> set q" by simp
    have "size (mset q') \<le> size (mset q)" unfolding l(1) by simp
    then show "length q' \<le> length q" by simp
  qed
  show "visual_ok u x" if "found = Some (x, stale)"
  proof -
    have "x \<in># mset q" unfolding l(1) that by simp
    then show ?thesis using s q by (simp add: results_sound_def)
  qed
  have "length q' \<le> ds_max d" "\<forall>x\<in>set q'. visual_ok u x" using s q sub unfolding results_sound_def by fastforce+
  then show "results_sound d'"
    using s u keys unfolding results_sound_def d'_def by (auto simp: dkeys_dset_mem dget_dset split: if_splits)
  have "?f q = (case found of None \<Rightarrow> {#} | Some (x, s) \<Rightarrow> {#ar_request x#}) + ?f q' + image_mset ar_request l"
    unfolding mset_map l(1) by (auto split: option.splits)
  then have "dsum ?f (ds_results d) + ?f q' = dsum ?f (ds_results d')
      + (case found of None \<Rightarrow> {#} | Some (x, s) \<Rightarrow> {#ar_request x#}) + ?f q' + image_mset ar_request l"
    using dsum_dset [OF q, of ?f q'] by (simp add: d'_def ac_simps)
  then have "dsum ?f (ds_results d) = dsum ?f (ds_results d')
      + (case found of None \<Rightarrow> {#} | Some (x, s) \<Rightarrow> {#ar_request x#}) + image_mset ar_request l"
    by (simp add: ac_simps)
  then have "content_of d = content_of d' + (case found of None \<Rightarrow> {#} | Some (x, s) \<Rightarrow> {#ar_request x#})
      + image_mset ar_request l"
    by (simp add: content_of_def d'_def ac_simps)
  moreover have "lost_of d' = lost_of d + size (image_mset ar_request l)"
    using dsum_dset [OF m, of id "m + n"] m l(2) by (simp add: lost_of_def d'_def)
  ultimately show "\<exists>l. content_of d = content_of d' + (case found of None \<Rightarrow> {#} | Some (x, s) \<Rightarrow> {#ar_request x#}) + l
      \<and> lost_of d' = lost_of d + size l" by blast
qed

text \<open>What a step of anyone does: identifiers enter, leave or are lost, and none is forgotten.\<close>

definition moves :: "('m, 'o) dispatcher \<Rightarrow> string multiset \<Rightarrow> string multiset \<Rightarrow> ('m, 'o) dispatcher \<Rightarrow> bool" where
  "moves d came went d' \<longleftrightarrow> dispatcher_sound d'
     \<and> (\<exists>l. content_of d + came = content_of d' + went + l \<and> lost_of d' = lost_of d + size l)
     \<and> owned d \<subseteq> owned d' \<union> log_ids (ds_broker d') \<and> owned d' \<subseteq> owned d \<union> set_mset came
     \<and> log_ids (ds_broker d) \<subseteq> log_ids (ds_broker d')
     \<and> set_mset came \<subseteq> owned d' \<union> log_ids (ds_broker d') - used_ids (ds_broker d)"

lemma served_moves: "served d d' \<Longrightarrow> moves d {#} {#} d'"
  by (auto simp: served_def moves_def conserves_def)

lemma servedD:
  assumes "served d d'"
  shows "owned d' \<subseteq> owned d" and "owned d \<subseteq> owned d' \<union> log_ids (ds_broker d')"
    and "log_ids (ds_broker d) \<subseteq> log_ids (ds_broker d')"
  using assms unfolding served_def by (simp, blast, simp)

lemma movesD:
  assumes "moves d came went d'"
  shows "dispatcher_sound d'" and "owned d \<subseteq> owned d' \<union> log_ids (ds_broker d')"
    and "owned d' \<subseteq> owned d \<union> set_mset came" and "log_ids (ds_broker d) \<subseteq> log_ids (ds_broker d')"
    and "set_mset came \<subseteq> owned d' \<union> log_ids (ds_broker d') - used_ids (ds_broker d)"
  using assms unfolding moves_def by blast+

lemma movesI:
  assumes "dispatcher_sound d'" and "content_of d + came = content_of d' + went + l" "lost_of d' = lost_of d + size l"
    and "owned d \<subseteq> owned d' \<union> log_ids (ds_broker d')" "owned d' \<subseteq> owned d \<union> set_mset came"
      "log_ids (ds_broker d) \<subseteq> log_ids (ds_broker d')"
      "set_mset came \<subseteq> owned d' \<union> log_ids (ds_broker d')" "set_mset came \<inter> used_ids (ds_broker d) = {}"
  shows "moves d came went d'"
  unfolding moves_def using assms(2,3) by (intro conjI exI [of _ l] assms(1,4-6)) (use assms(7,8) in blast)+

lemma served_moves_trans:
  assumes "served a b" and "moves b {#} went c"
  shows "moves a {#} went c"
proof -
  note ab = servedD [OF assms(1)] and bc = movesD [OF assms(2)]
  obtain l where l: "content_of a = content_of b + l" "lost_of b = lost_of a + size l"
    using assms(1) by (auto simp: served_def conserves_def)
  obtain m where m: "content_of b = content_of c + went + m" "lost_of c = lost_of b + size m"
    using assms(2) by (auto simp: moves_def)
  show ?thesis
  proof (rule movesI)
    show "content_of a + {#} = content_of c + went + (l + m)" using l m by (simp add: ac_simps)
    show "lost_of c = lost_of a + size (l + m)" using l m by simp
    show "owned a \<subseteq> owned c \<union> log_ids (ds_broker c)" using ab(2) bc(2,4) by blast
    show "owned c \<subseteq> owned a \<union> set_mset {#}" using ab(1) bc(3) by blast
    show "log_ids (ds_broker a) \<subseteq> log_ids (ds_broker c)" using ab(3) bc(4) by blast
  qed (use bc(1) in simp_all)
qed

lemma admits_moves:
  assumes "admits d k d1" and "served d1 d2"
  shows "moves d {#k#} {#} d2"
proof -
  note s = servedD [OF assms(2)]
  have a: "owned d1 = insert k (owned d)" "k \<notin> used_ids (ds_broker d)"
    "log_ids (ds_broker d) \<subseteq> log_ids (ds_broker d1)" "content_of d1 = add_mset k (content_of d)"
    "lost_of d1 = lost_of d" using assms(1) by (simp_all add: admits_def)
  obtain l where l: "content_of d1 = content_of d2 + l" "lost_of d2 = lost_of d1 + size l"
    using assms(2) by (auto simp: served_def conserves_def)
  show ?thesis
  proof (rule movesI)
    show "dispatcher_sound d2" using assms(2) by (simp add: served_def)
    show "content_of d + {#k#} = content_of d2 + {#} + l" using a(4) l(1) by simp
    show "lost_of d2 = lost_of d + size l" using a(5) l(2) by simp
    show "owned d \<subseteq> owned d2 \<union> log_ids (ds_broker d2)" using s(2) a(1) by blast
    show "owned d2 \<subseteq> owned d \<union> set_mset {#k#}" using s(1) unfolding a(1) by simp
    show "log_ids (ds_broker d) \<subseteq> log_ids (ds_broker d2)" using s(3) a(3) by blast
    show "set_mset {#k#} \<subseteq> owned d2 \<union> log_ids (ds_broker d2)" using s(2) a(1) by auto
    show "set_mset {#k#} \<inter> used_ids (ds_broker d) = {}" using a(2) by simp
  qed
qed

lemma dispatcher_submit_moves:
  assumes s: "dispatcher_sound d" and sc: "schedule_ok sc"
    and r: "async_request_ok r" "wf_uav f \<in> set (dkeys (ds_workers d))"
    and sub: "dispatcher_submit sc f r d = (x, d')"
  shows "moves d (if isl (fst (dispatcher_admit sc f r d)) then {#} else {#aq_request r#}) {#} d'"
proof -
  obtain y d1 where a: "dispatcher_admit sc f r d = (y, d1)" by fastforce
  from admit_served [OF s r a] show ?thesis
  proof (elim disjE conjE)
    assume "isl y" "served d d1"
    then show ?thesis using sub a by (cases y) (auto simp: dispatcher_submit_def served_moves)
  next
    assume y: "y = Inr ()" "admits d (aq_request r) d1"
    then have "dispatcher_sound d1" by (simp add: admits_def)
    then obtain d2 where d2: "reconcile_pending_stale d1 = (Inr (), d2)" "served d1 d2"
      using reconcile_served by blast
    then have "dispatcher_sound d2" by (simp add: served_def)
    then obtain d3 where d3: "dispatcher_pump sc d2 = (Inr (), d3)" "served d2 d3"
      using dispatcher_pump_served sc by blast
    have "d' = d3" using sub a y(1) d2(1) d3(1) by (simp add: dispatcher_submit_def)
    then show ?thesis using a y admits_moves [OF y(2) served_trans [OF d2(2) d3(2)]] by simp
  qed
qed

lemma dispatcher_poll_moves:
  assumes s: "dispatcher_sound d" and sc: "schedule_ok sc" and u: "wf_uav f \<in> set (dkeys (ds_workers d))"
    and p: "dispatcher_poll sc f a b c i d = (r, d')"
  shows "moves d {#} (case r of Inr (Some x) \<Rightarrow> {#ar_request x#} | _ \<Rightarrow> {#}) d'"
proof -
  consider e where "r = Inl e" "d' = d"
    | a' b' c' i' where "andthen (dispatcher_service sc d) (\<lambda>_ d. poll_queue (wf_uav f) a' b' c' i' d) = (r, d')"
    using p unfolding dispatcher_poll_def by (auto split: checked_split_asm)
  then show ?thesis
  proof cases
    case 1
    then show ?thesis using served_moves [OF served_refl [OF s]] by simp
  next
    case (2 a' b' c' i')
    obtain d1 where d1: "dispatcher_service sc d = (Inr (), d1)" "served d d1"
      using dispatcher_service_served [OF s sc] by blast
    then have s1: "results_sound d1" "dispatcher_sound d1" "dkeys (ds_workers d1) = dkeys (ds_workers d)"
      by (simp_all add: served_def dispatcher_sound_def)
    then obtain q where q: "dget (ds_results d1) (wf_uav f) = Some q"
      using u dget_key unfolding results_sound_def by metis
    obtain found q' n where loop: "poll_loop a' b' c' i' (length q) q 0 = (found, q', n)"
      by (metis prod_cases3)
    let ?d = "d1\<lparr>ds_results := dset (ds_results d1) (wf_uav f) q', ds_discarded := (if n = 0 then ds_discarded d1
        else dset (ds_discarded d1) (wf_uav f) ((case dget (ds_discarded d1) (wf_uav f) of Some n \<Rightarrow> n | None \<Rightarrow> 0) + n))\<rparr>"
    note rs = results_sound_poll [OF s1(1) q loop]
    have "dispatcher_sound ?d"
      using s1(2) rs(1) by (simp add: dispatcher_sound_def requests_sound_def workers_sound_def)
    then have "moves d1 {#} (case found of None \<Rightarrow> {#} | Some (x, s) \<Rightarrow> {#ar_request x#}) ?d"
      using rs(3) by (simp add: moves_def)
    then have m: "moves d {#} (case found of None \<Rightarrow> {#} | Some (x, s) \<Rightarrow> {#ar_request x#}) ?d"
      by (rule served_moves_trans [OF d1(2)])
    have out: "(r, d') = (case found of None \<Rightarrow> (Inr None, ?d)
        | Some (x, stale) \<Rightarrow> checked ?d (replace_stale x stale) (\<lambda>x. (Inr (Some x), ?d)))"
      using 2 d1(1) q loop by (simp add: poll_queue_def Let_def)
    show ?thesis
    proof (cases found)
      case None
      then show ?thesis using out m by simp
    next
      case (Some e)
      obtain x stale where e: "e = (x, stale)" by fastforce
      have "replace_stale x stale = Inr (x\<lparr>ar_stale := stale\<rparr>)"
        using rs(2) [of x stale] Some e by (intro replace_stale_ok) (simp add: visual_ok_def)
      then show ?thesis using out m Some e by simp
    qed
  qed
qed

section \<open>Closing\<close>

lemma cancel_waiting_served:
  assumes "dispatcher_sound d" and "list_all routing_id_match rids"
  shows "\<exists>d'. cancel_waiting rids d = (Inr (), d') \<and> served d d'"
  using assms
proof (induction rids arbitrary: d)
  case Nil
  then show ?case by (simp add: served_refl)
next
  case (Cons k rids)
  show ?case
  proof (cases "k \<in> ds_dispatched d")
    case True
    then show ?thesis using Cons by simp
  next
    case False
    obtain r b where c: "cancel_pending (PStr k) (PStr ''DISPATCHER_CLOSED'') (ds_broker d) = (r, b)" by fastforce
    have inv: "broker_inv (ds_broker d)" "mb_max_inflight_per_uav (ds_broker d) = 1"
      using Cons.prems(1) by (simp_all add: dispatcher_sound_def)
    have "served d (d\<lparr>ds_broker := b, ds_tick := ds_tick d\<rparr>)"
      by (rule broker_change_served [OF Cons.prems(1)]) (use cancel_pending_keeps [OF inv(1) c] inv(2) in \<open>auto simp: inflight_ids_def\<close>)
    then have s1: "served d (d\<lparr>ds_broker := b\<rparr>)" by simp
    then have "dispatcher_sound (d\<lparr>ds_broker := b\<rparr>)" by (simp add: served_def)
    then obtain d' where "cancel_waiting rids (d\<lparr>ds_broker := b\<rparr>) = (Inr (), d')" "served (d\<lparr>ds_broker := b\<rparr>) d'"
      using Cons by auto
    moreover have "(\<exists>m. r = Inl (ModelRequestBrokerError m)) \<or> r = Inr ()"
      using cancel_pending_error [OF inv(1), of k] Cons.prems(2) c by simp
    ultimately show ?thesis using False c served_trans [OF s1] by auto
  qed
qed

lemma worker_shrunk_served:
  assumes s: "dispatcher_sound d" and closed: "ds_closed d" and w: "dget (ds_workers d) u = Some w"
    and w': "worker_sound u w'" "set (held w') \<subseteq> set (held w)"
  shows "served d (d\<lparr>ds_workers := dset (ds_workers d) u w', ds_tick := n\<rparr>)" (is "served d ?d")
proof -
  have u: "u \<in> set (dkeys (ds_workers d))" using w by (rule dget_in_keys)
  have ws: "workers_sound d" using s by (simp add: dispatcher_sound_def)
  have "workers_sound ?d"
  proof (rule workers_soundI)
    fix v x assume "dget (ds_workers ?d) v = Some x"
    then show "worker_sound v x \<and> (\<forall>k\<in>set (held x). k \<in> ds_dispatched ?d
        \<and> (\<exists>r. dget (ds_requests ?d) k = Some r \<and> aq_uav r = v))"
      using ws w w' unfolding workers_sound_def by (cases "v = u") (auto simp: dget_dset)
  qed (use ws closed in \<open>simp_all add: workers_sound_def\<close>)
  then have "dispatcher_sound ?d"
    using s u by (simp add: dispatcher_sound_def results_sound_def requests_sound_def dkeys_dset_mem)
  moreover have "conserves d ?d"
    unfolding conserves_def by (rule exI [of _ "{#}"]) (simp add: content_of_def lost_of_def)
  ultimately show ?thesis using u by (simp add: served_def dkeys_dset_mem alone_def undispatched_def)
qed

lemma close_worker_sound:
  assumes "worker_sound u w" and "close_worker t b w = (r, w')"
  shows "worker_sound u w' \<and> set (held w') \<subseteq> set (held w)"
  using assms by (auto simp: close_worker_def worker_sound_def held_def split: checked_split_asm if_splits option.splits)

lemma close_one_served:
  assumes s: "dispatcher_sound d" and sc: "schedule_ok sc" and closed: "ds_closed d"
  shows "served d (snd (close_one sc deadline u d))"
proof (cases "dget (ds_workers d) u")
  case None
  then show ?thesis using served_refl [OF s] by (simp add: close_one_def)
next
  case (Some w)
  have acts: "list_all act_ok (sc_acts sc n)" for n using sc by (simp add: schedule_ok_def)
  have "worker_sound u w" using s Some by (auto simp: dispatcher_sound_def workers_sound_def)
  note w0 = thread_run_sound [OF this acts [of "ds_tick d"]]
  let ?w0 = "thread_run (sc_acts sc (ds_tick d)) w"
  obtain r w1 where c: "close_worker (PFloat (Fin (max 0 (deadline - sc_monotonic sc (ds_tick d))))) False ?w0 = (r, w1)"
    by fastforce
  note w1 = close_worker_sound [OF conjunct1 [OF w0] c]
  let ?w2 = "case r of Inl _ \<Rightarrow> w1 | Inr _ \<Rightarrow> thread_run (sc_acts sc (Suc (ds_tick d))) w1"
  have "worker_sound u ?w2 \<and> set (held ?w2) \<subseteq> set (held w)"
    using w0 w1 thread_run_sound [OF conjunct1 [OF w1] acts] by (cases r) auto
  from worker_shrunk_served [OF s closed Some conjunct1 [OF this] conjunct2 [OF this]] show ?thesis
    using Some c by (simp add: close_one_def Let_def)
qed

lemma close_workers_served:
  assumes "dispatcher_sound d" and "schedule_ok sc" and "ds_closed d"
  shows "served d (snd (close_workers sc deadline us d))"
  using assms
proof (induction us arbitrary: d)
  case Nil
  then show ?case by (simp add: served_refl)
next
  case (Cons u us)
  obtain r d1 where c: "close_one sc deadline u d = (r, d1)" by fastforce
  have s: "served d d1" using close_one_served [OF Cons.prems] c by (metis snd_conv)
  then have "dispatcher_sound d1" "ds_closed d1" using Cons.prems(3) by (simp_all add: served_def)
  then have "served d1 (snd (close_workers sc deadline us d1))" using Cons by blast
  from served_trans [OF s this] show ?case using c by (auto simp: split: prod.splits)
qed

lemma close_moves:
  assumes s: "dispatcher_sound d" and sc: "schedule_ok sc" and c: "close_dispatcher sc t d = (x, d')"
  shows "moves d {#} {#} d'"
proof (cases "d' = d")
  case True
  then show ?thesis using served_moves [OF served_refl [OF s]] by simp
next
  case False
  then obtain dl where c': "shut_down sc dl (d\<lparr>ds_closed := True, ds_tick := Suc (ds_tick d)\<rparr>) = (x, d')"
    using c unfolding close_dispatcher_def by (auto split: checked_split_asm if_splits)
  let ?d0 = "d\<lparr>ds_closed := True, ds_tick := Suc (ds_tick d)\<rparr>"
  have s0: "dispatcher_sound ?d0"
    using s by (simp add: dispatcher_sound_def results_sound_def requests_sound_def workers_sound_def)
  have "routing_id_match k" if "k \<in> owned d" for k
    using owned_request [OF s] dget_key [OF that] by (auto simp: async_request_ok_def)
  then obtain d1 where d1: "cancel_waiting (dkeys (ds_requests d)) ?d0 = (Inr (), d1)" "served ?d0 d1"
    using cancel_waiting_served [OF s0, of "dkeys (ds_requests d)"] by (auto simp: list_all_iff)
  then obtain d2 where d2: "reconcile_pending_stale d1 = (Inr (), d2)" "served d1 d2"
    using reconcile_served [of d1] by (auto simp: served_def)
  obtain e d3 where d3: "close_workers sc dl (sort (dkeys (ds_workers d2))) d2 = (e, d3)" by fastforce
  have s2: "served ?d0 d2" using served_trans [OF d1(2) d2(2)] .
  then have "dispatcher_sound d2" "ds_closed d2" by (simp_all add: served_def)
  from close_workers_served [OF this(1) sc this(2), of dl "sort (dkeys (ds_workers d2))"]
  have s3: "served d2 d3" by (simp add: d3)
  then obtain d4 where d4: "collect_worker_results sc d3 = (Inr (), d4)" "served d3 d4"
    using collect_results_served [OF _ sc, of d3] by (auto simp: served_def)
  then obtain d5 where d5: "reconcile_pending_stale d4 = (Inr (), d5)" "served d4 d5"
    using reconcile_served [of d4] by (auto simp: served_def)
  have "d' = d5" using c' d1(1) d2(1) d3 d4(1) d5(1) by (simp add: shut_down_def)
  then have "moves ?d0 {#} {#} d'"
    using served_trans [OF served_trans [OF s2 s3] served_trans [OF d4(2) d5(2)]] by (simp add: served_moves)
  then show ?thesis by (simp add: moves_def content_of_def lost_of_def)
qed

section \<open>Runs\<close>

text \<open>
  What another owner of requests does with the same broker: it submits its own requests, takes only
  its own out of the queue, and completes or cancels only its own.  (\<open>mine\<close> are the identifiers the
  dispatcher owns.)
\<close>

lemma foreign_moves:
  assumes s: "dispatcher_sound d" and f: "foreign_step (owned d) (ds_broker d) b"
  shows "moves d {#} {#} (d\<lparr>ds_broker := b\<rparr>)"
proof -
  let ?d = "d\<lparr>ds_broker := b\<rparr>"
  have inv: "broker_inv (ds_broker d)" using s by (simp add: dispatcher_sound_def)
  note effect = foreign_effect [OF inv f]
  have b: "broker_inv b" "mb_max_inflight_per_uav b = 1" "log_ids (ds_broker d) \<subseteq> log_ids b"
    using broker_step_inv [OF foreign_broker_step [OF f] inv] effect s by (auto simp: dispatcher_sound_def)
  have "requests_sound ?d"
  proof (rule requests_sound_keep [where d = d])
    fix k r assume "dget (ds_requests d) k = Some r"
    from effect dget_in_keys [OF this] show "keeps_place (ds_broker d) (ds_broker ?d) k" by auto
  qed (use s in \<open>simp_all add: dispatcher_sound_def\<close>)
  then have "dispatcher_sound ?d"
    using s b by (simp add: dispatcher_sound_def results_sound_def workers_sound_def)
  then show ?thesis
    by (intro movesI [where l = "{#}"]) (use b in \<open>simp_all add: content_of_def lost_of_def\<close>)
qed

text \<open>The steps of the dispatcher's callers and of the other owners, with the identifier that enters or leaves.\<close>

datatype dispatcher_note = Admitted string | Returned string | Unnoted

inductive dispatcher_step :: "('m, 'o) dispatcher \<Rightarrow> dispatcher_note \<Rightarrow> ('m, 'o) dispatcher \<Rightarrow> bool" where
  step_facade: "worker_for u a d = (x, d') \<Longrightarrow> dispatcher_step d Unnoted d'"
| step_admitted: "schedule_ok sc \<Longrightarrow> async_request_ok r \<Longrightarrow> wf_uav f \<in> set (dkeys (ds_workers d)) \<Longrightarrow>
    dispatcher_submit sc f r d = (x, d') \<Longrightarrow> fst (dispatcher_admit sc f r d) = Inr () \<Longrightarrow>
    dispatcher_step d (Admitted (aq_request r)) d'"
| step_refused: "schedule_ok sc \<Longrightarrow> async_request_ok r \<Longrightarrow> wf_uav f \<in> set (dkeys (ds_workers d)) \<Longrightarrow>
    dispatcher_submit sc f r d = (x, d') \<Longrightarrow> fst (dispatcher_admit sc f r d) = Inl e \<Longrightarrow>
    dispatcher_step d Unnoted d'"
| step_returned: "schedule_ok sc \<Longrightarrow> wf_uav f \<in> set (dkeys (ds_workers d)) \<Longrightarrow>
    dispatcher_poll sc f a b c i d = (Inr (Some x), d') \<Longrightarrow> dispatcher_step d (Returned (ar_request x)) d'"
| step_nothing: "schedule_ok sc \<Longrightarrow> wf_uav f \<in> set (dkeys (ds_workers d)) \<Longrightarrow>
    dispatcher_poll sc f a b c i d = (Inr None, d') \<Longrightarrow> dispatcher_step d Unnoted d'"
| step_invalid: "schedule_ok sc \<Longrightarrow> wf_uav f \<in> set (dkeys (ds_workers d)) \<Longrightarrow>
    dispatcher_poll sc f a b c i d = (Inl e, d') \<Longrightarrow> dispatcher_step d Unnoted d'"
| step_close: "schedule_ok sc \<Longrightarrow> close_dispatcher sc t d = (x, d') \<Longrightarrow> dispatcher_step d Unnoted d'"
| step_foreign: "foreign_step (owned d) (ds_broker d) b \<Longrightarrow> dispatcher_step d Unnoted (d\<lparr>ds_broker := b\<rparr>)"

fun came_in :: "dispatcher_note \<Rightarrow> string multiset" where
  "came_in (Admitted k) = {#k#}"
| "came_in _ = {#}"

fun went_out :: "dispatcher_note \<Rightarrow> string multiset" where
  "went_out (Returned k) = {#k#}"
| "went_out _ = {#}"

lemma same_view_moves: "same_view d d' \<Longrightarrow> dispatcher_sound d \<Longrightarrow> moves d {#} {#} d'"
  by (rule served_moves, erule served_view, erule served_refl)

lemma dispatcher_step_moves:
  assumes "dispatcher_step d n d'" and s: "dispatcher_sound d"
  shows "moves d (came_in n) (went_out n) d'"
  using assms(1)
proof cases
  case (step_facade u a x)
  then have "same_view d d'"
    by (auto simp: worker_for_def same_view_def split: checked_split_asm option.splits)
  then show ?thesis using same_view_moves s step_facade by simp
next
  case (step_admitted sc r f x)
  then show ?thesis using dispatcher_submit_moves [OF s step_admitted(2-5)] by simp
next
  case (step_refused sc r f x e)
  then show ?thesis using dispatcher_submit_moves [OF s step_refused(2-5)] by simp
next
  case (step_returned sc f a b c i x)
  then show ?thesis using dispatcher_poll_moves [OF s step_returned(2-4)] by simp
next
  case (step_nothing sc f a b c i)
  then show ?thesis using dispatcher_poll_moves [OF s step_nothing(2-4)] by simp
next
  case (step_invalid sc f a b c i e)
  then show ?thesis using dispatcher_poll_moves [OF s step_invalid(2-4)] by simp
next
  case (step_close sc t x)
  then show ?thesis using close_moves [OF s step_close(2,3)] by simp
next
  case (step_foreign b)
  then show ?thesis using foreign_moves [OF s] by simp
qed

interpretation delivery: ledger dispatcher_step dispatcher_sound content_of lost_of came_in went_out
  using dispatcher_step_moves by unfold_locales (blast dest: movesD(1), auto simp: moves_def)

section \<open>The first state\<close>

lemma foldl_dset_entries:
  "dict_ok d \<Longrightarrow> dict_ok (foldl (\<lambda>d e. dset d (fst e) (snd e)) d es)
     \<and> (dget (foldl (\<lambda>d e. dset d (fst e) (snd e)) d es) k = Some v \<longrightarrow> dget d k = Some v \<or> (k, v) \<in> set es)"
proof (induction es arbitrary: d)
  case (Cons e es)
  show ?case using Cons.IH [of "dset d (fst e) (snd e)"] Cons.prems by (cases e) (auto simp: dget_dset split: if_splits)
qed simp

lemma dget_map_const: "dget (map (\<lambda>e. (fst e, c)) es) k = Some v \<Longrightarrow> v = c"
  by (induction es) (auto split: if_splits)

lemma worker_init_sound: "worker_init v k = Inr w \<Longrightarrow> worker_sound (aw_uav w) w \<and> held w = []"
  by (auto simp: worker_init_def rbind_eq_Inr int_value_Inr worker_sound_def held_def)

lemma dispatcher_init_sound:
  assumes init: "dispatcher_init b ws sel clk lg m = Inr d" and b: "broker_inv b" "mb_max_inflight_per_uav b = 1"
    and ws: "\<And>e. e \<in> set ws \<Longrightarrow> \<exists>u n. worker_init u n = Inr (snd e)"
  shows "dispatcher_sound d" and "content_of d = {#}" and "lost_of d = 0" and "owned d = {}"
    and "ds_broker d = b" and "\<not> ds_closed d"
proof -
  from init obtain n es where es: "rmap dispatcher_worker ws = Inr es" and n: "0 < n"
    and d: "d = \<lparr>ds_broker = b, ds_adapter = sel, ds_workers = foldl (\<lambda>d e. dset d (fst e) (snd e)) [] es,
        ds_max = nat n, ds_has_logger = lg, ds_requests = [], ds_dispatched = {},
        ds_results = map (\<lambda>(u, _). (u, [])) (foldl (\<lambda>d e. dset d (fst e) (snd e)) [] es),
        ds_discarded = map (\<lambda>(u, _). (u, 0)) (foldl (\<lambda>d e. dset d (fst e) (snd e)) [] es),
        ds_facades = [], ds_emitted = {}, ds_closed = False, ds_logged = [], ds_tick = 0\<rparr>"
    unfolding dispatcher_init_def by (auto simp: rbind_eq_Inr int_value_Inr Let_def split: if_splits)
  let ?ws = "foldl (\<lambda>d e. dset d (fst e) (snd e)) [] es"
  have fresh: "worker_sound u w \<and> held w = []" if "dget ?ws u = Some w" for u w
  proof -
    have "(u, w) \<in> set es" using foldl_dset_entries [of "[]" es u w] that by auto
    from rmap_range [OF es this] obtain e where "e \<in> set ws" "dispatcher_worker e = Inr (u, w)" by blast
    moreover from this have "snd e = w" by (auto simp: dispatcher_worker_def rbind_eq_Inr split: if_splits)
    moreover from this obtain v k where "worker_init v k = Inr w" using ws \<open>e \<in> set ws\<close> by blast
    ultimately show ?thesis
      using worker_init_sound [of v k w] by (auto simp: dispatcher_worker_def rbind_eq_Inr split: if_splits)
  qed
  have dict: "dict_ok ?ws" using foldl_dset_entries [of "[]" es] by simp
  have "results_sound d" using n by (auto simp: results_sound_def d split_def o_def dest: dget_map_const)
  moreover have "workers_sound d" using fresh dict by (auto simp: workers_sound_def d)
  ultimately show "dispatcher_sound d" using b by (simp add: dispatcher_sound_def requests_sound_def d)
  show "content_of d = {#}" by (auto simp: content_of_def d intro!: dsum_const)
  show "lost_of d = 0" by (auto simp: lost_of_def d intro!: dsum_const)
qed (use init in \<open>auto simp: dispatcher_init_def rbind_eq_Inr Let_def split: if_splits\<close>)

text \<open>A new dispatcher, with new workers, over a broker that grants a vehicle one slot.\<close>

definition dispatcher_started :: "int \<Rightarrow> ('m, 'o) dispatcher \<Rightarrow> bool" where
  "dispatcher_started slots d \<longleftrightarrow> (\<exists>b0 g p t b ws sel lg m. broker_init g (PInt slots) p t True = Inr b0 \<and> broker_run b0 b
     \<and> dispatcher_init b ws sel True lg m = Inr d \<and> (\<forall>e\<in>set ws. \<exists>u n. worker_init u n = Inr (snd e)))"

lemma broker_step_limit: "broker_step b b' \<Longrightarrow> broker_inv b \<Longrightarrow> mb_max_inflight_per_uav b' = mb_max_inflight_per_uav b"
proof (induction rule: broker_step.induct)
  case (step_submit role p u a ad pl rid sub ctl rep r b clk)
  then show ?case using foreign_effect [OF step_submit(2) foreign_submit [OF step_submit(1)], where mine = "{}"] by blast
next
  case (step_acquire b clk ids)
  then show ?case
    using acquire_next_cases [of clk ids b "fst (acquire_next clk ids b)" "snd (acquire_next clk ids b)"]
    by (auto simp: start_call_def)
next
  case (step_complete b clk rv ad st md fb pr co fi er)
  then show ?case
    using broker_complete_cases [OF step_complete, of clk rv ad st md fb pr co fi er
        "fst (broker_complete clk rv ad st md fb pr co fi er b)" "snd (broker_complete clk rv ad st md fb pr co fi er b)"]
    by (auto simp: free_slot_def)
next
  case (step_cancel_inflight b clk rv reason)
  then show ?case
    using cancel_inflight_cases [OF step_cancel_inflight, of clk rv reason "fst (cancel_inflight clk rv reason b)"
        "snd (cancel_inflight clk rv reason b)"] by (auto simp: revoke_def)
next
  case (step_cancel_pending b rv reason)
  then show ?case
    using cancel_pending_cases [OF step_cancel_pending, of rv reason "fst (cancel_pending rv reason b)"
        "snd (cancel_pending rv reason b)"] by (auto simp: retire_def)
qed

lemma dispatcher_started_sound:
  assumes "dispatcher_started 1 d"
  shows "dispatcher_sound d" and "content_of d = {#}" and "lost_of d = 0" and "owned d = {}" and "\<not> ds_closed d"
proof -
  obtain b0 g p t b ws sel lg m where b0: "broker_init g (PInt 1) p t True = Inr b0" and run: "broker_run b0 b"
    and init: "dispatcher_init b ws sel True lg m = Inr d" and ws: "\<forall>e\<in>set ws. \<exists>u n. worker_init u n = Inr (snd e)"
    using assms unfolding dispatcher_started_def by blast
  have "broker_inv b0" "mb_max_inflight_per_uav b0 = 1"
    using broker_init_inv [OF b0] b0 by (auto simp: broker_init_def rbind_eq_Inr broker_limit_def int_value_Inr split: if_splits)
  with run have "broker_inv b \<and> mb_max_inflight_per_uav b = 1"
    by (induction rule: rtranclp_induct) (auto dest: broker_step_inv broker_step_limit)
  then show "dispatcher_sound d" "content_of d = {#}" "lost_of d = 0" "owned d = {}" "\<not> ds_closed d"
    using dispatcher_init_sound [OF init] ws by auto
qed

section \<open>Properties\<close>

fun admitted_ids :: "dispatcher_note list \<Rightarrow> string list" where
  "admitted_ids [] = []"
| "admitted_ids (Admitted k # h) = k # admitted_ids h"
| "admitted_ids (n # h) = admitted_ids h"

fun returned_ids :: "dispatcher_note list \<Rightarrow> string list" where
  "returned_ids [] = []"
| "returned_ids (Returned k # h) = k # returned_ids h"
| "returned_ids (n # h) = returned_ids h"

lemma note_ids [simp]: "delivery.all_came h = mset (admitted_ids h)" "delivery.all_went h = mset (returned_ids h)"
  by (induction h rule: admitted_ids.induct) (simp_all add: delivery.all_came_def delivery.all_went_def)

lemma admitted_snoc: "admitted_ids (h @ [n]) = admitted_ids h @ admitted_ids [n]"
  by (induction h rule: admitted_ids.induct) simp_all

lemma admitted_once:
  assumes "dispatcher_sound d0" and "logged_run dispatcher_step d0 h d"
  shows "dispatcher_sound d \<and> distinct (admitted_ids h) \<and> set (admitted_ids h) \<subseteq> owned d \<union> log_ids (ds_broker d)"
  using assms(2)
proof (rule logged_run_invariant [where I = "\<lambda>h d. dispatcher_sound d \<and> distinct (admitted_ids h)
      \<and> set (admitted_ids h) \<subseteq> owned d \<union> log_ids (ds_broker d)"])
  fix h n and d d' :: "('a, 'b) dispatcher"
  assume I: "dispatcher_sound d \<and> distinct (admitted_ids h) \<and> set (admitted_ids h) \<subseteq> owned d \<union> log_ids (ds_broker d)"
    and step: "dispatcher_step d n d'"
  note m = movesD [OF dispatcher_step_moves [OF step conjunct1 [OF I]]]
  have "set (admitted_ids h) \<subseteq> used_ids (ds_broker d)"
    using I owned_used [of d] unfolding used_ids_def by blast
  moreover have "set (admitted_ids h) \<subseteq> owned d' \<union> log_ids (ds_broker d')" using I m(2,4) by blast
  moreover have "set (admitted_ids [n]) = set_mset (came_in n)" "distinct (admitted_ids [n])" by (cases n; simp)+
  ultimately show "dispatcher_sound d' \<and> distinct (admitted_ids (h @ [n]))
      \<and> set (admitted_ids (h @ [n])) \<subseteq> owned d' \<union> log_ids (ds_broker d')"
    using I m(1,5) unfolding admitted_snoc by auto
qed (simp add: assms(1))

text \<open>
  C25. Over a broker that grants a vehicle one slot (the shipped configuration), whatever callers, worker
  threads and other users of the broker do, each request the broker admitted for the dispatcher is, once:
  still owned, queued as a result, returned by a poll, or counted as discarded; no identifier is
  admitted twice.
\<close>

theorem dispatcher_accounts:
  assumes "dispatcher_started 1 d0" and "logged_run dispatcher_step d0 h d"
  shows "distinct (admitted_ids h) \<and> (\<exists>lost. mset (admitted_ids h)
      = mset (dkeys (ds_requests d)) + dsum (\<lambda>q. mset (map ar_request q)) (ds_results d) + mset (returned_ids h) + lost
      \<and> size lost = dsum id (ds_discarded d))"
proof -
  note s = dispatcher_started_sound [OF assms(1)]
  from delivery.run_balance [OF assms(2) s(1)] obtain l
    where "content_of d0 + mset (admitted_ids h) = content_of d + mset (returned_ids h) + l"
      "lost_of d = lost_of d0 + size l" by auto
  then have "mset (admitted_ids h) = mset (dkeys (ds_requests d))
      + dsum (\<lambda>q. mset (map ar_request q)) (ds_results d) + mset (returned_ids h) + l"
    "size l = dsum id (ds_discarded d)" using s(2,3) by (simp_all add: content_of_def lost_of_def)
  then show ?thesis using admitted_once [OF s(1) assms(2)] by blast
qed

text \<open>
  C26. Over a broker that grants a vehicle one slot (with two it fails, \<open>second_slot_strands\<close>), a poll never
  fails on the state: in every reachable state the service of the workers returns normally.  If the
  dispatcher is open, it leaves nothing it could start: every global slot is taken, or no waiting request
  is eligible, or the request that is next at a reading of the clock belongs to another user of the
  broker.  And every owned request is in its place: at the worker of its vehicle and in a slot of the
  broker, or waiting at the broker, or dropped there.
\<close>

theorem dispatcher_service_succeeds:
  assumes "dispatcher_started 1 d0" and "logged_run dispatcher_step d0 h d" and "schedule_ok sc"
  shows "(\<exists>d'. dispatcher_service sc d = (Inr (), d') \<and> (\<not> ds_closed d \<longrightarrow> stalled sc d'))
    \<and> (\<forall>k r. dget (ds_requests d) k = Some r \<longrightarrow>
         (if k \<in> ds_dispatched d
          then slot_of (ds_broker d) k (aq_uav r)
            \<and> (\<not> ds_closed d \<longrightarrow> (\<exists>w. dget (ds_workers d) (aq_uav r) = Some w \<and> held w = [k]))
          else waiting_at (ds_broker d) k (aq_uav r) \<or> dropped_by (ds_broker d) k))"
proof -
  have s: "dispatcher_sound d"
    using admitted_once [OF dispatcher_started_sound(1) [OF assms(1)] assms(2)] by blast
  have "\<exists>w. dget (ds_workers d) (aq_uav r) = Some w \<and> held w = [k]"
    if k: "\<not> ds_closed d" "k \<in> ds_dispatched d" "dget (ds_requests d) k = Some r" for k r
  proof -
    obtain w where w: "dget (ds_workers d) (aq_uav r) = Some w" "k \<in> set (held w)" "worker_sound (aq_uav r) w"
      using s k unfolding dispatcher_sound_def workers_sound_def by blast
    then have "length (held w) \<le> 1" by (simp add: worker_sound_def)
    then show ?thesis using w by (cases "held w") auto
  qed
  then show ?thesis
    using dispatcher_service_served [OF s assms(3)] owned_request(4) [OF s] unfolding placed_def by metis
qed

end
