(* ===== verification/Dispatcher_Progress.thy ===== *)
theory Dispatcher_Progress
  imports Dispatcher_Delivery
begin

text \<open>
  Progress of the dispatcher of \<open>fleet/model_request_dispatcher.py\<close>: when the threads of the workers
  answer, repeated service hands every admitted request to its worker and queues its result.  What a
  second slot per vehicle breaks is shown on a concrete run.
\<close>

section \<open>Threads that answer\<close>

text \<open>Between two calls of a worker its thread takes what is pending and the model answers.\<close>

definition finishing :: "schedule \<Rightarrow> bool" where
  "finishing sc \<longleftrightarrow> (\<forall>n. \<exists>outcome. sc_acts sc n = [Act_take, Act_finish outcome])"

definition idle_at :: "('m, 'o) dispatcher \<Rightarrow> string \<Rightarrow> bool" where
  "idle_at d u \<longleftrightarrow> (\<forall>w. dget (ds_workers d) u = Some w \<longrightarrow> held w = [])"

lemma thread_answers:
  assumes "worker_sound u w"
  shows "aw_active (thread_run [Act_take, Act_finish oc] w) = None
    \<and> aw_pending (thread_run [Act_take, Act_finish oc] w) = None"
proof (cases "aw_active w")
  case (Some r)
  then have r: "async_request_ok r" "aw_pending w = None"
    using assms by (auto simp: worker_sound_def held_def split: option.splits)
  have "worker_take w = None" using Some by (simp add: worker_take_def)
  then show ?thesis using r worker_finish_value(1) [OF Some r(1), of oc] by (simp add: thread_run_def)
next
  case None
  show ?thesis
  proof (cases "aw_pending w")
    case N: None
    then show ?thesis using None by (auto simp: thread_run_def worker_take_def worker_finish_def)
  next
    case (Some r)
    then have r: "async_request_ok r" "aw_alive w" using assms by (auto simp: worker_sound_def)
    let ?w = "w\<lparr>aw_pending := None, aw_active := Some r\<rparr>"
    have "worker_take w = Some ?w" using None Some r by (simp add: worker_take_def)
    moreover have "aw_active ?w = Some r" by simp
    ultimately show ?thesis using worker_finish_value(1) [of ?w r oc, OF _ r(1)] by (simp add: thread_run_def)
  qed
qed

lemma collect_one_idle:
  assumes s: "dispatcher_sound d" and sc: "schedule_ok sc" "finishing sc"
    and c: "snd (collect_one sc u d) = d'"
  shows "idle_at d' u" and "idle_at d v \<Longrightarrow> idle_at d' v"
proof -
  show u: "idle_at d' u"
  proof (cases "dget (ds_workers d) u")
    case None
    then show ?thesis using c by (simp add: collect_one_def idle_at_def)
  next
    case (Some w)
    let ?w = "thread_run (sc_acts sc (ds_tick d)) w"
    obtain oc where oc: "sc_acts sc (ds_tick d) = [Act_take, Act_finish oc]" using sc(2) by (auto simp: finishing_def)
    have w: "worker_sound u w" using s Some by (auto simp: dispatcher_sound_def workers_sound_def)
    then have "worker_sound u ?w"
      using thread_run_sound [of u w "sc_acts sc (ds_tick d)"] sc(1) by (simp add: schedule_ok_def)
    then have "held (snd (worker_poll PNone PNone PNone True ?w)) = []"
      using thread_answers [OF w, of oc] by (cases rule: poll_sound) (simp_all add: oc held_def)
    then show ?thesis using c collect_one_workers [of sc u d] Some by (auto simp: idle_at_def dget_dset)
  qed
  show "idle_at d v \<Longrightarrow> idle_at d' v"
    using u c collect_one_workers [of sc u d]
    by (cases "v = u") (auto simp: idle_at_def dget_dset split: option.splits)
qed

lemma collect_worker_idle:
  assumes "dispatcher_sound d" and "schedule_ok sc" and "finishing sc" and "u \<in> set (dkeys (ds_workers d))"
  shows "idle_at (snd (collect_worker sc u d)) u \<and> (\<forall>v. idle_at d v \<longrightarrow> idle_at (snd (collect_worker sc u d)) v)"
  using assms
proof (induction sc u d rule: collect_worker.induct)
  case (1 sc u d)
  obtain again d1 where one: "collect_one sc u d = (Inr again, d1)" "served d d1"
    using collect_one_served [OF "1.prems"(1,2,4)] by blast
  have "dispatcher_sound d1" "u \<in> set (dkeys (ds_workers d1))"
    using one(2) "1.prems"(4) by (simp_all add: served_def)
  with "1.IH" [OF one(1) [symmetric] refl] "1.prems"(2,3)
    have "again \<Longrightarrow> idle_at (snd (collect_worker sc u d1)) u
      \<and> (\<forall>v. idle_at d1 v \<longrightarrow> idle_at (snd (collect_worker sc u d1)) v)" by blast
  then show ?case
    using collect_one_idle [OF "1.prems"(1-3), of u d1] one(1)
    by (subst (1 2) collect_worker.simps) (cases again; simp)
qed

lemma collect_workers_idle:
  assumes "dispatcher_sound d" and "schedule_ok sc" and "finishing sc" and "set us \<subseteq> set (dkeys (ds_workers d))"
  shows "(\<forall>u\<in>set us. idle_at (snd (collect_workers sc us d)) u)
    \<and> (\<forall>v. idle_at d v \<longrightarrow> idle_at (snd (collect_workers sc us d)) v)"
  using assms(1,4)
proof (induction us arbitrary: d)
  case (Cons u us)
  have u: "u \<in> set (dkeys (ds_workers d))" using Cons.prems(2) by simp
  obtain d1 where one: "collect_worker sc u d = (Inr (), d1)" "served d d1"
    using collect_worker_served [OF Cons.prems(1) assms(2) u] by blast
  have "dispatcher_sound d1" "set us \<subseteq> set (dkeys (ds_workers d1))"
    using one(2) Cons.prems(2) by (auto simp: served_def)
  note IH = Cons.IH [OF this]
  have "idle_at d1 u" "\<forall>v. idle_at d v \<longrightarrow> idle_at d1 v"
    using collect_worker_idle [OF Cons.prems(1) assms(2,3) u] one(1) by simp_all
  then show ?case using IH one(1) by simp
qed simp

text \<open>Everything an open dispatcher had handed out comes back.\<close>

lemma collect_results_returns:
  assumes "dispatcher_sound d" and "schedule_ok sc" and "finishing sc" and "\<not> ds_closed d"
  shows "\<exists>d'. collect_worker_results sc d = (Inr (), d') \<and> served d d' \<and> ds_dispatched d' = {}"
proof -
  obtain d' where d': "collect_worker_results sc d = (Inr (), d')" "served d d'"
    using collect_results_served [OF assms(1,2)] by blast
  have keys: "dkeys (ds_workers d') = dkeys (ds_workers d)" using d'(2) by (simp add: served_def)
  have sub: "set (sort (dkeys (ds_workers d))) \<subseteq> set (dkeys (ds_workers d))" by simp
  have "collect_workers sc (sort (dkeys (ds_workers d))) d = (Inr (), d')"
    using d'(1) by (simp only: collect_worker_results_def)
  with collect_workers_idle [OF assms(1-3) sub]
    have "\<forall>u\<in>set (sort (dkeys (ds_workers d))). idle_at d' u" by (simp only: snd_conv) blast
  then have "idle_at d' u" if "u \<in> set (dkeys (ds_workers d'))" for u
    using that unfolding keys set_sort by blast
  then have idle: "held w = []" if "dget (ds_workers d') u = Some w" for u w
    using that dget_in_keys [OF that] unfolding idle_at_def by blast
  have s: "workers_sound d'" "requests_sound d'" "\<not> ds_closed d'"
    using d'(2) assms(4) by (simp_all add: served_def dispatcher_sound_def)
  have "k \<notin> ds_dispatched d'" for k
  proof
    assume k: "k \<in> ds_dispatched d'"
    then have "k \<in> owned d'" using s(2) by (auto simp: requests_sound_def)
    from dget_key [OF this] obtain r where "dget (ds_requests d') k = Some r" by blast
    then obtain w where "dget (ds_workers d') (aq_uav r) = Some w" "k \<in> set (held w)"
      using s(1,3) k unfolding workers_sound_def by blast
    then show False using idle by fastforce
  qed
  then show ?thesis using d' by blast
qed

section \<open>Repeated service\<close>

lemma idle_broker_starts:
  assumes s: "dispatcher_sound d" and al: "alone d" and none: "ds_dispatched d = {}" and st: "stalled sc d"
  shows "mb_pending (ds_broker d) = []"
proof (rule ccontr)
  let ?b = "ds_broker d"
  assume "mb_pending ?b \<noteq> []"
  then obtain x where x: "x \<in> set (mb_pending ?b)" by (cases "mb_pending ?b") auto
  have inv: "broker_inv ?b" "mb_max_inflight_per_uav ?b = 1" using s by (simp_all add: dispatcher_sound_def)
  have empty: "mb_inflight ?b = []" using al none by (auto simp: alone_def inflight_ids_def)
  have "0 < mb_max_inflight_global ?b" using inv(1) by (simp add: broker_inv_def limits_positive_def)
  then obtain y where "y \<in> set (mb_pending ?b)" "mr_id y \<notin> owned d"
  proof -
    have "eligible ?b x" using inv(2) empty by (simp add: eligible_def Let_def same_uav_inflight_def)
    with st x \<open>0 < _\<close> show thesis
      using that unfolding stalled_def empty next_request_def by auto
  qed
  then show False using al by (auto simp: alone_def)
qed

lemma service_progress:
  assumes s: "dispatcher_sound d" and sc: "schedule_ok sc" "finishing sc" and "\<not> ds_closed d" and al: "alone d"
  shows "\<exists>d'. dispatcher_service sc d = (Inr (), d') \<and> served d d'
    \<and> (owned d' = {} \<or> undispatched d' \<subset> undispatched d)"
proof -
  obtain d1 where d1: "collect_worker_results sc d = (Inr (), d1)" "served d d1" "ds_dispatched d1 = {}"
    using collect_results_returns [OF s sc assms(4)] by blast
  then obtain d2 where d2: "reconcile_pending_stale d1 = (Inr (), d2)" "served d1 d2" "ds_dispatched d2 = {}"
    "\<And>k r. dget (ds_requests d2) k = Some r \<Longrightarrow> waiting_at (ds_broker d2) k (aq_uav r)"
    using reconcile_served [of d1] by (auto simp: served_def)
  have s2: "served d d2" using served_trans [OF d1(2) d2(2)] .
  then have sound: "dispatcher_sound d2" and al2: "alone d2" and open2: "ds_closed d2 = ds_closed d"
    using al by (simp_all add: served_def)
  obtain d3 where d3: "dispatcher_pump sc d2 = (Inr (), d3)" "served d2 d3"
    using dispatcher_pump_served [OF sound sc(1)] by blast
  have s3: "served d d3" using served_trans [OF s2 d3(2)] .
  obtain again d' where one: "pump_one sc d2 = (Inr again, d')" "served d2 d'" "\<not> again \<longrightarrow> stalled sc d2"
    "again \<longrightarrow> undispatched d' \<subset> undispatched d2" using pump_one_served [OF sound sc(1)] by blast
  have "owned d3 = {} \<or> undispatched d3 \<subset> undispatched d"
  proof (cases again)
    case True
    then have "dispatcher_pump sc d' = (Inr (), d3)"
      using d3(1) one(1) by (simp add: dispatcher_pump.simps [of sc d2])
    moreover have "dispatcher_sound d'" using one(2) by (simp add: served_def)
    ultimately have "undispatched d3 \<subseteq> undispatched d'"
      using dispatcher_pump_served [of d' sc] sc(1) by (auto simp: served_def)
    then show ?thesis using one(4) True s2 by (auto simp: served_def)
  next
    case False
    then have "mb_pending (ds_broker d2) = []" using idle_broker_starts [OF sound al2 d2(3)] one(3) by blast
    then have no: "\<not> waiting_at (ds_broker d2) k u" for k u by (simp add: waiting_at_def)
    have "k \<notin> owned d2" for k
    proof
      assume "k \<in> owned d2"
      from dget_key [OF this] obtain r where "dget (ds_requests d2) k = Some r" by blast
      from d2(4) [OF this] no show False by blast
    qed
    then have "owned d2 = {}" unfolding set_eq_iff empty_iff by simp
    then show ?thesis using d3(2) by (simp add: served_def)
  qed
  then show ?thesis using d1(1) d2(1) d3(1) s3 open2 assms(4) by (auto simp: dispatcher_service_def)
qed

fun run_services :: "schedule list \<Rightarrow> ('m, 'o) dispatcher \<Rightarrow> unit result \<times> ('m, 'o) dispatcher" where
  "run_services [] d = (Inr (), d)"
| "run_services (sc # scs) d = andthen (dispatcher_service sc d) (\<lambda>_ d. run_services scs d)"

lemma run_services_served:
  assumes "dispatcher_sound d" and "\<not> ds_closed d" and "alone d"
    and "\<And>sc. sc \<in> set scs \<Longrightarrow> schedule_ok sc \<and> finishing sc"
  shows "\<exists>d'. run_services scs d = (Inr (), d') \<and> served d d'
    \<and> (owned d' = {} \<or> card (undispatched d') + length scs \<le> card (undispatched d))"
  using assms
proof (induction scs arbitrary: d)
  case Nil
  then show ?case by (simp add: served_refl)
next
  case (Cons sc scs)
  have sc: "schedule_ok sc" "finishing sc" using Cons.prems(4) by simp_all
  obtain d1 where d1: "dispatcher_service sc d = (Inr (), d1)" "served d d1"
      "owned d1 = {} \<or> undispatched d1 \<subset> undispatched d"
    using service_progress [OF Cons.prems(1) sc Cons.prems(2,3)] by blast
  have "dispatcher_sound d1" "\<not> ds_closed d1" "alone d1" using d1(2) Cons.prems(2,3) by (simp_all add: served_def)
  then obtain d2 where d2: "run_services scs d1 = (Inr (), d2)" "served d1 d2"
      "owned d2 = {} \<or> card (undispatched d2) + length scs \<le> card (undispatched d1)"
    using Cons.IH Cons.prems(4) by auto
  have "owned d2 = {} \<or> card (undispatched d2) + length (sc # scs) \<le> card (undispatched d)"
  proof (cases "owned d1 = {}")
    case True
    then show ?thesis using d2(2) by (auto simp: served_def)
  next
    case False
    then have "card (undispatched d1) < card (undispatched d)"
      using d1(3) by (auto intro!: psubset_card_mono simp: undispatched_def)
    then show ?thesis using d2(3) by auto
  qed
  then show ?case using d1 d2 served_trans [OF d1(2) d2(2)] by auto
qed

text \<open>
  C27. No admitted request is left behind: over a broker that grants a vehicle one slot, in every reachable
  state of an open dispatcher with nobody else's request at the broker, if the worker threads answer, then
  after more services than there are owned requests none is owned any more, and every result, new or queued
  before, is still queued or was discarded from a full queue and counted.
\<close>

theorem dispatcher_drains:
  assumes "dispatcher_started 1 d0" and "logged_run dispatcher_step d0 h d" and "\<not> ds_closed d" and "alone d"
    and "\<And>sc. sc \<in> set scs \<Longrightarrow> schedule_ok sc \<and> finishing sc" and "card (owned d) < length scs"
  shows "\<exists>d' lost. run_services scs d = (Inr (), d') \<and> owned d' = {}
    \<and> mset (dkeys (ds_requests d)) + dsum (\<lambda>q. mset (map ar_request q)) (ds_results d)
        = dsum (\<lambda>q. mset (map ar_request q)) (ds_results d') + lost
    \<and> dsum id (ds_discarded d') = dsum id (ds_discarded d) + size lost"
proof -
  have s: "dispatcher_sound d"
    using admitted_once [OF dispatcher_started_sound(1) [OF assms(1)] assms(2)] by blast
  obtain d' where d': "run_services scs d = (Inr (), d')" "served d d'"
      "owned d' = {} \<or> card (undispatched d') + length scs \<le> card (undispatched d)"
    using run_services_served [OF s assms(3-5)] by blast
  have "card (undispatched d) \<le> card (owned d)" by (auto intro!: card_mono simp: undispatched_def)
  then have "owned d' = {}" using d'(3) assms(6) by auto
  moreover from this have "ds_requests d' = []" by simp
  moreover have "conserves d d'" using d'(2) by (simp add: served_def)
  ultimately show ?thesis using d'(1) by (auto simp: conserves_def content_of_def lost_of_def)
qed

section \<open>An example dispatcher\<close>

text \<open>One vehicle, and a broker that grants it the given number of slots.\<close>

definition example_slots :: "int \<Rightarrow> model_broker" where
  "example_slots n = example_idle\<lparr>mb_max_inflight_global := 2, mb_max_inflight_per_uav := n\<rparr>"

definition example_adapter :: adapter_selection where
  "example_adapter = \<lparr>as_role = RUNTIME_VISUAL_REVIEW, as_adapter = ''visual'', as_status = ADAPTER_ACTIVE,
     as_model = ''m'', as_fallback = False\<rparr>"

definition example_new_worker :: "(nat, nat) worker" where
  "example_new_worker = \<lparr>aw_uav = ''u1'', aw_max = 2, aw_pending = None, aw_active = None, aw_stale = {},
     aw_completed = [], aw_discarded = 0, aw_closed = False, aw_alive = True\<rparr>"

definition example_dispatcher :: "int \<Rightarrow> (nat, nat) dispatcher" where
  "example_dispatcher n = \<lparr>ds_broker = example_slots n, ds_adapter = example_adapter,
     ds_workers = [(''u1'', example_new_worker)], ds_max = 4, ds_has_logger = True, ds_requests = [],
     ds_dispatched = {}, ds_results = [(''u1'', [])], ds_discarded = [(''u1'', 0)], ds_facades = [],
     ds_emitted = {}, ds_closed = False, ds_logged = [], ds_tick = 0\<rparr>"

text \<open>The clock stands still; the threads do nothing, or take what is pending and fail the call.\<close>

definition example_schedule :: "thread_act list \<Rightarrow> schedule" where
  "example_schedule acts = \<lparr>sc_clock = (\<lambda>_. PFloat (Fin 1)), sc_acts = (\<lambda>_. acts), sc_monotonic = (\<lambda>_. 0)\<rparr>"

abbreviation example_quiet :: schedule where
  "example_quiet \<equiv> example_schedule []"

abbreviation example_busy :: schedule where
  "example_busy \<equiv> example_schedule [Act_take, Act_finish Chat_other_error]"

definition example_facade :: worker_facade where
  "example_facade = \<lparr>wf_uav = ''u1'', wf_assignment = None\<rparr>"

definition example_sent :: "int \<Rightarrow> string \<Rightarrow> (nat, nat) dispatcher \<Rightarrow> (nat, nat) dispatcher" where
  "example_sent n i d = snd (dispatcher_submit example_quiet example_facade (example_request i) d)"

lemma example_started: "dispatcher_started 1 (example_dispatcher 1)"
proof -
  have m: "routing_id_match ''u1''" by code_simp
  then have w: "worker_init (PStr ''u1'') (PInt 2) = Inr example_new_worker"
    by (simp add: worker_init_def example_new_worker_def)
  have b: "broker_init (PInt 2) (PInt 1) (PInt 2) (PInt 15) True = Inr (example_slots 1)"
    by (simp add: broker_init_def broker_limit_def finite_nonnegative_def real_value_def
      float_of_int_exact example_idle_def example_slots_def)
  have d: "dispatcher_init (example_slots 1) [(PStr ''u1'', example_new_worker)] example_adapter True True (PInt 4)
      = Inr (example_dispatcher 1)"
    by (simp add: dispatcher_init_def dispatcher_worker_def example_adapter_def example_new_worker_def
        example_dispatcher_def m)
  show ?thesis
    unfolding dispatcher_started_def
    by (intro exI conjI, rule b, rule rtranclp.rtrancl_refl, rule d) (use w in auto)
qed

lemma example_first:
  "dkeys (ds_requests (example_sent 1 ''a'' (example_dispatcher 1))) = [''a'']"
  "ds_dispatched (example_sent 1 ''a'' (example_dispatcher 1)) = {''a''}"
  by code_simp+

lemma example_second:
  "dkeys (ds_requests (example_sent 1 ''b'' (example_sent 1 ''a'' (example_dispatcher 1)))) = [''a'', ''b'']"
  by code_simp

lemma example_admits:
  "fst (dispatcher_admit example_quiet example_facade (example_request ''a'') (example_dispatcher 1)) = Inr ()"
  "fst (dispatcher_admit example_quiet example_facade (example_request ''b'')
     (example_sent 1 ''a'' (example_dispatcher 1))) = Inr ()"
  by code_simp+

lemma example_schedule_ok: "list_all act_ok acts \<Longrightarrow> schedule_ok (example_schedule acts)"
  by (auto simp: schedule_ok_def example_schedule_def)

lemma example_sent_step:
  assumes "fst (dispatcher_admit example_quiet example_facade (example_request i) d) = Inr ()"
    and "routing_id_match i" and "dkeys (ds_workers d) = [''u1'']"
  shows "dispatcher_step d (Admitted i) (example_sent n i d)"
proof -
  have m: "routing_id_match ''v1''" "routing_id_match ''m1''" "routing_id_match ''u1''" "routing_id_match ''f1''"
    by code_simp+
  have "async_request_ok (example_request i)"
    using m assms(2) by (simp add: async_request_ok_def example_request_def)
  moreover have "wf_uav example_facade \<in> set (dkeys (ds_workers d))"
    using assms(3) by (simp add: example_facade_def)
  moreover have "schedule_ok example_quiet" by (rule example_schedule_ok) simp
  moreover have "dispatcher_submit example_quiet example_facade (example_request i) d
      = (fst (dispatcher_submit example_quiet example_facade (example_request i) d), example_sent n i d)"
    by (simp add: example_sent_def)
  ultimately show ?thesis using assms(1) step_admitted [of example_quiet "example_request i" example_facade d]
    by (simp add: example_request_def)
qed

lemma example_run:
  "logged_run dispatcher_step (example_dispatcher 1) [Admitted ''a'', Admitted ''b'']
     (example_sent 1 ''b'' (example_sent 1 ''a'' (example_dispatcher 1)))"
proof -
  have m: "routing_id_match ''a''" "routing_id_match ''b''" by code_simp+
  have w: "dkeys (ds_workers (example_dispatcher 1)) = [''u1'']"
    "dkeys (ds_workers (example_sent 1 ''a'' (example_dispatcher 1))) = [''u1'']" by code_simp+
  have "logged_run dispatcher_step (example_dispatcher 1) (([] @ [Admitted ''a'']) @ [Admitted ''b''])
     (example_sent 1 ''b'' (example_sent 1 ''a'' (example_dispatcher 1)))"
    by (rule logged_more, rule logged_more, rule logged_start)
      (rule example_sent_step [OF example_admits(1) m(1) w(1)], rule example_sent_step [OF example_admits(2) m(2) w(2)])
  then show ?thesis by simp
qed

theorem dispatcher_accounts_witness:
  "distinct [''a'', ''b''] \<and> (\<exists>lost. mset [''a'', ''b''] = mset [''a'', ''b'']
      + dsum (\<lambda>q. mset (map ar_request q)) (ds_results (example_sent 1 ''b'' (example_sent 1 ''a'' (example_dispatcher 1))))
      + lost \<and> size lost = dsum id (ds_discarded (example_sent 1 ''b'' (example_sent 1 ''a'' (example_dispatcher 1)))))"
  using dispatcher_accounts [OF example_started example_run] unfolding example_second by simp

theorem dispatcher_service_succeeds_witness:
  "\<exists>d'. dispatcher_service example_busy (example_sent 1 ''b'' (example_sent 1 ''a'' (example_dispatcher 1))) = (Inr (), d')
     \<and> stalled example_busy d'"
proof -
  have "schedule_ok example_busy" by (rule example_schedule_ok) simp
  moreover have "\<not> ds_closed (example_sent 1 ''b'' (example_sent 1 ''a'' (example_dispatcher 1)))" by code_simp
  ultimately show ?thesis using dispatcher_service_succeeds [OF example_started example_run] by blast
qed

theorem dispatcher_drains_witness:
  "\<exists>d'. run_services [example_busy, example_busy, example_busy]
       (example_sent 1 ''b'' (example_sent 1 ''a'' (example_dispatcher 1))) = (Inr (), d')
     \<and> owned d' = {}"
proof -
  let ?d = "example_sent 1 ''b'' (example_sent 1 ''a'' (example_dispatcher 1))"
  let ?scs = "[example_busy, example_busy, example_busy]"
  have o: "\<not> ds_closed ?d" by code_simp
  have "map mr_id (mb_pending (ds_broker ?d)) = [''b'']" "dkeys (mb_inflight (ds_broker ?d)) = [''a'']"
    "ds_dispatched ?d = {''a''}" by code_simp+
  then have al: "alone ?d" unfolding alone_def inflight_ids_def set_map [symmetric] example_second by simp
  have sc: "schedule_ok sc \<and> finishing sc" if "sc \<in> set ?scs" for sc
    using that example_schedule_ok by (auto simp: finishing_def example_schedule_def)
  have len: "card (owned ?d) < length ?scs" unfolding example_second by simp
  from dispatcher_drains [OF example_started example_run o al sc len] show ?thesis by auto
qed

section \<open>A second slot for a vehicle\<close>

text \<open>When no worker has anything and nothing waits, service changes nothing.\<close>

lemma idle_thread:
  assumes "aw_active w = None" and "aw_pending w = None" and "\<not> aw_closed w"
  shows "thread_run acts w = w"
  unfolding thread_run_def
proof (induction acts)
  case (Cons a acts)
  then show ?case using assms by (cases a) (simp_all add: worker_take_def worker_finish_def)
qed simp

lemma idle_service:
  assumes w: "ds_workers d = [(u, w)]" "aw_active w = None" "aw_pending w = None" "\<not> aw_closed w" "aw_completed w = []"
    and p: "mb_pending (ds_broker d) = []" and r: "dkeys (ds_requests d) = [k]" "ds_dispatched d = {k}"
    and op: "\<not> ds_closed d"
  shows "dispatcher_service (example_schedule acts) d = (Inr (), d\<lparr>ds_tick := Suc (Suc (ds_tick d))\<rparr>)"
proof -
  let ?sc = "example_schedule acts"
  have poll: "worker_poll PNone PNone PNone True w = (Inr None, w)"
    using w(5) by (cases w) (simp add: worker_poll_def)
  have "collect_one ?sc u d = (Inr False, d\<lparr>ds_tick := Suc (ds_tick d)\<rparr>)"
    using w idle_thread [OF w(2-4)] poll by (cases d) (simp add: collect_one_def)
  then have c: "collect_worker_results ?sc d = (Inr (), d\<lparr>ds_tick := Suc (ds_tick d)\<rparr>)"
    by (simp add: collect_worker_results_def w(1) collect_worker.simps [of ?sc u d])
  obtain q where q: "ds_requests d = [(k, q)]" using r(1) by (cases "ds_requests d") auto
  have rc: "reconcile_pending_stale (d\<lparr>ds_tick := n\<rparr>) = (Inr (), d\<lparr>ds_tick := n\<rparr>)" for n
    by (simp add: reconcile_pending_stale_def q r(2))
  have "acquire_next (PFloat (Fin 1)) (Some [k]) (ds_broker d) = (Inr None, ds_broker d)"
    using p acquire_next_value [of "PFloat (Fin 1)" 1 "[k]" "ds_broker d"] by auto
  then have "pump_one ?sc (d\<lparr>ds_tick := n\<rparr>) = (Inr False, d\<lparr>ds_tick := Suc n\<rparr>)" for n
    by (simp add: pump_one_def r(1) example_schedule_def q)
  then have "dispatcher_pump ?sc (d\<lparr>ds_tick := n\<rparr>) = (Inr (), d\<lparr>ds_tick := Suc n\<rparr>)" for n
    by (simp add: dispatcher_pump.simps [of ?sc "d\<lparr>ds_tick := n\<rparr>"])
  then show ?thesis using c rc op by (simp add: dispatcher_service_def)
qed

lemma idle_services:
  assumes "ds_workers d = [(u, w)]" "aw_active w = None" "aw_pending w = None" "\<not> aw_closed w" "aw_completed w = []"
    and "mb_pending (ds_broker d) = []" and "dkeys (ds_requests d) = [k]" "ds_dispatched d = {k}" and "\<not> ds_closed d"
  shows "\<exists>n. run_services (map example_schedule actss) d = (Inr (), d\<lparr>ds_tick := n\<rparr>)"
  using assms
proof (induction actss arbitrary: d)
  case Nil
  show ?case by (intro exI [of _ "ds_tick d"]) simp
next
  case (Cons acts actss)
  from idle_service [OF Cons.prems] obtain m
    where "dispatcher_service (example_schedule acts) d = (Inr (), d\<lparr>ds_tick := m\<rparr>)" by blast
  moreover obtain n where "run_services (map example_schedule actss) (d\<lparr>ds_tick := m\<rparr>) = (Inr (), d\<lparr>ds_tick := n\<rparr>)"
    using Cons.IH [of "d\<lparr>ds_tick := m\<rparr>"] Cons.prems by auto
  ultimately show ?case by (intro exI [of _ n]) simp
qed

definition example_stranded :: "(nat, nat) dispatcher" where
  "example_stranded = snd (run_services [example_busy]
     (example_sent 2 ''b'' (example_sent 2 ''a'' (example_dispatcher 2))))"

text \<open>
  C28. With two slots for a vehicle a request is lost for good: the second one overwrites the first in the worker
  before its thread takes it, the first stays dispatched, and whatever the thread does and however often the
  dispatcher is serviced, it is owned, its vehicle busy and its slot taken; closing then fails.
\<close>

theorem second_slot_strands:
  "\<exists>d'. run_services (map example_schedule actss) example_stranded = (Inr (), d')
     \<and> ds_dispatched d' = {''a''} \<and> is_uav_busy ''u1'' d' \<and> dkeys (mb_inflight (ds_broker d')) = [''a'']
     \<and> fst (close_dispatcher example_busy PNone example_stranded)
       = Inl (ModelRequestDispatcherError ''worker close returned without a result for acquired request(s): a'')"
proof -
  have c: "fst (close_dispatcher example_busy PNone example_stranded)
      = Inl (ModelRequestDispatcherError ''worker close returned without a result for acquired request(s): a'')"
    by code_simp
  have w: "ds_workers example_stranded = [(''u1'', example_new_worker)]"
    and st: "mb_pending (ds_broker example_stranded) = []" "dkeys (ds_requests example_stranded) = [''a'']"
      "ds_dispatched example_stranded = {''a''}" "\<not> ds_closed example_stranded"
    and b: "is_uav_busy ''u1'' example_stranded" "dkeys (mb_inflight (ds_broker example_stranded)) = [''a'']"
    by code_simp+
  obtain n where "run_services (map example_schedule actss) example_stranded = (Inr (), example_stranded\<lparr>ds_tick := n\<rparr>)"
    using idle_services [OF w _ _ _ _ st] by (auto simp: example_new_worker_def)
  then show ?thesis using st b c by (simp add: is_uav_busy_def)
qed

end
