(* ===== verification/Text_Runner.thy ===== *)
theory Text_Runner
  imports Request_Dispatcher Broker_View Py_Ledger
begin

text \<open>
  \<open>BrokeredTextTaskRunner\<close> of \<open>fleet/model_request_dispatcher.py\<close>: replanning computations admitted by
  the same broker as the visual requests.  The owner thread submits, pumps, polls and cancels; each
  admitted computation runs on a thread of its own, whose only effect is to add its outcome to
  \<open>_done\<close> (\<open>compute_returns\<close>).

  The clock readings, what the callback \<open>prepare\<close> of a task answers, whether a thread starts and which
  threads return while \<open>close\<close> joins them come from a \<open>text_schedule\<close>, counted by \<open>tn_tick\<close>.  The
  callback does not call the runner.  The calling thread is an argument.
\<close>

section \<open>Tasks, results and schedules\<close>

text \<open>The exceptions of callbacks and computations are values of the parameter \<open>'x\<close>.\<close>

datatype 'x task_exn = Callback_exn 'x | Runner_exn exn

record ('v, 'x) text_result =
  tt_id :: string
  tt_value :: "'v option"
  tt_exception :: "'x task_exn option"
  tt_stale :: bool
  tt_reason :: "string option"

definition text_result_of :: "string \<Rightarrow> 'v option \<Rightarrow> 'x task_exn option \<Rightarrow> ('v, 'x) text_result" where
  "text_result_of k v e = \<lparr>tt_id = k, tt_value = v, tt_exception = e, tt_stale = False, tt_reason = None\<rparr>"

definition stale_text_result :: "string \<Rightarrow> string \<Rightarrow> ('v, 'x) text_result" where
  "stale_text_result k reason =
     \<lparr>tt_id = k, tt_value = None, tt_exception = None, tt_stale = True, tt_reason = Some reason\<rparr>"

definition text_succeeded :: "('v, 'x) text_result \<Rightarrow> bool" where
  "text_succeeded r = (\<not> tt_stale r \<and> tt_exception r = None)"

record 'p text_task =
  tk_request :: model_request
  tk_prepare :: 'p
  tk_deadline :: "rat option"
  tk_selection :: "adapter_selection option"

text \<open>What \<open>prepare\<close> ends with: a callable, \<open>None\<close>, something else, or an exception.\<close>

datatype 'x prepared = Prepared | Rejected | Not_callable | Prepare_raises 'x

record ('p, 'v, 'x) text_schedule =
  tc_clock :: "nat \<Rightarrow> pyval"
  tc_prepare :: "nat \<Rightarrow> 'p \<Rightarrow> 'x prepared"
  tc_start :: "nat \<Rightarrow> 'x option"
  tc_returns :: "nat \<Rightarrow> (string \<times> ('v + 'x)) list"

record ('p, 'v, 'x) text_runner =
  tn_broker :: model_broker
  tn_max_workers :: int
  tn_max_outstanding :: int
  tn_has_logger :: bool
  tn_owner :: nat
  tn_tasks :: "(string \<times> 'p text_task) list"
  tn_active :: "(string \<times> bool) list"
  tn_done :: "('v, 'x) text_result list"
  tn_results :: "(string \<times> ('v, 'x) text_result) list"
  tn_revoked :: "(string \<times> string) list"
  tn_emitted :: "string set"
  tn_closed :: bool
  tn_logged :: "pyval list"
  tn_tick :: nat

definition role_priority :: "string \<Rightarrow> model_priority option" where
  "role_priority role =
     (if role = call_role_text FLEET_REPLAN then Some P1_FLEET_REPLAN
      else if role = call_role_text RUNTIME_REPLAN then Some P2_AGENT_RUNTIME_REPLAN else None)"

definition positive_limit :: "pyval \<Rightarrow> string \<Rightarrow> int result" where
  "positive_limit v name =
     int_value (ValueError (name @ '' must be a positive integer''))
       (ValueError (name @ '' must be a positive integer'')) (\<lambda>i. 0 < i) v"

definition text_runner_init ::
  "model_broker \<Rightarrow> bool \<Rightarrow> pyval \<Rightarrow> pyval \<Rightarrow> bool \<Rightarrow> nat \<Rightarrow> ('p, 'v, 'x) text_runner result" where
  "text_runner_init broker clock_callable max_workers max_outstanding has_logger caller =
     (if \<not> clock_callable then Inl (TypeError ''clock must be callable'')
      else
        rbind (positive_limit (case max_workers of PNone \<Rightarrow> PInt (mb_max_inflight_global broker) | v \<Rightarrow> v)
                 ''max_workers'') (\<lambda>workers.
        rbind (positive_limit max_outstanding ''max_outstanding_tasks'') (\<lambda>outstanding.
        Inr \<lparr>tn_broker = broker, tn_max_workers = workers, tn_max_outstanding = outstanding,
             tn_has_logger = has_logger, tn_owner = caller, tn_tasks = [], tn_active = [], tn_done = [],
             tn_results = [], tn_revoked = [], tn_emitted = {}, tn_closed = False, tn_logged = [], tn_tick = 0\<rparr>)))"

definition assert_owner :: "nat \<Rightarrow> ('p, 'v, 'x) text_runner \<Rightarrow> unit result" where
  "assert_owner caller t =
     (if caller = tn_owner t then Inr ()
      else Inl (RuntimeError ''text task admission must run on its owner thread''))"

definition text_inflight_count :: "('p, 'v, 'x) text_runner \<Rightarrow> nat" where
  "text_inflight_count t = length (tn_active t)"

definition text_pending_count :: "('p, 'v, 'x) text_runner \<Rightarrow> int" where
  "text_pending_count t = int (length (tn_tasks t)) - int (length (tn_active t))"

section \<open>Submission\<close>

definition text_outstanding :: "('p, 'v, 'x) text_runner \<Rightarrow> nat" where
  "text_outstanding t = length (remdups (dkeys (tn_tasks t) @ dkeys (tn_results t)))"

definition check_selection :: "model_request \<Rightarrow> adapter_selection option \<Rightarrow> unit result" where
  "check_selection request selection = (case selection of
     None \<Rightarrow> Inr ()
   | Some s \<Rightarrow>
       if call_role_text (as_role s) \<noteq> mr_role request
       then Inl (ValueError ''adapter_selection role does not match text task'')
       else if mr_adapter request \<noteq> None \<and> mr_adapter request \<noteq> Some (as_adapter s)
       then Inl (ValueError ''adapter_selection does not match requested_adapter'')
       else Inr ())"

definition text_submit ::
  "('p, 'v, 'x) text_schedule \<Rightarrow> nat \<Rightarrow> model_request \<Rightarrow> 'p \<Rightarrow> pyval \<Rightarrow> adapter_selection option
     \<Rightarrow> ('p, 'v, 'x) text_runner \<Rightarrow> string result \<times> ('p, 'v, 'x) text_runner" where
  "text_submit sc caller request prep deadline selection t =
     checked t (assert_owner caller t) (\<lambda>_.
     if role_priority (mr_role request) = None \<or> role_priority (mr_role request) \<noteq> Some (mr_priority request)
     then (Inl (ValueError ''text task role and priority must be trusted replanning roles''), t)
     else if \<not> mr_control request
     then (Inl (ValueError ''text replanning tasks must be control_related''), t)
     else
       checked t (opt_check (\<lambda>v. dispatcher_timestamp v ''deadline_at_s'') deadline) (\<lambda>deadline.
       checked t (check_selection request selection) (\<lambda>_.
         if tn_closed t then (Inl (RuntimeError ''text task runner is closed''), t)
         else if tn_max_outstanding t \<le> int (text_outstanding t)
         then (Inl (ModelRequestDispatcherError ''text task outstanding capacity is full''), t)
         else
           let (s, b) = broker_submit (tc_clock sc (tn_tick t)) request (tn_broker t);
               t = t\<lparr>tn_broker := b, tn_tick := Suc (tn_tick t)\<rparr>
           in checked t s (\<lambda>_. (Inr (mr_id request),
                t\<lparr>tn_tasks := dset (tn_tasks t) (mr_id request)
                    \<lparr>tk_request = request, tk_prepare = prep, tk_deadline = deadline, tk_selection = selection\<rparr>\<rparr>)))))"

section \<open>Cancelling and finishing\<close>

definition text_emit :: "model_call_log \<Rightarrow> ('p, 'v, 'x) text_runner \<Rightarrow> ('p, 'v, 'x) text_runner" where
  "text_emit record t =
     (if cl_id record \<in> tn_emitted t then t
      else t\<lparr>tn_emitted := insert (cl_id record) (tn_emitted t),
             tn_logged := (if tn_has_logger t then tn_logged t @ [call_log_to_dict record] else tn_logged t)\<rparr>)"

text \<open>\<open>record.stale_reason or reason\<close>.\<close>

definition or_reason :: "string option \<Rightarrow> string \<Rightarrow> string" where
  "or_reason stale_reason reason = (case stale_reason of Some (c # s) \<Rightarrow> c # s | _ \<Rightarrow> reason)"

definition cancel_active ::
  "('p, 'v, 'x) text_schedule \<Rightarrow> string \<Rightarrow> string \<Rightarrow> ('p, 'v, 'x) text_runner \<Rightarrow> unit result \<times> ('p, 'v, 'x) text_runner" where
  "cancel_active sc k reason t =
     (let (r, b) = cancel_inflight (tc_clock sc (tn_tick t)) (PStr k) (PStr reason) (tn_broker t);
          t = t\<lparr>tn_broker := b, tn_tick := Suc (tn_tick t)\<rparr>
      in checked t r (\<lambda>record.
           (Inr (), text_emit record
              (t\<lparr>tn_revoked := dset (tn_revoked t) k (or_reason (cl_stale_reason record) reason)\<rparr>))))"

text \<open>The answer is the reason to report; the newest record of the request is emitted.\<close>

definition cancel_queued ::
  "string \<Rightarrow> string \<Rightarrow> ('p, 'v, 'x) text_runner \<Rightarrow> string result \<times> ('p, 'v, 'x) text_runner" where
  "cancel_queued k reason t =
     (let (r, b) = cancel_pending (PStr k) (PStr reason) (tn_broker t);
          t = t\<lparr>tn_broker := b\<rparr>;
          popped = t\<lparr>tn_tasks := ddel (tn_tasks t) k\<rparr>;
          finished = (case List.find (\<lambda>c. cl_id c = k) (rev (mb_logs b)) of
              Some record \<Rightarrow> (Inr (or_reason (cl_stale_reason record) reason), text_emit record popped)
            | None \<Rightarrow> (Inr reason, popped))
      in case r of
           Inr _ \<Rightarrow> finished
         | Inl (ModelRequestBrokerError m) \<Rightarrow> finished
         | Inl e \<Rightarrow> (Inl e, t))"

definition cancel_task ::
  "('p, 'v, 'x) text_schedule \<Rightarrow> string \<Rightarrow> string \<Rightarrow> ('p, 'v, 'x) text_runner \<Rightarrow> bool result \<times> ('p, 'v, 'x) text_runner" where
  "cancel_task sc k reason t =
     (if k \<in> set (dkeys (tn_revoked t)) then (Inr False, t)
      else case dget (tn_tasks t) k of
        None \<Rightarrow>
          (case dget (tn_results t) k of
             None \<Rightarrow> (Inr False, t)
           | Some x \<Rightarrow> if tt_stale x then (Inr False, t)
                     else (Inr True, t\<lparr>tn_results := dset (tn_results t) k (stale_text_result k reason)\<rparr>))
      | Some task \<Rightarrow>
          andthen (if k \<in> set (dkeys (tn_active t)) then andthen (cancel_active sc k reason t) (\<lambda>_ t. (Inr reason, t))
                   else cancel_queued k reason t) (\<lambda>reason t.
            (Inr True, t\<lparr>tn_results := dset (tn_results t) k (stale_text_result k reason)\<rparr>)))"

definition text_complete ::
  "('p, 'v, 'x) text_schedule \<Rightarrow> string \<Rightarrow> adapter_selection option \<Rightarrow> bool \<Rightarrow> ('p, 'v, 'x) text_runner
     \<Rightarrow> model_call_log result \<times> ('p, 'v, 'x) text_runner" where
  "text_complete sc k selection failed t =
     (let (r, b) = broker_complete (tc_clock sc (tn_tick t)) (PStr k)
            (case selection of None \<Rightarrow> PNone | Some s \<Rightarrow> PStr (as_adapter s))
            (case selection of None \<Rightarrow> PNone | Some s \<Rightarrow> PStr (adapter_status_text (as_status s)))
            (case selection of None \<Rightarrow> PNone | Some s \<Rightarrow> PStr (as_model s))
            (PBool (case selection of None \<Rightarrow> False | Some s \<Rightarrow> as_fallback s))
            (PInt 0) (PInt 0) PNone (if failed then PStr ''TEXT_TASK_FAILED'' else PNone) (tn_broker t)
      in (r, t\<lparr>tn_broker := b, tn_tick := Suc (tn_tick t)\<rparr>))"

definition finish_task ::
  "('p, 'v, 'x) text_schedule \<Rightarrow> ('v, 'x) text_result \<Rightarrow> ('p, 'v, 'x) text_runner
     \<Rightarrow> unit result \<times> ('p, 'v, 'x) text_runner" where
  "finish_task sc x t =
     (case dget (tn_tasks t) (tt_id x) of
        None \<Rightarrow> (Inl (KeyError (tt_id x)), t)
      | Some task \<Rightarrow>
          let t = t\<lparr>tn_tasks := ddel (tn_tasks t) (tt_id x)\<rparr>
          in if tt_id x \<notin> set (dkeys (tn_active t)) then (Inl (KeyError (tt_id x)), t)
             else
               andthen (text_complete sc (tt_id x) (tk_selection task) (tt_exception x \<noteq> None)
                   (t\<lparr>tn_active := ddel (tn_active t) (tt_id x)\<rparr>)) (\<lambda>record t.
               let revoked = tt_id x \<in> set (dkeys (tn_revoked t));
                   t = t\<lparr>tn_revoked := ddel (tn_revoked t) (tt_id x)\<rparr>;
                   t = (if revoked then t
                        else t\<lparr>tn_results := dset (tn_results t) (tt_id x)
                          (x\<lparr>tt_stale := (cl_state record = BRS_STALE), tt_reason := cl_stale_reason record\<rparr>)\<rparr>)
               in (Inr (), text_emit record t)))"

text \<open>\<open>_collect_done\<close>; finishing a task adds nothing to \<open>_done\<close>.\<close>

fun collect_done_list ::
  "('p, 'v, 'x) text_schedule \<Rightarrow> ('v, 'x) text_result list \<Rightarrow> ('p, 'v, 'x) text_runner
     \<Rightarrow> unit result \<times> ('p, 'v, 'x) text_runner" where
  "collect_done_list sc [] t = (Inr (), t)"
| "collect_done_list sc (x # xs) t =
     andthen (finish_task sc x (t\<lparr>tn_done := xs\<rparr>)) (\<lambda>_ t. collect_done_list sc xs t)"

definition collect_done ::
  "('p, 'v, 'x) text_schedule \<Rightarrow> ('p, 'v, 'x) text_runner \<Rightarrow> unit result \<times> ('p, 'v, 'x) text_runner" where
  "collect_done sc t = collect_done_list sc (tn_done t) t"

text \<open>A thread returns: the second critical section of \<open>_run_compute\<close>.\<close>

definition compute_returns ::
  "string \<Rightarrow> 'v + 'x \<Rightarrow> ('p, 'v, 'x) text_runner \<Rightarrow> ('p, 'v, 'x) text_runner" where
  "compute_returns k oc t =
     (if dget (tn_active t) k = Some True \<and> k \<notin> set (map tt_id (tn_done t))
      then t\<lparr>tn_done := tn_done t @ [case oc of Inl v \<Rightarrow> text_result_of k (Some v) None
                                      | Inr e \<Rightarrow> text_result_of k None (Some (Callback_exn e))]\<rparr>
      else t)"

section \<open>The pump\<close>

fun cancel_overdue ::
  "('p, 'v, 'x) text_schedule \<Rightarrow> rat \<Rightarrow> (string \<times> 'p text_task) list \<Rightarrow> ('p, 'v, 'x) text_runner
     \<Rightarrow> unit result \<times> ('p, 'v, 'x) text_runner" where
  "cancel_overdue sc now [] t = (Inr (), t)"
| "cancel_overdue sc now ((k, task) # items) t =
     (case tk_deadline task of
        None \<Rightarrow> cancel_overdue sc now items t
      | Some d \<Rightarrow>
          if now < d then cancel_overdue sc now items t
          else andthen (cancel_task sc k ''DEADLINE_EXCEEDED'' t) (\<lambda>_ t. cancel_overdue sc now items t))"

fun cancel_superseded ::
  "('p, 'v, 'x) text_schedule \<Rightarrow> model_call_log list \<Rightarrow> ('p, 'v, 'x) text_runner
     \<Rightarrow> unit result \<times> ('p, 'v, 'x) text_runner" where
  "cancel_superseded sc [] t = (Inr (), t)"
| "cancel_superseded sc (record # records) t =
     (if cl_state record = BRS_STALE \<and> cl_id record \<in> set (dkeys (tn_tasks t))
      then andthen (cancel_task sc (cl_id record) (or_reason (cl_stale_reason record) ''STALE'') t)
             (\<lambda>_ t. cancel_superseded sc records t)
      else cancel_superseded sc records t)"

text \<open>After \<open>prepare\<close> answered: revoke if it rejected or the deadline passed, else start the thread.\<close>

definition launch ::
  "('p, 'v, 'x) text_schedule \<Rightarrow> string \<Rightarrow> 'p text_task \<Rightarrow> bool \<Rightarrow> ('p, 'v, 'x) text_runner
     \<Rightarrow> unit result \<times> ('p, 'v, 'x) text_runner" where
  "launch sc k task rejected t =
     andthen (if rejected then cancel_task sc k ''SNAPSHOT_REJECTED'' t else (Inr False, t)) (\<lambda>_ t.
     andthen (case tk_deadline task of
                None \<Rightarrow> (Inr False, t)
              | Some d \<Rightarrow>
                  checked (t\<lparr>tn_tick := Suc (tn_tick t)\<rparr>) (dispatcher_timestamp (tc_clock sc (tn_tick t)) ''clock result'')
                    (\<lambda>now. let t = t\<lparr>tn_tick := Suc (tn_tick t)\<rparr>
                      in if now < d then (Inr False, t) else cancel_task sc k ''DEADLINE_EXCEEDED'' t)) (\<lambda>_ t.
       if k \<in> set (dkeys (tn_revoked t)) then finish_task sc (text_result_of k None None) t
       else
         let t = t\<lparr>tn_active := dset (tn_active t) k True, tn_tick := Suc (tn_tick t)\<rparr>
         in (case tc_start sc (tn_tick t) of
               None \<Rightarrow> (Inr (), t)
             | Some e \<Rightarrow> finish_task sc (text_result_of k None (Some (Callback_exn e))) t)))"

definition admit_task ::
  "('p, 'v, 'x) text_schedule \<Rightarrow> string \<Rightarrow> ('p, 'v, 'x) text_runner \<Rightarrow> unit result \<times> ('p, 'v, 'x) text_runner" where
  "admit_task sc k t =
     (case dget (tn_tasks t) k of
        None \<Rightarrow> (Inl (KeyError k), t)
      | Some task \<Rightarrow>
          let t = t\<lparr>tn_active := dset (tn_active t) k False, tn_tick := Suc (tn_tick t)\<rparr>
          in (case tc_prepare sc (tn_tick t) (tk_prepare task) of
                Prepare_raises e \<Rightarrow> finish_task sc (text_result_of k None (Some (Callback_exn e))) t
              | Not_callable \<Rightarrow> finish_task sc (text_result_of k None
                  (Some (Runner_exn (TypeError ''prepare must return a callable or None'')))) t
              | Rejected \<Rightarrow> launch sc k task True t
              | Prepared \<Rightarrow> launch sc k task False t))"

text \<open>One turn of the admission loop of \<open>pump\<close>; the answer tells whether the loop goes on.\<close>

definition text_pump_one ::
  "('p, 'v, 'x) text_schedule \<Rightarrow> ('p, 'v, 'x) text_runner \<Rightarrow> bool result \<times> ('p, 'v, 'x) text_runner" where
  "text_pump_one sc t =
     (if tn_closed t \<or> tn_max_workers t \<le> int (length (tn_active t)) then (Inr False, t)
      else
        let (r, b) = acquire_next (tc_clock sc (tn_tick t)) (Some (dkeys (tn_tasks t))) (tn_broker t);
            t = t\<lparr>tn_broker := b, tn_tick := Suc (tn_tick t)\<rparr>
        in checked t r (\<lambda>acquired. case acquired of
             None \<Rightarrow> (Inr False, t)
           | Some br \<Rightarrow> andthen (admit_task sc (mr_id br) t) (\<lambda>_ t. (Inr True, t))))"

lemma record_stale_pending: "mb_pending (snd (record_stale r s l b)) = mb_pending b"
  unfolding record_stale_def by (rule checked_keeps [where P = "\<lambda>b'. mb_pending b' = mb_pending b"]) simp_all

lemma cancel_inflight_pending:
  assumes "cancel_inflight c k s b = (r, b')"
  shows "mb_pending b' = mb_pending b"
proof -
  have "mb_pending (snd (cancel_inflight c k s b)) = mb_pending b"
    unfolding cancel_inflight_def
    by (auto simp: record_stale_pending split: option.splits
        intro!: checked_keeps [where P = "\<lambda>b'. mb_pending b' = mb_pending b"]
          andthen_keeps [where P = "\<lambda>b'. mb_pending b' = mb_pending b"])
  then show ?thesis using assms by simp
qed

lemma cancel_pending_pending:
  assumes "cancel_pending k s b = (r, b')"
  shows "length (mb_pending b') \<le> length (mb_pending b)"
proof -
  have "length (mb_pending (snd (cancel_pending k s b))) \<le> length (mb_pending b)"
    unfolding cancel_pending_def
    by (auto simp: record_stale_pending length_remove1 split: option.splits
        intro!: checked_keeps [where P = "\<lambda>b'. length (mb_pending b') \<le> length (mb_pending b)"]
          andthen_keeps [where P = "\<lambda>b'. length (mb_pending b') \<le> length (mb_pending b)"])
  then show ?thesis using assms by simp
qed

abbreviation text_waiting :: "('p, 'v, 'x) text_runner \<Rightarrow> nat" where
  "text_waiting t \<equiv> length (mb_pending (tn_broker t))"

lemma text_emit_broker [simp]: "tn_broker (text_emit c t) = tn_broker t"
  by (simp add: text_emit_def)

lemma text_complete_waiting: "text_waiting (snd (text_complete sc k s f t)) = text_waiting t"
  by (auto simp: text_complete_def dest!: broker_complete_pending split: prod.splits)

lemma finish_task_waiting: "text_waiting t \<le> n \<Longrightarrow> text_waiting (snd (finish_task sc x t)) \<le> n"
  by (auto simp: finish_task_def Let_def text_complete_waiting
      intro!: andthen_keeps [where P = "\<lambda>t. text_waiting t \<le> n"] split: option.splits)

lemma cancel_active_waiting: "text_waiting t \<le> n \<Longrightarrow> text_waiting (snd (cancel_active sc k s t)) \<le> n"
  by (auto simp: cancel_active_def Let_def dest!: cancel_inflight_pending
      intro!: checked_keeps [where P = "\<lambda>t. text_waiting t \<le> n"] split: prod.splits)

lemma cancel_queued_waiting: "text_waiting t \<le> n \<Longrightarrow> text_waiting (snd (cancel_queued k s t)) \<le> n"
  using cancel_pending_pending le_trans
  by (fastforce simp: cancel_queued_def Let_def split: prod.splits sum.splits exn.splits option.splits)

lemma cancel_task_waiting: "text_waiting t \<le> n \<Longrightarrow> text_waiting (snd (cancel_task sc k s t)) \<le> n"
  by (auto simp: cancel_task_def cancel_active_waiting cancel_queued_waiting
      intro!: andthen_keeps [where P = "\<lambda>t. text_waiting t \<le> n"] split: option.splits)

lemma launch_waiting: "text_waiting t \<le> n \<Longrightarrow> text_waiting (snd (launch sc k task rej t)) \<le> n"
  unfolding launch_def Let_def
  by (rule andthen_keeps [where P = "\<lambda>t. text_waiting t \<le> n"],
      simp add: cancel_task_waiting, rule andthen_keeps [where P = "\<lambda>t. text_waiting t \<le> n"])
    (auto simp: cancel_task_waiting finish_task_waiting
      intro!: checked_keeps [where P = "\<lambda>t. text_waiting t \<le> n"] split: option.splits)

lemma admit_task_waiting: "text_waiting t \<le> n \<Longrightarrow> text_waiting (snd (admit_task sc k t)) \<le> n"
  by (auto simp: admit_task_def Let_def finish_task_waiting launch_waiting split: option.splits prepared.splits)

lemma text_pump_one_shrinks:
  assumes "text_pump_one sc t = (Inr True, t')"
  shows "text_waiting t' < text_waiting t"
proof -
  obtain br b where a: "acquire_next (tc_clock sc (tn_tick t)) (Some (dkeys (tn_tasks t))) (tn_broker t) = (Inr (Some br), b)"
    and t': "t' = snd (admit_task sc (mr_id br) (t\<lparr>tn_broker := b, tn_tick := Suc (tn_tick t)\<rparr>))"
    using assms unfolding text_pump_one_def
    by (auto simp: Let_def split: prod.splits checked_split_asm option.splits if_splits simp: andthen_eq_Inr)
  have "text_waiting t' \<le> length (mb_pending b)" unfolding t' by (rule admit_task_waiting) simp
  then show ?thesis using acquire_next_shrinks [OF a] by simp
qed

function text_pump_loop ::
  "('p, 'v, 'x) text_schedule \<Rightarrow> ('p, 'v, 'x) text_runner \<Rightarrow> unit result \<times> ('p, 'v, 'x) text_runner" where
  "text_pump_loop sc t =
     (case text_pump_one sc t of
        (Inl e, t) \<Rightarrow> (Inl e, t)
      | (Inr again, t) \<Rightarrow> if again then text_pump_loop sc t else (Inr (), t))"
  by pat_completeness auto
termination
  by (relation "measure (\<lambda>(_, t). text_waiting t)") (auto simp: text_pump_one_shrinks [OF sym])

declare text_pump_loop.simps [simp del]

text \<open>The critical section of \<open>pump\<close>.\<close>

definition text_service ::
  "('p, 'v, 'x) text_schedule \<Rightarrow> ('p, 'v, 'x) text_runner \<Rightarrow> unit result \<times> ('p, 'v, 'x) text_runner" where
  "text_service sc t =
     checked (t\<lparr>tn_tick := Suc (tn_tick t)\<rparr>) (dispatcher_timestamp (tc_clock sc (tn_tick t)) ''clock result'') (\<lambda>now.
     let t = t\<lparr>tn_tick := Suc (tn_tick t)\<rparr>
     in andthen (cancel_overdue sc now (tn_tasks t) t) (\<lambda>_ t.
        andthen (cancel_superseded sc (mb_logs (tn_broker t)) t) (\<lambda>_ t.
        andthen (collect_done sc t) (\<lambda>_ t. text_pump_loop sc t))))"

definition text_pump ::
  "('p, 'v, 'x) text_schedule \<Rightarrow> nat \<Rightarrow> ('p, 'v, 'x) text_runner \<Rightarrow> unit result \<times> ('p, 'v, 'x) text_runner" where
  "text_pump sc caller t = checked t (assert_owner caller t) (\<lambda>_. text_service sc t)"

section \<open>The other operations of the owner\<close>

definition text_poll ::
  "('p, 'v, 'x) text_schedule \<Rightarrow> nat \<Rightarrow> pyval \<Rightarrow> ('p, 'v, 'x) text_runner
     \<Rightarrow> ('v, 'x) text_result option result \<times> ('p, 'v, 'x) text_runner" where
  "text_poll sc caller request_id t =
     checked t (validate_request_id request_id) (\<lambda>k.
     andthen (text_pump sc caller t) (\<lambda>_ t.
       (Inr (dget (tn_results t) k), t\<lparr>tn_results := ddel (tn_results t) k\<rparr>)))"

definition text_cancel ::
  "('p, 'v, 'x) text_schedule \<Rightarrow> nat \<Rightarrow> pyval \<Rightarrow> pyval \<Rightarrow> ('p, 'v, 'x) text_runner
     \<Rightarrow> bool result \<times> ('p, 'v, 'x) text_runner" where
  "text_cancel sc caller request_id reason t =
     checked t (assert_owner caller t) (\<lambda>_.
     checked t (validate_request_id request_id) (\<lambda>k.
     checked t (stripped_text (ValueError ''reason must be a non-empty string'') reason) (\<lambda>reason.
       cancel_task sc k reason t)))"

fun cancel_all ::
  "('p, 'v, 'x) text_schedule \<Rightarrow> string list \<Rightarrow> ('p, 'v, 'x) text_runner \<Rightarrow> unit result \<times> ('p, 'v, 'x) text_runner" where
  "cancel_all sc [] t = (Inr (), t)"
| "cancel_all sc (k # ks) t = andthen (cancel_task sc k ''RUNNER_CLOSED'' t) (\<lambda>_ t. cancel_all sc ks t)"

text \<open>
  The joins of \<open>close\<close> run outside the lock: some threads may return before the deadline.  \<open>close\<close> then
  collects what is done, whichever thread returned it.
\<close>

definition text_close ::
  "('p, 'v, 'x) text_schedule \<Rightarrow> nat \<Rightarrow> pyval \<Rightarrow> ('p, 'v, 'x) text_runner \<Rightarrow> unit result \<times> ('p, 'v, 'x) text_runner" where
  "text_close sc caller timeout t =
     checked t (assert_owner caller t) (\<lambda>_.
     checked t (case timeout of PNone \<Rightarrow> Inr (1 / 10) | _ \<Rightarrow> dispatcher_timestamp timeout ''timeout_s'') (\<lambda>budget.
     andthen (cancel_all sc (dkeys (tn_tasks t)) (t\<lparr>tn_closed := True\<rparr>)) (\<lambda>_ t.
     let t = fold (\<lambda>(k, oc). compute_returns k oc) (tc_returns sc (tn_tick t)) (t\<lparr>tn_tick := Suc (tn_tick t)\<rparr>)
     in collect_done sc t)))"

definition text_snapshot :: "('p, 'v, 'x) text_runner \<Rightarrow> pyval" where
  "text_snapshot t = PDict
     [(PStr ''closed'', PBool (tn_closed t)),
      (PStr ''pending_request_ids'',
         PList (map PStr (sort (filter (\<lambda>k. k \<notin> set (dkeys (tn_active t))) (dkeys (tn_tasks t)))))),
      (PStr ''inflight_request_ids'', PList (map PStr (sort (dkeys (tn_active t))))),
      (PStr ''revoked_request_ids'', PList (map PStr (sort (dkeys (tn_revoked t))))),
      (PStr ''completed_request_ids'', PList (map PStr (sort (dkeys (tn_results t)))))]"

end
