(* ===== verification/Text_Publication.thy ===== *)
theory Text_Publication
  imports Text_Runner
begin

text \<open>
  What \<open>BrokeredTextTaskRunner\<close> promises: every submitted task gets one result, a canceled one never a
  fresh one, and a computation keeps its slot of the broker until its thread has returned.
\<close>

section \<open>The state of the runner\<close>

lemma key_iff: "k \<in> fst ` set d \<longleftrightarrow> (\<exists>v. dget d k = Some v)"
  by (metis dget_None list.set_map not_None_eq)

abbreviation known :: "(string \<times> 'a) list \<Rightarrow> string \<Rightarrow> bool" where
  "known d k \<equiv> dget d k \<noteq> None"

definition text_placed :: "model_broker \<Rightarrow> bool \<Rightarrow> string \<Rightarrow> bool" where
  "text_placed b active k \<longleftrightarrow>
     (if active then \<exists>e. dget (mb_inflight b) k = Some e else k \<in> mr_id ` set (mb_pending b) \<or> dropped_by b k)"

definition tasks_sound :: "('p, 'v, 'x) text_runner \<Rightarrow> bool" where
  "tasks_sound t \<longleftrightarrow> dict_ok (tn_tasks t) \<and> dict_ok (tn_active t)
     \<and> (\<forall>k. known (tn_active t) k \<longrightarrow> known (tn_tasks t) k)
     \<and> (\<forall>k task. dget (tn_tasks t) k = Some task \<longrightarrow> mr_id (tk_request task) = k
          \<and> Model_Broker.request_ok (tk_request task) \<and> text_placed (tn_broker t) (known (tn_active t) k) k)"

text \<open>A result of a task that still runs is that of a revocation.\<close>

definition outcomes_sound :: "('p, 'v, 'x) text_runner \<Rightarrow> bool" where
  "outcomes_sound t \<longleftrightarrow> dict_ok (tn_results t) \<and> dict_ok (tn_revoked t)
     \<and> (\<forall>k. known (tn_revoked t) k \<longrightarrow> known (tn_active t) k \<and> k \<in> log_ids (tn_broker t))
     \<and> (\<forall>k x. dget (tn_results t) k = Some x \<longrightarrow> k \<in> log_ids (tn_broker t)
          \<and> (known (tn_tasks t) k \<longrightarrow> known (tn_revoked t) k \<and> tt_stale x))"

definition done_sound :: "('p, 'v, 'x) text_runner \<Rightarrow> bool" where
  "done_sound t \<longleftrightarrow> distinct (map tt_id (tn_done t)) \<and> (\<forall>x\<in>set (tn_done t). dget (tn_active t) (tt_id x) = Some True)"

definition outstanding :: "('p, 'v, 'x) text_runner \<Rightarrow> string set" where
  "outstanding t = {k. known (tn_tasks t) k \<or> known (tn_results t) k}"

definition text_limits :: "('p, 'v, 'x) text_runner \<Rightarrow> bool" where
  "text_limits t \<longleftrightarrow> int (length (tn_active t)) \<le> tn_max_workers t \<and> int (card (outstanding t)) \<le> tn_max_outstanding t"

definition text_sound :: "('p, 'v, 'x) text_runner \<Rightarrow> bool" where
  "text_sound t \<longleftrightarrow> broker_inv (tn_broker t) \<and> reasons_ok (tn_broker t) \<and> tasks_sound t \<and> outcomes_sound t
     \<and> done_sound t \<and> text_limits t"

definition text_clocks_ok :: "('p, 'v, 'x) text_schedule \<Rightarrow> bool" where
  "text_clocks_ok sc \<longleftrightarrow> (\<forall>n. \<exists>t\<ge>0. tc_clock sc n = PFloat (Fin t))"

text \<open>The tasks whose owner still waits for a result or has not fetched it.\<close>

definition unanswered :: "('p, 'v, 'x) text_runner \<Rightarrow> string set" where
  "unanswered t = {k. known (tn_tasks t) k \<and> \<not> known (tn_revoked t) k} \<union> {k. known (tn_results t) k}"

text \<open>A task that can only have a stale result any more.\<close>

definition dead :: "('p, 'v, 'x) text_runner \<Rightarrow> string \<Rightarrow> bool" where
  "dead t k \<longleftrightarrow> k \<in> log_ids (tn_broker t) \<and> (known (tn_tasks t) k \<longrightarrow> known (tn_revoked t) k)
     \<and> (\<forall>x. dget (tn_results t) k = Some x \<longrightarrow> tt_stale x)"

definition goes :: "('p, 'v, 'x) text_runner \<Rightarrow> ('p, 'v, 'x) text_runner \<Rightarrow> bool" where
  "goes t t' \<longleftrightarrow> text_sound t' \<and> unanswered t' = unanswered t \<and> log_ids (tn_broker t) \<subseteq> log_ids (tn_broker t')
     \<and> (\<forall>k. known (tn_tasks t') k \<longrightarrow> known (tn_tasks t) k) \<and> (\<forall>k. dead t k \<longrightarrow> dead t' k)
     \<and> tn_max_workers t' = tn_max_workers t \<and> tn_max_outstanding t' = tn_max_outstanding t
     \<and> tn_owner t' = tn_owner t \<and> tn_closed t' = tn_closed t"

lemma goes_refl: "text_sound t \<Longrightarrow> goes t t"
  by (simp add: goes_def)

lemma goes_trans: "goes a b \<Longrightarrow> goes b c \<Longrightarrow> goes a c"
  unfolding goes_def by (elim conjE, intro conjI) (blast | simp)+

lemma goes_sound: "goes t t' \<Longrightarrow> text_sound t'"
  by (simp add: goes_def)

text \<open>The records and the counter of readings do not matter.\<close>

definition same_text :: "('p, 'v, 'x) text_runner \<Rightarrow> ('p, 'v, 'x) text_runner \<Rightarrow> bool" where
  "same_text t t' \<longleftrightarrow> (\<exists>e l n. t' = t\<lparr>tn_emitted := e, tn_logged := l, tn_tick := n\<rparr>)"

lemmas text_sound_defs = text_sound_def tasks_sound_def outcomes_sound_def done_sound_def text_limits_def
  outstanding_def

lemma same_text_views:
  "text_sound (t\<lparr>tn_emitted := e, tn_logged := l, tn_tick := n\<rparr>) = text_sound t"
  "unanswered (t\<lparr>tn_emitted := e, tn_logged := l, tn_tick := n\<rparr>) = unanswered t"
  "dead (t\<lparr>tn_emitted := e, tn_logged := l, tn_tick := n\<rparr>) k = dead t k"
  by (simp_all add: text_sound_defs unanswered_def dead_def)

lemma same_text_goes: "same_text t t' \<Longrightarrow> goes s t \<Longrightarrow> goes s t'"
  by (auto simp: same_text_def goes_def same_text_views)

lemma same_text_emit: "same_text t (text_emit c t)"
proof -
  have "t = t\<lparr>tn_emitted := tn_emitted t, tn_logged := tn_logged t, tn_tick := tn_tick t\<rparr>" by simp
  moreover have "t\<lparr>tn_emitted := e, tn_logged := l\<rparr> = t\<lparr>tn_emitted := e, tn_logged := l, tn_tick := tn_tick t\<rparr>" for e l
    by simp
  ultimately show ?thesis unfolding same_text_def text_emit_def by (cases "cl_id c \<in> tn_emitted t") (metis | simp)+
qed

lemma same_text_tick: "same_text t (t\<lparr>tn_tick := n\<rparr>)"
  unfolding same_text_def
  by (rule exI [of _ "tn_emitted t"], rule exI [of _ "tn_logged t"], rule exI [of _ n]) simp

lemma text_emit_fields [simp]:
  "tn_tasks (text_emit c t) = tn_tasks t" "tn_active (text_emit c t) = tn_active t"
  "tn_done (text_emit c t) = tn_done t" "tn_results (text_emit c t) = tn_results t"
  "tn_revoked (text_emit c t) = tn_revoked t" "tn_closed (text_emit c t) = tn_closed t"
  "tn_max_workers (text_emit c t) = tn_max_workers t" "tn_owner (text_emit c t) = tn_owner t"
  "tn_max_outstanding (text_emit c t) = tn_max_outstanding t"
  by (simp_all add: text_emit_def)

lemma keeps_text_placed: "keeps_place b b' k \<Longrightarrow> text_placed b a k \<Longrightarrow> text_placed b' a k"
  by (auto simp: keeps_place_def text_placed_def)

text \<open>The broker changed and left the tasks in their places.\<close>

lemma broker_change_goes:
  assumes s: "text_sound t" and b: "broker_inv b" "reasons_ok b" "log_ids (tn_broker t) \<subseteq> log_ids b"
    and keep: "\<And>k. known (tn_tasks t) k \<Longrightarrow> keeps_place (tn_broker t) b k"
  shows "goes t (t\<lparr>tn_broker := b, tn_tick := n\<rparr>)"
proof -
  let ?t = "t\<lparr>tn_broker := b, tn_tick := n\<rparr>"
  have "tasks_sound ?t"
    unfolding tasks_sound_def
  proof (intro conjI allI impI)
    fix k task assume k: "dget (tn_tasks ?t) k = Some task"
    then have "keeps_place (tn_broker t) b k" using keep by simp
    moreover have "text_placed (tn_broker t) (known (tn_active t) k) k"
      using s k by (simp add: text_sound_def tasks_sound_def)
    ultimately show "text_placed (tn_broker ?t) (known (tn_active ?t) k) k" by (simp add: keeps_text_placed)
  qed (use s in \<open>simp_all add: text_sound_def tasks_sound_def\<close>)
  moreover have "outcomes_sound ?t"
    using s b(3) unfolding text_sound_def outcomes_sound_def by (simp add: subset_iff)
  ultimately have "text_sound ?t"
    using s b by (simp add: text_sound_def done_sound_def text_limits_def outstanding_def)
  then show ?thesis using b(3) by (simp add: goes_def unanswered_def dead_def subset_iff)
qed

section \<open>What one step does to a task\<close>

text \<open>The fields that no step of a task changes.\<close>

definition same_setting :: "('p, 'v, 'x) text_runner \<Rightarrow> ('p, 'v, 'x) text_runner \<Rightarrow> bool" where
  "same_setting t t' \<longleftrightarrow> tn_max_workers t' = tn_max_workers t \<and> tn_max_outstanding t' = tn_max_outstanding t
     \<and> tn_owner t' = tn_owner t \<and> tn_closed t' = tn_closed t"

lemma outstanding_finite: "finite (outstanding t)"
proof -
  have "outstanding t \<subseteq> fst ` set (tn_tasks t) \<union> fst ` set (tn_results t)"
    by (auto simp: outstanding_def key_iff)
  then show ?thesis by (rule finite_subset) simp
qed

lemma known_dset: "known (dset d k v) j \<longleftrightarrow> j = k \<or> known d j"
  by (simp add: dget_dset)

lemma known_ddel: "known (ddel d k) j \<longleftrightarrow> j \<noteq> k \<and> known d j"
  by (simp add: dget_ddel)

lemma outcomes_revoked:
  assumes "outcomes_sound t" and "known (tn_revoked t) j"
  shows "known (tn_active t) j" and "j \<in> log_ids (tn_broker t)"
  using assms unfolding outcomes_sound_def by blast+

lemma outcomes_result:
  assumes "outcomes_sound t" and "dget (tn_results t) j = Some y"
  shows "j \<in> log_ids (tn_broker t)" and "known (tn_tasks t) j \<Longrightarrow> known (tn_revoked t) j"
    and "known (tn_tasks t) j \<Longrightarrow> tt_stale y"
  using assms unfolding outcomes_sound_def by blast+

text \<open>A running task is revoked.\<close>

lemma revoke_goes:
  assumes s: "text_sound t" and k: "known (tn_tasks t) k" "known (tn_active t) k" "\<not> known (tn_revoked t) k"
    "k \<in> log_ids (tn_broker t)" and x: "tt_stale x"
    and t': "t' = t\<lparr>tn_revoked := dset (tn_revoked t) k r, tn_results := dset (tn_results t) k x\<rparr>"
  shows "goes t t'" and "dead t' k"
proof -
  have out: "outstanding t' = outstanding t" using k(1) by (auto simp: t' outstanding_def dget_dset split: if_splits)
  have os: "outcomes_sound t" using s by (simp add: text_sound_def)
  have "outcomes_sound t'"
    unfolding outcomes_sound_def
  proof (intro conjI allI impI)
    fix j assume "known (tn_revoked t') j"
    then have "j = k \<or> known (tn_revoked t) j" by (simp add: t' dget_dset split: if_splits)
    then show "known (tn_active t') j" "j \<in> log_ids (tn_broker t')"
      using outcomes_revoked [OF os] k by (auto simp: t')
  next
    fix j y assume y: "dget (tn_results t') j = Some y"
    then have y: "j = k \<and> y = x \<or> j \<noteq> k \<and> dget (tn_results t) j = Some y"
      by (simp add: t' dget_dset split: if_splits)
    then show "j \<in> log_ids (tn_broker t')" using outcomes_result(1) [OF os] k by (auto simp: t')
    assume "known (tn_tasks t') j"
    then show "known (tn_revoked t') j" "tt_stale y"
      using y x outcomes_result(2,3) [OF os] by (auto simp: t' dget_dset)
  qed (use os in \<open>simp_all add: t' outcomes_sound_def\<close>)
  then have "text_sound t'"
    using s out by (simp add: text_sound_def text_limits_def tasks_sound_def done_sound_def t')
  moreover have "unanswered t' = unanswered t"
    using k(1,3) by (auto simp: unanswered_def t' dget_dset split: if_splits)
  moreover have "dead t' j" if "dead t j" for j
    using that x by (simp add: dead_def t' dget_dset)
  ultimately show "goes t t'" by (simp add: goes_def t')
  show "dead t' k" using x k(4) by (simp add: dead_def t' dget_dset)
qed

text \<open>A task that waits is dropped.\<close>

lemma drop_goes:
  assumes s: "text_sound t" and k: "known (tn_tasks t) k" "\<not> known (tn_active t) k" "k \<in> log_ids (tn_broker t)"
    and x: "tt_stale x"
    and t': "t' = t\<lparr>tn_tasks := ddel (tn_tasks t) k, tn_results := dset (tn_results t) k x\<rparr>"
  shows "goes t t'" and "dead t' k"
proof -
  have out: "outstanding t' = outstanding t" using k(1) by (auto simp: t' outstanding_def dget_dset dget_ddel split: if_splits)
  have os: "outcomes_sound t" and ts: "tasks_sound t" using s by (simp_all add: text_sound_def)
  have nr: "\<not> known (tn_revoked t) k" using outcomes_revoked(1) [OF os, of k] k(2) by blast
  have "outcomes_sound t'"
    unfolding outcomes_sound_def
  proof (intro conjI allI impI)
    fix j assume "known (tn_revoked t') j"
    then show "known (tn_active t') j" "j \<in> log_ids (tn_broker t')"
      using outcomes_revoked [OF os, of j] by (simp_all add: t')
  next
    fix j y assume y: "dget (tn_results t') j = Some y"
    then show "j \<in> log_ids (tn_broker t')"
      using outcomes_result(1) [OF os, of j] k(3) by (simp add: t' dget_dset split: if_splits)
    assume "known (tn_tasks t') j"
    then have "j \<noteq> k" "known (tn_tasks t) j" by (simp_all add: t' dget_ddel split: if_splits)
    then show "known (tn_revoked t') j" "tt_stale y"
      using outcomes_result(2,3) [OF os, of j y] y by (simp_all add: t' dget_dset)
  qed (use os in \<open>simp_all add: t' outcomes_sound_def\<close>)
  moreover have "tasks_sound t'"
    unfolding tasks_sound_def
  proof (intro conjI allI impI)
    fix j assume "known (tn_active t') j"
    then have "known (tn_active t) j" "j \<noteq> k" using k(2) by (auto simp: t')
    then show "known (tn_tasks t') j" using ts unfolding tasks_sound_def t' by (simp add: dget_ddel)
  next
    fix j task assume "dget (tn_tasks t') j = Some task"
    then have "dget (tn_tasks t) j = Some task" by (simp add: t' dget_ddel split: if_splits)
    then show "mr_id (tk_request task) = j" "Model_Broker.request_ok (tk_request task)"
      "text_placed (tn_broker t') (known (tn_active t') j) j" using ts by (simp_all add: t' tasks_sound_def)
  qed (use ts in \<open>simp_all add: t' tasks_sound_def\<close>)
  ultimately have "text_sound t'" using s out by (simp add: text_sound_def text_limits_def done_sound_def t')
  moreover have "unanswered t' = unanswered t"
    using k(1) nr by (auto simp: unanswered_def t' dget_dset dget_ddel split: if_splits)
  moreover have "dead t' j" if "dead t j" for j
    using that x by (simp add: dead_def t' dget_dset dget_ddel)
  moreover have "known (tn_tasks t') j \<longrightarrow> known (tn_tasks t) j" for j by (simp add: t' dget_ddel)
  ultimately show "goes t t'" by (simp add: goes_def t')
  show "dead t' k" using x k(3) by (simp add: dead_def t' dget_dset dget_ddel)
qed

text \<open>A result not yet fetched is withdrawn.\<close>

lemma withdraw_goes:
  assumes s: "text_sound t" and k: "known (tn_results t) k" "\<not> known (tn_tasks t) k" and x: "tt_stale x"
    and t': "t' = t\<lparr>tn_results := dset (tn_results t) k x\<rparr>"
  shows "goes t t'" and "dead t' k"
proof -
  have out: "outstanding t' = outstanding t" using k(1) by (auto simp: t' outstanding_def dget_dset split: if_splits)
  have os: "outcomes_sound t" using s by (simp add: text_sound_def)
  then have log: "k \<in> log_ids (tn_broker t)" using k(1) outcomes_result(1) [OF os, of k] by blast
  have "outcomes_sound t'"
    unfolding outcomes_sound_def
  proof (intro conjI allI impI)
    fix j y assume y: "dget (tn_results t') j = Some y"
    then show "j \<in> log_ids (tn_broker t')"
      using outcomes_result(1) [OF os, of j] log by (simp add: t' dget_dset split: if_splits)
    assume "known (tn_tasks t') j"
    then have "j \<noteq> k" "known (tn_tasks t) j" using k(2) by (auto simp: t')
    then show "known (tn_revoked t') j" "tt_stale y"
      using outcomes_result(2,3) [OF os, of j y] y by (simp_all add: t' dget_dset)
  qed (use os in \<open>simp_all add: t' outcomes_sound_def\<close>)
  then have "text_sound t'"
    using s out by (simp add: text_sound_def text_limits_def tasks_sound_def done_sound_def t')
  moreover have "unanswered t' = unanswered t" using k(1) by (auto simp: unanswered_def t' dget_dset split: if_splits)
  moreover have "dead t' j" if "dead t j" for j
    using that x by (simp add: dead_def t' dget_dset)
  ultimately show "goes t t'" by (simp add: goes_def t')
  show "dead t' k" using x k(2) log by (simp add: dead_def t' dget_dset)
qed

text \<open>A running task ends: its result counts unless it was revoked.\<close>

lemma finish_goes:
  assumes s: "text_sound t" and k: "known (tn_active t) k" "k \<notin> set (map tt_id (tn_done t))"
    and b: "finished (tn_broker t) k b" "reasons_ok b"
    and t': "t' = t\<lparr>tn_broker := b, tn_tick := n, tn_tasks := ddel (tn_tasks t) k, tn_active := ddel (tn_active t) k,
      tn_revoked := ddel (tn_revoked t) k,
      tn_results := (if known (tn_revoked t) k then tn_results t else dset (tn_results t) k x)\<rparr>"
  shows "goes t t'"
proof -
  have os: "outcomes_sound t" and ts: "tasks_sound t" and ds: "done_sound t" using s by (simp_all add: text_sound_def)
  have k': "known (tn_tasks t) k" using ts k(1) unfolding tasks_sound_def by blast
  have b': "broker_inv b" "log_ids (tn_broker t) \<subseteq> log_ids b" "k \<in> log_ids b"
    using b(1) by (auto simp: finished_def log_ids_def)
  have "outcomes_sound t'"
    unfolding outcomes_sound_def
  proof (intro conjI allI impI)
    fix j assume "known (tn_revoked t') j"
    then have "known (tn_revoked t) j" "j \<noteq> k" by (auto simp: t' dget_ddel split: if_splits)
    then show "known (tn_active t') j" "j \<in> log_ids (tn_broker t')"
      using outcomes_revoked [OF os, of j] b'(2) by (auto simp: t' dget_ddel)
  next
    fix j y assume y: "dget (tn_results t') j = Some y"
    then show "j \<in> log_ids (tn_broker t')"
      using outcomes_result(1) [OF os, of j] b' by (auto simp: t' dget_dset split: if_splits)
    assume "known (tn_tasks t') j"
    then have "known (tn_tasks t) j" "j \<noteq> k" by (simp_all add: t' dget_ddel split: if_splits)
    then show "known (tn_revoked t') j" "tt_stale y"
      using outcomes_result(2,3) [OF os, of j y] y by (simp_all add: t' dget_dset dget_ddel split: if_splits)
  qed (use os in \<open>simp_all add: t' outcomes_sound_def\<close>)
  moreover have "tasks_sound t'"
    unfolding tasks_sound_def
  proof (intro conjI allI impI)
    fix j assume "known (tn_active t') j"
    then have "known (tn_active t) j" "j \<noteq> k" by (simp_all add: t' dget_ddel split: if_splits)
    then show "known (tn_tasks t') j" using ts unfolding tasks_sound_def t' by (simp add: dget_ddel)
  next
    fix j task assume "dget (tn_tasks t') j = Some task"
    then have j: "dget (tn_tasks t) j = Some task" "j \<noteq> k" by (simp_all add: t' dget_ddel split: if_splits)
    then have "mr_id (tk_request task) = j" "Model_Broker.request_ok (tk_request task)"
      "text_placed (tn_broker t) (known (tn_active t) j) j" using ts by (simp_all add: tasks_sound_def)
    moreover have "keeps_place (tn_broker t) b j" by (rule finished_keeps [OF b(1) j(2)])
    ultimately show "mr_id (tk_request task) = j" "Model_Broker.request_ok (tk_request task)"
      "text_placed (tn_broker t') (known (tn_active t') j) j"
      using j(2) keeps_text_placed by (simp_all add: t' dget_ddel)
  qed (use ts in \<open>simp_all add: t' tasks_sound_def\<close>)
  moreover have "done_sound t'"
    using ds k(2) unfolding done_sound_def by (auto simp: t' dget_ddel)
  moreover have "text_limits t'"
  proof -
    have "length (ddel (tn_active t) k) \<le> length (tn_active t)" by (simp add: ddel_filter)
    moreover have "outstanding t' \<subseteq> outstanding t"
      using k' by (auto simp: outstanding_def t' dget_ddel dget_dset split: if_splits)
    then have "card (outstanding t') \<le> card (outstanding t)" by (rule card_mono [OF outstanding_finite])
    moreover have "text_limits t" using s by (simp add: text_sound_def)
    ultimately show ?thesis by (auto simp: text_limits_def t' simp del: outstanding_def)
  qed
  ultimately have "text_sound t'" using b(2) b'(1) by (simp add: text_sound_def t')
  moreover have "unanswered t' = unanswered t"
    using k' by (auto simp: unanswered_def t' dget_dset dget_ddel split: if_splits)
  moreover have "dead t' j" if "dead t j" for j
    using that k' b'(2) unfolding dead_def by (auto simp: t' dget_dset dget_ddel)
  moreover have "known (tn_tasks t') j \<longrightarrow> known (tn_tasks t) j" for j by (simp add: t' dget_ddel)
  ultimately show ?thesis using b'(2) by (simp add: goes_def t')
qed

section \<open>The operations on one task\<close>

lemma text_clock:
  assumes "text_clocks_ok sc"
  obtains now where "tc_clock sc n = PFloat (Fin now)" "0 \<le> now"
  using assms unfolding text_clocks_ok_def by blast

lemma active_task:
  assumes "tasks_sound t" and "known (tn_active t) k"
  shows "known (tn_tasks t) k"
  using assms(1) [unfolded tasks_sound_def, THEN conjunct2, THEN conjunct2, THEN conjunct1, rule_format, OF assms(2)] .

lemma task_entry:
  assumes "tasks_sound t" and "dget (tn_tasks t) k = Some task"
  shows "mr_id (tk_request task) = k" and "Model_Broker.request_ok (tk_request task)"
    and "text_placed (tn_broker t) (known (tn_active t) k) k"
  using assms(1) [unfolded tasks_sound_def, THEN conjunct2, THEN conjunct2, THEN conjunct2, rule_format, OF assms(2)]
  by simp_all

lemma active_slot:
  assumes s: "text_sound t" and k: "known (tn_active t) k"
  obtains task br start where "dget (tn_tasks t) k = Some task" "dget (mb_inflight (tn_broker t)) k = Some (br, start)"
proof -
  have ts: "tasks_sound t" using s by (simp add: text_sound_def)
  from active_task [OF this k] obtain task where task: "dget (tn_tasks t) k = Some task" by blast
  from task_entry(3) [OF ts this] k have "text_placed (tn_broker t) True k" by simp
  then obtain e where "dget (mb_inflight (tn_broker t)) k = Some e" by (auto simp: text_placed_def)
  then show thesis using that [OF task] by (cases e) simp
qed

lemma finish_task_goes:
  assumes s: "text_sound t" and sc: "text_clocks_ok sc" and k: "known (tn_active t) (tt_id x)"
    "tt_id x \<notin> set (map tt_id (tn_done t))"
  shows "\<exists>t'. finish_task sc x t = (Inr (), t') \<and> goes t t' \<and> tn_done t' = tn_done t
    \<and> tn_active t' = ddel (tn_active t) (tt_id x)"
proof -
  let ?k = "tt_id x"
  obtain task br start where task: "dget (tn_tasks t) ?k = Some task"
    and slot: "dget (mb_inflight (tn_broker t)) ?k = Some (br, start)" using active_slot [OF s k(1)] by blast
  have inv: "broker_inv (tn_broker t)" "reasons_ok (tn_broker t)" using s by (simp_all add: text_sound_def)
  obtain now where clk: "tc_clock sc (tn_tick t) = PFloat (Fin now)" "0 \<le> now" using text_clock [OF sc] by blast
  define c where "c = broker_complete (tc_clock sc (tn_tick t)) (PStr ?k)
            (case tk_selection task of None \<Rightarrow> PNone | Some s \<Rightarrow> PStr (as_adapter s))
            (case tk_selection task of None \<Rightarrow> PNone | Some s \<Rightarrow> PStr (adapter_status_text (as_status s)))
            (case tk_selection task of None \<Rightarrow> PNone | Some s \<Rightarrow> PStr (as_model s))
            (PBool (case tk_selection task of None \<Rightarrow> False | Some s \<Rightarrow> as_fallback s))
            (PInt 0) (PInt 0) PNone (if tt_exception x \<noteq> None then PStr ''TEXT_TASK_FAILED'' else PNone) (tn_broker t)"
  obtain l b where c: "c = (Inr l, b)" and fin: "finished (tn_broker t) ?k b"
    unfolding c_def using broker_complete_finished [OF inv(1) slot clk order_refl order_refl] by blast
  have rs: "reasons_ok b" using complete_reasons [OF inv(2)] c unfolding c_def by (metis snd_conv)
  define x' where "x' = x\<lparr>tt_stale := (cl_state l = BRS_STALE), tt_reason := cl_stale_reason l\<rparr>"
  let ?t = "t\<lparr>tn_tasks := ddel (tn_tasks t) ?k, tn_active := ddel (tn_active t) ?k, tn_broker := b,
      tn_tick := Suc (tn_tick t), tn_revoked := ddel (tn_revoked t) ?k,
      tn_results := (if known (tn_revoked t) ?k then tn_results t else dset (tn_results t) ?k x')\<rparr>"
  have "goes t ?t" by (rule finish_goes [OF s k fin rs, where n = "Suc (tn_tick t)" and x = x']) (cases t; simp)
  then have "goes t (text_emit l ?t)" by (rule same_text_goes [OF same_text_emit])
  moreover have "finish_task sc x t = (Inr (), text_emit l ?t)"
    using task k(1) c by (auto simp: finish_task_def text_complete_def key_iff c_def x'_def)
  ultimately show ?thesis by (intro exI [of _ "text_emit l ?t"]) simp
qed

lemma goes_fields:
  assumes "goes t t'"
  shows "text_sound t'" and "unanswered t' = unanswered t" and "log_ids (tn_broker t) \<subseteq> log_ids (tn_broker t')"
    and "known (tn_tasks t') k \<Longrightarrow> known (tn_tasks t) k" and "dead t k \<Longrightarrow> dead t' k"
    and "tn_max_workers t' = tn_max_workers t" "tn_owner t' = tn_owner t" "tn_closed t' = tn_closed t"
  using assms unfolding goes_def by blast+

text \<open>Canceling a running task revokes it and leaves it running.\<close>

lemma cancel_active_goes:
  assumes s: "text_sound t" and sc: "text_clocks_ok sc" and reason: "py_strip reason \<noteq> []"
    and k: "known (tn_active t) k" "\<not> known (tn_revoked t) k" and x: "tt_stale x"
  shows "\<exists>t1. cancel_active sc k reason t = (Inr (), t1)
    \<and> goes t (t1\<lparr>tn_results := dset (tn_results t1) k x\<rparr>) \<and> dead (t1\<lparr>tn_results := dset (tn_results t1) k x\<rparr>) k
    \<and> tn_active t1 = tn_active t \<and> tn_tasks t1 = tn_tasks t \<and> tn_done t1 = tn_done t \<and> known (tn_revoked t1) k"
proof -
  obtain task br start where task: "dget (tn_tasks t) k = Some task"
    and slot: "dget (mb_inflight (tn_broker t)) k = Some (br, start)" using active_slot [OF s k(1)] by blast
  have inv: "broker_inv (tn_broker t)" "reasons_ok (tn_broker t)" using s by (simp_all add: text_sound_def)
  obtain now where clk: "tc_clock sc (tn_tick t) = PFloat (Fin now)" "0 \<le> now" using text_clock [OF sc] by blast
  obtain l b where c: "cancel_inflight (tc_clock sc (tn_tick t)) (PStr k) (PStr reason) (tn_broker t) = (Inr l, b)"
    and b: "broker_inv b" "mb_inflight b = mb_inflight (tn_broker t)" "mb_pending b = mb_pending (tn_broker t)"
      "set (mb_logs (tn_broker t)) \<subseteq> set (mb_logs b)" "l \<in> set (mb_logs b)" "cl_id l = k"
    using cancel_inflight_value [OF inv(1) slot reason clk] by blast
  have rs: "reasons_ok b"
    using broker_step_reasons [OF step_cancel_inflight inv(2)] c by (metis snd_conv)
  let ?r = "or_reason (cl_stale_reason l) reason"
  let ?t0 = "t\<lparr>tn_broker := b, tn_tick := Suc (tn_tick t)\<rparr>"
  have g0: "goes t ?t0"
  proof (rule broker_change_goes [OF s b(1) rs])
    show "log_ids (tn_broker t) \<subseteq> log_ids b" using b(4) by (auto simp: log_ids_def)
    show "keeps_place (tn_broker t) b j" for j by (rule keeps_placeI) (use b in auto)
  qed
  have log: "k \<in> log_ids b" using b(5,6) by (auto simp: log_ids_def)
  let ?t1 = "text_emit l (?t0\<lparr>tn_revoked := dset (tn_revoked ?t0) k ?r\<rparr>)"
  let ?t2 = "?t0\<lparr>tn_revoked := dset (tn_revoked ?t0) k ?r, tn_results := dset (tn_results ?t0) k x\<rparr>"
  have g2: "goes ?t0 ?t2" "dead ?t2 k"
    by (rule revoke_goes [OF goes_sound [OF g0] _ _ _ _ x refl]; use task k log in simp)+
  have eq: "?t1\<lparr>tn_results := dset (tn_results ?t1) k x\<rparr> = text_emit l ?t2"
    by (simp add: text_emit_def)
  have "goes t (text_emit l ?t2)" by (rule same_text_goes [OF same_text_emit goes_trans [OF g0 g2(1)]])
  moreover have "dead (text_emit l ?t2) k" using g2(2) by (simp add: dead_def)
  moreover have "cancel_active sc k reason t = (Inr (), ?t1)" using c by (simp add: cancel_active_def)
  ultimately show ?thesis using eq by (intro exI [of _ ?t1]) (simp add: dget_dset)
qed

text \<open>Canceling a task that waits removes it.\<close>

lemma logged_record: "k \<in> log_ids b \<Longrightarrow> \<exists>c. List.find (\<lambda>c. cl_id c = k) (rev (mb_logs b)) = Some c"
  by (cases "List.find (\<lambda>c. cl_id c = k) (rev (mb_logs b))") (auto simp: find_None_iff log_ids_def)

lemma cancel_queued_goes:
  assumes s: "text_sound t" and reason: "py_strip reason \<noteq> []"
    and k: "known (tn_tasks t) k" "\<not> known (tn_active t) k"
  shows "\<exists>r t1. cancel_queued k reason t = (Inr r, t1) \<and> tn_active t1 = tn_active t \<and> tn_done t1 = tn_done t
    \<and> (\<forall>x. tt_stale x \<longrightarrow> goes t (t1\<lparr>tn_results := dset (tn_results t1) k x\<rparr>)
         \<and> dead (t1\<lparr>tn_results := dset (tn_results t1) k x\<rparr>) k)"
proof -
  let ?b = "tn_broker t"
  have inv: "broker_inv ?b" "reasons_ok ?b" and ts: "tasks_sound t" using s by (simp_all add: text_sound_def)
  obtain task where task: "dget (tn_tasks t) k = Some task" using k(1) by blast
  note e = task_entry [OF ts task]
  have id: "routing_id_match k" using e(1,2) by (auto simp: Model_Broker.request_ok_def)
  have place: "k \<in> mr_id ` set (mb_pending ?b) \<or> dropped_by ?b k" using e(3) k(2) by (simp add: text_placed_def)
  define r b where rb: "r = fst (cancel_pending (PStr k) (PStr reason) ?b)" "b = snd (cancel_pending (PStr k) (PStr reason) ?b)"
  then have c: "cancel_pending (PStr k) (PStr reason) ?b = (r, b)" by simp
  have b: "broker_inv b" "log_ids ?b \<subseteq> log_ids b" "keeps_place ?b b j" for j
    using cancel_pending_keeps [OF inv(1) c] by simp_all
  have rs: "reasons_ok b" using broker_step_reasons [OF step_cancel_pending inv(2)] c by (metis snd_conv)
  have out: "((\<exists>m. r = Inl (ModelRequestBrokerError m)) \<or> r = Inr ()) \<and> k \<in> log_ids b"
    using cancel_pending_value [OF inv(1) id reason]
  proof (elim disjE exE conjE)
    fix m assume "k \<notin> mr_id ` set (mb_pending ?b)"
      "cancel_pending (PStr k) (PStr reason) ?b = (Inl (ModelRequestBrokerError m), ?b)"
    then show ?thesis using c place by (auto simp: dropped_by_def log_ids_def)
  next
    fix q l assume "cl_id l = k" "cancel_pending (PStr k) (PStr reason) ?b = (Inr (), retire q l ?b)"
    then show ?thesis using c by (auto simp: retire_def log_ids_def)
  qed
  let ?t0 = "t\<lparr>tn_broker := b\<rparr>"
  have g0: "goes t ?t0"
    using broker_change_goes [OF s b(1) rs b(2), of "tn_tick t"] b(3) by simp
  obtain l where l: "List.find (\<lambda>c. cl_id c = k) (rev (mb_logs b)) = Some l" using logged_record out by blast
  let ?t1 = "text_emit l (?t0\<lparr>tn_tasks := ddel (tn_tasks ?t0) k\<rparr>)"
  have "cancel_queued k reason t = (Inr (or_reason (cl_stale_reason l) reason), ?t1)"
    using out c l by (auto simp: cancel_queued_def)
  moreover have "goes t (?t1\<lparr>tn_results := dset (tn_results ?t1) k x\<rparr>)
      \<and> dead (?t1\<lparr>tn_results := dset (tn_results ?t1) k x\<rparr>) k" if x: "tt_stale x" for x
  proof -
    let ?t2 = "?t0\<lparr>tn_tasks := ddel (tn_tasks ?t0) k, tn_results := dset (tn_results ?t0) k x\<rparr>"
    have g2: "goes ?t0 ?t2" "dead ?t2 k"
      by (rule drop_goes [OF goes_sound [OF g0] _ _ _ x refl]; use k out in simp)+
    have eq: "?t1\<lparr>tn_results := dset (tn_results ?t1) k x\<rparr> = text_emit l ?t2" by (simp add: text_emit_def)
    have "goes t (text_emit l ?t2)" by (rule same_text_goes [OF same_text_emit goes_trans [OF g0 g2(1)]])
    moreover have "dead (text_emit l ?t2) k" using g2(2) by (simp add: dead_def)
    ultimately show ?thesis using eq by simp
  qed
  ultimately show ?thesis by (intro exI [of _ "or_reason (cl_stale_reason l) reason"] exI [of _ ?t1]) simp
qed

text \<open>Whatever a cancellation answers, its task can only have a stale result from then on, or never had one.\<close>

lemma cancel_task_goes:
  assumes s: "text_sound t" and sc: "text_clocks_ok sc" and reason: "py_strip reason \<noteq> []"
  shows "\<exists>r t'. cancel_task sc k reason t = (Inr r, t') \<and> goes t t' \<and> tn_active t' = tn_active t \<and> tn_done t' = tn_done t
    \<and> (r \<or> known (tn_active t) k \<longrightarrow> dead t' k) \<and> (known (tn_active t) k \<longrightarrow> known (tn_revoked t') k)"
proof -
  have os: "outcomes_sound t" and ts: "tasks_sound t" using s by (simp_all add: text_sound_def)
  have st: "tt_stale (stale_text_result k q)" for q by (simp add: stale_text_result_def)
  consider (revoked) "known (tn_revoked t) k"
    | (gone) "\<not> known (tn_revoked t) k" "dget (tn_tasks t) k = None"
    | (active) task where "\<not> known (tn_revoked t) k" "dget (tn_tasks t) k = Some task" "known (tn_active t) k"
    | (queued) task where "\<not> known (tn_revoked t) k" "dget (tn_tasks t) k = Some task" "\<not> known (tn_active t) k"
    by blast
  then show ?thesis
  proof cases
    case revoked
    have "tt_stale x" if "dget (tn_results t) k = Some x" for x
      using outcomes_result(3) [OF os that] active_task [OF ts outcomes_revoked(1) [OF os revoked]] by blast
    then have "dead t k" using revoked outcomes_revoked(2) [OF os revoked] by (simp add: dead_def)
    then show ?thesis
      using revoked goes_refl [OF s] by (intro exI [of _ False] exI [of _ t]) (simp add: cancel_task_def key_iff)
  next
    case gone
    then have na: "\<not> known (tn_active t) k" using active_task [OF ts, of k] by blast
    show ?thesis
    proof (cases "dget (tn_results t) k")
      case None
      then show ?thesis
        using gone na goes_refl [OF s] by (intro exI [of _ False] exI [of _ t]) (simp add: cancel_task_def key_iff)
    next
      case (Some x)
      show ?thesis
      proof (cases "tt_stale x")
        case True
        then show ?thesis
          using Some gone na goes_refl [OF s] by (intro exI [of _ False] exI [of _ t]) (simp add: cancel_task_def key_iff)
      next
        case False
        let ?t = "t\<lparr>tn_results := dset (tn_results t) k (stale_text_result k reason)\<rparr>"
        have "goes t ?t" "dead ?t k" by (rule withdraw_goes [OF s _ _ st refl]; use Some gone in simp)+
        then show ?thesis using False Some gone na by (simp add: cancel_task_def key_iff ex_bool_eq)
      qed
    qed
  next
    case active
    obtain t1 where "cancel_active sc k reason t = (Inr (), t1)"
      "goes t (t1\<lparr>tn_results := dset (tn_results t1) k (stale_text_result k reason)\<rparr>)"
      "dead (t1\<lparr>tn_results := dset (tn_results t1) k (stale_text_result k reason)\<rparr>) k"
      "tn_active t1 = tn_active t" "tn_done t1 = tn_done t" "known (tn_revoked t1) k"
      using cancel_active_goes [OF s sc reason active(3,1) st] by blast
    then show ?thesis using active by (simp add: cancel_task_def key_iff ex_bool_eq)
  next
    case queued
    obtain r t1 where "cancel_queued k reason t = (Inr r, t1)"
      "goes t (t1\<lparr>tn_results := dset (tn_results t1) k (stale_text_result k r)\<rparr>)"
      "dead (t1\<lparr>tn_results := dset (tn_results t1) k (stale_text_result k r)\<rparr>) k"
      "tn_active t1 = tn_active t" "tn_done t1 = tn_done t"
      using cancel_queued_goes [OF s reason _ queued(3)] queued(2) st by blast
    then show ?thesis using queued by (simp add: cancel_task_def key_iff ex_bool_eq)
  qed
qed

section \<open>The pump\<close>

lemma done_views [simp]:
  "tasks_sound (t\<lparr>tn_done := d\<rparr>) = tasks_sound t" "outcomes_sound (t\<lparr>tn_done := d\<rparr>) = outcomes_sound t"
  "text_limits (t\<lparr>tn_done := d\<rparr>) = text_limits t" "unanswered (t\<lparr>tn_done := d\<rparr>) = unanswered t"
  "dead (t\<lparr>tn_done := d\<rparr>) k = dead t k"
  by (simp_all add: tasks_sound_def outcomes_sound_def text_limits_def outstanding_def unanswered_def dead_def)

lemma goes_done: "text_sound t \<Longrightarrow> done_sound (t\<lparr>tn_done := d\<rparr>) \<Longrightarrow> goes t (t\<lparr>tn_done := d\<rparr>)"
  by (simp add: goes_def text_sound_def)

lemma collect_done_goes:
  assumes "text_sound t" and "text_clocks_ok sc"
  shows "\<exists>t'. collect_done sc t = (Inr (), t') \<and> goes t t'"
proof -
  have "text_sound t \<Longrightarrow> tn_done t = xs \<Longrightarrow> \<exists>t'. collect_done_list sc xs t = (Inr (), t') \<and> goes t t'" for xs t
  proof (induction xs arbitrary: t)
    case Nil
    then show ?case by (simp add: goes_refl)
  next
    case (Cons x xs)
    let ?t = "t\<lparr>tn_done := xs\<rparr>"
    have ds: "distinct (map tt_id (x # xs))" "dget (tn_active t) (tt_id x) = Some True"
      using Cons.prems unfolding text_sound_def done_sound_def by (metis list.set_intros(1))+
    have "done_sound ?t" using Cons.prems unfolding text_sound_def done_sound_def by auto
    then have g0: "goes t ?t" by (rule goes_done [OF Cons.prems(1)])
    note s = goes_sound [OF g0]
    obtain t1 where t1: "finish_task sc x ?t = (Inr (), t1)" "goes ?t t1" "tn_done t1 = xs"
      using finish_task_goes [OF s assms(2), of x] ds by auto
    obtain t2 where "collect_done_list sc xs t1 = (Inr (), t2)" "goes t1 t2"
      using Cons.IH [OF goes_sound [OF t1(2)] t1(3)] by blast
    then show ?case using t1(1) goes_trans [OF g0 goes_trans [OF t1(2)]] by auto
  qed
  then show ?thesis using assms(1) by (simp add: collect_done_def)
qed

lemma compute_returns_goes:
  assumes s: "text_sound t"
  shows "goes t (compute_returns k oc t)"
proof (cases "dget (tn_active t) k = Some True \<and> k \<notin> set (map tt_id (tn_done t))")
  case True
  let ?x = "case oc of Inl v \<Rightarrow> text_result_of k (Some v) None | Inr e \<Rightarrow> text_result_of k None (Some (Callback_exn e))"
  let ?t = "t\<lparr>tn_done := tn_done t @ [?x]\<rparr>"
  have "tt_id ?x = k" by (simp add: text_result_of_def split: sum.splits)
  then have "done_sound ?t" using s True by (auto simp: text_sound_def done_sound_def)
  then have "goes t ?t" by (rule goes_done [OF s])
  then show ?thesis using True by (simp add: compute_returns_def)
next
  case False
  then show ?thesis using goes_refl [OF s] by (simp only: compute_returns_def if_False)
qed

lemma cancel_overdue_goes:
  assumes "text_sound t" and "text_clocks_ok sc"
  shows "\<exists>t'. cancel_overdue sc now items t = (Inr (), t') \<and> goes t t'"
  using assms(1)
proof (induction items arbitrary: t)
  case Nil
  then show ?case by (simp add: goes_refl)
next
  case (Cons e items)
  obtain k task where e: "e = (k, task)" by fastforce
  have reason: "py_strip ''DEADLINE_EXCEEDED'' \<noteq> []" by code_simp
  show ?case
  proof (cases "\<exists>d. tk_deadline task = Some d \<and> \<not> now < d")
    case True
    obtain r t1 where t1: "cancel_task sc k ''DEADLINE_EXCEEDED'' t = (Inr r, t1)" "goes t t1"
      using cancel_task_goes [OF Cons.prems assms(2) reason] by blast
    obtain t2 where "cancel_overdue sc now items t1 = (Inr (), t2)" "goes t1 t2"
      using Cons.IH [OF goes_sound [OF t1(2)]] by blast
    then show ?thesis using True e t1(1) goes_trans [OF t1(2)] by auto
  next
    case False
    then have "cancel_overdue sc now (e # items) t = cancel_overdue sc now items t"
      by (auto simp: e split: option.splits)
    then show ?thesis using Cons.IH [OF Cons.prems] by simp
  qed
qed

lemma cancel_superseded_goes:
  assumes "text_sound t" and "text_clocks_ok sc"
    and "\<And>c s. c \<in> set records \<Longrightarrow> cl_stale_reason c = Some s \<Longrightarrow> py_strip s \<noteq> []"
  shows "\<exists>t'. cancel_superseded sc records t = (Inr (), t') \<and> goes t t'"
  using assms(1,3)
proof (induction records arbitrary: t)
  case Nil
  then show ?case by (simp add: goes_refl)
next
  case (Cons c records)
  have stale: "py_strip ''STALE'' \<noteq> []" by code_simp
  have reason: "py_strip (or_reason (cl_stale_reason c) ''STALE'') \<noteq> []"
    using Cons.prems(2) [of c] stale by (auto simp: or_reason_def split: option.splits list.splits)
  show ?case
  proof (cases "cl_state c = BRS_STALE \<and> cl_id c \<in> set (dkeys (tn_tasks t))")
    case True
    obtain r t1 where t1: "cancel_task sc (cl_id c) (or_reason (cl_stale_reason c) ''STALE'') t = (Inr r, t1)" "goes t t1"
      using cancel_task_goes [OF Cons.prems(1) assms(2) reason] by blast
    obtain t2 where "cancel_superseded sc records t1 = (Inr (), t2)" "goes t1 t2"
      using Cons.IH [OF goes_sound [OF t1(2)]] Cons.prems(2) by auto
    then show ?thesis using True t1(1) goes_trans [OF t1(2)] by auto
  next
    case False
    then have e: "cancel_superseded sc (c # records) t = cancel_superseded sc records t" by auto
    show ?thesis unfolding e by (rule Cons.IH [OF Cons.prems(1)]) (rule Cons.prems(2), simp_all)
  qed
qed

text \<open>An admitted task starts or ends at once.\<close>

lemma launch_goes:
  assumes s: "text_sound t" and sc: "text_clocks_ok sc"
    and k: "known (tn_active t) k" "k \<notin> set (map tt_id (tn_done t))"
  shows "\<exists>t'. launch sc k task rej t = (Inr (), t') \<and> goes t t'"
proof -
  have r: "py_strip ''DEADLINE_EXCEEDED'' \<noteq> []" "py_strip ''SNAPSHOT_REJECTED'' \<noteq> []" by code_simp+
  obtain r1 t1 where t1: "(if rej then cancel_task sc k ''SNAPSHOT_REJECTED'' t else (Inr False, t)) = (Inr r1, t1)"
    "goes t t1" "tn_active t1 = tn_active t" "tn_done t1 = tn_done t"
    using cancel_task_goes [OF s sc r(2), of k] goes_refl [OF s] by (cases rej) auto
  obtain now where clk: "tc_clock sc (tn_tick t1) = PFloat (Fin now)" "0 \<le> now" using text_clock [OF sc] by blast
  then have ts: "dispatcher_timestamp (tc_clock sc (tn_tick t1)) ''clock result'' = Inr now"
    by (simp add: dispatcher_timestamp_def)
  let ?t1 = "t1\<lparr>tn_tick := Suc (tn_tick t1)\<rparr>"
  have g1: "goes t1 ?t1" by (rule same_text_goes [OF same_text_tick goes_refl [OF goes_sound [OF t1(2)]]])
  obtain r2 t2 where t2: "(case tk_deadline task of
                None \<Rightarrow> (Inr False, t1)
              | Some d \<Rightarrow>
                  checked ?t1 (dispatcher_timestamp (tc_clock sc (tn_tick t1)) ''clock result'')
                    (\<lambda>now. let t = ?t1
                      in if now < d then (Inr False, t) else cancel_task sc k ''DEADLINE_EXCEEDED'' t)) = (Inr r2, t2)"
    "goes t1 t2" "tn_active t2 = tn_active t" "tn_done t2 = tn_done t"
  proof (cases "tk_deadline task")
    case None
    then show thesis using that [of False t1] goes_refl [OF goes_sound [OF t1(2)]] t1 by simp
  next
    case (Some d)
    obtain r3 t3 where "cancel_task sc k ''DEADLINE_EXCEEDED'' ?t1 = (Inr r3, t3)" "goes ?t1 t3"
      "tn_active t3 = tn_active ?t1" "tn_done t3 = tn_done ?t1"
      using cancel_task_goes [OF goes_sound [OF g1] sc r(1), of k] by blast
    then show thesis
      using Some ts t1 that [of False ?t1] that [of r3 t3] g1 goes_trans [OF g1] by (cases "now < d") simp_all
  qed
  have g2: "goes t t2" by (rule goes_trans [OF t1(2) t2(2)])
  note s2 = goes_sound [OF g2]
  have end_it: "\<exists>t'. finish_task sc x u = (Inr (), t') \<and> goes t t'"
    if v: "goes t u" "tt_id x = k" "known (tn_active u) k" "tn_done u = tn_done t" for x u
  proof -
    have "known (tn_active u) (tt_id x)" "tt_id x \<notin> set (map tt_id (tn_done u))" using v k(2) by simp_all
    from finish_task_goes [OF goes_sound [OF v(1)] sc this]
    obtain t' where "finish_task sc x u = (Inr (), t')" "goes u t'" by blast
    then show ?thesis using goes_trans [OF v(1)] by blast
  qed
  let ?u = "t2\<lparr>tn_active := dset (tn_active t2) k True\<rparr>" and ?n = "Suc (tn_tick t2)"
  have u: "goes t (?u\<lparr>tn_tick := ?n\<rparr>)"
  proof -
    have "tasks_sound ?u"
      unfolding tasks_sound_def
    proof (intro conjI allI impI)
      fix j assume "known (tn_active ?u) j"
      then have "known (tn_active t2) j" using k(1) t2(3) by (cases "j = k") (auto simp: dget_dset)
      then show "known (tn_tasks ?u) j" using active_task [of t2 j] s2 by (simp add: text_sound_def)
    next
      fix j task assume j: "dget (tn_tasks ?u) j = Some task"
      have "known (tn_active ?u) j = known (tn_active t2) j" using k(1) t2(3) by (cases "j = k") (auto simp: dget_dset)
      then show "mr_id (tk_request task) = j" "Model_Broker.request_ok (tk_request task)"
        "text_placed (tn_broker ?u) (known (tn_active ?u) j) j"
        using task_entry [of t2 j task] j s2 by (simp_all add: text_sound_def)
    qed (use s2 in \<open>simp_all add: text_sound_def tasks_sound_def\<close>)
    moreover have "outcomes_sound ?u"
      unfolding outcomes_sound_def
    proof (intro conjI allI impI)
      fix j assume "known (tn_revoked ?u) j"
      then show "known (tn_active ?u) j" "j \<in> log_ids (tn_broker ?u)"
        using outcomes_revoked [of t2 j] s2 by (simp_all add: text_sound_def dget_dset ex_bool_eq)
    next
      fix j y assume y: "dget (tn_results ?u) j = Some y"
      then show "j \<in> log_ids (tn_broker ?u)" using outcomes_result(1) [of t2 j] s2 by (simp add: text_sound_def)
      assume "known (tn_tasks ?u) j"
      then show "known (tn_revoked ?u) j" "tt_stale y"
        using outcomes_result(2,3) [of t2 j y] s2 y by (simp_all add: text_sound_def)
    qed (use s2 in \<open>simp_all add: text_sound_def outcomes_sound_def\<close>)
    moreover have "done_sound ?u" using s2 k(2) t2(4) by (auto simp: text_sound_def done_sound_def dget_dset)
    moreover have "text_limits ?u"
      using s2 k(1) t2(3) by (simp add: text_sound_def text_limits_def outstanding_def length_dset key_iff)
    ultimately have "text_sound ?u" using s2 by (simp add: text_sound_def)
    then have "goes t2 ?u" by (simp add: goes_def unanswered_def dead_def)
    from same_text_goes [OF same_text_tick goes_trans [OF g2 this]] show ?thesis .
  qed
  have "\<exists>t'. (if k \<in> set (dkeys (tn_revoked t2)) then finish_task sc (text_result_of k None None) t2
       else
         let t = t2\<lparr>tn_active := dset (tn_active t2) k True, tn_tick := ?n\<rparr>
         in (case tc_start sc (tn_tick t) of
               None \<Rightarrow> (Inr (), t)
             | Some e \<Rightarrow> finish_task sc (text_result_of k None (Some (Callback_exn e))) t)) = (Inr (), t') \<and> goes t t'"
  proof (cases "k \<in> set (dkeys (tn_revoked t2))")
    case True
    then show ?thesis using end_it [OF g2, of "text_result_of k None None"] k(1) t2(3,4)
      by (simp add: text_result_of_def)
  next
    case False
    then show ?thesis
      using u end_it [OF u, of "text_result_of k None (Some (Callback_exn (the (tc_start sc ?n))))"] t2(4)
      by (cases "tc_start sc ?n") (simp_all add: text_result_of_def dget_dset)
  qed
  then show ?thesis unfolding launch_def t1(1) andthen_simps t2(1) by blast
qed

lemma reserve_goes:
  assumes s: "text_sound t" and k: "known (tn_tasks t) k" "\<not> known (tn_active t) k"
    and room: "int (length (tn_active t)) < tn_max_workers t"
    and b: "broker_inv b" "reasons_ok b" "log_ids (tn_broker t) \<subseteq> log_ids b" "dget (mb_inflight b) k = Some e"
    and keep: "\<And>j. j \<noteq> k \<Longrightarrow> keeps_place (tn_broker t) b j"
    and t': "t' = t\<lparr>tn_broker := b, tn_active := dset (tn_active t) k False, tn_tick := n\<rparr>"
  shows "goes t t'"
proof -
  have os: "outcomes_sound t" and ts: "tasks_sound t" and ds: "done_sound t" using s by (simp_all add: text_sound_def)
  have "outcomes_sound t'"
    unfolding outcomes_sound_def
  proof (intro conjI allI impI)
    fix j assume "known (tn_revoked t') j"
    then show "known (tn_active t') j" "j \<in> log_ids (tn_broker t')"
      using outcomes_revoked [OF os, of j] b(3) by (auto simp: t' dget_dset)
  next
    fix j y assume y: "dget (tn_results t') j = Some y"
    then show "j \<in> log_ids (tn_broker t')" using outcomes_result(1) [OF os, of j] b(3) by (auto simp: t')
    assume "known (tn_tasks t') j"
    then show "known (tn_revoked t') j" "tt_stale y"
      using outcomes_result(2,3) [OF os, of j y] y by (simp_all add: t')
  qed (use os in \<open>simp_all add: t' outcomes_sound_def\<close>)
  moreover have "tasks_sound t'"
    unfolding tasks_sound_def
  proof (intro conjI allI impI)
    fix j assume "known (tn_active t') j"
    then have "j = k \<or> known (tn_active t) j" by (simp add: t' dget_dset split: if_splits)
    then show "known (tn_tasks t') j" using active_task [OF ts, of j] k(1) by (auto simp: t')
  next
    fix j task assume j: "dget (tn_tasks t') j = Some task"
    then have e: "mr_id (tk_request task) = j" "Model_Broker.request_ok (tk_request task)"
      "text_placed (tn_broker t) (known (tn_active t) j) j" using task_entry [OF ts, of j task] by (simp_all add: t')
    then show "mr_id (tk_request task) = j" "Model_Broker.request_ok (tk_request task)" by simp_all
    show "text_placed (tn_broker t') (known (tn_active t') j) j"
    proof (cases "j = k")
      case True
      then show ?thesis using b(4) by (simp add: t' text_placed_def dget_dset)
    next
      case False
      then show ?thesis using e(3) keeps_text_placed [OF keep] by (simp add: t' dget_dset)
    qed
  qed (use ts in \<open>simp_all add: t' tasks_sound_def\<close>)
  moreover have "done_sound t'" using ds k(2) unfolding done_sound_def by (auto simp: t' dget_dset)
  moreover have "text_limits t'"
    using s room k(2) by (simp add: text_sound_def text_limits_def outstanding_def t' length_dset key_iff)
  ultimately have "text_sound t'" using b by (simp add: text_sound_def t')
  moreover have "dead t' j" if "dead t j" for j
    using that b(3) unfolding dead_def by (auto simp: t')
  ultimately show ?thesis using b(3) by (simp add: goes_def unanswered_def t')
qed

lemma text_pump_one_goes:
  assumes s: "text_sound t" and sc: "text_clocks_ok sc"
  shows "\<exists>again t'. text_pump_one sc t = (Inr again, t') \<and> goes t t'"
proof (cases "tn_closed t \<or> tn_max_workers t \<le> int (length (tn_active t))")
  case True
  then show ?thesis using goes_refl [OF s] by (simp add: text_pump_one_def ex_bool_eq)
next
  case False
  let ?b = "tn_broker t" and ?ids = "dkeys (tn_tasks t)"
  have inv: "broker_inv ?b" "reasons_ok ?b" and ts: "tasks_sound t" and ds: "done_sound t"
    using s by (simp_all add: text_sound_def)
  obtain now where clk: "tc_clock sc (tn_tick t) = PFloat (Fin now)" "0 \<le> now" using text_clock [OF sc] by blast
  consider (none) "acquire_next (tc_clock sc (tn_tick t)) (Some ?ids) ?b = (Inr None, ?b)"
    | (got) br start where "acquire_next (tc_clock sc (tn_tick t)) (Some ?ids) ?b = (Inr (Some br), start_call br start ?b)"
        "br \<in> set (mb_pending ?b)" "eligible ?b br" "mr_id br \<in> set ?ids"
        "int (length (mb_inflight ?b)) < mb_max_inflight_global ?b"
    using acquire_next_value [OF clk, of ?ids ?b] by blast
  then show ?thesis
  proof cases
    case none
    have "goes t (t\<lparr>tn_tick := Suc (tn_tick t)\<rparr>)" by (rule same_text_goes [OF same_text_tick goes_refl [OF s]])
    then show ?thesis using False none by (simp add: text_pump_one_def ex_bool_eq)
  next
    case got
    let ?k = "mr_id br" and ?b' = "start_call br start ?b"
    obtain task where task: "dget (tn_tasks t) ?k = Some task" using dget_key [OF got(4)] by blast
    have "?k \<notin> inflight_ids ?b" using inv(1) got(2) by (simp add: broker_inv_def pending_inv_def)
    then have "dget (mb_inflight ?b) ?k = None" by (simp add: inflight_ids_def dget_None)
    then have na: "\<not> known (tn_active t) ?k"
      using task_entry(3) [OF ts task] by (auto simp: text_placed_def split: if_splits)
    then have nd: "?k \<notin> set (map tt_id (tn_done t))" using ds unfolding done_sound_def by auto
    let ?n = "Suc (Suc (tn_tick t))"
    let ?t = "t\<lparr>tn_broker := ?b', tn_active := dset (tn_active t) ?k False, tn_tick := ?n\<rparr>"
    have g: "goes t ?t"
    proof (rule reserve_goes [OF s _ na _ _ _ _ _ _ refl])
      show "broker_inv ?b'" by (rule start_call_inv(1) [OF inv(1) got(2,3,5)])
      show "reasons_ok ?b'" using inv(2) by (simp add: start_call_def)
      show "log_ids ?b \<subseteq> log_ids ?b'" by simp
      show "dget (mb_inflight ?b') ?k = Some (br, start)" by (simp add: start_call_def dget_dset)
      show "keeps_place ?b ?b' j" if "j \<noteq> ?k" for j by (rule start_call_keeps [OF inv(1) got(2) that])
    qed (use task False in simp_all)
    have act: "known (tn_active ?t) ?k" "?k \<notin> set (map tt_id (tn_done ?t))" using nd by (simp_all add: dget_dset)
    have fin: "\<exists>t'. finish_task sc (text_result_of ?k None e) ?t = (Inr (), t') \<and> goes t t'" for e
      using finish_task_goes [OF goes_sound [OF g] sc, of "text_result_of ?k None e"] act goes_trans [OF g]
      by (auto simp: text_result_of_def)
    have la: "\<exists>t'. launch sc ?k task rej ?t = (Inr (), t') \<and> goes t t'" for rej
      using launch_goes [OF goes_sound [OF g] sc act] goes_trans [OF g] by blast
    let ?u = "t\<lparr>tn_broker := ?b', tn_tick := Suc (tn_tick t)\<rparr>"
    have eq: "?u\<lparr>tn_active := dset (tn_active t) ?k False, tn_tick := ?n\<rparr> = ?t" by simp
    have "\<exists>t'. admit_task sc ?k ?u = (Inr (), t') \<and> goes t t'"
      using fin la task
      by (cases "tc_prepare sc ?n (tk_prepare task)") (simp_all add: admit_task_def Let_def eq)
    then show ?thesis using False got(1) by (auto simp: text_pump_one_def)
  qed
qed

lemma text_pump_loop_goes:
  assumes "text_sound t" and "text_clocks_ok sc"
  shows "\<exists>t'. text_pump_loop sc t = (Inr (), t') \<and> goes t t'"
  using assms
proof (induction sc t rule: text_pump_loop.induct)
  case (1 sc t)
  obtain again t1 where one: "text_pump_one sc t = (Inr again, t1)" "goes t t1"
    using text_pump_one_goes [OF "1.prems"] by blast
  show ?case
  proof (cases again)
    case True
    obtain t2 where "text_pump_loop sc t1 = (Inr (), t2)" "goes t1 t2"
      using "1.IH" [OF one(1) [symmetric] refl True goes_sound [OF one(2)] "1.prems"(2)] by blast
    then show ?thesis using one True goes_trans [OF one(2)] by (subst text_pump_loop.simps) simp
  qed (use one in \<open>subst text_pump_loop.simps; simp\<close>)
qed

lemma text_service_goes:
  assumes s: "text_sound t" and sc: "text_clocks_ok sc"
  shows "\<exists>t'. text_service sc t = (Inr (), t') \<and> goes t t'"
proof -
  obtain now where "tc_clock sc (tn_tick t) = PFloat (Fin now)" "0 \<le> now" using text_clock [OF sc] by blast
  then have ts: "dispatcher_timestamp (tc_clock sc (tn_tick t)) ''clock result'' = Inr now"
    by (simp add: dispatcher_timestamp_def)
  let ?t = "t\<lparr>tn_tick := Suc (tn_tick t)\<rparr>"
  have g: "goes t ?t" by (rule same_text_goes [OF same_text_tick goes_refl [OF s]])
  obtain t1 where t1: "cancel_overdue sc now (tn_tasks ?t) ?t = (Inr (), t1)" "goes ?t t1"
    using cancel_overdue_goes [OF goes_sound [OF g] sc] by blast
  have "reasons_ok (tn_broker t1)" using goes_sound [OF t1(2)] by (simp add: text_sound_def)
  then obtain t2 where t2: "cancel_superseded sc (mb_logs (tn_broker t1)) t1 = (Inr (), t2)" "goes t1 t2"
    using cancel_superseded_goes [OF goes_sound [OF t1(2)] sc, of "mb_logs (tn_broker t1)"]
    unfolding reasons_ok_def by blast
  obtain t3 where t3: "collect_done sc t2 = (Inr (), t3)" "goes t2 t3"
    using collect_done_goes [OF goes_sound [OF t2(2)] sc] by blast
  obtain t4 where t4: "text_pump_loop sc t3 = (Inr (), t4)" "goes t3 t4"
    using text_pump_loop_goes [OF goes_sound [OF t3(2)] sc] by blast
  have "goes t t4" by (rule goes_trans [OF g goes_trans [OF t1(2) goes_trans [OF t2(2) goes_trans [OF t3(2) t4(2)]]]])
  then show ?thesis using ts t1(1) t2(1) t3(1) t4(1) by (auto simp: text_service_def)
qed

section \<open>The operations\<close>

text \<open>What may happen to the unanswered tasks: one comes in, one goes out, or none.\<close>

definition passes :: "('p, 'v, 'x) text_runner \<Rightarrow> string set \<Rightarrow> string set \<Rightarrow> ('p, 'v, 'x) text_runner \<Rightarrow> bool" where
  "passes t new old t' \<longleftrightarrow> text_sound t' \<and> unanswered t \<inter> new = {} \<and> old \<subseteq> unanswered t
     \<and> unanswered t' = unanswered t \<union> new - old \<and> log_ids (tn_broker t) \<subseteq> log_ids (tn_broker t')
     \<and> new \<inter> used_ids (tn_broker t) = {} \<and> old \<subseteq> log_ids (tn_broker t') \<and> (\<forall>k. dead t k \<longrightarrow> dead t' k)
     \<and> (\<forall>k. known (tn_tasks t') k \<longrightarrow> known (tn_tasks t) k \<or> k \<in> new)"

lemma goes_passes: "goes t t' \<Longrightarrow> passes t {} {} t'"
  unfolding goes_def passes_def by blast

lemma unanswered_used:
  assumes s: "text_sound t" and k: "k \<in> outstanding t"
  shows "k \<in> used_ids (tn_broker t)"
proof -
  have os: "outcomes_sound t" and ts: "tasks_sound t" using s by (simp_all add: text_sound_def)
  show ?thesis
  proof (cases "known (tn_tasks t) k")
    case True
    then obtain task where "dget (tn_tasks t) k = Some task" by blast
    from task_entry(3) [OF ts this] show ?thesis
      by (auto simp: text_placed_def used_ids_def dropped_by_def log_ids_def inflight_ids_def key_iff split: if_splits)
  next
    case False
    then obtain x where "dget (tn_results t) k = Some x" using k by (auto simp: outstanding_def)
    from outcomes_result(1) [OF os this] show ?thesis by (simp add: used_ids_def)
  qed
qed

lemma card_outstanding: "text_sound t \<Longrightarrow> text_outstanding t = card (outstanding t)"
proof -
  have "outstanding t = set (dkeys (tn_tasks t) @ dkeys (tn_results t))"
    unfolding outstanding_def set_append set_map set_eq_iff Un_iff mem_Collect_eq key_iff by simp
  then show ?thesis by (simp only: text_outstanding_def length_remdups_card_conv)
qed

lemma text_submit_passes:
  assumes s: "text_sound t" and r: "Model_Broker.request_ok r" and op: "text_submit sc c r p dl sel t = (x, t')"
  shows "case x of Inr k \<Rightarrow> k = mr_id r \<and> passes t {k} {} t' | Inl e \<Rightarrow> goes t t'"
proof -
  let ?b = "tn_broker t"
  have inv: "broker_inv ?b" "reasons_ok ?b" and ts: "tasks_sound t" and os: "outcomes_sound t" using s by (simp_all add: text_sound_def)
  consider (stop) e where "x = Inl e" "t' = t"
    | (go) d y b where "int (text_outstanding t) < tn_max_outstanding t"
        "broker_submit (tc_clock sc (tn_tick t)) r ?b = (y, b)"
        "(x, t') = checked (t\<lparr>tn_broker := b, tn_tick := Suc (tn_tick t)\<rparr>) y (\<lambda>_. (Inr (mr_id r),
           t\<lparr>tn_broker := b, tn_tick := Suc (tn_tick t), tn_tasks := dset (tn_tasks t) (mr_id r)
             \<lparr>tk_request = r, tk_prepare = p, tk_deadline = d, tk_selection = sel\<rparr>\<rparr>))"
    using op unfolding text_submit_def
    by (auto simp: Let_def split: checked_split_asm if_splits prod.splits)
  then show ?thesis
  proof cases
    case stop
    then show ?thesis using goes_refl [OF s] by simp
  next
    case (go d y b)
    let ?n = "Suc (tn_tick t)" and ?k = "mr_id r"
    obtain b1 where b: "broker_inv b" "displaces r ?b b1"
      "case y of Inl e \<Rightarrow> b = b1 | Inr i \<Rightarrow> i = mr_id r \<and> mr_id r \<notin> used_ids ?b
         \<and> b = b1\<lparr>mb_pending := mb_pending b1 @ [r]\<rparr>"
      using broker_submit_ok [OF inv(1) r go(2)] by blast
    have k1: "keeps_place ?b b1 k" for k by (rule displaces_keeps [OF inv(1) b(2)])
    have keep: "keeps_place ?b b k" for k
      using b(3) keeps_place_trans [OF k1 enqueue_keeps] k1 by (cases y) auto
    have log: "log_ids ?b \<subseteq> log_ids b" using displaces_logs [OF b(2)] b(3) by (auto simp: log_ids_def split: sum.splits)
    have rs: "reasons_ok b" using submit_reasons [OF inv(2)] go(2) by (metis snd_conv)
    have g: "goes t (t\<lparr>tn_broker := b, tn_tick := ?n\<rparr>)" by (rule broker_change_goes [OF s b(1) rs log keep])
    show ?thesis
    proof (cases y)
      case (Inl e)
      then show ?thesis using go(3) g by simp
    next
      case (Inr i)
      let ?task = "\<lparr>tk_request = r, tk_prepare = p, tk_deadline = d, tk_selection = sel\<rparr>"
      let ?u = "t\<lparr>tn_broker := b, tn_tick := ?n, tn_tasks := dset (tn_tasks t) ?k ?task\<rparr>"
      have x: "x = Inr ?k" "t' = ?u" using go(3) Inr by simp_all
      have fresh: "?k \<notin> used_ids ?b" and app: "b = b1\<lparr>mb_pending := mb_pending b1 @ [r]\<rparr>" using b(3) Inr by simp_all
      have new: "\<not> known (tn_tasks t) ?k" "\<not> known (tn_results t) ?k"
        using unanswered_used [OF s, of ?k] fresh unfolding outstanding_def by blast+
      then have na: "\<not> known (tn_active t) ?k" using active_task [OF ts, of ?k] by blast
      have nr: "\<not> known (tn_revoked t) ?k" using outcomes_revoked(1) [OF os, of ?k] na by blast
      have gs: "tasks_sound (t\<lparr>tn_broker := b, tn_tick := ?n\<rparr>)" using goes_sound [OF g] by (simp add: text_sound_def)
      have "tasks_sound ?u"
        unfolding tasks_sound_def
      proof (intro conjI allI impI)
        fix j assume "known (tn_active ?u) j"
        then show "known (tn_tasks ?u) j" using active_task [OF ts, of j] by (simp add: dget_dset)
      next
        fix j task assume j: "dget (tn_tasks ?u) j = Some task"
        have "mr_id (tk_request task) = j \<and> Model_Broker.request_ok (tk_request task)
            \<and> text_placed b (known (tn_active t) j) j"
        proof (cases "j = ?k")
          case True
          then show ?thesis using j r na app by (auto simp: dget_dset text_placed_def)
        next
          case False
          then show ?thesis using task_entry [OF gs, of j task] j by (simp add: dget_dset)
        qed
        then show "mr_id (tk_request task) = j" "Model_Broker.request_ok (tk_request task)"
          "text_placed (tn_broker ?u) (known (tn_active ?u) j) j" by simp_all
      qed (use ts in \<open>simp_all add: tasks_sound_def\<close>)
      moreover have "outcomes_sound ?u"
        unfolding outcomes_sound_def
      proof (intro conjI allI impI)
        fix j assume "known (tn_revoked ?u) j"
        then show "known (tn_active ?u) j" "j \<in> log_ids (tn_broker ?u)"
          using outcomes_revoked [OF os, of j] log by auto
      next
        fix j z assume z: "dget (tn_results ?u) j = Some z"
        then have z': "dget (tn_results t) j = Some z" by simp
        then show "j \<in> log_ids (tn_broker ?u)" using outcomes_result(1) [OF os z'] log by auto
        assume "known (tn_tasks ?u) j"
        then have "known (tn_tasks t) j" using z' new(2) by (auto simp: dget_dset split: if_splits)
        then show "known (tn_revoked ?u) j" "tt_stale z" using outcomes_result(2,3) [OF os z'] by simp_all
      qed (use os in \<open>simp_all add: outcomes_sound_def\<close>)
      moreover have "text_limits ?u"
      proof -
        have "outstanding ?u = insert ?k (outstanding t)" by (auto simp: outstanding_def dget_dset split: if_splits)
        then have "card (outstanding ?u) \<le> Suc (card (outstanding t))" by (simp add: card_insert_le_m1 card_insert_if outstanding_finite)
        then show ?thesis using s go(1) card_outstanding [OF s] by (simp add: text_sound_def text_limits_def)
      qed
      moreover have "done_sound ?u" using s by (simp add: text_sound_def done_sound_def)
      ultimately have "text_sound ?u" using b(1) rs by (simp add: text_sound_def)
      moreover have "unanswered ?u = insert ?k (unanswered t)"
        using nr by (auto simp: unanswered_def dget_dset split: if_splits)
      moreover have "?k \<notin> unanswered t" using new by (auto simp: unanswered_def)
      moreover have "dead ?u j" if "dead t j" for j
      proof -
        have "j \<noteq> ?k" using that fresh by (auto simp: dead_def used_ids_def)
        then show ?thesis using that log by (auto simp: dead_def dget_dset)
      qed
      moreover have "known (tn_tasks ?u) j \<longrightarrow> known (tn_tasks t) j \<or> j = ?k" for j by (simp add: dget_dset)
      ultimately have "passes t {?k} {} ?u" using fresh log by (auto simp: passes_def)
      then show ?thesis using x by simp
    qed
  qed
qed

lemma text_poll_passes:
  assumes s: "text_sound t" and sc: "text_clocks_ok sc" and op: "text_poll sc c (PStr k) t = (x, t')"
  shows "case x of Inr (Some r) \<Rightarrow> passes t {} {k} t' \<and> (dead t k \<longrightarrow> tt_stale r) | _ \<Rightarrow> goes t t'"
proof (cases "validate_request_id (PStr k)")
  case (Inl e)
  then show ?thesis using op goes_refl [OF s] by (auto simp: text_poll_def)
next
  case (Inr k')
  then have k': "k' = k" by simp
  show ?thesis
  proof (cases "assert_owner c t")
    case (Inl e)
    then show ?thesis using op goes_refl [OF s] \<open>validate_request_id (PStr k) = Inr k'\<close>
      by (auto simp: text_poll_def text_pump_def)
  next
    case (Inr u)
    obtain t1 where t1: "text_service sc t = (Inr (), t1)" "goes t t1" using text_service_goes [OF s sc] by blast
    let ?t = "t1\<lparr>tn_results := ddel (tn_results t1) k\<rparr>"
    have xt: "x = Inr (dget (tn_results t1) k)" "t' = ?t"
      using op Inr t1(1) \<open>validate_request_id (PStr k) = Inr k'\<close> k' by (simp_all add: text_poll_def text_pump_def)
    show ?thesis
    proof (cases "dget (tn_results t1) k")
      case None
      then have "?t = t1" by (simp add: dget_None ddel_absent)
      then show ?thesis using xt None t1(2) by simp
    next
      case (Some r)
      note s1 = goes_sound [OF t1(2)]
      have os: "outcomes_sound t1" using s1 by (simp add: text_sound_def)
      have "outcomes_sound ?t"
        unfolding outcomes_sound_def
      proof (intro conjI allI impI)
        fix j assume "known (tn_revoked ?t) j"
        then show "known (tn_active ?t) j" "j \<in> log_ids (tn_broker ?t)"
          using outcomes_revoked [OF os, of j] by simp_all
      next
        fix j z assume z: "dget (tn_results ?t) j = Some z"
        then have z': "dget (tn_results t1) j = Some z" by (simp add: dget_ddel split: if_splits)
        show "j \<in> log_ids (tn_broker ?t)" using outcomes_result(1) [OF os z'] by simp
        assume "known (tn_tasks ?t) j"
        then show "known (tn_revoked ?t) j" "tt_stale z" using outcomes_result(2,3) [OF os z'] by simp_all
      qed (use os in \<open>simp_all add: outcomes_sound_def\<close>)
      moreover have "card (outstanding ?t) \<le> card (outstanding t1)"
        by (rule card_mono [OF outstanding_finite]) (auto simp: outstanding_def dget_ddel split: if_splits)
      ultimately have "text_sound ?t" using s1
        by (simp add: text_sound_def tasks_sound_def done_sound_def text_limits_def)
      moreover have "unanswered ?t = unanswered t1 - {k}"
        using outcomes_result(2) [OF os Some] by (auto simp: unanswered_def dget_ddel split: if_splits)
      moreover have "k \<in> unanswered t1" using Some by (simp add: unanswered_def)
      moreover have "dead ?t j" if "dead t j" for j
        using goes_fields(5) [OF t1(2) that] by (simp add: dead_def dget_ddel)
      moreover have "k \<in> log_ids (tn_broker t1)" by (rule outcomes_result(1) [OF os Some])
      ultimately have "passes t {} {k} ?t" using t1(2) unfolding goes_def passes_def by simp
      moreover have "tt_stale r" if "dead t k"
        using goes_fields(5) [OF t1(2) that] Some by (simp add: dead_def)
      ultimately show ?thesis using xt Some by simp
    qed
  qed
qed

lemma text_cancel_goes:
  assumes s: "text_sound t" and sc: "text_clocks_ok sc" and op: "text_cancel sc c (PStr k) reason t = (x, t')"
  shows "goes t t' \<and> (x = Inr True \<longrightarrow> dead t' k)"
proof -
  consider "t' = t" "x \<noteq> Inr True" | q where "py_strip (py_strip q) \<noteq> []" "cancel_task sc k (py_strip q) t = (x, t')"
    using op unfolding text_cancel_def
    by (auto simp: stripped_text_Inr split: checked_split_asm)
  then show ?thesis
  proof cases
    case 1
    then show ?thesis using goes_refl [OF s] by simp
  next
    case (2 q)
    then show ?thesis using cancel_task_goes [OF s sc 2(1), of k] by auto
  qed
qed

lemma cancel_all_goes:
  assumes "text_sound t" and "text_clocks_ok sc"
  shows "\<exists>t'. cancel_all sc ks t = (Inr (), t') \<and> goes t t'"
  using assms(1)
proof (induction ks arbitrary: t)
  case Nil
  then show ?case by (simp add: goes_refl)
next
  case (Cons k ks)
  have reason: "py_strip ''RUNNER_CLOSED'' \<noteq> []" by code_simp
  obtain r t1 where t1: "cancel_task sc k ''RUNNER_CLOSED'' t = (Inr r, t1)" "goes t t1"
    using cancel_task_goes [OF Cons.prems assms(2) reason] by blast
  obtain t2 where "cancel_all sc ks t1 = (Inr (), t2)" "goes t1 t2" using Cons.IH [OF goes_sound [OF t1(2)]] by blast
  then show ?case using t1(1) goes_trans [OF t1(2)] by auto
qed

lemma closed_goes:
  assumes "text_sound t"
  shows "passes t {} {} (t\<lparr>tn_closed := True\<rparr>)"
proof -
  have "text_sound (t\<lparr>tn_closed := True\<rparr>) = text_sound t" "unanswered (t\<lparr>tn_closed := True\<rparr>) = unanswered t"
    "dead (t\<lparr>tn_closed := True\<rparr>) k = dead t k" for k
    by (simp_all add: text_sound_defs unanswered_def dead_def)
  then show ?thesis using assms by (simp add: passes_def)
qed

lemma passes_trans: "passes a {} {} b \<Longrightarrow> goes b c \<Longrightarrow> passes a {} {} c"
  unfolding passes_def goes_def by auto

lemma text_close_passes:
  assumes s: "text_sound t" and sc: "text_clocks_ok sc" and op: "text_close sc c tm t = (x, t')"
  shows "passes t {} {} t'"
proof -
  have "t' = t \<or> (x, t') = andthen (cancel_all sc (dkeys (tn_tasks t)) (t\<lparr>tn_closed := True\<rparr>)) (\<lambda>_ t.
     let t = fold (\<lambda>(k, oc). compute_returns k oc) (tc_returns sc (tn_tick t)) (t\<lparr>tn_tick := Suc (tn_tick t)\<rparr>)
     in collect_done sc t)"
    using op unfolding text_close_def by (auto split: checked_split_asm)
  then show ?thesis
  proof
    assume "t' = t"
    then show ?thesis using goes_passes [OF goes_refl [OF s]] by simp
  next
    assume eq: "(x, t') = andthen (cancel_all sc (dkeys (tn_tasks t)) (t\<lparr>tn_closed := True\<rparr>)) (\<lambda>_ t.
     let t = fold (\<lambda>(k, oc). compute_returns k oc) (tc_returns sc (tn_tick t)) (t\<lparr>tn_tick := Suc (tn_tick t)\<rparr>)
     in collect_done sc t)"
    have p0: "passes t {} {} (t\<lparr>tn_closed := True\<rparr>)" by (rule closed_goes [OF s])
    then have "text_sound (t\<lparr>tn_closed := True\<rparr>)" by (simp add: passes_def)
    from cancel_all_goes [OF this sc] obtain t1
      where t1: "cancel_all sc (dkeys (tn_tasks t)) (t\<lparr>tn_closed := True\<rparr>) = (Inr (), t1)" "goes (t\<lparr>tn_closed := True\<rparr>) t1"
      by blast
    let ?u = "t1\<lparr>tn_tick := Suc (tn_tick t1)\<rparr>"
    have g2: "goes t1 ?u" by (rule same_text_goes [OF same_text_tick goes_refl [OF goes_sound [OF t1(2)]]])
    have run: "goes t1 (fold (\<lambda>(k, oc). compute_returns k oc) es v)" if "goes t1 v" for es v
      using that
    proof (induction es arbitrary: v)
      case (Cons e es)
      obtain k oc where "e = (k, oc)" by fastforce
      then show ?case
        using Cons.IH [OF goes_trans [OF Cons.prems compute_returns_goes [OF goes_sound [OF Cons.prems]]]] by simp
    qed simp
    let ?w = "fold (\<lambda>(k, oc). compute_returns k oc) (tc_returns sc (tn_tick t1)) ?u"
    have g3: "goes t1 ?w" by (rule run [OF g2])
    obtain t2 where t2: "collect_done sc ?w = (Inr (), t2)" "goes ?w t2"
      using collect_done_goes [OF goes_sound [OF g3] sc] by blast
    have "t' = t2" using eq t1(1) t2(1) by simp
    then show ?thesis using passes_trans [OF p0 goes_trans [OF t1(2) goes_trans [OF g3 t2(2)]]] by simp
  qed
qed

section \<open>Runs\<close>

text \<open>The steps of the owner, of the threads and of the other users of the broker.\<close>

datatype ('v, 'x) text_note = Submitted string | Fetched string "('v, 'x) text_result" | Canceled string | Silent

inductive text_step :: "('p, 'v, 'x) text_runner \<Rightarrow> ('v, 'x) text_note \<Rightarrow> ('p, 'v, 'x) text_runner \<Rightarrow> bool" where
  text_submitted: "Model_Broker.request_ok r \<Longrightarrow> text_submit sc c r p dl sel t = (Inr k, t') \<Longrightarrow> text_step t (Submitted k) t'"
| text_refused: "Model_Broker.request_ok r \<Longrightarrow> text_submit sc c r p dl sel t = (Inl e, t') \<Longrightarrow> text_step t Silent t'"
| text_pumped: "text_clocks_ok sc \<Longrightarrow> text_pump sc c t = (x, t') \<Longrightarrow> text_step t Silent t'"
| text_fetched: "text_clocks_ok sc \<Longrightarrow> text_poll sc c (PStr k) t = (Inr (Some r), t') \<Longrightarrow> text_step t (Fetched k r) t'"
| text_none: "text_clocks_ok sc \<Longrightarrow> text_poll sc c (PStr k) t = (Inr None, t') \<Longrightarrow> text_step t Silent t'"
| text_unfetched: "text_clocks_ok sc \<Longrightarrow> text_poll sc c (PStr k) t = (Inl e, t') \<Longrightarrow> text_step t Silent t'"
| text_canceled: "text_clocks_ok sc \<Longrightarrow> text_cancel sc c (PStr k) reason t = (Inr True, t') \<Longrightarrow> text_step t (Canceled k) t'"
| text_uncanceled: "text_clocks_ok sc \<Longrightarrow> text_cancel sc c (PStr k) reason t = (x, t') \<Longrightarrow> x \<noteq> Inr True \<Longrightarrow>
    text_step t Silent t'"
| text_closed: "text_clocks_ok sc \<Longrightarrow> text_close sc c tm t = (x, t') \<Longrightarrow> text_step t Silent t'"
| text_returned: "text_step t Silent (compute_returns k oc t)"
| text_foreign: "foreign_step {k. known (tn_tasks t) k} (tn_broker t) b \<Longrightarrow> text_step t Silent (t\<lparr>tn_broker := b\<rparr>)"

fun text_in :: "('v, 'x) text_note \<Rightarrow> string set" where
  "text_in (Submitted k) = {k}"
| "text_in _ = {}"

fun text_out :: "('v, 'x) text_note \<Rightarrow> string set" where
  "text_out (Fetched k r) = {k}"
| "text_out _ = {}"

lemma foreign_goes:
  assumes s: "text_sound t" and f: "foreign_step {k. known (tn_tasks t) k} (tn_broker t) b"
  shows "goes t (t\<lparr>tn_broker := b\<rparr>)"
proof -
  have inv: "broker_inv (tn_broker t)" "reasons_ok (tn_broker t)" using s by (simp_all add: text_sound_def)
  note st = foreign_broker_step [OF f] and eff = foreign_effect [OF inv(1) f]
  have "goes t (t\<lparr>tn_broker := b, tn_tick := tn_tick t\<rparr>)"
    by (rule broker_change_goes [OF s broker_step_inv [OF st inv(1)] broker_step_reasons [OF st inv(2)]])
      (use eff in auto)
  then show ?thesis by simp
qed

lemma text_step_passes:
  assumes "text_step t n t'" and s: "text_sound t"
  shows "passes t (text_in n) (text_out n) t' \<and> (\<forall>k. n = Canceled k \<longrightarrow> dead t' k)
    \<and> (\<forall>k r. n = Fetched k r \<longrightarrow> dead t k \<longrightarrow> tt_stale r)"
  using assms(1)
proof cases
  case (text_submitted r sc c p dl sel k)
  then show ?thesis using text_submit_passes [OF s text_submitted(2,3)] by auto
next
  case (text_refused r sc c p dl sel e)
  then show ?thesis using text_submit_passes [OF s text_refused(2,3)] goes_passes by simp
next
  case (text_pumped sc c x)
  obtain t1 where "text_service sc t = (Inr (), t1)" "goes t t1" using text_service_goes [OF s text_pumped(2)] by blast
  then have "goes t t'" using text_pumped(3) goes_refl [OF s]
    by (auto simp: text_pump_def split: checked_split_asm)
  then show ?thesis using text_pumped goes_passes by simp
next
  case (text_fetched sc c k r)
  then show ?thesis using text_poll_passes [OF s text_fetched(2,3)] by simp
next
  case (text_none sc c k)
  then show ?thesis using text_poll_passes [OF s text_none(2,3)] goes_passes by simp
next
  case (text_unfetched sc c k e)
  then show ?thesis using text_poll_passes [OF s text_unfetched(2,3)] goes_passes by simp
next
  case (text_canceled sc c k reason)
  then show ?thesis using text_cancel_goes [OF s text_canceled(2,3)] goes_passes by auto
next
  case (text_uncanceled sc c k reason x)
  then show ?thesis using text_cancel_goes [OF s text_uncanceled(2,3)] goes_passes by auto
next
  case (text_closed sc c tm x)
  then show ?thesis using text_close_passes [OF s text_closed(2,3)] by simp
next
  case (text_returned k oc)
  then show ?thesis using goes_passes [OF compute_returns_goes [OF s]] by simp
next
  case (text_foreign b)
  then show ?thesis using goes_passes [OF foreign_goes [OF s]] by simp
qed

lemma unanswered_finite: "finite (unanswered t)"
  by (rule finite_subset [OF _ outstanding_finite [of t]]) (auto simp: unanswered_def outstanding_def)

lemma passes_balance:
  assumes "passes t new old t'" and "finite new" and "finite old"
  shows "mset_set (unanswered t) + mset_set new = mset_set (unanswered t') + mset_set old"
proof -
  have p: "unanswered t \<inter> new = {}" "old \<subseteq> unanswered t" "unanswered t' = unanswered t \<union> new - old"
    using assms(1) by (simp_all add: passes_def)
  have "mset_set (unanswered t) + mset_set new = mset_set (unanswered t \<union> new)"
    using p(1) assms(2) by (simp add: mset_set_Union unanswered_finite)
  also have "\<dots> = mset_set (unanswered t' \<union> old)" using p by (intro arg_cong [where f = mset_set]) auto
  also have "\<dots> = mset_set (unanswered t') + mset_set old"
    using p assms(2,3) by (intro mset_set_Union) (auto simp: unanswered_finite)
  finally show ?thesis .
qed

lemma text_step_ids: "finite (text_in n)" "finite (text_out n)"
  by (cases n; simp)+

interpretation publication: ledger text_step text_sound "\<lambda>t. mset_set (unanswered t)" "\<lambda>_. 0"
  "\<lambda>n. mset_set (text_in n)" "\<lambda>n. mset_set (text_out n)"
proof (unfold_locales, goal_cases)
  case (1 s n t)
  then show ?case using text_step_passes [of s n t] by (simp add: passes_def)
next
  case (2 s n t)
  then have "passes s (text_in n) (text_out n) t" using text_step_passes by blast
  from passes_balance [OF this text_step_ids] show ?case by (intro exI [of _ "{#}"]) simp
qed

section \<open>Properties\<close>

definition text_runner_started :: "('p, 'v, 'x) text_runner \<Rightarrow> bool" where
  "text_runner_started t \<longleftrightarrow> (\<exists>b0 g u p s b w m lg c. broker_init g u p s True = Inr b0 \<and> broker_run b0 b
     \<and> text_runner_init b True w m lg c = Inr t)"

lemma text_runner_started_sound:
  assumes "text_runner_started t"
  shows "text_sound t" and "unanswered t = {}" and "tn_done t = []" and "tn_active t = []"
proof -
  obtain b0 g u p s b w m lg c where b0: "broker_init g u p s True = Inr b0" and run: "broker_run b0 b"
    and init: "text_runner_init b True w m lg c = Inr t"
    using assms unfolding text_runner_started_def by blast
  have "broker_inv b0" "reasons_ok b0"
    using broker_init_inv [OF b0] b0 by (auto simp: broker_init_def rbind_eq_Inr reasons_ok_def split: if_splits)
  with run have b: "broker_inv b \<and> reasons_ok b"
    by (induction rule: rtranclp_induct) (auto dest: broker_step_inv broker_step_reasons)
  obtain n o' where n: "0 < n" "0 < o'" and t: "t = \<lparr>tn_broker = b, tn_max_workers = n, tn_max_outstanding = o',
             tn_has_logger = lg, tn_owner = c, tn_tasks = [], tn_active = [], tn_done = [],
             tn_results = [], tn_revoked = [], tn_emitted = {}, tn_closed = False, tn_logged = [], tn_tick = 0\<rparr>"
    using init by (auto simp: text_runner_init_def rbind_eq_Inr positive_limit_def int_value_Inr)
  show "text_sound t" using b n unfolding t by (simp add: text_sound_defs)
  show "unanswered t = {}" "tn_done t = []" "tn_active t = []" by (simp_all add: t unanswered_def)
qed

fun submitted_ids :: "('v, 'x) text_note list \<Rightarrow> string list" where
  "submitted_ids [] = []"
| "submitted_ids (Submitted k # h) = k # submitted_ids h"
| "submitted_ids (n # h) = submitted_ids h"

fun fetched_ids :: "('v, 'x) text_note list \<Rightarrow> string list" where
  "fetched_ids [] = []"
| "fetched_ids (Fetched k r # h) = k # fetched_ids h"
| "fetched_ids (n # h) = fetched_ids h"

lemma text_note_ids [simp]: "publication.all_came h = mset (submitted_ids h)" "publication.all_went h = mset (fetched_ids h)"
  by (induction h rule: submitted_ids.induct) (simp_all add: publication.all_came_def publication.all_went_def)

lemma submitted_snoc: "submitted_ids (h @ [n]) = submitted_ids h @ submitted_ids [n]"
  by (induction h rule: submitted_ids.induct) simp_all

text \<open>Identifiers are used once, and a canceled task stays dead.\<close>

lemma text_run_sound:
  assumes "text_sound t0" and "logged_run text_step t0 h t"
  shows "text_sound t \<and> distinct (submitted_ids h) \<and> set (submitted_ids h) \<subseteq> unanswered t \<union> log_ids (tn_broker t)
    \<and> (\<forall>k. Canceled k \<in> set h \<longrightarrow> dead t k)"
  using assms(2)
proof (rule logged_run_invariant [where I = "\<lambda>h t. text_sound t \<and> distinct (submitted_ids h)
      \<and> set (submitted_ids h) \<subseteq> unanswered t \<union> log_ids (tn_broker t) \<and> (\<forall>k. Canceled k \<in> set h \<longrightarrow> dead t k)"])
  fix h :: "('b, 'c) text_note list" and n and t t' :: "('a, 'b, 'c) text_runner"
  assume I: "text_sound t \<and> distinct (submitted_ids h) \<and> set (submitted_ids h) \<subseteq> unanswered t \<union> log_ids (tn_broker t)
      \<and> (\<forall>k. Canceled k \<in> set h \<longrightarrow> dead t k)" and step: "text_step t n t'"
  note p = text_step_passes [OF step conjunct1 [OF I]]
  have "unanswered t \<subseteq> outstanding t" by (auto simp: unanswered_def outstanding_def)
  then have "unanswered t \<union> log_ids (tn_broker t) \<subseteq> used_ids (tn_broker t)"
    using unanswered_used [OF conjunct1 [OF I]] by (auto simp: used_ids_def)
  then have "set (submitted_ids h) \<inter> text_in n = {}" using I p unfolding passes_def by blast
  moreover have "set (submitted_ids h) \<union> text_in n \<subseteq> unanswered t' \<union> log_ids (tn_broker t')"
    using I p unfolding passes_def by blast
  moreover have "set (submitted_ids [n]) = text_in n" "distinct (submitted_ids [n])" by (cases n; simp)+
  moreover have "dead t' k" if "Canceled k \<in> set (h @ [n])" for k using that I p unfolding passes_def by auto
  ultimately show "text_sound t' \<and> distinct (submitted_ids (h @ [n]))
      \<and> set (submitted_ids (h @ [n])) \<subseteq> unanswered t' \<union> log_ids (tn_broker t')
      \<and> (\<forall>k. Canceled k \<in> set (h @ [n]) \<longrightarrow> dead t' k)"
    using I p unfolding submitted_snoc passes_def by auto
qed (simp add: assms(1))

lemma unanswered_split:
  assumes "text_sound t"
  shows "mset_set (unanswered t)
    = mset (filter (\<lambda>k. k \<notin> set (dkeys (tn_revoked t))) (dkeys (tn_tasks t))) + mset (dkeys (tn_results t))"
proof -
  have os: "outcomes_sound t" and ts: "tasks_sound t" using assms by (simp_all add: text_sound_def)
  have d: "dict_ok (tn_tasks t)" "dict_ok (tn_results t)"
    using os [unfolded outcomes_sound_def, THEN conjunct1] ts [unfolded tasks_sound_def, THEN conjunct1] by simp_all
  let ?A = "{k. known (tn_tasks t) k \<and> \<not> known (tn_revoked t) k}" and ?B = "{k. known (tn_results t) k}"
  have A: "?A = set (filter (\<lambda>k. k \<notin> set (dkeys (tn_revoked t))) (dkeys (tn_tasks t)))"
    and B: "?B = set (dkeys (tn_results t))"
    unfolding set_filter set_map set_eq_iff mem_Collect_eq key_iff by simp_all
  have "k \<notin> ?B" if "k \<in> ?A" for k
  proof
    assume "k \<in> ?B"
    then obtain x where "dget (tn_results t) k = Some x" by blast
    from outcomes_result(2) [OF os this] that show False by simp
  qed
  then have "?A \<inter> ?B = {}" by blast
  moreover have fin: "finite ?A" "finite ?B" unfolding A B by simp_all
  ultimately have "mset_set (unanswered t) = mset_set ?A + mset_set ?B"
    unfolding unanswered_def using mset_set_Union [OF fin] by simp
  then show ?thesis unfolding A B using d by (simp add: mset_set_set del: set_filter set_map)
qed

text \<open>
  C29. Whatever the owner, the threads and other users of the broker do, each submitted computation is, once: still
  open and not revoked, held as a result, or fetched; no identifier is submitted twice and nothing is lost.
\<close>

theorem text_accounts:
  assumes "text_runner_started t0" and "logged_run text_step t0 h t"
  shows "distinct (submitted_ids h) \<and> mset (submitted_ids h)
    = mset (filter (\<lambda>k. k \<notin> set (dkeys (tn_revoked t))) (dkeys (tn_tasks t))) + mset (dkeys (tn_results t))
      + mset (fetched_ids h)"
proof -
  note s = text_runner_started_sound [OF assms(1)]
  note run = text_run_sound [OF s(1) assms(2)]
  from publication.run_balance [OF assms(2) s(1)]
  have "mset (submitted_ids h) = mset_set (unanswered t) + mset (fetched_ids h)" using s(2) by auto
  then show ?thesis using run unanswered_split [of t] by simp
qed

text \<open>
  C30. A cancellation is final: once \<open>cancel\<close> answered true for a task, a result fetched for it later is stale,
  whether the computation was waiting, running or done and whatever its thread returns.
\<close>

theorem text_cancel_final:
  assumes "text_runner_started t0" and "logged_run text_step t0 (h @ Canceled k # h' @ Fetched k r # h'') t"
  shows "tt_stale r"
proof -
  note s = text_runner_started_sound [OF assms(1)]
  obtain t1 t2 where t1: "logged_run text_step t0 (h @ Canceled k # h') t1" and step: "text_step t1 (Fetched k r) t2"
    using logged_run_split [of text_step t0 "h @ Canceled k # h'" "Fetched k r" h'' t] assms(2) by auto
  have "text_sound t1" "dead t1 k" using text_run_sound [OF s(1) t1] by auto
  then show ?thesis using text_step_passes [OF step] by blast
qed

text \<open>
  C31. In every reachable state no more threads are accounted for than workers allow and no more tasks than the
  capacity, each accounted thread holds its slot of the broker, revoked or not, and the owner's pump succeeds.
\<close>

theorem text_leases:
  assumes "text_runner_started t0" and "logged_run text_step t0 h t" and "text_clocks_ok sc"
  shows "int (text_inflight_count t) \<le> tn_max_workers t \<and> int (text_outstanding t) \<le> tn_max_outstanding t
    \<and> set (dkeys (tn_revoked t)) \<subseteq> set (dkeys (tn_active t))
    \<and> set (dkeys (tn_active t)) \<subseteq> set (dkeys (mb_inflight (tn_broker t)))
    \<and> fst (text_pump sc (tn_owner t) t) = Inr ()"
proof -
  have s: "text_sound t" using text_run_sound [OF text_runner_started_sound(1) [OF assms(1)] assms(2)] by blast
  then have os: "outcomes_sound t" and lim: "text_limits t" by (simp_all add: text_sound_def)
  have "\<exists>e. dget (mb_inflight (tn_broker t)) k = Some e" if "known (tn_active t) k" for k
    using active_slot [OF s that] by blast
  then have "set (dkeys (tn_active t)) \<subseteq> set (dkeys (mb_inflight (tn_broker t)))"
    unfolding subset_iff set_map key_iff by auto
  moreover have "set (dkeys (tn_revoked t)) \<subseteq> set (dkeys (tn_active t))"
    unfolding subset_iff set_map key_iff using outcomes_revoked(1) [OF os] by simp
  moreover obtain t' where "text_service sc t = (Inr (), t')" using text_service_goes [OF s assms(3)] by blast
  ultimately show ?thesis
    using lim by (simp add: text_limits_def text_inflight_count_def card_outstanding [OF s] text_pump_def assert_owner_def)
qed

section \<open>An example\<close>

definition example_replan :: model_request where
  "example_replan = \<lparr>mr_role = ''FLEET_REPLAN'', mr_priority = P1_FLEET_REPLAN, mr_uav = None,
     mr_assignment = None, mr_adapter = None, mr_payload = PDict [], mr_id = ''r1'',
     mr_submitted = 0, mr_control = True, mr_replaceable = False\<rparr>"

definition example_runner :: "(nat, nat, nat) text_runner" where
  "example_runner = \<lparr>tn_broker = example_idle, tn_max_workers = 1, tn_max_outstanding = 4, tn_has_logger = True,
     tn_owner = 1, tn_tasks = [], tn_active = [], tn_done = [], tn_results = [], tn_revoked = [], tn_emitted = {},
     tn_closed = False, tn_logged = [], tn_tick = 0\<rparr>"

definition example_times :: "(nat, nat, nat) text_schedule" where
  "example_times = \<lparr>tc_clock = (\<lambda>_. PFloat (Fin 1)), tc_prepare = (\<lambda>_ _. Prepared), tc_start = (\<lambda>_. None),
     tc_returns = (\<lambda>_. [])\<rparr>"

definition example_begun :: "(nat, nat, nat) text_runner" where
  "example_begun = snd (text_pump example_times 1
     (snd (text_submit example_times 1 example_replan 0 PNone None example_runner)))"

definition example_stopped :: "(nat, nat, nat) text_runner" where
  "example_stopped = compute_returns ''r1'' (Inl 7)
     (snd (text_cancel example_times 1 (PStr ''r1'') (PStr ''changed'') example_begun))"

lemma example_runner_started: "text_runner_started example_runner"
proof -
  have "text_runner_init example_idle True (PInt 1) (PInt 4) True 1 = Inr example_runner"
    by (simp add: text_runner_init_def positive_limit_def example_runner_def)
  then show ?thesis
    unfolding text_runner_started_def
    by (intro exI conjI) (rule example_idle_init, rule rtranclp.rtrancl_refl)
qed

lemma example_begun_run: "logged_run text_step example_runner [Submitted ''r1'', Silent] example_begun"
proof -
  have m: "routing_id_match ''r1''" "routing_id_match ''FLEET_REPLAN''" by code_simp+
  have "Model_Broker.request_ok example_replan"
    using m by (simp add: Model_Broker.request_ok_def example_replan_def)
  moreover have "fst (text_submit example_times 1 example_replan 0 PNone None example_runner) = Inr ''r1''" by code_simp
  ultimately have 1: "text_step example_runner (Submitted ''r1'')
      (snd (text_submit example_times 1 example_replan 0 PNone None example_runner))"
    by (intro text_submitted) (auto intro: prod_eqI)
  have "text_clocks_ok example_times" by (auto simp: text_clocks_ok_def example_times_def)
  then have 2: "text_step (snd (text_submit example_times 1 example_replan 0 PNone None example_runner)) Silent example_begun"
    unfolding example_begun_def by (intro text_pumped) (auto intro: prod_eqI)
  have "logged_run text_step example_runner (([] @ [Submitted ''r1'']) @ [Silent]) example_begun"
    by (rule logged_more, rule logged_more, rule logged_start, rule 1, rule 2)
  then show ?thesis by simp
qed

lemma example_times_ok: "text_clocks_ok example_times"
  by (auto simp: text_clocks_ok_def example_times_def)

lemma example_begun_fields:
  "dkeys (tn_tasks example_begun) = [''r1'']" "dkeys (tn_active example_begun) = [''r1'']"
  "dkeys (tn_revoked example_begun) = []" "dkeys (tn_results example_begun) = []"
  by code_simp+

theorem text_accounts_witness:
  "distinct [''r1''] \<and> mset [''r1''] = mset (filter (\<lambda>k. k \<notin> set (dkeys (tn_revoked example_begun))) [''r1''])
     + mset (dkeys (tn_results example_begun)) + mset []"
  using text_accounts [OF example_runner_started example_begun_run] unfolding example_begun_fields by simp

theorem text_leases_witness:
  "int (text_inflight_count example_begun) \<le> tn_max_workers example_begun \<and> text_inflight_count example_begun = 1
     \<and> set [''r1''] \<subseteq> set (dkeys (mb_inflight (tn_broker example_begun)))"
proof -
  have "text_inflight_count example_begun = 1" by code_simp
  then show ?thesis
    using text_leases [OF example_runner_started example_begun_run example_times_ok] unfolding example_begun_fields by simp
qed

text \<open>The example task is canceled while it runs; its thread then returns 7, and the owner polls.\<close>

lemma example_stopped_run:
  "logged_run text_step example_runner ([Submitted ''r1'', Silent] @ Canceled ''r1'' # [Silent]
     @ Fetched ''r1'' (stale_text_result ''r1'' ''changed'') # [])
     (snd (text_poll example_times 1 (PStr ''r1'') example_stopped))"
proof -
  let ?c = "snd (text_cancel example_times 1 (PStr ''r1'') (PStr ''changed'') example_begun)"
  have "fst (text_cancel example_times 1 (PStr ''r1'') (PStr ''changed'') example_begun) = Inr True" by code_simp
  then have 1: "text_step example_begun (Canceled ''r1'') ?c"
    by (intro text_canceled [OF example_times_ok]) (auto intro: prod_eqI)
  have 2: "text_step ?c Silent example_stopped" unfolding example_stopped_def by (rule text_returned)
  have "fst (text_poll example_times 1 (PStr ''r1'') example_stopped) = Inr (Some (stale_text_result ''r1'' ''changed''))"
    by code_simp
  then have 3: "text_step example_stopped (Fetched ''r1'' (stale_text_result ''r1'' ''changed''))
      (snd (text_poll example_times 1 (PStr ''r1'') example_stopped))"
    by (intro text_fetched [OF example_times_ok]) (auto intro: prod_eqI)
  have "logged_run text_step example_runner ((([Submitted ''r1'', Silent] @ [Canceled ''r1'']) @ [Silent])
      @ [Fetched ''r1'' (stale_text_result ''r1'' ''changed'')]) (snd (text_poll example_times 1 (PStr ''r1'') example_stopped))"
    by (rule logged_more, rule logged_more, rule logged_more, rule example_begun_run, rule 1, rule 2, rule 3)
  then show ?thesis by simp
qed

theorem text_cancel_final_witness:
  "fst (text_poll example_times 1 (PStr ''r1'') example_stopped) = Inr (Some (stale_text_result ''r1'' ''changed''))
   \<and> tt_stale (stale_text_result ''r1'' ''changed'' :: (nat, nat) text_result)"
proof
  show "fst (text_poll example_times 1 (PStr ''r1'') example_stopped) = Inr (Some (stale_text_result ''r1'' ''changed''))"
    by code_simp
  show "tt_stale (stale_text_result ''r1'' ''changed'' :: (nat, nat) text_result)"
    by (rule text_cancel_final [OF example_runner_started example_stopped_run])
qed

end
