(* ===== verification/Airspace_Manager.thy ===== *)
theory Airspace_Manager
  imports Spatial_Contract
begin

text \<open>
  \<open>fleet/airspace_manager.py\<close>: separation of the vehicles of a fleet over one snapshot of their poses.

  Coordinates, times and velocities are exact rationals.  Distances are real numbers, the square roots
  the source takes; so is the time of a breach.  The literals \<open>1e-12\<close> and \<open>1e-9\<close> are the decimals they are
  written as.

  A pose may arrive as a \<open>FleetUavPose\<close>, a plain Python value or an object with attributes
  (\<open>pose_arg\<close>); an object is not iterable.  The fields of a snapshot that is no \<open>FleetPoseSnapshot\<close> are
  given by name, whether they are read from a mapping or from attributes.
\<close>

section \<open>Field checks\<close>

datatype airspace_risk = AR_CLEAR | AR_ADVISORY | AR_CONFLICT | AR_COLLISION_PREDICTED

fun risk_value :: "airspace_risk \<Rightarrow> string" where
  "risk_value AR_CLEAR = ''CLEAR''"
| "risk_value AR_ADVISORY = ''ADVISORY''"
| "risk_value AR_CONFLICT = ''CONFLICT''"
| "risk_value AR_COLLISION_PREDICTED = ''COLLISION_PREDICTED''"

datatype conflict_policy = LOWER_PRIORITY_HOLDS

fun policy_value :: "conflict_policy \<Rightarrow> string" where
  "policy_value LOWER_PRIORITY_HOLDS = ''LOWER_PRIORITY_HOLDS''"

definition air_finite :: "string \<Rightarrow> bool \<Rightarrow> pyval \<Rightarrow> rat result" where
  "air_finite name nonnegative =
     real_value (TypeError (name @ '' must be a finite number''))
       (ValueError (name @ '' must be a '' @ (if nonnegative then ''finite non-negative'' else ''finite'') @ '' number''))
       (\<lambda>x. \<not> (nonnegative \<and> x < 0))"

definition air_vector3 :: "string \<Rightarrow> pyval \<Rightarrow> rat list result" where
  "air_vector3 name v =
     (let bad = ValueError (name @ '' must contain exactly three finite numbers'')
      in rbind (case v of
                  PStr s \<Rightarrow> Inl bad
                | PDict d \<Rightarrow> Inl bad
                | _ \<Rightarrow> (case py_iter v of Inr xs \<Rightarrow> Inr xs | Inl e \<Rightarrow> Inl bad)) (\<lambda>xs.
         if length xs \<noteq> 3 then Inl bad
         else rmap (\<lambda>(i, x). air_finite (item_name name i) False x) (enumerate 0 xs)))"

definition air_route :: "pyval \<Rightarrow> rat list list result" where
  "air_route v =
     (if v = PNone then Inr []
      else
        rbind (case v of PList xs \<Rightarrow> Inr xs | PTuple xs \<Rightarrow> Inr xs
               | _ \<Rightarrow> Inl (TypeError ''route_xyz_m must be a sequence'')) (\<lambda>points.
        rbind (rmap (\<lambda>(i, p). air_vector3 (item_name ''route_xyz_m'' i) p) (enumerate 0 points)) (\<lambda>route.
          if length route = 1
          then Inl (ValueError ''route_xyz_m must be empty or contain at least two points'')
          else Inr route)))"

section \<open>Poses and snapshots\<close>

record uav_pose =
  up_id :: string
  up_position :: "rat list"
  up_velocity :: "rat list"
  up_priority :: int
  up_assignment :: "string option"
  up_route :: "rat list list"
  up_landing :: "string option"

definition FleetUavPose ::
  "pyval \<Rightarrow> pyval \<Rightarrow> pyval \<Rightarrow> pyval \<Rightarrow> pyval \<Rightarrow> pyval \<Rightarrow> pyval \<Rightarrow> uav_pose result" where
  "FleetUavPose uav position velocity priority assignment route landing =
     rbind (validate_uav_id uav) (\<lambda>uav.
     rbind (air_vector3 ''position_xyz_m'' position) (\<lambda>position.
     rbind (air_vector3 ''velocity_xyz_mps'' velocity) (\<lambda>velocity.
     rbind (int_value (TypeError ''priority must be an integer'') (TypeError ''priority must be an integer'')
              (\<lambda>_. True) priority) (\<lambda>priority.
     rbind (opt_check (\<lambda>v. validate_routing_id v ''assignment_id'') assignment) (\<lambda>assignment.
     rbind (air_route route) (\<lambda>route.
     rbind (opt_check (\<lambda>v. validate_routing_id v ''landing_zone_id'') landing) (\<lambda>landing.
       Inr \<lparr>up_id = uav, up_position = position, up_velocity = velocity, up_priority = priority,
            up_assignment = assignment, up_route = route, up_landing = landing\<rparr>)))))))"

definition pose_to_dict :: "uav_pose \<Rightarrow> (string \<times> pyval) list" where
  "pose_to_dict p =
     [(''uav_id'', PStr (up_id p)), (''position_xyz_m'', point_list (up_position p)),
      (''velocity_xyz_mps'', point_list (up_velocity p)), (''priority'', PInt (up_priority p)),
      (''assignment_id'', opt_pyval PStr (up_assignment p)),
      (''route_xyz_m'', PList (map point_list (up_route p))),
      (''landing_zone_id'', opt_pyval PStr (up_landing p))]"

datatype pose_arg = Pose_value uav_pose | Pose_plain pyval | Pose_object "(string \<times> pose_arg) list"

text \<open>A pose object where a plain value is expected: neither a number, nor a string, nor iterable.\<close>

fun plain :: "pose_arg \<Rightarrow> pyval" where
  "plain (Pose_plain v) = v"
| "plain _ = PObj 0"

text \<open>\<open>value.get(name, other)\<close> of a mapping and \<open>getattr(value, name, other)\<close> of an object.\<close>

fun pose_field :: "pose_arg \<Rightarrow> string \<Rightarrow> pose_arg \<Rightarrow> pose_arg" where
  "pose_field (Pose_plain (PDict d)) name other =
     (case dget d (PStr name) of Some v \<Rightarrow> Pose_plain v | None \<Rightarrow> other)"
| "pose_field (Pose_object attrs) name other = (case dget attrs name of Some v \<Rightarrow> v | None \<Rightarrow> other)"
| "pose_field _ name other = other"

definition position_from_pose :: "pose_arg \<Rightarrow> pyval result" where
  "position_from_pose value =
     (case value of
        Pose_plain PNone \<Rightarrow> Inl (TypeError ''pose must expose position_xyz_m'')
      | Pose_plain (PDict d) \<Rightarrow>
          (case dget d (PStr ''position_xyz_m'') of
             Some v \<Rightarrow> Inr v
           | None \<Rightarrow>
              (case (dget d (PStr ''x''), dget d (PStr ''y''), dget d (PStr ''z'')) of
                 (Some x, Some y, Some z) \<Rightarrow> Inr (PTuple [x, y, z])
               | _ \<Rightarrow> Inr (PDict d)))
      | Pose_object attrs \<Rightarrow>
          (case (dget attrs ''x'', dget attrs ''y'', dget attrs ''z'') of
             (Some x, Some y, Some z) \<Rightarrow> Inr (PTuple [plain x, plain y, plain z])
           | _ \<Rightarrow> Inr (plain value))
      | _ \<Rightarrow> Inr (plain value))"

definition zero_vector :: pyval where
  "zero_vector = PTuple [PFloat (Fin 0), PFloat (Fin 0), PFloat (Fin 0)]"

definition coerce_pose :: "string \<Rightarrow> pose_arg \<Rightarrow> uav_pose result" where
  "coerce_pose uav value =
     rbind (position_from_pose (pose_field value ''position_xyz_m''
              (pose_field value ''position'' (pose_field value ''pose'' (Pose_plain PNone))))) (\<lambda>position.
       FleetUavPose (PStr uav) position
         (plain (pose_field value ''velocity_xyz_mps'' (pose_field value ''velocity'' (Pose_plain zero_vector))))
         (plain (pose_field value ''priority'' (Pose_plain (PInt 0))))
         (plain (pose_field value ''assignment_id'' (Pose_plain PNone)))
         (plain (pose_field value ''route_xyz_m'' (Pose_plain (PTuple []))))
         (plain (pose_field value ''landing_zone_id'' (Pose_plain PNone))))"

record pose_snapshot =
  ps_time :: rat
  ps_poses :: "(string \<times> uav_pose) list"

text \<open>The loop of \<open>__post_init__\<close> over the poses.\<close>

fun normalize_poses ::
  "(pyval \<times> pose_arg) list \<Rightarrow> (string \<times> uav_pose) list \<Rightarrow> (string \<times> uav_pose) list result" where
  "normalize_poses [] acc = Inr acc"
| "normalize_poses ((raw, value) # rest) acc =
     rbind (validate_uav_id raw) (\<lambda>uav.
     rbind (case value of Pose_value p \<Rightarrow> Inr p | _ \<Rightarrow> coerce_pose uav value) (\<lambda>p.
       if up_id p \<noteq> uav then Inl (ValueError ''pose mapping key must equal FleetUavPose.uav_id'')
       else if uav \<in> set (dkeys acc) then Inl (ValueError ''poses contains a duplicate UAV ID'')
       else normalize_poses rest (dset acc uav p)))"

datatype field_arg = Field_plain pyval | Field_poses "(pyval \<times> pose_arg) list"

text \<open>The items of a field that is a mapping.\<close>

definition mapping_items :: "field_arg \<Rightarrow> (pyval \<times> pose_arg) list option" where
  "mapping_items f =
     (case f of
        Field_poses items \<Rightarrow> Some items
      | Field_plain (PDict d) \<Rightarrow> Some (map (\<lambda>(k, v). (k, Pose_plain v)) d)
      | _ \<Rightarrow> None)"

definition FleetPoseSnapshot :: "pyval \<Rightarrow> field_arg \<Rightarrow> pose_snapshot result" where
  "FleetPoseSnapshot timestamp poses =
     rbind (air_finite ''timestamp_s'' True timestamp) (\<lambda>timestamp.
       case mapping_items poses of
         None \<Rightarrow> Inl (TypeError ''poses must be a mapping'')
       | Some items \<Rightarrow>
           rbind (normalize_poses items []) (\<lambda>normalized.
             Inr \<lparr>ps_time = timestamp, ps_poses = sort_key fst normalized\<rparr>))"

definition snapshot_to_dict :: "pose_snapshot \<Rightarrow> (string \<times> pyval) list" where
  "snapshot_to_dict s =
     [(''timestamp_s'', pfloat (ps_time s)),
      (''poses'', PDict (map (\<lambda>(uav, p). (PStr uav, PDict (map (\<lambda>(k, v). (PStr k, v)) (pose_to_dict p))))
        (ps_poses s)))]"

datatype snapshot_arg = Snapshot pose_snapshot | Snapshot_fields "(string \<times> field_arg) list"

definition snapshot_field :: "(string \<times> field_arg) list \<Rightarrow> string \<Rightarrow> field_arg \<Rightarrow> field_arg" where
  "snapshot_field entries name other = (case dget entries name of Some f \<Rightarrow> f | None \<Rightarrow> other)"

text \<open>\<open>velocities.get(raw_uav_id, (0.0, 0.0, 0.0))\<close>; what is falsy and no mapping has no \<open>get\<close>.\<close>

definition velocity_of :: "field_arg \<Rightarrow> pyval \<Rightarrow> pyval result" where
  "velocity_of velocities raw =
     (case mapping_items velocities of
        None \<Rightarrow> Inl (AttributeError ''object has no attribute get'')
      | Some items \<Rightarrow> Inr (case dget items raw of Some v \<Rightarrow> plain v | None \<Rightarrow> zero_vector))"

text \<open>\<open>item.setdefault(k, v)\<close>.\<close>

definition dict_setdefault :: "(pyval \<times> pyval) list \<Rightarrow> pyval \<Rightarrow> pyval \<Rightarrow> (pyval \<times> pyval) list" where
  "dict_setdefault d k v = (if k \<in> set (dkeys d) then d else dset d k v)"

definition snapshot_item :: "field_arg \<Rightarrow> pyval \<Rightarrow> pose_arg \<Rightarrow> pose_arg result" where
  "snapshot_item velocities raw pose =
     (case pose of
        Pose_plain (PDict d) \<Rightarrow>
          rbind (velocity_of velocities raw) (\<lambda>v.
            Inr (Pose_plain (PDict (dict_setdefault d (PStr ''velocity_xyz_mps'') v))))
      | _ \<Rightarrow>
          rbind (position_from_pose pose) (\<lambda>position.
          rbind (velocity_of velocities raw) (\<lambda>v.
          rbind (FleetUavPose raw position v (PInt 0) PNone (PTuple []) PNone) (\<lambda>p. Inr (Pose_value p)))))"

fun snapshot_items ::
  "field_arg \<Rightarrow> (pyval \<times> pose_arg) list \<Rightarrow> (pyval \<times> pose_arg) list \<Rightarrow> (pyval \<times> pose_arg) list result" where
  "snapshot_items velocities [] acc = Inr acc"
| "snapshot_items velocities ((raw, pose) # rest) acc =
     rbind (snapshot_item velocities raw pose) (\<lambda>item. snapshot_items velocities rest (dset acc raw item))"

definition coerce_fleet_pose_snapshot :: "snapshot_arg \<Rightarrow> pose_snapshot result" where
  "coerce_fleet_pose_snapshot value =
     (case value of
        Snapshot s \<Rightarrow> Inr s
      | Snapshot_fields entries \<Rightarrow>
          let timestamp = snapshot_field entries ''timestamp_s''
                (snapshot_field entries ''timestamp'' (Field_plain (PFloat (Fin 0))));
              poses = snapshot_field entries ''poses'' (snapshot_field entries ''uavs''
                (snapshot_field entries ''uav_states'' (Field_plain PNone)));
              velocities = snapshot_field entries ''uav_velocities_mps'' (Field_plain (PDict []))
          in (case mapping_items poses of
                None \<Rightarrow> Inl (TypeError ''fleet pose snapshot must expose a poses mapping'')
              | Some items \<Rightarrow>
                  if (case velocities of Field_plain v \<Rightarrow> py_truthy v | Field_poses m \<Rightarrow> m \<noteq> [])
                     \<and> mapping_items velocities = None
                  then Inl (TypeError ''uav_velocities_mps must be a mapping'')
                  else
                    rbind (snapshot_items velocities items []) (\<lambda>normalized.
                      FleetPoseSnapshot (case timestamp of Field_plain v \<Rightarrow> v | Field_poses m \<Rightarrow> PObj 0)
                        (Field_poses normalized))))"

section \<open>Geometry of a pair\<close>

definition diff3 :: "rat list \<Rightarrow> rat list \<Rightarrow> rat list" where
  "diff3 second first = map (\<lambda>i. second ! i - first ! i) [0..<3]"

definition dot3 :: "rat list \<Rightarrow> rat list \<Rightarrow> rat" where
  "dot3 a b = sum_list (map2 (*) a b)"

definition air_norm :: "rat list \<Rightarrow> real" where
  "air_norm v = sqrt (of_rat (dot3 v v))"

definition time_to_closest :: "rat \<Rightarrow> rat list \<Rightarrow> rat list \<Rightarrow> rat" where
  "time_to_closest horizon position velocity =
     (if dot3 velocity velocity \<le> 1 / 10 ^ 12 then 0
      else max 0 (min horizon (- dot3 position velocity / dot3 velocity velocity)))"

definition time_to_separation_breach :: "rat list \<Rightarrow> rat list \<Rightarrow> rat \<Rightarrow> rat \<Rightarrow> real option" where
  "time_to_separation_breach position velocity separation horizon =
     (let current_sq = dot3 position position;
          separation_sq = separation * separation
      in if current_sq < separation_sq then Some 0
         else
           let velocity_sq = dot3 velocity velocity
           in if velocity_sq \<le> 1 / 10 ^ 12 then None
              else
                let dot = dot3 position velocity;
                    discriminant = dot * dot - velocity_sq * (current_sq - separation_sq)
                in if discriminant < 0 then None
                   else
                     let entry = (- of_rat dot - sqrt (of_rat (max 0 discriminant))) / of_rat velocity_sq
                     in if entry < 0 \<or> entry > of_rat horizon then None else Some entry)"

definition lower_priority :: "uav_pose \<Rightarrow> uav_pose \<Rightarrow> uav_pose" where
  "lower_priority first second =
     (if up_priority first \<noteq> up_priority second
      then if up_priority first < up_priority second then first else second
      else if up_id first > up_id second then first else second)"

definition orientation :: "rat list \<Rightarrow> rat list \<Rightarrow> rat list \<Rightarrow> rat" where
  "orientation p q r = (q ! 0 - p ! 0) * (r ! 1 - p ! 1) - (q ! 1 - p ! 1) * (r ! 0 - p ! 0)"

definition epsilon :: rat where
  "epsilon = 1 / 10 ^ 9"

definition on_segment :: "rat list \<Rightarrow> rat list \<Rightarrow> rat list \<Rightarrow> bool" where
  "on_segment p q r =
     (min (p ! 0) (r ! 0) - epsilon \<le> q ! 0 \<and> q ! 0 \<le> max (p ! 0) (r ! 0) + epsilon
      \<and> min (p ! 1) (r ! 1) - epsilon \<le> q ! 1 \<and> q ! 1 \<le> max (p ! 1) (r ! 1) + epsilon)"

definition segments_intersect_xy :: "rat list \<Rightarrow> rat list \<Rightarrow> rat list \<Rightarrow> rat list \<Rightarrow> bool" where
  "segments_intersect_xy a b c d =
     (let o1 = orientation a b c; o2 = orientation a b d;
          o3 = orientation c d a; o4 = orientation c d b
      in if (o1 > epsilon \<and> o2 < - epsilon \<or> o1 < - epsilon \<and> o2 > epsilon)
            \<and> (o3 > epsilon \<and> o4 < - epsilon \<or> o3 < - epsilon \<and> o4 > epsilon)
         then True
         else
           \<bar>o1\<bar> \<le> epsilon \<and> on_segment a c b \<or> \<bar>o2\<bar> \<le> epsilon \<and> on_segment a d b
           \<or> \<bar>o3\<bar> \<le> epsilon \<and> on_segment c a d \<or> \<bar>o4\<bar> \<le> epsilon \<and> on_segment c b d)"

text \<open>How far the altitudes of two segments are apart; negative when they overlap.\<close>

definition altitude_gap :: "rat list \<Rightarrow> rat list \<Rightarrow> rat list \<Rightarrow> rat list \<Rightarrow> rat" where
  "altitude_gap a0 a1 b0 b1 =
     max (min (a0 ! 2) (a1 ! 2)) (min (b0 ! 2) (b1 ! 2)) - min (max (a0 ! 2) (a1 ! 2)) (max (b0 ! 2) (b1 ! 2))"

definition route_segments :: "rat list list \<Rightarrow> (rat list \<times> rat list) list" where
  "route_segments route = zip route (tl route)"

definition routes_intersect :: "rat list list \<Rightarrow> rat list list \<Rightarrow> rat \<Rightarrow> bool" where
  "routes_intersect first second tolerance =
     (if length first < 2 \<or> length second < 2 then False
      else list_ex (\<lambda>(a0, a1). list_ex (\<lambda>(b0, b1).
             \<not> altitude_gap a0 a1 b0 b1 > tolerance \<and> segments_intersect_xy a0 a1 b0 b1)
           (route_segments second)) (route_segments first))"

section \<open>Conflicts and decisions\<close>

record pairwise_conflict =
  pc_a :: string
  pc_b :: string
  pc_current :: real
  pc_horizontal :: real
  pc_vertical :: rat
  pc_speed :: real
  pc_closest :: real
  pc_time_to_closest :: rat
  pc_collision_time :: "real option"
  pc_routes :: bool
  pc_landing :: bool
  pc_risk :: airspace_risk
  pc_hold :: "string option"

text \<open>
  The checks of \<open>__post_init__\<close> on the numbers the manager computes.  They are exact reals here and so always
  finite; the branch that rejects an infinite one, which binary floats reach only by overflow, is not modelled.
\<close>

definition air_nonnegative :: "string \<Rightarrow> real \<Rightarrow> unit result" where
  "air_nonnegative name x =
     (if x < 0 then Inl (ValueError (name @ '' must be a finite non-negative number'')) else Inr ())"

definition PairwiseConflict :: "pairwise_conflict \<Rightarrow> pairwise_conflict result" where
  "PairwiseConflict c =
     rbind (validate_uav_id (PStr (pc_a c))) (\<lambda>_.
     rbind (validate_uav_id (PStr (pc_b c))) (\<lambda>_.
     if pc_a c \<ge> pc_b c then Inl (ValueError ''pair IDs must be stored in sorted order'')
     else
       rbind (air_nonnegative ''current_distance_m'' (pc_current c)) (\<lambda>_.
       rbind (air_nonnegative ''horizontal_distance_m'' (pc_horizontal c)) (\<lambda>_.
       rbind (air_nonnegative ''vertical_distance_m'' (of_rat (pc_vertical c))) (\<lambda>_.
       rbind (air_nonnegative ''relative_speed_mps'' (pc_speed c)) (\<lambda>_.
       rbind (air_nonnegative ''predicted_closest_distance_m'' (pc_closest c)) (\<lambda>_.
       rbind (air_nonnegative ''time_to_closest_s'' (of_rat (pc_time_to_closest c))) (\<lambda>_.
       rbind (case pc_collision_time c of None \<Rightarrow> Inr ()
              | Some t \<Rightarrow> air_nonnegative ''predicted_collision_time_s'' t) (\<lambda>_.
       case pc_hold c of
         None \<Rightarrow> Inr c
       | Some h \<Rightarrow>
           rbind (validate_uav_id (PStr h)) (\<lambda>_.
             if h \<noteq> pc_a c \<and> h \<noteq> pc_b c then Inl (ValueError ''hold_uav_id must belong to the pair'')
             else Inr c))))))))))"

definition is_conflict :: "pairwise_conflict \<Rightarrow> bool" where
  "is_conflict c = (pc_risk c \<in> {AR_CONFLICT, AR_COLLISION_PREDICTED})"

record airspace_decision =
  ad_time :: rat
  ad_conflicts :: "pairwise_conflict list"
  ad_holds :: "string list"
  ad_event :: "string option"

definition FleetAirspaceDecision ::
  "rat \<Rightarrow> pairwise_conflict list \<Rightarrow> string list \<Rightarrow> string option \<Rightarrow> airspace_decision result" where
  "FleetAirspaceDecision timestamp conflicts holds event =
     (if timestamp < 0 then Inl (ValueError ''timestamp_s must be a finite non-negative number'')
      else
        rbind (rmap (\<lambda>h. validate_uav_id (PStr h)) holds) (\<lambda>holds.
          if event \<noteq> None \<and> event \<noteq> Some ''AIRSPACE_CONFLICT''
          then Inl (ValueError ''event_type must be AIRSPACE_CONFLICT or None'')
          else Inr \<lparr>ad_time = timestamp, ad_conflicts = conflicts, ad_holds = sort (remdups holds),
                    ad_event = event\<rparr>))"

definition decision_clear :: "airspace_decision \<Rightarrow> bool" where
  "decision_clear d = (\<not> list_ex is_conflict (ad_conflicts d))"

section \<open>The manager\<close>

record airspace_manager =
  am_minimum :: rat
  am_warning :: rat
  am_horizon :: rat
  am_tolerance :: rat
  am_policy :: conflict_policy
  am_last :: "airspace_decision option"

definition FleetAirspaceManager ::
  "pyval \<Rightarrow> pyval \<Rightarrow> pyval \<Rightarrow> pyval \<Rightarrow> pyval \<Rightarrow> airspace_manager result" where
  "FleetAirspaceManager minimum warning horizon tolerance policy =
     rbind (air_finite ''minimum_separation_m'' True minimum) (\<lambda>minimum.
     if minimum \<le> 0 then Inl (ValueError ''minimum_separation_m must be greater than zero'')
     else
       rbind (case warning of PNone \<Rightarrow> Inr (minimum * (3 / 2))
              | _ \<Rightarrow> air_finite ''warning_separation_m'' True warning) (\<lambda>warning.
       if warning < minimum
       then Inl (ValueError ''warning_separation_m must be at least minimum_separation_m'')
       else
         rbind (air_finite ''prediction_horizon_s'' True horizon) (\<lambda>horizon.
         if horizon \<le> 0 then Inl (ValueError ''prediction_horizon_s must be greater than zero'')
         else
           rbind (air_finite ''route_altitude_tolerance_m'' True tolerance) (\<lambda>tolerance.
           rbind (enum_of ''RouteConflictPolicy'' policy_value [LOWER_PRIORITY_HOLDS] policy) (\<lambda>policy.
             Inr \<lparr>am_minimum = minimum, am_warning = warning, am_horizon = horizon, am_tolerance = tolerance,
                  am_policy = policy, am_last = None\<rparr>)))))"

definition evaluate_sorted :: "airspace_manager \<Rightarrow> uav_pose \<Rightarrow> uav_pose \<Rightarrow> pairwise_conflict result" where
  "evaluate_sorted m first second =
     (let position = diff3 (up_position second) (up_position first);
          velocity = diff3 (up_velocity second) (up_velocity first);
          current = air_norm position;
          horizontal = sqrt (of_rat (position ! 0 * position ! 0 + position ! 1 * position ! 1));
          vertical = \<bar>position ! 2\<bar>;
          speed = air_norm velocity;
          tca = time_to_closest (am_horizon m) position velocity;
          closest = air_norm (map (\<lambda>i. position ! i + velocity ! i * tca) [0..<3]);
          crossing = routes_intersect (up_route first) (up_route second) (am_tolerance m);
          landing = (up_landing first \<noteq> None \<and> up_landing first = up_landing second);
          closing = dot3 position velocity < 0;
          collision = (current < of_rat (am_minimum m)
            \<or> closing \<and> 0 < tca \<and> tca \<le> am_horizon m \<and> closest < of_rat (am_minimum m));
          collision_time = (if collision
            then time_to_separation_breach position velocity (am_minimum m) (am_horizon m) else None);
          warned = (closing \<and> 0 < tca \<and> tca \<le> am_horizon m \<and> closest < of_rat (am_warning m));
          risk = (if collision then AR_COLLISION_PREDICTED
                  else if warned \<or> crossing \<or> landing then AR_CONFLICT
                  else if current < of_rat (am_warning m) then AR_ADVISORY
                  else AR_CLEAR);
          hold = (if collision \<or> crossing \<or> landing then Some (up_id (lower_priority first second)) else None)
      in PairwiseConflict
           \<lparr>pc_a = up_id first, pc_b = up_id second, pc_current = current, pc_horizontal = horizontal,
            pc_vertical = vertical, pc_speed = speed, pc_closest = closest, pc_time_to_closest = tca,
            pc_collision_time = collision_time, pc_routes = crossing, pc_landing = landing, pc_risk = risk,
            pc_hold = hold\<rparr>)"

definition evaluate_pair :: "airspace_manager \<Rightarrow> uav_pose \<Rightarrow> uav_pose \<Rightarrow> pairwise_conflict result" where
  "evaluate_pair m first second =
     (if up_id first > up_id second then evaluate_sorted m second first else evaluate_sorted m first second)"

text \<open>The pairs of the two nested loops, in their order.\<close>

fun pairs :: "'a list \<Rightarrow> ('a \<times> 'a) list" where
  "pairs [] = []"
| "pairs (x # xs) = map (\<lambda>y. (x, y)) xs @ pairs xs"

definition airspace_evaluate ::
  "airspace_manager \<Rightarrow> snapshot_arg \<Rightarrow> airspace_decision result \<times> airspace_manager" where
  "airspace_evaluate m value =
     checked m (coerce_fleet_pose_snapshot value) (\<lambda>s.
     checked m (rmap (\<lambda>(a, b). evaluate_pair m a b) (pairs (dvals (ps_poses s)))) (\<lambda>conflicts.
       let holds = sort (remdups (concat (map (\<lambda>c.
             case pc_hold c of Some h \<Rightarrow> if is_conflict c then [h] else [] | None \<Rightarrow> []) conflicts)))
       in checked m (FleetAirspaceDecision (ps_time s) conflicts holds
              (if list_ex is_conflict conflicts then Some ''AIRSPACE_CONFLICT'' else None)) (\<lambda>d.
            (Inr d, m\<lparr>am_last := Some d\<rparr>))))"

end
