(* ===== verification/Airspace_Separation.thy ===== *)
theory Airspace_Separation
  imports Airspace_Manager
begin

text \<open>
  What the airspace manager of \<open>Airspace_Manager\<close> promises.  Two vehicles that keep their velocities have the
  \<open>separation\<close> of the first section at time \<open>t\<close>; the predictions of a pair are proved exact for it,
  where vehicles with almost equal velocities are expected to keep their distance.  Routes
  that cross in the plan view at one altitude are reported, and the holds leave a vehicle flying.
\<close>

section \<open>Well-formed poses, snapshots and managers\<close>

definition pose_ok :: "uav_pose \<Rightarrow> bool" where
  "pose_ok p = (routing_id_match (up_id p) \<and> length (up_position p) = 3 \<and> length (up_velocity p) = 3
     \<and> list_all (\<lambda>q. length q = 3) (up_route p))"

definition snapshot_ok :: "pose_snapshot \<Rightarrow> bool" where
  "snapshot_ok s = (0 \<le> ps_time s \<and> sorted (dkeys (ps_poses s)) \<and> dict_ok (ps_poses s)
     \<and> list_all (\<lambda>(k, p). up_id p = k \<and> pose_ok p) (ps_poses s))"

definition manager_ok :: "airspace_manager \<Rightarrow> bool" where
  "manager_ok m = (0 < am_minimum m \<and> am_minimum m \<le> am_warning m \<and> 0 < am_horizon m \<and> 0 \<le> am_tolerance m)"

lemma air_finite_nonnegative: "air_finite name True v = Inr x \<Longrightarrow> 0 \<le> x"
  unfolding air_finite_def by (drule real_value_Inr) simp

lemma air_vector3_length: "air_vector3 name v = Inr p \<Longrightarrow> length p = 3"
  by (auto simp: air_vector3_def Let_def rbind_eq_Inr dest: rmap_Inr_length split: if_splits)

lemma rmap_all:
  assumes "rmap f xs = Inr ys" and "\<And>x y. f x = Inr y \<Longrightarrow> P y"
  shows "list_all P ys"
  using assms(1) unfolding rmap_eq_Inr by (induction rule: list_all2_induct) (simp_all add: assms(2))

lemma air_route_points:
  assumes "air_route v = Inr r"
  shows "list_all (\<lambda>q. length q = 3) r"
proof (cases "v = PNone")
  case False
  then obtain points where "rmap (\<lambda>(i, p). air_vector3 (item_name ''route_xyz_m'' i) p) (enumerate 0 points) = Inr r"
    using assms unfolding air_route_def by (simp add: rbind_eq_Inr split: if_split_asm) blast
  then show ?thesis by (rule rmap_all) (auto dest: air_vector3_length)
qed (use assms in \<open>simp add: air_route_def\<close>)

lemma FleetUavPose_ok:
  assumes "FleetUavPose uav position velocity priority assignment route landing = Inr p"
  shows "pose_ok p" and "uav = PStr (up_id p)"
proof -
  obtain u pos vel pr a r l where f: "validate_uav_id uav = Inr u" "air_vector3 ''position_xyz_m'' position = Inr pos"
    "air_vector3 ''velocity_xyz_mps'' velocity = Inr vel" "air_route route = Inr r"
    and p: "p = \<lparr>up_id = u, up_position = pos, up_velocity = vel, up_priority = pr, up_assignment = a,
      up_route = r, up_landing = l\<rparr>"
    using assms unfolding FleetUavPose_def rbind_eq_Inr by blast
  show "pose_ok p" "uav = PStr (up_id p)"
    using f(1) f(2,3) [THEN air_vector3_length] air_route_points [OF f(4)]
    unfolding p pose_ok_def by simp_all
qed

lemma coerce_pose_ok: "coerce_pose uav value = Inr p \<Longrightarrow> pose_ok p"
  unfolding coerce_pose_def rbind_eq_Inr by (auto dest: FleetUavPose_ok)

text \<open>The poses handed over as values are well formed: they come from the constructor.\<close>

fun arg_ok :: "pose_arg \<Rightarrow> bool" where
  "arg_ok (Pose_value p) = pose_ok p"
| "arg_ok _ = True"

definition poses_ok :: "(string \<times> uav_pose) list \<Rightarrow> bool" where
  "poses_ok d = (dict_ok d \<and> list_all (\<lambda>(k, p). up_id p = k \<and> pose_ok p) d)"

lemma normalize_poses_ok:
  assumes "normalize_poses items acc = Inr d" and "poses_ok acc" and "\<forall>(k, v) \<in> set items. arg_ok v"
  shows "poses_ok d"
  using assms
proof (induction items acc rule: normalize_poses.induct)
  case (2 raw v rest acc)
  from 2(2) obtain uav p where u: "validate_uav_id raw = Inr uav"
    and p: "(case v of Pose_value p \<Rightarrow> Inr p | _ \<Rightarrow> coerce_pose uav v) = Inr p"
    and id: "up_id p = uav" and new: "uav \<notin> set (dkeys acc)"
    and rest: "normalize_poses rest (dset acc uav p) = Inr d"
    by (auto simp: rbind_eq_Inr split: if_splits)
  have "pose_ok p" using p 2(4) by (cases v) (auto dest: coerce_pose_ok)
  then have "poses_ok (dset acc uav p)"
    using 2(3) id new by (simp add: poses_ok_def dset_new list_all_iff)
  then show ?case using 2(1) [OF _ new rest] id \<open>poses_ok (dset acc uav p)\<close> 2(4) by auto
qed simp

lemma FleetPoseSnapshot_ok:
  assumes "FleetPoseSnapshot t poses = Inr s" and "\<And>items. mapping_items poses = Some items \<Longrightarrow> \<forall>(k, v) \<in> set items. arg_ok v"
  shows "snapshot_ok s"
proof -
  from assms(1) obtain time items d where t: "air_finite ''timestamp_s'' True t = Inr time"
    and m: "mapping_items poses = Some items" and d: "normalize_poses items [] = Inr d"
    and s: "s = \<lparr>ps_time = time, ps_poses = sort_key fst d\<rparr>"
    by (auto simp: FleetPoseSnapshot_def rbind_eq_Inr split: option.splits)
  have "poses_ok d" using normalize_poses_ok [OF d _ assms(2) [OF m]] by (simp add: poses_ok_def)
  then show ?thesis
    using air_finite_nonnegative [OF t] unfolding s snapshot_ok_def poses_ok_def
    by (auto simp: list_all_iff distinct_map inj_on_def)
qed

lemma snapshot_items_ok:
  assumes "snapshot_items vs items acc = Inr d" and "\<forall>(k, v) \<in> set acc. arg_ok v"
  shows "\<forall>(k, v) \<in> set d. arg_ok v"
  using assms
proof (induction vs items acc rule: snapshot_items.induct)
  case (2 vs raw pose rest acc)
  from 2(2) obtain item where i: "snapshot_item vs raw pose = Inr item"
    and r: "snapshot_items vs rest (dset acc raw item) = Inr d" by (auto simp: rbind_eq_Inr)
  have "arg_ok item"
    using i by (auto simp: snapshot_item_def rbind_eq_Inr dest: FleetUavPose_ok split: pose_arg.splits pyval.splits)
  moreover have "set (dset acc raw item) \<subseteq> insert (raw, item) (set acc)"
    by (induction acc) auto
  ultimately have "\<forall>(k, v) \<in> set (dset acc raw item). arg_ok v" using 2(3) by fastforce
  then show ?case using 2(1) [OF r] by blast
qed simp

lemma coerce_snapshot_ok:
  assumes "coerce_fleet_pose_snapshot v = Inr s" and "\<And>s. v = Snapshot s \<Longrightarrow> snapshot_ok s"
  shows "snapshot_ok s"
proof (cases v)
  case (Snapshot s')
  then show ?thesis using assms by (simp add: coerce_fleet_pose_snapshot_def)
next
  case (Snapshot_fields entries)
  with assms(1) obtain vs items d t where "snapshot_items vs items [] = Inr d"
    and "FleetPoseSnapshot t (Field_poses d) = Inr s"
    by (auto simp: coerce_fleet_pose_snapshot_def Let_def rbind_eq_Inr split: option.splits if_splits)
  moreover from this(1) have "\<forall>(k, v) \<in> set d. arg_ok v" by (rule snapshot_items_ok) simp
  ultimately show ?thesis by (intro FleetPoseSnapshot_ok [of t "Field_poses d"]) (auto simp: mapping_items_def)
qed

lemma FleetAirspaceManager_ok: "FleetAirspaceManager mi w h tol p = Inr m \<Longrightarrow> manager_ok m"
  by (auto simp: FleetAirspaceManager_def manager_ok_def rbind_eq_Inr split: if_splits dest: air_finite_nonnegative)

section \<open>Separation of two vehicles\<close>

definition axis_gap :: "uav_pose \<Rightarrow> uav_pose \<Rightarrow> real \<Rightarrow> nat \<Rightarrow> real" where
  "axis_gap first second t i =
     (of_rat (up_position second ! i) + of_rat (up_velocity second ! i) * t)
     - (of_rat (up_position first ! i) + of_rat (up_velocity first ! i) * t)"

text \<open>The distance of two vehicles \<open>t\<close> seconds after the snapshot, at constant velocities.\<close>

definition separation :: "uav_pose \<Rightarrow> uav_pose \<Rightarrow> real \<Rightarrow> real" where
  "separation first second t =
     sqrt ((axis_gap first second t 0)\<^sup>2 + (axis_gap first second t 1)\<^sup>2 + (axis_gap first second t 2)\<^sup>2)"

lemma separation_commute: "separation b a t = separation a b t"
proof -
  have "axis_gap b a t i = - axis_gap a b t i" for i by (simp add: axis_gap_def)
  then show ?thesis by (simp add: separation_def)
qed

text \<open>The square of the separation is a quadratic function of the time.\<close>

abbreviation quad :: "real \<Rightarrow> real \<Rightarrow> real \<Rightarrow> real \<Rightarrow> real" where
  "quad p d v t \<equiv> p + 2 * d * t + v * t\<^sup>2"

abbreviation rpos :: "uav_pose \<Rightarrow> uav_pose \<Rightarrow> rat list" where
  "rpos a b \<equiv> diff3 (up_position b) (up_position a)"

abbreviation rvel :: "uav_pose \<Rightarrow> uav_pose \<Rightarrow> rat list" where
  "rvel a b \<equiv> diff3 (up_velocity b) (up_velocity a)"

lemma upto3: "[0..<3] = [0, 1, 2 :: nat]"
  by (simp add: upt_rec)

lemma dot3_list: "dot3 [a, b, c] [x, y, z] = a * x + b * y + c * z"
  by (simp add: dot3_def add.assoc)

lemma axis_gap_relative:
  "i < 3 \<Longrightarrow> axis_gap a b t i = of_rat (rpos a b ! i) + of_rat (rvel a b ! i) * t"
  by (simp add: axis_gap_def diff3_def of_rat_diff algebra_simps)

lemma dot3_diff3: "dot3 (diff3 a b) (diff3 c d)
    = diff3 a b ! 0 * diff3 c d ! 0 + diff3 a b ! 1 * diff3 c d ! 1 + diff3 a b ! 2 * diff3 c d ! 2"
  by (simp add: diff3_def upto3 dot3_list)

lemma squares_quad:
  "(x + u * t)\<^sup>2 + (y + v * t)\<^sup>2 + (z + w * t)\<^sup>2
    = quad (x * x + y * y + z * z) (x * u + y * v + z * w) (u * u + v * v + w * w) t" for t :: real
  by (simp add: power2_eq_square algebra_simps)

lemma separation_quad:
  "(separation a b t)\<^sup>2 = quad (of_rat (dot3 (rpos a b) (rpos a b))) (of_rat (dot3 (rpos a b) (rvel a b)))
     (of_rat (dot3 (rvel a b) (rvel a b))) t"
proof -
  have "(separation a b t)\<^sup>2 = (axis_gap a b t 0)\<^sup>2 + (axis_gap a b t 1)\<^sup>2 + (axis_gap a b t 2)\<^sup>2"
    by (simp add: separation_def)
  then show ?thesis
    by (simp only: axis_gap_relative squares_quad dot3_diff3 of_rat_add of_rat_mult zero_less_numeral
        one_less_numeral_iff num.distinct numeral_less_iff semiring_norm)
qed

lemma dot3_nonneg: "0 \<le> dot3 (diff3 a b) (diff3 a b)"
  by (simp add: dot3_diff3)

lemma separation_nonneg: "0 \<le> separation a b t"
  by (simp add: separation_def)

lemma separation_less: "0 \<le> s \<Longrightarrow> separation a b t < s \<longleftrightarrow> (separation a b t)\<^sup>2 < s\<^sup>2"
  using separation_nonneg by (auto intro: power_strict_mono power2_less_imp_less)

lemma separation_now: "air_norm (rpos a b) = separation a b 0"
proof -
  have "(air_norm (rpos a b))\<^sup>2 = (separation a b 0)\<^sup>2"
    unfolding separation_quad by (simp add: air_norm_def dot3_nonneg)
  then show ?thesis
    by (rule power2_eq_imp_eq) (simp_all add: separation_nonneg air_norm_def dot3_nonneg)
qed

section \<open>Predictions\<close>

lemma clamp_nearest:
  fixes h t u :: real
  assumes "0 \<le> t" "t \<le> h"
  shows "\<bar>max 0 (min h u) - u\<bar> \<le> \<bar>t - u\<bar>"
  using assms by (auto simp: max_def min_def)

text \<open>On \<open>0 .. h\<close> a quadratic that opens upwards is least where its apex is clamped to.\<close>

lemma quad_clamped_least:
  fixes v :: real
  assumes "0 < v" "0 \<le> t" "t \<le> h"
  shows "quad p d v (max 0 (min h (- d / v))) \<le> quad p d v t"
proof -
  have q: "quad p d v x = p - d\<^sup>2 / v + v * (x - (- d / v))\<^sup>2" for x
    using assms(1) by (simp add: power2_eq_square field_simps)
  have "(max 0 (min h (- d / v)) - (- d / v))\<^sup>2 \<le> (t - (- d / v))\<^sup>2"
    using clamp_nearest [OF assms(2,3), of "- d / v"] by (simp only: abs_le_square_iff)
  then show ?thesis unfolding q using assms(1) by (simp add: mult_left_mono)
qed

text \<open>The first time at which the quadratic comes down to \<open>s\<^sup>2\<close>.\<close>

lemma quad_first_entry:
  fixes v :: real
  assumes "0 < v" "s\<^sup>2 \<le> p" "0 \<le> c" "quad p d v c < s\<^sup>2"
  defines "entry \<equiv> (- d - sqrt (d\<^sup>2 - v * (p - s\<^sup>2))) / v"
  shows "0 < d\<^sup>2 - v * (p - s\<^sup>2)" and "0 \<le> entry" and "entry < c" and "quad p d v entry = s\<^sup>2"
    and "t < entry \<Longrightarrow> s\<^sup>2 < quad p d v t"
proof -
  let ?disc = "d\<^sup>2 - v * (p - s\<^sup>2)"
  have q: "v * (quad p d v x - s\<^sup>2) = (v * x + d)\<^sup>2 - ?disc" for x
    by (simp add: power2_eq_square algebra_simps)
  have neg: "v * (quad p d v c - s\<^sup>2) < 0" using assms(1,4) by (simp add: mult_less_0_iff)
  have "0 \<le> (v * c + d)\<^sup>2" by simp
  with neg q [of c] show pos: "0 < ?disc" by linarith
  have in_range: "\<bar>v * c + d\<bar> < sqrt ?disc"
    using neg q [of c] pos by (metis diff_less_0_iff_less real_sqrt_abs real_sqrt_less_mono)
  have e: "v * entry + d = - sqrt ?disc" using assms(1) by (simp add: entry_def)
  have "0 \<le> v * (p - s\<^sup>2)" using assms(1,2) by simp
  then have "sqrt ?disc \<le> \<bar>d\<bar>" by (simp add: real_le_lsqrt real_sqrt_le_iff flip: real_sqrt_abs)
  moreover have "d < 0"
  proof (rule ccontr)
    assume "\<not> d < 0"
    then have "0 \<le> 2 * d * c + v * c\<^sup>2" using assms(1,3) by simp
    then show False using assms(2,4) by simp
  qed
  ultimately have "0 \<le> v * entry" using e by simp
  then show "0 \<le> entry" using assms(1) by (simp add: zero_le_mult_iff)
  have "v * entry < v * c" using e in_range by linarith
  then show "entry < c" using assms(1) by simp
  have "(v * entry + d)\<^sup>2 = ?disc" using e pos by simp
  then show "quad p d v entry = s\<^sup>2" using q [of entry] assms(1) by simp
  show "s\<^sup>2 < quad p d v t" if "t < entry"
  proof -
    have "v * t + d < - sqrt ?disc" using that e assms(1) by (metis add_less_cancel_right mult_less_cancel_left_pos)
    then have "sqrt ?disc < \<bar>v * t + d\<bar>" by simp
    then have "?disc < (v * t + d)\<^sup>2"
      by (metis abs_ge_zero abs_of_nonneg pos order_less_imp_le power2_abs real_sqrt_ge_zero real_sqrt_pow2 power_strict_mono zero_less_numeral)
    then have "0 < v * (quad p d v t - s\<^sup>2)" using q [of t] by simp
    then show ?thesis using assms(1) by (simp add: zero_less_mult_iff)
  qed
qed

text \<open>Below this relative speed the manager looks at the current distance only.\<close>

definition moving :: "uav_pose \<Rightarrow> uav_pose \<Rightarrow> bool" where
  "moving a b = (1 / 10 ^ 12 < dot3 (rvel a b) (rvel a b))"

abbreviation tca_of :: "airspace_manager \<Rightarrow> uav_pose \<Rightarrow> uav_pose \<Rightarrow> rat" where
  "tca_of m a b \<equiv> time_to_closest (am_horizon m) (rpos a b) (rvel a b)"

lemma tca_range: "manager_ok m \<Longrightarrow> 0 \<le> tca_of m a b \<and> tca_of m a b \<le> am_horizon m"
  by (auto simp: time_to_closest_def manager_ok_def)

lemma of_rat_max: "of_rat (max x y) = (max (of_rat x) (of_rat y) :: real)"
  by (simp add: max_def of_rat_less_eq)

lemma of_rat_clamp: "of_rat (max 0 (min h u)) = (max 0 (min (of_rat h) (of_rat u)) :: real)"
  by (simp add: of_rat_max min_def of_rat_less_eq)

lemma tca_least:
  assumes "moving a b" "0 \<le> t" "t \<le> of_rat (am_horizon m)"
  shows "separation a b (of_rat (tca_of m a b)) \<le> separation a b t"
proof -
  let ?v = "dot3 (rvel a b) (rvel a b)"
  have v: "0 < (of_rat ?v :: real)"
    using assms(1) unfolding moving_def zero_less_of_rat_iff by (rule order.strict_trans [rotated]) simp
  have "of_rat (tca_of m a b) = max 0 (min (of_rat (am_horizon m)) (- of_rat (dot3 (rpos a b) (rvel a b)) / of_rat ?v :: real))"
    using assms(1) by (simp add: time_to_closest_def moving_def of_rat_clamp of_rat_divide of_rat_minus)
  then have "(separation a b (of_rat (tca_of m a b)))\<^sup>2 \<le> (separation a b t)\<^sup>2"
    unfolding separation_quad by (simp only: quad_clamped_least [OF v assms(2,3)])
  then show ?thesis by (rule power2_le_imp_le) (rule separation_nonneg)
qed

lemma separation_at_tca:
  "air_norm (map (\<lambda>i. rpos a b ! i + rvel a b ! i * c) [0..<3]) = separation a b (of_rat c)"
proof -
  have g: "axis_gap a b (of_rat c) i = of_rat (rpos a b ! i + rvel a b ! i * c)" if "i < 3" for i
    using that by (simp only: axis_gap_relative of_rat_add of_rat_mult)
  have "axis_gap a b (of_rat c) 0 = of_rat (rpos a b ! 0 + rvel a b ! 0 * c)"
    "axis_gap a b (of_rat c) 1 = of_rat (rpos a b ! 1 + rvel a b ! 1 * c)"
    "axis_gap a b (of_rat c) 2 = of_rat (rpos a b ! 2 + rvel a b ! 2 * c)" by (rule g, simp)+
  then show ?thesis
    unfolding air_norm_def upto3 list.map dot3_list separation_def power2_eq_square
    by (simp only: of_rat_add of_rat_mult)
qed

lemma PairwiseConflict_Inr: "PairwiseConflict c = Inr c' \<Longrightarrow> c' = c"
  by (auto simp: PairwiseConflict_def rbind_eq_Inr split: if_splits option.splits)

text \<open>The conditions of \<open>evaluate_sorted\<close>.\<close>

definition closes :: "airspace_manager \<Rightarrow> uav_pose \<Rightarrow> uav_pose \<Rightarrow> bool" where
  "closes m a b = (dot3 (rpos a b) (rvel a b) < 0 \<and> 0 < tca_of m a b \<and> tca_of m a b \<le> am_horizon m)"

definition collides :: "airspace_manager \<Rightarrow> uav_pose \<Rightarrow> uav_pose \<Rightarrow> bool" where
  "collides m a b = (separation a b 0 < of_rat (am_minimum m)
     \<or> closes m a b \<and> separation a b (of_rat (tca_of m a b)) < of_rat (am_minimum m))"

definition breach :: "airspace_manager \<Rightarrow> uav_pose \<Rightarrow> uav_pose \<Rightarrow> real option" where
  "breach m a b = time_to_separation_breach (rpos a b) (rvel a b) (am_minimum m) (am_horizon m)"

definition crossing :: "airspace_manager \<Rightarrow> uav_pose \<Rightarrow> uav_pose \<Rightarrow> bool" where
  "crossing m a b = routes_intersect (up_route a) (up_route b) (am_tolerance m)"

definition sharing :: "uav_pose \<Rightarrow> uav_pose \<Rightarrow> bool" where
  "sharing a b = (up_landing a \<noteq> None \<and> up_landing a = up_landing b)"

text \<open>The conflict of a pair, in terms of these conditions.\<close>

definition conflict_of :: "airspace_manager \<Rightarrow> uav_pose \<Rightarrow> uav_pose \<Rightarrow> pairwise_conflict" where
  "conflict_of m a b =
     \<lparr>pc_a = up_id a, pc_b = up_id b, pc_current = separation a b 0,
      pc_horizontal = sqrt (of_rat (rpos a b ! 0 * rpos a b ! 0 + rpos a b ! 1 * rpos a b ! 1)),
      pc_vertical = \<bar>rpos a b ! 2\<bar>, pc_speed = air_norm (rvel a b),
      pc_closest = separation a b (of_rat (tca_of m a b)), pc_time_to_closest = tca_of m a b,
      pc_collision_time = (if collides m a b then breach m a b else None),
      pc_routes = crossing m a b, pc_landing = sharing a b,
      pc_risk = (if collides m a b then AR_COLLISION_PREDICTED
         else if closes m a b \<and> separation a b (of_rat (tca_of m a b)) < of_rat (am_warning m)
                 \<or> crossing m a b \<or> sharing a b then AR_CONFLICT
         else if separation a b 0 < of_rat (am_warning m) then AR_ADVISORY else AR_CLEAR),
      pc_hold = (if collides m a b \<or> crossing m a b \<or> sharing a b
         then Some (up_id (lower_priority a b)) else None)\<rparr>"

lemma evaluate_sorted_eq: "evaluate_sorted m a b = PairwiseConflict (conflict_of m a b)"
  unfolding evaluate_sorted_def conflict_of_def Let_def separation_now separation_at_tca
    collides_def closes_def breach_def crossing_def sharing_def conj_assoc ..

lemma still_separation:
  assumes "up_velocity a = up_velocity b"
  shows "separation a b t = separation a b 0"
  unfolding separation_def axis_gap_def assms by simp

lemma rat_square_less: "0 \<le> s \<Longrightarrow> x < s * s \<longleftrightarrow> of_rat x < (of_rat s :: real)\<^sup>2"
  unfolding power2_eq_square of_rat_mult [symmetric] of_rat_less ..

lemma collides_exact:
  assumes "manager_ok m" and "moving a b \<or> up_velocity a = up_velocity b"
  shows "collides m a b \<longleftrightarrow>
    (\<exists>t. 0 \<le> t \<and> t \<le> of_rat (am_horizon m) \<and> separation a b t < of_rat (am_minimum m))"
proof
  assume "collides m a b"
  then consider "separation a b 0 < of_rat (am_minimum m)"
    | "separation a b (of_rat (tca_of m a b)) < of_rat (am_minimum m)" unfolding collides_def by blast
  then show "\<exists>t. 0 \<le> t \<and> t \<le> of_rat (am_horizon m) \<and> separation a b t < of_rat (am_minimum m)"
  proof cases
    case 1
    then show ?thesis using assms(1) by (intro exI [of _ 0]) (simp add: manager_ok_def)
  next
    case 2
    then show ?thesis using tca_range [OF assms(1), where a = a and b = b]
      by (intro exI [of _ "of_rat (tca_of m a b)"]) (simp add: of_rat_less_eq)
  qed
next
  assume "\<exists>t. 0 \<le> t \<and> t \<le> of_rat (am_horizon m) \<and> separation a b t < of_rat (am_minimum m)"
  then obtain t where t: "0 \<le> t" "t \<le> of_rat (am_horizon m)" "separation a b t < of_rat (am_minimum m)" by blast
  show "collides m a b"
  proof (cases "separation a b 0 < of_rat (am_minimum m)")
    case False
    then have mv: "moving a b" using assms(2) t(3) still_separation by metis
    then have least: "separation a b (of_rat (tca_of m a b)) < of_rat (am_minimum m)"
      using tca_least [OF mv t(1,2)] t(3) by simp
    then have "tca_of m a b \<noteq> 0" using False by auto
    then have pos: "0 < tca_of m a b" using tca_range [OF assms(1), where a = a and b = b] by simp
    then have "0 < - dot3 (rpos a b) (rvel a b) / dot3 (rvel a b) (rvel a b)"
      by (auto simp: time_to_closest_def split: if_splits)
    then have "\<not> 0 \<le> dot3 (rpos a b) (rvel a b)"
      using divide_nonneg_nonneg [OF _ dot3_nonneg [of "up_velocity b" "up_velocity a"]] by fastforce
    then have "dot3 (rpos a b) (rvel a b) < 0" by simp
    then show ?thesis using pos least tca_range [OF assms(1), where a = a and b = b] by (simp add: collides_def closes_def)
  qed (simp add: collides_def)
qed

lemma moving_speed: "moving a b \<Longrightarrow> (0 :: real) < of_rat (dot3 (rvel a b) (rvel a b))"
  unfolding moving_def zero_less_of_rat_iff by (rule order.strict_trans [of 0 "1 / 10 ^ 12"]) simp_all

lemma separation_0: "(separation a b 0)\<^sup>2 = of_rat (dot3 (rpos a b) (rpos a b))"
  using separation_quad [of a b 0] by simp

lemma breach_first_entry:
  assumes "manager_ok m" and "collides m a b"
  shows "\<exists>e. breach m a b = Some e \<and> 0 \<le> e \<and> e \<le> of_rat (am_horizon m)
    \<and> separation a b e \<le> of_rat (am_minimum m)
    \<and> (\<forall>t. 0 \<le> t \<and> t < e \<longrightarrow> of_rat (am_minimum m) < separation a b t)"
proof (cases "separation a b 0 < of_rat (am_minimum m)")
  case True
  have s: "0 \<le> am_minimum m" using assms(1) by (simp add: manager_ok_def)
  have "dot3 (rpos a b) (rpos a b) < am_minimum m * am_minimum m"
    unfolding rat_square_less [OF s] separation_0 [symmetric]
    using True s separation_less [of "of_rat (am_minimum m)" a b 0] by simp
  then have "breach m a b = Some 0" by (simp add: breach_def time_to_separation_breach_def Let_def)
  then show ?thesis using True assms(1) by (auto simp: manager_ok_def)
next
  case False
  let ?s = "of_rat (am_minimum m) :: real" and ?p = "of_rat (dot3 (rpos a b) (rpos a b)) :: real"
    and ?d = "of_rat (dot3 (rpos a b) (rvel a b)) :: real" and ?v = "of_rat (dot3 (rvel a b) (rvel a b)) :: real"
    and ?c = "of_rat (tca_of m a b) :: real"
  have s: "0 \<le> am_minimum m" "0 \<le> ?s" using assms(1) by (simp_all add: manager_ok_def)
  have cl: "closes m a b" and near: "separation a b ?c < ?s" using assms(2) False by (simp_all add: collides_def)
  have mv: "moving a b"
    using cl by (auto simp: closes_def moving_def time_to_closest_def split: if_splits)
  have far: "?s\<^sup>2 \<le> ?p" using False s(2) separation_less [of ?s a b 0] unfolding separation_0 by simp
  have "quad ?p ?d ?v ?c < ?s\<^sup>2" using near separation_less [OF s(2)] unfolding separation_quad by blast
  note entry = quad_first_entry [OF moving_speed [OF mv] far _ this]
  define e where "e = (- ?d - sqrt (?d\<^sup>2 - ?v * (?p - ?s\<^sup>2))) / ?v"
  have c: "0 \<le> ?c" "?c \<le> of_rat (am_horizon m)"
    using tca_range [OF assms(1), where a = a and b = b] by (simp_all add: of_rat_less_eq)
  have e: "0 < ?d\<^sup>2 - ?v * (?p - ?s\<^sup>2)" "0 \<le> e" "e < ?c" "quad ?p ?d ?v e = ?s\<^sup>2"
    "\<And>t. t < e \<Longrightarrow> ?s\<^sup>2 < quad ?p ?d ?v t"
    using entry [OF c(1)] unfolding e_def by blast+
  let ?disc = "dot3 (rpos a b) (rvel a b) * dot3 (rpos a b) (rvel a b)
    - dot3 (rvel a b) (rvel a b) * (dot3 (rpos a b) (rpos a b) - am_minimum m * am_minimum m)"
  have disc: "of_rat ?disc = ?d\<^sup>2 - ?v * (?p - ?s\<^sup>2)"
    by (simp only: of_rat_diff of_rat_mult power2_eq_square)
  then have pos: "0 < ?disc" using e(1) zero_less_of_rat_iff by metis
  have "\<not> dot3 (rpos a b) (rpos a b) < am_minimum m * am_minimum m"
    using far unfolding rat_square_less [OF s(1)] by simp
  moreover have "(- ?d - sqrt (of_rat (max 0 ?disc))) / ?v = e"
    using pos unfolding e_def disc [symmetric] by (simp add: max_def)
  ultimately have "breach m a b = Some e"
    using mv pos e(2,3) c(2) unfolding breach_def time_to_separation_breach_def Let_def moving_def by simp
  moreover have "separation a b e \<le> ?s"
    by (rule power2_le_imp_le [OF _ s(2)]) (simp only: separation_quad e(4))
  moreover have "?s < separation a b t" if "t < e" for t
    by (rule power2_less_imp_less [OF _ separation_nonneg]) (simp only: separation_quad e(5) [OF that])
  ultimately show ?thesis using e(2,3) c(2) by auto
qed

section \<open>Crossing routes\<close>

text \<open>Where a vehicle is after the fraction \<open>s\<close> of a leg, per axis.\<close>

definition along :: "rat list \<Rightarrow> rat list \<Rightarrow> real \<Rightarrow> nat \<Rightarrow> real" where
  "along p q s i = of_rat (p ! i) + s * (of_rat (q ! i) - of_rat (p ! i))"

text \<open>No orientation of the four end points falls within the tolerance without being zero.\<close>

definition clear_cut :: "rat list \<Rightarrow> rat list \<Rightarrow> rat list \<Rightarrow> rat list \<Rightarrow> bool" where
  "clear_cut a b c d = list_all (\<lambda>x. x = 0 \<or> epsilon < \<bar>x\<bar>)
     [orientation a b c, orientation a b d, orientation c d a, orientation c d b]"

lemma convex_between:
  fixes a b s :: real
  assumes "0 \<le> s" "s \<le> 1"
  shows "min a b \<le> a + s * (b - a) \<and> a + s * (b - a) \<le> max a b"
proof (cases "a \<le> b")
  case True
  then have "0 \<le> s * (b - a)" "0 \<le> (1 - s) * (b - a)" using assms by simp_all
  then show ?thesis using True by (simp add: algebra_simps)
next
  case False
  then have "0 \<le> s * (a - b)" "0 \<le> (1 - s) * (a - b)" using assms by simp_all
  then show ?thesis using False by (simp add: algebra_simps)
qed

lemma along_between:
  fixes a b c :: rat
  assumes "0 \<le> s" "s \<le> 1" and "of_rat c = (of_rat a + s * (of_rat b - of_rat a) :: real)"
  shows "min a b \<le> c" and "c \<le> max a b"
  using convex_between [OF assms(1,2), of "of_rat a" "of_rat b"] unfolding assms(3) [symmetric]
  by (auto simp: min_def max_def of_rat_less_eq split: if_splits)

lemma on_segment_along:
  assumes "0 \<le> s" "s \<le> 1" and "of_rat (q ! 0) = along p r s 0" "of_rat (q ! 1) = along p r s 1"
  shows "on_segment p q r"
  using along_between [OF assms(1,2), of "q ! 0" "p ! 0" "r ! 0"]
    along_between [OF assms(1,2), of "q ! 1" "p ! 1" "r ! 1"] assms(3,4)
  by (simp add: on_segment_def along_def epsilon_def)

lemma orientation_products:
  assumes "along a b s 0 = along c d t 0" "along a b s 1 = along c d t 1"
  defines "D \<equiv> (of_rat (b ! 0) - of_rat (a ! 0)) * (of_rat (d ! 1) - of_rat (c ! 1))
    - (of_rat (b ! 1) - of_rat (a ! 1)) * (of_rat (d ! 0) - of_rat (c ! 0)) :: real"
  shows "of_rat (orientation a b c) = - t * D" "of_rat (orientation a b d) = (1 - t) * D"
    "of_rat (orientation c d a) = s * D" "of_rat (orientation c d b) = - (1 - s) * D"
  using assms(1,2) unfolding along_def D_def orientation_def of_rat_diff of_rat_mult by algebra+

lemma collinear_overlap:
  fixes a0 a1 b0 b1 c0 c1 d0 d1 s t :: real
  assumes "a0 + s * (b0 - a0) = c0 + t * (d0 - c0)" "a1 + s * (b1 - a1) = c1 + t * (d1 - c1)"
    and "(b0 - a0) * (d1 - c1) - (b1 - a1) * (d0 - c0) = 0" and "0 \<le> s" "s \<le> 1" "0 \<le> t" "t \<le> 1"
  shows "\<exists>u. 0 \<le> u \<and> u \<le> 1 \<and>
    (c0 = a0 + u * (b0 - a0) \<and> c1 = a1 + u * (b1 - a1) \<or> d0 = a0 + u * (b0 - a0) \<and> d1 = a1 + u * (b1 - a1)
     \<or> a0 = c0 + u * (d0 - c0) \<and> a1 = c1 + u * (d1 - c1))"
proof (cases "b0 = a0 \<and> b1 = a1")
  case True
  then show ?thesis using assms by (intro exI [of _ t]) auto
next
  case False
  have "\<exists>k. d0 - c0 = k * (b0 - a0) \<and> d1 - c1 = k * (b1 - a1)"
  proof (cases "b0 = a0")
    case True
    then have "b1 - a1 \<noteq> 0" "(b1 - a1) * (d0 - c0) = 0" using False assms(3) by auto
    then have "d0 - c0 = 0" by simp
    then show ?thesis using True \<open>b1 - a1 \<noteq> 0\<close> by (intro exI [of _ "(d1 - c1) / (b1 - a1)"]) simp
  next
    case False
    then show ?thesis using assms(3) by (intro exI [of _ "(d0 - c0) / (b0 - a0)"]) (auto simp: field_simps)
  qed
  then obtain k where k: "d0 - c0 = k * (b0 - a0)" "d1 - c1 = k * (b1 - a1)" by blast
  let ?g = "s - t * k" and ?h = "s + (1 - t) * k"
  have c: "c0 = a0 + ?g * (b0 - a0)" "c1 = a1 + ?g * (b1 - a1)" using assms(1,2) k by algebra+
  have d: "d0 = a0 + ?h * (b0 - a0)" "d1 = a1 + ?h * (b1 - a1)" using c k by algebra+
  consider "0 \<le> ?g \<and> ?g \<le> 1" | "0 \<le> ?h \<and> ?h \<le> 1"
    | "\<not> (0 \<le> ?g \<and> ?g \<le> 1)" "\<not> (0 \<le> ?h \<and> ?h \<le> 1)" by blast
  then show ?thesis
  proof cases
    case 1
    then show ?thesis using c by blast
  next
    case 2
    then show ?thesis using d by blast
  next
    case 3
    have "k \<noteq> 0" using 3(1) assms(4,5) by auto
    have u: "0 \<le> - ?g / k \<and> - ?g / k \<le> 1"
    proof (cases "0 < k")
      case True
      then have "0 \<le> t * k" "0 \<le> (1 - t) * k" using assms(6,7) by simp_all
      then have "?g < 0" "1 < ?h" using 3 assms(4,5) by linarith+
      then show ?thesis using True by (simp add: field_simps)
    next
      case False
      then have "k < 0" using \<open>k \<noteq> 0\<close> by simp
      then have "t * k \<le> 0" "(1 - t) * k \<le> 0" using assms(6,7) by (simp_all add: mult_nonneg_nonpos)
      then have "1 < ?g" "?h < 0" using 3 assms(4,5) by linarith+
      then show ?thesis using \<open>k < 0\<close> by (simp add: field_simps)
    qed
    obtain w where w: "w = - ?g / k" by blast
    then have "w * k = - ?g" using \<open>k \<noteq> 0\<close> by simp
    then have "a0 = c0 + w * (d0 - c0)" "a1 = c1 + w * (d1 - c1)" using c k by algebra+
    then show ?thesis using u unfolding w by blast
  qed
qed

lemma crossing_found:
  assumes meet: "along a b s 0 = along c d t 0" "along a b s 1 = along c d t 1"
    and s: "0 \<le> s" "s \<le> 1" and t: "0 \<le> t" "t \<le> 1" and clear: "clear_cut a b c d"
  shows "segments_intersect_xy a b c d"
proof -
  let ?o1 = "orientation a b c" and ?o2 = "orientation a b d"
    and ?o3 = "orientation c d a" and ?o4 = "orientation c d b"
  note prods = orientation_products [OF meet]
  let ?D = "(of_rat (b ! 0) - of_rat (a ! 0)) * (of_rat (d ! 1) - of_rat (c ! 1))
    - (of_rat (b ! 1) - of_rat (a ! 1)) * (of_rat (d ! 0) - of_rat (c ! 0)) :: real"
  have ep: "0 < epsilon" by (simp add: epsilon_def)
  show ?thesis
  proof (cases "?D = 0")
    case True
    then have zero: "?o1 = 0" "?o2 = 0" "?o3 = 0" "?o4 = 0" using prods by simp_all
    obtain u where "0 \<le> u" "u \<le> 1" and u: "of_rat (c ! 0) = along a b u 0 \<and> of_rat (c ! 1) = along a b u 1
      \<or> of_rat (d ! 0) = along a b u 0 \<and> of_rat (d ! 1) = along a b u 1
      \<or> of_rat (a ! 0) = along c d u 0 \<and> of_rat (a ! 1) = along c d u 1"
      using collinear_overlap [OF meet [unfolded along_def] True s t] unfolding along_def by blast
    then have "on_segment a c b \<or> on_segment a d b \<or> on_segment c a d" using on_segment_along by metis
    then show ?thesis using ep unfolding segments_intersect_xy_def Let_def zero by auto
  next
    case False
    consider "t = 0" | "t = 1" | "s = 0" | "s = 1" | "0 < t \<and> t < 1 \<and> 0 < s \<and> s < 1" using s t by linarith
    then show ?thesis
    proof cases
      case 1
      then have "?o1 = 0" using prods(1) by simp
      moreover have "on_segment a c b" by (rule on_segment_along [OF s]) (use meet 1 in \<open>simp_all add: along_def\<close>)
      ultimately show ?thesis using ep by (simp add: segments_intersect_xy_def Let_def)
    next
      case 2
      then have "?o2 = 0" using prods(2) by simp
      moreover have "on_segment a d b" by (rule on_segment_along [OF s]) (use meet 2 in \<open>simp_all add: along_def\<close>)
      ultimately show ?thesis using ep by (simp add: segments_intersect_xy_def Let_def)
    next
      case 3
      then have "?o3 = 0" using prods(3) by simp
      moreover have "on_segment c a d" by (rule on_segment_along [OF t]) (use meet 3 in \<open>simp_all add: along_def\<close>)
      ultimately show ?thesis using ep by (simp add: segments_intersect_xy_def Let_def)
    next
      case 4
      then have "?o4 = 0" using prods(4) by simp
      moreover have "on_segment c b d" by (rule on_segment_along [OF t]) (use meet 4 in \<open>simp_all add: along_def\<close>)
      ultimately show ?thesis using ep by (simp add: segments_intersect_xy_def Let_def)
    next
      case 5
      have signs: "0 < ?D \<Longrightarrow> ?o1 < 0 \<and> 0 < ?o2 \<and> 0 < ?o3 \<and> ?o4 < 0"
        "?D < 0 \<Longrightarrow> 0 < ?o1 \<and> ?o2 < 0 \<and> ?o3 < 0 \<and> 0 < ?o4"
        using 5 unfolding zero_less_of_rat_iff [where 'a = real, symmetric] of_rat_less_0_iff [where 'a = real, symmetric] prods
        by (simp_all add: mult_less_0_iff zero_less_mult_iff)
      have "?o1 = 0 \<or> epsilon < \<bar>?o1\<bar>" "?o2 = 0 \<or> epsilon < \<bar>?o2\<bar>" "?o3 = 0 \<or> epsilon < \<bar>?o3\<bar>" "?o4 = 0 \<or> epsilon < \<bar>?o4\<bar>"
        using clear by (simp_all add: clear_cut_def)
      then show ?thesis using signs False unfolding segments_intersect_xy_def Let_def
        by (cases "0 < ?D") auto
    qed
  qed
qed

lemma clear_cut_swap: "clear_cut c d a b = clear_cut a b c d"
  by (auto simp: clear_cut_def)

lemma altitude_near:
  assumes "0 \<le> s" "s \<le> 1" "0 \<le> t" "t \<le> 1" and "\<bar>along a b s 2 - along c d t 2\<bar> \<le> of_rat tol"
  shows "altitude_gap a b c d \<le> tol"
proof -
  have "(of_rat (altitude_gap a b c d) :: real) = max (min (of_rat (a ! 2)) (of_rat (b ! 2))) (min (of_rat (c ! 2)) (of_rat (d ! 2)))
    - min (max (of_rat (a ! 2)) (of_rat (b ! 2))) (max (of_rat (c ! 2)) (of_rat (d ! 2)))"
    by (simp add: altitude_gap_def of_rat_diff of_rat_max min_def of_rat_less_eq)
  then have "(of_rat (altitude_gap a b c d) :: real) \<le> \<bar>along a b s 2 - along c d t 2\<bar>"
    using convex_between [OF assms(1,2), of "of_rat (a ! 2)" "of_rat (b ! 2)"]
      convex_between [OF assms(3,4), of "of_rat (c ! 2)" "of_rat (d ! 2)"] unfolding along_def by linarith
  then show ?thesis using assms(5) of_rat_less_eq [of "altitude_gap a b c d" tol, where 'a = real] by linarith
qed

lemma route_legs: "(p, q) \<in> set (route_segments r) \<Longrightarrow> \<not> length r < 2"
  by (cases r; cases "tl r") (auto simp: route_segments_def)

lemma routes_intersect_iff: "routes_intersect r r' tol \<longleftrightarrow>
    (\<exists>(a, b) \<in> set (route_segments r). \<exists>(c, d) \<in> set (route_segments r').
       altitude_gap a b c d \<le> tol \<and> segments_intersect_xy a b c d)"
  by (auto simp: routes_intersect_def list_ex_iff split_beta not_less dest: route_legs)

lemma crossing_reported:
  assumes "(p, q) \<in> set (route_segments (up_route a))" "(p', q') \<in> set (route_segments (up_route b))"
    and s: "0 \<le> s" "s \<le> 1" and t: "0 \<le> t" "t \<le> 1" and meet: "along p q s 0 = along p' q' t 0" "along p q s 1 = along p' q' t 1"
    and "\<bar>along p q s 2 - along p' q' t 2\<bar> \<le> of_rat (am_tolerance m)" and clear: "clear_cut p q p' q'"
  shows "crossing m a b" and "crossing m b a"
proof -
  have alt: "altitude_gap p q p' q' \<le> am_tolerance m" by (rule altitude_near [OF s t assms(9)])
  then have alt': "altitude_gap p' q' p q \<le> am_tolerance m"
    by (simp add: altitude_gap_def max.commute min.commute)
  show "crossing m a b" "crossing m b a"
    unfolding crossing_def routes_intersect_iff
    using assms(1,2) alt alt' crossing_found [OF meet s t clear]
      crossing_found [OF meet [symmetric] t s clear [folded clear_cut_swap [of p' q' p q]]] by blast+
qed

section \<open>Decisions\<close>

lemma lower_priority_commute: "up_id a \<noteq> up_id b \<Longrightarrow> lower_priority b a = lower_priority a b"
  by (auto simp: lower_priority_def)

lemma lower_priority_in: "lower_priority a b = a \<or> lower_priority a b = b"
  by (simp add: lower_priority_def)

lemma breach_nonneg: "breach m a b = Some t \<Longrightarrow> 0 \<le> t"
  by (auto simp: breach_def time_to_separation_breach_def Let_def split: if_splits)

lemma evaluate_pair_total:
  assumes "manager_ok m" "pose_ok a" "pose_ok b" "up_id a < up_id b"
  shows "evaluate_pair m a b = Inr (conflict_of m a b)"
proof -
  let ?c = "conflict_of m a b"
  have ids: "validate_uav_id (PStr (pc_a ?c)) = Inr (pc_a ?c)" "validate_uav_id (PStr (pc_b ?c)) = Inr (pc_b ?c)"
    "\<not> pc_a ?c \<ge> pc_b ?c"
    using assms(2-4) by (simp_all add: conflict_of_def pose_ok_def not_le)
  have nums: "\<not> pc_current ?c < 0" "\<not> pc_horizontal ?c < 0" "\<not> (of_rat (pc_vertical ?c) :: real) < 0" "\<not> pc_speed ?c < 0"
    "\<not> pc_closest ?c < 0" "\<not> (of_rat (pc_time_to_closest ?c) :: real) < 0"
    using tca_range [OF assms(1), where a = a and b = b]
    by (simp_all add: conflict_of_def not_less separation_nonneg air_norm_def dot3_nonneg)
  have time: "\<not> t < 0" if "pc_collision_time ?c = Some t" for t
    using that breach_nonneg by (auto simp: conflict_of_def not_less split: if_splits)
  have hold: "validate_uav_id (PStr h) = Inr h \<and> (h = pc_a ?c \<or> h = pc_b ?c)" if "pc_hold ?c = Some h" for h
    using that ids(1,2) lower_priority_in [of a b] by (auto simp: conflict_of_def split: if_splits)
  have "PairwiseConflict ?c = Inr ?c"
    unfolding PairwiseConflict_def using ids nums time hold
    by (simp add: air_nonnegative_def split: option.split) blast
  then show ?thesis using assms(4) by (auto simp: evaluate_pair_def evaluate_sorted_eq dest: order.asym)
qed

lemma evaluate_pair_value:
  assumes "evaluate_pair m a b = Inr c"
  obtains "c = conflict_of m a b" | "c = conflict_of m b a" "up_id b < up_id a"
  using assms PairwiseConflict_Inr by (auto simp: evaluate_pair_def evaluate_sorted_eq split: if_splits)

lemma conflict_of_hold: "pc_hold (conflict_of m a b) = Some h \<Longrightarrow> is_conflict (conflict_of m a b)"
  by (auto simp: conflict_of_def is_conflict_def split: if_splits)

lemma pairs_in: "(a, b) \<in> set (pairs xs) \<Longrightarrow> a \<in> set xs \<and> b \<in> set xs"
  by (induction xs) auto

lemma pairs_sorted: "sorted xs \<Longrightarrow> distinct xs \<Longrightarrow> set (pairs xs) = {(a, b). a \<in> set xs \<and> b \<in> set xs \<and> a < b}"
  by (induction xs) (auto simp: order.strict_iff_order)

lemma pairs_map: "pairs (map f xs) = map (\<lambda>(a, b). (f a, f b)) (pairs xs)"
  by (induction xs) simp_all

text \<open>A vehicle every other one gives way to.\<close>

lemma right_of_way:
  assumes "finite S" "S \<noteq> {}" and "inj_on up_id S"
  shows "\<exists>p\<in>S. \<forall>q\<in>S. q \<noteq> p \<longrightarrow> lower_priority p q = q \<and> lower_priority q p = q"
proof -
  let ?top = "Max (up_priority ` S)"
  let ?T = "{p \<in> S. up_priority p = ?top}"
  have "?top \<in> up_priority ` S" using assms(1,2) by simp
  then have T: "finite ?T" "?T \<noteq> {}" using assms(1) by auto
  then have "Min (up_id ` ?T) \<in> up_id ` ?T" by (intro Min_in) auto
  then obtain p where p: "p \<in> ?T" "up_id p = Min (up_id ` ?T)" by auto
  have "lower_priority p q = q \<and> lower_priority q p = q" if "q \<in> S" "q \<noteq> p" for q
  proof (cases "q \<in> ?T")
    case True
    then have "up_id p \<le> up_id q" using T(1) unfolding p(2) by simp
    moreover have "up_id q \<noteq> up_id p" using assms(3) that p(1) by (auto dest: inj_onD)
    ultimately show ?thesis using True p(1) by (auto simp: lower_priority_def)
  next
    case False
    have "up_priority q \<le> ?top" using assms(1) that(1) by simp
    then show ?thesis using False that(1) p(1) by (auto simp: lower_priority_def)
  qed
  then show ?thesis using p(1) by blast
qed

lemma rmap_total: "(\<And>x. x \<in> set xs \<Longrightarrow> f x = Inr (g x)) \<Longrightarrow> rmap f xs = Inr (map g xs)"
  by (induction xs) auto

lemma evaluate_decision:
  assumes "manager_ok m" and "coerce_fleet_pose_snapshot v = Inr s" and "snapshot_ok s"
  defines "conflicts \<equiv> map (\<lambda>(a, b). conflict_of m a b) (pairs (dvals (ps_poses s)))"
  obtains d where "airspace_evaluate m v = (Inr d, m\<lparr>am_last := Some d\<rparr>)" and "ad_conflicts d = conflicts"
    and "ad_time d = ps_time s" and "set (ad_holds d) = {h. \<exists>c \<in> set conflicts. pc_hold c = Some h}"
    and "ad_event d = (if list_ex is_conflict conflicts then Some ''AIRSPACE_CONFLICT'' else None)"
proof -
  have poses: "up_id p = k \<and> pose_ok p" if "(k, p) \<in> set (ps_poses s)" for k p
    using assms(3) that by (auto simp: snapshot_ok_def list_all_iff)
  have ids: "map up_id (dvals (ps_poses s)) = dkeys (ps_poses s)" using poses by auto
  have pair: "pose_ok a \<and> pose_ok b \<and> up_id a < up_id b" if "(a, b) \<in> set (pairs (dvals (ps_poses s)))" for a b
  proof -
    have "(up_id a, up_id b) \<in> set (pairs (dkeys (ps_poses s)))"
      unfolding ids [symmetric] pairs_map [of up_id "dvals (ps_poses s)"] using that by force
    then have "up_id a < up_id b" using assms(3) by (simp add: pairs_sorted snapshot_ok_def)
    then show ?thesis using pairs_in [OF that] poses by auto
  qed
  have "rmap (\<lambda>(a, b). evaluate_pair m a b) (pairs (dvals (ps_poses s))) = Inr conflicts"
    unfolding conflicts_def by (rule rmap_total) (use pair evaluate_pair_total [OF assms(1)] in auto)
  define hs where "hs = concat (map (\<lambda>c. case pc_hold c of Some h \<Rightarrow> if is_conflict c then [h] else [] | None \<Rightarrow> []) conflicts)"
  have valid: "h \<in> up_id ` set (dvals (ps_poses s)) \<and> is_conflict c" if c_in: "c \<in> set conflicts" and held: "pc_hold c = Some h" for c h
  proof -
    obtain a b where c: "c = conflict_of m a b" and in_pairs: "(a, b) \<in> set (pairs (dvals (ps_poses s)))"
      using c_in unfolding conflicts_def by auto
    have "h = up_id (lower_priority a b)" using held unfolding c conflict_of_def by (auto split: if_splits)
    moreover have "lower_priority a b \<in> set (dvals (ps_poses s))"
      using pairs_in [OF in_pairs] lower_priority_in [of a b] by metis
    moreover have "is_conflict c" using conflict_of_hold held unfolding c .
    ultimately show ?thesis by blast
  qed
  have hs: "set hs = {h. \<exists>c \<in> set conflicts. pc_hold c = Some h}"
  proof -
    have "h \<in> set (case pc_hold c of Some h \<Rightarrow> if is_conflict c then [h] else [] | None \<Rightarrow> []) \<longleftrightarrow> pc_hold c = Some h"
      if "c \<in> set conflicts" for c h using valid [OF that] by (cases "pc_hold c") auto
    then show ?thesis unfolding hs_def by auto
  qed
  have "rmap (\<lambda>h. validate_uav_id (PStr h)) (sort (remdups hs)) = Inr (map id (sort (remdups hs)))"
  proof (rule rmap_total)
    fix h assume "h \<in> set (sort (remdups hs))"
    then have "h \<in> up_id ` set (dvals (ps_poses s))" using hs valid by auto
    then obtain k p where "(k, p) \<in> set (ps_poses s)" "h = up_id p" by auto
    then have "routing_id_match h" using poses unfolding pose_ok_def by metis
    then show "validate_uav_id (PStr h) = Inr (id h)" by simp
  qed
  then have valid_holds: "rmap (\<lambda>h. validate_uav_id (PStr h)) (sort (remdups hs)) = Inr (sort (remdups hs))" by simp
  let ?event = "if list_ex is_conflict conflicts then Some ''AIRSPACE_CONFLICT'' else None"
  define d where "d = \<lparr>ad_time = ps_time s, ad_conflicts = conflicts,
    ad_holds = sort (remdups (sort (remdups hs))), ad_event = ?event\<rparr>"
  then have f: "ad_conflicts d = conflicts" "ad_time d = ps_time s" "set (ad_holds d) = set hs" "ad_event d = ?event"
    by simp_all
  have d: "FleetAirspaceDecision (ps_time s) conflicts (sort (remdups hs)) ?event = Inr d"
    using assms(3) by (simp add: FleetAirspaceDecision_def valid_holds d_def snapshot_ok_def)
  have "airspace_evaluate m v = (Inr d, m\<lparr>am_last := Some d\<rparr>)"
    unfolding airspace_evaluate_def assms(2) checked_simps
      \<open>rmap (\<lambda>(a, b). evaluate_pair m a b) (pairs (dvals (ps_poses s))) = Inr conflicts\<close> Let_def hs_def [symmetric] d ..
  then show thesis using that f hs by simp
qed

section \<open>Properties\<close>

lemma conflict_of_predicts:
  assumes "manager_ok m" and mv: "moving a b \<or> up_velocity a = up_velocity b" and c: "c = conflict_of m a b"
  shows "(pc_risk c = AR_COLLISION_PREDICTED \<longleftrightarrow>
      (\<exists>t. 0 \<le> t \<and> t \<le> of_rat (am_horizon m) \<and> separation a b t < of_rat (am_minimum m)))
    \<and> (pc_risk c = AR_COLLISION_PREDICTED \<longrightarrow> (\<exists>e. pc_collision_time c = Some e
        \<and> 0 \<le> e \<and> e \<le> of_rat (am_horizon m) \<and> separation a b e \<le> of_rat (am_minimum m)
        \<and> (\<forall>t. 0 \<le> t \<and> t < e \<longrightarrow> of_rat (am_minimum m) < separation a b t)))
    \<and> pc_closest c = separation a b (of_rat (pc_time_to_closest c))
    \<and> (\<forall>t. 0 \<le> t \<and> t \<le> of_rat (am_horizon m) \<longrightarrow> pc_closest c \<le> separation a b t)"
proof -
  have r: "pc_risk c = AR_COLLISION_PREDICTED \<longleftrightarrow> collides m a b"
    and f: "pc_collision_time c = (if collides m a b then breach m a b else None)"
      "pc_closest c = separation a b (of_rat (tca_of m a b))" "pc_time_to_closest c = tca_of m a b"
    by (simp_all add: c conflict_of_def)
  have least: "separation a b (of_rat (tca_of m a b)) \<le> separation a b t" if "0 \<le> t" "t \<le> of_rat (am_horizon m)" for t
    using mv
  proof
    assume "up_velocity a = up_velocity b"
    from still_separation [OF this] show ?thesis by (metis order_refl)
  qed (rule tca_least [OF _ that])
  show ?thesis
  proof (intro conjI impI allI)
    show "pc_risk c = AR_COLLISION_PREDICTED \<longleftrightarrow>
        (\<exists>t. 0 \<le> t \<and> t \<le> of_rat (am_horizon m) \<and> separation a b t < of_rat (am_minimum m))"
      unfolding r by (rule collides_exact [OF assms(1) mv])
    assume "pc_risk c = AR_COLLISION_PREDICTED"
    then have "collides m a b" by (simp only: r)
    then show "\<exists>e. pc_collision_time c = Some e \<and> 0 \<le> e \<and> e \<le> of_rat (am_horizon m)
        \<and> separation a b e \<le> of_rat (am_minimum m)
        \<and> (\<forall>t. 0 \<le> t \<and> t < e \<longrightarrow> of_rat (am_minimum m) < separation a b t)"
      unfolding f using breach_first_entry [OF assms(1), of a b] by simp
  qed (auto simp: f intro: least)
qed

text \<open>
  The separation the manager expects: vehicles with a relative speed of at most \<open>1e-6\<close> m/s keep their
  distance.
\<close>

definition expected :: "uav_pose \<Rightarrow> uav_pose \<Rightarrow> real \<Rightarrow> real" where
  "expected a b t = (if moving a b then separation a b t else separation a b 0)"

lemma moving_commute: "moving b a = moving a b"
  by (simp add: moving_def diff3_def upto3 dot3_list algebra_simps)

lemma expected_commute: "expected b a = expected a b"
  by (rule ext) (simp add: expected_def moving_commute separation_commute [of a b])

lemma norm3_triangle:
  "sqrt ((a + x)\<^sup>2 + (b + y)\<^sup>2 + (c + z)\<^sup>2) \<le> sqrt (a\<^sup>2 + b\<^sup>2 + c\<^sup>2) + sqrt (x\<^sup>2 + y\<^sup>2 + z\<^sup>2)"
proof -
  have "sqrt ((a + x)\<^sup>2 + (b + y)\<^sup>2) \<le> sqrt (a\<^sup>2 + b\<^sup>2) + sqrt (x\<^sup>2 + y\<^sup>2)"
    by (rule real_sqrt_sum_squares_triangle_ineq)
  then have "(sqrt ((a + x)\<^sup>2 + (b + y)\<^sup>2))\<^sup>2 + (c + z)\<^sup>2
      \<le> (sqrt (a\<^sup>2 + b\<^sup>2) + sqrt (x\<^sup>2 + y\<^sup>2))\<^sup>2 + (c + z)\<^sup>2"
    by (intro add_right_mono power_mono) simp_all
  then have "sqrt ((a + x)\<^sup>2 + (b + y)\<^sup>2 + (c + z)\<^sup>2)
      \<le> sqrt ((sqrt (a\<^sup>2 + b\<^sup>2) + sqrt (x\<^sup>2 + y\<^sup>2))\<^sup>2 + (c + z)\<^sup>2)" by simp
  also have "\<dots> \<le> sqrt ((sqrt (a\<^sup>2 + b\<^sup>2))\<^sup>2 + c\<^sup>2) + sqrt ((sqrt (x\<^sup>2 + y\<^sup>2))\<^sup>2 + z\<^sup>2)"
    by (rule real_sqrt_sum_squares_triangle_ineq)
  finally show ?thesis by simp
qed

lemma slow_separation:
  assumes "\<not> moving a b" and "0 \<le> t"
  shows "\<bar>separation a b 0 - separation a b t\<bar> \<le> t / 10 ^ 6"
proof -
  define p where "p = axis_gap a b 0"
  define v where "v = (\<lambda>i. of_rat (rvel a b ! i) :: real)"
  have gap: "axis_gap a b t i = p i + t * v i" if "i < 3" for i
    using that by (simp add: p_def v_def axis_gap_def diff3_def of_rat_diff algebra_simps)
  have "of_rat (dot3 (rvel a b) (rvel a b)) \<le> (of_rat (1 / 10 ^ 12) :: real)"
    using assms(1) unfolding moving_def of_rat_less_eq by simp
  then have "(v 0)\<^sup>2 + (v 1)\<^sup>2 + (v 2)\<^sup>2 \<le> (1 / 10 ^ 6)\<^sup>2"
    by (simp add: v_def diff3_def upto3 dot3_list of_rat_add of_rat_mult of_rat_divide power2_eq_square)
  then have slow: "sqrt ((v 0)\<^sup>2 + (v 1)\<^sup>2 + (v 2)\<^sup>2) \<le> 1 / 10 ^ 6" by (intro real_le_lsqrt) simp_all
  have "sqrt ((t * v 0)\<^sup>2 + (t * v 1)\<^sup>2 + (t * v 2)\<^sup>2) = sqrt (t\<^sup>2 * ((v 0)\<^sup>2 + (v 1)\<^sup>2 + (v 2)\<^sup>2))"
    by (simp add: power_mult_distrib algebra_simps)
  also have "\<dots> = t * sqrt ((v 0)\<^sup>2 + (v 1)\<^sup>2 + (v 2)\<^sup>2)" using assms(2) by (simp add: real_sqrt_mult)
  also have "\<dots> \<le> t * (1 / 10 ^ 6)" using slow assms(2) by (rule mult_left_mono)
  finally have step: "sqrt ((t * v 0)\<^sup>2 + (t * v 1)\<^sup>2 + (t * v 2)\<^sup>2) \<le> t / 10 ^ 6" by simp
  have 0: "separation a b 0 = sqrt ((p 0)\<^sup>2 + (p 1)\<^sup>2 + (p 2)\<^sup>2)" by (simp add: separation_def p_def)
  have 1: "separation a b t = sqrt ((p 0 + t * v 0)\<^sup>2 + (p 1 + t * v 1)\<^sup>2 + (p 2 + t * v 2)\<^sup>2)"
    by (simp add: separation_def gap)
  have "separation a b t \<le> separation a b 0 + t / 10 ^ 6"
    unfolding 0 1 using norm3_triangle [of "p 0" "t * v 0" "p 1" "t * v 1" "p 2" "t * v 2"] step by simp
  moreover have "separation a b 0 \<le> separation a b t + t / 10 ^ 6"
    unfolding 0 1 using norm3_triangle [of "p 0 + t * v 0" "- (t * v 0)" "p 1 + t * v 1" "- (t * v 1)"
      "p 2 + t * v 2" "- (t * v 2)"] step by simp
  ultimately show ?thesis by linarith
qed

lemma expected_near: "\<forall>t\<ge>0. \<bar>expected a b t - separation a b t\<bar> \<le> t / 10 ^ 6"
  using slow_separation [of a b] by (simp add: expected_def)

lemma expected_exact: "moving a b \<or> up_velocity a = up_velocity b \<longrightarrow> expected a b = separation a b"
proof (intro impI ext)
  fix t assume "moving a b \<or> up_velocity a = up_velocity b"
  then show "expected a b t = separation a b t"
    unfolding expected_def by (cases "moving a b") (simp_all only: if_True if_False still_separation [of a b t] simp_thms)
qed

lemma conflict_of_expected:
  assumes ok: "manager_ok m" and c: "c = conflict_of m a b"
  shows "(pc_risk c = AR_COLLISION_PREDICTED \<longleftrightarrow>
      (\<exists>t. 0 \<le> t \<and> t \<le> of_rat (am_horizon m) \<and> expected a b t < of_rat (am_minimum m)))
    \<and> (pc_risk c = AR_COLLISION_PREDICTED \<longrightarrow> (\<exists>e. pc_collision_time c = Some e
        \<and> 0 \<le> e \<and> e \<le> of_rat (am_horizon m) \<and> expected a b e \<le> of_rat (am_minimum m)
        \<and> (\<forall>t. 0 \<le> t \<and> t < e \<longrightarrow> of_rat (am_minimum m) < expected a b t)))
    \<and> pc_closest c = expected a b (of_rat (pc_time_to_closest c))
    \<and> (\<forall>t. 0 \<le> t \<and> t \<le> of_rat (am_horizon m) \<longrightarrow> pc_closest c \<le> expected a b t)"
proof (cases "moving a b")
  case True
  then have exact: "expected a b = separation a b" by (simp add: expected_def fun_eq_iff)
  show ?thesis unfolding exact by (rule conflict_of_predicts [OF ok disjI1 [OF True] c])
next
  case False
  have tca: "tca_of m a b = 0" using False by (simp add: time_to_closest_def moving_def)
  have hor: "0 \<le> (of_rat (am_horizon m) :: real)" using ok by (simp add: manager_ok_def)
  have risk: "pc_risk c = AR_COLLISION_PREDICTED \<longleftrightarrow> separation a b 0 < of_rat (am_minimum m)"
    by (auto simp: c conflict_of_def collides_def tca)
  have time: "pc_collision_time c = Some 0" if "separation a b 0 < of_rat (am_minimum m)"
  proof -
    have col: "collides m a b" using that by (simp add: collides_def)
    obtain e where e: "breach m a b = Some e" "0 \<le> e"
      "\<forall>t. 0 \<le> t \<and> t < e \<longrightarrow> of_rat (am_minimum m) < separation a b t"
      using breach_first_entry [OF ok col] by blast
    have "\<not> 0 < e" using e(3) [rule_format, of 0] that by auto
    with e(1,2) show ?thesis by (simp add: c conflict_of_def col)
  qed
  have closest: "pc_closest c = separation a b 0" "pc_time_to_closest c = 0"
    by (simp_all add: c conflict_of_def tca)
  show ?thesis
    using False risk time closest hor by (auto simp: expected_def)
qed

text \<open>
  C32. The prediction of a pair is exact for constant velocities, in exact arithmetic: a collision is
  predicted if and only if the vehicles are expected to come closer than the minimum separation within
  the horizon; the collision time is the first breach; and no closer approach than the predicted one is
  expected within the horizon.  Vehicles with a relative speed of at most \<open>1e-6\<close> m/s (hover noise) are
  expected to keep their distance, which is off by at most \<open>1e-6\<close> m for each second; for faster ones, and for
  equal velocities, the expected separation is the separation itself.
\<close>

theorem airspace_predicts:
  assumes "manager_ok m" and "evaluate_pair m a b = Inr c"
  shows "(pc_risk c = AR_COLLISION_PREDICTED \<longleftrightarrow>
      (\<exists>t. 0 \<le> t \<and> t \<le> of_rat (am_horizon m) \<and> expected a b t < of_rat (am_minimum m)))
    \<and> (pc_risk c = AR_COLLISION_PREDICTED \<longrightarrow> (\<exists>e. pc_collision_time c = Some e
        \<and> 0 \<le> e \<and> e \<le> of_rat (am_horizon m) \<and> expected a b e \<le> of_rat (am_minimum m)
        \<and> (\<forall>t. 0 \<le> t \<and> t < e \<longrightarrow> of_rat (am_minimum m) < expected a b t)))
    \<and> pc_closest c = expected a b (of_rat (pc_time_to_closest c))
    \<and> (\<forall>t. 0 \<le> t \<and> t \<le> of_rat (am_horizon m) \<longrightarrow> pc_closest c \<le> expected a b t)
    \<and> (\<forall>t\<ge>0. \<bar>expected a b t - separation a b t\<bar> \<le> t / 10 ^ 6)
    \<and> (moving a b \<or> up_velocity a = up_velocity b \<longrightarrow> expected a b = separation a b)"
proof -
  consider "c = conflict_of m a b" | "c = conflict_of m b a" using assms(2) by (cases rule: evaluate_pair_value) simp_all
  then have judged:
    "(pc_risk c = AR_COLLISION_PREDICTED \<longleftrightarrow>
        (\<exists>t. 0 \<le> t \<and> t \<le> of_rat (am_horizon m) \<and> expected a b t < of_rat (am_minimum m)))
      \<and> (pc_risk c = AR_COLLISION_PREDICTED \<longrightarrow> (\<exists>e. pc_collision_time c = Some e
          \<and> 0 \<le> e \<and> e \<le> of_rat (am_horizon m) \<and> expected a b e \<le> of_rat (am_minimum m)
          \<and> (\<forall>t. 0 \<le> t \<and> t < e \<longrightarrow> of_rat (am_minimum m) < expected a b t)))
      \<and> pc_closest c = expected a b (of_rat (pc_time_to_closest c))
      \<and> (\<forall>t. 0 \<le> t \<and> t \<le> of_rat (am_horizon m) \<longrightarrow> pc_closest c \<le> expected a b t)"
  proof cases
    case 1
    then show ?thesis by (rule conflict_of_expected [OF assms(1)])
  next
    case 2
    show ?thesis unfolding expected_commute [of a b] by (rule conflict_of_expected [OF assms(1) 2])
  qed
  show ?thesis
    by (intro conjI judged [THEN conjunct1] judged [THEN conjunct2, THEN conjunct1]
      judged [THEN conjunct2, THEN conjunct2, THEN conjunct1]
      judged [THEN conjunct2, THEN conjunct2, THEN conjunct2] expected_near expected_exact)
qed

text \<open>
  C34. Routes that meet in the plan view, within the altitude tolerance, at a place where no orientation of the
  four end points is smaller than the tolerance without being zero, are reported as a conflict, and the
  vehicle with the lower priority is held.
\<close>

theorem crossing_routes_hold:
  assumes "evaluate_pair m a b = Inr c" and "up_id a \<noteq> up_id b"
    and "(p, q) \<in> set (route_segments (up_route a))" "(p', q') \<in> set (route_segments (up_route b))"
    and "0 \<le> s" "s \<le> 1" "0 \<le> t" "t \<le> 1" and "along p q s 0 = along p' q' t 0" "along p q s 1 = along p' q' t 1"
    and "\<bar>along p q s 2 - along p' q' t 2\<bar> \<le> of_rat (am_tolerance m)" and "clear_cut p q p' q'"
  shows "pc_routes c \<and> is_conflict c \<and> pc_hold c = Some (up_id (lower_priority a b))"
  using assms(1)
proof (cases rule: evaluate_pair_value)
  case 1
  then show ?thesis using crossing_reported [OF assms(3-)] by (simp add: conflict_of_def is_conflict_def)
next
  case 2
  then show ?thesis using crossing_reported [OF assms(3-)] lower_priority_commute [OF assms(2)]
    by (simp add: conflict_of_def is_conflict_def)
qed

text \<open>
  C33. Evaluating a snapshot succeeds and looks at every pair of vehicles once; the held vehicles are those
  some pair holds, the event is raised exactly when the decision is not clear, and some vehicle is never
  held, so that the fleet as a whole is never stopped.
\<close>

theorem airspace_leaves_one_flying:
  assumes "manager_ok m" and "coerce_fleet_pose_snapshot v = Inr s" and "\<And>s. v = Snapshot s \<Longrightarrow> snapshot_ok s"
  shows "\<exists>d. airspace_evaluate m v = (Inr d, m\<lparr>am_last := Some d\<rparr>)
    \<and> map (\<lambda>c. (pc_a c, pc_b c)) (ad_conflicts d) = pairs (dkeys (ps_poses s))
    \<and> set (ad_holds d) = {h. \<exists>c \<in> set (ad_conflicts d). pc_hold c = Some h}
    \<and> (ad_event d = None \<longleftrightarrow> decision_clear d)
    \<and> (ps_poses s \<noteq> [] \<longrightarrow> (\<exists>k \<in> set (dkeys (ps_poses s)). k \<notin> set (ad_holds d)))"
proof -
  have ok: "snapshot_ok s" by (rule coerce_snapshot_ok [OF assms(2,3)])
  let ?ps = "dvals (ps_poses s)"
  obtain d where d: "airspace_evaluate m v = (Inr d, m\<lparr>am_last := Some d\<rparr>)"
    and cs: "ad_conflicts d = map (\<lambda>(a, b). conflict_of m a b) (pairs ?ps)" and "ad_time d = ps_time s"
    and hs: "set (ad_holds d) = {h. \<exists>c \<in> set (map (\<lambda>(a, b). conflict_of m a b) (pairs ?ps)). pc_hold c = Some h}"
    and ev: "ad_event d = (if list_ex is_conflict (map (\<lambda>(a, b). conflict_of m a b) (pairs ?ps))
      then Some ''AIRSPACE_CONFLICT'' else None)"
    by (rule evaluate_decision [OF assms(1,2) ok])
  have "up_id p = k" if "(k, p) \<in> set (ps_poses s)" for k p
    using ok that by (auto simp: snapshot_ok_def list_all_iff)
  then have ids: "map up_id ?ps = dkeys (ps_poses s)" by auto
  have inj: "inj_on up_id (set ?ps)" using ok ids by (metis distinct_map snapshot_ok_def)
  have "\<exists>k \<in> set (dkeys (ps_poses s)). k \<notin> set (ad_holds d)" if some: "ps_poses s \<noteq> []"
  proof -
    obtain p where p: "p \<in> set ?ps" and yield: "\<forall>q \<in> set ?ps. q \<noteq> p \<longrightarrow> lower_priority p q = q \<and> lower_priority q p = q"
      using right_of_way [OF _ _ inj] some by auto
    have "up_id p \<notin> set (ad_holds d)"
    proof
      assume "up_id p \<in> set (ad_holds d)"
      then obtain a b where ab: "(a, b) \<in> set (pairs ?ps)" and "pc_hold (conflict_of m a b) = Some (up_id p)"
        unfolding hs by auto
      then have "up_id (lower_priority a b) = up_id p" by (auto simp: conflict_of_def split: if_splits)
      moreover have in_ps: "a \<in> set ?ps" "b \<in> set ?ps" using pairs_in [OF ab] by simp_all
      ultimately have "lower_priority a b = p" using inj p lower_priority_in [of a b] by (metis inj_onD)
      moreover have "(up_id a, up_id b) \<in> set (pairs (dkeys (ps_poses s)))"
        unfolding ids [symmetric] pairs_map [of up_id ?ps] using ab by force
      then have "a \<noteq> b" using ok by (auto simp: pairs_sorted snapshot_ok_def)
      ultimately show False using yield in_ps lower_priority_in [of a b] by metis
    qed
    then show ?thesis using p ids by (metis imageI list.set_map)
  qed
  moreover have "map (\<lambda>c. (pc_a c, pc_b c)) (ad_conflicts d) = pairs (dkeys (ps_poses s))"
    unfolding cs ids [symmetric] pairs_map [of up_id ?ps] map_map [of _ _ "pairs ?ps"]
    by (rule map_cong [OF refl]) (simp add: conflict_of_def split_beta)
  moreover have "ad_event d = None \<longleftrightarrow> decision_clear d" using ev unfolding cs [symmetric] by (simp add: decision_clear_def)
  ultimately show ?thesis using d hs [folded cs] by (intro exI [of _ d] conjI impI)
qed

section \<open>Snapshots that are not of the class\<close>

lemma coerce_fields:
  assumes "dget entries ''poses'' = Some (Field_poses [(PStr u, pose)])" and "dget entries ''uav_velocities_mps'' = None"
    and "dget entries ''timestamp_s'' = Some (Field_plain time)"
  shows "coerce_fleet_pose_snapshot (Snapshot_fields entries) =
    rbind (snapshot_item (Field_plain (PDict [])) (PStr u) pose) (\<lambda>item.
      FleetPoseSnapshot time (Field_poses [(PStr u, item)]))"
  using assms by (simp add: coerce_fleet_pose_snapshot_def snapshot_field_def mapping_items_def Let_def rbind_def
      split: sum.split)

text \<open>
  C35. A snapshot given as a mapping or an object does not mean what a \<open>FleetPoseSnapshot\<close> of the same poses
  means: the velocity a pose mapping gives as \<open>velocity\<close> is replaced by zero, so that the vehicle is predicted
  to stand still, and a \<open>FleetUavPose\<close> is rejected.
\<close>

theorem coerced_snapshot_drops_velocity:
  assumes "dget entries ''uav_velocities_mps'' = None" and "dget entries ''timestamp_s'' = Some (Field_plain time)"
    and "dget entries ''poses'' = Some (Field_poses [(PStr u, pose)])"
  shows "(\<forall>d s p. pose = Pose_plain (PDict d) \<longrightarrow> dget d (PStr ''velocity_xyz_mps'') = None
        \<longrightarrow> coerce_fleet_pose_snapshot (Snapshot_fields entries) = Inr s \<longrightarrow> (u, p) \<in> set (ps_poses s)
        \<longrightarrow> up_velocity p = [0, 0, 0])
    \<and> (\<forall>p. pose = Pose_value p \<longrightarrow> routing_id_match u
        \<longrightarrow> (\<exists>m. coerce_fleet_pose_snapshot (Snapshot_fields entries) = Inl (ValueError m)))"
proof (intro conjI allI impI)
  fix d s p
  assume pose: "pose = Pose_plain (PDict d)" and v: "dget d (PStr ''velocity_xyz_mps'') = None"
    and s: "coerce_fleet_pose_snapshot (Snapshot_fields entries) = Inr s" and p: "(u, p) \<in> set (ps_poses s)"
  let ?d = "dset d (PStr ''velocity_xyz_mps'') zero_vector"
  have "dict_setdefault d (PStr ''velocity_xyz_mps'') zero_vector = ?d"
    using v unfolding dict_setdefault_def dget_None by (rule if_not_P)
  then have "FleetPoseSnapshot time (Field_poses [(PStr u, Pose_plain (PDict ?d))]) = Inr s"
    using s unfolding coerce_fields [OF assms(3,1,2)] pose
    by (simp add: snapshot_item_def velocity_of_def mapping_items_def)
  then obtain p' where "coerce_pose u (Pose_plain (PDict ?d)) = Inr p'" and "ps_poses s = [(u, p')]"
    by (auto simp: FleetPoseSnapshot_def mapping_items_def rbind_eq_Inr split: if_splits)
  moreover have "plain (pose_field (Pose_plain (PDict ?d)) ''velocity_xyz_mps'' other) = zero_vector" for other
    by (simp add: dget_dset)
  ultimately show "up_velocity p = [0, 0, 0]" using p
    by (auto simp: coerce_pose_def FleetUavPose_def rbind_eq_Inr zero_vector_def air_vector3_def air_finite_def)
next
  fix p assume "pose = Pose_value p" and "routing_id_match u"
  then show "\<exists>m. coerce_fleet_pose_snapshot (Snapshot_fields entries) = Inl (ValueError m)"
    unfolding coerce_fields [OF assms(3,1,2)]
    by (simp add: snapshot_item_def position_from_pose_def velocity_of_def mapping_items_def FleetUavPose_def
        air_vector3_def py_iter_def)
qed

text \<open>
  Without \<open>clear_cut\<close> a crossing may be missed: a leg of a kilometre that runs along a leg of one metre at less
  than a nanometre has an orientation below the tolerance, which counts as neither side.
\<close>

lemma grazing_crossing_missed:
  defines "a \<equiv> [0, 0, 10]" and "b \<equiv> [1, 0, 10]" and "c \<equiv> [- 1 / 4, 1 / (2 * 10 ^ 9), 10]"
    and "d \<equiv> [999 + 3 / 4, - 1999 / (2 * 10 ^ 9), 10]"
  shows "along a b (1 / 4) 0 = along c d (1 / 2000) 0" "along a b (1 / 4) 1 = along c d (1 / 2000) 1"
    and "\<not> segments_intersect_xy a b c d"
  by (simp_all add: along_def a_def b_def c_def d_def of_rat_divide of_rat_add of_rat_minus of_rat_mult
      segments_intersect_xy_def orientation_def on_segment_def epsilon_def)

section \<open>Examples\<close>

definition east_bound :: uav_pose where
  "east_bound = \<lparr>up_id = ''uav_a'', up_position = [- 10, 0, 10], up_velocity = [2, 0, 0], up_priority = 100,
     up_assignment = None, up_route = [[- 5, 0, 10], [5, 0, 10]], up_landing = None\<rparr>"

definition west_bound :: uav_pose where
  "west_bound = \<lparr>up_id = ''uav_b'', up_position = [10, 0, 10], up_velocity = [- 2, 0, 0], up_priority = 10,
     up_assignment = None, up_route = [[0, - 5, 10], [0, 5, 10]], up_landing = None\<rparr>"

definition example_manager :: airspace_manager where
  "example_manager = \<lparr>am_minimum = 5, am_warning = 7, am_horizon = 10, am_tolerance = 2,
     am_policy = LOWER_PRIORITY_HOLDS, am_last = None\<rparr>"

lemma example_manager_created:
  "FleetAirspaceManager (PFloat (Fin 5)) (PFloat (Fin 7)) (PFloat (Fin 10)) (PFloat (Fin 2))
     (PStr ''LOWER_PRIORITY_HOLDS'') = Inr example_manager"
  by code_simp

lemma example_poses_ok: "pose_ok east_bound" "pose_ok west_bound" "up_id east_bound < up_id west_bound"
  by code_simp+

lemmas example_pair =
  evaluate_pair_total [OF FleetAirspaceManager_ok [OF example_manager_created] example_poses_ok]

theorem airspace_predicts_witness:
  "\<exists>c e. evaluate_pair example_manager east_bound west_bound = Inr c \<and> pc_risk c = AR_COLLISION_PREDICTED
    \<and> pc_collision_time c = Some e \<and> e \<le> 10 \<and> separation east_bound west_bound e \<le> 5"
proof -
  have mv: "moving east_bound west_bound"
    by (simp add: moving_def diff3_def upto3 dot3_list east_bound_def west_bound_def)
  note exact = airspace_predicts [OF FleetAirspaceManager_ok [OF example_manager_created] example_pair]
  have same: "expected east_bound west_bound = separation east_bound west_bound"
    using exact mv by blast
  have "separation east_bound west_bound 5 = 0"
    by (simp add: separation_def axis_gap_def east_bound_def west_bound_def)
  then have "\<exists>t. 0 \<le> t \<and> t \<le> of_rat (am_horizon example_manager)
      \<and> expected east_bound west_bound t < of_rat (am_minimum example_manager)"
    unfolding same by (intro exI [of _ 5]) (simp add: example_manager_def)
  then have "pc_risk (conflict_of example_manager east_bound west_bound) = AR_COLLISION_PREDICTED" using exact by blast
  then show ?thesis using exact example_pair by (auto simp: example_manager_def same)
qed

theorem crossing_routes_hold_witness:
  "\<exists>c. evaluate_pair example_manager east_bound west_bound = Inr c \<and> pc_routes c \<and> pc_hold c = Some ''uav_b''"
proof -
  have "up_id (lower_priority east_bound west_bound) = ''uav_b''" by code_simp
  moreover have "pc_routes (conflict_of example_manager east_bound west_bound)
      \<and> is_conflict (conflict_of example_manager east_bound west_bound)
      \<and> pc_hold (conflict_of example_manager east_bound west_bound) = Some (up_id (lower_priority east_bound west_bound))"
    by (rule crossing_routes_hold [OF example_pair, where s = "1 / 2" and t = "1 / 2" and p = "[- 5, 0, 10]"
          and q = "[5, 0, 10]" and p' = "[0, - 5, 10]" and q' = "[0, 5, 10]"])
      (simp_all add: east_bound_def west_bound_def route_segments_def along_def clear_cut_def orientation_def
        epsilon_def example_manager_def)
  ultimately show ?thesis using example_pair by auto
qed

definition example_snapshot :: pose_snapshot where
  "example_snapshot = \<lparr>ps_time = 10, ps_poses = [(''uav_a'', east_bound), (''uav_b'', west_bound)]\<rparr>"

lemma example_snapshot_ok: "snapshot_ok example_snapshot"
  by code_simp

theorem airspace_leaves_one_flying_witness:
  "\<exists>d. fst (airspace_evaluate example_manager (Snapshot example_snapshot)) = Inr d
    \<and> map (\<lambda>c. (pc_a c, pc_b c)) (ad_conflicts d) = [(''uav_a'', ''uav_b'')]
    \<and> (\<exists>k \<in> {''uav_a'', ''uav_b''}. k \<notin> set (ad_holds d))"
proof -
  have "coerce_fleet_pose_snapshot (Snapshot example_snapshot) = Inr example_snapshot"
    by (simp add: coerce_fleet_pose_snapshot_def)
  from airspace_leaves_one_flying [OF FleetAirspaceManager_ok [OF example_manager_created] this]
  obtain d where "airspace_evaluate example_manager (Snapshot example_snapshot) = (Inr d, example_manager\<lparr>am_last := Some d\<rparr>)"
    and "map (\<lambda>c. (pc_a c, pc_b c)) (ad_conflicts d) = pairs (dkeys (ps_poses example_snapshot))"
    and "\<exists>k \<in> set (dkeys (ps_poses example_snapshot)). k \<notin> set (ad_holds d)"
    using example_snapshot_ok by (auto simp: example_snapshot_def)
  then show ?thesis by (auto simp: example_snapshot_def)
qed

definition example_entries :: "(string \<times> field_arg) list" where
  "example_entries = [(''timestamp_s'', Field_plain (PInt 0)),
     (''poses'', Field_poses [(PStr ''uav_a'', Pose_plain (PDict [
        (PStr ''position_xyz_m'', PList [PInt 0, PInt 0, PInt 10]),
        (PStr ''velocity'', PList [PInt 2, PInt 0, PInt 0])]))])]"

definition standing :: uav_pose where
  "standing = \<lparr>up_id = ''uav_a'', up_position = [0, 0, 10], up_velocity = [0, 0, 0], up_priority = 0,
     up_assignment = None, up_route = [], up_landing = None\<rparr>"

theorem coerced_snapshot_drops_velocity_witness:
  "coerce_fleet_pose_snapshot (Snapshot_fields example_entries) = Inr \<lparr>ps_time = 0, ps_poses = [(''uav_a'', standing)]\<rparr>
    \<and> up_velocity standing = [0, 0, 0]"
proof
  show c: "coerce_fleet_pose_snapshot (Snapshot_fields example_entries) = Inr \<lparr>ps_time = 0, ps_poses = [(''uav_a'', standing)]\<rparr>"
    by code_simp
  let ?d = "[(PStr ''position_xyz_m'', PList [PInt 0, PInt 0, PInt 10]), (PStr ''velocity'', PList [PInt 2, PInt 0, PInt 0])]"
  have "dget example_entries ''uav_velocities_mps'' = None"
    and "dget example_entries ''timestamp_s'' = Some (Field_plain (PInt 0))"
    and "dget example_entries ''poses'' = Some (Field_poses [(PStr ''uav_a'', Pose_plain (PDict ?d))])"
    by (simp_all add: example_entries_def)
  from coerced_snapshot_drops_velocity [OF this, THEN conjunct1, rule_format, of ?d, OF refl _ c]
  show "up_velocity standing = [0, 0, 0]" by simp
qed

end
