(* ===== verification/Route_Collision.thy ===== *)
theory Route_Collision
  imports Obstacle_Geometry Route_Registry Task_Plan
begin

text \<open>
  \<open>env/obstacle_registry.py\<close> and \<open>runtime/route_collision_monitor.py\<close>: the registry of the scene's
  obstacles, and the monitor that sweeps the path of a vehicle between two samples of its position, marks
  the route it executes as collided and has its task canceled.

  The skill manager and the two sinks are outside the monitor: they act on a state \<open>'w\<close> of their own, and the
  monitor reads the manager through a \<open>manager_view\<close> of it.  A callback tells whether it raised.  The callbacks
  call neither the monitor nor the route registry.  The monitor holds the route registry it shares.
\<close>

section \<open>The obstacles of the scene\<close>

record obstacle_registry =
  or_specs :: "obstacle_spec list"
  or_by_id :: "(string \<times> obstacle_spec) list"
  or_aabbs :: "(string \<times> aabb) list"

fun index_specs :: "obstacle_spec list \<Rightarrow> (string \<times> obstacle_spec) list \<Rightarrow> (string \<times> obstacle_spec) list result" where
  "index_specs [] by_id = Inr by_id"
| "index_specs (spec # specs) by_id =
     (if os_id spec \<in> set (dkeys by_id) then Inl (ValueError (''duplicate obstacle_id: '' @ os_id spec))
      else index_specs specs (dset by_id (os_id spec) spec))"

definition ObstacleRegistry :: "obstacle_spec list \<Rightarrow> obstacle_registry result" where
  "ObstacleRegistry specs =
     rbind (index_specs specs []) (\<lambda>by_id.
     rbind (rmap (\<lambda>(i, spec). rbind (spec_aabb spec) (\<lambda>b. Inr (i, b))) by_id) (\<lambda>aabbs.
       Inr \<lparr>or_specs = specs, or_by_id = by_id, or_aabbs = aabbs\<rparr>))"

definition obstacle_registry_ids :: "obstacle_registry \<Rightarrow> string list" where
  "obstacle_registry_ids g = map os_id (or_specs g)"

definition obstacle_registry_aabbs :: "obstacle_registry \<Rightarrow> aabb list result" where
  "obstacle_registry_aabbs g = rmap (\<lambda>spec. case dget (or_aabbs g) (os_id spec) of
     Some b \<Rightarrow> Inr b | None \<Rightarrow> Inl (KeyError (os_id spec))) (or_specs g)"

definition collidable_specs :: "obstacle_registry \<Rightarrow> obstacle_spec list" where
  "collidable_specs g = filter os_collidable (or_specs g)"

definition collidable_aabbs :: "obstacle_registry \<Rightarrow> aabb list result" where
  "collidable_aabbs g = rmap spec_aabb (filter os_collidable (or_specs g))"

definition obstacle_registry_get :: "obstacle_registry \<Rightarrow> pyval \<Rightarrow> obstacle_spec result" where
  "obstacle_registry_get g obstacle =
     rbind (validate_routing_id obstacle ''obstacle_id'') (\<lambda>i.
       case dget (or_by_id g) i of Some s \<Rightarrow> Inr s | None \<Rightarrow> Inl (KeyError (''unknown obstacle_id: '' @ i)))"

definition get_aabb :: "obstacle_registry \<Rightarrow> pyval \<Rightarrow> aabb result" where
  "get_aabb g obstacle =
     rbind (validate_routing_id obstacle ''obstacle_id'') (\<lambda>i.
       case dget (or_aabbs g) i of Some b \<Rightarrow> Inr b | None \<Rightarrow> Inl (KeyError (''unknown obstacle_id: '' @ i)))"

definition obstacle_registry_contains :: "obstacle_registry \<Rightarrow> pyval \<Rightarrow> bool" where
  "obstacle_registry_contains g v = (case v of PStr i \<Rightarrow> i \<in> set (dkeys (or_by_id g)) | _ \<Rightarrow> False)"

text \<open>\<open>f"{index:03d}"\<close>.\<close>

definition three_digits :: "nat \<Rightarrow> string" where
  "three_digits n = replicate (3 - length (decimal n)) CHR ''0'' @ decimal n"

definition obstacle_scene_prim_key :: "pyval \<Rightarrow> pyval \<Rightarrow> string result" where
  "obstacle_scene_prim_key index obstacle =
     rbind (int_value (TypeError ''obstacle index must be an integer'')
              (ValueError ''obstacle index must be non-negative'') (\<lambda>i. 0 \<le> i) index) (\<lambda>i.
     rbind (validate_routing_id obstacle ''obstacle_id'') (\<lambda>normalized.
       Inr (''obstacle_'' @ three_digits (nat i) @ ''_'' @ normalized)))"

section \<open>The monitor\<close>

definition monitor_number :: "string \<Rightarrow> pyval \<Rightarrow> rat result" where
  "monitor_number name =
     real_value (TypeError (name @ '' must be a finite number'')) (ValueError (name @ '' must be finite'')) (\<lambda>_. True)"

definition monitor_nonnegative :: "string \<Rightarrow> pyval \<Rightarrow> rat result" where
  "monitor_nonnegative name v =
     rbind (monitor_number name v) (\<lambda>x.
       if x < 0 then Inl (ValueError (name @ '' must be non-negative'')) else Inr x)"

definition monitor_xyz :: "string \<Rightarrow> pyval \<Rightarrow> rat list result" where
  "monitor_xyz name v =
     rbind (case v of
              PStr s \<Rightarrow> Inl (TypeError (name @ '' must contain three finite numbers''))
            | _ \<Rightarrow> (case py_iter v of
                Inr xs \<Rightarrow> Inr xs
              | Inl e \<Rightarrow> Inl (TypeError (name @ '' must contain three finite numbers'')))) (\<lambda>xs.
     if length xs \<noteq> 3 then Inl (ValueError (name @ '' must contain three finite numbers''))
     else rmap (\<lambda>(i, x). monitor_number (item_name name i) x) (enumerate 0 xs))"

record route_collision =
  co_route :: string
  co_obstacle :: string
  co_mission :: string
  co_uav :: string
  co_version :: int
  co_time :: rat
  co_previous :: "rat list"
  co_current :: "rat list"
  co_impact :: "rat list"
  co_fraction :: rat
  co_radius :: rat
  co_event :: mission_event

definition collision_to_dict :: "route_collision \<Rightarrow> (string \<times> pyval) list" where
  "collision_to_dict c =
     [(''route_id'', PStr (co_route c)), (''obstacle_id'', PStr (co_obstacle c)),
      (''mission_id'', PStr (co_mission c)), (''uav_id'', PStr (co_uav c)), (''plan_version'', PInt (co_version c)),
      (''timestamp_s'', pfloat (co_time c)), (''previous_position_world_m'', point_list (co_previous c)),
      (''current_position_world_m'', point_list (co_current c)),
      (''impact_position_world_m'', point_list (co_impact c)), (''segment_fraction'', pfloat (co_fraction c)),
      (''uav_radius_m'', pfloat (co_radius c)), (''event_id'', PStr (ev_id (co_event c)))]"

text \<open>What the monitor reads of the skill manager; labels are those of \<open>_enum_label\<close>.\<close>

record manager_view =
  mv_status :: "string option"
  mv_active :: "string option"
  mv_step :: "string option"
  mv_plan :: "task_plan option"
  mv_uav :: "string option"

text \<open>\<open>cancel_task\<close> and the sinks; the first component of a result tells whether the callback raised.\<close>

record 'w monitor_callbacks =
  cb_view :: "'w \<Rightarrow> manager_view"
  cb_cancel :: "'w \<Rightarrow> bool \<times> 'w"
  cb_event :: "(mission_event \<Rightarrow> 'w \<Rightarrow> bool \<times> 'w) option"
  cb_collision :: "(route_collision \<Rightarrow> 'w \<Rightarrow> bool \<times> 'w) option"

record 'w collision_monitor =
  cm_obstacles :: obstacle_registry
  cm_routes :: route_registry
  cm_world :: 'w
  cm_radius :: rat
  cm_tracked :: "string option"
  cm_previous :: "rat list option"
  cm_timestamp :: "rat option"
  cm_records :: "route_collision list"

definition monitor_init :: "obstacle_registry \<Rightarrow> route_registry \<Rightarrow> 'w \<Rightarrow> pyval \<Rightarrow> 'w collision_monitor result" where
  "monitor_init obstacles routes world radius =
     rbind (monitor_number ''uav_radius_m'' radius) (\<lambda>radius.
       if radius < 0 then Inl (ValueError ''uav_radius_m must be non-negative'')
       else Inr \<lparr>cm_obstacles = obstacles, cm_routes = routes, cm_world = world, cm_radius = radius,
                 cm_tracked = None, cm_previous = None, cm_timestamp = None, cm_records = []\<rparr>)"

definition clear_tracking :: "'w collision_monitor \<Rightarrow> 'w collision_monitor" where
  "clear_tracking m = m\<lparr>cm_tracked := None, cm_previous := None, cm_timestamp := None\<rparr>"

definition monitor_reset :: "'w collision_monitor \<Rightarrow> 'w collision_monitor" where
  "monitor_reset m = (clear_tracking m)\<lparr>cm_records := []\<rparr>"

definition active_executing_route :: "route_registry \<Rightarrow> manager_view \<Rightarrow> (route_record \<times> task_plan) option result" where
  "active_executing_route routes v =
     (if mv_status v \<noteq> Some ''RUNNING'' then Inr None
      else if mv_active v \<noteq> Some ''FOLLOW_ROUTE'' then Inr None
      else case mv_plan v of
        None \<Rightarrow> Inr None
      | Some plan \<Rightarrow>
          (case List.find (\<lambda>s. Some (ts_id s) = mv_step v) (tp_steps plan) of
             None \<Rightarrow> Inr None
           | Some step \<Rightarrow>
               if skill_value (ts_skill step) \<noteq> ''FOLLOW_ROUTE'' then Inr None
               else (case dget (ts_params step) ''route_ref'' of
                  Some (PStr route_id) \<Rightarrow>
                    (case registry_get routes (PStr route_id) of
                       Inl (KeyError e) \<Rightarrow> Inl (RouteCollisionMonitorError
                         (''active FOLLOW_ROUTE references unknown route '' @ route_id))
                     | Inl e \<Rightarrow> Inl e
                     | Inr record \<Rightarrow>
                         if rr_state record \<noteq> RS_EXECUTING then Inr None
                         else if rr_version record \<noteq> tp_version plan
                         then Inl (RouteCollisionMonitorError
                           ''executing route plan_version does not match active TaskPlan'')
                         else if mv_uav v \<noteq> Some (tp_uav plan)
                         then Inl (RouteCollisionMonitorError ''active TaskPlan uav_id does not match SkillManager'')
                         else Inr (Some (record, plan)))
                | _ \<Rightarrow> Inl (RouteCollisionMonitorError ''active FOLLOW_ROUTE has no route_ref''))))"

text \<open>The loop of \<open>_first_collision\<close>; \<open>first\<close> is the nearest obstacle so far.\<close>

fun first_collision ::
  "rat \<Rightarrow> rat list \<Rightarrow> rat list \<Rightarrow> obstacle_spec list \<Rightarrow> (string \<times> rat) option \<Rightarrow> (string \<times> rat) option result" where
  "first_collision radius start stop [] first = Inr first"
| "first_collision radius start stop (obstacle # rest) first =
     rbind (spec_aabb obstacle) (\<lambda>b.
     rbind (box_expanded b (PTuple (replicate 3 (pfloat radius)))) (\<lambda>grown.
     rbind (segment_intersection_fraction grown (PTuple (map pfloat start)) (PTuple (map pfloat stop))) (\<lambda>fraction.
       first_collision radius start stop rest
         (case fraction of
            None \<Rightarrow> first
          | Some f \<Rightarrow> (case first of
              None \<Rightarrow> Some (os_id obstacle, f)
            | Some (i, g) \<Rightarrow> if f < g then Some (os_id obstacle, f) else first)))))"

text \<open>
  \<open>_close_collision\<close>: every callback runs, whichever of them raises.
\<close>

definition close_collision ::
  "'w monitor_callbacks \<Rightarrow> route_collision \<Rightarrow> 'w collision_monitor \<Rightarrow> unit result \<times> 'w collision_monitor" where
  "close_collision cb c m =
     (let (f1, w) = cb_cancel cb (cm_world m);
          (f2, w) = (case cb_event cb of None \<Rightarrow> (False, w) | Some sink \<Rightarrow> sink (co_event c) w);
          (f3, w) = (case cb_collision cb of None \<Rightarrow> (False, w) | Some sink \<Rightarrow> sink c w)
      in (if f1 \<or> f2 \<or> f3
          then Inl (RouteCollisionMonitorError ''route collision was recorded but a closure callback failed'')
          else Inr (), m\<lparr>cm_world := w\<rparr>))"

definition collision_payload :: "string \<Rightarrow> string \<Rightarrow> rat list \<Rightarrow> rat list \<Rightarrow> rat list \<Rightarrow> rat \<Rightarrow> rat \<Rightarrow> pyval" where
  "collision_payload route obstacle start current impact fraction radius = pdict
     [(''source'', PStr ''route_collision_monitor''), (''geometry_source'', PStr ''scene_obstacle_registry''),
      (''route_id'', PStr route), (''obstacle_id'', PStr obstacle),
      (''previous_position_world_m'', point_list start), (''current_position_world_m'', point_list current),
      (''impact_position_world_m'', point_list impact), (''segment_fraction'', pfloat fraction),
      (''uav_radius_m'', pfloat radius)]"

text \<open>What \<open>observe\<close> does once the swept segment hits; \<open>hex\<close> is \<open>uuid4().hex\<close> and \<open>fr\<close> \<open>float.__repr__\<close>.\<close>

definition report_collision ::
  "(rat \<Rightarrow> string) \<Rightarrow> nat \<Rightarrow> string \<Rightarrow> 'w monitor_callbacks \<Rightarrow> route_record \<Rightarrow> task_plan \<Rightarrow> rat list \<Rightarrow> rat list \<Rightarrow> rat
     \<Rightarrow> string \<Rightarrow> rat \<Rightarrow> 'w collision_monitor \<Rightarrow> route_collision option result \<times> 'w collision_monitor" where
  "report_collision fr thread hex cb r plan start current time obstacle fraction m =
     (let impact = map2 (\<lambda>b e. b + fraction * (e - b)) start current;
          (moved, routes) = transition_route fr thread (PStr (rr_id r)) (PStr (route_state_value RS_COLLIDED)) (cm_routes m);
          m = m\<lparr>cm_routes := routes\<rparr>
      in checked m moved (\<lambda>updated.
         if rr_state updated \<noteq> RS_COLLIDED
         then (Inl (RouteCollisionMonitorError ''route registry did not enter COLLIDED''), m)
         else
           checked m (rbind (generate_routing_id hex (PStr ''event_collision'')) (\<lambda>i.
             MissionEvent fr (PStr i) (PStr (tp_mission plan)) (PStr (tp_uav plan)) (PInt (tp_version plan))
               (pfloat time) (PStr (event_type_value ET_ROUTE_COLLISION)) (PStr (severity_value SEV_CRITICAL))
               (collision_payload (rr_id r) obstacle start current impact fraction (cm_radius m)))) (\<lambda>e.
           let c = \<lparr>co_route = rr_id r, co_obstacle = obstacle, co_mission = tp_mission plan, co_uav = tp_uav plan,
                    co_version = tp_version plan, co_time = time, co_previous = start, co_current = current,
                    co_impact = impact, co_fraction = fraction, co_radius = cm_radius m, co_event = e\<rparr>;
               m = m\<lparr>cm_records := cm_records m @ [c]\<rparr>
           in andthen (close_collision cb c m) (\<lambda>_ m. (Inr (Some c), m)))))"

definition monitor_observe ::
  "(rat \<Rightarrow> string) \<Rightarrow> nat \<Rightarrow> string \<Rightarrow> 'w monitor_callbacks \<Rightarrow> pyval \<Rightarrow> pyval \<Rightarrow> 'w collision_monitor
     \<Rightarrow> route_collision option result \<times> 'w collision_monitor" where
  "monitor_observe fr thread hex cb position timestamp m =
     checked m (monitor_xyz ''position_world_m'' position) (\<lambda>current.
     checked m (monitor_nonnegative ''timestamp_s'' timestamp) (\<lambda>time.
     checked m (active_executing_route (cm_routes m) (cb_view cb (cm_world m))) (\<lambda>active.
       case active of
         None \<Rightarrow> (Inr None, clear_tracking m)
       | Some (r, plan) \<Rightarrow>
           let fresh = (Some (rr_id r) \<noteq> cm_tracked m);
               start = (if fresh then current else case cm_previous m of Some p \<Rightarrow> p | None \<Rightarrow> current)
           in if \<not> fresh \<and> (\<exists>t \<in> set_option (cm_timestamp m). time < t)
              then (Inl (ValueError ''timestamp_s cannot move backwards during FOLLOW_ROUTE''), m)
              else
                let m = m\<lparr>cm_tracked := Some (rr_id r), cm_previous := Some current, cm_timestamp := Some time\<rparr>
                in checked m (first_collision (cm_radius m) start current (collidable_specs (cm_obstacles m)) None) (\<lambda>hit.
                     case hit of
                       None \<Rightarrow> (Inr None, m)
                     | Some (obstacle, fraction) \<Rightarrow>
                         report_collision fr thread hex cb r plan start current time obstacle fraction m))))"

section \<open>The collision event is always accepted\<close>

text \<open>\<open>float.__repr__\<close> of a finite number is at most 24 characters long.\<close>

definition short_floats :: "(rat \<Rightarrow> string) \<Rightarrow> bool" where
  "short_floats fr \<longleftrightarrow> (\<forall>x. length (fr x) \<le> 24)"

text \<open>A bound for the encoded length of frozen JSON without integers.\<close>

fun json_weight :: "pyval \<Rightarrow> nat" where
  "json_weight (PStr s) = 6 * length s + 2"
| "json_weight (PTuple xs) = 2 + (\<Sum>x\<leftarrow>xs. json_weight x + 2)"
| "json_weight (PDict d) = 2 + (\<Sum>e\<leftarrow>d. (case fst e of PStr s \<Rightarrow> 6 * length s + 2 | _ \<Rightarrow> 0) + 2 + json_weight (snd e) + 2)"
| "json_weight (PInt i) = length (int_repr i)"
| "json_weight _ = 24"

lemma json_string_length: "length (json_string s) \<le> 6 * length s + 2"
proof -
  have "length (json_char c) \<le> 6" for c by (simp add: json_char_def Let_def)
  then have "length (concat (map json_char s)) \<le> 6 * length s"
    by (induction s) (simp_all add: add_mono)
  then show ?thesis by (simp add: json_string_def)
qed

lemma py_join_length: "length (py_join sep xs) \<le> (\<Sum>x\<leftarrow>xs. length x + length sep)"
  by (induction sep xs rule: py_join.induct) auto

lemma json_text_weight: "short_floats fr \<Longrightarrow> length (json_text fr v) \<le> json_weight v"
proof (induction fr v rule: json_text.induct)
  case (6 fr xs)
  have "length (py_join '', '' (map (json_text fr) xs)) \<le> (\<Sum>x\<leftarrow>map (json_text fr) xs. length x + 2)"
    using py_join_length [of "'', ''" "map (json_text fr) xs"] by simp
  also have "\<dots> \<le> (\<Sum>x\<leftarrow>xs. json_weight x + 2)" using 6 by (simp add: o_def sum_list_mono)
  finally show ?case by simp
next
  case (7 fr d)
  let ?entry = "\<lambda>e. (case fst e of PStr s \<Rightarrow> json_string s | _ \<Rightarrow> []) @ '': '' @ json_text fr (snd e)"
  have "length (?entry e) \<le> (case fst e of PStr s \<Rightarrow> 6 * length s + 2 | _ \<Rightarrow> 0) + 2 + json_weight (snd e)"
    if "e \<in> set d" for e
    using 7(1) [OF that 7(2)] add_mono [OF json_string_length] by (auto split: pyval.split simp del: add_Suc)
  then have "(\<Sum>x\<leftarrow>map ?entry d. length x + 2) \<le> (\<Sum>e\<leftarrow>d. (case fst e of PStr s \<Rightarrow> 6 * length s + 2 | _ \<Rightarrow> 0) + 2 + json_weight (snd e) + 2)"
    unfolding map_map o_def by (intro sum_list_mono add_mono order_refl)
  then show ?case using py_join_length [of "'', ''" "map ?entry d"] by simp
qed (auto simp: short_floats_def json_string_length [simplified] split: if_splits)

definition frozen_collision :: "string \<Rightarrow> string \<Rightarrow> rat list \<Rightarrow> rat list \<Rightarrow> rat list \<Rightarrow> rat \<Rightarrow> rat \<Rightarrow> (pyval \<times> pyval) list" where
  "frozen_collision route obstacle start current impact fraction radius =
     map (\<lambda>(k, v). (PStr k, v))
     [(''source'', PStr ''route_collision_monitor''), (''geometry_source'', PStr ''scene_obstacle_registry''),
      (''route_id'', PStr route), (''obstacle_id'', PStr obstacle),
      (''previous_position_world_m'', PTuple (map pfloat start)), (''current_position_world_m'', PTuple (map pfloat current)),
      (''impact_position_world_m'', PTuple (map pfloat impact)), (''segment_fraction'', pfloat fraction),
      (''uav_radius_m'', pfloat radius)]"

lemma frozen_collision_ok:
  assumes "short_floats fr" "length route \<le> 64" "length obstacle \<le> 64"
    and "length start = 3" "length current = 3" "length impact = 3"
  shows "payload_ok fr (frozen_collision route obstacle start current impact fraction radius)"
proof -
  obtain s1 s2 s3 c1 c2 c3 i1 i2 i3 where p: "start = [s1, s2, s3]" "current = [c1, c2, c3]" "impact = [i1, i2, i3]"
    using assms(4-6) [THEN length_3] by blast
  have "json_weight (PDict (frozen_collision route obstacle start current impact fraction radius)) \<le> MAX_JSON_ENCODED_BYTES"
    using assms(2,3) by (simp add: frozen_collision_def p MAX_JSON_ENCODED_BYTES_def)
  then have "length (json_text fr (PDict (frozen_collision route obstacle start current impact fraction radius))) \<le> MAX_JSON_ENCODED_BYTES"
    using json_text_weight [OF assms(1)] le_trans by blast
  then show ?thesis
    using assms(2,3) unfolding payload_ok_def
    by (simp add: frozen_collision_def p MAX_JSON_DEPTH_def MAX_JSON_STRING_CHARS_def MAX_JSON_ITEMS_def del: json_text.simps)
qed

lemma collision_payload_thawed:
  "collision_payload route obstacle start current impact fraction radius
    = json_payload_to_dict (frozen_collision route obstacle start current impact fraction radius)"
  by (simp add: collision_payload_def frozen_collision_def json_payload_to_dict_def point_list_def o_def)

lemma event_codes: "MissionEventType (PStr (event_type_value ET_ROUTE_COLLISION)) = Inr ET_ROUTE_COLLISION"
    "EventSeverity (PStr (severity_value SEV_CRITICAL)) = Inr SEV_CRITICAL"
  by code_simp+

lemma collision_event_accepted:
  assumes "short_floats fr" "uuid_hex hex" "routing_id_match route" "routing_id_match obstacle"
    and "routing_id_match mission" "routing_id_match uav" "0 < version" "0 \<le> time"
    and "length start = 3" "length current = 3" "length impact = 3"
  shows "\<exists>e. rbind (generate_routing_id hex (PStr ''event_collision'')) (\<lambda>i.
      MissionEvent fr (PStr i) (PStr mission) (PStr uav) (PInt version) (pfloat time)
        (PStr (event_type_value ET_ROUTE_COLLISION)) (PStr (severity_value SEV_CRITICAL))
        (collision_payload route obstacle start current impact fraction radius)) = Inr e"
proof -
  let ?i = "''event_collision'' @ ''_'' @ hex"
  let ?i = "''event_collision'' @ ''_'' @ hex"
  have prefix: "routing_id_match ''event_collision''" "length ''event_collision'' \<le> 31" by code_simp+
  have i: "generate_routing_id hex (PStr ''event_collision'') = Inr ?i" "routing_id_match ?i"
    by (rule generate_routing_id_total [OF assms(2) prefix], rule hex_suffix_match [OF assms(2) prefix])
  have len: "length route \<le> 64" "length obstacle \<le> 64"
    using assms(3,4) by (auto simp: routing_id_match_def split: list.splits)
  have "validated_json_payload fr (collision_payload route obstacle start current impact fraction radius) ''payload''
      = Inr (frozen_collision route obstacle start current impact fraction radius)"
    unfolding collision_payload_thawed
    by (rule validated_payload_again(2)) (rule frozen_collision_ok [OF assms(1) len assms(9-11)])
  then show ?thesis
    using assms(5-8) unfolding i(1) rbind_simps MissionEvent_def event_codes validate_id_PStr [OF i(2)]
    by (simp add: positive_plan_version_def finite_timestamp_def or_value_error_def)
qed

section \<open>Obstacles and the swept segment\<close>

definition spec_ok :: "obstacle_spec \<Rightarrow> bool" where
  "spec_ok s \<longleftrightarrow> routing_id_match (os_id s) \<and> length (os_center s) = 3 \<and> length (os_size s) = 3
     \<and> (\<forall>i<3. 0 < os_size s ! i)"

lemma ObstacleSpec_ok: "ObstacleSpec i c z col b mo = Inr s \<Longrightarrow> spec_ok s"
  by (auto simp: ObstacleSpec_def spec_ok_def rbind_eq_Inr positive_vector3_def list_ex_length not_le
      dest: geo_vector_length split: if_splits)

definition spec_box :: "obstacle_spec \<Rightarrow> aabb" where
  "spec_box s = \<lparr>bb_min = map2 (\<lambda>c e. c - e) (os_center s) (map (\<lambda>x. x / 2) (os_size s)),
     bb_max = map2 (\<lambda>c e. c + e) (os_center s) (map (\<lambda>x. x / 2) (os_size s))\<rparr>"

lemma spec_box_ok: "spec_ok s \<Longrightarrow> box_ok (spec_box s)"
  by (auto simp: spec_ok_def spec_box_def box_ok_def)

lemma spec_aabb_box:
  assumes "spec_ok s"
  shows "spec_aabb s = Inr (spec_box s)"
proof -
  have "\<not> list_ex (\<lambda>x. x \<le> 0) (os_size s)" using assms by (auto simp: spec_ok_def list_ex_length)
  then have "positive_vector3 ''size_xyz_m'' (PTuple (map pfloat (os_size s))) = Inr (os_size s)"
    using assms by (simp add: positive_vector3_def spec_ok_def)
  then have "spec_aabb s = ObstacleAABB (PTuple (map pfloat (bb_min (spec_box s)))) (PTuple (map pfloat (bb_max (spec_box s))))"
    using assms by (simp add: spec_aabb_def from_center_size_def spec_ok_def Let_def map2_pfloat spec_box_def)
  also have "\<dots> = Inr (spec_box s)"
    using spec_box_ok [OF assms] by (subst ObstacleAABB_floats) (simp_all add: box_ok_def)
  finally show ?thesis .
qed

text \<open>
  The vehicle, a ball of the given radius per axis, is in the obstacle at the fraction \<open>t\<close> of the
  segment; a motion of at most \<open>1e-15\<close> along an axis counts as none, as in the slab test.
\<close>

definition touches :: "rat \<Rightarrow> rat list \<Rightarrow> rat list \<Rightarrow> obstacle_spec \<Rightarrow> rat \<Rightarrow> bool" where
  "touches radius start stop s t \<longleftrightarrow> 0 \<le> t \<and> t \<le> 1
     \<and> point_in (grown (spec_box s) radius) False (segment_point start (snapped start stop) t)"

definition hit_fraction :: "rat \<Rightarrow> rat list \<Rightarrow> rat list \<Rightarrow> obstacle_spec \<Rightarrow> rat option" where
  "hit_fraction radius start stop s = segment_fraction (grown (spec_box s) radius) start stop"

lemma hit_fraction_exact:
  assumes "spec_ok s" "0 \<le> radius" "length start = 3" "length stop = 3"
  shows "hit_fraction radius start stop s = None \<Longrightarrow> \<not> touches radius start stop s t"
    and "hit_fraction radius start stop s = Some f \<Longrightarrow>
      touches radius start stop s f \<and> (\<forall>u<f. \<not> touches radius start stop s u)"
proof -
  note exact = segment_fraction_first [OF grown_axes(1) [OF spec_box_ok [OF assms(1)] assms(2)] assms(3,4)]
  show "hit_fraction radius start stop s = None \<Longrightarrow> \<not> touches radius start stop s t"
    using exact by (auto simp: hit_fraction_def touches_def)
  assume "hit_fraction radius start stop s = Some f"
  then have "0 \<le> f \<and> f \<le> 1 \<and> point_in (grown (spec_box s) radius) False (segment_point start (snapped start stop) f)
      \<and> (\<forall>u. 0 \<le> u \<and> u < f \<longrightarrow> \<not> point_in (grown (spec_box s) radius) False (segment_point start (snapped start stop) u))"
    using exact by (simp add: hit_fraction_def)
  then show "touches radius start stop s f \<and> (\<forall>u<f. \<not> touches radius start stop s u)"
    unfolding touches_def by blast
qed

definition nearer :: "(string \<times> rat) option \<Rightarrow> (string \<times> rat) \<Rightarrow> (string \<times> rat) option" where
  "nearer first h = (case first of None \<Rightarrow> Some h | Some g \<Rightarrow> if snd h < snd g then Some h else first)"

definition hits_of :: "rat \<Rightarrow> rat list \<Rightarrow> rat list \<Rightarrow> obstacle_spec list \<Rightarrow> (string \<times> rat) list" where
  "hits_of radius start stop specs = concat (map (\<lambda>s. case hit_fraction radius start stop s of
     None \<Rightarrow> [] | Some f \<Rightarrow> [(os_id s, f)]) specs)"

lemma first_collision_fold:
  assumes "\<forall>s \<in> set specs. spec_ok s" "0 \<le> radius" "length start = 3" "length stop = 3"
  shows "first_collision radius start stop specs first = Inr (foldl nearer first (hits_of radius start stop specs))"
  using assms(1)
proof (induction specs arbitrary: first)
  case (Cons s specs)
  have ok: "spec_ok s" using Cons.prems by simp
  have "box_expanded (spec_box s) (PTuple (replicate 3 (pfloat radius))) = Inr (grown (spec_box s) radius)"
    by (rule box_expanded_grown [OF spec_box_ok [OF ok] assms(2)])
  then show ?case
    using Cons assms(3,4) spec_aabb_box [OF ok]
    by (auto simp: segment_intersection_fraction_def hits_of_def hit_fraction_def nearer_def split: option.split)
qed (simp add: hits_of_def)

lemma foldl_nearer:
  "foldl nearer first hs = None \<longleftrightarrow> first = None \<and> hs = []"
  "foldl nearer first hs = Some h \<Longrightarrow> (h \<in> set hs \<or> first = Some h)
     \<and> (\<forall>g \<in> set hs \<union> set_option first. snd h \<le> snd g)"
proof -
  show "foldl nearer first hs = None \<longleftrightarrow> first = None \<and> hs = []"
    by (induction hs arbitrary: first) (auto simp: nearer_def split: option.splits)
  show "foldl nearer first hs = Some h \<Longrightarrow> (h \<in> set hs \<or> first = Some h)
     \<and> (\<forall>g \<in> set hs \<union> set_option first. snd h \<le> snd g)"
  proof (induction hs arbitrary: first)
    case (Cons x hs)
    from Cons.IH [of "nearer first x"] Cons.prems show ?case
      by (cases first) (auto simp: nearer_def split: if_splits)
  qed simp
qed

lemma set_hits_of: "set (hits_of radius start stop specs)
    = {(os_id s, f) | s f. s \<in> set specs \<and> hit_fraction radius start stop s = Some f}"
  by (force simp: hits_of_def split: option.splits)

text \<open>The search returns, and finds the first obstacle on the way exactly when there is one.\<close>

lemma first_collision_exact:
  assumes "\<forall>s \<in> set specs. spec_ok s" "0 \<le> radius" "length start = 3" "length stop = 3"
  obtains (miss) "first_collision radius start stop specs None = Inr None"
      "\<forall>s \<in> set specs. \<forall>t. \<not> touches radius start stop s t"
    | (hit) s f where "first_collision radius start stop specs None = Inr (Some (os_id s, f))" "s \<in> set specs"
      "touches radius start stop s f" "\<forall>s \<in> set specs. \<forall>t<f. \<not> touches radius start stop s t"
proof -
  note run = first_collision_fold [OF assms(1-4), of None]
  note exact = hit_fraction_exact [OF bspec [OF assms(1)] assms(2-4)]
  show thesis
  proof (cases "foldl nearer None (hits_of radius start stop specs)")
    case None
    then have "hits_of radius start stop specs = []" using foldl_nearer(1) by blast
    then have "hit_fraction radius start stop s = None" if "s \<in> set specs" for s
      using that set_hits_of [of radius start stop specs] by (cases "hit_fraction radius start stop s") auto
    then show thesis using miss run None exact(1) by auto
  next
    case (Some h)
    from foldl_nearer(2) [OF Some] have h: "h \<in> set (hits_of radius start stop specs)"
      and least: "\<And>g. g \<in> set (hits_of radius start stop specs) \<Longrightarrow> snd h \<le> snd g" by auto
    from h obtain s f where s: "h = (os_id s, f)" "s \<in> set specs" "hit_fraction radius start stop s = Some f"
      unfolding set_hits_of by auto
    have "\<not> touches radius start stop s' t" if in_specs: "s' \<in> set specs" and early: "t < f" for s' t
    proof (cases "hit_fraction radius start stop s'")
      case None
      then show ?thesis using exact(1) [OF in_specs] by blast
    next
      case (Some g)
      then have "f \<le> g" using least [of "(os_id s', g)"] in_specs s(1) unfolding set_hits_of by auto
      then show ?thesis using exact(2) [OF in_specs Some] early by auto
    qed
    then show thesis using hit [of s f] run Some s exact(2) [OF s(2,3)] by auto
  qed
qed

section \<open>One observation\<close>

lemma monitor_floats:
  "length p = 3 \<Longrightarrow> monitor_xyz name (PTuple (map pfloat p)) = Inr p"
  "0 \<le> x \<Longrightarrow> monitor_nonnegative name (pfloat x) = Inr x"
  by (auto simp: monitor_xyz_def monitor_nonnegative_def monitor_number_def intro: rmap_enumerate_map)

lemma active_route:
  assumes "active_executing_route g v = Inr (Some (r, plan))"
  shows "\<exists>i. dget (rg_records g) i = Some r" "rr_state r = RS_EXECUTING" "rr_version r = tp_version plan"
    "mv_uav v = Some (tp_uav plan)"
proof -
  obtain i where i: "registry_get g (PStr i) = Inr r" and f: "rr_state r = RS_EXECUTING" "rr_version r = tp_version plan"
    "mv_uav v = Some (tp_uav plan)"
    using assms by (auto simp: active_executing_route_def split: option.splits if_splits pyval.splits sum.splits exn.splits)
  show "\<exists>i. dget (rg_records g) i = Some r" using registry_get_Inr [OF i] by blast
  show "rr_state r = RS_EXECUTING" "rr_version r = tp_version plan" "mv_uav v = Some (tp_uav plan)" by (fact f)+
qed

lemma route_collides:
  assumes "registry_ok fr g" and "dget (rg_records g) i = Some r" and "rr_state r = RS_EXECUTING"
  shows "transition_route fr (rg_owner g) (PStr (rr_id r)) (PStr (route_state_value RS_COLLIDED)) g
    = (Inr (r\<lparr>rr_state := RS_COLLIDED\<rparr>), g\<lparr>rg_records := dset (rg_records g) (rr_id r) (r\<lparr>rr_state := RS_COLLIDED\<rparr>)\<rparr>)"
proof -
  have r: "rr_id r = i" "route_record_ok fr r" using assms(1,2) by (auto simp: registry_ok_def)
  then have "registry_get g (PStr (rr_id r)) = Inr r"
    using assms(2) by (simp add: registry_get_def route_record_ok_def)
  then show ?thesis
    using assms(3) replace_route_eq [OF r(2), of "rr_critique r" RS_COLLIDED]
    by (simp add: transition_route_def require_owner_def del: route_state_value.simps)
qed

lemma close_collision_updated:
  "close_collision cb c (m\<lparr>cm_routes := g, cm_records := cs\<rparr>) = (fst (close_collision cb c m),
     m\<lparr>cm_routes := g, cm_records := cs, cm_world := cm_world (snd (close_collision cb c m))\<rparr>)"
  by (simp add: close_collision_def split_beta Let_def)

text \<open>The step of a collision when everything the event needs is in order.\<close>

lemma report_collision_result:
  assumes ok: "registry_ok fr (cm_routes m)" "dget (rg_records (cm_routes m)) i = Some r" "rr_state r = RS_EXECUTING"
    and plan: "routing_id_match (tp_mission plan)" "routing_id_match (tp_uav plan)" "rr_version r = tp_version plan"
    and event: "short_floats fr" "uuid_hex hex" "routing_id_match obstacle" "0 \<le> time" "length start = 3" "length current = 3"
  obtains c e where "report_collision fr (rg_owner (cm_routes m)) hex cb r plan start current time obstacle fraction m
      = (case fst (close_collision cb c m) of Inl e \<Rightarrow> Inl e | Inr _ \<Rightarrow> Inr (Some c),
         m\<lparr>cm_routes := (cm_routes m)\<lparr>rg_records := dset (rg_records (cm_routes m)) (rr_id r) (r\<lparr>rr_state := RS_COLLIDED\<rparr>)\<rparr>,
           cm_records := cm_records m @ [c], cm_world := cm_world (snd (close_collision cb c m))\<rparr>)"
    and "c = \<lparr>co_route = rr_id r, co_obstacle = obstacle, co_mission = tp_mission plan, co_uav = tp_uav plan,
      co_version = tp_version plan, co_time = time, co_previous = start, co_current = current,
      co_impact = segment_point start current fraction, co_fraction = fraction, co_radius = cm_radius m, co_event = e\<rparr>"
proof -
  let ?g = "cm_routes m"
  let ?g' = "?g\<lparr>rg_records := dset (rg_records ?g) (rr_id r) (r\<lparr>rr_state := RS_COLLIDED\<rparr>)\<rparr>"
  have "route_record_ok fr r" using ok(1,2) by (auto simp: registry_ok_def)
  then have r: "routing_id_match (rr_id r)" "0 < tp_version plan"
    using plan(3) by (simp_all add: route_record_ok_def)
  have impact: "map2 (\<lambda>b e. b + fraction * (e - b)) start current = segment_point start current fraction"
    by (simp add: segment_point_def)
  have "length (segment_point start current fraction) = 3" using event(5,6) by (simp add: segment_point_def)
  from collision_event_accepted [OF event(1,2) r(1) event(3) plan(1,2) r(2) event(4,5,6) this, of fraction "cm_radius m"]
  obtain e where e: "rbind (generate_routing_id hex (PStr ''event_collision'')) (\<lambda>i.
      MissionEvent fr (PStr i) (PStr (tp_mission plan)) (PStr (tp_uav plan)) (PInt (tp_version plan)) (pfloat time)
        (PStr (event_type_value ET_ROUTE_COLLISION)) (PStr (severity_value SEV_CRITICAL))
        (collision_payload (rr_id r) obstacle start current (segment_point start current fraction) fraction (cm_radius m))) = Inr e"
    by blast
  define c where "c = \<lparr>co_route = rr_id r, co_obstacle = obstacle, co_mission = tp_mission plan, co_uav = tp_uav plan,
      co_version = tp_version plan, co_time = time, co_previous = start, co_current = current,
      co_impact = segment_point start current fraction, co_fraction = fraction, co_radius = cm_radius m, co_event = e\<rparr>"
  have run: "report_collision fr (rg_owner ?g) hex cb r plan start current time obstacle fraction m
      = andthen (close_collision cb c (m\<lparr>cm_routes := ?g', cm_records := cm_records m @ [c]\<rparr>)) (\<lambda>_ m. (Inr (Some c), m))"
    unfolding report_collision_def Let_def impact route_collides [OF ok] prod.case checked_simps
    using e by (simp add: c_def del: event_type_value.simps severity_value.simps)
  show thesis
    using that [of c e] run c_def unfolding close_collision_updated
    by (cases "fst (close_collision cb c m)") simp_all
qed

text \<open>
  C36. While the vehicle executes a route, an observation at any position sweeps the whole segment since
  the last one: in exact rational arithmetic, and with a motion of at most \<open>1e-15\<close> along an axis counted
  as none (\<open>touches\<close>), it reports a collision exactly when some collidable obstacle, grown by the radius of
  the vehicle, meets the segment, and then the first such meeting.  The route is marked as collided, the
  collision is recorded and the callbacks run, even when one of them raises; without a collision the routes
  stay as they are.
\<close>

theorem observation_sweeps_path:
  assumes "registry_ok fr (cm_routes m)" "\<forall>s \<in> set (or_specs (cm_obstacles m)). spec_ok s" "0 \<le> cm_radius m"
    and "active_executing_route (cm_routes m) (cb_view cb (cm_world m)) = Inr (Some (r, plan))"
    and "routing_id_match (tp_mission plan)" "routing_id_match (tp_uav plan)"
    and "cm_tracked m = Some (rr_id r)" "cm_previous m = Some p" "cm_timestamp m = Some t0" "t0 \<le> time" "0 \<le> t0"
    and "short_floats fr" "uuid_hex hex" "length p = 3" "length current = 3"
    and "monitor_observe fr (rg_owner (cm_routes m)) hex cb (PTuple (map pfloat current)) (pfloat time) m = (out, m')"
  shows "cm_tracked m' = Some (rr_id r) \<and> cm_previous m' = Some current \<and> cm_timestamp m' = Some time
    \<and> (if \<exists>s \<in> set (collidable_specs (cm_obstacles m)). \<exists>t. touches (cm_radius m) p current s t
       then \<exists>c s. cm_records m' = cm_records m @ [c] \<and> co_route c = rr_id r
         \<and> s \<in> set (collidable_specs (cm_obstacles m)) \<and> co_obstacle c = os_id s
         \<and> touches (cm_radius m) p current s (co_fraction c)
         \<and> (\<forall>s \<in> set (collidable_specs (cm_obstacles m)). \<forall>t < co_fraction c. \<not> touches (cm_radius m) p current s t)
         \<and> co_impact c = segment_point p current (co_fraction c)
         \<and> dget (rg_records (cm_routes m')) (rr_id r) = Some (r\<lparr>rr_state := RS_COLLIDED\<rparr>)
         \<and> cm_world m' = cm_world (snd (close_collision cb c m))
         \<and> out = (case fst (close_collision cb c m) of Inl e \<Rightarrow> Inl e | Inr _ \<Rightarrow> Inr (Some c))
       else out = Inr None \<and> cm_records m' = cm_records m \<and> cm_routes m' = cm_routes m \<and> cm_world m' = cm_world m)"
proof -
  let ?m = "m\<lparr>cm_tracked := Some (rr_id r), cm_previous := Some current, cm_timestamp := Some time\<rparr>"
  let ?specs = "collidable_specs (cm_obstacles m)"
  note len = assms(14,15)
  have specs: "\<forall>s \<in> set ?specs. spec_ok s" using assms(2) by (simp add: collidable_specs_def)
  have inputs: "monitor_xyz ''position_world_m'' (PTuple (map pfloat current)) = Inr current"
    "monitor_nonnegative ''timestamp_s'' (pfloat time) = Inr time"
    using len(2) assms(10,11) monitor_floats by simp_all
  have run: "(out, m') = checked ?m (first_collision (cm_radius m) p current ?specs None) (\<lambda>hit. case hit of
      None \<Rightarrow> (Inr None, ?m)
    | Some (obstacle, fraction) \<Rightarrow>
        report_collision fr (rg_owner (cm_routes m)) hex cb r plan p current time obstacle fraction ?m)"
    using assms(16) unfolding monitor_observe_def inputs checked_simps assms(4) option.case prod.case Let_def
    using assms(7-10) by simp
  obtain i where i: "dget (rg_records (cm_routes m)) i = Some r" using active_route(1) [OF assms(4)] by blast
  note r = active_route(2,3) [OF assms(4)]
  show ?thesis
    using specs assms(3,14,15)
  proof (cases rule: first_collision_exact)
    case miss
    then have none: "\<not> (\<exists>s \<in> set ?specs. \<exists>t. touches (cm_radius m) p current s t)" by blast
    from run have "out = Inr None" "m' = ?m" unfolding miss(1) by simp_all
    then show ?thesis unfolding if_not_P [OF none] by simp
  next
    case (hit s f)
    then have some: "\<exists>s \<in> set ?specs. \<exists>t. touches (cm_radius m) p current s t" by blast
    have "routing_id_match (os_id s)" using specs hit(2) by (simp add: spec_ok_def)
    have reg: "registry_ok fr (cm_routes ?m)" "dget (rg_records (cm_routes ?m)) i = Some r" using assms(1) i by simp_all
    obtain c e where rep: "report_collision fr (rg_owner (cm_routes ?m)) hex cb r plan p current time (os_id s) f ?m
        = (case fst (close_collision cb c ?m) of Inl e \<Rightarrow> Inl e | Inr _ \<Rightarrow> Inr (Some c),
           ?m\<lparr>cm_routes := (cm_routes ?m)\<lparr>rg_records := dset (rg_records (cm_routes ?m)) (rr_id r) (r\<lparr>rr_state := RS_COLLIDED\<rparr>)\<rparr>,
             cm_records := cm_records ?m @ [c], cm_world := cm_world (snd (close_collision cb c ?m))\<rparr>)"
      and c: "c = \<lparr>co_route = rr_id r, co_obstacle = os_id s, co_mission = tp_mission plan, co_uav = tp_uav plan,
        co_version = tp_version plan, co_time = time, co_previous = p, co_current = current,
        co_impact = segment_point p current f, co_fraction = f, co_radius = cm_radius ?m, co_event = e\<rparr>"
      by (rule report_collision_result [OF reg r(1) assms(5,6) r(2) assms(12,13) _ _ len, of "os_id s" time cb f])
        (use \<open>routing_id_match (os_id s)\<close> assms(10,11) in auto)
    have same: "fst (close_collision cb c ?m) = fst (close_collision cb c m)"
      "cm_world (snd (close_collision cb c ?m)) = cm_world (snd (close_collision cb c m))"
      by (simp_all add: close_collision_def split_beta Let_def)
    from run have "(out, m') = report_collision fr (rg_owner (cm_routes ?m)) hex cb r plan p current time (os_id s) f ?m"
      unfolding hit(1) by simp
    then have "out = (case fst (close_collision cb c m) of Inl e \<Rightarrow> Inl e | Inr _ \<Rightarrow> Inr (Some c))"
      and m': "m' = ?m\<lparr>cm_routes := (cm_routes m)\<lparr>rg_records := dset (rg_records (cm_routes m)) (rr_id r) (r\<lparr>rr_state := RS_COLLIDED\<rparr>)\<rparr>,
        cm_records := cm_records m @ [c], cm_world := cm_world (snd (close_collision cb c m))\<rparr>"
      unfolding rep same by simp_all
    then show ?thesis
      unfolding if_P [OF some] using hit(2-4) by (intro conjI exI [of _ c] exI [of _ s]) (simp_all add: c dget_dset)
  qed
qed

section \<open>Runs\<close>

definition books_ok :: "(rat \<Rightarrow> string) \<Rightarrow> 'w collision_monitor \<Rightarrow> bool" where
  "books_ok fr m \<longleftrightarrow> registry_ok fr (cm_routes m) \<and> distinct (map co_route (cm_records m))
     \<and> (\<forall>c \<in> set (cm_records m). \<exists>r. dget (rg_records (cm_routes m)) (co_route c) = Some r \<and> rr_state r = RS_COLLIDED)"

lemma collided_stays:
  assumes "registry_advanced g h" "dget (rg_records g) i = Some r" "rr_state r = RS_COLLIDED"
  shows "\<exists>u. dget (rg_records h) i = Some u \<and> rr_state u = RS_COLLIDED"
proof -
  obtain u where u: "dget (rg_records h) i = Some u" "route_advanced r u"
    using assms(1,2) by (auto simp: registry_advanced_def)
  moreover have "rr_state u = rr_state r"
    using u(2) assms(3) by (intro routes.final_forever) (auto simp: route_advanced_def)
  ultimately show ?thesis using assms(3) by auto
qed

lemma books_advance:
  assumes "books_ok fr m" "registry_ok fr g" "registry_advanced (cm_routes m) g"
  shows "books_ok fr (m\<lparr>cm_routes := g\<rparr>)"
  using assms collided_stays [OF assms(3)] unfolding books_ok_def by fastforce

lemma books_routes_records:
  "cm_routes m' = cm_routes m \<Longrightarrow> cm_records m' = cm_records m \<Longrightarrow> books_ok fr m' = books_ok fr m"
  by (simp add: books_ok_def)

lemma report_collision_books:
  assumes ok: "books_ok fr m" and r: "dget (rg_records (cm_routes m)) i = Some r" "rr_state r = RS_EXECUTING"
    and run: "report_collision fr t hex cb r plan start current time obstacle fraction m = (out, m')"
  shows "books_ok fr m'"
proof -
  obtain moved g where tr: "transition_route fr t (PStr (rr_id r)) (PStr (route_state_value RS_COLLIDED)) (cm_routes m) = (moved, g)"
    by fastforce
  have reg: "registry_ok fr (cm_routes m)" using ok by (simp add: books_ok_def)
  have g: "books_ok fr (m\<lparr>cm_routes := g\<rparr>)"
    using books_advance [OF ok] transition_route_advances [OF reg tr] by blast
  have i: "rr_id r = i" "route_record_ok fr r" using reg r(1) by (auto simp: registry_ok_def)
  show ?thesis
  proof (cases moved)
    case (Inl e)
    then have "m' = m\<lparr>cm_routes := g\<rparr>" using run unfolding report_collision_def tr by (simp add: Let_def)
    then show ?thesis using g by simp
  next
    case (Inr u)
    have "u = r\<lparr>rr_state := RS_COLLIDED\<rparr>" "g = (cm_routes m)\<lparr>rg_records := dset (rg_records (cm_routes m)) i u\<rparr>"
      using tr Inr r(1) i replace_route_eq [OF i(2), of "rr_critique r" RS_COLLIDED]
      unfolding transition_route_def
      by (auto simp: checked_eq_Inr registry_get_def route_record_ok_def split: if_splits simp del: route_state_value.simps)
    then have u: "rr_state u = RS_COLLIDED" "dget (rg_records g) i = Some u" by (simp_all add: dget_dset)
    have new: "i \<notin> co_route ` set (cm_records m)"
    proof
      assume "i \<in> co_route ` set (cm_records m)"
      then obtain r' where "dget (rg_records (cm_routes m)) i = Some r'" "rr_state r' = RS_COLLIDED"
        using ok by (auto simp: books_ok_def)
      then show False using r by simp
    qed
    consider "m' = m\<lparr>cm_routes := g\<rparr>"
      | c w where "m' = m\<lparr>cm_routes := g, cm_records := cm_records m @ [c], cm_world := w\<rparr>" "co_route c = i"
      using run u(1) unfolding report_collision_def tr Inr
      by (auto simp: Let_def close_collision_updated close_collision_def i(1) split: checked_split_asm prod.splits)
        (auto simp: checked_def andthen_def split: sum.splits prod.splits if_splits)
    then show ?thesis
    proof cases
      case 1
      then show ?thesis using g by simp
    next
      case 2
      then show ?thesis using g new u by (auto simp: books_ok_def)
    qed
  qed
qed

lemma monitor_observe_books:
  assumes "books_ok fr m" and "monitor_observe fr t hex cb pos ts m = (out, m')"
  shows "books_ok fr m'"
proof -
  have tracked: "books_ok fr m'" if "cm_routes m' = cm_routes m" "cm_records m' = cm_records m" for m'
    using assms(1) that by (simp add: books_ok_def)
  have reported: "books_ok fr (snd (report_collision fr t hex cb r plan a b c d e m'))"
    if act: "active_executing_route (cm_routes m) (cb_view cb (cm_world m)) = Inr (Some (r, plan))"
      and same: "cm_routes m' = cm_routes m" "cm_records m' = cm_records m"
    for r plan a b c d e m'
  proof -
    obtain i where "dget (rg_records (cm_routes m)) i = Some r" using active_route(1) [OF act] by blast
    then show ?thesis
      using active_route(2) [OF act] same(1)
      by (intro report_collision_books [OF tracked [OF same] _ _ prod.collapse [symmetric], where i = i]) simp_all
  qed
  have "books_ok fr (snd (monitor_observe fr t hex cb pos ts m))"
    unfolding monitor_observe_def Let_def
    using assms(1) by (auto intro!: checked_keeps [where P = "books_ok fr"] simp: clear_tracking_def split: option.split)
      (rule tracked reported; simp)+
  then show ?thesis using assms(2) by simp
qed

inductive monitor_step :: "(rat \<Rightarrow> string) \<Rightarrow> 'w collision_monitor \<Rightarrow> 'w collision_monitor \<Rightarrow> bool" for fr where
  observed: "monitor_observe fr t hex cb pos ts m = (out, m') \<Longrightarrow> monitor_step fr m m'"
| monitor_was_reset: "monitor_step fr m (monitor_reset m)"
| routes_used: "route_step fr (cm_routes m) g \<Longrightarrow> monitor_step fr m (m\<lparr>cm_routes := g\<rparr>)"
| world_moved: "monitor_step fr m (m\<lparr>cm_world := w\<rparr>)"

lemma monitor_step_books:
  assumes "monitor_step fr m m'" "books_ok fr m"
  shows "books_ok fr m'"
  using assms
proof (cases rule: monitor_step.cases)
  case (observed t hex cb pos ts out)
  then show ?thesis using monitor_observe_books assms(2) by blast
next
  case monitor_was_reset
  then show ?thesis using assms(2) by (simp add: monitor_reset_def clear_tracking_def books_ok_def)
next
  case (routes_used g)
  then have "registry_ok fr g \<and> registry_advanced (cm_routes m) g"
    using route_steps_advance [OF r_into_rtranclp] assms(2) by (auto simp: books_ok_def)
  then show ?thesis using books_advance assms(2) routes_used(1) by blast
next
  case (world_moved w)
  then show ?thesis using assms(2) by (simp add: books_ok_def)
qed

text \<open>
  C37. Whatever positions are observed, whatever the callbacks do and whoever else uses the route registry, a
  route has at most one recorded collision since the last reset, and every recorded route is and stays
  in the state COLLIDED.
\<close>

theorem collisions_recorded_once:
  assumes "route_registry_init owner limit = Inr g0" and "monitor_init obstacles g0 w radius = Inr m0"
    and "(monitor_step fr)\<^sup>*\<^sup>* m0 m"
  shows "distinct (map co_route (cm_records m))
    \<and> (\<forall>c \<in> set (cm_records m). \<exists>r. dget (rg_records (cm_routes m)) (co_route c) = Some r \<and> rr_state r = RS_COLLIDED)"
proof -
  have "books_ok fr m0"
    using assms(2) route_registry_init_ok [OF assms(1)] by (auto simp: monitor_init_def books_ok_def rbind_eq_Inr split: if_splits)
  with assms(3) have "books_ok fr m" by (induction rule: rtranclp_induct) (auto intro: monitor_step_books)
  then show ?thesis by (simp add: books_ok_def)
qed


section \<open>A wall on the way\<close>

definition example_wall :: obstacle_spec where
  "example_wall = \<lparr>os_id = ''wall'', os_center = [2, 0, 1], os_size = [1, 1, 1], os_color = [0, 0, 0],
     os_collidable = True, os_motion = MS_STATIC\<rparr>"

definition example_scene :: obstacle_registry where
  "example_scene = \<lparr>or_specs = [example_wall], or_by_id = [(''wall'', example_wall)],
     or_aabbs = [(''wall'', spec_box example_wall)]\<rparr>"

definition example_following :: task_plan where
  "example_following = \<lparr>tp_steps = [\<lparr>ts_id = ''s1'', ts_skill = SK_FOLLOW_ROUTE,
     ts_params = [(''route_ref'', PStr ''r1'')], ts_recovery = None\<rparr>],
     tp_mission = ''m1'', tp_uav = ''u1'', tp_version = 1\<rparr>"

text \<open>A manager that follows the route and whose \<open>cancel_task\<close> raises.\<close>

definition example_callbacks :: "unit monitor_callbacks" where
  "example_callbacks = \<lparr>cb_view = (\<lambda>_. \<lparr>mv_status = Some ''RUNNING'', mv_active = Some ''FOLLOW_ROUTE'',
       mv_step = Some ''s1'', mv_plan = Some example_following, mv_uav = Some ''u1''\<rparr>),
     cb_cancel = (\<lambda>_. (True, ())), cb_event = None, cb_collision = None\<rparr>"

definition example_flown :: route_record where
  "example_flown = example_record\<lparr>rr_critique := Some example_verdict, rr_state := RS_EXECUTING\<rparr>"

definition example_monitor :: "route_record list \<Rightarrow> unit collision_monitor" where
  "example_monitor rs = \<lparr>cm_obstacles = example_scene, cm_routes = example_registry rs, cm_world = (),
     cm_radius = 1 / 2, cm_tracked = None, cm_previous = None, cm_timestamp = None, cm_records = []\<rparr>"

definition example_tracking :: "unit collision_monitor" where
  "example_tracking = (example_monitor [example_flown])
     \<lparr>cm_tracked := Some ''r1'', cm_previous := Some [0, 0, 1], cm_timestamp := Some 3\<rparr>"

abbreviation example_hex :: string where
  "example_hex \<equiv> ''0123456789abcdef0123456789abcdef''"

definition example_observe :: "rat list \<Rightarrow> rat \<Rightarrow> unit collision_monitor \<Rightarrow> route_collision option result \<times> unit collision_monitor" where
  "example_observe p t = monitor_observe (\<lambda>_. ''0.0'') 7 example_hex example_callbacks (PTuple (map pfloat p)) (pfloat t)"

lemma example_names:
  "routing_id_match ''r1''" "routing_id_match ''m1''" "routing_id_match ''u1''" "routing_id_match ''wall''"
  "short_floats (\<lambda>_. ''0.0'')" "uuid_hex example_hex"
  by (code_simp, code_simp, code_simp, code_simp, simp add: short_floats_def, simp add: uuid_hex_def)

lemma example_flown_ok: "registry_ok (\<lambda>_. ''0.0'') (example_registry [example_flown])"
  using example_payload example_names(1)
  by (simp add: registry_ok_def example_registry_def route_record_ok_def verdict_ok_def
      example_flown_def example_record_def example_route_def example_verdict_def)

lemma example_active:
  "active_executing_route (example_registry [example_flown]) (cb_view example_callbacks w) = Inr (Some (example_flown, example_following))"
  using example_names(1)
  by (simp add: active_executing_route_def example_callbacks_def example_following_def registry_get_def
      example_registry_def example_flown_def example_record_def)

lemma example_wall_ok: "spec_ok example_wall"
  using example_names(4) by (auto simp: spec_ok_def example_wall_def nth_Cons split: nat.splits)

lemma example_specs: "or_specs example_scene = [example_wall]" "collidable_specs example_scene = [example_wall]"
  by (simp_all add: example_scene_def collidable_specs_def example_wall_def)

lemma example_touches: "touches (1 / 2) [0, 0, 1] [3, 0, 1] example_wall (1 / 3)"
  by code_simp

theorem observation_sweeps_path_witness:
  "\<exists>c. cm_records (snd (example_observe [3, 0, 1] 4 example_tracking)) = [c] \<and> co_obstacle c = ''wall''
     \<and> co_fraction c \<le> 1 / 3
     \<and> fst (example_observe [3, 0, 1] 4 example_tracking)
         = Inl (RouteCollisionMonitorError ''route collision was recorded but a closure callback failed'')"
proof -
  let ?m = example_tracking
  have m: "cm_routes ?m = example_registry [example_flown]" "cm_obstacles ?m = example_scene" "cm_radius ?m = 1 / 2"
    "cm_tracked ?m = Some ''r1''" "cm_previous ?m = Some [0, 0, 1]" "cm_timestamp ?m = Some 3" "cm_records ?m = []"
    by (simp_all add: example_tracking_def example_monitor_def)
  have wall: "os_id example_wall = ''wall''" by (simp add: example_wall_def)
  have rid: "rr_id example_flown = ''r1''" by (simp add: example_flown_def example_record_def)
  note specs = example_specs
  have "monitor_observe (\<lambda>_. ''0.0'') (rg_owner (cm_routes ?m)) example_hex example_callbacks
      (PTuple (map pfloat [3, 0, 1])) (pfloat 4) ?m = (fst (example_observe [3, 0, 1] 4 ?m), snd (example_observe [3, 0, 1] 4 ?m))"
    by (simp add: m example_registry_def example_observe_def)
  moreover have "\<forall>s \<in> set (or_specs (cm_obstacles ?m)). spec_ok s" by (simp add: m specs example_wall_ok)
  moreover have "registry_ok (\<lambda>_. ''0.0'') (cm_routes ?m)" by (simp add: m example_flown_ok)
  moreover have "active_executing_route (cm_routes ?m) (cb_view example_callbacks (cm_world ?m)) = Inr (Some (example_flown, example_following))"
    by (simp add: m example_active)
  ultimately have "\<exists>c. cm_records (snd (example_observe [3, 0, 1] 4 ?m)) = [c] \<and> co_obstacle c = ''wall''
      \<and> (\<forall>t < co_fraction c. \<not> touches (1 / 2) [0, 0, 1] [3, 0, 1] example_wall t)
      \<and> fst (example_observe [3, 0, 1] 4 ?m) = (case fst (close_collision example_callbacks c ?m) of Inl e \<Rightarrow> Inl e | Inr _ \<Rightarrow> Inr (Some c))"
    using observation_sweeps_path [where m = ?m and r = example_flown and plan = example_following and p = "[0, 0, 1]"
        and ?t0.0 = 3 and time = 4 and fr = "\<lambda>_. ''0.0''" and hex = example_hex and cb = example_callbacks
        and current = "[3, 0, 1]" and out = "fst (example_observe [3, 0, 1] 4 ?m)" and m' = "snd (example_observe [3, 0, 1] 4 ?m)"]
      example_names example_touches
    by (auto simp: m specs example_following_def rid wall split: if_split_asm)
  then show ?thesis
    using example_touches by (auto simp: close_collision_def example_callbacks_def not_less [symmetric])
qed

lemma example_steps:
  "transition_route (\<lambda>_. ''0.0'') 7 (PStr ''r1'') (PStr (route_state_value RS_EXECUTING))
     (example_registry [example_record\<lparr>rr_critique := Some example_verdict, rr_state := RS_ACCEPTED\<rparr>])
   = (Inr example_flown, example_registry [example_flown])"
  "example_observe [0, 0, 1] 3 (example_monitor [example_flown]) = (Inr None, example_tracking)"
proof -
  have "route_record_ok (\<lambda>_. ''0.0'') (example_record\<lparr>rr_critique := Some example_verdict, rr_state := RS_ACCEPTED\<rparr>)"
    using example_payload example_names(1) by (simp add: route_record_ok_def example_record_def example_route_def)
  from replace_route_eq [OF this] example_names(1)
  show "transition_route (\<lambda>_. ''0.0'') 7 (PStr ''r1'') (PStr (route_state_value RS_EXECUTING))
     (example_registry [example_record\<lparr>rr_critique := Some example_verdict, rr_state := RS_ACCEPTED\<rparr>])
   = (Inr example_flown, example_registry [example_flown])"
    by (simp add: transition_route_def example_registry_def require_owner_def registry_get_def example_flown_def
        example_record_def del: route_state_value.simps)
  have "first_collision (1 / 2) [0, 0, 1] [0, 0, 1] [example_wall] None = Inr None" by code_simp
  moreover have "monitor_xyz ''position_world_m'' (PTuple (map pfloat [0, 0, 1])) = Inr [0, 0, 1]"
    by (rule monitor_floats(1)) simp
  ultimately show "example_observe [0, 0, 1] 3 (example_monitor [example_flown]) = (Inr None, example_tracking)"
    using example_active example_specs
    by (simp add: example_observe_def monitor_observe_def monitor_nonnegative_def monitor_number_def example_monitor_def
        example_tracking_def example_flown_def example_record_def)
qed

theorem collisions_recorded_once_witness:
  "distinct (map co_route (cm_records (snd (example_observe [3, 0, 1] 4 example_tracking))))"
proof -
  have init: "route_registry_init 7 (PInt 1) = Inr (example_registry [])"
    "monitor_init example_scene (example_registry []) () (pfloat (1 / 2)) = Inr (example_monitor [])"
    by (simp_all add: route_registry_init_def example_registry_def int_value_def monitor_init_def monitor_number_def example_monitor_def)
  have routes: "monitor_step (\<lambda>_. ''0.0'') (example_monitor rs) (example_monitor rs')"
    if "route_step (\<lambda>_. ''0.0'') (example_registry rs) (example_registry rs')" for rs rs'
    using monitor_step.routes_used [of _ "example_monitor rs"] that by (simp add: example_monitor_def)
  have "(monitor_step (\<lambda>_. ''0.0''))\<^sup>*\<^sup>* (example_monitor []) (snd (example_observe [3, 0, 1] 4 example_tracking))"
    using routes [OF route_registered [OF example_register]] routes [OF route_critiqued [OF example_critique]]
      routes [OF route_transitioned [OF example_steps(1)]]
      monitor_step.observed [OF example_steps(2) [unfolded example_observe_def]]
      monitor_step.observed [OF prod.collapse [symmetric, of "example_observe [3, 0, 1] 4 example_tracking", unfolded example_observe_def]]
    unfolding example_observe_def by (meson converse_rtranclp_into_rtranclp rtranclp.rtrancl_refl)
  from collisions_recorded_once [OF init this] show ?thesis by simp
qed

end
