(* ===== verification/Target_Lifecycle.thy ===== *)
theory Target_Lifecycle
  imports Spatial_Contract
begin

text \<open>
  \<open>target/types.py\<close>, \<open>common/provenance.py\<close> and \<open>target/target_manager.py\<close>: the description of the target
  of a mission and the manager of its lifecycle, which knows neither frames nor detectors.

  A sequence is a list or a tuple.  The manager keeps a \<open>TargetSnapshot\<close> of the tracked target while a new
  candidate is examined.  \<open>fr\<close> is \<open>float.__repr__\<close>, used in two messages only.
\<close>

section \<open>Checks\<close>

datatype target_lifecycle =
    TL_UNINITIALIZED | TL_SEARCHING | TL_CANDIDATE | TL_LOCKED | TL_TRACKING | TL_LOST | TL_REACQUIRING
  | TL_TERMINATED

fun lifecycle_value :: "target_lifecycle \<Rightarrow> string" where
  "lifecycle_value TL_UNINITIALIZED = ''UNINITIALIZED''"
| "lifecycle_value TL_SEARCHING = ''SEARCHING''"
| "lifecycle_value TL_CANDIDATE = ''CANDIDATE''"
| "lifecycle_value TL_LOCKED = ''LOCKED''"
| "lifecycle_value TL_TRACKING = ''TRACKING''"
| "lifecycle_value TL_LOST = ''LOST''"
| "lifecycle_value TL_REACQUIRING = ''REACQUIRING''"
| "lifecycle_value TL_TERMINATED = ''TERMINATED''"

definition non_empty_string :: "string \<Rightarrow> pyval \<Rightarrow> string result" where
  "non_empty_string name v =
     (case v of
        PStr s \<Rightarrow> if py_strip s = [] then Inl (ValueError (name @ '' must be non-empty'')) else Inr (py_strip s)
      | _ \<Rightarrow> Inl (TypeError (name @ '' must be a string'')))"

definition finite_number :: "string \<Rightarrow> pyval \<Rightarrow> rat result" where
  "finite_number name =
     real_value (TypeError (name @ '' must be a finite number'')) (ValueError (name @ '' must be a finite number''))
       (\<lambda>_. True)"

text \<open>The three components of a sequence, each checked by \<open>check\<close>.\<close>

definition vector3_or_none :: "(string \<Rightarrow> pyval \<Rightarrow> rat result) \<Rightarrow> string \<Rightarrow> pyval \<Rightarrow> rat list option result" where
  "vector3_or_none check name v =
     (let components = (\<lambda>xs. if length xs \<noteq> 3
            then Inl (ValueError (name @ '' must contain exactly three finite numbers''))
            else rbind (rmap (\<lambda>(i, x). check (item_name name i) x) (enumerate 0 xs)) (\<lambda>p. Inr (Some p)))
      in case v of
           PNone \<Rightarrow> Inr None
         | PList xs \<Rightarrow> components xs
         | PTuple xs \<Rightarrow> components xs
         | _ \<Rightarrow> Inl (ValueError (name @ '' must contain exactly three finite numbers'')))"

definition optional_vector3 :: "string \<Rightarrow> pyval \<Rightarrow> rat list option result" where
  "optional_vector3 = vector3_or_none finite_number"

definition optional_confidence :: "string \<Rightarrow> pyval \<Rightarrow> rat option result" where
  "optional_confidence name v =
     opt_check (\<lambda>v. rbind (finite_number name v) (\<lambda>x.
       if \<not> (0 \<le> x \<and> x \<le> 1) then Inl (ValueError (name @ '' must be between 0 and 1 inclusive'')) else Inr x)) v"

definition optional_non_empty_string :: "string \<Rightarrow> pyval \<Rightarrow> string option result" where
  "optional_non_empty_string name v = opt_check (non_empty_string name) v"

definition TARGET_TEXT_MAX_LENGTH :: nat where "TARGET_TEXT_MAX_LENGTH = 512"

definition TARGET_LIST_MAX_ITEMS :: nat where "TARGET_LIST_MAX_ITEMS = 32"

definition target_text :: "string \<Rightarrow> pyval \<Rightarrow> string result" where
  "target_text name v =
     rbind (non_empty_string name v) (\<lambda>s.
       if length s > TARGET_TEXT_MAX_LENGTH
       then Inl (ValueError (name @ '' must contain at most '' @ decimal TARGET_TEXT_MAX_LENGTH @ '' characters''))
       else Inr s)"

definition text_tuple :: "string \<Rightarrow> pyval \<Rightarrow> string list result" where
  "text_tuple name v =
     (let texts = (\<lambda>xs.
            if length xs > TARGET_LIST_MAX_ITEMS
            then Inl (ValueError (name @ '' must contain at most '' @ decimal TARGET_LIST_MAX_ITEMS @ '' items''))
            else rbind (rmap (\<lambda>(i, x). target_text (item_name name i) x) (enumerate 0 xs)) (\<lambda>ts.
              if \<not> distinct ts then Inl (ValueError (name @ '' must not contain duplicate items'')) else Inr ts))
      in case v of
           PNone \<Rightarrow> Inr []
         | PList xs \<Rightarrow> texts xs
         | PTuple xs \<Rightarrow> texts xs
         | _ \<Rightarrow> Inl (TypeError (name @ '' must be a sequence of strings'')))"

text \<open>
  \<open>is_privileged_oracle_source\<close>.  \<open>str.casefold\<close> on code points below 256: the micro sign folds to a
  letter above them, which no marker contains, and stays itself here.
\<close>

definition casefold_char :: "char \<Rightarrow> string" where
  "casefold_char c = (let n = of_char c :: nat
     in if 65 \<le> n \<and> n \<le> 90 \<or> 192 \<le> n \<and> n \<le> 222 \<and> n \<noteq> 215 then [char_of (n + 32)]
        else if n = 223 then ''ss'' else [c])"

definition contains_text :: "string \<Rightarrow> string \<Rightarrow> bool" where
  "contains_text s marker = list_ex (\<lambda>i. take (length marker) (drop i s) = marker) [0..<Suc (length s)]"

definition privileged_markers :: "string list" where
  "privileged_markers = [''oracle'', ''ground_truth'', ''groundtruth'', ''sim_truth'', ''simulator_truth'']"

definition is_privileged_oracle_source :: "string \<Rightarrow> bool" where
  "is_privileged_oracle_source s =
     (let normalized = map (\<lambda>c. if c = CHR ''-'' \<or> c = CHR '' '' then CHR ''_'' else c)
            (concat (map casefold_char (py_strip s)))
      in list_ex (contains_text normalized) privileged_markers)"

section \<open>The description of a target\<close>

record target_spec =
  td_original :: string
  td_category :: string
  td_hard :: "string list"
  td_soft :: "string list"
  td_negative :: "string list"
  td_relation :: "string list"
  td_ladder :: "string list"
  td_questions :: "string list"
  td_identity :: string
  td_notes :: "string list"

text \<open>The field \<open>description\<close> always equals \<open>original_description\<close>.\<close>

definition td_description :: "target_spec \<Rightarrow> string" where
  "td_description s = td_original s"

definition original_of :: "pyval \<Rightarrow> pyval \<Rightarrow> pyval result" where
  "original_of original description =
     (if original = PNone then Inr description
      else if description = PNone then Inr original
      else rbind (target_text ''TargetSpec.description'' description) (\<lambda>d.
           rbind (target_text ''TargetSpec.original_description'' original) (\<lambda>t.
             if d \<noteq> t then Inl (ValueError ''description and original_description must match when both are set'')
             else Inr original)))"

definition TargetSpec ::
  "pyval \<Rightarrow> pyval \<Rightarrow> pyval \<Rightarrow> pyval \<Rightarrow> pyval \<Rightarrow> pyval \<Rightarrow> pyval \<Rightarrow> pyval \<Rightarrow> pyval \<Rightarrow> pyval \<Rightarrow> pyval
     \<Rightarrow> target_spec result" where
  "TargetSpec original category hard soft negative relation ladder questions identity notes description =
     rbind (original_of original description) (\<lambda>original.
     if original = PNone then Inl (TypeError ''TargetSpec requires original_description'')
     else
       rbind (target_text ''TargetSpec.original_description'' original) (\<lambda>original.
       rbind (if identity = PNone then Inr original
              else target_text ''TargetSpec.immutable_identity_summary'' identity) (\<lambda>identity.
       rbind (target_text ''TargetSpec.category'' category) (\<lambda>category.
       rbind (text_tuple ''hard_attributes'' hard) (\<lambda>hard.
       rbind (text_tuple ''soft_attributes'' soft) (\<lambda>soft.
       rbind (text_tuple ''negative_constraints'' negative) (\<lambda>negative.
       rbind (text_tuple ''relation_constraints'' relation) (\<lambda>relation.
       rbind (text_tuple ''query_ladder'' ladder) (\<lambda>ladder.
       rbind (text_tuple ''inspection_questions'' questions) (\<lambda>questions.
       rbind (text_tuple ''mutable_appearance_notes'' notes) (\<lambda>notes.
         Inr \<lparr>td_original = original, td_category = category, td_hard = hard, td_soft = soft,
           td_negative = negative, td_relation = relation, td_ladder = ladder, td_questions = questions,
           td_identity = identity, td_notes = notes\<rparr>)))))))))))"

abbreviation text_values :: "string list \<Rightarrow> pyval" where
  "text_values xs \<equiv> PTuple (map PStr xs)"

text \<open>\<open>dataclasses.replace\<close> calls the constructor with every field, \<open>description\<close> included.\<close>

definition with_mutable_appearance_notes :: "target_spec \<Rightarrow> pyval \<Rightarrow> target_spec result" where
  "with_mutable_appearance_notes s notes =
     rbind (text_tuple ''TargetSpec.mutable_appearance_notes'' notes) (\<lambda>notes.
       TargetSpec (PStr (td_original s)) (PStr (td_category s)) (text_values (td_hard s)) (text_values (td_soft s))
         (text_values (td_negative s)) (text_values (td_relation s)) (text_values (td_ladder s))
         (text_values (td_questions s)) (PStr (td_identity s)) (text_values notes) (PStr (td_description s)))"

definition append_appearance_note :: "target_spec \<Rightarrow> pyval \<Rightarrow> target_spec result" where
  "append_appearance_note s note =
     rbind (target_text ''TargetSpec.mutable_appearance_note'' note) (\<lambda>note.
       if note \<in> set (td_notes s) then Inr s
       else with_mutable_appearance_notes s (text_values (td_notes s @ [note])))"

definition serialized_fields :: "string list" where
  "serialized_fields =
     [''original_description'', ''category'', ''hard_attributes'', ''soft_attributes'', ''negative_constraints'',
      ''relation_constraints'', ''query_ladder'', ''inspection_questions'', ''immutable_identity_summary'',
      ''mutable_appearance_notes'']"

definition target_spec_from_dict :: "pyval \<Rightarrow> target_spec result" where
  "target_spec_from_dict data =
     (case data of
        PDict d \<Rightarrow>
          (case string_keys d of
             None \<Rightarrow> Inl (TypeError ''TargetSpec field names must be strings'')
           | Some e \<Rightarrow>
               let unknown = filter (\<lambda>k. k \<notin> set serialized_fields) (dkeys e);
                   missing = filter (\<lambda>k. k \<notin> set (dkeys e)) serialized_fields;
                   item = (\<lambda>k. case dget e k of Some v \<Rightarrow> v | None \<Rightarrow> PNone)
               in if unknown \<noteq> []
                  then Inl (ValueError (''TargetSpec contains unknown fields: '' @ py_join '', '' (sort unknown)))
                  else if missing \<noteq> []
                  then Inl (ValueError (''TargetSpec is missing required fields: '' @ py_join '', '' (sort missing)))
                  else TargetSpec (item ''original_description'') (item ''category'') (item ''hard_attributes'')
                    (item ''soft_attributes'') (item ''negative_constraints'') (item ''relation_constraints'')
                    (item ''query_ladder'') (item ''inspection_questions'') (item ''immutable_identity_summary'')
                    (item ''mutable_appearance_notes'') PNone)
      | _ \<Rightarrow> Inl (TypeError ''TargetSpec input must be a mapping''))"

definition target_spec_to_dict :: "target_spec \<Rightarrow> (string \<times> pyval) list" where
  "target_spec_to_dict s =
     [(''original_description'', PStr (td_original s)), (''category'', PStr (td_category s)),
      (''hard_attributes'', PList (map PStr (td_hard s))), (''soft_attributes'', PList (map PStr (td_soft s))),
      (''negative_constraints'', PList (map PStr (td_negative s))),
      (''relation_constraints'', PList (map PStr (td_relation s))),
      (''query_ladder'', PList (map PStr (td_ladder s))),
      (''inspection_questions'', PList (map PStr (td_questions s))),
      (''immutable_identity_summary'', PStr (td_identity s)),
      (''mutable_appearance_notes'', PList (map PStr (td_notes s)))]"

section \<open>Snapshots and events\<close>

record target_snapshot =
  sn_id :: "string option"
  sn_description :: string
  sn_lifecycle :: target_lifecycle
  sn_confidence :: "rat option"
  sn_position :: "rat list option"
  sn_velocity :: "rat list option"
  sn_time :: "rat option"
  sn_source :: "string option"

definition TargetSnapshot ::
  "pyval \<Rightarrow> pyval \<Rightarrow> target_lifecycle \<Rightarrow> pyval \<Rightarrow> pyval \<Rightarrow> pyval \<Rightarrow> pyval \<Rightarrow> pyval \<Rightarrow> target_snapshot result" where
  "TargetSnapshot target description lifecycle confidence position velocity time source =
     rbind (non_empty_string ''TargetSnapshot.description'' description) (\<lambda>description.
     rbind (optional_non_empty_string ''TargetSnapshot.target_id'' target) (\<lambda>target.
     rbind (optional_confidence ''TargetSnapshot.confidence'' confidence) (\<lambda>confidence.
     rbind (optional_vector3 ''TargetSnapshot.last_seen_position'' position) (\<lambda>position.
     rbind (optional_vector3 ''TargetSnapshot.last_seen_velocity'' velocity) (\<lambda>velocity.
     rbind (opt_check (finite_number ''TargetSnapshot.last_seen_time_s'') time) (\<lambda>time.
     rbind (optional_non_empty_string ''TargetSnapshot.source'' source) (\<lambda>source.
       if lifecycle = TL_UNINITIALIZED
          \<and> (target \<noteq> None \<or> confidence \<noteq> None \<or> position \<noteq> None \<or> velocity \<noteq> None \<or> time \<noteq> None \<or> source \<noteq> None)
       then Inl (ValueError ''UNINITIALIZED target snapshot cannot contain target data'')
       else Inr \<lparr>sn_id = target, sn_description = description, sn_lifecycle = lifecycle, sn_confidence = confidence,
              sn_position = position, sn_velocity = velocity, sn_time = time, sn_source = source\<rparr>)))))))"

definition snapshot_fields :: "target_snapshot \<Rightarrow> (string \<times> pyval) list" where
  "snapshot_fields s =
     [(''target_id'', opt_pyval PStr (sn_id s)), (''description'', PStr (sn_description s)),
      (''lifecycle'', PStr (lifecycle_value (sn_lifecycle s))), (''confidence'', opt_pyval pfloat (sn_confidence s)),
      (''last_seen_position'', opt_pyval point_list (sn_position s)),
      (''last_seen_velocity'', opt_pyval point_list (sn_velocity s)),
      (''last_seen_time_s'', opt_pyval pfloat (sn_time s)), (''source'', opt_pyval PStr (sn_source s))]"

record target_event =
  te_time :: rat
  te_old :: target_lifecycle
  te_new :: target_lifecycle
  te_reason :: string

definition TargetEvent :: "pyval \<Rightarrow> target_lifecycle \<Rightarrow> target_lifecycle \<Rightarrow> pyval \<Rightarrow> target_event result" where
  "TargetEvent time old new reason =
     rbind (finite_number ''TargetEvent.timestamp_s'' time) (\<lambda>time.
     if old = new then Inl (ValueError ''TargetEvent must change lifecycle state'')
     else rbind (non_empty_string ''TargetEvent.reason'' reason) (\<lambda>reason.
       Inr \<lparr>te_time = time, te_old = old, te_new = new, te_reason = reason\<rparr>))"

definition target_event_to_dict :: "target_event \<Rightarrow> (string \<times> pyval) list" where
  "target_event_to_dict e =
     [(''timestamp_s'', pfloat (te_time e)), (''old_state'', PStr (lifecycle_value (te_old e))),
      (''new_state'', PStr (lifecycle_value (te_new e))), (''reason'', PStr (te_reason e))]"

section \<open>The manager\<close>

record target_manager =
  tm_lifecycle :: target_lifecycle
  tm_description :: string
  tm_spec :: "target_spec option"
  tm_id :: "string option"
  tm_confidence :: "rat option"
  tm_position :: "rat list option"
  tm_velocity :: "rat list option"
  tm_seen :: "rat option"
  tm_source :: "string option"
  tm_restore :: "target_snapshot option"
  tm_clock :: "rat option"
  tm_events :: "target_event list"

definition active_states :: "target_lifecycle list" where
  "active_states = [TL_SEARCHING, TL_CANDIDATE, TL_LOCKED, TL_TRACKING, TL_LOST, TL_REACQUIRING]"

definition terminatable_states :: "target_lifecycle list" where
  "terminatable_states = active_states @ [TL_UNINITIALIZED]"

definition forget_target :: "target_manager \<Rightarrow> target_manager" where
  "forget_target m = m\<lparr>tm_id := None, tm_confidence := None, tm_position := None, tm_velocity := None,
     tm_seen := None, tm_source := None\<rparr>"

definition target_manager_init :: target_manager where
  "target_manager_init = \<lparr>tm_lifecycle = TL_UNINITIALIZED, tm_description = ''uninitialized'', tm_spec = None,
     tm_id = None, tm_confidence = None, tm_position = None, tm_velocity = None, tm_seen = None,
     tm_source = None, tm_restore = None, tm_clock = None, tm_events = []\<rparr>"

definition manager_snapshot :: "target_manager \<Rightarrow> target_snapshot result" where
  "manager_snapshot m =
     TargetSnapshot (opt_pyval PStr (tm_id m)) (PStr (tm_description m)) (tm_lifecycle m)
       (opt_pyval pfloat (tm_confidence m)) (opt_pyval point_list (tm_position m))
       (opt_pyval point_list (tm_velocity m)) (opt_pyval pfloat (tm_seen m)) (opt_pyval PStr (tm_source m))"

definition validated_transition ::
  "(rat \<Rightarrow> string) \<Rightarrow> target_lifecycle \<Rightarrow> pyval \<Rightarrow> target_lifecycle list \<Rightarrow> target_manager \<Rightarrow> rat result" where
  "validated_transition fr new time allowed m =
     (if tm_lifecycle m \<notin> set allowed
      then Inl (TargetStateError (''cannot transition '' @ lifecycle_value (tm_lifecycle m) @ '' -> ''
        @ lifecycle_value new @ ''; expected one of: '' @ py_join '', '' (sort (map lifecycle_value allowed))))
      else rbind (finite_number ''timestamp_s'' time) (\<lambda>time.
        case tm_clock m of
          Some clock \<Rightarrow> if time < clock
            then Inl (TargetStateError (''timestamp_s cannot move backward: '' @ fr time @ '' < '' @ fr clock))
            else Inr time
        | None \<Rightarrow> Inr time))"

record observation_values =
  ob_id :: string
  ob_confidence :: "rat option"
  ob_source :: string
  ob_position :: "rat list option"
  ob_velocity :: "rat list option"

definition validated_observation_values ::
  "pyval \<Rightarrow> pyval \<Rightarrow> pyval \<Rightarrow> pyval \<Rightarrow> pyval \<Rightarrow> observation_values result" where
  "validated_observation_values target confidence source position velocity =
     rbind (non_empty_string ''target_id'' target) (\<lambda>target.
     rbind (optional_confidence ''confidence'' confidence) (\<lambda>confidence.
     rbind (optional_non_empty_string ''source'' source) (\<lambda>source.
       case source of
         None \<Rightarrow> Inl (ValueError ''source must be non-empty'')
       | Some source \<Rightarrow>
           rbind (optional_vector3 ''last_seen_position'' position) (\<lambda>position.
           rbind (optional_vector3 ''last_seen_velocity'' velocity) (\<lambda>velocity.
             Inr \<lparr>ob_id = target, ob_confidence = confidence, ob_source = source, ob_position = position,
               ob_velocity = velocity\<rparr>)))))"

definition apply_observation_values :: "observation_values \<Rightarrow> rat \<Rightarrow> target_manager \<Rightarrow> target_manager" where
  "apply_observation_values v time m =
     m\<lparr>tm_id := Some (ob_id v), tm_confidence := ob_confidence v, tm_source := Some (ob_source v),
       tm_position := (if ob_position v = None then tm_position m else ob_position v),
       tm_velocity := (if ob_velocity v = None then tm_velocity m else ob_velocity v),
       tm_seen := Some time\<rparr>"

definition commit_transition :: "target_lifecycle \<Rightarrow> rat \<Rightarrow> string \<Rightarrow> target_manager \<Rightarrow> unit result \<times> target_manager" where
  "commit_transition new time reason m =
     checked m (TargetEvent (pfloat time) (tm_lifecycle m) new (PStr reason)) (\<lambda>e.
       (Inr (), m\<lparr>tm_lifecycle := new, tm_clock := Some time, tm_events := tm_events m @ [e]\<rparr>))"

definition update_mutable_appearance_notes :: "pyval \<Rightarrow> target_manager \<Rightarrow> target_spec result \<times> target_manager" where
  "update_mutable_appearance_notes notes m =
     (if tm_lifecycle m \<notin> set active_states
      then (Inl (TargetStateError ''appearance notes require an active target lifecycle''), m)
      else case tm_spec m of
        None \<Rightarrow> (Inl (TargetStateError ''active target has no TargetSpec''), m)
      | Some spec \<Rightarrow>
          checked m (with_mutable_appearance_notes spec notes) (\<lambda>updated.
            if td_original updated \<noteq> td_original spec \<or> td_identity updated \<noteq> td_identity spec
            then (Inl (TargetStateError ''appearance update attempted to change identity''), m)
            else (Inr updated, m\<lparr>tm_spec := Some updated\<rparr>)))"

definition start_search :: "(rat \<Rightarrow> string) \<Rightarrow> target_spec \<Rightarrow> pyval \<Rightarrow> target_manager \<Rightarrow> unit result \<times> target_manager" where
  "start_search fr spec time m =
     checked m (validated_transition fr TL_SEARCHING time [TL_UNINITIALIZED] m) (\<lambda>time.
       commit_transition TL_SEARCHING time ''search_started''
         ((forget_target m)\<lparr>tm_description := td_description spec, tm_spec := Some spec, tm_restore := None\<rparr>))"

definition set_candidate ::
  "(rat \<Rightarrow> string) \<Rightarrow> pyval \<Rightarrow> pyval \<Rightarrow> pyval \<Rightarrow> pyval \<Rightarrow> pyval \<Rightarrow> pyval \<Rightarrow> target_manager
     \<Rightarrow> unit result \<times> target_manager" where
  "set_candidate fr target time confidence source position velocity m =
     checked m (if tm_lifecycle m = TL_REACQUIRING
                then rbind (manager_snapshot m) (\<lambda>s. Inr (Some s)) else Inr None) (\<lambda>restore.
     checked m (validated_transition fr TL_CANDIDATE time [TL_SEARCHING, TL_REACQUIRING] m) (\<lambda>time.
     checked m (validated_observation_values target confidence source position velocity) (\<lambda>v.
       if is_privileged_oracle_source (ob_source v)
       then (Inl (ValueError ''set_candidate() does not accept Oracle evidence''), m)
       else commit_transition TL_CANDIDATE time ''candidate_detected''
              (apply_observation_values v time (m\<lparr>tm_restore := restore\<rparr>)))))"

definition target_lock :: "target_manager \<Rightarrow> unit result \<times> target_manager" where
  "target_lock m = (Inl (TargetStateError
     ''direct visual lock is disabled; use CandidateConfirmationCoordinator''), m)"

definition lock_confirmed_candidate ::
  "(rat \<Rightarrow> string) \<Rightarrow> pyval \<Rightarrow> pyval \<Rightarrow> pyval \<Rightarrow> pyval \<Rightarrow> pyval \<Rightarrow> pyval \<Rightarrow> target_manager
     \<Rightarrow> unit result \<times> target_manager" where
  "lock_confirmed_candidate fr target time confidence source position velocity m =
     checked m (validated_transition fr TL_LOCKED time [TL_CANDIDATE] m) (\<lambda>time.
     checked m (validated_observation_values target confidence source position velocity) (\<lambda>v.
       if is_privileged_oracle_source (ob_source v)
       then (Inl (ValueError (''confirmed visual lock does not accept Oracle evidence; use ''
         @ ''an explicit Oracle evaluation shortcut'')), m)
       else if \<exists>r \<in> set_option (tm_restore m). sn_id r \<noteq> None \<and> Some (ob_id v) \<noteq> sn_id r
       then (Inl (TargetStateError (''reacquired visual identity does not match the previously ''
         @ ''tracked target_id'')), m)
       else commit_transition TL_LOCKED time
              (if tm_restore m \<noteq> None then ''target_reacquired_from_candidate'' else ''target_locked_from_candidate'')
              ((apply_observation_values v time m)\<lparr>tm_restore := None\<rparr>)))"

definition lock_oracle_from_search ::
  "(rat \<Rightarrow> string) \<Rightarrow> pyval \<Rightarrow> pyval \<Rightarrow> pyval \<Rightarrow> pyval \<Rightarrow> pyval \<Rightarrow> target_manager \<Rightarrow> unit result \<times> target_manager" where
  "lock_oracle_from_search fr target time confidence position velocity m =
     checked m (validated_transition fr TL_LOCKED time [TL_SEARCHING] m) (\<lambda>time.
     checked m (validated_observation_values target confidence (PStr ''oracle'') position velocity) (\<lambda>v.
       commit_transition TL_LOCKED time ''target_locked_by_oracle_evaluation''
         ((apply_observation_values v time m)\<lparr>tm_restore := None\<rparr>)))"

definition reject_candidate :: "(rat \<Rightarrow> string) \<Rightarrow> pyval \<Rightarrow> pyval \<Rightarrow> target_manager \<Rightarrow> unit result \<times> target_manager" where
  "reject_candidate fr time reason m =
     checked m (non_empty_string ''reason'' reason) (\<lambda>reason.
       let back = (if tm_restore m \<noteq> None then TL_REACQUIRING else TL_SEARCHING)
       in checked m (validated_transition fr back time [TL_CANDIDATE] m) (\<lambda>time.
            let m = (case tm_restore m of
                  None \<Rightarrow> forget_target m
                | Some r \<Rightarrow> m\<lparr>tm_description := sn_description r, tm_id := sn_id r, tm_confidence := sn_confidence r,
                    tm_position := sn_position r, tm_velocity := sn_velocity r, tm_seen := sn_time r,
                    tm_source := sn_source r\<rparr>)
            in commit_transition back time (''candidate_rejected:'' @ reason) (m\<lparr>tm_restore := None\<rparr>)))"

definition start_tracking :: "(rat \<Rightarrow> string) \<Rightarrow> pyval \<Rightarrow> target_manager \<Rightarrow> unit result \<times> target_manager" where
  "start_tracking fr time m =
     checked m (validated_transition fr TL_TRACKING time [TL_LOCKED] m) (\<lambda>time.
       if tm_id m = None then (Inl (TargetStateError ''cannot start tracking without a locked target_id''), m)
       else commit_transition TL_TRACKING time ''tracking_started'' m)"

definition finish_tracking_segment :: "(rat \<Rightarrow> string) \<Rightarrow> pyval \<Rightarrow> target_manager \<Rightarrow> unit result \<times> target_manager" where
  "finish_tracking_segment fr time m =
     checked m (validated_transition fr TL_LOCKED time [TL_TRACKING] m) (\<lambda>time.
       if tm_id m = None then (Inl (TargetStateError ''cannot finish a tracking segment without a target_id''), m)
       else commit_transition TL_LOCKED time ''tracking_segment_complete'' m)"

definition mark_lost ::
  "(rat \<Rightarrow> string) \<Rightarrow> pyval \<Rightarrow> pyval \<Rightarrow> pyval \<Rightarrow> pyval \<Rightarrow> target_manager \<Rightarrow> unit result \<times> target_manager" where
  "mark_lost fr time position velocity seen m =
     checked m (validated_transition fr TL_LOST time [TL_TRACKING] m) (\<lambda>time.
     checked m (optional_vector3 ''last_seen_position'' position) (\<lambda>position.
     checked m (optional_vector3 ''last_seen_velocity'' velocity) (\<lambda>velocity.
     checked m (if seen = PNone then Inr (if position \<noteq> None \<or> velocity \<noteq> None then Some time else None)
                else rbind (finite_number ''last_seen_time_s'' seen) (\<lambda>s. Inr (Some s))) (\<lambda>seen.
       if \<exists>s \<in> set_option seen. time < s
       then (Inl (ValueError ''last_seen_time_s cannot be later than timestamp_s''), m)
       else case (seen, tm_seen m) of
         (Some s, Some before) \<Rightarrow>
           if s < before
           then (Inl (TargetStateError (''last_seen_time_s cannot move backward: '' @ fr s @ '' < '' @ fr before)), m)
           else commit_transition TL_LOST time ''target_lost'' (m\<lparr>
             tm_position := (if position = None then tm_position m else position),
             tm_velocity := (if velocity = None then tm_velocity m else velocity), tm_seen := Some s\<rparr>)
       | _ \<Rightarrow> commit_transition TL_LOST time ''target_lost'' (m\<lparr>
             tm_position := (if position = None then tm_position m else position),
             tm_velocity := (if velocity = None then tm_velocity m else velocity),
             tm_seen := (if seen = None then tm_seen m else seen)\<rparr>)))))"

definition start_reacquiring :: "(rat \<Rightarrow> string) \<Rightarrow> pyval \<Rightarrow> target_manager \<Rightarrow> unit result \<times> target_manager" where
  "start_reacquiring fr time m =
     checked m (validated_transition fr TL_REACQUIRING time [TL_LOST] m) (\<lambda>time.
       commit_transition TL_REACQUIRING time ''reacquisition_started'' m)"

definition mark_reacquired :: "target_manager \<Rightarrow> unit result \<times> target_manager" where
  "mark_reacquired m = (Inl (TargetStateError
     ''direct visual reacquisition is disabled; use CandidateConfirmationCoordinator''), m)"

definition mark_reacquired_oracle ::
  "(rat \<Rightarrow> string) \<Rightarrow> pyval \<Rightarrow> pyval \<Rightarrow> pyval \<Rightarrow> pyval \<Rightarrow> pyval \<Rightarrow> target_manager \<Rightarrow> unit result \<times> target_manager" where
  "mark_reacquired_oracle fr target time confidence position velocity m =
     checked m (validated_transition fr TL_LOCKED time [TL_REACQUIRING] m) (\<lambda>time.
       let resolved = (if target = PNone then opt_pyval PStr (tm_id m) else target)
       in if resolved = PNone
          then (Inl (TargetStateError ''cannot mark target reacquired without a target_id''), m)
          else checked m (validated_observation_values resolved confidence (PStr ''oracle'') position velocity) (\<lambda>v.
            commit_transition TL_LOCKED time ''target_reacquired''
              ((apply_observation_values v time m)\<lparr>tm_restore := None\<rparr>)))"

definition target_terminate :: "(rat \<Rightarrow> string) \<Rightarrow> pyval \<Rightarrow> pyval \<Rightarrow> target_manager \<Rightarrow> unit result \<times> target_manager" where
  "target_terminate fr time reason m =
     checked m (non_empty_string ''reason'' reason) (\<lambda>reason.
     checked m (validated_transition fr TL_TERMINATED time terminatable_states m) (\<lambda>time.
       commit_transition TL_TERMINATED time reason (m\<lparr>tm_restore := None\<rparr>)))"

definition target_reset :: "target_manager \<Rightarrow> unit result \<times> target_manager" where
  "target_reset m =
     (if tm_lifecycle m \<noteq> TL_TERMINATED
      then (Inl (TargetStateError (''reset requires lifecycle TERMINATED; current lifecycle is ''
        @ lifecycle_value (tm_lifecycle m))), m)
      else (Inr (), (forget_target m)\<lparr>tm_lifecycle := TL_UNINITIALIZED, tm_description := ''uninitialized'',
        tm_spec := None, tm_restore := None, tm_clock := None, tm_events := []\<rparr>))"

end
