(* ===== verification/Target_Confirmation.thy ===== *)
theory Target_Confirmation
  imports Target_Lifecycle
begin

text \<open>
  \<open>perception/types.py\<close> and \<open>perception/confirmation.py\<close>: the evidence of the detector, the short track, the
  semantic check and the identity check, and the coordinator that locks a target on it.
\<close>

section \<open>Evidence\<close>

text \<open>\<open>_text\<close> has the body of \<open>_non_empty_string\<close>.\<close>

definition evidence_text :: "string \<Rightarrow> pyval \<Rightarrow> string result" where
  "evidence_text = non_empty_string"

definition evidence_finite :: "string \<Rightarrow> pyval \<Rightarrow> rat result" where
  "evidence_finite name =
     real_value (TypeError (name @ '' must be a finite number'')) (ValueError (name @ '' must be finite'')) (\<lambda>_. True)"

definition evidence_nonnegative :: "string \<Rightarrow> pyval \<Rightarrow> rat result" where
  "evidence_nonnegative name v =
     rbind (evidence_finite name v) (\<lambda>x.
       if x < 0 then Inl (ValueError (name @ '' must be non-negative'')) else Inr x)"

definition evidence_confidence :: "string \<Rightarrow> pyval \<Rightarrow> rat result" where
  "evidence_confidence name v =
     rbind (evidence_finite name v) (\<lambda>x.
       if \<not> (0 \<le> x \<and> x \<le> 1) then Inl (ValueError (name @ '' must be between 0 and 1 inclusive'')) else Inr x)"

definition positive_count :: "string \<Rightarrow> pyval \<Rightarrow> int result" where
  "positive_count name =
     int_value (TypeError (name @ '' must be an integer'')) (ValueError (name @ '' must be greater than zero''))
       (\<lambda>i. 0 < i)"

definition evidence_vector3 :: "string \<Rightarrow> pyval \<Rightarrow> rat list option result" where
  "evidence_vector3 = vector3_or_none evidence_finite"

record detection_candidate =
  dc_id :: string
  dc_time :: rat
  dc_confidence :: rat
  dc_source :: string
  dc_position :: "rat list option"
  dc_velocity :: "rat list option"

definition DetectionCandidate ::
  "pyval \<Rightarrow> pyval \<Rightarrow> pyval \<Rightarrow> pyval \<Rightarrow> pyval \<Rightarrow> pyval \<Rightarrow> detection_candidate result" where
  "DetectionCandidate candidate time confidence source position velocity =
     rbind (evidence_text ''candidate_id'' candidate) (\<lambda>candidate.
     rbind (evidence_finite ''timestamp_s'' time) (\<lambda>time.
     rbind (evidence_confidence ''confidence'' confidence) (\<lambda>confidence.
     rbind (evidence_text ''source'' source) (\<lambda>source.
     if is_privileged_oracle_source source
     then Inl (ValueError ''a visual DetectionCandidate cannot use privileged Oracle evidence'')
     else
       rbind (evidence_vector3 ''estimated_position'' position) (\<lambda>position.
       rbind (evidence_vector3 ''estimated_velocity'' velocity) (\<lambda>velocity.
         Inr \<lparr>dc_id = candidate, dc_time = time, dc_confidence = confidence, dc_source = source,
           dc_position = position, dc_velocity = velocity\<rparr>))))))"

record track_evidence =
  tk_id :: string
  tk_time :: rat
  tk_count :: int
  tk_duration :: rat
  tk_stable :: bool
  tk_confidence :: rat

definition ShortTrackEvidence ::
  "pyval \<Rightarrow> pyval \<Rightarrow> pyval \<Rightarrow> pyval \<Rightarrow> pyval \<Rightarrow> pyval \<Rightarrow> track_evidence result" where
  "ShortTrackEvidence candidate time observations duration steady confidence =
     rbind (evidence_text ''candidate_id'' candidate) (\<lambda>candidate.
     rbind (evidence_finite ''timestamp_s'' time) (\<lambda>time.
     rbind (positive_count ''observation_count'' observations) (\<lambda>observations.
     rbind (evidence_nonnegative ''duration_s'' duration) (\<lambda>duration.
     rbind (bool_value (TypeError ''stable must be bool'') steady) (\<lambda>steady.
     rbind (evidence_confidence ''confidence'' confidence) (\<lambda>confidence.
       Inr \<lparr>tk_id = candidate, tk_time = time, tk_count = observations, tk_duration = duration, tk_stable = steady,
         tk_confidence = confidence\<rparr>))))))"

record semantic_evidence =
  se_id :: string
  se_time :: rat
  se_description :: string
  se_matches :: bool
  se_confidence :: rat
  se_verifier :: string

definition SemanticVerification ::
  "pyval \<Rightarrow> pyval \<Rightarrow> pyval \<Rightarrow> pyval \<Rightarrow> pyval \<Rightarrow> pyval \<Rightarrow> semantic_evidence result" where
  "SemanticVerification candidate time description matches confidence verifier =
     rbind (evidence_text ''candidate_id'' candidate) (\<lambda>candidate.
     rbind (evidence_finite ''timestamp_s'' time) (\<lambda>time.
     rbind (evidence_text ''target_description'' description) (\<lambda>description.
     rbind (bool_value (TypeError ''matches must be bool'') matches) (\<lambda>matches.
     rbind (evidence_confidence ''confidence'' confidence) (\<lambda>confidence.
     rbind (evidence_text ''verifier'' verifier) (\<lambda>verifier.
       if is_privileged_oracle_source verifier
       then Inl (ValueError ''visual semantic verification cannot use Oracle'')
       else Inr \<lparr>se_id = candidate, se_time = time, se_description = description, se_matches = matches,
              se_confidence = confidence, se_verifier = verifier\<rparr>))))))"

record identity_evidence =
  ie_id :: string
  ie_target :: string
  ie_time :: rat
  ie_reidentified :: bool
  ie_consistent :: bool
  ie_count :: int
  ie_confidence :: rat
  ie_source :: string

definition IdentityConsistencyEvidence ::
  "pyval \<Rightarrow> pyval \<Rightarrow> pyval \<Rightarrow> pyval \<Rightarrow> pyval \<Rightarrow> pyval \<Rightarrow> pyval \<Rightarrow> pyval \<Rightarrow> identity_evidence result" where
  "IdentityConsistencyEvidence candidate target time reidentified consistent observations confidence source =
     rbind (evidence_text ''candidate_id'' candidate) (\<lambda>candidate.
     rbind (evidence_text ''target_id'' target) (\<lambda>target.
     rbind (evidence_finite ''timestamp_s'' time) (\<lambda>time.
     rbind (bool_value (TypeError ''reidentified must be bool'') reidentified) (\<lambda>reidentified.
     rbind (bool_value (TypeError ''temporally_consistent must be bool'') consistent) (\<lambda>consistent.
     rbind (positive_count ''consistent_observations'' observations) (\<lambda>observations.
     rbind (evidence_confidence ''confidence'' confidence) (\<lambda>confidence.
     rbind (evidence_text ''source'' source) (\<lambda>source.
       if is_privileged_oracle_source source
       then Inl (ValueError ''visual identity confirmation cannot use Oracle'')
       else Inr \<lparr>ie_id = candidate, ie_target = target, ie_time = time, ie_reidentified = reidentified,
              ie_consistent = consistent, ie_count = observations, ie_confidence = confidence, ie_source = source\<rparr>))))))))"

section \<open>The coordinator\<close>

definition confirmation_threshold :: "string \<Rightarrow> pyval \<Rightarrow> rat result" where
  "confirmation_threshold name =
     real_value (TypeError (name @ '' must be a finite number''))
       (ValueError (name @ '' must be finite and between 0 and 1'')) (\<lambda>x. 0 \<le> x \<and> x \<le> 1)"

record confirmation_policy =
  cp_observations :: int
  cp_duration :: rat
  cp_track :: rat
  cp_semantic :: rat
  cp_identity :: rat
  cp_consistent :: int

definition ConfirmationPolicy ::
  "pyval \<Rightarrow> pyval \<Rightarrow> pyval \<Rightarrow> pyval \<Rightarrow> pyval \<Rightarrow> pyval \<Rightarrow> confirmation_policy result" where
  "ConfirmationPolicy observations duration track semantic identity consistent =
     rbind (positive_count ''min_track_observations'' observations) (\<lambda>observations.
     rbind (positive_count ''min_consistent_observations'' consistent) (\<lambda>consistent.
     rbind (real_value (TypeError ''min_track_duration_s must be a finite number'')
              (ValueError ''min_track_duration_s must be finite and non-negative'') (\<lambda>x. 0 \<le> x) duration) (\<lambda>duration.
     rbind (confirmation_threshold ''min_track_confidence'' track) (\<lambda>track.
     rbind (confirmation_threshold ''min_semantic_confidence'' semantic) (\<lambda>semantic.
     rbind (confirmation_threshold ''min_identity_confidence'' identity) (\<lambda>identity.
       Inr \<lparr>cp_observations = observations, cp_duration = duration, cp_track = track, cp_semantic = semantic,
         cp_identity = identity, cp_consistent = consistent\<rparr>))))))"

datatype confirmation_decision = CD_PENDING | CD_CONFIRMED | CD_REJECTED

record confirmation_result =
  cf_decision :: confirmation_decision
  cf_candidate :: string
  cf_target :: "string option"
  cf_confidence :: "rat option"
  cf_reason :: string

definition ConfirmationResult ::
  "confirmation_decision \<Rightarrow> pyval \<Rightarrow> pyval \<Rightarrow> pyval \<Rightarrow> pyval \<Rightarrow> confirmation_result result" where
  "ConfirmationResult decision candidate target confidence reason =
     rbind (stripped_text (ValueError ''candidate_id must be a non-empty string'') candidate) (\<lambda>candidate.
     rbind (stripped_text (ValueError ''reason must be a non-empty string'') reason) (\<lambda>reason.
     rbind (opt_check (stripped_text (ValueError ''target_id must be a non-empty string or None'')) target) (\<lambda>target.
     rbind (opt_check (confirmation_threshold ''confidence'') confidence) (\<lambda>confidence.
       Inr \<lparr>cf_decision = decision, cf_candidate = candidate, cf_target = target, cf_confidence = confidence,
         cf_reason = reason\<rparr>))))"

definition register_candidate ::
  "(rat \<Rightarrow> string) \<Rightarrow> detection_candidate \<Rightarrow> target_manager \<Rightarrow> confirmation_result result \<times> target_manager" where
  "register_candidate fr c m =
     (if tm_lifecycle m \<notin> {TL_SEARCHING, TL_REACQUIRING}
      then (Inl (CandidateConfirmationError
        ''candidate registration requires TargetManager SEARCHING or REACQUIRING''), m)
      else andthen (set_candidate fr (PStr (dc_id c)) (pfloat (dc_time c)) (pfloat (dc_confidence c))
                      (PStr (dc_source c)) (opt_pyval point_list (dc_position c)) (opt_pyval point_list (dc_velocity c)) m)
             (\<lambda>_ m. (ConfirmationResult CD_PENDING (PStr (dc_id c)) PNone (pfloat (dc_confidence c))
                       (PStr ''candidate_registered''), m)))"

text \<open>What makes evidence inconsistent, in the order of the checks of \<open>evaluate\<close>; the result is the error.\<close>

definition evidence_error ::
  "target_snapshot \<Rightarrow> track_evidence \<Rightarrow> semantic_evidence \<Rightarrow> identity_evidence \<Rightarrow> exn option" where
  "evidence_error s tr se ie =
     (if sn_lifecycle s \<noteq> TL_CANDIDATE
      then Some (CandidateConfirmationError ''confirmation requires TargetManager CANDIDATE'')
      else case sn_id s of
        None \<Rightarrow> Some (CandidateConfirmationError ''CANDIDATE has no candidate_id'')
      | Some candidate \<Rightarrow>
          if {tk_id tr, se_id se, ie_id ie} \<noteq> {candidate}
          then Some (CandidateConfirmationError
            ''track, semantic, and identity evidence must match the active candidate'')
          else if se_description se \<noteq> sn_description s
          then Some (CandidateConfirmationError
            ''semantic evidence target_description does not match the mission target'')
          else (case sn_time s of
            None \<Rightarrow> Some (CandidateConfirmationError ''CANDIDATE has no detection timestamp'')
          | Some time \<Rightarrow>
              if tk_time tr < time \<or> se_time se < time \<or> ie_time ie < time
              then Some (CandidateConfirmationError
                ''confirmation evidence cannot predate the candidate detection'')
              else if \<not> (tk_time tr \<le> se_time se \<and> se_time se \<le> ie_time ie)
              then Some (CandidateConfirmationError (''confirmation evidence must be ordered detector -> short track ''
                @ ''-> semantic verification -> identity verification''))
              else if tk_duration tr > tk_time tr - time + 1 / 10 ^ 12
              then Some (CandidateConfirmationError
                ''short-track duration cannot exceed elapsed time since detection'')
              else if ie_count ie > tk_count tr
              then Some (CandidateConfirmationError
                (''identity consistent_observations cannot exceed short-track '' @ ''observation_count''))
              else None))"

definition rejection_reason :: "track_evidence \<Rightarrow> semantic_evidence \<Rightarrow> identity_evidence \<Rightarrow> string option" where
  "rejection_reason tr se ie =
     (if \<not> tk_stable tr then Some ''short_track_unstable''
      else if \<not> se_matches se then Some ''semantic_mismatch''
      else if \<not> ie_reidentified ie then Some ''reid_failed''
      else if \<not> ie_consistent ie then Some ''temporal_identity_inconsistent''
      else None)"

definition shortfalls ::
  "confirmation_policy \<Rightarrow> track_evidence \<Rightarrow> semantic_evidence \<Rightarrow> identity_evidence \<Rightarrow> string list" where
  "shortfalls p tr se ie =
     (if tk_count tr < cp_observations p then [''track_observation_count''] else [])
     @ (if tk_duration tr < cp_duration p then [''track_duration''] else [])
     @ (if tk_confidence tr < cp_track p then [''track_confidence''] else [])
     @ (if se_confidence se < cp_semantic p then [''semantic_confidence''] else [])
     @ (if ie_confidence ie < cp_identity p then [''identity_confidence''] else [])
     @ (if ie_count ie < cp_consistent p then [''consistent_observations''] else [])"

definition confirmation_evaluate ::
  "(rat \<Rightarrow> string) \<Rightarrow> confirmation_policy \<Rightarrow> track_evidence \<Rightarrow> semantic_evidence \<Rightarrow> identity_evidence
     \<Rightarrow> target_manager \<Rightarrow> confirmation_result result \<times> target_manager" where
  "confirmation_evaluate fr p tr se ie m =
     checked m (manager_snapshot m) (\<lambda>s.
       case evidence_error s tr se ie of
         Some e \<Rightarrow> (Inl e, m)
       | None \<Rightarrow>
           let candidate = opt_pyval PStr (sn_id s);
               time = max (tk_time tr) (max (se_time se) (ie_time ie));
               confidence = min (tk_confidence tr) (min (se_confidence se) (ie_confidence ie))
           in (case rejection_reason tr se ie of
                Some reason \<Rightarrow>
                  andthen (reject_candidate fr (pfloat time) (PStr reason) m) (\<lambda>_ m.
                    (ConfirmationResult CD_REJECTED candidate PNone PNone (PStr reason), m))
              | None \<Rightarrow>
                  if shortfalls p tr se ie \<noteq> []
                  then (ConfirmationResult CD_PENDING candidate PNone (pfloat confidence)
                     (PStr (''insufficient_evidence:'' @ py_join '','' (shortfalls p tr se ie))), m)
                  else
                    andthen (lock_confirmed_candidate fr (PStr (ie_target ie)) (pfloat time) (pfloat confidence)
                              (PStr ''confirmed_vision'') PNone PNone m) (\<lambda>_ m.
                      (ConfirmationResult CD_CONFIRMED candidate (PStr (ie_target ie)) (pfloat confidence)
                         (PStr ''track_semantic_reid_confirmed''), m))))"

end
