(* ===== verification/Target_Identity.thy ===== *)
theory Target_Identity
  imports Target_Confirmation
begin

text \<open>
  What the target manager and the coordinator guarantee: the history of the lifecycle, the identity of the
  tracked target and the evidence behind it, the rejection of candidates, and the round trip of a target
  description.
\<close>

section \<open>Normalized values\<close>

definition stripped :: "string \<Rightarrow> bool" where
  "stripped s \<longleftrightarrow> py_strip s = s \<and> s \<noteq> []"

lemma non_empty_string_simps [simp]:
  "non_empty_string name v = Inr t \<longleftrightarrow> (\<exists>s. v = PStr s \<and> t = py_strip s \<and> stripped t)"
  by (auto simp: non_empty_string_def stripped_def split: pyval.splits)

lemma non_empty_string_stripped [simp]: "stripped s \<Longrightarrow> non_empty_string name (PStr s) = Inr s"
  by (simp add: stripped_def)

lemma finite_number_float [simp]: "finite_number name (pfloat x) = Inr x"
  by (simp add: finite_number_def)

definition vector_ok :: "rat list option \<Rightarrow> bool" where
  "vector_ok v \<longleftrightarrow> (\<forall>p \<in> set_option v. length p = 3)"

definition confidence_ok :: "rat option \<Rightarrow> bool" where
  "confidence_ok c \<longleftrightarrow> (\<forall>x \<in> set_option c. 0 \<le> x \<and> x \<le> 1)"

definition name_ok :: "string option \<Rightarrow> bool" where
  "name_ok n \<longleftrightarrow> (\<forall>s \<in> set_option n. stripped s)"

lemma optional_vector3_ok: "optional_vector3 name v = Inr p \<Longrightarrow> vector_ok p"
  by (auto simp: optional_vector3_def vector3_or_none_def Let_def vector_ok_def rbind_eq_Inr
      dest: rmap_Inr_length split: pyval.splits if_splits)

lemma optional_vector3_again [simp]: "vector_ok p \<Longrightarrow> optional_vector3 name (opt_pyval point_list p) = Inr p"
  by (cases p) (auto simp: optional_vector3_def vector3_or_none_def point_list_def vector_ok_def rbind_eq_Inr
      intro: rmap_enumerate_map)

lemma optional_confidence_ok: "optional_confidence name v = Inr c \<Longrightarrow> confidence_ok c"
  by (auto simp: optional_confidence_def confidence_ok_def rbind_eq_Inr dest!: opt_check_Some split: if_splits)

lemma optional_confidence_again [simp]:
  "confidence_ok c \<Longrightarrow> optional_confidence name (opt_pyval pfloat c) = Inr c"
  by (cases c) (auto simp: optional_confidence_def confidence_ok_def opt_check_def)

lemma optional_name_ok: "optional_non_empty_string name v = Inr s \<Longrightarrow> name_ok s"
  by (auto simp: optional_non_empty_string_def name_ok_def dest!: opt_check_Some)

lemma optional_name_again [simp]: "name_ok s \<Longrightarrow> optional_non_empty_string name (opt_pyval PStr s) = Inr s"
  by (cases s) (auto simp: optional_non_empty_string_def name_ok_def opt_check_def)

section \<open>The description of a target\<close>

definition text_ok :: "string \<Rightarrow> bool" where
  "text_ok s \<longleftrightarrow> stripped s \<and> length s \<le> TARGET_TEXT_MAX_LENGTH"

definition texts_ok :: "string list \<Rightarrow> bool" where
  "texts_ok ts \<longleftrightarrow> (\<forall>s \<in> set ts. text_ok s) \<and> distinct ts \<and> length ts \<le> TARGET_LIST_MAX_ITEMS"

definition target_spec_ok :: "target_spec \<Rightarrow> bool" where
  "target_spec_ok s \<longleftrightarrow> text_ok (td_original s) \<and> text_ok (td_category s) \<and> text_ok (td_identity s)
     \<and> texts_ok (td_hard s) \<and> texts_ok (td_soft s) \<and> texts_ok (td_negative s) \<and> texts_ok (td_relation s)
     \<and> texts_ok (td_ladder s) \<and> texts_ok (td_questions s) \<and> texts_ok (td_notes s)"

lemma target_text_ok: "target_text name v = Inr s \<Longrightarrow> text_ok s"
  by (auto simp: target_text_def text_ok_def rbind_eq_Inr split: if_splits)

lemma target_text_again [simp]: "text_ok s \<Longrightarrow> target_text name (PStr s) = Inr s"
  by (simp add: target_text_def text_ok_def)

lemma rmap_Inr_source: "rmap f xs = Inr ys \<Longrightarrow> y \<in> set ys \<Longrightarrow> \<exists>x \<in> set xs. f x = Inr y"
  by (induction xs arbitrary: ys) (auto simp: rbind_eq_Inr)

lemma text_tuple_ok:
  assumes "text_tuple name v = Inr ts"
  shows "texts_ok ts"
proof -
  have "texts_ok ts" if "rmap (\<lambda>(i, x). target_text (item_name name i) x) (enumerate 0 xs) = Inr ts"
    "length xs \<le> TARGET_LIST_MAX_ITEMS" "distinct ts" for xs
  proof -
    have "length ts = length xs" using rmap_Inr_length [OF that(1)] by simp
    moreover have "\<forall>s \<in> set ts. text_ok s" using rmap_Inr_source [OF that(1)] target_text_ok by force
    ultimately show ?thesis using that(2,3) by (simp add: texts_ok_def)
  qed
  then show ?thesis
    using assms by (auto simp: text_tuple_def Let_def rbind_eq_Inr texts_ok_def split: pyval.splits if_splits)
qed

lemma text_tuple_again [simp]:
  assumes "texts_ok ts"
  shows "text_tuple name (PTuple (map PStr ts)) = Inr ts" "text_tuple name (PList (map PStr ts)) = Inr ts"
proof -
  have "rmap (\<lambda>(i, x). target_text (item_name name i) x) (enumerate 0 (map PStr ts)) = Inr ts"
    using assms by (intro rmap_enumerate_map) (simp add: texts_ok_def)
  then show "text_tuple name (PTuple (map PStr ts)) = Inr ts" "text_tuple name (PList (map PStr ts)) = Inr ts"
    using assms by (simp_all add: text_tuple_def texts_ok_def)
qed

lemma TargetSpec_ok: "TargetSpec o' c h so n r l q i no d = Inr s \<Longrightarrow> target_spec_ok s"
  by (auto simp: TargetSpec_def target_spec_ok_def rbind_eq_Inr dest: target_text_ok text_tuple_ok split: if_splits)

lemma with_notes:
  assumes "target_spec_ok s"
  shows "with_mutable_appearance_notes s v =
    rbind (text_tuple ''TargetSpec.mutable_appearance_notes'' v) (\<lambda>ts. Inr (s\<lparr>td_notes := ts\<rparr>))"
  using assms text_tuple_ok [of _ v]
  by (cases s) (auto simp: with_mutable_appearance_notes_def TargetSpec_def original_of_def td_description_def
      target_spec_ok_def split: rbind_splits)

text \<open>
  Parsing the dictionary form of a target description gives the description back, and appearance notes
  change nothing but the notes: the original description and the identity summary of a mission stay.
\<close>

theorem target_spec_round_trip:
  assumes "TargetSpec original category hard soft negative relation ladder questions identity remarks description = Inr s"
  shows "target_spec_from_dict (pdict (target_spec_to_dict s)) = Inr s
    \<and> (\<forall>v s'. append_appearance_note s v = Inr s' \<longrightarrow>
         (\<exists>t. s' = s\<lparr>td_notes := t\<rparr> \<and> set (td_notes s) \<subseteq> set t \<and> length t \<le> TARGET_LIST_MAX_ITEMS))"
proof -
  have ok: "target_spec_ok s" using assms by (rule TargetSpec_ok)
  have "target_spec_from_dict (pdict (target_spec_to_dict s)) = Inr s"
    using ok by (cases s) (simp add: target_spec_from_dict_def target_spec_to_dict_def serialized_fields_def
        TargetSpec_def original_of_def target_spec_ok_def)
  moreover have "\<exists>t. s' = s\<lparr>td_notes := t\<rparr> \<and> set (td_notes s) \<subseteq> set t \<and> length t \<le> TARGET_LIST_MAX_ITEMS"
    if app: "append_appearance_note s v = Inr s'" for v s'
  proof (cases "s' = s")
    case True
    then show ?thesis using ok by (intro exI [of _ "td_notes s"]) (simp add: target_spec_ok_def texts_ok_def)
  next
    case False
    then obtain n t where "text_tuple ''TargetSpec.mutable_appearance_notes'' (text_values (td_notes s @ [n])) = Inr t"
      and s': "s' = s\<lparr>td_notes := t\<rparr>" and "text_ok n"
      using app by (auto simp: append_appearance_note_def with_notes [OF ok] rbind_eq_Inr dest: target_text_ok split: if_splits)
    moreover have "t = td_notes s @ [n]"
    proof -
      have "rmap (\<lambda>(i, x). target_text (item_name ''TargetSpec.mutable_appearance_notes'' i) x)
          (enumerate 0 (map PStr (td_notes s @ [n]))) = Inr (td_notes s @ [n])"
        using ok \<open>text_ok n\<close> by (intro rmap_enumerate_map) (auto simp: target_spec_ok_def texts_ok_def)
      then show ?thesis using calculation(1) by (auto simp: text_tuple_def split: if_splits)
    qed
    ultimately show ?thesis using text_tuple_ok [of _ _ t] by (intro exI [of _ t]) (auto simp: texts_ok_def)
  qed
  ultimately show ?thesis by blast
qed


section \<open>Well-formed managers\<close>

definition snapshot_of :: "target_manager \<Rightarrow> target_snapshot" where
  "snapshot_of m = \<lparr>sn_id = tm_id m, sn_description = tm_description m, sn_lifecycle = tm_lifecycle m,
     sn_confidence = tm_confidence m, sn_position = tm_position m, sn_velocity = tm_velocity m, sn_time = tm_seen m,
     sn_source = tm_source m\<rparr>"

definition snapshot_wf :: "target_snapshot \<Rightarrow> bool" where
  "snapshot_wf s \<longleftrightarrow> stripped (sn_description s) \<and> name_ok (sn_id s) \<and> name_ok (sn_source s)
     \<and> confidence_ok (sn_confidence s) \<and> vector_ok (sn_position s) \<and> vector_ok (sn_velocity s)"

definition blank :: "target_snapshot \<Rightarrow> bool" where
  "blank s \<longleftrightarrow> sn_id s = None \<and> sn_confidence s = None \<and> sn_position s = None \<and> sn_velocity s = None
     \<and> sn_time s = None \<and> sn_source s = None"

definition targeted :: "target_snapshot \<Rightarrow> bool" where
  "targeted s \<longleftrightarrow> sn_id s \<noteq> None \<and> sn_time s \<noteq> None \<and> sn_source s \<noteq> None"

fun lifecycle_allowed :: "target_lifecycle \<Rightarrow> target_lifecycle list" where
  "lifecycle_allowed TL_UNINITIALIZED = [TL_SEARCHING, TL_TERMINATED]"
| "lifecycle_allowed TL_SEARCHING = [TL_CANDIDATE, TL_LOCKED, TL_TERMINATED]"
| "lifecycle_allowed TL_CANDIDATE = [TL_SEARCHING, TL_REACQUIRING, TL_LOCKED, TL_TERMINATED]"
| "lifecycle_allowed TL_LOCKED = [TL_TRACKING, TL_TERMINATED]"
| "lifecycle_allowed TL_TRACKING = [TL_LOCKED, TL_LOST, TL_TERMINATED]"
| "lifecycle_allowed TL_LOST = [TL_REACQUIRING, TL_TERMINATED]"
| "lifecycle_allowed TL_REACQUIRING = [TL_CANDIDATE, TL_LOCKED, TL_TERMINATED]"
| "lifecycle_allowed TL_TERMINATED = []"

interpretation lifecycle: transition_table lifecycle_allowed "\<lambda>s. s = TL_TERMINATED"
  by unfold_locales simp

text \<open>The state a history leads to, when its events follow one another along the table.\<close>

fun walk :: "target_lifecycle \<Rightarrow> target_event list \<Rightarrow> target_lifecycle option" where
  "walk s [] = Some s"
| "walk s (e # es) = (if te_old e = s \<and> te_new e \<in> set (lifecycle_allowed s) then walk (te_new e) es else None)"

lemma walk_snoc: "walk s (es @ [e]) = (case walk s es of None \<Rightarrow> None
    | Some t \<Rightarrow> if te_old e = t \<and> te_new e \<in> set (lifecycle_allowed t) then Some (te_new e) else None)"
  by (induction es arbitrary: s) auto

text \<open>Only the last event of a history can be a termination.\<close>

lemma walk_termination_last:
  "walk s es = Some t \<Longrightarrow> e \<in> set (butlast es) \<Longrightarrow> te_new e \<noteq> TL_TERMINATED"
proof (induction es arbitrary: s)
  case (Cons d es)
  then obtain e' es' where es: "es = e' # es'" by (cases es) auto
  have rest: "walk (te_new d) es = Some t" using Cons.prems(1) by (simp split: if_splits)
  then have "te_new e' \<in> set (lifecycle_allowed (te_new d))" by (simp add: es split: if_splits)
  then have "te_new d \<noteq> TL_TERMINATED" by (rule lifecycle.allowed_not_final)
  moreover have "e = d \<or> e \<in> set (butlast es)" using Cons.prems(2) es by simp
  ultimately show ?case using Cons.IH [OF rest] by blast
qed simp

definition history_ok :: "target_manager \<Rightarrow> bool" where
  "history_ok m \<longleftrightarrow> walk TL_UNINITIALIZED (tm_events m) = Some (tm_lifecycle m)
     \<and> sorted (map te_time (tm_events m))
     \<and> tm_clock m = (if tm_events m = [] then None else Some (te_time (last (tm_events m))))"

definition restore_ok :: "target_manager \<Rightarrow> bool" where
  "restore_ok m \<longleftrightarrow> (\<forall>r. tm_restore m = Some r \<longrightarrow> tm_lifecycle m = TL_CANDIDATE \<and> snapshot_wf r \<and> targeted r
     \<and> sn_lifecycle r = TL_REACQUIRING \<and> sn_description r = tm_description m)"

definition content_ok :: "target_manager \<Rightarrow> bool" where
  "content_ok m \<longleftrightarrow>
     (tm_lifecycle m \<in> {TL_UNINITIALIZED, TL_SEARCHING} \<longrightarrow> blank (snapshot_of m))
     \<and> (tm_lifecycle m \<in> {TL_CANDIDATE, TL_LOCKED, TL_TRACKING, TL_LOST, TL_REACQUIRING} \<longrightarrow> targeted (snapshot_of m))
     \<and> (tm_lifecycle m \<in> set active_states \<longrightarrow> (\<exists>s. tm_spec m = Some s \<and> tm_description m = td_original s))
     \<and> (\<forall>s. tm_spec m = Some s \<longrightarrow> target_spec_ok s)
     \<and> (tm_lifecycle m = TL_CANDIDATE \<longrightarrow> tm_seen m = tm_clock m)"

definition target_manager_ok :: "target_manager \<Rightarrow> bool" where
  "target_manager_ok m \<longleftrightarrow> snapshot_wf (snapshot_of m) \<and> content_ok m \<and> restore_ok m \<and> history_ok m"

lemmas target_manager_defs =
  target_manager_ok_def content_ok_def restore_ok_def snapshot_wf_def snapshot_of_def blank_def targeted_def

lemma manager_snapshot_eq:
  assumes "target_manager_ok m"
  shows "manager_snapshot m = Inr (snapshot_of m)"
proof -
  have "opt_check (finite_number ''TargetSnapshot.last_seen_time_s'') (opt_pyval pfloat (tm_seen m)) = Inr (tm_seen m)"
    by (cases "tm_seen m") (simp_all add: opt_check_def)
  then show ?thesis
    using assms by (simp add: manager_snapshot_def TargetSnapshot_def target_manager_defs)
qed

section \<open>Transitions\<close>

definition moved :: "target_lifecycle \<Rightarrow> rat \<Rightarrow> string \<Rightarrow> target_manager \<Rightarrow> target_manager" where
  "moved new time reason m = m\<lparr>tm_lifecycle := new, tm_clock := Some time,
     tm_events := tm_events m @ [\<lparr>te_time = time, te_old = tm_lifecycle m, te_new = new, te_reason = reason\<rparr>]\<rparr>"

lemma commit_transition_eq:
  "stripped reason \<Longrightarrow> tm_lifecycle m \<noteq> new \<Longrightarrow> commit_transition new time reason m = (Inr (), moved new time reason m)"
  by (simp add: commit_transition_def TargetEvent_def moved_def)

text \<open>A time the manager accepts next.\<close>

definition timely :: "target_manager \<Rightarrow> rat \<Rightarrow> bool" where
  "timely m time \<longleftrightarrow> (\<forall>c. tm_clock m = Some c \<longrightarrow> c \<le> time)"

lemma validated_transition_Inr:
  "validated_transition fr new v allowed m = Inr time \<longleftrightarrow>
     tm_lifecycle m \<in> set allowed \<and> finite_number ''timestamp_s'' v = Inr time \<and> timely m time"
  by (auto simp: validated_transition_def rbind_eq_Inr timely_def not_less split: option.splits if_splits)

lemma moved_history:
  assumes "history_ok m" and "new \<in> set (lifecycle_allowed (tm_lifecycle m))" and "timely m time"
    and "tm_lifecycle m' = tm_lifecycle m" "tm_events m' = tm_events m"
  shows "history_ok (moved new time reason m')"
proof -
  have "\<forall>e \<in> set (tm_events m). te_time e \<le> time"
  proof (cases "tm_events m" rule: rev_cases)
    case (snoc es e)
    then have "te_time e \<le> time" "\<forall>d \<in> set es. te_time d \<le> te_time e"
      using assms(1,3) by (auto simp: history_ok_def timely_def sorted_append)
    then show ?thesis using snoc by auto
  qed simp
  then show ?thesis
    using assms by (auto simp: history_ok_def moved_def walk_snoc sorted_append)
qed

lemma observation_values_Inr:
  assumes "validated_observation_values i c s p v = Inr o'"
  shows "stripped (ob_id o')" "confidence_ok (ob_confidence o')" "stripped (ob_source o')"
    "vector_ok (ob_position o')" "vector_ok (ob_velocity o')" "\<exists>x. i = PStr x \<and> ob_id o' = py_strip x"
    "optional_vector3 ''last_seen_position'' p = Inr (ob_position o')"
    "optional_confidence ''confidence'' c = Inr (ob_confidence o')"
proof -
  obtain t x src pos vel where o': "o' = \<lparr>ob_id = t, ob_confidence = x, ob_source = src, ob_position = pos, ob_velocity = vel\<rparr>"
    and f: "non_empty_string ''target_id'' i = Inr t" "optional_confidence ''confidence'' c = Inr x"
      "optional_non_empty_string ''source'' s = Inr (Some src)"
      "optional_vector3 ''last_seen_position'' p = Inr pos" "optional_vector3 ''last_seen_velocity'' v = Inr vel"
    using assms unfolding validated_observation_values_def rbind_eq_Inr by (fastforce simp: rbind_eq_Inr split: option.splits)
  show "stripped (ob_id o')" "\<exists>x. i = PStr x \<and> ob_id o' = py_strip x" using f(1) by (auto simp: o')
  show "confidence_ok (ob_confidence o')" "vector_ok (ob_position o')" "vector_ok (ob_velocity o')"
    using optional_confidence_ok [OF f(2)] optional_vector3_ok [OF f(4)] optional_vector3_ok [OF f(5)] by (simp_all add: o')
  show "stripped (ob_source o')" using optional_name_ok [OF f(3)] by (simp add: o' name_ok_def)
  show "optional_vector3 ''last_seen_position'' p = Inr (ob_position o')"
    "optional_confidence ''confidence'' c = Inr (ob_confidence o')" using f by (simp_all add: o')
qed

lemma applied_wf:
  assumes "validated_observation_values i c s p v = Inr o'" and "snapshot_wf (snapshot_of m)"
  shows "snapshot_wf (snapshot_of (apply_observation_values o' time m))"
    "targeted (snapshot_of (apply_observation_values o' time m))"
  using observation_values_Inr [OF assms(1)] assms(2)
  by (auto simp: apply_observation_values_def snapshot_wf_def snapshot_of_def targeted_def name_ok_def)

lemma applied_simps [simp]:
  "tm_lifecycle (apply_observation_values o' t m) = tm_lifecycle m" "tm_events (apply_observation_values o' t m) = tm_events m"
  "tm_clock (apply_observation_values o' t m) = tm_clock m" "tm_spec (apply_observation_values o' t m) = tm_spec m"
  "tm_restore (apply_observation_values o' t m) = tm_restore m"
  "tm_description (apply_observation_values o' t m) = tm_description m"
  "tm_id (apply_observation_values o' t m) = Some (ob_id o')"
  by (simp_all add: apply_observation_values_def)

lemma stripped_reasons:
  "stripped ''search_started''" "stripped ''candidate_detected''" "stripped ''target_reacquired_from_candidate''"
  "stripped ''target_locked_from_candidate''" "stripped ''target_locked_by_oracle_evaluation''"
  "stripped ''tracking_started''" "stripped ''tracking_segment_complete''" "stripped ''target_lost''"
  "stripped ''reacquisition_started''" "stripped ''target_reacquired''" "stripped ''uninitialized''"
  "stripped ''confirmed_vision''" "stripped ''oracle''"
  by code_simp+


lemma checked_run: "checked s r k = (out, s') \<longleftrightarrow>
    (\<exists>e. r = Inl e \<and> out = Inl e \<and> s' = s) \<or> (\<exists>x. r = Inr x \<and> k x = (out, s'))"
  by (cases r) auto

lemma andthen_run: "andthen r k = (out, s') \<longleftrightarrow>
    (\<exists>e. r = (Inl e, s') \<and> out = Inl e) \<or> (\<exists>x s. r = (Inr x, s) \<and> k x s = (out, s'))"
  by (cases r; cases "fst r") auto

lemma moved_ok:
  assumes ok: "target_manager_ok m" and move: "new \<in> set (lifecycle_allowed (tm_lifecycle m))" "timely m time"
    and same: "tm_lifecycle m' = tm_lifecycle m" "tm_events m' = tm_events m"
    and wf: "snapshot_wf (snapshot_of m')"
    and content: "new = TL_SEARCHING \<Longrightarrow> blank (snapshot_of m')"
      "new \<in> {TL_CANDIDATE, TL_LOCKED, TL_TRACKING, TL_LOST, TL_REACQUIRING} \<Longrightarrow> targeted (snapshot_of m')"
      "new \<in> set active_states \<Longrightarrow> \<exists>s. tm_spec m' = Some s \<and> tm_description m' = td_original s"
      "\<And>s. tm_spec m' = Some s \<Longrightarrow> target_spec_ok s"
      "new = TL_CANDIDATE \<Longrightarrow> tm_seen m' = Some time"
    and restore: "\<And>r. tm_restore m' = Some r \<Longrightarrow> new = TL_CANDIDATE \<and> snapshot_wf r \<and> targeted r
      \<and> sn_lifecycle r = TL_REACQUIRING \<and> sn_description r = tm_description m'"
  shows "target_manager_ok (moved new time reason m')"
proof -
  have new: "new \<noteq> TL_UNINITIALIZED" using move(1) by (cases "tm_lifecycle m") auto
  have "history_ok (moved new time reason m')"
    using ok move same by (intro moved_history [of m]) (simp_all add: target_manager_ok_def)
  moreover have "snapshot_wf (snapshot_of (moved new time reason m'))"
    using wf by (simp add: snapshot_wf_def snapshot_of_def moved_def)
  moreover have "content_ok (moved new time reason m')"
    using new content by (auto simp: content_ok_def moved_def blank_def targeted_def snapshot_of_def)
  moreover have "restore_ok (moved new time reason m')"
    using restore by (auto simp: restore_ok_def moved_def)
  ultimately show ?thesis by (simp add: target_manager_ok_def)
qed

lemma ok_active:
  assumes "target_manager_ok m" and "tm_lifecycle m \<in> set active_states"
  shows "\<exists>s. tm_spec m = Some s \<and> tm_description m = td_original s"
  using assms by (simp add: target_manager_ok_def content_ok_def)

lemma ok_parts:
  assumes "target_manager_ok m"
  shows "snapshot_wf (snapshot_of m)" "\<And>s. tm_spec m = Some s \<Longrightarrow> target_spec_ok s"
    "tm_lifecycle m \<noteq> TL_CANDIDATE \<Longrightarrow> tm_restore m = None"
    "tm_lifecycle m \<in> {TL_CANDIDATE, TL_LOCKED, TL_TRACKING, TL_LOST, TL_REACQUIRING} \<Longrightarrow> targeted (snapshot_of m)"
    "tm_lifecycle m \<in> {TL_UNINITIALIZED, TL_SEARCHING} \<Longrightarrow> blank (snapshot_of m)"
  using assms by (auto simp: target_manager_ok_def content_ok_def restore_ok_def)

lemma set_candidate_cases:
  assumes "target_manager_ok m" and "set_candidate fr i tv c s p v m = (out, m')"
  obtains (raised) e where "out = Inl e" "m' = m"
    | (candidate) t ob where "out = Inr ()" "tm_lifecycle m \<in> {TL_SEARCHING, TL_REACQUIRING}" "timely m t"
      "finite_number ''timestamp_s'' tv = Inr t"
      "validated_observation_values i c s p v = Inr ob" "\<not> is_privileged_oracle_source (ob_source ob)"
      "m' = moved TL_CANDIDATE t ''candidate_detected'' (apply_observation_values ob t
         (m\<lparr>tm_restore := if tm_lifecycle m = TL_REACQUIRING then Some (snapshot_of m) else None\<rparr>))"
  using assms(2) unfolding set_candidate_def manager_snapshot_eq [OF assms(1)] checked_run
  by (auto simp: validated_transition_Inr commit_transition_eq stripped_reasons split: if_splits)

lemma lock_confirmed_cases:
  assumes "lock_confirmed_candidate fr i tv c s p v m = (out, m')"
  obtains (raised) e where "out = Inl e" "m' = m"
    | (locked) t ob where "out = Inr ()" "tm_lifecycle m = TL_CANDIDATE" "timely m t"
      "finite_number ''timestamp_s'' tv = Inr t"
      "validated_observation_values i c s p v = Inr ob" "\<not> is_privileged_oracle_source (ob_source ob)"
      "\<And>r. tm_restore m = Some r \<Longrightarrow> sn_id r \<noteq> None \<Longrightarrow> sn_id r = Some (ob_id ob)"
      "m' = moved TL_LOCKED t (if tm_restore m \<noteq> None then ''target_reacquired_from_candidate''
          else ''target_locked_from_candidate'') ((apply_observation_values ob t m)\<lparr>tm_restore := None\<rparr>)"
  using assms unfolding lock_confirmed_candidate_def checked_run
  by (auto simp: validated_transition_Inr commit_transition_eq stripped_reasons split: if_splits)

lemma lock_oracle_cases:
  assumes "lock_oracle_from_search fr i tv c p v m = (out, m')"
  obtains (raised) e where "out = Inl e" "m' = m"
    | (locked) t ob where "out = Inr ()" "tm_lifecycle m = TL_SEARCHING" "timely m t"
      "validated_observation_values i c (PStr ''oracle'') p v = Inr ob"
      "m' = moved TL_LOCKED t ''target_locked_by_oracle_evaluation'' ((apply_observation_values ob t m)\<lparr>tm_restore := None\<rparr>)"
  using assms unfolding lock_oracle_from_search_def checked_run
  by (auto simp: validated_transition_Inr commit_transition_eq stripped_reasons split: if_splits)

lemma reacquired_oracle_cases:
  assumes "mark_reacquired_oracle fr i tv c p v m = (out, m')"
  obtains (raised) e where "out = Inl e" "m' = m"
    | (locked) t x ob where "out = Inr ()" "tm_lifecycle m = TL_REACQUIRING" "timely m t"
      "validated_observation_values x c (PStr ''oracle'') p v = Inr ob"
      "m' = moved TL_LOCKED t ''target_reacquired'' ((apply_observation_values ob t m)\<lparr>tm_restore := None\<rparr>)"
  using assms unfolding mark_reacquired_oracle_def checked_run Let_def
  by (auto simp: validated_transition_Inr commit_transition_eq stripped_reasons checked_run split: if_splits)

definition restored :: "target_manager \<Rightarrow> target_manager" where
  "restored m = (case tm_restore m of
       None \<Rightarrow> forget_target m
     | Some r \<Rightarrow> m\<lparr>tm_description := sn_description r, tm_id := sn_id r, tm_confidence := sn_confidence r,
         tm_position := sn_position r, tm_velocity := sn_velocity r, tm_seen := sn_time r, tm_source := sn_source r\<rparr>)"

lemma restored_simps [simp]:
  "tm_lifecycle (restored m) = tm_lifecycle m" "tm_events (restored m) = tm_events m" "tm_spec (restored m) = tm_spec m"
  "tm_clock (restored m) = tm_clock m"
  by (simp_all add: restored_def forget_target_def split: option.split)

lemma py_strip_append: "py_strip s = s \<Longrightarrow> s \<noteq> [] \<Longrightarrow> p \<noteq> [] \<Longrightarrow> \<not> py_space (hd p) \<Longrightarrow> py_strip (p @ s) = p @ s"
proof -
  assume s: "py_strip s = s" "s \<noteq> []" and p: "p \<noteq> []" "\<not> py_space (hd p)"
  have "\<not> py_space (last s)"
  proof -
    have "rev s = dropWhile py_space (rev (dropWhile py_space s))" using s(1) by (simp add: py_strip_def rev_swap)
    then have "\<not> py_space (hd (rev s))" using s(2) by (metis hd_dropWhile rev_is_Nil_conv)
    then show ?thesis by (simp add: hd_rev)
  qed
  then obtain x xs where "rev s = x # xs" "\<not> py_space x" using s(2) by (metis hd_rev list.exhaust_sel rev_is_Nil_conv)
  moreover obtain y ys where "p = y # ys" "\<not> py_space y" using p by (cases p) auto
  ultimately show ?thesis by (simp add: py_strip_def)
qed

lemma reject_candidate_cases:
  assumes "reject_candidate fr tv rv m = (out, m')"
  obtains (raised) e where "out = Inl e" "m' = m"
    | (rejected) t reason where "out = Inr ()" "tm_lifecycle m = TL_CANDIDATE" "timely m t"
      "finite_number ''timestamp_s'' tv = Inr t"
      "m' = moved (if tm_restore m \<noteq> None then TL_REACQUIRING else TL_SEARCHING) t (''candidate_rejected:'' @ reason)
         ((restored m)\<lparr>tm_restore := None\<rparr>)"
proof -
  have reason: "stripped (''candidate_rejected:'' @ r)" if "stripped r" for r
  proof -
    have "py_strip (''candidate_rejected:'' @ r) = ''candidate_rejected:'' @ r"
      using that by (intro py_strip_append) (simp_all add: stripped_def py_space_def Let_def)
    then show ?thesis by (simp only: stripped_def) simp
  qed
  show thesis
    using assms raised rejected unfolding reject_candidate_def checked_run Let_def
    by (auto simp: validated_transition_Inr commit_transition_eq reason checked_run restored_def [symmetric] simp del: append_Cons append_Nil split: if_splits)
qed


lemma start_search_cases:
  assumes "start_search fr spec tv m = (out, m')"
  obtains (raised) e where "out = Inl e" "m' = m"
    | (searching) t where "out = Inr ()" "tm_lifecycle m = TL_UNINITIALIZED" "timely m t"
      "m' = moved TL_SEARCHING t ''search_started''
         ((forget_target m)\<lparr>tm_description := td_original spec, tm_spec := Some spec, tm_restore := None\<rparr>)"
  using assms unfolding start_search_def checked_run
  by (auto simp: validated_transition_Inr commit_transition_eq stripped_reasons forget_target_def td_description_def)

lemma tracking_cases:
  assumes "start_tracking fr tv m = (out, m') \<or> finish_tracking_segment fr tv m = (out, m')
    \<or> start_reacquiring fr tv m = (out, m')"
  obtains (raised) e where "out = Inl e" "m' = m"
    | (stepped) t new reason where "out = Inr ()" "timely m t" "m' = moved new t reason m"
      "(tm_lifecycle m, new) \<in> {(TL_LOCKED, TL_TRACKING), (TL_TRACKING, TL_LOCKED), (TL_LOST, TL_REACQUIRING)}"
proof -
  note run = validated_transition_Inr commit_transition_eq stripped_reasons checked_run
  have "thesis" if "start_tracking fr tv m = (out, m')"
    using that raised stepped [of _ TL_TRACKING] unfolding start_tracking_def by (auto simp: run split: if_splits)
  moreover have "thesis" if "finish_tracking_segment fr tv m = (out, m')"
    using that raised stepped [of _ TL_LOCKED] unfolding finish_tracking_segment_def by (auto simp: run split: if_splits)
  moreover have "thesis" if "start_reacquiring fr tv m = (out, m')"
    using that raised stepped [of _ TL_REACQUIRING] unfolding start_reacquiring_def by (auto simp: run)
  ultimately show thesis using assms by blast
qed

lemma mark_lost_cases:
  assumes "mark_lost fr tv pv vv sv m = (out, m')"
  obtains (raised) e where "out = Inl e" "m' = m"
    | (lost) t position velocity seen where "out = Inr ()" "tm_lifecycle m = TL_TRACKING" "timely m t"
      "vector_ok position" "vector_ok velocity" "\<And>s. seen = Some s \<Longrightarrow> s \<le> t"
      "\<And>s b. seen = Some s \<Longrightarrow> tm_seen m = Some b \<Longrightarrow> b \<le> s"
      "m' = moved TL_LOST t ''target_lost'' (m\<lparr>
             tm_position := (if position = None then tm_position m else position),
             tm_velocity := (if velocity = None then tm_velocity m else velocity),
             tm_seen := (if seen = None then tm_seen m else seen)\<rparr>)"
proof -
  let ?lost = "\<lambda>t position velocity seen. moved TL_LOST t ''target_lost'' (m\<lparr>
             tm_position := (if position = None then tm_position m else position),
             tm_velocity := (if velocity = None then tm_velocity m else velocity),
             tm_seen := (if seen = None then tm_seen m else seen)\<rparr>)"
  consider (bad) "\<exists>e. out = Inl e" "m' = m"
    | (good) t position velocity seen where "validated_transition fr TL_LOST tv [TL_TRACKING] m = Inr t"
      "optional_vector3 ''last_seen_position'' pv = Inr position" "optional_vector3 ''last_seen_velocity'' vv = Inr velocity"
      "(if \<exists>s \<in> set_option seen. t < s then (Inl (ValueError ''last_seen_time_s cannot be later than timestamp_s''), m)
        else case (seen, tm_seen m) of
         (Some s, Some before) \<Rightarrow>
           if s < before
           then (Inl (TargetStateError (''last_seen_time_s cannot move backward: '' @ fr s @ '' < '' @ fr before)), m)
           else commit_transition TL_LOST t ''target_lost'' (m\<lparr>
             tm_position := (if position = None then tm_position m else position),
             tm_velocity := (if velocity = None then tm_velocity m else velocity), tm_seen := Some s\<rparr>)
       | _ \<Rightarrow> commit_transition TL_LOST t ''target_lost'' (m\<lparr>
             tm_position := (if position = None then tm_position m else position),
             tm_velocity := (if velocity = None then tm_velocity m else velocity),
             tm_seen := (if seen = None then tm_seen m else seen)\<rparr>)) = (out, m')"
    using assms unfolding mark_lost_def checked_run by blast
  then show thesis
  proof cases
    case bad
    then show thesis using raised by blast
  next
    case good
    have life: "tm_lifecycle m = TL_TRACKING" "timely m t" using good(1) by (simp_all add: validated_transition_Inr)
    note vec = good(2,3) [THEN optional_vector3_ok]
    show thesis
    proof (cases "(\<exists>s \<in> set_option seen. t < s) \<or> (\<exists>s b. seen = Some s \<and> tm_seen m = Some b \<and> s < b)")
      case True
      then show thesis using good(4) raised by (auto split: if_splits option.splits)
    next
      case False
      then have "out = Inr ()" "m' = ?lost t position velocity seen"
        using good(4) life by (auto simp: commit_transition_eq stripped_reasons split: if_splits option.splits)
      then show thesis using lost [of t position velocity seen] life vec False by (auto simp: not_less)
    qed
  qed
qed

lemma terminate_cases:
  assumes "target_terminate fr tv rv m = (out, m')"
  obtains (raised) e where "out = Inl e" "m' = m"
    | (terminated) t reason where "out = Inr ()" "tm_lifecycle m \<noteq> TL_TERMINATED" "timely m t"
      "m' = moved TL_TERMINATED t reason (m\<lparr>tm_restore := None\<rparr>)"
  using assms unfolding target_terminate_def checked_run
  by (auto simp: validated_transition_Inr commit_transition_eq terminatable_states_def active_states_def)

lemma notes_cases:
  assumes "target_manager_ok m" and "update_mutable_appearance_notes v m = (out, m')"
  obtains (raised) e where "out = Inl e" "m' = m"
    | (noted) spec t where "out = Inr (spec\<lparr>td_notes := t\<rparr>)" "tm_spec m = Some spec" "texts_ok t"
      "tm_lifecycle m \<in> set active_states" "m' = m\<lparr>tm_spec := Some (spec\<lparr>td_notes := t\<rparr>)\<rparr>"
proof (cases "tm_lifecycle m \<in> set active_states \<and> tm_spec m \<noteq> None")
  case False
  then show thesis using assms(2) raised by (auto simp: update_mutable_appearance_notes_def split: if_splits option.splits)
next
  case True
  then obtain spec where spec: "tm_spec m = Some spec" by blast
  have "checked m (rbind (text_tuple ''TargetSpec.mutable_appearance_notes'' v) (\<lambda>ts. Inr (spec\<lparr>td_notes := ts\<rparr>)))
      (\<lambda>updated. if td_original updated \<noteq> td_original spec \<or> td_identity updated \<noteq> td_identity spec
          then (Inl (TargetStateError ''appearance update attempted to change identity''), m)
          else (Inr updated, m\<lparr>tm_spec := Some updated\<rparr>)) = (out, m')"
    using assms(2) True spec with_notes [OF ok_parts(2) [OF assms(1) spec]]
    by (simp add: update_mutable_appearance_notes_def)
  note run = this
  show thesis
  proof (cases "text_tuple ''TargetSpec.mutable_appearance_notes'' v")
    case (Inl e)
    show thesis by (rule raised [of e]) (use run in \<open>simp_all add: Inl\<close>)
  next
    case (Inr t)
    show thesis by (rule noted [of t spec]) (use run spec True text_tuple_ok [OF Inr] in \<open>simp_all add: Inr\<close>)
  qed
qed


section \<open>The coordinator\<close>

lemma threshold_float [simp]: "0 \<le> x \<Longrightarrow> x \<le> 1 \<Longrightarrow> confirmation_threshold name (pfloat x) = Inr x"
  by (simp add: confirmation_threshold_def)

lemma stripped_text_PStr [simp]: "stripped s \<Longrightarrow> stripped_text e (PStr s) = Inr s"
  by (simp add: stripped_text_def stripped_def)

lemma confirmation_result_ok:
  assumes "stripped (py_strip i)" "stripped reason" "name_ok target" "confidence_ok confidence"
  shows "ConfirmationResult d (PStr i) (opt_pyval PStr target) (opt_pyval pfloat confidence) (PStr reason)
    = Inr \<lparr>cf_decision = d, cf_candidate = py_strip i, cf_target = target, cf_confidence = confidence, cf_reason = reason\<rparr>"
  using assms by (cases target; cases confidence)
    (auto simp: ConfirmationResult_def stripped_text_def stripped_def name_ok_def confidence_ok_def opt_check_def)

lemma registration_cases:
  assumes "target_manager_ok m" and "register_candidate fr c m = (out, m')"
  obtains (raised) e where "out = Inl e" "m' = m"
    | (candidate) t ob where "out = Inr \<lparr>cf_decision = CD_PENDING, cf_candidate = ob_id ob, cf_target = None,
        cf_confidence = Some (dc_confidence c), cf_reason = ''candidate_registered''\<rparr>"
      "tm_lifecycle m \<in> {TL_SEARCHING, TL_REACQUIRING}" "timely m t" "t = dc_time c"
      "validated_observation_values (PStr (dc_id c)) (pfloat (dc_confidence c)) (PStr (dc_source c))
         (opt_pyval point_list (dc_position c)) (opt_pyval point_list (dc_velocity c)) = Inr ob"
      "\<not> is_privileged_oracle_source (ob_source ob)"
      "m' = moved TL_CANDIDATE t ''candidate_detected'' (apply_observation_values ob t
         (m\<lparr>tm_restore := if tm_lifecycle m = TL_REACQUIRING then Some (snapshot_of m) else None\<rparr>))"
proof (cases "tm_lifecycle m \<in> {TL_SEARCHING, TL_REACQUIRING}")
  case False
  then show thesis using assms(2) raised by (auto simp: register_candidate_def)
next
  case True
  obtain res s where set: "set_candidate fr (PStr (dc_id c)) (pfloat (dc_time c)) (pfloat (dc_confidence c))
      (PStr (dc_source c)) (opt_pyval point_list (dc_position c)) (opt_pyval point_list (dc_velocity c)) m = (res, s)"
    by fastforce
  have run: "andthen (res, s) (\<lambda>_ m. (ConfirmationResult CD_PENDING (PStr (dc_id c)) PNone (pfloat (dc_confidence c))
      (PStr ''candidate_registered''), m)) = (out, m')"
    using assms(2) True by (auto simp: register_candidate_def set)
  from assms(1) set show thesis
  proof (cases rule: set_candidate_cases)
    case (raised e)
    then show thesis using run that(1) [of e] by simp
  next
    case (candidate t ob)
    note v = observation_values_Inr [OF candidate(5)]
    have id: "stripped (py_strip (dc_id c))" "ob_id ob = py_strip (dc_id c)" using v(1,6) by auto
    have c: "confidence_ok (Some (dc_confidence c))" "ob_confidence ob = Some (dc_confidence c)"
      using v(2,8) by (auto simp: optional_confidence_def opt_check_def split: if_splits)
    have "ConfirmationResult CD_PENDING (PStr (dc_id c)) PNone (pfloat (dc_confidence c)) (PStr ''candidate_registered'')
        = Inr \<lparr>cf_decision = CD_PENDING, cf_candidate = ob_id ob, cf_target = None,
        cf_confidence = Some (dc_confidence c), cf_reason = ''candidate_registered''\<rparr>"
      using confirmation_result_ok [OF id(1) _ _ c(1), of "''candidate_registered''" None]
      by (simp add: id(2) name_ok_def stripped_def py_strip_def py_space_def)
    then have out: "out = Inr \<lparr>cf_decision = CD_PENDING, cf_candidate = ob_id ob, cf_target = None,
        cf_confidence = Some (dc_confidence c), cf_reason = ''candidate_registered''\<rparr>" "m' = s"
      using run unfolding candidate(1) by simp_all
    have "t = dc_time c" using candidate(4) by simp
    then show thesis by (rule that(2) [OF out(1) candidate(2,3) _ candidate(5,6)]) (simp only: out(2) candidate(7))
  qed
qed

text \<open>The evidence passes every threshold of the policy.\<close>

definition sufficient ::
  "confirmation_policy \<Rightarrow> track_evidence \<Rightarrow> semantic_evidence \<Rightarrow> identity_evidence \<Rightarrow> bool" where
  "sufficient p tr se ie \<longleftrightarrow> cp_observations p \<le> tk_count tr \<and> cp_duration p \<le> tk_duration tr
     \<and> cp_track p \<le> tk_confidence tr \<and> cp_semantic p \<le> se_confidence se \<and> cp_identity p \<le> ie_confidence ie
     \<and> cp_consistent p \<le> ie_count ie"

definition positive :: "track_evidence \<Rightarrow> semantic_evidence \<Rightarrow> identity_evidence \<Rightarrow> bool" where
  "positive tr se ie \<longleftrightarrow> tk_stable tr \<and> se_matches se \<and> ie_reidentified ie \<and> ie_consistent ie"

text \<open>The evidence is about the candidate of the manager, about its target, and in order.\<close>

definition coherent ::
  "target_manager \<Rightarrow> track_evidence \<Rightarrow> semantic_evidence \<Rightarrow> identity_evidence \<Rightarrow> bool" where
  "coherent m tr se ie \<longleftrightarrow> tm_lifecycle m = TL_CANDIDATE
     \<and> Some (tk_id tr) = tm_id m \<and> Some (se_id se) = tm_id m \<and> Some (ie_id ie) = tm_id m
     \<and> se_description se = tm_description m
     \<and> (\<forall>t \<in> set_option (tm_seen m). t \<le> tk_time tr \<and> tk_duration tr \<le> tk_time tr - t + 1 / 10 ^ 12)
     \<and> tk_time tr \<le> se_time se \<and> se_time se \<le> ie_time ie \<and> ie_count ie \<le> tk_count tr"

lemma shortfalls_sufficient: "shortfalls p tr se ie = [] \<longleftrightarrow> sufficient p tr se ie"
  by (simp add: shortfalls_def sufficient_def not_less)

lemma rejection_positive: "rejection_reason tr se ie = None \<longleftrightarrow> positive tr se ie"
  by (simp add: rejection_reason_def positive_def)

lemma evidence_error_coherent:
  assumes "target_manager_ok m"
  shows "evidence_error (snapshot_of m) tr se ie = None \<longleftrightarrow> coherent m tr se ie"
proof (cases "tm_lifecycle m = TL_CANDIDATE")
  case True
  then obtain i t where m: "tm_id m = Some i" "tm_seen m = Some t"
    using assms by (auto simp: target_manager_defs)
  have "{tk_id tr, se_id se, ie_id ie} = {i} \<longleftrightarrow> tk_id tr = i \<and> se_id se = i \<and> ie_id ie = i" by auto
  then show ?thesis
    using True m by (auto simp: evidence_error_def coherent_def snapshot_of_def not_less)
qed (simp add: evidence_error_def coherent_def snapshot_of_def)

text \<open>Evidence as its constructors make it.\<close>

definition evidence_wf :: "track_evidence \<Rightarrow> semantic_evidence \<Rightarrow> identity_evidence \<Rightarrow> bool" where
  "evidence_wf tr se ie \<longleftrightarrow> stripped (tk_id tr) \<and> stripped (ie_target ie)
     \<and> confidence_ok (Some (tk_confidence tr)) \<and> confidence_ok (Some (se_confidence se))
     \<and> confidence_ok (Some (ie_confidence ie))"

lemma evidence_finite_float: "evidence_confidence name v = Inr x \<Longrightarrow> confidence_ok (Some x)"
  by (auto simp: evidence_confidence_def rbind_eq_Inr confidence_ok_def split: if_splits)

lemma evidence_constructed:
  assumes "ShortTrackEvidence v1 v2 v3 v4 v5 v6 = Inr tr" and "SemanticVerification w1 w2 w3 w4 w5 w6 = Inr se"
    and "IdentityConsistencyEvidence u1 u2 u3 u4 u5 u6 u7 u8 = Inr ie"
  shows "evidence_wf tr se ie"
  using assms
  by (auto simp: evidence_wf_def ShortTrackEvidence_def SemanticVerification_def IdentityConsistencyEvidence_def
      rbind_eq_Inr evidence_text_def dest: evidence_finite_float split: if_splits)

definition evaluated_at :: "track_evidence \<Rightarrow> semantic_evidence \<Rightarrow> identity_evidence \<Rightarrow> rat" where
  "evaluated_at tr se ie = max (tk_time tr) (max (se_time se) (ie_time ie))"

definition joint_confidence :: "track_evidence \<Rightarrow> semantic_evidence \<Rightarrow> identity_evidence \<Rightarrow> rat" where
  "joint_confidence tr se ie = min (tk_confidence tr) (min (se_confidence se) (ie_confidence ie))"


lemma stripped_first:
  assumes "stripped s"
  shows "\<not> py_space (hd (s @ t))"
proof -
  have "s \<noteq> []" "py_strip s = s" using assms by (simp_all add: stripped_def)
  then obtain c cs where s: "s = c # cs" by (cases s) auto
  have "length (dropWhile py_space (rev (dropWhile py_space s))) \<le> length (dropWhile py_space s)"
    using length_dropWhile_le [of py_space "rev (dropWhile py_space s)"] by simp
  then have "length s \<le> length (dropWhile py_space s)"
    using \<open>py_strip s = s\<close> by (metis length_rev py_strip_def)
  then show ?thesis using length_dropWhile_le [of py_space cs] by (auto simp: s split: if_splits)
qed

lemma insufficient_stripped:
  assumes "shortfalls p tr se ie \<noteq> []"
  shows "stripped (''insufficient_evidence:'' @ py_join '','' (shortfalls p tr se ie))"
proof -
  have names: "list_all stripped [''track_observation_count'', ''track_duration'', ''track_confidence'',
      ''semantic_confidence'', ''identity_confidence'', ''consistent_observations'']" by code_simp
  have "stripped (py_join '','' xs)" if "list_all stripped xs" "xs \<noteq> []" for xs
    using that
  proof (induction "'',''" xs rule: py_join.induct)
    case (3 x y ys)
    then have "stripped x" "stripped (py_join '','' (y # ys))" by simp_all
    moreover have "\<not> py_space (hd (x @ '',''))" using \<open>stripped x\<close> by (rule stripped_first)
    ultimately show ?case using py_strip_append [of "py_join '','' (y # ys)" "x @ '',''"] by (simp add: stripped_def)
  qed simp_all
  moreover have "list_all stripped (shortfalls p tr se ie)" using names by (simp add: shortfalls_def)
  ultimately have "stripped (py_join '','' (shortfalls p tr se ie))" using assms by blast
  then have "py_strip (''insufficient_evidence:'' @ py_join '','' (shortfalls p tr se ie))
      = ''insufficient_evidence:'' @ py_join '','' (shortfalls p tr se ie)"
    by (intro py_strip_append) (simp_all add: stripped_def py_space_def Let_def)
  then show ?thesis by (simp only: stripped_def) simp
qed

lemma reasons_stripped:
  "rejection_reason tr se ie = Some reason \<Longrightarrow> stripped reason"
  "stripped ''track_semantic_reid_confirmed''"
  by (auto simp: rejection_reason_def split: if_splits) (code_simp+)

lemma confirmed_vision_visual: "\<not> is_privileged_oracle_source ''confirmed_vision''"
  by code_simp

lemma evaluation_timely:
  assumes "target_manager_ok m" and "coherent m tr se ie"
  shows "timely m (evaluated_at tr se ie)"
  using assms by (auto simp: target_manager_defs coherent_def timely_def evaluated_at_def le_max_iff_disj)

lemma reject_candidate_eq:
  assumes "tm_lifecycle m = TL_CANDIDATE" "timely m t" "stripped reason"
  shows "\<exists>words. reject_candidate fr (pfloat t) (PStr reason) m = (Inr (),
    moved (if tm_restore m \<noteq> None then TL_REACQUIRING else TL_SEARCHING) t words ((restored m)\<lparr>tm_restore := None\<rparr>))"
proof -
  have "reject_candidate fr (pfloat t) (PStr reason) m \<noteq> (Inl e, m')" for e m'
  proof
    assume "reject_candidate fr (pfloat t) (PStr reason) m = (Inl e, m')"
    moreover have "validated_transition fr new (pfloat t) [TL_CANDIDATE] m = Inr t" for new
      using assms by (simp add: validated_transition_Inr)
    moreover have "stripped (''candidate_rejected:'' @ reason)"
    proof -
      have "py_strip (''candidate_rejected:'' @ reason) = ''candidate_rejected:'' @ reason"
        using assms(3) by (intro py_strip_append) (simp_all add: stripped_def py_space_def Let_def)
      then show ?thesis by (simp only: stripped_def) simp
    qed
    ultimately show False
      using assms(1,3) unfolding reject_candidate_def Let_def
      by (simp add: commit_transition_eq restored_def [symmetric] del: append_Cons append_Nil)
  qed
  moreover obtain out m' where run: "reject_candidate fr (pfloat t) (PStr reason) m = (out, m')" by fastforce
  from run show ?thesis
  proof (cases rule: reject_candidate_cases)
    case raised
    then show ?thesis using calculation run by blast
  next
    case (rejected t' words)
    then show ?thesis using run by (intro exI [of _ "''candidate_rejected:'' @ words"]) simp
  qed
qed

text \<open>What one evidence bundle does to the manager, on every branch.\<close>

lemma confirmation_branches:
  assumes "target_manager_ok m" and "evidence_wf tr se ie"
    and "confirmation_evaluate fr p tr se ie m = (out, m')"
  shows "if \<not> coherent m tr se ie then (\<exists>e. out = Inl (CandidateConfirmationError e)) \<and> m' = m
    else if \<not> positive tr se ie
    then (\<exists>reason. rejection_reason tr se ie = Some reason \<and> out = Inr \<lparr>cf_decision = CD_REJECTED,
        cf_candidate = tk_id tr, cf_target = None, cf_confidence = None, cf_reason = reason\<rparr>)
      \<and> tm_lifecycle m' = (if tm_restore m \<noteq> None then TL_REACQUIRING else TL_SEARCHING)
      \<and> (case tm_restore m of Some r \<Rightarrow> snapshot_of m' = r
         | None \<Rightarrow> blank (snapshot_of m') \<and> tm_description m' = tm_description m)
    else if \<not> sufficient p tr se ie
    then (\<exists>reason. out = Inr \<lparr>cf_decision = CD_PENDING, cf_candidate = tk_id tr, cf_target = None,
        cf_confidence = Some (joint_confidence tr se ie), cf_reason = reason\<rparr>) \<and> m' = m
    else if \<exists>r. tm_restore m = Some r \<and> sn_id r \<noteq> Some (ie_target ie)
    then (\<exists>e. out = Inl (TargetStateError e)) \<and> m' = m
    else out = Inr \<lparr>cf_decision = CD_CONFIRMED, cf_candidate = tk_id tr, cf_target = Some (ie_target ie),
        cf_confidence = Some (joint_confidence tr se ie), cf_reason = ''track_semantic_reid_confirmed''\<rparr>
      \<and> tm_lifecycle m' = TL_LOCKED \<and> tm_id m' = Some (ie_target ie) \<and> tm_restore m' = None
      \<and> tm_confidence m' = Some (joint_confidence tr se ie) \<and> tm_source m' = Some ''confirmed_vision''
      \<and> tm_seen m' = Some (evaluated_at tr se ie)
      \<and> tm_position m' = tm_position m \<and> tm_velocity m' = tm_velocity m"
proof -
  let ?s = "snapshot_of m" and ?t = "evaluated_at tr se ie" and ?c = "joint_confidence tr se ie"
  have wf: "stripped (tk_id tr)" "stripped (ie_target ie)" "confidence_ok (Some ?c)"
    using assms(2) by (auto simp: evidence_wf_def joint_confidence_def confidence_ok_def min_def)
  note run = assms(3) [unfolded confirmation_evaluate_def manager_snapshot_eq [OF assms(1)] checked_simps Let_def
      evaluated_at_def [symmetric] joint_confidence_def [symmetric]]
  note time = evaluation_timely [OF assms(1)]
  show ?thesis
  proof (cases "evidence_error ?s tr se ie")
    case (Some e)
    then have "\<not> coherent m tr se ie" using evidence_error_coherent [OF assms(1), of tr se ie] by auto
    moreover have "\<exists>t. e = CandidateConfirmationError t"
      using Some by (auto simp: evidence_error_def split: if_splits option.splits)
    ultimately show ?thesis using run Some by auto
  next
    case None
    then have coh: "coherent m tr se ie" using evidence_error_coherent [OF assms(1), of tr se ie] by blast
    then have id: "sn_id ?s = Some (tk_id tr)" "tm_lifecycle m = TL_CANDIDATE"
      by (simp_all add: coherent_def snapshot_of_def)
    note run = run [unfolded None option.case id(1)]
    show ?thesis
    proof (cases "rejection_reason tr se ie")
      case (Some reason)
      then have neg: "\<not> positive tr se ie" using rejection_positive [of tr se ie] by auto
      obtain words where "reject_candidate fr (pfloat ?t) (PStr reason) m = (Inr (),
          moved (if tm_restore m \<noteq> None then TL_REACQUIRING else TL_SEARCHING) ?t words ((restored m)\<lparr>tm_restore := None\<rparr>))"
        using reject_candidate_eq [OF id(2) time [OF coh] reasons_stripped(1) [OF Some]] by blast
      moreover have res: "ConfirmationResult CD_REJECTED (PStr (tk_id tr)) PNone PNone (PStr reason)
          = Inr \<lparr>cf_decision = CD_REJECTED, cf_candidate = tk_id tr, cf_target = None, cf_confidence = None, cf_reason = reason\<rparr>"
        using confirmation_result_ok [of "tk_id tr" reason None None] wf(1) reasons_stripped(1) [OF Some]
        by (simp add: stripped_def name_ok_def confidence_ok_def)
      ultimately have out: "out = Inr \<lparr>cf_decision = CD_REJECTED, cf_candidate = tk_id tr, cf_target = None,
          cf_confidence = None, cf_reason = reason\<rparr>"
        and m': "m' = moved (if tm_restore m \<noteq> None then TL_REACQUIRING else TL_SEARCHING) ?t words ((restored m)\<lparr>tm_restore := None\<rparr>)"
        using run unfolding Some by simp_all
      have "case tm_restore m of Some r \<Rightarrow> snapshot_of m' = r
         | None \<Rightarrow> blank (snapshot_of m') \<and> tm_description m' = tm_description m"
        using assms(1) unfolding m'
        by (auto simp: moved_def restored_def forget_target_def snapshot_of_def blank_def target_manager_ok_def
            restore_ok_def split: option.split)
      then show ?thesis using coh neg out m' Some by (simp add: moved_def)
    next
      case pos: None
      then have posi: "positive tr se ie" using rejection_positive by blast
      show ?thesis
      proof (cases "sufficient p tr se ie")
        case False
        then have "shortfalls p tr se ie \<noteq> []" using shortfalls_sufficient by blast
        then have "(out, m') = (ConfirmationResult CD_PENDING (PStr (tk_id tr)) PNone (pfloat ?c)
            (PStr (''insufficient_evidence:'' @ py_join '','' (shortfalls p tr se ie))), m)"
          using run unfolding pos by simp
        moreover have "stripped (''insufficient_evidence:'' @ py_join '','' (shortfalls p tr se ie))"
          using \<open>shortfalls p tr se ie \<noteq> []\<close> by (rule insufficient_stripped)
        ultimately show ?thesis
          using confirmation_result_ok [of "tk_id tr" _ None "Some ?c"] wf coh posi False
          by (simp add: stripped_def name_ok_def)
      next
        case suf: True
        then have short: "shortfalls p tr se ie = []" using shortfalls_sufficient by blast
        let ?lock = "lock_confirmed_candidate fr (PStr (ie_target ie)) (pfloat ?t) (pfloat ?c) (PStr ''confirmed_vision'') PNone PNone m"
        have vals: "validated_observation_values (PStr (ie_target ie)) (pfloat ?c) (PStr ''confirmed_vision'') PNone PNone
            = Inr \<lparr>ob_id = ie_target ie, ob_confidence = Some ?c, ob_source = ''confirmed_vision'', ob_position = None, ob_velocity = None\<rparr>"
          using wf optional_confidence_again [of "Some ?c"] optional_name_again [of "Some ''confirmed_vision''"] stripped_reasons(12)
            optional_vector3_again [of None]
          by (simp add: validated_observation_values_def name_ok_def vector_ok_def)
        have valid: "validated_transition fr TL_LOCKED (pfloat ?t) [TL_CANDIDATE] m = Inr ?t"
          using id(2) time [OF coh] by (simp add: validated_transition_Inr)
        have restore: "sn_id r \<noteq> None" if "tm_restore m = Some r" for r
          using assms(1) that by (auto simp: target_manager_ok_def restore_ok_def targeted_def)
        have run: "andthen ?lock (\<lambda>_ m. (ConfirmationResult CD_CONFIRMED (PStr (tk_id tr)) (PStr (ie_target ie)) (pfloat ?c)
             (PStr ''track_semantic_reid_confirmed''), m)) = (out, m')"
          using run unfolding pos short by simp
        show ?thesis
        proof (cases "\<exists>r. tm_restore m = Some r \<and> sn_id r \<noteq> Some (ie_target ie)")
          case True
          then have "\<exists>e. ?lock = (Inl (TargetStateError e), m)"
            using restore unfolding lock_confirmed_candidate_def valid vals by (auto simp: confirmed_vision_visual)
          then show ?thesis using run coh posi suf True by auto
        next
          case False
          let ?text = "if tm_restore m \<noteq> None then ''target_reacquired_from_candidate'' else ''target_locked_from_candidate''"
          have "?lock = (Inr (), moved TL_LOCKED ?t ?text ((apply_observation_values \<lparr>ob_id = ie_target ie, ob_confidence = Some ?c,
              ob_source = ''confirmed_vision'', ob_position = None, ob_velocity = None\<rparr> ?t m)\<lparr>tm_restore := None\<rparr>))"
            using False id(2) stripped_reasons(3,4) unfolding lock_confirmed_candidate_def valid vals
            by (auto simp: confirmed_vision_visual commit_transition_eq)
          moreover have "ConfirmationResult CD_CONFIRMED (PStr (tk_id tr)) (PStr (ie_target ie)) (pfloat ?c)
              (PStr ''track_semantic_reid_confirmed'') = Inr \<lparr>cf_decision = CD_CONFIRMED, cf_candidate = tk_id tr,
                cf_target = Some (ie_target ie), cf_confidence = Some ?c, cf_reason = ''track_semantic_reid_confirmed''\<rparr>"
            using confirmation_result_ok [of "tk_id tr" "''track_semantic_reid_confirmed''" "Some (ie_target ie)" "Some ?c"]
              wf reasons_stripped(2) by (simp add: stripped_def name_ok_def)
          ultimately show ?thesis
            using run coh posi suf False by (auto simp: moved_def apply_observation_values_def)
        qed
      qed
    qed
  qed
qed


section \<open>Every operation\<close>

datatype target_op =
    StartSearch target_spec pyval
  | SetCandidate pyval pyval pyval pyval pyval pyval
  | LockDirect
  | LockConfirmed pyval pyval pyval pyval pyval pyval
  | LockOracle pyval pyval pyval pyval pyval
  | RejectCandidate pyval pyval
  | StartTracking pyval
  | FinishSegment pyval
  | MarkLost pyval pyval pyval pyval
  | StartReacquiring pyval
  | MarkReacquired
  | ReacquiredOracle pyval pyval pyval pyval pyval
  | TerminateTarget pyval pyval
  | ResetTarget
  | UpdateNotes pyval
  | RegisterCandidate detection_candidate
  | EvaluateEvidence confirmation_policy track_evidence semantic_evidence identity_evidence

definition outcome :: "'a result \<times> target_manager \<Rightarrow> exn option \<times> target_manager" where
  "outcome r = (case fst r of Inl e \<Rightarrow> Some e | Inr _ \<Rightarrow> None, snd r)"

fun target_do :: "(rat \<Rightarrow> string) \<Rightarrow> target_op \<Rightarrow> target_manager \<Rightarrow> exn option \<times> target_manager" where
  "target_do fr (StartSearch s t) m = outcome (start_search fr s t m)"
| "target_do fr (SetCandidate i t c s p v) m = outcome (set_candidate fr i t c s p v m)"
| "target_do fr LockDirect m = outcome (target_lock m)"
| "target_do fr (LockConfirmed i t c s p v) m = outcome (lock_confirmed_candidate fr i t c s p v m)"
| "target_do fr (LockOracle i t c p v) m = outcome (lock_oracle_from_search fr i t c p v m)"
| "target_do fr (RejectCandidate t r) m = outcome (reject_candidate fr t r m)"
| "target_do fr (StartTracking t) m = outcome (start_tracking fr t m)"
| "target_do fr (FinishSegment t) m = outcome (finish_tracking_segment fr t m)"
| "target_do fr (MarkLost t p v s) m = outcome (mark_lost fr t p v s m)"
| "target_do fr (StartReacquiring t) m = outcome (start_reacquiring fr t m)"
| "target_do fr MarkReacquired m = outcome (mark_reacquired m)"
| "target_do fr (ReacquiredOracle i t c p v) m = outcome (mark_reacquired_oracle fr i t c p v m)"
| "target_do fr (TerminateTarget t r) m = outcome (target_terminate fr t r m)"
| "target_do fr ResetTarget m = outcome (target_reset m)"
| "target_do fr (UpdateNotes v) m = outcome (update_mutable_appearance_notes v m)"
| "target_do fr (RegisterCandidate c) m = outcome (register_candidate fr c m)"
| "target_do fr (EvaluateEvidence p tr se ie) m = outcome (confirmation_evaluate fr p tr se ie m)"

text \<open>The arguments whose classes enforce their form.\<close>

fun op_wf :: "target_op \<Rightarrow> bool" where
  "op_wf (StartSearch s t) = target_spec_ok s"
| "op_wf (EvaluateEvidence p tr se ie) = evidence_wf tr se ie"
| "op_wf _ = True"

text \<open>The operations that put a target in place without visual evidence.\<close>

fun visual_op :: "target_op \<Rightarrow> bool" where
  "visual_op (LockConfirmed i t c s p v) = False"
| "visual_op (LockOracle i t c p v) = False"
| "visual_op (ReacquiredOracle i t c p v) = False"
| "visual_op _ = True"

text \<open>The identity the mission follows, also while a new candidate for it is examined.\<close>

fun followed_by :: "target_lifecycle \<Rightarrow> string option \<Rightarrow> target_snapshot option \<Rightarrow> string option" where
  "followed_by TL_LOCKED i r = i"
| "followed_by TL_TRACKING i r = i"
| "followed_by TL_LOST i r = i"
| "followed_by TL_REACQUIRING i r = i"
| "followed_by TL_CANDIDATE i r = (case r of Some s \<Rightarrow> sn_id s | None \<Rightarrow> None)"
| "followed_by _ i r = None"

definition followed :: "target_manager \<Rightarrow> string option" where
  "followed m = followed_by (tm_lifecycle m) (tm_id m) (tm_restore m)"

text \<open>What one operation does to a well-formed manager.\<close>

definition effect :: "target_op \<Rightarrow> target_manager \<Rightarrow> target_manager \<Rightarrow> bool" where
  "effect op m m' \<longleftrightarrow> target_manager_ok m'
     \<and> (followed m \<noteq> None \<and> visual_op op \<and> tm_lifecycle m' \<noteq> TL_TERMINATED \<longrightarrow> followed m' = followed m)
     \<and> (followed m = None \<and> visual_op op \<and> followed m' \<noteq> None \<longrightarrow>
          (\<exists>p tr se ie. op = EvaluateEvidence p tr se ie \<and> coherent m tr se ie \<and> positive tr se ie
             \<and> sufficient p tr se ie \<and> followed m' = Some (ie_target ie)))"

lemma followed_moved:
  "followed (moved new t reason m) = followed_by new (tm_id m) (tm_restore m)"
  by (simp add: followed_def moved_def)

lemma effect_step:
  assumes ok: "target_manager_ok m" and move: "new \<in> set (lifecycle_allowed (tm_lifecycle m))" "timely m t"
    and same: "tm_lifecycle m' = tm_lifecycle m" "tm_events m' = tm_events m" "tm_id m' = tm_id m" "tm_description m' = tm_description m"
      "tm_spec m' = tm_spec m" "tm_source m' = tm_source m" "tm_confidence m' = tm_confidence m" "tm_restore m' = None"
    and data: "vector_ok (tm_position m')" "vector_ok (tm_velocity m')" "tm_seen m \<noteq> None \<longrightarrow> tm_seen m' \<noteq> None"
    and kind: "new = TL_TERMINATED \<or> (tm_lifecycle m \<in> {TL_LOCKED, TL_TRACKING, TL_LOST} \<and> new \<in> {TL_LOCKED, TL_TRACKING, TL_LOST, TL_REACQUIRING})"
  shows "effect op m (moved new t reason m')"
proof -
  have "target_manager_ok (moved new t reason m')"
  proof (rule moved_ok [OF ok move same(1,2)])
    show "snapshot_wf (snapshot_of m')"
      using ok_parts(1) [OF ok] same data by (simp add: snapshot_wf_def snapshot_of_def)
    show "targeted (snapshot_of m')" if "new \<in> {TL_CANDIDATE, TL_LOCKED, TL_TRACKING, TL_LOST, TL_REACQUIRING}"
      using that kind ok_parts(4) [OF ok] same data by (auto simp: targeted_def snapshot_of_def)
    show "\<exists>s. tm_spec m' = Some s \<and> tm_description m' = td_original s" if "new \<in> set active_states"
      using that kind ok_active [OF ok] same by (auto simp: active_states_def)
  qed (use ok_parts(2) [OF ok] same kind in \<open>auto simp: active_states_def\<close>)
  moreover have "followed (moved new t reason m') = followed m" if "new \<noteq> TL_TERMINATED"
    using that kind same unfolding followed_moved unfolding followed_def by auto
  moreover have "tm_lifecycle (moved new t reason m') = new" by (simp add: moved_def)
  moreover have "followed (moved TL_TERMINATED t reason m') = None" by (simp add: followed_moved)
  ultimately show ?thesis
    by (cases "new = TL_TERMINATED") (auto simp: effect_def)
qed

lemma effect_refl: "target_manager_ok m \<Longrightarrow> effect op m m"
  by (auto simp: effect_def)

lemma effect_candidate:
  assumes ok: "target_manager_ok m" and state: "tm_lifecycle m \<in> {TL_SEARCHING, TL_REACQUIRING}" "timely m t"
    and v: "validated_observation_values i c s p v = Inr ob"
  shows "effect op m (moved TL_CANDIDATE t reason (apply_observation_values ob t
    (m\<lparr>tm_restore := if tm_lifecycle m = TL_REACQUIRING then Some (snapshot_of m) else None\<rparr>)))"
    (is "effect op m (moved TL_CANDIDATE t reason ?m)")
proof -
  let ?r = "m\<lparr>tm_restore := if tm_lifecycle m = TL_REACQUIRING then Some (snapshot_of m) else None\<rparr>"
  have "snapshot_wf (snapshot_of ?r)" using ok_parts(1) [OF ok] by (simp add: snapshot_wf_def snapshot_of_def)
  note applied = applied_wf [OF v this, of t]
  have "target_manager_ok (moved TL_CANDIDATE t reason ?m)"
  proof (rule moved_ok [OF ok _ state(2)])
    show "TL_CANDIDATE \<in> set (lifecycle_allowed (tm_lifecycle m))" using state(1) by auto
    show "\<exists>s. tm_spec ?m = Some s \<and> tm_description ?m = td_original s"
      using ok_active [OF ok] state(1) by (auto simp: active_states_def)
    show "tm_seen ?m = Some t" by (simp add: apply_observation_values_def)
    show "TL_CANDIDATE = TL_CANDIDATE \<and> snapshot_wf r \<and> targeted r \<and> sn_lifecycle r = TL_REACQUIRING
        \<and> sn_description r = tm_description ?m" if "tm_restore ?m = Some r" for r
      using that ok_parts(1,4) [OF ok] by (auto simp: snapshot_of_def split: if_splits)
  qed (use applied ok_parts(2) [OF ok] in auto)
  moreover have "followed (moved TL_CANDIDATE t reason ?m) = followed m"
    using state(1) ok_parts(3) [OF ok] unfolding followed_moved unfolding followed_def by (auto simp: snapshot_of_def)
  ultimately show ?thesis by (auto simp: effect_def)
qed


lemma effect_locked:
  assumes ok: "target_manager_ok m" and state: "tm_lifecycle m \<in> {TL_SEARCHING, TL_CANDIDATE, TL_REACQUIRING}" "timely m t"
    and v: "validated_observation_values i c s p v = Inr ob"
  shows "target_manager_ok (moved TL_LOCKED t reason ((apply_observation_values ob t m)\<lparr>tm_restore := None\<rparr>))"
    (is "target_manager_ok (moved TL_LOCKED t reason ?m)")
proof (rule moved_ok [OF ok _ state(2)])
  note applied = applied_wf [OF v ok_parts(1) [OF ok], of t]
  have same: "snapshot_of ?m = snapshot_of (apply_observation_values ob t m)" by (simp add: snapshot_of_def)
  show "snapshot_wf (snapshot_of ?m)" "targeted (snapshot_of ?m)" unfolding same by (fact applied)+
  show "TL_LOCKED \<in> set (lifecycle_allowed (tm_lifecycle m))" using state(1) by auto
  show "\<exists>s. tm_spec ?m = Some s \<and> tm_description ?m = td_original s"
    using ok_active [OF ok] state(1) by (auto simp: active_states_def)
qed (use ok_parts(2) [OF ok] in auto)

lemma effect_rejected:
  assumes ok: "target_manager_ok m" and state: "tm_lifecycle m = TL_CANDIDATE" "timely m t"
  shows "effect op m (moved (if tm_restore m \<noteq> None then TL_REACQUIRING else TL_SEARCHING) t reason
    ((restored m)\<lparr>tm_restore := None\<rparr>))"
    (is "effect op m (moved ?new t reason ?m)")
proof -
  have spec: "\<exists>s. tm_spec m = Some s \<and> tm_description m = td_original s"
    using ok_active [OF ok] state(1) by (auto simp: active_states_def)
  have description: "tm_description ?m = tm_description m"
    using ok by (auto simp: restored_def forget_target_def target_manager_ok_def restore_ok_def split: option.split)
  have content: "snapshot_wf (snapshot_of ?m) \<and> (if tm_restore m \<noteq> None then targeted (snapshot_of ?m) else blank (snapshot_of ?m))"
  proof (cases "tm_restore m")
    case None
    then show ?thesis using ok_parts(1) [OF ok]
      by (simp add: restored_def forget_target_def snapshot_wf_def snapshot_of_def blank_def name_ok_def confidence_ok_def vector_ok_def)
  next
    case (Some r)
    then have "snapshot_wf r" "targeted r" using ok by (auto simp: target_manager_ok_def restore_ok_def)
    then show ?thesis using Some by (simp add: restored_def snapshot_wf_def snapshot_of_def targeted_def)
  qed
  have "target_manager_ok (moved ?new t reason ?m)"
  proof (rule moved_ok [OF ok _ state(2)])
    show "?new \<in> set (lifecycle_allowed (tm_lifecycle m))" using state(1) by simp
    show "\<exists>s. tm_spec ?m = Some s \<and> tm_description ?m = td_original s" using spec description by simp
  qed (use content ok_parts(2) [OF ok] in \<open>auto split: if_splits\<close>)
  moreover have "followed (moved ?new t reason ?m) = followed m"
    using state(1) unfolding followed_moved unfolding followed_def by (auto simp: restored_def)
  ultimately show ?thesis by (auto simp: effect_def)
qed

lemma effect_searching:
  assumes ok: "target_manager_ok m" and state: "tm_lifecycle m = TL_UNINITIALIZED" "timely m t" and spec: "target_spec_ok s"
  shows "effect op m (moved TL_SEARCHING t reason
    ((forget_target m)\<lparr>tm_description := td_original s, tm_spec := Some s, tm_restore := None\<rparr>))"
    (is "effect op m (moved TL_SEARCHING t reason ?m)")
proof -
  have "target_manager_ok (moved TL_SEARCHING t reason ?m)"
    by (rule moved_ok [OF ok _ state(2)])
      (use state(1) spec in \<open>auto simp: forget_target_def snapshot_wf_def snapshot_of_def blank_def name_ok_def
        confidence_ok_def vector_ok_def target_spec_ok_def text_ok_def\<close>)
  moreover have "followed (moved TL_SEARCHING t reason ?m) = followed m"
    using state(1) unfolding followed_moved unfolding followed_def by simp
  ultimately show ?thesis by (auto simp: effect_def)
qed

lemma target_init_ok: "target_manager_ok target_manager_init"
  using stripped_reasons(11)
  by (simp add: target_manager_init_def target_manager_defs history_ok_def active_states_def name_ok_def confidence_ok_def
      vector_ok_def)

lemma evaluate_state:
  assumes "target_manager_ok m" and "confirmation_evaluate fr p tr se ie m = (out, m')"
  obtains (kept) "m' = m"
    | (rejecting) res t reason where "reject_candidate fr t reason m = (res, m')"
    | (locking) res t c where "lock_confirmed_candidate fr (PStr (ie_target ie)) t c (PStr ''confirmed_vision'') PNone PNone m = (res, m')"
        "coherent m tr se ie" "positive tr se ie" "sufficient p tr se ie"
proof (cases "evidence_error (snapshot_of m) tr se ie")
  case (Some e)
  then show thesis using assms(2) kept by (simp add: confirmation_evaluate_def manager_snapshot_eq [OF assms(1)])
next
  case None
  then have coh: "coherent m tr se ie" using evidence_error_coherent [OF assms(1), of tr se ie] by blast
  note run = assms(2) [unfolded confirmation_evaluate_def manager_snapshot_eq [OF assms(1)] checked_simps Let_def None option.case]
  show thesis
  proof (cases "rejection_reason tr se ie")
    case (Some reason)
    then show thesis using run rejecting by (auto simp: andthen_run)
  next
    case pos: None
    then have "positive tr se ie" using rejection_positive by blast
    then show thesis
      using run [unfolded pos option.case] kept locking [OF _ coh] shortfalls_sufficient [of p tr se ie]
      by (auto simp: andthen_run split: if_splits)
  qed
qed

lemma effect_evaluated:
  assumes ok: "target_manager_ok m" and wf: "evidence_wf tr se ie"
    and run: "confirmation_evaluate fr p tr se ie m = (out, m')"
  shows "effect (EvaluateEvidence p tr se ie) m m'"
  using ok run
proof (cases rule: evaluate_state)
  case kept
  then show ?thesis using effect_refl [OF ok] by simp
next
  case (rejecting res t reason)
  then show ?thesis
    by (cases rule: reject_candidate_cases) (use effect_refl [OF ok] effect_rejected [OF ok] in \<open>simp_all\<close>)
next
  case (locking res t c)
  show ?thesis
    using locking(1)
  proof (cases rule: lock_confirmed_cases)
    case raised
    then show ?thesis using effect_refl [OF ok] by simp
  next
    case (locked t' ob)
    have "target_manager_ok m'"
      unfolding locked(8) by (rule effect_locked [OF ok _ locked(3,5)]) (simp add: locked(2))
    moreover have target: "followed m' = Some (ie_target ie)"
      using observation_values_Inr(6) [OF locked(5)] wf unfolding locked(8) followed_moved
      by (auto simp: evidence_wf_def stripped_def)
    moreover have "followed m' = followed m" if some: "followed m \<noteq> None"
    proof -
      obtain r where r: "tm_restore m = Some r" "followed m = sn_id r"
        using some locked(2) by (auto simp: followed_def split: option.splits)
      then have "sn_id r = Some (ob_id ob)" using locked(7) some by auto
      then show ?thesis using r(2) unfolding locked(8) followed_moved by simp
    qed
    ultimately show ?thesis using locking(2-4) by (auto simp: effect_def)
  qed
qed

lemma effect_not_visual: "target_manager_ok m' \<Longrightarrow> \<not> visual_op op \<Longrightarrow> effect op m m'"
  by (simp add: effect_def)

lemma effect_reset:
  assumes "target_manager_ok m"
  shows "effect op m (snd (target_reset m))"
proof (cases "tm_lifecycle m = TL_TERMINATED")
  case True
  then have "snd (target_reset m) = target_manager_init"
    by (cases m) (simp add: target_reset_def forget_target_def target_manager_init_def)
  then show ?thesis
    using target_init_ok True by (simp add: effect_def followed_def target_manager_init_def)
next
  case False
  then show ?thesis using effect_refl [OF assms] by (simp add: target_reset_def)
qed

lemma effect_noted:
  assumes ok: "target_manager_ok m" and "tm_spec m = Some s" "texts_ok t"
  shows "effect op m (m\<lparr>tm_spec := Some (s\<lparr>td_notes := t\<rparr>)\<rparr>)"
proof -
  let ?m = "m\<lparr>tm_spec := Some (s\<lparr>td_notes := t\<rparr>)\<rparr>"
  have same: "snapshot_of ?m = snapshot_of m" "history_ok ?m = history_ok m" "restore_ok ?m = restore_ok m"
    by (simp_all add: snapshot_of_def history_ok_def restore_ok_def)
  have "target_spec_ok (s\<lparr>td_notes := t\<rparr>)"
    using ok_parts(2) [OF ok assms(2)] assms(3) by (simp add: target_spec_ok_def)
  then have "content_ok ?m"
    using ok assms(2) same(1) by (simp add: target_manager_ok_def content_ok_def)
  then have "target_manager_ok ?m" using ok same by (simp add: target_manager_ok_def)
  then show ?thesis by (auto simp: effect_def followed_def)
qed

lemma tracking_effect:
  assumes ok: "target_manager_ok m"
    and "start_tracking fr tv m = (out, m') \<or> finish_tracking_segment fr tv m = (out, m') \<or> start_reacquiring fr tv m = (out, m')"
  shows "effect op m m' \<and> ((\<exists>x. out = Inl x) \<longrightarrow> m' = m)"
  using assms(2)
proof (cases rule: tracking_cases)
  case (stepped t new reason)
  have "effect op m m'"
    unfolding stepped(3) using stepped(2,4) ok_parts(1,3) [OF ok]
    by (intro effect_step [OF ok]) (auto simp: snapshot_wf_def snapshot_of_def)
  then show ?thesis using stepped(1) by simp
qed (use effect_refl [OF ok] in simp)

text \<open>Every operation keeps a manager well formed, and one that raises leaves it as it was.\<close>

lemma outcome_run: "outcome r = (e, m') \<longleftrightarrow> (\<exists>out. r = (out, m') \<and> (e \<noteq> None \<longleftrightarrow> (\<exists>x. out = Inl x))
    \<and> (\<forall>x. out = Inl x \<longrightarrow> e = Some x))"
  by (cases r) (auto simp: outcome_def split: sum.splits)

lemma target_do_effect:
  assumes ok: "target_manager_ok m" and wf: "op_wf op" and run: "target_do fr op m = (e, m')"
  shows "effect op m m' \<and> (e \<noteq> None \<longrightarrow> m' = m)"
proof (cases op)
  case (StartSearch s t)
  then obtain out where "start_search fr s t m = (out, m')" "e \<noteq> None \<longleftrightarrow> (\<exists>x. out = Inl x)"
    using run by (auto simp: outcome_run)
  then show ?thesis
    by (cases rule: start_search_cases) (use wf StartSearch effect_refl [OF ok] effect_searching [OF ok] in auto)
next
  case (SetCandidate i t c s p v)
  then obtain out where "set_candidate fr i t c s p v m = (out, m')" "e \<noteq> None \<longleftrightarrow> (\<exists>x. out = Inl x)"
    using run by (auto simp: outcome_run)
  with ok show ?thesis
    by (cases rule: set_candidate_cases) (use effect_refl [OF ok] effect_candidate [OF ok] in \<open>simp_all\<close>)
next
  case (LockConfirmed i t c s p v)
  then obtain out where "lock_confirmed_candidate fr i t c s p v m = (out, m')" "e \<noteq> None \<longleftrightarrow> (\<exists>x. out = Inl x)"
    using run by (auto simp: outcome_run)
  then show ?thesis
    by (cases rule: lock_confirmed_cases)
      (use LockConfirmed effect_refl [OF ok] effect_not_visual effect_locked [OF ok] in \<open>simp_all\<close>)
next
  case (LockOracle i t c p v)
  then obtain out where "lock_oracle_from_search fr i t c p v m = (out, m')" "e \<noteq> None \<longleftrightarrow> (\<exists>x. out = Inl x)"
    using run by (auto simp: outcome_run)
  then show ?thesis
    by (cases rule: lock_oracle_cases)
      (use LockOracle effect_refl [OF ok] effect_not_visual effect_locked [OF ok] in \<open>simp_all\<close>)
next
  case (ReacquiredOracle i t c p v)
  then obtain out where "mark_reacquired_oracle fr i t c p v m = (out, m')" "e \<noteq> None \<longleftrightarrow> (\<exists>x. out = Inl x)"
    using run by (auto simp: outcome_run)
  then show ?thesis
    by (cases rule: reacquired_oracle_cases)
      (use ReacquiredOracle effect_refl [OF ok] effect_not_visual effect_locked [OF ok] in \<open>simp_all\<close>)
next
  case (RejectCandidate t r)
  then obtain out where "reject_candidate fr t r m = (out, m')" "e \<noteq> None \<longleftrightarrow> (\<exists>x. out = Inl x)"
    using run by (auto simp: outcome_run)
  then show ?thesis
    by (cases rule: reject_candidate_cases) (use effect_refl [OF ok] effect_rejected [OF ok] in \<open>simp_all\<close>)
next
  case (MarkLost t p v s)
  then obtain out where "mark_lost fr t p v s m = (out, m')" "e \<noteq> None \<longleftrightarrow> (\<exists>x. out = Inl x)"
    using run by (auto simp: outcome_run)
  then show ?thesis
  proof (cases rule: mark_lost_cases)
    case (lost t position velocity seen)
    have "effect op m m'"
      unfolding lost(8) using lost(2-5) ok_parts(1,3) [OF ok]
      by (intro effect_step [OF ok]) (auto simp: snapshot_wf_def snapshot_of_def)
    then show ?thesis using lost(1) \<open>e \<noteq> None \<longleftrightarrow> (\<exists>x. out = Inl x)\<close> by simp
  qed (use effect_refl [OF ok] in simp)
next
  case (TerminateTarget t r)
  then obtain out where "target_terminate fr t r m = (out, m')" "e \<noteq> None \<longleftrightarrow> (\<exists>x. out = Inl x)"
    using run by (auto simp: outcome_run)
  then show ?thesis
  proof (cases rule: terminate_cases)
    case (terminated t reason)
    have "TL_TERMINATED \<in> set (lifecycle_allowed (tm_lifecycle m))" using terminated(2) by (cases "tm_lifecycle m") auto
    then have "effect op m m'"
      unfolding terminated(4) using terminated(3) ok_parts(1) [OF ok]
      by (intro effect_step [OF ok]) (auto simp: snapshot_wf_def snapshot_of_def)
    then show ?thesis using terminated(1) \<open>e \<noteq> None \<longleftrightarrow> (\<exists>x. out = Inl x)\<close> by simp
  qed (use effect_refl [OF ok] in simp)
next
  case (UpdateNotes v)
  then obtain out where "update_mutable_appearance_notes v m = (out, m')" "e \<noteq> None \<longleftrightarrow> (\<exists>x. out = Inl x)"
    using run by (auto simp: outcome_run)
  with ok show ?thesis
    by (cases rule: notes_cases) (use effect_refl [OF ok] effect_noted [OF ok] in \<open>simp_all\<close>)
next
  case (RegisterCandidate c)
  then obtain out where "register_candidate fr c m = (out, m')" "e \<noteq> None \<longleftrightarrow> (\<exists>x. out = Inl x)"
    using run by (auto simp: outcome_run)
  with ok show ?thesis
    by (cases rule: registration_cases) (use effect_refl [OF ok] effect_candidate [OF ok] in \<open>simp_all\<close>)
next
  case (EvaluateEvidence p tr se ie)
  then obtain out where out: "confirmation_evaluate fr p tr se ie m = (out, m')" "e \<noteq> None \<longleftrightarrow> (\<exists>x. out = Inl x)"
    using run by (auto simp: outcome_run)
  have "m' = m" if "out = Inl x" for x
    using confirmation_branches [OF ok _ out(1)] wf EvaluateEvidence that by (auto split: if_splits)
  then show ?thesis using effect_evaluated [OF ok _ out(1)] wf EvaluateEvidence out(2) by auto
next
  case (StartTracking t)
  then obtain out where "start_tracking fr t m = (out, m')" "e \<noteq> None \<longleftrightarrow> (\<exists>x. out = Inl x)"
    using run by (auto simp: outcome_run)
  then show ?thesis using tracking_effect [OF ok] by blast
next
  case (FinishSegment t)
  then obtain out where "finish_tracking_segment fr t m = (out, m')" "e \<noteq> None \<longleftrightarrow> (\<exists>x. out = Inl x)"
    using run by (auto simp: outcome_run)
  then show ?thesis using tracking_effect [OF ok] by blast
next
  case (StartReacquiring t)
  then obtain out where "start_reacquiring fr t m = (out, m')" "e \<noteq> None \<longleftrightarrow> (\<exists>x. out = Inl x)"
    using run by (auto simp: outcome_run)
  then show ?thesis using tracking_effect [OF ok] by blast
next
  case ResetTarget
  then have "m' = snd (target_reset m)" "e \<noteq> None \<longrightarrow> m' = m"
    using run by (auto simp: outcome_def target_reset_def split: if_splits)
  then show ?thesis using effect_reset [OF ok] by simp
qed (use run effect_refl [OF ok] in \<open>auto simp: outcome_def target_lock_def mark_reacquired_def\<close>)


section \<open>Runs\<close>

fun target_run :: "(rat \<Rightarrow> string) \<Rightarrow> target_op list \<Rightarrow> target_manager \<Rightarrow> target_manager" where
  "target_run fr [] m = m"
| "target_run fr (op # ops) m = target_run fr ops (snd (target_do fr op m))"

lemma target_run_append: "target_run fr (ops @ later) m = target_run fr later (target_run fr ops m)"
  by (induction ops arbitrary: m) simp_all

lemma target_run_ok:
  assumes "list_all op_wf ops" and "target_manager_ok m"
  shows "target_manager_ok (target_run fr ops m)"
  using assms
proof (induction ops arbitrary: m)
  case (Cons op ops)
  then have "effect op m (snd (target_do fr op m))"
    using target_do_effect [of m op fr] by (cases "target_do fr op m") auto
  then show ?case using Cons by (simp add: effect_def)
qed simp

text \<open>
  C39. Whatever is called in whatever order, the events of a target manager follow one another along the
  transition table from \<open>UNINITIALIZED\<close> to its present state at times that never go back, none after a termination, it holds a target
  exactly where its state speaks of one, its snapshot can be taken, and an operation that raises leaves it
  as it was.
\<close>

theorem target_lifecycle_history:
  assumes "list_all op_wf ops" and "m = target_run fr ops target_manager_init"
  shows "walk TL_UNINITIALIZED (tm_events m) = Some (tm_lifecycle m) \<and> sorted (map te_time (tm_events m))
    \<and> (\<forall>e \<in> set (butlast (tm_events m)). te_new e \<noteq> TL_TERMINATED)
    \<and> manager_snapshot m = Inr (snapshot_of m)
    \<and> (tm_lifecycle m \<in> {TL_UNINITIALIZED, TL_SEARCHING} \<longrightarrow> blank (snapshot_of m))
    \<and> (tm_lifecycle m \<in> {TL_CANDIDATE, TL_LOCKED, TL_TRACKING, TL_LOST, TL_REACQUIRING} \<longrightarrow> targeted (snapshot_of m))
    \<and> (\<forall>op e m'. op_wf op \<and> target_do fr op m = (Some e, m') \<longrightarrow> m' = m)"
proof -
  have ok: "target_manager_ok m" using target_run_ok [OF assms(1) target_init_ok] assms(2) by simp
  then have "\<forall>op e m'. op_wf op \<and> target_do fr op m = (Some e, m') \<longrightarrow> m' = m" using target_do_effect by blast
  then show ?thesis
    using ok manager_snapshot_eq [OF ok]
    by (auto simp: target_manager_ok_def content_ok_def history_ok_def dest: walk_termination_last)
qed

lemma followed_by_terminated: "tm_lifecycle m = TL_TERMINATED \<Longrightarrow> followed m = None"
  by (simp add: followed_def)

text \<open>
  C38. Without the Oracle operations, a target that is locked, tracked, lost or sought again was confirmed by one
  evidence bundle: about the candidate of that moment and the target of the mission, positive in every part
  and above every threshold of its policy.  The bundle names the identity that is followed, and that
  identity has been followed ever since.
\<close>

theorem target_identity_confirmed:
  assumes "list_all op_wf ops" and "list_all visual_op ops"
    and "followed (target_run fr ops target_manager_init) = Some i"
  shows "\<exists>older p tr se ie newer. ops = older @ EvaluateEvidence p tr se ie # newer
    \<and> coherent (target_run fr older target_manager_init) tr se ie \<and> positive tr se ie \<and> sufficient p tr se ie
    \<and> ie_target ie = i
    \<and> (\<forall>k. followed (target_run fr (older @ EvaluateEvidence p tr se ie # take k newer) target_manager_init) = Some i)"
  using assms
proof (induction ops arbitrary: i rule: rev_induct)
  case Nil
  then show ?case by (simp add: target_manager_init_def followed_def)
next
  case (snoc op ops)
  let ?g = "target_run fr ops target_manager_init" and ?g' = "target_run fr (ops @ [op]) target_manager_init"
  have g': "?g' = snd (target_do fr op ?g)" by (simp add: target_run_append)
  have ok: "target_manager_ok ?g" using target_run_ok [OF _ target_init_ok] snoc.prems(1) by simp
  have eff: "effect op ?g ?g'"
    using target_do_effect [OF ok] snoc.prems(1) unfolding g' by (cases "target_do fr op ?g") auto
  show ?case
  proof (cases "followed ?g")
    case None
    then obtain p tr se ie where "op = EvaluateEvidence p tr se ie" "coherent ?g tr se ie" "positive tr se ie"
      "sufficient p tr se ie" "ie_target ie = i"
      using eff snoc.prems(2,3) by (auto simp: effect_def)
    then show ?thesis
      using snoc.prems(3) by (intro exI [of _ ops] exI [of _ p] exI [of _ tr] exI [of _ se] exI [of _ ie] exI [of _ "[]"]) simp
  next
    case (Some j)
    have "tm_lifecycle ?g' \<noteq> TL_TERMINATED" using snoc.prems(3) followed_by_terminated by fastforce
    then have "followed ?g = Some i" using eff Some snoc.prems(2,3) by (auto simp: effect_def)
    then obtain older p tr se ie newer where ih: "ops = older @ EvaluateEvidence p tr se ie # newer"
        "coherent (target_run fr older target_manager_init) tr se ie" "positive tr se ie" "sufficient p tr se ie"
        "ie_target ie = i"
        "\<And>k. followed (target_run fr (older @ EvaluateEvidence p tr se ie # take k newer) target_manager_init) = Some i"
      using snoc.IH [of i] snoc.prems(1,2) by auto
    have "followed (target_run fr (older @ EvaluateEvidence p tr se ie # take k (newer @ [op])) target_manager_init) = Some i" for k
    proof (cases "k \<le> length newer")
      case True
      then show ?thesis using ih(6) [of k] by simp
    next
      case False
      then have "older @ EvaluateEvidence p tr se ie # take k (newer @ [op]) = ops @ [op]" using ih(1) by simp
      then show ?thesis using snoc.prems(3) by (simp only:)
    qed
    then show ?thesis
      using ih(1-5) by (intro exI [of _ older] exI [of _ p] exI [of _ tr] exI [of _ se] exI [of _ ie] exI [of _ "newer @ [op]"]) simp
  qed
qed

text \<open>
  C40. What one evidence bundle does to the manager, on every branch: incoherent evidence raises and changes
  nothing; a negative answer returns to the state before the candidate; positive but insufficient evidence
  waits; sufficient evidence for another identity than the tracked one raises and changes nothing; and all
  other evidence locks the target with the weakest of the three confidences.
\<close>

theorem confirmation_exact:
  assumes "list_all op_wf ops" and "m = target_run fr ops target_manager_init"
    and "ShortTrackEvidence v1 v2 v3 v4 v5 v6 = Inr tr" and "SemanticVerification w1 w2 w3 w4 w5 w6 = Inr se"
    and "IdentityConsistencyEvidence u1 u2 u3 u4 u5 u6 u7 u8 = Inr ie"
    and "confirmation_evaluate fr p tr se ie m = (out, m')"
  shows "if \<not> coherent m tr se ie then (\<exists>e. out = Inl (CandidateConfirmationError e)) \<and> m' = m
    else if \<not> positive tr se ie
    then (\<exists>reason. rejection_reason tr se ie = Some reason \<and> out = Inr \<lparr>cf_decision = CD_REJECTED,
        cf_candidate = tk_id tr, cf_target = None, cf_confidence = None, cf_reason = reason\<rparr>)
      \<and> tm_lifecycle m' = (if tm_restore m \<noteq> None then TL_REACQUIRING else TL_SEARCHING)
      \<and> (case tm_restore m of Some r \<Rightarrow> snapshot_of m' = r
         | None \<Rightarrow> blank (snapshot_of m') \<and> tm_description m' = tm_description m)
    else if \<not> sufficient p tr se ie
    then (\<exists>reason. out = Inr \<lparr>cf_decision = CD_PENDING, cf_candidate = tk_id tr, cf_target = None,
        cf_confidence = Some (joint_confidence tr se ie), cf_reason = reason\<rparr>) \<and> m' = m
    else if \<exists>r. tm_restore m = Some r \<and> sn_id r \<noteq> Some (ie_target ie)
    then (\<exists>e. out = Inl (TargetStateError e)) \<and> m' = m
    else out = Inr \<lparr>cf_decision = CD_CONFIRMED, cf_candidate = tk_id tr, cf_target = Some (ie_target ie),
        cf_confidence = Some (joint_confidence tr se ie), cf_reason = ''track_semantic_reid_confirmed''\<rparr>
      \<and> tm_lifecycle m' = TL_LOCKED \<and> tm_id m' = Some (ie_target ie) \<and> tm_restore m' = None
      \<and> tm_confidence m' = Some (joint_confidence tr se ie) \<and> tm_source m' = Some ''confirmed_vision''
      \<and> tm_seen m' = Some (evaluated_at tr se ie)
      \<and> tm_position m' = tm_position m \<and> tm_velocity m' = tm_velocity m"
  by (rule confirmation_branches [OF _ evidence_constructed [OF assms(3-5)] assms(6)])
    (simp add: assms(2) target_run_ok [OF assms(1) target_init_ok])

text \<open>
  A target that is found again by a candidate without a position keeps the position from before it was lost
  and gets the time of the confirmation with it, so an old position is stamped as just seen.
\<close>

theorem reacquired_position_stale:
  assumes "list_all op_wf ops" and "m = target_run fr ops target_manager_init" and "tm_lifecycle m = TL_REACQUIRING"
    and "dc_position c = None" and "register_candidate fr c m = (Inr r, m1)"
    and "evidence_wf tr se ie" and "confirmation_evaluate fr p tr se ie m1 = (Inr result, m2)"
    and "cf_decision result = CD_CONFIRMED"
  shows "tm_lifecycle m2 = TL_LOCKED \<and> tm_position m2 = tm_position m \<and> tm_seen m2 = Some (evaluated_at tr se ie)"
proof -
  have ok: "target_manager_ok m" using target_run_ok [OF assms(1) target_init_ok] assms(2) by simp
  from ok assms(5) have "tm_position m1 = tm_position m \<and> target_manager_ok m1"
  proof (cases rule: registration_cases)
    case (candidate t ob)
    have "ob_position ob = None"
      using observation_values_Inr(7) [OF candidate(5)] assms(4) by (simp add: optional_vector3_def vector3_or_none_def)
    then show ?thesis
      using effect_candidate [OF ok candidate(2,3,5), of undefined "''candidate_detected''"] candidate(7)
      by (simp add: effect_def moved_def apply_observation_values_def)
  qed simp
  then show ?thesis
    using confirmation_branches [OF _ assms(6,7)] assms(8) by (auto split: if_splits)
qed

text \<open>
  A rejected candidate leaves no trace but its events: the manager shows the same snapshot as before the
  candidate was set, in the search as in the search for a lost target.
\<close>

theorem rejected_candidate_restores:
  assumes "list_all op_wf ops" and "m = target_run fr ops target_manager_init"
    and "set_candidate fr i t c s p v m = (Inr (), m1)" and "reject_candidate fr t' reason m1 = (Inr (), m2)"
  shows "snapshot_of m2 = snapshot_of m \<and> tm_spec m2 = tm_spec m \<and> tm_restore m2 = tm_restore m"
proof -
  have ok: "target_manager_ok m" using target_run_ok [OF assms(1) target_init_ok] assms(2) by simp
  from ok assms(3) show ?thesis
  proof (cases rule: set_candidate_cases)
    case set: (candidate t1 ob)
    from assms(4) show ?thesis
    proof (cases rule: reject_candidate_cases)
      case (rejected t2 words)
      have "tm_restore m = None" using set(2) ok_parts(3) [OF ok] by auto
      moreover have "blank (snapshot_of m)" if "tm_lifecycle m = TL_SEARCHING" using ok_parts(5) [OF ok] that by simp
      ultimately show ?thesis
        using set(2) unfolding rejected(5) set(7)
        by (auto simp: moved_def restored_def forget_target_def snapshot_of_def apply_observation_values_def blank_def)
    qed simp
  qed simp
qed


section \<open>A target found, lost and found again\<close>

definition red_car :: target_spec where
  "red_car = \<lparr>td_original = ''red car'', td_category = ''car'', td_hard = [], td_soft = [], td_negative = [],
     td_relation = [], td_ladder = [''car''], td_questions = [], td_identity = ''red car'', td_notes = []\<rparr>"

definition seen_at :: "string \<Rightarrow> rat \<Rightarrow> rat list option \<Rightarrow> detection_candidate" where
  "seen_at i t p = \<lparr>dc_id = i, dc_time = t, dc_confidence = 3 / 4, dc_source = ''detector'', dc_position = p, dc_velocity = None\<rparr>"

definition track_of :: "string \<Rightarrow> rat \<Rightarrow> track_evidence" where
  "track_of i t = \<lparr>tk_id = i, tk_time = t + 1, tk_count = 3, tk_duration = 1, tk_stable = True, tk_confidence = 3 / 4\<rparr>"

definition semantic_of :: "string \<Rightarrow> rat \<Rightarrow> semantic_evidence" where
  "semantic_of i t = \<lparr>se_id = i, se_time = t + 2, se_description = ''red car'', se_matches = True, se_confidence = 3 / 4,
     se_verifier = ''vlm''\<rparr>"

definition identity_of :: "string \<Rightarrow> string \<Rightarrow> rat \<Rightarrow> identity_evidence" where
  "identity_of i target t = \<lparr>ie_id = i, ie_target = target, ie_time = t + 3, ie_reidentified = True, ie_consistent = True,
     ie_count = 3, ie_confidence = 1 / 2, ie_source = ''reid''\<rparr>"

definition usual_policy :: confirmation_policy where
  "usual_policy = \<lparr>cp_observations = 3, cp_duration = 1 / 2, cp_track = 1 / 2, cp_semantic = 1 / 2, cp_identity = 1 / 2,
     cp_consistent = 3\<rparr>"

definition found_and_lost :: "target_op list" where
  "found_and_lost = [StartSearch red_car (pfloat 0), RegisterCandidate (seen_at ''c1'' 1 (Some [1, 2, 3])),
     EvaluateEvidence usual_policy (track_of ''c1'' 1) (semantic_of ''c1'' 1) (identity_of ''c1'' ''car_7'' 1),
     StartTracking (pfloat 5), MarkLost (pfloat 6) PNone PNone PNone, StartReacquiring (pfloat 7)]"

definition example_repr :: "rat \<Rightarrow> string" where "example_repr x = ''0.0''"

definition sought_again :: target_manager where
  "sought_again = target_run example_repr found_and_lost target_manager_init"

definition examined :: target_manager where
  "examined = snd (register_candidate example_repr (seen_at ''c2'' 8 None) sought_again)"

lemma usual_evidence:
  "ShortTrackEvidence (PStr ''c2'') (pfloat 9) (PInt 3) (pfloat 1) (PBool True) (pfloat (3 / 4)) = Inr (track_of ''c2'' 8)"
  "SemanticVerification (PStr ''c2'') (pfloat 10) (PStr ''red car'') (PBool True) (pfloat (3 / 4)) (PStr ''vlm'')
    = Inr (semantic_of ''c2'' 8)"
  "IdentityConsistencyEvidence (PStr ''c2'') (PStr ''car_7'') (pfloat 11) (PBool True) (PBool True) (PInt 3)
    (pfloat (1 / 2)) (PStr ''reid'') = Inr (identity_of ''c2'' ''car_7'' 8)"
  by code_simp+

lemma usual_ops: "list_all op_wf found_and_lost" "list_all visual_op found_and_lost"
  by code_simp+

lemma sought_again_state: "tm_lifecycle sought_again = TL_REACQUIRING" "followed sought_again = Some ''car_7''"
    "tm_position sought_again = Some [1, 2, 3]" "map te_new (tm_events sought_again) =
     [TL_SEARCHING, TL_CANDIDATE, TL_LOCKED, TL_TRACKING, TL_LOST, TL_REACQUIRING]"
  by code_simp+


theorem target_spec_round_trip_witness:
  "target_spec_from_dict (pdict (target_spec_to_dict red_car)) = Inr red_car"
proof -
  have "TargetSpec (PStr '' red car'') (PStr ''car'') PNone (PList []) (PTuple []) PNone (PList [PStr ''car '']) PNone PNone PNone PNone
      = Inr red_car" by code_simp
  from target_spec_round_trip [OF this] show ?thesis by simp
qed

theorem target_lifecycle_history_witness:
  "walk TL_UNINITIALIZED (tm_events sought_again) = Some TL_REACQUIRING \<and> targeted (snapshot_of sought_again)"
  using target_lifecycle_history [OF usual_ops(1) sought_again_def] sought_again_state(1) by simp

theorem target_identity_confirmed_witness:
  "\<exists>older p tr se ie newer. found_and_lost = older @ EvaluateEvidence p tr se ie # newer \<and> ie_target ie = ''car_7''
     \<and> sufficient p tr se ie"
  using target_identity_confirmed [OF usual_ops sought_again_state(2) [unfolded sought_again_def]] by blast

lemma examined_state:
  "list_all op_wf (found_and_lost @ [RegisterCandidate (seen_at ''c2'' 8 None)])"
  "examined = target_run example_repr (found_and_lost @ [RegisterCandidate (seen_at ''c2'' 8 None)]) target_manager_init"
  "coherent examined (track_of ''c2'' 8) (semantic_of ''c2'' 8) (identity_of ''c2'' ''car_7'' 8)"
  "positive (track_of ''c2'' 8) (semantic_of ''c2'' 8) (identity_of ''c2'' ''car_7'' 8)"
  "sufficient usual_policy (track_of ''c2'' 8) (semantic_of ''c2'' 8) (identity_of ''c2'' ''car_7'' 8)"
  "map_option sn_id (tm_restore examined) = Some (Some ''car_7'')"
  "tm_id examined = Some ''c2''"
proof -
  show "examined = target_run example_repr (found_and_lost @ [RegisterCandidate (seen_at ''c2'' 8 None)]) target_manager_init"
    by (simp add: examined_def sought_again_def target_run_append outcome_def)
qed (code_simp+)

theorem confirmation_exact_witness:
  "tm_id examined = Some ''c2'' \<and> tm_id (snd (confirmation_evaluate example_repr usual_policy (track_of ''c2'' 8)
     (semantic_of ''c2'' 8) (identity_of ''c2'' ''car_7'' 8) examined)) = Some ''car_7''"
proof -
  obtain r where "tm_restore examined = Some r" "sn_id r = Some ''car_7''" using examined_state(6) by auto
  then show ?thesis
    using confirmation_exact [OF examined_state(1,2) usual_evidence prod.collapse [symmetric], where p = usual_policy]
      examined_state(3-5,7) by (simp add: identity_of_def)
qed

theorem reacquired_position_stale_witness:
  "tm_position (snd (confirmation_evaluate example_repr usual_policy (track_of ''c2'' 8)
     (semantic_of ''c2'' 8) (identity_of ''c2'' ''car_7'' 8) examined)) = Some [1, 2, 3]"
proof -
  let ?r = "register_candidate example_repr (seen_at ''c2'' 8 None) sought_again"
  let ?e = "confirmation_evaluate example_repr usual_policy (track_of ''c2'' 8) (semantic_of ''c2'' 8)
    (identity_of ''c2'' ''car_7'' 8) examined"
  have "\<not> isl (fst ?r)" by code_simp
  then have r: "?r = (Inr (projr (fst ?r)), examined)" by (cases ?r; cases "fst ?r") (simp_all add: examined_def)
  have "\<not> isl (fst ?e)" by code_simp
  then have e: "?e = (Inr (projr (fst ?e)), snd ?e)" by (cases ?e; cases "fst ?e") simp_all
  have "cf_decision (projr (fst ?e)) = CD_CONFIRMED" by code_simp
  from reacquired_position_stale [OF usual_ops(1) sought_again_def sought_again_state(1) _ r
      evidence_constructed [OF usual_evidence] e this] sought_again_state(3)
  show ?thesis by (simp add: seen_at_def)
qed

theorem rejected_candidate_restores_witness:
  "snapshot_of (snd (reject_candidate example_repr (pfloat 9) (PStr ''wrong'') examined)) = snapshot_of sought_again"
proof -
  let ?s = "set_candidate example_repr (PStr ''c2'') (pfloat 8) (pfloat (3 / 4)) (PStr ''detector'') PNone PNone sought_again"
  have "fst ?s = Inr ()" by code_simp
  then have set: "?s = (Inr (), examined)"
    by (cases ?s) (simp add: examined_def register_candidate_def sought_again_state(1) seen_at_def)
  have "fst (reject_candidate example_repr (pfloat 9) (PStr ''wrong'') examined) = Inr ()" by code_simp
  then have "reject_candidate example_repr (pfloat 9) (PStr ''wrong'') examined
      = (Inr (), snd (reject_candidate example_repr (pfloat 9) (PStr ''wrong'') examined))"
    by (metis prod.collapse)
  from rejected_candidate_restores [OF usual_ops(1) sought_again_def set this] show ?thesis by simp
qed

end
