(* ===== verification/Spec2Isabelle.thy ===== *)
theory Spec2Isabelle
  imports Target_Registry Model_Broker Planning_Recovery Program_Executor Route_Registry
    Review_Scheduler Collision_Supervisor Dispatcher_Progress Text_Publication
    Airspace_Separation Route_Collision Target_Identity
begin

text \<open>
  A verification development of the coordination core of \<open>vlm_drone\<close>: the part under
  \<open>src/uav_agent\<close> that decides which vehicle owns a target, which model call runs next, which
  step of a mission comes next and whether a vehicle must hold.  The vision models, the simulator and
  the language model planners around it produce and consume the values of this core; they are
  arguments of the definitions here.

  \<^bold>\<open>The program and the theories.\<close>  Each theory models one source file, in the order of the file, one
  definition for each operation; names are those of the source where Isabelle allows it.

    \<^item> \<open>Py_Prelude\<close>, \<open>Py_Containers\<close>: Python values, exceptions, string and number checks; insertion
      ordered dictionaries as association lists, bounded logs, labelled runs.  The locales that several
      components interpret are here: ordered stores (\<open>dict\<close>), logs with a bound (\<open>deque\<close> with
      \<open>maxlen\<close>) and runs that append to a history.
    \<^item> \<open>Routing_Ids\<close>: \<open>common/ids.py\<close>, the validated identifiers of every message.
    \<^item> \<open>Target_Registry\<close>: \<open>fleet/target_registry.py\<close>, claims on shared targets.  A vehicle claims a
      target under a trusted assignment; an exclusive target has one owner, chosen by priority.  Staged
      copies are part of its runs: of several registries, each an operation's, a clone or adopted into another.
    \<^item> \<open>Target_Lifecycle\<close>, \<open>Target_Confirmation\<close>, \<open>Target_Identity\<close>: \<open>target/types.py\<close>,
      \<open>common/provenance.py\<close> and \<open>target/target_manager.py\<close>, the lifecycle of the target of one vehicle;
      \<open>perception/types.py\<close> and \<open>perception/confirmation.py\<close>, the evidence that locks it; and what the two
      guarantee together: no identity is followed that no evidence confirmed.
    \<^item> \<open>Model_Broker\<close>: \<open>fleet/model_request_broker.py\<close>, admission of model calls with global and per
      vehicle limits, priorities, aging, replacement and preemption.
    \<^item> \<open>Async_Worker\<close>: \<open>models/async_worker.py\<close>, the thread of a vehicle that makes the admitted calls.
    \<^item> \<open>Request_Dispatcher\<close>, \<open>Dispatcher_Delivery\<close>, \<open>Dispatcher_Progress\<close>:
      \<open>fleet/model_request_dispatcher.py\<close>, which joins the two: it admits a vehicle's requests to the
      broker, hands what the broker starts to the worker and queues the results.  The first theory is
      the model; the second shows that no request is lost or answered twice, the third that each one is
      answered when the threads answer, both over a broker with one slot for each vehicle
      (\<open>max_inflight_per_uav\<close> is 1, as in the shipped configurations), and what goes wrong with a second slot.
    \<^item> \<open>Text_Runner\<close>, \<open>Text_Publication\<close>: \<open>BrokeredTextTaskRunner\<close> of the same file, replanning
      computations on the same broker: the model, and what reaches the owner when computations are
      revoked while their threads run.  The callback that prepares a computation does not call the runner.
      \<open>Broker_View\<close> holds what both owners know of a broker that others use too.
    \<^item> \<open>Planning_State\<close>, \<open>Planning_Recovery\<close>: \<open>fleet/planning_state.py\<close> and
      \<open>fleet/planning_recovery.py\<close>, the lifecycle of an assignment's plan and its repair budget.
    \<^item> \<open>Task_Plan\<close>, \<open>Mission_Program\<close>, \<open>Program_Patch\<close>, \<open>Program_Executor\<close>: \<open>skills/plan.py\<close>,
      \<open>planner/mission_program.py\<close>, \<open>planner/program_patch.py\<close> and \<open>runtime/program_executor.py\<close>.  A
      linear plan becomes a graph of nodes and event edges; the executor walks it, and a patch replaces
      what lies ahead of the current node.
    \<^item> \<open>Mission_Events\<close>: \<open>runtime/events.py\<close>, the events of a mission with frozen JSON payloads and the
      bounded bus that carries them.
    \<^item> \<open>Spatial_Contract\<close>, \<open>Route_Registry\<close>: \<open>planner/spatial.py\<close>, and \<open>planner/route_types.py\<close>,
      \<open>planner/route_critic.py\<close> (its verdict) and \<open>runtime/route_registry.py\<close>, the life of a proposed
      route.
    \<^item> \<open>Obstacle_Geometry\<close>, \<open>Hazard_Fusion\<close>, \<open>Collision_Supervisor\<close>: \<open>common/obstacle_types.py\<close>,
      \<open>runtime/hazard_fusion.py\<close> and \<open>runtime/collision_supervisor.py\<close>.  Observed boxes are tested
      against the flight corridor, the reports of the sources are fused, and the supervisor holds the
      vehicle until a checked route is accepted.
    \<^item> \<open>Route_Collision\<close>: \<open>env/obstacle_registry.py\<close> and \<open>runtime/route_collision_monitor.py\<close>.  The monitor
      sweeps the path of a vehicle between two samples of its position through the obstacles of the scene
      and closes the route it executes.  The skill manager and the sinks are callbacks on a state of their own.
    \<^item> \<open>Airspace_Manager\<close>, \<open>Airspace_Separation\<close>: \<open>fleet/airspace_manager.py\<close>, the separation of the
      vehicles of a fleet: the model, and that its predictions are those of the straight courses.
    \<^item> \<open>Review_Scheduler\<close>: \<open>runtime/review_scheduler.py\<close>, when a vehicle may ask for a visual review.

  \<^bold>\<open>State and effects.\<close>  The attributes of an object are the fields of a record; a method takes the
  record and returns the new one together with its result.  A raise is a value \<open>Inl\<close> of the type
  \<open>error\<close> with its message; where an operation raises after it has changed its object, the changed
  record is returned beside the error, so that partial effects are visible.  A method that runs under
  a lock is one step, and the interleavings of threads are the runs of a step relation.  Arguments
  whose type the source checks at run time are values of the type \<open>pyval\<close> of Python values, enumeration members and dataclass objects included; arguments
  whose class is enforced by their constructor are typed.  A constructor with \<open>__post_init__\<close> is a
  function of the same name from Python values to the record.

  \<^bold>\<open>Numbers.\<close>  Python integers are \<open>int\<close>.  Floating point numbers are exact rationals with the
  infinities and NaN (\<open>pyfloat\<close>); rounding is not modelled, so the bounds proved here are those of the
  formulas of the source, and an overflow to infinity in them, which the source's checks on its own results would
  reject, does not arise.  Where the source takes a square root to compare a distance, the model
  compares squares and its header says so; the distances and times the airspace manager reports are real
  square roots.  Two tolerances of the source are part of the properties: a segment that moves by at most
  \<open>1e-15\<close> along an axis does not move there (\<open>snapped\<close> in \<open>Obstacle_Geometry\<close>), and two vehicles with a relative
  speed of at most \<open>1e-6\<close> m/s keep their distance (\<open>expected\<close> in \<open>Airspace_Separation\<close>).

  \<^bold>\<open>What comes from outside.\<close>  The clock, \<open>uuid4().hex\<close>, the text of \<open>float.__repr__\<close>, \<open>str\<close> of a key
  that is no string, the answer of a model, the planner and the compiler are arguments of the
  definitions that use them.

  \<^bold>\<open>What the lemmas show.\<close>  For each component: its invariant and that each operation keeps it, errors
  included; what each operation returns on each branch; and from these the properties, each beside a
  witness that applies it to a concrete run.  The locale \<open>ledger\<close> of \<open>Py_Ledger\<close> carries the accounts of
  what enters and leaves a component along its runs.  Round trips relate serializers and parsers; a patched
  program has exactly the transitions of its old part and of the patch; the executor
  is proved equivalent to a walk through the linear plan and to end; the bus refines an unbounded log;
  the slab test of a segment and a box is proved equivalent to its definition by points.

  \<^bold>\<open>Termination.\<close>  All definitions are total.  Recursion follows the data or a measure; the loop of a
  poll counts the queue length taken before it starts, as the source does.

  \<^bold>\<open>Not modelled.\<close>  Training, perception, data generation, visualization, the simulator environment and
  the scripts are numeric or input and output code around the core.  The planners and clients that
  build prompts and parse answers of language models, the skills that fly the vehicle in the
  simulator, the agents and the fleet runtime that tie the components to threads and sockets are not
  modelled either: what they rely on is the contract proved here.  Of the modelled files, the route
  critic's clearance over a map file and the camera pose (square roots of floating point numbers)
  are left out.
\<close>

end
